(* ===== verification/OW_Prelude.thy ===== *)
theory OW_Prelude
  imports Main "HOL-Library.Word"
begin

text \<open>
  Shared vocabulary of the owlib model: the C scalar types, the return-code conventions of
  \<^verbatim>\<open>ow_localreturns.h\<close>, the error numbers the code returns, and C memory blocks.

  A memory block is a list of cells. A cell is \<^const>\<open>None\<close> while the C object is
  indeterminate (fresh from \<^verbatim>\<open>malloc\<close> or \<^verbatim>\<open>realloc\<close>) and \<open>Some b\<close> once written. The block
  operations return an option: \<^const>\<open>None\<close> is undefined behaviour (an access outside the block,
  or a read of an indeterminate cell), so that memory safety is a theorem about the model and
  never an assumption of it.
\<close>

unbundle bit_operations_syntax

type_synonym byte = "8 word"
type_synonym uint16 = "16 word"
type_synonym uint = "32 word"
type_synonym cell = "byte option"

named_theorems memblk \<open>access to C memory blocks\<close>
named_theorems errnos \<open>values of the error numbers\<close>

section \<open>Return codes\<close>

text \<open>The enumeration of \<^verbatim>\<open>ow_localreturns.h\<close>, and its integer values.\<close>

datatype GOOD_OR_BAD = gbGOOD | gbBAD | gbOTHER

definition GOOD :: "GOOD_OR_BAD \<Rightarrow> bool" where
  "GOOD x \<longleftrightarrow> x = gbGOOD"

definition BAD :: "GOOD_OR_BAD \<Rightarrow> bool" where
  "BAD x \<longleftrightarrow> x \<noteq> gbGOOD"

fun gb_int :: "GOOD_OR_BAD \<Rightarrow> int" where
  "gb_int gbGOOD = 0"
| "gb_int gbBAD = 1"
| "gb_int gbOTHER = 2"

lemma GOOD_simps [simp]: "GOOD gbGOOD" "\<not> GOOD gbBAD" "\<not> GOOD gbOTHER"
  by (simp_all add: GOOD_def)

lemma BAD_simps [simp]: "\<not> BAD gbGOOD" "BAD gbBAD" "BAD gbOTHER"
  by (simp_all add: BAD_def)

lemma not_BAD_eq [simp]: "\<not> BAD x \<longleftrightarrow> x = gbGOOD"
  by (simp add: BAD_def)

definition ENOMEM :: int where [errnos]: "ENOMEM = 12"
definition EIO :: int where [errnos]: "EIO = 5"
definition ENODEV :: int where [errnos]: "ENODEV = 19"
definition EINVAL :: int where [errnos]: "EINVAL = 22"
definition ELOOP :: int where [errnos]: "ELOOP = 40"
definition EMSGSIZE :: int where [errnos]: "EMSGSIZE = 90"
definition INDEX_BAD :: int where [errnos]: "INDEX_BAD = -1"

section \<open>Memory blocks\<close>

definition blk_store :: "nat \<Rightarrow> 'a list \<Rightarrow> 'a list \<Rightarrow> 'a list option" where
  "blk_store off xs blk =
     (if off + length xs \<le> length blk
      then Some (take off blk @ xs @ drop (off + length xs) blk) else None)"

definition blk_load :: "nat \<Rightarrow> nat \<Rightarrow> cell list \<Rightarrow> byte list option" where
  "blk_load off n blk =
     (if off + n \<le> length blk \<and> None \<notin> set (take n (drop off blk))
      then Some (map the (take n (drop off blk))) else None)"

text \<open>A successful \<^verbatim>\<open>owrealloc\<close>: the old contents up to the smaller size, then indeterminate cells.
  Whether an allocation succeeds is an argument of every operation that allocates.\<close>

definition owrealloc :: "'a option list option \<Rightarrow> nat \<Rightarrow> 'a option list" where
  "owrealloc blk n =
     (let old = (case blk of None \<Rightarrow> [] | Some b \<Rightarrow> b)
      in take n old @ replicate (n - length old) None)"

lemma length_owrealloc [simp]: "length (owrealloc blk n) = n"
  by (simp add: owrealloc_def Let_def)

lemma take_owrealloc [memblk]:
  "k \<le> n \<Longrightarrow> k \<le> length b \<Longrightarrow> take k (owrealloc (Some b) n) = take k b"
  by (simp add: owrealloc_def Let_def min_def)

lemma blk_store_SomeI [memblk]:
  "off + length xs \<le> length blk \<Longrightarrow>
     blk_store off xs blk = Some (take off blk @ xs @ drop (off + length xs) blk)"
  by (simp add: blk_store_def)

lemma blk_store_length:
  "blk_store off xs blk = Some blk' \<Longrightarrow> length blk' = length blk"
  by (auto simp: blk_store_def split: if_splits)

lemma blk_store_take:
  "blk_store off xs blk = Some blk' \<Longrightarrow> take (off + length xs) blk' = take off blk @ xs"
  by (auto simp: blk_store_def min_absorb2 split: if_splits)

lemma blk_load_length:
  "blk_load off n blk = Some bs \<Longrightarrow> length bs = n"
  by (auto simp: blk_load_def min_def split: if_splits)

lemma map_the_map_Some [simp]: "map the (map Some xs) = xs"
  by (induction xs) auto

lemma map_Some_the: "None \<notin> set xs \<Longrightarrow> map Some (map the xs) = xs"
  by (induction xs) auto

lemma blk_load_prefix [memblk]:
  "take n blk = map Some xs \<Longrightarrow> n \<le> length blk \<Longrightarrow> blk_load 0 n blk = Some xs"
  by (auto simp: blk_load_def)

section \<open>Lists\<close>

lemma take_take_prefix:
  "m \<le> n \<Longrightarrow> take n xs = take n ys \<Longrightarrow> take m xs = take m ys"
  by (metis min.absorb1 take_take)

lemma list_all_upt_nth:
  "list_all (\<lambda>i. P (xs ! i)) [0..<length xs] \<longleftrightarrow> list_all P xs"
  by (auto simp: list_all_length)

section \<open>Words\<close>

lemma xor_right_cancel [simp]: "a XOR c = b XOR c \<longleftrightarrow> a = b" for a :: "'a::len word"
  by (metis xor.assoc xor.right_neutral xor_self_eq)

lemma xor_left_cancel [simp]: "c XOR a = c XOR b \<longleftrightarrow> a = b" for a :: "'a::len word"
  by (metis xor.assoc xor.left_neutral xor_self_eq)

lemma xor_eq_0_iff [simp]: "a XOR b = 0 \<longleftrightarrow> a = b" for a :: "'a::len word"
  by (metis xor_left_cancel xor_self_eq)

lemma xor_xor_left [simp]: "a XOR a XOR b = b" for a :: "'a::len word"
  by (metis xor.assoc xor.left_neutral xor_self_eq)

lemma xor_exchange:
  fixes a b c d :: "'a::len word"
  assumes "a XOR b = c XOR d"
  shows "a XOR c = b XOR d"
proof -
  have "a = c XOR d XOR b"
    using assms by (metis xor.assoc xor.right_neutral xor_self_eq)
  then show ?thesis by (simp add: ac_simps)
qed

lemma and_255: "x AND 255 = take_bit 8 x" for x :: "'a::len word"
  by (simp add: take_bit_eq_mask mask_eq_exp_minus_1)

lemma ucast_uint_byte [simp]: "ucast (ucast b :: uint) = b" for b :: byte
  by (rule bit_word_eqI) (auto simp: bit_simps)

lemma ucast_uint_uint16 [simp]: "ucast (ucast b :: uint) = b" for b :: uint16
  by (rule bit_word_eqI) (auto simp: bit_simps)

lemma ucast_uint16_byte [simp]: "ucast (ucast b :: uint16) = b" for b :: byte
  by (rule bit_word_eqI) (auto simp: bit_simps)

lemma ucast_uint16_byte_inj [simp]: "ucast a = (ucast b :: uint16) \<longleftrightarrow> a = b" for a b :: byte
proof
  assume "ucast a = (ucast b :: uint16)"
  then have "ucast (ucast a :: uint16) = (ucast (ucast b :: uint16) :: byte)" by simp
  then show "a = b" by simp
qed simp

end
