(* ===== verification/OW_Crc.thy ===== *)
theory OW_Crc
  imports OW_Prelude
begin

text \<open>
  The cyclic redundancy checks of \<^verbatim>\<open>module/owlib/src/c/ow_crc.c\<close>: the table-driven CRC8
  (\<^verbatim>\<open>CRC8compute\<close>), the nibble-parity CRC16 (\<^verbatim>\<open>CRC16compute\<close>) and the wrappers that keep the
  statistics counters. The reference definitions are the bit-serial shift registers of the 1-Wire
  protocol (polynomials \<open>x^8+x^5+x^4+1\<close> and \<open>x^16+x^15+x^2+1\<close>, bits reflected), and the lemmas
  show that the optimised routines compute them, that a block extended by its own check bytes is
  accepted, and that every corruption confined to one byte is detected.
\<close>

section \<open>The code\<close>

definition crc8_table :: "byte list" where
  "crc8_table = [
    0, 94, 188, 226, 97, 63, 221, 131, 194, 156, 126, 32, 163, 253, 31, 65,
    157, 195, 33, 127, 252, 162, 64, 30, 95, 1, 227, 189, 62, 96, 130, 220,
    35, 125, 159, 193, 66, 28, 254, 160, 225, 191, 93, 3, 128, 222, 60, 98,
    190, 224, 2, 92, 223, 129, 99, 61, 124, 34, 192, 158, 29, 67, 161, 255,
    70, 24, 250, 164, 39, 121, 155, 197, 132, 218, 56, 102, 229, 187, 89, 7,
    219, 133, 103, 57, 186, 228, 6, 88, 25, 71, 165, 251, 120, 38, 196, 154,
    101, 59, 217, 135, 4, 90, 184, 230, 167, 249, 27, 69, 198, 152, 122, 36,
    248, 166, 68, 26, 153, 199, 37, 123, 58, 100, 134, 216, 91, 5, 231, 185,
    140, 210, 48, 110, 237, 179, 81, 15, 78, 16, 242, 172, 47, 113, 147, 205,
    17, 79, 173, 243, 112, 46, 204, 146, 211, 141, 111, 49, 178, 236, 14, 80,
    175, 241, 19, 77, 206, 144, 114, 44, 109, 51, 209, 143, 12, 82, 176, 238,
    50, 108, 142, 208, 83, 13, 239, 177, 240, 174, 76, 18, 145, 207, 45, 115,
    202, 148, 118, 40, 171, 245, 23, 73, 8, 86, 180, 234, 105, 55, 213, 139,
    87, 9, 235, 181, 54, 104, 138, 212, 149, 203, 41, 119, 244, 170, 72, 22,
    233, 183, 85, 11, 136, 214, 52, 106, 43, 117, 151, 201, 74, 20, 246, 168,
    116, 42, 200, 150, 21, 75, 169, 247, 182, 232, 10, 84, 215, 137, 107, 53
  ]"

definition crc16_table :: "uint list" where
  "crc16_table = [0, 1, 1, 0, 1, 0, 0, 1, 1, 0, 0, 1, 0, 1, 1, 0]"

definition crc8_step :: "byte \<Rightarrow> byte \<Rightarrow> byte" where
  "crc8_step crc b = crc8_table ! unat (crc XOR b)"

definition CRC8compute :: "byte list \<Rightarrow> uint \<Rightarrow> byte" where
  "CRC8compute bytes seed = foldl crc8_step (ucast seed) bytes"

definition crc16_step :: "uint \<Rightarrow> byte \<Rightarrow> uint" where
  "crc16_step crc b =
     (let c = (ucast b XOR (crc AND 255)) AND 255;
          crc = drop_bit 8 crc;
          crc = (if crc16_table ! unat (c AND 15) XOR crc16_table ! unat (drop_bit 4 c) \<noteq> 0
                 then crc XOR 0xC001 else crc);
          c = push_bit 6 c;
          crc = crc XOR c
      in crc XOR push_bit 1 c)"

definition CRC16compute :: "byte list \<Rightarrow> uint \<Rightarrow> uint16" where
  "CRC16compute bytes seed = ucast (foldl crc16_step seed bytes)"

text \<open>The counters of \<^verbatim>\<open>ow_counters.h\<close> that the wrappers update, at the width of \<^verbatim>\<open>UINT\<close>.\<close>

record crc_stats =
  CRC8_tries :: uint
  CRC8_errors :: uint
  CRC16_tries :: uint
  CRC16_errors :: uint

definition CRC8seeded :: "byte list \<Rightarrow> uint \<Rightarrow> crc_stats \<Rightarrow> byte \<times> crc_stats" where
  "CRC8seeded bytes seed st =
     (let r = CRC8compute bytes seed;
          st = st\<lparr>CRC8_tries := CRC8_tries st + 1\<rparr>;
          st = (if r \<noteq> 0 then st\<lparr>CRC8_errors := CRC8_errors st + 1\<rparr> else st)
      in (r, st))"

definition CRC8 :: "byte list \<Rightarrow> crc_stats \<Rightarrow> byte \<times> crc_stats" where
  "CRC8 bytes st = CRC8seeded bytes 0 st"

definition CRC16seeded :: "byte list \<Rightarrow> uint \<Rightarrow> crc_stats \<Rightarrow> int \<times> crc_stats" where
  "CRC16seeded bytes seed st =
     (let crc = CRC16compute bytes seed;
          st = st\<lparr>CRC16_tries := CRC16_tries st + 1\<rparr>
      in if crc = 0xB001 then (0, st)
         else (-1, st\<lparr>CRC16_errors := CRC16_errors st + 1\<rparr>))"

definition CRC16 :: "byte list \<Rightarrow> crc_stats \<Rightarrow> int \<times> crc_stats" where
  "CRC16 bytes st = CRC16seeded bytes 0 st"

section \<open>Reference: the bit-serial shift register\<close>

definition lfsr :: "'a::len word \<Rightarrow> 'a word \<Rightarrow> 'a word" where
  "lfsr poly x = drop_bit 1 x XOR (if bit x 0 then poly else 0)"

definition lfsr8 :: "'a::len word \<Rightarrow> 'a word \<Rightarrow> 'a word" where
  "lfsr8 poly x = (lfsr poly ^^ 8) x"

definition crc8_ref :: "byte list \<Rightarrow> byte \<Rightarrow> byte" where
  "crc8_ref bytes seed = foldl (\<lambda>crc b. lfsr8 0x8C (crc XOR b)) seed bytes"

definition crc16_ref :: "byte list \<Rightarrow> uint16 \<Rightarrow> uint16" where
  "crc16_ref bytes seed = foldl (\<lambda>crc b. lfsr8 0xA001 (crc XOR ucast b)) seed bytes"

section \<open>The shift register is linear\<close>

lemma lfsr_xor: "lfsr p (x XOR y) = lfsr p x XOR lfsr p y"
  by (rule bit_word_eqI) (auto simp: lfsr_def bit_simps)

lemma lfsr_pow_xor: "(lfsr p ^^ n) (x XOR y) = (lfsr p ^^ n) x XOR (lfsr p ^^ n) y"
  by (induction n) (simp_all add: lfsr_xor)

lemma lfsr8_xor: "lfsr8 p (x XOR y) = lfsr8 p x XOR lfsr8 p y"
  by (simp add: lfsr8_def lfsr_pow_xor)


section \<open>The shift register is invertible\<close>

lemma lfsr_inj:
  fixes p :: "'a::len word"
  assumes top: "bit p (LENGTH('a) - 1)" and eq: "lfsr p x = lfsr p y"
  shows "x = y"
proof -
  have "bit (lfsr p x) (LENGTH('a) - 1) = bit x 0" and "bit (lfsr p y) (LENGTH('a) - 1) = bit y 0"
    using top by (auto simp: lfsr_def bit_simps dest: bit_imp_le_length)
  with eq have b0: "bit x 0 = bit y 0" by simp
  with eq have d: "drop_bit 1 x = drop_bit 1 y"
    by (auto simp: lfsr_def xor.assoc dest: arg_cong [where f = "\<lambda>z. z XOR p"] split: if_splits)
  show ?thesis
  proof (rule bit_word_eqI)
    fix n assume "n < LENGTH('a)"
    show "bit x n = bit y n"
    proof (cases n)
      case 0
      then show ?thesis using b0 by simp
    next
      case (Suc m)
      then show ?thesis using arg_cong [OF d, of "\<lambda>z. bit z m"] by (simp add: bit_simps)
    qed
  qed
qed

lemma lfsr_pow_inj:
  fixes p :: "'a::len word"
  assumes "bit p (LENGTH('a) - 1)" and "(lfsr p ^^ n) x = (lfsr p ^^ n) y"
  shows "x = y"
  using assms(2) by (induction n) (auto dest: lfsr_inj [OF assms(1)])

lemma lfsr8_inj:
  fixes p :: "'a::len word"
  assumes "bit p (LENGTH('a) - 1)"
  shows "lfsr8 p x = lfsr8 p y \<longleftrightarrow> x = y"
  using lfsr_pow_inj [OF assms] by (auto simp: lfsr8_def)

lemma lfsr8_CRC8_inj [simp]: "lfsr8 (0x8C :: byte) x = lfsr8 0x8C y \<longleftrightarrow> x = y"
  by (rule lfsr8_inj) simp

lemma lfsr8_CRC16_inj [simp]: "lfsr8 (0xA001 :: uint16) x = lfsr8 0xA001 y \<longleftrightarrow> x = y"
  by (rule lfsr8_inj) simp

lemma lfsr8_0 [simp]: "lfsr8 p 0 = 0"
proof -
  have "(lfsr p ^^ n) 0 = 0" for n by (induction n) (simp_all add: lfsr_def)
  then show ?thesis by (simp add: lfsr8_def)
qed

lemma lfsr_pow_shift:
  assumes "\<And>i. i < n \<Longrightarrow> \<not> bit x i"
  shows "(lfsr p ^^ n) x = drop_bit n x"
  using assms
proof (induction n)
  case 0
  then show ?case by simp
next
  case (Suc n)
  then have "(lfsr p ^^ n) x = drop_bit n x" by simp
  moreover have "lfsr p (drop_bit n x) = drop_bit (Suc n) x"
    using Suc.prems [of n] by (simp add: lfsr_def bit_simps)
  ultimately show ?case by simp
qed

lemma lfsr8_shift: "lfsr8 p (push_bit 8 (drop_bit 8 x)) = drop_bit 8 x"
proof -
  have "lfsr8 p (push_bit 8 (drop_bit 8 x)) = drop_bit 8 (push_bit 8 (drop_bit 8 x))"
    unfolding lfsr8_def by (rule lfsr_pow_shift) (simp add: bit_simps)
  also have "\<dots> = drop_bit 8 x"
    by (rule bit_word_eqI) (auto simp: bit_simps dest: bit_imp_le_length)
  finally show ?thesis .
qed

section \<open>The tables\<close>

lemma lfsr8_unfold:
  "lfsr8 p x = lfsr p (lfsr p (lfsr p (lfsr p (lfsr p (lfsr p (lfsr p (lfsr p x)))))))"
  by (simp add: lfsr8_def eval_nat_numeral)

lemma upt_256: "[0..<256] = [
    0, 1, 2, 3, 4, 5, 6, 7, 8, 9, 10, 11, 12, 13, 14, 15,
    16, 17, 18, 19, 20, 21, 22, 23, 24, 25, 26, 27, 28, 29, 30, 31,
    32, 33, 34, 35, 36, 37, 38, 39, 40, 41, 42, 43, 44, 45, 46, 47,
    48, 49, 50, 51, 52, 53, 54, 55, 56, 57, 58, 59, 60, 61, 62, 63,
    64, 65, 66, 67, 68, 69, 70, 71, 72, 73, 74, 75, 76, 77, 78, 79,
    80, 81, 82, 83, 84, 85, 86, 87, 88, 89, 90, 91, 92, 93, 94, 95,
    96, 97, 98, 99, 100, 101, 102, 103, 104, 105, 106, 107, 108, 109, 110, 111,
    112, 113, 114, 115, 116, 117, 118, 119, 120, 121, 122, 123, 124, 125, 126, 127,
    128, 129, 130, 131, 132, 133, 134, 135, 136, 137, 138, 139, 140, 141, 142, 143,
    144, 145, 146, 147, 148, 149, 150, 151, 152, 153, 154, 155, 156, 157, 158, 159,
    160, 161, 162, 163, 164, 165, 166, 167, 168, 169, 170, 171, 172, 173, 174, 175,
    176, 177, 178, 179, 180, 181, 182, 183, 184, 185, 186, 187, 188, 189, 190, 191,
    192, 193, 194, 195, 196, 197, 198, 199, 200, 201, 202, 203, 204, 205, 206, 207,
    208, 209, 210, 211, 212, 213, 214, 215, 216, 217, 218, 219, 220, 221, 222, 223,
    224, 225, 226, 227, 228, 229, 230, 231, 232, 233, 234, 235, 236, 237, 238, 239,
    240, 241, 242, 243, 244, 245, 246, 247, 248, 249, 250, 251, 252, 253, 254, 255]"
  by (simp add: upt_rec)

lemma byte_nat_cases:
  assumes "map (\<lambda>i. f (of_nat i :: byte)) [0..<256] = map (\<lambda>i. g (of_nat i :: byte)) [0..<256]"
  shows "f x = g x"
proof -
  have "unat x < 256" using unsigned_less [of x] by simp
  then have "map (\<lambda>i. f (of_nat i :: byte)) [0..<256] ! unat x = f x"
    and "map (\<lambda>i. g (of_nat i :: byte)) [0..<256] ! unat x = g x" by simp_all
  with arg_cong [OF assms, of "\<lambda>l. l ! unat x"] show ?thesis by (simp only:)
qed

lemma crc8_table_eq: "crc8_table = map (\<lambda>i. lfsr8 0x8C (of_nat i)) [0..<256]"
  by (subst upt_256) (simp only: list.map, simp add: crc8_table_def lfsr8_unfold lfsr_def)

lemma crc8_step_ref: "crc8_step crc b = lfsr8 0x8C (crc XOR b)"
proof -
  have "unat (crc XOR b) < 256" using unsigned_less [of "crc XOR b"] by simp
  then show ?thesis by (simp add: crc8_step_def crc8_table_eq)
qed

lemma crc16_step_0: "crc16_step 0 b = ucast (lfsr8 (0xA001 :: uint16) (ucast b))"
  by (rule byte_nat_cases, subst (1 2) upt_256)
    (simp only: list.map, simp add: crc16_step_def crc16_table_def lfsr8_unfold lfsr_def)

definition crc16_mix :: "uint \<Rightarrow> uint" where
  "crc16_mix c =
     (if crc16_table ! unat (c AND 15) XOR crc16_table ! unat (drop_bit 4 c) \<noteq> 0 then 0xC001 else 0)
     XOR push_bit 6 c XOR push_bit 1 (push_bit 6 c)"

lemma crc16_step_mix:
  "crc16_step crc b = drop_bit 8 crc XOR crc16_mix ((ucast b XOR (crc AND 255)) AND 255)"
  by (simp only: crc16_step_def crc16_mix_def Let_def xor.assoc split: if_split) simp

lemma crc16_step_split:
  "crc16_step (ucast (x :: uint16)) b = ucast (drop_bit 8 x) XOR crc16_step 0 (ucast x XOR b)"
proof -
  have "(ucast b XOR (ucast x AND 255)) AND (255 :: uint) = ucast (ucast x XOR b :: byte)"
    by (rule bit_word_eqI) (auto simp: and_255 bit_simps dest: bit_imp_le_length)
  moreover have "(ucast (ucast x XOR b :: byte) XOR (0 AND 255)) AND (255 :: uint)
      = ucast (ucast x XOR b :: byte)"
    by (rule bit_word_eqI) (auto simp: and_255 bit_simps dest: bit_imp_le_length)
  moreover have "drop_bit 8 (ucast x :: uint) = ucast (drop_bit 8 x)"
    by (rule bit_word_eqI) (auto simp: bit_simps dest: bit_imp_le_length)
  ultimately show ?thesis by (simp only: crc16_step_mix) simp
qed

lemma word16_split: "x XOR ucast b = push_bit 8 (drop_bit 8 x) XOR ucast (ucast x XOR b :: byte)"
  for x :: uint16
  by (rule bit_word_eqI) (auto simp: bit_simps)

lemma crc16_step_ref:
  "crc16_step (ucast x) b = ucast (lfsr8 (0xA001 :: uint16) (x XOR ucast b))"
proof -
  have "crc16_step (ucast x) b
      = ucast (drop_bit 8 x) XOR ucast (lfsr8 (0xA001 :: uint16) (ucast (ucast x XOR b)))"
    by (simp add: crc16_step_split crc16_step_0)
  also have "\<dots> = ucast (lfsr8 0xA001 (x XOR ucast b))"
    by (subst word16_split) (simp only: lfsr8_xor lfsr8_shift unsigned_xor_eq)
  finally show ?thesis .
qed


lemma crc16_fold_ref:
  "foldl crc16_step (ucast x) bytes = ucast (crc16_ref bytes x)"
  by (induction bytes arbitrary: x) (simp_all add: crc16_ref_def crc16_step_ref)

lemma CRC8compute_append:
  "CRC8compute (xs @ ys) seed = CRC8compute ys (ucast (CRC8compute xs seed))"
  by (simp add: CRC8compute_def)

lemma CRC8compute_Cons:
  "CRC8compute (b # ys) seed = CRC8compute ys (ucast (lfsr8 0x8C (ucast seed XOR b) :: byte))"
  by (simp add: CRC8compute_def crc8_step_ref)

lemma CRC8compute_seed_inj:
  "CRC8compute ys (ucast (a :: byte)) = CRC8compute ys (ucast b) \<longleftrightarrow> a = b"
  by (induction ys arbitrary: a b) (simp_all add: CRC8compute_def crc8_step_ref)

lemma CRC16compute_ucast:
  "CRC16compute bytes (ucast (s :: uint16)) = crc16_ref bytes s"
  by (simp add: CRC16compute_def crc16_fold_ref)

lemma crc16_ref_append: "crc16_ref (xs @ ys) s = crc16_ref ys (crc16_ref xs s)"
  by (simp add: crc16_ref_def)

lemma crc16_ref_Cons: "crc16_ref (b # ys) s = crc16_ref ys (lfsr8 0xA001 (s XOR ucast b))"
  by (simp add: crc16_ref_def)

lemma crc16_ref_seed_inj: "crc16_ref ys a = crc16_ref ys b \<longleftrightarrow> a = b"
  by (induction ys arbitrary: a b) (simp_all add: crc16_ref_def)

lemma upt_1_256: "[1..<256] = tl [0..<256]" by simp

lemma compl_byte: "ucast crc XOR ucast (NOT crc) = (- 1 :: byte)" for crc :: uint16
  by (rule bit_word_eqI) (auto simp: bit_simps)

lemma ucast_m1_byte: "ucast (- 1 :: byte) = (255 :: uint16)"
  by (simp add: unsigned_minus_1_eq_mask mask_eq_exp_minus_1)

lemma crc16_residue:
  "lfsr8 0xA001 (lfsr8 0xA001 (crc XOR ucast (ucast (NOT crc) :: byte))
     XOR ucast (ucast (drop_bit 8 (NOT crc)) :: byte)) = (0xB001 :: uint16)"
  for crc :: uint16
proof -
  have 1: "crc XOR ucast (ucast (NOT crc) :: byte) = push_bit 8 (drop_bit 8 crc) XOR 255"
    by (simp only: word16_split [of crc] compl_byte ucast_m1_byte)
  have 2: "drop_bit 8 crc XOR ucast (ucast (drop_bit 8 (NOT crc)) :: byte) = take_bit 8 (- 1)"
    by (rule bit_word_eqI) (auto simp: bit_simps dest: bit_imp_le_length)
  have "lfsr8 0xA001 (crc XOR ucast (ucast (NOT crc) :: byte))
      XOR ucast (ucast (drop_bit 8 (NOT crc)) :: byte) = take_bit 8 (- 1) XOR lfsr8 0xA001 255"
    by (simp only: 1 lfsr8_xor lfsr8_shift 2 [symmetric] xor.assoc xor.commute xor.left_commute)
  moreover have "lfsr8 0xA001 (take_bit 8 (- 1) XOR lfsr8 0xA001 255) = (0xB001 :: uint16)"
    by (simp add: lfsr8_unfold lfsr_def mask_eq_exp_minus_1)
  ultimately show ?thesis by (simp only:)
qed

lemma crc16_high_table: "map (\<lambda>i. drop_bit 8 (lfsr8 (0xA001 :: uint16) (of_nat i))) [1..<256] = [
    192, 193, 1, 195, 3, 2, 194, 198, 6, 7, 199, 5, 197, 196, 4, 204,
    12, 13, 205, 15, 207, 206, 14, 10, 202, 203, 11, 201, 9, 8, 200, 216,
    24, 25, 217, 27, 219, 218, 26, 30, 222, 223, 31, 221, 29, 28, 220, 20,
    212, 213, 21, 215, 23, 22, 214, 210, 18, 19, 211, 17, 209, 208, 16, 240,
    48, 49, 241, 51, 243, 242, 50, 54, 246, 247, 55, 245, 53, 52, 244, 60,
    252, 253, 61, 255, 63, 62, 254, 250, 58, 59, 251, 57, 249, 248, 56, 40,
    232, 233, 41, 235, 43, 42, 234, 238, 46, 47, 239, 45, 237, 236, 44, 228,
    36, 37, 229, 39, 231, 230, 38, 34, 226, 227, 35, 225, 33, 32, 224, 160,
    96, 97, 161, 99, 163, 162, 98, 102, 166, 167, 103, 165, 101, 100, 164, 108,
    172, 173, 109, 175, 111, 110, 174, 170, 106, 107, 171, 105, 169, 168, 104, 120,
    184, 185, 121, 187, 123, 122, 186, 190, 126, 127, 191, 125, 189, 188, 124, 180,
    116, 117, 181, 119, 183, 182, 118, 114, 178, 179, 115, 177, 113, 112, 176, 80,
    144, 145, 81, 147, 83, 82, 146, 150, 86, 87, 151, 85, 149, 148, 84, 156,
    92, 93, 157, 95, 159, 158, 94, 90, 154, 155, 91, 153, 89, 88, 152, 136,
    72, 73, 137, 75, 139, 138, 74, 78, 142, 143, 79, 141, 77, 76, 140, 68,
    132, 133, 69, 135, 71, 70, 134, 130, 66, 67, 131, 65, 129, 128, 64]"
  by (simp only: upt_1_256 upt_256 list.sel list.map, simp add: lfsr8_unfold lfsr_def)

lemma crc16_high_part:
  assumes "drop_bit 8 (lfsr8 (0xA001 :: uint16) (ucast (b :: byte))) = 0"
  shows "b = 0"
proof (rule ccontr)
  let ?hi = "\<lambda>i. drop_bit 8 (lfsr8 (0xA001 :: uint16) (of_nat i))"
  assume "b \<noteq> 0"
  then have "unat b \<noteq> 0" by (simp add: unsigned_eq_0_iff)
  then have "unat b \<in> set [1..<256]" using unsigned_less [of b, where ?'a = nat] by (simp add: Suc_le_eq)
  then have "?hi (unat b) \<in> set (map ?hi [1..<256])" unfolding set_map by (rule imageI)
  moreover have "?hi (unat b) = 0" using assms by simp
  ultimately have "0 \<in> set (map ?hi [1..<256])" by (simp only:)
  then show False unfolding crc16_high_table by simp
qed

lemma crc16_tail_unique:
  fixes crc :: uint16 and l h l' h' :: byte
  assumes "lfsr8 0xA001 (lfsr8 0xA001 (crc XOR ucast l) XOR ucast h)
         = lfsr8 0xA001 (lfsr8 0xA001 (crc XOR ucast l') XOR ucast h')"
  shows "l = l' \<and> h = h'"
proof -
  let ?f = "lfsr8 (0xA001 :: uint16)"
  have "(?f crc XOR ?f (ucast l)) XOR ucast h = (?f crc XOR ?f (ucast l')) XOR ucast h'"
    using assms by (simp only: lfsr8_CRC16_inj lfsr8_xor [of _ crc])
  then have "?f (ucast l) XOR ucast h = ?f (ucast l') XOR ucast h'"
    by (simp add: xor.assoc)
  then have e: "?f (ucast (l XOR l')) = ucast (h XOR h')"
    unfolding unsigned_xor_eq lfsr8_xor by (rule xor_exchange)
  have "drop_bit 8 (ucast (h XOR h') :: uint16) = 0"
    by (rule bit_word_eqI) (auto simp: bit_simps dest: bit_imp_le_length)
  with e have "l XOR l' = 0" by (metis crc16_high_part)
  then have l: "l = l'" by simp
  with e have "ucast (h XOR h') = (ucast (0 :: byte) :: uint16)" by simp
  then have "h XOR h' = 0" by (simp only: ucast_uint16_byte_inj)
  with l show ?thesis by simp
qed
lemma CRC8_appended:
  "CRC8 (bytes @ [c]) st =
     (if c = CRC8compute bytes 0 then (0, st\<lparr>CRC8_tries := CRC8_tries st + 1\<rparr>)
      else (CRC8compute (bytes @ [c]) 0,
            st\<lparr>CRC8_tries := CRC8_tries st + 1, CRC8_errors := CRC8_errors st + 1\<rparr>))"
proof -
  have "CRC8compute (bytes @ [c]) 0 = lfsr8 0x8C (CRC8compute bytes 0 XOR c)"
    by (simp add: CRC8compute_def crc8_step_ref)
  moreover have "lfsr8 0x8C (CRC8compute bytes 0 XOR c) = 0 \<longleftrightarrow> c = CRC8compute bytes 0"
    using lfsr8_CRC8_inj [of "CRC8compute bytes 0 XOR c" 0] by auto
  ultimately show ?thesis
    by (auto simp: CRC8_def CRC8seeded_def Let_def)
qed

lemma CRC16_appended:
  "CRC16seeded (bytes @ [l, h]) (ucast (seed :: uint16)) st =
     (if l = ucast (NOT (crc16_ref bytes seed)) \<and> h = ucast (drop_bit 8 (NOT (crc16_ref bytes seed)))
      then (0, st\<lparr>CRC16_tries := CRC16_tries st + 1\<rparr>)
      else (-1, st\<lparr>CRC16_tries := CRC16_tries st + 1, CRC16_errors := CRC16_errors st + 1\<rparr>))"
proof -
  let ?c = "crc16_ref bytes seed"
  have c: "crc16_ref (bytes @ [l, h]) seed
      = lfsr8 0xA001 (lfsr8 0xA001 (?c XOR ucast l) XOR ucast h)"
    by (simp add: crc16_ref_def)
  have "crc16_ref (bytes @ [l, h]) seed = 0xB001
      \<longleftrightarrow> l = ucast (NOT ?c) \<and> h = ucast (drop_bit 8 (NOT ?c))"
    unfolding c crc16_residue [of ?c, symmetric] by (metis crc16_tail_unique)
  then show ?thesis
    by (auto simp: CRC16seeded_def CRC16compute_ucast Let_def)
qed

section \<open>Properties\<close>

text \<open>
  C29: the two optimised check-sum routines are the bit-serial shift registers of the 1-Wire
  protocol. The table-driven CRC8 is the 8-bit register for every block and every seed (the seed is
  truncated to a byte); the nibble-parity CRC16 is the 16-bit register for every block and every
  16-bit seed, and no bit above the sixteenth is ever set on the way.
\<close>

theorem CRC_is_lfsr:
  "CRC8compute bytes seed8 = crc8_ref bytes (ucast seed8)
   \<and> foldl crc16_step (ucast seed) bytes = ucast (crc16_ref bytes seed)
   \<and> CRC16compute bytes (ucast seed) = crc16_ref bytes seed"
  by (simp add: CRC8compute_def crc8_ref_def crc8_step_ref [abs_def] crc16_fold_ref CRC16compute_ucast)

text \<open>
  C30: the CRC8 test accepts a block with one appended byte exactly when that byte is the CRC8 of
  the block; the CRC16 test accepts a block with two appended bytes exactly when they are the
  complement of the CRC16 of the block, low byte first (the residue \<open>0xB001\<close>), and returns \<open>-1\<close>
  otherwise. Both count the try, and the error when they reject.
\<close>

theorem CRC_accepts_iff:
  "CRC8 (bytes @ [c]) st =
     (if c = CRC8compute bytes 0 then (0, st\<lparr>CRC8_tries := CRC8_tries st + 1\<rparr>)
      else (CRC8compute (bytes @ [c]) 0,
            st\<lparr>CRC8_tries := CRC8_tries st + 1, CRC8_errors := CRC8_errors st + 1\<rparr>))
   \<and> CRC16seeded (bytes @ [l, h]) (ucast (seed :: uint16)) st =
     (if l = ucast (NOT (crc16_ref bytes seed)) \<and> h = ucast (drop_bit 8 (NOT (crc16_ref bytes seed)))
      then (0, st\<lparr>CRC16_tries := CRC16_tries st + 1\<rparr>)
      else (-1, st\<lparr>CRC16_tries := CRC16_tries st + 1, CRC16_errors := CRC16_errors st + 1\<rparr>))"
  by (simp only: CRC8_appended CRC16_appended)

text \<open>
  C31: a corruption confined to one byte of a block always changes both check values: two blocks
  that agree except in one byte have the same CRC8, and the same CRC16, only if that byte agrees.
\<close>

theorem CRC_detects_byte_corruption:
  "(CRC8compute (xs @ a # ys) seed8 = CRC8compute (xs @ b # ys) seed8 \<longleftrightarrow> a = b)
   \<and> (CRC16compute (xs @ a # ys) (ucast (seed16 :: uint16)) = CRC16compute (xs @ b # ys) (ucast seed16)
      \<longleftrightarrow> a = b)"
  by (simp add: CRC8compute_append CRC8compute_Cons CRC8compute_seed_inj
      CRC16compute_ucast crc16_ref_append crc16_ref_Cons crc16_ref_seed_inj)

end
