(* ===== verification/OW_Bits.thy ===== *)
theory OW_Bits
  imports OW_Prelude
begin

text \<open>
  Bits, hexadecimal digits and little-endian integers: \<^verbatim>\<open>ow_getbit.c\<close>, \<^verbatim>\<open>ow_getbit_U.c\<close>,
  \<^verbatim>\<open>ow_util.c\<close> and \<^verbatim>\<open>ow_integer.h\<close> of owlib. A C buffer is the list of its bytes; a C string is a
  list of characters. A truth value that C returns as an \<^verbatim>\<open>int\<close> of 0 or 1 is a \<^typ>\<open>bool\<close>. The
  lemmas are the access laws of the bit operations, and the round trips of the encodings.
\<close>

section \<open>Bits of a buffer\<close>

definition UT_getbit :: "byte list \<Rightarrow> nat \<Rightarrow> bool" where
  "UT_getbit buf loc \<longleftrightarrow> drop_bit (loc mod 8) (buf ! (loc div 8)) AND 1 \<noteq> 0"

definition UT_setbit :: "byte list \<Rightarrow> nat \<Rightarrow> bool \<Rightarrow> byte list" where
  "UT_setbit buf loc b =
     (if b then buf[loc div 8 := buf ! (loc div 8) OR push_bit (loc mod 8) 1]
      else buf[loc div 8 := buf ! (loc div 8) AND NOT (push_bit (loc mod 8) 1)])"

definition UT_get2bit :: "byte list \<Rightarrow> nat \<Rightarrow> byte" where
  "UT_get2bit buf loc = drop_bit (2 * (loc mod 4)) (buf ! (loc div 4)) AND 3"

definition UT_set2bit :: "byte list \<Rightarrow> nat \<Rightarrow> uint \<Rightarrow> byte list" where
  "UT_set2bit buf loc bits =
     (let p = (ucast (buf ! (loc div 4)) :: uint) in
      buf[loc div 4 := ucast
       (if loc mod 4 = 0 then (p AND 0xFC) OR bits
        else if loc mod 4 = 1 then (p AND 0xF3) OR push_bit 2 bits
        else if loc mod 4 = 2 then (p AND 0xCF) OR push_bit 4 bits
        else (p AND 0x3F) OR push_bit 6 bits)])"

section \<open>Bits of an unsigned integer\<close>

definition UT_getbit_U :: "uint \<Rightarrow> nat \<Rightarrow> bool" where
  "UT_getbit_U U loc \<longleftrightarrow> drop_bit loc U AND 1 \<noteq> 0"

definition UT_setbit_U :: "uint \<Rightarrow> nat \<Rightarrow> bool \<Rightarrow> uint" where
  "UT_setbit_U U loc b =
     (if b then U OR push_bit loc 1
      else if UT_getbit_U U loc then U XOR push_bit loc 1 else U)"

section \<open>Hexadecimal digits\<close>

text \<open>The macros \<^verbatim>\<open>_HEXVALUE\<close> and \<^verbatim>\<open>_TOHEXCHAR\<close>: anything that is no digit and no capital
  \<open>A\<close>--\<open>F\<close> is read as if it were a small letter.\<close>

definition hexvalue :: "char \<Rightarrow> int" where
  "hexvalue c =
     (let v = int (of_char c) in
      if 48 \<le> v \<and> v \<le> 57 then v - 48
      else if 65 \<le> v \<and> v \<le> 70 then v - 65 + 10
      else v - 97 + 10)"

definition tohexchar :: "byte \<Rightarrow> char" where
  "tohexchar c = (if c \<le> 9 then char_of (48 + unat c) else char_of (55 + unat c))"

definition string2num :: "string option \<Rightarrow> byte" where
  "string2num s =
     (case s of None \<Rightarrow> 0
      | Some s \<Rightarrow> word_of_int (hexvalue (s ! 0) * 16 + hexvalue (s ! 1)))"

definition num2string :: "byte \<Rightarrow> string" where
  "num2string n = [tohexchar (drop_bit 4 n), tohexchar (n AND 0x0F)]"

fun string2bytes :: "string \<Rightarrow> nat \<Rightarrow> byte list" where
  "string2bytes str 0 = []"
| "string2bytes str (Suc n) = string2num (Some str) # string2bytes (drop 2 str) n"

fun bytes2string :: "byte list \<Rightarrow> string" where
  "bytes2string [] = []"
| "bytes2string (b # bs) = num2string b @ bytes2string bs"

section \<open>Little-endian integers\<close>

definition UT_uint8 :: "byte list \<Rightarrow> byte" where
  "UT_uint8 p = p ! 0"

definition UT_uint16 :: "byte list \<Rightarrow> uint16" where
  "UT_uint16 p = push_bit 8 (ucast (p ! 1)) OR ucast (p ! 0)"

definition UT_uint24 :: "byte list \<Rightarrow> uint" where
  "UT_uint24 p = push_bit 16 (ucast (p ! 2)) OR push_bit 8 (ucast (p ! 1)) OR ucast (p ! 0)"

definition UT_uint32 :: "byte list \<Rightarrow> uint" where
  "UT_uint32 p = push_bit 24 (ucast (p ! 3)) OR push_bit 16 (ucast (p ! 2))
     OR push_bit 8 (ucast (p ! 1)) OR ucast (p ! 0)"

text \<open>The signed readers shift the top byte, which is unsigned, and reinterpret the result.\<close>

definition UT_int8 :: "byte list \<Rightarrow> int" where
  "UT_int8 p = sint (p ! 0)"

definition UT_int16 :: "byte list \<Rightarrow> int" where
  "UT_int16 p = sint (UT_uint16 p)"

definition UT_int24 :: "byte list \<Rightarrow> int" where
  "UT_int24 p = sint (UT_uint24 p)"

definition UT_int32 :: "byte list \<Rightarrow> int" where
  "UT_int32 p = sint (UT_uint32 p)"

definition UT_uint16_to_bytes :: "uint16 \<Rightarrow> byte list" where
  "UT_uint16_to_bytes num = [ucast (num AND 0xFF), ucast (drop_bit 8 num AND 0xFF)]"

text \<open>The parameter of the 24-bit writer is declared \<^verbatim>\<open>uint16_t\<close>, and is widened to
  \<^verbatim>\<open>int\<close> before it is shifted.\<close>

definition UT_uint24_to_bytes :: "uint16 \<Rightarrow> byte list" where
  "UT_uint24_to_bytes num =
     (let n = (ucast num :: uint) in
      [ucast (n AND 0xFF), ucast (drop_bit 8 n AND 0xFF), ucast (drop_bit 16 n AND 0xFF)])"

definition UT_uint32_to_bytes :: "uint \<Rightarrow> byte list" where
  "UT_uint32_to_bytes num =
     [ucast (num AND 0xFF), ucast (drop_bit 8 num AND 0xFF), ucast (drop_bit 16 num AND 0xFF),
      ucast (drop_bit 24 num AND 0xFF)]"

text \<open>Dates are \<^verbatim>\<open>time_t\<close>, a 64-bit integer; only the low 32 bits are stored.\<close>

definition UT_fromDate :: "64 word \<Rightarrow> byte list" where
  "UT_fromDate d =
     [ucast (d AND 0xFF), ucast (drop_bit 8 d AND 0xFF), ucast (drop_bit 16 d AND 0xFF),
      ucast (drop_bit 24 d AND 0xFF)]"

definition UT_toDate :: "byte list \<Rightarrow> 64 word" where
  "UT_toDate data = ucast (UT_uint32 data)"

section \<open>Lemmas\<close>

lemma and_1_neq_0: "x AND 1 \<noteq> 0 \<longleftrightarrow> bit x 0" for x :: "'a::len word"
  by (simp add: and_one_eq odd_iff_mod_2_eq_one bit_0)

lemma UT_getbit_bit: "UT_getbit buf loc \<longleftrightarrow> bit (buf ! (loc div 8)) (loc mod 8)"
  by (simp add: UT_getbit_def and_1_neq_0 bit_simps)

lemma length_UT_setbit [simp]: "length (UT_setbit buf loc b) = length buf"
  by (simp add: UT_setbit_def)

lemma UT_getbit_setbit:
  assumes "loc div 8 < length buf"
  shows "UT_getbit (UT_setbit buf loc b) i \<longleftrightarrow> (if i = loc then b else UT_getbit buf i)"
proof (cases "i div 8 = loc div 8")
  case True
  have "i = loc \<longleftrightarrow> i mod 8 = loc mod 8"
    using True by (metis mod_div_decomp)
  then show ?thesis
    using assms True by (auto simp: UT_getbit_bit UT_setbit_def bit_simps)
next
  case False
  then show ?thesis
    using assms by (auto simp: UT_getbit_bit UT_setbit_def)
qed

lemma UT_getbit_U_bit: "UT_getbit_U U loc \<longleftrightarrow> bit U loc"
  by (simp add: UT_getbit_U_def and_1_neq_0 bit_simps)

lemma UT_getbit_setbit_U:
  "loc < 32 \<Longrightarrow> UT_getbit_U (UT_setbit_U U loc b) i \<longleftrightarrow> (if i = loc then b else UT_getbit_U U i)"
  by (auto simp: UT_getbit_U_bit UT_setbit_U_def bit_simps)

lemma hexvalue_tohexchar: "c < 16 \<Longrightarrow> hexvalue (tohexchar c) = uint c"
proof -
  assume "c < 16"
  then have "unat c < 16" and "c \<le> 9 \<longleftrightarrow> unat c \<le> 9" by (simp_all add: word_less_nat_alt word_le_nat_alt)
  then show ?thesis
    by (auto simp: hexvalue_def tohexchar_def Let_def)
qed

lemma nibble_high: "drop_bit 4 n < 16" for n :: byte
proof -
  have "unat (drop_bit 4 n) < 16"
    using unsigned_less [of n, where ?'a = nat]
    by (simp only: unsigned_drop_bit_eq) (simp add: drop_bit_eq_div take_bit_eq_mod)
  then show ?thesis by (simp add: word_less_nat_alt)
qed

lemma nibble_low: "n AND 0x0F < 16" for n :: byte
  by (rule le_less_trans [OF word_and_le1]) simp

lemma nibbles_byte: "word_of_int (uint (drop_bit 4 n) * 16 + uint (n AND 0x0F)) = n" for n :: byte
proof -
  have "word_of_int (uint (drop_bit 4 n) * 16 + uint (n AND 0x0F)) = push_bit 4 (drop_bit 4 n) + take_bit 4 n"
    by (simp add: push_bit_eq_mult take_bit_eq_mask mask_eq_exp_minus_1 mult.commute)
  then show ?thesis by (simp add: bits_ident)
qed

lemma length_num2string [simp]: "length (num2string n) = 2"
  by (simp add: num2string_def)

lemma string2num_num2string [simp]: "string2num (Some (num2string n @ rest)) = n"
  by (simp only: string2num_def option.case num2string_def nth_append append_Cons nth_Cons_0 nth_Cons_Suc One_nat_def
      hexvalue_tohexchar [OF nibble_high] hexvalue_tohexchar [OF nibble_low] nibbles_byte)

lemma length_bytes2string [simp]: "length (bytes2string bs) = 2 * length bs"
  by (induction bs) auto

lemma bytes2string_append: "bytes2string (xs @ ys) = bytes2string xs @ bytes2string ys"
  by (induction xs) auto

lemma string2bytes_prefix [simp]: "string2bytes (bytes2string bs @ rest) (length bs) = bs"
  by (induction bs) auto

lemma and_FF_ucast: "ucast (x AND 0xFF) = (ucast x :: byte)" for x :: "'a::len word"
  by (rule bit_word_eqI) (auto simp: and_255 bit_simps)

lemma bit_lane:
  "bit (push_bit k (ucast (ucast (drop_bit k x) :: byte)) :: 'b::len word) n
     \<longleftrightarrow> n < LENGTH('b) \<and> k \<le> n \<and> n < k + 8 \<and> bit (x :: 'a::len word) n"
  by (auto simp: bit_simps)

lemma bit_lane_0:
  "bit (ucast (ucast x :: byte) :: 'b::len word) n \<longleftrightarrow> n < LENGTH('b) \<and> n < 8 \<and> bit (x :: 'a::len word) n"
  by (auto simp: bit_simps)

lemmas lanes = and_FF_ucast bit_or_iff bit_lane bit_lane_0 Let_def

lemma UT_uint32_roundtrip [simp]: "UT_uint32 (UT_uint32_to_bytes num) = num"
  by (rule bit_word_eqI) (auto simp: UT_uint32_def UT_uint32_to_bytes_def lanes)

lemma UT_uint16_roundtrip [simp]: "UT_uint16 (UT_uint16_to_bytes num) = num"
  by (rule bit_word_eqI) (auto simp: UT_uint16_def UT_uint16_to_bytes_def lanes)

lemma UT_date_roundtrip: "UT_toDate (UT_fromDate d) = take_bit 32 d"
  by (rule bit_word_eqI)
    (auto simp: UT_toDate_def UT_fromDate_def UT_uint32_def lanes bit_take_bit_iff bit_unsigned_iff)

lemma UT_uint24_roundtrip: "UT_uint24 (UT_uint24_to_bytes num) = ucast num"
  by (rule bit_word_eqI)
    (auto simp: UT_uint24_def UT_uint24_to_bytes_def lanes bit_unsigned_iff dest: bit_imp_le_length)

lemma UT_uint24_to_bytes_2: "UT_uint24_to_bytes num ! 2 = 0"
  by (rule bit_word_eqI) (auto simp: UT_uint24_to_bytes_def and_FF_ucast Let_def bit_simps
      dest: bit_imp_le_length)

section \<open>Properties\<close>

text \<open>
  The bit accessors obey the array laws: a bit that was set is read back, every other bit is
  unchanged, and the length of the buffer is unchanged, for buffers and for 32-bit integers.
\<close>

theorem bit_access_laws:
  assumes "loc div 8 < length buf" and "k < 32"
  shows "UT_getbit (UT_setbit buf loc b) i = (if i = loc then b else UT_getbit buf i)
    \<and> length (UT_setbit buf loc b) = length buf
    \<and> UT_getbit_U (UT_setbit_U U k b) j = (if j = k then b else UT_getbit_U U j)"
  using assms by (simp add: UT_getbit_setbit UT_getbit_setbit_U)

theorem bit_access_laws_witness:
  "UT_getbit (UT_setbit [0, 255] 9 False) 9 = False \<and> length (UT_setbit [0, 255] 9 False) = 2
    \<and> UT_getbit_U (UT_setbit_U 0 31 True) 31"
  using bit_access_laws [of 9 "[0, 255]" 31 False 9 0 31]
    bit_access_laws [of 9 "[0, 255]" 31 True 9 0 31] by simp

text \<open>
  Hexadecimal round trip: the bytes written by \<^verbatim>\<open>bytes2string\<close> (two digits each) are read back
  by \<^verbatim>\<open>string2bytes\<close>, whatever text follows them.
\<close>

theorem hex_roundtrip:
  "string2bytes (bytes2string bs @ rest) (length bs) = bs \<and> length (bytes2string bs) = 2 * length bs"
  by simp

text \<open>
  Little-endian round trips at 16 and 32 bits; a date keeps its low 32 bits; the 24-bit
  writer, whose parameter is 16 bits wide, always writes a zero third byte.
\<close>

theorem integer_roundtrip:
  "UT_uint16 (UT_uint16_to_bytes n16) = n16 \<and> UT_uint32 (UT_uint32_to_bytes n32) = n32
   \<and> UT_toDate (UT_fromDate d) = take_bit 32 d
   \<and> UT_uint24 (UT_uint24_to_bytes n16) = ucast n16 \<and> UT_uint24_to_bytes n16 ! 2 = 0"
  by (simp add: UT_date_roundtrip UT_uint24_roundtrip UT_uint24_to_bytes_2)

end
