(* ===== verification/OW_Blobs.thy ===== *)
theory OW_Blobs
  imports OW_Prelude
begin

text \<open>
  The growable buffers of owlib: \<^verbatim>\<open>ow_memblob.c\<close> (bytes), \<^verbatim>\<open>ow_charblob.c\<close> (comma-separated text)
  and \<^verbatim>\<open>ow_dirblob.c\<close> (8-byte serial numbers). The storage pointer is \<^const>\<open>None\<close> for
  \<^verbatim>\<open>NULL\<close> and otherwise a block of cells as long as the allocation; an operation that allocates takes
  a \<^typ>\<open>bool\<close> per allocation saying whether it succeeds; a result \<^const>\<open>None\<close> is undefined
  behaviour (a store outside the block, a division by zero). Sizes are natural numbers: the code
  keeps them in \<^verbatim>\<open>size_t\<close> or \<^verbatim>\<open>int\<close>, whose range exceeds any block that can be allocated.

  The locale at the end states what a client of such a buffer relies on; it is interpreted for
  memblob and for dirblob.
\<close>

section \<open>memblob: bytes\<close>

record memblob =
  mb_troubled :: bool
  mb_allocated :: nat
  mb_increment :: nat
  mb_used :: nat
  mb_memory_storage :: "cell list option"

definition MemblobClear :: "memblob \<Rightarrow> memblob" where
  "MemblobClear mb =
     mb\<lparr>mb_memory_storage := None, mb_troubled := False, mb_used := 0, mb_allocated := 0\<rparr>"

definition MemblobInit :: "nat \<Rightarrow> memblob" where
  "MemblobInit increment =
     \<lparr>mb_troubled = False, mb_allocated = 0, mb_increment = increment, mb_used = 0,
      mb_memory_storage = None\<rparr>"

definition MemblobData :: "memblob \<Rightarrow> cell list option" where
  "MemblobData mb = mb_memory_storage mb"

definition MemblobLength :: "memblob \<Rightarrow> nat" where
  "MemblobLength mb = mb_used mb"

definition MemblobPure :: "memblob \<Rightarrow> bool" where
  "MemblobPure mb \<longleftrightarrow> \<not> mb_troubled mb"

definition MemblobTrim :: "nat \<Rightarrow> memblob \<Rightarrow> memblob" where
  "MemblobTrim nchars mb =
     (if mb_used mb < nchars then MemblobClear mb else mb\<lparr>mb_used := mb_used mb - nchars\<rparr>)"

definition MemblobIncrease :: "bool \<Rightarrow> nat \<Rightarrow> memblob \<Rightarrow> (int \<times> memblob) option" where
  "MemblobIncrease ok len mb =
     (if mb_used mb + len > mb_allocated mb \<or> mb_memory_storage mb = None then
        if mb_increment mb = 0 then None
        else
          let increment = (len div mb_increment mb + 1) * mb_increment mb;
              newalloc = mb_allocated mb + increment
          in if ok
             then Some (0, mb\<lparr>mb_allocated := newalloc,
                              mb_memory_storage := Some (owrealloc (mb_memory_storage mb) newalloc),
                              mb_used := mb_used mb + len\<rparr>)
             else Some (- ENOMEM, mb\<lparr>mb_troubled := True\<rparr>)
      else Some (0, mb\<lparr>mb_used := mb_used mb + len\<rparr>))"

definition mb_poke :: "nat \<Rightarrow> byte list \<Rightarrow> memblob \<Rightarrow> memblob option" where
  "mb_poke off data mb =
     (case mb_memory_storage mb of None \<Rightarrow> None
      | Some blk \<Rightarrow> map_option (\<lambda>blk'. mb\<lparr>mb_memory_storage := Some blk'\<rparr>)
                     (blk_store off (map Some data) blk))"

definition MemblobAdd :: "bool \<Rightarrow> byte list \<Rightarrow> memblob \<Rightarrow> (int \<times> memblob) option" where
  "MemblobAdd ok data mb =
     (case MemblobIncrease ok (length data) mb of
        None \<Rightarrow> None
      | Some (ret, mb') \<Rightarrow>
          if ret = 0 then map_option (Pair ret) (mb_poke (mb_used mb) data mb')
          else Some (ret, mb'))"

definition MemblobAddChar :: "bool \<Rightarrow> byte \<Rightarrow> nat \<Rightarrow> memblob \<Rightarrow> (int \<times> memblob) option" where
  "MemblobAddChar ok character len mb =
     (case MemblobIncrease ok len mb of
        None \<Rightarrow> None
      | Some (ret, mb') \<Rightarrow>
          if ret = 0 then map_option (Pair ret) (mb_poke (mb_used mb) (replicate len character) mb')
          else Some (ret, mb'))"

section \<open>charblob: comma-separated text\<close>

record charblob =
  cb_troubled :: bool
  cb_allocated :: nat
  cb_used :: nat
  cb_blob :: "cell list option"

definition CharblobInit :: charblob where
  "CharblobInit = \<lparr>cb_troubled = False, cb_allocated = 0, cb_used = 0, cb_blob = None\<rparr>"

definition CharblobClear :: "charblob \<Rightarrow> charblob" where
  "CharblobClear cb = CharblobInit"

definition CharblobPure :: "charblob \<Rightarrow> bool" where
  "CharblobPure cb \<longleftrightarrow> \<not> cb_troubled cb"

definition CharblobLength :: "charblob \<Rightarrow> nat" where
  "CharblobLength cb = cb_used cb"

definition CharblobData :: "charblob \<Rightarrow> cell list option" where
  "CharblobData cb = cb_blob cb"

text \<open>Grow by \<open>incr\<close> bytes and blank the new memory; \<open>Inl\<close> is the failed allocation.\<close>

definition cb_grow :: "bool \<Rightarrow> nat \<Rightarrow> charblob \<Rightarrow> (charblob + charblob) option" where
  "cb_grow ok incr cb =
     (let newalloc = cb_allocated cb + incr in
      if ok
      then map_option (\<lambda>temp. Inr (cb\<lparr>cb_allocated := newalloc, cb_blob := Some temp\<rparr>))
             (blk_store (cb_allocated cb) (replicate incr (Some 0)) (owrealloc (cb_blob cb) newalloc))
      else Some (Inl (cb\<lparr>cb_troubled := True\<rparr>)))"

definition cb_append :: "byte list \<Rightarrow> charblob \<Rightarrow> (int \<times> charblob) option" where
  "cb_append a cb =
     (case cb_blob cb of None \<Rightarrow> (if a = [] then Some (0, cb) else None)
      | Some blk \<Rightarrow>
          map_option (\<lambda>blk'. (0, cb\<lparr>cb_blob := Some blk', cb_used := cb_used cb + length a\<rparr>))
            (blk_store (cb_used cb) (map Some a) blk))"

text \<open>The common part of both additions: if \<open>used + s > allocated\<close> grow, then copy and count.\<close>

definition cb_put :: "bool \<Rightarrow> nat \<Rightarrow> byte list \<Rightarrow> charblob \<Rightarrow> (int \<times> charblob) option" where
  "cb_put ok incr a cb =
     (if cb_used cb + length a > cb_allocated cb then
        case cb_grow ok incr cb of
          None \<Rightarrow> None
        | Some (Inl cb') \<Rightarrow> Some (- ENOMEM, cb')
        | Some (Inr cb') \<Rightarrow> cb_append a cb'
      else cb_append a cb)"

definition CharblobAddChar :: "bool \<Rightarrow> byte \<Rightarrow> charblob \<Rightarrow> (int \<times> charblob) option" where
  "CharblobAddChar ok a cb = cb_put ok 1024 [a] cb"

definition CharblobAdd :: "bool \<Rightarrow> bool \<Rightarrow> byte list \<Rightarrow> charblob \<Rightarrow> (int \<times> charblob) option" where
  "CharblobAdd ok_comma ok a cb =
     (let s = length a;
          incr = (if 1024 < s then s else 1024)
      in case (if cb_used cb \<noteq> 0 then map_option snd (CharblobAddChar ok_comma 44 cb) else Some cb) of
           None \<Rightarrow> None
         | Some cb \<Rightarrow> cb_put ok incr a cb)"

section \<open>dirblob: serial numbers\<close>

definition SERIAL_NUMBER_SIZE :: nat where
  "SERIAL_NUMBER_SIZE = 8"

record dirblob =
  db_troubled :: bool
  db_allocated :: nat
  db_devices :: nat
  db_snlist :: "cell list option"

definition DirblobClear :: "dirblob \<Rightarrow> dirblob" where
  "DirblobClear db =
     db\<lparr>db_snlist := None, db_allocated := db_devices db, db_devices := 0, db_troubled := False\<rparr>"

definition DirblobInit :: dirblob where
  "DirblobInit = \<lparr>db_troubled = False, db_allocated = 0, db_devices = 0, db_snlist = None\<rparr>"

definition DirblobPure :: "dirblob \<Rightarrow> bool" where
  "DirblobPure db \<longleftrightarrow> \<not> db_troubled db"

definition DirblobPoison :: "dirblob \<Rightarrow> dirblob" where
  "DirblobPoison db = db\<lparr>db_troubled := True\<rparr>"

definition DirblobElements :: "dirblob \<Rightarrow> nat" where
  "DirblobElements db = db_devices db"

definition db_poke :: "byte list \<Rightarrow> dirblob \<Rightarrow> (int \<times> dirblob) option" where
  "db_poke sn db =
     (case db_snlist db of None \<Rightarrow> None
      | Some blk \<Rightarrow>
          map_option (\<lambda>blk'. (0, db\<lparr>db_snlist := Some blk', db_devices := db_devices db + 1\<rparr>))
            (blk_store (8 * db_devices db) (map Some sn) blk))"

definition DirblobAdd :: "bool \<Rightarrow> byte list \<Rightarrow> dirblob \<Rightarrow> (int \<times> dirblob) option" where
  "DirblobAdd ok sn db =
     (if db_troubled db then Some (- EINVAL, db)
      else if db_devices db \<ge> db_allocated db \<or> db_snlist db = None then
        let newalloc = db_allocated db + 10 in
        if ok
        then db_poke sn (db\<lparr>db_allocated := newalloc,
                            db_snlist := Some (owrealloc (db_snlist db) (8 * newalloc))\<rparr>)
        else Some (- ENOMEM, db\<lparr>db_troubled := True\<rparr>)
      else db_poke sn db)"

definition db_peek :: "int \<Rightarrow> dirblob \<Rightarrow> byte list option" where
  "db_peek i db =
     (case db_snlist db of None \<Rightarrow> None
      | Some blk \<Rightarrow> if i < 0 then None else blk_load (8 * nat i) 8 blk)"

text \<open>\<open>Inl\<close> is the error return, \<open>Inr\<close> the serial number copied out.\<close>

definition DirblobGet :: "int \<Rightarrow> dirblob \<Rightarrow> (int + byte list) option" where
  "DirblobGet device_index db =
     (if device_index \<ge> int (db_devices db) then Some (Inl (- ENODEV))
      else map_option Inr (db_peek device_index db))"

fun dirblob_search_from :: "nat \<Rightarrow> nat \<Rightarrow> byte list \<Rightarrow> dirblob \<Rightarrow> int option" where
  "dirblob_search_from 0 i sn db = Some INDEX_BAD"
| "dirblob_search_from (Suc n) i sn db =
     (case db_peek (int i) db of None \<Rightarrow> None
      | Some s \<Rightarrow> if s = sn then Some (int i) else dirblob_search_from n (Suc i) sn db)"

definition DirblobSearch :: "byte list \<Rightarrow> dirblob \<Rightarrow> int option" where
  "DirblobSearch sn db =
     (if db_devices db < 1 then Some INDEX_BAD
      else dirblob_search_from (db_devices db) 0 sn db)"

definition DirblobRecreate :: "bool \<Rightarrow> byte list \<Rightarrow> int \<times> dirblob" where
  "DirblobRecreate ok snlist =
     (let size = length snlist; db = DirblobInit in
      if size = 0 then (0, db)
      else if \<not> ok then (- ENOMEM, db\<lparr>db_troubled := True\<rparr>)
      else (0, db\<lparr>db_snlist := Some (map Some snlist), db_allocated := size div 8,
                  db_devices := size div 8\<rparr>))"

section \<open>What a client relies on\<close>

text \<open>
  A sequence of additions whose return values the caller ignores, as the directory callbacks do;
  each comes with the outcome of its allocations.
\<close>

fun run_adds :: "('o \<Rightarrow> 'x \<Rightarrow> 's \<Rightarrow> (int \<times> 's) option) \<Rightarrow> ('o \<times> 'x) list \<Rightarrow> 's \<Rightarrow> 's option" where
  "run_adds add [] s = Some s"
| "run_adds add ((ok, x) # xs) s =
     (case add ok x s of None \<Rightarrow> None | Some (ret, s') \<Rightarrow> run_adds add xs s')"

text \<open>
  The contract: additions are defined, a failed one leaves the buffer impure, an impure buffer stays
  impure, and a buffer that is pure after an addition holds the old contents extended by the item.
\<close>

locale growable_buffer =
  fixes invar :: "'s \<Rightarrow> bool"
    and contents :: "'s \<Rightarrow> 'c list"
    and pure :: "'s \<Rightarrow> bool"
    and valid :: "'x \<Rightarrow> bool"
    and extend :: "'c list \<Rightarrow> 'x \<Rightarrow> 'c list"
    and all_ok :: 'o
    and add :: "'o \<Rightarrow> 'x \<Rightarrow> 's \<Rightarrow> (int \<times> 's) option"
  assumes add_defined: "invar s \<Longrightarrow> valid x \<Longrightarrow> \<exists>ret s'. add ok x s = Some (ret, s') \<and> invar s'"
    and add_pure: "invar s \<Longrightarrow> valid x \<Longrightarrow> add ok x s = Some (ret, s') \<Longrightarrow> pure s' \<Longrightarrow>
      ret = 0 \<and> pure s \<and> contents s' = extend (contents s) x"
    and add_succeeds: "invar s \<Longrightarrow> valid x \<Longrightarrow> pure s \<Longrightarrow> \<exists>s'. add all_ok x s = Some (0, s') \<and> pure s'"
begin

lemma adds_defined:
  assumes "invar s" and "\<forall>(ok, x) \<in> set xs. valid x"
  shows "\<exists>s'. run_adds add xs s = Some s' \<and> invar s'"
  using assms
proof (induction xs arbitrary: s)
  case (Cons a xs)
  obtain ok x where a: "a = (ok, x)" by fastforce
  obtain ret s' where "add ok x s = Some (ret, s')" and "invar s'"
    using add_defined Cons.prems a by fastforce
  with Cons a show ?case by auto
qed simp

text \<open>A buffer that is still pure was pure all along and holds exactly what was added.\<close>

lemma adds_pure_contents:
  assumes "invar s" and "\<forall>(ok, x) \<in> set xs. valid x" and "run_adds add xs s = Some s'" and "pure s'"
  shows "pure s \<and> contents s' = foldl extend (contents s) (map snd xs)"
  using assms
proof (induction xs arbitrary: s)
  case (Cons a xs)
  obtain ok x where a: "a = (ok, x)" by fastforce
  obtain ret s1 where s1: "add ok x s = Some (ret, s1)" "invar s1"
    using add_defined Cons.prems a by fastforce
  then have "pure s1 \<and> contents s' = foldl extend (contents s1) (map snd xs)"
    using Cons a by simp
  with add_pure [of s x ok ret s1] Cons.prems a s1 show ?case by auto
qed simp

lemma adds_all_ok:
  assumes "invar s" and "\<forall>x \<in> set xs. valid x" and "pure s"
  shows "\<exists>s'. run_adds add (map (Pair all_ok) xs) s = Some s' \<and> pure s'"
  using assms
proof (induction xs arbitrary: s)
  case (Cons x xs)
  obtain s1 where s1: "add all_ok x s = Some (0, s1)" "pure s1"
    using add_succeeds Cons.prems by fastforce
  then have "invar s1" using add_defined [of s x all_ok] Cons.prems by auto
  with Cons s1 show ?case by auto
qed simp

end

section \<open>memblob provides it\<close>

definition memblob_wf :: "memblob \<Rightarrow> bool" where
  "memblob_wf mb \<longleftrightarrow> mb_increment mb > 0 \<and>
     (case mb_memory_storage mb of
        None \<Rightarrow> mb_allocated mb = 0 \<and> mb_used mb = 0
      | Some blk \<Rightarrow> length blk = mb_allocated mb \<and> mb_used mb \<le> mb_allocated mb
                   \<and> None \<notin> set (take (mb_used mb) blk))"

definition memblob_bytes :: "memblob \<Rightarrow> byte list" where
  "memblob_bytes mb =
     (case mb_memory_storage mb of None \<Rightarrow> [] | Some blk \<Rightarrow> map the (take (mb_used mb) blk))"

lemma memblob_wf_Init: "increment > 0 \<Longrightarrow> memblob_wf (MemblobInit increment)"
  by (simp add: memblob_wf_def MemblobInit_def)

lemma memblob_wf_Clear: "memblob_wf mb \<Longrightarrow> memblob_wf (MemblobClear mb)"
  by (simp add: memblob_wf_def MemblobClear_def)

lemma memblob_wf_Trim: "memblob_wf mb \<Longrightarrow> memblob_wf (MemblobTrim n mb)"
  by (auto simp: memblob_wf_def MemblobTrim_def MemblobClear_def split: option.splits
      dest: set_take_subset_set_take [of "mb_used mb - n" "mb_used mb", THEN subsetD, rotated])

lemma memblob_bytes_simps [simp]:
  "memblob_bytes (MemblobInit increment) = []" "memblob_bytes (MemblobClear mb) = []"
  by (simp_all add: memblob_bytes_def MemblobInit_def MemblobClear_def)

lemma length_memblob_bytes: "memblob_wf mb \<Longrightarrow> length (memblob_bytes mb) = MemblobLength mb"
  by (auto simp: memblob_wf_def memblob_bytes_def MemblobLength_def split: option.splits)

lemma block_grows: "increment > 0 \<Longrightarrow> len < (len div increment + 1) * increment" for len :: nat
  by (metis div_mult_mod_eq mod_less_divisor nat_add_left_cancel_less distrib_right mult_1)

lemma memblob_wfI:
  assumes "mb_memory_storage mb = Some blk" and "length blk = mb_allocated mb"
    and "mb_used mb \<le> mb_allocated mb" and "mb_increment mb > 0"
    and "take (mb_used mb) blk = map Some xs"
  shows "memblob_wf mb" and "memblob_bytes mb = xs"
  using assms by (auto simp: memblob_wf_def memblob_bytes_def)

lemma memblob_wfD:
  assumes "memblob_wf mb" and "mb_memory_storage mb = Some blk"
  shows "take (mb_used mb) blk = map Some (memblob_bytes mb)"
  using assms map_Some_the [of "take (mb_used mb) blk"]
  by (simp add: memblob_wf_def memblob_bytes_def)

lemma MemblobIncrease_cases:
  assumes "memblob_wf mb"
  obtains (grown) mb1 nb where "MemblobIncrease ok len mb = Some (0, mb1)"
      and "mb_memory_storage mb1 = Some nb" and "length nb = mb_allocated mb1"
      and "mb_used mb1 = mb_used mb + len" and "mb_used mb1 \<le> length nb"
      and "mb_increment mb1 = mb_increment mb" and "mb_troubled mb1 = mb_troubled mb"
      and "take (mb_used mb) nb = map Some (memblob_bytes mb)"
  | (failed) "\<not> ok" and "MemblobIncrease ok len mb = Some (- ENOMEM, mb\<lparr>mb_troubled := True\<rparr>)"
proof (cases "mb_used mb + len > mb_allocated mb \<or> mb_memory_storage mb = None")
  case True
  let ?inc = "(len div mb_increment mb + 1) * mb_increment mb"
  let ?n = "mb_allocated mb + ?inc"
  have inc: "mb_increment mb > 0" "len < ?inc"
    using assms block_grows by (auto simp: memblob_wf_def)
  show ?thesis
  proof (cases ok)
    case True
    let ?nb = "owrealloc (mb_memory_storage mb) ?n"
    have "mb_used mb \<le> mb_allocated mb"
      using assms by (auto simp: memblob_wf_def split: option.splits)
    then have "mb_used mb + len \<le> ?n" using inc(2) by linarith
    moreover have "take (mb_used mb) ?nb = map Some (memblob_bytes mb)"
    proof (cases "mb_memory_storage mb")
      case None
      then show ?thesis using assms by (simp add: memblob_wf_def memblob_bytes_def)
    next
      case (Some b)
      then show ?thesis
        using assms memblob_wfD [OF assms Some] take_owrealloc [of "mb_used mb" ?n b]
        by (simp add: memblob_wf_def)
    qed
    ultimately show ?thesis
      using grown [of "mb\<lparr>mb_allocated := ?n, mb_memory_storage := Some ?nb, mb_used := mb_used mb + len\<rparr>" ?nb]
        True inc \<open>mb_used mb + len > mb_allocated mb \<or> mb_memory_storage mb = None\<close>
      by (simp add: MemblobIncrease_def Let_def)
  next
    case False
    then show ?thesis
      using failed inc True by (simp add: MemblobIncrease_def Let_def)
  qed
next
  case False
  then obtain blk where blk: "mb_memory_storage mb = Some blk" by auto
  then show ?thesis
    using grown [of "mb\<lparr>mb_used := mb_used mb + len\<rparr>" blk] False assms memblob_wfD [OF assms blk]
    by (simp add: MemblobIncrease_def memblob_wf_def)
qed

lemma mb_poke_appends:
  assumes "memblob_wf mb" and "mb_memory_storage mb1 = Some nb" and "length nb = mb_allocated mb1"
    and "mb_used mb1 = mb_used mb + length data" and "mb_used mb1 \<le> length nb"
    and "mb_increment mb1 = mb_increment mb"
    and "take (mb_used mb) nb = map Some (memblob_bytes mb)"
  shows "\<exists>mb2. mb_poke (mb_used mb) data mb1 = Some mb2 \<and> memblob_wf mb2
    \<and> memblob_bytes mb2 = memblob_bytes mb @ data \<and> mb_troubled mb2 = mb_troubled mb1"
proof -
  obtain blk where blk: "blk_store (mb_used mb) (map Some data) nb = Some blk"
    using assms by (simp add: memblk)
  then have "take (mb_used mb + length data) blk = map Some (memblob_bytes mb @ data)"
    using blk_store_take [OF blk] assms by simp
  moreover have "length blk = length nb" using blk by (rule blk_store_length)
  moreover have "mb_increment mb > 0" using assms by (simp add: memblob_wf_def)
  ultimately show ?thesis
    using assms blk memblob_wfI [of "mb1\<lparr>mb_memory_storage := Some blk\<rparr>" blk "memblob_bytes mb @ data"]
    by (simp add: mb_poke_def)
qed

lemma MemblobAdd_cases:
  assumes "memblob_wf mb"
  obtains (added) mb' where "MemblobAdd ok data mb = Some (0, mb')" and "memblob_wf mb'"
      and "memblob_bytes mb' = memblob_bytes mb @ data" and "mb_troubled mb' = mb_troubled mb"
  | (failed) "\<not> ok" and "MemblobAdd ok data mb = Some (- ENOMEM, mb\<lparr>mb_troubled := True\<rparr>)"
proof (rule MemblobIncrease_cases [OF assms, of ok "length data"])
  fix mb1 nb
  assume inc: "MemblobIncrease ok (length data) mb = Some (0, mb1)"
    and mb1: "mb_memory_storage mb1 = Some nb" "length nb = mb_allocated mb1"
      "mb_used mb1 = mb_used mb + length data" "mb_used mb1 \<le> length nb"
      "mb_increment mb1 = mb_increment mb" "mb_troubled mb1 = mb_troubled mb"
      "take (mb_used mb) nb = map Some (memblob_bytes mb)"
  obtain mb2 where "mb_poke (mb_used mb) data mb1 = Some mb2" "memblob_wf mb2"
      "memblob_bytes mb2 = memblob_bytes mb @ data" "mb_troubled mb2 = mb_troubled mb1"
    using mb_poke_appends [OF assms mb1(1,2,3,4,5,7)] by blast
  with inc mb1 show thesis by (intro added [of mb2]) (simp_all add: MemblobAdd_def)
next
  assume "\<not> ok" and "MemblobIncrease ok (length data) mb = Some (- ENOMEM, mb\<lparr>mb_troubled := True\<rparr>)"
  then show thesis by (intro failed) (simp_all add: MemblobAdd_def errnos)
qed

lemma MemblobAddChar_eq: "MemblobAddChar ok c len mb = MemblobAdd ok (replicate len c) mb"
  by (simp add: MemblobAddChar_def MemblobAdd_def)

lemma memblob_wf_troubled: "memblob_wf mb \<Longrightarrow> memblob_wf (mb\<lparr>mb_troubled := True\<rparr>)"
  by (simp add: memblob_wf_def split: option.splits)

lemma memblob_bytes_troubled [simp]: "memblob_bytes (mb\<lparr>mb_troubled := b\<rparr>) = memblob_bytes mb"
  by (simp add: memblob_bytes_def split: option.splits)

interpretation memblob: growable_buffer memblob_wf memblob_bytes MemblobPure "\<lambda>_. True" "(@)" True MemblobAdd
proof
  fix s s' :: memblob and x and ok and ret :: int
  assume wf: "memblob_wf s"
  show "\<exists>ret s'. MemblobAdd ok x s = Some (ret, s') \<and> memblob_wf s'"
    by (rule MemblobAdd_cases [OF wf, of ok x]) (auto simp: memblob_wf_troubled wf)
  show "MemblobAdd ok x s = Some (ret, s') \<Longrightarrow> MemblobPure s' \<Longrightarrow>
      ret = 0 \<and> MemblobPure s \<and> memblob_bytes s' = memblob_bytes s @ x"
    by (rule MemblobAdd_cases [OF wf, of ok x]) (auto simp: MemblobPure_def)
  show "MemblobPure s \<Longrightarrow> \<exists>s'. MemblobAdd True x s = Some (0, s') \<and> MemblobPure s'"
    by (rule MemblobAdd_cases [OF wf, of True x]) (auto simp: MemblobPure_def)
qed

section \<open>dirblob provides it\<close>

fun chunks :: "nat \<Rightarrow> 'a list \<Rightarrow> 'a list list" where
  "chunks 0 bs = []"
| "chunks (Suc n) bs = take 8 bs # chunks n (drop 8 bs)"

definition dirblob_wf :: "dirblob \<Rightarrow> bool" where
  "dirblob_wf db \<longleftrightarrow>
     (case db_snlist db of
        None \<Rightarrow> db_devices db = 0
      | Some blk \<Rightarrow> 8 * db_allocated db \<le> length blk \<and> db_devices db \<le> db_allocated db
                   \<and> None \<notin> set (take (8 * db_devices db) blk))"

definition dirblob_bytes :: "dirblob \<Rightarrow> byte list" where
  "dirblob_bytes db =
     (case db_snlist db of None \<Rightarrow> [] | Some blk \<Rightarrow> map the (take (8 * db_devices db) blk))"

definition dirblob_sns :: "dirblob \<Rightarrow> byte list list" where
  "dirblob_sns db = chunks (db_devices db) (dirblob_bytes db)"

lemma length_chunks [simp]: "length (chunks n bs) = n"
  by (induction n arbitrary: bs) auto

lemma nth_chunks: "i < n \<Longrightarrow> chunks n bs ! i = take 8 (drop (8 * i) bs)"
proof (induction n arbitrary: bs i)
  case (Suc n)
  then show ?case by (cases i) (auto simp: add.commute)
qed simp

lemma chunks_snoc:
  "length bs = 8 * n \<Longrightarrow> length x = 8 \<Longrightarrow> chunks (Suc n) (bs @ x) = chunks n bs @ [x]"
proof (induction n arbitrary: bs)
  case (Suc n)
  have "length (drop 8 bs) = 8 * n" using Suc.prems by simp
  from Suc.IH [OF this Suc.prems(2)]
  have "chunks (Suc n) (drop 8 bs @ x) = chunks n (drop 8 bs) @ [x]" .
  moreover have "drop 8 (bs @ x) = drop 8 bs @ x" "take 8 (bs @ x) = take 8 bs"
    using Suc.prems by simp_all
  ultimately show ?case by (metis append_Cons chunks.simps(2))
qed simp

lemma concat_chunks: "length bs = 8 * n \<Longrightarrow> concat (chunks n bs) = bs"
  by (induction n arbitrary: bs) auto

lemma dirblob_wfI:
  assumes "db_snlist db = Some blk" and "8 * db_allocated db \<le> length blk"
    and "db_devices db \<le> db_allocated db" and "take (8 * db_devices db) blk = map Some xs"
  shows "dirblob_wf db" and "dirblob_bytes db = xs"
  using assms by (auto simp: dirblob_wf_def dirblob_bytes_def)

lemma dirblob_wfD:
  assumes "dirblob_wf db" and "db_snlist db = Some blk"
  shows "take (8 * db_devices db) blk = map Some (dirblob_bytes db)"
  using assms map_Some_the [of "take (8 * db_devices db) blk"]
  by (simp add: dirblob_wf_def dirblob_bytes_def)

lemma length_dirblob_bytes: "dirblob_wf db \<Longrightarrow> length (dirblob_bytes db) = 8 * db_devices db"
  by (auto simp: dirblob_wf_def dirblob_bytes_def split: option.splits)

lemma length_dirblob_sns: "length (dirblob_sns db) = DirblobElements db"
  by (simp add: dirblob_sns_def DirblobElements_def)

lemma dirblob_wf_Init [simp]: "dirblob_wf DirblobInit" and dirblob_sns_Init [simp]: "dirblob_sns DirblobInit = []"
  by (simp_all add: dirblob_wf_def dirblob_sns_def DirblobInit_def)

lemma dirblob_wf_Clear [simp]: "dirblob_wf (DirblobClear db)" and dirblob_sns_Clear [simp]: "dirblob_sns (DirblobClear db) = []"
  by (simp_all add: dirblob_wf_def dirblob_sns_def DirblobClear_def)

lemma dirblob_troubled_irrelevant [simp]:
  "dirblob_wf (db\<lparr>db_troubled := b\<rparr>) = dirblob_wf db"
  "dirblob_sns (db\<lparr>db_troubled := b\<rparr>) = dirblob_sns db"
  by (simp_all add: dirblob_wf_def dirblob_sns_def dirblob_bytes_def split: option.splits)

lemma db_poke_appends:
  assumes "db_snlist db1 = Some blk" and "8 * db_allocated db1 \<le> length blk"
    and "db_devices db1 < db_allocated db1" and "db_devices db1 = db_devices db" and "dirblob_wf db"
    and "take (8 * db_devices db1) blk = map Some (dirblob_bytes db)" and "length sn = 8"
  shows "\<exists>db2. db_poke sn db1 = Some (0, db2) \<and> dirblob_wf db2
    \<and> dirblob_sns db2 = dirblob_sns db @ [sn] \<and> db_troubled db2 = db_troubled db1"
proof -
  have "8 * db_devices db1 + length (map Some sn) \<le> length blk" using assms by simp
  then obtain blk' where blk': "blk_store (8 * db_devices db1) (map Some sn) blk = Some blk'"
    by (simp add: blk_store_SomeI)
  let ?db2 = "db1\<lparr>db_snlist := Some blk', db_devices := db_devices db1 + 1\<rparr>"
  have "take (8 * db_devices ?db2) blk' = map Some (dirblob_bytes db @ sn)"
    using blk_store_take [OF blk'] assms by (simp add: add.commute)
  then have "dirblob_wf ?db2" and bytes: "dirblob_bytes ?db2 = dirblob_bytes db @ sn"
    using dirblob_wfI [of ?db2 blk' "dirblob_bytes db @ sn"] blk_store_length [OF blk'] assms
    by simp_all
  moreover have "dirblob_sns ?db2 = dirblob_sns db @ [sn]"
    unfolding dirblob_sns_def bytes using chunks_snoc [of "dirblob_bytes db" "db_devices db" sn]
      assms length_dirblob_bytes [of db] by simp
  ultimately show ?thesis using assms(1) blk' by (simp add: db_poke_def)
qed

lemma DirblobAdd_cases:
  assumes wf: "dirblob_wf db" and len: "length sn = 8"
  obtains (added) db' where "\<not> db_troubled db" and "DirblobAdd ok sn db = Some (0, db')" and "dirblob_wf db'"
      and "dirblob_sns db' = dirblob_sns db @ [sn]" and "\<not> db_troubled db'"
  | (nomem) "\<not> ok" and "DirblobAdd ok sn db = Some (- ENOMEM, db\<lparr>db_troubled := True\<rparr>)"
  | (refused) "db_troubled db" and "DirblobAdd ok sn db = Some (- EINVAL, db)"
proof (cases "db_troubled db")
  case True
  then show ?thesis using refused by (simp add: DirblobAdd_def)
next
  case pure: False
  show ?thesis
  proof (cases "db_devices db \<ge> db_allocated db \<or> db_snlist db = None")
    case True
    let ?nb = "owrealloc (db_snlist db) (8 * (db_allocated db + 10))"
    let ?db1 = "db\<lparr>db_allocated := db_allocated db + 10, db_snlist := Some ?nb\<rparr>"
    show ?thesis
    proof (cases ok)
      case ok: True
      have small: "db_devices db \<le> db_allocated db"
        using wf by (auto simp: dirblob_wf_def split: option.splits)
      have "take (8 * db_devices db) ?nb = map Some (dirblob_bytes db)"
      proof (cases "db_snlist db")
        case None
        then show ?thesis using wf by (simp add: dirblob_wf_def dirblob_bytes_def)
      next
        case (Some b)
        then show ?thesis
          using wf dirblob_wfD [OF wf Some] take_owrealloc [of "8 * db_devices db" _ b]
          by (simp add: dirblob_wf_def)
      qed
      then show ?thesis
        using db_poke_appends [of ?db1 ?nb db sn] added ok pure True wf len small
        by (auto simp: DirblobAdd_def Let_def)
    next
      case False
      then show ?thesis using nomem pure True by (simp add: DirblobAdd_def Let_def)
    qed
  next
    case False
    then obtain blk where blk: "db_snlist db = Some blk" by auto
    then show ?thesis
      using db_poke_appends [of db blk db sn] dirblob_wfD [OF wf blk] added pure False wf len
      by (auto simp: DirblobAdd_def dirblob_wf_def)
  qed
qed

interpretation dirblob: growable_buffer dirblob_wf dirblob_sns DirblobPure
  "\<lambda>sn. length sn = SERIAL_NUMBER_SIZE" "\<lambda>sns sn. sns @ [sn]" True DirblobAdd
proof
  fix s s' :: dirblob and x :: "byte list" and ok and ret :: int
  assume wf: "dirblob_wf s" and "length x = SERIAL_NUMBER_SIZE"
  then have len: "length x = 8" by (simp add: SERIAL_NUMBER_SIZE_def)
  show "\<exists>ret s'. DirblobAdd ok x s = Some (ret, s') \<and> dirblob_wf s'"
    by (rule DirblobAdd_cases [OF wf len, of ok]) (auto simp: wf)
  show "DirblobAdd ok x s = Some (ret, s') \<Longrightarrow> DirblobPure s' \<Longrightarrow>
      ret = 0 \<and> DirblobPure s \<and> dirblob_sns s' = dirblob_sns s @ [x]"
    by (rule DirblobAdd_cases [OF wf len, of ok]) (auto simp: DirblobPure_def)
  show "DirblobPure s \<Longrightarrow> \<exists>s'. DirblobAdd True x s = Some (0, s') \<and> DirblobPure s'"
    by (rule DirblobAdd_cases [OF wf len, of True]) (auto simp: DirblobPure_def)
qed

lemma db_peek_sns:
  assumes "dirblob_wf db" and "i < db_devices db"
  shows "db_peek (int i) db = Some (dirblob_sns db ! i)"
proof -
  obtain blk where blk: "db_snlist db = Some blk"
    using assms by (auto simp: dirblob_wf_def split: option.splits)
  have le: "8 * i + 8 \<le> 8 * db_devices db" "8 * db_devices db \<le> length blk"
    using assms blk by (auto simp: dirblob_wf_def)
  have "take 8 (drop (8 * i) blk) = take 8 (drop (8 * i) (take (8 * db_devices db) blk))"
    using le by (simp add: drop_take min_def)
  also have "\<dots> = map Some (take 8 (drop (8 * i) (dirblob_bytes db)))"
    by (simp add: dirblob_wfD [OF assms(1) blk] drop_map take_map)
  finally have "take 8 (drop (8 * i) blk) = map Some (dirblob_sns db ! i)"
    by (simp add: dirblob_sns_def nth_chunks assms)
  with blk le show ?thesis by (auto simp: db_peek_def blk_load_def)
qed

lemma dirblob_search_from_correct:
  assumes "dirblob_wf db" and "i + n = db_devices db" and "sn \<notin> set (take i (dirblob_sns db))"
  shows "dirblob_search_from n i sn db =
    Some (if sn \<in> set (dirblob_sns db) then int (LEAST j. j < db_devices db \<and> dirblob_sns db ! j = sn)
          else INDEX_BAD)"
  using assms
proof (induction n arbitrary: i)
  case 0
  then show ?case using length_dirblob_sns [of db] by (simp add: DirblobElements_def)
next
  case (Suc n)
  have i: "i < length (dirblob_sns db)"
    using Suc.prems length_dirblob_sns [of db] by (simp add: DirblobElements_def)
  have dev: "i < db_devices db" using Suc.prems by simp
  show ?case
  proof (cases "dirblob_sns db ! i = sn")
    case True
    have "(LEAST j. j < db_devices db \<and> dirblob_sns db ! j = sn) = i"
    proof (rule Least_equality)
      fix j assume "j < db_devices db \<and> dirblob_sns db ! j = sn"
      then show "i \<le> j"
        using Suc.prems(3) i by (metis in_set_conv_nth leI length_take min.absorb4 nth_take)
    qed (use True dev in simp)
    moreover have "sn \<in> set (dirblob_sns db)" using True i by auto
    ultimately show ?thesis using True db_peek_sns [OF Suc.prems(1) dev] by simp
  next
    case False
    have "sn \<notin> set (take (Suc i) (dirblob_sns db))"
      using Suc.prems(3) False i by (simp add: take_Suc_conv_app_nth)
    then show ?thesis
      using False db_peek_sns [OF Suc.prems(1) dev] Suc.IH [of "Suc i"] Suc.prems by simp
  qed
qed

lemma DirblobRecreate_wf:
  assumes "length bs mod 8 = 0"
  shows "dirblob_wf (snd (DirblobRecreate ok bs))"
  using assms by (auto simp: DirblobRecreate_def dirblob_wf_def DirblobInit_def Let_def)

lemma DirblobRecreate_same:
  assumes "dirblob_wf db"
  shows "\<exists>db'. DirblobRecreate True (dirblob_bytes db) = (0, db') \<and> dirblob_wf db' \<and> DirblobPure db'
    \<and> dirblob_sns db' = dirblob_sns db \<and> db_allocated db' = DirblobElements db'"
proof (cases "dirblob_bytes db = []")
  case True
  then have "db_devices db = 0" using length_dirblob_bytes [OF assms] by simp
  then show ?thesis using True
    by (simp add: DirblobRecreate_def Let_def dirblob_sns_def DirblobPure_def)
      (simp add: DirblobInit_def DirblobElements_def)
next
  case False
  let ?bs = "dirblob_bytes db"
  let ?db' = "DirblobInit\<lparr>db_snlist := Some (map Some ?bs), db_allocated := db_devices db, db_devices := db_devices db\<rparr>"
  have len: "length ?bs = 8 * db_devices db" by (rule length_dirblob_bytes [OF assms])
  have "dirblob_wf ?db'" and "dirblob_bytes ?db' = ?bs"
    using dirblob_wfI [of ?db' "map Some ?bs" ?bs] len by (simp_all add: DirblobInit_def)
  moreover have "DirblobRecreate True ?bs = (0, ?db')"
    using False len by (cases "db_devices db = 0") (simp_all add: DirblobRecreate_def Let_def)
  ultimately show ?thesis
    by (simp add: dirblob_sns_def DirblobPure_def DirblobElements_def DirblobInit_def)
qed

section \<open>charblob provides it\<close>

definition charblob_wf :: "charblob \<Rightarrow> bool" where
  "charblob_wf cb \<longleftrightarrow>
     (case cb_blob cb of
        None \<Rightarrow> cb_allocated cb = 0 \<and> cb_used cb = 0
      | Some blk \<Rightarrow> length blk = cb_allocated cb \<and> cb_used cb \<le> cb_allocated cb \<and> None \<notin> set blk)"

definition charblob_bytes :: "charblob \<Rightarrow> byte list" where
  "charblob_bytes cb =
     (case cb_blob cb of None \<Rightarrow> [] | Some blk \<Rightarrow> map the (take (cb_used cb) blk))"

definition comma_extend :: "byte list \<Rightarrow> byte list \<Rightarrow> byte list" where
  "comma_extend text a = (if text = [] then a else text @ [44] @ a)"

lemma length_charblob_bytes: "charblob_wf cb \<Longrightarrow> length (charblob_bytes cb) = cb_used cb"
  by (auto simp: charblob_wf_def charblob_bytes_def split: option.splits)

lemma cb_grow_correct:
  assumes "charblob_wf cb"
  shows "\<exists>cb'. cb_grow True incr cb = Some (Inr cb') \<and> charblob_wf cb' \<and> cb_blob cb' \<noteq> None
    \<and> cb_used cb' = cb_used cb \<and> cb_allocated cb' = cb_allocated cb + incr
    \<and> cb_troubled cb' = cb_troubled cb \<and> charblob_bytes cb' = charblob_bytes cb"
proof -
  let ?n = "cb_allocated cb + incr"
  let ?old = "case cb_blob cb of None \<Rightarrow> [] | Some b \<Rightarrow> b"
  have old: "length ?old = cb_allocated cb" "cb_used cb \<le> cb_allocated cb" "None \<notin> set ?old"
    using assms by (auto simp: charblob_wf_def split: option.splits)
  have "take (cb_allocated cb) (owrealloc (cb_blob cb) ?n) = ?old"
    using old by (simp add: owrealloc_def Let_def)
  then have st: "blk_store (cb_allocated cb) (replicate incr (Some 0)) (owrealloc (cb_blob cb) ?n)
      = Some (?old @ replicate incr (Some 0))"
    by (simp add: blk_store_def)
  have "charblob_bytes cb = map the (take (cb_used cb) ?old)"
    by (simp add: charblob_bytes_def split: option.splits)
  with st old show ?thesis
    by (auto simp: cb_grow_def Let_def charblob_wf_def charblob_bytes_def)
qed

lemma cb_append_correct:
  assumes "charblob_wf cb" and "cb_used cb + length a \<le> cb_allocated cb" and "a \<noteq> [] \<or> cb_blob cb \<noteq> None"
  shows "\<exists>cb'. cb_append a cb = Some (0, cb') \<and> charblob_wf cb'
    \<and> cb_troubled cb' = cb_troubled cb \<and> charblob_bytes cb' = charblob_bytes cb @ a"
proof -
  obtain blk where blk: "cb_blob cb = Some blk"
    using assms by (auto simp: charblob_wf_def split: option.splits)
  then have len: "length blk = cb_allocated cb" "None \<notin> set blk"
    using assms by (auto simp: charblob_wf_def)
  let ?blk' = "take (cb_used cb) blk @ map Some a @ drop (cb_used cb + length a) blk"
  have "blk_store (cb_used cb) (map Some a) blk = Some ?blk'"
    using assms len by (simp add: blk_store_def)
  moreover have "None \<notin> set ?blk'"
    using len by (auto dest: in_set_takeD in_set_dropD)
  ultimately show ?thesis
    using assms len blk by (auto simp: cb_append_def charblob_wf_def charblob_bytes_def)
qed

lemma charblob_troubled [simp]:
  "charblob_wf (cb\<lparr>cb_troubled := b\<rparr>) = charblob_wf cb"
  "charblob_bytes (cb\<lparr>cb_troubled := b\<rparr>) = charblob_bytes cb"
  by (simp_all add: charblob_wf_def charblob_bytes_def split: option.splits)

lemma cb_append_empty:
  "charblob_wf cb \<Longrightarrow> cb_blob cb = None \<Longrightarrow>
     cb_append [] cb = Some (0, cb) \<and> charblob_bytes cb = []"
  by (simp add: cb_append_def charblob_bytes_def)

text \<open>What an addition may do: succeed with new contents, or fail for want of memory and say so.\<close>

definition cb_outcome :: "bool \<Rightarrow> byte list \<Rightarrow> charblob \<Rightarrow> (int \<times> charblob) option \<Rightarrow> bool" where
  "cb_outcome ok new cb res \<longleftrightarrow> (\<exists>ret cb'. res = Some (ret, cb') \<and> charblob_wf cb' \<and>
     ((ret = 0 \<and> cb_troubled cb' = cb_troubled cb \<and> charblob_bytes cb' = new) \<or> (\<not> ok \<and> cb_troubled cb')))"

lemma cb_put_outcome:
  assumes wf: "charblob_wf cb" and incr: "length a \<le> incr"
  shows "cb_outcome ok (charblob_bytes cb @ a) cb (cb_put ok incr a cb)"
proof (cases "cb_used cb + length a > cb_allocated cb")
  case True
  show ?thesis
  proof (cases ok)
    case ok: True
    obtain cb1 where g: "cb_grow True incr cb = Some (Inr cb1)" "charblob_wf cb1" "cb_blob cb1 \<noteq> None"
        "cb_used cb1 = cb_used cb" "cb_allocated cb1 = cb_allocated cb + incr"
        "cb_troubled cb1 = cb_troubled cb" "charblob_bytes cb1 = charblob_bytes cb"
      using cb_grow_correct [OF wf] by blast
    have "cb_used cb \<le> cb_allocated cb"
      using wf by (auto simp: charblob_wf_def split: option.splits)
    then have "cb_used cb1 + length a \<le> cb_allocated cb1" using g incr by simp
    then show ?thesis
      using cb_append_correct [of cb1 a] g True ok by (auto simp: cb_put_def cb_outcome_def)
  next
    case False
    then show ?thesis using True wf by (simp add: cb_put_def cb_grow_def Let_def cb_outcome_def)
  qed
next
  case False
  show ?thesis
  proof (cases "a = [] \<and> cb_blob cb = None")
    case True
    then show ?thesis using False cb_append_empty [OF wf] wf by (simp add: cb_put_def cb_outcome_def)
  next
    case nonempty: False
    then show ?thesis
      using False cb_append_correct [OF wf, of a] by (auto simp: cb_put_def cb_outcome_def)
  qed
qed

lemma cb_outcome_step:
  assumes "cb_outcome ok new cb (Some (ret, cb1))" and "cb_outcome ok' new' cb1 res"
    and "charblob_bytes cb1 = new \<Longrightarrow> new' = goal"
  shows "cb_outcome (ok \<and> ok') goal cb res"
  using assms by (auto simp: cb_outcome_def)

lemma CharblobAdd_outcome:
  assumes wf: "charblob_wf cb"
  shows "cb_outcome (ok_comma \<and> ok) (comma_extend (charblob_bytes cb) a) cb (CharblobAdd ok_comma ok a cb)"
proof -
  let ?incr = "if 1024 < length a then length a else 1024"
  have empty: "charblob_bytes cb = [] \<longleftrightarrow> cb_used cb = 0"
    using length_charblob_bytes [OF wf] by fastforce
  have comma: "cb_outcome ok_comma (charblob_bytes cb @ [44]) cb (CharblobAddChar ok_comma 44 cb)"
    unfolding CharblobAddChar_def by (rule cb_put_outcome [OF wf]) simp
  then obtain ret cb1 where cb1: "CharblobAddChar ok_comma 44 cb = Some (ret, cb1)" "charblob_wf cb1"
    by (auto simp: cb_outcome_def)
  show ?thesis
  proof (cases "cb_used cb = 0")
    case True
    then show ?thesis using cb_put_outcome [OF wf, of a ?incr ok] empty
      by (auto simp: CharblobAdd_def Let_def comma_extend_def cb_outcome_def)
  next
    case False
    then have "CharblobAdd ok_comma ok a cb = cb_put ok ?incr a cb1"
      using cb1 by (simp add: CharblobAdd_def Let_def)
    moreover have "cb_outcome ok (charblob_bytes cb1 @ a) cb1 (cb_put ok ?incr a cb1)"
      by (rule cb_put_outcome [OF cb1(2)]) simp
    ultimately show ?thesis
      using comma cb1 False empty by (auto intro: cb_outcome_step simp: comma_extend_def)
  qed
qed

interpretation charblob: growable_buffer charblob_wf charblob_bytes CharblobPure "\<lambda>_. True" comma_extend
  "(True, True)" "\<lambda>(ok_comma, ok). CharblobAdd ok_comma ok"
proof
  fix s s' :: charblob and x and ok :: "bool \<times> bool" and ret :: int
  assume wf: "charblob_wf s"
  obtain c k where ok: "ok = (c, k)" by fastforce
  show "\<exists>ret s'. (case ok of (ok_comma, ok) \<Rightarrow> CharblobAdd ok_comma ok) x s = Some (ret, s') \<and> charblob_wf s'"
    unfolding ok using CharblobAdd_outcome [OF wf, of c k x] by (auto simp: cb_outcome_def)
  show "(case ok of (ok_comma, ok) \<Rightarrow> CharblobAdd ok_comma ok) x s = Some (ret, s') \<Longrightarrow> CharblobPure s' \<Longrightarrow>
      ret = 0 \<and> CharblobPure s \<and> charblob_bytes s' = comma_extend (charblob_bytes s) x"
    unfolding ok using CharblobAdd_outcome [OF wf, of c k x] by (auto simp: cb_outcome_def CharblobPure_def)
  show "CharblobPure s \<Longrightarrow>
      \<exists>s'. (case (True, True) of (ok_comma, ok) \<Rightarrow> CharblobAdd ok_comma ok) x s = Some (0, s') \<and> CharblobPure s'"
    using CharblobAdd_outcome [OF wf, of True True x] by (auto simp: cb_outcome_def CharblobPure_def)
qed

section \<open>Properties\<close>

lemma foldl_append_concat: "foldl (@) acc xs = acc @ concat xs"
  by (induction xs arbitrary: acc) auto

lemma foldl_snoc: "foldl (\<lambda>acc x. acc @ [x]) acc xs = acc @ xs"
  by (induction xs arbitrary: acc) auto

lemma map_Pair_all: "\<forall>(ok, x) \<in> set xs. ok = k \<Longrightarrow> xs = map (Pair k) (map snd xs)"
  by (induction xs) auto

lemma ball_True: "\<forall>(ok, x) \<in> set xs. True"
  by auto

text \<open>
  Any sequence of \<^verbatim>\<open>MemblobAdd\<close> calls on a fresh memblob, with any of its allocations failing,
  runs without an access outside the allocated block and keeps the representation invariant; if the
  blob is pure at the end its contents are the added byte strings in order, and it is pure when no
  allocation failed.
\<close>
theorem memblob_collects:
  assumes "increment > 0"
  shows "\<exists>mb. run_adds MemblobAdd xs (MemblobInit increment) = Some mb \<and> memblob_wf mb
    \<and> (MemblobPure mb \<longrightarrow> memblob_bytes mb = concat (map snd xs) \<and> MemblobLength mb = length (concat (map snd xs)))
    \<and> ((\<forall>(ok, x) \<in> set xs. ok) \<longrightarrow> MemblobPure mb)"
proof -
  have init: "memblob_wf (MemblobInit increment)" "MemblobPure (MemblobInit increment)"
    using assms by (simp_all add: memblob_wf_def MemblobPure_def MemblobInit_def)
  obtain mb where mb: "run_adds MemblobAdd xs (MemblobInit increment) = Some mb" "memblob_wf mb"
    using memblob.adds_defined [OF init(1) ball_True] by blast
  moreover have "memblob_bytes mb = concat (map snd xs)" if "MemblobPure mb"
    using memblob.adds_pure_contents [OF init(1) ball_True mb(1) that] by (simp add: foldl_append_concat)
  moreover have "MemblobPure mb" if "\<forall>(ok, x) \<in> set xs. ok"
    using memblob.adds_all_ok [OF init(1) _ init(2), of "map snd xs"] map_Pair_all [of xs True] that mb
    by auto
  ultimately show ?thesis using length_memblob_bytes [OF mb(2)] by auto
qed

theorem memblob_collects_witness:
  "\<exists>mb. run_adds MemblobAdd [(True, [1, 2]), (True, [3])] (MemblobInit 2) = Some mb
    \<and> memblob_bytes mb = [1, 2, 3]"
  using memblob_collects [of 2 "[(True, [1, 2]), (True, [3])]"] by fastforce

text \<open>
  A directory built by \<^verbatim>\<open>DirblobAdd\<close> calls on a fresh dirblob is memory safe whatever allocations
  fail, and when \<^verbatim>\<open>DirblobPure\<close> holds it lists exactly the added serial numbers in order. On any
  well-formed dirblob \<^verbatim>\<open>DirblobGet\<close> returns the i-th serial number or \<^verbatim>\<open>-ENODEV\<close> past the end, and
  \<^verbatim>\<open>DirblobSearch\<close> the least index of a serial number or \<^verbatim>\<open>INDEX_BAD\<close> when it is absent.
\<close>
theorem dirblob_directory:
  assumes "\<forall>(ok, sn) \<in> set xs. length sn = SERIAL_NUMBER_SIZE"
  shows "\<exists>db. run_adds DirblobAdd xs DirblobInit = Some db \<and> dirblob_wf db
    \<and> (DirblobPure db \<longrightarrow> dirblob_sns db = map snd xs)
    \<and> (\<forall>i. DirblobGet (int i) db =
           Some (if i < DirblobElements db then Inr (dirblob_sns db ! i) else Inl (- ENODEV)))
    \<and> (\<forall>sn. DirblobSearch sn db =
           Some (if sn \<in> set (dirblob_sns db)
                 then int (LEAST j. j < DirblobElements db \<and> dirblob_sns db ! j = sn) else INDEX_BAD))"
proof -
  obtain db where db: "run_adds DirblobAdd xs DirblobInit = Some db" "dirblob_wf db"
    using dirblob.adds_defined [OF dirblob_wf_Init assms] by blast
  have "dirblob_sns db = map snd xs" if "DirblobPure db"
    using dirblob.adds_pure_contents [OF dirblob_wf_Init assms db(1) that] by (simp add: foldl_snoc)
  moreover have "DirblobGet (int i) db =
      Some (if i < DirblobElements db then Inr (dirblob_sns db ! i) else Inl (- ENODEV))" for i
    using db_peek_sns [OF db(2), of i] by (auto simp: DirblobGet_def DirblobElements_def)
  moreover have "DirblobSearch sn db =
      Some (if sn \<in> set (dirblob_sns db)
            then int (LEAST j. j < DirblobElements db \<and> dirblob_sns db ! j = sn) else INDEX_BAD)" for sn
  proof (cases "db_devices db < 1")
    case True
    then have "dirblob_sns db = []"
      using length_dirblob_sns [of db] by (simp add: DirblobElements_def)
    then show ?thesis using True by (simp add: DirblobSearch_def)
  next
    case False
    then show ?thesis using dirblob_search_from_correct [OF db(2), of 0 "db_devices db" sn]
      by (simp add: DirblobSearch_def DirblobElements_def)
  qed
  ultimately show ?thesis using db by blast
qed

theorem dirblob_directory_witness:
  "\<exists>db. run_adds DirblobAdd [(True, [40,1,2,3,4,5,6,7]), (True, [16,1,2,3,4,5,6,7])] DirblobInit = Some db
    \<and> dirblob_sns db = [[40,1,2,3,4,5,6,7], [16,1,2,3,4,5,6,7]]
    \<and> DirblobGet 1 db = Some (Inr [16,1,2,3,4,5,6,7]) \<and> DirblobGet 2 db = Some (Inl (- ENODEV))"
proof -
  let ?sns = "[[40,1,2,3,4,5,6,7], [16,1,2,3,4,5,6,7]] :: byte list list"
  obtain db where db: "run_adds DirblobAdd (map (Pair True) ?sns) DirblobInit = Some db"
      "DirblobPure db \<longrightarrow> dirblob_sns db = ?sns"
      "\<And>i. DirblobGet (int i) db =
           Some (if i < DirblobElements db then Inr (dirblob_sns db ! i) else Inl (- ENODEV))"
    using dirblob_directory [of "map (Pair True) ?sns"] by (auto simp: SERIAL_NUMBER_SIZE_def)
  have "DirblobPure db"
    using dirblob.adds_all_ok [OF dirblob_wf_Init, of ?sns] db(1)
    by (auto simp: SERIAL_NUMBER_SIZE_def DirblobPure_def DirblobInit_def)
  then have sns: "dirblob_sns db = ?sns" using db(2) by simp
  then have "DirblobElements db = 2" using length_dirblob_sns [of db] by simp
  then show ?thesis using db(1) db(3) [of 1] db(3) [of 2] sns by auto
qed

text \<open>
  \<^verbatim>\<open>DirblobRecreate\<close>, which turns the bytes kept in the cache back into a directory, is the inverse of
  taking those bytes: it yields a well-formed pure dirblob with the same serial numbers, of which
  every slot is used.
\<close>
theorem DirblobRecreate_roundtrip:
  assumes "dirblob_wf db"
  shows "\<exists>db'. DirblobRecreate True (dirblob_bytes db) = (0, db') \<and> dirblob_wf db' \<and> DirblobPure db'
    \<and> dirblob_sns db' = dirblob_sns db \<and> db_allocated db' = DirblobElements db'"
  by (rule DirblobRecreate_same [OF assms])

theorem DirblobRecreate_roundtrip_witness:
  "\<exists>db'. DirblobRecreate True (dirblob_bytes DirblobInit) = (0, db') \<and> dirblob_wf db' \<and> DirblobPure db'
    \<and> dirblob_sns db' = dirblob_sns DirblobInit \<and> db_allocated db' = DirblobElements db'"
  using DirblobRecreate_roundtrip [of DirblobInit] by simp

text \<open>
  Any sequence of \<^verbatim>\<open>CharblobAdd\<close> calls on a fresh charblob is memory safe whatever allocations
  fail; a pure charblob holds the names separated by commas, and it is pure when every allocation
  succeeded.
\<close>
theorem charblob_joins:
  "\<exists>cb. run_adds (\<lambda>(ok_comma, ok). CharblobAdd ok_comma ok) xs CharblobInit = Some cb \<and> charblob_wf cb
    \<and> (CharblobPure cb \<longrightarrow> charblob_bytes cb = foldl comma_extend [] (map snd xs))
    \<and> ((\<forall>(ok, x) \<in> set xs. ok = (True, True)) \<longrightarrow> CharblobPure cb)"
proof -
  have init: "charblob_wf CharblobInit" "CharblobPure CharblobInit" "charblob_bytes CharblobInit = []"
    by (simp_all add: charblob_wf_def CharblobPure_def CharblobInit_def charblob_bytes_def)
  let ?add = "\<lambda>(ok_comma, ok). CharblobAdd ok_comma ok"
  obtain cb where cb: "run_adds ?add xs CharblobInit = Some cb" "charblob_wf cb"
    using charblob.adds_defined [OF init(1) ball_True] by blast
  moreover have "charblob_bytes cb = foldl comma_extend [] (map snd xs)" if "CharblobPure cb"
    using charblob.adds_pure_contents [OF init(1) ball_True cb(1) that] init(3) by simp
  moreover have "CharblobPure cb" if "\<forall>(ok, x) \<in> set xs. ok = (True, True)"
    using charblob.adds_all_ok [OF init(1) _ init(2), of "map snd xs"] map_Pair_all [OF that] cb
    by auto
  ultimately show ?thesis by auto
qed

theorem charblob_joins_witness:
  "\<exists>cb. run_adds (\<lambda>(ok_comma, ok). CharblobAdd ok_comma ok)
      [((True, True), [97]), ((True, True), [98, 99])] CharblobInit = Some cb
    \<and> charblob_bytes cb = [97, 44, 98, 99]"
  using charblob_joins [of "[((True, True), [97]), ((True, True), [98, 99])]"]
  by (fastforce simp: comma_extend_def)

text \<open>
  A name that fills the allocated block exactly leaves the text without a terminating zero:
  every cell of the block is part of the text, so a caller that reads \<^verbatim>\<open>CharblobData\<close> as a C string
  runs past the block.
\<close>
theorem charblob_full_block_unterminated:
  "length a \<ge> 1024 \<Longrightarrow> \<exists>cb. CharblobAdd True True a CharblobInit = Some (0, cb) \<and> CharblobPure cb
    \<and> CharblobData cb = Some (map Some a) \<and> CharblobLength cb = length a"
  by (auto simp: CharblobAdd_def CharblobInit_def Let_def cb_put_def cb_grow_def blk_store_def
      owrealloc_def cb_append_def CharblobPure_def CharblobData_def CharblobLength_def)

theorem charblob_full_block_unterminated_witness:
  "\<exists>cb. CharblobAdd True True (replicate 1024 65) CharblobInit = Some (0, cb) \<and> CharblobPure cb
    \<and> CharblobData cb = Some (map Some (replicate 1024 65)) \<and> CharblobLength cb = 1024"
  using charblob_full_block_unterminated [of "replicate 1024 65"] by simp

end
