(* ===== verification/OW_Bus.thy ===== *)
theory OW_Bus
  imports OW_Crc OW_Bits OW_Blobs
begin

text \<open>
  The bus layer of owlib: \<^verbatim>\<open>ow_bus_data.c\<close>, \<^verbatim>\<open>ow_bus_bitdata.c\<close>, \<^verbatim>\<open>ow_reset.c\<close>, \<^verbatim>\<open>ow_powerbyte.c\<close>,
  \<^verbatim>\<open>ow_powerbit.c\<close> and \<^verbatim>\<open>ow_programpulse.c\<close>. They dispatch to the routines of the bus master
  (\<^verbatim>\<open>struct interface_routines\<close>), each of which may be \<^verbatim>\<open>NULL\<close>, and fall back on bit-level defaults.

  The state is the connection (\<^verbatim>\<open>struct connection_in\<close>) with the hardware behind it as a parameter
  type, plus the global CRC counters. A routine that fills a response buffer returns the bytes it has
  stored there: all of them on success, and the part written so far when it fails.
\<close>

section \<open>State\<close>

datatype e_anydevices = anydevices_no | anydevices_yes | anydevices_unknown

datatype ds2409_branch = eBranch_main | eBranch_aux | eBranch_cleared | eBranch_bad

record ds2409_hubs =
  hub_sn :: "byte list"
  hub_branch :: ds2409_branch

text \<open>The counters of a bus; the last one is kept apart from the array in the code.\<close>

datatype e_bus_stat =
    e_bus_reconnects | e_bus_reconnect_errors | e_bus_locks | e_bus_unlocks | e_bus_errors | e_bus_resets
  | e_bus_reset_errors | e_bus_short_errors | e_bus_program_errors | e_bus_pullup_errors | e_bus_timeouts
  | e_bus_read_errors | e_bus_write_errors | e_bus_detect_errors | e_bus_open_errors | e_bus_close_errors
  | e_bus_search_errors1 | e_bus_search_errors2 | e_bus_search_errors3 | e_bus_status_errors
  | e_bus_select_errors | e_bus_try_overdrive | e_bus_failed_overdrive | BUS_readin_data_errors

text \<open>
  \<open>ms_delayed\<close> and \<open>us_delayed\<close> count the time spent in \<^verbatim>\<open>UT_delay\<close> and \<^verbatim>\<open>UT_delay_us\<close>; the lock fields say
  whether this thread holds the port and the channel.
\<close>

record 'b connection_in =
  hardware :: 'b
  AnyDevices :: e_anydevices
  ds2404_found :: bool
  reconnect_state :: int
  overdrive :: bool
  branch :: ds2409_hubs
  bus_stat :: "e_bus_stat \<Rightarrow> uint"
  crc_counters :: crc_stats
  ms_delayed :: nat
  us_delayed :: nat
  port_locked :: bool
  channel_locked :: bool

text \<open>The part of \<^verbatim>\<open>struct parsedname\<close> the bus layer reads. The hub path has \<open>ds2409_depth\<close> entries;
  \<open>pn_has_device\<close> says that a slave is selected, other than the thermostat pseudo-device.\<close>

record bus_pn =
  pn_sn :: "byte list"
  pn_bp :: "ds2409_hubs list"
  pn_has_device :: bool

definition ds2409_depth :: "bus_pn \<Rightarrow> nat" where
  "ds2409_depth pn = length (pn_bp pn)"

definition RootNotBranch :: "bus_pn \<Rightarrow> bool" where
  "RootNotBranch pn \<longleftrightarrow> ds2409_depth pn = 0"

datatype search_status = search_good | search_done | search_error

record device_search =
  LastDiscrepancy :: int
  LastDevice :: bool
  ds_index :: int
  ds_sn :: "byte list"
  ds_search :: byte
  ds_gulp :: dirblob

type_synonym RESET_TYPE = int

definition BUS_RESET_OK :: RESET_TYPE where [errnos]: "BUS_RESET_OK = 0"
definition BUS_RESET_SHORT :: RESET_TYPE where [errnos]: "BUS_RESET_SHORT = 1"
definition BUS_RESET_ERROR :: RESET_TYPE where "BUS_RESET_ERROR = - EINVAL"

definition gbRESET :: "RESET_TYPE \<Rightarrow> GOOD_OR_BAD" where
  "gbRESET r = (if r < BUS_RESET_OK then gbBAD else gbGOOD)"

type_synonym 'b sendback = "byte list \<Rightarrow> bus_pn \<Rightarrow> 'b connection_in \<Rightarrow> GOOD_OR_BAD \<times> byte list \<times> 'b connection_in"

record 'b interface_routines =
  ir_reset :: "(bus_pn \<Rightarrow> 'b connection_in \<Rightarrow> RESET_TYPE \<times> 'b connection_in) option"
  ir_next_both :: "(device_search \<Rightarrow> bus_pn \<Rightarrow> 'b connection_in \<Rightarrow> search_status \<times> device_search \<times> 'b connection_in) option"
  ir_PowerByte :: "(byte \<Rightarrow> nat \<Rightarrow> bus_pn \<Rightarrow> 'b connection_in \<Rightarrow> GOOD_OR_BAD \<times> byte list \<times> 'b connection_in) option"
  ir_PowerBit :: "(byte \<Rightarrow> nat \<Rightarrow> bus_pn \<Rightarrow> 'b connection_in \<Rightarrow> GOOD_OR_BAD \<times> byte list \<times> 'b connection_in) option"
  ir_ProgramPulse :: "(bus_pn \<Rightarrow> 'b connection_in \<Rightarrow> GOOD_OR_BAD \<times> 'b connection_in) option"
  ir_sendback_data :: "'b sendback option"
  ir_select_and_sendback :: "'b sendback option"
  ir_sendback_bits :: "'b sendback option"
  ir_select :: "(bus_pn \<Rightarrow> 'b connection_in \<Rightarrow> GOOD_OR_BAD \<times> 'b connection_in) option"
  ir_verify :: "(bus_pn \<Rightarrow> 'b connection_in \<Rightarrow> GOOD_OR_BAD \<times> 'b connection_in) option"
  ir_flags :: uint
  ir_bundling_length :: nat
  ir_bus_is_server :: bool
  ir_one_device :: bool

definition ADAP_FLAG_no2409path :: uint where "ADAP_FLAG_no2409path = 0x10"
definition ADAP_FLAG_no2404delay :: uint where "ADAP_FLAG_no2404delay = 0x20"
definition ADAP_FLAG_bundle :: uint where "ADAP_FLAG_bundle = 0x1000"
definition ADAP_FLAG_unlock_during_delay :: uint where "ADAP_FLAG_unlock_during_delay = 0x10000"

definition STAT_ADD1_BUS :: "e_bus_stat \<Rightarrow> 'b connection_in \<Rightarrow> 'b connection_in" where
  "STAT_ADD1_BUS e c = c\<lparr>bus_stat := (bus_stat c)(e := bus_stat c e + 1)\<rparr>"

definition UT_delay :: "nat \<Rightarrow> 'b connection_in \<Rightarrow> 'b connection_in" where
  "UT_delay ms c = c\<lparr>ms_delayed := ms_delayed c + ms\<rparr>"

definition UT_delay_us :: "nat \<Rightarrow> 'b connection_in \<Rightarrow> 'b connection_in" where
  "UT_delay_us us c = c\<lparr>us_delayed := us_delayed c + us\<rparr>"

section \<open>Reset\<close>

definition BUS_reset :: "'b interface_routines \<Rightarrow> bus_pn \<Rightarrow> 'b connection_in \<Rightarrow> RESET_TYPE \<times> 'b connection_in" where
  "BUS_reset ir pn c =
     (let c = STAT_ADD1_BUS e_bus_resets c in
      case ir_reset ir of
        None \<Rightarrow> (BUS_RESET_OK, c)
      | Some reset \<Rightarrow>
          (case reset pn c of (r, c) \<Rightarrow>
             if r = BUS_RESET_OK then
               let c = c\<lparr>reconnect_state := 0\<rparr>;
                   c = (if ds2404_found c \<and> ir_flags ir AND ADAP_FLAG_no2404delay = 0 then UT_delay 5 c else c)
               in (BUS_RESET_OK, c)
             else if r = BUS_RESET_SHORT then
               (BUS_RESET_SHORT, STAT_ADD1_BUS e_bus_short_errors (c\<lparr>AnyDevices := anydevices_unknown\<rparr>))
             else
               let (again, c) = (if ds2404_found c then reset pn c else (BUS_RESET_ERROR, c)) in
               if again = BUS_RESET_OK then (BUS_RESET_OK, c)
               else (BUS_RESET_ERROR,
                     STAT_ADD1_BUS e_bus_reset_errors (c\<lparr>reconnect_state := reconnect_state c + 1\<rparr>))))"

section \<open>Bits\<close>

definition BUS_sendback_bits :: "'b interface_routines \<Rightarrow> 'b sendback" where
  "BUS_sendback_bits ir databits pn c =
     (case ir_sendback_bits ir of
        Some sendback_bits \<Rightarrow> sendback_bits databits pn c
      | None \<Rightarrow> (gbBAD, [], c))"

text \<open>Bits are bytes that count as zero or non-zero.\<close>

fun BUS_compare_bits :: "byte list \<Rightarrow> byte list \<Rightarrow> GOOD_OR_BAD" where
  "BUS_compare_bits (a # as) (b # bs) =
     (if (a = 0) \<noteq> (b = 0) then gbBAD else BUS_compare_bits as bs)"
| "BUS_compare_bits _ _ = gbGOOD"

definition BUS_send_bits ::
  "'b interface_routines \<Rightarrow> byte list \<Rightarrow> bus_pn \<Rightarrow> 'b connection_in \<Rightarrow> GOOD_OR_BAD \<times> 'b connection_in" where
  "BUS_send_bits ir data pn c =
     (if data = [] then (gbGOOD, c)
      else case BUS_sendback_bits ir data pn c of (ret, resp, c) \<Rightarrow>
        if BAD ret then (gbBAD, STAT_ADD1_BUS e_bus_errors c)
        else if GOOD (BUS_compare_bits data resp) then (gbGOOD, c)
        else (gbBAD, STAT_ADD1_BUS e_bus_errors c))"

definition BUS_readin_bits ::
  "'b interface_routines \<Rightarrow> nat \<Rightarrow> bus_pn \<Rightarrow> 'b connection_in \<Rightarrow> GOOD_OR_BAD \<times> byte list \<times> 'b connection_in" where
  "BUS_readin_bits ir len pn c =
     (let data = replicate len 0xFF in
      case BUS_sendback_bits ir data pn c of (ret, resp, c) \<Rightarrow>
        let data = resp @ drop (length resp) data in
        if GOOD ret then (gbGOOD, data, c) else (gbBAD, data, STAT_ADD1_BUS BUS_readin_data_errors c))"

section \<open>Bytes\<close>

definition max_split_bytes :: nat where
  "max_split_bytes = 160 div 8"

definition encode_bits :: "byte list \<Rightarrow> byte list" where
  "encode_bits data = map (\<lambda>i. if UT_getbit data i then 0xFF else 0x00) [0..<8 * length data]"

text \<open>Every bit of the response buffer is overwritten, so its old contents do not matter.\<close>

definition decode_bits :: "nat \<Rightarrow> byte list \<Rightarrow> byte list" where
  "decode_bits len bit_buffer =
     foldl (\<lambda>resp i. UT_setbit resp i (bit_buffer ! i AND 1 \<noteq> 0)) (replicate len 0) [0..<8 * len]"

text \<open>The whole buffer as one packet of bits; the bit buffer is sent and received in place.\<close>

definition sendback_packet :: "'b interface_routines \<Rightarrow> 'b sendback" where
  "sendback_packet ir data pn c =
     (let bit_buffer = encode_bits data in
      case BUS_sendback_bits ir bit_buffer pn c of (ret, resp, c) \<Rightarrow>
        if BAD ret then (gbBAD, [], STAT_ADD1_BUS e_bus_errors c)
        else (gbGOOD, decode_bits (length data) (resp @ drop (length resp) bit_buffer), c))"

text \<open>
  \<open>shared\<close> says that the response buffer is the data buffer, as in \<^verbatim>\<open>BUS_readin_data\<close>: after the
  recursive calls for the two parts, the code goes on to send the whole buffer, which then holds the
  responses.
\<close>

function BUS_sendback_data_bitbang :: "'b interface_routines \<Rightarrow> bool \<Rightarrow> 'b sendback" where
  "BUS_sendback_data_bitbang ir shared data pn c =
     (if data = [] then (gbGOOD, [], c)
      else if length data > max_split_bytes then
        case BUS_sendback_data_bitbang ir shared (take max_split_bytes data) pn c of (ret, resp1, c) \<Rightarrow>
          if BAD ret then (gbBAD, resp1, c)
          else case BUS_sendback_data_bitbang ir shared (drop max_split_bytes data) pn c of (ret, resp2, c) \<Rightarrow>
            if BAD ret then (gbBAD, resp1 @ resp2, c)
            else (case sendback_packet ir (if shared then resp1 @ resp2 else data) pn c of (ret, resp, c) \<Rightarrow>
              if BAD ret then (gbBAD, resp1 @ resp2, c) else (gbGOOD, resp, c))
      else sendback_packet ir data pn c)"
  by pat_completeness auto
termination
  by (relation "measure (\<lambda>(ir, shared, data, pn, c). length data)") (auto simp: max_split_bytes_def)

declare BUS_sendback_data_bitbang.simps [simp del]

definition BUS_sendback_data :: "'b interface_routines \<Rightarrow> bool \<Rightarrow> 'b sendback" where
  "BUS_sendback_data ir shared data pn c =
     (if data = [] then (gbGOOD, [], c)
      else case ir_sendback_data ir of
        Some sendback_data \<Rightarrow> sendback_data data pn c
      | None \<Rightarrow> BUS_sendback_data_bitbang ir shared data pn c)"

definition BUS_send_data ::
  "'b interface_routines \<Rightarrow> byte list \<Rightarrow> bus_pn \<Rightarrow> 'b connection_in \<Rightarrow> GOOD_OR_BAD \<times> 'b connection_in" where
  "BUS_send_data ir data pn c =
     (if data = [] then (gbGOOD, c)
      else case BUS_sendback_data ir False data pn c of (ret, resp, c) \<Rightarrow>
        if BAD ret then (gbBAD, STAT_ADD1_BUS e_bus_errors c)
        else if data \<noteq> resp then (gbBAD, STAT_ADD1_BUS e_bus_errors c)
        else (gbGOOD, c))"

definition BUS_readin_data ::
  "'b interface_routines \<Rightarrow> nat \<Rightarrow> bus_pn \<Rightarrow> 'b connection_in \<Rightarrow> GOOD_OR_BAD \<times> byte list \<times> 'b connection_in" where
  "BUS_readin_data ir len pn c =
     (let data = replicate len 0xFF in
      case BUS_sendback_data ir True data pn c of (ret, resp, c) \<Rightarrow>
        let data = resp @ drop (length resp) data in
        if GOOD ret then (gbGOOD, data, c) else (gbBAD, data, STAT_ADD1_BUS BUS_readin_data_errors c))"

text \<open>\<^verbatim>\<open>BUS_select\<close> is an argument here: it is itself built from transactions.\<close>

definition BUS_select_and_sendback ::
  "(bus_pn \<Rightarrow> 'b connection_in \<Rightarrow> GOOD_OR_BAD \<times> 'b connection_in) \<Rightarrow> 'b interface_routines \<Rightarrow> bool \<Rightarrow> 'b sendback" where
  "BUS_select_and_sendback select ir shared data pn c =
     (case ir_select_and_sendback ir of
        Some select_and_sendback \<Rightarrow> select_and_sendback data pn c
      | None \<Rightarrow>
          (case select pn c of (ret, c) \<Rightarrow>
             if BAD ret then (gbBAD, [], c) else BUS_sendback_data ir shared data pn c))"

section \<open>Power and program pulses\<close>

text \<open>The locks of \<^verbatim>\<open>ow_buslock.c\<close>. The mutex of the port exists when the port has several channels; the
  field says that this thread may use the port.\<close>

definition PORT_lock_in :: "'b connection_in \<Rightarrow> 'b connection_in" where
  "PORT_lock_in c = c\<lparr>port_locked := True\<rparr>"

definition PORT_unlock_in :: "'b connection_in \<Rightarrow> 'b connection_in" where
  "PORT_unlock_in c = c\<lparr>port_locked := False\<rparr>"

definition CHANNEL_lock_in :: "'b connection_in \<Rightarrow> 'b connection_in" where
  "CHANNEL_lock_in c = STAT_ADD1_BUS e_bus_locks (c\<lparr>channel_locked := True\<rparr>)"

definition CHANNEL_unlock_in :: "'b connection_in \<Rightarrow> 'b connection_in" where
  "CHANNEL_unlock_in c = (STAT_ADD1_BUS e_bus_unlocks c)\<lparr>channel_locked := False\<rparr>"

definition BUS_lock_in :: "'b connection_in \<Rightarrow> 'b connection_in" where
  "BUS_lock_in c = CHANNEL_lock_in (PORT_lock_in c)"

definition BUS_unlock_in :: "'b connection_in \<Rightarrow> 'b connection_in" where
  "BUS_unlock_in c = PORT_unlock_in (CHANNEL_unlock_in c)"

lemmas lock_defs = PORT_lock_in_def PORT_unlock_in_def CHANNEL_lock_in_def CHANNEL_unlock_in_def BUS_lock_in_def
  BUS_unlock_in_def STAT_ADD1_BUS_def

definition unlocked_delay :: "nat \<Rightarrow> 'b connection_in \<Rightarrow> 'b connection_in" where
  "unlocked_delay delay c =
     (let c = PORT_unlock_in c;
          c = UT_delay delay c;
          c = CHANNEL_unlock_in c
      in BUS_lock_in c)"

definition delay_for_power :: "'b interface_routines \<Rightarrow> nat \<Rightarrow> 'b connection_in \<Rightarrow> 'b connection_in" where
  "delay_for_power ir delay c =
     (if ir_flags ir AND ADAP_FLAG_unlock_during_delay \<noteq> 0 then unlocked_delay delay c else UT_delay delay c)"

definition BUS_PowerBit ::
  "'b interface_routines \<Rightarrow> byte \<Rightarrow> nat \<Rightarrow> bus_pn \<Rightarrow> 'b connection_in \<Rightarrow> GOOD_OR_BAD \<times> byte list \<times> 'b connection_in" where
  "BUS_PowerBit ir data delay pn c =
     (case (case ir_PowerBit ir of
              Some PowerBit \<Rightarrow> PowerBit data delay pn c
            | None \<Rightarrow> (case BUS_sendback_bits ir [data] pn c of (ret, resp, c) \<Rightarrow>
                         (ret, resp, delay_for_power ir delay c)))
      of (ret, resp, c) \<Rightarrow>
        if BAD ret then (gbBAD, resp, STAT_ADD1_BUS e_bus_pullup_errors c) else (gbGOOD, resp, c))"

text \<open>
  The bit-level branch: seven plain bits, then one with power. The eight result bits are assembled
  even after a failure, from cells of \<open>receive\<close> that may never have been written; such a bit reads as
  the argument \<open>junk\<close> says.
\<close>

definition powerbyte_bits ::
  "'b interface_routines \<Rightarrow> (nat \<Rightarrow> byte) \<Rightarrow> byte \<Rightarrow> nat \<Rightarrow> bus_pn \<Rightarrow> 'b connection_in \<Rightarrow> GOOD_OR_BAD \<times> byte list \<times> 'b connection_in" where
  "powerbyte_bits ir junk data delay pn c =
     (let sending = encode_bits [data] in
      case BUS_sendback_bits ir (take 7 sending) pn c of (ret, recv, c) \<Rightarrow>
        (case (if GOOD ret then BUS_PowerBit ir (sending ! 7) delay pn c else (ret, [], c)) of (ret, recv7, c) \<Rightarrow>
           let receive = (\<lambda>i. if i < length recv \<and> i < 7 then recv ! i
                              else if i = 7 \<and> recv7 \<noteq> [] then hd recv7 else junk i);
               resp = foldl (\<lambda>resp i. UT_setbit resp i (receive i \<noteq> 0)) [0] [0..<8]
           in (ret, resp, c)))"

definition BUS_PowerByte ::
  "'b interface_routines \<Rightarrow> (nat \<Rightarrow> byte) \<Rightarrow> byte \<Rightarrow> nat \<Rightarrow> bus_pn \<Rightarrow> 'b connection_in \<Rightarrow> GOOD_OR_BAD \<times> byte list \<times> 'b connection_in" where
  "BUS_PowerByte ir junk data delay pn c =
     (case (case ir_PowerByte ir of
              Some PowerByte \<Rightarrow> PowerByte data delay pn c
            | None \<Rightarrow>
                if ir_PowerBit ir \<noteq> None \<and> ir_sendback_bits ir \<noteq> None
                then powerbyte_bits ir junk data delay pn c
                else (case BUS_sendback_data ir False [data] pn c of (ret, resp, c) \<Rightarrow>
                        (ret, resp, delay_for_power ir delay c)))
      of (ret, resp, c) \<Rightarrow>
        if BAD ret then (gbBAD, resp, STAT_ADD1_BUS e_bus_pullup_errors c) else (gbGOOD, resp, c))"

definition BUS_ProgramPulse ::
  "'b interface_routines \<Rightarrow> bus_pn \<Rightarrow> 'b connection_in \<Rightarrow> GOOD_OR_BAD \<times> 'b connection_in" where
  "BUS_ProgramPulse ir pn c =
     (let (ret, c) = (case ir_ProgramPulse ir of Some ProgramPulse \<Rightarrow> ProgramPulse pn c | None \<Rightarrow> (gbBAD, c))
      in (ret, if BAD ret then STAT_ADD1_BUS e_bus_program_errors c else c))"

section \<open>Bytes as bits\<close>

lemma byte_list_eqI:
  assumes "length xs = length ys" and "\<And>i. i < 8 * length xs \<Longrightarrow> UT_getbit xs i = UT_getbit ys i"
  shows "xs = ys"
proof (rule nth_equalityI [OF assms(1)])
  fix k assume k: "k < length xs"
  show "xs ! k = ys ! k"
  proof (rule bit_word_eqI)
    fix n assume "n < LENGTH(8)"
    then show "bit (xs ! k) n = bit (ys ! k) n"
      using assms(2) [of "8 * k + n"] k by (simp add: UT_getbit_bit)
  qed
qed

lemma setbits_fold:
  fixes resp :: "byte list"
  assumes "m \<le> 8 * length resp"
  shows "length (foldl (\<lambda>resp i. UT_setbit resp i (f i)) resp [0..<m]) = length resp
    \<and> (\<forall>i. UT_getbit (foldl (\<lambda>resp i. UT_setbit resp i (f i)) resp [0..<m]) i =
         (if i < m then f i else UT_getbit resp i))"
  using assms
proof (induction m)
  case (Suc m)
  let ?r = "foldl (\<lambda>resp i. UT_setbit resp i (f i)) resp [0..<m]"
  have IH: "length ?r = length resp" "\<And>i. UT_getbit ?r i = (if i < m then f i else UT_getbit resp i)"
    using Suc by auto
  have "m div 8 < length ?r" using Suc.prems IH(1) by linarith
  then show ?case using UT_getbit_setbit [of m ?r] IH by (auto simp: less_Suc_eq)
qed simp

lemma length_encode_bits [simp]: "length (encode_bits data) = 8 * length data"
  by (simp add: encode_bits_def)

lemma nth_encode_bits: "i < 8 * length data \<Longrightarrow> encode_bits data ! i = (if UT_getbit data i then 0xFF else 0x00)"
  by (simp add: encode_bits_def)

lemma length_decode_bits [simp]: "length (decode_bits len bb) = len"
  using setbits_fold [of "8 * len" "replicate len 0"] by (simp add: decode_bits_def)

lemma getbit_decode_bits: "i < 8 * len \<Longrightarrow> UT_getbit (decode_bits len bb) i \<longleftrightarrow> bit (bb ! i) 0"
  using setbits_fold [of "8 * len" "replicate len 0"] by (simp add: decode_bits_def and_1_neq_0)

lemma decode_encode_bits [simp]: "decode_bits (length data) (encode_bits data) = data"
proof (rule byte_list_eqI)
  fix i assume "i < 8 * length (decode_bits (length data) (encode_bits data))"
  then show "UT_getbit (decode_bits (length data) (encode_bits data)) i = UT_getbit data i"
    by (simp add: getbit_decode_bits nth_encode_bits)
qed simp

lemma bitbang_short:
  "data \<noteq> [] \<Longrightarrow> length data \<le> max_split_bytes \<Longrightarrow>
     BUS_sendback_data_bitbang ir shared data pn c = sendback_packet ir data pn c"
  by (subst BUS_sendback_data_bitbang.simps) simp

lemma sendback_packet_good_length:
  "sendback_packet ir data pn c = (gbGOOD, resp, c') \<Longrightarrow> length resp = length data"
  by (auto simp: sendback_packet_def Let_def split: prod.splits if_splits)

text \<open>One round of a buffer of more than one packet: both parts, and then the whole buffer again.\<close>

lemma bitbang_two_packets:
  assumes "max_split_bytes < length data" and "length data \<le> 2 * max_split_bytes"
    and "sendback_packet ir (take max_split_bytes data) pn c = (gbGOOD, resp1, c1)"
    and "sendback_packet ir (drop max_split_bytes data) pn c1 = (gbGOOD, resp2, c2)"
    and "sendback_packet ir (if shared then resp1 @ resp2 else data) pn c2 = (gbGOOD, resp3, c3)"
  shows "BUS_sendback_data_bitbang ir shared data pn c = (gbGOOD, resp3, c3)"
proof -
  have "BUS_sendback_data_bitbang ir shared (take max_split_bytes data) pn c = (gbGOOD, resp1, c1)"
    using assms(1-3) by (subst bitbang_short) (auto simp: max_split_bytes_def)
  moreover have "BUS_sendback_data_bitbang ir shared (drop max_split_bytes data) pn c1 = (gbGOOD, resp2, c2)"
    using assms(1,2,4) by (subst bitbang_short) auto
  ultimately show ?thesis
    using assms(1,5) by (subst BUS_sendback_data_bitbang.simps) auto
qed

section \<open>A recording adapter\<close>

text \<open>
  A bus master that has bit routines only, always succeeds, and records every bit it is given; the
  line follows the master. It instantiates the routines that are parameters of the model.
\<close>

definition echo_bits :: "byte list sendback" where
  "echo_bits databits pn c = (gbGOOD, databits, c\<lparr>hardware := hardware c @ databits\<rparr>)"

definition no_routines :: "'b interface_routines" where
  "no_routines = \<lparr>ir_reset = None, ir_next_both = None, ir_PowerByte = None, ir_PowerBit = None,
     ir_ProgramPulse = None, ir_sendback_data = None, ir_select_and_sendback = None,
     ir_sendback_bits = None, ir_select = None, ir_verify = None, ir_flags = 0,
     ir_bundling_length = 0, ir_bus_is_server = False, ir_one_device = False\<rparr>"

definition echo_routines :: "byte list interface_routines" where
  "echo_routines = no_routines\<lparr>ir_sendback_bits := Some echo_bits\<rparr>"

definition initial_connection :: "'b \<Rightarrow> 'b connection_in" where
  "initial_connection hw = \<lparr>hardware = hw, AnyDevices = anydevices_unknown, ds2404_found = False,
     reconnect_state = 0, overdrive = False, branch = \<lparr>hub_sn = replicate 8 0, hub_branch = eBranch_cleared\<rparr>,
     bus_stat = (\<lambda>_. 0), crc_counters = \<lparr>CRC8_tries = 0, CRC8_errors = 0, CRC16_tries = 0, CRC16_errors = 0\<rparr>,
     ms_delayed = 0, us_delayed = 0, port_locked = True, channel_locked = True\<rparr>"

lemma echo_packet:
  "sendback_packet echo_routines data pn c =
     (gbGOOD, data, c\<lparr>hardware := hardware c @ encode_bits data\<rparr>)"
  by (simp add: sendback_packet_def BUS_sendback_bits_def echo_routines_def echo_bits_def)

lemma echo_no_data: "ir_sendback_data echo_routines = None"
  by (simp add: echo_routines_def no_routines_def)

section \<open>Properties\<close>

text \<open>
  The byte-level fallback is a faithful serialisation: for up to 20 bytes the adapter's bit
  routine is called exactly once with the 8 bits of each byte, least significant first, as 0xFF or
  0x00, and when it succeeds with a full response, bit i of the response buffer is the low bit of the
  i-th byte it returned; when it fails the error is counted and the response buffer is not touched.
\<close>
theorem bitbang_serialises:
  assumes "data \<noteq> []" and "length data \<le> 20" and "ir_sendback_data ir = None"
    and "BUS_sendback_bits ir (encode_bits data) pn c = (ret, bits, c')"
  shows "(if BAD ret then BUS_sendback_data ir shared data pn c = (gbBAD, [], STAT_ADD1_BUS e_bus_errors c')
      else \<exists>resp. BUS_sendback_data ir shared data pn c = (gbGOOD, resp, c') \<and> length resp = length data
        \<and> (\<forall>i < 8 * length data. length bits = 8 * length data \<longrightarrow> UT_getbit resp i = bit (bits ! i) 0))
    \<and> (\<forall>i < 8 * length data. encode_bits data ! i = (if UT_getbit data i then 0xFF else 0x00))"
  using assms
  by (auto simp: BUS_sendback_data_def bitbang_short max_split_bytes_def sendback_packet_def
      getbit_decode_bits nth_encode_bits nth_append split: if_splits)

theorem bitbang_serialises_witness:
  "\<exists>resp c'. BUS_sendback_data echo_routines False [0xCC] \<lparr>pn_sn = [], pn_bp = [], pn_has_device = False\<rparr>
      (initial_connection []) = (gbGOOD, resp, c') \<and> length resp = 1
    \<and> encode_bits [0xCC] ! 2 = 0xFF"
proof -
  let ?pn = "\<lparr>pn_sn = [], pn_bp = [], pn_has_device = False\<rparr>"
  obtain bits c' where "BUS_sendback_bits echo_routines (encode_bits [0xCC]) ?pn (initial_connection []) = (gbGOOD, bits, c')"
    by (simp add: BUS_sendback_bits_def echo_routines_def echo_bits_def)
  from bitbang_serialises [OF _ _ _ this, of False] show ?thesis
    by (auto simp: echo_routines_def no_routines_def UT_getbit_def)
qed

lemma encode_bits_append: "encode_bits (xs @ ys) = encode_bits xs @ encode_bits ys"
proof (rule nth_equalityI)
  fix i assume "i < length (encode_bits (xs @ ys))"
  then show "encode_bits (xs @ ys) ! i = (encode_bits xs @ encode_bits ys) ! i"
    by (cases "i < 8 * length xs")
      (auto simp: nth_append nth_encode_bits UT_getbit_bit less_mult_imp_div_less
        div_le_mono [of "8 * length xs" i 8] dest!: not_less [THEN iffD1] le_Suc_ex)
qed simp

text \<open>
  A buffer of 21 to 40 bytes goes over the wire twice: the code sends its two parts and, having no
  return after them, goes on to send the whole buffer again.
\<close>
theorem bitbang_resends_long_buffers:
  assumes "20 < length data" and "length data \<le> 40"
  shows "BUS_sendback_data echo_routines shared data pn c =
    (gbGOOD, data, c\<lparr>hardware := hardware c @ encode_bits data @ encode_bits data\<rparr>)"
proof -
  have "encode_bits (take 20 data) @ encode_bits (drop 20 data) @ encode_bits data = encode_bits data @ encode_bits data"
    by (metis append.assoc append_take_drop_id encode_bits_append)
  moreover have "data \<noteq> []" "max_split_bytes = 20" using assms by (auto simp: max_split_bytes_def)
  ultimately show ?thesis
    using bitbang_two_packets [of data echo_routines pn c "take 20 data" _ "drop 20 data" _ shared data] assms
    by (simp add: BUS_sendback_data_def echo_packet echo_no_data)
qed

theorem bitbang_resends_long_buffers_witness:
  "BUS_sendback_data echo_routines True (replicate 25 0xFF) \<lparr>pn_sn = [], pn_bp = [], pn_has_device = False\<rparr>
      (initial_connection []) =
    (gbGOOD, replicate 25 0xFF, (initial_connection [])\<lparr>hardware :=
       hardware (initial_connection []) @ encode_bits (replicate 25 0xFF) @ encode_bits (replicate 25 0xFF)\<rparr>)"
  by (rule bitbang_resends_long_buffers) simp_all

text \<open>
  The default power byte, for a master with no power routine: the byte is sent once, the thread then
  sleeps the whole delay whether or not the byte was sent, the line is not touched during the delay,
  and port and channel are locked again at the end; a failure is counted and reported.
\<close>
theorem powerbyte_default:
  assumes "ir_PowerByte ir = None" and "ir_PowerBit ir = None"
    and "BUS_sendback_data ir False [data] pn c = (ret, resp, c1)"
    and "port_locked c1" and "channel_locked c1"
  shows "\<exists>c2. BUS_PowerByte ir junk data delay pn c = (if BAD ret then gbBAD else gbGOOD, resp, c2)
    \<and> ms_delayed c2 = ms_delayed c1 + delay \<and> hardware c2 = hardware c1
    \<and> port_locked c2 \<and> channel_locked c2
    \<and> bus_stat c2 e_bus_pullup_errors = bus_stat c1 e_bus_pullup_errors + (if BAD ret then 1 else 0)"
  using assms
  by (auto simp: BUS_PowerByte_def delay_for_power_def unlocked_delay_def UT_delay_def lock_defs Let_def)

theorem powerbyte_default_witness:
  "\<exists>c2. BUS_PowerByte echo_routines (\<lambda>_. 0) 0x44 750 \<lparr>pn_sn = [], pn_bp = [], pn_has_device = False\<rparr>
      (initial_connection []) = (gbGOOD, [0x44], c2) \<and> ms_delayed c2 = 750 \<and> port_locked c2"
proof -
  let ?pn = "\<lparr>pn_sn = [], pn_bp = [], pn_has_device = False\<rparr>"
  let ?c = "initial_connection []"
  have "BUS_sendback_data echo_routines False [0x44] ?pn ?c =
      (gbGOOD, [0x44], ?c\<lparr>hardware := hardware ?c @ encode_bits [0x44]\<rparr>)"
    by (simp add: BUS_sendback_data_def bitbang_short max_split_bytes_def echo_packet echo_no_data)
  from powerbyte_default [OF _ _ this, of "\<lambda>_. 0" 750] show ?thesis
    by (auto simp: echo_routines_def no_routines_def initial_connection_def)
qed

text \<open>
  The bit-level power byte, for a master with a power bit and bit routines: when the seven plain bits
  and the powered bit succeed, bit i of the response is set exactly when the i-th received bit is
  non-zero, the powered bit being bit 7.
\<close>
theorem powerbyte_bitwise:
  assumes "ir_PowerByte ir = None" and "ir_PowerBit ir \<noteq> None" and "ir_sendback_bits ir \<noteq> None"
    and "BUS_sendback_bits ir (take 7 (encode_bits [data])) pn c = (gbGOOD, recv, c1)" and "length recv = 7"
    and "BUS_PowerBit ir (if UT_getbit [data] 7 then 0xFF else 0) delay pn c1 = (gbGOOD, [last_bit], c2)"
  shows "\<exists>r. BUS_PowerByte ir junk data delay pn c = (gbGOOD, [r], c2)
    \<and> (\<forall>i < 8. bit r i \<longleftrightarrow> (recv @ [last_bit]) ! i \<noteq> 0)"
proof -
  let ?rec = "\<lambda>i. if i < length recv \<and> i < 7 then recv ! i
                  else if i = 7 \<and> [last_bit] \<noteq> [] then hd [last_bit] else junk i"
  let ?resp = "foldl (\<lambda>resp i. UT_setbit resp i (?rec i \<noteq> 0)) [0] [0..<8]"
  have resp: "length ?resp = 1" "\<And>i. UT_getbit ?resp i = (if i < 8 then ?rec i \<noteq> 0 else UT_getbit [0] i)"
    using setbits_fold [of 8 "[0]" "\<lambda>i. ?rec i \<noteq> 0"] by auto
  then obtain r where r: "?resp = [r]" by (auto simp: length_Suc_conv)
  have "bit r i \<longleftrightarrow> (recv @ [last_bit]) ! i \<noteq> 0" if "i < 8" for i
    using resp(2) [of i, unfolded r UT_getbit_bit] that assms(5) by (auto simp: nth_append)
  moreover have "BUS_PowerByte ir junk data delay pn c = (gbGOOD, ?resp, c2)"
    using assms by (simp add: BUS_PowerByte_def powerbyte_bits_def Let_def nth_encode_bits)
  ultimately show ?thesis unfolding r by blast
qed

theorem powerbyte_bitwise_witness:
  "\<exists>r c2. BUS_PowerByte (echo_routines\<lparr>ir_PowerBit := Some (\<lambda>b d pn c. (gbGOOD, [b], c))\<rparr>) (\<lambda>_. 0) 0xFF 10
      \<lparr>pn_sn = [], pn_bp = [], pn_has_device = False\<rparr> (initial_connection []) = (gbGOOD, [r], c2) \<and> bit r 7"
proof -
  let ?pn = "\<lparr>pn_sn = [], pn_bp = [], pn_has_device = False\<rparr>"
  let ?c = "initial_connection []"
  let ?ir = "echo_routines\<lparr>ir_PowerBit := Some (\<lambda>b d pn c. (gbGOOD, [b], c))\<rparr>"
  let ?recv = "take 7 (encode_bits [0xFF])"
  have "BUS_sendback_bits ?ir ?recv ?pn ?c = (gbGOOD, ?recv, ?c\<lparr>hardware := hardware ?c @ ?recv\<rparr>)"
    by (simp add: BUS_sendback_bits_def echo_routines_def echo_bits_def)
  from powerbyte_bitwise [OF _ _ _ this, of 10 _ _ "\<lambda>_. 0"] show ?thesis
    by (auto simp: echo_routines_def no_routines_def BUS_PowerBit_def UT_getbit_def nth_append)
qed

end
