(* ===== verification/OW_Verify.thy ===== *)
theory OW_Verify
  imports OW_Bus
begin

text \<open>
  \<^verbatim>\<open>ow_verify.c\<close>: is a slave with a given serial number present? One 25-byte exchange carries the
  search command and, for each of the 64 bits, two read slots and the direction bit of the serial
  number; the answer is read off the two read slots.
\<close>

definition verify_buffer :: "byte \<Rightarrow> byte list \<Rightarrow> byte list" where
  "verify_buffer search sn =
     foldl (\<lambda>buffer i. UT_setbit buffer (3 * i + 10) (UT_getbit sn i)) (search # replicate 24 0xFF) [0..<64]"

text \<open>The loop over the 64 answers; \<^const>\<open>None\<close> is the early return when no device answers.\<close>

fun verify_count :: "byte list \<Rightarrow> byte list \<Rightarrow> nat list \<Rightarrow> nat \<Rightarrow> nat option" where
  "verify_count buffer sn [] goodbits = Some goodbits"
| "verify_count buffer sn (i # is) goodbits =
     (if goodbits < 64 then
        case (UT_getbit buffer (3 * i + 8), UT_getbit buffer (3 * i + 9)) of
          (False, False) \<Rightarrow> verify_count buffer sn is goodbits
        | (False, True) \<Rightarrow> verify_count buffer sn is (if \<not> UT_getbit sn i then goodbits + 1 else goodbits)
        | (True, False) \<Rightarrow> verify_count buffer sn is (if UT_getbit sn i then goodbits + 1 else goodbits)
        | (True, True) \<Rightarrow> None
      else Some goodbits)"

definition BUS_verify ::
  "'b interface_routines \<Rightarrow> byte \<Rightarrow> bus_pn \<Rightarrow> 'b connection_in \<Rightarrow> GOOD_OR_BAD \<times> 'b connection_in" where
  "BUS_verify ir search pn c =
     (case ir_verify ir of
        Some verify \<Rightarrow> verify pn c
      | None \<Rightarrow>
          (let buffer = verify_buffer search (pn_sn pn) in
           case BUS_sendback_data ir True buffer pn c of (ret, resp, c) \<Rightarrow>
             let buffer = resp @ drop (length resp) buffer in
             if BAD ret then (gbBAD, c)
             else if buffer ! 0 \<noteq> search then (gbBAD, c)
             else (case verify_count buffer (pn_sn pn) [0..<64] 0 of
                     None \<Rightarrow> (gbBAD, c)
                   | Some goodbits \<Rightarrow> (if goodbits < 8 then gbBAD else gbGOOD, c))))"

section \<open>The loop\<close>

text \<open>The serial numbers that agree with \<open>sn\<close> on the first \<open>i\<close> bits: the slaves still answering.\<close>

definition answering :: "byte list set \<Rightarrow> byte list \<Rightarrow> nat \<Rightarrow> byte list set" where
  "answering devs sn i = {d \<in> devs. \<forall>j < i. UT_getbit d j = UT_getbit sn j}"

text \<open>The wired-AND of the two read slots of bit \<open>i\<close> of a ROM search along \<open>sn\<close>.\<close>

definition search_reply :: "byte list set \<Rightarrow> byte list \<Rightarrow> byte list \<Rightarrow> bool" where
  "search_reply devs sn buffer \<longleftrightarrow>
     (\<forall>i < 64. UT_getbit buffer (3 * i + 8) = (\<forall>d \<in> answering devs sn i. UT_getbit d i)
       \<and> UT_getbit buffer (3 * i + 9) = (\<forall>d \<in> answering devs sn i. \<not> UT_getbit d i))"

lemma answering_Suc: "answering devs sn (Suc i) = {d \<in> answering devs sn i. UT_getbit d i = UT_getbit sn i}"
  by (auto simp: answering_def less_Suc_eq)

lemma answering_0 [simp]: "answering devs sn 0 = devs"
  by (simp add: answering_def)

lemma finite_answering: "finite devs \<Longrightarrow> finite (answering devs sn i)"
  by (simp add: answering_def)

lemma rom_eqI:
  "length a = 8 \<Longrightarrow> length b = 8 \<Longrightarrow> (\<And>i. i < 64 \<Longrightarrow> UT_getbit a i = UT_getbit b i) \<Longrightarrow> a = b"
  by (rule byte_list_eqI) simp_all

lemma answering_64:
  assumes "\<And>d. d \<in> devs \<Longrightarrow> length d = 8" and "length sn = 8"
  shows "answering devs sn 64 = devs \<inter> {sn}"
  using rom_eqI [of _ sn] assms by (auto simp: answering_def)

lemma upt_64_Cons: "i < 64 \<Longrightarrow> [i..<64] = i # [Suc i..<64]"
  by (rule upt_conv_Cons)

text \<open>
  A slave that is present keeps answering; at each bit either the slaves still answering agree, and the
  bit is good, or one of them at least drops out.
\<close>

lemma verify_count_present:
  assumes reply: "search_reply devs sn buffer" and fin: "finite devs" and sn: "sn \<in> devs" and "i \<le> 64"
    and "i + card (answering devs sn i) \<le> g + card devs" and "g \<le> i"
  shows "\<exists>g'. verify_count buffer sn [i..<64] g = Some g' \<and> 65 \<le> g' + card devs"
  using assms(4-6)
proof (induction "64 - i" arbitrary: i g)
  case 0
  have "card (answering devs sn 64) \<ge> 1"
    using sn fin finite_answering [OF fin, of sn 64]
    by (simp add: Suc_le_eq card_gt_0_iff) (auto simp: answering_def)
  with 0 show ?case by auto
next
  case (Suc n)
  let ?S = "answering devs sn i"
  have i: "i < 64" "64 - Suc i = n" using Suc.hyps(2) by simp_all
  have snS: "sn \<in> ?S" using sn by (simp add: answering_def)
  have r: "UT_getbit buffer (3 * i + 8) = (\<forall>d \<in> ?S. UT_getbit d i)"
      "UT_getbit buffer (3 * i + 9) = (\<forall>d \<in> ?S. \<not> UT_getbit d i)"
    using reply i by (auto simp: search_reply_def)
  show ?case
  proof (cases "\<forall>d \<in> ?S. UT_getbit d i = UT_getbit sn i")
    case True
    then have "answering devs sn (Suc i) = ?S" by (auto simp: answering_Suc)
    moreover have "verify_count buffer sn [i..<64] g = verify_count buffer sn [Suc i..<64] (g + 1)"
      using True r snS i Suc.prems
      by (cases "UT_getbit sn i") (auto simp: upt_64_Cons split: bool.splits)
    ultimately show ?thesis using Suc.hyps(1) [of "Suc i" "g + 1"] Suc.prems i by simp
  next
    case False
    then obtain d where d: "d \<in> ?S" "UT_getbit d i \<noteq> UT_getbit sn i" by blast
    then have "answering devs sn (Suc i) \<subset> ?S" by (auto simp: answering_Suc)
    then have "card (answering devs sn (Suc i)) < card ?S"
      by (rule psubset_card_mono [OF finite_answering [OF fin]])
    moreover have "verify_count buffer sn [i..<64] g = verify_count buffer sn [Suc i..<64] g"
      using d r snS i Suc.prems by (auto simp: upt_64_Cons split: bool.splits)
    ultimately show ?thesis using Suc.hyps(1) [of "Suc i" g] Suc.prems i by simp
  qed
qed

text \<open>When the last slave that agreed with \<open>sn\<close> has dropped out before bit 63, no device answers.\<close>

lemma verify_count_absent:
  assumes reply: "search_reply devs sn buffer" and "answering devs sn m = {}" and "m < 64"
    and "i \<le> m" and "g \<le> i"
  shows "verify_count buffer sn [i..<64] g = None"
  using assms(4-5)
proof (induction "m - i" arbitrary: i g)
  case 0
  then have "answering devs sn i = {}" "i < 64" using assms by auto
  then show ?case using reply 0 by (simp add: upt_64_Cons search_reply_def)
next
  case (Suc n)
  have i: "i < 64" "m - Suc i = n" "Suc i \<le> m" using Suc.hyps(2) assms(3) by simp_all
  have "verify_count buffer sn [Suc i..<64] g' = None" if "g' \<le> Suc i" for g'
    using Suc.hyps(1) [of "Suc i" g'] that i by simp
  then show ?case using Suc.prems i by (auto simp: upt_64_Cons split: bool.splits)
qed

section \<open>Serial numbers\<close>

text \<open>A registration number: eight bytes, of which the first (the family code) is not zero and the last
  is the CRC8 of the others.\<close>

definition rom_valid :: "byte list \<Rightarrow> bool" where
  "rom_valid sn \<longleftrightarrow> length sn = 8 \<and> CRC8compute sn 0 = 0 \<and> sn ! 0 \<noteq> 0"

lemma rom_split: "length sn = 8 \<Longrightarrow> sn = take 7 sn @ [sn ! 7]"
  using id_take_nth_drop [of 7 sn] by simp

lemma rom_eq_upto_crc:
  assumes "rom_valid a" and "rom_valid b" and "take 7 a = take 7 b"
  shows "a = b"
proof -
  have a: "a = take 7 a @ [a ! 7]" and b: "b = take 7 a @ [b ! 7]"
    using assms rom_split [of a] rom_split [of b] by (simp_all add: rom_valid_def)
  have "CRC8compute (take 7 a @ [a ! 7]) 0 = CRC8compute (take 7 a @ [b ! 7]) 0"
    using assms(1,2) a b by (metis rom_valid_def)
  then have "a ! 7 = b ! 7"
    by (simp add: CRC8compute_append CRC8compute_Cons CRC8compute_seed_inj)
  with a b show ?thesis by metis
qed

lemma rom_eq_upto_last_bit:
  assumes "rom_valid a" and "rom_valid b" and "\<And>i. i < 63 \<Longrightarrow> UT_getbit a i = UT_getbit b i"
  shows "a = b"
proof (rule rom_eq_upto_crc [OF assms(1,2)], rule byte_list_eqI)
  fix i assume "i < 8 * length (take 7 a)"
  then have "i < 56" using assms(1) by (simp add: rom_valid_def)
  then show "UT_getbit (take 7 a) i = UT_getbit (take 7 b) i"
    using assms by (simp add: UT_getbit_bit rom_valid_def less_mult_imp_div_less)
qed (use assms in \<open>simp add: rom_valid_def\<close>)

lemma answering_63_empty:
  assumes "\<And>d. d \<in> devs \<Longrightarrow> rom_valid d" and "rom_valid sn" and "sn \<notin> devs"
  shows "answering devs sn 63 = {}"
  using assms rom_eq_upto_last_bit [of _ sn] by (auto simp: answering_def)

lemma buffer_read_bits:
  assumes "length buf = 25"
  shows "length (foldl (\<lambda>buffer i. UT_setbit buffer (3 * i + 10) (f i)) buf [0..<n]) = 25"
  using assms by (induction n) auto

lemma length_verify_buffer [simp]: "length (verify_buffer search sn) = 25"
  by (simp add: verify_buffer_def buffer_read_bits)

section \<open>The line\<close>

text \<open>
  What comes back when bits are sent to slaves that take part in a search, from their bit \<open>i\<close> on: two slots in
  which every slave still taking part pulls the line down unless its bit, then its complemented bit, is one, and
  which read as one only when the master leaves the line high; and a slot in which the master sends a
  direction, that is read back, and after which only the slaves whose bit it is take part.
\<close>

fun wired_slots :: "byte list list \<Rightarrow> nat \<Rightarrow> bool list \<Rightarrow> bool list" where
  "wired_slots ds i (a # b # direction # slots) =
     (a \<and> list_all (\<lambda>d. UT_getbit d i) ds) # (b \<and> list_all (\<lambda>d. \<not> UT_getbit d i) ds) # direction #
     wired_slots (filter (\<lambda>d. UT_getbit d i = direction) ds) (Suc i) slots"
| "wired_slots ds i slots = slots"

text \<open>The command is read back, then the search runs.\<close>

definition wired_reply :: "byte list list \<Rightarrow> byte list \<Rightarrow> byte list" where
  "wired_reply ds sent =
     hd sent # decode_bits (length sent - 1)
       (map (\<lambda>b. if b then 0xFF else 0) (wired_slots ds 0 (map (UT_getbit sent) [8..<8 * length sent])))"

lemma verify_buffer_bits:
  assumes "length buf = 25" and "n \<le> 64"
  shows "UT_getbit (foldl (\<lambda>buffer i. UT_setbit buffer (3 * i + 10) (f i)) buf [0..<n]) k =
    (if \<exists>i < n. k = 3 * i + 10 then f ((k - 10) div 3) else UT_getbit buf k)"
  using assms(2)
proof (induction n)
  case (Suc n)
  have "(3 * n + 10) div 8 < 25" using Suc.prems by simp
  then show ?case
    using Suc by (auto simp: UT_getbit_setbit buffer_read_bits [OF assms(1)] less_Suc_eq)
qed simp

lemma bit_ones: "k < 8 \<Longrightarrow> bit (0xFF :: byte) k"
proof -
  assume k: "k < 8"
  have "(0xFF :: byte) = mask 8" by (simp add: mask_eq_exp_minus_1)
  then show ?thesis using k by (simp only: bit_mask_iff possible_bit_word) simp
qed

lemma getbit_ones: "8 \<le> k \<Longrightarrow> k < 200 \<Longrightarrow> UT_getbit (search # replicate 24 0xFF) k"
proof -
  assume k: "8 \<le> k" "k < 200"
  then have "k div 8 - 1 < 24" "k div 8 \<noteq> 0" "k mod 8 < 8" by auto
  then show ?thesis using bit_ones [of "k mod 8"] by (simp add: UT_getbit_bit nth_Cons')
qed

lemma getbit_verify_buffer:
  assumes "i < 64"
  shows "UT_getbit (verify_buffer search sn) (3 * i + 8)" and "UT_getbit (verify_buffer search sn) (3 * i + 9)"
    and "UT_getbit (verify_buffer search sn) (3 * i + 10) = UT_getbit sn i"
  using assms by (auto simp: verify_buffer_def verify_buffer_bits getbit_ones) presburger+

lemma verify_buffer_hd: "hd (verify_buffer search sn) = search"
proof -
  have "UT_getbit (verify_buffer search sn) k = UT_getbit (search # replicate 24 0xFF) k" if "k < 8" for k
    using that by (auto simp: verify_buffer_def verify_buffer_bits)
  then have "verify_buffer search sn ! 0 = search"
    by (intro bit_word_eqI) (simp add: UT_getbit_bit)
  then show ?thesis by (metis hd_conv_nth length_verify_buffer list.size(3) zero_neq_numeral)
qed

lemma upt_triples:
  "map f [8..<8 + 3 * n] = concat (map (\<lambda>i. [f (3 * i + 8), f (3 * i + 9), f (3 * i + 10)]) [0..<n])"
proof (induction n)
  case (Suc n)
  have "8 + 3 * Suc n = Suc (Suc (Suc (8 + 3 * n)))" by simp
  then have "map f [8..<8 + 3 * Suc n] = map f [8..<8 + 3 * n] @ [f (3 * n + 8), f (3 * n + 9), f (3 * n + 10)]"
    by (simp add: add.commute eval_nat_numeral)
  then show ?case using Suc by simp
qed simp

lemma verify_slots:
  "map (UT_getbit (verify_buffer search sn)) [8..<200] =
     concat (map (\<lambda>i. [True, True, UT_getbit sn i]) [0..<64])"
proof -
  let ?f = "UT_getbit (verify_buffer search sn)"
  have "map (\<lambda>i. [?f (3 * i + 8), ?f (3 * i + 9), ?f (3 * i + 10)]) [0..<64] = map (\<lambda>i. [True, True, UT_getbit sn i]) [0..<64]"
    by (rule map_cong [OF refl]) (simp add: getbit_verify_buffer)
  moreover have "8 + 3 * 64 = (200 :: nat)" by simp
  ultimately show ?thesis using upt_triples [of ?f 64] by (simp only:)
qed

text \<open>The slots of a search along the directions of \<open>sn\<close>.\<close>

lemma wired_slots_search:
  assumes "set ds = answering devs sn i" and "i + n = 64" and "j < n"
  defines "slots \<equiv> wired_slots ds i (concat (map (\<lambda>i. [True, True, UT_getbit sn i]) [i..<64]))"
  shows "slots ! (3 * j) = (\<forall>d \<in> answering devs sn (i + j). UT_getbit d (i + j))
    \<and> slots ! (3 * j + 1) = (\<forall>d \<in> answering devs sn (i + j). \<not> UT_getbit d (i + j)) \<and> length slots = 3 * n"
  using assms(1-3) unfolding slots_def
proof (induction n arbitrary: ds i j)
  case (Suc n)
  let ?ds = "filter (\<lambda>d. UT_getbit d i = UT_getbit sn i) ds"
  have i: "[i..<64] = i # [Suc i..<64]" using Suc.prems(2) by (intro upt_64_Cons) simp
  have ds: "set ?ds = answering devs sn (Suc i)" using Suc.prems(1) by (auto simp: answering_Suc)
  show ?case
  proof (cases "n = 0")
    case True
    then show ?thesis using Suc.prems i by (simp add: list_all_iff)
  next
    case False
    then have len: "length (wired_slots ?ds (Suc i) (concat (map (\<lambda>i. [True, True, UT_getbit sn i]) [Suc i..<64]))) = 3 * n"
      using Suc.IH [OF ds, of 0] Suc.prems(2) by simp
    show ?thesis
    proof (cases j)
      case 0
      then show ?thesis using Suc.prems i len by (simp add: list_all_iff)
    next
      case (Suc k)
      then show ?thesis using Suc.IH [OF ds, of k] Suc.prems i len by (simp add: eval_nat_numeral)
    qed
  qed
qed simp

lemma wired_reply_search:
  fixes search sn ds
  defines "resp \<equiv> wired_reply ds (verify_buffer search sn)"
  shows "length resp = 25" and "resp ! 0 = search" and "search_reply (set ds) sn resp"
proof -
  define slots where "slots = wired_slots ds 0 (concat (map (\<lambda>i. [True, True, UT_getbit sn i]) [0..<64]))"
  have size: "8 * 25 = (200 :: nat)" "25 - 1 = (24 :: nat)" by simp_all
  have resp: "resp = search # decode_bits 24 (map (\<lambda>b. if b then 0xFF else 0) slots)"
    unfolding resp_def wired_reply_def length_verify_buffer verify_buffer_hd size verify_slots slots_def ..
  show "length resp = 25" "resp ! 0 = search" by (simp_all add: resp)
  have at: "slots ! (3 * i) = (\<forall>d \<in> answering (set ds) sn i. UT_getbit d i)
      \<and> slots ! (3 * i + 1) = (\<forall>d \<in> answering (set ds) sn i. \<not> UT_getbit d i) \<and> length slots = 192" if "i < 64" for i
    using wired_slots_search [of ds "set ds" sn 0 64 i] that unfolding slots_def by simp
  have bits: "UT_getbit resp (8 + k) = slots ! k" if "k < 192" for k
  proof -
    have "(8 + k) div 8 - Suc 0 = k div 8" by simp
    then have "UT_getbit resp (8 + k) = UT_getbit (decode_bits 24 (map (\<lambda>b. if b then 0xFF else 0) slots)) k"
      by (simp add: resp UT_getbit_bit)
    also have "\<dots> = bit (map (\<lambda>b. if b then 0xFF else 0 :: byte) slots ! k) 0"
      using that by (intro getbit_decode_bits) simp
    also have "\<dots> = slots ! k"
      using that at [of 0] bit_ones [of 0] by simp
    finally show ?thesis .
  qed
  show "search_reply (set ds) sn resp"
    unfolding search_reply_def
  proof (intro allI impI)
    fix i :: nat assume i: "i < 64"
    show "UT_getbit resp (3 * i + 8) = (\<forall>d \<in> answering (set ds) sn i. UT_getbit d i)
      \<and> UT_getbit resp (3 * i + 9) = (\<forall>d \<in> answering (set ds) sn i. \<not> UT_getbit d i)"
      using at [OF i] bits [of "3 * i"] bits [of "3 * i + 1"] i by (simp add: add.commute)
  qed
qed

section \<open>Properties\<close>

text \<open>
  C22: on a wired-AND line, whose answer depends on every bit that is sent (a slave takes part in the search as long as the directions
  sent are its own bits), with at most 57 slaves whose serial numbers carry a correct
  CRC, the verification returns good exactly when the serial number is present. The bound is what the
  threshold of 8 good bits allows, and the CRC excludes a slave that differs in bit 63 only, which the
  exchange cannot tell apart.
\<close>
theorem BUS_verify_decides:
  assumes "ir_verify ir = None"
    and "\<forall>sent. length sent = 25 \<longrightarrow> BUS_sendback_data ir True sent pn c = (gbGOOD, wired_reply ds sent, c1)"
    and "distinct ds" and "length ds \<le> 57" and "\<forall>d \<in> set ds. rom_valid d" and "rom_valid (pn_sn pn)"
  shows "BUS_verify ir search pn c = (if pn_sn pn \<in> set ds then gbGOOD else gbBAD, c1)"
proof -
  let ?sn = "pn_sn pn"
  define resp where "resp = wired_reply ds (verify_buffer search ?sn)"
  note resp = wired_reply_search [where ds = ds and search = search and sn = ?sn, folded resp_def]
  have run: "BUS_verify ir search pn c =
      (case verify_count resp ?sn [0..<64] 0 of None \<Rightarrow> (gbBAD, c1)
       | Some goodbits \<Rightarrow> (if goodbits < 8 then gbBAD else gbGOOD, c1))"
    using assms(1,2) resp(1,2) by (simp add: BUS_verify_def Let_def resp_def)
  show ?thesis
  proof (cases "?sn \<in> set ds")
    case True
    then obtain g where "verify_count resp ?sn [0..<64] 0 = Some g" "65 \<le> g + card (set ds)"
      using verify_count_present [OF resp(3) _ True, of 0 0] by auto
    then show ?thesis using run True assms(3,4) by (simp add: distinct_card)
  next
    case False
    then have "answering (set ds) ?sn 63 = {}" using answering_63_empty [of "set ds" ?sn] assms(5,6) by blast
    then have "verify_count resp ?sn [0..<64] 0 = None"
      by (rule verify_count_absent [OF resp(3)]) simp_all
    then show ?thesis using run False by simp
  qed
qed

definition verify_pn :: "byte list \<Rightarrow> bus_pn" where
  "verify_pn sn = \<lparr>pn_sn = sn, pn_bp = [], pn_has_device = False\<rparr>"

text \<open>Two slaves are found, a third one is not.\<close>

theorem BUS_verify_decides_witness:
  "\<exists>ir :: unit interface_routines.
     BUS_verify ir 0xF0 (verify_pn [40, 1, 2, 3, 4, 5, 6, 158]) (initial_connection ()) = (gbGOOD, initial_connection ())
   \<and> BUS_verify ir 0xF0 (verify_pn [16, 0, 0, 0, 0, 0, 0, 251]) (initial_connection ()) = (gbGOOD, initial_connection ())
   \<and> BUS_verify ir 0xF0 (verify_pn [40, 0, 0, 0, 0, 0, 0, 30]) (initial_connection ()) = (gbBAD, initial_connection ())"
proof -
  let ?a = "[40, 1, 2, 3, 4, 5, 6, 158] :: byte list" and ?b = "[16, 0, 0, 0, 0, 0, 0, 251] :: byte list"
    and ?x = "[40, 0, 0, 0, 0, 0, 0, 30] :: byte list"
  let ?ir = "no_routines\<lparr>ir_sendback_data := Some (\<lambda>data pn c. (gbGOOD, wired_reply [?a, ?b] data, c))\<rparr> :: unit interface_routines"
  have valid: "rom_valid ?a" "rom_valid ?b" "rom_valid ?x"
    by (simp_all add: rom_valid_def CRC8compute_def crc8_step_def crc8_table_def)
  have line: "\<forall>sent. length sent = 25 \<longrightarrow>
      BUS_sendback_data ?ir True sent pn c = (gbGOOD, wired_reply [?a, ?b] sent, c)" for pn c
    by (auto simp: BUS_sendback_data_def)
  have "BUS_verify ?ir 0xF0 (verify_pn sn) (initial_connection ()) =
      (if sn \<in> {?a, ?b} then gbGOOD else gbBAD, initial_connection ())" if "rom_valid sn" for sn
    using BUS_verify_decides [of ?ir, OF _ line, of "verify_pn sn"] valid that by (simp add: verify_pn_def no_routines_def)
  from this [OF valid(1)] this [OF valid(2)] this [OF valid(3)] show ?thesis by auto
qed

end
