(* ===== verification/OW_Transaction.thy ===== *)
theory OW_Transaction
  imports OW_Verify
begin

text \<open>
  \<^verbatim>\<open>ow_transaction.c\<close>: a device driver's conversation with a slave is an array of
  \<^verbatim>\<open>struct transaction_log\<close> entries, interpreted one at a time or packed into bundles that go over
  the wire in one exchange.

  The entries point into the caller's buffers, which may overlap, so the model has an explicit memory: an
  address is a natural number, a pointer an address or \<^const>\<open>None\<close> for \<^verbatim>\<open>NULL\<close>. A result
  \<^const>\<open>None\<close> is undefined behaviour or an aborted assertion: \<^verbatim>\<open>NULL\<close> dereferenced, a log without
  \<^verbatim>\<open>trxn_end\<close>, a read past the bundle. Return values are integers, since the code assigns CRC residues
  to its \<^verbatim>\<open>GOOD_OR_BAD\<close> variables.

  \<^verbatim>\<open>BUS_select\<close> is an argument: it is defined on top of this theory, from transactions that contain no
  selection.
\<close>

section \<open>State\<close>

datatype transaction_type =
    trxn_select | trxn_match | trxn_bitmatch | trxn_modify | trxn_bitmodify | trxn_compare
  | trxn_bitcompare | trxn_read | trxn_bitread | trxn_blind | trxn_power | trxn_bitpower
  | trxn_program | trxn_reset | trxn_crc8 | trxn_crc8seeded | trxn_crc16 | trxn_crc16seeded
  | trxn_end | trxn_verify | trxn_nop | trxn_delay | trxn_udelay

record transaction_log =
  t_out :: "nat option"
  t_in :: "nat option"
  t_size :: nat
  t_type :: transaction_type

text \<open>\<open>allocs\<close> gives the outcome of the allocations to come; they succeed once it is used up.\<close>

record 'b trx_state =
  mem :: "nat \<Rightarrow> byte"
  conn :: "'b connection_in"
  allocs :: "bool list"

type_synonym 'b selector = "bus_pn \<Rightarrow> 'b connection_in \<Rightarrow> GOOD_OR_BAD \<times> 'b connection_in"

definition mem_read :: "(nat \<Rightarrow> byte) \<Rightarrow> nat \<Rightarrow> nat \<Rightarrow> byte list" where
  "mem_read m a n = map m [a..<a + n]"

definition mem_write :: "nat \<Rightarrow> byte list \<Rightarrow> (nat \<Rightarrow> byte) \<Rightarrow> nat \<Rightarrow> byte" where
  "mem_write a xs m = (\<lambda>x. if a \<le> x \<and> x < a + length xs then xs ! (x - a) else m x)"

definition ptr_read :: "nat option \<Rightarrow> nat \<Rightarrow> 'b trx_state \<Rightarrow> byte list option" where
  "ptr_read p n st = (case p of None \<Rightarrow> (if n = 0 then Some [] else None) | Some a \<Rightarrow> Some (mem_read (mem st) a n))"

definition ptr_write :: "nat option \<Rightarrow> byte list \<Rightarrow> 'b trx_state \<Rightarrow> 'b trx_state option" where
  "ptr_write p xs st =
     (case p of None \<Rightarrow> (if xs = [] then Some st else None)
      | Some a \<Rightarrow> Some (st\<lparr>mem := mem_write a xs (mem st)\<rparr>))"

definition next_alloc :: "'b trx_state \<Rightarrow> bool \<times> 'b trx_state" where
  "next_alloc st = (case allocs st of [] \<Rightarrow> (True, st) | ok # oks \<Rightarrow> (ok, st\<lparr>allocs := oks\<rparr>))"

definition on_conn :: "('b connection_in \<Rightarrow> GOOD_OR_BAD \<times> 'b connection_in) \<Rightarrow> 'b trx_state \<Rightarrow> int \<times> 'b trx_state" where
  "on_conn f st = (case f (conn st) of (ret, c) \<Rightarrow> (gb_int ret, st\<lparr>conn := c\<rparr>))"

text \<open>A bus routine that fills a buffer: its response goes to \<open>p\<close>; \<^verbatim>\<open>NULL\<close> drops it.\<close>

definition on_conn_resp ::
  "('b connection_in \<Rightarrow> GOOD_OR_BAD \<times> byte list \<times> 'b connection_in) \<Rightarrow> nat option \<Rightarrow> 'b trx_state \<Rightarrow> int \<times> 'b trx_state" where
  "on_conn_resp f p st =
     (case f (conn st) of (ret, resp, c) \<Rightarrow>
        (gb_int ret, (case p of None \<Rightarrow> st | Some a \<Rightarrow> st\<lparr>mem := mem_write a resp (mem st)\<rparr>)\<lparr>conn := c\<rparr>))"

section \<open>One entry\<close>

definition trx_memcmp :: "transaction_log \<Rightarrow> 'b trx_state \<Rightarrow> GOOD_OR_BAD" where
  "trx_memcmp t st =
     (case (t_in t, t_out t) of
        (Some i, Some out) \<Rightarrow>
          if mem_read (mem st) i (t_size t) \<noteq> mem_read (mem st) out (t_size t) then gbBAD else gbGOOD
      | _ \<Rightarrow> gbBAD)"

definition trx_bitcmp :: "transaction_log \<Rightarrow> 'b trx_state \<Rightarrow> GOOD_OR_BAD" where
  "trx_bitcmp t st =
     (case (t_in t, t_out t) of
        (Some i, Some out) \<Rightarrow>
          if BAD (BUS_compare_bits (mem_read (mem st) i (t_size t)) (mem_read (mem st) out (t_size t)))
          then gbBAD else gbGOOD
      | _ \<Rightarrow> gbBAD)"

text \<open>The CRC checks: value as an integer and counters; the seed is the \<^verbatim>\<open>UINT\<close> at the in pointer.\<close>

definition trx_crc :: "transaction_log \<Rightarrow> 'b trx_state \<Rightarrow> (int \<times> 'b trx_state) option" where
  "trx_crc t st =
     (case ptr_read (t_out t) (t_size t) st of None \<Rightarrow> None
      | Some bytes \<Rightarrow>
          (let seed = (if t_type t = trxn_crc8seeded \<or> t_type t = trxn_crc16seeded
                       then map_option UT_uint32 (ptr_read (t_in t) 4 st) else Some 0);
               k = crc_counters (conn st)
           in case seed of None \<Rightarrow> None
              | Some seed \<Rightarrow>
                  (let (r, k) =
                     (if t_type t = trxn_crc8 then (case CRC8 bytes k of (r, k) \<Rightarrow> (uint r, k))
                      else if t_type t = trxn_crc8seeded then (case CRC8seeded bytes seed k of (r, k) \<Rightarrow> (uint r, k))
                      else if t_type t = trxn_crc16 then CRC16 bytes k
                      else CRC16seeded bytes seed k)
                   in Some (r, st\<lparr>conn := (conn st)\<lparr>crc_counters := k\<rparr>\<rparr>))))"

definition trx_good :: "'b trx_state \<Rightarrow> (int \<times> 'b trx_state) option" where
  "trx_good st = Some (gb_int gbGOOD, st)"

definition BUS_transaction_single ::
  "'b selector \<Rightarrow> 'b interface_routines \<Rightarrow> (nat \<Rightarrow> byte) \<Rightarrow> transaction_log \<Rightarrow> bus_pn \<Rightarrow> 'b trx_state \<Rightarrow>
     (int \<times> 'b trx_state) option" where
  "BUS_transaction_single select ir junk t pn st =
     (let size = t_size t in
      case t_type t of
        trxn_select \<Rightarrow> Some (on_conn (select pn) st)
      | trxn_compare \<Rightarrow> Some (gb_int (trx_memcmp t st), st)
      | trxn_bitcompare \<Rightarrow> Some (gb_int (trx_bitcmp t st), st)
      | trxn_match \<Rightarrow>
          if t_in t \<noteq> None then None
          else if size = 0 then trx_good st
          else map_option (\<lambda>data. on_conn (BUS_send_data ir data pn) st) (ptr_read (t_out t) size st)
      | trxn_bitmatch \<Rightarrow>
          if t_in t \<noteq> None then None
          else if size = 0 then trx_good st
          else map_option (\<lambda>data. on_conn (BUS_send_bits ir data pn) st) (ptr_read (t_out t) size st)
      | trxn_read \<Rightarrow>
          if t_out t \<noteq> None then None
          else if size = 0 then trx_good st
          else if t_in t = None then None
          else Some (on_conn_resp (BUS_readin_data ir size pn) (t_in t) st)
      | trxn_bitread \<Rightarrow>
          if t_out t \<noteq> None then None
          else if size = 0 then trx_good st
          else if t_in t = None then None
          else Some (on_conn_resp (BUS_readin_bits ir size pn) (t_in t) st)
      | trxn_modify \<Rightarrow>
          map_option (\<lambda>data. on_conn_resp (BUS_sendback_data ir (t_out t = t_in t) data pn) (t_in t) st)
            (ptr_read (t_out t) size st)
      | trxn_bitmodify \<Rightarrow>
          map_option (\<lambda>data. on_conn_resp (BUS_sendback_bits ir data pn) (t_in t) st)
            (ptr_read (t_out t) size st)
      | trxn_blind \<Rightarrow>
          (case next_alloc st of (ok, st) \<Rightarrow>
             if ok then map_option (\<lambda>data. on_conn_resp (BUS_sendback_data ir False data pn) None st)
                          (ptr_read (t_out t) size st)
             else Some (gb_int gbBAD, st))
      | trxn_power \<Rightarrow>
          if t_in t = None then None
          else map_option (\<lambda>data. on_conn_resp (BUS_PowerByte ir junk (hd data) size pn) (t_in t) st)
                 (ptr_read (t_out t) 1 st)
      | trxn_bitpower \<Rightarrow>
          if t_in t = None then None
          else map_option (\<lambda>data. on_conn_resp (BUS_PowerBit ir (hd data) size pn) (t_in t) st)
                 (ptr_read (t_out t) 1 st)
      | trxn_program \<Rightarrow> Some (on_conn (BUS_ProgramPulse ir pn) st)
      | trxn_crc8 \<Rightarrow> trx_crc t st
      | trxn_crc8seeded \<Rightarrow> trx_crc t st
      | trxn_crc16 \<Rightarrow> trx_crc t st
      | trxn_crc16seeded \<Rightarrow> trx_crc t st
      | trxn_delay \<Rightarrow> trx_good (if size > 0 then st\<lparr>conn := UT_delay size (conn st)\<rparr> else st)
      | trxn_udelay \<Rightarrow> trx_good (if size > 0 then st\<lparr>conn := UT_delay_us size (conn st)\<rparr> else st)
      | trxn_reset \<Rightarrow>
          (case BUS_reset ir pn (conn st) of (r, c) \<Rightarrow>
             Some (gb_int (if r = BUS_RESET_OK then gbGOOD else gbBAD), st\<lparr>conn := c\<rparr>))
      | trxn_end \<Rightarrow> Some (gb_int gbOTHER, st)
      | trxn_verify \<Rightarrow>
          (case select (pn\<lparr>pn_has_device := False\<rparr>) (conn st) of (ret, c) \<Rightarrow>
             if BAD ret then Some (gb_int gbBAD, st\<lparr>conn := c\<rparr>)
             else (case BUS_verify ir (of_nat size) pn c of (ret, c) \<Rightarrow>
               Some (gb_int (if BAD ret then gbBAD else gbGOOD), st\<lparr>conn := c\<rparr>)))
      | trxn_nop \<Rightarrow> trx_good st)"

text \<open>The unbundled interpreter: the \<^verbatim>\<open>do\<close> loop of \<^verbatim>\<open>BUS_transaction_nolock\<close>.\<close>

fun trx_loop ::
  "'b selector \<Rightarrow> 'b interface_routines \<Rightarrow> (nat \<Rightarrow> byte) \<Rightarrow> transaction_log list \<Rightarrow> bus_pn \<Rightarrow> 'b trx_state \<Rightarrow>
     (int \<times> 'b trx_state) option" where
  "trx_loop select ir junk [] pn st = None"
| "trx_loop select ir junk (t # ts) pn st =
     (case BUS_transaction_single select ir junk t pn st of
        None \<Rightarrow> None
      | Some (ret, st) \<Rightarrow>
          if ret = gb_int gbOTHER then Some (gb_int gbGOOD, st)
          else if ret = gb_int gbGOOD then trx_loop select ir junk ts pn st
          else Some (ret, st))"

section \<open>Bundles\<close>

record transaction_bundle =
  tb_start :: "transaction_log list"
  tb_packets :: nat
  tb_max_size :: nat
  tb_mb :: memblob
  tb_select_first :: bool

definition Bundle_init :: "'b interface_routines \<Rightarrow> transaction_bundle" where
  "Bundle_init ir = \<lparr>tb_start = [], tb_packets = 0, tb_max_size = ir_bundling_length ir,
     tb_mb = MemblobInit 1000, tb_select_first = False\<rparr>"

text \<open>Room for \<open>size\<close> more bytes: \<^const>\<open>gbBAD\<close> never, \<^const>\<open>gbOTHER\<close> not in this bundle.\<close>

definition pack_room :: "nat \<Rightarrow> transaction_bundle \<Rightarrow> GOOD_OR_BAD" where
  "pack_room len tb =
     (if len > tb_max_size tb then gbBAD
      else if len + MemblobLength (tb_mb tb) > tb_max_size tb then gbOTHER else gbGOOD)"

definition pack_add :: "byte list option \<Rightarrow> nat \<Rightarrow> transaction_bundle \<Rightarrow> 'b trx_state \<Rightarrow>
    (GOOD_OR_BAD \<times> transaction_bundle \<times> 'b trx_state) option" where
  "pack_add data len tb st =
     (if pack_room len tb \<noteq> gbGOOD then Some (pack_room len tb, tb, st)
      else case data of None \<Rightarrow> None
      | Some data \<Rightarrow>
          (case next_alloc st of (ok, st) \<Rightarrow>
             (case MemblobAdd ok data (tb_mb tb) of None \<Rightarrow> None
              | Some (ret, mb) \<Rightarrow> Some (if ret \<noteq> 0 then gbBAD else gbGOOD, tb\<lparr>tb_mb := mb\<rparr>, st))))"

definition pack_bytes :: "transaction_log \<Rightarrow> transaction_bundle \<Rightarrow> 'b trx_state \<Rightarrow>
    (GOOD_OR_BAD \<times> transaction_bundle \<times> 'b trx_state) option" where
  "pack_bytes t tb st =
     (let size = t_size t in
      case t_type t of
        trxn_select \<Rightarrow>
          (if tb_packets tb \<noteq> 0 then Some (gbOTHER, tb, st)
           else Some (gbGOOD, tb\<lparr>tb_select_first := True\<rparr>, st))
      | trxn_read \<Rightarrow> pack_add (Some (replicate size 0xFF)) size tb st
      | trxn_bitread \<Rightarrow> pack_add (Some (replicate size 0xFF)) size tb st
      | trxn_match \<Rightarrow> pack_add (ptr_read (t_out t) size st) size tb st
      | trxn_bitmatch \<Rightarrow> pack_add (ptr_read (t_out t) size st) size tb st
      | trxn_modify \<Rightarrow> pack_add (ptr_read (t_out t) size st) size tb st
      | trxn_bitmodify \<Rightarrow> pack_add (ptr_read (t_out t) size st) size tb st
      | trxn_blind \<Rightarrow> pack_add (ptr_read (t_out t) size st) size tb st
      | trxn_power \<Rightarrow> pack_add (ptr_read (t_out t) 1 st) 1 tb st
      | trxn_bitpower \<Rightarrow> pack_add (ptr_read (t_out t) 1 st) 1 tb st
      | trxn_program \<Rightarrow> pack_add (ptr_read (t_out t) 1 st) 1 tb st
      | trxn_reset \<Rightarrow> Some (gbBAD, tb, st)
      | trxn_end \<Rightarrow> Some (gbBAD, tb, st)
      | trxn_verify \<Rightarrow> Some (gbBAD, tb, st)
      | _ \<Rightarrow> Some (gbGOOD, tb, st))"

text \<open>The item is the head of the remaining log, so that \<open>tb_start\<close> can point at it.\<close>

definition Pack_item :: "transaction_log \<Rightarrow> transaction_log list \<Rightarrow> transaction_bundle \<Rightarrow> 'b trx_state \<Rightarrow>
    (GOOD_OR_BAD \<times> transaction_bundle \<times> 'b trx_state) option" where
  "Pack_item t rest tb st =
     (case pack_bytes t tb st of
        None \<Rightarrow> None
      | Some (ret, tb, st) \<Rightarrow>
          if ret \<noteq> gbGOOD then Some (ret, tb, st)
          else Some (gbGOOD,
            (if tb_packets tb = 0 then tb\<lparr>tb_start := t # rest\<rparr> else tb)\<lparr>tb_packets := tb_packets tb + 1\<rparr>, st))"

text \<open>The bytes of the bundle are sent and received in place.\<close>

definition bundle_data :: "memblob \<Rightarrow> byte list option" where
  "bundle_data mb =
     (case MemblobData mb of
        None \<Rightarrow> if MemblobLength mb = 0 then Some [] else None
      | Some blk \<Rightarrow> blk_load 0 (MemblobLength mb) blk)"

definition Bundle_enroute ::
  "'b selector \<Rightarrow> 'b interface_routines \<Rightarrow> transaction_bundle \<Rightarrow> bus_pn \<Rightarrow> 'b trx_state \<Rightarrow>
     (GOOD_OR_BAD \<times> transaction_bundle \<times> 'b trx_state) option" where
  "Bundle_enroute select ir tb pn st =
     (case bundle_data (tb_mb tb) of
        None \<Rightarrow> None
      | Some data \<Rightarrow>
          (case (if tb_select_first tb then BUS_select_and_sendback select ir True data pn (conn st)
                 else BUS_sendback_data ir True data pn (conn st))
           of (ret, resp, c) \<Rightarrow>
             (case (if resp = [] then Some (tb_mb tb) else mb_poke 0 resp (tb_mb tb)) of
                None \<Rightarrow> None
              | Some mb \<Rightarrow> Some (ret, tb\<lparr>tb_mb := mb\<rparr>, st\<lparr>conn := c\<rparr>))))"

text \<open>One entry of the bundle: the new offset into the response and the result.\<close>

definition unpack_item :: "cell list \<Rightarrow> nat \<Rightarrow> transaction_log \<Rightarrow> 'b trx_state \<Rightarrow>
    (GOOD_OR_BAD \<times> nat \<times> 'b trx_state) option" where
  "unpack_item blk off t st =
     (let size = t_size t in
      case t_type t of
        trxn_compare \<Rightarrow> Some (trx_memcmp t st, off, st)
      | trxn_bitcompare \<Rightarrow> Some (trx_bitcmp t st, off, st)
      | trxn_match \<Rightarrow>
          (case (ptr_read (t_out t) size st, blk_load off size blk) of
             (Some sent, Some data) \<Rightarrow> Some (if sent \<noteq> data then gbBAD else gbGOOD, off + size, st)
           | _ \<Rightarrow> None)
      | trxn_read \<Rightarrow>
          (case blk_load off size blk of None \<Rightarrow> None
           | Some data \<Rightarrow> map_option (\<lambda>st. (gbGOOD, off + size, st)) (ptr_write (t_in t) data st))
      | trxn_modify \<Rightarrow>
          (case blk_load off size blk of None \<Rightarrow> None
           | Some data \<Rightarrow> map_option (\<lambda>st. (gbGOOD, off + size, st)) (ptr_write (t_in t) data st))
      | trxn_blind \<Rightarrow> Some (gbGOOD, off + size, st)
      | trxn_power \<Rightarrow>
          (case blk_load off 1 blk of None \<Rightarrow> None
           | Some data \<Rightarrow> map_option (\<lambda>st. (gbGOOD, off + 1, st\<lparr>conn := UT_delay size (conn st)\<rparr>)) (ptr_write (t_in t) data st))
      | trxn_program \<Rightarrow>
          (case blk_load off 1 blk of None \<Rightarrow> None
           | Some data \<Rightarrow> map_option (\<lambda>st. (gbGOOD, off + 1, st\<lparr>conn := UT_delay size (conn st)\<rparr>)) (ptr_write (t_in t) data st))
      | trxn_crc8 \<Rightarrow> map_option (\<lambda>(r, st). (if r \<noteq> 0 then gbBAD else gbGOOD, off, st)) (trx_crc t st)
      | trxn_crc8seeded \<Rightarrow> map_option (\<lambda>(r, st). (if r \<noteq> 0 then gbBAD else gbGOOD, off, st)) (trx_crc t st)
      | trxn_crc16 \<Rightarrow> map_option (\<lambda>(r, st). (if r \<noteq> 0 then gbBAD else gbGOOD, off, st)) (trx_crc t st)
      | trxn_crc16seeded \<Rightarrow> map_option (\<lambda>(r, st). (if r \<noteq> 0 then gbBAD else gbGOOD, off, st)) (trx_crc t st)
      | trxn_delay \<Rightarrow> Some (gbGOOD, off, st\<lparr>conn := UT_delay size (conn st)\<rparr>)
      | trxn_udelay \<Rightarrow> Some (gbGOOD, off, st\<lparr>conn := UT_delay_us size (conn st)\<rparr>)
      | trxn_reset \<Rightarrow> Some (gbBAD, off, st)
      | trxn_end \<Rightarrow> Some (gbBAD, off, st)
      | trxn_verify \<Rightarrow> Some (gbBAD, off, st)
      | _ \<Rightarrow> Some (gbGOOD, off, st))"

fun unpack_loop :: "cell list \<Rightarrow> nat \<Rightarrow> transaction_log list \<Rightarrow> nat \<Rightarrow> 'b trx_state \<Rightarrow> (GOOD_OR_BAD \<times> 'b trx_state) option" where
  "unpack_loop blk off ts 0 st = Some (gbGOOD, st)"
| "unpack_loop blk off [] (Suc n) st = None"
| "unpack_loop blk off (t # ts) (Suc n) st =
     (case unpack_item blk off t st of
        None \<Rightarrow> None
      | Some (ret, off, st) \<Rightarrow> if BAD ret then Some (ret, st) else unpack_loop blk off ts n st)"

definition bundle_clear :: "transaction_bundle \<Rightarrow> transaction_bundle" where
  "bundle_clear tb = tb\<lparr>tb_mb := MemblobClear (tb_mb tb), tb_packets := 0, tb_select_first := False\<rparr>"

definition Bundle_unpack :: "transaction_bundle \<Rightarrow> 'b trx_state \<Rightarrow> (GOOD_OR_BAD \<times> transaction_bundle \<times> 'b trx_state) option" where
  "Bundle_unpack tb st =
     map_option (\<lambda>(ret, st). (ret, bundle_clear tb, st))
       (unpack_loop (case MemblobData (tb_mb tb) of None \<Rightarrow> [] | Some blk \<Rightarrow> blk) 0 (tb_start tb) (tb_packets tb) st)"

definition Bundle_ship ::
  "'b selector \<Rightarrow> 'b interface_routines \<Rightarrow> transaction_bundle \<Rightarrow> bus_pn \<Rightarrow> 'b trx_state \<Rightarrow>
     (GOOD_OR_BAD \<times> transaction_bundle \<times> 'b trx_state) option" where
  "Bundle_ship select ir tb pn st =
     (if tb_packets tb = 0 then Some (gbGOOD, tb, st)
      else case Bundle_enroute select ir tb pn st of
        None \<Rightarrow> None
      | Some (ret, tb, st) \<Rightarrow> if BAD ret then Some (gbBAD, bundle_clear tb, st) else Bundle_unpack tb st)"

fun bundle_loop ::
  "'b selector \<Rightarrow> 'b interface_routines \<Rightarrow> (nat \<Rightarrow> byte) \<Rightarrow> transaction_log list \<Rightarrow> transaction_bundle \<Rightarrow> bus_pn \<Rightarrow> 'b trx_state \<Rightarrow>
     (int \<times> 'b trx_state) option" where
  "bundle_loop select ir junk [] tb pn st = None"
| "bundle_loop select ir junk (t # ts) tb pn st =
     (if t_type t = trxn_end then
        map_option (\<lambda>(ret, tb, st). (gb_int ret, st)) (Bundle_ship select ir tb pn st)
      else case Pack_item t ts tb st of
        None \<Rightarrow> None
      | Some (gbGOOD, tb, st) \<Rightarrow> bundle_loop select ir junk ts tb pn st
      | Some (packed, tb, st) \<Rightarrow>
          (case Bundle_ship select ir tb pn st of
             None \<Rightarrow> None
           | Some (ret, tb, st) \<Rightarrow>
               if BAD ret then Some (gb_int gbBAD, st)
               else (case (if packed = gbOTHER then Pack_item t ts tb st else Some (gbBAD, tb, st)) of
                   None \<Rightarrow> None
                 | Some (again, tb, st) \<Rightarrow>
                     if GOOD again then bundle_loop select ir junk ts tb pn st
                     else (case BUS_transaction_single select ir junk t pn st of
                         None \<Rightarrow> None
                       | Some (ret, st) \<Rightarrow>
                           if ret \<noteq> gb_int gbGOOD then Some (gb_int gbBAD, st)
                           else bundle_loop select ir junk ts tb pn st))))"

definition Bundle_pack ::
  "'b selector \<Rightarrow> 'b interface_routines \<Rightarrow> (nat \<Rightarrow> byte) \<Rightarrow> transaction_log list \<Rightarrow> bus_pn \<Rightarrow> 'b trx_state \<Rightarrow>
     (int \<times> 'b trx_state) option" where
  "Bundle_pack select ir junk tlog pn st = bundle_loop select ir junk tlog (Bundle_init ir) pn st"

section \<open>Entry points\<close>

definition BUS_transaction_nolock ::
  "'b selector \<Rightarrow> 'b interface_routines \<Rightarrow> (nat \<Rightarrow> byte) \<Rightarrow> transaction_log list \<Rightarrow> bus_pn \<Rightarrow> 'b trx_state \<Rightarrow>
     (int \<times> 'b trx_state) option" where
  "BUS_transaction_nolock select ir junk tlog pn st =
     (if ir_flags ir AND ADAP_FLAG_bundle \<noteq> 0 then Bundle_pack select ir junk tlog pn st
      else trx_loop select ir junk tlog pn st)"

definition BUS_lock :: "'b trx_state \<Rightarrow> 'b trx_state" where
  "BUS_lock st = st\<lparr>conn := BUS_lock_in (conn st)\<rparr>"

definition BUS_unlock :: "'b trx_state \<Rightarrow> 'b trx_state" where
  "BUS_unlock st = st\<lparr>conn := BUS_unlock_in (conn st)\<rparr>"

definition BUS_transaction ::
  "'b selector \<Rightarrow> 'b interface_routines \<Rightarrow> (nat \<Rightarrow> byte) \<Rightarrow> transaction_log list option \<Rightarrow> bus_pn \<Rightarrow> 'b trx_state \<Rightarrow>
     (int \<times> 'b trx_state) option" where
  "BUS_transaction select ir junk tlog pn st =
     (case tlog of
        None \<Rightarrow> Some (gb_int gbGOOD, st)
      | Some tlog \<Rightarrow>
          map_option (\<lambda>(ret, st). (ret, BUS_unlock st))
            (BUS_transaction_nolock select ir junk tlog pn (BUS_lock st)))"

end
