(* ===== verification/OW_Bundle.thy ===== *)
theory OW_Bundle
  imports OW_Transaction
begin

text \<open>
  Bundled and entry-by-entry execution of a transaction (\<^verbatim>\<open>ow_transaction.c\<close>): when they agree, and two cases
  in which they do not.
\<close>

section \<open>Bundles do what the entries say\<close>

text \<open>
  A byte-level adapter exchanges its bytes one after another and touches nothing but the hardware.
\<close>

fun stream :: "(byte \<Rightarrow> 'h \<Rightarrow> byte \<times> 'h) \<Rightarrow> byte list \<Rightarrow> 'h \<Rightarrow> byte list \<times> 'h" where
  "stream step [] h = ([], h)"
| "stream step (b # bs) h =
     (let (r, h) = step b h; (rs, h) = stream step bs h in (r # rs, h))"

definition byte_adapter :: "'h interface_routines \<Rightarrow> (byte \<Rightarrow> 'h \<Rightarrow> byte \<times> 'h) \<Rightarrow> bool" where
  "byte_adapter ir step \<longleftrightarrow> ir_select_and_sendback ir = None \<and>
     ir_sendback_data ir = Some (\<lambda>data pn c. (gbGOOD, fst (stream step data (hardware c)),
       c\<lparr>hardware := snd (stream step data (hardware c))\<rparr>))"

lemma stream_append:
  "fst (stream step (xs @ ys) h) = fst (stream step xs h) @ fst (stream step ys (snd (stream step xs h)))"
  "snd (stream step (xs @ ys) h) = snd (stream step ys (snd (stream step xs h)))"
  by (induction xs arbitrary: h) (simp_all add: Let_def case_prod_unfold)

lemma length_stream [simp]: "length (fst (stream step xs h)) = length xs"
  by (induction xs arbitrary: h) (simp_all add: Let_def case_prod_unfold)

text \<open>The bytes an entry puts on the wire, read from memory when it is packed.\<close>

definition sends :: "transaction_log \<Rightarrow> bool" where
  "sends t \<longleftrightarrow> t_type t \<in> {trxn_match, trxn_modify}"

definition wire_bytes :: "(nat \<Rightarrow> byte) \<Rightarrow> transaction_log \<Rightarrow> byte list" where
  "wire_bytes m t =
     (if sends t then mem_read m (the (t_out t)) (t_size t)
      else if t_type t = trxn_read then replicate (t_size t) 0xFF else [])"

text \<open>Entries that a bundle can hold in any number, with the pointers their macros give them.\<close>

definition bundle_entry :: "transaction_log \<Rightarrow> bool" where
  "bundle_entry t \<longleftrightarrow>
     (t_type t = trxn_match \<and> t_out t \<noteq> None \<and> t_in t = None)
   \<or> (t_type t = trxn_modify \<and> t_out t \<noteq> None \<and> t_in t \<noteq> None)
   \<or> (t_type t = trxn_read \<and> t_out t = None \<and> t_in t \<noteq> None)
   \<or> (t_type t = trxn_crc16 \<and> t_out t \<noteq> None) \<or> t_type t = trxn_compare \<or> t_type t = trxn_nop"

text \<open>No entry sends from memory that an earlier entry of the log reads into.\<close>

definition no_overlap :: "transaction_log \<Rightarrow> transaction_log \<Rightarrow> bool" where
  "no_overlap t t' \<longleftrightarrow>
     (t_type t \<in> {trxn_read, trxn_modify} \<and> sends t' \<longrightarrow>
        the (t_in t) + t_size t \<le> the (t_out t') \<or> the (t_out t') + t_size t' \<le> the (t_in t))"

fun hazard_free :: "transaction_log list \<Rightarrow> bool" where
  "hazard_free [] = True"
| "hazard_free (t # ts) = (list_all (no_overlap t) ts \<and> hazard_free ts)"

definition wire_total :: "(nat \<Rightarrow> byte) \<Rightarrow> transaction_log list \<Rightarrow> byte list" where
  "wire_total m ts = concat (map (wire_bytes m) ts)"

lemma length_mem_read [simp]: "length (mem_read m a n) = n"
  by (simp add: mem_read_def)

lemma mem_read_disjoint:
  "a + n \<le> b \<or> b + length xs \<le> a \<Longrightarrow> mem_read (mem_write b xs m) a n = mem_read m a n"
  by (auto simp: mem_read_def mem_write_def)

lemma mem_write_nil [simp]: "mem_write a [] m = m"
  by (auto simp: mem_write_def fun_eq_iff)

lemma length_wire_bytes:
  "length (wire_bytes m t) = (if sends t \<or> t_type t = trxn_read then t_size t else 0)"
  by (simp add: wire_bytes_def)

lemma wire_total_unchanged:
  assumes "list_all (no_overlap t) ts" and "t_type t \<in> {trxn_read, trxn_modify}" and "length xs = t_size t"
  shows "wire_total (mem_write (the (t_in t)) xs m) ts = wire_total m ts"
proof -
  have "wire_bytes (mem_write (the (t_in t)) xs m) t' = wire_bytes m t'" if "t' \<in> set ts" for t'
    using assms that by (auto simp: list_all_iff no_overlap_def wire_bytes_def intro!: mem_read_disjoint)
  then show ?thesis by (simp add: wire_total_def cong: map_cong)
qed

section \<open>Packing\<close>

lemma next_alloc_nil: "allocs st = [] \<Longrightarrow> next_alloc st = (True, st)"
  by (simp add: next_alloc_def)

lemma pack_add_ok:
  assumes "allocs st = []" and "memblob_wf (tb_mb tb)" and "length data = len"
    and "length (memblob_bytes (tb_mb tb)) + len \<le> tb_max_size tb"
  shows "\<exists>mb. pack_add (Some data) len tb st = Some (gbGOOD, tb\<lparr>tb_mb := mb\<rparr>, st) \<and> memblob_wf mb
    \<and> memblob_bytes mb = memblob_bytes (tb_mb tb) @ data"
proof (rule MemblobAdd_cases [OF assms(2), of True data])
  fix mb assume "MemblobAdd True data (tb_mb tb) = Some (0, mb)" "memblob_wf mb"
    "memblob_bytes mb = memblob_bytes (tb_mb tb) @ data"
  then show ?thesis using assms length_memblob_bytes [OF assms(2)]
    by (auto simp: pack_add_def pack_room_def next_alloc_nil)
qed simp

text \<open>What packing an entry does to a bundle.\<close>

definition packed :: "transaction_bundle \<Rightarrow> nat \<Rightarrow> nat \<Rightarrow> bool \<Rightarrow> byte list \<Rightarrow> bool" where
  "packed tb mx k sel bytes \<longleftrightarrow> tb_max_size tb = mx \<and> tb_packets tb = k \<and> tb_select_first tb = sel
     \<and> memblob_wf (tb_mb tb) \<and> memblob_bytes (tb_mb tb) = bytes"

lemma Pack_item_ok:
  assumes "bundle_entry t" and "allocs st = []" and tb: "packed tb mx k sel bytes"
    and "length bytes + length (wire_bytes (mem st) t) \<le> mx"
  shows "\<exists>tb'. Pack_item t ts tb st = Some (gbGOOD, tb', st)
    \<and> packed tb' mx (Suc k) sel (bytes @ wire_bytes (mem st) t)
    \<and> tb_start tb' = (if k = 0 then t # ts else tb_start tb)"
proof -
  have pb: "\<exists>mb. pack_bytes t tb st = Some (gbGOOD, tb\<lparr>tb_mb := mb\<rparr>, st) \<and> memblob_wf mb
      \<and> memblob_bytes mb = memblob_bytes (tb_mb tb) @ wire_bytes (mem st) t"
    using assms pack_add_ok [of st tb "wire_bytes (mem st) t" "t_size t"]
    by (auto simp: bundle_entry_def pack_bytes_def Let_def packed_def wire_bytes_def sends_def ptr_read_def
        intro: exI [of _ "tb_mb tb"])
  then obtain mb where "pack_bytes t tb st = Some (gbGOOD, tb\<lparr>tb_mb := mb\<rparr>, st)" "memblob_wf mb"
      "memblob_bytes mb = memblob_bytes (tb_mb tb) @ wire_bytes (mem st) t" by blast
  then show ?thesis using tb by (auto simp: Pack_item_def packed_def)
qed

section \<open>Unpacking\<close>

text \<open>The bundled state: that of the unbundled run, but with the whole exchange already done.\<close>

definition ahead :: "'h \<Rightarrow> 'h trx_state \<Rightarrow> 'h trx_state" where
  "ahead H st = st\<lparr>conn := (conn st)\<lparr>hardware := H\<rparr>\<rparr>"

lemma ahead_simps [simp]:
  "mem (ahead H st) = mem st" "allocs (ahead H st) = allocs st"
  "crc_counters (conn (ahead H st)) = crc_counters (conn st)"
  by (simp_all add: ahead_def)

lemma ptr_read_ahead [simp]: "ptr_read p n (ahead H st) = ptr_read p n st"
  by (simp add: ptr_read_def split: option.splits)

lemma ptr_write_ahead [simp]: "ptr_write p xs (ahead H st) = map_option (ahead H) (ptr_write p xs st)"
  by (simp add: ptr_write_def ahead_def split: option.splits)

lemma trx_memcmp_ahead [simp]: "trx_memcmp t (ahead H st) = trx_memcmp t st"
  by (simp add: trx_memcmp_def split: option.splits)

lemma trx_crc_ahead: "trx_crc t (ahead H st) = map_option (map_prod id (ahead H)) (trx_crc t st)"
  by (auto simp: trx_crc_def Let_def ahead_def ptr_read_def split: option.splits prod.splits)

text \<open>An entry run on its own and the same entry unpacked from the response of a bundle agree.\<close>

definition agree :: "(byte \<Rightarrow> 'h \<Rightarrow> byte \<times> 'h) \<Rightarrow> 'h \<Rightarrow> transaction_log \<Rightarrow> 'h trx_state \<Rightarrow> nat \<Rightarrow>
    (int \<times> 'h trx_state) option \<Rightarrow> (GOOD_OR_BAD \<times> nat \<times> 'h trx_state) option \<Rightarrow> bool" where
  "agree step H t st off single unpacked \<longleftrightarrow>
     (\<exists>r st' r' sb'. single = Some (r, st') \<and> r \<noteq> 2 \<and> allocs st' = allocs st
        \<and> unpacked = Some (r', off + length (wire_bytes (mem st) t), sb') \<and> (r' = gbGOOD \<longleftrightarrow> r = 0)
        \<and> (r = 0 \<longrightarrow> sb' = ahead H st'
             \<and> hardware (conn st') = snd (stream step (wire_bytes (mem st) t) (hardware (conn st)))
             \<and> (\<forall>ts. list_all (no_overlap t) ts \<longrightarrow> wire_total (mem st') ts = wire_total (mem st) ts)))"

lemma send_data_adapter:
  "byte_adapter ir step \<Longrightarrow> data \<noteq> [] \<Longrightarrow>
     BUS_sendback_data ir sh data pn c = (gbGOOD, fst (stream step data (hardware c)), c\<lparr>hardware := snd (stream step data (hardware c))\<rparr>)"
  by (simp add: byte_adapter_def BUS_sendback_data_def)

lemma agree_match:
  assumes ir: "byte_adapter ir step" and t: "t_type t = trxn_match" "t_out t = Some a" "t_in t = None"
    and blk: "blk_load off (t_size t) blk = Some (fst (stream step (wire_bytes (mem st) t) (hardware (conn st))))"
  shows "agree step H t st off (BUS_transaction_single select ir junk t pn st) (unpack_item blk off t (ahead H st))"
proof (cases "t_size t = 0")
  case True
  then show ?thesis using t blk
    by (simp add: agree_def BUS_transaction_single_def trx_good_def unpack_item_def wire_bytes_def sends_def
        ptr_read_def mem_read_def)
next
  case False
  then have "mem_read (mem st) a (t_size t) \<noteq> []" using length_mem_read by (metis list.size(3))
  then show ?thesis using t blk False send_data_adapter [OF ir]
    by (simp add: agree_def BUS_transaction_single_def unpack_item_def wire_bytes_def sends_def ptr_read_def
        on_conn_def BUS_send_data_def ahead_def Let_def)
qed

lemma agree_read:
  assumes ir: "byte_adapter ir step" and t: "t_type t = trxn_read" "t_out t = None" "t_in t = Some a"
    and blk: "blk_load off (t_size t) blk = Some (fst (stream step (wire_bytes (mem st) t) (hardware (conn st))))"
  shows "agree step H t st off (BUS_transaction_single select ir junk t pn st) (unpack_item blk off t (ahead H st))"
proof (cases "t_size t = 0")
  case True
  then show ?thesis using t blk
    by (simp add: agree_def BUS_transaction_single_def trx_good_def unpack_item_def wire_bytes_def sends_def
        ptr_write_def)
next
  case False
  then have "replicate (t_size t) (0xFF :: byte) \<noteq> []" by simp
  then show ?thesis
    using t blk False send_data_adapter [OF ir] wire_total_unchanged [of t _ "fst (stream step (wire_bytes (mem st) t) (hardware (conn st)))" "mem st"]
    by (auto simp add: agree_def BUS_transaction_single_def unpack_item_def wire_bytes_def sends_def ptr_write_def
        on_conn_resp_def BUS_readin_data_def ahead_def Let_def)
qed

lemma agree_modify:
  assumes ir: "byte_adapter ir step" and t: "t_type t = trxn_modify" "t_out t = Some b" "t_in t = Some a"
    and blk: "blk_load off (t_size t) blk = Some (fst (stream step (wire_bytes (mem st) t) (hardware (conn st))))"
  shows "agree step H t st off (BUS_transaction_single select ir junk t pn st) (unpack_item blk off t (ahead H st))"
proof (cases "t_size t = 0")
  case True
  then show ?thesis using t blk
    by (simp add: agree_def BUS_transaction_single_def unpack_item_def wire_bytes_def sends_def
        ptr_write_def ptr_read_def mem_read_def on_conn_resp_def BUS_sendback_data_def)
next
  case False
  then have "mem_read (mem st) b (t_size t) \<noteq> []" using length_mem_read by (metis list.size(3))
  then show ?thesis
    using t blk False send_data_adapter [OF ir] wire_total_unchanged [of t _ "fst (stream step (wire_bytes (mem st) t) (hardware (conn st)))" "mem st"]
    by (auto simp add: agree_def BUS_transaction_single_def unpack_item_def wire_bytes_def sends_def ptr_write_def
        ptr_read_def on_conn_resp_def ahead_def Let_def)
qed

lemma trx_crc16_result:
  assumes "t_type t = trxn_crc16" and "t_out t = Some a"
  shows "\<exists>r k. trx_crc t st = Some (r, st\<lparr>conn := (conn st)\<lparr>crc_counters := k\<rparr>\<rparr>) \<and> (r = 0 \<or> r = - 1)"
  using assms by (auto simp: trx_crc_def ptr_read_def CRC16_def CRC16seeded_def Let_def)

lemma agree_crc16:
  assumes "t_type t = trxn_crc16" and "t_out t \<noteq> None"
  shows "agree step H t st off (BUS_transaction_single select ir junk t pn st) (unpack_item blk off t (ahead H st))"
proof -
  obtain r k where r: "trx_crc t st = Some (r, st\<lparr>conn := (conn st)\<lparr>crc_counters := k\<rparr>\<rparr>)" "r = 0 \<or> r = - 1"
    using trx_crc16_result [OF assms(1), of _ st] assms(2) by blast
  then have "unpack_item blk off t (ahead H st) =
      Some (if r = 0 then gbGOOD else gbBAD, off, ahead H (st\<lparr>conn := (conn st)\<lparr>crc_counters := k\<rparr>\<rparr>))"
    using assms(1) by (simp add: unpack_item_def trx_crc_ahead)
  moreover have "BUS_transaction_single select ir junk t pn st = Some (r, st\<lparr>conn := (conn st)\<lparr>crc_counters := k\<rparr>\<rparr>)"
    using assms(1) r by (simp add: BUS_transaction_single_def)
  ultimately show ?thesis using r(2) assms(1) by (auto simp: agree_def wire_bytes_def sends_def)
qed

lemma agree_quiet:
  assumes "t_type t = trxn_compare \<or> t_type t = trxn_nop"
  shows "agree step H t st off (BUS_transaction_single select ir junk t pn st) (unpack_item blk off t (ahead H st))"
proof -
  have "gb_int (trx_memcmp t st) = 0 \<longleftrightarrow> trx_memcmp t st = gbGOOD" "gb_int (trx_memcmp t st) \<noteq> 2"
    by (auto simp: trx_memcmp_def split: option.splits)
  then show ?thesis using assms
    by (auto simp: agree_def BUS_transaction_single_def unpack_item_def wire_bytes_def sends_def trx_good_def)
qed

lemma agree_entry:
  assumes "byte_adapter ir step" and "bundle_entry t"
    and "blk_load off (length (wire_bytes (mem st) t)) blk = Some (fst (stream step (wire_bytes (mem st) t) (hardware (conn st))))"
  shows "agree step H t st off (BUS_transaction_single select ir junk t pn st) (unpack_item blk off t (ahead H st))"
  using assms agree_match [OF assms(1), of t _ off blk st] agree_read [OF assms(1), of t _ off blk st]
    agree_modify [OF assms(1), of t _ _ off blk st] agree_quiet [of t] agree_crc16 [of t]
  by (auto simp: bundle_entry_def length_wire_bytes sends_def)

lemma blk_load_split:
  assumes "blk_load off (m + n) blk = Some (xs @ ys)" and "length xs = m"
  shows "blk_load off m blk = Some xs \<and> blk_load (off + m) n blk = Some ys"
proof -
  let ?d = "take (m + n) (drop off blk)"
  have le: "off + (m + n) \<le> length blk" and none: "None \<notin> set ?d" and eq: "map the ?d = xs @ ys"
    using assms(1) by (auto simp: blk_load_def split: if_splits)
  have d: "?d = take m (drop off blk) @ take n (drop (off + m) blk)"
    by (simp add: take_add add.commute)
  have len: "length (take m (drop off blk)) = m" using le by simp
  have "map the (take m (drop off blk)) = xs" "map the (take n (drop (off + m) blk)) = ys"
    using eq assms(2) len unfolding d by simp_all
  then show ?thesis using le none unfolding d by (simp add: blk_load_def)
qed

lemma loops_agree:
  assumes ir: "byte_adapter ir step" and "list_all bundle_entry ts" and "hazard_free ts" and e: "t_type e = trxn_end"
    and "blk_load off (length (wire_total (mem st) ts)) blk = Some (fst (stream step (wire_total (mem st) ts) (hardware (conn st))))"
  shows "\<exists>r st' r' sb'. trx_loop select ir junk (ts @ e # rest) pn st = Some (r, st')
    \<and> unpack_loop blk off (ts @ after) (length ts) (ahead H st) = Some (r', sb') \<and> (r' = gbGOOD \<longleftrightarrow> r = 0)
    \<and> (r = 0 \<longrightarrow> sb' = ahead H st' \<and> hardware (conn st') = snd (stream step (wire_total (mem st) ts) (hardware (conn st))))"
  using assms(2,3,5)
proof (induction ts arbitrary: st off)
  case Nil
  then show ?case using e by (simp add: BUS_transaction_single_def wire_total_def)
next
  case (Cons t ts)
  let ?w = "wire_bytes (mem st) t" and ?W = "wire_total (mem st) ts" and ?h = "hardware (conn st)"
  have split: "blk_load off (length ?w) blk = Some (fst (stream step ?w ?h))"
      "blk_load (off + length ?w) (length ?W) blk = Some (fst (stream step ?W (snd (stream step ?w ?h))))"
    using blk_load_split [of off "length ?w" "length ?W" blk "fst (stream step ?w ?h)"] Cons.prems(3)
    by (simp_all add: wire_total_def stream_append)
  have "agree step H t st off (BUS_transaction_single select ir junk t pn st) (unpack_item blk off t (ahead H st))"
    using agree_entry [OF ir _ split(1)] Cons.prems(1) by simp
  then obtain r st1 r' sb1 where 1: "BUS_transaction_single select ir junk t pn st = Some (r, st1)" "r \<noteq> 2"
      "unpack_item blk off t (ahead H st) = Some (r', off + length ?w, sb1)" "r' = gbGOOD \<longleftrightarrow> r = 0"
      "r = 0 \<Longrightarrow> sb1 = ahead H st1" "r = 0 \<Longrightarrow> hardware (conn st1) = snd (stream step ?w ?h)"
      "r = 0 \<Longrightarrow> wire_total (mem st1) ts = ?W"
    using Cons.prems(2) by (auto simp: agree_def)
  show ?case
  proof (cases "r = 0")
    case True
    then show ?thesis
      using Cons.IH [of "off + length ?w" st1] Cons.prems split(2) 1
      by (simp add: wire_total_def stream_append)
  next
    case False
    then show ?thesis using 1 by (auto simp: BAD_def)
  qed
qed

lemma bundle_data_wf: "memblob_wf mb \<Longrightarrow> bundle_data mb = Some (memblob_bytes mb)"
  by (auto simp: memblob_wf_def bundle_data_def memblob_bytes_def MemblobData_def MemblobLength_def blk_load_def
      split: option.splits)

lemma response_in_place:
  assumes "memblob_wf mb" and "length resp = length (memblob_bytes mb)"
  shows "\<exists>mb'. (if resp = [] then Some mb else mb_poke 0 resp mb) = Some mb'
    \<and> blk_load 0 (length resp) (case MemblobData mb' of None \<Rightarrow> [] | Some blk \<Rightarrow> blk) = Some resp"
proof (cases "resp = []")
  case True
  then show ?thesis by (simp add: blk_load_def)
next
  case False
  then obtain blk where blk: "mb_memory_storage mb = Some blk" "length resp \<le> length blk"
    using assms by (auto simp: memblob_wf_def memblob_bytes_def split: option.splits)
  obtain blk' where b: "blk_store 0 (map Some resp) blk = Some blk'"
    using blk by (simp add: memblk)
  have "take (length resp) blk' = map Some resp" "length blk' = length blk"
    using blk_store_take [OF b] blk_store_length [OF b] by simp_all
  then show ?thesis using blk b False
    by (simp add: mb_poke_def MemblobData_def blk_load_prefix)
qed

text \<open>Shipping a bundle that holds the entries \<open>ts\<close>, after the selection succeeded if it has one.\<close>

lemma enroute_ok:
  assumes ir: "byte_adapter ir step" and tb: "packed tb mx k sel bytes"
    and c: "(if sel then select pn (conn st) else (gbGOOD, conn st)) = (gbGOOD, c)"
  shows "\<exists>tb'. Bundle_enroute select ir tb pn st =
      Some (gbGOOD, tb', ahead (snd (stream step bytes (hardware c))) (st\<lparr>conn := c\<rparr>))
    \<and> tb_start tb' = tb_start tb \<and> tb_packets tb' = k \<and> packed (bundle_clear tb') mx 0 False []
    \<and> blk_load 0 (length bytes) (case MemblobData (tb_mb tb') of None \<Rightarrow> [] | Some blk \<Rightarrow> blk)
        = Some (fst (stream step bytes (hardware c)))"
proof -
  have mb: "memblob_wf (tb_mb tb)" "memblob_bytes (tb_mb tb) = bytes" "tb_packets tb = k" "tb_select_first tb = sel"
    using tb by (simp_all add: packed_def)
  let ?resp = "fst (stream step bytes (hardware c))"
  obtain mb' where mb': "(if ?resp = [] then Some (tb_mb tb) else mb_poke 0 ?resp (tb_mb tb)) = Some mb'"
      "blk_load 0 (length ?resp) (case MemblobData mb' of None \<Rightarrow> [] | Some blk \<Rightarrow> blk) = Some ?resp"
    using response_in_place [OF mb(1), of ?resp] mb(2) by auto
  have "0 < mb_increment mb'" using mb(1) mb'(1) by (auto simp: memblob_wf_def mb_poke_def split: if_splits option.splits)
  then have "packed (bundle_clear (tb\<lparr>tb_mb := mb'\<rparr>)) mx 0 False []"
    using tb by (simp add: packed_def bundle_clear_def MemblobClear_def memblob_wf_def memblob_bytes_def)
  moreover have "BUS_sendback_data ir True bytes pn c = (gbGOOD, ?resp, c\<lparr>hardware := snd (stream step bytes (hardware c))\<rparr>)"
    using send_data_adapter [OF ir, of bytes] by (cases "bytes = []") (simp_all add: BUS_sendback_data_def)
  moreover have "ir_select_and_sendback ir = None" using ir by (simp add: byte_adapter_def)
  ultimately show ?thesis
    using c mb mb' by (cases sel) (auto simp: Bundle_enroute_def bundle_data_wf BUS_select_and_sendback_def ahead_def)
qed

lemma ahead_id: "hardware (conn st) = H \<Longrightarrow> ahead H st = st"
  by (auto simp: ahead_def)

lemma bundle_ship_agrees:
  assumes ir: "byte_adapter ir step" and ts: "list_all bundle_entry ts" "hazard_free ts" and e: "t_type e = trxn_end"
    and tb: "packed tb mx (length pre + length ts) sel (wire_total (mem st) ts)"
    and pre: "pre = (if sel then [s] else [])" "t_type s = trxn_select"
    and start: "pre @ ts \<noteq> [] \<Longrightarrow> tb_start tb = pre @ ts @ after"
    and sel: "(if sel then select pn (conn st) else (gbGOOD, conn st)) = (gbGOOD, c)"
  shows "\<exists>r st' r' tb' sb'. trx_loop select ir junk (ts @ [e]) pn (st\<lparr>conn := c\<rparr>) = Some (r, st')
    \<and> Bundle_ship select ir tb pn st = Some (r', tb', sb') \<and> (r' = gbGOOD \<longleftrightarrow> r = 0) \<and> (r = 0 \<longrightarrow> sb' = st') \<and> packed tb' mx 0 False []"
proof (cases "pre @ ts = []")
  case True
  then have "sel = False" "c = conn st" using pre sel by (auto split: if_splits)
  then show ?thesis using True tb e by (auto simp: Bundle_ship_def packed_def BUS_transaction_single_def wire_total_def)
next
  case False
  let ?W = "wire_total (mem st) ts" and ?st = "st\<lparr>conn := c\<rparr>"
  let ?H = "snd (stream step ?W (hardware c))"
  obtain tb1 where en: "Bundle_enroute select ir tb pn st = Some (gbGOOD, tb1, ahead ?H ?st)"
      "tb_start tb1 = pre @ ts @ after" "tb_packets tb1 = length pre + length ts" "packed (bundle_clear tb1) mx 0 False []"
      "blk_load 0 (length ?W) (case MemblobData (tb_mb tb1) of None \<Rightarrow> [] | Some blk \<Rightarrow> blk)
        = Some (fst (stream step ?W (hardware c)))"
    using enroute_ok [OF ir tb, of select pn st c] sel start [OF False] by auto
  let ?blk = "case MemblobData (tb_mb tb1) of None \<Rightarrow> [] | Some blk \<Rightarrow> blk"
  obtain r st' r' sb' where loop: "trx_loop select ir junk (ts @ [e]) pn ?st = Some (r, st')"
      "unpack_loop ?blk 0 (ts @ after) (length ts) (ahead ?H ?st) = Some (r', sb')" "r' = gbGOOD \<longleftrightarrow> r = 0"
      "r = 0 \<longrightarrow> sb' = ahead ?H st' \<and> hardware (conn st') = ?H"
    using loops_agree [OF ir ts e, of 0 ?st ?blk select junk "[]" pn after ?H] en(5) by auto
  have "unpack_loop ?blk 0 (tb_start tb1) (tb_packets tb1) (ahead ?H ?st) = Some (r', sb')"
    using en(2,3) loop(2) pre by (auto simp: unpack_item_def)
  moreover have "tb_packets tb \<noteq> 0" using tb False by (simp add: packed_def)
  moreover have "r = 0 \<longrightarrow> sb' = st'" using loop(4) ahead_id [of st' ?H] by simp
  ultimately show ?thesis
    using en(1,4) loop(1,3) by (simp add: Bundle_ship_def Bundle_unpack_def)
qed

section \<open>Entry by entry\<close>

lemma entry_single:
  assumes "byte_adapter ir step" and "bundle_entry t"
  shows "\<exists>r st'. BUS_transaction_single select ir junk t pn st = Some (r, st') \<and> r \<noteq> 2 \<and> allocs st' = allocs st"
proof -
  let ?resp = "fst (stream step (wire_bytes (mem st) t) (hardware (conn st)))"
  have "blk_load 0 (length (wire_bytes (mem st) t)) (map Some ?resp) = Some ?resp" by (auto simp: blk_load_def comp_def)
  from agree_entry [OF assms this, of undefined select junk pn] show ?thesis by (auto simp: agree_def)
qed

text \<open>The entries run to their end, or one of them ends the transaction, whatever follows.\<close>

lemma entries_run:
  assumes ir: "byte_adapter ir step" and "list_all bundle_entry ts"
  shows "(\<exists>st'. allocs st' = allocs st \<and> (\<forall>after. trx_loop select ir junk (ts @ after) pn st = trx_loop select ir junk after pn st'))
    \<or> (\<exists>r st'. r \<noteq> 0 \<and> (\<forall>after. trx_loop select ir junk (ts @ after) pn st = Some (r, st')))"
  using assms(2)
proof (induction ts arbitrary: st)
  case (Cons t ts)
  obtain r st1 where r: "BUS_transaction_single select ir junk t pn st = Some (r, st1)" "r \<noteq> 2" "allocs st1 = allocs st"
    using entry_single [OF ir, of t select junk pn st] Cons.prems by auto
  show ?case
  proof (cases "r = 0")
    case True
    then show ?thesis using Cons.IH [of st1] Cons.prems r by simp
  qed (use r in auto)
qed auto

section \<open>A log in bundles\<close>

text \<open>The entries \<open>ps\<close> wait in the bundle, and \<open>after\<close> is what follows them in the log.\<close>

definition pending :: "nat \<Rightarrow> transaction_log list \<Rightarrow> transaction_log list \<Rightarrow> transaction_bundle \<Rightarrow> 'b trx_state \<Rightarrow> bool" where
  "pending mx ps after tb st \<longleftrightarrow>
     (\<exists>sel pre qs s. ps = pre @ qs \<and> pre = (if sel then [s] else []) \<and> t_type s = trxn_select \<and> list_all bundle_entry qs
        \<and> packed tb mx (length ps) sel (wire_total (mem st) qs) \<and> (ps \<noteq> [] \<longrightarrow> tb_start tb = ps @ after)
        \<and> length (wire_total (mem st) qs) \<le> mx)"

lemma hazard_free_append: "hazard_free (xs @ ys) \<Longrightarrow> hazard_free xs \<and> hazard_free ys"
  by (induction xs) auto

lemma packed_init: "packed (Bundle_init ir) (ir_bundling_length ir) 0 False []"
  by (simp add: packed_def Bundle_init_def memblob_wf_Init)

lemma pending_none: "packed tb mx 0 False [] \<Longrightarrow> pending mx [] after tb st"
  unfolding pending_def
  by (rule exI [of _ False], rule exI [of _ "[]"], rule exI [of _ "[]"],
      rule exI [of _ "\<lparr>t_out = None, t_in = None, t_size = 0, t_type = trxn_select\<rparr>"]) (simp add: wire_total_def)

text \<open>Shipping what waits is running it.\<close>

lemma ship_pending:
  assumes ir: "byte_adapter ir step" and sel: "\<forall>pn c. fst (select pn c) \<noteq> gbOTHER"
    and p: "pending mx ps after tb st" and hz: "hazard_free ps"
  shows "\<exists>r tb' sb'. Bundle_ship select ir tb pn st = Some (r, tb', sb')
    \<and> (if r = gbGOOD then packed tb' mx 0 False [] \<and> allocs sb' = allocs st \<and> (\<forall>after. trx_loop select ir junk (ps @ after) pn st = trx_loop select ir junk after pn sb')
       else \<exists>r2 st2. r2 \<noteq> 0 \<and> (\<forall>after. trx_loop select ir junk (ps @ after) pn st = Some (r2, st2)))"
proof -
  obtain issel pre qs s where ps: "ps = pre @ qs" "pre = (if issel then [s] else [])" "t_type s = trxn_select" "list_all bundle_entry qs"
      "packed tb mx (length pre + length qs) issel (wire_total (mem st) qs)" "pre @ qs \<noteq> [] \<Longrightarrow> tb_start tb = pre @ qs @ after"
    using p unfolding pending_def by auto
  have hq: "hazard_free qs" using hz hazard_free_append ps(1) by blast
  let ?c = "if issel then select pn (conn st) else (gbGOOD, conn st)"
  show ?thesis
  proof (cases "fst ?c = gbGOOD")
    case True
    then obtain c where c: "?c = (gbGOOD, c)" by (metis prod.collapse)
    let ?e = "\<lparr>t_out = None, t_in = None, t_size = 0, t_type = trxn_end\<rparr>"
    have pre: "trx_loop select ir junk (ps @ after) pn st = trx_loop select ir junk (qs @ after) pn (st\<lparr>conn := c\<rparr>)" for after
      using c ps(1-3) by (auto simp: BUS_transaction_single_def on_conn_def split: if_splits)
    obtain r st' r' tb' sb' where ship: "trx_loop select ir junk (qs @ [?e]) pn (st\<lparr>conn := c\<rparr>) = Some (r, st')"
        "Bundle_ship select ir tb pn st = Some (r', tb', sb')" "r' = gbGOOD \<longleftrightarrow> r = 0" "r = 0 \<longrightarrow> sb' = st'" "packed tb' mx 0 False []"
      using bundle_ship_agrees [where pre = pre and ts = qs and after = after and e = ?e and junk = junk and select = select and pn = pn and st = st and sel = issel and s = s, OF ir ps(4) hq _ ps(5,2,3,6) c] by auto
    have e: "trx_loop select ir junk [?e] pn st1 = Some (0, st1)" for st1 by (simp add: BUS_transaction_single_def)
    from entries_run [OF ir ps(4), of "st\<lparr>conn := c\<rparr>" select junk pn] show ?thesis
    proof (elim disjE exE conjE)
      fix st1 assume st1: "allocs st1 = allocs (st\<lparr>conn := c\<rparr>)" "\<forall>after. trx_loop select ir junk (qs @ after) pn (st\<lparr>conn := c\<rparr>) = trx_loop select ir junk after pn st1"
      then have "r = 0" "st' = st1" using ship(1) e by auto
      then show ?thesis using ship st1 pre by (intro exI [of _ r'] exI [of _ tb'] exI [of _ sb']) simp
    next
      fix r1 st1 assume r1: "r1 \<noteq> 0" "\<forall>after. trx_loop select ir junk (qs @ after) pn (st\<lparr>conn := c\<rparr>) = Some (r1, st1)"
      then have "r \<noteq> 0" using ship(1) by simp
      then show ?thesis using ship r1 pre by (intro exI [of _ r'] exI [of _ tb'] exI [of _ sb']) auto
    qed
  next
    case False
    then have i: issel and bad: "fst (select pn (conn st)) = gbBAD"
      using sel [rule_format, of pn "conn st"] by (auto split: if_splits) (metis GOOD_OR_BAD.exhaust)
    then obtain c where c: "select pn (conn st) = (gbBAD, c)" by (metis prod.collapse)
    have "ir_select_and_sendback ir = None" using ir by (simp add: byte_adapter_def)
    then have "\<exists>tb'. Bundle_ship select ir tb pn st = Some (gbBAD, tb', st\<lparr>conn := c\<rparr>)"
      using ps(2,5) i c by (simp add: Bundle_ship_def Bundle_enroute_def packed_def bundle_data_wf BUS_select_and_sendback_def)
    moreover have "trx_loop select ir junk (ps @ after) pn st = Some (gb_int gbBAD, st\<lparr>conn := c\<rparr>)" for after
      using i c ps(1-3) by (simp add: BUS_transaction_single_def on_conn_def)
    ultimately show ?thesis by auto
  qed
qed

text \<open>Packing one more entry, or finding no room for it, in this bundle or in any.\<close>

definition fits :: "nat \<Rightarrow> transaction_log \<Rightarrow> bool" where
  "fits mx t \<longleftrightarrow> (sends t \<or> t_type t = trxn_read \<longrightarrow> t_size t \<le> mx)"

definition log_entry :: "transaction_log \<Rightarrow> bool" where
  "log_entry t \<longleftrightarrow> bundle_entry t \<or> t_type t = trxn_select"

lemma log_entry_not_end: "log_entry t \<Longrightarrow> t_type t \<noteq> trxn_end"
  by (auto simp: log_entry_def bundle_entry_def)

definition pack_outcome :: "nat \<Rightarrow> transaction_log \<Rightarrow> transaction_log list \<Rightarrow> transaction_log list \<Rightarrow> transaction_bundle \<Rightarrow> 'b trx_state \<Rightarrow> bool" where
  "pack_outcome mx t ps after tb st \<longleftrightarrow>
     (\<exists>tb'. Pack_item t after tb st = Some (gbGOOD, tb', st) \<and> pending mx (ps @ [t]) after tb' st)
   \<or> Pack_item t after tb st = Some (gbOTHER, tb, st) \<and> ps \<noteq> [] \<and> fits mx t
   \<or> Pack_item t after tb st = Some (gbBAD, tb, st) \<and> bundle_entry t \<and> \<not> fits mx t"

lemma pack_entry:
  assumes "pending mx ps (t # after) tb st" and "allocs st = []" and "bundle_entry t"
  shows "pack_outcome mx t ps after tb st"
proof -
  obtain sel pre qs s where ps: "ps = pre @ qs" "pre = (if sel then [s] else [])" "t_type s = trxn_select" "list_all bundle_entry qs"
      "packed tb mx (length ps) sel (wire_total (mem st) qs)" "ps \<noteq> [] \<longrightarrow> tb_start tb = ps @ t # after" "length (wire_total (mem st) qs) \<le> mx"
    using assms(1) unfolding pending_def by blast
  show ?thesis
  proof (cases "length (wire_total (mem st) qs) + length (wire_bytes (mem st) t) \<le> mx")
    case True
    then obtain tb' where tb': "Pack_item t after tb st = Some (gbGOOD, tb', st)"
        "packed tb' mx (Suc (length ps)) sel (wire_total (mem st) qs @ wire_bytes (mem st) t)"
        "tb_start tb' = (if length ps = 0 then t # after else tb_start tb)"
      using Pack_item_ok [OF assms(3,2) ps(5), of after] by blast
    have "pending mx (ps @ [t]) after tb' st" unfolding pending_def
      by (rule exI [of _ sel], rule exI [of _ pre], rule exI [of _ "qs @ [t]"], rule exI [of _ s])
        (use ps tb' assms(3) True in \<open>simp add: wire_total_def\<close>)
    then show ?thesis using tb'(1) unfolding pack_outcome_def by blast
  next
    case False
    have len: "MemblobLength (tb_mb tb) = length (wire_total (mem st) qs)" "tb_max_size tb = mx"
      using ps(5) length_memblob_bytes [of "tb_mb tb"] by (simp_all add: packed_def)
    have w: "sends t \<or> t_type t = trxn_read" "length (wire_bytes (mem st) t) = t_size t"
      using False ps(7) length_wire_bytes [of "mem st" t] by (auto split: if_splits)
    have "pack_bytes t tb st = Some (pack_room (t_size t) tb, tb, st)" "pack_room (t_size t) tb = (if t_size t > mx then gbBAD else gbOTHER)"
      using False len w assms(3) by (auto simp: bundle_entry_def pack_bytes_def pack_add_def pack_room_def sends_def Let_def)
    moreover have "ps = [] \<longrightarrow> wire_total (mem st) qs = []" using ps(1) by (simp add: wire_total_def)
    ultimately show ?thesis using False w assms(3) by (auto simp: pack_outcome_def Pack_item_def fits_def)
  qed
qed

lemma pack_select:
  assumes "pending mx ps (s # after) tb st" and "t_type s = trxn_select"
  shows "pack_outcome mx s ps after tb st"
proof (cases "ps = []")
  case False
  then have "tb_packets tb \<noteq> 0" using assms(1) by (auto simp: pending_def packed_def)
  then show ?thesis using False assms(2) by (simp add: pack_outcome_def Pack_item_def pack_bytes_def fits_def sends_def)
next
  case True
  then have tb: "packed tb mx 0 False []" using assms(1) by (auto simp: pending_def wire_total_def split: if_splits)
  then obtain tb' where tb': "Pack_item s after tb st = Some (gbGOOD, tb', st)" "packed tb' mx 1 True []" "tb_start tb' = s # after"
    using assms(2) by (auto simp: Pack_item_def pack_bytes_def packed_def)
  have "pending mx [s] after tb' st" unfolding pending_def
    by (rule exI [of _ True], rule exI [of _ "[s]"], rule exI [of _ "[]"], rule exI [of _ s]) (use tb' assms(2) in \<open>simp add: wire_total_def\<close>)
  then show ?thesis using tb'(1) True by (auto simp: pack_outcome_def)
qed

lemma pack_log_entry: "pending mx ps (t # after) tb st \<Longrightarrow> allocs st = [] \<Longrightarrow> log_entry t \<Longrightarrow> pack_outcome mx t ps after tb st"
  using pack_entry pack_select by (auto simp: log_entry_def)

text \<open>Both runs end; one reports success exactly when the other does, and then the states are the same.\<close>

definition same_outcome :: "(int \<times> 'b trx_state) option \<Rightarrow> (int \<times> 'b trx_state) option \<Rightarrow> bool" where
  "same_outcome single bundled \<longleftrightarrow>
     (\<exists>r st' r' sb'. single = Some (r, st') \<and> bundled = Some (r', sb') \<and> (r' = 0 \<longleftrightarrow> r = 0) \<and> (r = 0 \<longrightarrow> sb' = st'))"

lemma bundles_agree:
  assumes ir: "byte_adapter ir step" and sel: "\<forall>pn c. fst (select pn c) \<noteq> gbOTHER" and e: "t_type e = trxn_end"
    and "pending mx ps (ts @ [e]) tb st" and "list_all log_entry ts" and "hazard_free (ps @ ts)" and "allocs st = []"
  shows "same_outcome (trx_loop select ir junk (ps @ ts @ [e]) pn st) (bundle_loop select ir junk (ts @ [e]) tb pn st)"
  using assms(4-7)
proof (induction ts arbitrary: ps tb st)
  case Nil
  then have hz: "hazard_free ps" by simp
  obtain r tb' sb' where ship: "Bundle_ship select ir tb pn st = Some (r, tb', sb')"
    and res: "if r = gbGOOD then packed tb' mx 0 False [] \<and> allocs sb' = allocs st \<and> (\<forall>after. trx_loop select ir junk (ps @ after) pn st = trx_loop select ir junk after pn sb')
       else \<exists>r2 st2. r2 \<noteq> 0 \<and> (\<forall>after. trx_loop select ir junk (ps @ after) pn st = Some (r2, st2))"
    using ship_pending [OF ir sel Nil.prems(1) hz, where pn = pn and junk = junk] by blast
  have gb: "gb_int r = 0 \<longleftrightarrow> r = gbGOOD" by (cases r) auto
  show ?case using res ship e gb by (cases "r = gbGOOD") (auto simp: same_outcome_def BUS_transaction_single_def)
next
  case (Cons t ts)
  let ?after = "ts @ [e]"
  have t: "log_entry t" "t_type t \<noteq> trxn_end" "list_all log_entry ts" using Cons.prems(2) log_entry_not_end by simp_all
  have hz: "hazard_free ps" "hazard_free ([t] @ ts)" "hazard_free ts" "hazard_free ((ps @ [t]) @ ts)"
    using hazard_free_append [OF Cons.prems(3)] Cons.prems(3) by simp_all
  have out: "pack_outcome mx t ps ?after tb st" using pack_log_entry Cons.prems(1,4) t(1) by simp
  show ?case
  proof (cases "\<exists>tb'. Pack_item t ?after tb st = Some (gbGOOD, tb', st) \<and> pending mx (ps @ [t]) ?after tb' st")
    case True
    then obtain tb' where tb': "Pack_item t ?after tb st = Some (gbGOOD, tb', st)" "pending mx (ps @ [t]) ?after tb' st" by blast
    show ?thesis using Cons.IH [OF tb'(2) t(3) hz(4) Cons.prems(4)] tb'(1) t(2) by simp
  next
    case False
    then obtain pr where pk: "Pack_item t ?after tb st = Some (pr, tb, st)" "pr = gbOTHER \<and> fits mx t \<or> pr = gbBAD \<and> bundle_entry t"
      using out unfolding pack_outcome_def by blast
    obtain r tb' sb' where ship: "Bundle_ship select ir tb pn st = Some (r, tb', sb')"
      and res: "if r = gbGOOD then packed tb' mx 0 False [] \<and> allocs sb' = allocs st \<and> (\<forall>after. trx_loop select ir junk (ps @ after) pn st = trx_loop select ir junk after pn sb')
         else \<exists>r2 st2. r2 \<noteq> 0 \<and> (\<forall>after. trx_loop select ir junk (ps @ after) pn st = Some (r2, st2))"
      using ship_pending [OF ir sel Cons.prems(1) hz(1), where pn = pn and junk = junk] by blast
    show ?thesis
    proof (cases "r = gbGOOD")
      case False
      then show ?thesis using res ship pk t(2) by (auto simp: same_outcome_def BAD_def)
    next
      case True
      then have tb': "pending mx [] after tb' st2" "allocs sb' = []" "trx_loop select ir junk (ps @ (t # ts) @ [e]) pn st = trx_loop select ir junk (t # ?after) pn sb'" for after st2
        using res pending_none Cons.prems(4) by auto
      from pk(2) show ?thesis
      proof (elim disjE conjE)
        assume o: "pr = gbOTHER" "fits mx t"
        have "pack_outcome mx t [] ?after tb' sb'" by (rule pack_log_entry [OF tb'(1,2) t(1)])
        then obtain tb2 where tb2: "Pack_item t ?after tb' sb' = Some (gbGOOD, tb2, sb')" "pending mx [t] ?after tb2 sb'"
          using o(2) unfolding pack_outcome_def by auto
        show ?thesis using Cons.IH [OF tb2(2) t(3) hz(2) tb'(2)] tb'(3) pk(1) o(1) ship True tb2(1) t(2) by (simp add: BAD_def GOOD_def)
      next
        assume b: "pr = gbBAD" "bundle_entry t"
        obtain r3 st3 where r3: "BUS_transaction_single select ir junk t pn sb' = Some (r3, st3)" "r3 \<noteq> 2" "allocs st3 = allocs sb'"
          using entry_single [OF ir b(2), of select junk pn sb'] by blast
        show ?thesis
        proof (cases "r3 = 0")
          case True
          then show ?thesis using Cons.IH [OF tb'(1) t(3) _, of st3] hz(3) tb'(2,3) pk(1) b(1) ship \<open>r = gbGOOD\<close> r3 t(2) by (simp add: BAD_def GOOD_def)
        next
          case False
          then show ?thesis using tb'(3) pk(1) b(1) ship \<open>r = gbGOOD\<close> r3 t(2) by (simp add: BAD_def GOOD_def same_outcome_def)
        qed
      qed
    qed
  qed
qed

section \<open>Properties\<close>

text \<open>
  C16: bundling is an optimisation only. Take a log of selections, writes, reads, read-modify exchanges, comparisons and CRC16 checks, in any number and
  order, in which nothing is sent from memory that an earlier entry reads into. A selection behind the first entry of a bundle and an entry that does not fit any more flush
  the bundle and start the next one; an entry longer than the longest bundle is run by itself. On an adapter that exchanges
  bytes in order and does not fail, with memory for the bundles, the bundled run reports success exactly when the entry-by-entry run does, and then leaves
  the same memory, the same bus and the same counters.
\<close>
theorem bundle_equivalent:
  assumes "byte_adapter ir step" and "ir_flags ir AND ADAP_FLAG_bundle \<noteq> 0"
    and "list_all log_entry ts" and "hazard_free ts" and "t_type e = trxn_end" and "allocs st = []"
    and "\<forall>pn c. fst (select pn c) \<noteq> gbOTHER"
  shows "\<exists>r st' r' sb'. trx_loop select ir junk (ts @ [e]) pn st = Some (r, st')
    \<and> BUS_transaction_nolock select ir junk (ts @ [e]) pn st = Some (r', sb')
    \<and> (r' = 0 \<longleftrightarrow> r = 0) \<and> (r = 0 \<longrightarrow> sb' = st')"
  using bundles_agree [OF assms(1,7,5) pending_none [OF packed_init [of ir]] assms(3) _ assms(6)] assms(2,4)
  by (simp add: same_outcome_def BUS_transaction_nolock_def Bundle_pack_def)

text \<open>Two selections, a write and a read that do not fit one bundle of four bytes, and an exchange that is longer than any bundle.\<close>

definition echo_adapter :: "byte list interface_routines" where
  "echo_adapter = no_routines\<lparr>ir_flags := 0x1000, ir_bundling_length := 4, ir_sendback_data :=
     Some (\<lambda>data pn c. (gbGOOD, fst (stream (\<lambda>b h. (b, h @ [b])) data (hardware c)),
       c\<lparr>hardware := snd (stream (\<lambda>b h. (b, h @ [b])) data (hardware c))\<rparr>))\<rparr>"

definition sample_log :: "transaction_log list" where
  "sample_log =
     [\<lparr>t_out = None, t_in = None, t_size = 0, t_type = trxn_select\<rparr>,
      \<lparr>t_out = Some 0, t_in = None, t_size = 2, t_type = trxn_match\<rparr>,
      \<lparr>t_out = None, t_in = Some 10, t_size = 3, t_type = trxn_read\<rparr>,
      \<lparr>t_out = None, t_in = None, t_size = 0, t_type = trxn_select\<rparr>,
      \<lparr>t_out = Some 0, t_in = Some 20, t_size = 5, t_type = trxn_modify\<rparr>]"

theorem bundle_equivalent_witness:
  "\<exists>r st' r' sb'.
     trx_loop (\<lambda>pn c. (gbGOOD, c)) echo_adapter (\<lambda>_. 0) (sample_log @ [\<lparr>t_out = None, t_in = None, t_size = 0, t_type = trxn_end\<rparr>])
       \<lparr>pn_sn = [], pn_bp = [], pn_has_device = False\<rparr> \<lparr>mem = (\<lambda>_. 0xBE), conn = initial_connection [], allocs = []\<rparr> = Some (r, st')
   \<and> BUS_transaction_nolock (\<lambda>pn c. (gbGOOD, c)) echo_adapter (\<lambda>_. 0) (sample_log @ [\<lparr>t_out = None, t_in = None, t_size = 0, t_type = trxn_end\<rparr>])
       \<lparr>pn_sn = [], pn_bp = [], pn_has_device = False\<rparr> \<lparr>mem = (\<lambda>_. 0xBE), conn = initial_connection [], allocs = []\<rparr> = Some (r', sb')
   \<and> (r' = 0 \<longleftrightarrow> r = 0) \<and> (r = 0 \<longrightarrow> sb' = st')"
proof -
  have "byte_adapter echo_adapter (\<lambda>b h. (b, h @ [b]))" by (simp add: byte_adapter_def echo_adapter_def no_routines_def)
  then show ?thesis
    by (rule bundle_equivalent)
      (simp_all add: echo_adapter_def ADAP_FLAG_bundle_def no_routines_def sample_log_def log_entry_def bundle_entry_def no_overlap_def sends_def)
qed

text \<open>
  An unbundled CRC8 entry whose residue is 2 ends the transaction as a success: the residue is stored
  in a \<^verbatim>\<open>GOOD_OR_BAD\<close> variable, where 2 is the marker of \<^verbatim>\<open>trxn_end\<close>. The entries after it are never run.
\<close>
theorem crc8_residue_two_is_success:
  assumes "ir_flags ir AND ADAP_FLAG_bundle = 0" and "t_type t = trxn_crc8" and "t_out t = Some a"
    and "CRC8compute (mem_read (mem st) a (t_size t)) 0 = 2"
  shows "\<exists>st'. BUS_transaction_nolock select ir junk (t # ts) pn st = Some (gb_int gbGOOD, st')
    \<and> CRC8_errors (crc_counters (conn st')) = CRC8_errors (crc_counters (conn st)) + 1
    \<and> mem st' = mem st \<and> hardware (conn st') = hardware (conn st)"
  using assms
  by (simp add: BUS_transaction_nolock_def BUS_transaction_single_def trx_crc_def ptr_read_def CRC8_def
      CRC8seeded_def Let_def)

theorem crc8_residue_two_is_success_witness:
  "\<exists>st'. BUS_transaction_nolock (\<lambda>pn c. (gbGOOD, c)) (no_routines :: unit interface_routines) (\<lambda>_. 0)
      [\<lparr>t_out = Some 0, t_in = None, t_size = 1, t_type = trxn_crc8\<rparr>]
      \<lparr>pn_sn = [], pn_bp = [], pn_has_device = False\<rparr>
      \<lparr>mem = (\<lambda>_. 50), conn = initial_connection (), allocs = []\<rparr> = Some (gb_int gbGOOD, st')"
  using crc8_residue_two_is_success [of "no_routines :: unit interface_routines"
      "\<lparr>t_out = Some 0, t_in = None, t_size = 1, t_type = trxn_crc8\<rparr>" 0
      "\<lparr>mem = (\<lambda>_. 50), conn = initial_connection (), allocs = []\<rparr>" "\<lambda>pn c. (gbGOOD, c)" "\<lambda>_. 0" "[]"
      "\<lparr>pn_sn = [], pn_bp = [], pn_has_device = False\<rparr>"]
  by (auto simp: no_routines_def mem_read_def CRC8compute_def crc8_step_def crc8_table_def)

definition stamping_send :: "(byte \<times> nat) list sendback" where
  "stamping_send data pn c =
     (gbGOOD, data, c\<lparr>hardware := hardware c @ map (\<lambda>b. (b, ms_delayed c)) data\<rparr>)"

definition stamping_routines :: "uint \<Rightarrow> (byte \<times> nat) list interface_routines" where
  "stamping_routines flags = no_routines\<lparr>ir_flags := flags, ir_bundling_length := 100, ir_sendback_data := Some stamping_send\<rparr>"

text \<open>
  A delay between two exchanges is not honoured in a bundle: on an adapter that stamps each byte with
  the time slept so far, the write, delay, read sequence has the read after the delay when run entry by
  entry, and before it when bundled.
\<close>

theorem bundle_postpones_delay:
  "map_option (\<lambda>(r, st). (r, hardware (conn st), ms_delayed (conn st)))
     (BUS_transaction_nolock select (stamping_routines 0) junk
       [\<lparr>t_out = Some 0, t_in = None, t_size = 1, t_type = trxn_match\<rparr>,
        \<lparr>t_out = None, t_in = None, t_size = ms, t_type = trxn_delay\<rparr>,
        \<lparr>t_out = None, t_in = Some 1, t_size = 1, t_type = trxn_read\<rparr>,
        \<lparr>t_out = None, t_in = None, t_size = 0, t_type = trxn_end\<rparr>] pn
       \<lparr>mem = m, conn = initial_connection [], allocs = []\<rparr>) = Some (0, [(m 0, 0), (0xFF, ms)], ms)
   \<and> map_option (\<lambda>(r, st). (r, hardware (conn st), ms_delayed (conn st)))
     (BUS_transaction_nolock select (stamping_routines ADAP_FLAG_bundle) junk
       [\<lparr>t_out = Some 0, t_in = None, t_size = 1, t_type = trxn_match\<rparr>,
        \<lparr>t_out = None, t_in = None, t_size = ms, t_type = trxn_delay\<rparr>,
        \<lparr>t_out = None, t_in = Some 1, t_size = 1, t_type = trxn_read\<rparr>,
        \<lparr>t_out = None, t_in = None, t_size = 0, t_type = trxn_end\<rparr>] pn
       \<lparr>mem = m, conn = initial_connection [], allocs = []\<rparr>) = Some (0, [(m 0, 0), (0xFF, 0)], ms)"
  by (simp_all add: BUS_transaction_nolock_def stamping_routines_def stamping_send_def no_routines_def
      ADAP_FLAG_bundle_def BUS_transaction_single_def on_conn_def on_conn_resp_def BUS_send_data_def
      BUS_readin_data_def BUS_sendback_data_def ptr_read_def ptr_write_def mem_read_def trx_good_def UT_delay_def
      initial_connection_def Bundle_pack_def Bundle_init_def Pack_item_def pack_bytes_def pack_add_def pack_room_def
      next_alloc_def MemblobAdd_def MemblobIncrease_def MemblobInit_def MemblobLength_def mb_poke_def
      owrealloc_def blk_store_def Bundle_ship_def Bundle_enroute_def bundle_data_def MemblobData_def blk_load_def
      Bundle_unpack_def unpack_item_def Let_def)

end
