(* ===== verification/OW_Select.thy ===== *)
theory OW_Select
  imports OW_Transaction
begin

text \<open>
  \<^verbatim>\<open>ow_select.c\<close>: reset the bus, open the DS2409 hubs on the way to a branch, and address one slave.
  The transactions it runs contain no selection themselves, so the interpreter gets a selector that is
  never called. Their local arrays live at fixed addresses of a fresh memory.
\<close>

definition MATCH_ROM :: byte where "MATCH_ROM = 0x55"
definition OVERDRIVE_MATCH_ROM :: byte where "OVERDRIVE_MATCH_ROM = 0x69"
definition SKIP_ROM :: byte where "SKIP_ROM = 0xCC"
definition OVERDRIVE_SKIP_ROM :: byte where "OVERDRIVE_SKIP_ROM = 0x3C"
definition ALL_LINES_OFF :: byte where "ALL_LINES_OFF = 0x66"
definition SMART_ON_MAIN :: byte where "SMART_ON_MAIN = 0xCC"
definition SMART_ON_AUX :: byte where "SMART_ON_AUX = 0x33"

lemmas rom_commands = MATCH_ROM_def OVERDRIVE_MATCH_ROM_def SKIP_ROM_def OVERDRIVE_SKIP_ROM_def
  ALL_LINES_OFF_def SMART_ON_MAIN_def SMART_ON_AUX_def

text \<open>The entry macros of \<^verbatim>\<open>ow_transaction.h\<close>.\<close>

definition TRXN_RESET :: transaction_log where
  "TRXN_RESET = \<lparr>t_out = None, t_in = None, t_size = 0, t_type = trxn_reset\<rparr>"
definition TRXN_END :: transaction_log where
  "TRXN_END = \<lparr>t_out = None, t_in = None, t_size = 0, t_type = trxn_end\<rparr>"
definition TRXN_WRITE :: "nat \<Rightarrow> nat \<Rightarrow> transaction_log" where
  "TRXN_WRITE writedata len = \<lparr>t_out = Some writedata, t_in = None, t_size = len, t_type = trxn_match\<rparr>"
definition TRXN_READ :: "nat \<Rightarrow> nat \<Rightarrow> transaction_log" where
  "TRXN_READ readdata len = \<lparr>t_out = None, t_in = Some readdata, t_size = len, t_type = trxn_read\<rparr>"
definition TRXN_COMPARE :: "nat \<Rightarrow> nat \<Rightarrow> nat \<Rightarrow> transaction_log" where
  "TRXN_COMPARE data1 data2 len = \<lparr>t_out = Some data1, t_in = Some data2, t_size = len, t_type = trxn_compare\<rparr>"

lemmas trxn_macros = TRXN_RESET_def TRXN_END_def TRXN_WRITE_def TRXN_READ_def TRXN_COMPARE_def

definition no_select :: "'b selector" where
  "no_select pn c = (gbBAD, c)"

text \<open>Run a transaction over local arrays, laid out from address 0.\<close>

definition local_transaction ::
  "'b interface_routines \<Rightarrow> byte list \<Rightarrow> transaction_log list \<Rightarrow> bus_pn \<Rightarrow> 'b connection_in \<Rightarrow>
     (int \<times> 'b trx_state) option" where
  "local_transaction ir arrays t pn c =
     BUS_transaction_nolock no_select ir (\<lambda>_. 0) t pn
       \<lparr>mem = mem_write 0 arrays (\<lambda>_. 0), conn = c, allocs = []\<rparr>"

text \<open>
  Its outcome as a \<^verbatim>\<open>GOOD_OR_BAD\<close>. The logs below use only resets, writes, reads and comparisons with the
  pointers the macros give them; a master that does not bundle never runs into undefined behaviour on
  such a log (\<open>local_transaction_defined\<close>).
\<close>

definition gb_transaction ::
  "'b interface_routines \<Rightarrow> byte list \<Rightarrow> transaction_log list \<Rightarrow> bus_pn \<Rightarrow> 'b connection_in \<Rightarrow> GOOD_OR_BAD \<times> 'b connection_in" where
  "gb_transaction ir arrays t pn c =
     (case local_transaction ir arrays t pn c of
        None \<Rightarrow> (gbBAD, c)
      | Some (ret, st) \<Rightarrow> (if ret = 0 then gbGOOD else gbBAD, conn st))"

definition BUS_Skip_Rom ::
  "'b interface_routines \<Rightarrow> bus_pn \<Rightarrow> 'b connection_in \<Rightarrow> GOOD_OR_BAD \<times> 'b connection_in" where
  "BUS_Skip_Rom ir pn c =
     (let skip = [if overdrive c then OVERDRIVE_SKIP_ROM else SKIP_ROM]
      in gb_transaction ir skip [TRXN_RESET, TRXN_WRITE 0 1, TRXN_END] pn c)"

definition Turnoff ::
  "'b interface_routines \<Rightarrow> bus_pn \<Rightarrow> 'b connection_in \<Rightarrow> GOOD_OR_BAD \<times> 'b connection_in" where
  "Turnoff ir pn c =
     (let sent = [SKIP_ROM, ALL_LINES_OFF]
      in gb_transaction ir sent [TRXN_WRITE 0 2, TRXN_READ 2 1, TRXN_END] pn c)"

definition BUS_select_branch ::
  "'b interface_routines \<Rightarrow> ds2409_hubs \<Rightarrow> bus_pn \<Rightarrow> 'b connection_in \<Rightarrow> GOOD_OR_BAD \<times> 'b connection_in" where
  "BUS_select_branch ir bp pn c =
     (case (case hub_branch bp of eBranch_main \<Rightarrow> Some SMART_ON_MAIN | eBranch_aux \<Rightarrow> Some SMART_ON_AUX | _ \<Rightarrow> None) of
        None \<Rightarrow> (gbBAD, c)
      | Some smart_on \<Rightarrow>
          (let sent = MATCH_ROM # take 8 (hub_sn bp) @ [smart_on, 0xFF];
               (ret, c) = gb_transaction ir sent [TRXN_WRITE 0 11, TRXN_READ 11 2, TRXN_COMPARE 9 12 1, TRXN_END] pn c
           in if BAD ret then (gbBAD, STAT_ADD1_BUS e_bus_select_errors c) else (gbGOOD, c)))"

definition BUS_select_device ::
  "'b interface_routines \<Rightarrow> byte \<Rightarrow> bus_pn \<Rightarrow> 'b connection_in \<Rightarrow> GOOD_OR_BAD \<times> 'b connection_in" where
  "BUS_select_device ir select_byte pn c =
     (let sent = select_byte # take 8 (pn_sn pn);
          (ret, c) = gb_transaction ir sent [TRXN_WRITE 0 9, TRXN_END] pn c
      in if BAD ret then (gbBAD, STAT_ADD1_BUS e_bus_select_errors c) else (gbGOOD, c))"

fun select_branches ::
  "'b interface_routines \<Rightarrow> ds2409_hubs list \<Rightarrow> bus_pn \<Rightarrow> 'b connection_in \<Rightarrow> GOOD_OR_BAD \<times> 'b connection_in" where
  "select_branches ir [] pn c = (gbGOOD, c)"
| "select_branches ir (bp # bps) pn c =
     (case BUS_select_branch ir bp pn c of (ret, c) \<Rightarrow>
        if BAD ret then (gbBAD, c) else select_branches ir bps pn c)"

definition BUS_select_branched_path ::
  "'b interface_routines \<Rightarrow> bus_pn \<Rightarrow> 'b connection_in \<Rightarrow> GOOD_OR_BAD \<times> 'b connection_in" where
  "BUS_select_branched_path ir pn c =
     (case BUS_reset ir pn c of (r, c) \<Rightarrow>
        if BAD (gbRESET r) then (gbBAD, c) else select_branches ir (pn_bp pn) pn c)"

text \<open>Turn off the hubs level by level, from the root to the requested depth.\<close>

fun turnoff_levels ::
  "'b interface_routines \<Rightarrow> nat list \<Rightarrow> bus_pn \<Rightarrow> 'b connection_in \<Rightarrow> GOOD_OR_BAD \<times> 'b connection_in" where
  "turnoff_levels ir [] pn c = (gbGOOD, c)"
| "turnoff_levels ir (level # levels) pn c =
     (case BUS_reset ir pn c of (r, c) \<Rightarrow>
        if BAD (gbRESET r) then (gbBAD, c)
        else (case select_branches ir (take level (pn_bp pn)) pn c of (ret, c) \<Rightarrow>
          if BAD ret then (gbBAD, c)
          else (case Turnoff ir pn c of (ret, c) \<Rightarrow>
            if BAD ret then (gbBAD, c) else turnoff_levels ir levels pn c)))"

definition BUS_clear_this_path ::
  "'b interface_routines \<Rightarrow> bus_pn \<Rightarrow> 'b connection_in \<Rightarrow> GOOD_OR_BAD \<times> 'b connection_in" where
  "BUS_clear_this_path ir pn c =
     (case turnoff_levels ir [0..<ds2409_depth pn + 1] pn c of (ret, c) \<Rightarrow>
        if BAD ret then (gbBAD, c)
        else (gbGOOD, c\<lparr>branch := (branch c)\<lparr>hub_branch := eBranch_cleared\<rparr>\<rparr>))"

definition AdapterSupports2409 :: "'b interface_routines \<Rightarrow> bool" where
  "AdapterSupports2409 ir \<longleftrightarrow> ir_flags ir AND ADAP_FLAG_no2409path = 0"

text \<open>Clearing before the path is opened: \<open>Inl\<close> is the early return.\<close>

definition select_prepare ::
  "'b interface_routines \<Rightarrow> bus_pn \<Rightarrow> 'b connection_in \<Rightarrow> 'b connection_in + (byte \<times> 'b connection_in)" where
  "select_prepare ir pn c =
     (if RootNotBranch pn then
        case (if hub_branch (branch c) \<noteq> eBranch_cleared then BUS_clear_this_path ir pn c else (gbGOOD, c)) of
          (ret, c) \<Rightarrow>
            if BAD ret then Inl c
            else Inr (if overdrive c then OVERDRIVE_MATCH_ROM else MATCH_ROM, c)
      else
        let last_hub = last (pn_bp pn) in
        if hub_sn (branch c) \<noteq> hub_sn last_hub \<or> hub_branch (branch c) \<noteq> hub_branch last_hub
        then (case BUS_clear_this_path ir pn c of (_, c) \<Rightarrow> Inr (MATCH_ROM, c\<lparr>branch := last_hub\<rparr>))
        else Inr (MATCH_ROM, c))"

definition BUS_select ::
  "'b interface_routines \<Rightarrow> bus_pn \<Rightarrow> 'b connection_in \<Rightarrow> GOOD_OR_BAD \<times> 'b connection_in" where
  "BUS_select ir pn c =
     (if ir_bus_is_server ir then (gbBAD, c)
      else if ir_one_device ir then BUS_Skip_Rom ir pn c
      else if \<not> RootNotBranch pn \<and> \<not> AdapterSupports2409 ir then (gbBAD, c)
      else case ir_select ir of
        Some select \<Rightarrow> select pn c
      | None \<Rightarrow>
          (case select_prepare ir pn c of
             Inl c \<Rightarrow> (gbBAD, c)
           | Inr (select_byte, c) \<Rightarrow>
               (case BUS_select_branched_path ir pn c of (ret, c) \<Rightarrow>
                  if BAD ret then (gbBAD, c\<lparr>branch := (branch c)\<lparr>hub_branch := eBranch_bad\<rparr>\<rparr>)
                  else if pn_has_device pn then
                    (case BUS_select_device ir select_byte pn c of (ret, c) \<Rightarrow>
                       if BAD ret then (gbBAD, c) else (gbGOOD, c))
                  else (gbGOOD, c))))"

section \<open>Local transactions are defined\<close>

definition local_entry :: "transaction_log \<Rightarrow> bool" where
  "local_entry t \<longleftrightarrow> t = TRXN_RESET \<or> (\<exists>a n. t = TRXN_WRITE a n) \<or> (\<exists>a n. t = TRXN_READ a n)
     \<or> (\<exists>a b n. t = TRXN_COMPARE a b n)"

lemma single_local_defined:
  assumes "local_entry t"
  shows "BUS_transaction_single select ir junk t pn st \<noteq> None"
proof -
  consider "t = TRXN_RESET" | a n where "t = TRXN_WRITE a n" | a n where "t = TRXN_READ a n"
    | a b n where "t = TRXN_COMPARE a b n"
    using assms by (auto simp: local_entry_def)
  then show ?thesis
    by cases (simp_all add: BUS_transaction_single_def trxn_macros trx_good_def ptr_read_def split_beta)
qed

lemma trx_loop_local_defined:
  "list_all local_entry ts \<Longrightarrow> trx_loop select ir junk (ts @ [TRXN_END]) pn st \<noteq> None"
proof (induction ts arbitrary: st)
  case Nil
  then show ?case by (simp add: BUS_transaction_single_def TRXN_END_def)
next
  case (Cons t ts)
  then show ?case using single_local_defined [of t select ir junk pn st] by auto
qed

lemma local_transaction_defined:
  "list_all local_entry ts \<Longrightarrow> ir_flags ir AND ADAP_FLAG_bundle = 0 \<Longrightarrow>
     local_transaction ir arrays (ts @ [TRXN_END]) pn c \<noteq> None"
  by (simp add: local_transaction_def BUS_transaction_nolock_def trx_loop_local_defined)

section \<open>What goes over the wire\<close>

datatype wire_event = Reset | Byte byte

text \<open>
  A byte-level master that records resets and bytes. Slaves follow the master, and a hub confirms: a two-byte
  read returns the smart-on command, which was sent last but one.
\<close>

definition hub_reply :: "byte list \<Rightarrow> wire_event list \<Rightarrow> byte list" where
  "hub_reply data sent =
     (if data = [0xFF, 0xFF] \<and> 2 \<le> length sent
      then (case sent ! (length sent - 2) of Byte b \<Rightarrow> [0xFF, b] | Reset \<Rightarrow> data) else data)"

definition hub_send :: "wire_event list sendback" where
  "hub_send data pn c = (gbGOOD, hub_reply data (hardware c), c\<lparr>hardware := hardware c @ map Byte data\<rparr>)"

definition hub_reset :: "bus_pn \<Rightarrow> wire_event list connection_in \<Rightarrow> RESET_TYPE \<times> wire_event list connection_in" where
  "hub_reset pn c = (BUS_RESET_OK, c\<lparr>hardware := hardware c @ [Reset]\<rparr>)"

definition hub_routines :: "wire_event list interface_routines" where
  "hub_routines = no_routines\<lparr>ir_reset := Some hub_reset, ir_sendback_data := Some hub_send\<rparr>"

text \<open>The intended sequences: a hub, the path of hubs, the levels to switch off, the device.\<close>

definition smart_on :: "ds2409_branch \<Rightarrow> byte" where
  "smart_on b = (if b = eBranch_aux then SMART_ON_AUX else SMART_ON_MAIN)"

definition hub_trace :: "ds2409_hubs \<Rightarrow> wire_event list" where
  "hub_trace bp = map Byte (MATCH_ROM # hub_sn bp @ [smart_on (hub_branch bp), 0xFF, 0xFF, 0xFF])"

definition path_trace :: "ds2409_hubs list \<Rightarrow> wire_event list" where
  "path_trace bps = Reset # concat (map hub_trace bps)"

definition clear_trace :: "ds2409_hubs list \<Rightarrow> wire_event list" where
  "clear_trace bps =
     concat (map (\<lambda>level. path_trace (take level bps) @ map Byte [SKIP_ROM, ALL_LINES_OFF, 0xFF]) [0..<length bps + 1])"

definition hub_valid :: "ds2409_hubs \<Rightarrow> bool" where
  "hub_valid bp \<longleftrightarrow> length (hub_sn bp) = 8 \<and> hub_branch bp \<in> {eBranch_main, eBranch_aux}"

definition sent_more :: "wire_event list connection_in \<Rightarrow> wire_event list \<Rightarrow> wire_event list connection_in \<Rightarrow> bool" where
  "sent_more c evs c' \<longleftrightarrow> hardware c' = hardware c @ evs \<and> branch c' = branch c \<and> overdrive c' = overdrive c"

lemma sent_more_trans: "sent_more c evs c1 \<Longrightarrow> sent_more c1 evs' c2 \<Longrightarrow> sent_more c (evs @ evs') c2"
  by (simp add: sent_more_def)

lemma mem_read_0_prefix: "n \<le> length xs \<Longrightarrow> mem_read (mem_write 0 xs m) 0 n = take n xs"
  by (rule nth_equalityI) (simp_all add: mem_read_def mem_write_def)

lemmas run_simps = gb_transaction_def local_transaction_def BUS_transaction_nolock_def BUS_transaction_single_def
  on_conn_def on_conn_resp_def BUS_send_data_def BUS_readin_data_def BUS_sendback_data_def ptr_read_def
  trx_good_def trx_memcmp_def hub_routines_def no_routines_def hub_send_def hub_reply_def trxn_macros Let_def

lemma Turnoff_trace:
  "\<exists>c'. Turnoff hub_routines pn c = (gbGOOD, c') \<and> sent_more c (map Byte [SKIP_ROM, ALL_LINES_OFF, 0xFF]) c'"
  by (simp add: Turnoff_def run_simps rom_commands mem_read_def mem_write_def sent_more_def upt_rec)

lemma select_device_trace:
  assumes "length (pn_sn pn) = 8"
  shows "\<exists>c'. BUS_select_device hub_routines b pn c = (gbGOOD, c') \<and> sent_more c (map Byte (b # pn_sn pn)) c'"
  using assms mem_read_0_prefix [of 9 "b # pn_sn pn"]
  by (auto simp add: BUS_select_device_def run_simps sent_more_def)

lemma select_branch_trace:
  assumes "hub_valid bp"
  shows "\<exists>c'. BUS_select_branch hub_routines bp pn c = (gbGOOD, c') \<and> sent_more c (hub_trace bp) c'"
proof -
  let ?so = "smart_on (hub_branch bp)"
  let ?sent = "MATCH_ROM # take 8 (hub_sn bp) @ [?so, 0xFF]"
  have len: "length (hub_sn bp) = 8" using assms by (simp add: hub_valid_def)
  have all: "mem_read (mem_write 0 ?sent (\<lambda>_. 0)) 0 11 = ?sent"
    using mem_read_0_prefix [of 11 ?sent] len by simp
  have cmp: "mem_read (mem_write 11 [0xFF, ?so] (mem_write 0 ?sent (\<lambda>_. 0))) 12 1 = [?so]"
      "mem_read (mem_write 11 [0xFF, ?so] (mem_write 0 ?sent (\<lambda>_. 0))) 9 1 = [?so]"
    using len by (simp_all add: mem_read_def mem_write_def nth_append)
  have br: "(case hub_branch bp of eBranch_main \<Rightarrow> Some SMART_ON_MAIN | eBranch_aux \<Rightarrow> Some SMART_ON_AUX | _ \<Rightarrow> None) = Some ?so"
    using assms by (auto simp: hub_valid_def smart_on_def)
  have "\<exists>c'. gb_transaction hub_routines ?sent [TRXN_WRITE 0 11, TRXN_READ 11 2, TRXN_COMPARE 9 12 1, TRXN_END] pn c
      = (gbGOOD, c') \<and> sent_more c (hub_trace bp) c'"
    using all cmp len
    by (simp add: run_simps sent_more_def hub_trace_def numeral_2_eq_2 nth_append)
  then show ?thesis by (auto simp: BUS_select_branch_def br)
qed

lemma select_branches_trace:
  assumes "list_all hub_valid bps"
  shows "\<exists>c'. select_branches hub_routines bps pn c = (gbGOOD, c') \<and> sent_more c (concat (map hub_trace bps)) c'"
  using assms
proof (induction bps arbitrary: c)
  case Nil
  then show ?case by (simp add: sent_more_def)
next
  case (Cons bp bps)
  obtain c1 where c1: "BUS_select_branch hub_routines bp pn c = (gbGOOD, c1)" "sent_more c (hub_trace bp) c1"
    using select_branch_trace [of bp pn c] Cons.prems by auto
  obtain c2 where "select_branches hub_routines bps pn c1 = (gbGOOD, c2)" "sent_more c1 (concat (map hub_trace bps)) c2"
    using Cons.IH [of c1] Cons.prems by auto
  then show ?case using c1 sent_more_trans by auto
qed

lemma reset_trace:
  "\<exists>c'. BUS_reset hub_routines pn c = (BUS_RESET_OK, c') \<and> sent_more c [Reset] c'"
  by (auto simp: BUS_reset_def hub_routines_def no_routines_def hub_reset_def STAT_ADD1_BUS_def UT_delay_def sent_more_def Let_def)

lemma gbRESET_OK [simp]: "gbRESET BUS_RESET_OK = gbGOOD"
  by (simp add: gbRESET_def)

lemma branched_path_trace:
  assumes "list_all hub_valid (pn_bp pn)"
  shows "\<exists>c'. BUS_select_branched_path hub_routines pn c = (gbGOOD, c') \<and> sent_more c (path_trace (pn_bp pn)) c'"
proof -
  obtain c1 where c1: "BUS_reset hub_routines pn c = (BUS_RESET_OK, c1)" "sent_more c [Reset] c1"
    using reset_trace by blast
  obtain c2 where c2: "select_branches hub_routines (pn_bp pn) pn c1 = (gbGOOD, c2)"
      "sent_more c1 (concat (map hub_trace (pn_bp pn))) c2"
    using select_branches_trace [OF assms] by blast
  show ?thesis using c1 c2 sent_more_trans [OF c1(2) c2(2)]
    by (simp add: BUS_select_branched_path_def path_trace_def)
qed

lemma turnoff_levels_trace:
  assumes "list_all hub_valid (pn_bp pn)"
  shows "\<exists>c'. turnoff_levels hub_routines levels pn c = (gbGOOD, c')
    \<and> sent_more c (concat (map (\<lambda>level. path_trace (take level (pn_bp pn)) @ map Byte [SKIP_ROM, ALL_LINES_OFF, 0xFF]) levels)) c'"
proof (induction levels arbitrary: c)
  case Nil
  then show ?case by (simp add: sent_more_def)
next
  case (Cons level levels)
  have v: "list_all hub_valid (take level (pn_bp pn))"
    using assms by (auto simp: list_all_iff dest: in_set_takeD)
  obtain c1 where c1: "BUS_reset hub_routines pn c = (BUS_RESET_OK, c1)" "sent_more c [Reset] c1"
    using reset_trace by blast
  obtain c2 where c2: "select_branches hub_routines (take level (pn_bp pn)) pn c1 = (gbGOOD, c2)"
      "sent_more c1 (concat (map hub_trace (take level (pn_bp pn)))) c2"
    using select_branches_trace [OF v] by blast
  obtain c3 where c3: "Turnoff hub_routines pn c2 = (gbGOOD, c3)" "sent_more c2 (map Byte [SKIP_ROM, ALL_LINES_OFF, 0xFF]) c3"
    using Turnoff_trace by blast
  obtain c4 where c4: "turnoff_levels hub_routines levels pn c3 = (gbGOOD, c4)"
      "sent_more c3 (concat (map (\<lambda>level. path_trace (take level (pn_bp pn)) @ map Byte [SKIP_ROM, ALL_LINES_OFF, 0xFF]) levels)) c4"
    using Cons.IH by blast
  show ?case
    using c1 c2 c3 c4 sent_more_trans [OF sent_more_trans [OF sent_more_trans [OF c1(2) c2(2)] c3(2)] c4(2)]
    by (simp add: path_trace_def)
qed

lemma clear_path_trace:
  assumes "list_all hub_valid (pn_bp pn)"
  shows "\<exists>c'. BUS_clear_this_path hub_routines pn c = (gbGOOD, c') \<and> hardware c' = hardware c @ clear_trace (pn_bp pn)
    \<and> branch c' = (branch c)\<lparr>hub_branch := eBranch_cleared\<rparr> \<and> overdrive c' = overdrive c"
proof -
  obtain c1 where c1: "turnoff_levels hub_routines [0..<ds2409_depth pn + 1] pn c = (gbGOOD, c1)"
      "sent_more c (clear_trace (pn_bp pn)) c1"
    using turnoff_levels_trace [OF assms, of "[0..<ds2409_depth pn + 1]" c]
    by (auto simp: clear_trace_def ds2409_depth_def)
  then show ?thesis by (auto simp: BUS_clear_this_path_def sent_more_def)
qed

section \<open>Properties\<close>

text \<open>When the hubs have to be switched off first.\<close>

definition needs_clear :: "bus_pn \<Rightarrow> ds2409_hubs \<Rightarrow> bool" where
  "needs_clear pn remembered \<longleftrightarrow>
     (if pn_bp pn = [] then hub_branch remembered \<noteq> eBranch_cleared
      else hub_sn remembered \<noteq> hub_sn (last (pn_bp pn)) \<or> hub_branch remembered \<noteq> hub_branch (last (pn_bp pn)))"

text \<open>
  C23: on a bus whose hubs confirm, \<^verbatim>\<open>BUS_select\<close> succeeds and drives exactly the documented sequence: if the
  remembered branch is another one, every level of hubs is switched off, from the root down, each time
  re-opening the path above it; then a reset, the hubs of the path in order, and the match-ROM command with
  the serial number when a device is wanted. Afterwards the remembered branch is the one requested, or
  the cleared root.
\<close>
theorem BUS_select_drives_path:
  assumes "list_all hub_valid (pn_bp pn)" and "pn_has_device pn \<Longrightarrow> length (pn_sn pn) = 8" and "\<not> overdrive c"
  shows "\<exists>c'. BUS_select hub_routines pn c = (gbGOOD, c')
    \<and> hardware c' = hardware c @ (if needs_clear pn (branch c) then clear_trace (pn_bp pn) else [])
        @ path_trace (pn_bp pn) @ (if pn_has_device pn then map Byte (MATCH_ROM # pn_sn pn) else [])
    \<and> (if pn_bp pn = [] then hub_branch (branch c') = eBranch_cleared
       else hub_sn (branch c') = hub_sn (last (pn_bp pn)) \<and> hub_branch (branch c') = hub_branch (last (pn_bp pn)))"
proof -
  obtain c1 where c1: "select_prepare hub_routines pn c = Inr (MATCH_ROM, c1)"
      "hardware c1 = hardware c @ (if needs_clear pn (branch c) then clear_trace (pn_bp pn) else [])"
      "if pn_bp pn = [] then hub_branch (branch c1) = eBranch_cleared
       else hub_sn (branch c1) = hub_sn (last (pn_bp pn)) \<and> hub_branch (branch c1) = hub_branch (last (pn_bp pn))"
    using clear_path_trace [OF assms(1), of c] assms(3)
    by (cases "needs_clear pn (branch c)")
      (auto simp: select_prepare_def RootNotBranch_def ds2409_depth_def needs_clear_def split: if_splits)
  obtain c2 where c2: "BUS_select_branched_path hub_routines pn c1 = (gbGOOD, c2)" "sent_more c1 (path_trace (pn_bp pn)) c2"
    using branched_path_trace [OF assms(1)] by blast
  obtain c3 where c3: "pn_has_device pn \<Longrightarrow> BUS_select_device hub_routines MATCH_ROM pn c2 = (gbGOOD, c3)"
      "pn_has_device pn \<Longrightarrow> sent_more c2 (map Byte (MATCH_ROM # pn_sn pn)) c3"
    using select_device_trace [of pn MATCH_ROM c2] assms(2) by blast
  have ir: "\<not> ir_bus_is_server hub_routines" "\<not> ir_one_device hub_routines" "AdapterSupports2409 hub_routines"
      "ir_select hub_routines = None"
    by (simp_all add: hub_routines_def no_routines_def AdapterSupports2409_def)
  show ?thesis
    using c1 c2 c3 ir by (cases "pn_has_device pn") (auto simp: BUS_select_def sent_more_def split: if_splits)
qed

theorem BUS_select_drives_path_witness:
  "\<exists>c'. BUS_select hub_routines \<lparr>pn_sn = [0x28,1,2,3,4,5,6,7],
       pn_bp = [\<lparr>hub_sn = [0x1F,1,2,3,4,5,6,7], hub_branch = eBranch_aux\<rparr>], pn_has_device = True\<rparr>
       (initial_connection []) = (gbGOOD, c') \<and> hub_branch (branch c') = eBranch_aux"
  using BUS_select_drives_path [of "\<lparr>pn_sn = [0x28,1,2,3,4,5,6,7],
       pn_bp = [\<lparr>hub_sn = [0x1F,1,2,3,4,5,6,7], hub_branch = eBranch_aux\<rparr>], pn_has_device = True\<rparr>" "initial_connection []"]
  by (auto simp: hub_valid_def initial_connection_def)

end
