(* ===== verification/OW_Search.thy ===== *)
theory OW_Search
  imports OW_Select "HOL-Library.List_Lexorder"
begin

text \<open>
  \<^verbatim>\<open>ow_search.c\<close>: the ROM search that lists the slaves of a bus. Each pass of \<^verbatim>\<open>BUS_next_both_bitbang\<close> walks
  the 64 bits of a serial number, reading two slots per bit and choosing a direction; the place of the
  last conflict at which it chose zero is where the next pass turns the other way.

  \<^verbatim>\<open>BUS_first\<close> and \<^verbatim>\<open>BUS_next\<close>, which also fill the device cache, are in the theory of directories.
\<close>

section \<open>One pass\<close>

definition SEARCH_ROM :: byte where "SEARCH_ROM = 0xF0"
definition CONDITIONAL_SEARCH_ROM :: byte where "CONDITIONAL_SEARCH_ROM = 0xEC"

definition direction_byte :: "bool \<Rightarrow> byte" where
  "direction_byte dir = (if dir then 1 else 0)"

text \<open>The direction taken at bit \<open>n\<close> and the new place of the last zero, from the two slots read.\<close>

definition search_choose :: "byte \<Rightarrow> byte \<Rightarrow> nat \<Rightarrow> device_search \<Rightarrow> int \<Rightarrow> bool \<times> int" where
  "search_choose bit1 bit2 n ds last_zero =
     (if bit1 \<noteq> 0 then (True, last_zero)
      else if bit2 \<noteq> 0 then (False, last_zero)
      else if int n > LastDiscrepancy ds then (False, int n)
      else if int n = LastDiscrepancy ds then (True, last_zero)
      else if UT_getbit (ds_sn ds) n then (True, last_zero)
      else (False, int n))"

text \<open>The loop over the bits. \<open>Inl\<close> is a return from inside the loop, \<open>Inr\<close> the place of the last zero
  after the loop.\<close>

function search_bits ::
  "'b interface_routines \<Rightarrow> nat \<Rightarrow> bool \<Rightarrow> int \<Rightarrow> device_search \<Rightarrow> bus_pn \<Rightarrow> 'b connection_in \<Rightarrow>
     (search_status \<times> device_search \<times> 'b connection_in) + (int \<times> device_search \<times> 'b connection_in)" where
  "search_bits ir n dir last_zero ds pn c =
     (if n \<ge> 64 then
        (case BUS_sendback_bits ir [direction_byte dir] pn c of (ret, resp, c) \<Rightarrow>
           if BAD ret then Inl (search_error, ds, c) else Inr (last_zero, ds, c))
      else
        (let out = (if n = 0 then [0xFF, 0xFF] else [direction_byte dir, 0xFF, 0xFF]) in
         case BUS_sendback_bits ir out pn c of (ret, resp, c) \<Rightarrow>
           if BAD ret then Inl (search_error, ds, c)
           else
             let bits = resp @ drop (length resp) out;
                 bit1 = bits ! (length out - 2);
                 bit2 = bits ! (length out - 1)
             in if bit1 \<noteq> 0 \<and> bit2 \<noteq> 0 then Inl (search_done, ds\<lparr>LastDevice := True\<rparr>, c)
                else (case search_choose bit1 bit2 n ds last_zero of (dir, last_zero) \<Rightarrow>
                  search_bits ir (Suc n) dir last_zero (ds\<lparr>ds_sn := UT_setbit (ds_sn ds) n dir\<rparr>) pn c)))"
  by pat_completeness auto
termination
  by (relation "measure (\<lambda>(ir, n, dir, last_zero, ds, pn, c). 64 - n)") auto

declare search_bits.simps [simp del]

definition BUS_next_both_bitbang ::
  "'b interface_routines \<Rightarrow> device_search \<Rightarrow> bus_pn \<Rightarrow> 'b connection_in \<Rightarrow> search_status \<times> device_search \<times> 'b connection_in" where
  "BUS_next_both_bitbang ir ds pn c =
     (case BUS_select ir pn c of (ret, c) \<Rightarrow>
        if BAD ret then (search_error, ds, c)
        else if LastDevice ds then (search_done, ds, c)
        else (case BUS_send_data ir [ds_search ds] pn c of (ret, c) \<Rightarrow>
          if BAD ret then (search_error, ds, c)
          else if AnyDevices c = anydevices_no then (search_done, ds\<lparr>LastDevice := True\<rparr>, c)
          else (case search_bits ir 0 False (- 1) ds pn c of
              Inl result \<Rightarrow> result
            | Inr (last_zero, ds, c) \<Rightarrow>
                (case CRC8 (ds_sn ds) (crc_counters c) of (crc, k) \<Rightarrow>
                   let c = c\<lparr>crc_counters := k\<rparr> in
                   if crc \<noteq> 0 \<or> ds_sn ds ! 0 = 0 then (search_error, ds, c)
                   else (search_good, ds\<lparr>LastDiscrepancy := last_zero, LastDevice := last_zero < 0\<rparr>, c)))))"

definition BUS_next_both ::
  "'b interface_routines \<Rightarrow> device_search \<Rightarrow> bus_pn \<Rightarrow> 'b connection_in \<Rightarrow> search_status \<times> device_search \<times> 'b connection_in" where
  "BUS_next_both ir ds pn c =
     (case (case ir_next_both ir of
              Some next_both \<Rightarrow> next_both ds pn c
            | None \<Rightarrow> BUS_next_both_bitbang ir ds pn c)
      of (status, ds, c) \<Rightarrow>
        (status, ds,
         if status = search_good \<and> ds_sn ds ! 0 AND 0x7F = 0x04 then c\<lparr>ds2404_found := True\<rparr> else c))"

definition BUS_next_3try ::
  "'b interface_routines \<Rightarrow> device_search \<Rightarrow> bus_pn \<Rightarrow> 'b connection_in \<Rightarrow> search_status \<times> device_search \<times> 'b connection_in" where
  "BUS_next_3try ir ds pn c =
     (case BUS_next_both ir ds pn c of (status, ds, c) \<Rightarrow>
        if status \<noteq> search_error then (status, ds, c)
        else (case BUS_next_both ir ds pn (STAT_ADD1_BUS e_bus_search_errors1 c) of (status, ds, c) \<Rightarrow>
          if status \<noteq> search_error then (status, ds, c)
          else (case BUS_next_both ir ds pn (STAT_ADD1_BUS e_bus_search_errors2 c) of (status, ds, c) \<Rightarrow>
            if status \<noteq> search_error then (status, ds, c)
            else (search_error, ds, STAT_ADD1_BUS e_bus_search_errors3 c))))"

definition BUS_first_both :: "device_search \<Rightarrow> device_search" where
  "BUS_first_both ds =
     ds\<lparr>ds_sn := replicate 8 0, LastDiscrepancy := - 1, LastDevice := False, ds_index := - 1, ds_gulp := DirblobInit\<rparr>"

definition BUS_next_cleanup :: "device_search \<Rightarrow> device_search" where
  "BUS_next_cleanup ds = ds\<lparr>ds_gulp := DirblobClear (ds_gulp ds)\<rparr>"

text \<open>A call under the lock of the bus, unless the flag is off (the caller is reconnecting and has the lock).\<close>

definition with_bus_lock :: "bool \<Rightarrow> ('b connection_in \<Rightarrow> 'r \<times> 'd \<times> 'b connection_in) \<Rightarrow> 'b connection_in \<Rightarrow> 'r \<times> 'd \<times> 'b connection_in" where
  "with_bus_lock NotReconnect f c =
     (if NotReconnect then (case f (BUS_lock_in c) of (r, d, c) \<Rightarrow> (r, d, BUS_unlock_in c)) else f c)"

text \<open>The loop of a caller that lists a bus, with the retries of \<^verbatim>\<open>BUS_next\<close>: it stops at the first pass that
  does not find a slave. \<^const>\<open>None\<close> is running out of fuel.\<close>

fun search_all ::
  "'b interface_routines \<Rightarrow> bool \<Rightarrow> nat \<Rightarrow> device_search \<Rightarrow> bus_pn \<Rightarrow> 'b connection_in \<Rightarrow>
     (byte list list \<times> search_status \<times> 'b connection_in) option" where
  "search_all ir nr 0 ds pn c = None"
| "search_all ir nr (Suc fuel) ds pn c =
     (case with_bus_lock nr (BUS_next_3try ir ds pn) c of (status, ds, c) \<Rightarrow>
        if status = search_good
        then map_option (\<lambda>(sns, status, c). (ds_sn ds # sns, status, c)) (search_all ir nr fuel ds pn c)
        else Some ([], status, c))"

section \<open>The order of serial numbers\<close>

definition rom_bits :: "byte list \<Rightarrow> bool list" where
  "rom_bits d = map (UT_getbit d) [0..<64]"

lemma length_rom_bits [simp]: "length (rom_bits d) = 64"
  by (simp add: rom_bits_def)

lemma nth_rom_bits [simp]: "n < 64 \<Longrightarrow> rom_bits d ! n = UT_getbit d n"
  by (simp add: rom_bits_def)

lemma rom_bits_inj: "length a = 8 \<Longrightarrow> length b = 8 \<Longrightarrow> rom_bits a = rom_bits b \<longleftrightarrow> a = b"
  using rom_eqI [of a b] by (metis nth_rom_bits)

definition agree_upto :: "nat \<Rightarrow> byte list \<Rightarrow> byte list \<Rightarrow> bool" where
  "agree_upto n a b \<longleftrightarrow> (\<forall>j < n. UT_getbit a j = UT_getbit b j)"

lemma rom_less_iff:
  "rom_bits a < rom_bits b \<longleftrightarrow> (\<exists>k < 64. agree_upto k a b \<and> \<not> UT_getbit a k \<and> UT_getbit b k)"
proof -
  have tk: "take k (rom_bits a) = take k (rom_bits b) \<longleftrightarrow> agree_upto k a b" if "k < 64" for k
    using that by (auto simp: agree_upto_def list_eq_iff_nth_eq)
  show ?thesis
    by (auto simp: list_less_def lexord_take_index_conv tk)
qed

lemma agree_upto_sym: "agree_upto n a b \<longleftrightarrow> agree_upto n b a"
  by (auto simp: agree_upto_def)

lemma agree_upto_trans: "agree_upto n a b \<Longrightarrow> agree_upto n b d \<Longrightarrow> agree_upto n a d"
  by (auto simp: agree_upto_def)

lemma agree_upto_le: "agree_upto n a b \<Longrightarrow> m \<le> n \<Longrightarrow> agree_upto m a b"
  by (auto simp: agree_upto_def)

lemma agree_upto_Suc: "agree_upto (Suc n) a b \<longleftrightarrow> agree_upto n a b \<and> UT_getbit a n = UT_getbit b n"
  by (auto simp: agree_upto_def less_Suc_eq)

text \<open>A place where \<open>d\<close> has a zero and another slave, equal to \<open>d\<close> so far, has a one.\<close>

definition discrepancy :: "byte list set \<Rightarrow> byte list \<Rightarrow> nat \<Rightarrow> bool" where
  "discrepancy devs d k \<longleftrightarrow> \<not> UT_getbit d k \<and> (\<exists>e \<in> devs. agree_upto k e d \<and> UT_getbit e k)"

fun last_discrepancy :: "byte list set \<Rightarrow> byte list \<Rightarrow> nat \<Rightarrow> int" where
  "last_discrepancy devs d 0 = - 1"
| "last_discrepancy devs d (Suc n) = (if discrepancy devs d n then int n else last_discrepancy devs d n)"

lemma last_discrepancy_bounds: "- 1 \<le> last_discrepancy devs d n \<and> last_discrepancy devs d n < int n"
  by (induction n) auto

lemma last_discrepancy_is:
  "last_discrepancy devs d n = int k \<Longrightarrow> k < n \<and> discrepancy devs d k"
  by (induction n) (auto split: if_splits)

lemma last_discrepancy_greatest:
  "discrepancy devs d k \<Longrightarrow> k < n \<Longrightarrow> int k \<le> last_discrepancy devs d n"
  by (induction n) (auto simp: less_Suc_eq)

lemma last_discrepancy_cong:
  "agree_upto n a b \<Longrightarrow> last_discrepancy devs a n = last_discrepancy devs b n"
proof (induction n)
  case (Suc n)
  then have "discrepancy devs a n = discrepancy devs b n"
    using agree_upto_trans [of n _ a b] agree_upto_trans [of n _ b a] agree_upto_sym [of n a b]
    by (auto simp: discrepancy_def agree_upto_Suc)
  with Suc show ?case by (simp add: agree_upto_Suc)
qed simp

text \<open>Which slave a pass ends at: at each conflict it takes the side the search state says.\<close>

definition follows :: "byte list set \<Rightarrow> int \<Rightarrow> byte list \<Rightarrow> byte list \<Rightarrow> bool" where
  "follows devs L old t \<longleftrightarrow>
     (\<forall>n < 64. \<forall>e \<in> devs. agree_upto n e t \<and> UT_getbit e n \<noteq> UT_getbit t n \<longrightarrow>
        UT_getbit t n = (int n = L \<or> (int n < L \<and> UT_getbit old n)))"

lemma follows_first:
  assumes "t \<in> devs" and "\<And>e. e \<in> devs \<Longrightarrow> rom_bits t \<le> rom_bits e"
  shows "follows devs (- 1) old t"
  unfolding follows_def
proof (intro allI impI ballI)
  fix n e assume "n < 64" "e \<in> devs" and e: "agree_upto n e t \<and> UT_getbit e n \<noteq> UT_getbit t n"
  have "\<not> rom_bits e < rom_bits t" using assms(2) [OF \<open>e \<in> devs\<close>] by simp
  then have "\<not> UT_getbit t n" using e \<open>n < 64\<close> by (auto simp: rom_less_iff)
  then show "UT_getbit t n = (int n = - 1 \<or> (int n < - 1 \<and> UT_getbit old n))" by simp
qed

lemma follows_next:
  assumes d: "d \<in> devs" and L: "last_discrepancy devs d 64 = int l"
    and t: "t \<in> devs" "rom_bits d < rom_bits t"
    and least: "\<And>e. e \<in> devs \<Longrightarrow> rom_bits d < rom_bits e \<Longrightarrow> rom_bits t \<le> rom_bits e"
  shows "follows devs (int l) d t"
proof -
  have l: "l < 64" "\<not> UT_getbit d l" using last_discrepancy_is [OF L] by (auto simp: discrepancy_def)
  obtain e0 where e0: "e0 \<in> devs" "agree_upto l e0 d" "UT_getbit e0 l"
    using last_discrepancy_is [OF L] by (auto simp: discrepancy_def)
  obtain k where k: "k < 64" "agree_upto k d t" "\<not> UT_getbit d k" "UT_getbit t k"
    using t(2) by (auto simp: rom_less_iff)
  have "discrepancy devs d k" using k t by (auto simp: discrepancy_def agree_upto_sym)
  then have "k \<le> l" using last_discrepancy_greatest [of devs d k 64] k L by simp
  moreover have "\<not> k < l"
  proof
    assume "k < l"
    then have "agree_upto k e0 t" "\<not> UT_getbit e0 k"
      using e0 k agree_upto_le [of l e0 d k] agree_upto_trans [of k e0 d t] by (auto simp: agree_upto_def)
    then have "rom_bits e0 < rom_bits t" using k by (auto simp: rom_less_iff)
    moreover have "rom_bits d < rom_bits e0" using e0 l by (auto simp: rom_less_iff agree_upto_sym)
    ultimately show False using least [OF e0(1)] by simp
  qed
  ultimately have kl: "k = l" by simp
  show ?thesis
    unfolding follows_def
  proof (intro allI impI ballI)
    fix n e assume n: "n < 64" "e \<in> devs" and e: "agree_upto n e t \<and> UT_getbit e n \<noteq> UT_getbit t n"
    show "UT_getbit t n = (int n = int l \<or> (int n < int l \<and> UT_getbit d n))"
    proof (cases "n \<le> l")
      case True
      then show ?thesis using k kl by (auto simp: agree_upto_def nat_less_le)
    next
      case False
      then have el: "agree_upto l d e" "UT_getbit e l"
        using e k kl by (auto simp: agree_upto_def)
      then have "rom_bits d < rom_bits e" using l by (auto simp: rom_less_iff)
      then have "\<not> rom_bits e < rom_bits t" using least [OF n(2)] by simp
      then have "\<not> UT_getbit t n" using e n by (auto simp: rom_less_iff)
      then show ?thesis using False by simp
    qed
  qed
qed

lemma last_device_is_greatest:
  assumes "last_discrepancy devs d 64 < 0" and "d \<in> devs" and "e \<in> devs"
  shows "rom_bits e \<le> rom_bits d"
proof (rule ccontr)
  assume "\<not> rom_bits e \<le> rom_bits d"
  then obtain k where "k < 64" "agree_upto k d e" "\<not> UT_getbit d k" "UT_getbit e k"
    by (auto simp: not_le rom_less_iff)
  then have "discrepancy devs d k" using assms by (auto simp: discrepancy_def agree_upto_sym)
  then show False using last_discrepancy_greatest [of devs d k 64] \<open>k < 64\<close> assms(1) by simp
qed

lemma search_bits_step:
  assumes "n < 64" and "out = (if n = 0 then [0xFF, 0xFF] else [direction_byte dir, 0xFF, 0xFF])"
    and "BUS_sendback_bits ir out pn c = (gbGOOD, resp, c')" and "length resp = length out"
    and "resp ! (length resp - 2) = b1" and "resp ! (length resp - 1) = b2" and "b1 = 0 \<or> b2 = 0"
    and "search_choose b1 b2 n ds lz = (dir', lz')"
  shows "search_bits ir n dir lz ds pn c =
    search_bits ir (Suc n) dir' lz' (ds\<lparr>ds_sn := UT_setbit (ds_sn ds) n dir'\<rparr>) pn c'"
  unfolding search_bits.simps [of ir n dir lz ds pn c] assms(2) [symmetric] Let_def
  using assms(1,3-8) by auto

section \<open>What the search relies on\<close>

text \<open>
  The slaves \<open>devs\<close> take part in a ROM search with command \<open>cmd\<close>. \<open>asked c S n\<close> says that the slaves
  in \<open>S\<close> are about to send bit \<open>n\<close>, \<open>answered c S n\<close> that they have sent it and wait for the
  direction; \<open>idle c\<close> that the bus can be reset and searched.
\<close>

locale search_bus =
  fixes ir :: "'b interface_routines"
    and pn :: bus_pn
    and cmd :: byte
    and devs :: "byte list set"
    and idle :: "'b connection_in \<Rightarrow> bool"
    and asked :: "'b connection_in \<Rightarrow> byte list set \<Rightarrow> bool"
    and answered :: "'b connection_in \<Rightarrow> byte list set \<Rightarrow> nat \<Rightarrow> bool"
  assumes bit_level: "ir_next_both ir = None"
    and select_ok: "idle c \<Longrightarrow> \<exists>c1. BUS_select ir pn c = (gbGOOD, c1) \<and> idle c1
      \<and> (\<exists>c2. BUS_send_data ir [cmd] pn c1 = (gbGOOD, c2) \<and> idle c2
          \<and> (AnyDevices c2 = anydevices_no \<longrightarrow> devs = {}) \<and> asked c2 devs)"
    and first_bit: "asked c S \<Longrightarrow> \<exists>b1 b2 c'. BUS_sendback_bits ir [0xFF, 0xFF] pn c = (gbGOOD, [b1, b2], c')
      \<and> (b1 \<noteq> 0 \<longleftrightarrow> (\<forall>d \<in> S. UT_getbit d 0)) \<and> (b2 \<noteq> 0 \<longleftrightarrow> (\<forall>d \<in> S. \<not> UT_getbit d 0)) \<and> answered c' S 0"
    and next_bit: "answered c S n \<Longrightarrow> Suc n < 64 \<Longrightarrow> S' = {d \<in> S. UT_getbit d n = dir} \<Longrightarrow>
      \<exists>b0 b1 b2 c'. BUS_sendback_bits ir [direction_byte dir, 0xFF, 0xFF] pn c = (gbGOOD, [b0, b1, b2], c')
        \<and> (b1 \<noteq> 0 \<longleftrightarrow> (\<forall>d \<in> S'. UT_getbit d (Suc n))) \<and> (b2 \<noteq> 0 \<longleftrightarrow> (\<forall>d \<in> S'. \<not> UT_getbit d (Suc n)))
        \<and> answered c' S' (Suc n)"
    and last_bit: "answered c S 63 \<Longrightarrow>
      \<exists>resp c'. BUS_sendback_bits ir [direction_byte dir] pn c = (gbGOOD, resp, c') \<and> idle c'"
    and answered_idle: "answered c S n \<Longrightarrow> idle c"
    and idle_counters: "idle c \<Longrightarrow> idle (c\<lparr>crc_counters := k\<rparr>)"
    and idle_2404: "idle c \<Longrightarrow> idle (c\<lparr>ds2404_found := b\<rparr>)"
    and idle_locks: "idle c \<Longrightarrow> idle (BUS_lock_in c)" "idle c \<Longrightarrow> idle (BUS_unlock_in c)"
    and finite_devs: "finite devs"
    and valid_devs: "d \<in> devs \<Longrightarrow> rom_valid d"
begin

text \<open>Both kinds of exchange at once: before bit \<open>n\<close>, with the direction of bit \<open>n - 1\<close> still to send.\<close>

definition ready :: "'b connection_in \<Rightarrow> byte list set \<Rightarrow> nat \<Rightarrow> bool \<Rightarrow> bool" where
  "ready c S n dir \<longleftrightarrow> (if n = 0 then asked c S
     else \<exists>T. answered c T (n - 1) \<and> S = {d \<in> T. UT_getbit d (n - 1) = dir})"

lemma exchange:
  assumes "ready c S n dir" and "n < 64"
  shows "\<exists>resp c' b1 b2. BUS_sendback_bits ir (if n = 0 then [0xFF, 0xFF] else [direction_byte dir, 0xFF, 0xFF]) pn c
      = (gbGOOD, resp, c') \<and> length resp = (if n = 0 then 2 else 3)
    \<and> resp ! (length resp - 2) = b1 \<and> resp ! (length resp - 1) = b2
    \<and> (b1 \<noteq> 0 \<longleftrightarrow> (\<forall>d \<in> S. UT_getbit d n)) \<and> (b2 \<noteq> 0 \<longleftrightarrow> (\<forall>d \<in> S. \<not> UT_getbit d n)) \<and> answered c' S n"
proof (cases n)
  case 0
  then show ?thesis using assms first_bit [of c S] by (auto simp: ready_def)
next
  case (Suc m)
  then obtain T where T: "answered c T m" "S = {d \<in> T. UT_getbit d m = dir}" using assms by (auto simp: ready_def)
  then show ?thesis using next_bit [OF T(1) _ T(2)] Suc assms(2) by fastforce
qed

lemma search_bits_follows:
  assumes t: "t \<in> devs" and follows: "follows devs (LastDiscrepancy ds) old t"
    and len: "length (ds_sn ds) = 8" and ready: "ready c (answering devs t n) n dir" and n: "n \<le> 64"
    and past: "agree_upto n (ds_sn ds) t" and future: "\<And>j. n \<le> j \<Longrightarrow> UT_getbit (ds_sn ds) j = UT_getbit old j"
    and lz: "lz = last_discrepancy devs t n"
  shows "\<exists>c'. search_bits ir n dir lz ds pn c = Inr (last_discrepancy devs t 64, ds\<lparr>ds_sn := t\<rparr>, c') \<and> idle c'"
  using assms
proof (induction "64 - n" arbitrary: n dir lz ds c)
  case 0
  then have n: "n = 64" by simp
  have tl: "length t = 8" using valid_devs [OF t] by (simp add: rom_valid_def)
  have "ds_sn ds = t" using 0 n tl by (intro rom_eqI) (auto simp: agree_upto_def)
  then have "ds\<lparr>ds_sn := t\<rparr> = ds" by auto
  moreover obtain T where "answered c T 63" using 0 n by (auto simp: ready_def)
  ultimately show ?case
    using last_bit [of c T dir] 0 n by (subst search_bits.simps) auto
next
  case (Suc m)
  then have n: "n < 64" "64 - Suc n = m" by simp_all
  let ?S = "answering devs t n" and ?b = "UT_getbit t n"
  have tS: "t \<in> ?S" using t by (simp add: answering_def)
  obtain resp c' b1 b2 where ex: "BUS_sendback_bits ir (if n = 0 then [0xFF, 0xFF] else [direction_byte dir, 0xFF, 0xFF]) pn c
      = (gbGOOD, resp, c')" "length resp = (if n = 0 then 2 else 3)"
      "resp ! (length resp - 2) = b1" "resp ! (length resp - 1) = b2"
      "b1 \<noteq> 0 \<longleftrightarrow> (\<forall>d \<in> ?S. UT_getbit d n)" "b2 \<noteq> 0 \<longleftrightarrow> (\<forall>d \<in> ?S. \<not> UT_getbit d n)" "answered c' ?S n"
    using exchange [OF Suc.prems(4) n(1)] by blast
  have conflict: "(\<exists>e \<in> ?S. UT_getbit e n) \<and> (\<exists>e \<in> ?S. \<not> UT_getbit e n) \<Longrightarrow>
      ?b = (int n = LastDiscrepancy ds \<or> (int n < LastDiscrepancy ds \<and> UT_getbit (ds_sn ds) n))"
    using Suc.prems(2,7) n(1) by (auto simp: follows_def answering_def agree_upto_def)
  have disc: "discrepancy devs t n \<longleftrightarrow> \<not> ?b \<and> (\<exists>e \<in> ?S. UT_getbit e n)"
    by (auto simp: discrepancy_def answering_def agree_upto_def)
  have choose: "search_choose b1 b2 n ds lz = (?b, last_discrepancy devs t (Suc n))"
    using ex(5,6) conflict disc tS Suc.prems(8) by (auto simp: search_choose_def)
  have "search_bits ir n dir lz ds pn c =
      search_bits ir (Suc n) ?b (last_discrepancy devs t (Suc n)) (ds\<lparr>ds_sn := UT_setbit (ds_sn ds) n ?b\<rparr>) pn c'"
    using tS ex(5,6) by (intro search_bits_step [OF n(1) refl ex(1) _ ex(3,4) _ choose]) (auto simp: ex(2))
  moreover have "\<exists>c''. search_bits ir (Suc n) ?b (last_discrepancy devs t (Suc n))
      (ds\<lparr>ds_sn := UT_setbit (ds_sn ds) n ?b\<rparr>) pn c' =
      Inr (last_discrepancy devs t 64, (ds\<lparr>ds_sn := UT_setbit (ds_sn ds) n ?b\<rparr>)\<lparr>ds_sn := t\<rparr>, c'') \<and> idle c''"
  proof (rule Suc.hyps(1))
    show "ready c' (answering devs t (Suc n)) (Suc n) ?b"
      using ex(7) by (auto simp: ready_def answering_Suc)
    show "agree_upto (Suc n) (ds_sn (ds\<lparr>ds_sn := UT_setbit (ds_sn ds) n ?b\<rparr>)) t"
      using Suc.prems(3,6) n(1) by (auto simp: agree_upto_def UT_getbit_setbit)
    show "UT_getbit (ds_sn (ds\<lparr>ds_sn := UT_setbit (ds_sn ds) n ?b\<rparr>)) j = UT_getbit old j" if "Suc n \<le> j" for j
      using Suc.prems(3,7) n(1) that by (simp add: UT_getbit_setbit)
  qed (use Suc.prems n in simp_all)
  ultimately show ?case by simp
qed

lemma CRC8_valid: "rom_valid t \<Longrightarrow> \<exists>k'. CRC8 t k = (0, k')"
  by (simp add: CRC8_def CRC8seeded_def rom_valid_def Let_def)

definition found :: "device_search \<Rightarrow> byte list \<Rightarrow> device_search" where
  "found ds t = ds\<lparr>ds_sn := t, LastDiscrepancy := last_discrepancy devs t 64,
     LastDevice := last_discrepancy devs t 64 < 0\<rparr>"

lemma bitbang_finds:
  assumes "idle c" and "\<not> LastDevice ds" and "ds_search ds = cmd" and "length (ds_sn ds) = 8"
    and t: "t \<in> devs" and "follows devs (LastDiscrepancy ds) (ds_sn ds) t"
  shows "\<exists>c'. BUS_next_both_bitbang ir ds pn c = (search_good, found ds t, c') \<and> idle c'"
proof -
  obtain c1 c2 where c: "BUS_select ir pn c = (gbGOOD, c1)" "BUS_send_data ir [cmd] pn c1 = (gbGOOD, c2)"
      "AnyDevices c2 \<noteq> anydevices_no" "asked c2 devs"
    using select_ok [OF assms(1)] t by blast
  obtain c3 where c3: "search_bits ir 0 False (- 1) ds pn c2 = Inr (last_discrepancy devs t 64, ds\<lparr>ds_sn := t\<rparr>, c3)" "idle c3"
    using search_bits_follows [OF t assms(6,4), of c2 0 False "- 1"] c(4) by (auto simp: ready_def agree_upto_def)
  have valid: "rom_valid t" by (rule valid_devs [OF t])
  then obtain k where "CRC8 t (crc_counters c3) = (0, k)" using CRC8_valid by blast
  then show ?thesis
    using c c3 assms(2,3) valid idle_counters
    by (simp add: BUS_next_both_bitbang_def found_def rom_valid_def Let_def)
qed

lemma bitbang_exhausted:
  assumes "idle c" and "ds_search ds = cmd" and "LastDevice ds \<or> devs = {}"
  shows "\<exists>ds' c'. BUS_next_both_bitbang ir ds pn c = (search_done, ds', c') \<and> idle c'"
proof (cases "LastDevice ds")
  case True
  then show ?thesis using select_ok [OF assms(1)] by (auto simp: BUS_next_both_bitbang_def)
next
  case False
  obtain c1 c2 where c: "BUS_select ir pn c = (gbGOOD, c1)" "BUS_send_data ir [cmd] pn c1 = (gbGOOD, c2)"
      "asked c2 {}" "idle c2"
    using select_ok [OF assms(1)] assms(3) False by auto
  obtain b1 b2 c3 where c3: "BUS_sendback_bits ir [0xFF, 0xFF] pn c2 = (gbGOOD, [b1, b2], c3)" "b1 \<noteq> 0" "b2 \<noteq> 0" "answered c3 {} 0"
    using first_bit [OF c(3)] by auto
  then have "search_bits ir 0 False (- 1) ds pn c2 = Inl (search_done, ds\<lparr>LastDevice := True\<rparr>, c3)"
    by (subst search_bits.simps) simp
  then show ?thesis using c c3 False assms(2) answered_idle by (auto simp: BUS_next_both_bitbang_def)
qed

lemma next_3try_good:
  assumes "\<And>c. idle c \<Longrightarrow> \<exists>ds' c'. BUS_next_both_bitbang ir ds pn c = (st, ds', c') \<and> idle c' \<and> P ds'"
    and "st \<noteq> search_error" and "idle c"
  shows "\<exists>ds' c'. with_bus_lock nr (BUS_next_3try ir ds pn) c = (st, ds', c') \<and> idle c' \<and> P ds'"
proof -
  have once: "\<exists>ds' c'. BUS_next_3try ir ds pn c = (st, ds', c') \<and> idle c' \<and> P ds'" if quiet: "idle c" for c
  proof -
    obtain ds' c' where "BUS_next_both_bitbang ir ds pn c = (st, ds', c')" "idle c'" "P ds'" using assms(1) [OF quiet] by blast
    then show ?thesis using assms(2) idle_2404 [of c' True] by (auto simp: BUS_next_3try_def BUS_next_both_def bit_level)
  qed
  show ?thesis
  proof (cases nr)
    case True
    obtain ds' c' where "BUS_next_3try ir ds pn (BUS_lock_in c) = (st, ds', c')" "idle c'" "P ds'"
      using once [OF idle_locks(1) [OF assms(3)]] by blast
    then show ?thesis using True idle_locks(2) by (simp add: with_bus_lock_def)
  next
    case False
    then show ?thesis using once [OF assms(3)] by (simp add: with_bus_lock_def)
  qed
qed

text \<open>The slaves still to be found after \<open>d\<close>.\<close>

definition after :: "byte list \<Rightarrow> byte list set" where
  "after d = {e \<in> devs. rom_bits d < rom_bits e}"

lemma last_discrepancy_after:
  assumes "d \<in> devs"
  shows "last_discrepancy devs d 64 < 0 \<longleftrightarrow> after d = {}"
proof
  assume "last_discrepancy devs d 64 < 0"
  then show "after d = {}"
    using last_device_is_greatest [OF _ assms] by (fastforce simp: after_def)
next
  assume "after d = {}"
  show "last_discrepancy devs d 64 < 0"
  proof (rule ccontr)
    assume "\<not> last_discrepancy devs d 64 < 0"
    then obtain k where "last_discrepancy devs d 64 = int k" by (metis nonneg_int_cases not_less)
    then have "k < 64" "discrepancy devs d k" using last_discrepancy_is by auto
    then show False using \<open>after d = {}\<close>
      by (auto simp: after_def discrepancy_def rom_less_iff agree_upto_sym)
  qed
qed

lemma least_exists:
  assumes "A \<subseteq> devs" and "A \<noteq> {}"
  shows "\<exists>t \<in> A. rom_bits t = Min (rom_bits ` A) \<and> (\<forall>e \<in> A. rom_bits t \<le> rom_bits e)"
proof -
  have "finite (rom_bits ` A)" using assms(1) finite_devs finite_subset by blast
  then have "Min (rom_bits ` A) \<in> rom_bits ` A" "\<forall>e \<in> A. Min (rom_bits ` A) \<le> rom_bits e"
    using assms(2) by simp_all
  then show ?thesis by (metis image_iff)
qed

lemma sorted_rest:
  assumes "A \<subseteq> devs" and "t \<in> A" and "rom_bits t = Min (rom_bits ` A)" and "\<forall>e \<in> devs. rom_bits t < rom_bits e \<longrightarrow> e \<in> A"
  shows "sorted_list_of_set (rom_bits ` A) = rom_bits t # sorted_list_of_set (rom_bits ` after t)"
proof -
  have fin: "finite (rom_bits ` A)" using assms(1) finite_devs finite_subset by blast
  have least: "rom_bits t \<le> rom_bits e" if "e \<in> A" for e
    unfolding assms(3) using fin that by simp
  have "rom_bits ` A - {rom_bits t} = rom_bits ` after t"
  proof (intro set_eqI iffI)
    fix b assume "b \<in> rom_bits ` A - {rom_bits t}"
    then obtain e where e: "b = rom_bits e" "e \<in> A" "rom_bits e \<noteq> rom_bits t" by auto
    then have "e \<in> after t" using least [of e] assms(1) by (auto simp: after_def)
    then show "b \<in> rom_bits ` after t" using e by simp
  next
    fix b assume "b \<in> rom_bits ` after t"
    then show "b \<in> rom_bits ` A - {rom_bits t}" using assms(4) by (auto simp: after_def)
  qed
  then show ?thesis using sorted_list_of_set_nonempty [OF fin] assms(2,3) by auto
qed

lemma search_from:
  assumes "d \<in> devs" and "idle c" and "ds_search ds = cmd" and "card (after d) < fuel"
  shows "\<exists>sns c'. search_all ir nr fuel (found ds d) pn c = Some (sns, search_done, c') \<and> idle c'
    \<and> map rom_bits sns = sorted_list_of_set (rom_bits ` after d) \<and> set sns \<subseteq> devs"
  using assms
proof (induction "card (after d)" arbitrary: d ds c fuel rule: less_induct)
  case less
  obtain f where f: "fuel = Suc f" using less.prems(4) by (cases fuel) auto
  show ?case
  proof (cases "after d = {}")
    case True
    then have "\<exists>ds' c'. BUS_next_both_bitbang ir (found ds d) pn c = (search_done, ds', c') \<and> idle c' \<and> True" if "idle c" for c
      using bitbang_exhausted [OF that, of "found ds d"] less.prems(3) last_discrepancy_after [OF less.prems(1)]
      by (auto simp: found_def)
    from next_3try_good [OF this _ less.prems(2), of nr]
    obtain ds' c2 where "with_bus_lock nr (BUS_next_3try ir (found ds d) pn) c = (search_done, ds', c2)" "idle c2"
      by blast
    then show ?thesis using f True by auto
  next
    case False
    have sub: "after d \<subseteq> devs" by (auto simp: after_def)
    obtain t where t: "t \<in> after d" "rom_bits t = Min (rom_bits ` after d)" "\<And>e. e \<in> after d \<Longrightarrow> rom_bits t \<le> rom_bits e"
      using least_exists [OF sub False] by blast
    obtain k where k: "last_discrepancy devs d 64 = int k"
      using last_discrepancy_after [OF less.prems(1)] False by (metis nonneg_int_cases not_less)
    have "follows devs (int k) d t"
      using follows_next [OF less.prems(1) k] t by (auto simp: after_def)
    moreover have dl: "length d = 8" using valid_devs [OF less.prems(1)] by (simp add: rom_valid_def)
    ultimately have "\<exists>c'. BUS_next_both_bitbang ir (found ds d) pn c = (search_good, found (found ds d) t, c') \<and> idle c'"
      if "idle c" for c
      using bitbang_finds [OF that, of "found ds d" t] less.prems(3) t k by (auto simp: found_def after_def)
    then have "\<exists>ds' c'. BUS_next_both_bitbang ir (found ds d) pn c = (search_good, ds', c') \<and> idle c' \<and> ds' = found ds t"
      if "idle c" for c using that by (simp add: found_def)
    from next_3try_good [OF this _ less.prems(2), of nr]
    obtain c2 where c2: "with_bus_lock nr (BUS_next_3try ir (found ds d) pn) c = (search_good, found ds t, c2)" "idle c2"
      by blast
    have smaller: "after t \<subset> after d" using t(1) by (auto simp: after_def)
    then have card: "card (after t) < card (after d)"
      using finite_devs sub by (meson finite_subset psubset_card_mono)
    then obtain sns c3 where "search_all ir nr f (found ds t) pn c2 = Some (sns, search_done, c3)" "idle c3"
        "map rom_bits sns = sorted_list_of_set (rom_bits ` after t)" "set sns \<subseteq> devs"
      using less.hyps [OF card, of c2 ds f] t c2 less.prems f by (auto simp: after_def)
    moreover have "sorted_list_of_set (rom_bits ` after d) = rom_bits t # sorted_list_of_set (rom_bits ` after t)"
      using t by (intro sorted_rest [OF sub]) (auto simp: after_def)
    moreover have "ds_sn (found ds t) = t" by (simp add: found_def)
    ultimately show ?thesis using f c2 t(1) sub by auto
  qed
qed

lemma search_complete:
  assumes "idle c" and "card devs < fuel"
  shows "\<exists>sns c'. search_all ir nr fuel ((BUS_first_both ds)\<lparr>ds_search := cmd\<rparr>) pn c = Some (sns, search_done, c')
    \<and> map rom_bits sns = sorted_list_of_set (rom_bits ` devs) \<and> set sns = devs \<and> distinct sns \<and> idle c'"
proof -
  let ?ds = "(BUS_first_both ds)\<lparr>ds_search := cmd\<rparr>"
  have ds: "\<not> LastDevice ?ds" "ds_search ?ds = cmd" "length (ds_sn ?ds) = 8" "LastDiscrepancy ?ds = - 1"
    by (simp_all add: BUS_first_both_def)
  obtain f where f: "fuel = Suc f" using assms(2) by (cases fuel) auto
  have sorted: "\<exists>sns c'. search_all ir nr fuel ?ds pn c = Some (sns, search_done, c') \<and> idle c'
    \<and> map rom_bits sns = sorted_list_of_set (rom_bits ` devs) \<and> set sns \<subseteq> devs"
  proof (cases "devs = {}")
    case True
    then have "\<exists>ds' c'. BUS_next_both_bitbang ir ?ds pn c = (search_done, ds', c') \<and> idle c' \<and> True" if "idle c" for c
      using bitbang_exhausted [OF that ds(2)] by blast
    from next_3try_good [OF this _ assms(1), of nr]
    obtain ds' c2 where "with_bus_lock nr (BUS_next_3try ir ?ds pn) c = (search_done, ds', c2)" "idle c2" by blast
    then show ?thesis using f True by auto
  next
    case False
    obtain t where t: "t \<in> devs" "rom_bits t = Min (rom_bits ` devs)" "\<And>e. e \<in> devs \<Longrightarrow> rom_bits t \<le> rom_bits e"
      using least_exists [OF subset_refl False] by blast
    then have "follows devs (LastDiscrepancy ?ds) (ds_sn ?ds) t"
      unfolding ds(4) by (intro follows_first)
    then have "\<exists>ds' c'. BUS_next_both_bitbang ir ?ds pn c = (search_good, ds', c') \<and> idle c' \<and> ds' = found ?ds t"
      if "idle c" for c
      using bitbang_finds [OF that ds(1,2,3) t(1)] by blast
    from next_3try_good [OF this _ assms(1), of nr]
    obtain c2 where c2: "with_bus_lock nr (BUS_next_3try ir ?ds pn) c = (search_good, found ?ds t, c2)" "idle c2" by blast
    have "after t \<subseteq> devs - {t}" by (auto simp: after_def)
    then have "card (after t) < card devs"
      using finite_devs t(1) by (meson card_Diff1_less card_mono finite_Diff le_less_trans)
    then obtain sns c3 where "search_all ir nr f (found ?ds t) pn c2 = Some (sns, search_done, c3)" "idle c3"
        "map rom_bits sns = sorted_list_of_set (rom_bits ` after t)" "set sns \<subseteq> devs"
      using search_from [OF t(1) c2(2) ds(2), of f nr] assms(2) f by auto
    moreover have "sorted_list_of_set (rom_bits ` devs) = rom_bits t # sorted_list_of_set (rom_bits ` after t)"
      using t by (intro sorted_rest) (auto simp: after_def)
    moreover have "ds_sn (found ?ds t) = t" by (simp add: found_def)
    ultimately show ?thesis using f c2 t(1) by auto
  qed
  then obtain sns c' where r: "search_all ir nr fuel ?ds pn c = Some (sns, search_done, c')" "idle c'"
      "map rom_bits sns = sorted_list_of_set (rom_bits ` devs)" "set sns \<subseteq> devs"
    by blast
  have "distinct (map rom_bits sns)" using r(3) by simp
  then have "distinct sns" by (simp add: distinct_map)
  moreover have "devs \<subseteq> set sns"
  proof
    fix d assume d: "d \<in> devs"
    have "set (map rom_bits sns) = rom_bits ` devs" using r(3) finite_devs by simp
    then have "rom_bits d \<in> rom_bits ` set sns" using d by auto
    then obtain e where "e \<in> set sns" "rom_bits e = rom_bits d" by (metis imageE)
    moreover from this have "e = d" using rom_bits_inj [of e d] valid_devs d r(4) by (auto simp: rom_valid_def)
    ultimately show "d \<in> set sns" by simp
  qed
  ultimately show ?thesis using r by blast
qed

end

end
