(* ===== verification/OW_Wire.thy ===== *)
theory OW_Wire
  imports OW_Search
begin

text \<open>
  A simulated 1-Wire line with slaves on it, driven by a bus master that has a reset and a bit routine. It
  instantiates the routines that are parameters of the bus layer, and shows that the requirements of the
  ROM search can be met: the locale of the search is interpreted here for every set of slaves.
\<close>

section \<open>The line\<close>

text \<open>What the slaves do with the next slot: nothing, take a command bit, send a bit or its complement,
  take a direction.\<close>

datatype slave_phase = Ignore | Command "bool list" | Send nat | SendInverse nat | Direction nat

record wire =
  w_devs :: "byte list list"
  w_alarmed :: "byte list list"
  w_active :: "byte list list"
  w_phase :: slave_phase

definition command_bits :: "byte \<Rightarrow> bool list" where
  "command_bits b = map (UT_getbit [b]) [0..<8]"

definition wire_command :: "bool list \<Rightarrow> wire \<Rightarrow> wire" where
  "wire_command bits w =
     (if length bits < 8 then w\<lparr>w_phase := Command bits\<rparr>
      else if bits = command_bits SEARCH_ROM then w\<lparr>w_active := w_devs w, w_phase := Send 0\<rparr>
      else if bits = command_bits CONDITIONAL_SEARCH_ROM then w\<lparr>w_active := w_alarmed w, w_phase := Send 0\<rparr>
      else w\<lparr>w_phase := Ignore\<rparr>)"

text \<open>One slot: the level the master asks for, and the wired AND with what the slaves send.\<close>

definition wire_slot :: "bool \<Rightarrow> wire \<Rightarrow> bool \<times> wire" where
  "wire_slot m w =
     (case w_phase w of
        Ignore \<Rightarrow> (m, w)
      | Command bits \<Rightarrow> (m, wire_command (bits @ [m]) w)
      | Send n \<Rightarrow> (m \<and> list_all (\<lambda>d. UT_getbit d n) (w_active w), w\<lparr>w_phase := SendInverse n\<rparr>)
      | SendInverse n \<Rightarrow> (m \<and> list_all (\<lambda>d. \<not> UT_getbit d n) (w_active w), w\<lparr>w_phase := Direction n\<rparr>)
      | Direction n \<Rightarrow>
          (m, w\<lparr>w_active := filter (\<lambda>d. UT_getbit d n = m) (w_active w),
                w_phase := (if n < 63 then Send (Suc n) else Ignore)\<rparr>))"

fun wire_slots :: "byte list \<Rightarrow> wire \<Rightarrow> byte list \<times> wire" where
  "wire_slots [] w = ([], w)"
| "wire_slots (b # bs) w =
     (case wire_slot (b \<noteq> 0) w of (level, w) \<Rightarrow>
        (case wire_slots bs w of (resp, w) \<Rightarrow> ((if level then 0xFF else 0) # resp, w)))"

definition sim_bits :: "wire sendback" where
  "sim_bits databits pn c =
     (case wire_slots databits (hardware c) of (resp, w) \<Rightarrow> (gbGOOD, resp, c\<lparr>hardware := w\<rparr>))"

definition sim_reset :: "bus_pn \<Rightarrow> wire connection_in \<Rightarrow> RESET_TYPE \<times> wire connection_in" where
  "sim_reset pn c =
     (BUS_RESET_OK, c\<lparr>hardware := (hardware c)\<lparr>w_phase := Command []\<rparr>,
        AnyDevices := (if w_devs (hardware c) = [] then anydevices_no else anydevices_yes)\<rparr>)"

definition sim_routines :: "wire interface_routines" where
  "sim_routines = no_routines\<lparr>ir_reset := Some sim_reset, ir_sendback_bits := Some sim_bits\<rparr>"

definition root_pn :: bus_pn where
  "root_pn = \<lparr>pn_sn = replicate 8 0, pn_bp = [], pn_has_device = False\<rparr>"

section \<open>Searching it\<close>

text \<open>The slaves that take part: those present, or those with an alarm, that have a proper serial number.\<close>

definition participants :: "byte \<Rightarrow> wire \<Rightarrow> byte list list" where
  "participants cmd w = (if cmd = SEARCH_ROM then w_devs w else w_alarmed w)"

definition sim_idle :: "byte \<Rightarrow> byte list list \<Rightarrow> wire connection_in \<Rightarrow> bool" where
  "sim_idle cmd ds c \<longleftrightarrow> participants cmd (hardware c) = ds \<and> hub_branch (branch c) = eBranch_cleared
     \<and> (w_devs (hardware c) = [] \<longrightarrow> ds = [])"

definition sim_asked :: "byte \<Rightarrow> byte list list \<Rightarrow> wire connection_in \<Rightarrow> byte list set \<Rightarrow> bool" where
  "sim_asked cmd ds c S \<longleftrightarrow> sim_idle cmd ds c \<and> w_phase (hardware c) = Send 0 \<and> set (w_active (hardware c)) = S"

definition sim_answered :: "byte \<Rightarrow> byte list list \<Rightarrow> wire connection_in \<Rightarrow> byte list set \<Rightarrow> nat \<Rightarrow> bool" where
  "sim_answered cmd ds c S n \<longleftrightarrow> sim_idle cmd ds c \<and> w_phase (hardware c) = Direction n \<and> set (w_active (hardware c)) = S"

lemma sim_bits_routine: "BUS_sendback_bits sim_routines data pn c = sim_bits data pn c"
  by (simp add: BUS_sendback_bits_def sim_routines_def)

lemma sim_no_data: "ir_sendback_data sim_routines = None"
  by (simp add: sim_routines_def no_routines_def)

lemma sim_select:
  assumes "hub_branch (branch c) = eBranch_cleared"
  shows "\<exists>c1. BUS_select sim_routines root_pn c = (gbGOOD, c1)
    \<and> hardware c1 = (hardware c)\<lparr>w_phase := Command []\<rparr> \<and> branch c1 = branch c
    \<and> (AnyDevices c1 = anydevices_no \<longleftrightarrow> w_devs (hardware c) = [])"
  using assms
  by (auto simp: BUS_select_def sim_routines_def no_routines_def root_pn_def RootNotBranch_def ds2409_depth_def
      select_prepare_def BUS_select_branched_path_def BUS_reset_def sim_reset_def STAT_ADD1_BUS_def UT_delay_def
      Let_def AdapterSupports2409_def)

lemma command_slots:
  assumes "w_phase w = Command bits" and "length bits + length bs \<le> 8" and "bs \<noteq> []"
  shows "wire_slots bs w = (map (\<lambda>b. if b \<noteq> 0 then 0xFF else 0) bs, wire_command (bits @ map (\<lambda>b. b \<noteq> 0) bs) w)"
  using assms
proof (induction bs arbitrary: bits w)
  case (Cons b bs)
  show ?case
  proof (cases "bs = []")
    case True
    then show ?thesis using Cons.prems by (simp add: wire_slot_def)
  next
    case False
    let ?w = "w\<lparr>w_phase := Command (bits @ [b \<noteq> 0])\<rparr>"
    have "length bits + 1 < 8" using Cons.prems False by (cases bs) auto
    then have "wire_slot (b \<noteq> 0) w = (b \<noteq> 0, ?w)" using Cons.prems by (simp add: wire_slot_def wire_command_def)
    moreover have "wire_command xs ?w = wire_command xs w" for xs by (simp add: wire_command_def)
    ultimately show ?thesis using Cons.IH [of ?w "bits @ [b \<noteq> 0]"] Cons.prems False by simp
  qed
qed simp

lemma encode_command: "map (\<lambda>b. b \<noteq> 0) (encode_bits [b]) = command_bits b"
  by (simp add: encode_bits_def command_bits_def)

lemma encode_levels: "map (\<lambda>b. if b \<noteq> 0 then 0xFF else 0) (encode_bits data) = encode_bits data"
  by (simp add: encode_bits_def)

lemma sim_send_command:
  assumes "w_phase (hardware c) = Command []"
  shows "BUS_send_data sim_routines [b] pn c = (gbGOOD, c\<lparr>hardware := wire_command (command_bits b) (hardware c)\<rparr>)"
proof -
  have "wire_slots (encode_bits [b]) (hardware c) = (encode_bits [b], wire_command (command_bits b) (hardware c))"
    using command_slots [OF assms, of "encode_bits [b]"] length_encode_bits [of "[b]"]
    by (simp add: encode_command encode_levels del: length_encode_bits) (metis length_0_conv list.size(3) zero_neq_numeral)
  then have "sendback_packet sim_routines [b] pn c = (gbGOOD, [b], c\<lparr>hardware := wire_command (command_bits b) (hardware c)\<rparr>)"
    using decode_encode_bits [of "[b]"] by (simp add: sendback_packet_def sim_bits_routine sim_bits_def)
  then show ?thesis
    by (simp add: BUS_send_data_def BUS_sendback_data_def sim_no_data bitbang_short max_split_bytes_def)
qed

lemma command_bits_differ: "command_bits CONDITIONAL_SEARCH_ROM \<noteq> command_bits SEARCH_ROM"
  by (simp add: command_bits_def CONDITIONAL_SEARCH_ROM_def SEARCH_ROM_def UT_getbit_def upt_rec)

lemma wire_command_search:
  assumes "cmd = SEARCH_ROM \<or> cmd = CONDITIONAL_SEARCH_ROM"
  shows "wire_command (command_bits cmd) w = w\<lparr>w_active := participants cmd w, w_phase := Send 0\<rparr>"
proof -
  have "length (command_bits cmd) = 8" by (simp add: command_bits_def)
  then show ?thesis using assms command_bits_differ by (auto simp: wire_command_def participants_def)
qed

lemma participants_simps [simp]:
  "participants cmd (w\<lparr>w_phase := p\<rparr>) = participants cmd w"
  "participants cmd (w\<lparr>w_active := a\<rparr>) = participants cmd w"
  by (simp_all add: participants_def)

lemma sim_idle_local [simp]:
  "sim_idle cmd ds (c\<lparr>crc_counters := k\<rparr>) = sim_idle cmd ds c"
  "sim_idle cmd ds (c\<lparr>ds2404_found := b\<rparr>) = sim_idle cmd ds c"
  "sim_idle cmd ds (BUS_lock_in c) = sim_idle cmd ds c"
  "sim_idle cmd ds (BUS_unlock_in c) = sim_idle cmd ds c"
  by (simp_all add: sim_idle_def lock_defs)

lemma sim_start:
  assumes cmd: "cmd = SEARCH_ROM \<or> cmd = CONDITIONAL_SEARCH_ROM" and idle: "sim_idle cmd ds c"
  shows "\<exists>c1. BUS_select sim_routines root_pn c = (gbGOOD, c1) \<and> sim_idle cmd ds c1
    \<and> (\<exists>c2. BUS_send_data sim_routines [cmd] root_pn c1 = (gbGOOD, c2) \<and> sim_idle cmd ds c2
        \<and> (AnyDevices c2 = anydevices_no \<longrightarrow> set ds = {}) \<and> sim_asked cmd ds c2 (set ds))"
proof -
  have "hub_branch (branch c) = eBranch_cleared" using idle by (simp add: sim_idle_def)
  then obtain c1 where c1: "BUS_select sim_routines root_pn c = (gbGOOD, c1)"
      "hardware c1 = (hardware c)\<lparr>w_phase := Command []\<rparr>" "branch c1 = branch c"
      "AnyDevices c1 = anydevices_no \<longleftrightarrow> w_devs (hardware c) = []"
    using sim_select by blast
  let ?c2 = "c1\<lparr>hardware := (hardware c1)\<lparr>w_active := participants cmd (hardware c1), w_phase := Send 0\<rparr>\<rparr>"
  have "BUS_send_data sim_routines [cmd] root_pn c1 = (gbGOOD, ?c2)"
    using sim_send_command [of c1 cmd root_pn] c1(2) wire_command_search [OF cmd, of "hardware c1"] by simp
  moreover have "sim_idle cmd ds c1" "sim_idle cmd ds ?c2" "sim_asked cmd ds ?c2 (set ds)"
      "AnyDevices ?c2 = anydevices_no \<longrightarrow> set ds = {}"
    using idle c1 by (simp_all add: sim_idle_def sim_asked_def)
  ultimately show ?thesis using c1(1) by blast
qed

lemma sim_first_bit:
  "sim_asked cmd ds c S \<Longrightarrow> \<exists>b1 b2 c'. BUS_sendback_bits sim_routines [0xFF, 0xFF] pn c = (gbGOOD, [b1, b2], c')
     \<and> (b1 \<noteq> 0 \<longleftrightarrow> (\<forall>d \<in> S. UT_getbit d 0)) \<and> (b2 \<noteq> 0 \<longleftrightarrow> (\<forall>d \<in> S. \<not> UT_getbit d 0)) \<and> sim_answered cmd ds c' S 0"
  by (auto simp: sim_bits_routine sim_bits_def wire_slot_def sim_asked_def sim_answered_def sim_idle_def
      list_all_iff participants_def)

lemma sim_next_bit:
  assumes "sim_answered cmd ds c S n" and "Suc n < 64" and "S' = {d \<in> S. UT_getbit d n = dir}"
  shows "\<exists>b0 b1 b2 c'. BUS_sendback_bits sim_routines [direction_byte dir, 0xFF, 0xFF] pn c = (gbGOOD, [b0, b1, b2], c')
     \<and> (b1 \<noteq> 0 \<longleftrightarrow> (\<forall>d \<in> S'. UT_getbit d (Suc n))) \<and> (b2 \<noteq> 0 \<longleftrightarrow> (\<forall>d \<in> S'. \<not> UT_getbit d (Suc n)))
     \<and> sim_answered cmd ds c' S' (Suc n)"
  using assms
  by (cases dir) (auto simp: sim_bits_routine sim_bits_def wire_slot_def sim_answered_def sim_idle_def
      list_all_iff participants_def direction_byte_def)

lemma sim_last_bit:
  "sim_answered cmd ds c S 63 \<Longrightarrow>
     \<exists>resp c'. BUS_sendback_bits sim_routines [direction_byte dir] pn c = (gbGOOD, resp, c') \<and> sim_idle cmd ds c'"
  by (auto simp: sim_bits_routine sim_bits_def wire_slot_def sim_answered_def sim_idle_def participants_def)

lemma sim_search_bus:
  assumes "cmd = SEARCH_ROM \<or> cmd = CONDITIONAL_SEARCH_ROM"
  shows "search_bus sim_routines root_pn cmd (set (filter rom_valid ds)) (sim_idle cmd (filter rom_valid ds))
    (sim_asked cmd (filter rom_valid ds)) (sim_answered cmd (filter rom_valid ds))"
proof (unfold_locales, goal_cases)
  case 1
  then show ?case by (simp add: sim_routines_def no_routines_def)
next
  case (2 c)
  then show ?case by (rule sim_start [OF assms])
next
  case (3 c S)
  then show ?case by (rule sim_first_bit)
next
  case (4 c S n S' dir)
  then show ?case by (rule sim_next_bit)
next
  case (5 c S dir)
  then show ?case by (rule sim_last_bit)
qed (simp_all add: sim_answered_def)

interpretation wire: search_bus sim_routines root_pn SEARCH_ROM "set (filter rom_valid ds)"
  "sim_idle SEARCH_ROM (filter rom_valid ds)" "sim_asked SEARCH_ROM (filter rom_valid ds)"
  "sim_answered SEARCH_ROM (filter rom_valid ds)" for ds
  by (rule sim_search_bus) simp

interpretation alarm: search_bus sim_routines root_pn CONDITIONAL_SEARCH_ROM "set (filter rom_valid ds)"
  "sim_idle CONDITIONAL_SEARCH_ROM (filter rom_valid ds)" "sim_asked CONDITIONAL_SEARCH_ROM (filter rom_valid ds)"
  "sim_answered CONDITIONAL_SEARCH_ROM (filter rom_valid ds)" for ds
  by (rule sim_search_bus) simp

section \<open>Properties\<close>

text \<open>
  C1: the ROM search is complete. On any bus master and line that answer as \<open>search_bus\<close> says (selection and
  command succeed, and each pair of read slots is the wired AND of the slaves that followed the directions
  so far), a search from \<^verbatim>\<open>BUS_first_both\<close> continued until it reports the end returns every slave exactly
  once, in increasing order of serial number bits, after as many passes as there are slaves and one more.
\<close>
theorem ROM_search_complete:
  assumes "search_bus ir pn cmd devs idle asked answered" and "idle c" and "card devs < fuel"
  shows "\<exists>sns c'. search_all ir nr fuel ((BUS_first_both ds)\<lparr>ds_search := cmd\<rparr>) pn c = Some (sns, search_done, c')
    \<and> map rom_bits sns = sorted_list_of_set (rom_bits ` devs) \<and> set sns = devs \<and> distinct sns \<and> idle c'"
  using assms by (rule search_bus.search_complete)

definition three_slaves :: "byte list list" where
  "three_slaves = [[0x28,1,2,3,4,5,6,158], [0x10,1,2,3,4,5,6,123], [0x28,1,2,3,4,5,7,192]]"

lemma three_slaves_valid: "filter rom_valid three_slaves = three_slaves"
  by (simp add: three_slaves_def rom_valid_def CRC8compute_def crc8_step_def crc8_table_def)

definition three_slave_line :: "wire connection_in" where
  "three_slave_line = initial_connection \<lparr>w_devs = three_slaves, w_alarmed = [], w_active = [], w_phase = Ignore\<rparr>"

theorem ROM_search_complete_witness:
  "\<exists>sns c'. search_all sim_routines True 4 ((BUS_first_both \<lparr>LastDiscrepancy = 0, LastDevice = False, ds_index = 0,
       ds_sn = [], ds_search = 0, ds_gulp = DirblobInit\<rparr>)\<lparr>ds_search := SEARCH_ROM\<rparr>) root_pn three_slave_line
      = Some (sns, search_done, c') \<and> set sns = set three_slaves \<and> distinct sns"
proof -
  have "card (set three_slaves) < 4"
    using card_length [of three_slaves] by (simp add: three_slaves_def)
  moreover have "sim_idle SEARCH_ROM three_slaves three_slave_line"
    by (simp add: sim_idle_def three_slave_line_def initial_connection_def participants_def)
  ultimately show ?thesis
    using ROM_search_complete [OF wire.search_bus_axioms [of three_slaves], unfolded three_slaves_valid] by blast
qed

text \<open>
  The whole stack on the simulated line, from \<^verbatim>\<open>BUS_select\<close> through the byte and bit routines to the
  slots: the search lists exactly the slaves on the line, and the conditional search exactly those among
  them that have an alarm, each once and in increasing order.
\<close>
theorem simulated_line_searched:
  assumes "list_all rom_valid (w_devs (hardware c))" and "set (w_alarmed (hardware c)) \<subseteq> set (w_devs (hardware c))"
    and "hub_branch (branch c) = eBranch_cleared"
  shows "(\<exists>sns c'. search_all sim_routines nr (length (w_devs (hardware c)) + 1)
        ((BUS_first_both ds)\<lparr>ds_search := SEARCH_ROM\<rparr>) root_pn c = Some (sns, search_done, c')
      \<and> set sns = set (w_devs (hardware c)) \<and> distinct sns \<and> sorted (map rom_bits sns))
    \<and> (\<exists>sns c'. search_all sim_routines nr (length (w_alarmed (hardware c)) + 1)
        ((BUS_first_both ds)\<lparr>ds_search := CONDITIONAL_SEARCH_ROM\<rparr>) root_pn c = Some (sns, search_done, c')
      \<and> set sns = set (w_alarmed (hardware c)) \<and> distinct sns \<and> sorted (map rom_bits sns))"
proof -
  let ?devs = "w_devs (hardware c)" and ?al = "w_alarmed (hardware c)"
  have f: "filter rom_valid ?devs = ?devs" "filter rom_valid ?al = ?al"
    using assms(1,2) by (auto simp: list_all_iff filter_id_conv)
  have idle: "sim_idle SEARCH_ROM ?devs c" "sim_idle CONDITIONAL_SEARCH_ROM ?al c"
    using assms by (auto simp: sim_idle_def participants_def SEARCH_ROM_def CONDITIONAL_SEARCH_ROM_def)
  have "card (set ?devs) < length ?devs + 1" "card (set ?al) < length ?al + 1"
    using card_length [of ?devs] card_length [of ?al] by simp_all
  note found = wire.search_complete [of ?devs c, unfolded f, OF idle(1) this(1), of nr ds]
    alarm.search_complete [of ?al c, unfolded f, OF idle(2) this(2), of nr ds]
  from found(1) obtain sns c1 where 1: "search_all sim_routines nr (length ?devs + 1)
      ((BUS_first_both ds)\<lparr>ds_search := SEARCH_ROM\<rparr>) root_pn c = Some (sns, search_done, c1)"
      "map rom_bits sns = sorted_list_of_set (rom_bits ` set ?devs)" "set sns = set ?devs" "distinct sns"
    by (elim exE conjE)
  from found(2) obtain als c2 where 2: "search_all sim_routines nr (length ?al + 1)
      ((BUS_first_both ds)\<lparr>ds_search := CONDITIONAL_SEARCH_ROM\<rparr>) root_pn c = Some (als, search_done, c2)"
      "map rom_bits als = sorted_list_of_set (rom_bits ` set ?al)" "set als = set ?al" "distinct als"
    by (elim exE conjE)
  have "sorted (map rom_bits sns)" "sorted (map rom_bits als)" using 1(2) 2(2) by simp_all
  with 1 2 show ?thesis by (intro conjI exI [of _ sns] exI [of _ c1] exI [of _ als] exI [of _ c2])
qed

lemma three_slave_line_simps:
  "w_devs (hardware three_slave_line) = three_slaves" "w_alarmed (hardware three_slave_line) = []"
  "hub_branch (branch three_slave_line) = eBranch_cleared" "length three_slaves = 3"
  by (simp_all add: three_slave_line_def initial_connection_def three_slaves_def)

theorem simulated_line_searched_witness:
  "\<exists>sns c'. search_all sim_routines True (3 + 1) ((BUS_first_both \<lparr>LastDiscrepancy = 0, LastDevice = False, ds_index = 0,
       ds_sn = [], ds_search = 0, ds_gulp = DirblobInit\<rparr>)\<lparr>ds_search := SEARCH_ROM\<rparr>) root_pn three_slave_line
      = Some (sns, search_done, c') \<and> set sns = set three_slaves \<and> distinct sns \<and> sorted (map rom_bits sns)"
proof -
  have "list_all rom_valid three_slaves"
    by (simp add: three_slaves_def rom_valid_def CRC8compute_def crc8_step_def crc8_table_def)
  then show ?thesis
    using simulated_line_searched [of three_slave_line, unfolded three_slave_line_simps]
    by (auto simp del: search_all.simps)
qed

end
