(* ===== verification/OW_Cache.thy ===== *)
theory OW_Cache
  imports OW_Bus "HOL-Library.AList" "HOL-Library.List_Lexorder"
begin

text \<open>
  \<^verbatim>\<open>ow_cache.c\<close>: values, directories, device locations, internal data and aliases, kept in binary trees
  of the C library. There are two temporary trees, a new one and a retired one, that are flipped when the
  retired one has outlived its time, and a persistent tree; aliases have trees of their own.

  A tree is an association list from keys to nodes (\<^verbatim>\<open>tfind\<close> is \<^const>\<open>map_of\<close>). The time of day is an
  argument \<open>now\<close>; so is the outcome of each allocation. The locks of the code make every operation
  atomic, so an operation is one state change here.
\<close>

section \<open>Keys, nodes and state\<close>

datatype tree_ptr = Directory_Marker | Device_Marker | Alias_Marker | ft_ptr nat | ip_ptr nat

record tree_key =
  tk_sn :: "byte list"
  tk_p :: tree_ptr
  tk_extension :: int

text \<open>\<open>tn_data\<close> is what follows the node in memory: \<open>dsize\<close> bytes, and for an alias a zero more.\<close>

record tree_node =
  tn_expires :: int
  tn_dsize :: nat
  tn_data :: "byte list"

type_synonym tree = "(tree_key \<times> tree_node) list"

datatype alias_value = Bus int | SN "byte list"

text \<open>A node of the persistent alias tree may have been freed while the tree still points to it.\<close>

datatype alias_tree_node = Live int alias_value | Freed

type_synonym alias_tree = "(string \<times> alias_tree_node) list"

record average =
  avg_max :: uint
  avg_sum :: uint
  avg_count :: uint
  avg_current :: uint

record cache_stats =
  st_tries :: uint
  st_hits :: uint
  st_adds :: uint
  st_expires :: uint
  st_deletes :: uint

datatype stat_id = cache_ext | cache_int | cache_dir | cache_dev | cache_pst

record cache_data =
  temporary_tree_new :: tree
  temporary_tree_old :: tree
  persistent_tree :: tree
  temporary_alias_tree_new :: alias_tree
  temporary_alias_tree_old :: alias_tree
  persistent_alias_tree :: alias_tree
  old_ram_size :: nat
  new_ram_size :: nat
  time_retired :: int
  time_to_kill :: int
  retired_lifespan :: int
  added :: uint
  cache_flips :: uint
  cache_adds :: uint
  new_avg :: average
  old_avg :: average
  store_avg :: average
  stats :: "stat_id \<Rightarrow> cache_stats"

record globals =
  timeout_volatile :: int
  timeout_stable :: int
  timeout_presence :: int
  timeout_directory :: int
  g_cache_size :: nat

datatype fc_change =
    fc_static | fc_stable | fc_read_stable | fc_volatile | fc_simultaneous_temperature
  | fc_simultaneous_voltage | fc_uncached | fc_second | fc_statistic | fc_persistent | fc_directory
  | fc_presence | fc_link | fc_page | fc_subdir

datatype ft_format =
    ft_unknown | ft_directory | ft_subdir | ft_integer | ft_unsigned | ft_float | ft_alias | ft_ascii
  | ft_vascii | ft_binary | ft_yesno | ft_date | ft_bitfield | ft_temperature | ft_tempgap | ft_pressure

datatype ag_combined = ag_separate | ag_aggregate | ag_mixed | ag_sparse

record aggregate =
  ag_elements :: nat
  ag_comb :: ag_combined

record filetype =
  ft_id :: nat
  ft_form :: ft_format
  ft_change :: fc_change
  ft_ag :: "aggregate option"

record internal_prop =
  ip_name :: nat
  ip_change :: fc_change

datatype bus_mode = bus_fake | bus_tester | bus_mock | bus_w1 | bus_bad | bus_unknown | bus_real

text \<open>The part of \<^verbatim>\<open>struct parsedname\<close> the cache reads; the connection is its index and bus mode.\<close>

record cache_pn =
  cp_sn :: "byte list"
  cp_filetype :: filetype
  cp_extension :: int
  cp_alarm_dir :: bool
  cp_uncached_dir :: bool
  cp_connection :: "(int \<times> bus_mode) option"
  cp_bp :: "ds2409_hubs list"

definition EXTENSION_ALL :: int where "EXTENSION_ALL = - 1"
definition EXTENSION_BYTE :: int where "EXTENSION_BYTE = - 2"
definition EXTENSION_INTERNAL :: int where "EXTENSION_INTERNAL = - 2"

definition sizeof_pointer :: nat where "sizeof_pointer = 8"
definition sizeof_value_object :: nat where "sizeof_value_object = 8"

definition LoadTK :: "byte list \<Rightarrow> tree_ptr \<Rightarrow> int \<Rightarrow> tree_key" where
  "LoadTK sn p extension = \<lparr>tk_sn = take 8 sn, tk_p = p, tk_extension = extension\<rparr>"

definition TimeOut :: "globals \<Rightarrow> fc_change \<Rightarrow> int" where
  "TimeOut g change =
     (case change of
        fc_second \<Rightarrow> 1
      | fc_persistent \<Rightarrow> 1
      | fc_volatile \<Rightarrow> timeout_volatile g
      | fc_simultaneous_temperature \<Rightarrow> timeout_volatile g
      | fc_simultaneous_voltage \<Rightarrow> timeout_volatile g
      | fc_stable \<Rightarrow> timeout_stable g
      | fc_read_stable \<Rightarrow> timeout_stable g
      | fc_presence \<Rightarrow> timeout_presence g
      | fc_directory \<Rightarrow> timeout_directory g
      | _ \<Rightarrow> 0)"

definition get_busmode :: "(int \<times> bus_mode) option \<Rightarrow> bus_mode" where
  "get_busmode conn = (case conn of None \<Rightarrow> bus_unknown | Some (_, mode) \<Rightarrow> mode)"

definition IsThisPersistent :: "cache_pn \<Rightarrow> bool" where
  "IsThisPersistent pn \<longleftrightarrow> ft_change (cp_filetype pn) = fc_persistent \<or> get_busmode (cp_connection pn) = bus_mock"

fun branch_byte :: "ds2409_branch \<Rightarrow> byte" where
  "branch_byte eBranch_main = 0"
| "branch_byte eBranch_aux = 1"
| "branch_byte eBranch_cleared = 0xFE"
| "branch_byte eBranch_bad = 0xFF"

text \<open>The serial number \<^verbatim>\<open>FS_LoadDirectoryOnly\<close> leaves: zero for the root, the last hub with the branch in
  the place of its checksum for a branch.\<close>

definition FS_LoadDirectoryOnly_sn :: "ds2409_hubs list \<Rightarrow> byte list" where
  "FS_LoadDirectoryOnly_sn bp =
     (if bp = [] then replicate 8 0
      else take 7 (hub_sn (last bp)) @ [branch_byte (hub_branch (last bp))])"

section \<open>Statistics\<close>

definition AVERAGE_IN :: "average \<Rightarrow> average" where
  "AVERAGE_IN a =
     (let a = a\<lparr>avg_current := avg_current a + 1, avg_count := avg_count a + 1\<rparr>;
          a = a\<lparr>avg_sum := avg_sum a + avg_current a\<rparr>
      in if avg_current a > avg_max a then a\<lparr>avg_max := avg_max a + 1\<rparr> else a)"

definition AVERAGE_OUT :: "average \<Rightarrow> average" where
  "AVERAGE_OUT a = a\<lparr>avg_current := avg_current a - 1\<rparr>"

definition AVERAGE_MARK :: "average \<Rightarrow> average" where
  "AVERAGE_MARK a = a\<lparr>avg_count := avg_count a + 1, avg_sum := avg_sum a + avg_current a\<rparr>"

definition AVERAGE_CLEAR :: "average \<Rightarrow> average" where
  "AVERAGE_CLEAR a = a\<lparr>avg_current := 0\<rparr>"

definition bump :: "stat_id \<Rightarrow> (cache_stats \<Rightarrow> cache_stats) \<Rightarrow> cache_data \<Rightarrow> cache_data" where
  "bump i f c = c\<lparr>stats := (stats c)(i := f (stats c i))\<rparr>"

definition Add_Stat :: "stat_id \<Rightarrow> GOOD_OR_BAD \<times> cache_data \<Rightarrow> GOOD_OR_BAD \<times> cache_data" where
  "Add_Stat i rc =
     (case rc of (result, c) \<Rightarrow>
        (result, if GOOD result then bump i (\<lambda>s. s\<lparr>st_adds := st_adds s + 1\<rparr>) c else c))"

datatype cache_task_return = ctr_ok | ctr_not_found | ctr_expired | ctr_size_mismatch

definition Get_Stat :: "stat_id \<Rightarrow> cache_task_return \<Rightarrow> cache_data \<Rightarrow> GOOD_OR_BAD \<times> cache_data" where
  "Get_Stat i result c =
     (let c = bump i (\<lambda>s. s\<lparr>st_tries := st_tries s + 1\<rparr>) c in
      case result of
        ctr_expired \<Rightarrow> (gbBAD, bump i (\<lambda>s. s\<lparr>st_expires := st_expires s + 1\<rparr>) c)
      | ctr_ok \<Rightarrow> (gbGOOD, bump i (\<lambda>s. s\<lparr>st_hits := st_hits s + 1\<rparr>) c)
      | _ \<Rightarrow> (gbBAD, c))"

definition Del_Stat :: "stat_id \<Rightarrow> GOOD_OR_BAD \<times> cache_data \<Rightarrow> cache_data" where
  "Del_Stat i rc =
     (case rc of (result, c) \<Rightarrow>
        if GOOD result then bump i (\<lambda>s. s\<lparr>st_deletes := st_deletes s + 1\<rparr>) c else c)"

section \<open>Flipping the trees\<close>

definition FlipTree :: "int \<Rightarrow> cache_data \<Rightarrow> cache_data" where
  "FlipTree now c =
     c\<lparr>temporary_tree_old := temporary_tree_new c,
       old_ram_size := new_ram_size c,
       temporary_alias_tree_old := temporary_alias_tree_new c,
       temporary_tree_new := [],
       temporary_alias_tree_new := [],
       new_ram_size := 0,
       added := 0,
       time_retired := now,
       time_to_kill := now + retired_lifespan c,
       cache_flips := cache_flips c + 1,
       old_avg := new_avg c,
       new_avg := AVERAGE_CLEAR (new_avg c)\<rparr>"

text \<open>\<^verbatim>\<open>Cache_Open\<close> clears \<^verbatim>\<open>struct cache_data\<close> only; the statistics are globals of their own.\<close>

definition Cache_Open :: "globals \<Rightarrow> int \<Rightarrow> cache_data \<Rightarrow> cache_data" where
  "Cache_Open g now c =
     FlipTree now
       (c\<lparr>temporary_tree_new := [], temporary_tree_old := [], persistent_tree := [],
          temporary_alias_tree_new := [], temporary_alias_tree_old := [], persistent_alias_tree := [],
          old_ram_size := 0, new_ram_size := 0, time_retired := 0, time_to_kill := 0,
          retired_lifespan := min (TimeOut g fc_stable) 3600, added := 0\<rparr>)"

definition Cache_Clear :: "int \<Rightarrow> cache_data \<Rightarrow> cache_data" where
  "Cache_Clear now c = FlipTree now (FlipTree now c)"

definition Cache_Close :: "int \<Rightarrow> cache_data \<Rightarrow> cache_data" where
  "Cache_Close now c = (Cache_Clear now c)\<lparr>persistent_tree := [], persistent_alias_tree := []\<rparr>"

section \<open>Adding\<close>

text \<open>\<^verbatim>\<open>tsearch\<close>: an existing node is found without allocation and then replaced; a new one needs memory.\<close>

definition tsearch_ok :: "bool \<Rightarrow> 'k \<Rightarrow> ('k \<times> 'n) list \<Rightarrow> bool" where
  "tsearch_ok tok k t \<longleftrightarrow> map_of t k \<noteq> None \<or> tok"

definition retire_if_old :: "int \<Rightarrow> cache_data \<Rightarrow> cache_data" where
  "retire_if_old now c = (if time_to_kill c < now then FlipTree now c else c)"

definition cache_full :: "globals \<Rightarrow> cache_data \<Rightarrow> bool" where
  "cache_full g c \<longleftrightarrow> g_cache_size g \<noteq> 0 \<and> old_ram_size c + new_ram_size c > g_cache_size g"

definition Cache_Add_Common :: "globals \<Rightarrow> int \<Rightarrow> bool \<Rightarrow> tree_key \<Rightarrow> tree_node \<Rightarrow> cache_data \<Rightarrow> GOOD_OR_BAD \<times> cache_data" where
  "Cache_Add_Common g now tok k tn c =
     (let c = retire_if_old now c in
      if cache_full g c then (gbBAD, c)
      else if tsearch_ok tok k (temporary_tree_new c) then
        let update = map_of (temporary_tree_new c) k \<noteq> None;
            c = c\<lparr>temporary_tree_new := AList.update k tn (temporary_tree_new c),
                  new_ram_size := new_ram_size c + (if update then 0 else sizeof_pointer)\<rparr>
        in (gbGOOD, c\<lparr>new_avg := (if update then AVERAGE_MARK (new_avg c) else AVERAGE_IN (new_avg c)),
                      cache_adds := cache_adds c + 1\<rparr>)
      else (gbBAD, c))"

definition Cache_Add_Persistent :: "bool \<Rightarrow> tree_key \<Rightarrow> tree_node \<Rightarrow> cache_data \<Rightarrow> GOOD_OR_BAD \<times> cache_data" where
  "Cache_Add_Persistent tok k tn c =
     (if tsearch_ok tok k (persistent_tree c) then
        let update = map_of (persistent_tree c) k \<noteq> None in
        (gbGOOD, c\<lparr>persistent_tree := AList.update k tn (persistent_tree c),
                   store_avg := (if update then AVERAGE_MARK (store_avg c) else AVERAGE_IN (store_avg c))\<rparr>)
      else (gbBAD, c))"

text \<open>\<open>mok\<close> is the allocation of the node, \<open>tok\<close> that of \<^verbatim>\<open>tsearch\<close>.\<close>

definition Cache_Add :: "globals \<Rightarrow> int \<Rightarrow> bool \<Rightarrow> bool \<Rightarrow> byte list \<Rightarrow> cache_pn option \<Rightarrow> cache_data \<Rightarrow> GOOD_OR_BAD \<times> cache_data" where
  "Cache_Add g now mok tok data pn c =
     (case pn of None \<Rightarrow> (gbGOOD, c)
      | Some pn \<Rightarrow>
          if cp_alarm_dir pn then (gbGOOD, c)
          else
            let persistent = IsThisPersistent pn;
                duration = (if persistent then 1 else TimeOut g (ft_change (cp_filetype pn)))
            in if \<not> persistent \<and> duration \<le> 0 then (gbGOOD, c)
               else if \<not> mok then (gbBAD, c)
               else
                 let k = LoadTK (cp_sn pn) (ft_ptr (ft_id (cp_filetype pn))) (cp_extension pn);
                     tn = \<lparr>tn_expires = duration + now, tn_dsize = length data, tn_data = data\<rparr>
                 in if persistent then Add_Stat cache_pst (Cache_Add_Persistent tok k tn c)
                    else Add_Stat cache_ext (Cache_Add_Common g now tok k tn c))"

section \<open>Deleting\<close>

definition expire_node :: "int \<Rightarrow> tree_key \<Rightarrow> tree_node \<Rightarrow> tree \<Rightarrow> tree" where
  "expire_node now k tn t = AList.update k (tn\<lparr>tn_expires := now - 1\<rparr>) t"

definition Cache_Del_Common :: "int \<Rightarrow> tree_key \<Rightarrow> cache_data \<Rightarrow> GOOD_OR_BAD \<times> cache_data" where
  "Cache_Del_Common now k c =
     (case map_of (temporary_tree_new c) k of
        Some tn \<Rightarrow> (gbGOOD, c\<lparr>temporary_tree_new := expire_node now k tn (temporary_tree_new c)\<rparr>)
      | None \<Rightarrow>
          if time_to_kill c > now then
            (case map_of (temporary_tree_old c) k of
               Some tn \<Rightarrow> (gbGOOD, c\<lparr>temporary_tree_old := expire_node now k tn (temporary_tree_old c)\<rparr>)
             | None \<Rightarrow> (gbBAD, c))
          else (gbBAD, c))"

definition Cache_Del_Persistent :: "tree_key \<Rightarrow> cache_data \<Rightarrow> GOOD_OR_BAD \<times> cache_data" where
  "Cache_Del_Persistent k c =
     (case map_of (persistent_tree c) k of
        None \<Rightarrow> (gbBAD, c)
      | Some _ \<Rightarrow> (gbGOOD, c\<lparr>persistent_tree := AList.delete k (persistent_tree c),
                              store_avg := AVERAGE_OUT (store_avg c)\<rparr>))"

definition del_filetype :: "int \<Rightarrow> fc_change \<Rightarrow> tree_key \<Rightarrow> cache_data \<Rightarrow> cache_data" where
  "del_filetype now change k c =
     (if change = fc_persistent then Del_Stat cache_pst (Cache_Del_Persistent k c)
      else Del_Stat cache_ext (Cache_Del_Common now k c))"

definition Cache_Del :: "globals \<Rightarrow> int \<Rightarrow> cache_pn option \<Rightarrow> cache_data \<Rightarrow> cache_data" where
  "Cache_Del g now pn c =
     (case pn of None \<Rightarrow> c
      | Some pn \<Rightarrow>
          let change = ft_change (cp_filetype pn) in
          if TimeOut g change \<le> 0 then c
          else del_filetype now change (LoadTK (cp_sn pn) (ft_ptr (ft_id (cp_filetype pn))) (cp_extension pn)) c)"

definition OWQ_Cache_Del :: "globals \<Rightarrow> int \<Rightarrow> cache_pn \<Rightarrow> cache_data \<Rightarrow> cache_data" where
  "OWQ_Cache_Del g now pn c = Cache_Del g now (Some pn) c"

definition OWQ_Cache_Del_ALL :: "globals \<Rightarrow> int \<Rightarrow> cache_pn \<Rightarrow> cache_data \<Rightarrow> cache_data" where
  "OWQ_Cache_Del_ALL g now pn c = Cache_Del g now (Some (pn\<lparr>cp_extension := EXTENSION_ALL\<rparr>)) c"

definition OWQ_Cache_Del_BYTE :: "globals \<Rightarrow> int \<Rightarrow> cache_pn \<Rightarrow> cache_data \<Rightarrow> cache_data" where
  "OWQ_Cache_Del_BYTE g now pn c = Cache_Del g now (Some (pn\<lparr>cp_extension := EXTENSION_BYTE\<rparr>)) c"

definition OWQ_Cache_Del_parts :: "globals \<Rightarrow> int \<Rightarrow> cache_pn \<Rightarrow> cache_data \<Rightarrow> cache_data" where
  "OWQ_Cache_Del_parts g now pn c =
     (case ft_ag (cp_filetype pn) of
        Some ag \<Rightarrow> foldl (\<lambda>c i. Cache_Del g now (Some (pn\<lparr>cp_extension := int i\<rparr>)) c) c (rev [0..<ag_elements ag])
      | None \<Rightarrow> Cache_Del g now (Some pn) c)"

definition mixed_aggregate :: "cache_pn \<Rightarrow> nat option" where
  "mixed_aggregate pn =
     (case ft_ag (cp_filetype pn) of
        Some ag \<Rightarrow> if ag_comb ag = ag_mixed then Some (ag_elements ag) else None
      | None \<Rightarrow> None)"

definition Cache_Del_Mixed_Individual :: "globals \<Rightarrow> int \<Rightarrow> cache_pn option \<Rightarrow> cache_data \<Rightarrow> cache_data" where
  "Cache_Del_Mixed_Individual g now pn c =
     (case pn of None \<Rightarrow> c
      | Some pn \<Rightarrow>
          (case mixed_aggregate pn of None \<Rightarrow> c
           | Some elements \<Rightarrow>
               let change = ft_change (cp_filetype pn) in
               if TimeOut g change \<le> 0 then c
               else foldl (\<lambda>c i. del_filetype now change (LoadTK (cp_sn pn) (ft_ptr (ft_id (cp_filetype pn))) (int i)) c)
                      c (rev [0..<elements])))"

definition Cache_Del_Mixed_Aggregate :: "globals \<Rightarrow> int \<Rightarrow> cache_pn option \<Rightarrow> cache_data \<Rightarrow> cache_data" where
  "Cache_Del_Mixed_Aggregate g now pn c =
     (case pn of None \<Rightarrow> c
      | Some pn \<Rightarrow>
          (case mixed_aggregate pn of None \<Rightarrow> c
           | Some elements \<Rightarrow>
               let change = ft_change (cp_filetype pn) in
               if TimeOut g change \<le> 0 then c
               else del_filetype now change (LoadTK (cp_sn pn) (ft_ptr (ft_id (cp_filetype pn))) EXTENSION_ALL) c))"

definition dir_key :: "cache_pn \<Rightarrow> int \<Rightarrow> tree_key" where
  "dir_key pn index = LoadTK (FS_LoadDirectoryOnly_sn (cp_bp pn)) Directory_Marker index"

text \<open>The directory operations dereference the connection; \<^const>\<open>None\<close> is a \<^verbatim>\<open>NULL\<close> one.\<close>

definition Cache_Del_Dir :: "int \<Rightarrow> cache_pn \<Rightarrow> cache_data \<Rightarrow> cache_data option" where
  "Cache_Del_Dir now pn c =
     map_option (\<lambda>(index, _). Del_Stat cache_dir (Cache_Del_Common now (dir_key pn index) c)) (cp_connection pn)"

definition Cache_Del_Simul :: "int \<Rightarrow> internal_prop \<Rightarrow> cache_pn \<Rightarrow> cache_data \<Rightarrow> cache_data" where
  "Cache_Del_Simul now ip pn c =
     Del_Stat cache_dir (Cache_Del_Common now (LoadTK (FS_LoadDirectoryOnly_sn (cp_bp pn)) (ip_ptr (ip_name ip)) 0) c)"

definition Cache_Del_Device :: "globals \<Rightarrow> int \<Rightarrow> cache_pn \<Rightarrow> cache_data \<Rightarrow> cache_data" where
  "Cache_Del_Device g now pn c =
     (if TimeOut g fc_presence \<le> 0 then c
      else Del_Stat cache_dev (Cache_Del_Common now (LoadTK (cp_sn pn) Device_Marker 0) c))"

definition Cache_Del_Internal :: "globals \<Rightarrow> int \<Rightarrow> internal_prop \<Rightarrow> cache_pn option \<Rightarrow> cache_data \<Rightarrow> cache_data" where
  "Cache_Del_Internal g now ip pn c =
     (case pn of None \<Rightarrow> c
      | Some pn \<Rightarrow>
          if TimeOut g (ip_change ip) \<le> 0 then c
          else
            let k = LoadTK (cp_sn pn) (ip_ptr (ip_name ip)) 0 in
            if ip_change ip = fc_persistent then Del_Stat cache_pst (Cache_Del_Persistent k c)
            else Del_Stat cache_int (Cache_Del_Common now k c))"

section \<open>The other additions\<close>

definition Cache_Add_Dir :: "globals \<Rightarrow> int \<Rightarrow> bool \<Rightarrow> bool \<Rightarrow> dirblob \<Rightarrow> cache_pn option \<Rightarrow> cache_data \<Rightarrow> GOOD_OR_BAD \<times> cache_data" where
  "Cache_Add_Dir g now mok tok db pn c =
     (case pn of None \<Rightarrow> (gbGOOD, c)
      | Some pn \<Rightarrow>
          (case cp_connection pn of None \<Rightarrow> (gbGOOD, c)
           | Some (index, mode) \<Rightarrow>
               if mode \<in> {bus_fake, bus_tester, bus_mock, bus_w1, bus_bad, bus_unknown} then (gbGOOD, c)
               else if TimeOut g fc_directory \<le> 0 then (gbGOOD, c)
               else if DirblobElements db < 1 then
                 (gbGOOD, Del_Stat cache_dir (Cache_Del_Common now (dir_key pn index) c))
               else if \<not> mok then (gbBAD, c)
               else
                 let tn = \<lparr>tn_expires = TimeOut g fc_directory + now,
                           tn_dsize = 8 * DirblobElements db, tn_data = dirblob_bytes db\<rparr>
                 in Add_Stat cache_dir (Cache_Add_Common g now tok (dir_key pn index) tn c)))"

definition Cache_Add_Simul :: "globals \<Rightarrow> int \<Rightarrow> bool \<Rightarrow> bool \<Rightarrow> internal_prop \<Rightarrow> cache_pn option \<Rightarrow> cache_data \<Rightarrow> GOOD_OR_BAD \<times> cache_data" where
  "Cache_Add_Simul g now mok tok ip pn c =
     (case pn of None \<Rightarrow> (gbGOOD, c)
      | Some pn \<Rightarrow>
          if cp_connection pn = None then (gbGOOD, c)
          else if TimeOut g (ip_change ip) \<le> 0 then (gbGOOD, c)
          else if \<not> mok then (gbBAD, c)
          else Add_Stat cache_dir (Cache_Add_Common g now tok (LoadTK (cp_sn pn) (ip_ptr (ip_name ip)) 0)
                 \<lparr>tn_expires = TimeOut g (ip_change ip) + now, tn_dsize = 0, tn_data = []\<rparr> c))"

text \<open>The bus number is stored as the four bytes of an \<^verbatim>\<open>int\<close>.\<close>

definition int_bytes :: "int \<Rightarrow> byte list" where
  "int_bytes i = UT_uint32_to_bytes (word_of_int i)"

definition Cache_Add_Device :: "globals \<Rightarrow> int \<Rightarrow> bool \<Rightarrow> bool \<Rightarrow> int \<Rightarrow> byte list \<Rightarrow> cache_data \<Rightarrow> GOOD_OR_BAD \<times> cache_data" where
  "Cache_Add_Device g now mok tok bus_nr sn c =
     (if TimeOut g fc_presence \<le> 0 then (gbGOOD, c)
      else if sn ! 0 = 0 then (gbGOOD, c)
      else if \<not> mok then (gbBAD, c)
      else Add_Stat cache_dev (Cache_Add_Common g now tok (LoadTK sn Device_Marker 0)
             \<lparr>tn_expires = TimeOut g fc_presence + now, tn_dsize = 4, tn_data = int_bytes bus_nr\<rparr> c))"

definition Cache_Add_SlaveSpecific ::
  "globals \<Rightarrow> int \<Rightarrow> bool \<Rightarrow> bool \<Rightarrow> byte list \<Rightarrow> internal_prop \<Rightarrow> cache_pn option \<Rightarrow> cache_data \<Rightarrow> GOOD_OR_BAD \<times> cache_data" where
  "Cache_Add_SlaveSpecific g now mok tok data ip pn c =
     (case pn of None \<Rightarrow> (gbGOOD, c)
      | Some pn \<Rightarrow>
          if TimeOut g (ip_change ip) \<le> 0 then (gbGOOD, c)
          else if \<not> mok then (gbBAD, c)
          else
            let k = LoadTK (cp_sn pn) (ip_ptr (ip_name ip)) EXTENSION_INTERNAL;
                tn = \<lparr>tn_expires = TimeOut g (ip_change ip) + now, tn_dsize = length data, tn_data = data\<rparr>
            in if ip_change ip = fc_persistent then Add_Stat cache_pst (Cache_Add_Persistent tok k tn c)
               else Add_Stat cache_int (Cache_Add_Common g now tok k tn c))"

section \<open>Looking up\<close>

text \<open>Result, size and data copied out, and the time left.\<close>

definition Cache_Get_Common ::
  "int \<Rightarrow> nat \<Rightarrow> int \<Rightarrow> tree_key \<Rightarrow> cache_data \<Rightarrow> cache_task_return \<times> nat \<times> int \<times> byte list" where
  "Cache_Get_Common now dsize duration k c =
     (case (case map_of (temporary_tree_new c) k of
              Some tn \<Rightarrow> Some tn
            | None \<Rightarrow> if time_retired c + duration > now then map_of (temporary_tree_old c) k else None)
      of None \<Rightarrow> (ctr_not_found, dsize, duration, [])
       | Some tn \<Rightarrow>
           (let duration = tn_expires tn - now in
            if duration > 0 then
              if dsize \<ge> tn_dsize tn then (ctr_ok, tn_dsize tn, duration, take (tn_dsize tn) (tn_data tn))
              else (ctr_size_mismatch, dsize, duration, [])
            else (ctr_expired, dsize, duration, [])))"

definition Cache_Get_Common_Dir ::
  "int \<Rightarrow> bool \<Rightarrow> int \<Rightarrow> tree_key \<Rightarrow> cache_data \<Rightarrow> cache_task_return \<times> int \<times> dirblob" where
  "Cache_Get_Common_Dir now ok duration k c =
     (case (case map_of (temporary_tree_new c) k of
              Some tn \<Rightarrow> Some tn
            | None \<Rightarrow> if time_retired c + duration > now then map_of (temporary_tree_old c) k else None)
      of None \<Rightarrow> (ctr_not_found, duration, DirblobInit)
       | Some tn \<Rightarrow>
           (let duration = tn_expires tn - now in
            if duration \<ge> 0 then
              (case DirblobRecreate ok (take (tn_dsize tn) (tn_data tn)) of (ret, db) \<Rightarrow>
                 (if ret = 0 then ctr_ok else ctr_size_mismatch, duration, db))
            else (ctr_expired, duration, DirblobInit)))"

definition Cache_Get_Persistent :: "nat \<Rightarrow> tree_key \<Rightarrow> cache_data \<Rightarrow> cache_task_return \<times> nat \<times> byte list" where
  "Cache_Get_Persistent dsize k c =
     (case map_of (persistent_tree c) k of
        None \<Rightarrow> (ctr_not_found, dsize, [])
      | Some tn \<Rightarrow>
          if dsize \<ge> tn_dsize tn then (ctr_ok, tn_dsize tn, take (tn_dsize tn) (tn_data tn))
          else (ctr_size_mismatch, dsize, []))"

text \<open>The public lookups: verdict, size and data, and the cache with its statistics.\<close>

definition Cache_Get :: "globals \<Rightarrow> int \<Rightarrow> nat \<Rightarrow> cache_pn \<Rightarrow> cache_data \<Rightarrow> (GOOD_OR_BAD \<times> nat \<times> byte list) \<times> cache_data" where
  "Cache_Get g now dsize pn c =
     (if cp_uncached_dir pn \<or> cp_alarm_dir pn then ((gbBAD, dsize, []), c)
      else
        let persistent = IsThisPersistent pn;
            duration = (if persistent then 1 else TimeOut g (ft_change (cp_filetype pn)));
            k = LoadTK (cp_sn pn) (ft_ptr (ft_id (cp_filetype pn))) (cp_extension pn)
        in if \<not> persistent \<and> duration \<le> 0 then ((gbBAD, dsize, []), c)
           else if persistent then
             (case Cache_Get_Persistent dsize k c of (ctr, dsize, data) \<Rightarrow>
                (case Get_Stat cache_pst ctr c of (ret, c) \<Rightarrow> ((ret, dsize, data), c)))
           else
             (case Cache_Get_Common now dsize duration k c of (ctr, dsize, _, data) \<Rightarrow>
                (case Get_Stat cache_ext ctr c of (ret, c) \<Rightarrow> ((ret, dsize, data), c))))"

definition Cache_Get_Strict :: "globals \<Rightarrow> int \<Rightarrow> nat \<Rightarrow> cache_pn \<Rightarrow> cache_data \<Rightarrow> (GOOD_OR_BAD \<times> byte list) \<times> cache_data" where
  "Cache_Get_Strict g now dsize pn c =
     (case Cache_Get g now dsize pn c of ((ret, size', data), c) \<Rightarrow>
        ((if BAD ret then gbBAD else if dsize = size' then gbGOOD else gbBAD, data), c))"

definition Cache_Get_Dir :: "globals \<Rightarrow> int \<Rightarrow> bool \<Rightarrow> cache_pn \<Rightarrow> cache_data \<Rightarrow> ((GOOD_OR_BAD \<times> dirblob) \<times> cache_data) option" where
  "Cache_Get_Dir g now ok pn c =
     (if TimeOut g fc_directory \<le> 0 then Some ((gbBAD, DirblobInit), c)
      else map_option
        (\<lambda>(index, _).
           case Cache_Get_Common_Dir now ok (TimeOut g fc_directory) (dir_key pn index) c of (ctr, _, db) \<Rightarrow>
             (case Get_Stat cache_dir ctr c of (ret, c) \<Rightarrow> ((ret, db), c)))
        (cp_connection pn))"

definition Cache_Get_Device :: "globals \<Rightarrow> int \<Rightarrow> cache_pn \<Rightarrow> cache_data \<Rightarrow> (GOOD_OR_BAD \<times> byte list) \<times> cache_data" where
  "Cache_Get_Device g now pn c =
     (if TimeOut g fc_presence \<le> 0 then ((gbBAD, []), c)
      else (case Cache_Get_Common now 4 (TimeOut g fc_presence) (LoadTK (cp_sn pn) Device_Marker 0) c of
          (ctr, _, _, data) \<Rightarrow> (case Get_Stat cache_dev ctr c of (ret, c) \<Rightarrow> ((ret, data), c))))"

definition Cache_Get_Internal ::
  "globals \<Rightarrow> int \<Rightarrow> nat \<Rightarrow> internal_prop \<Rightarrow> cache_pn option \<Rightarrow> cache_data \<Rightarrow> (GOOD_OR_BAD \<times> nat \<times> byte list) \<times> cache_data" where
  "Cache_Get_Internal g now dsize ip pn c =
     (case pn of None \<Rightarrow> ((gbBAD, dsize, []), c)
      | Some pn \<Rightarrow>
          let duration = TimeOut g (ip_change ip);
              k = LoadTK (cp_sn pn) (ip_ptr (ip_name ip)) EXTENSION_INTERNAL
          in if duration \<le> 0 then ((gbBAD, dsize, []), c)
             else if ip_change ip = fc_persistent then
               (case Cache_Get_Persistent dsize k c of (ctr, dsize, data) \<Rightarrow>
                  (case Get_Stat cache_pst ctr c of (ret, c) \<Rightarrow> ((ret, dsize, data), c)))
             else
               (case Cache_Get_Common now dsize duration k c of (ctr, dsize, _, data) \<Rightarrow>
                  (case Get_Stat cache_int ctr c of (ret, c) \<Rightarrow> ((ret, dsize, data), c))))"

definition Cache_Get_SlaveSpecific ::
  "globals \<Rightarrow> int \<Rightarrow> nat \<Rightarrow> internal_prop \<Rightarrow> cache_pn option \<Rightarrow> cache_data \<Rightarrow> (GOOD_OR_BAD \<times> byte list) \<times> cache_data" where
  "Cache_Get_SlaveSpecific g now dsize ip pn c =
     (case Cache_Get_Internal g now dsize ip pn c of ((ret, size', data), c) \<Rightarrow>
        ((if BAD ret then gbBAD else if dsize = size' then gbGOOD else gbBAD, data), c))"

definition Cache_Get_Simul_Time ::
  "globals \<Rightarrow> int \<Rightarrow> internal_prop \<Rightarrow> cache_pn \<Rightarrow> cache_data \<Rightarrow> int option \<times> cache_data" where
  "Cache_Get_Simul_Time g now ip pn c =
     (let allowed = TimeOut g (ip_change ip) in
      if allowed \<le> 0 then (None, c)
      else (case Cache_Get_Common now 0 allowed (LoadTK (FS_LoadDirectoryOnly_sn (cp_bp pn)) (ip_ptr (ip_name ip)) 0) c of
          (ctr, _, left, _) \<Rightarrow>
            (case Get_Stat cache_int ctr c of (ret, c) \<Rightarrow>
               (if BAD ret then None else Some (allowed - left), c))))"

text \<open>Verdict, the value copied into the query, and the simultaneous flag it leaves: \<^const>\<open>None\<close> is unchanged.\<close>

definition Cache_Get_Simultaneous ::
  "globals \<Rightarrow> int \<Rightarrow> internal_prop \<Rightarrow> cache_pn \<Rightarrow> cache_data \<Rightarrow> (GOOD_OR_BAD \<times> byte list \<times> bool option) \<times> cache_data" where
  "Cache_Get_Simultaneous g now ip pn c =
     (let duration = TimeOut g (ft_change (cp_filetype pn));
          k = LoadTK (cp_sn pn) (ft_ptr (ft_id (cp_filetype pn))) (cp_extension pn)
      in if duration \<le> 0 then ((gbBAD, [], None), c)
         else (case Cache_Get_Common now sizeof_value_object duration k c of (ctr, _, time_left, data) \<Rightarrow>
           (case Get_Stat cache_ext ctr c of (ret, c) \<Rightarrow>
              (case Cache_Get_Simul_Time g now ip pn c of (simul, c) \<Rightarrow>
                 (if GOOD ret then
                    case simul of
                      None \<Rightarrow> (gbGOOD, data, Some False)
                    | Some dwell_time_simul \<Rightarrow>
                        if dwell_time_simul < duration - time_left then (gbBAD, data, Some True)
                        else (gbGOOD, data, Some False)
                  else
                    case simul of None \<Rightarrow> (gbBAD, data, Some False) | Some _ \<Rightarrow> (gbBAD, data, Some True),
                  c)))))"

section \<open>Queries\<close>

text \<open>
  The part of \<^verbatim>\<open>struct one_wire_query\<close> the cache reads and writes. The union \<^verbatim>\<open>val\<close> holds eight bytes for a
  number, the length for a string and the array for an aggregate; each has a field here. \<open>owq_simul\<close> is
  the flag of a simultaneous conversion.
\<close>

record one_wire_query =
  owq_buffer :: "byte list"
  owq_size :: nat
  owq_offset :: int
  owq_val :: "byte list"
  owq_length :: nat
  owq_array :: "byte list"
  owq_simul :: bool
  owq_pn :: cache_pn

definition string_format :: "ft_format \<Rightarrow> bool" where
  "string_format f \<longleftrightarrow> f \<in> {ft_ascii, ft_vascii, ft_alias, ft_binary}"

definition number_format :: "ft_format \<Rightarrow> bool" where
  "number_format f \<longleftrightarrow>
     f \<in> {ft_integer, ft_unsigned, ft_yesno, ft_date, ft_float, ft_pressure, ft_temperature, ft_tempgap}"

text \<open>The size of an aggregate; \<^const>\<open>None\<close> when there is no aggregate to take the elements of.\<close>

definition array_size :: "cache_pn \<Rightarrow> nat option" where
  "array_size pn = map_option (\<lambda>ag. ag_elements ag * sizeof_value_object) (ft_ag (cp_filetype pn))"

definition OWQ_Cache_Add ::
  "globals \<Rightarrow> int \<Rightarrow> bool \<Rightarrow> bool \<Rightarrow> one_wire_query \<Rightarrow> cache_data \<Rightarrow> (GOOD_OR_BAD \<times> cache_data) option" where
  "OWQ_Cache_Add g now mok tok owq c =
     (let pn = owq_pn owq; f = ft_form (cp_filetype pn) in
      if cp_extension pn = EXTENSION_ALL then
        if string_format f then Some (gbBAD, c)
        else if number_format f then
          (case array_size pn of None \<Rightarrow> None
           | Some n \<Rightarrow> Some (Cache_Add g now mok tok (take n (owq_array owq)) (Some pn) c))
        else Some (gbBAD, c)
      else
        if string_format f then
          if owq_offset owq > 0 then Some (gbBAD, c)
          else Some (Cache_Add g now mok tok (take (owq_length owq) (owq_buffer owq)) (Some pn) c)
        else if number_format f then Some (Cache_Add g now mok tok (owq_val owq) (Some pn) c)
        else Some (gbBAD, c))"

definition ip_S_T :: internal_prop where
  "ip_S_T = \<lparr>ip_name = 0, ip_change = fc_volatile\<rparr>"

definition ip_S_V :: internal_prop where
  "ip_S_V = \<lparr>ip_name = 1, ip_change = fc_volatile\<rparr>"

text \<open>\<^verbatim>\<open>memcpy\<close> onto the front of a destination.\<close>

definition overlay :: "byte list \<Rightarrow> byte list \<Rightarrow> byte list" where
  "overlay data dst = data @ drop (length data) dst"

definition OWQ_Cache_Get ::
  "globals \<Rightarrow> int \<Rightarrow> one_wire_query \<Rightarrow> cache_data \<Rightarrow> (GOOD_OR_BAD \<times> one_wire_query \<times> cache_data) option" where
  "OWQ_Cache_Get g now owq c =
     (let pn = owq_pn owq; f = ft_form (cp_filetype pn); change = ft_change (cp_filetype pn) in
      if cp_uncached_dir pn \<or> cp_alarm_dir pn then Some (gbBAD, owq, c)
      else if change = fc_simultaneous_temperature \<or> change = fc_simultaneous_voltage then
        (case Cache_Get_Simultaneous g now ip_S_T pn c of ((ret, data, simul), c) \<Rightarrow>
           Some (ret, owq\<lparr>owq_val := overlay data (owq_val owq),
                          owq_simul := (case simul of None \<Rightarrow> owq_simul owq | Some b \<Rightarrow> b)\<rparr>, c))
      else if cp_extension pn = EXTENSION_ALL then
        if string_format f then Some (gbBAD, owq, c)
        else if number_format f then
          (case array_size pn of None \<Rightarrow> None
           | Some n \<Rightarrow>
               (case Cache_Get_Strict g now n pn c of ((ret, data), c) \<Rightarrow>
                  Some (ret, owq\<lparr>owq_array := overlay data (owq_array owq)\<rparr>, c)))
        else Some (gbBAD, owq, c)
      else
        if string_format f then
          if owq_offset owq > 0 then Some (gbBAD, owq, c)
          else
            (case Cache_Get g now (owq_size owq) pn c of ((ret, size', data), c) \<Rightarrow>
               Some (ret, owq\<lparr>owq_length := size', owq_buffer := overlay data (owq_buffer owq)\<rparr>, c))
        else if number_format f then
          (case Cache_Get_Strict g now sizeof_value_object pn c of ((ret, data), c) \<Rightarrow>
             Some (ret, owq\<lparr>owq_val := overlay data (owq_val owq)\<rparr>, c))
        else Some (gbBAD, owq, c))"

section \<open>Aliases\<close>

text \<open>
  An alias tree compares length and characters, so its key is the name. The trees of buses are temporary
  and flip with the others; the tree of serial numbers is persistent. A node of the persistent tree that
  has been freed but not taken out makes every later search of the tree undefined, since the search may
  compare with that node: these operations then give \<^const>\<open>None\<close>.
\<close>

definition str_bytes :: "string \<Rightarrow> byte list" where
  "str_bytes s = map (\<lambda>ch. of_nat (of_char ch)) s"

definition Cache_Add_Alias_Common :: "globals \<Rightarrow> int \<Rightarrow> bool \<Rightarrow> string \<Rightarrow> alias_tree_node \<Rightarrow> cache_data \<Rightarrow> cache_data" where
  "Cache_Add_Alias_Common g now tok name atn c =
     (let c = retire_if_old now c; t = temporary_alias_tree_new c in
      if cache_full g c then c
      else if tsearch_ok tok name t then
        c\<lparr>temporary_alias_tree_new := AList.update name atn t,
          new_ram_size := new_ram_size c + (if map_of t name \<noteq> None then 0 else sizeof_pointer)\<rparr>
      else c)"

definition Cache_Add_Alias_Bus :: "globals \<Rightarrow> int \<Rightarrow> bool \<Rightarrow> bool \<Rightarrow> string \<Rightarrow> int \<Rightarrow> cache_data \<Rightarrow> cache_data" where
  "Cache_Add_Alias_Bus g now mok tok alias_name bus c =
     (if \<not> mok then c
      else if alias_name = [] then c
      else Cache_Add_Alias_Common g now tok alias_name (Live (TimeOut g fc_presence + now) (Bus bus)) c)"

definition Cache_Del_Alias_Bus :: "globals \<Rightarrow> int \<Rightarrow> bool \<Rightarrow> bool \<Rightarrow> string \<Rightarrow> cache_data \<Rightarrow> cache_data" where
  "Cache_Del_Alias_Bus g now mok tok alias_name c = Cache_Add_Alias_Bus g now mok tok alias_name INDEX_BAD c"

definition Cache_Get_Alias_Common :: "int \<Rightarrow> string \<Rightarrow> cache_data \<Rightarrow> int" where
  "Cache_Get_Alias_Common now name c =
     (case (case map_of (temporary_alias_tree_new c) name of
              Some atn \<Rightarrow> Some atn
            | None \<Rightarrow> map_of (temporary_alias_tree_old c) name)
      of Some (Live expires (Bus bus)) \<Rightarrow> if expires > now then bus else INDEX_BAD
       | _ \<Rightarrow> INDEX_BAD)"

definition Cache_Get_Alias_Bus :: "int \<Rightarrow> bool \<Rightarrow> string \<Rightarrow> cache_data \<Rightarrow> int" where
  "Cache_Get_Alias_Bus now mok alias_name c =
     (if \<not> mok then INDEX_BAD
      else if alias_name = [] then INDEX_BAD
      else Cache_Get_Alias_Common now alias_name c)"

definition alias_tree_sound :: "alias_tree \<Rightarrow> bool" where
  "alias_tree_sound t \<longleftrightarrow> (\<forall>(name, atn) \<in> set t. atn \<noteq> Freed)"

definition Cache_Add_Alias_Persistent :: "bool \<Rightarrow> string \<Rightarrow> alias_tree_node \<Rightarrow> cache_data \<Rightarrow> cache_data option" where
  "Cache_Add_Alias_Persistent tok name atn c =
     (let t = persistent_alias_tree c in
      if \<not> alias_tree_sound t then None
      else Some (if tsearch_ok tok name t then c\<lparr>persistent_alias_tree := AList.update name atn t\<rparr> else c))"

definition Cache_Add_Alias_SN :: "int \<Rightarrow> bool \<Rightarrow> bool \<Rightarrow> string \<Rightarrow> byte list \<Rightarrow> cache_data \<Rightarrow> cache_data option" where
  "Cache_Add_Alias_SN now mok tok alias_name sn c =
     (if \<not> mok then Some c
      else if alias_name = [] then Some c
      else Cache_Add_Alias_Persistent tok alias_name (Live now (SN (take 8 sn))) c)"

text \<open>The outcomes of the four allocations, in the order they happen.\<close>

definition Cache_Add_Alias ::
  "int \<Rightarrow> bool \<Rightarrow> bool \<Rightarrow> bool \<Rightarrow> bool \<Rightarrow> string \<Rightarrow> byte list \<Rightarrow> cache_data \<Rightarrow> (GOOD_OR_BAD \<times> cache_data) option" where
  "Cache_Add_Alias now mok amok atok tok name sn c =
     (if name = [] then Some (gbGOOD, c)
      else if \<not> mok then Some (gbBAD, c)
      else map_option
        (\<lambda>c. Add_Stat cache_pst
               (Cache_Add_Persistent tok (LoadTK sn Alias_Marker 0)
                  \<lparr>tn_expires = now, tn_dsize = length name, tn_data = str_bytes name @ [0]\<rparr> c))
        (Cache_Add_Alias_SN now amok atok name sn c))"

definition Cache_Get_Alias :: "bool \<Rightarrow> byte list \<Rightarrow> cache_data \<Rightarrow> byte list option" where
  "Cache_Get_Alias mok sn c =
     (case map_of (persistent_tree c) (LoadTK sn Alias_Marker 0) of
        None \<Rightarrow> None
      | Some tn \<Rightarrow> if mok then Some (take (tn_dsize tn + 1) (tn_data tn)) else None)"

definition Cache_Get_Alias_Persistent :: "string \<Rightarrow> cache_data \<Rightarrow> (GOOD_OR_BAD \<times> byte list) option" where
  "Cache_Get_Alias_Persistent name c =
     (let t = persistent_alias_tree c in
      if \<not> alias_tree_sound t then None
      else (case map_of t name of
              Some (Live _ (SN sn)) \<Rightarrow> Some (gbGOOD, sn)
            | _ \<Rightarrow> Some (gbBAD, [])))"

definition Cache_Get_Alias_SN :: "bool \<Rightarrow> string \<Rightarrow> cache_data \<Rightarrow> (GOOD_OR_BAD \<times> byte list) option" where
  "Cache_Get_Alias_SN mok alias_name c =
     (if alias_name = [] then Some (gbBAD, [])
      else if \<not> mok then Some (gbBAD, [])
      else Cache_Get_Alias_Persistent alias_name c)"

text \<open>The node found is freed and stays in the tree.\<close>

definition Cache_Del_Alias_Persistent :: "string \<Rightarrow> cache_data \<Rightarrow> cache_data option" where
  "Cache_Del_Alias_Persistent name c =
     (let t = persistent_alias_tree c in
      if \<not> alias_tree_sound t then None
      else Some (if map_of t name \<noteq> None then c\<lparr>persistent_alias_tree := AList.update name Freed t\<rparr> else c))"

definition Cache_Del_Alias_SN :: "bool \<Rightarrow> string \<Rightarrow> cache_data \<Rightarrow> cache_data option" where
  "Cache_Del_Alias_SN mok alias_name c =
     (if \<not> mok then Some c else Cache_Del_Alias_Persistent alias_name c)"

definition c_string :: "byte list \<Rightarrow> string" where
  "c_string bs = map (\<lambda>b. char_of (unat b)) (takeWhile (\<lambda>b. b \<noteq> 0) bs)"

definition Cache_Del_Alias :: "bool \<Rightarrow> bool \<Rightarrow> bool \<Rightarrow> byte list \<Rightarrow> cache_data \<Rightarrow> cache_data option" where
  "Cache_Del_Alias gok mok amok sn c =
     (case Cache_Get_Alias gok sn c of
        None \<Rightarrow> Some c
      | Some alias_name \<Rightarrow>
          if mok then
            Cache_Del_Alias_SN amok (c_string alias_name)
              (Del_Stat cache_pst (Cache_Del_Persistent (LoadTK sn Alias_Marker 0) c))
          else Some c)"

text \<open>The pieces one node adds to the list of aliases.\<close>

definition Aliaslistaction :: "tree_key \<times> tree_node \<Rightarrow> byte list list" where
  "Aliaslistaction node =
     (case node of (k, tn) \<Rightarrow>
        if tk_p k \<noteq> Alias_Marker then []
        else [str_bytes (bytes2string (tk_sn k)), str_bytes ''='', take (tn_dsize tn) (tn_data tn), [0x0D, 0x0A]])"

text \<open>\<^verbatim>\<open>twalk\<close> visits the keys in the order of \<^verbatim>\<open>memcmp\<close>; the serial number comes first in a key. Only alias
  nodes print, so the order is that of their serial numbers. \<open>oks\<close> are the outcomes of the allocations.\<close>

definition Aliaslist :: "(nat \<Rightarrow> bool) \<Rightarrow> cache_data \<Rightarrow> memblob \<Rightarrow> memblob option" where
  "Aliaslist oks c mb =
     (let nodes = sort_key (\<lambda>(k, _). tk_sn k) (persistent_tree c);
          pieces = concat (map Aliaslistaction nodes)
      in run_adds MemblobAdd (zip (map oks [0..<length pieces]) pieces) mb)"

end
