(* ===== verification/OW_Store.thy ===== *)
theory OW_Store
  imports OW_Cache
begin

text \<open>
  What the cache promises. A timed store keeps, for each key, the value last added until it is deleted or
  its time is over; the two flipping trees of \<^verbatim>\<open>ow_cache.c\<close> and its persistent tree are both such stores.
  The contract is a locale, proved of a whole history of operations once and then instantiated.
\<close>

section \<open>The contract\<close>

datatype ('o, 'k, 'v) store_op = Put 'o 'k 'v | Drop 'k

text \<open>An effective event: at a time, a key got a value or lost it. Histories are newest first.\<close>

type_synonym ('k, 'v) event = "int \<times> 'k \<times> 'v option"

fun spec_look :: "('k \<Rightarrow> int \<Rightarrow> int \<Rightarrow> bool) \<Rightarrow> int \<Rightarrow> 'k \<Rightarrow> ('k, 'v) event list \<Rightarrow> 'v option" where
  "spec_look fresh t k [] = None"
| "spec_look fresh t k ((at, k', v) # es) =
     (if k' = k then (if fresh k at t then v else None) else spec_look fresh t k es)"

text \<open>Operations in the order of time, with the store they leave and the events that took effect.\<close>

fun store_run ::
  "(int \<Rightarrow> 'o \<Rightarrow> 'k \<Rightarrow> 'v \<Rightarrow> 's \<Rightarrow> GOOD_OR_BAD \<times> 's) \<Rightarrow> (int \<Rightarrow> 'k \<Rightarrow> 's \<Rightarrow> GOOD_OR_BAD \<times> 's) \<Rightarrow>
   (int \<times> ('o, 'k, 'v) store_op) list \<Rightarrow> 's \<times> ('k, 'v) event list \<Rightarrow> 's \<times> ('k, 'v) event list" where
  "store_run add del [] (s, es) = (s, es)"
| "store_run add del ((now, Put oo k v) # ops) (s, es) =
     (case add now oo k v s of (ret, s') \<Rightarrow>
        store_run add del ops (s', if GOOD ret then (now, k, Some v) # es else es))"
| "store_run add del ((now, Drop k) # ops) (s, es) =
     (case del now k s of (ret, s') \<Rightarrow> store_run add del ops (s', (now, k, None) # es))"

definition untouched :: "'k \<Rightarrow> (int \<times> ('o, 'k, 'v) store_op) list \<Rightarrow> bool" where
  "untouched k ops \<longleftrightarrow> (\<forall>(at, p) \<in> set ops. k \<noteq> (case p of Put oo k' v \<Rightarrow> k' | Drop k' \<Rightarrow> k'))"

locale timed_store =
  fixes invar :: "int \<Rightarrow> 's \<Rightarrow> bool"
    and look :: "int \<Rightarrow> 'k \<Rightarrow> 's \<Rightarrow> 'v option"
    and fresh :: "'k \<Rightarrow> int \<Rightarrow> int \<Rightarrow> bool"
    and add :: "int \<Rightarrow> 'o \<Rightarrow> 'k \<Rightarrow> 'v \<Rightarrow> 's \<Rightarrow> GOOD_OR_BAD \<times> 's"
    and del :: "int \<Rightarrow> 'k \<Rightarrow> 's \<Rightarrow> GOOD_OR_BAD \<times> 's"
  assumes later: "invar now s \<Longrightarrow> now \<le> t \<Longrightarrow> invar t s"
    and add_invar: "invar now s \<Longrightarrow> invar now (snd (add now oo k v s))"
    and add_look: "invar now s \<Longrightarrow> now \<le> t \<Longrightarrow>
      look t k' (snd (add now oo k v s)) =
        (if k' = k \<and> GOOD (fst (add now oo k v s)) then (if fresh k now t then Some v else None) else look t k' s)"
    and del_invar: "invar now s \<Longrightarrow> invar now (snd (del now k s))"
    and del_look: "invar now s \<Longrightarrow> now \<le> t \<Longrightarrow>
      look t k' (snd (del now k s)) = (if k' = k then None else look t k' s)"
begin

lemma run_refines:
  assumes "invar now s" and "sorted (now # map fst ops)" and "\<forall>at \<in> set (now # map fst ops). at \<le> end_time"
    and "\<forall>t k. now \<le> t \<longrightarrow> look t k s = spec_look fresh t k es"
    and "store_run add del ops (s, es) = (s', es')"
  shows "invar end_time s' \<and> (\<forall>t k. end_time \<le> t \<longrightarrow> look t k s' = spec_look fresh t k es')"
  using assms
proof (induction ops arbitrary: now s es)
  case Nil
  then show ?case by (auto intro: later)
next
  case (Cons tp ops)
  obtain at p where tp: "tp = (at, p)" by force
  have at: "now \<le> at" "sorted (at # map fst ops)" using Cons.prems by (auto simp: tp)
  have inv: "invar at s" using later [OF Cons.prems(1) at(1)] .
  have "\<exists>s1 es1. store_run add del ops (s1, es1) = (s', es') \<and> invar at s1 \<and>
          (\<forall>t k. at \<le> t \<longrightarrow> look t k s1 = spec_look fresh t k es1)"
  proof (cases p)
    case (Put oo k v)
    let ?r = "add at oo k v s"
    have "store_run add del ops (snd ?r, if GOOD (fst ?r) then (at, k, Some v) # es else es) = (s', es')"
      using Cons.prems(5) by (simp add: tp Put split_beta)
    moreover have "look t k' (snd ?r) = spec_look fresh t k' (if GOOD (fst ?r) then (at, k, Some v) # es else es)"
      if "at \<le> t" for t k'
      using add_look [OF inv that, of k' oo k v] Cons.prems(4) that at(1) by auto
    ultimately show ?thesis using add_invar [OF inv, of oo k v] by blast
  next
    case (Drop k)
    let ?r = "del at k s"
    have "store_run add del ops (snd ?r, (at, k, None) # es) = (s', es')"
      using Cons.prems(5) by (simp add: tp Drop split_beta)
    moreover have "look t k' (snd ?r) = spec_look fresh t k' ((at, k, None) # es)" if "at \<le> t" for t k'
      using del_look [OF inv that, of k' k] Cons.prems(4) that at(1) by auto
    ultimately show ?thesis using del_invar [OF inv, of k] by blast
  qed
  then obtain s1 es1 where "store_run add del ops (s1, es1) = (s', es')" "invar at s1"
    "\<forall>t k. at \<le> t \<longrightarrow> look t k s1 = spec_look fresh t k es1" by blast
  then show ?case using Cons.IH [of at s1 es1] at(2) Cons.prems(3) by (simp add: tp)
qed

lemma run_invar:
  assumes "invar now s" and "sorted (now # map fst ops)" and "\<forall>at \<in> set (now # map fst ops). at \<le> end_time"
  shows "invar end_time (fst (store_run add del ops (s, es)))"
  using assms
proof (induction ops arbitrary: now s es)
  case Nil
  then show ?case by (auto intro: later)
next
  case (Cons tp ops)
  obtain at p where tp: "tp = (at, p)" by force
  have at: "now \<le> at" "sorted (at # map fst ops)" using Cons.prems by (auto simp: tp)
  have inv: "invar at s" using later [OF Cons.prems(1) at(1)] .
  show ?case
    using Cons.IH [OF add_invar [OF inv] at(2)] Cons.IH [OF del_invar [OF inv] at(2)] Cons.prems(3)
    by (cases p) (auto simp: tp split_beta)
qed

text \<open>A value is found while it is fresh, whatever happens to other keys in between.\<close>

lemma kept:
  assumes "invar now s" and "sorted (now # map fst ops)" and "\<forall>at \<in> set (now # map fst ops). at \<le> t"
    and "untouched k ops"
  shows "look t k (fst (store_run add del ops (s, es))) = look t k s"
  using assms
proof (induction ops arbitrary: now s es)
  case (Cons tp ops)
  obtain at p where tp: "tp = (at, p)" by force
  have at: "now \<le> at" "at \<le> t" "sorted (at # map fst ops)" using Cons.prems by (auto simp: tp)
  have inv: "invar at s" using later [OF Cons.prems(1) at(1)] .
  show ?case
  proof (cases p)
    case (Put oo k' v)
    then have "k' \<noteq> k" using Cons.prems(4) by (auto simp: tp untouched_def)
    then have "look t k (snd (add at oo k' v s)) = look t k s" using add_look [OF inv at(2)] by simp
    then show ?thesis
      using Cons.IH [of at "snd (add at oo k' v s)"] add_invar [OF inv] at Cons.prems(3,4)
      by (simp add: tp Put split_beta untouched_def)
  next
    case (Drop k')
    then have "k' \<noteq> k" using Cons.prems(4) by (auto simp: tp untouched_def)
    then have "look t k (snd (del at k' s)) = look t k s" using del_look [OF inv at(2)] by simp
    then show ?thesis
      using Cons.IH [of at "snd (del at k' s)"] del_invar [OF inv] at Cons.prems(3,4)
      by (simp add: tp Drop split_beta untouched_def)
  qed
qed simp

end

section \<open>The temporary trees\<close>

definition fresh_for :: "('k \<Rightarrow> int) \<Rightarrow> 'k \<Rightarrow> int \<Rightarrow> int \<Rightarrow> bool" where
  "fresh_for dur k at t \<longleftrightarrow> t < at + dur k"

definition value_node :: "int \<Rightarrow> byte list \<Rightarrow> tree_node" where
  "value_node expires v = \<lparr>tn_expires = expires, tn_dsize = length v, tn_data = v\<rparr>"

definition put_temporary ::
  "(tree_key \<Rightarrow> int) \<Rightarrow> int \<Rightarrow> globals \<times> bool \<Rightarrow> tree_key \<Rightarrow> byte list \<Rightarrow> cache_data \<Rightarrow> GOOD_OR_BAD \<times> cache_data" where
  "put_temporary dur now oo k v c = Cache_Add_Common (fst oo) now (snd oo) k (value_node (dur k + now) v) c"

text \<open>A node is bounded by the time its tree was last written to and its duration, unless it was deleted.\<close>

definition node_invar :: "int \<Rightarrow> int \<Rightarrow> int \<Rightarrow> tree_node \<Rightarrow> bool" where
  "node_invar now written duration tn \<longleftrightarrow>
     (tn_expires tn \<le> written + duration \<or> tn_expires tn < now) \<and> tn_dsize tn = length (tn_data tn)"

definition tree_invar :: "(tree_key \<Rightarrow> int) \<Rightarrow> int \<Rightarrow> int \<Rightarrow> tree \<Rightarrow> bool" where
  "tree_invar dur now written tree \<longleftrightarrow> (\<forall>k tn. map_of tree k = Some tn \<longrightarrow> node_invar now written (dur k) tn)"

definition cache_invar :: "(tree_key \<Rightarrow> int) \<Rightarrow> int \<Rightarrow> cache_data \<Rightarrow> bool" where
  "cache_invar dur now c \<longleftrightarrow>
     (\<forall>k. dur k \<le> retired_lifespan c) \<and> time_to_kill c = time_retired c + retired_lifespan c \<and> time_retired c \<le> now \<and>
     tree_invar dur now now (temporary_tree_new c) \<and> tree_invar dur now (time_retired c) (temporary_tree_old c)"

definition live_node :: "int \<Rightarrow> tree_node option \<Rightarrow> byte list option" where
  "live_node t n = (case n of None \<Rightarrow> None | Some tn \<Rightarrow> if t < tn_expires tn then Some (tn_data tn) else None)"

definition cached :: "int \<Rightarrow> tree_key \<Rightarrow> cache_data \<Rightarrow> byte list option" where
  "cached t k c = live_node t ((map_of (temporary_tree_old c) ++ map_of (temporary_tree_new c)) k)"

lemma cached_bump [simp]: "cached t k (bump i f c) = cached t k c"
  by (simp add: cached_def bump_def)

lemma cache_invar_bump [simp]: "cache_invar dur now (bump i f c) = cache_invar dur now c"
  by (simp add: cache_invar_def bump_def)

lemma tree_invar_later:
  "tree_invar dur now w tree \<Longrightarrow> now \<le> t \<Longrightarrow> w \<le> w' \<Longrightarrow> tree_invar dur t w' tree"
  by (fastforce simp: tree_invar_def node_invar_def)

lemma tree_invar_empty [simp]: "tree_invar dur now w []"
  by (simp add: tree_invar_def)

lemma tree_invar_update:
  "tree_invar dur now w tree \<Longrightarrow> node_invar now w (dur k) tn \<Longrightarrow> tree_invar dur now w (AList.update k tn tree)"
  by (simp add: tree_invar_def update_conv')

lemma tree_invarD: "tree_invar dur now w tree \<Longrightarrow> map_of tree k = Some tn \<Longrightarrow> node_invar now w (dur k) tn"
  by (simp add: tree_invar_def)

lemma cache_invar_later: "cache_invar dur now c \<Longrightarrow> now \<le> t \<Longrightarrow> cache_invar dur t c"
  by (auto simp: cache_invar_def intro: tree_invar_later)

lemma retire_invar: "cache_invar dur now c \<Longrightarrow> cache_invar dur now (retire_if_old now c)"
  by (simp add: cache_invar_def retire_if_old_def FlipTree_def)

lemma old_is_dead:
  assumes "cache_invar dur now c" and "now \<le> t" and "time_to_kill c \<le> now \<or> time_retired c + dur k \<le> now"
  shows "live_node t (map_of (temporary_tree_old c) k) = None"
proof (cases "map_of (temporary_tree_old c) k")
  case (Some tn)
  have "node_invar now (time_retired c) (dur k) tn" "dur k \<le> retired_lifespan c"
    "time_to_kill c = time_retired c + retired_lifespan c"
    using assms(1) tree_invarD [OF _ Some] by (auto simp: cache_invar_def)
  then have "tn_expires tn \<le> t" using assms(2,3) by (auto simp: node_invar_def)
  with Some show ?thesis by (simp add: live_node_def)
qed (simp add: live_node_def)

lemma cached_retire:
  assumes "cache_invar dur now c" and "now \<le> t"
  shows "cached t k (retire_if_old now c) = cached t k c"
proof (cases "time_to_kill c < now")
  case True
  then have "live_node t (map_of (temporary_tree_old c) k) = None" using old_is_dead [OF assms] by simp
  then show ?thesis
    using True by (auto simp: cached_def retire_if_old_def FlipTree_def live_node_def map_add_def split: option.splits)
qed (simp add: retire_if_old_def)

lemma put_temporary_cases:
  assumes "cache_invar dur now c"
  obtains (added) "fst (put_temporary dur now oo k v c) = gbGOOD"
      "\<And>t. now \<le> t \<Longrightarrow> cached t k (snd (put_temporary dur now oo k v c)) =
         (if fresh_for dur k now t then Some v else None)"
      "\<And>t k'. now \<le> t \<Longrightarrow> k' \<noteq> k \<Longrightarrow> cached t k' (snd (put_temporary dur now oo k v c)) = cached t k' c"
      "cache_invar dur now (snd (put_temporary dur now oo k v c))"
    | (refused) "put_temporary dur now oo k v c = (gbBAD, retire_if_old now c)"
proof -
  let ?c = "retire_if_old now c"
  have inv: "cache_invar dur now ?c" by (rule retire_invar [OF assms])
  show thesis
  proof (cases "cache_full (fst oo) ?c \<or> \<not> tsearch_ok (snd oo) k (temporary_tree_new ?c)")
    case True
    then show thesis by (intro refused) (auto simp: put_temporary_def Cache_Add_Common_def Let_def)
  next
    case False
    let ?c' = "snd (put_temporary dur now oo k v c)"
    have good: "fst (put_temporary dur now oo k v c) = gbGOOD"
      and new: "temporary_tree_new ?c' = AList.update k (value_node (dur k + now) v) (temporary_tree_new ?c)"
      and rest: "temporary_tree_old ?c' = temporary_tree_old ?c" "time_retired ?c' = time_retired ?c"
        "time_to_kill ?c' = time_to_kill ?c" "retired_lifespan ?c' = retired_lifespan ?c"
      using False by (auto simp: put_temporary_def Cache_Add_Common_def Let_def)
    show thesis
    proof (rule added [OF good])
      show "cached t k ?c' = (if fresh_for dur k now t then Some v else None)" for t
        by (simp add: cached_def new live_node_def value_node_def fresh_for_def update_conv' algebra_simps)
      show "cached t k' ?c' = cached t k' c" if "now \<le> t" "k' \<noteq> k" for t k'
      proof -
        have "cached t k' ?c' = cached t k' ?c" using that(2) by (simp add: cached_def new rest update_conv' map_add_def)
        then show ?thesis using cached_retire [OF assms that(1)] by simp
      qed
      show "cache_invar dur now ?c'"
        using inv by (simp add: cache_invar_def new rest tree_invar_update node_invar_def value_node_def)
    qed
  qed
qed

lemma del_temporary:
  assumes inv: "cache_invar dur now c"
  shows "cache_invar dur now (snd (Cache_Del_Common now k c))"
    and "now \<le> t \<Longrightarrow> cached t k' (snd (Cache_Del_Common now k c)) = (if k' = k then None else cached t k' c)"
proof -
  have node: "node_invar now w d (tn\<lparr>tn_expires := now - 1\<rparr>)" if "node_invar now w d tn" for w d tn
    using that by (simp add: node_invar_def)
  show "cache_invar dur now (snd (Cache_Del_Common now k c))"
    using inv unfolding cache_invar_def Cache_Del_Common_def expire_node_def
    by (auto intro!: tree_invar_update node dest: tree_invarD split: option.splits)
  show "cached t k' (snd (Cache_Del_Common now k c)) = (if k' = k then None else cached t k' c)" if t: "now \<le> t"
  proof (cases "map_of (temporary_tree_new c) k = None \<and> \<not> now < time_to_kill c")
    case True
    then have "live_node t (map_of (temporary_tree_old c) k) = None" using old_is_dead [OF inv t] by simp
    then show ?thesis using True by (simp add: Cache_Del_Common_def cached_def map_add_def)
  next
    case False
    then show ?thesis
      using t by (auto simp: Cache_Del_Common_def expire_node_def cached_def live_node_def update_conv' map_add_def
          split: option.splits)
  qed
qed

interpretation cache: timed_store "cache_invar dur" cached "fresh_for dur" "put_temporary dur" Cache_Del_Common
  for dur
proof
  fix now t :: int and c k k' oo v
  assume inv: "cache_invar dur now c"
  show "now \<le> t \<Longrightarrow> cache_invar dur t c" by (rule cache_invar_later [OF inv])
  show "cache_invar dur now (snd (put_temporary dur now oo k v c))"
    by (rule put_temporary_cases [OF inv, of oo k v]) (simp_all add: retire_invar [OF inv])
  show "now \<le> t \<Longrightarrow> cached t k' (snd (put_temporary dur now oo k v c)) =
      (if k' = k \<and> GOOD (fst (put_temporary dur now oo k v c)) then if fresh_for dur k now t then Some v else None
       else cached t k' c)"
    by (rule put_temporary_cases [OF inv, of oo k v]) (simp_all add: GOOD_def cached_retire [OF inv])
  show "cache_invar dur now (snd (Cache_Del_Common now k c))" by (rule del_temporary [OF inv])
  show "now \<le> t \<Longrightarrow> cached t k' (snd (Cache_Del_Common now k c)) = (if k' = k then None else cached t k' c)"
    by (rule del_temporary [OF inv])
qed

text \<open>What a lookup copies out.\<close>

lemma Cache_Get_Common_cached:
  assumes "cache_invar dur now c"
  shows "fst (Cache_Get_Common now n (dur k) k c) = ctr_ok \<longleftrightarrow> (\<exists>v. cached now k c = Some v \<and> length v \<le> n)"
    and "cached now k c = Some v \<Longrightarrow> length v \<le> n \<Longrightarrow>
      \<exists>left. Cache_Get_Common now n (dur k) k c = (ctr_ok, length v, left, v) \<and> left > 0"
proof -
  let ?n = "map_of (temporary_tree_new c) k" and ?o = "map_of (temporary_tree_old c) k"
  have new: "tn_dsize tn = length (tn_data tn)" if "?n = Some tn" for tn
    using assms tree_invarD [OF _ that] by (auto simp: cache_invar_def node_invar_def)
  have old: "tn_dsize tn = length (tn_data tn)" if "?o = Some tn" for tn
    using assms tree_invarD [OF _ that] by (auto simp: cache_invar_def node_invar_def)
  have dead: "live_node now ?o = None" if "\<not> now < time_retired c + dur k"
    using old_is_dead [OF assms order_refl, of k] that by simp
  show "fst (Cache_Get_Common now n (dur k) k c) = ctr_ok \<longleftrightarrow> (\<exists>v. cached now k c = Some v \<and> length v \<le> n)"
    using new old dead
    by (auto simp: Cache_Get_Common_def cached_def live_node_def map_add_def Let_def split: option.splits if_splits)
  show "\<exists>left. Cache_Get_Common now n (dur k) k c = (ctr_ok, length v, left, v) \<and> left > 0"
    if "cached now k c = Some v" "length v \<le> n"
    using new old dead that
    by (auto simp: Cache_Get_Common_def cached_def live_node_def map_add_def Let_def split: option.splits if_splits)
qed

lemma Cache_Get_Common_miss:
  assumes "cache_invar dur now c" and "cached now k c = None"
  shows "\<exists>ctr size' left. Cache_Get_Common now n (dur k) k c = (ctr, size', left, []) \<and> ctr \<noteq> ctr_ok"
  using Cache_Get_Common_cached(1) [OF assms(1), of n k] assms(2)
  by (auto simp: Cache_Get_Common_def Let_def split: option.splits if_splits)

text \<open>Adding with a count in the statistics, and then operations on other keys.\<close>

lemma cache_put_kept:
  assumes "cache_invar dur now c" and "Add_Stat i (put_temporary dur now oo k v c) = (gbGOOD, c1)"
    and "sorted (now # map fst ops)" and "\<forall>at \<in> set (now # map fst ops). at \<le> t" and "untouched k ops"
    and "store_run (put_temporary dur) Cache_Del_Common ops (c1, []) = (c2, es)"
  shows "cache_invar dur t c2" and "cached t k c2 = (if fresh_for dur k now t then Some v else None)"
proof -
  have "c1 = bump i (\<lambda>s. s\<lparr>st_adds := st_adds s + 1\<rparr>) (snd (put_temporary dur now oo k v c))"
    and good: "fst (put_temporary dur now oo k v c) = gbGOOD"
    using assms(2) by (auto simp: Add_Stat_def GOOD_def split_beta)
  then have c1: "cache_invar dur now c1" "cached t k c1 = (if fresh_for dur k now t then Some v else None)"
    using cache.add_invar [OF assms(1)] cache.add_look [OF assms(1), of t k oo k v] assms(4) by (auto simp: GOOD_def)
  show "cache_invar dur t c2" using cache.run_invar [OF c1(1) assms(3,4), of "[]"] assms(6) by simp
  show "cached t k c2 = (if fresh_for dur k now t then Some v else None)"
    using cache.kept [OF c1(1) assms(3-5), of "[]"] c1(2) assms(6) by simp
qed

lemma length_int_bytes [simp]: "length (int_bytes i) = 4"
  by (simp add: int_bytes_def UT_uint32_to_bytes_def)

lemma Cache_Open_invar:
  assumes "\<forall>k. dur k \<le> min (TimeOut g fc_stable) 3600"
  shows "cache_invar dur now (Cache_Open g now c)" and "cached t k (Cache_Open g now c) = None"
  using assms by (simp_all add: Cache_Open_def FlipTree_def cache_invar_def cached_def live_node_def)

section \<open>The persistent tree\<close>

definition put_persistent :: "int \<Rightarrow> bool \<Rightarrow> tree_key \<Rightarrow> nat \<times> byte list \<Rightarrow> cache_data \<Rightarrow> GOOD_OR_BAD \<times> cache_data" where
  "put_persistent now tok k v c =
     Cache_Add_Persistent tok k \<lparr>tn_expires = now, tn_dsize = fst v, tn_data = snd v\<rparr> c"

definition stored :: "int \<Rightarrow> tree_key \<Rightarrow> cache_data \<Rightarrow> (nat \<times> byte list) option" where
  "stored t k c = map_option (\<lambda>tn. (tn_dsize tn, tn_data tn)) (map_of (persistent_tree c) k)"

interpretation persistent: timed_store "\<lambda>_ _. True" stored "\<lambda>_ _ _. True" put_persistent "\<lambda>now. Cache_Del_Persistent"
  by unfold_locales
    (auto simp: stored_def put_persistent_def Cache_Add_Persistent_def Cache_Del_Persistent_def GOOD_def Let_def
      update_conv' delete_conv' split: option.splits)

lemma Cache_Get_Persistent_stored:
  "Cache_Get_Persistent n k c =
     (case stored t k c of
        None \<Rightarrow> (ctr_not_found, n, [])
      | Some (size', d) \<Rightarrow> if size' \<le> n then (ctr_ok, size', take size' d) else (ctr_size_mismatch, n, []))"
  by (simp add: Cache_Get_Persistent_def stored_def split: option.splits)

section \<open>Memory accounting\<close>

text \<open>The cache counts a pointer for each node, in the new trees and in the old ones.\<close>

definition ram_invar :: "cache_data \<Rightarrow> bool" where
  "ram_invar c \<longleftrightarrow>
     new_ram_size c = sizeof_pointer * (length (temporary_tree_new c) + length (temporary_alias_tree_new c)) \<and>
     old_ram_size c = sizeof_pointer * (length (temporary_tree_old c) + length (temporary_alias_tree_old c))"

definition node_count :: "cache_data \<Rightarrow> nat" where
  "node_count c = length (temporary_tree_new c) + length (temporary_alias_tree_new c)
     + length (temporary_tree_old c) + length (temporary_alias_tree_old c)"

lemma length_update: "length (AList.update k v t) = (if map_of t k = None then Suc (length t) else length t)"
  by (induction t) auto

lemma ram_invar_bump [simp]: "ram_invar (bump i f c) = ram_invar c" and node_count_bump [simp]: "node_count (bump i f c) = node_count c"
  by (simp_all add: ram_invar_def node_count_def bump_def)

lemma ram_retire:
  assumes "ram_invar c"
  shows "ram_invar (retire_if_old now c)" and "node_count (retire_if_old now c) \<le> node_count c"
  using assms by (simp_all add: ram_invar_def node_count_def retire_if_old_def FlipTree_def)

lemma ram_full:
  assumes "ram_invar c" and "g_cache_size g \<noteq> 0"
  shows "cache_full g c \<longleftrightarrow> g_cache_size g < sizeof_pointer * node_count c"
  using assms by (simp add: ram_invar_def cache_full_def node_count_def algebra_simps)

lemma ram_Add_Common:
  assumes "ram_invar c"
  shows "ram_invar (snd (Cache_Add_Common g now tok k tn c))"
    and "node_count (snd (Cache_Add_Common g now tok k tn c)) \<le> node_count c \<or>
      node_count (snd (Cache_Add_Common g now tok k tn c)) \<le> Suc (node_count (retire_if_old now c)) \<and>
      \<not> cache_full g (retire_if_old now c)"
  using ram_retire [OF assms, of now]
  by (auto simp: Cache_Add_Common_def Let_def ram_invar_def node_count_def length_update)

lemma ram_Add_Alias_Common:
  assumes "ram_invar c"
  shows "ram_invar (Cache_Add_Alias_Common g now tok name atn c)"
    and "node_count (Cache_Add_Alias_Common g now tok name atn c) \<le> node_count c \<or>
      node_count (Cache_Add_Alias_Common g now tok name atn c) \<le> Suc (node_count (retire_if_old now c)) \<and>
      \<not> cache_full g (retire_if_old now c)"
  using ram_retire [OF assms, of now]
  by (auto simp: Cache_Add_Alias_Common_def Let_def ram_invar_def node_count_def length_update)

lemma ram_Del_Common:
  assumes "ram_invar c"
  shows "ram_invar (snd (Cache_Del_Common now k c))" and "node_count (snd (Cache_Del_Common now k c)) = node_count c"
  using assms
  by (auto simp: Cache_Del_Common_def expire_node_def ram_invar_def node_count_def length_update split: option.splits)

datatype cache_op = Add_node tree_key tree_node | Add_alias string alias_tree_node | Del_node tree_key

fun cache_step :: "globals \<Rightarrow> int \<times> bool \<times> cache_op \<Rightarrow> cache_data \<Rightarrow> cache_data" where
  "cache_step g (now, tok, Add_node k tn) c = snd (Cache_Add_Common g now tok k tn c)"
| "cache_step g (now, tok, Add_alias name atn) c = Cache_Add_Alias_Common g now tok name atn c"
| "cache_step g (now, tok, Del_node k) c = snd (Cache_Del_Common now k c)"

lemma cache_step_ram:
  assumes "ram_invar c" and "g_cache_size g \<noteq> 0" and "node_count c \<le> g_cache_size g div sizeof_pointer + 1"
  shows "ram_invar (cache_step g s c) \<and> node_count (cache_step g s c) \<le> g_cache_size g div sizeof_pointer + 1"
proof -
  obtain now tok p where s: "s = (now, tok, p)" by (cases s) auto
  let ?r = "retire_if_old now c" and ?c = "cache_step g s c"
  have room: "Suc (node_count ?r) \<le> g_cache_size g div sizeof_pointer + 1" if "\<not> cache_full g ?r"
    using that ram_full [OF ram_retire(1) [OF assms(1)] assms(2), of now]
    by (simp add: sizeof_pointer_def less_eq_div_iff_mult_less_eq mult.commute)
  have "ram_invar ?c \<and> (node_count ?c \<le> node_count c \<or> node_count ?c \<le> Suc (node_count ?r) \<and> \<not> cache_full g ?r)"
  proof (cases p)
    case (Add_node k tn)
    then show ?thesis using ram_Add_Common [OF assms(1), of g now tok k tn] by (simp add: s)
  next
    case (Add_alias name atn)
    then show ?thesis using ram_Add_Alias_Common [OF assms(1), of g now tok name atn] by (simp add: s)
  next
    case (Del_node k)
    then show ?thesis using ram_Del_Common [OF assms(1), of now k] by (simp add: s)
  qed
  then show ?thesis using room assms(3) by linarith
qed

lemma length_dirblob: "dirblob_wf db \<Longrightarrow> length (dirblob_bytes db) = 8 * DirblobElements db"
  by (simp add: length_dirblob_bytes DirblobElements_def)

lemma Cache_Get_Common_Dir_cached:
  assumes "cache_invar dur now c" and "cached now k c = Some v"
  shows "Cache_Get_Common_Dir now ok (dur k) k c =
    (case DirblobRecreate ok v of (ret, db) \<Rightarrow>
      (if ret = 0 then ctr_ok else ctr_size_mismatch, fst (snd (snd (Cache_Get_Common now (length v) (dur k) k c))), db))"
proof -
  let ?n = "map_of (temporary_tree_new c) k" and ?o = "map_of (temporary_tree_old c) k"
  have new: "tn_dsize tn = length (tn_data tn)" if "?n = Some tn" for tn
    using assms(1) tree_invarD [OF _ that] by (auto simp: cache_invar_def node_invar_def)
  have old: "tn_dsize tn = length (tn_data tn)" if "?o = Some tn" for tn
    using assms(1) tree_invarD [OF _ that] by (auto simp: cache_invar_def node_invar_def)
  have "now < time_retired c + dur k" if "?n = None"
    using old_is_dead [OF assms(1) order_refl, of k] assms(2) that
    by (cases "now < time_retired c + dur k") (simp_all add: cached_def map_add_def)
  then show ?thesis
    using new old assms(2)
    by (auto simp: Cache_Get_Common_Dir_def Cache_Get_Common_def cached_def live_node_def map_add_def Let_def split_beta
        split: option.splits if_splits)
qed

text \<open>Adding and getting under one name, at once or later.\<close>

lemma Cache_Add_Get:
  assumes "Cache_Add g now mok tok data (Some pn) c = (gbGOOD, c')"
    and "\<not> cp_alarm_dir pn" and "\<not> cp_uncached_dir pn"
    and "IsThisPersistent pn \<or> t < now + TimeOut g (ft_change (cp_filetype pn))"
    and "IsThisPersistent pn \<or> 0 < TimeOut g (ft_change (cp_filetype pn))" and "length data \<le> n"
  shows "fst (Cache_Get g t n pn c') = (gbGOOD, length data, data)"
proof -
  let ?k = "LoadTK (cp_sn pn) (ft_ptr (ft_id (cp_filetype pn))) (cp_extension pn)"
  show ?thesis
  proof (cases "IsThisPersistent pn")
    case True
    then have "map_of (persistent_tree c') ?k = Some (value_node (1 + now) data)"
      using assms(1,2)
      by (auto simp: Cache_Add_def Add_Stat_def Cache_Add_Persistent_def bump_def value_node_def GOOD_def Let_def update_conv'
          split: if_splits)
    then show ?thesis
      using True assms(2,3,6)
      by (simp add: Cache_Get_def Cache_Get_Persistent_def Get_Stat_def value_node_def Let_def split_beta)
  next
    case False
    then have "map_of (temporary_tree_new c') ?k = Some (value_node (TimeOut g (ft_change (cp_filetype pn)) + now) data)"
      using assms(1,2,5)
      by (auto simp: Cache_Add_def Add_Stat_def Cache_Add_Common_def bump_def value_node_def GOOD_def Let_def update_conv'
          split: if_splits)
    then show ?thesis
      using False assms(2-6)
      by (simp add: Cache_Get_def Cache_Get_Common_def Get_Stat_def value_node_def Let_def split_beta)
  qed
qed

lemma c_string_bytes [simp]:
  assumes "CHR 0x00 \<notin> set name"
  shows "c_string (str_bytes name @ [0]) = name"
proof -
  have nz: "(of_nat (of_char ch) :: byte) \<noteq> 0" if "ch \<noteq> CHR 0x00" for ch
  proof
    assume "(of_nat (of_char ch) :: byte) = 0"
    then have "unat (of_nat (of_char ch) :: byte) = 0" by simp
    then have "of_char ch = (0 :: nat)" by (simp add: unat_of_nat take_bit_nat_eq_self)
    then have "ch = char_of (0 :: nat)" by (metis char_of_char)
    then show False using that by (simp add: char_of_def)
  qed
  have char: "char_of (unat (of_nat (of_char ch) :: byte)) = ch" for ch
    by (simp add: unat_of_nat take_bit_nat_eq_self)
  have "b \<noteq> 0" if "b \<in> set (str_bytes name)" for b
  proof -
    from that obtain ch where "ch \<in> set name" "b = of_nat (of_char ch)" by (auto simp: str_bytes_def)
    moreover have "ch \<noteq> CHR 0x00" using assms \<open>ch \<in> set name\<close> by blast
    ultimately show ?thesis using nz [of ch] by simp
  qed
  then have "takeWhile (\<lambda>b. b \<noteq> 0) (str_bytes name @ [0]) = str_bytes name" by simp
  then show ?thesis by (simp add: c_string_def str_bytes_def char comp_def)
qed

lemma alias_tree_sound_update:
  "alias_tree_sound t \<Longrightarrow> alias_tree_sound (AList.update name (Live e v) t)"
  by (induction t) (auto simp: alias_tree_sound_def)

section \<open>Properties\<close>

text \<open>An empty cache with all counters zero, and the default timeouts.\<close>

definition zero_average :: average where
  "zero_average = \<lparr>avg_max = 0, avg_sum = 0, avg_count = 0, avg_current = 0\<rparr>"

definition zero_cache :: cache_data where
  "zero_cache = \<lparr>temporary_tree_new = [], temporary_tree_old = [], persistent_tree = [],
     temporary_alias_tree_new = [], temporary_alias_tree_old = [], persistent_alias_tree = [],
     old_ram_size = 0, new_ram_size = 0, time_retired = 0, time_to_kill = 0, retired_lifespan = 0, added = 0,
     cache_flips = 0, cache_adds = 0, new_avg = zero_average, old_avg = zero_average, store_avg = zero_average,
     stats = (\<lambda>_. \<lparr>st_tries = 0, st_hits = 0, st_adds = 0, st_expires = 0, st_deletes = 0\<rparr>)\<rparr>"

definition default_globals :: globals where
  "default_globals = \<lparr>timeout_volatile = 15, timeout_stable = 300, timeout_presence = 120, timeout_directory = 60,
     g_cache_size = 0\<rparr>"

lemmas cache_eval = zero_cache_def zero_average_def default_globals_def TimeOut_def Cache_Open_def FlipTree_def
  retire_if_old_def cache_full_def tsearch_ok_def Cache_Add_Common_def Cache_Del_Common_def expire_node_def
  AVERAGE_IN_def AVERAGE_MARK_def AVERAGE_CLEAR_def LoadTK_def Let_def

text \<open>
  C2: the two flipping trees implement the timed store. Open the cache, run any sequence of additions and
  deletions in the order of time, additions that fail for want of memory or room included, with no
  duration longer than the lifespan of a retired tree. Then a lookup returns a value exactly when the last
  effective event of the key is an addition that has not expired and the value fits, and it returns that
  value: no stale, deleted or expired value, and nothing is lost in a flip.
\<close>
theorem cache_refines_timed_store:
  assumes "\<forall>k. dur k \<le> min (TimeOut g fc_stable) 3600"
    and "sorted (t0 # map fst ops)" and "\<forall>at \<in> set (t0 # map fst ops). at \<le> t"
    and "store_run (put_temporary dur) Cache_Del_Common ops (Cache_Open g t0 c0, []) = (c, es)"
  shows "(fst (Cache_Get_Common t n (dur k) k c) = ctr_ok \<longleftrightarrow>
            (\<exists>v. spec_look (fresh_for dur) t k es = Some v \<and> length v \<le> n)) \<and>
         (\<forall>v. spec_look (fresh_for dur) t k es = Some v \<longrightarrow> length v \<le> n \<longrightarrow>
            (\<exists>left > 0. Cache_Get_Common t n (dur k) k c = (ctr_ok, length v, left, v)))"
proof -
  have run: "cache_invar dur t c \<and> (\<forall>t' k. t \<le> t' \<longrightarrow> cached t' k c = spec_look (fresh_for dur) t' k es)"
    by (rule cache.run_refines [OF Cache_Open_invar(1) [OF assms(1)] assms(2,3) _ assms(4)])
      (simp add: Cache_Open_invar(2) [OF assms(1)])
  then have "cached t k c = spec_look (fresh_for dur) t k es" by simp
  then show ?thesis using Cache_Get_Common_cached(1) [of dur t c n k] Cache_Get_Common_cached(2) [of dur t c k _ n] run by auto
qed

theorem cache_refines_timed_store_witness:
  "let k = LoadTK [1, 2, 3, 4, 5, 6, 7, 8] (ft_ptr 3) 0; k' = LoadTK [1, 2, 3, 4, 5, 6, 7, 8] (ft_ptr 4) 0;
       ops = [(290, Put (default_globals, True) k [7, 8]), (301, Put (default_globals, True) k' [9])]
   in fst (Cache_Get_Common 310 8 120 k (fst (store_run (put_temporary (\<lambda>_. 120)) Cache_Del_Common ops
        (Cache_Open default_globals 0 zero_cache, [])))) = ctr_ok"
  using cache_refines_timed_store [of "\<lambda>_. 120" default_globals 0
      "[(290, Put (default_globals, True) (LoadTK [1, 2, 3, 4, 5, 6, 7, 8] (ft_ptr 3) 0) [7, 8]),
        (301, Put (default_globals, True) (LoadTK [1, 2, 3, 4, 5, 6, 7, 8] (ft_ptr 4) 0) [9])]"
      310 zero_cache _ _ 8 "LoadTK [1, 2, 3, 4, 5, 6, 7, 8] (ft_ptr 3) 0"]
  by (simp add: cache_eval put_temporary_def GOOD_def fresh_for_def value_node_def)

text \<open>
  The location of a device. After \<^verbatim>\<open>Cache_Add_Device\<close> succeeded, and whatever is added or deleted under
  other keys since, \<^verbatim>\<open>Cache_Get_Device\<close> gives the bus number until the presence timeout is over, and fails
  from then on.
\<close>
theorem device_location_kept:
  assumes "cache_invar dur now c" and "dur (LoadTK sn Device_Marker 0) = TimeOut g fc_presence"
    and "TimeOut g fc_presence > 0" and "sn ! 0 \<noteq> 0" and "Cache_Add_Device g now mok tok bus_nr sn c = (gbGOOD, c')"
    and "sorted (now # map fst ops)" and "\<forall>at \<in> set (now # map fst ops). at \<le> t"
    and "untouched (LoadTK sn Device_Marker 0) ops"
    and "store_run (put_temporary dur) Cache_Del_Common ops (c', []) = (c'', es)" and "cp_sn pn = sn"
  shows "fst (Cache_Get_Device g t pn c'') =
     (if t < now + TimeOut g fc_presence then (gbGOOD, int_bytes bus_nr) else (gbBAD, []))"
proof -
  let ?k = "LoadTK sn Device_Marker 0"
  have "Add_Stat cache_dev (put_temporary dur now (g, tok) ?k (int_bytes bus_nr) c) = (gbGOOD, c')"
    using assms(2-5) by (auto simp: Cache_Add_Device_def put_temporary_def value_node_def split: if_splits)
  note kept = cache_put_kept [OF assms(1) this assms(6-9)]
  show ?thesis
  proof (cases "t < now + TimeOut g fc_presence")
    case True
    then have "cached t ?k c'' = Some (int_bytes bus_nr)" using kept(2) assms(2) by (simp add: fresh_for_def)
    from Cache_Get_Common_cached(2) [OF kept(1) this, of 4] show ?thesis
      using True assms(2,3,10) by (auto simp: Cache_Get_Device_def Get_Stat_def)
  next
    case False
    then have "cached t ?k c'' = None" using kept(2) assms(2) by (simp add: fresh_for_def)
    from Cache_Get_Common_miss [OF kept(1) this, of 4] show ?thesis
      using False assms(2,3,10) by (auto simp: Cache_Get_Device_def Get_Stat_def Let_def split: cache_task_return.splits)
  qed
qed

theorem device_location_kept_witness:
  "let sn = [0x28, 2, 3, 4, 5, 6, 7, 8]; g = default_globals; c = Cache_Open g 0 zero_cache;
       pn = \<lparr>cp_sn = sn, cp_filetype = \<lparr>ft_id = 0, ft_form = ft_integer, ft_change = fc_stable, ft_ag = None\<rparr>,
             cp_extension = 0, cp_alarm_dir = False, cp_uncached_dir = False, cp_connection = None, cp_bp = []\<rparr>
   in fst (Cache_Get_Device g 309 pn (snd (put_temporary (\<lambda>_. 120) 305 (g, True) (LoadTK sn (ft_ptr 4) 0) [9]
             (snd (Cache_Add_Device g 290 True True 3 sn c))))) = (gbGOOD, [3, 0, 0, 0])"
proof -
  let ?sn = "[0x28, 2, 3, 4, 5, 6, 7, 8] :: byte list" and ?g = default_globals
  let ?c = "Cache_Open ?g 0 zero_cache"
  let ?ops = "[(305, Put (?g, True) (LoadTK ?sn (ft_ptr 4) 0) [9])]"
  let ?pn = "\<lparr>cp_sn = ?sn, cp_filetype = \<lparr>ft_id = 0, ft_form = ft_integer, ft_change = fc_stable, ft_ag = None\<rparr>,
             cp_extension = 0, cp_alarm_dir = False, cp_uncached_dir = False, cp_connection = None, cp_bp = []\<rparr>"
  have "cache_invar (\<lambda>_. 120) 0 ?c" by (rule Cache_Open_invar(1)) (simp add: default_globals_def TimeOut_def)
  then have inv: "cache_invar (\<lambda>_. 120) 290 ?c" by (rule cache_invar_later) simp
  have add: "fst (Cache_Add_Device ?g 290 True True 3 ?sn ?c) = gbGOOD"
    by (simp add: Cache_Add_Device_def cache_eval Add_Stat_def GOOD_def)
  have bytes: "int_bytes 3 = [3, 0, 0, 0]" by (simp add: int_bytes_def UT_uint32_to_bytes_def)
  show ?thesis
    using device_location_kept [OF inv, where sn = ?sn and g = ?g and mok = True and tok = True and bus_nr = 3 and
        c' = "snd (Cache_Add_Device ?g 290 True True 3 ?sn ?c)"
        and ops = ?ops and t = 309 and pn = ?pn] add bytes
    by (simp add: untouched_def LoadTK_def TimeOut_def default_globals_def prod_eq_iff split_beta)
qed

text \<open>
  A cached directory. After \<^verbatim>\<open>Cache_Add_Dir\<close> stored a non-empty directory of a real bus, and whatever
  happens under other keys, \<^verbatim>\<open>Cache_Get_Dir\<close> gives a directory with the same serial numbers in the same
  order until the directory timeout is over.
\<close>
theorem directory_kept:
  assumes "cache_invar dur now c" and "dur (dir_key pn index) = TimeOut g fc_directory" and "TimeOut g fc_directory > 0"
    and "cp_connection pn = Some (index, bus_real)" and "dirblob_wf db" and "DirblobElements db > 0"
    and "Cache_Add_Dir g now mok tok db (Some pn) c = (gbGOOD, c')"
    and "sorted (now # map fst ops)" and "\<forall>at \<in> set (now # map fst ops). at \<le> t" and "untouched (dir_key pn index) ops"
    and "store_run (put_temporary dur) Cache_Del_Common ops (c', []) = (c'', es)" and "t < now + TimeOut g fc_directory"
  shows "\<exists>db' c3. Cache_Get_Dir g t True pn c'' = Some ((gbGOOD, db'), c3) \<and> dirblob_sns db' = dirblob_sns db \<and> DirblobPure db'"
proof -
  let ?k = "dir_key pn index"
  have "Add_Stat cache_dir (put_temporary dur now (g, tok) ?k (dirblob_bytes db) c) = (gbGOOD, c')"
    using assms(2-7)
    by (auto simp: Cache_Add_Dir_def put_temporary_def value_node_def length_dirblob split: if_splits)
  note kept = cache_put_kept [OF assms(1) this assms(8-11)]
  have "cached t ?k c'' = Some (dirblob_bytes db)" using kept(2) assms(2,12) by (simp add: fresh_for_def)
  note get = Cache_Get_Common_Dir_cached [OF kept(1) this, of True]
  obtain db' where "DirblobRecreate True (dirblob_bytes db) = (0, db')" "DirblobPure db'" "dirblob_sns db' = dirblob_sns db"
    using DirblobRecreate_same [OF assms(5)] by blast
  then show ?thesis using get assms(2-4) by (simp add: Cache_Get_Dir_def Get_Stat_def Let_def)
qed

theorem directory_kept_witness:
  "let g = default_globals; db = snd (DirblobRecreate True [0x28, 2, 3, 4, 5, 6, 7, 8]);
       pn = \<lparr>cp_sn = [], cp_filetype = \<lparr>ft_id = 0, ft_form = ft_directory, ft_change = fc_directory, ft_ag = None\<rparr>,
             cp_extension = 0, cp_alarm_dir = False, cp_uncached_dir = False, cp_connection = Some (2, bus_real), cp_bp = []\<rparr>
   in \<exists>db' c3. Cache_Get_Dir g 349 True pn (snd (Cache_Add_Dir g 290 True True db (Some pn) (Cache_Open g 0 zero_cache)))
        = Some ((gbGOOD, db'), c3) \<and> dirblob_sns db' = dirblob_sns db \<and> DirblobPure db'"
proof -
  let ?g = default_globals and ?db = "snd (DirblobRecreate True [0x28, 2, 3, 4, 5, 6, 7, 8])"
  let ?c = "Cache_Open ?g 0 zero_cache"
  let ?pn = "\<lparr>cp_sn = [], cp_filetype = \<lparr>ft_id = 0, ft_form = ft_directory, ft_change = fc_directory, ft_ag = None\<rparr>,
     cp_extension = 0, cp_alarm_dir = False, cp_uncached_dir = False, cp_connection = Some (2, bus_real), cp_bp = []\<rparr>"
  have "cache_invar (\<lambda>_. 60) 0 ?c" by (rule Cache_Open_invar(1)) (simp add: default_globals_def TimeOut_def)
  then have inv: "cache_invar (\<lambda>_. 60) 290 ?c" by (rule cache_invar_later) simp
  have wf: "dirblob_wf ?db" by (rule DirblobRecreate_wf) simp
  have el: "DirblobElements ?db = 1" by (simp add: DirblobRecreate_def DirblobElements_def DirblobInit_def Let_def)
  have add: "fst (Cache_Add_Dir ?g 290 True True ?db (Some ?pn) ?c) = gbGOOD"
    by (simp add: Cache_Add_Dir_def el cache_eval Add_Stat_def GOOD_def)
  show ?thesis
    using directory_kept [OF inv, where pn = ?pn and index = 2 and g = ?g and db = ?db and mok = True and tok = True
        and c' = "snd (Cache_Add_Dir ?g 290 True True ?db (Some ?pn) ?c)" and ops = "[]" and t = 349] add wf el
    by (simp add: untouched_def TimeOut_def default_globals_def prod_eq_iff)
qed

text \<open>
  Queries. What \<^verbatim>\<open>OWQ_Cache_Add\<close> stored, \<^verbatim>\<open>OWQ_Cache_Get\<close> of a query for the same property copies back
  while it is fresh: the number, the whole array, or the string with its length, from the persistent tree
  or from the temporary ones. Properties of simultaneous conversions are excepted.
\<close>
theorem query_roundtrip:
  assumes "OWQ_Cache_Add g now mok tok owq c = Some (gbGOOD, c')" and "owq_pn q = owq_pn owq" and "owq_pn owq = pn"
    and "\<not> cp_alarm_dir pn" and "\<not> cp_uncached_dir pn"
    and "IsThisPersistent pn \<or> 0 < TimeOut g (ft_change (cp_filetype pn)) \<and> t < now + TimeOut g (ft_change (cp_filetype pn))"
    and "ft_change (cp_filetype pn) \<notin> {fc_simultaneous_temperature, fc_simultaneous_voltage}"
    and "length (owq_val owq) = sizeof_value_object" and "array_size pn = Some (length (owq_array owq))"
    and "owq_length owq \<le> length (owq_buffer owq)" and "owq_length owq \<le> owq_size q" and "owq_offset q \<le> 0"
  shows "\<exists>q' c''. OWQ_Cache_Get g t q c' = Some (gbGOOD, q', c'') \<and>
    (if cp_extension pn = EXTENSION_ALL then take (length (owq_array owq)) (owq_array q') = owq_array owq
     else if number_format (ft_form (cp_filetype pn)) then take sizeof_value_object (owq_val q') = owq_val owq
     else take (owq_length q') (owq_buffer q') = take (owq_length owq) (owq_buffer owq))"
proof -
  let ?f = "ft_form (cp_filetype pn)"
  note get = Cache_Add_Get [where pn = pn and t = t and c' = c' and g = g and now = now, OF _ assms(4,5)]
  have one: "\<not> (string_format ?f \<and> number_format ?f)" by (auto simp: string_format_def number_format_def)
  consider (all) "cp_extension pn = EXTENSION_ALL" "number_format ?f"
        "Cache_Add g now mok tok (owq_array owq) (Some pn) c = (gbGOOD, c')"
    | (num) "cp_extension pn \<noteq> EXTENSION_ALL" "number_format ?f"
        "Cache_Add g now mok tok (owq_val owq) (Some pn) c = (gbGOOD, c')"
    | (str) "cp_extension pn \<noteq> EXTENSION_ALL" "string_format ?f"
        "Cache_Add g now mok tok (take (owq_length owq) (owq_buffer owq)) (Some pn) c = (gbGOOD, c')"
    using assms(1,3,9) by (auto simp: OWQ_Cache_Add_def Let_def split: if_splits option.splits)
  then show ?thesis
  proof cases
    case all
    have "fst (Cache_Get g t (length (owq_array owq)) pn c') = (gbGOOD, length (owq_array owq), owq_array owq)"
      using get [OF all(3)] assms(6) by auto
    then show ?thesis
      using all one assms by (auto simp: OWQ_Cache_Get_def Cache_Get_Strict_def Let_def overlay_def BAD_def split_beta prod_eq_iff)
  next
    case num
    have "fst (Cache_Get g t sizeof_value_object pn c') = (gbGOOD, sizeof_value_object, owq_val owq)"
      using get [OF num(3)] assms(6,8) by auto
    then show ?thesis
      using num one assms by (auto simp: OWQ_Cache_Get_def Cache_Get_Strict_def Let_def overlay_def BAD_def split_beta prod_eq_iff)
  next
    case str
    have "fst (Cache_Get g t (owq_size q) pn c') = (gbGOOD, owq_length owq, take (owq_length owq) (owq_buffer owq))"
      using get [OF str(3)] assms(6,10,11) by (auto simp: min_absorb2)
    then show ?thesis
      using str one assms by (auto simp: OWQ_Cache_Get_def Let_def overlay_def split_beta prod_eq_iff min_absorb2)
  qed
qed

theorem query_roundtrip_witness:
  "let g = default_globals;
       pn = \<lparr>cp_sn = [0x28, 2, 3, 4, 5, 6, 7, 8], cp_filetype = \<lparr>ft_id = 5, ft_form = ft_float, ft_change = fc_volatile,
               ft_ag = Some \<lparr>ag_elements = 1, ag_comb = ag_separate\<rparr>\<rparr>,
             cp_extension = 0, cp_alarm_dir = False, cp_uncached_dir = False, cp_connection = Some (0, bus_real), cp_bp = []\<rparr>;
       owq = \<lparr>owq_buffer = [], owq_size = 0, owq_offset = 0, owq_val = [1, 2, 3, 4, 5, 6, 7, 8], owq_length = 0,
              owq_array = replicate 8 0, owq_simul = False, owq_pn = pn\<rparr>;
       c' = snd (the (OWQ_Cache_Add g 100 True True owq (Cache_Open g 0 zero_cache)))
   in \<exists>q' c''. OWQ_Cache_Get g 110 (owq\<lparr>owq_val := replicate 8 0\<rparr>) c' = Some (gbGOOD, q', c'') \<and>
        take 8 (owq_val q') = [1, 2, 3, 4, 5, 6, 7, 8]"
proof -
  let ?g = default_globals
  let ?pn = "\<lparr>cp_sn = [0x28, 2, 3, 4, 5, 6, 7, 8], cp_filetype = \<lparr>ft_id = 5, ft_form = ft_float, ft_change = fc_volatile,
               ft_ag = Some \<lparr>ag_elements = 1, ag_comb = ag_separate\<rparr>\<rparr>,
             cp_extension = 0, cp_alarm_dir = False, cp_uncached_dir = False, cp_connection = Some (0, bus_real), cp_bp = []\<rparr>"
  let ?owq = "\<lparr>owq_buffer = [], owq_size = 0, owq_offset = 0, owq_val = [1, 2, 3, 4, 5, 6, 7, 8], owq_length = 0,
              owq_array = replicate 8 0, owq_simul = False, owq_pn = ?pn\<rparr>"
  let ?add = "OWQ_Cache_Add ?g 100 True True ?owq (Cache_Open ?g 0 zero_cache)"
  have "?add = Some (gbGOOD, snd (the ?add))"
    by (simp add: OWQ_Cache_Add_def Cache_Add_def IsThisPersistent_def get_busmode_def number_format_def string_format_def
        EXTENSION_ALL_def cache_eval Add_Stat_def GOOD_def)
  from query_roundtrip [OF this, of "?owq\<lparr>owq_val := replicate 8 0\<rparr>" ?pn 110] show ?thesis
    by (simp add: IsThisPersistent_def get_busmode_def number_format_def EXTENSION_ALL_def TimeOut_def default_globals_def
        sizeof_value_object_def array_size_def Let_def)
qed

text \<open>
  C38: a deleted value can come back. When the retired tree is past its lifespan but has not been flipped
  out, a deletion does not look into it while a lookup with a longer duration does: the deletion has no
  effect and the value is still returned.
\<close>
theorem deleted_value_returned:
  assumes "map_of (temporary_tree_new c) k = None" and "map_of (temporary_tree_old c) k = Some tn"
    and "time_to_kill c \<le> now" and "now < time_retired c + duration" and "now < tn_expires tn" and "tn_dsize tn \<le> n"
  shows "\<exists>c'. Cache_Del_Common now k c = (gbBAD, c') \<and> fst (Cache_Get_Common now n duration k c') = ctr_ok"
  using assms by (simp add: Cache_Del_Common_def Cache_Get_Common_def Let_def)

text \<open>A stable timeout of two hours: the value is added just before a flip and deleted an hour later.\<close>

theorem deleted_value_returned_witness:
  "let g = default_globals\<lparr>timeout_stable := 7200\<rparr>; k = LoadTK [1, 2, 3, 4, 5, 6, 7, 8] (ft_ptr 3) 0;
       k' = LoadTK [1, 2, 3, 4, 5, 6, 7, 8] (ft_ptr 4) 0;
       c = fst (store_run (put_temporary (\<lambda>_. TimeOut g fc_stable)) Cache_Del_Common
             [(3600, Put (g, True) k [7]), (3601, Put (g, True) k' [9])] (Cache_Open g 0 zero_cache, []))
   in \<exists>c'. Cache_Del_Common 7201 k c = (gbBAD, c') \<and> fst (Cache_Get_Common 7201 8 (TimeOut g fc_stable) k c') = ctr_ok"
  unfolding Let_def
  by (rule deleted_value_returned [where tn = "value_node 10800 [7]"]) (simp_all add: cache_eval put_temporary_def value_node_def)

text \<open>
  \<^verbatim>\<open>Cache_Del_Internal\<close> deletes nothing that \<^verbatim>\<open>Cache_Add_SlaveSpecific\<close> stored: it uses extension 0 where
  the other two use \<^verbatim>\<open>EXTENSION_INTERNAL\<close>, so every lookup answers as before.
\<close>
theorem internal_never_deleted:
  "fst (Cache_Get_Internal g t n ip pn (Cache_Del_Internal g now ip' pn' c)) = fst (Cache_Get_Internal g t n ip pn c)"
proof (cases pn)
  case (Some p)
  let ?c = "Cache_Del_Internal g now ip' pn' c"
  let ?k = "LoadTK (cp_sn p) (ip_ptr (ip_name ip)) EXTENSION_INTERNAL"
  have k: "?k \<noteq> LoadTK sn q 0" for sn q by (simp add: LoadTK_def EXTENSION_INTERNAL_def)
  note unfold = Cache_Del_Internal_def Del_Stat_def Cache_Del_Common_def Cache_Del_Persistent_def expire_node_def bump_def
    Let_def update_conv' delete_conv'
  have "map_of (temporary_tree_new ?c) ?k = map_of (temporary_tree_new c) ?k"
    and "map_of (temporary_tree_old ?c) ?k = map_of (temporary_tree_old c) ?k"
    and "map_of (persistent_tree ?c) ?k = map_of (persistent_tree c) ?k"
    and "time_retired ?c = time_retired c"
    using k by (simp_all add: unfold split: option.split)
  then have "Cache_Get_Common t n d ?k ?c = Cache_Get_Common t n d ?k c"
    "Cache_Get_Persistent n ?k ?c = Cache_Get_Persistent n ?k c" for d
    by (simp_all add: Cache_Get_Common_def Cache_Get_Persistent_def cong: option.case_cong)
  then show ?thesis
    by (simp add: Some Cache_Get_Internal_def Get_Stat_def Let_def split_beta split: cache_task_return.split)
qed (simp add: Cache_Get_Internal_def)

text \<open>
  Aliases. \<^verbatim>\<open>Cache_Add_Alias\<close> ties a name and a serial number both ways: the serial number gives the
  name back as a terminated string, the name gives the serial number, and no other name and no other
  serial number is affected.
\<close>
theorem alias_roundtrip:
  assumes "name \<noteq> []" and "CHR 0x00 \<notin> set name" and "length sn = 8" and "alias_tree_sound (persistent_alias_tree c)"
  shows "\<exists>c'. Cache_Add_Alias now True True True True name sn c = Some (gbGOOD, c') \<and>
    alias_tree_sound (persistent_alias_tree c') \<and>
    map_option c_string (Cache_Get_Alias True sn c') = Some name \<and>
    Cache_Get_Alias_SN True name c' = Some (gbGOOD, sn) \<and>
    (\<forall>sn'. length sn' = 8 \<longrightarrow> sn' \<noteq> sn \<longrightarrow> Cache_Get_Alias True sn' c' = Cache_Get_Alias True sn' c) \<and>
    (\<forall>name'. name' \<noteq> name \<longrightarrow> Cache_Get_Alias_SN True name' c' = Cache_Get_Alias_SN True name' c)"
proof -
  have sound: "alias_tree_sound (AList.update name (Live now (SN sn)) (persistent_alias_tree c))"
    using assms(4) by (rule alias_tree_sound_update)
  have len: "length (str_bytes name) = length name" by (simp add: str_bytes_def)
  have key: "LoadTK sn' Alias_Marker 0 \<noteq> LoadTK sn Alias_Marker 0" if "length sn' = 8" "sn' \<noteq> sn" for sn'
    using that assms(3) by (simp add: LoadTK_def)
  show ?thesis
    using assms sound key
    by (simp add: Cache_Add_Alias_def Cache_Add_Alias_SN_def Cache_Add_Alias_Persistent_def Cache_Add_Persistent_def
        Cache_Get_Alias_def Cache_Get_Alias_SN_def Cache_Get_Alias_Persistent_def Add_Stat_def bump_def tsearch_ok_def
        GOOD_def Let_def update_conv' len)
qed

theorem alias_roundtrip_witness:
  "map_option (\<lambda>(ret, c'). Cache_Get_Alias_SN True ''attic'' c')
     (Cache_Add_Alias 5 True True True True ''attic'' [0x28, 2, 3, 4, 5, 6, 7, 8] zero_cache)
   = Some (Some (gbGOOD, [0x28, 2, 3, 4, 5, 6, 7, 8]))"
  using alias_roundtrip [of "''attic''" "[0x28, 2, 3, 4, 5, 6, 7, 8]" zero_cache 5]
  by (auto simp: zero_cache_def alias_tree_sound_def)

text \<open>
  Deleting an alias frees its node of the persistent alias tree and leaves it in the tree: looking the
  name up again, adding it again or deleting it again is undefined.
\<close>
theorem deleted_alias_dangles:
  assumes "name \<noteq> []" and "CHR 0x00 \<notin> set name" and "length sn = 8" and "alias_tree_sound (persistent_alias_tree c)"
    and "Cache_Add_Alias now True True True True name sn c = Some (gbGOOD, c')"
  shows "\<exists>c''. Cache_Del_Alias True True True sn c' = Some c'' \<and>
    Cache_Get_Alias_SN True name c'' = None \<and> Cache_Add_Alias now True True True True name sn c'' = None"
proof -
  have sound: "alias_tree_sound (AList.update name (Live now (SN sn)) (persistent_alias_tree c))"
    using assms(4) by (rule alias_tree_sound_update)
  have dangling: "\<not> alias_tree_sound (AList.update name Freed t)" for t :: alias_tree
    using map_of_SomeD [of "AList.update name Freed t" name Freed] by (force simp: alias_tree_sound_def update_conv')
  have len: "length (str_bytes name) = length name" by (simp add: str_bytes_def)
  note defs = Cache_Add_Alias_def Cache_Add_Alias_SN_def Cache_Add_Alias_Persistent_def Cache_Add_Persistent_def
    Cache_Get_Alias_def Cache_Get_Alias_SN_def Cache_Get_Alias_Persistent_def Cache_Del_Alias_def Cache_Del_Alias_SN_def
    Cache_Del_Alias_Persistent_def Cache_Del_Persistent_def Add_Stat_def Del_Stat_def bump_def tsearch_ok_def GOOD_def
    Let_def update_conv' len
  show ?thesis using assms sound dangling by (auto simp: defs)
qed

theorem deleted_alias_dangles_witness:
  "\<exists>c' c''. Cache_Add_Alias 5 True True True True ''attic'' [0x28, 2, 3, 4, 5, 6, 7, 8] zero_cache = Some (gbGOOD, c') \<and>
     Cache_Del_Alias True True True [0x28, 2, 3, 4, 5, 6, 7, 8] c' = Some c'' \<and> Cache_Get_Alias_SN True ''attic'' c'' = None"
proof -
  have sound: "alias_tree_sound (persistent_alias_tree zero_cache)" by (simp add: zero_cache_def alias_tree_sound_def)
  obtain c' where "Cache_Add_Alias 5 True True True True ''attic'' [0x28, 2, 3, 4, 5, 6, 7, 8] zero_cache = Some (gbGOOD, c')"
    by (simp add: Cache_Add_Alias_def Cache_Add_Alias_SN_def Cache_Add_Alias_Persistent_def Cache_Add_Persistent_def
        Add_Stat_def tsearch_ok_def alias_tree_sound_def GOOD_def Let_def zero_cache_def)
  then show ?thesis
    using deleted_alias_dangles [of "''attic''" "[0x28, 2, 3, 4, 5, 6, 7, 8]" zero_cache 5 c'] sound by auto
qed

text \<open>
  C37: memory. With a limit on the size of the cache, any sequence of additions of values and bus aliases and
  of deletions keeps at most one node more than the limit has room for pointers. The size of what a node
  holds is not counted.
\<close>
theorem cache_nodes_bounded:
  assumes "g_cache_size g \<noteq> 0"
  shows "ram_invar (fold (cache_step g) steps (Cache_Open g now c0)) \<and>
    node_count (fold (cache_step g) steps (Cache_Open g now c0)) \<le> g_cache_size g div sizeof_pointer + 1"
proof -
  have step: "ram_invar (fold (cache_step g) steps c) \<and> node_count (fold (cache_step g) steps c) \<le> g_cache_size g div sizeof_pointer + 1"
    if "ram_invar c" "node_count c \<le> g_cache_size g div sizeof_pointer + 1" for c
    using that
  proof (induction steps arbitrary: c)
    case (Cons s steps)
    then show ?case using cache_step_ram [OF Cons.prems(1) assms Cons.prems(2), of s] by simp
  qed simp
  show ?thesis by (rule step) (simp_all add: Cache_Open_def FlipTree_def ram_invar_def node_count_def)
qed

theorem cache_nodes_bounded_witness:
  "node_count (fold (cache_step (default_globals\<lparr>g_cache_size := 8\<rparr>))
      [(1, True, Add_node (LoadTK [1] (ft_ptr 0) 0) (value_node 9 [])), (2, True, Add_alias ''x'' (Live 9 (Bus 1)))]
      (Cache_Open (default_globals\<lparr>g_cache_size := 8\<rparr>) 0 zero_cache)) \<le> 2"
  using cache_nodes_bounded [of "default_globals\<lparr>g_cache_size := 8\<rparr>"
      "[(1, True, Add_node (LoadTK [1] (ft_ptr 0) 0) (value_node 9 [])), (2, True, Add_alias ''x'' (Live 9 (Bus 1)))]" 0 zero_cache]
  by (simp add: sizeof_pointer_def)

end
