(* ===== verification/OW_SerialNumber.thy ===== *)
theory OW_SerialNumber
  imports OW_Verify
begin

text \<open>
  Serial numbers as text: the names of devices in directories (\<^verbatim>\<open>FS_devicename\<close> of \<^verbatim>\<open>ow_name.c\<close>) and reading
  them back (\<^verbatim>\<open>ow_parse_sn.c\<close>). The regular expression of the parser is a function here, proved equal to
  the declarative reading of the expression.
\<close>

section \<open>Names\<close>

datatype deviceformat = fdi | fi | fdidc | fdic | fidc | fic

text \<open>The buffer has room for the longest name, so nothing is cut off.\<close>

fun FS_devicename :: "deviceformat \<Rightarrow> byte list \<Rightarrow> string" where
  "FS_devicename fi sn = bytes2string (take 7 sn)"
| "FS_devicename fdidc sn = num2string (sn ! 0) @ ''.'' @ bytes2string (take 6 (drop 1 sn)) @ ''.'' @ num2string (sn ! 7)"
| "FS_devicename fdic sn = num2string (sn ! 0) @ ''.'' @ bytes2string (take 6 (drop 1 sn)) @ num2string (sn ! 7)"
| "FS_devicename fidc sn = bytes2string (take 7 sn) @ ''.'' @ num2string (sn ! 7)"
| "FS_devicename fic sn = bytes2string (take 8 sn)"
| "FS_devicename fdi sn = num2string (sn ! 0) @ ''.'' @ bytes2string (take 6 (drop 1 sn))"

section \<open>Reading them\<close>

datatype parse_serialnumber = sn_valid | sn_invalid | sn_not_sn | sn_null

definition isxdigit :: "char \<Rightarrow> bool" where
  "isxdigit c \<longleftrightarrow> (let v = of_char c :: nat in 48 \<le> v \<and> v \<le> 57 \<or> 65 \<le> v \<and> v \<le> 70 \<or> 97 \<le> v \<and> v \<le> 102)"

definition skip_dot :: "string \<Rightarrow> string" where
  "skip_dot s = (case s of c # cs \<Rightarrow> if c = CHR ''.'' then cs else s | [] \<Rightarrow> s)"

definition xdigits :: "nat \<Rightarrow> string \<Rightarrow> bool" where
  "xdigits n s \<longleftrightarrow> length s = n \<and> list_all isxdigit s"

text \<open>The expression of \<^verbatim>\<open>regex_init\<close>: two digits, a dot or not, twelve digits, a dot or not, two digits or
  none, and the end. The result is the three groups.\<close>

definition rx_sn_parse :: "string \<Rightarrow> (string \<times> string \<times> string option) option" where
  "rx_sn_parse s =
     (let a = take 2 s; r = skip_dot (drop 2 s); b = take 12 r; e = skip_dot (drop 12 r) in
      if xdigits 2 a \<and> xdigits 12 b then
        if e = [] then Some (a, b, None)
        else if xdigits 2 e then Some (a, b, Some e)
        else None
      else None)"

text \<open>\<^const>\<open>None\<close> for the serial number: the buffer is not written.\<close>

definition Parse_SerialNumber :: "string option \<Rightarrow> parse_serialnumber \<times> byte list option" where
  "Parse_SerialNumber sn_char =
     (case sn_char of None \<Rightarrow> (sn_null, None)
      | Some s \<Rightarrow>
          (case rx_sn_parse s of None \<Rightarrow> (sn_not_sn, None)
           | Some (m1, m2, m3) \<Rightarrow>
               let sn = string2num (Some m1) # map (\<lambda>i. string2num (Some (drop (2 * i) m2))) [0..<6];
                   sn = sn @ [CRC8compute sn 0]
               in (case m3 of
                     Some crc \<Rightarrow> if string2num (Some crc) \<noteq> sn ! 7 then (sn_invalid, Some sn) else (sn_valid, Some sn)
                   | None \<Rightarrow> (sn_valid, Some sn))))"

text \<open>The bytes read, at most \<open>n\<close>. The end of the string is no digit.\<close>

fun sn_length_loop :: "nat \<Rightarrow> string \<Rightarrow> byte list" where
  "sn_length_loop 0 s = []"
| "sn_length_loop (Suc n) s =
     (case skip_dot s of
        c # d # cs \<Rightarrow> if isxdigit c \<and> isxdigit d then string2num (Some [c, d]) # sn_length_loop n cs else []
      | _ \<Rightarrow> [])"

definition SerialNumber_length :: "string \<Rightarrow> nat \<times> byte list" where
  "SerialNumber_length sn_char = (let bytes = sn_length_loop SERIAL_NUMBER_SIZE sn_char in (length bytes, bytes))"

section \<open>Lemmas\<close>

lemma isxdigit_tohexchar: "n < 16 \<Longrightarrow> isxdigit (tohexchar n)"
proof -
  assume "n < 16"
  then have "unat n < 16" by (simp add: word_less_nat_alt)
  then show ?thesis
    by (auto simp: isxdigit_def tohexchar_def Let_def word_le_nat_alt)
qed

lemma dot_no_digit: "isxdigit c \<Longrightarrow> c \<noteq> CHR ''.''"
  by (auto simp: isxdigit_def)

lemma xdigits_num2string [simp]: "xdigits 2 (num2string b)"
  by (simp add: xdigits_def num2string_def isxdigit_tohexchar nibble_high nibble_low)

lemma list_all_bytes2string [simp]: "list_all isxdigit (bytes2string bs)"
  by (induction bs) (auto simp: num2string_def isxdigit_tohexchar nibble_high nibble_low)

lemma skip_dot_digits [simp]: "list_all isxdigit s \<Longrightarrow> skip_dot s = s"
  by (cases s) (auto simp: skip_dot_def dot_no_digit)

lemma skip_dot_append: "list_all isxdigit s \<Longrightarrow> s \<noteq> [] \<Longrightarrow> skip_dot (s @ t) = s @ t"
  by (cases s) (auto simp: skip_dot_def dot_no_digit)

lemma skip_dot_dot [simp]: "skip_dot (CHR ''.'' # s) = s"
  by (simp add: skip_dot_def)

lemma skip_dot_cases: "\<exists>d \<in> {[], ''.''}. s = d @ skip_dot s"
  by (auto simp: skip_dot_def split: list.splits)

text \<open>The expression read declaratively.\<close>

definition sn_form :: "string \<Rightarrow> string \<Rightarrow> string \<Rightarrow> string option \<Rightarrow> bool" where
  "sn_form s a b e \<longleftrightarrow> xdigits 2 a \<and> xdigits 12 b \<and> (case e of None \<Rightarrow> True | Some c \<Rightarrow> xdigits 2 c) \<and>
     (\<exists>d1 \<in> {[], ''.''}. \<exists>d2 \<in> {[], ''.''}. s = a @ d1 @ b @ d2 @ (case e of None \<Rightarrow> [] | Some c \<Rightarrow> c))"

lemma skip_dot_form:
  assumes "list_all isxdigit t" and "d \<in> {[], ''.''}" and "t = [] \<longrightarrow> r = []"
  shows "skip_dot (d @ t @ r) = t @ r"
  using assms by (cases t) (auto simp: skip_dot_def dot_no_digit)

lemma rx_sn_parse_iff: "rx_sn_parse s = Some (a, b, e) \<longleftrightarrow> sn_form s a b e"
proof
  assume rx: "rx_sn_parse s = Some (a, b, e)"
  let ?r = "skip_dot (drop 2 s)"
  obtain d1 where d1: "d1 \<in> {[], ''.''}" "drop 2 s = d1 @ ?r" using skip_dot_cases by blast
  obtain d2 where d2: "d2 \<in> {[], ''.''}" "drop 12 ?r = d2 @ skip_dot (drop 12 ?r)" using skip_dot_cases by blast
  have "s = take 2 s @ d1 @ ?r" using d1(2) append_take_drop_id [of 2 s] by simp
  also have "?r = take 12 ?r @ d2 @ skip_dot (drop 12 ?r)" using d2(2) append_take_drop_id [of 12 ?r] by simp
  finally have "s = take 2 s @ d1 @ take 12 ?r @ d2 @ skip_dot (drop 12 ?r)" .
  then show "sn_form s a b e"
    using rx d1(1) d2(1) by (auto simp: rx_sn_parse_def sn_form_def Let_def split: if_splits)
next
  assume "sn_form s a b e"
  then obtain d1 d2 where d: "d1 \<in> {[], ''.''}" "d2 \<in> {[], ''.''}"
    and s: "s = a @ d1 @ b @ d2 @ (case e of None \<Rightarrow> [] | Some c \<Rightarrow> c)"
    and x: "xdigits 2 a" "xdigits 12 b" "case e of None \<Rightarrow> True | Some c \<Rightarrow> xdigits 2 c"
    unfolding sn_form_def by blast
  let ?e = "case e of None \<Rightarrow> [] | Some c \<Rightarrow> c"
  have "b \<noteq> []" using x(2) by (auto simp: xdigits_def)
  then have r: "skip_dot (drop 2 s) = b @ d2 @ ?e"
    using skip_dot_form [OF _ d(1), of b "d2 @ ?e"] x(1,2) by (auto simp: s xdigits_def)
  have e: "skip_dot (drop 12 (b @ d2 @ ?e)) = ?e"
    using skip_dot_form [OF _ d(2), of ?e "[]"] x(2,3) by (auto simp: xdigits_def split: option.splits)
  have "take 2 s = a" "take 12 (b @ d2 @ ?e) = b" using x by (simp_all add: s xdigits_def)
  then show "rx_sn_parse s = Some (a, b, e)"
    using x r e by (auto simp: rx_sn_parse_def Let_def xdigits_def split: option.splits)
qed

lemma devicename_form:
  assumes "length sn = 8"
  shows "sn_form (FS_devicename fmt sn) (num2string (sn ! 0)) (bytes2string (take 6 (drop 1 sn)))
    (if fmt \<in> {fdi, fi} then None else Some (num2string (sn ! 7)))"
proof -
  obtain a b c d e f g h where sn: "sn = [a, b, c, d, e, f, g, h]"
    using assms by (auto simp: length_Suc_conv eval_nat_numeral)
  have "xdigits 12 (bytes2string (take 6 (drop 1 sn)))" by (simp add: xdigits_def assms)
  then show ?thesis by (cases fmt) (simp_all add: sn_form_def sn)
qed

lemma string2bytes_map: "string2bytes s n = map (\<lambda>i. string2num (Some (drop (2 * i) s))) [0..<n]"
proof (induction n arbitrary: s)
  case (Suc n)
  have "map (\<lambda>i. string2num (Some (drop (2 * i) (drop 2 s)))) [0..<n] = map (\<lambda>i. string2num (Some (drop (2 * i) s))) [1..<Suc n]"
    by (simp add: map_Suc_upt [symmetric] ac_simps del: upt_Suc)
  then show ?case using Suc by (simp add: upt_rec [of 0] del: upt_Suc)
qed simp

lemma crc_completes: "CRC8compute (xs @ [CRC8compute xs 0]) 0 = 0"
  by (simp add: CRC8compute_append CRC8compute_def crc8_step_ref)

lemma crc_byte:
  assumes "length sn = 8" and "CRC8compute sn 0 = 0"
  shows "sn ! 7 = CRC8compute (take 7 sn) 0"
proof -
  have sn: "sn = take 7 sn @ [sn ! 7]" using assms(1) take_Suc_conv_app_nth [of 7 sn] by simp
  have "lfsr8 (0x8C :: byte) (CRC8compute (take 7 sn) 0 XOR sn ! 7) = 0"
    using assms(2) arg_cong [OF sn, of "\<lambda>s. CRC8compute s 0"]
    by (simp add: CRC8compute_append CRC8compute_def crc8_step_ref)
  then have "CRC8compute (take 7 sn) 0 XOR sn ! 7 = 0"
    using lfsr8_CRC8_inj [of "CRC8compute (take 7 sn) 0 XOR sn ! 7" 0] by simp
  then show ?thesis by (metis xor.left_neutral xor.assoc xor_self_eq)
qed

lemma sn_length_digits:
  "sn_length_loop (Suc n) (num2string b @ s) = b # sn_length_loop n s"
  "sn_length_loop (Suc n) (CHR ''.'' # num2string b @ s) = b # sn_length_loop n s"
proof -
  have "string2num (Some [tohexchar (drop_bit 4 b), tohexchar (b AND 0x0F)]) = b"
    using string2num_num2string [of b "[]"] by (simp add: num2string_def)
  then show "sn_length_loop (Suc n) (num2string b @ s) = b # sn_length_loop n s"
    "sn_length_loop (Suc n) (CHR ''.'' # num2string b @ s) = b # sn_length_loop n s"
    by (simp_all add: num2string_def isxdigit_tohexchar nibble_high nibble_low skip_dot_def
        dot_no_digit [OF isxdigit_tohexchar])
qed

lemma sn_length_end: "sn_length_loop n [] = []"
  by (cases n) (simp_all add: skip_dot_def)

section \<open>Properties\<close>

lemma devicename_parsed:
  assumes "length sn = 8" and "CRC8compute sn 0 = 0"
  shows "Parse_SerialNumber (Some (FS_devicename fmt sn)) = (sn_valid, Some sn)"
proof -
  obtain a b c d e f g h where sn: "sn = [a, b, c, d, e, f, g, h]"
    using assms(1) by (auto simp: length_Suc_conv eval_nat_numeral)
  have "rx_sn_parse (FS_devicename fmt sn) = Some (num2string (sn ! 0), bytes2string (take 6 (drop 1 sn)),
      if fmt \<in> {fdi, fi} then None else Some (num2string (sn ! 7)))"
    using devicename_form [OF assms(1)] by (simp add: rx_sn_parse_iff)
  moreover have "string2bytes (bytes2string (take 6 (drop 1 sn))) 6 = take 6 (drop 1 sn)"
  proof -
    have six: "length (take 6 (drop 1 sn)) = 6" using assms(1) by simp
    show ?thesis using string2bytes_prefix [of "take 6 (drop 1 sn)" "[]", unfolded six append_Nil2] .
  qed
  moreover have "string2num (Some (num2string x)) = x" for x using string2num_num2string [of x "[]"] by simp
  moreover have "sn ! 7 = CRC8compute (take 7 sn) 0" by (rule crc_byte [OF assms])
  ultimately show ?thesis
    by (auto simp: Parse_SerialNumber_def string2bytes_map [symmetric] Let_def sn)
qed

text \<open>
  C32: a device name read back. Whatever the display format, \<^verbatim>\<open>Parse_SerialNumber\<close> of the name
  \<^verbatim>\<open>FS_devicename\<close> prints for a serial number with a correct checksum is valid and gives that serial number,
  and \<^verbatim>\<open>SerialNumber_length\<close> reads all the bytes the format shows.
\<close>
theorem devicename_roundtrip:
  assumes "length sn = 8" and "CRC8compute sn 0 = 0"
  shows "Parse_SerialNumber (Some (FS_devicename fmt sn)) = (sn_valid, Some sn) \<and>
    SerialNumber_length (FS_devicename fmt sn) = (if fmt \<in> {fdi, fi} then (7, take 7 sn) else (8, sn))"
proof -
  obtain a b c d e f g h where sn: "sn = [a, b, c, d, e, f, g, h]"
    using assms(1) by (auto simp: length_Suc_conv eval_nat_numeral)
  have "SerialNumber_length (FS_devicename fmt sn) = (if fmt \<in> {fdi, fi} then (7, take 7 sn) else (8, sn))"
    by (cases fmt) (simp_all add: SerialNumber_length_def Let_def sn SERIAL_NUMBER_SIZE_def eval_nat_numeral sn_length_digits
        sn_length_digits [where s = "[]", unfolded append_Nil2] sn_length_end del: sn_length_loop.simps(2))
  then show ?thesis using devicename_parsed [OF assms] by simp
qed

theorem devicename_roundtrip_witness:
  "Parse_SerialNumber (Some (FS_devicename fdidc [0x28,1,2,3,4,5,6,158])) = (sn_valid, Some [0x28,1,2,3,4,5,6,158])"
  using devicename_roundtrip [of "[0x28,1,2,3,4,5,6,158]" fdidc]
  by (simp add: CRC8compute_def crc8_step_def crc8_table_def)

text \<open>
  C33: what the parser accepts. A string is a valid serial number exactly when it has the form of the regular
  expression and the checksum, if one is given, is that of the seven bytes; the serial number returned
  always has a correct checksum. A string of the form with another checksum is invalid, and any other
  string is no serial number.
\<close>
theorem Parse_SerialNumber_decides:
  "(fst (Parse_SerialNumber (Some s)) = sn_valid \<longleftrightarrow>
      (\<exists>a b e. sn_form s a b e \<and> (\<forall>c. e = Some c \<longrightarrow>
         string2num (Some c) = CRC8compute (string2num (Some a) # string2bytes b 6) 0))) \<and>
   (fst (Parse_SerialNumber (Some s)) = sn_not_sn \<longleftrightarrow> (\<nexists>a b e. sn_form s a b e)) \<and>
   (\<forall>sn. snd (Parse_SerialNumber (Some s)) = Some sn \<longrightarrow> length sn = 8 \<and> CRC8compute sn 0 = 0)"
proof (cases "rx_sn_parse s")
  case None
  then have "\<not> sn_form s a b e" for a b e using rx_sn_parse_iff [of s a b e] by simp
  with None show ?thesis by (simp add: Parse_SerialNumber_def)
next
  case (Some m)
  obtain a b e where m: "m = (a, b, e)" by (cases m)
  have form: "sn_form s a' b' e' \<longleftrightarrow> a' = a \<and> b' = b \<and> e' = e" for a' b' e'
    using rx_sn_parse_iff [of s a' b' e'] by (auto simp: Some m)
  have len: "length (string2bytes b 6) = 6" by (simp add: string2bytes_map)
  then show ?thesis
    by (auto simp: Parse_SerialNumber_def Some m form string2bytes_map [symmetric] Let_def nth_append crc_completes
        crc_completes [of "_ # _", simplified] split: option.splits if_splits)
qed

theorem Parse_SerialNumber_decides_witness:
  "snd (Parse_SerialNumber (Some ''10.67C6697351FF'')) = Some [0x10, 0x67, 0xC6, 0x69, 0x73, 0x51, 0xFF, 0x8D]
   \<and> CRC8compute [0x10, 0x67, 0xC6, 0x69, 0x73, 0x51, 0xFF, 0x8D] 0 = 0"
proof -
  have "snd (Parse_SerialNumber (Some ''10.67C6697351FF'')) = Some [0x10, 0x67, 0xC6, 0x69, 0x73, 0x51, 0xFF, 0x8D]"
    by code_simp
  with Parse_SerialNumber_decides [of "''10.67C6697351FF''"] show ?thesis by simp
qed

end
