(* ===== verification/OW_Directory.thy ===== *)
theory OW_Directory
  imports OW_Wire OW_Store OW_SerialNumber
begin

text \<open>
  Listing the devices of a bus: \<^verbatim>\<open>BUS_first\<close> and \<^verbatim>\<open>BUS_next\<close> of \<^verbatim>\<open>ow_search.c\<close>, the directory of devices, the cached
  directory and the alarm directory of \<^verbatim>\<open>ow_dir.c\<close>, and the walk over all ports. Here the search, the buffers,
  the cache and the device names come together.

  Each operation that reads the time or allocates takes the next tick of the environment. The callback of a
  directory, \<^verbatim>\<open>FS_dir_plus\<close> with the user's function, is an argument that works on the user's own state and
  returns zero or an error.
\<close>

section \<open>State\<close>

record dir_env =
  clock :: "nat \<Rightarrow> int"
  node_ok :: "nat \<Rightarrow> bool"
  tree_ok :: "nat \<Rightarrow> bool"

record ('b, 'v) dir_state =
  bus :: "'b connection_in"
  dcache :: cache_data
  last_root_devs :: nat
  dir_main_calls :: uint
  dir_main_entries :: uint
  ticks :: nat
  user :: 'v

text \<open>The name of a directory, as the bus and as the cache see it, with its bus, the format of device names, and
  the flags \<^verbatim>\<open>SpecifiedBus\<close> and \<^verbatim>\<open>NotReconnect\<close>. A remote bus and an external one have their own listing.\<close>

record ('b, 'v) dir_pn =
  dp_bus :: bus_pn
  dp_cache :: cache_pn
  dp_index :: int
  dp_format :: deviceformat
  dp_SpecifiedBus :: bool
  dp_NotReconnect :: bool
  dp_server :: "(('b, 'v) dir_state \<Rightarrow> int \<times> ('b, 'v) dir_state) option"
  dp_external :: "(('b, 'v) dir_state \<Rightarrow> int \<times> ('b, 'v) dir_state) option"

type_synonym ('b, 'v) search_call =
  "device_search \<Rightarrow> ('b, 'v) dir_state \<Rightarrow> search_status \<times> device_search \<times> ('b, 'v) dir_state"

definition ADAP_FLAG_sham :: uint where "ADAP_FLAG_sham = 0x8000"

definition add_device :: "dir_env \<Rightarrow> globals \<Rightarrow> int \<Rightarrow> byte list \<Rightarrow> ('b, 'v) dir_state \<Rightarrow> ('b, 'v) dir_state" where
  "add_device env g index sn s =
     s\<lparr>dcache := snd (Cache_Add_Device g (clock env (ticks s)) (node_ok env (ticks s)) (tree_ok env (ticks s)) index sn (dcache s)),
       ticks := Suc (ticks s)\<rparr>"

section \<open>Searching\<close>

definition BUS_next :: "dir_env \<Rightarrow> globals \<Rightarrow> 'b interface_routines \<Rightarrow> ('b, 'v) dir_pn \<Rightarrow> ('b, 'v) search_call" where
  "BUS_next env g ir pn ds s =
     (case BUS_next_3try ir ds (dp_bus pn) (bus s) of (status, ds, c) \<Rightarrow>
        let s = s\<lparr>bus := c\<rparr> in
        (case status of
           search_good \<Rightarrow> (search_good, ds, add_device env g (dp_index pn) (ds_sn ds) s)
         | search_done \<Rightarrow> (search_done, BUS_next_cleanup ds, s)
         | search_error \<Rightarrow> (search_error, BUS_next_cleanup ds, s)))"

definition BUS_first :: "dir_env \<Rightarrow> globals \<Rightarrow> 'b interface_routines \<Rightarrow> ('b, 'v) dir_pn \<Rightarrow> ('b, 'v) search_call" where
  "BUS_first env g ir pn ds s = BUS_next env g ir pn ((BUS_first_both ds)\<lparr>ds_search := SEARCH_ROM\<rparr>) s"

definition BUS_first_alarm :: "dir_env \<Rightarrow> globals \<Rightarrow> 'b interface_routines \<Rightarrow> ('b, 'v) dir_pn \<Rightarrow> ('b, 'v) search_call" where
  "BUS_first_alarm env g ir pn ds s = BUS_next env g ir pn ((BUS_first_both ds)\<lparr>ds_search := CONDITIONAL_SEARCH_ROM\<rparr>) s"

definition PossiblyLockedBusCall :: "('b, 'v) dir_pn \<Rightarrow> ('b, 'v) search_call \<Rightarrow> ('b, 'v) search_call" where
  "PossiblyLockedBusCall pn first_next ds s =
     (if dp_NotReconnect pn then
        (case first_next ds (s\<lparr>bus := BUS_lock_in (bus s)\<rparr>) of (ret, ds, s) \<Rightarrow>
           (ret, ds, s\<lparr>bus := BUS_unlock_in (bus s)\<rparr>))
      else first_next ds s)"

section \<open>Listing\<close>

type_synonym 'v dir_plus = "string \<Rightarrow> 'v \<Rightarrow> int \<times> 'v"

text \<open>The loop of \<^verbatim>\<open>FS_realdir\<close>; the fuel bounds the devices listed, \<^const>\<open>None\<close> is running out of it.\<close>

fun realdir_loop ::
  "dir_env \<Rightarrow> globals \<Rightarrow> 'b interface_routines \<Rightarrow> 'v dir_plus \<Rightarrow> ('b, 'v) dir_pn \<Rightarrow> nat \<Rightarrow> search_status \<Rightarrow> device_search \<Rightarrow>
     dirblob \<Rightarrow> nat \<Rightarrow> ('b, 'v) dir_state \<Rightarrow> (search_status \<times> dirblob \<times> nat \<times> ('b, 'v) dir_state) option" where
  "realdir_loop env g ir dir_plus pn 0 ret ds db devices s = None"
| "realdir_loop env g ir dir_plus pn (Suc fuel) ret ds db devices s =
     (if ret \<noteq> search_good then Some (ret, db, devices, s)
      else
        let s = add_device env g (dp_index pn) (ds_sn ds) s;
            dev = FS_devicename (dp_format pn) (ds_sn ds)
        in (case dir_plus dev (user s) of (bad, u) \<Rightarrow>
             let s = s\<lparr>user := u\<rparr> in
             if bad \<noteq> 0 then Some (ret, DirblobPoison db, devices, s)
             else (case DirblobAdd (node_ok env (ticks s)) (ds_sn ds) db of
                    None \<Rightarrow> None
                  | Some (_, db) \<Rightarrow>
                      let s = s\<lparr>ticks := Suc (ticks s)\<rparr> in
                      (case PossiblyLockedBusCall pn (BUS_next env g ir pn) ds s of (ret, ds, s) \<Rightarrow>
                        realdir_loop env g ir dir_plus pn fuel ret ds db (Suc devices) s))))"

definition no_search :: device_search where
  "no_search = \<lparr>LastDiscrepancy = 0, LastDevice = False, ds_index = 0, ds_sn = replicate 8 0, ds_search = 0, ds_gulp = DirblobInit\<rparr>"

definition cache_dir_list ::
  "dir_env \<Rightarrow> globals \<Rightarrow> ('b, 'v) dir_pn \<Rightarrow> dirblob \<Rightarrow> ('b, 'v) dir_state \<Rightarrow> ('b, 'v) dir_state" where
  "cache_dir_list env g pn db s =
     s\<lparr>dcache := snd (Cache_Add_Dir g (clock env (ticks s)) (node_ok env (ticks s)) (tree_ok env (ticks s)) db
                       (Some (dp_cache pn)) (dcache s)),
       ticks := Suc (ticks s)\<rparr>"

definition FS_realdir ::
  "dir_env \<Rightarrow> globals \<Rightarrow> 'b interface_routines \<Rightarrow> 'v dir_plus \<Rightarrow> nat \<Rightarrow> ('b, 'v) dir_pn \<Rightarrow> ('b, 'v) dir_state \<Rightarrow>
     (int \<times> ('b, 'v) dir_state) option" where
  "FS_realdir env g ir dir_plus fuel pn s =
     (case dp_server pn of
        Some ServerDir \<Rightarrow> Some (ServerDir s)
      | None \<Rightarrow>
          if ir_flags ir AND ADAP_FLAG_sham \<noteq> 0 then Some (0, s)
          else
            let s = s\<lparr>dir_main_calls := dir_main_calls s + 1\<rparr> in
            (case PossiblyLockedBusCall pn (BUS_first env g ir pn) no_search s of (ret, ds, s) \<Rightarrow>
              let db = (if RootNotBranch (dp_bus pn) then DirblobInit\<lparr>db_allocated := last_root_devs s\<rparr> else DirblobInit) in
              (case realdir_loop env g ir dir_plus pn fuel ret ds db 0 s of
                None \<Rightarrow> None
              | Some (ret, db, devices, s) \<Rightarrow>
                  let s = s\<lparr>dir_main_entries := dir_main_entries s + of_nat devices\<rparr> in
                  if ret = search_done then
                    let s = (if RootNotBranch (dp_bus pn) then s\<lparr>last_root_devs := devices\<rparr> else s);
                        s = (if DirblobPure db then cache_dir_list env g pn db s else s)
                    in Some (0, s)
                  else Some (- EIO, s))))"

text \<open>The cached directory: index by index until \<^verbatim>\<open>DirblobGet\<close> reports the end; the results of the callback are
  ignored. \<^const>\<open>None\<close> is an undefined access or running out of fuel.\<close>

fun cached_loop ::
  "'v dir_plus \<Rightarrow> ('b, 'v) dir_pn \<Rightarrow> nat \<Rightarrow> nat \<Rightarrow> dirblob \<Rightarrow> 'v \<Rightarrow> (nat \<times> 'v) option" where
  "cached_loop dir_plus pn 0 dindex db u = None"
| "cached_loop dir_plus pn (Suc fuel) dindex db u =
     (case DirblobGet (int dindex) db of
        None \<Rightarrow> None
      | Some (Inl _) \<Rightarrow> Some (dindex, u)
      | Some (Inr sn) \<Rightarrow>
          cached_loop dir_plus pn fuel (Suc dindex) db (snd (dir_plus (FS_devicename (dp_format pn) sn) u)))"

definition FS_cache_or_real ::
  "dir_env \<Rightarrow> globals \<Rightarrow> 'b interface_routines \<Rightarrow> 'v dir_plus \<Rightarrow> nat \<Rightarrow> ('b, 'v) dir_pn \<Rightarrow> ('b, 'v) dir_state \<Rightarrow>
     (int \<times> ('b, 'v) dir_state) option" where
  "FS_cache_or_real env g ir dir_plus fuel pn s =
     (case dp_external pn of
        Some externaldir \<Rightarrow> Some (externaldir s)
      | None \<Rightarrow>
          if dp_SpecifiedBus pn \<or> cp_uncached_dir (dp_cache pn) then FS_realdir env g ir dir_plus fuel pn s
          else (case Cache_Get_Dir g (clock env (ticks s)) (node_ok env (ticks s)) (dp_cache pn) (dcache s) of
                 None \<Rightarrow> None
               | Some ((ret, db), c) \<Rightarrow>
                   let s = s\<lparr>dcache := c, ticks := Suc (ticks s)\<rparr> in
                   if BAD ret then FS_realdir env g ir dir_plus fuel pn s
                   else
                     let s = s\<lparr>dir_main_calls := dir_main_calls s + 1\<rparr> in
                     (case cached_loop dir_plus pn (Suc (DirblobElements db)) 0 db (user s) of
                       None \<Rightarrow> None
                     | Some (dindex, u) \<Rightarrow>
                         Some (0, s\<lparr>user := u, dir_main_entries := dir_main_entries s + of_nat dindex\<rparr>))))"

fun alarmdir_loop ::
  "dir_env \<Rightarrow> globals \<Rightarrow> 'b interface_routines \<Rightarrow> 'v dir_plus \<Rightarrow> ('b, 'v) dir_pn \<Rightarrow> nat \<Rightarrow> search_status \<Rightarrow> device_search \<Rightarrow>
     ('b, 'v) dir_state \<Rightarrow> (search_status \<times> ('b, 'v) dir_state) option" where
  "alarmdir_loop env g ir dir_plus pn 0 ret ds s = None"
| "alarmdir_loop env g ir dir_plus pn (Suc fuel) ret ds s =
     (if ret \<noteq> search_good then Some (ret, s)
      else
        let u = snd (dir_plus (FS_devicename (dp_format pn) (ds_sn ds)) (user s));
            s = s\<lparr>dir_main_entries := dir_main_entries s + 1, user := u\<rparr>
        in (case PossiblyLockedBusCall pn (BUS_next env g ir pn) ds s of (ret, ds, s) \<Rightarrow>
             alarmdir_loop env g ir dir_plus pn fuel ret ds s))"

definition FS_alarmdir ::
  "dir_env \<Rightarrow> globals \<Rightarrow> 'b interface_routines \<Rightarrow> 'v dir_plus \<Rightarrow> nat \<Rightarrow> ('b, 'v) dir_pn \<Rightarrow> ('b, 'v) dir_state \<Rightarrow>
     (int \<times> ('b, 'v) dir_state) option" where
  "FS_alarmdir env g ir dir_plus fuel pn s =
     (if dp_external pn \<noteq> None then Some (0, s)
      else (case dp_server pn of
        Some ServerDir \<Rightarrow> Some (ServerDir s)
      | None \<Rightarrow>
          if ir_flags ir AND ADAP_FLAG_sham \<noteq> 0 then Some (0, s)
          else
            let s = s\<lparr>dir_main_calls := dir_main_calls s + 1\<rparr> in
            (case PossiblyLockedBusCall pn (BUS_first_alarm env g ir pn) no_search s of (ret, ds, s) \<Rightarrow>
              map_option (\<lambda>(ret, s). (if ret = search_error then - EIO else 0, s))
                (alarmdir_loop env g ir dir_plus pn fuel ret ds s))))"

section \<open>All ports\<close>

text \<open>
  One thread per port, started by the thread of the port before it. What a thread leaves in its structure is
  the return value of the last channel of its port and the flags all its channels set. A channel is the
  return value and the flags it adds. \<open>created\<close> tells which threads could be started, by the number of the
  port; a port whose thread was not started is not listed, nor is any after it.
\<close>

type_synonym channel_result = "int \<times> uint"

definition FS_dir_all_connections_callback_conn :: "channel_result list \<Rightarrow> int \<Rightarrow> uint \<Rightarrow> int \<times> uint" where
  "FS_dir_all_connections_callback_conn channels ret flags =
     foldl (\<lambda>(ret, flags) (r, f). (r, flags OR f)) (ret, flags) channels"

fun FS_dir_all_connections_callback_port ::
  "(nat \<Rightarrow> bool) \<Rightarrow> nat \<Rightarrow> channel_result list list \<Rightarrow> int \<Rightarrow> uint \<Rightarrow> int \<times> uint" where
  "FS_dir_all_connections_callback_port created n [] ret flags = (ret, flags)"
| "FS_dir_all_connections_callback_port created n [channels] ret flags =
     FS_dir_all_connections_callback_conn channels ret flags"
| "FS_dir_all_connections_callback_port created n (channels # port # ports) ret flags =
     (case FS_dir_all_connections_callback_conn channels ret flags of (ret', flags') \<Rightarrow>
        if created (Suc n) then
          (case FS_dir_all_connections_callback_port created (Suc n) (port # ports) ret flags of (next_ret, next_flags) \<Rightarrow>
             if next_ret \<ge> 0 then (next_ret, flags') else (ret', flags' OR next_flags))
        else (ret', flags'))"

definition FS_dir_all_connections :: "(nat \<Rightarrow> bool) \<Rightarrow> channel_result list list \<Rightarrow> int \<times> uint" where
  "FS_dir_all_connections created ports = FS_dir_all_connections_callback_port created 0 ports 0 0"

section \<open>The bus sees the search and nothing else\<close>

lemma add_device_simps [simp]:
  "bus (add_device env g i sn s) = bus s" "user (add_device env g i sn s) = user s"
  "last_root_devs (add_device env g i sn s) = last_root_devs s"
  "dir_main_calls (add_device env g i sn s) = dir_main_calls s" "dir_main_entries (add_device env g i sn s) = dir_main_entries s"
  by (simp_all add: add_device_def)

text \<open>One locked call: the status, the search state and the bus are those of the locked search pass.\<close>

lemma locked_next:
  assumes "with_bus_lock (dp_NotReconnect pn) (BUS_next_3try ir ds (dp_bus pn)) (bus s) = (ret, ds', c')"
  shows "\<exists>s'. PossiblyLockedBusCall pn (BUS_next env g ir pn) ds s
      = (ret, if ret = search_good then ds' else BUS_next_cleanup ds', s') \<and> bus s' = c' \<and> user s' = user s
      \<and> last_root_devs s' = last_root_devs s \<and> dir_main_calls s' = dir_main_calls s \<and> dir_main_entries s' = dir_main_entries s"
  using assms
  by (cases ret)
    (auto simp: with_bus_lock_def PossiblyLockedBusCall_def BUS_next_def Let_def split: if_splits search_status.splits prod.splits)

lemma first_call_frame:
  assumes "PossiblyLockedBusCall pn (BUS_next env g ir pn) ds s = (ret, ds', s')"
  shows "last_root_devs s' = last_root_devs s" "dir_main_calls s' = dir_main_calls s" "dir_main_entries s' = dir_main_entries s"
proof -
  obtain st ds1 c1 where "with_bus_lock (dp_NotReconnect pn) (BUS_next_3try ir ds (dp_bus pn)) (bus s) = (st, ds1, c1)"
    by (cases "with_bus_lock (dp_NotReconnect pn) (BUS_next_3try ir ds (dp_bus pn)) (bus s)")
  from locked_next [OF this, of env g] assms
  show "last_root_devs s' = last_root_devs s" "dir_main_calls s' = dir_main_calls s" "dir_main_entries s' = dir_main_entries s" by auto
qed

section \<open>Locations\<close>

text \<open>
  The locations of the devices of \<open>sns\<close> are in the cache: whatever is looked up from now on finds the bus number, as long as
  the presence timeout, counted from tick \<open>n0\<close>, is not over. \<open>dur\<close> gives the time each key is kept.
\<close>

definition knows_locations :: "(tree_key \<Rightarrow> int) \<Rightarrow> dir_env \<Rightarrow> globals \<Rightarrow> int \<Rightarrow> nat \<Rightarrow> byte list set \<Rightarrow> ('b, 'v) dir_state \<Rightarrow> bool" where
  "knows_locations dur env g index n0 sns s \<longleftrightarrow>
     n0 \<le> ticks s \<and> cache_invar dur (clock env (ticks s)) (dcache s) \<and>
     (\<forall>sn \<in> sns. \<forall>t. clock env (ticks s) \<le> t \<and> t < clock env n0 + TimeOut g fc_presence \<longrightarrow>
        cached t (LoadTK sn Device_Marker 0) (dcache s) = Some (int_bytes index))"

text \<open>A clock that does not go back, memory, and the durations of the keys of locations and directories.\<close>

definition steady :: "(tree_key \<Rightarrow> int) \<Rightarrow> dir_env \<Rightarrow> globals \<Rightarrow> bool" where
  "steady dur env g \<longleftrightarrow>
     mono (clock env) \<and> (\<forall>n. node_ok env n \<and> tree_ok env n) \<and> g_cache_size g = 0 \<and> 0 < TimeOut g fc_presence \<and>
     (\<forall>sn. dur (LoadTK sn Device_Marker 0) = TimeOut g fc_presence) \<and>
     (\<forall>sn index. dur (LoadTK sn Directory_Marker index) = TimeOut g fc_directory)"

lemma knows_later:
  assumes "knows_locations dur env g index n0 sns s" and "steady dur env g" and "ticks s \<le> ticks s'" and "dcache s' = dcache s"
  shows "knows_locations dur env g index n0 sns s'"
proof -
  have "clock env (ticks s) \<le> clock env (ticks s')" using assms(2,3) by (simp add: steady_def mono_def)
  then show ?thesis using assms(1,3,4) cache_invar_later by (fastforce simp: knows_locations_def)
qed

text \<open>What an addition under one key leaves of the others.\<close>

lemma knows_put:
  assumes knows: "knows_locations dur env g index n0 sns s" and st: "steady dur env g" and ticks: "ticks s' = Suc (ticks s)"
    and put: "dcache s' = bump i f (snd (put_temporary dur (clock env (ticks s)) (g, True) k v (dcache s)))"
    and key: "\<And>sn. k = LoadTK sn Device_Marker 0 \<Longrightarrow> v = int_bytes index"
  shows "knows_locations dur env g index n0 (sns \<union> {sn. k = LoadTK sn Device_Marker 0}) s'"
proof -
  let ?now = "clock env (ticks s)" and ?c = "snd (put_temporary dur (clock env (ticks s)) (g, True) k v (dcache s))"
  have inv: "cache_invar dur ?now (dcache s)" using knows by (simp add: knows_locations_def)
  have good: "GOOD (fst (put_temporary dur ?now (g, True) k v (dcache s)))"
    using st by (simp add: steady_def put_temporary_def Cache_Add_Common_def cache_full_def tsearch_ok_def Let_def)
  have le: "clock env n0 \<le> ?now" "?now \<le> clock env (ticks s')"
    using st ticks knows by (simp_all add: steady_def mono_def knows_locations_def)
  have "cached t (LoadTK sn Device_Marker 0) (dcache s') = Some (int_bytes index)"
    if sn: "sn \<in> sns \<union> {sn. k = LoadTK sn Device_Marker 0}" and t: "clock env (ticks s') \<le> t" "t < clock env n0 + TimeOut g fc_presence" for sn t
  proof (cases "LoadTK sn Device_Marker 0 = k")
    case True
    then have "fresh_for dur k ?now t" using st t le by (auto simp: fresh_for_def steady_def)
    then show ?thesis using cache.add_look [OF inv, of t k "(g, True)" k v] good t(1) le(2) True key [of sn] put by simp
  next
    case False
    then have "cached t (LoadTK sn Device_Marker 0) (dcache s') = cached t (LoadTK sn Device_Marker 0) (dcache s)"
      using cache.add_look [OF inv, of t _ "(g, True)" k v] t(1) le(2) put by simp
    then show ?thesis using knows sn t le(2) False by (auto simp: knows_locations_def)
  qed
  moreover have "cache_invar dur (clock env (ticks s')) (dcache s')"
    using cache.later [OF cache.add_invar [OF inv] le(2), of "(g, True)" k v] put by simp
  ultimately show ?thesis using knows ticks by (simp add: knows_locations_def)
qed

lemma knows_add_device:
  assumes "knows_locations dur env g index n0 sns s" and "steady dur env g"
  shows "knows_locations dur env g index n0 (if sn ! 0 = 0 then sns else insert sn sns) (add_device env g index sn s)"
proof (cases "sn ! 0 = 0")
  case True
  then show ?thesis
    using knows_later [OF assms, of "add_device env g index sn s"] by (simp add: add_device_def Cache_Add_Device_def)
next
  case False
  let ?s = "add_device env g index sn s" and ?k = "LoadTK sn Device_Marker 0"
  have put: "dcache ?s = bump cache_dev (\<lambda>s. s\<lparr>st_adds := st_adds s + 1\<rparr>) (snd (put_temporary dur (clock env (ticks s)) (g, True) ?k (int_bytes index) (dcache s)))"
    using False assms(2)
    by (simp add: add_device_def Cache_Add_Device_def steady_def put_temporary_def value_node_def Add_Stat_def Cache_Add_Common_def
        cache_full_def tsearch_ok_def GOOD_def Let_def)
  have "knows_locations dur env g index n0 (sns \<union> {sn'. ?k = LoadTK sn' Device_Marker 0}) ?s"
    by (rule knows_put [OF assms _ put]) (simp_all add: add_device_def)
  then show ?thesis using False by (auto simp: knows_locations_def)
qed

lemma knows_search:
  assumes "PossiblyLockedBusCall pn (BUS_next env g ir pn) ds s = (ret, ds', s')"
    and "knows_locations dur env g (dp_index pn) n0 sns s" and "steady dur env g"
  shows "knows_locations dur env g (dp_index pn) n0 sns s'"
proof -
  have same: "knows_locations dur env g (dp_index pn) n0 sns (s\<lparr>bus := c\<rparr>)" for c
    using knows_later [OF assms(2,3), of "s\<lparr>bus := c\<rparr>"] by simp
  have add: "knows_locations dur env g (dp_index pn) n0 sns ((add_device env g (dp_index pn) sn (s\<lparr>bus := c\<rparr>))\<lparr>bus := c'\<rparr>)"
      "knows_locations dur env g (dp_index pn) n0 sns (add_device env g (dp_index pn) sn (s\<lparr>bus := c\<rparr>))" for sn c c'
    using knows_add_device [OF same assms(3), of sn] by (auto simp: knows_locations_def split: if_splits)
  show ?thesis
    using assms(1) same add
    by (auto simp: PossiblyLockedBusCall_def BUS_next_def Let_def split: if_splits search_status.splits prod.splits)
qed

text \<open>The callback that accepts every name.\<close>

definition accepts :: "'v dir_plus \<Rightarrow> bool" where
  "accepts dir_plus \<longleftrightarrow> (\<forall>name u. fst (dir_plus name u) = 0)"

definition tell :: "'v dir_plus \<Rightarrow> string list \<Rightarrow> 'v \<Rightarrow> 'v" where
  "tell dir_plus names u = foldl (\<lambda>u name. snd (dir_plus name u)) u names"

lemma tell_simps [simp]:
  "tell dir_plus [] u = u" "tell dir_plus (n # ns) u = tell dir_plus ns (snd (dir_plus n u))"
  by (simp_all add: tell_def)

text \<open>The loop of a listing against the plain search: what the search finds is told, counted and collected.\<close>

lemma realdir_follows_search:
  assumes "search_all ir (dp_NotReconnect pn) fuel ds (dp_bus pn) (bus s) = Some (sns, status, c')"
    and "PossiblyLockedBusCall pn (BUS_next env g ir pn) ds s = (ret, ds', s')"
    and "accepts dir_plus" and "\<forall>sn \<in> set sns. length sn = 8" and "dirblob_wf db" and "DirblobPure db" and "\<forall>n. node_ok env n"
  shows "\<exists>db' s''. realdir_loop env g ir dir_plus pn fuel ret ds' db n s' = Some (status, db', n + length sns, s'')
    \<and> dirblob_wf db' \<and> DirblobPure db' \<and> dirblob_sns db' = dirblob_sns db @ sns \<and> bus s'' = c'
    \<and> user s'' = tell dir_plus (map (FS_devicename (dp_format pn)) sns) (user s)
    \<and> last_root_devs s'' = last_root_devs s' \<and> dir_main_calls s'' = dir_main_calls s' \<and> dir_main_entries s'' = dir_main_entries s'
    \<and> (\<forall>dur n0 known. steady dur env g \<and> (\<forall>sn \<in> set sns. sn ! 0 \<noteq> 0) \<and> knows_locations dur env g (dp_index pn) n0 known s' \<longrightarrow>
         knows_locations dur env g (dp_index pn) n0 (known \<union> set sns) s'')"
  using assms
proof (induction fuel arbitrary: ds s sns db ret ds' s' n)
  case (Suc fuel)
  obtain st ds1 c1 where pass: "with_bus_lock (dp_NotReconnect pn) (BUS_next_3try ir ds (dp_bus pn)) (bus s) = (st, ds1, c1)"
    by (cases "with_bus_lock (dp_NotReconnect pn) (BUS_next_3try ir ds (dp_bus pn)) (bus s)")
  from locked_next [OF this, of env g] Suc.prems(2)
  have ret: "ret = st" "ds' = (if st = search_good then ds1 else BUS_next_cleanup ds1)" and s': "bus s' = c1" "user s' = user s"
    by auto
  show ?case
  proof (cases "st = search_good")
    case False
    then show ?thesis using Suc.prems pass ret s' by auto
  next
    case True
    obtain rest where sns: "sns = ds_sn ds1 # rest"
      and rest: "search_all ir (dp_NotReconnect pn) fuel ds1 (dp_bus pn) c1 = Some (rest, status, c')"
      using Suc.prems(1) pass True by auto
    let ?s1 = "add_device env g (dp_index pn) (ds_sn ds1) s'"
    let ?dev = "FS_devicename (dp_format pn) (ds_sn ds1)"
    let ?s2 = "?s1\<lparr>user := snd (dir_plus ?dev (user s)), ticks := Suc (ticks ?s1)\<rparr>"
    have "length (ds_sn ds1) = SERIAL_NUMBER_SIZE" using Suc.prems(4) sns by (simp add: SERIAL_NUMBER_SIZE_def)
    then obtain db1 where db1: "DirblobAdd True (ds_sn ds1) db = Some (0, db1)" "dirblob_wf db1" "DirblobPure db1"
        "dirblob_sns db1 = dirblob_sns db @ [ds_sn ds1]"
      using dirblob.add_defined [OF Suc.prems(5)] dirblob.add_pure [OF Suc.prems(5)] dirblob.add_succeeds [OF Suc.prems(5) _ Suc.prems(6)]
      by (metis option.inject prod.inject)
    obtain ret2 ds2 s2 where nxt: "PossiblyLockedBusCall pn (BUS_next env g ir pn) ds1 ?s2 = (ret2, ds2, s2)"
      by (cases "PossiblyLockedBusCall pn (BUS_next env g ir pn) ds1 ?s2")
    have "\<exists>db' s''. realdir_loop env g ir dir_plus pn fuel ret2 ds2 db1 (Suc n) s2 = Some (status, db', Suc n + length rest, s'')
      \<and> dirblob_wf db' \<and> DirblobPure db' \<and> dirblob_sns db' = dirblob_sns db1 @ rest \<and> bus s'' = c'
      \<and> user s'' = tell dir_plus (map (FS_devicename (dp_format pn)) rest) (user ?s2)
      \<and> last_root_devs s'' = last_root_devs s2 \<and> dir_main_calls s'' = dir_main_calls s2 \<and> dir_main_entries s'' = dir_main_entries s2
      \<and> (\<forall>dur n0 known. steady dur env g \<and> (\<forall>sn \<in> set rest. sn ! 0 \<noteq> 0) \<and> knows_locations dur env g (dp_index pn) n0 known s2 \<longrightarrow>
           knows_locations dur env g (dp_index pn) n0 (known \<union> set rest) s'')"
    proof (rule Suc.IH [OF _ nxt Suc.prems(3)])
      show "search_all ir (dp_NotReconnect pn) fuel ds1 (dp_bus pn) (bus ?s2) = Some (rest, status, c')"
        using rest s' by simp
      show "\<forall>sn \<in> set rest. length sn = 8" using Suc.prems(4) sns by simp
    qed (use db1 Suc.prems(7) in auto)
    moreover have "realdir_loop env g ir dir_plus pn (Suc fuel) ret ds' db n s'
        = realdir_loop env g ir dir_plus pn fuel ret2 ds2 db1 (Suc n) s2"
      using True ret s' db1(1) nxt Suc.prems(3,7) by (simp add: Let_def split_beta accepts_def)
    moreover have "last_root_devs s2 = last_root_devs s'" "dir_main_calls s2 = dir_main_calls s'" "dir_main_entries s2 = dir_main_entries s'"
      using first_call_frame [OF nxt] by simp_all
    moreover have "knows_locations dur env g (dp_index pn) n0 (insert (ds_sn ds1) known) s2"
      if k: "steady dur env g" "ds_sn ds1 ! 0 \<noteq> 0" "knows_locations dur env g (dp_index pn) n0 known s'" for dur n0 known
    proof -
      have "knows_locations dur env g (dp_index pn) n0 (insert (ds_sn ds1) known) ?s1" using knows_add_device [OF k(3,1), of "ds_sn ds1"] k(2) by simp
      then have "knows_locations dur env g (dp_index pn) n0 (insert (ds_sn ds1) known) ?s2" by (rule knows_later [OF _ k(1)]) simp_all
      then show ?thesis by (rule knows_search [OF nxt _ k(1)])
    qed
    ultimately show ?thesis using db1(4) by (fastforce simp: sns)
  qed
qed simp

lemma alarmdir_follows_search:
  assumes "search_all ir (dp_NotReconnect pn) fuel ds (dp_bus pn) (bus s) = Some (sns, status, c')"
    and "PossiblyLockedBusCall pn (BUS_next env g ir pn) ds s = (ret, ds', s')"
  shows "\<exists>s''. alarmdir_loop env g ir dir_plus pn fuel ret ds' s' = Some (status, s'') \<and> bus s'' = c'
    \<and> user s'' = tell dir_plus (map (FS_devicename (dp_format pn)) sns) (user s)"
  using assms
proof (induction fuel arbitrary: ds s sns ret ds' s')
  case (Suc fuel)
  obtain st ds1 c1 where pass: "with_bus_lock (dp_NotReconnect pn) (BUS_next_3try ir ds (dp_bus pn)) (bus s) = (st, ds1, c1)"
    by (cases "with_bus_lock (dp_NotReconnect pn) (BUS_next_3try ir ds (dp_bus pn)) (bus s)")
  from locked_next [OF this, of env g] Suc.prems(2)
  have ret: "ret = st" "ds' = (if st = search_good then ds1 else BUS_next_cleanup ds1)" and s': "bus s' = c1" "user s' = user s"
    by auto
  show ?case
  proof (cases "st = search_good")
    case False
    then show ?thesis using Suc.prems pass ret s' by auto
  next
    case True
    obtain rest where sns: "sns = ds_sn ds1 # rest"
      and rest: "search_all ir (dp_NotReconnect pn) fuel ds1 (dp_bus pn) c1 = Some (rest, status, c')"
      using Suc.prems(1) pass True by auto
    let ?s1 = "s'\<lparr>dir_main_entries := dir_main_entries s' + 1,
       user := snd (dir_plus (FS_devicename (dp_format pn) (ds_sn ds1)) (user s))\<rparr>"
    obtain ret2 ds2 s2 where nxt: "PossiblyLockedBusCall pn (BUS_next env g ir pn) ds1 ?s1 = (ret2, ds2, s2)"
      by (cases "PossiblyLockedBusCall pn (BUS_next env g ir pn) ds1 ?s1")
    from Suc.IH [OF _ nxt, of rest] rest s' show ?thesis
      using True ret nxt by (auto simp: sns Let_def)
  qed
qed simp

lemma locked_first:
  "PossiblyLockedBusCall pn (BUS_first env g ir pn) ds s =
     PossiblyLockedBusCall pn (BUS_next env g ir pn) ((BUS_first_both ds)\<lparr>ds_search := SEARCH_ROM\<rparr>) s"
  "PossiblyLockedBusCall pn (BUS_first_alarm env g ir pn) ds s =
     PossiblyLockedBusCall pn (BUS_next env g ir pn) ((BUS_first_both ds)\<lparr>ds_search := CONDITIONAL_SEARCH_ROM\<rparr>) s"
  by (simp_all add: PossiblyLockedBusCall_def BUS_first_def BUS_first_alarm_def)

section \<open>The directory in the cache\<close>

lemma cached_loop_tells:
  assumes "dirblob_wf db" and "i \<le> DirblobElements db"
  shows "cached_loop dir_plus pn (Suc (DirblobElements db - i)) i db u
    = Some (DirblobElements db, tell dir_plus (map (FS_devicename (dp_format pn)) (drop i (dirblob_sns db))) u)"
  using assms(2)
proof (induction "DirblobElements db - i" arbitrary: i u)
  case 0
  then have "i = DirblobElements db" by simp
  then show ?case by (simp add: DirblobGet_def DirblobElements_def dirblob_sns_def)
next
  case (Suc n)
  then have i: "i < db_devices db" by (simp add: DirblobElements_def)
  then have "DirblobGet (int i) db = Some (Inr (dirblob_sns db ! i))"
    using db_peek_sns [OF assms(1) i] by (simp add: DirblobGet_def)
  moreover have "drop i (dirblob_sns db) = dirblob_sns db ! i # drop (Suc i) (dirblob_sns db)"
    using i by (simp add: Cons_nth_drop_Suc dirblob_sns_def)
  moreover have "Suc (DirblobElements db - Suc i) = DirblobElements db - i" using Suc by simp
  ultimately show ?case
    using Suc.hyps(1) [of "Suc i"] Suc.hyps(2) Suc.prems i by (simp add: DirblobElements_def)
qed

definition holds_directory :: "int \<Rightarrow> ('b, 'v) dir_pn \<Rightarrow> byte list list \<Rightarrow> cache_data \<Rightarrow> bool" where
  "holds_directory until pn sns c \<longleftrightarrow>
     (\<exists>db index mode. dirblob_wf db \<and> dirblob_sns db = sns \<and> cp_connection (dp_cache pn) = Some (index, mode) \<and>
        map_of (temporary_tree_new c) (dir_key (dp_cache pn) index) =
          Some \<lparr>tn_expires = until, tn_dsize = 8 * DirblobElements db, tn_data = dirblob_bytes db\<rparr>)"

lemma cache_dir_list_holds:
  assumes "g_cache_size g = 0" and "cp_connection (dp_cache pn) = Some (index, bus_real)" and "TimeOut g fc_directory > 0"
    and "\<forall>n. node_ok env n \<and> tree_ok env n" and "dirblob_wf db" and "dirblob_sns db \<noteq> []"
  shows "holds_directory (TimeOut g fc_directory + clock env (ticks s)) pn (dirblob_sns db) (dcache (cache_dir_list env g pn db s))"
proof -
  have "\<not> DirblobElements db < 1" using assms(6) by (cases "db_devices db") (simp_all add: DirblobElements_def dirblob_sns_def)
  then have "map_of (temporary_tree_new (dcache (cache_dir_list env g pn db s))) (dir_key (dp_cache pn) index) =
      Some \<lparr>tn_expires = TimeOut g fc_directory + clock env (ticks s), tn_dsize = 8 * DirblobElements db, tn_data = dirblob_bytes db\<rparr>"
    using assms(1-4)
    by (simp add: cache_dir_list_def Cache_Add_Dir_def Cache_Add_Common_def cache_full_def tsearch_ok_def Add_Stat_def bump_def
        GOOD_def Let_def update_conv')
  then show ?thesis using assms(2,5) by (auto simp: holds_directory_def)
qed

lemma Cache_Get_Dir_holds:
  assumes "holds_directory until pn sns c" and "now \<le> until" and "TimeOut g fc_directory > 0"
  shows "\<exists>db c'. Cache_Get_Dir g now True (dp_cache pn) c = Some ((gbGOOD, db), c') \<and> dirblob_wf db \<and> dirblob_sns db = sns"
proof -
  obtain db index mode where db: "dirblob_wf db" "dirblob_sns db = sns" "cp_connection (dp_cache pn) = Some (index, mode)"
      "map_of (temporary_tree_new c) (dir_key (dp_cache pn) index) =
         Some \<lparr>tn_expires = until, tn_dsize = 8 * DirblobElements db, tn_data = dirblob_bytes db\<rparr>"
    using assms(1) unfolding holds_directory_def by blast
  obtain db' where db': "DirblobRecreate True (dirblob_bytes db) = (0, db')" "dirblob_wf db'" "dirblob_sns db' = sns"
    using DirblobRecreate_same [OF db(1)] db(2) by blast
  have "fst (Cache_Get_Common_Dir now True d (dir_key (dp_cache pn) index) c) = ctr_ok \<and>
      snd (snd (Cache_Get_Common_Dir now True d (dir_key (dp_cache pn) index) c)) = db'" for d
    using db(1,4) db'(1) assms(2) by (simp add: Cache_Get_Common_Dir_def length_dirblob Let_def)
  then show ?thesis
    using db(3) db'(2,3) assms(3) by (auto simp: Cache_Get_Dir_def Get_Stat_def Let_def split_beta)
qed

lemma cache_or_real_holds:
  assumes "holds_directory until pn sns (dcache s)" and "clock env (ticks s) \<le> until" and "TimeOut g fc_directory > 0"
    and "dp_external pn = None" and "\<not> dp_SpecifiedBus pn" and "\<not> cp_uncached_dir (dp_cache pn)" and "node_ok env (ticks s)"
  shows "\<exists>s'. FS_cache_or_real env g ir dir_plus fuel pn s = Some (0, s') \<and> bus s' = bus s
    \<and> user s' = tell dir_plus (map (FS_devicename (dp_format pn)) sns) (user s)"
proof -
  obtain db c' where get: "Cache_Get_Dir g (clock env (ticks s)) True (dp_cache pn) (dcache s) = Some ((gbGOOD, db), c')"
      "dirblob_wf db" "dirblob_sns db = sns"
    using Cache_Get_Dir_holds [OF assms(1-3)] by blast
  show ?thesis
    using get assms(4-7) cached_loop_tells [OF get(2), of 0 dir_plus pn]
    by (simp add: FS_cache_or_real_def BAD_def Let_def)
qed

text \<open>The list of a directory is stored under another key than the locations.\<close>

lemma knows_dir_list:
  assumes "knows_locations dur env g i n0 sns s" and "steady dur env g" and "cp_connection (dp_cache pn) = Some (index, bus_real)"
    and "TimeOut g fc_directory > 0" and "dirblob_wf db" and "dirblob_sns db \<noteq> []"
  shows "knows_locations dur env g i n0 sns (cache_dir_list env g pn db s)"
proof -
  let ?k = "dir_key (dp_cache pn) index"
  have "\<not> DirblobElements db < 1" using assms(6) by (cases "db_devices db") (simp_all add: DirblobElements_def dirblob_sns_def)
  then have put: "dcache (cache_dir_list env g pn db s) =
      bump cache_dir (\<lambda>s. s\<lparr>st_adds := st_adds s + 1\<rparr>) (snd (put_temporary dur (clock env (ticks s)) (g, True) ?k (dirblob_bytes db) (dcache s)))"
    using assms(2-5)
    by (simp add: cache_dir_list_def Cache_Add_Dir_def steady_def put_temporary_def value_node_def Add_Stat_def Cache_Add_Common_def
        cache_full_def tsearch_ok_def GOOD_def dir_key_def length_dirblob Let_def)
  have "knows_locations dur env g i n0 (sns \<union> {sn. ?k = LoadTK sn Device_Marker 0}) (cache_dir_list env g pn db s)"
    by (rule knows_put [OF assms(1,2) _ put]) (simp_all add: cache_dir_list_def dir_key_def LoadTK_def)
  then show ?thesis by (simp add: knows_locations_def)
qed

lemma knows_lookup:
  assumes "knows_locations dur env g index n0 sns s" and "steady dur env g" and "cp_sn cp \<in> sns"
    and "clock env (ticks s) \<le> t" and "t < clock env n0 + TimeOut g fc_presence"
  shows "fst (Cache_Get_Device g t cp (dcache s)) = (gbGOOD, int_bytes index)"
proof -
  let ?k = "LoadTK (cp_sn cp) Device_Marker 0"
  have "cache_invar dur t (dcache s)" "cached t ?k (dcache s) = Some (int_bytes index)"
    using assms cache_invar_later by (auto simp: knows_locations_def)
  from Cache_Get_Common_cached(2) [OF this, of 4] show ?thesis
    using assms(2) by (auto simp: Cache_Get_Device_def Get_Stat_def steady_def)
qed

section \<open>Properties\<close>

text \<open>
  C18: a directory, from the slots of the wire to the callback. On any bus that answers a ROM search,
  \<^verbatim>\<open>FS_realdir\<close> tells the callback the name of every slave exactly once, in the order of the search, and returns
  zero. It counts the call, the entries and, at the root, the devices. It stores the list, so that the next \<^verbatim>\<open>FS_cache_or_real\<close> within the
  directory timeout tells the same names in the same order without touching the bus; and it stores the location of every
  slave, so that \<^verbatim>\<open>Cache_Get_Device\<close> gives the number of the bus within the presence timeout, when the cache was in order before and the
  clock does not go back.
\<close>
theorem directory_listing:
  assumes "search_bus ir (dp_bus pn) SEARCH_ROM devs idle asked answered" and "idle (bus s)" and "card devs < fuel" and "devs \<noteq> {}"
    and "accepts dir_plus" and "dp_server pn = None" and "dp_external pn = None" and "ir_flags ir AND ADAP_FLAG_sham = 0"
    and "\<not> dp_SpecifiedBus pn" and "\<not> cp_uncached_dir (dp_cache pn)" and "cp_connection (dp_cache pn) = Some (index, bus_real)"
    and "g_cache_size g = 0" and "TimeOut g fc_directory > 0" and "\<forall>n. node_ok env n \<and> tree_ok env n"
  shows "\<exists>sns s'. FS_realdir env g ir dir_plus fuel pn s = Some (0, s') \<and> set sns = devs \<and> distinct sns
    \<and> map rom_bits sns = sorted_list_of_set (rom_bits ` devs)
    \<and> user s' = tell dir_plus (map (FS_devicename (dp_format pn)) sns) (user s) \<and> idle (bus s')
    \<and> (clock env (ticks s') \<le> TimeOut g fc_directory + clock env (ticks s' - 1) \<longrightarrow>
        (\<exists>s''. FS_cache_or_real env g ir dir_plus fuel pn s' = Some (0, s'') \<and> bus s'' = bus s'
          \<and> user s'' = tell dir_plus (map (FS_devicename (dp_format pn)) sns) (user s')))
    \<and> dir_main_calls s' = dir_main_calls s + 1 \<and> dir_main_entries s' = dir_main_entries s + of_nat (card devs)
    \<and> last_root_devs s' = (if RootNotBranch (dp_bus pn) then card devs else last_root_devs s)
    \<and> (\<forall>dur. steady dur env g \<and> cache_invar dur (clock env (ticks s)) (dcache s) \<longrightarrow>
         (\<forall>cp t. cp_sn cp \<in> devs \<and> clock env (ticks s') \<le> t \<and> t < clock env (ticks s) + TimeOut g fc_presence \<longrightarrow>
            fst (Cache_Get_Device g t cp (dcache s')) = (gbGOOD, int_bytes (dp_index pn))))"
proof -
  let ?ds = "(BUS_first_both no_search)\<lparr>ds_search := SEARCH_ROM\<rparr>" and ?nr = "dp_NotReconnect pn"
  let ?s = "s\<lparr>dir_main_calls := dir_main_calls s + 1\<rparr>"
  obtain sns c' where search: "search_all ir ?nr fuel ?ds (dp_bus pn) (bus s) = Some (sns, search_done, c')"
      "map rom_bits sns = sorted_list_of_set (rom_bits ` devs)" "set sns = devs" "distinct sns" "idle c'"
    using search_bus.search_complete [OF assms(1-3), of ?nr no_search] by (elim exE conjE)
  have len: "\<forall>sn \<in> set sns. length sn = 8"
    using search_bus.valid_devs [OF assms(1)] search(3) by (auto simp: rom_valid_def)
  obtain ret ds' s1 where first: "PossiblyLockedBusCall pn (BUS_next env g ir pn) ?ds ?s = (ret, ds', s1)"
    by (cases "PossiblyLockedBusCall pn (BUS_next env g ir pn) ?ds ?s")
  let ?db = "if RootNotBranch (dp_bus pn) then DirblobInit\<lparr>db_allocated := last_root_devs s1\<rparr> else DirblobInit"
  have db: "dirblob_wf ?db" "DirblobPure ?db" "dirblob_sns ?db = []"
    by (simp_all add: DirblobInit_def dirblob_wf_def DirblobPure_def dirblob_sns_def)
  obtain db' s2 where loop: "realdir_loop env g ir dir_plus pn fuel ret ds' ?db 0 s1 = Some (search_done, db', length sns, s2)"
      "dirblob_wf db'" "DirblobPure db'" "dirblob_sns db' = sns" "bus s2 = c'"
      "user s2 = tell dir_plus (map (FS_devicename (dp_format pn)) sns) (user s)"
      "last_root_devs s2 = last_root_devs s1" "dir_main_calls s2 = dir_main_calls s1" "dir_main_entries s2 = dir_main_entries s1"
      and known: "\<forall>dur n0 known. steady dur env g \<and> (\<forall>sn \<in> set sns. sn ! 0 \<noteq> 0) \<and> knows_locations dur env g (dp_index pn) n0 known s1 \<longrightarrow>
         knows_locations dur env g (dp_index pn) n0 (known \<union> set sns) s2"
    using realdir_follows_search [OF _ first assms(5) len db(1,2), where status = search_done and c' = c' and fuel = fuel and n = 0] search(1) assms(14) db(3) by auto
  let ?s3 = "s2\<lparr>dir_main_entries := dir_main_entries s2 + of_nat (length sns)\<rparr>"
  let ?s4 = "if RootNotBranch (dp_bus pn) then ?s3\<lparr>last_root_devs := length sns\<rparr> else ?s3"
  let ?s5 = "cache_dir_list env g pn db' ?s4"
  have real: "FS_realdir env g ir dir_plus fuel pn s = Some (0, ?s5)"
    using first loop(1,3) assms(6,8) by (simp add: FS_realdir_def locked_first Let_def)
  have s5: "user ?s5 = tell dir_plus (map (FS_devicename (dp_format pn)) sns) (user s)" "bus ?s5 = c'" "ticks ?s5 - 1 = ticks ?s4"
    using loop(5,6) by (simp_all add: cache_dir_list_def)
  have "sns \<noteq> []" using search(3) assms(4) by auto
  then have "holds_directory (TimeOut g fc_directory + clock env (ticks ?s4)) pn sns (dcache ?s5)"
    using cache_dir_list_holds [OF assms(12,11,13,14) loop(2), of ?s4] loop(4) by simp
  then have "\<exists>s''. FS_cache_or_real env g ir dir_plus fuel pn ?s5 = Some (0, s'') \<and> bus s'' = bus ?s5
      \<and> user s'' = tell dir_plus (map (FS_devicename (dp_format pn)) sns) (user ?s5)"
    if "clock env (ticks ?s5) \<le> TimeOut g fc_directory + clock env (ticks ?s4)"
    using cache_or_real_holds [OF _ that, where pn = pn and sns = sns and g = g] assms(7,9,10,13,14) by blast
  moreover have "dir_main_calls ?s5 = dir_main_calls s + 1" "dir_main_entries ?s5 = dir_main_entries s + of_nat (card devs)"
      "last_root_devs ?s5 = (if RootNotBranch (dp_bus pn) then card devs else last_root_devs s)"
    using first_call_frame [OF first] loop(7-9) distinct_card [OF search(4)] search(3) by (simp_all add: cache_dir_list_def)
  moreover have "fst (Cache_Get_Device g t cp (dcache ?s5)) = (gbGOOD, int_bytes (dp_index pn))"
    if dur: "steady dur env g" "cache_invar dur (clock env (ticks s)) (dcache s)"
      and t: "cp_sn cp \<in> devs" "clock env (ticks ?s5) \<le> t" "t < clock env (ticks s) + TimeOut g fc_presence" for dur cp t
  proof (rule knows_lookup [OF _ dur(1) t(1-3)])
    have "knows_locations dur env g (dp_index pn) (ticks s) {} ?s" using dur(2) by (simp add: knows_locations_def)
    then have "knows_locations dur env g (dp_index pn) (ticks s) {} s1" by (rule knows_search [OF first _ dur(1)])
    moreover have "\<forall>sn \<in> set sns. sn ! 0 \<noteq> 0" using search_bus.valid_devs [OF assms(1)] search(3) by (auto simp: rom_valid_def)
    ultimately have "knows_locations dur env g (dp_index pn) (ticks s) devs s2" using known dur(1) search(3) by fastforce
    then have "knows_locations dur env g (dp_index pn) (ticks s) devs ?s4" by (rule knows_later [OF _ dur(1)]) simp_all
    then show "knows_locations dur env g (dp_index pn) (ticks s) devs ?s5"
      using \<open>sns \<noteq> []\<close> loop(2,4) by (intro knows_dir_list [OF _ dur(1) assms(11,13)]) simp_all
  qed
  ultimately show ?thesis using real s5 search by (intro exI [of _ sns] exI [of _ ?s5]) auto
qed

text \<open>The listing of the simulated line with three slaves, by a callback that keeps the names.\<close>

definition collect :: "string list dir_plus" where
  "collect name names = (0, names @ [name])"

definition line_pn :: "(wire, string list) dir_pn" where
  "line_pn = \<lparr>dp_bus = root_pn,
     dp_cache = \<lparr>cp_sn = [], cp_filetype = \<lparr>ft_id = 0, ft_form = ft_directory, ft_change = fc_directory, ft_ag = None\<rparr>,
       cp_extension = 0, cp_alarm_dir = False, cp_uncached_dir = False, cp_connection = Some (0, bus_real), cp_bp = []\<rparr>,
     dp_index = 0, dp_format = fdi, dp_SpecifiedBus = False, dp_NotReconnect = True, dp_server = None, dp_external = None\<rparr>"

definition line_state :: "(wire, string list) dir_state" where
  "line_state = \<lparr>bus = three_slave_line, dcache = Cache_Open default_globals 0 zero_cache, last_root_devs = 0,
     dir_main_calls = 0, dir_main_entries = 0, ticks = 0, user = []\<rparr>"

theorem directory_listing_witness:
  "\<exists>sns s'. FS_realdir \<lparr>clock = \<lambda>_. 0, node_ok = \<lambda>_. True, tree_ok = \<lambda>_. True\<rparr> default_globals sim_routines collect 4 line_pn line_state
      = Some (0, s') \<and> set sns = set three_slaves \<and> user s' = tell collect (map (FS_devicename fdi) sns) []
    \<and> last_root_devs s' = 3 \<and> fst (Cache_Get_Device default_globals 100 ((dp_cache line_pn)\<lparr>cp_sn := hd three_slaves\<rparr>) (dcache s')) = (gbGOOD, int_bytes 0)"
proof -
  let ?env = "\<lparr>clock = \<lambda>_. 0, node_ok = \<lambda>_. True, tree_ok = \<lambda>_. True\<rparr>"
  have bus: "search_bus sim_routines (dp_bus line_pn) SEARCH_ROM (set three_slaves) (sim_idle SEARCH_ROM three_slaves)
      (sim_asked SEARCH_ROM three_slaves) (sim_answered SEARCH_ROM three_slaves)"
    using wire.search_bus_axioms [of three_slaves] by (simp add: three_slaves_valid line_pn_def)
  have idle: "sim_idle SEARCH_ROM three_slaves (bus line_state)"
    by (simp add: sim_idle_def line_state_def three_slave_line_def initial_connection_def participants_def)
  have card: "card (set three_slaves) < 4" "set three_slaves \<noteq> {}" "card (set three_slaves) = 3"
    by (simp_all add: three_slaves_def)
  define dur where "dur = (\<lambda>k :: tree_key. if tk_p k = Device_Marker then TimeOut default_globals fc_presence
    else if tk_p k = Directory_Marker then TimeOut default_globals fc_directory else 0)"
  have "\<forall>k. dur k \<le> min (TimeOut default_globals fc_stable) 3600" by (simp add: dur_def default_globals_def TimeOut_def)
  then have dur: "cache_invar dur (clock ?env (ticks line_state)) (dcache line_state)" "steady dur ?env default_globals"
    using Cache_Open_invar(1) by (simp_all add: line_state_def steady_def mono_def dur_def LoadTK_def default_globals_def TimeOut_def)
  have "accepts collect" by (simp add: accepts_def collect_def)
  from directory_listing [OF bus idle card(1,2) this, of 0 default_globals ?env] obtain sns s' where
    s': "FS_realdir ?env default_globals sim_routines collect 4 line_pn line_state = Some (0, s')" "set sns = set three_slaves"
      "user s' = tell collect (map (FS_devicename (dp_format line_pn)) sns) (user line_state)"
      "last_root_devs s' = (if RootNotBranch (dp_bus line_pn) then card (set three_slaves) else last_root_devs line_state)"
      "\<forall>dur. steady dur ?env default_globals \<and> cache_invar dur (clock ?env (ticks line_state)) (dcache line_state) \<longrightarrow>
         (\<forall>cp t. cp_sn cp \<in> set three_slaves \<and> clock ?env (ticks s') \<le> t \<and> t < clock ?env (ticks line_state) + TimeOut default_globals fc_presence \<longrightarrow>
            fst (Cache_Get_Device default_globals t cp (dcache s')) = (gbGOOD, int_bytes (dp_index line_pn)))"
    by (auto simp: line_pn_def sim_routines_def no_routines_def default_globals_def TimeOut_def)
  have "fst (Cache_Get_Device default_globals 100 cp (dcache s')) = (gbGOOD, int_bytes 0)" if "cp_sn cp \<in> set three_slaves" for cp
    using s'(5) [rule_format, of dur cp 100] dur that by (simp add: line_pn_def line_state_def default_globals_def TimeOut_def)
  then have "fst (Cache_Get_Device default_globals 100 ((dp_cache line_pn)\<lparr>cp_sn := hd three_slaves\<rparr>) (dcache s')) = (gbGOOD, int_bytes 0)"
    by (simp add: three_slaves_def)
  moreover have "last_root_devs s' = 3"
    using s'(4) card(3) by (simp add: line_pn_def root_pn_def RootNotBranch_def ds2409_depth_def)
  moreover have "user s' = tell collect (map (FS_devicename fdi) sns) []" using s'(3) by (simp add: line_pn_def line_state_def)
  ultimately show ?thesis using s'(1,2) by blast
qed

text \<open>
  The alarm directory tells exactly the slaves that answer a conditional search, each once, in the order of
  the search, and stores no directory.
\<close>
theorem alarm_listing:
  assumes "search_bus ir (dp_bus pn) CONDITIONAL_SEARCH_ROM devs idle asked answered" and "idle (bus s)" and "card devs < fuel"
    and "dp_server pn = None" and "dp_external pn = None" and "ir_flags ir AND ADAP_FLAG_sham = 0"
  shows "\<exists>sns s'. FS_alarmdir env g ir dir_plus fuel pn s = Some (0, s') \<and> set sns = devs \<and> distinct sns
    \<and> map rom_bits sns = sorted_list_of_set (rom_bits ` devs)
    \<and> user s' = tell dir_plus (map (FS_devicename (dp_format pn)) sns) (user s) \<and> idle (bus s')"
proof -
  let ?ds = "(BUS_first_both no_search)\<lparr>ds_search := CONDITIONAL_SEARCH_ROM\<rparr>" and ?nr = "dp_NotReconnect pn"
  let ?s = "s\<lparr>dir_main_calls := dir_main_calls s + 1\<rparr>"
  obtain sns c' where search: "search_all ir ?nr fuel ?ds (dp_bus pn) (bus s) = Some (sns, search_done, c')"
      "map rom_bits sns = sorted_list_of_set (rom_bits ` devs)" "set sns = devs" "distinct sns" "idle c'"
    using search_bus.search_complete [OF assms(1-3), of ?nr no_search] by (elim exE conjE)
  obtain ret ds' s1 where first: "PossiblyLockedBusCall pn (BUS_next env g ir pn) ?ds ?s = (ret, ds', s1)"
    by (cases "PossiblyLockedBusCall pn (BUS_next env g ir pn) ?ds ?s")
  obtain s2 where "alarmdir_loop env g ir dir_plus pn fuel ret ds' s1 = Some (search_done, s2)" "bus s2 = c'"
      "user s2 = tell dir_plus (map (FS_devicename (dp_format pn)) sns) (user s)"
    using alarmdir_follows_search [OF _ first, of fuel sns search_done c' dir_plus] search(1) by auto
  then show ?thesis
    using first search assms(4-6) by (intro exI [of _ sns] exI [of _ s2]) (simp add: FS_alarmdir_def locked_first Let_def)
qed

theorem alarm_listing_witness:
  "\<exists>s'. FS_alarmdir \<lparr>clock = int, node_ok = \<lambda>_. True, tree_ok = \<lambda>_. True\<rparr> default_globals sim_routines collect 1 line_pn line_state
      = Some (0, s') \<and> user s' = []"
proof -
  let ?env = "\<lparr>clock = int, node_ok = \<lambda>_. True, tree_ok = \<lambda>_. True\<rparr>"
  have bus: "search_bus sim_routines (dp_bus line_pn) CONDITIONAL_SEARCH_ROM {} (sim_idle CONDITIONAL_SEARCH_ROM [])
      (sim_asked CONDITIONAL_SEARCH_ROM []) (sim_answered CONDITIONAL_SEARCH_ROM [])"
    using alarm.search_bus_axioms [of "[]"] by (simp add: line_pn_def)
  have idle: "sim_idle CONDITIONAL_SEARCH_ROM [] (bus line_state)"
    by (simp add: sim_idle_def line_state_def three_slave_line_def initial_connection_def participants_def
        SEARCH_ROM_def CONDITIONAL_SEARCH_ROM_def)
  from alarm_listing [OF bus idle, of 1 ?env default_globals collect] show ?thesis
    by (auto simp: line_pn_def line_state_def sim_routines_def no_routines_def)
qed

text \<open>
  When the listing of a later port succeeds, the flags its channels set are lost and an error of an earlier
  port is forgotten; only when it fails are its flags kept.
\<close>
theorem port_flags_lost:
  assumes "created 1" and "fst (FS_dir_all_connections created [second]) \<ge> 0"
  shows "FS_dir_all_connections created [first, second]
    = (fst (FS_dir_all_connections created [second]), snd (FS_dir_all_connections created [first]))"
  using assms by (simp add: FS_dir_all_connections_def split_beta)

theorem port_flags_lost_witness:
  "FS_dir_all_connections (\<lambda>_. True) [[(- 5, 1)], [(0, 2)]] = (0, 1)"
  using port_flags_lost [of "\<lambda>_. True" "[(0, 2)]" "[(- 5, 1)]"]
  by (simp add: FS_dir_all_connections_def FS_dir_all_connections_callback_conn_def)

end
