(* ===== verification/OW_Memory.thy ===== *)
theory OW_Memory
  imports OW_Bundle OW_Select OW_Cache
begin

text \<open>
  Access to the memory of a slave: the reading commands of \<^verbatim>\<open>ow_memory.c\<close>, the splitting of a transfer into
  pages of \<^verbatim>\<open>ow_iterate.c\<close>, the shifted transfer of \<^verbatim>\<open>ow_offset.c\<close> and the programming of an EPROM in
  \<^verbatim>\<open>ow_eprom_write.c\<close>. The drivers of the memory chips are built on them.

  A driver runs transactions over its local array \<^verbatim>\<open>p\<close> and the buffer of the query. Both lie in the memory of
  \<^typ>\<open>'b trx_state\<close>: the array at the address \<open>d_frame\<close>, the buffer where the query says. \<^const>\<open>None\<close> is
  undefined behaviour, as in the theory of transactions.
\<close>

section \<open>Queries and drivers\<close>

text \<open>The fields of \<^verbatim>\<open>struct one_wire_query\<close> that a memory driver uses.\<close>

record memory_query =
  q_buffer :: nat
  q_size :: nat
  q_offset :: nat
  q_length :: nat
  q_U :: uint
  q_format :: ft_format
  q_extension :: nat
  q_pn :: bus_pn

record 'b driver =
  d_ir :: "'b interface_routines"
  d_junk :: "nat \<Rightarrow> byte"
  d_frame :: nat

type_synonym 'b mem_result = "(int \<times> 'b trx_state) option"
type_synonym 'b owq_result = "(int \<times> memory_query \<times> 'b trx_state) option"

definition transact :: "'b driver \<Rightarrow> transaction_log list \<Rightarrow> bus_pn \<Rightarrow> 'b trx_state \<Rightarrow> 'b mem_result" where
  "transact d t pn st = BUS_transaction (BUS_select (d_ir d)) (d_ir d) (d_junk d) (Some t) pn st"

definition store :: "nat \<Rightarrow> byte list \<Rightarrow> 'b trx_state \<Rightarrow> 'b trx_state" where
  "store a xs st = st\<lparr>mem := mem_write a xs (mem st)\<rparr>"

definition fetch :: "nat \<Rightarrow> nat \<Rightarrow> 'b trx_state \<Rightarrow> byte list" where
  "fetch a n st = mem_read (mem st) a n"

definition LOW_HIGH_ADDRESS :: "nat \<Rightarrow> byte list" where
  "LOW_HIGH_ADDRESS x = [of_nat x, of_nat (x div 256)]"

definition GB_to_Z_OR_E :: "int \<Rightarrow> int" where
  "GB_to_Z_OR_E r = (if r = 0 then 0 else - EINVAL)"

definition RETURN_BAD_IF_BAD :: "'b mem_result \<Rightarrow> ('b trx_state \<Rightarrow> 'b mem_result) \<Rightarrow> 'b mem_result" where
  "RETURN_BAD_IF_BAD r rest =
     (case r of None \<Rightarrow> None | Some (ret, st) \<Rightarrow> if ret \<noteq> 0 then Some (1, st) else rest st)"

definition TRXN_START :: transaction_log where
  "TRXN_START = \<lparr>t_out = None, t_in = None, t_size = 0, t_type = trxn_select\<rparr>"

definition TRXN_CRC16 :: "nat \<Rightarrow> nat \<Rightarrow> transaction_log" where
  "TRXN_CRC16 data len = \<lparr>t_out = Some data, t_in = None, t_size = len, t_type = trxn_crc16\<rparr>"

definition TRXN_DELAY :: "nat \<Rightarrow> transaction_log" where
  "TRXN_DELAY msec = \<lparr>t_out = None, t_in = None, t_size = msec, t_type = trxn_delay\<rparr>"

definition TRXN_PROGRAM :: transaction_log where
  "TRXN_PROGRAM = \<lparr>t_out = None, t_in = None, t_size = 0, t_type = trxn_program\<rparr>"

definition TRXN_WR_CRC16 :: "nat \<Rightarrow> nat \<Rightarrow> nat \<Rightarrow> transaction_log list" where
  "TRXN_WR_CRC16 p writelength readlength =
     [TRXN_WRITE p writelength, TRXN_READ (p + writelength) (readlength + 2),
      TRXN_CRC16 p (writelength + readlength + 2)]"

lemmas trxn_entries = TRXN_START_def TRXN_CRC16_def TRXN_DELAY_def TRXN_PROGRAM_def TRXN_WR_CRC16_def trxn_macros

section \<open>Reading memory\<close>

definition Set_OWQ_length :: "memory_query \<Rightarrow> memory_query" where
  "Set_OWQ_length owq =
     (if q_format owq \<in> {ft_binary, ft_ascii, ft_vascii, ft_alias} then owq\<lparr>q_length := q_size owq\<rparr> else owq)"

definition COMMON_read_memory_F0 :: "'b driver \<Rightarrow> memory_query \<Rightarrow> nat \<Rightarrow> nat \<Rightarrow> 'b trx_state \<Rightarrow> 'b owq_result" where
  "COMMON_read_memory_F0 d owq page pagesize st =
     (let offset = q_offset owq + page * pagesize;
          p = d_frame d;
          st = store p (0xF0 # LOW_HIGH_ADDRESS offset) st;
          t = [TRXN_START, TRXN_WRITE p 3, TRXN_READ (q_buffer owq) (q_size owq), TRXN_END];
          owq = Set_OWQ_length owq
      in map_option (\<lambda>(ret, st). (ret, owq, st)) (transact d t (q_pn owq) st))"

text \<open>The two commands with a check sum read to the end of the page; \<open>extra\<close> more bytes precede the check sum on a
  chip with counters. A size beyond the local array reads outside of it.\<close>

definition read_page_crc16 :: "byte \<Rightarrow> nat \<Rightarrow> 'b driver \<Rightarrow> memory_query \<Rightarrow> nat \<Rightarrow> nat \<Rightarrow> 'b trx_state \<Rightarrow> 'b owq_result" where
  "read_page_crc16 code extra d owq page pagesize st =
     (let offset = q_offset owq + page * pagesize;
          p = d_frame d;
          rest = pagesize - offset mod pagesize;
          t = TRXN_START # TRXN_WR_CRC16 p 3 (rest + extra) @ [TRXN_END]
      in if pagesize = 0 then None
         else (case transact d t (q_pn owq) (store p (code # LOW_HIGH_ADDRESS offset) st) of
                 None \<Rightarrow> None
               | Some (ret, st) \<Rightarrow>
                   if ret \<noteq> 0 then Some (1, owq, st)
                   else if q_size owq > pagesize + extra + 2 then None
                   else Some (0, Set_OWQ_length owq, store (q_buffer owq) (fetch (p + 3) (q_size owq) st) st)))"

definition OW_r_crc16 :: "byte \<Rightarrow> 'b driver \<Rightarrow> memory_query \<Rightarrow> nat \<Rightarrow> nat \<Rightarrow> 'b trx_state \<Rightarrow> 'b owq_result" where
  "OW_r_crc16 code d owq page pagesize st = read_page_crc16 code 0 d owq page pagesize st"

definition COMMON_read_memory_crc16_A5 :: "'b driver \<Rightarrow> memory_query \<Rightarrow> nat \<Rightarrow> nat \<Rightarrow> 'b trx_state \<Rightarrow> 'b owq_result" where
  "COMMON_read_memory_crc16_A5 d owq page pagesize st =
     map_option (\<lambda>(ret, r). (if ret \<noteq> 0 then - EINVAL else 0, r)) (OW_r_crc16 0xA5 d owq page pagesize st)"

definition COMMON_read_memory_crc16_AA :: "'b driver \<Rightarrow> memory_query \<Rightarrow> nat \<Rightarrow> nat \<Rightarrow> 'b trx_state \<Rightarrow> 'b owq_result" where
  "COMMON_read_memory_crc16_AA d owq page pagesize st =
     map_option (\<lambda>(ret, r). (if ret \<noteq> 0 then - EINVAL else 0, r)) (OW_r_crc16 0xAA d owq page pagesize st)"

definition COMMON_read_memory_toss_counter :: "'b driver \<Rightarrow> memory_query \<Rightarrow> nat \<Rightarrow> nat \<Rightarrow> 'b trx_state \<Rightarrow> 'b owq_result" where
  "COMMON_read_memory_toss_counter d owq page pagesize st = read_page_crc16 0xA5 8 d owq page pagesize st"

text \<open>Only the last byte of the page is read, for the counter behind it.\<close>

definition COMMON_read_memory_plus_counter :: "'b driver \<Rightarrow> nat \<Rightarrow> nat \<Rightarrow> bus_pn \<Rightarrow> 'b trx_state \<Rightarrow> (int \<times> byte list \<times> 'b trx_state) option" where
  "COMMON_read_memory_plus_counter d page pagesize pn st =
     (let offset = (page + 1) * pagesize - 1;
          p = d_frame d;
          st = store p (0xA5 # LOW_HIGH_ADDRESS offset @ replicate 11 0) st
      in map_option (\<lambda>(ret, st). if ret \<noteq> 0 then (1, [], st) else (0, fetch (p + 4) 8 st, st))
           (transact d (TRXN_START # TRXN_WR_CRC16 p 3 9 @ [TRXN_END]) pn st))"

section \<open>Pages\<close>

text \<open>A transfer of \<open>len\<close> bytes at \<open>offset\<close>, split at the page boundaries: address in the buffer, length and offset of
  each piece. A page length of zero is a division by zero.\<close>

function paged_loop ::
  "nat \<Rightarrow> (nat \<Rightarrow> nat \<Rightarrow> nat \<Rightarrow> 's \<Rightarrow> (int \<times> 's) option) \<Rightarrow> nat \<Rightarrow> nat \<Rightarrow> nat \<Rightarrow> 's \<Rightarrow> (int \<times> 's) option" where
  "paged_loop pagelen readwritefunc buffer len offset st =
     (if len = 0 then Some (0, st)
      else if pagelen = 0 then None
      else
        let thispage = min (pagelen - offset mod pagelen) len in
        (case readwritefunc buffer thispage offset st of
           None \<Rightarrow> None
         | Some (ret, st) \<Rightarrow>
             if ret \<noteq> 0 then Some (1, st)
             else paged_loop pagelen readwritefunc (buffer + thispage) (len - thispage) (offset + thispage) st))"
  by pat_completeness auto
termination
  by (relation "measure (\<lambda>(pagelen, f, buffer, len, offset, st). len)") auto

declare paged_loop.simps [simp del]

definition COMMON_readwrite_paged ::
  "memory_query \<Rightarrow> nat \<Rightarrow> nat \<Rightarrow> (nat \<Rightarrow> nat \<Rightarrow> nat \<Rightarrow> bus_pn \<Rightarrow> 'b trx_state \<Rightarrow> 'b mem_result) \<Rightarrow> 'b trx_state \<Rightarrow> 'b owq_result" where
  "COMMON_readwrite_paged owq page pagelen readwritefunc st =
     map_option (\<lambda>(ret, st). (ret, owq\<lparr>q_length := q_size owq\<rparr>, st))
       (paged_loop pagelen (\<lambda>buffer thispage offset. readwritefunc buffer thispage offset (q_pn owq))
          (q_buffer owq) (q_size owq) (q_offset owq + pagelen * page) st)"

text \<open>The same loop over a scratch query: its buffer and offset move, its other fields stay.\<close>

definition COMMON_OWQ_readwrite_paged ::
  "memory_query \<Rightarrow> nat \<Rightarrow> nat \<Rightarrow> (memory_query \<Rightarrow> nat \<Rightarrow> nat \<Rightarrow> 'b trx_state \<Rightarrow> 'b owq_result) \<Rightarrow> 'b trx_state \<Rightarrow> 'b owq_result" where
  "COMMON_OWQ_readwrite_paged owq page pagelen readwritefunc st =
     map_option (\<lambda>(ret, st). (ret, owq\<lparr>q_length := q_size owq\<rparr>, st))
       (paged_loop pagelen
          (\<lambda>buffer thispage offset st.
             map_option (\<lambda>(ret, _, st). (ret, st))
               (readwritefunc (owq\<lparr>q_buffer := buffer, q_size := thispage, q_offset := offset\<rparr>) 0 pagelen st))
          (q_buffer owq) (q_size owq) (q_offset owq + pagelen * page) st)"

section \<open>Shifted access and EPROM\<close>

definition COMMON_offset_process ::
  "(memory_query \<Rightarrow> 'b trx_state \<Rightarrow> 'b owq_result) \<Rightarrow> memory_query \<Rightarrow> nat \<Rightarrow> 'b trx_state \<Rightarrow> 'b owq_result" where
  "COMMON_offset_process func owq shift_offset st =
     map_option (\<lambda>(ret, owq, st). (ret, owq\<lparr>q_offset := q_offset owq - shift_offset\<rparr>, st))
       (func (owq\<lparr>q_offset := q_offset owq + shift_offset\<rparr>) st)"

definition OW_write_eprom_byte :: "'b driver \<Rightarrow> byte \<Rightarrow> byte \<Rightarrow> nat \<Rightarrow> bus_pn \<Rightarrow> 'b trx_state \<Rightarrow> 'b mem_result" where
  "OW_write_eprom_byte d code data offset pn st =
     (let p = d_frame d in
      transact d (TRXN_START # TRXN_WR_CRC16 p 4 0 @ [TRXN_PROGRAM, TRXN_END]) pn
        (store p (code # LOW_HIGH_ADDRESS offset @ [data, 0, 0]) st))"

fun COMMON_write_eprom_mem :: "'b driver \<Rightarrow> byte list \<Rightarrow> nat \<Rightarrow> bus_pn \<Rightarrow> 'b trx_state \<Rightarrow> 'b mem_result" where
  "COMMON_write_eprom_mem d [] offset pn st = Some (0, st)"
| "COMMON_write_eprom_mem d (b # bs) offset pn st =
     RETURN_BAD_IF_BAD (OW_write_eprom_byte d 0x0F b offset pn st)
       (COMMON_write_eprom_mem d bs (offset + 1) pn)"

definition COMMON_write_eprom_mem_owq :: "'b driver \<Rightarrow> memory_query \<Rightarrow> 'b trx_state \<Rightarrow> 'b owq_result" where
  "COMMON_write_eprom_mem_owq d owq st =
     map_option (\<lambda>(ret, st). (GB_to_Z_OR_E ret, owq, st))
       (COMMON_write_eprom_mem d (fetch (q_buffer owq) (q_size owq) st) (q_offset owq) (q_pn owq) st)"

section \<open>Conversations\<close>

text \<open>
  A slave, once selected, is a machine that answers every byte with a byte. A log of writes, reads,
  comparisons, CRC16 checks and delays is then a conversation between the memory of the driver and the slave:
  \<^const>\<open>None\<close> when a written byte does not come back, a comparison fails or a check sum is wrong.
\<close>

fun converse ::
  "(byte \<Rightarrow> 'h \<Rightarrow> byte \<times> 'h) \<Rightarrow> transaction_log list \<Rightarrow> (nat \<Rightarrow> byte) \<times> 'h \<Rightarrow> ((nat \<Rightarrow> byte) \<times> 'h) option" where
  "converse step [] s = Some s"
| "converse step (t # ts) (m, h) =
     (let n = t_size t; out = the (t_out t) in
      case t_type t of
        trxn_match \<Rightarrow>
          (if fst (stream step (mem_read m out n) h) = mem_read m out n
           then converse step ts (m, snd (stream step (mem_read m out n) h)) else None)
      | trxn_read \<Rightarrow>
          converse step ts (mem_write (the (t_in t)) (fst (stream step (replicate n 0xFF) h)) m,
            snd (stream step (replicate n 0xFF) h))
      | trxn_compare \<Rightarrow>
          (if mem_read m (the (t_in t)) n = mem_read m out n then converse step ts (m, h) else None)
      | trxn_crc16 \<Rightarrow> (if CRC16compute (mem_read m out n) 0 = 0xB001 then converse step ts (m, h) else None)
      | trxn_delay \<Rightarrow> converse step ts (m, h)
      | trxn_nop \<Rightarrow> converse step ts (m, h)
      | _ \<Rightarrow> None)"

lemma converse_Cons: "converse step (t # ts) s = Option.bind (converse step [t] s) (converse step ts)"
  by (cases s) (simp add: Let_def split: transaction_type.splits)

definition talk_entry :: "transaction_log \<Rightarrow> bool" where
  "talk_entry t \<longleftrightarrow>
     (t_type t = trxn_match \<and> t_out t \<noteq> None \<and> t_in t = None)
   \<or> (t_type t = trxn_read \<and> t_out t = None \<and> t_in t \<noteq> None)
   \<or> (t_type t = trxn_compare \<and> t_out t \<noteq> None \<and> t_in t \<noteq> None)
   \<or> (t_type t = trxn_crc16 \<and> t_out t \<noteq> None) \<or> t_type t = trxn_delay \<or> t_type t = trxn_nop"

text \<open>The part of \<open>ys\<close> from \<open>a\<close> on replaced by \<open>xs\<close>.\<close>

definition patch :: "nat \<Rightarrow> 'a list \<Rightarrow> 'a list \<Rightarrow> 'a list" where
  "patch a xs ys = take a ys @ xs @ drop (a + length xs) ys"

lemma patch_nil [simp]: "patch a [] ys = ys"
  by (simp add: patch_def)

lemma length_patch [simp]: "a + length xs \<le> length ys \<Longrightarrow> length (patch a xs ys) = length ys"
  by (simp add: patch_def)

lemma patch_append:
  "a + length xs + length ys \<le> length zs \<Longrightarrow> patch (a + length xs) ys (patch a xs zs) = patch a (xs @ ys) zs"
  by (simp add: patch_def ac_simps)

lemma patch_slice: "a + length xs \<le> length ys \<Longrightarrow> take (length xs) (drop a (patch a xs ys)) = xs"
  by (simp add: patch_def)

lemma list_update_patch: "i < length ys \<Longrightarrow> ys[i := b] = patch i [b] ys"
  by (simp add: patch_def upd_conv_take_nth_drop)

text \<open>
  A routine that writes within one page, as the paging loop requires of it: on a transfer that does not leave its page it
  succeeds, replaces that part of the contents by the bytes of the buffer, and keeps all buffers.
\<close>

locale page_writer =
  fixes writer :: "nat \<Rightarrow> nat \<Rightarrow> nat \<Rightarrow> 's \<Rightarrow> (int \<times> 's) option" and pagelen :: nat
    and contents :: "'s \<Rightarrow> byte list" and bytes_at :: "'s \<Rightarrow> nat \<Rightarrow> nat \<Rightarrow> byte list"
    and buffer_ok :: "nat \<Rightarrow> nat \<Rightarrow> bool" and ready :: "'s \<Rightarrow> bool"
  assumes pagelen_pos: "0 < pagelen"
    and write_one: "ready s \<Longrightarrow> buffer_ok a n \<Longrightarrow> 0 < n \<Longrightarrow> offset mod pagelen + n \<le> pagelen \<Longrightarrow> offset + n \<le> length (contents s) \<Longrightarrow>
      \<exists>s'. writer a n offset s = Some (0, s') \<and> ready s' \<and> contents s' = patch offset (bytes_at s a n) (contents s)
        \<and> (\<forall>b k. buffer_ok b k \<longrightarrow> bytes_at s' b k = bytes_at s b k)"
    and buffer_part: "buffer_ok a n \<Longrightarrow> i + k \<le> n \<Longrightarrow> buffer_ok (a + i) k"
    and bytes_length: "length (bytes_at s a n) = n"
    and bytes_split: "bytes_at s a (i + k) = bytes_at s a i @ bytes_at s (a + i) k"
begin

lemma writes_all:
  assumes "ready s" and "buffer_ok a n" and "offset + n \<le> length (contents s)"
  shows "\<exists>s'. paged_loop pagelen writer a n offset s = Some (0, s') \<and> ready s'
    \<and> contents s' = patch offset (bytes_at s a n) (contents s) \<and> (\<forall>b k. buffer_ok b k \<longrightarrow> bytes_at s' b k = bytes_at s b k)"
  using assms
proof (induction n arbitrary: a offset s rule: less_induct)
  case (less n)
  show ?case
  proof (cases "n = 0")
    case True
    then show ?thesis using less.prems bytes_length [of s a 0] by (simp add: paged_loop.simps [of pagelen])
  next
    case False
    let ?i = "min (pagelen - offset mod pagelen) n"
    have i: "0 < ?i" "?i \<le> n" "offset mod pagelen + ?i \<le> pagelen"
      using False pagelen_pos mod_less_divisor [of pagelen offset] by (auto simp: min_def)
    have ok: "buffer_ok a ?i" "buffer_ok (a + ?i) (n - ?i)"
      using buffer_part [OF less.prems(2), of 0 ?i] buffer_part [OF less.prems(2), of ?i "n - ?i"] i(2) by simp_all
    from write_one [OF less.prems(1) ok(1) i(1,3)] less.prems(3) i(2) obtain s1 where
      s1: "writer a ?i offset s = Some (0, s1)" "ready s1" "contents s1 = patch offset (bytes_at s a ?i) (contents s)"
      "\<And>b k. buffer_ok b k \<Longrightarrow> bytes_at s1 b k = bytes_at s b k" by auto
    have len: "length (contents s1) = length (contents s)"
      using s1(3) less.prems(3) i(2) by (simp add: bytes_length)
    have "\<exists>s'. paged_loop pagelen writer (a + ?i) (n - ?i) (offset + ?i) s1 = Some (0, s') \<and> ready s'
        \<and> contents s' = patch (offset + ?i) (bytes_at s1 (a + ?i) (n - ?i)) (contents s1)
        \<and> (\<forall>b k. buffer_ok b k \<longrightarrow> bytes_at s' b k = bytes_at s1 b k)"
      using i less.prems(3) len by (intro less.IH s1(2) ok(2)) auto
    then obtain s2 where s2: "paged_loop pagelen writer (a + ?i) (n - ?i) (offset + ?i) s1 = Some (0, s2)" "ready s2"
        "contents s2 = patch (offset + ?i) (bytes_at s1 (a + ?i) (n - ?i)) (contents s1)"
        "\<And>b k. buffer_ok b k \<Longrightarrow> bytes_at s2 b k = bytes_at s1 b k" by blast
    have loop: "paged_loop pagelen writer a n offset s = Some (0, s2)"
      using s1(1) s2(1) False pagelen_pos by (subst paged_loop.simps) (simp add: Let_def)
    have "contents s2 = patch offset (bytes_at s a (?i + (n - ?i))) (contents s)"
      unfolding bytes_split s2(3) s1(3) s1(4) [OF ok(2)]
      using patch_append [of offset "bytes_at s a ?i" "bytes_at s (a + ?i) (n - ?i)" "contents s"] less.prems(3) i(2)
      by (simp add: bytes_length)
    then show ?thesis using loop s2(2,4) s1(4) i(2) by auto
  qed
qed

end

text \<open>
  What a driver needs of the bus: selecting the slave starts its machine, exchanging bytes then runs it, and the
  bookkeeping of the connection (locks, counters, delays) leaves it alone.
\<close>

locale slave_bus =
  fixes d :: "'b driver" and pn :: bus_pn
    and slave :: "'b connection_in \<Rightarrow> 'h" and usable :: "'b connection_in \<Rightarrow> bool" and selected :: "'b connection_in \<Rightarrow> bool"
    and step :: "byte \<Rightarrow> 'h \<Rightarrow> byte \<times> 'h" and start :: "'h \<Rightarrow> 'h"
  assumes no_bundle: "ir_flags (d_ir d) AND ADAP_FLAG_bundle = 0"
    and selects: "usable c \<Longrightarrow> \<exists>c'. BUS_select (d_ir d) pn c = (gbGOOD, c') \<and> selected c' \<and> slave c' = start (slave c)"
    and exchanges: "selected c \<Longrightarrow> data \<noteq> [] \<Longrightarrow>
      \<exists>c'. BUS_sendback_data (d_ir d) sh data pn c = (gbGOOD, fst (stream step data (slave c)), c')
        \<and> selected c' \<and> slave c' = snd (stream step data (slave c))"
    and selected_usable: "selected c \<Longrightarrow> usable c"
    and bookkeeping: "usable c \<Longrightarrow> hardware c' = hardware c \<Longrightarrow> branch c' = branch c \<Longrightarrow>
      usable c' \<and> selected c' = selected c \<and> slave c' = slave c"
begin

lemma sends:
  assumes "selected c" and "data \<noteq> []"
  shows "\<exists>c'. BUS_send_data (d_ir d) data pn c = (if fst (stream step data (slave c)) = data then gbGOOD else gbBAD, c')
    \<and> selected c' \<and> slave c' = snd (stream step data (slave c))"
proof -
  from exchanges [OF assms] obtain c' where
    c': "BUS_sendback_data (d_ir d) False data pn c = (gbGOOD, fst (stream step data (slave c)), c')"
    "selected c'" "slave c' = snd (stream step data (slave c))" by blast
  moreover have "selected (STAT_ADD1_BUS e c') \<and> slave (STAT_ADD1_BUS e c') = slave c'" for e
    using bookkeeping [OF selected_usable [OF c'(2)], of "STAT_ADD1_BUS e c'"] c'(2) by (simp add: STAT_ADD1_BUS_def)
  ultimately show ?thesis using assms(2) by (auto simp: BUS_send_data_def)
qed

lemma reads:
  assumes "selected c" and "n > 0"
  shows "\<exists>c'. BUS_readin_data (d_ir d) n pn c = (gbGOOD, fst (stream step (replicate n 0xFF) (slave c)), c')
    \<and> selected c' \<and> slave c' = snd (stream step (replicate n 0xFF) (slave c))"
  using exchanges [OF assms(1), of "replicate n 0xFF" True] assms(2) by (auto simp: BUS_readin_data_def)

text \<open>The state inside a transaction, and between transactions.\<close>

definition talking :: "'b trx_state \<Rightarrow> (nat \<Rightarrow> byte) \<times> 'h \<Rightarrow> bool list \<Rightarrow> bool" where
  "talking st s al \<longleftrightarrow> (mem st, slave (conn st)) = s \<and> selected (conn st) \<and> allocs st = al"

definition reached :: "'b trx_state \<Rightarrow> (nat \<Rightarrow> byte) \<times> 'h \<Rightarrow> bool list \<Rightarrow> bool" where
  "reached st s al \<longleftrightarrow> (mem st, slave (conn st)) = s \<and> usable (conn st) \<and> allocs st = al"

lemma entry_runs:
  assumes st: "talking st (m, h) al" and "talk_entry t"
  shows "\<exists>ret st'. BUS_transaction_single select (d_ir d) junk t pn st = Some (ret, st') \<and> ret \<noteq> 2
    \<and> (case converse step [t] (m, h) of None \<Rightarrow> ret \<noteq> 0 | Some s \<Rightarrow> ret = 0 \<and> talking st' s al)"
proof -
  have u: "selected (conn st)" and m: "mem st = m" and h: "slave (conn st) = h" and al: "allocs st = al"
    using st by (auto simp: talking_def)
  consider (wr) a where "t_type t = trxn_match" "t_out t = Some a" "t_in t = None"
    | (rd) a where "t_type t = trxn_read" "t_out t = None" "t_in t = Some a"
    | (compare) a b where "t_type t = trxn_compare" "t_out t = Some a" "t_in t = Some b"
    | (crc) a where "t_type t = trxn_crc16" "t_out t = Some a"
    | (quiet) "t_type t = trxn_delay \<or> t_type t = trxn_nop"
    using assms(2) by (auto simp: talk_entry_def)
  then show ?thesis
  proof cases
    case wr
    show ?thesis
    proof (cases "t_size t = 0")
      case True
      then show ?thesis using wr st
        by (simp add: BUS_transaction_single_def trx_good_def mem_read_def)
    next
      case False
      then have ne: "mem_read m a (t_size t) \<noteq> []" using length_mem_read by (metis list.size(3))
      from sends [OF u ne] show ?thesis using wr False ne
        by (auto simp: BUS_transaction_single_def ptr_read_def on_conn_def talking_def m h al)
    qed
  next
    case rd
    show ?thesis
    proof (cases "t_size t = 0")
      case True
      then show ?thesis using rd st
        by (simp add: BUS_transaction_single_def trx_good_def)
    next
      case False
      then show ?thesis using rd reads [OF u, of "t_size t"]
        by (auto simp: BUS_transaction_single_def on_conn_resp_def talking_def m h al Let_def)
    qed
  next
    case compare
    then show ?thesis using st
      by (simp add: BUS_transaction_single_def trx_memcmp_def talking_def)
  next
    case crc
    obtain r k where rk: "CRC16 (mem_read m a (t_size t)) (crc_counters (conn st)) = (r, k)"
        "if CRC16compute (mem_read m a (t_size t)) 0 = 0xB001 then r = 0 else r = - 1"
      by (fastforce simp: CRC16_def CRC16seeded_def Let_def split: if_splits)
    have "talking (st\<lparr>conn := (conn st)\<lparr>crc_counters := k\<rparr>\<rparr>) (m, h) al"
      using bookkeeping [OF selected_usable [OF u], of "(conn st)\<lparr>crc_counters := k\<rparr>"] u m h al by (simp add: talking_def)
    then show ?thesis using crc rk
      by (simp add: BUS_transaction_single_def trx_crc_def ptr_read_def m split: if_splits)
  next
    case quiet
    have "talking (st\<lparr>conn := UT_delay (t_size t) (conn st)\<rparr>) (m, h) al"
      using bookkeeping [OF selected_usable [OF u], of "UT_delay (t_size t) (conn st)"] u m h al by (simp add: UT_delay_def talking_def)
    then show ?thesis using quiet st by (auto simp: BUS_transaction_single_def trx_good_def Let_def)
  qed
qed

lemma log_runs:
  assumes "talking st s al" and "list_all talk_entry ts"
  shows "\<exists>ret st'. trx_loop select (d_ir d) junk (ts @ [TRXN_END]) pn st = Some (ret, st')
    \<and> (case converse step ts s of None \<Rightarrow> ret \<noteq> 0 | Some s' \<Rightarrow> ret = 0 \<and> talking st' s' al)"
  using assms
proof (induction ts arbitrary: st s)
  case Nil
  then show ?case by (simp add: BUS_transaction_single_def TRXN_END_def)
next
  case (Cons t ts)
  obtain m h where s: "s = (m, h)" by (cases s)
  obtain ret st' where run: "BUS_transaction_single select (d_ir d) junk t pn st = Some (ret, st')" "ret \<noteq> 2"
      "case converse step [t] s of None \<Rightarrow> ret \<noteq> 0 | Some s' \<Rightarrow> ret = 0 \<and> talking st' s' al"
    using entry_runs [of st m h al t select junk] Cons.prems by (auto simp: s)
  show ?case
  proof (cases "converse step [t] s")
    case None
    with run show ?thesis by (simp add: converse_Cons [of step t ts] del: converse.simps)
  next
    case (Some s')
    with run Cons.IH [of st' s'] Cons.prems show ?thesis
      by (simp add: converse_Cons [of step t ts] del: converse.simps)
  qed
qed

text \<open>A transaction that selects the slave and then talks to it.\<close>

lemma talk:
  assumes "reached st (m, h) al" and "list_all talk_entry ts" and "ts' = TRXN_START # ts @ [TRXN_END]"
  shows "\<exists>ret st'. transact d ts' pn st = Some (ret, st')
    \<and> (case converse step ts (m, start h) of None \<Rightarrow> ret \<noteq> 0 | Some s' \<Rightarrow> ret = 0 \<and> reached st' s' al)"
proof -
  have keep: "usable (BUS_lock_in c) \<and> slave (BUS_lock_in c) = slave c" "usable (BUS_unlock_in c) \<and> slave (BUS_unlock_in c) = slave c"
    if "usable c" for c
    using bookkeeping [OF that, of "BUS_lock_in c"] bookkeeping [OF that, of "BUS_unlock_in c"]
    by (simp_all add: lock_defs)
  have locked: "usable (BUS_lock_in (conn st))" "slave (BUS_lock_in (conn st)) = h"
    using keep [of "conn st"] assms(1) by (auto simp: reached_def)
  obtain c where c: "BUS_select (d_ir d) pn (BUS_lock_in (conn st)) = (gbGOOD, c)" "selected c" "slave c = start h"
    using selects [OF locked(1)] locked(2) by auto
  have st: "talking (st\<lparr>conn := c\<rparr>) (m, start h) al" using assms(1) c by (simp add: talking_def reached_def)
  have unlock: "reached (BUS_unlock st') s al" if "talking st' s al" for st' s
    using that keep [of "conn st'"] selected_usable [of "conn st'"] by (auto simp: talking_def reached_def BUS_unlock_def)
  obtain ret st' where run: "trx_loop (BUS_select (d_ir d)) (d_ir d) (d_junk d) (ts @ [TRXN_END]) pn (st\<lparr>conn := c\<rparr>) = Some (ret, st')"
      "case converse step ts (m, start h) of None \<Rightarrow> ret \<noteq> 0 | Some s' \<Rightarrow> ret = 0 \<and> talking st' s' al"
    using log_runs [OF st assms(2)] by blast
  then have "transact d ts' pn st = Some (ret, BUS_unlock st')"
    using c(1) by (simp add: transact_def BUS_transaction_def BUS_transaction_nolock_def no_bundle assms(3) BUS_lock_def
        BUS_transaction_single_def on_conn_def TRXN_START_def)
  then show ?thesis using run(2) unlock by (auto split: option.splits)
qed

end

section \<open>The paging loop\<close>

lemma first_piece:
  fixes pagelen len offset :: nat
  assumes "0 < pagelen" and "0 < len"
  defines "i \<equiv> min (pagelen - offset mod pagelen) len"
  shows "0 < i" and "i \<le> len" and "(offset + i - 1) div pagelen = offset div pagelen"
    and "i < len \<Longrightarrow> (offset + i) div pagelen = Suc (offset div pagelen)"
proof -
  have m: "offset mod pagelen < pagelen" using assms(1) by simp
  show "0 < i" "i \<le> len" using m assms(2) by (simp_all add: i_def)
  have o: "offset = offset div pagelen * pagelen + offset mod pagelen" by simp
  show "(offset + i - 1) div pagelen = offset div pagelen"
  proof -
    have "offset + i - 1 = offset div pagelen * pagelen + (offset mod pagelen + i - 1)" using o \<open>0 < i\<close> by linarith
    moreover have "offset mod pagelen + i - 1 < pagelen" using m by (simp add: i_def)
    ultimately show ?thesis using assms(1) by (metis add.right_neutral div_less div_mult_self3 less_nat_zero_code)
  qed
  assume "i < len"
  then have "i = pagelen - offset mod pagelen" by (simp add: i_def)
  then have "offset + i = Suc (offset div pagelen) * pagelen" using o m by (simp only: mult_Suc)
  then show "(offset + i) div pagelen = Suc (offset div pagelen)" using assms(1) by (metis div_mult_self_is_m)
qed

text \<open>The bytes of a piece: place in the buffer and place in the device.\<close>

definition piece_bytes :: "nat \<times> nat \<times> nat \<Rightarrow> (nat \<times> nat) list" where
  "piece_bytes p = (case p of (buffer, len, offset) \<Rightarrow> map (\<lambda>i. (buffer + i, offset + i)) [0..<len])"

lemma piece_bytes_split: "k \<le> n \<Longrightarrow> piece_bytes (b, n, a) = piece_bytes (b, k, a) @ piece_bytes (b + k, n - k, a + k)"
  by (rule nth_equalityI) (auto simp: piece_bytes_def nth_append)

definition in_one_page :: "nat \<Rightarrow> nat \<times> nat \<times> nat \<Rightarrow> bool" where
  "in_one_page pagelen p \<longleftrightarrow> (case p of (buffer, len, offset) \<Rightarrow> 0 < len \<and> offset div pagelen = (offset + len - 1) div pagelen)"

definition pages_touched :: "nat \<Rightarrow> nat \<Rightarrow> nat \<Rightarrow> nat" where
  "pages_touched pagelen len offset = (if len = 0 then 0 else (offset + len - 1) div pagelen - offset div pagelen + 1)"

definition note_piece :: "nat \<Rightarrow> nat \<Rightarrow> nat \<Rightarrow> (nat \<times> nat \<times> nat) list \<Rightarrow> (int \<times> (nat \<times> nat \<times> nat) list) option" where
  "note_piece buffer len offset ps = Some (0, ps @ [(buffer, len, offset)])"

lemma paged_loop_pieces:
  assumes "0 < pagelen"
  shows "\<exists>ps. paged_loop pagelen note_piece buffer len offset acc = Some (0, acc @ ps)
    \<and> list_all (in_one_page pagelen) ps \<and> concat (map piece_bytes ps) = piece_bytes (buffer, len, offset)
    \<and> length ps = pages_touched pagelen len offset"
proof (induction len arbitrary: buffer offset acc rule: less_induct)
  case (less len)
  show ?case
  proof (cases "len = 0")
    case True
    then show ?thesis by (simp add: paged_loop.simps [of pagelen] piece_bytes_def pages_touched_def)
  next
    case False
    define i where "i = min (pagelen - offset mod pagelen) len"
    note piece = first_piece [OF assms, of len offset, folded i_def]
    obtain ps where ps: "paged_loop pagelen note_piece (buffer + i) (len - i) (offset + i) (acc @ [(buffer, i, offset)]) =
          Some (0, (acc @ [(buffer, i, offset)]) @ ps)"
        "list_all (in_one_page pagelen) ps" "concat (map piece_bytes ps) = piece_bytes (buffer + i, len - i, offset + i)"
        "length ps = pages_touched pagelen (len - i) (offset + i)"
      using less.IH [of "len - i" "buffer + i" "offset + i"] piece(1) False by (metis diff_less neq0_conv)
    have "paged_loop pagelen note_piece buffer len offset acc = Some (0, acc @ (buffer, i, offset) # ps)"
      using False assms ps(1) by (subst paged_loop.simps) (simp add: i_def [symmetric] note_piece_def Let_def)
    moreover have "piece_bytes (buffer, i, offset) @ concat (map piece_bytes ps) = piece_bytes (buffer, len, offset)"
      using piece_bytes_split [of i len buffer offset] piece(2) False ps(3) by simp
    moreover have "Suc (length ps) = pages_touched pagelen len offset"
    proof (cases "i = len")
      case True
      then show ?thesis using ps(4) piece(3) False by (simp add: pages_touched_def)
    next
      case less_i: False
      then have "i < len" using piece(2) False by simp
      then have "(offset + len - 1) div pagelen \<ge> Suc (offset div pagelen)"
        using piece(4) False div_le_mono [of "offset + i" "offset + len - 1" pagelen] by simp
      then show ?thesis using ps(4) piece(4) \<open>i < len\<close> False by (simp add: pages_touched_def)
    qed
    moreover have "in_one_page pagelen (buffer, i, offset)" using piece False by (simp add: in_one_page_def)
    ultimately show ?thesis using ps(2) by (intro exI [of _ "(buffer, i, offset) # ps"]) simp
  qed
qed

text \<open>
  C34: the paging loop ends, after as many calls as the transfer touches pages. Every call stays within one page, and
  together the calls handle each byte of the transfer once, in order.
\<close>
theorem paging_terminates:
  assumes "0 < pagelen"
  shows "\<exists>ps. paged_loop pagelen note_piece buffer len offset [] = Some (0, ps) \<and> length ps = pages_touched pagelen len offset
    \<and> list_all (in_one_page pagelen) ps \<and> concat (map piece_bytes ps) = piece_bytes (buffer, len, offset)"
  using paged_loop_pieces [OF assms, of buffer len offset "[]"] by auto

theorem paging_terminates_witness:
  "\<exists>ps. paged_loop 8 note_piece 100 20 5 [] = Some (0, ps) \<and> length ps = 4
    \<and> list_all (in_one_page 8) ps \<and> concat (map piece_bytes ps) = piece_bytes (100, 20, 5)"
  using paging_terminates [of 8 100 20 5] by (simp add: pages_touched_def)

end
