(* ===== verification/OW_SlaveLine.thy ===== *)
theory OW_SlaveLine
  imports OW_Memory
begin

text \<open>
  A line with one slave, for any slave that answers bytes with bytes: the bus on which the drivers are verified. It listens for its serial number after
  a reset and then talks. Besides, logs with check sums of eight bits and with bytes after which the line delivers power.
\<close>

section \<open>More of a conversation\<close>

definition TRXN_CRC8 :: "nat \<Rightarrow> nat \<Rightarrow> transaction_log" where
  "TRXN_CRC8 data len = \<lparr>t_out = Some data, t_in = None, t_size = len, t_type = trxn_crc8\<rparr>"

definition TRXN_POWER :: "nat \<Rightarrow> nat \<Rightarrow> transaction_log" where
  "TRXN_POWER data delay = \<lparr>t_out = Some data, t_in = Some data, t_size = delay, t_type = trxn_power\<rparr>"

context slave_bus
begin

text \<open>A log goes on after the part that was a successful conversation.\<close>

lemma log_goes_on:
  assumes "talking st s al" and "list_all talk_entry ts" and "converse step ts s = Some s'"
  shows "\<exists>st'. trx_loop select (d_ir d) junk (ts @ us) pn st = trx_loop select (d_ir d) junk us pn st' \<and> talking st' s' al"
  using assms
proof (induction ts arbitrary: st s)
  case Nil
  then show ?case by auto
next
  case (Cons t ts)
  obtain m h where s: "s = (m, h)" by (cases s)
  obtain s1 where s1: "converse step [t] s = Some s1" "converse step ts s1 = Some s'"
    using Cons.prems(3) converse_Cons [of step t ts s] by (cases "converse step [t] s") auto
  obtain ret st1 where run: "BUS_transaction_single select (d_ir d) junk t pn st = Some (ret, st1)" "ret = 0" "talking st1 s1 al"
    using entry_runs [of st m h al t select junk] Cons.prems(1,2) s1(1) by (auto simp: s simp del: converse.simps)
  then show ?case using Cons.IH [of st1 s1] Cons.prems(2) s1(2) by simp
qed

lemma locks_keep:
  assumes "usable c"
  shows "usable (BUS_lock_in c) \<and> slave (BUS_lock_in c) = slave c" and "usable (BUS_unlock_in c) \<and> slave (BUS_unlock_in c) = slave c"
    and "selected c \<Longrightarrow> selected (BUS_lock_in c)" and "selected c \<Longrightarrow> selected (BUS_unlock_in c)"
  using bookkeeping [OF assms, of "BUS_lock_in c"] bookkeeping [OF assms, of "BUS_unlock_in c"] by (simp_all add: lock_defs)

text \<open>Selecting the slave, at the beginning of a log.\<close>

lemma log_starts:
  assumes "reached st (m, h) al"
  shows "\<exists>st'. trx_loop (BUS_select (d_ir d)) (d_ir d) junk (TRXN_START # us) pn st = trx_loop (BUS_select (d_ir d)) (d_ir d) junk us pn st'
    \<and> talking st' (m, start h) al"
proof -
  have u: "usable (conn st)" using assms by (simp add: reached_def)
  obtain c where "BUS_select (d_ir d) pn (conn st) = (gbGOOD, c)" "selected c" "slave c = start (slave (conn st))" using selects [OF u] by blast
  then show ?thesis using assms
    by (intro exI [of _ "st\<lparr>conn := c\<rparr>"]) (simp add: BUS_transaction_single_def on_conn_def TRXN_START_def talking_def reached_def)
qed

lemma talking_reached: "talking st s al \<Longrightarrow> reached st s al"
  using selected_usable by (auto simp: talking_def reached_def)

lemma lock_reached: "reached st s al \<Longrightarrow> reached (BUS_lock st) s al" "reached st s al \<Longrightarrow> reached (BUS_unlock st) s al"
  using locks_keep(1,2) [of "conn st"] by (auto simp: reached_def BUS_lock_def BUS_unlock_def)

lemma nolock_loop: "BUS_transaction_nolock (BUS_select (d_ir d)) (d_ir d) (d_junk d) ts pn st = trx_loop (BUS_select (d_ir d)) (d_ir d) (d_junk d) ts pn st"
  by (simp add: BUS_transaction_nolock_def no_bundle)

lemma transact_loop:
  "transact d ts pn st = map_option (\<lambda>(ret, st). (ret, BUS_unlock st)) (trx_loop (BUS_select (d_ir d)) (d_ir d) (d_junk d) ts pn (BUS_lock st))"
  by (simp add: transact_def BUS_transaction_def nolock_loop split: option.split)

text \<open>A check sum that is right.\<close>

lemma crc8_good:
  assumes "talking st (m, h) al" and "CRC8compute (mem_read m data n) 0 = 0" and "n > 0"
  shows "\<exists>st'. trx_loop select (d_ir d) junk (TRXN_CRC8 data n # us) pn st = trx_loop select (d_ir d) junk us pn st' \<and> talking st' (m, h) al"
proof -
  have u: "selected (conn st)" and m: "mem st = m" and h: "slave (conn st) = h" and al: "allocs st = al" using assms(1) by (auto simp: talking_def)
  obtain r k where rk: "CRC8 (mem_read m data n) (crc_counters (conn st)) = (r, k)" by fastforce
  then have "r = 0" using assms(2) by (auto simp: CRC8_def CRC8seeded_def Let_def split: if_splits)
  moreover have "talking (st\<lparr>conn := (conn st)\<lparr>crc_counters := k\<rparr>\<rparr>) (m, h) al"
    using bookkeeping [OF selected_usable [OF u], of "(conn st)\<lparr>crc_counters := k\<rparr>"] u m h al by (simp add: talking_def)
  ultimately show ?thesis using rk
    by (auto simp: BUS_transaction_single_def trx_crc_def ptr_read_def TRXN_CRC8_def m)
qed

end

section \<open>Delivering power\<close>

text \<open>An adapter that has no pullup of its own: the byte is exchanged, and the line is left alone for a while.\<close>

locale power_bus = slave_bus +
  assumes no_pullup: "ir_PowerByte (d_ir d) = None" "ir_PowerBit (d_ir d) = None"
begin

lemma power_good:
  assumes "talking st (m, h) al" and "step (m data) h = (r, h')"
  shows "\<exists>st'. trx_loop select (d_ir d) junk (TRXN_POWER data n # us) pn st = trx_loop select (d_ir d) junk us pn st'
    \<and> talking st' (mem_write data [r] m, h') al"
proof -
  have u: "selected (conn st)" and m: "mem st = m" and h: "slave (conn st) = h" and al: "allocs st = al" using assms(1) by (auto simp: talking_def)
  have strm: "stream step [m data] h = ([r], h')" using assms(2) by simp
  obtain c where c: "BUS_sendback_data (d_ir d) False [m data] pn (conn st) = (gbGOOD, [r], c)" "selected c" "slave c = h'"
    using exchanges [OF u, of "[m data]" False] strm h by auto
  let ?c = "delay_for_power (d_ir d) n c"
  have "hardware ?c = hardware c" "branch ?c = branch c" by (simp_all add: delay_for_power_def unlocked_delay_def UT_delay_def lock_defs Let_def)
  then have "selected ?c" "slave ?c = h'" using bookkeeping [OF selected_usable [OF c(2)], of ?c] c(2,3) by auto
  moreover have "BUS_PowerByte (d_ir d) junk (m data) n pn (conn st) = (gbGOOD, [r], ?c)" using c(1) by (simp add: BUS_PowerByte_def no_pullup)
  ultimately show ?thesis using m al
    by (auto simp: BUS_transaction_single_def TRXN_POWER_def ptr_read_def on_conn_resp_def talking_def mem_read_def Let_def)
qed

end

section \<open>The line\<close>

text \<open>After a reset the slave listens for the command that selects it and its serial number; then it talks, or it waits for the next reset.\<close>

datatype line_phase = Rom "byte list" | Talking | Deaf

record 'h slave_line =
  line_rom :: "byte list"
  line_slave :: 'h
  line_phase :: line_phase

definition line_step :: "(byte \<Rightarrow> 'h \<Rightarrow> byte \<times> 'h) \<Rightarrow> ('h \<Rightarrow> 'h) \<Rightarrow> byte \<Rightarrow> 'h slave_line \<Rightarrow> byte \<times> 'h slave_line" where
  "line_step step start b l =
     (case line_phase l of
        Rom bs \<Rightarrow>
          (b, if length bs < 8 then l\<lparr>line_phase := Rom (bs @ [b])\<rparr>
              else if hd bs \<in> {MATCH_ROM, OVERDRIVE_MATCH_ROM} \<and> List.tl bs @ [b] = line_rom l
              then l\<lparr>line_slave := start (line_slave l), line_phase := Talking\<rparr>
              else l\<lparr>line_phase := Deaf\<rparr>)
      | Talking \<Rightarrow> (case step b (line_slave l) of (r, ch) \<Rightarrow> (r, l\<lparr>line_slave := ch\<rparr>))
      | Deaf \<Rightarrow> (b, l))"

definition line_reset :: "bus_pn \<Rightarrow> 'h slave_line connection_in \<Rightarrow> RESET_TYPE \<times> 'h slave_line connection_in" where
  "line_reset pn c = (BUS_RESET_OK, c\<lparr>hardware := (hardware c)\<lparr>line_phase := Rom []\<rparr>\<rparr>)"

definition line_sendback :: "(byte \<Rightarrow> 'h \<Rightarrow> byte \<times> 'h) \<Rightarrow> ('h \<Rightarrow> 'h) \<Rightarrow> 'h slave_line sendback" where
  "line_sendback step start data pn c =
     (gbGOOD, fst (stream (line_step step start) data (hardware c)), c\<lparr>hardware := snd (stream (line_step step start) data (hardware c))\<rparr>)"

definition line_routines :: "(byte \<Rightarrow> 'h \<Rightarrow> byte \<times> 'h) \<Rightarrow> ('h \<Rightarrow> 'h) \<Rightarrow> 'h slave_line interface_routines" where
  "line_routines step start = no_routines\<lparr>ir_reset := Some line_reset, ir_sendback_data := Some (line_sendback step start)\<rparr>"

definition line_driver :: "(byte \<Rightarrow> 'h \<Rightarrow> byte \<times> 'h) \<Rightarrow> ('h \<Rightarrow> 'h) \<Rightarrow> (nat \<Rightarrow> byte) \<Rightarrow> nat \<Rightarrow> 'h slave_line driver" where
  "line_driver step start junk frame = \<lparr>d_ir = line_routines step start, d_junk = junk, d_frame = frame\<rparr>"

definition chip_pn :: "byte list \<Rightarrow> bus_pn" where
  "chip_pn rom = \<lparr>pn_sn = rom, pn_bp = [], pn_has_device = True\<rparr>"

definition line_usable :: "byte list \<Rightarrow> 'h slave_line connection_in \<Rightarrow> bool" where
  "line_usable rom c \<longleftrightarrow> hub_branch (branch c) = eBranch_cleared \<and> line_rom (hardware c) = rom \<and> length rom = 8"

definition line_selected :: "byte list \<Rightarrow> 'h slave_line connection_in \<Rightarrow> bool" where
  "line_selected rom c \<longleftrightarrow> line_usable rom c \<and> line_phase (hardware c) = Talking"

lemma stream_talking:
  assumes "line_phase l = Talking"
  shows "stream (line_step step start) xs l =
    (fst (stream step xs (line_slave l)), l\<lparr>line_slave := snd (stream step xs (line_slave l))\<rparr>)"
  using assms by (induction xs arbitrary: l) (simp_all add: line_step_def case_prod_unfold Let_def)

lemma stream_rom:
  assumes "line_phase l = Rom bs" and "length bs + length xs \<le> 8"
  shows "stream (line_step step start) xs l = (xs, l\<lparr>line_phase := Rom (bs @ xs)\<rparr>)"
  using assms by (induction xs arbitrary: l bs) (simp_all add: line_step_def)

lemma stream_match_rom:
  assumes "line_phase l = Rom []" and "length rom = 8" and "line_rom l = rom" and "b \<in> {MATCH_ROM, OVERDRIVE_MATCH_ROM}"
  shows "stream (line_step step start) (b # rom) l = (b # rom, l\<lparr>line_slave := start (line_slave l), line_phase := Talking\<rparr>)"
proof -
  let ?step = "line_step step start"
  obtain r x where rom: "rom = r @ [x]" "length r = 7" using assms(2) by (cases rom rule: rev_cases) auto
  have "stream ?step (b # r) l = (b # r, l\<lparr>line_phase := Rom (b # r)\<rparr>)"
    using stream_rom [of l "[]" "b # r"] assms(1) rom(2) by simp
  moreover have "stream ?step [x] (l\<lparr>line_phase := Rom (b # r)\<rparr>) = ([x], l\<lparr>line_slave := start (line_slave l), line_phase := Talking\<rparr>)"
    using assms(3,4) rom by (auto simp: line_step_def)
  ultimately show ?thesis
    using stream_append [of ?step "b # r" "[x]" l] by (simp add: rom(1) prod_eq_iff del: stream.simps)
qed

lemma line_send: "data \<noteq> [] \<Longrightarrow> BUS_sendback_data (line_routines step start) sh data pn c = line_sendback step start data pn c"
  by (simp add: BUS_sendback_data_def line_routines_def)

lemma line_flags [simp]: "ir_flags (line_routines step start) = 0"
  by (simp add: line_routines_def no_routines_def)

lemma line_select:
  assumes "line_usable rom c"
  shows "\<exists>c'. BUS_select (line_routines step start) (chip_pn rom) c = (gbGOOD, c') \<and> line_selected rom c'
    \<and> line_slave (hardware c') = start (line_slave (hardware c))"
proof -
  let ?ir = "line_routines step start"
  have rom: "length rom = 8" "line_rom (hardware c) = rom" "hub_branch (branch c) = eBranch_cleared"
    using assms by (simp_all add: line_usable_def)
  define b where "b = (if overdrive c then OVERDRIVE_MATCH_ROM else MATCH_ROM)"
  obtain c1 where c1: "BUS_reset ?ir (chip_pn rom) c = (BUS_RESET_OK, c1)"
      "hardware c1 = (hardware c)\<lparr>line_phase := Rom []\<rparr>" "branch c1 = branch c"
    by (simp add: BUS_reset_def line_routines_def no_routines_def line_reset_def STAT_ADD1_BUS_def UT_delay_def Let_def)
  have path: "BUS_select_branched_path ?ir (chip_pn rom) c = (gbGOOD, c1)"
    using c1(1) by (simp add: BUS_select_branched_path_def chip_pn_def)
  have "stream (line_step step start) (b # rom) (hardware c1) =
      (b # rom, (hardware c1)\<lparr>line_slave := start (line_slave (hardware c1)), line_phase := Talking\<rparr>)"
    using stream_match_rom [of "hardware c1" rom b] rom c1(2) by (simp add: b_def)
  then have "BUS_select_device ?ir b (chip_pn rom) c1 =
      (gbGOOD, c1\<lparr>hardware := (hardware c1)\<lparr>line_slave := start (line_slave (hardware c1)), line_phase := Talking\<rparr>\<rparr>)"
    using mem_read_0_prefix [of 9 "b # rom"] rom(1)
    by (simp add: BUS_select_device_def gb_transaction_def local_transaction_def BUS_transaction_nolock_def BUS_transaction_single_def
        on_conn_def ptr_read_def BUS_send_data_def line_send line_sendback_def trxn_macros Let_def chip_pn_def
        del: stream.simps)
  then show ?thesis using path rom c1
    by (auto simp: BUS_select_def select_prepare_def RootNotBranch_def ds2409_depth_def chip_pn_def line_routines_def no_routines_def
        line_selected_def line_usable_def Let_def b_def [symmetric])
qed

interpretation slave_line: power_bus "line_driver step start junk frame" "chip_pn rom" "\<lambda>c. line_slave (hardware c)" "line_usable rom" "line_selected rom" step start
  for step :: "byte \<Rightarrow> 'h \<Rightarrow> byte \<times> 'h" and start junk frame rom
proof
  show "ir_flags (d_ir (line_driver step start junk frame)) AND ADAP_FLAG_bundle = 0"
    by (simp add: line_driver_def line_routines_def no_routines_def)
next
  fix c :: "'h slave_line connection_in" assume "line_usable rom c"
  then show "\<exists>c'. BUS_select (d_ir (line_driver step start junk frame)) (chip_pn rom) c = (gbGOOD, c') \<and> line_selected rom c'
      \<and> line_slave (hardware c') = start (line_slave (hardware c))"
    using line_select by (simp add: line_driver_def)
next
  fix c :: "'h slave_line connection_in" and data :: "byte list" and sh assume "line_selected rom c" "data \<noteq> []"
  then show "\<exists>c'. BUS_sendback_data (d_ir (line_driver step start junk frame)) sh data (chip_pn rom) c =
        (gbGOOD, fst (stream step data (line_slave (hardware c))), c') \<and> line_selected rom c'
      \<and> line_slave (hardware c') = snd (stream step data (line_slave (hardware c)))"
    by (simp add: line_driver_def line_send line_sendback_def line_selected_def line_usable_def stream_talking)
qed (simp_all add: line_selected_def line_usable_def line_driver_def line_routines_def no_routines_def)

end
