(* ===== verification/OW_MemoryChips.thy ===== *)
theory OW_MemoryChips
  imports OW_SlaveLine
begin

text \<open>
  The drivers of three families of memory chips: \<^verbatim>\<open>ow_1993.c\<close> (DS1992, DS1993, DS1995, DS1996),
  \<^verbatim>\<open>ow_2433.c\<close> (DS2431, DS2433, DS28EC20) and \<^verbatim>\<open>ow_2423.c\<close> (DS2423, with counters). They write a page by filling the
  scratchpad of the chip, reading it back, and copying it to memory. The static functions carry the number of
  their file when several files use the same name.

  The chip itself is a machine that follows its data sheet; behind a simulated bus it takes part in every exchange
  of the transaction layer.
\<close>

section \<open>DS1993\<close>

text \<open>The local array has 36 bytes; a longer transfer would write outside of it.\<close>

definition OW_w_mem_1993 :: "'b driver \<Rightarrow> nat \<Rightarrow> nat \<Rightarrow> nat \<Rightarrow> bus_pn \<Rightarrow> 'b trx_state \<Rightarrow> 'b mem_result" where
  "OW_w_mem_1993 d data len offset pn st =
     (let p = d_frame d;
          tcopy = [TRXN_START, TRXN_WRITE p 3, TRXN_WRITE data len, TRXN_END];
          tread = [TRXN_START, TRXN_WRITE p 1, TRXN_READ (p + 1) (3 + len), TRXN_COMPARE data (p + 4) len, TRXN_END];
          tsram = [TRXN_START, TRXN_WRITE p 4, TRXN_DELAY 32, TRXN_END]
      in if len > 32 then None
         else RETURN_BAD_IF_BAD (transact d tcopy pn (store p (0x0F # LOW_HIGH_ADDRESS offset @ replicate 33 0) st))
           (\<lambda>st. RETURN_BAD_IF_BAD (transact d tread pn (store p [0xAA] st))
             (\<lambda>st. transact d tsram pn (store p [0x55] st))))"

definition FS_r_mem_1993 :: "'b driver \<Rightarrow> memory_query \<Rightarrow> 'b trx_state \<Rightarrow> 'b owq_result" where
  "FS_r_mem_1993 d owq st =
     map_option (\<lambda>(ret, r). (if ret \<noteq> 0 then - EINVAL else 0, r)) (COMMON_read_memory_F0 d owq 0 0 st)"

definition FS_w_mem_1993 :: "'b driver \<Rightarrow> memory_query \<Rightarrow> 'b trx_state \<Rightarrow> 'b owq_result" where
  "FS_w_mem_1993 d owq st =
     map_option (\<lambda>(ret, r). (GB_to_Z_OR_E ret, r)) (COMMON_readwrite_paged owq 0 32 (OW_w_mem_1993 d) st)"

definition FS_r_page_1993 :: "'b driver \<Rightarrow> memory_query \<Rightarrow> 'b trx_state \<Rightarrow> 'b owq_result" where
  "FS_r_page_1993 d owq st = COMMON_offset_process (FS_r_mem_1993 d) owq (q_extension owq * 32) st"

definition FS_w_page_1993 :: "'b driver \<Rightarrow> memory_query \<Rightarrow> 'b trx_state \<Rightarrow> 'b owq_result" where
  "FS_w_page_1993 d owq st = COMMON_offset_process (FS_w_mem_1993 d) owq (q_extension owq * 32) st"

section \<open>DS2433 and DS2431\<close>

text \<open>The check sum of the scratchpad is only sent when the data reach the end of the page; otherwise the two entries
  are made idle.\<close>

definition OW_w_23page :: "'b driver \<Rightarrow> nat \<Rightarrow> nat \<Rightarrow> nat \<Rightarrow> bus_pn \<Rightarrow> 'b trx_state \<Rightarrow> 'b mem_result" where
  "OW_w_23page d data len offset pn st =
     (let p = d_frame d;
          idle = (\<lambda>t. if (offset + len) mod 32 \<noteq> 0 then t\<lparr>t_type := trxn_nop\<rparr> else t);
          tcopy = [TRXN_START, TRXN_WRITE p (3 + len), idle (TRXN_READ (p + (3 + len)) 2),
                   idle (TRXN_CRC16 p (3 + len + 2)), TRXN_END];
          treread = [TRXN_START, TRXN_WRITE p 1, TRXN_READ (p + 1) (3 + len), TRXN_COMPARE (p + 4) data len, TRXN_END];
          twrite33 = [TRXN_START, TRXN_WRITE p 4, TRXN_DELAY 5, TRXN_END];
          twriteEC20 = [TRXN_START, TRXN_WRITE p 4, TRXN_DELAY 10, TRXN_END];
          st = store p (0x0F # LOW_HIGH_ADDRESS offset @ replicate 34 0) st
      in if len > 32 then None
         else RETURN_BAD_IF_BAD (transact d tcopy pn (store (p + 3) (fetch data len st) st))
           (\<lambda>st. RETURN_BAD_IF_BAD (transact d treread pn (store p [0xAA] st))
             (\<lambda>st. transact d (if hd (pn_sn pn) = 0x23 then twrite33 else twriteEC20) pn (store p [0x55] st))))"

text \<open>The pages of a DS2431 have eight bytes and are written whole: a part of a page is completed from memory, by a
  query whose frame lies behind the local array.\<close>

definition OW_w_2Dpage :: "'b driver \<Rightarrow> nat \<Rightarrow> nat \<Rightarrow> nat \<Rightarrow> bus_pn \<Rightarrow> 'b trx_state \<Rightarrow> 'b mem_result" where
  "OW_w_2Dpage d data len offset pn st =
     (let p = d_frame d;
          pageoff = offset mod 8;
          tcopy = [TRXN_START, TRXN_WRITE p (3 + 8), TRXN_END];
          tread = TRXN_START # TRXN_WR_CRC16 p 1 (3 + 8) @ [TRXN_COMPARE (p + 4) data len, TRXN_END];
          tsram = [TRXN_START, TRXN_WRITE p 4, TRXN_DELAY 13, TRXN_END];
          st = store p (0x0F # LOW_HIGH_ADDRESS (offset - pageoff) @ replicate 11 0) st;
          old = \<lparr>q_buffer = p + 3, q_size = 8, q_offset = offset - pageoff, q_length = 0, q_U = 0,
                 q_format = ft_binary, q_extension = 0, q_pn = pn\<rparr>
      in if pageoff + len > 8 then None
         else RETURN_BAD_IF_BAD
           (if len \<noteq> 8
            then map_option (\<lambda>(ret, _, st). (ret, st)) (COMMON_read_memory_F0 (d\<lparr>d_frame := p + 14\<rparr>) old 0 0 st)
            else Some (0, st))
           (\<lambda>st. RETURN_BAD_IF_BAD (transact d tcopy pn (store (p + 3 + pageoff) (fetch data len st) st))
             (\<lambda>st. RETURN_BAD_IF_BAD (transact d tread pn (store p [0xAA] st))
               (\<lambda>st. transact d tsram pn (store p [0x55] st)))))"

definition FS_r_mem_2433 :: "'b driver \<Rightarrow> memory_query \<Rightarrow> 'b trx_state \<Rightarrow> 'b owq_result" where
  "FS_r_mem_2433 d owq st =
     map_option (\<lambda>(ret, r). (if ret \<noteq> 0 then - EINVAL else 0, r)) (COMMON_read_memory_F0 d owq 0 32 st)"

definition FS_w_mem_2433 :: "'b driver \<Rightarrow> memory_query \<Rightarrow> 'b trx_state \<Rightarrow> 'b owq_result" where
  "FS_w_mem_2433 d owq st =
     map_option (\<lambda>(ret, r). (GB_to_Z_OR_E ret, r))
       (COMMON_readwrite_paged owq 0 8 (if hd (pn_sn (q_pn owq)) = 0x2D then OW_w_2Dpage d else OW_w_23page d) st)"

definition FS_r_page_2433 :: "'b driver \<Rightarrow> memory_query \<Rightarrow> 'b trx_state \<Rightarrow> 'b owq_result" where
  "FS_r_page_2433 d owq st =
     map_option (\<lambda>(ret, r). (if ret \<noteq> 0 then - EINVAL else 0, r))
       (COMMON_read_memory_F0 d owq (q_extension owq) 32 st)"

definition FS_w_page_2433 :: "'b driver \<Rightarrow> memory_query \<Rightarrow> 'b trx_state \<Rightarrow> 'b owq_result" where
  "FS_w_page_2433 d owq st = COMMON_offset_process (FS_w_mem_2433 d) owq (q_extension owq * 32) st"

section \<open>DS2423\<close>

definition OW_w_mem_2423 :: "'b driver \<Rightarrow> nat \<Rightarrow> nat \<Rightarrow> nat \<Rightarrow> bus_pn \<Rightarrow> 'b trx_state \<Rightarrow> 'b mem_result" where
  "OW_w_mem_2423 d data len offset pn st =
     (let p = d_frame d;
          tcopy_crc = TRXN_START # TRXN_WR_CRC16 p (3 + len) 0 @ [TRXN_END];
          tcopy = [TRXN_START, TRXN_WRITE p (3 + len), TRXN_END];
          treread = [TRXN_START, TRXN_WRITE p 1, TRXN_READ (p + 1) (3 + len), TRXN_COMPARE (p + 4) data len, TRXN_END];
          twrite = [TRXN_START, TRXN_WRITE p 4, TRXN_END];
          st = store p (0x0F # LOW_HIGH_ADDRESS offset @ replicate 34 0) st
      in if len > 32 then None
         else RETURN_BAD_IF_BAD
           (transact d (if (offset + len) mod 32 \<noteq> 0 then tcopy else tcopy_crc) pn (store (p + 3) (fetch data len st) st))
           (\<lambda>st. RETURN_BAD_IF_BAD (transact d treread pn (store p [0xAA] st))
             (\<lambda>st. RETURN_BAD_IF_BAD (transact d twrite pn (store p [0x5A] st))
               (\<lambda>st. Some (0, st\<lparr>conn := UT_delay 32 (conn st)\<rparr>)))))"

definition FS_r_mem_2423 :: "'b driver \<Rightarrow> memory_query \<Rightarrow> 'b trx_state \<Rightarrow> 'b owq_result" where
  "FS_r_mem_2423 d owq st =
     map_option (\<lambda>(ret, r). (GB_to_Z_OR_E ret, r))
       (COMMON_OWQ_readwrite_paged owq 0 32 (COMMON_read_memory_toss_counter d) st)"

definition FS_w_mem_2423 :: "'b driver \<Rightarrow> memory_query \<Rightarrow> 'b trx_state \<Rightarrow> 'b owq_result" where
  "FS_w_mem_2423 d owq st =
     map_option (\<lambda>(ret, r). (GB_to_Z_OR_E ret, r)) (COMMON_readwrite_paged owq 0 32 (OW_w_mem_2423 d) st)"

definition OW_r_counter :: "'b driver \<Rightarrow> memory_query \<Rightarrow> nat \<Rightarrow> nat \<Rightarrow> 'b trx_state \<Rightarrow> 'b owq_result" where
  "OW_r_counter d owq page pagesize st =
     map_option (\<lambda>(ret, extra, st). if ret \<noteq> 0 then (1, owq, st) else (0, owq\<lparr>q_U := UT_uint32 extra\<rparr>, st))
       (COMMON_read_memory_plus_counter d page pagesize (q_pn owq) st)"

definition FS_counter :: "'b driver \<Rightarrow> memory_query \<Rightarrow> 'b trx_state \<Rightarrow> 'b owq_result" where
  "FS_counter d owq st =
     map_option (\<lambda>(ret, r). (GB_to_Z_OR_E ret, r)) (OW_r_counter d owq (q_extension owq + 14) 32 st)"

definition FS_pagecount :: "'b driver \<Rightarrow> memory_query \<Rightarrow> 'b trx_state \<Rightarrow> 'b owq_result" where
  "FS_pagecount d owq st =
     map_option (\<lambda>(ret, r). (GB_to_Z_OR_E ret, r)) (OW_r_counter d owq (q_extension owq) 32 st)"

section \<open>The chip\<close>

text \<open>
  A chip with 32-byte pages: its memory, the scratchpad, the address registers \<open>ta1\<close> and \<open>ta2\<close>, the end of the last
  write (\<open>es\<close>), what it has heard since its selection, and what it does with the next byte. Chips differ in the
  code of the copy command and in whether they send a check sum when the scratchpad has been filled to its end.
\<close>

datatype chip_phase =
    Off | Command_byte | Write_TA1 | Write_TA2 | Write_data nat | Write_crc nat | Read_scratch nat
  | Copy_TA1 | Copy_TA2 | Copy_ES | Read_TA1 | Read_TA2 | Read_data nat

record scratchpad_chip =
  memory :: "byte list"
  scratch :: "byte list"
  ta1 :: byte
  ta2 :: byte
  es :: byte
  heard :: "byte list"
  chip_phase :: chip_phase
  copy_command :: byte
  crc_sent :: bool

definition target :: "scratchpad_chip \<Rightarrow> nat" where
  "target ch = unat (ta1 ch) + 256 * unat (ta2 ch)"

definition chip_start :: "scratchpad_chip \<Rightarrow> scratchpad_chip" where
  "chip_start ch = ch\<lparr>heard := [], chip_phase := Command_byte\<rparr>"

definition chip_command :: "byte \<Rightarrow> scratchpad_chip \<Rightarrow> chip_phase" where
  "chip_command b ch =
     (if b = 0x0F then Write_TA1 else if b = 0xAA then Read_scratch 0 else if b = copy_command ch then Copy_TA1
      else if b = 0xF0 then Read_TA1 else Off)"

definition scratch_out :: "scratchpad_chip \<Rightarrow> nat \<Rightarrow> byte" where
  "scratch_out ch k =
     (if k = 0 then ta1 ch else if k = 1 then ta2 ch else if k = 2 then es ch
      else if target ch mod 32 + (k - 3) < 32 then scratch ch ! (target ch mod 32 + (k - 3)) else 0xFF)"

definition crc_out :: "scratchpad_chip \<Rightarrow> nat \<Rightarrow> byte" where
  "crc_out ch k =
     (let crc = NOT (crc16_ref (heard ch) 0) in
      if k = 0 then ucast crc else if k = 1 then ucast (drop_bit 8 crc) else 0xFF)"

definition memory_out :: "scratchpad_chip \<Rightarrow> nat \<Rightarrow> byte" where
  "memory_out ch a = (if a < length (memory ch) then memory ch ! a else 0xFF)"

definition chip_copy :: "scratchpad_chip \<Rightarrow> scratchpad_chip" where
  "chip_copy ch =
     (let a = target ch mod 32 in
      ch\<lparr>memory := patch (target ch) (take (unat (es ch) + 1 - a) (drop a (scratch ch))) (memory ch)\<rparr>)"

fun chip_do :: "chip_phase \<Rightarrow> byte \<Rightarrow> scratchpad_chip \<Rightarrow> byte \<times> scratchpad_chip" where
  "chip_do Off b ch = (b, ch)"
| "chip_do Command_byte b ch = (b, ch\<lparr>heard := [b], chip_phase := chip_command b ch\<rparr>)"
| "chip_do Write_TA1 b ch = (b, ch\<lparr>ta1 := b, heard := heard ch @ [b], chip_phase := Write_TA2\<rparr>)"
| "chip_do Write_TA2 b ch =
     (b, ch\<lparr>ta2 := b, heard := heard ch @ [b], chip_phase := Write_data (unat (ta1 ch) mod 32)\<rparr>)"
| "chip_do (Write_data i) b ch =
     (b, ch\<lparr>scratch := (scratch ch)[i := b], es := of_nat i, heard := heard ch @ [b],
            chip_phase := (if Suc i < 32 then Write_data (Suc i) else if crc_sent ch then Write_crc 0 else Off)\<rparr>)"
| "chip_do (Write_crc k) b ch = (b AND crc_out ch k, ch\<lparr>chip_phase := Write_crc (Suc k)\<rparr>)"
| "chip_do (Read_scratch k) b ch = (b AND scratch_out ch k, ch\<lparr>chip_phase := Read_scratch (Suc k)\<rparr>)"
| "chip_do Copy_TA1 b ch = (b, ch\<lparr>chip_phase := (if b = ta1 ch then Copy_TA2 else Off)\<rparr>)"
| "chip_do Copy_TA2 b ch = (b, ch\<lparr>chip_phase := (if b = ta2 ch then Copy_ES else Off)\<rparr>)"
| "chip_do Copy_ES b ch = (b, (if b = es ch then chip_copy ch else ch)\<lparr>chip_phase := Off\<rparr>)"
| "chip_do Read_TA1 b ch = (b, ch\<lparr>ta1 := b, chip_phase := Read_TA2\<rparr>)"
| "chip_do Read_TA2 b ch = (b, ch\<lparr>ta2 := b, chip_phase := Read_data (unat (ta1 ch) + 256 * unat b)\<rparr>)"
| "chip_do (Read_data a) b ch = (b AND memory_out ch a, ch\<lparr>chip_phase := Read_data (Suc a)\<rparr>)"

definition chip_step :: "byte \<Rightarrow> scratchpad_chip \<Rightarrow> byte \<times> scratchpad_chip" where
  "chip_step b ch = chip_do (chip_phase ch) b ch"

section \<open>What it answers\<close>

lemma and_ff [simp]: "0xFF AND b = b" "b AND 0xFF = b" for b :: byte
proof -
  have "(0xFF :: byte) = - 1" by simp
  then show "0xFF AND b = b" "b AND 0xFF = b" by (simp_all only: and.left_neutral and.right_neutral)
qed

lemma stream_reading:
  assumes "\<And>k ch. chip_phase ch = ph k \<Longrightarrow> chip_step 0xFF ch = (out ch k, ch\<lparr>chip_phase := ph (Suc k)\<rparr>)"
    and "\<And>k ch p. out (ch\<lparr>chip_phase := p\<rparr>) k = out ch k" and "chip_phase ch = ph k"
  shows "stream chip_step (replicate n 0xFF) ch = (map (out ch) [k..<k + n], ch\<lparr>chip_phase := ph (k + n)\<rparr>)"
  using assms(3)
proof (induction n arbitrary: k ch)
  case 0
  then show ?case by simp
next
  case (Suc n)
  have "out (ch\<lparr>chip_phase := ph (Suc k)\<rparr>) = out ch" by (rule ext) (rule assms(2))
  then show ?case using Suc.IH [of "ch\<lparr>chip_phase := ph (Suc k)\<rparr>" "Suc k"] assms(1) [OF Suc.prems]
    by (simp add: upt_conv_Cons del: upt_Suc)
qed

lemma stream_write_data:
  assumes "chip_phase ch = Write_data i" and "i + length xs \<le> 32" and "xs \<noteq> []" and "length (scratch ch) = 32"
  shows "stream chip_step xs ch = (xs, ch\<lparr>scratch := patch i xs (scratch ch), es := of_nat (i + length xs - 1),
    heard := heard ch @ xs,
    chip_phase := (if i + length xs < 32 then Write_data (i + length xs) else if crc_sent ch then Write_crc 0 else Off)\<rparr>)"
  using assms
proof (induction xs arbitrary: i ch)
  case (Cons b bs)
  have upd: "(scratch ch)[i := b] = patch i [b] (scratch ch)" using Cons.prems by (intro list_update_patch) simp
  show ?case
  proof (cases "bs = []")
    case True
    with Cons.prems upd show ?thesis by (simp add: chip_step_def)
  next
    case False
    let ?ch = "ch\<lparr>scratch := patch i [b] (scratch ch), es := of_nat i, heard := heard ch @ [b], chip_phase := Write_data (Suc i)\<rparr>"
    have "Suc i < 32" using Cons.prems False by (cases bs) auto
    then have step: "chip_step b ch = (b, ?ch)" using Cons.prems upd by (simp add: chip_step_def)
    have "patch (Suc i) bs (patch i [b] (scratch ch)) = patch i (b # bs) (scratch ch)"
      using patch_append [of i "[b]" bs "scratch ch"] Cons.prems by simp
    then show ?thesis using Cons.IH [of ?ch "Suc i"] Cons.prems False step by simp
  qed
qed simp

lemma unat_low: "unat (of_nat a :: byte) = a mod 256"
  by (simp add: unat_of_nat)

lemma unat_high: "a < 65536 \<Longrightarrow> unat (of_nat (a div 256) :: byte) = a div 256"
  by (simp add: unat_of_nat)

lemma mod_mod_32 [simp]: "a mod 256 mod 32 = a mod (32 :: nat)"
  by (rule mod_mod_cancel) simp

lemma stream_write_address:
  "stream chip_step (0x0F # LOW_HIGH_ADDRESS a) (chip_start ch) =
     (0x0F # LOW_HIGH_ADDRESS a, ch\<lparr>heard := 0x0F # LOW_HIGH_ADDRESS a, ta1 := of_nat a, ta2 := of_nat (a div 256),
        chip_phase := Write_data (a mod 32)\<rparr>)"
  by (simp add: LOW_HIGH_ADDRESS_def chip_step_def chip_start_def chip_command_def unat_low)

lemma stream_read_memory:
  assumes "copy_command ch \<noteq> 0xF0" and "a < 65536" and "a + n \<le> length (memory ch)"
  shows "stream chip_step (0xF0 # LOW_HIGH_ADDRESS a) (chip_start ch) = (0xF0 # LOW_HIGH_ADDRESS a,
      ch\<lparr>heard := [0xF0], ta1 := of_nat a, ta2 := of_nat (a div 256), chip_phase := Read_data a\<rparr>)"
    and "chip_phase ch' = Read_data a \<Longrightarrow> memory ch' = memory ch \<Longrightarrow>
      stream chip_step (replicate n 0xFF) ch' = (take n (drop a (memory ch)), ch'\<lparr>chip_phase := Read_data (a + n)\<rparr>)"
proof -
  show "stream chip_step (0xF0 # LOW_HIGH_ADDRESS a) (chip_start ch) = (0xF0 # LOW_HIGH_ADDRESS a,
      ch\<lparr>heard := [0xF0], ta1 := of_nat a, ta2 := of_nat (a div 256), chip_phase := Read_data a\<rparr>)"
    using assms(1,2) by (simp add: LOW_HIGH_ADDRESS_def chip_step_def chip_start_def chip_command_def unat_low unat_high)
next
  assume ch': "chip_phase ch' = Read_data a" "memory ch' = memory ch"
  have "map (memory_out ch') [a..<a + n] = take n (drop a (memory ch))"
    using assms(3) by (intro nth_equalityI) (simp_all add: memory_out_def ch'(2))
  with stream_reading [of Read_data memory_out ch' a n] ch'(1)
  show "stream chip_step (replicate n 0xFF) ch' = (take n (drop a (memory ch)), ch'\<lparr>chip_phase := Read_data (a + n)\<rparr>)"
    by (simp add: chip_step_def memory_out_def)
qed

text \<open>The scratchpad holds \<open>xs\<close>, to go to the address \<open>a\<close>.\<close>

definition filled :: "nat \<Rightarrow> byte list \<Rightarrow> scratchpad_chip \<Rightarrow> bool" where
  "filled a xs ch \<longleftrightarrow> ta1 ch = of_nat a \<and> ta2 ch = of_nat (a div 256) \<and> es ch = of_nat (a mod 32 + length xs - 1)
     \<and> take (length xs) (drop (a mod 32) (scratch ch)) = xs \<and> length (scratch ch) = 32
     \<and> a < 65536 \<and> xs \<noteq> [] \<and> a mod 32 + length xs \<le> 32"

lemma filled_target:
  assumes "filled a xs ch"
  shows "target ch = a"
proof -
  have "a < 65536" and "target ch = a mod 256 + 256 * unat (of_nat (a div 256) :: byte)"
    using assms by (simp_all add: filled_def target_def unat_low)
  then show ?thesis by (simp only: unat_high) simp
qed

lemma filled_nth:
  assumes "filled a xs ch" and "i < length xs"
  shows "scratch ch ! (a mod 32 + i) = xs ! i"
proof -
  have xs: "take (length xs) (drop (a mod 32) (scratch ch)) = xs" and len: "a mod 32 + length xs \<le> length (scratch ch)"
    using assms(1) by (simp_all add: filled_def)
  have "xs ! i = take (length xs) (drop (a mod 32) (scratch ch)) ! i" by (simp only: xs)
  then show ?thesis using assms(2) len by simp
qed

lemma filled_es:
  assumes "filled a xs ch"
  shows "unat (es ch) + 1 - a mod 32 = length xs"
proof -
  have "unat (of_nat n :: byte) = n" if "n < 32" for n using that by (simp add: unat_of_nat)
  moreover have "es ch = of_nat (a mod 32 + length xs - 1)" "a mod 32 + length xs - 1 < 32" "0 < length xs"
    using assms by (auto simp: filled_def)
  ultimately show ?thesis by (simp del: of_nat_diff of_nat_add)
qed

lemma stream_read_scratch:
  assumes "filled a xs ch"
  shows "stream chip_step [0xAA] (chip_start ch) = ([0xAA], ch\<lparr>heard := [0xAA], chip_phase := Read_scratch 0\<rparr>)"
    and "stream chip_step (replicate (3 + length xs) 0xFF) (ch\<lparr>heard := [0xAA], chip_phase := Read_scratch 0\<rparr>) =
      (LOW_HIGH_ADDRESS a @ es ch # xs, ch\<lparr>heard := [0xAA], chip_phase := Read_scratch (3 + length xs)\<rparr>)"
proof -
  show "stream chip_step [0xAA] (chip_start ch) = ([0xAA], ch\<lparr>heard := [0xAA], chip_phase := Read_scratch 0\<rparr>)"
    by (simp add: chip_step_def chip_start_def chip_command_def)
next
  let ?ch = "ch\<lparr>heard := [0xAA], chip_phase := Read_scratch 0\<rparr>"
  have "map (scratch_out ?ch) [3..<3 + length xs] = take (length xs) (drop (a mod 32) (scratch ch))"
    using filled_target [OF assms] filled_nth [OF assms] assms
    by (intro nth_equalityI) (auto simp: scratch_out_def filled_def target_def)
  then have "map (scratch_out ?ch) [0..<0 + (3 + length xs)] = LOW_HIGH_ADDRESS a @ es ch # xs"
    using assms upt_add_eq_append [of 0 3 "length xs"]
    by (simp add: filled_def scratch_out_def LOW_HIGH_ADDRESS_def upt_rec numeral_3_eq_3)
  with stream_reading [of Read_scratch scratch_out ?ch 0 "3 + length xs"]
  show "stream chip_step (replicate (3 + length xs) 0xFF) ?ch =
      (LOW_HIGH_ADDRESS a @ es ch # xs, ch\<lparr>heard := [0xAA], chip_phase := Read_scratch (3 + length xs)\<rparr>)"
    by (simp add: chip_step_def scratch_out_def target_def)
qed

lemma stream_copy:
  assumes "filled a xs ch" and "copy_command ch \<notin> {0x0F, 0xAA}"
  shows "stream chip_step (copy_command ch # LOW_HIGH_ADDRESS a @ [es ch]) (chip_start ch) =
    (copy_command ch # LOW_HIGH_ADDRESS a @ [es ch],
     ch\<lparr>memory := patch a xs (memory ch), heard := [copy_command ch], chip_phase := Off\<rparr>)"
proof -
  have "take (unat (es ch) + 1 - a mod 32) (drop (a mod 32) (scratch ch)) = xs"
    unfolding filled_es [OF assms(1)] using assms(1) by (simp add: filled_def)
  then show ?thesis using assms filled_target [OF assms(1)]
    by (simp add: LOW_HIGH_ADDRESS_def chip_step_def chip_start_def chip_command_def filled_def chip_copy_def target_def Let_def)
qed

section \<open>Conversations with it\<close>

lemma RETURN_good: "RETURN_BAD_IF_BAD (Some (0, st)) rest = rest st"
  by (simp add: RETURN_BAD_IF_BAD_def)

lemma mem_read_inside:
  "a \<le> b \<Longrightarrow> b + n \<le> a + length xs \<Longrightarrow> mem_read (mem_write a xs m) b n = take n (drop (b - a) xs)"
  by (rule nth_equalityI) (auto simp: mem_read_def mem_write_def)

lemma mem_read_add: "mem_read m a (n + k) = mem_read m a n @ mem_read m (a + n) k"
  using upt_add_eq_append [of a "a + n" k] by (simp add: mem_read_def add.assoc)

definition apart :: "nat \<Rightarrow> nat \<Rightarrow> nat \<Rightarrow> bool" where
  "apart p a n \<longleftrightarrow> a + n \<le> p \<or> p + 37 \<le> a"

text \<open>All that is written lies in the local array of the driver, of at most 37 bytes.\<close>

definition untouched :: "nat \<Rightarrow> (nat \<Rightarrow> byte) \<Rightarrow> (nat \<Rightarrow> byte) \<Rightarrow> bool" where
  "untouched p m m' \<longleftrightarrow> (\<forall>x. x < p \<or> p + 37 \<le> x \<longrightarrow> m' x = m x)"

definition same_kind :: "scratchpad_chip \<Rightarrow> scratchpad_chip \<Rightarrow> bool" where
  "same_kind ch ch' \<longleftrightarrow> copy_command ch' = copy_command ch \<and> crc_sent ch' = crc_sent ch \<and> length (scratch ch') = length (scratch ch)"

lemma untouched_write [simp]: "p \<le> a \<Longrightarrow> a + length xs \<le> p + 37 \<Longrightarrow> untouched p m (mem_write a xs m') = untouched p m m'"
  by (auto simp: untouched_def mem_write_def)

lemma untouched_refl [simp]: "untouched p m m"
  by (simp add: untouched_def)

lemma untouched_trans: "untouched p m m' \<Longrightarrow> untouched p m' m'' \<Longrightarrow> untouched p m m''"
  by (auto simp: untouched_def)

lemma untouched_read: "untouched p m m' \<Longrightarrow> apart p a n \<Longrightarrow> mem_read m' a n = mem_read m a n"
  by (auto simp: untouched_def apart_def mem_read_def)

lemma same_kind_trans: "same_kind ch ch' \<Longrightarrow> same_kind ch' ch'' \<Longrightarrow> same_kind ch ch''"
  by (simp add: same_kind_def)

lemma reread_converse:
  assumes "filled a xs ch" and "mem_read m p 1 = [0xAA]" and "mem_read m data (length xs) = xs" and "apart p data (length xs)"
    and "cmp = TRXN_COMPARE data (p + 4) (length xs) \<or> cmp = TRXN_COMPARE (p + 4) data (length xs)"
  shows "converse chip_step [TRXN_WRITE p 1, TRXN_READ (p + 1) (3 + length xs), cmp] (m, chip_start ch) =
    Some (mem_write (p + 1) (LOW_HIGH_ADDRESS a @ es ch # xs) m, ch\<lparr>heard := [0xAA], chip_phase := Read_scratch (3 + length xs)\<rparr>)"
proof -
  let ?m = "mem_write (p + 1) (LOW_HIGH_ADDRESS a @ es ch # xs) m"
  have "length xs \<le> 32" using assms(1) by (simp add: filled_def)
  then have "untouched p m ?m" by (simp add: LOW_HIGH_ADDRESS_def)
  then have "mem_read ?m data (length xs) = xs" using untouched_read assms(3,4) by metis
  moreover have "mem_read ?m (p + 4) (length xs) = xs"
    by (subst mem_read_inside) (simp_all add: LOW_HIGH_ADDRESS_def)
  ultimately show ?thesis using assms(2,5) stream_read_scratch [OF assms(1)]
    by (auto simp: trxn_macros Let_def)
qed

lemma copy_converse:
  assumes "filled a xs ch" and "mem_read m p 4 = copy_command ch # LOW_HIGH_ADDRESS a @ [es ch]"
    and "copy_command ch \<notin> {0x0F, 0xAA}" and "tail = [] \<or> tail = [TRXN_DELAY n]"
  shows "converse chip_step (TRXN_WRITE p 4 # tail) (m, chip_start ch) =
    Some (m, ch\<lparr>memory := patch a xs (memory ch), heard := [copy_command ch], chip_phase := Off\<rparr>)"
  using assms(2,4) stream_copy [OF assms(1,3)] by (auto simp: trxn_entries Let_def)

text \<open>The chip after a page has been written to its scratchpad.\<close>

definition addressed :: "nat \<Rightarrow> scratchpad_chip \<Rightarrow> scratchpad_chip" where
  "addressed a ch = ch\<lparr>heard := 0x0F # LOW_HIGH_ADDRESS a, ta1 := of_nat a, ta2 := of_nat (a div 256), chip_phase := Write_data (a mod 32)\<rparr>"

definition filled_chip :: "nat \<Rightarrow> byte list \<Rightarrow> scratchpad_chip \<Rightarrow> scratchpad_chip" where
  "filled_chip a xs ch = ch\<lparr>heard := 0x0F # LOW_HIGH_ADDRESS a @ xs, ta1 := of_nat a, ta2 := of_nat (a div 256),
     scratch := patch (a mod 32) xs (scratch ch), es := of_nat (a mod 32 + length xs - 1),
     chip_phase := (if a mod 32 + length xs < 32 then Write_data (a mod 32 + length xs)
                    else if crc_sent ch then Write_crc 0 else Off)\<rparr>"

lemma stream_fill:
  assumes "a mod 32 + length xs \<le> 32" and "xs \<noteq> []" and "length (scratch ch) = 32"
  shows "stream chip_step (0x0F # LOW_HIGH_ADDRESS a) (chip_start ch) = (0x0F # LOW_HIGH_ADDRESS a, addressed a ch)"
    and "stream chip_step xs (addressed a ch) = (xs, filled_chip a xs ch)"
    and "stream chip_step (0x0F # LOW_HIGH_ADDRESS a @ xs) (chip_start ch) = (0x0F # LOW_HIGH_ADDRESS a @ xs, filled_chip a xs ch)"
proof -
  show 1: "stream chip_step (0x0F # LOW_HIGH_ADDRESS a) (chip_start ch) = (0x0F # LOW_HIGH_ADDRESS a, addressed a ch)"
    unfolding addressed_def by (rule stream_write_address)
  show 2: "stream chip_step xs (addressed a ch) = (xs, filled_chip a xs ch)"
    using stream_write_data [of "addressed a ch" "a mod 32" xs] assms by (simp add: addressed_def filled_chip_def)
  show "stream chip_step (0x0F # LOW_HIGH_ADDRESS a @ xs) (chip_start ch) = (0x0F # LOW_HIGH_ADDRESS a @ xs, filled_chip a xs ch)"
    using stream_append [of chip_step "0x0F # LOW_HIGH_ADDRESS a" xs "chip_start ch"] 1 2
    by (metis append_Cons fst_conv prod.collapse snd_conv)
qed

lemma filled_chip:
  assumes "a mod 32 + length xs \<le> 32" and "xs \<noteq> []" and "length (scratch ch) = 32" and "a < 65536"
  shows "filled a xs (filled_chip a xs ch)" and "memory (filled_chip a xs ch) = memory ch" and "same_kind ch (filled_chip a xs ch)"
  using assms patch_slice [of "a mod 32" xs "scratch ch"] by (simp_all add: filled_def filled_chip_def same_kind_def)

lemma crc16_of_heard:
  "CRC16compute (bs @ [ucast (NOT (crc16_ref bs 0)), ucast (drop_bit 8 (NOT (crc16_ref bs 0)))]) 0 = 0xB001"
  using crc16_residue [of "crc16_ref bs 0"] CRC16compute_ucast [of _ 0]
  by (simp add: crc16_ref_append crc16_ref_Cons) (simp add: crc16_ref_def)

lemma stream_crc:
  assumes "chip_phase ch = Write_crc 0"
  shows "stream chip_step (replicate 2 0xFF) ch =
    ([ucast (NOT (crc16_ref (heard ch) 0)), ucast (drop_bit 8 (NOT (crc16_ref (heard ch) 0)))], ch\<lparr>chip_phase := Write_crc 2\<rparr>)"
  using stream_reading [of Write_crc crc_out ch 0 2] assms by (simp add: chip_step_def crc_out_def Let_def upt_rec numeral_2_eq_2)

text \<open>Filling the scratchpad from an array that holds the command, the address and the data, with the check sum at the end
  of a page.\<close>

lemma fill_converse:
  assumes "a mod 32 + length xs \<le> 32" and "xs \<noteq> []" and "length (scratch ch) = 32"
    and m: "mem_read m p (3 + length xs) = 0x0F # LOW_HIGH_ADDRESS a @ xs"
    and tail: "if (a + length xs) mod 32 \<noteq> 0 then list_all (\<lambda>t. t_type t = trxn_nop) tail
      else crc_sent ch \<and> tail = [TRXN_READ (p + (3 + length xs)) 2, TRXN_CRC16 p (3 + length xs + 2)]"
  shows "\<exists>m' ph. converse chip_step (TRXN_WRITE p (3 + length xs) # tail) (m, chip_start ch) =
    Some (m', filled_chip a xs ch\<lparr>chip_phase := ph\<rparr>) \<and> untouched p m m'"
proof -
  let ?cmd = "0x0F # LOW_HIGH_ADDRESS a @ xs" and ?ch = "filled_chip a xs ch"
  have idle: "list_all (\<lambda>t. t_type t = trxn_nop) tl' \<Longrightarrow> converse chip_step tl' s = Some s" for tl' s
    by (cases s, induction tl') (auto simp: Let_def)
  have first: "converse chip_step (TRXN_WRITE p (3 + length xs) # tail) (m, chip_start ch) = converse chip_step tail (m, ?ch)"
    using stream_fill(3) [OF assms(1-3)] m by (simp add: trxn_macros Let_def del: stream.simps)
  show ?thesis
  proof (cases "(a + length xs) mod 32 = 0")
    case False
    then show ?thesis using first idle [of tail] tail by (intro exI [of _ m] exI [of _ "chip_phase ?ch"]) simp
  next
    case True
    let ?crc = "[ucast (NOT (crc16_ref ?cmd 0)), ucast (drop_bit 8 (NOT (crc16_ref ?cmd 0)))]"
    let ?m = "mem_write (p + (3 + length xs)) ?crc m"
    have "a mod 32 + length xs = 32"
    proof -
      have "(a mod 32 + length xs) mod 32 = 0" using True by (simp add: mod_add_left_eq)
      moreover have "0 < length xs" using assms(2) by simp
      ultimately show ?thesis using assms(1) by (metis add_gr_0 le_neq_implies_less mod_less not_less0)
    qed
    then have "chip_phase ?ch = Write_crc 0" "heard ?ch = ?cmd" using tail True by (simp_all add: filled_chip_def)
    then have read: "stream chip_step (replicate 2 0xFF) ?ch = (?crc, ?ch\<lparr>chip_phase := Write_crc 2\<rparr>)"
      using stream_crc [of ?ch] by simp
    have "mem_read ?m p (3 + length xs + 2) = ?cmd @ ?crc"
      unfolding mem_read_add [of _ _ "3 + length xs"] by (simp add: mem_read_inside mem_read_disjoint m [symmetric])
    then have "CRC16compute (mem_read ?m p (3 + length xs + 2)) 0 = 0xB001" by (simp only: crc16_of_heard)
    then have "converse chip_step tail (m, ?ch) = Some (?m, ?ch\<lparr>chip_phase := Write_crc 2\<rparr>)"
      using read tail True by (simp add: trxn_entries Let_def del: stream.simps replicate.simps)
    moreover have "untouched p m ?m" using assms(1) by simp
    ultimately show ?thesis using first by auto
  qed
qed

locale chip_bus = slave_bus d pn slave usable selected chip_step chip_start
  for d :: "'b driver" and pn :: bus_pn and slave :: "'b connection_in \<Rightarrow> scratchpad_chip"
    and usable :: "'b connection_in \<Rightarrow> bool" and selected :: "'b connection_in \<Rightarrow> bool"
begin

text \<open>The two last steps of every driver: reading the scratchpad back and copying it.\<close>

lemma scratch_to_memory:
  assumes st: "reached st (m, ch) al" and fill: "filled a xs ch" and data: "mem_read m data (length xs) = xs"
    and apart: "apart (d_frame d) data (length xs)" and copy: "copy_command ch \<notin> {0x0F, 0xAA}"
    and cmp: "cmp = TRXN_COMPARE data (d_frame d + 4) (length xs) \<or> cmp = TRXN_COMPARE (d_frame d + 4) data (length xs)"
    and tail: "tail = [] \<or> tail = [TRXN_DELAY n]"
  shows "\<exists>st' m' ch'. RETURN_BAD_IF_BAD
      (transact d [TRXN_START, TRXN_WRITE (d_frame d) 1, TRXN_READ (d_frame d + 1) (3 + length xs), cmp, TRXN_END] pn
        (store (d_frame d) [0xAA] st))
      (\<lambda>st. transact d (TRXN_START # TRXN_WRITE (d_frame d) 4 # tail @ [TRXN_END]) pn (store (d_frame d) [copy_command ch] st))
      = Some (0, st')
    \<and> reached st' (m', ch') al \<and> memory ch' = patch a xs (memory ch) \<and> same_kind ch ch' \<and> untouched (d_frame d) m m'"
proof -
  let ?p = "d_frame d"
  let ?m1 = "mem_write ?p [0xAA] m" and ?ch1 = "ch\<lparr>heard := [0xAA], chip_phase := Read_scratch (3 + length xs)\<rparr>"
  let ?m2 = "mem_write (?p + 1) (LOW_HIGH_ADDRESS a @ es ch # xs) ?m1"
  let ?m3 = "mem_write ?p [copy_command ch] ?m2"
  have len: "length xs \<le> 32" using fill by (simp add: filled_def)
  have small: "length (LOW_HIGH_ADDRESS a) = 2" by (simp add: LOW_HIGH_ADDRESS_def)
  have st1: "reached (store ?p [0xAA] st) (?m1, ch) al" using st by (simp add: reached_def store_def)
  have "mem_read ?m1 data (length xs) = xs" using data untouched_read [of ?p m ?m1 data "length xs"] apart by simp
  with reread_converse [OF fill, of ?m1 ?p data cmp] cmp apart
  have conv: "converse chip_step [TRXN_WRITE ?p 1, TRXN_READ (?p + 1) (3 + length xs), cmp] (?m1, chip_start ch) = Some (?m2, ?ch1)"
    by (simp add: mem_read_inside del: converse.simps)
  have "list_all talk_entry [TRXN_WRITE ?p 1, TRXN_READ (?p + 1) (3 + length xs), cmp]"
    using cmp by (auto simp: talk_entry_def trxn_macros)
  from talk [OF st1 this refl] conv obtain st2 where
    t2: "transact d [TRXN_START, TRXN_WRITE ?p 1, TRXN_READ (?p + 1) (3 + length xs), cmp, TRXN_END] pn (store ?p [0xAA] st) = Some (0, st2)"
    and st2: "reached st2 (?m2, ?ch1) al" by auto
  have st3: "reached (store ?p [copy_command ch] st2) (?m3, ?ch1) al" using st2 by (simp add: reached_def store_def)
  have fill1: "filled a xs ?ch1" using fill by (simp add: filled_def)
  have "mem_read ?m3 ?p (1 + 3) = copy_command ch # LOW_HIGH_ADDRESS a @ [es ch]"
    unfolding mem_read_add by (simp add: mem_read_inside mem_read_disjoint small)
  then have "converse chip_step (TRXN_WRITE ?p 4 # tail) (?m3, chip_start ?ch1) =
      Some (?m3, ?ch1\<lparr>memory := patch a xs (memory ch), heard := [copy_command ch], chip_phase := Off\<rparr>)"
    using copy_converse [OF fill1, of ?m3 ?p tail n] copy tail by simp
  moreover have "list_all talk_entry (TRXN_WRITE ?p 4 # tail)" using tail by (auto simp: talk_entry_def trxn_entries)
  ultimately obtain st4 where
    "transact d (TRXN_START # TRXN_WRITE ?p 4 # tail @ [TRXN_END]) pn (store ?p [copy_command ch] st2) = Some (0, st4)"
    "reached st4 (?m3, ?ch1\<lparr>memory := patch a xs (memory ch), heard := [copy_command ch], chip_phase := Off\<rparr>) al"
    using talk [OF st3, of "TRXN_WRITE ?p 4 # tail" "TRXN_START # TRXN_WRITE ?p 4 # tail @ [TRXN_END]"] by auto
  moreover have "untouched ?p m ?m3" using len by (simp add: small)
  ultimately show ?thesis using t2
    by (intro exI [of _ st4] exI [of _ ?m3] exI [of _ "?ch1\<lparr>memory := patch a xs (memory ch), heard := [copy_command ch], chip_phase := Off\<rparr>"] conjI)
      (simp_all add: RETURN_BAD_IF_BAD_def same_kind_def)
qed

text \<open>Filling the scratchpad, from one buffer or from two.\<close>

definition page_ok :: "nat \<Rightarrow> nat \<Rightarrow> nat \<Rightarrow> scratchpad_chip \<Rightarrow> bool" where
  "page_ok data len offset ch \<longleftrightarrow> 0 < len \<and> offset mod 32 + len \<le> 32 \<and> offset < 65536 \<and> length (scratch ch) = 32
     \<and> apart (d_frame d) data len"

definition page_in_scratch :: "'b trx_state \<Rightarrow> (nat \<Rightarrow> byte) \<Rightarrow> scratchpad_chip \<Rightarrow> nat \<Rightarrow> nat \<Rightarrow> nat \<Rightarrow> bool list \<Rightarrow> bool" where
  "page_in_scratch st m ch data len offset al \<longleftrightarrow>
     (\<exists>m' ch'. reached st (m', ch') al \<and> filled offset (mem_read m data len) ch' \<and> memory ch' = memory ch
        \<and> same_kind ch ch' \<and> untouched (d_frame d) m m')"

lemma page_in_scratchI:
  assumes "reached st (m', filled_chip offset (mem_read m data len) ch\<lparr>chip_phase := ph\<rparr>) al" and "page_ok data len offset ch"
    and "untouched (d_frame d) m m'"
  shows "page_in_scratch st m ch data len offset al"
proof -
  let ?xs = "mem_read m data len"
  have "offset mod 32 + length ?xs \<le> 32" "?xs \<noteq> []" "length (scratch ch) = 32" "offset < 65536"
    using assms(2) length_mem_read [of m data len] by (auto simp: page_ok_def simp del: length_mem_read)
  from filled_chip [OF this] assms(1,3) show ?thesis
    unfolding page_in_scratch_def
    by (intro exI [of _ m'] exI [of _ "filled_chip offset ?xs ch\<lparr>chip_phase := ph\<rparr>"])
      (simp add: filled_def same_kind_def)
qed

lemma fill_1993:
  assumes st: "reached st (m, ch) al" and ok: "page_ok data len offset ch"
  shows "\<exists>st'. transact d [TRXN_START, TRXN_WRITE (d_frame d) 3, TRXN_WRITE data len, TRXN_END] pn
      (store (d_frame d) (0x0F # LOW_HIGH_ADDRESS offset @ replicate 33 0) st) = Some (0, st')
    \<and> page_in_scratch st' m ch data len offset al"
proof -
  let ?p = "d_frame d" and ?xs = "mem_read m data len"
  let ?m1 = "mem_write ?p (0x0F # LOW_HIGH_ADDRESS offset @ replicate 33 0) m"
  let ?ts = "[TRXN_WRITE ?p 3, TRXN_WRITE data len]"
  have small: "length (LOW_HIGH_ADDRESS offset) = 2" by (simp add: LOW_HIGH_ADDRESS_def)
  have touch: "untouched ?p m ?m1" by (simp add: small)
  then have data: "mem_read ?m1 data len = ?xs" using untouched_read ok by (simp add: page_ok_def)
  have head: "mem_read ?m1 ?p 3 = 0x0F # LOW_HIGH_ADDRESS offset" by (simp add: mem_read_inside small)
  have "offset mod 32 + length ?xs \<le> 32" "?xs \<noteq> []" "length (scratch ch) = 32"
    using ok length_mem_read [of m data len] by (auto simp: page_ok_def simp del: length_mem_read)
  from stream_fill [OF this]
  have "converse chip_step ?ts (?m1, chip_start ch) = Some (?m1, filled_chip offset ?xs ch)"
    by (simp add: trxn_macros Let_def head data del: stream.simps)
  moreover have "reached (store ?p (0x0F # LOW_HIGH_ADDRESS offset @ replicate 33 0) st) (?m1, ch) al"
    using st by (simp add: reached_def store_def)
  moreover have "list_all talk_entry ?ts" by (simp add: talk_entry_def trxn_macros)
  ultimately obtain st' where "transact d [TRXN_START, TRXN_WRITE ?p 3, TRXN_WRITE data len, TRXN_END] pn
      (store ?p (0x0F # LOW_HIGH_ADDRESS offset @ replicate 33 0) st) = Some (0, st')"
      "reached st' (?m1, filled_chip offset ?xs ch) al"
    using talk [of _ ?m1 ch al ?ts "[TRXN_START, TRXN_WRITE ?p 3, TRXN_WRITE data len, TRXN_END]"] by fastforce
  then show ?thesis using page_in_scratchI [where m' = ?m1 and m = m and ch = ch and ph = "chip_phase (filled_chip offset ?xs ch)"] ok touch by simp
qed

lemma fill_array:
  assumes st: "reached st (m, ch) al" and ok: "page_ok data len offset ch"
    and st0: "st0 = store (d_frame d) (0x0F # LOW_HIGH_ADDRESS offset @ replicate 34 0) st"
    and tail: "if (offset + len) mod 32 \<noteq> 0 then list_all (\<lambda>t. t_type t = trxn_nop) tail
      else crc_sent ch \<and> tail = [TRXN_READ (d_frame d + (3 + len)) 2, TRXN_CRC16 (d_frame d) (3 + len + 2)]"
  shows "\<exists>st'. transact d (TRXN_START # TRXN_WRITE (d_frame d) (3 + len) # tail @ [TRXN_END]) pn
      (store (d_frame d + 3) (fetch data len st0) st0) = Some (0, st') \<and> page_in_scratch st' m ch data len offset al"
proof -
  let ?p = "d_frame d" and ?xs = "mem_read m data len"
  let ?m1 = "mem_write ?p (0x0F # LOW_HIGH_ADDRESS offset @ replicate 34 0) m"
  let ?m2 = "mem_write (?p + 3) ?xs ?m1" and ?ts = "TRXN_WRITE ?p (3 + len) # tail"
  have small: "length (LOW_HIGH_ADDRESS offset) = 2" by (simp add: LOW_HIGH_ADDRESS_def)
  have len: "len \<le> 32" using ok by (simp add: page_ok_def)
  have touch: "untouched ?p m ?m1" by (simp add: small)
  then have "mem_read ?m1 data len = ?xs" using untouched_read ok by (simp add: page_ok_def)
  then have start: "reached (store (?p + 3) (fetch data len st0) st0) (?m2, ch) al"
    using st by (simp add: reached_def store_def fetch_def st0)
  have touch2: "untouched ?p m ?m2" using touch len by simp
  have "mem_read ?m2 ?p (3 + len) = 0x0F # LOW_HIGH_ADDRESS offset @ ?xs"
    unfolding mem_read_add by (simp add: mem_read_inside mem_read_disjoint small)
  moreover have "offset mod 32 + len \<le> 32" "?xs \<noteq> []" "length (scratch ch) = 32"
    using ok length_mem_read [of m data len] by (auto simp: page_ok_def simp del: length_mem_read)
  ultimately obtain m' ph where conv: "converse chip_step ?ts (?m2, chip_start ch) = Some (m', filled_chip offset ?xs ch\<lparr>chip_phase := ph\<rparr>)"
      "untouched ?p ?m2 m'"
    using fill_converse [of offset ?xs ch ?m2 ?p tail, unfolded length_mem_read] tail by auto
  have "list_all talk_entry ?ts"
    using tail by (auto simp: talk_entry_def trxn_entries list_all_iff split: if_splits)
  with talk [OF start, of ?ts "TRXN_START # ?ts @ [TRXN_END]"] conv(1) obtain st' where
    "transact d (TRXN_START # ?ts @ [TRXN_END]) pn (store (?p + 3) (fetch data len st0) st0) = Some (0, st')"
    "reached st' (m', filled_chip offset ?xs ch\<lparr>chip_phase := ph\<rparr>) al" by (auto simp del: converse.simps)
  then show ?thesis using page_in_scratchI ok untouched_trans [OF touch2 conv(2)] by auto
qed

text \<open>The rest of the drivers that copy by the command \<open>code\<close>.\<close>

lemma write_page:
  assumes "page_in_scratch st m ch data len offset al" and ok: "page_ok data len offset ch"
    and code: "copy_command ch = code" "code \<notin> {0x0F, 0xAA}"
    and cmp: "cmp = TRXN_COMPARE data (d_frame d + 4) len \<or> cmp = TRXN_COMPARE (d_frame d + 4) data len"
    and tail: "tail = [] \<or> tail = [TRXN_DELAY n]"
  shows "\<exists>st' m' ch'. RETURN_BAD_IF_BAD
      (transact d [TRXN_START, TRXN_WRITE (d_frame d) 1, TRXN_READ (d_frame d + 1) (3 + len), cmp, TRXN_END] pn
        (store (d_frame d) [0xAA] st))
      (\<lambda>st. transact d (TRXN_START # TRXN_WRITE (d_frame d) 4 # tail @ [TRXN_END]) pn (store (d_frame d) [code] st))
      = Some (0, st')
    \<and> reached st' (m', ch') al \<and> memory ch' = patch offset (mem_read m data len) (memory ch) \<and> same_kind ch ch'
    \<and> untouched (d_frame d) m m'"
proof -
  obtain m1 ch1 where fill: "reached st (m1, ch1) al" "filled offset (mem_read m data len) ch1"
      "memory ch1 = memory ch" "same_kind ch ch1" "untouched (d_frame d) m m1"
    using assms(1) by (auto simp: page_in_scratch_def)
  have ap: "apart (d_frame d) data len" using ok by (simp add: page_ok_def)
  have data: "mem_read m1 data len = mem_read m data len" using untouched_read fill(5) ap by blast
  have cc: "copy_command ch1 = code" using fill(4) code by (simp add: same_kind_def)
  from scratch_to_memory [OF fill(1,2), of data cmp tail n] ap data cc code(2) cmp tail fill(3)
  show ?thesis using same_kind_trans [OF fill(4)] untouched_trans [OF fill(5)] by (simp del: append.simps) metis
qed

lemma write_page_1993:
  assumes "reached st (m, ch) al" and ok: "page_ok data len offset ch" and "copy_command ch = 0x55"
  shows "\<exists>st' m' ch'. OW_w_mem_1993 d data len offset pn st = Some (0, st') \<and> reached st' (m', ch') al
    \<and> memory ch' = patch offset (mem_read m data len) (memory ch) \<and> same_kind ch ch' \<and> untouched (d_frame d) m m'"
proof -
  obtain st1 where fill: "transact d [TRXN_START, TRXN_WRITE (d_frame d) 3, TRXN_WRITE data len, TRXN_END] pn
        (store (d_frame d) (0x0F # LOW_HIGH_ADDRESS offset @ replicate 33 0) st) = Some (0, st1)"
      "page_in_scratch st1 m ch data len offset al"
    using fill_1993 [OF assms(1) ok] by blast
  have "len \<le> 32" using ok by (simp add: page_ok_def)
  with write_page [OF fill(2) ok assms(3), of "TRXN_COMPARE data (d_frame d + 4) len" "[TRXN_DELAY 32]" 32] fill(1) show ?thesis
    by (simp add: OW_w_mem_1993_def RETURN_good Let_def)
qed

lemma write_page_23:
  assumes "reached st (m, ch) al" and ok: "page_ok data len offset ch" and "copy_command ch = 0x55" and "crc_sent ch"
  shows "\<exists>st' m' ch'. OW_w_23page d data len offset pn st = Some (0, st') \<and> reached st' (m', ch') al
    \<and> memory ch' = patch offset (mem_read m data len) (memory ch) \<and> same_kind ch ch' \<and> untouched (d_frame d) m m'"
proof -
  let ?st = "store (d_frame d) (0x0F # LOW_HIGH_ADDRESS offset @ replicate 34 0) st"
  let ?idle = "\<lambda>t. if (offset + len) mod 32 \<noteq> 0 then t\<lparr>t_type := trxn_nop\<rparr> else t"
  let ?tail = "[?idle (TRXN_READ (d_frame d + (3 + len)) 2), ?idle (TRXN_CRC16 (d_frame d) (3 + len + 2))]"
  have "if (offset + len) mod 32 \<noteq> 0 then list_all (\<lambda>t. t_type t = trxn_nop) ?tail
      else crc_sent ch \<and> ?tail = [TRXN_READ (d_frame d + (3 + len)) 2, TRXN_CRC16 (d_frame d) (3 + len + 2)]"
    using assms(4) by simp
  from fill_array [OF assms(1) ok refl this]
  obtain st1 where fill: "transact d (TRXN_START # TRXN_WRITE (d_frame d) (3 + len) # ?tail @ [TRXN_END]) pn
        (store (d_frame d + 3) (fetch data len ?st) ?st) = Some (0, st1)" "page_in_scratch st1 m ch data len offset al" by blast
  have "(32 < len) = False" using ok by (simp add: page_ok_def)
  then have "OW_w_23page d data len offset pn st = RETURN_BAD_IF_BAD
      (transact d [TRXN_START, TRXN_WRITE (d_frame d) 1, TRXN_READ (d_frame d + 1) (3 + len), TRXN_COMPARE (d_frame d + 4) data len, TRXN_END]
        pn (store (d_frame d) [0xAA] st1))
      (\<lambda>st. transact d (TRXN_START # TRXN_WRITE (d_frame d) 4 # (if hd (pn_sn pn) = 0x23 then [TRXN_DELAY 5] else [TRXN_DELAY 10]) @ [TRXN_END])
        pn (store (d_frame d) [0x55] st))"
    by (simp only: OW_w_23page_def Let_def fill(1) [unfolded append_Cons append_Nil] RETURN_good if_False) simp
  with write_page [OF fill(2) ok assms(3), of "TRXN_COMPARE (d_frame d + 4) data len" "[TRXN_DELAY _]"]
  show ?thesis by (cases "hd (pn_sn pn) = 0x23") simp_all
qed

lemma write_page_2423:
  assumes "reached st (m, ch) al" and ok: "page_ok data len offset ch" and "copy_command ch = 0x5A" and "crc_sent ch"
  shows "\<exists>st' m' ch'. OW_w_mem_2423 d data len offset pn st = Some (0, st') \<and> reached st' (m', ch') al
    \<and> memory ch' = patch offset (mem_read m data len) (memory ch) \<and> same_kind ch ch' \<and> untouched (d_frame d) m m'"
proof -
  let ?st = "store (d_frame d) (0x0F # LOW_HIGH_ADDRESS offset @ replicate 34 0) st"
  let ?tail = "if (offset + len) mod 32 \<noteq> 0 then []
    else [TRXN_READ (d_frame d + (3 + len)) 2, TRXN_CRC16 (d_frame d) (3 + len + 2)]"
  let ?reread = "[TRXN_START, TRXN_WRITE (d_frame d) 1, TRXN_READ (d_frame d + 1) (3 + len), TRXN_COMPARE (d_frame d + 4) data len, TRXN_END]"
  have "if (offset + len) mod 32 \<noteq> 0 then list_all (\<lambda>t. t_type t = trxn_nop) ?tail
      else crc_sent ch \<and> ?tail = [TRXN_READ (d_frame d + (3 + len)) 2, TRXN_CRC16 (d_frame d) (3 + len + 2)]"
    using assms(4) by simp
  from fill_array [OF assms(1) ok refl this]
  obtain st1 where fill: "transact d (TRXN_START # TRXN_WRITE (d_frame d) (3 + len) # ?tail @ [TRXN_END]) pn
        (store (d_frame d + 3) (fetch data len ?st) ?st) = Some (0, st1)" "page_in_scratch st1 m ch data len offset al" by blast
  have log: "(if (offset + len) mod 32 \<noteq> 0 then [TRXN_START, TRXN_WRITE (d_frame d) (3 + len), TRXN_END]
      else TRXN_START # TRXN_WR_CRC16 (d_frame d) (3 + len) 0 @ [TRXN_END]) = TRXN_START # TRXN_WRITE (d_frame d) (3 + len) # ?tail @ [TRXN_END]"
    by (simp add: TRXN_WR_CRC16_def numeral_2_eq_2)
  obtain st2 m' ch' where rest: "RETURN_BAD_IF_BAD (transact d ?reread pn (store (d_frame d) [0xAA] st1))
        (\<lambda>st. transact d [TRXN_START, TRXN_WRITE (d_frame d) 4, TRXN_END] pn (store (d_frame d) [0x5A] st)) = Some (0, st2)"
      "reached st2 (m', ch') al" "memory ch' = patch offset (mem_read m data len) (memory ch)" "same_kind ch ch'" "untouched (d_frame d) m m'"
    using write_page [OF fill(2) ok assms(3), of "TRXN_COMPARE (d_frame d + 4) data len" "[]"] by auto
  have "(32 < len) = False" using ok by (simp add: page_ok_def)
  then have "OW_w_mem_2423 d data len offset pn st =
      RETURN_BAD_IF_BAD (transact d ?reread pn (store (d_frame d) [0xAA] st1))
        (\<lambda>st. RETURN_BAD_IF_BAD (transact d [TRXN_START, TRXN_WRITE (d_frame d) 4, TRXN_END] pn (store (d_frame d) [0x5A] st))
          (\<lambda>st. Some (0, st\<lparr>conn := UT_delay 32 (conn st)\<rparr>)))"
    by (simp only: OW_w_mem_2423_def Let_def log fill(1) RETURN_good if_False)
  also have "\<dots> = Some (0, st2\<lparr>conn := UT_delay 32 (conn st2)\<rparr>)"
    using rest(1) by (auto simp: RETURN_BAD_IF_BAD_def split: option.splits if_splits)
  finally show ?thesis
    using rest(2-5) bookkeeping [of "conn st2" "UT_delay 32 (conn st2)"]
    by (intro exI [of _ "st2\<lparr>conn := UT_delay 32 (conn st2)\<rparr>"] exI [of _ m'] exI [of _ ch'])
      (simp add: reached_def UT_delay_def)
qed

text \<open>The driver can start: the chip is on the bus, with the copy command of its family.\<close>

definition chip_ready :: "byte \<Rightarrow> bool \<Rightarrow> 'b trx_state \<Rightarrow> bool" where
  "chip_ready code crc st \<longleftrightarrow> usable (conn st) \<and> copy_command (slave (conn st)) = code \<and> (crc \<longrightarrow> crc_sent (slave (conn st)))
     \<and> length (scratch (slave (conn st))) = 32 \<and> length (memory (slave (conn st))) \<le> 65536"

lemma chip_ready_next:
  assumes "chip_ready code crc st" and "reached st' (m', ch') (allocs st)" and "memory ch' = patch offset xs (memory (slave (conn st)))"
    and "same_kind (slave (conn st)) ch'" and "offset + length xs \<le> length (memory (slave (conn st)))"
  shows "chip_ready code crc st'" and "memory (slave (conn st')) = patch offset xs (memory (slave (conn st)))" and "mem st' = m'"
  using assms by (auto simp: chip_ready_def reached_def same_kind_def)

lemma page_okI:
  assumes "chip_ready code crc st" and "apart (d_frame d) a n" and "0 < n" and "offset mod 32 + n \<le> 32"
    and "offset + n \<le> length (memory (slave (conn st)))"
  shows "page_ok a n offset (slave (conn st))" and "reached st (mem st, slave (conn st)) (allocs st)"
  using assms by (auto simp: page_ok_def chip_ready_def reached_def)

text \<open>The contract of the paging loop, from a page write.\<close>

lemma page_written:
  assumes "chip_ready code crc st" and "apart (d_frame d) a n" and "offset + n \<le> length (memory (slave (conn st)))"
    and "\<exists>st' m' ch'. w = Some (0, st') \<and> reached st' (m', ch') (allocs st)
      \<and> memory ch' = patch offset (mem_read (mem st) a n) (memory (slave (conn st)))
      \<and> same_kind (slave (conn st)) ch' \<and> untouched (d_frame d) (mem st) m'"
  shows "\<exists>st'. w = Some (0, st') \<and> chip_ready code crc st'
    \<and> memory (slave (conn st')) = patch offset (mem_read (mem st) a n) (memory (slave (conn st)))
    \<and> (\<forall>b k. apart (d_frame d) b k \<longrightarrow> mem_read (mem st') b k = mem_read (mem st) b k)"
proof -
  obtain st' m' ch' where w: "w = Some (0, st')" "reached st' (m', ch') (allocs st)"
      "memory ch' = patch offset (mem_read (mem st) a n) (memory (slave (conn st)))"
      "same_kind (slave (conn st)) ch'" "untouched (d_frame d) (mem st) m'" using assms(4) by blast
  with chip_ready_next [OF assms(1) w(2,3,4)] assms(3) show ?thesis
    by (intro exI [of _ st']) (auto simp: untouched_read)
qed

lemma mod_8_32:
  assumes "a mod 8 + n \<le> (8 :: nat)"
  shows "a mod 32 + n \<le> 32"
proof -
  have "a mod 32 = 8 * (a mod 32 div 8) + a mod 32 mod 8" by simp
  also have "a mod 32 mod 8 = a mod 8" by (rule mod_mod_cancel) simp
  finally have "a mod 32 = 8 * (a mod 32 div 8) + a mod 8" .
  moreover have "a mod 32 div 8 < 4" using div_less_iff_less_mult [of 8 "a mod 32" 4] by simp
  ultimately show ?thesis using assms by linarith
qed

end

sublocale chip_bus < w1993: page_writer "\<lambda>a n offset. OW_w_mem_1993 d a n offset pn" 32 "\<lambda>st. memory (slave (conn st))"
  "\<lambda>st. mem_read (mem st)" "apart (d_frame d)" "chip_ready 0x55 False"
proof
  fix st a n offset
  assume ok: "chip_ready 0x55 False st" "apart (d_frame d) a n" "0 < n" "offset mod 32 + n \<le> 32" "offset + n \<le> length (memory (slave (conn st)))"
  then show "\<exists>st'. OW_w_mem_1993 d a n offset pn st = Some (0, st') \<and> chip_ready 0x55 False st'
      \<and> memory (slave (conn st')) = patch offset (mem_read (mem st) a n) (memory (slave (conn st)))
      \<and> (\<forall>b k. apart (d_frame d) b k \<longrightarrow> mem_read (mem st') b k = mem_read (mem st) b k)"
    using page_okI [OF ok] by (intro page_written write_page_1993) (simp_all add: chip_ready_def)
qed (auto simp: apart_def mem_read_add)

sublocale chip_bus < w2433: page_writer "\<lambda>a n offset. OW_w_23page d a n offset pn" 8 "\<lambda>st. memory (slave (conn st))"
  "\<lambda>st. mem_read (mem st)" "apart (d_frame d)" "chip_ready 0x55 True"
proof
  fix st a n offset
  assume ok: "chip_ready 0x55 True st" "apart (d_frame d) a n" "0 < n" "offset mod 8 + n \<le> 8" "offset + n \<le> length (memory (slave (conn st)))"
  then show "\<exists>st'. OW_w_23page d a n offset pn st = Some (0, st') \<and> chip_ready 0x55 True st'
      \<and> memory (slave (conn st')) = patch offset (mem_read (mem st) a n) (memory (slave (conn st)))
      \<and> (\<forall>b k. apart (d_frame d) b k \<longrightarrow> mem_read (mem st') b k = mem_read (mem st) b k)"
    using page_okI [OF ok(1-3) mod_8_32 [OF ok(4)] ok(5)] by (intro page_written write_page_23) (simp_all add: chip_ready_def)
qed (auto simp: apart_def mem_read_add)

sublocale chip_bus < w2423: page_writer "\<lambda>a n offset. OW_w_mem_2423 d a n offset pn" 32 "\<lambda>st. memory (slave (conn st))"
  "\<lambda>st. mem_read (mem st)" "apart (d_frame d)" "chip_ready 0x5A True"
proof
  fix st a n offset
  assume ok: "chip_ready 0x5A True st" "apart (d_frame d) a n" "0 < n" "offset mod 32 + n \<le> 32" "offset + n \<le> length (memory (slave (conn st)))"
  then show "\<exists>st'. OW_w_mem_2423 d a n offset pn st = Some (0, st') \<and> chip_ready 0x5A True st'
      \<and> memory (slave (conn st')) = patch offset (mem_read (mem st) a n) (memory (slave (conn st)))
      \<and> (\<forall>b k. apart (d_frame d) b k \<longrightarrow> mem_read (mem st') b k = mem_read (mem st) b k)"
    using page_okI [OF ok] by (intro page_written write_page_2423) (simp_all add: chip_ready_def)
qed (auto simp: apart_def mem_read_add)

section \<open>Reading it back\<close>

context chip_bus
begin

lemma read_memory:
  assumes "chip_ready code crc st" and "code \<noteq> 0xF0" and pn: "q_pn owq = pn" and a: "a = q_offset owq + page * pagesize" "a < 65536"
    and room: "a + q_size owq \<le> length (memory (slave (conn st)))" and buf: "apart (d_frame d) (q_buffer owq) (q_size owq)"
  shows "\<exists>st'. COMMON_read_memory_F0 d owq page pagesize st = Some (0, Set_OWQ_length owq, st')
    \<and> memory (slave (conn st')) = memory (slave (conn st))
    \<and> mem_read (mem st') (q_buffer owq) (q_size owq) = take (q_size owq) (drop a (memory (slave (conn st))))"
proof -
  let ?p = "d_frame d" and ?ch = "slave (conn st)" and ?n = "q_size owq"
  let ?m1 = "mem_write ?p (0xF0 # LOW_HIGH_ADDRESS a) (mem st)" and ?ts = "[TRXN_WRITE ?p 3, TRXN_READ (q_buffer owq) ?n]"
  let ?ch1 = "?ch\<lparr>heard := [0xF0], ta1 := of_nat a, ta2 := of_nat (a div 256), chip_phase := Read_data a\<rparr>"
  let ?xs = "take ?n (drop a (memory ?ch))"
  have small: "length (LOW_HIGH_ADDRESS a) = 2" by (simp add: LOW_HIGH_ADDRESS_def)
  have st1: "reached (store ?p (0xF0 # LOW_HIGH_ADDRESS a) st) (?m1, ?ch) (allocs st)"
    using assms(1) by (simp add: chip_ready_def reached_def store_def)
  have cc: "copy_command ?ch \<noteq> 0xF0" using assms(1,2) by (simp add: chip_ready_def)
  have "stream chip_step (0xF0 # LOW_HIGH_ADDRESS a) (chip_start ?ch) = (0xF0 # LOW_HIGH_ADDRESS a, ?ch1)"
    and "stream chip_step (replicate ?n 0xFF) ?ch1 = (?xs, ?ch1\<lparr>chip_phase := Read_data (a + ?n)\<rparr>)"
    using stream_read_memory(1) [OF cc a(2) room] stream_read_memory(2) [OF cc a(2) room, of ?ch1] by simp_all
  then have "converse chip_step ?ts (?m1, chip_start ?ch) = Some (mem_write (q_buffer owq) ?xs ?m1, ?ch1\<lparr>chip_phase := Read_data (a + ?n)\<rparr>)"
    by (simp add: trxn_macros Let_def mem_read_inside small del: stream.simps)
  moreover have "list_all talk_entry ?ts" by (simp add: talk_entry_def trxn_macros)
  ultimately obtain st' where "transact d (TRXN_START # ?ts @ [TRXN_END]) pn (store ?p (0xF0 # LOW_HIGH_ADDRESS a) st) = Some (0, st')"
      "reached st' (mem_write (q_buffer owq) ?xs ?m1, ?ch1\<lparr>chip_phase := Read_data (a + ?n)\<rparr>) (allocs st)"
    using talk [OF st1, of ?ts "TRXN_START # ?ts @ [TRXN_END]"] by fastforce
  moreover have "mem_read (mem_write (q_buffer owq) ?xs ?m1) (q_buffer owq) ?n = ?xs"
    using room by (simp add: mem_read_inside)
  moreover have "q_pn (Set_OWQ_length owq) = pn" using pn by (simp add: Set_OWQ_length_def)
  ultimately show ?thesis
    by (intro exI [of _ st']) (auto simp: COMMON_read_memory_F0_def Let_def reached_def a(1) [symmetric])
qed

text \<open>The whole of a write followed by the read of the same range, for a driver whose write has been paged.\<close>

lemma write_read:
  assumes "w = Some (0, st1)" and "chip_ready code crc st1" and "code \<noteq> 0xF0"
    and "memory (slave (conn st1)) = patch (q_offset owq) xs old" and "length xs = q_size owq" and "q_offset owq + q_size owq \<le> length old"
    and "q_pn owq' = pn" and "q_offset owq' = q_offset owq" and "q_size owq' = q_size owq" and "q_offset owq < 65536"
    and "apart (d_frame d) (q_buffer owq') (q_size owq')"
  shows "\<exists>st2. COMMON_read_memory_F0 d owq' 0 pagesize st1 = Some (0, Set_OWQ_length owq', st2)
    \<and> mem_read (mem st2) (q_buffer owq') (q_size owq') = xs"
  using read_memory [OF assms(2,3,7), where a = "q_offset owq" and page = 0 and pagesize = pagesize] assms patch_slice [of "q_offset owq" xs old] by auto

lemma roundtrip_1993:
  assumes "chip_ready 0x55 False st" and "q_pn owq = pn" and "apart (d_frame d) (q_buffer owq) (q_size owq)"
    and "q_offset owq + q_size owq \<le> length (memory (slave (conn st)))" and "q_offset owq < 65536"
    and "q_pn owq' = pn" and "q_offset owq' = q_offset owq" and "q_size owq' = q_size owq"
    and "apart (d_frame d) (q_buffer owq') (q_size owq')"
  shows "\<exists>st1 st2. FS_w_mem_1993 d owq st = Some (0, owq\<lparr>q_length := q_size owq\<rparr>, st1)
    \<and> memory (slave (conn st1)) = patch (q_offset owq) (mem_read (mem st) (q_buffer owq) (q_size owq)) (memory (slave (conn st)))
    \<and> FS_r_mem_1993 d owq' st1 = Some (0, Set_OWQ_length owq', st2)
    \<and> mem_read (mem st2) (q_buffer owq') (q_size owq') = mem_read (mem st) (q_buffer owq) (q_size owq)"
proof -
  let ?xs = "mem_read (mem st) (q_buffer owq) (q_size owq)"
  obtain st1 where st1: "paged_loop 32 (\<lambda>a n offset. OW_w_mem_1993 d a n offset pn) (q_buffer owq) (q_size owq) (q_offset owq) st = Some (0, st1)"
      "chip_ready 0x55 False st1" "memory (slave (conn st1)) = patch (q_offset owq) ?xs (memory (slave (conn st)))"
    using w1993.writes_all [OF assms(1,3,4)] by auto
  moreover obtain st2 where "COMMON_read_memory_F0 d owq' 0 0 st1 = Some (0, Set_OWQ_length owq', st2)"
      "mem_read (mem st2) (q_buffer owq') (q_size owq') = ?xs"
    using write_read [OF st1(1,2) _ st1(3), of owq' 0] assms by auto
  ultimately show ?thesis using assms(2)
    by (auto simp: FS_w_mem_1993_def FS_r_mem_1993_def COMMON_readwrite_paged_def GB_to_Z_OR_E_def)
qed

lemma roundtrip_2433:
  assumes "chip_ready 0x55 True st" and "hd (pn_sn pn) \<noteq> 0x2D" and "q_pn owq = pn" and "apart (d_frame d) (q_buffer owq) (q_size owq)"
    and "q_offset owq + q_size owq \<le> length (memory (slave (conn st)))" and "q_offset owq < 65536"
    and "q_pn owq' = pn" and "q_offset owq' = q_offset owq" and "q_size owq' = q_size owq"
    and "apart (d_frame d) (q_buffer owq') (q_size owq')"
  shows "\<exists>st1 st2. FS_w_mem_2433 d owq st = Some (0, owq\<lparr>q_length := q_size owq\<rparr>, st1)
    \<and> memory (slave (conn st1)) = patch (q_offset owq) (mem_read (mem st) (q_buffer owq) (q_size owq)) (memory (slave (conn st)))
    \<and> FS_r_mem_2433 d owq' st1 = Some (0, Set_OWQ_length owq', st2)
    \<and> mem_read (mem st2) (q_buffer owq') (q_size owq') = mem_read (mem st) (q_buffer owq) (q_size owq)"
proof -
  let ?xs = "mem_read (mem st) (q_buffer owq) (q_size owq)"
  obtain st1 where st1: "paged_loop 8 (\<lambda>a n offset. OW_w_23page d a n offset pn) (q_buffer owq) (q_size owq) (q_offset owq) st = Some (0, st1)"
      "chip_ready 0x55 True st1" "memory (slave (conn st1)) = patch (q_offset owq) ?xs (memory (slave (conn st)))"
    using w2433.writes_all [OF assms(1,4,5)] by auto
  moreover obtain st2 where "COMMON_read_memory_F0 d owq' 0 32 st1 = Some (0, Set_OWQ_length owq', st2)"
      "mem_read (mem st2) (q_buffer owq') (q_size owq') = ?xs"
    using write_read [OF st1(1,2) _ st1(3), of owq' 32] assms by auto
  ultimately show ?thesis using assms(2,3)
    by (auto simp: FS_w_mem_2433_def FS_r_mem_2433_def COMMON_readwrite_paged_def GB_to_Z_OR_E_def)
qed

end

section \<open>A line with one chip\<close>

type_synonym chip_line = "scratchpad_chip slave_line"

abbreviation chip_driver :: "(nat \<Rightarrow> byte) \<Rightarrow> nat \<Rightarrow> chip_line driver" where
  "chip_driver \<equiv> line_driver chip_step chip_start"

interpretation chip_line: chip_bus "chip_driver junk frame" "chip_pn rom" "\<lambda>c. line_slave (hardware c)" "line_usable rom" "line_selected rom"
  for junk frame rom
  by (rule chip_bus.intro) (rule slave_line.slave_bus_axioms)

section \<open>Properties\<close>

text \<open>A request to transfer bytes between the memory of the chip on the line and a buffer of the caller.\<close>

definition line_memory :: "chip_line trx_state \<Rightarrow> byte list" where
  "line_memory st = memory (line_slave (hardware (conn st)))"

definition memory_request :: "nat \<Rightarrow> byte list \<Rightarrow> chip_line trx_state \<Rightarrow> memory_query \<Rightarrow> bool" where
  "memory_request frame rom st owq \<longleftrightarrow> q_pn owq = chip_pn rom \<and> apart frame (q_buffer owq) (q_size owq)
     \<and> q_offset owq + q_size owq \<le> length (line_memory st) \<and> q_offset owq < 65536"

text \<open>The chip on the line: not behind a hub, with the serial number \<open>rom\<close>, a scratchpad of 32 bytes, at most 64 KB of memory and
  the copy command \<open>0x55\<close>; with check sums when \<open>crc\<close> asks for them.\<close>

definition chip_on_line :: "byte list \<Rightarrow> bool \<Rightarrow> chip_line trx_state \<Rightarrow> bool" where
  "chip_on_line rom crc st \<longleftrightarrow> line_usable rom (conn st) \<and>
     (let ch = line_slave (hardware (conn st)) in
      copy_command ch = 0x55 \<and> (crc \<longrightarrow> crc_sent ch) \<and> length (scratch ch) = 32 \<and> length (memory ch) \<le> 65536)"

definition written_and_read_back ::
  "(memory_query \<Rightarrow> chip_line trx_state \<Rightarrow> chip_line owq_result) \<Rightarrow> (memory_query \<Rightarrow> chip_line trx_state \<Rightarrow> chip_line owq_result) \<Rightarrow>
     memory_query \<Rightarrow> memory_query \<Rightarrow> chip_line trx_state \<Rightarrow> bool" where
  "written_and_read_back FS_w FS_r owq owq' st \<longleftrightarrow>
     (\<exists>st1 st2. FS_w owq st = Some (0, owq\<lparr>q_length := q_size owq\<rparr>, st1)
        \<and> line_memory st1 = patch (q_offset owq) (mem_read (mem st) (q_buffer owq) (q_size owq)) (line_memory st)
        \<and> FS_r owq' st1 = Some (0, Set_OWQ_length owq', st2)
        \<and> mem_read (mem st2) (q_buffer owq') (q_size owq') = mem_read (mem st) (q_buffer owq) (q_size owq))"

text \<open>
  C3: what is written to the memory of a chip is read back. For every buffer and every range of the memory, whatever its
  position with respect to the pages, the DS1993 driver succeeds, replaces exactly that range of the memory, and a read of
  the range returns the bytes written; so does the DS2433 driver on a chip that sends check sums. All this through the
  whole stack: paging, scratchpad protocol, transactions, selection of the chip by its serial number, and bus exchange.
\<close>
theorem memory_roundtrip:
  assumes "chip_on_line rom crc st" and "memory_request frame rom st owq" and "memory_request frame rom st owq'"
    and "q_offset owq' = q_offset owq" and "q_size owq' = q_size owq"
  shows "written_and_read_back (FS_w_mem_1993 (chip_driver junk frame)) (FS_r_mem_1993 (chip_driver junk frame)) owq owq' st
    \<and> (crc \<and> hd rom \<noteq> 0x2D \<longrightarrow>
         written_and_read_back (FS_w_mem_2433 (chip_driver junk frame)) (FS_r_mem_2433 (chip_driver junk frame)) owq owq' st)"
proof -
  have ready: "chip_line.chip_ready rom 0x55 False st" "crc \<Longrightarrow> chip_line.chip_ready rom 0x55 True st"
    using assms(1) by (simp_all add: chip_line.chip_ready_def chip_on_line_def Let_def)
  have frame: "d_frame (chip_driver junk frame) = frame" by (simp add: line_driver_def)
  from assms(2-) chip_line.roundtrip_1993 [OF ready(1), of owq junk frame owq']
    chip_line.roundtrip_2433 [OF ready(2), of owq junk frame owq']
  show ?thesis by (simp add: memory_request_def line_memory_def written_and_read_back_def chip_pn_def frame)
qed

text \<open>A chip with two pages, eight bytes across their boundary.\<close>

definition two_page_chip :: scratchpad_chip where
  "two_page_chip = \<lparr>memory = replicate 64 0xEE, scratch = replicate 32 0, ta1 = 0, ta2 = 0, es = 0, heard = [], chip_phase = Off,
     copy_command = 0x55, crc_sent = True\<rparr>"

definition two_page_state :: "chip_line trx_state" where
  "two_page_state = \<lparr>mem = (\<lambda>a. of_nat a),
     conn = initial_connection \<lparr>line_rom = [0x23, 1, 2, 3, 4, 5, 6, 7], line_slave = two_page_chip, line_phase = Deaf\<rparr>, allocs = []\<rparr>"

definition two_page_query :: "nat \<Rightarrow> memory_query" where
  "two_page_query buffer = \<lparr>q_buffer = buffer, q_size = 8, q_offset = 28, q_length = 0, q_U = 0, q_format = ft_binary,
     q_extension = 0, q_pn = chip_pn [0x23, 1, 2, 3, 4, 5, 6, 7]\<rparr>"

theorem memory_roundtrip_witness:
  "written_and_read_back (FS_w_mem_1993 (chip_driver (\<lambda>_. 0) 0)) (FS_r_mem_1993 (chip_driver (\<lambda>_. 0) 0))
     (two_page_query 100) (two_page_query 200) two_page_state
   \<and> written_and_read_back (FS_w_mem_2433 (chip_driver (\<lambda>_. 0) 0)) (FS_r_mem_2433 (chip_driver (\<lambda>_. 0) 0))
     (two_page_query 100) (two_page_query 200) two_page_state"
proof -
  have "chip_on_line [0x23, 1, 2, 3, 4, 5, 6, 7] True two_page_state"
    by (simp add: chip_on_line_def two_page_state_def two_page_chip_def line_usable_def initial_connection_def)
  moreover have "memory_request 0 [0x23, 1, 2, 3, 4, 5, 6, 7] two_page_state (two_page_query b)" if "b \<ge> 37" for b
    using that by (simp add: memory_request_def two_page_query_def two_page_state_def two_page_chip_def line_memory_def apart_def initial_connection_def)
  ultimately show ?thesis
    using memory_roundtrip [of "[0x23, 1, 2, 3, 4, 5, 6, 7]" True two_page_state 0 "two_page_query 100" "two_page_query 200" "\<lambda>_. 0"]
    by (simp add: two_page_query_def)
qed

end
