(* ===== verification/OW_Locks.thy ===== *)
theory OW_Locks
  imports OW_Cache
begin

text \<open>
  The lock of a device (\<^verbatim>\<open>ow_devicelock.c\<close>), created when a query first claims the device and destroyed when the last one
  leaves it.

  Threads run in any order. A step is what a thread does between two points where another one can interfere: a section
  under the mutex of the tree is one step, every operation on the mutex of a device is one. The states reached are the smallest
  set closed under arriving threads and steps.
\<close>

section \<open>Counting\<close>

definition how_many :: "('a \<Rightarrow> bool) \<Rightarrow> 'a list \<Rightarrow> nat" where
  "how_many P xs = length (filter P xs)"

lemma how_many_simps [simp]:
  "how_many P [] = 0" "how_many P (x # xs) = (if P x then 1 else 0) + how_many P xs"
  "how_many P (xs @ ys) = how_many P xs + how_many P ys"
  by (simp_all add: how_many_def)

lemma how_many_update:
  assumes "i < length xs"
  shows "how_many P (xs[i := y]) + (if P (xs ! i) then 1 else 0) = how_many P xs + (if P y then 1 else 0)"
proof -
  have "how_many P xs = how_many P (take i xs @ xs ! i # drop (Suc i) xs)" using id_take_nth_drop [OF assms] by simp
  then show ?thesis using assms by (simp add: upd_conv_take_nth_drop del: append_take_drop_id)
qed

lemma how_many_pos: "i < length xs \<Longrightarrow> P (xs ! i) \<Longrightarrow> 0 < how_many P xs"
  using nth_mem [of i xs] by (auto simp: how_many_def filter_empty_conv)

lemma how_many_zero: "how_many P xs = 0 \<longleftrightarrow> (\<forall>x \<in> set xs. \<not> P x)"
  by (simp add: how_many_def filter_empty_conv)

section \<open>The lock of a device\<close>

text \<open>What \<^verbatim>\<open>DeviceLockGet\<close> looks at in the name of a property.\<close>

record lock_pn =
  lp_simultaneous :: bool
  lp_connected :: bool
  lp_external :: bool
  lp_format :: ft_format
  lp_change :: fc_change
  lp_sn :: "byte list"

text \<open>The queries that need no lock, with what \<^verbatim>\<open>DeviceLockGet\<close> returns for them.\<close>

definition DeviceLock_exempt :: "lock_pn \<Rightarrow> int option" where
  "DeviceLock_exempt pn =
     (if lp_simultaneous pn then Some 0
      else if \<not> lp_connected pn then Some (- EINVAL)
      else if lp_external pn then Some 0
      else if lp_format pn \<in> {ft_directory, ft_subdir} then Some 0
      else if lp_change pn \<in> {fc_static, fc_statistic} then Some 0
      else None)"

text \<open>A block of the lock, with the thread that has its mutex, and the tree of an adapter: the address for each serial
  number, and the blocks that are allocated. The count of users is an unsigned integer in the code, which the number of threads does not reach the end of.\<close>

record devlock =
  dl_sn :: "byte list"
  dl_users :: nat
  dl_owner :: "nat option"

record device_tree =
  dev_db :: "byte list \<rightharpoonup> nat"
  devlocks :: "nat \<rightharpoonup> devlock"

datatype lock_phase = Idle | Claimed nat | Holding nat | Released nat

text \<open>A thread: the query it works on, where it is, and what its last \<^verbatim>\<open>DeviceLockGet\<close> returned.\<close>

record lock_user =
  u_pn :: lock_pn
  u_phase :: lock_phase
  u_result :: int

text \<open>The thread waits, the program does something undefined (uses a block that is not allocated), or the next state.\<close>

datatype lock_outcome = Blocked | Undefined | Next lock_user device_tree

text \<open>The section of \<^verbatim>\<open>DeviceLockGet\<close> under the mutex of the tree; \<open>block\<close> is the result of the allocation and \<open>tree_ok\<close> says
  that \<^verbatim>\<open>tsearch\<close> can make a new node.\<close>

definition DeviceLockGet_claim :: "nat option \<Rightarrow> bool \<Rightarrow> lock_user \<Rightarrow> device_tree \<Rightarrow> lock_outcome" where
  "DeviceLockGet_claim block tree_ok u t =
     (let sn = lp_sn (u_pn u) in
      case block of
        None \<Rightarrow> Next (u\<lparr>u_result := - ENOMEM\<rparr>) t
      | Some a \<Rightarrow>
          (case dev_db t sn of
             Some l \<Rightarrow>
               (case devlocks t l of
                  None \<Rightarrow> Undefined
                | Some n \<Rightarrow>
                    Next (u\<lparr>u_phase := Claimed l\<rparr>)
                      (t\<lparr>devlocks := (devlocks t)(l \<mapsto> n\<lparr>dl_users := dl_users n + 1\<rparr>)\<rparr>))
           | None \<Rightarrow>
               if \<not> tree_ok then Next (u\<lparr>u_result := - ENOMEM\<rparr>) t
               else Next (u\<lparr>u_phase := Claimed a\<rparr>)
                      \<lparr>dev_db = (dev_db t)(sn \<mapsto> a),
                       devlocks = (devlocks t)(a \<mapsto> \<lparr>dl_sn = sn, dl_users = 0 + 1, dl_owner = None\<rparr>)\<rparr>))"

text \<open>The section of \<^verbatim>\<open>DeviceLockRelease\<close> under the mutex of the tree.\<close>

definition DeviceLockRelease_leave :: "nat \<Rightarrow> lock_user \<Rightarrow> device_tree \<Rightarrow> lock_outcome" where
  "DeviceLockRelease_leave l u t =
     (case devlocks t l of
        None \<Rightarrow> Undefined
      | Some n \<Rightarrow>
          let n = n\<lparr>dl_users := dl_users n - 1\<rparr>; u = u\<lparr>u_phase := Idle\<rparr> in
          if dl_users n = 0
          then Next u \<lparr>dev_db = (dev_db t)(dl_sn n := None), devlocks = (devlocks t)(l := None)\<rparr>
          else Next u (t\<lparr>devlocks := (devlocks t)(l \<mapsto> n)\<rparr>))"

datatype lock_event = Get "nat option" bool | Grab | Unlock | Leave

fun DeviceLock_step :: "lock_event \<Rightarrow> nat \<Rightarrow> lock_phase \<Rightarrow> lock_user \<Rightarrow> device_tree \<Rightarrow> lock_outcome" where
  "DeviceLock_step (Get block tree_ok) i Idle u t =
     (case DeviceLock_exempt (u_pn u) of
        Some ret \<Rightarrow> Next (u\<lparr>u_result := ret\<rparr>) t
      | None \<Rightarrow> DeviceLockGet_claim block tree_ok u t)"
| "DeviceLock_step Grab i (Claimed l) u t =
     (case devlocks t l of
        None \<Rightarrow> Undefined
      | Some n \<Rightarrow>
          if dl_owner n \<noteq> None then Blocked
          else Next (u\<lparr>u_phase := Holding l, u_result := 0\<rparr>) (t\<lparr>devlocks := (devlocks t)(l \<mapsto> n\<lparr>dl_owner := Some i\<rparr>)\<rparr>))"
| "DeviceLock_step Unlock i (Holding l) u t =
     (case devlocks t l of
        None \<Rightarrow> Undefined
      | Some n \<Rightarrow> Next (u\<lparr>u_phase := Released l\<rparr>) (t\<lparr>devlocks := (devlocks t)(l \<mapsto> n\<lparr>dl_owner := None\<rparr>)\<rparr>))"
| "DeviceLock_step Leave i (Released l) u t = DeviceLockRelease_leave l u t"
| "DeviceLock_step _ i _ u t = Blocked"

text \<open>An allocation gives a block that is not in use.\<close>

definition possible :: "lock_event \<Rightarrow> device_tree \<Rightarrow> bool" where
  "possible ev t \<longleftrightarrow> (case ev of Get (Some a) _ \<Rightarrow> devlocks t a = None | _ \<Rightarrow> True)"

definition empty_tree :: device_tree where
  "empty_tree = \<lparr>dev_db = Map.empty, devlocks = Map.empty\<rparr>"

inductive locks_reach :: "lock_user list \<Rightarrow> device_tree \<Rightarrow> bool" where
  start: "locks_reach [] empty_tree"
| arrive: "locks_reach us t \<Longrightarrow> locks_reach (us @ [\<lparr>u_pn = pn, u_phase = Idle, u_result = 0\<rparr>]) t"
| move: "locks_reach us t \<Longrightarrow> i < length us \<Longrightarrow> possible ev t \<Longrightarrow>
    DeviceLock_step ev i (u_phase (us ! i)) (us ! i) t = Next u t' \<Longrightarrow> locks_reach (us[i := u]) t'"

section \<open>The invariant of the device locks\<close>

fun claim :: "lock_phase \<Rightarrow> nat option" where
  "claim Idle = None"
| "claim (Claimed l) = Some l"
| "claim (Holding l) = Some l"
| "claim (Released l) = Some l"

abbreviation claims :: "nat \<Rightarrow> lock_user \<Rightarrow> bool" where
  "claims l u \<equiv> claim (u_phase u) = Some l"

definition block_ok :: "lock_user list \<Rightarrow> device_tree \<Rightarrow> nat \<Rightarrow> devlock \<Rightarrow> bool" where
  "block_ok us t l n \<longleftrightarrow> dl_users n = how_many (claims l) us \<and> 0 < dl_users n \<and> dev_db t (dl_sn n) = Some l
     \<and> (\<forall>i. dl_owner n = Some i \<longleftrightarrow> i < length us \<and> u_phase (us ! i) = Holding l)"

lemma block_okD: "block_ok us t l n \<Longrightarrow> dev_db t (dl_sn n) = Some l"
  by (simp add: block_ok_def)

lemma block_ok_owner: "block_ok us t l n \<Longrightarrow> j < length us \<Longrightarrow> u_phase (us ! j) = Holding l \<Longrightarrow> dl_owner n = Some j"
  by (simp add: block_ok_def)

definition locks_inv :: "lock_user list \<Rightarrow> device_tree \<Rightarrow> bool" where
  "locks_inv us t \<longleftrightarrow>
     (\<forall>i l. i < length us \<longrightarrow> claims l (us ! i) \<longrightarrow> (\<exists>n. devlocks t l = Some n \<and> dl_sn n = lp_sn (u_pn (us ! i))))
   \<and> (\<forall>l n. devlocks t l = Some n \<longrightarrow> block_ok us t l n)
   \<and> (\<forall>sn l. dev_db t sn = Some l \<longrightarrow> (\<exists>n. devlocks t l = Some n \<and> dl_sn n = sn))"

lemma locks_invD:
  assumes "locks_inv us t"
  shows "i < length us \<Longrightarrow> claims l (us ! i) \<Longrightarrow> \<exists>n. devlocks t l = Some n \<and> dl_sn n = lp_sn (u_pn (us ! i))"
    and "devlocks t l = Some n \<Longrightarrow> block_ok us t l n"
    and "dev_db t sn = Some l \<Longrightarrow> \<exists>n. devlocks t l = Some n \<and> dl_sn n = sn"
  using assms by (auto simp: locks_inv_def)

lemma inv_arrive:
  assumes "locks_inv us t"
  shows "locks_inv (us @ [\<lparr>u_pn = pn, u_phase = Idle, u_result = 0\<rparr>]) t"
  using assms by (fastforce simp: locks_inv_def block_ok_def nth_append less_Suc_eq)

lemma step_defined:
  assumes "locks_inv us t" and "i < length us"
  shows "DeviceLock_step ev i (u_phase (us ! i)) (us ! i) t \<noteq> Undefined"
proof -
  have own: "devlocks t l \<noteq> None" if "claims l (us ! i)" for l using locks_invD(1) [OF assms that] by auto
  have found: "devlocks t l \<noteq> None" if "dev_db t sn = Some l" for sn l using locks_invD(3) [OF assms(1) that] by auto
  show ?thesis
  proof (cases ev)
    case (Get block tree_ok)
    then show ?thesis using found [of "lp_sn (u_pn (us ! i))"]
      by (cases "u_phase (us ! i)") (auto simp: DeviceLockGet_claim_def Let_def split: option.splits)
  next
    case Grab
    then show ?thesis using own by (cases "u_phase (us ! i)") (auto split: option.splits)
  next
    case Unlock
    then show ?thesis using own by (cases "u_phase (us ! i)") (auto split: option.splits)
  next
    case Leave
    then show ?thesis using own
      by (cases "u_phase (us ! i)") (auto simp: DeviceLockRelease_leave_def Let_def split: option.splits)
  qed
qed

lemma how_many_claims:
  assumes "i < length us"
  shows "how_many (claims k) (us[i := u]) =
    how_many (claims k) us + (if claims k u then 1 else 0) - (if claims k (us ! i) then 1 else 0)"
  using how_many_update [OF assms, of "claims k" u] by auto

text \<open>A thread that does not claim a block, before or after its step, does not matter to it.\<close>

lemma block_ok_other:
  assumes "block_ok us t k m" and "i < length us" and "\<not> claims k u" and "\<not> claims k (us ! i)" and "dev_db t' (dl_sn m) = Some k"
  shows "block_ok (us[i := u]) t' k m"
proof -
  have "how_many (claims k) (us[i := u]) = how_many (claims k) us" using assms(2-4) by (simp add: how_many_claims)
  moreover have "u_phase (us[i := u] ! j) = Holding k \<longleftrightarrow> u_phase (us ! j) = Holding k" if "j < length us" for j
    using assms(3,4) that by (cases "j = i") auto
  ultimately show ?thesis using assms(1,5) by (auto simp: block_ok_def)
qed

text \<open>A step that changes one thread and the block \<open>l\<close> that it claims, and leaves the tree alone.\<close>

lemma inv_change_block:
  assumes inv: "locks_inv us t" and i: "i < length us" and u: "u_pn u = u_pn (us ! i)"
    and n: "devlocks t l = Some n" "dl_sn n = lp_sn (u_pn u)" and n': "dl_sn n' = dl_sn n"
    and cl: "\<And>k. claims k u \<Longrightarrow> k = l" "\<And>k. claims k (us ! i) \<Longrightarrow> k = l"
    and ok: "block_ok (us[i := u]) t l n'"
  shows "locks_inv (us[i := u]) (t\<lparr>devlocks := (devlocks t)(l \<mapsto> n')\<rparr>)"
proof -
  let ?t = "t\<lparr>devlocks := (devlocks t)(l \<mapsto> n')\<rparr>"
  have "\<exists>m. devlocks ?t k = Some m \<and> dl_sn m = lp_sn (u_pn (us[i := u] ! j))"
    if "j < length us" "claims k (us[i := u] ! j)" for j k
  proof (cases "j = i")
    case True
    then show ?thesis using that cl(1) [of k] n n' i by auto
  next
    case False
    then show ?thesis using that locks_invD(1) [OF inv, of j k] n n' by auto
  qed
  moreover have "block_ok (us[i := u]) ?t k m" if "devlocks ?t k = Some m" for k m
  proof (cases "k = l")
    case True
    then show ?thesis using that ok by (simp add: block_ok_def)
  next
    case False
    then have m: "devlocks t k = Some m" using that by simp
    show ?thesis using locks_invD(2) [OF inv m] i cl False
      by (intro block_ok_other) (auto simp: block_ok_def)
  qed
  moreover have "\<exists>m. devlocks ?t k = Some m \<and> dl_sn m = sn" if "dev_db ?t sn = Some k" for sn k
    using that locks_invD(3) [OF inv, of sn k] n n' by auto
  ultimately show ?thesis by (simp add: locks_inv_def)
qed

text \<open>A new block, and the last user of a block leaving.\<close>

lemma inv_new_block:
  assumes inv: "locks_inv us t" and i: "i < length us" and u: "u_pn u = u_pn (us ! i)"
    and fresh: "devlocks t a = None" "dev_db t (lp_sn (u_pn u)) = None" and idle: "u_phase (us ! i) = Idle" "u_phase u = Claimed a"
  shows "locks_inv (us[i := u]) \<lparr>dev_db = (dev_db t)(lp_sn (u_pn u) \<mapsto> a),
    devlocks = (devlocks t)(a \<mapsto> \<lparr>dl_sn = lp_sn (u_pn u), dl_users = 0 + 1, dl_owner = None\<rparr>)\<rparr>"
proof -
  let ?n = "\<lparr>dl_sn = lp_sn (u_pn u), dl_users = 0 + 1, dl_owner = None\<rparr>"
  let ?t = "\<lparr>dev_db = (dev_db t)(lp_sn (u_pn u) \<mapsto> a), devlocks = (devlocks t)(a \<mapsto> ?n)\<rparr>"
  have free: "\<not> claims a (us ! j)" if "j < length us" for j
    using locks_invD(1) [OF inv that, of a] fresh(1) by auto
  then have "how_many (claims a) us = 0" by (auto simp: how_many_zero in_set_conv_nth)
  moreover have "u_phase (us[i := u] ! j) \<noteq> Holding a" if "j < length us" for j
    using free [OF that] i idle(2) that by (auto simp: nth_list_update)
  ultimately have "block_ok (us[i := u]) ?t a ?n"
    using idle(2) how_many_claims [OF i, of a u] free [OF i] by (auto simp: block_ok_def)
  moreover have "\<exists>m. devlocks ?t k = Some m \<and> dl_sn m = lp_sn (u_pn (us[i := u] ! j))"
    if "j < length us" "claims k (us[i := u] ! j)" for j k
    using that i idle(2) free [of j] locks_invD(1) [OF inv, of j k] by (cases "j = i") auto
  moreover have "block_ok (us[i := u]) ?t k m" if "devlocks t k = Some m" "k \<noteq> a" for k m
  proof -
    have m: "block_ok us t k m" using locks_invD(2) [OF inv that(1)] .
    then have "dev_db ?t (dl_sn m) = Some k" using block_okD [OF m] fresh(2) by auto
    then show ?thesis using block_ok_other [OF m i, of u ?t] idle that(2) by simp
  qed
  moreover have "\<exists>m. devlocks ?t k = Some m \<and> dl_sn m = sn" if "dev_db ?t sn = Some k" for sn k
    using that locks_invD(3) [OF inv, of sn k] fresh(1) by (auto split: if_splits)
  ultimately show ?thesis by (simp add: locks_inv_def)
qed

lemma inv_drop_block:
  assumes inv: "locks_inv us t" and i: "i < length us" and u: "u_pn u = u_pn (us ! i)"
    and n: "devlocks t l = Some n" "dl_users n = 1" and ph: "u_phase (us ! i) = Released l" "u_phase u = Idle"
  shows "locks_inv (us[i := u]) \<lparr>dev_db = (dev_db t)(dl_sn n := None), devlocks = (devlocks t)(l := None)\<rparr>"
proof -
  let ?t = "\<lparr>dev_db = (dev_db t)(dl_sn n := None), devlocks = (devlocks t)(l := None)\<rparr>"
  have bl: "block_ok us t l n" using locks_invD(2) [OF inv n(1)] .
  then have "how_many (claims l) (us[i := u]) = 0" using n(2) ph by (simp add: block_ok_def how_many_claims [OF i])
  then have free: "\<not> claims l (us[i := u] ! j)" if "j < length us" for j
    using that by (simp add: how_many_zero)
  have "\<exists>m. devlocks ?t k = Some m \<and> dl_sn m = lp_sn (u_pn (us[i := u] ! j))"
    if "j < length us" "claims k (us[i := u] ! j)" for j k
    using that i ph(2) free [OF that(1)] locks_invD(1) [OF inv, of j k] by (cases "j = i") auto
  moreover have "block_ok (us[i := u]) ?t k m" if "devlocks t k = Some m" "k \<noteq> l" for k m
  proof -
    have m: "block_ok us t k m" using locks_invD(2) [OF inv that(1)] .
    then have "dev_db ?t (dl_sn m) = Some k" using block_okD [OF bl] block_okD [OF m] that(2) by auto
    then show ?thesis using block_ok_other [OF m i, of u ?t] ph that(2) by simp
  qed
  moreover have "\<exists>m. devlocks ?t k = Some m \<and> dl_sn m = sn" if "dev_db ?t sn = Some k" for sn k
    using that locks_invD(3) [OF inv, of sn k] n(1) by (auto split: if_splits)
  ultimately show ?thesis by (simp add: locks_inv_def)
qed

text \<open>A step that only sets the result of an idle thread.\<close>

lemma inv_idle:
  assumes inv: "locks_inv us t" and i: "i < length us" and u: "u_phase u = Idle" "u_phase (us ! i) = Idle"
  shows "locks_inv (us[i := u]) t"
proof -
  have "claims k (us[i := u] ! j) \<longleftrightarrow> claims k (us ! j)" if "j < length us" for j k using u that by (cases "j = i") auto
  moreover have "lp_sn (u_pn (us[i := u] ! j)) = lp_sn (u_pn (us ! j))" if "j < length us" "claims k (us ! j)" for j k
    using u that by (cases "j = i") auto
  moreover have "block_ok (us[i := u]) t l n" if "devlocks t l = Some n" for l n
    using locks_invD(2) [OF inv that] i u by (intro block_ok_other) (auto simp: block_ok_def)
  ultimately show ?thesis using locks_invD(1,3) [OF inv] by (simp add: locks_inv_def)
qed

lemma inv_step:
  assumes inv: "locks_inv us t" and i: "i < length us" and "possible ev t"
    and step: "DeviceLock_step ev i (u_phase (us ! i)) (us ! i) t = Next u t'"
  shows "locks_inv (us[i := u]) t'"
proof (cases "u_phase (us ! i)")
  case Idle
  then obtain block tree_ok where ev: "ev = Get block tree_ok" using step by (cases ev) auto
  show ?thesis
  proof (cases "DeviceLock_exempt (u_pn (us ! i)) \<noteq> None \<or> block = None \<or> (dev_db t (lp_sn (u_pn (us ! i))) = None \<and> \<not> tree_ok)")
    case True
    then have "u_phase u = Idle" "t' = t" using step Idle ev
      by (auto simp: DeviceLockGet_claim_def Let_def split: if_splits option.splits)
    then show ?thesis using inv_idle [OF inv i] Idle by simp
  next
    case False
    then obtain a where a: "block = Some a" "devlocks t a = None" using assms(3) by (auto simp: ev possible_def)
    show ?thesis
    proof (cases "dev_db t (lp_sn (u_pn (us ! i)))")
      case None
      then show ?thesis
        using step Idle False ev a inv_new_block [OF inv i, of "(us ! i)\<lparr>u_phase := Claimed a\<rparr>" a]
        by (auto simp: DeviceLockGet_claim_def Let_def)
    next
      case (Some l)
      obtain n where n: "devlocks t l = Some n" "dl_sn n = lp_sn (u_pn (us ! i))" using locks_invD(3) [OF inv Some] by blast
      let ?u = "(us ! i)\<lparr>u_phase := Claimed l\<rparr>"
      have "block_ok (us[i := ?u]) t l (n\<lparr>dl_users := dl_users n + 1\<rparr>)"
        using locks_invD(2) [OF inv n(1)] Idle i by (auto simp: block_ok_def how_many_claims nth_list_update)
      then show ?thesis
        using step Idle False ev a(1) Some n inv_change_block [OF inv i _ n(1), of ?u "n\<lparr>dl_users := dl_users n + 1\<rparr>"]
        by (auto simp: DeviceLockGet_claim_def Let_def)
    qed
  qed
next
  case (Claimed l)
  then have ev: "ev = Grab" using step by (cases ev) auto
  obtain n where n: "devlocks t l = Some n" "dl_sn n = lp_sn (u_pn (us ! i))" using locks_invD(1) [OF inv i, of l] Claimed by auto
  let ?u = "(us ! i)\<lparr>u_phase := Holding l, u_result := 0\<rparr>"
  have free: "dl_owner n = None" and u: "u = ?u" and t': "t' = t\<lparr>devlocks := (devlocks t)(l \<mapsto> n\<lparr>dl_owner := Some i\<rparr>)\<rparr>"
    using step Claimed ev n(1) by (simp_all split: if_splits)
  have "block_ok (us[i := ?u]) t l (n\<lparr>dl_owner := Some i\<rparr>)"
    using locks_invD(2) [OF inv n(1)] Claimed i free
    unfolding block_ok_def by (simp add: how_many_claims nth_list_update)
  then show ?thesis unfolding u t' using n(2) Claimed by (intro inv_change_block [OF inv i _ n(1)]) simp_all
next
  case (Holding l)
  then have ev: "ev = Unlock" using step by (cases ev) auto
  obtain n where n: "devlocks t l = Some n" "dl_sn n = lp_sn (u_pn (us ! i))" using locks_invD(1) [OF inv i, of l] Holding by auto
  let ?u = "(us ! i)\<lparr>u_phase := Released l\<rparr>"
  have u: "u = ?u" and t': "t' = t\<lparr>devlocks := (devlocks t)(l \<mapsto> n\<lparr>dl_owner := None\<rparr>)\<rparr>"
    using step Holding ev n(1) by simp_all
  have bl: "block_ok us t l n" using locks_invD(2) [OF inv n(1)] .
  have "u_phase (us[i := ?u] ! j) \<noteq> Holding l" if "j < length us" for j
  proof (cases "j = i")
    case False
    have "u_phase (us ! j) \<noteq> Holding l"
      using block_ok_owner [OF bl i Holding] block_ok_owner [OF bl that] False by auto
    then show ?thesis using False by simp
  qed (simp add: i)
  then have "block_ok (us[i := ?u]) t l (n\<lparr>dl_owner := None\<rparr>)"
    using bl Holding i unfolding block_ok_def by (simp add: how_many_claims)
  then show ?thesis unfolding u t' using n(2) Holding by (intro inv_change_block [OF inv i _ n(1)]) simp_all
next
  case (Released l)
  then have ev: "ev = Leave" using step by (cases ev) auto
  obtain n where n: "devlocks t l = Some n" "dl_sn n = lp_sn (u_pn (us ! i))" using locks_invD(1) [OF inv i, of l] Released by auto
  let ?u = "(us ! i)\<lparr>u_phase := Idle\<rparr>" and ?n = "n\<lparr>dl_users := dl_users n - 1\<rparr>"
  have bl: "block_ok us t l n" using locks_invD(2) [OF inv n(1)] .
  show ?thesis
  proof (cases "dl_users n = 1")
    case True
    then show ?thesis using step Released ev n(1) inv_drop_block [OF inv i _ n(1), of ?u]
      by (auto simp: DeviceLockRelease_leave_def Let_def)
  next
    case False
    then have "dl_users n > 1" using bl by (simp add: block_ok_def)
    then have "u = ?u" "t' = t\<lparr>devlocks := (devlocks t)(l \<mapsto> ?n)\<rparr>"
      using step Released ev n(1) by (auto simp: DeviceLockRelease_leave_def Let_def)
    moreover have "block_ok (us[i := ?u]) t l ?n"
    proof -
      have "dl_owner n = Some j \<longleftrightarrow> j < length us \<and> u_phase (us ! j) = Holding l" for j using bl unfolding block_ok_def by blast
      moreover have "(j < length us \<and> u_phase (us ! j) = Holding l) \<longleftrightarrow> (j < length us \<and> u_phase (us[i := ?u] ! j) = Holding l)" for j
        using Released i by (cases "j = i") simp_all
      moreover have "dl_users ?n = how_many (claims l) (us[i := ?u])" using bl Released i by (simp add: block_ok_def how_many_claims)
      ultimately show ?thesis using block_okD [OF bl] \<open>dl_users n > 1\<close> by (simp only: block_ok_def length_list_update) simp
    qed
    ultimately show ?thesis using n(2) Released by (simp only:) (intro inv_change_block [OF inv i _ n(1)], simp_all)
  qed
qed

lemma locks_reach_inv: "locks_reach us t \<Longrightarrow> locks_inv us t"
proof (induction rule: locks_reach.induct)
  case start
  then show ?case by (simp add: locks_inv_def empty_tree_def)
qed (auto intro: inv_arrive inv_step)

section \<open>Properties\<close>

text \<open>
  C17: device locks do their work. Whatever queries come and in whatever order they run, two threads never hold the lock of the
  same device at the same time; every lock that a thread has claimed is an allocated block for its serial number and counts
  its users exactly, so no step uses a block that has been freed; and when all threads are idle nothing is left allocated.
\<close>
theorem device_locks:
  assumes "locks_reach us t"
  shows "(\<forall>i < length us. \<forall>j < length us. \<forall>l l'. u_phase (us ! i) = Holding l \<and> u_phase (us ! j) = Holding l'
        \<and> lp_sn (u_pn (us ! i)) = lp_sn (u_pn (us ! j)) \<longrightarrow> i = j)
    \<and> (\<forall>i < length us. \<forall>l. claims l (us ! i) \<longrightarrow>
         (\<exists>n. devlocks t l = Some n \<and> dl_sn n = lp_sn (u_pn (us ! i)) \<and> dl_users n = how_many (claims l) us))
    \<and> (\<forall>i < length us. \<forall>ev. DeviceLock_step ev i (u_phase (us ! i)) (us ! i) t \<noteq> Undefined)
    \<and> ((\<forall>u \<in> set us. u_phase u = Idle) \<longrightarrow> t = empty_tree)"
proof -
  have inv: "locks_inv us t" using locks_reach_inv [OF assms] .
  have claimed: "\<exists>n. devlocks t l = Some n \<and> dl_sn n = lp_sn (u_pn (us ! i)) \<and> block_ok us t l n"
    if "i < length us" "claims l (us ! i)" for i l
    using locks_invD(1) [OF inv that] locks_invD(2) [OF inv] by blast
  have "i = j" if h: "i < length us" "j < length us" "u_phase (us ! i) = Holding l" "u_phase (us ! j) = Holding l'"
    "lp_sn (u_pn (us ! i)) = lp_sn (u_pn (us ! j))" for i j l l'
  proof -
    obtain n n' where n: "devlocks t l = Some n" "dl_sn n = lp_sn (u_pn (us ! i))" "block_ok us t l n"
        and n': "devlocks t l' = Some n'" "dl_sn n' = lp_sn (u_pn (us ! j))" "block_ok us t l' n'"
      using claimed [of i l] claimed [of j l'] h by auto
    then have "l = l'" using h(5) block_okD [OF n(3)] block_okD [OF n'(3)] by simp
    then show ?thesis using block_ok_owner [OF n(3) h(1,3)] block_ok_owner [OF n(3) h(2)] h(4) by simp
  qed
  moreover have "t = empty_tree" if idle: "\<forall>u \<in> set us. u_phase u = Idle"
  proof -
    have "devlocks t l = None" for l
    proof (rule ccontr)
      assume "devlocks t l \<noteq> None"
      then obtain n where "block_ok us t l n" using locks_invD(2) [OF inv] by auto
      then have "0 < how_many (claims l) us" by (simp add: block_ok_def)
      moreover have "how_many (claims l) us = 0" using idle by (simp add: how_many_zero)
      ultimately show False by simp
    qed
    moreover from this have "dev_db t sn = None" for sn
      using locks_invD(3) [OF inv, of sn] by (cases "dev_db t sn") auto
    ultimately show ?thesis by (cases t) (auto simp: empty_tree_def fun_eq_iff)
  qed
  ultimately show ?thesis using claimed step_defined [OF inv] by (auto simp: block_ok_def) blast+
qed

definition shared_pn :: lock_pn where
  "shared_pn = \<lparr>lp_simultaneous = False, lp_connected = True, lp_external = False, lp_format = ft_binary, lp_change = fc_volatile,
     lp_sn = [0x10, 1, 2, 3, 4, 5, 6, 7]\<rparr>"

theorem device_locks_witness:
  "\<exists>t n. locks_reach [\<lparr>u_pn = shared_pn, u_phase = Holding 7, u_result = 0\<rparr>, \<lparr>u_pn = shared_pn, u_phase = Claimed 7, u_result = 0\<rparr>] t
    \<and> devlocks t 7 = Some n \<and> dl_users n = 2"
proof -
  let ?u = "\<lambda>p. \<lparr>u_pn = shared_pn, u_phase = p, u_result = 0\<rparr>"
  let ?t = "\<lambda>users owner. \<lparr>dev_db = [lp_sn shared_pn \<mapsto> 7],
    devlocks = [7 \<mapsto> \<lparr>dl_sn = lp_sn shared_pn, dl_users = users, dl_owner = owner\<rparr>]\<rparr>"
  have needed: "DeviceLock_exempt shared_pn = None" by (simp add: DeviceLock_exempt_def shared_pn_def)
  have "locks_reach [?u Idle] empty_tree" using locks_reach.arrive [OF locks_reach.start] by simp
  from locks_reach.move [OF this, of 0 "Get (Some 7) True" "?u (Claimed 7)" "?t 1 None"]
  have "locks_reach [?u (Claimed 7)] (?t 1 None)"
    by (simp add: possible_def empty_tree_def needed DeviceLockGet_claim_def Let_def)
  from locks_reach.move [OF this, of 0 Grab "?u (Holding 7)" "?t 1 (Some 0)"]
  have "locks_reach [?u (Holding 7)] (?t 1 (Some 0))" by (simp add: possible_def)
  from locks_reach.arrive [OF this, of shared_pn] have "locks_reach [?u (Holding 7), ?u Idle] (?t 1 (Some 0))" by simp
  from locks_reach.move [OF this, of 1 "Get (Some 8) True" "?u (Claimed 7)" "?t 2 (Some 0)"]
  have reach: "locks_reach [?u (Holding 7), ?u (Claimed 7)] (?t 2 (Some 0))"
    by (simp add: possible_def needed DeviceLockGet_claim_def Let_def numeral_2_eq_2)
  have "claims 7 ([?u (Holding 7), ?u (Claimed 7)] ! 0)" by simp
  then have "\<exists>n. devlocks (?t 2 (Some 0)) 7 = Some n \<and> dl_users n = how_many (claims 7) [?u (Holding 7), ?u (Claimed 7)]"
    using device_locks [OF reach] by fastforce
  then show ?thesis using reach by (intro exI [of _ "?t 2 (Some 0)"]) auto
qed

end
