(* ===== verification/OW_RWLock.thy ===== *)
theory OW_RWLock
  imports OW_Locks
begin

text \<open>
  The readers-writers lock of \<^verbatim>\<open>ow_rwlock.c\<close> made of two semaphores, a mutex and a count, after Courtois, Heymans and Parnas. It
  is the one compiled when the system has none. Threads run in any order; every operation on a semaphore or the mutex
  is one step, and so is the counting under the mutex. A wait for a semaphore returns only when it got it: the code ignores the result of \<^verbatim>\<open>sem_wait\<close>, and a signal
  that interrupts it is not modelled.
\<close>

section \<open>Readers and writers\<close>

text \<open>The two semaphores with their values, the mutex of the reader count, and the count.\<close>

record my_rwlock =
  allow_readers :: nat
  no_processes :: nat
  protect_reader_count :: bool
  reader_count :: int

definition my_rwlock_init :: my_rwlock where
  "my_rwlock_init = \<lparr>allow_readers = 1, no_processes = 1, protect_reader_count = False, reader_count = 0\<rparr>"

text \<open>
  Where a thread is. A writer has waited for \<^verbatim>\<open>allow_readers\<close>, is inside, has posted \<^verbatim>\<open>allow_readers\<close> on its way out. A reader
  has waited for \<^verbatim>\<open>allow_readers\<close>, has the mutex, has counted itself as the first and waits for \<^verbatim>\<open>no_processes\<close>, is done
  counting, has given up the mutex, is inside, has the mutex again, has discounted itself.
\<close>

datatype rw_phase =
    Outside | W_allowed | W_in | W_leaving
  | R_allowed | R_counting | R_first | R_counted | R_unlocked | R_in | U_counting | U_counted

definition sem_wait_allow :: "rw_phase \<Rightarrow> my_rwlock \<Rightarrow> (rw_phase \<times> my_rwlock) option" where
  "sem_wait_allow next l =
     (if allow_readers l = 0 then None else Some (next, l\<lparr>allow_readers := allow_readers l - 1\<rparr>))"

definition sem_wait_none :: "rw_phase \<Rightarrow> my_rwlock \<Rightarrow> (rw_phase \<times> my_rwlock) option" where
  "sem_wait_none next l =
     (if no_processes l = 0 then None else Some (next, l\<lparr>no_processes := no_processes l - 1\<rparr>))"

definition lock_count :: "rw_phase \<Rightarrow> my_rwlock \<Rightarrow> (rw_phase \<times> my_rwlock) option" where
  "lock_count next l = (if protect_reader_count l then None else Some (next, l\<lparr>protect_reader_count := True\<rparr>))"

lemmas rw_waits = sem_wait_allow_def sem_wait_none_def lock_count_def

text \<open>\<^verbatim>\<open>my_rwlock_write_lock\<close>, \<^verbatim>\<open>my_rwlock_write_unlock\<close>, \<^verbatim>\<open>my_rwlock_read_lock\<close> and \<^verbatim>\<open>my_rwlock_read_unlock\<close>, one operation at a
  time. \<^const>\<open>None\<close>: the thread has to wait, or is not in that function.\<close>

fun my_rwlock_write_lock :: "rw_phase \<Rightarrow> my_rwlock \<Rightarrow> (rw_phase \<times> my_rwlock) option" where
  "my_rwlock_write_lock Outside l = sem_wait_allow W_allowed l"
| "my_rwlock_write_lock W_allowed l = sem_wait_none W_in l"
| "my_rwlock_write_lock _ l = None"

fun my_rwlock_write_unlock :: "rw_phase \<Rightarrow> my_rwlock \<Rightarrow> (rw_phase \<times> my_rwlock) option" where
  "my_rwlock_write_unlock W_in l = Some (W_leaving, l\<lparr>allow_readers := allow_readers l + 1\<rparr>)"
| "my_rwlock_write_unlock W_leaving l = Some (Outside, l\<lparr>no_processes := no_processes l + 1\<rparr>)"
| "my_rwlock_write_unlock _ l = None"

fun my_rwlock_read_lock :: "rw_phase \<Rightarrow> my_rwlock \<Rightarrow> (rw_phase \<times> my_rwlock) option" where
  "my_rwlock_read_lock Outside l = sem_wait_allow R_allowed l"
| "my_rwlock_read_lock R_allowed l = lock_count R_counting l"
| "my_rwlock_read_lock R_counting l =
     (let l = l\<lparr>reader_count := reader_count l + 1\<rparr> in
      Some (if reader_count l = 1 then R_first else R_counted, l))"
| "my_rwlock_read_lock R_first l = sem_wait_none R_counted l"
| "my_rwlock_read_lock R_counted l = Some (R_unlocked, l\<lparr>protect_reader_count := False\<rparr>)"
| "my_rwlock_read_lock R_unlocked l = Some (R_in, l\<lparr>allow_readers := allow_readers l + 1\<rparr>)"
| "my_rwlock_read_lock _ l = None"

fun my_rwlock_read_unlock :: "rw_phase \<Rightarrow> my_rwlock \<Rightarrow> (rw_phase \<times> my_rwlock) option" where
  "my_rwlock_read_unlock R_in l = lock_count U_counting l"
| "my_rwlock_read_unlock U_counting l =
     (let l = l\<lparr>reader_count := reader_count l - 1\<rparr> in
      Some (U_counted, if reader_count l = 0 then l\<lparr>no_processes := no_processes l + 1\<rparr> else l))"
| "my_rwlock_read_unlock U_counted l = Some (Outside, l\<lparr>protect_reader_count := False\<rparr>)"
| "my_rwlock_read_unlock _ l = None"

definition rw_step :: "rw_phase \<Rightarrow> my_rwlock \<Rightarrow> rw_phase \<Rightarrow> my_rwlock \<Rightarrow> bool" where
  "rw_step p l p' l' \<longleftrightarrow>
     (\<exists>f \<in> {my_rwlock_write_lock, my_rwlock_write_unlock, my_rwlock_read_lock, my_rwlock_read_unlock}. f p l = Some (p', l'))"

inductive rw_reach :: "rw_phase list \<Rightarrow> my_rwlock \<Rightarrow> bool" where
  start: "rw_reach [] my_rwlock_init"
| arrive: "rw_reach ps l \<Longrightarrow> rw_reach (ps @ [Outside]) l"
| move: "rw_reach ps l \<Longrightarrow> i < length ps \<Longrightarrow> rw_step (ps ! i) l p' l' \<Longrightarrow> rw_reach (ps[i := p']) l'"

section \<open>The invariant of the readers-writers lock\<close>

definition has_allow :: "rw_phase \<Rightarrow> bool" where
  "has_allow p \<longleftrightarrow> p \<in> {W_allowed, W_in, R_allowed, R_counting, R_first, R_counted, R_unlocked}"

definition has_mutex :: "rw_phase \<Rightarrow> bool" where
  "has_mutex p \<longleftrightarrow> p \<in> {R_counting, R_first, R_counted, U_counting, U_counted}"

definition is_counted :: "rw_phase \<Rightarrow> bool" where
  "is_counted p \<longleftrightarrow> p \<in> {R_first, R_counted, R_unlocked, R_in, U_counting}"

definition is_writing :: "rw_phase \<Rightarrow> bool" where
  "is_writing p \<longleftrightarrow> p \<in> {W_in, W_leaving}"

lemmas rw_kinds = has_allow_def has_mutex_def is_counted_def is_writing_def

definition rw_inv :: "rw_phase list \<Rightarrow> my_rwlock \<Rightarrow> bool" where
  "rw_inv ps l \<longleftrightarrow>
     allow_readers l + how_many has_allow ps = 1
   \<and> how_many has_mutex ps = (if protect_reader_count l then 1 else 0)
   \<and> reader_count l = int (how_many is_counted ps)
   \<and> (0 < how_many (\<lambda>p. p = R_first) ps \<longrightarrow> reader_count l = 1)
   \<and> no_processes l + how_many is_writing ps
       + (if reader_count l = 0 \<or> 0 < how_many (\<lambda>p. p = R_first) ps then 0 else 1) = 1"

lemma how_many_first:
  "how_many has_mutex ps = how_many (\<lambda>p. p = R_first) ps + how_many (\<lambda>p. has_mutex p \<and> p \<noteq> R_first) ps"
  by (induction ps) (auto simp: has_mutex_def)

lemma rw_inv_step:
  assumes inv: "rw_inv ps l" and i: "i < length ps" and step: "rw_step (ps ! i) l p' l'"
  shows "rw_inv (ps[i := p']) l'"
proof -
  note upd = how_many_update [OF i, of has_allow p'] how_many_update [OF i, of has_mutex p'] how_many_update [OF i, of is_counted p']
    how_many_update [OF i, of is_writing p'] how_many_update [OF i, of "\<lambda>p. p = R_first" p']
  note pos = how_many_pos [OF i, of "\<lambda>p. has_mutex p \<and> p \<noteq> R_first"] how_many_pos [OF i, of "\<lambda>p. p = R_first"]
    how_many_pos [OF i, of is_counted]
  show ?thesis
    using step inv upd pos how_many_first [of ps]
    by (cases "ps ! i")
       (auto simp: rw_step_def rw_waits rw_inv_def rw_kinds Let_def split: if_splits)
qed

lemma rw_reach_inv: "rw_reach ps l \<Longrightarrow> rw_inv ps l"
proof (induction rule: rw_reach.induct)
  case start
  then show ?case by (simp add: rw_inv_def my_rwlock_init_def)
next
  case (arrive ps l)
  then show ?case by (auto simp: rw_inv_def rw_kinds split: if_splits)
qed (rule rw_inv_step)

text \<open>A thread that need not wait, or for which what it waits for is free.\<close>

lemma rw_enabled:
  assumes "p \<noteq> Outside" and "p \<in> {W_allowed, R_first} \<longrightarrow> no_processes l \<noteq> 0" and "p \<in> {R_allowed, R_in} \<longrightarrow> \<not> protect_reader_count l"
  shows "\<exists>p' l'. rw_step p l p' l'"
  using assms by (cases p) (auto simp: rw_step_def rw_waits Let_def)

lemma rw_progress:
  assumes inv: "rw_inv ps l" and busy: "\<exists>p \<in> set ps. p \<noteq> Outside"
  shows "\<exists>p \<in> set ps. p \<noteq> Outside \<and> (\<exists>p' l'. rw_step p l p' l')"
proof (rule ccontr)
  assume stuck: "\<not> ?thesis"
  have "p \<in> {Outside, W_allowed, R_first, R_allowed, R_in}" if "p \<in> set ps" for p
    using stuck that rw_enabled [of p l] by (cases p) auto
  then have nobody: "how_many is_writing ps = 0" "how_many (\<lambda>p. has_mutex p \<and> p \<noteq> R_first) ps = 0"
    by (auto simp: how_many_zero rw_kinds)
  show False
  proof (cases "how_many (\<lambda>p. p = R_first) ps = 0")
    case False
    then have "no_processes l = 1" using inv nobody(1) by (simp add: rw_inv_def)
    moreover obtain p where "p \<in> set ps" "p = R_first" using False by (auto simp: how_many_zero)
    ultimately show False using stuck rw_enabled [of R_first l] by auto
  next
    case True
    then have free: "\<not> protect_reader_count l" using inv nobody(2) how_many_first [of ps] by (simp add: rw_inv_def split: if_splits)
    then have "p \<in> {Outside, W_allowed}" if "p \<in> set ps" for p
      using stuck that rw_enabled [of p l] True by (cases p) (auto simp: how_many_zero)
    then have "how_many is_counted ps = 0" by (auto simp: how_many_zero is_counted_def)
    then have "no_processes l = 1" using inv nobody(1) by (auto simp: rw_inv_def split: if_splits)
    moreover obtain p where "p \<in> set ps" "p \<noteq> Outside" using busy by blast
    ultimately show False using stuck rw_enabled [of p l] free by auto
  qed
qed

section \<open>Properties\<close>

text \<open>
  C20: the readers-writers lock. Whatever threads lock and unlock in whatever order, a writer inside is alone: no other writer
  and no reader is inside. And nobody waits for ever for nothing: as long as some thread is not outside, one of them can
  take its next step.
\<close>
theorem readers_writers:
  assumes "rw_reach ps l"
  shows "(\<forall>i < length ps. \<forall>j < length ps. ps ! i = W_in \<and> i \<noteq> j \<longrightarrow> ps ! j \<noteq> W_in \<and> ps ! j \<noteq> R_in)
    \<and> ((\<exists>p \<in> set ps. p \<noteq> Outside) \<longrightarrow> (\<exists>p \<in> set ps. p \<noteq> Outside \<and> (\<exists>p' l'. rw_step p l p' l')))"
proof -
  have inv: "rw_inv ps l" using rw_reach_inv [OF assms] .
  have "ps ! j \<noteq> W_in \<and> ps ! j \<noteq> R_in" if "i < length ps" "j < length ps" "ps ! i = W_in" "i \<noteq> j" for i j
  proof -
    have "how_many is_writing (ps[i := Outside]) + 1 = how_many is_writing ps"
      using how_many_update [OF that(1), of is_writing Outside] that(3) by (simp add: is_writing_def)
    moreover have "how_many is_writing ps = 1 \<and> (reader_count l = 0 \<or> 0 < how_many (\<lambda>p. p = R_first) ps)"
      using inv how_many_pos [OF that(1), of is_writing] that(3) by (auto simp: rw_inv_def is_writing_def split: if_splits)
    ultimately have w: "how_many is_writing (ps[i := Outside]) = 0" and r: "how_many is_counted ps \<le> how_many (\<lambda>p. p = R_first) ps"
      using inv by (auto simp: rw_inv_def)
    have "how_many is_counted ps = how_many (\<lambda>p. p = R_first) ps + how_many (\<lambda>p. is_counted p \<and> p \<noteq> R_first) ps"
      by (induction ps) (auto simp: is_counted_def)
    then have "how_many (\<lambda>p. is_counted p \<and> p \<noteq> R_first) ps = 0" using r by simp
    then have "\<not> (is_counted (ps ! j) \<and> ps ! j \<noteq> R_first)" using nth_mem [OF that(2)] unfolding how_many_zero by blast
    then have "ps ! j \<noteq> R_in" by (auto simp: is_counted_def)
    moreover have "\<not> is_writing (ps ! j)"
      using w that(2,4) nth_mem [of j "ps[i := Outside]"] by (auto simp: how_many_zero)
    ultimately show ?thesis by (simp add: is_writing_def)
  qed
  then show ?thesis using rw_progress [OF inv] by blast
qed

theorem readers_writers_witness:
  "\<exists>l. rw_reach [W_in, Outside] l \<and> (\<exists>p \<in> set [W_in, Outside]. p \<noteq> Outside \<and> (\<exists>p' l'. rw_step p l p' l'))"
proof -
  let ?l = "\<lparr>allow_readers = 0, no_processes = 0, protect_reader_count = False, reader_count = 0\<rparr>"
  have "rw_reach [Outside] my_rwlock_init" using rw_reach.arrive [OF rw_reach.start] by simp
  from rw_reach.move [OF this, of 0 W_allowed "?l\<lparr>no_processes := 1\<rparr>"]
  have "rw_reach [W_allowed] (?l\<lparr>no_processes := 1\<rparr>)" by (simp add: rw_step_def rw_waits my_rwlock_init_def)
  from rw_reach.move [OF this, of 0 W_in ?l] have "rw_reach [W_in] ?l" by (simp add: rw_step_def rw_waits)
  from rw_reach.arrive [OF this] have reach: "rw_reach [W_in, Outside] ?l" by simp
  from readers_writers [OF this] show ?thesis using reach by (intro exI [of _ ?l]) auto
qed

end
