(* ===== verification/OW_Property.thy ===== *)
theory OW_Property
  imports OW_Store
begin

text \<open>
  Reading and writing a property of a device in this process: \<^verbatim>\<open>FS_r_local\<close> of \<^verbatim>\<open>ow_read.c\<close>, \<^verbatim>\<open>FS_w_local\<close> of
  \<^verbatim>\<open>ow_write.c\<close> and what they call, with \<^verbatim>\<open>ow_filelength.c\<close>, \<^verbatim>\<open>ow_byte.c\<close> and the copies of queries of \<^verbatim>\<open>ow_parseobject.c\<close>. A
  property may be an array, whose elements are read one by one (separate), all at once (aggregate) or either way
  (mixed), and every value read goes through the cache. The functions of the driver are parameters, since each chip
  has its own. \<^const>\<open>None\<close> is undefined behaviour: memory that does not belong to the query is used, or a null pointer.
\<close>

section \<open>State and environment\<close>

text \<open>The cache, the clock (in seconds), the number of allocations made so far, and the device.\<close>

record 'd fs_state =
  fs_cache :: cache_data
  fs_clock :: int
  fs_allocs :: nat
  fs_dev :: 'd

type_synonym 'd fs_result = "(int \<times> one_wire_query \<times> 'd fs_state) option"

type_synonym 'd driver = "one_wire_query \<Rightarrow> 'd fs_state \<Rightarrow> int \<times> one_wire_query \<times> 'd fs_state"

datatype pn_type = ePN_root | ePN_real | ePN_statistics | ePN_system | ePN_settings | ePN_structure | ePN_interface

text \<open>The rest of \<^verbatim>\<open>struct filetype\<close> and of the parsed name: the functions of the driver with the two that are recognised by
  their address, the suggested length, and the kind of directory.\<close>

record 'd property =
  p_read :: "'d driver option"
  p_write :: "'d driver option"
  p_read_alias :: bool
  p_suglen :: nat
  p_type :: pn_type

text \<open>Settings, the outcome of each allocation, and the values of fake and tester adapters.\<close>

record 'd fs_env =
  e_globals :: globals
  e_alloc :: "nat \<Rightarrow> bool"
  e_read_fake :: "'d driver"
  e_read_tester :: "'d driver"

definition owmalloc :: "'d fs_env \<Rightarrow> 'd fs_state \<Rightarrow> bool \<times> 'd fs_state" where
  "owmalloc env st = (e_alloc env (fs_allocs st), st\<lparr>fs_allocs := fs_allocs st + 1\<rparr>)"

definition ENOENT :: int where [errnos]: "ENOENT = 2"
definition ENOTSUP :: int where [errnos]: "ENOTSUP = 95"

section \<open>Queries\<close>

abbreviation owq_ft :: "one_wire_query \<Rightarrow> filetype" where
  "owq_ft owq \<equiv> cp_filetype (owq_pn owq)"

abbreviation owq_extension :: "one_wire_query \<Rightarrow> int" where
  "owq_extension owq \<equiv> cp_extension (owq_pn owq)"

abbreviation set_extension :: "int \<Rightarrow> one_wire_query \<Rightarrow> one_wire_query" where
  "set_extension e owq \<equiv> owq\<lparr>owq_pn := (owq_pn owq)\<lparr>cp_extension := e\<rparr>\<rparr>"

text \<open>The members of the union: the unsigned value and the yes-or-no value are its first four bytes.\<close>

definition OWQ_U :: "one_wire_query \<Rightarrow> uint" where
  "OWQ_U owq = UT_uint32 (owq_val owq)"

definition set_OWQ_U :: "uint \<Rightarrow> one_wire_query \<Rightarrow> one_wire_query" where
  "set_OWQ_U u owq = owq\<lparr>owq_val := overlay (UT_uint32_to_bytes u) (owq_val owq)\<rparr>"

definition OWQ_Y :: "one_wire_query \<Rightarrow> bool" where
  "OWQ_Y owq \<longleftrightarrow> OWQ_U owq \<noteq> 0"

definition set_OWQ_Y :: "bool \<Rightarrow> one_wire_query \<Rightarrow> one_wire_query" where
  "set_OWQ_Y y owq = set_OWQ_U (of_bool y) owq"

text \<open>One object of the array of a query; \<^const>\<open>None\<close> outside its bounds.\<close>

definition OWQ_array_val :: "one_wire_query \<Rightarrow> nat \<Rightarrow> byte list option" where
  "OWQ_array_val owq i =
     (if (i + 1) * sizeof_value_object \<le> length (owq_array owq)
      then Some (take sizeof_value_object (drop (i * sizeof_value_object) (owq_array owq))) else None)"

definition set_array_val :: "nat \<Rightarrow> byte list \<Rightarrow> one_wire_query \<Rightarrow> one_wire_query option" where
  "set_array_val i v owq = map_option (\<lambda>a. owq\<lparr>owq_array := a\<rparr>) (blk_store (i * sizeof_value_object) v (owq_array owq))"

definition size_bytes :: "nat \<Rightarrow> byte list" where
  "size_bytes n = map (\<lambda>i. word_of_nat (n div 256 ^ i)) [0..<8]"

definition bytes_size :: "byte list \<Rightarrow> nat" where
  "bytes_size bs = foldr (\<lambda>b n. unat b + 256 * n) bs 0"

definition OWQ_array_length :: "one_wire_query \<Rightarrow> nat \<Rightarrow> nat option" where
  "OWQ_array_length owq i = map_option bytes_size (OWQ_array_val owq i)"

definition elements_of :: "one_wire_query \<Rightarrow> nat option" where
  "elements_of owq = map_option ag_elements (ft_ag (owq_ft owq))"

definition IsDir :: "'d property \<Rightarrow> one_wire_query \<Rightarrow> bool" where
  "IsDir p owq \<longleftrightarrow> ft_form (owq_ft owq) \<in> {ft_directory, ft_subdir}"

section \<open>Lengths of properties\<close>

definition PROPERTY_LENGTH_STRUCTURE :: nat where "PROPERTY_LENGTH_STRUCTURE = 32"
definition PROPERTY_LENGTH_DIRECTORY :: nat where "PROPERTY_LENGTH_DIRECTORY = 8"
definition PROPERTY_LENGTH_YESNO :: nat where "PROPERTY_LENGTH_YESNO = 1"
definition PROPERTY_LENGTH_INTEGER :: nat where "PROPERTY_LENGTH_INTEGER = 12"
definition PROPERTY_LENGTH_UNSIGNED :: nat where "PROPERTY_LENGTH_UNSIGNED = 12"
definition PROPERTY_LENGTH_FLOAT :: nat where "PROPERTY_LENGTH_FLOAT = 12"
definition PROPERTY_LENGTH_DATE :: nat where "PROPERTY_LENGTH_DATE = 24"

lemmas property_lengths =
  PROPERTY_LENGTH_STRUCTURE_def PROPERTY_LENGTH_DIRECTORY_def PROPERTY_LENGTH_YESNO_def PROPERTY_LENGTH_INTEGER_def
  PROPERTY_LENGTH_UNSIGNED_def PROPERTY_LENGTH_FLOAT_def PROPERTY_LENGTH_DATE_def

definition FileLength :: "'d property \<Rightarrow> one_wire_query \<Rightarrow> nat" where
  "FileLength p owq =
     (if p_type p = ePN_structure then PROPERTY_LENGTH_STRUCTURE
      else if IsDir p owq then PROPERTY_LENGTH_DIRECTORY
      else
        case ft_form (owq_ft owq) of
          ft_yesno \<Rightarrow> PROPERTY_LENGTH_YESNO
        | ft_integer \<Rightarrow> PROPERTY_LENGTH_INTEGER
        | ft_unsigned \<Rightarrow> PROPERTY_LENGTH_UNSIGNED
        | ft_float \<Rightarrow> PROPERTY_LENGTH_FLOAT
        | ft_pressure \<Rightarrow> PROPERTY_LENGTH_FLOAT
        | ft_temperature \<Rightarrow> PROPERTY_LENGTH_FLOAT
        | ft_tempgap \<Rightarrow> PROPERTY_LENGTH_FLOAT
        | ft_date \<Rightarrow> PROPERTY_LENGTH_DATE
        | ft_bitfield \<Rightarrow> if owq_extension owq = EXTENSION_BYTE then PROPERTY_LENGTH_UNSIGNED else PROPERTY_LENGTH_YESNO
        | _ \<Rightarrow> p_suglen p)"

text \<open>The sizes are unsigned, so an array without elements would give a huge length; \<^const>\<open>None\<close> when there is no array.\<close>

definition size_t :: "int \<Rightarrow> nat" where
  "size_t i = nat (i mod 2 ^ 64)"

definition FullFileLength :: "'d property \<Rightarrow> one_wire_query \<Rightarrow> nat option" where
  "FullFileLength p owq =
     (let entry_length = FileLength p owq in
      if p_type p = ePN_structure then Some entry_length
      else if owq_extension owq \<noteq> EXTENSION_ALL then Some entry_length
      else
        map_option (\<lambda>elements.
            if ft_form (owq_ft owq) = ft_binary then entry_length * elements
            else size_t (int ((entry_length + 1) * elements) - 1))
          (elements_of owq))"

definition adjust_file_size :: "'d property \<Rightarrow> one_wire_query \<Rightarrow> one_wire_query option" where
  "adjust_file_size p owq =
     map_option (\<lambda>file_length.
         if size_t (owq_offset owq) \<ge> file_length then owq\<lparr>owq_size := 0\<rparr>
         else if size_t (int (owq_size owq) + owq_offset owq) > file_length
         then owq\<lparr>owq_size := size_t (int file_length - owq_offset owq)\<rparr>
         else owq)
       (FullFileLength p owq)"

section \<open>Copies of a query\<close>

text \<open>\<^verbatim>\<open>OWQ_create_separate\<close> and \<^verbatim>\<open>OWQ_create_aggregate\<close>: a zeroed query for the same property with another extension, a buffer of one
  byte, and an array for \<^verbatim>\<open>ALL\<close>. The inner \<^const>\<open>None\<close> is \<^verbatim>\<open>NO_ONE_WIRE_QUERY\<close>.\<close>

definition OWQ_copy :: "int \<Rightarrow> one_wire_query \<Rightarrow> one_wire_query" where
  "OWQ_copy extension owq =
     \<lparr>owq_buffer = [0], owq_size = 1, owq_offset = 0, owq_val = replicate sizeof_value_object 0, owq_length = 0, owq_array = [],
      owq_simul = False, owq_pn = (owq_pn owq)\<lparr>cp_extension := extension\<rparr>\<rparr>"

definition OWQ_create_separate ::
  "'d fs_env \<Rightarrow> int \<Rightarrow> one_wire_query \<Rightarrow> 'd fs_state \<Rightarrow> one_wire_query option \<times> 'd fs_state" where
  "OWQ_create_separate env extension owq st =
     (case owmalloc env st of (ok, st) \<Rightarrow> (if ok then Some (OWQ_copy extension owq) else None, st))"

text \<open>\<open>None\<close> outside: there is no array to take the number of elements of.\<close>

definition OWQ_allocate_array ::
  "'d fs_env \<Rightarrow> 'd property \<Rightarrow> one_wire_query \<Rightarrow> 'd fs_state \<Rightarrow> (GOOD_OR_BAD \<times> one_wire_query \<times> 'd fs_state) option" where
  "OWQ_allocate_array env p owq st =
     (if owq_extension owq = EXTENSION_ALL \<and> p_type p \<noteq> ePN_structure then
        map_option (\<lambda>elements.
            case owmalloc env st of (ok, st) \<Rightarrow>
              if ok then (gbGOOD, owq\<lparr>owq_array := replicate (elements * sizeof_value_object) 0\<rparr>, st)
              else (gbBAD, owq, st))
          (elements_of owq)
      else Some (gbGOOD, set_OWQ_U 0 owq, st))"

definition OWQ_create_aggregate ::
  "'d fs_env \<Rightarrow> 'd property \<Rightarrow> one_wire_query \<Rightarrow> 'd fs_state \<Rightarrow> (one_wire_query option \<times> 'd fs_state) option" where
  "OWQ_create_aggregate env p owq st =
     (case owmalloc env st of (ok, st) \<Rightarrow>
        if \<not> ok then Some (None, st)
        else
          map_option (\<lambda>(gb, owq_all, st). (if BAD gb then None else Some owq_all, st))
            (OWQ_allocate_array env p (OWQ_copy EXTENSION_ALL owq) st))"

definition OWQ_allocate_read_buffer ::
  "'d fs_env \<Rightarrow> 'd property \<Rightarrow> one_wire_query \<Rightarrow> 'd fs_state \<Rightarrow> (GOOD_OR_BAD \<times> one_wire_query \<times> 'd fs_state) option" where
  "OWQ_allocate_read_buffer env p owq st =
     map_option (\<lambda>len.
         if len > 0 then
           case owmalloc env st of (ok, st) \<Rightarrow>
             if ok then (gbGOOD, owq\<lparr>owq_buffer := replicate (len + 1) 0, owq_size := len, owq_offset := 0\<rparr>, st)
             else (gbBAD, owq, st)
         else (gbGOOD, owq, st))
       (FullFileLength p owq)"

text \<open>\<^verbatim>\<open>OWQ_array_Y(owq_all, i) = bit\<close> for every element, and back.\<close>

fun bits_to_array :: "uint \<Rightarrow> nat list \<Rightarrow> one_wire_query \<Rightarrow> one_wire_query option" where
  "bits_to_array u [] owq = Some owq"
| "bits_to_array u (i # is) owq =
     (case OWQ_array_val owq i of
        None \<Rightarrow> None
      | Some v \<Rightarrow> Option.bind (set_array_val i (overlay (UT_uint32_to_bytes (of_bool (UT_getbit_U u i))) v) owq) (bits_to_array u is))"

fun array_to_bits :: "one_wire_query \<Rightarrow> nat list \<Rightarrow> uint \<Rightarrow> uint option" where
  "array_to_bits owq_all [] u = Some u"
| "array_to_bits owq_all (i # is) u =
     (case OWQ_array_val owq_all i of
        None \<Rightarrow> None
      | Some v \<Rightarrow> array_to_bits owq_all is (UT_setbit_U u i (UT_uint32 v \<noteq> 0)))"

definition ALLtoBYTE ::
  "'d fs_env \<Rightarrow> one_wire_query \<Rightarrow> 'd fs_state \<Rightarrow> (one_wire_query option \<times> 'd fs_state) option" where
  "ALLtoBYTE env owq_all st =
     (case OWQ_create_separate env EXTENSION_BYTE owq_all st of
        (None, st) \<Rightarrow> Some (None, st)
      | (Some owq_byte, st) \<Rightarrow>
          Option.bind (elements_of owq_all)
            (\<lambda>elements. map_option (\<lambda>u. (Some (set_OWQ_U u owq_byte), st))
               (array_to_bits owq_all [0..<elements] (OWQ_U owq_byte))))"

definition BYTEtoALL ::
  "'d fs_env \<Rightarrow> 'd property \<Rightarrow> one_wire_query \<Rightarrow> 'd fs_state \<Rightarrow> (one_wire_query option \<times> 'd fs_state) option" where
  "BYTEtoALL env p owq_byte st =
     (case OWQ_create_aggregate env p owq_byte st of
        None \<Rightarrow> None
      | Some (None, st) \<Rightarrow> Some (None, st)
      | Some (Some owq_all, st) \<Rightarrow>
          Option.bind (elements_of owq_all)
            (\<lambda>elements. map_option (\<lambda>q. (Some q, st)) (bits_to_array (OWQ_U owq_byte) [0..<elements] owq_all)))"

section \<open>Reading\<close>

definition cache_get :: "'d fs_env \<Rightarrow> one_wire_query \<Rightarrow> 'd fs_state \<Rightarrow> (GOOD_OR_BAD \<times> one_wire_query \<times> 'd fs_state) option" where
  "cache_get env owq st =
     map_option (\<lambda>(gb, owq, c). (gb, owq, st\<lparr>fs_cache := c\<rparr>)) (OWQ_Cache_Get (e_globals env) (fs_clock st) owq (fs_cache st))"

definition cache_add :: "'d fs_env \<Rightarrow> one_wire_query \<Rightarrow> 'd fs_state \<Rightarrow> 'd fs_state option" where
  "cache_add env owq st =
     (case owmalloc env st of (mok, st) \<Rightarrow> case owmalloc env st of (tok, st) \<Rightarrow>
        map_option (\<lambda>(_, c). st\<lparr>fs_cache := c\<rparr>) (OWQ_Cache_Add (e_globals env) (fs_clock st) mok tok owq (fs_cache st)))"

text \<open>A deletion of \<open>OW_Cache\<close> applied to the cache of the state.\<close>

definition cache_del ::
  "(globals \<Rightarrow> int \<Rightarrow> cache_pn \<Rightarrow> cache_data \<Rightarrow> cache_data) \<Rightarrow> 'd fs_env \<Rightarrow> one_wire_query \<Rightarrow> 'd fs_state \<Rightarrow> 'd fs_state" where
  "cache_del del env owq st = st\<lparr>fs_cache := del (e_globals env) (fs_clock st) (owq_pn owq) (fs_cache st)\<rparr>"

definition FS_read_owq :: "'d fs_env \<Rightarrow> 'd property \<Rightarrow> one_wire_query \<Rightarrow> 'd fs_state \<Rightarrow> 'd fs_result" where
  "FS_read_owq env p owq st =
     (case cache_get env owq st of
        None \<Rightarrow> None
      | Some (gb, owq, st) \<Rightarrow>
          if BAD gb then
            (case p_read p of
               None \<Rightarrow> None
             | Some rd \<Rightarrow>
                 (case rd owq st of (read_error, owq, st) \<Rightarrow>
                    if read_error < 0 then Some (read_error, owq, st)
                    else map_option (\<lambda>st. (0, owq, st)) (cache_add env owq st)))
          else Some (0, owq, st))"

text \<open>Reading with the copy \<open>owq'\<close> in place of \<open>owq\<close>: on success \<open>f\<close> gives the query back, on failure the error is \<open>e\<close>.\<close>

definition read_copy ::
  "'d fs_env \<Rightarrow> 'd property \<Rightarrow> int \<Rightarrow> (one_wire_query \<Rightarrow> one_wire_query option) \<Rightarrow> one_wire_query \<Rightarrow> one_wire_query \<Rightarrow> 'd fs_state
     \<Rightarrow> 'd fs_result" where
  "read_copy env p e f owq' owq st =
     (case FS_read_owq env p owq' st of
        None \<Rightarrow> None
      | Some (ret, owq', st) \<Rightarrow> if ret < 0 then Some (e, owq, st) else map_option (\<lambda>owq. (0, owq, st)) (f owq'))"

definition FS_read_all :: "'d fs_env \<Rightarrow> 'd property \<Rightarrow> one_wire_query \<Rightarrow> 'd fs_state \<Rightarrow> 'd fs_result" where
  "FS_read_all env p owq_all st =
     (if ft_form (owq_ft owq_all) = ft_bitfield then
        (case OWQ_create_separate env EXTENSION_BYTE owq_all st of
           (None, st) \<Rightarrow> Some (- EINVAL, owq_all, st)
         | (Some owq_byte, st) \<Rightarrow>
             read_copy env p (- EINVAL)
               (\<lambda>owq_byte. Option.bind (elements_of owq_all) (\<lambda>n. bits_to_array (OWQ_U owq_byte) [0..<n] owq_all))
               owq_byte owq_all st)
      else FS_read_owq env p owq_all st)"

text \<open>The loop of \<^verbatim>\<open>FS_read_in_parts\<close>; \<open>pos\<close> is where \<^verbatim>\<open>buffer_pointer\<close> points and \<open>left\<close> is \<^verbatim>\<open>buffer_left\<close>.\<close>

fun read_parts_loop ::
  "'d fs_env \<Rightarrow> 'd property \<Rightarrow> nat list \<Rightarrow> one_wire_query \<Rightarrow> nat \<Rightarrow> nat \<Rightarrow> one_wire_query \<Rightarrow> 'd fs_state \<Rightarrow> 'd fs_result" where
  "read_parts_loop env p [] owq_part pos left owq_all st = Some (0, owq_all, st)"
| "read_parts_loop env p (extension # es) owq_part pos left owq_all st =
     (case FS_read_owq env p (set_extension (int extension) owq_part) st of
        None \<Rightarrow> None
      | Some (ret, owq_part, st) \<Rightarrow>
          if ret < 0 then Some (- EINVAL, owq_all, st)
          else if string_format (ft_form (owq_ft owq_all)) then
            let part_length = owq_length owq_part in
            if left < part_length then Some (- EMSGSIZE, owq_all, st)
            else if part_length > length (owq_buffer owq_part) then None
            else
              (case blk_store pos (take part_length (owq_buffer owq_part)) (owq_buffer owq_all) of
                 None \<Rightarrow> None
               | Some b \<Rightarrow>
                   (case set_array_val extension (size_bytes part_length) (owq_all\<lparr>owq_buffer := b\<rparr>) of
                      None \<Rightarrow> None
                    | Some owq_all \<Rightarrow>
                        read_parts_loop env p es owq_part (pos + part_length) (left - part_length) owq_all st))
          else
            (case set_array_val extension (owq_val owq_part) owq_all of
               None \<Rightarrow> None
             | Some owq_all \<Rightarrow> read_parts_loop env p es owq_part pos left owq_all st))"

definition FS_read_in_parts :: "'d fs_env \<Rightarrow> 'd property \<Rightarrow> one_wire_query \<Rightarrow> 'd fs_state \<Rightarrow> 'd fs_result" where
  "FS_read_in_parts env p owq_all st =
     (case elements_of owq_all of
        None \<Rightarrow> None
      | Some elements \<Rightarrow>
          (case OWQ_create_separate env 0 owq_all st of
             (None, st) \<Rightarrow> Some (- ENOENT, owq_all, st)
           | (Some owq_part, st) \<Rightarrow>
               if ft_form (owq_ft owq_all) = ft_bitfield then
                 read_copy env p (- EINVAL) (\<lambda>owq_part. bits_to_array (OWQ_U owq_part) [0..<elements] owq_all)
                   (set_extension EXTENSION_BYTE owq_part) owq_all st
               else
                 (case OWQ_allocate_read_buffer env p owq_part st of
                    None \<Rightarrow> None
                  | Some (gb, owq_part, st) \<Rightarrow>
                      if BAD gb then Some (- EMSGSIZE, owq_all, st)
                      else read_parts_loop env p [0..<elements] owq_part 0 (owq_size owq_all) owq_all st)))"

fun read_bits_loop ::
  "'d fs_env \<Rightarrow> 'd property \<Rightarrow> nat list \<Rightarrow> one_wire_query \<Rightarrow> one_wire_query \<Rightarrow> 'd fs_state \<Rightarrow> 'd fs_result" where
  "read_bits_loop env p [] owq_bit owq_byte st = Some (0, owq_byte, st)"
| "read_bits_loop env p (extension # es) owq_bit owq_byte st =
     (case FS_read_owq env p (set_extension (int extension) owq_bit) st of
        None \<Rightarrow> None
      | Some (ret, owq_bit, st) \<Rightarrow>
          if ret < 0 then Some (- EINVAL, owq_byte, st)
          else
            read_bits_loop env p es owq_bit (set_OWQ_U (UT_setbit_U (OWQ_U owq_byte) extension (OWQ_Y owq_bit)) owq_byte) st)"

definition FS_read_all_bits :: "'d fs_env \<Rightarrow> 'd property \<Rightarrow> one_wire_query \<Rightarrow> 'd fs_state \<Rightarrow> 'd fs_result" where
  "FS_read_all_bits env p owq_byte st =
     (case OWQ_create_separate env 0 owq_byte st of (owq_bit, st) \<Rightarrow>
        (case elements_of owq_byte of
           None \<Rightarrow> None
         | Some elements \<Rightarrow>
             (case owq_bit of
                None \<Rightarrow> Some (- ENOENT, owq_byte, st)
              | Some owq_bit \<Rightarrow> read_bits_loop env p [0..<elements] owq_bit owq_byte st)))"

definition FS_read_a_bit :: "'d fs_env \<Rightarrow> 'd property \<Rightarrow> one_wire_query \<Rightarrow> 'd fs_state \<Rightarrow> 'd fs_result" where
  "FS_read_a_bit env p owq_bit st =
     (case OWQ_create_separate env EXTENSION_BYTE owq_bit st of
        (None, st) \<Rightarrow> Some (- ENOENT, owq_bit, st)
      | (Some owq_byte, st) \<Rightarrow>
          read_copy env p (- ENOENT)
            (\<lambda>owq_byte. Some (set_OWQ_Y (UT_getbit_U (OWQ_U owq_byte) (nat (owq_extension owq_bit))) owq_bit)) owq_byte owq_bit st)"

text \<open>Where the string of element \<open>n\<close> starts in the buffer.\<close>

fun prior_lengths :: "one_wire_query \<Rightarrow> nat \<Rightarrow> nat option" where
  "prior_lengths owq_all 0 = Some 0"
| "prior_lengths owq_all (Suc n) =
     Option.bind (prior_lengths owq_all n) (\<lambda>pos. map_option ((+) pos) (OWQ_array_length owq_all n))"

definition part_of_array :: "one_wire_query \<Rightarrow> one_wire_query \<Rightarrow> one_wire_query option" where
  "part_of_array owq_part owq_all =
     (let extension = nat (owq_extension owq_part) in
      if string_format (ft_form (owq_ft owq_part)) then
        Option.bind (prior_lengths owq_all extension) (\<lambda>pos.
        Option.bind (OWQ_array_length owq_all extension) (\<lambda>len.
          if pos + len > length (owq_buffer owq_all) then None
          else
            map_option (\<lambda>b. owq_part\<lparr>owq_length := len, owq_buffer := b\<rparr>)
              (blk_store 0 (take len (drop pos (owq_buffer owq_all))) (owq_buffer owq_part))))
      else map_option (\<lambda>v. owq_part\<lparr>owq_val := v\<rparr>) (OWQ_array_val owq_all extension))"

definition FS_read_a_part :: "'d fs_env \<Rightarrow> 'd property \<Rightarrow> one_wire_query \<Rightarrow> 'd fs_state \<Rightarrow> 'd fs_result" where
  "FS_read_a_part env p owq_part st =
     (if ft_form (owq_ft owq_part) = ft_bitfield then FS_read_a_bit env p owq_part st
      else
        (case OWQ_create_aggregate env p owq_part st of
           None \<Rightarrow> None
         | Some (None, st) \<Rightarrow> Some (- ENOENT, owq_part, st)
         | Some (Some owq_all, st) \<Rightarrow> read_copy env p (- EINVAL) (part_of_array owq_part) owq_all owq_part st))"

definition driver_result :: "'d driver option \<Rightarrow> one_wire_query \<Rightarrow> 'd fs_state \<Rightarrow> 'd fs_result" where
  "driver_result d owq st = map_option (\<lambda>d. d owq st) d"

text \<open>The property as the aggregate wants it.\<close>

definition FS_r_array :: "'d fs_env \<Rightarrow> 'd property \<Rightarrow> aggregate \<Rightarrow> one_wire_query \<Rightarrow> 'd fs_state \<Rightarrow> 'd fs_result" where
  "FS_r_array env p ag owq st =
     (case ag_comb ag of
        ag_sparse \<Rightarrow> driver_result (p_read p) owq st
      | ag_aggregate \<Rightarrow>
          if owq_extension owq = EXTENSION_BYTE then FS_read_owq env p owq st
          else if owq_extension owq = EXTENSION_ALL then FS_read_all env p owq st
          else FS_read_a_part env p owq st
      | ag_mixed \<Rightarrow>
          if owq_extension owq = EXTENSION_BYTE then FS_read_owq env p owq (cache_del OWQ_Cache_Del_parts env owq st)
          else if owq_extension owq = EXTENSION_ALL then FS_read_all env p owq (cache_del OWQ_Cache_Del_parts env owq st)
          else FS_read_owq env p owq (cache_del OWQ_Cache_Del_BYTE env owq (cache_del OWQ_Cache_Del_ALL env owq st))
      | ag_separate \<Rightarrow>
          if owq_extension owq = EXTENSION_BYTE then FS_read_all_bits env p owq st
          else if owq_extension owq = EXTENSION_ALL then FS_read_in_parts env p owq st
          else FS_read_owq env p owq st)"

text \<open>
  Adapters without real devices behind them; \<^const>\<open>None\<close> for the others. The code looks at \<^verbatim>\<open>Adapter\<close>, which is set for these three (\<^verbatim>\<open>ow_fake.c\<close>, \<^verbatim>\<open>ow_arg.c\<close>) exactly when
  the mode of the bus is the one of the same name.
\<close>

definition FS_r_virtual_adapter :: "'d fs_env \<Rightarrow> bus_mode \<Rightarrow> (one_wire_query \<Rightarrow> 'd fs_state \<Rightarrow> 'd fs_result) option" where
  "FS_r_virtual_adapter env mode =
     (case mode of
        bus_fake \<Rightarrow> Some (driver_result (Some (e_read_fake env)))
      | bus_tester \<Rightarrow> Some (driver_result (Some (e_read_tester env)))
      | bus_mock \<Rightarrow>
          Some (\<lambda>owq st. case cache_get env owq st of
            None \<Rightarrow> None
          | Some (gb, owq, st) \<Rightarrow> if GOOD gb then Some (0, owq, st) else Some (e_read_fake env owq st))
      | _ \<Rightarrow> None)"

definition FS_r_local :: "'d fs_env \<Rightarrow> 'd property \<Rightarrow> one_wire_query \<Rightarrow> 'd fs_state \<Rightarrow> 'd fs_result" where
  "FS_r_local env p owq st =
     (let ft = owq_ft owq;
          plain = (\<lambda>owq. case ft_ag ft of None \<Rightarrow> FS_read_owq env p owq st | Some ag \<Rightarrow> FS_r_array env p ag owq st)
      in
      if p_read p = None then Some (- ENOTSUP, owq, st)
      else
        (case adjust_file_size p owq of
           None \<Rightarrow> None
         | Some owq \<Rightarrow>
             if owq_size owq = 0 then Some (0, owq, st)
             else if p_read_alias p then FS_read_owq env p owq st
             else if ft_change ft \<noteq> fc_static \<and> ft_form ft \<noteq> ft_alias \<and> p_type p = ePN_real then
               (case cp_connection (owq_pn owq) of
                  None \<Rightarrow> None
                | Some (_, mode) \<Rightarrow>
                    (case FS_r_virtual_adapter env mode of Some f \<Rightarrow> f owq st | None \<Rightarrow> plain owq))
             else plain owq))"

section \<open>Writing\<close>

definition FS_write_owq :: "'d fs_env \<Rightarrow> 'd property \<Rightarrow> one_wire_query \<Rightarrow> 'd fs_state \<Rightarrow> 'd fs_result" where
  "FS_write_owq env p owq st =
     map_option (\<lambda>(ret, owq, st). (ret, owq, cache_del OWQ_Cache_Del env owq st)) (driver_result (p_write p) owq st)"

text \<open>Writing the copy \<open>owq'\<close> in place of \<open>owq\<close>.\<close>

definition write_copy :: "'d fs_env \<Rightarrow> 'd property \<Rightarrow> one_wire_query \<Rightarrow> one_wire_query \<Rightarrow> 'd fs_state \<Rightarrow> 'd fs_result" where
  "write_copy env p owq' owq st = map_option (\<lambda>(ret, _, st). (ret, owq, st)) (FS_write_owq env p owq' st)"

definition FS_write_a_bit :: "'d fs_env \<Rightarrow> 'd property \<Rightarrow> one_wire_query \<Rightarrow> 'd fs_state \<Rightarrow> 'd fs_result" where
  "FS_write_a_bit env p owq_bit st =
     (case OWQ_create_separate env EXTENSION_BYTE owq_bit st of
        (None, st) \<Rightarrow> Some (- ENOENT, owq_bit, st)
      | (Some owq_byte, st) \<Rightarrow>
          (case FS_r_local env p owq_byte st of
             None \<Rightarrow> None
           | Some (ret, owq_byte, st) \<Rightarrow>
               if ret \<ge> 0 then
                 write_copy env p
                   (set_OWQ_U (UT_setbit_U (OWQ_U owq_byte) (nat (owq_extension owq_bit)) (OWQ_Y owq_bit)) owq_byte) owq_bit st
               else Some (- ENOENT, owq_bit, st)))"

text \<open>
  The first loop of \<^verbatim>\<open>FS_write_a_part\<close> for strings. It increments \<open>extension\<close> and not its index, which stays 0, so it adds the
  length of element 0 until \<open>extension\<close>, an unsigned integer of 64 bits, has become 0. Moving the pointer past the end of
  the buffer is undefined.
\<close>

function skip_prior :: "nat \<Rightarrow> nat \<Rightarrow> 64 word \<Rightarrow> nat \<Rightarrow> (64 word \<times> nat) option" where
  "skip_prior end_pos len0 extension pos =
     (if 0 < extension then
        if pos + len0 > end_pos then None else skip_prior end_pos len0 (extension + 1) (pos + len0)
      else Some (extension, pos))"
  by pat_completeness auto
termination
proof (relation "measure (\<lambda>(end_pos, len0, extension, pos). unat (- extension))")
  fix end_pos len0 pos :: nat and extension :: "64 word"
  assume "0 < extension"
  then have "- extension \<noteq> 0" by auto
  then have "unat (- extension - 1) < unat (- extension)" by (simp add: unat_minus_one unat_gt_0)
  then show "((end_pos, len0, extension + 1, pos + len0), end_pos, len0, extension, pos)
      \<in> measure (\<lambda>(end_pos, len0, extension, pos). unat (- extension))" by simp
qed simp

declare skip_prior.simps [simp del]

text \<open>The later elements move to their new places, one by one.\<close>

fun move_rest :: "one_wire_query \<Rightarrow> nat list \<Rightarrow> nat \<Rightarrow> nat \<Rightarrow> byte list \<Rightarrow> byte list option" where
  "move_rest owq_all [] target pos b = Some b"
| "move_rest owq_all (i # is) target pos b =
     Option.bind (OWQ_array_length owq_all i) (\<lambda>len.
       if pos + len > length b then None
       else Option.bind (blk_store target (take len (drop pos b)) b) (move_rest owq_all is (target + len) (pos + len)))"

definition replace_part :: "nat \<Rightarrow> one_wire_query \<Rightarrow> one_wire_query \<Rightarrow> one_wire_query option" where
  "replace_part elements owq_part owq_all =
     (let extension = word_of_int (owq_extension owq_part) in
      if string_format (ft_form (owq_ft owq_part)) then
        Option.bind (OWQ_array_length owq_all 0) (\<lambda>len0.
        Option.bind (skip_prior (length (owq_buffer owq_all)) len0 extension 0) (\<lambda>(extension, entry).
        Option.bind (OWQ_array_length owq_all (unat extension)) (\<lambda>old.
        Option.bind (move_rest owq_all [unat extension + 1..<elements] (entry + owq_length owq_part) (entry + old) (owq_buffer owq_all))
          (\<lambda>b.
        if owq_length owq_part > length (owq_buffer owq_part) then None
        else
          Option.bind (blk_store entry (take (owq_length owq_part) (owq_buffer owq_part)) b) (\<lambda>b.
            set_array_val (unat extension) (size_bytes (owq_length owq_part)) (owq_all\<lparr>owq_buffer := b\<rparr>))))))
      else set_array_val (nat (owq_extension owq_part)) (owq_val owq_part) owq_all)"

definition FS_write_a_part :: "'d fs_env \<Rightarrow> 'd property \<Rightarrow> one_wire_query \<Rightarrow> 'd fs_state \<Rightarrow> 'd fs_result" where
  "FS_write_a_part env p owq_part st =
     (if ft_form (owq_ft owq_part) = ft_bitfield then FS_write_a_bit env p owq_part st
      else
        (case OWQ_create_aggregate env p owq_part st of
           None \<Rightarrow> None
         | Some (None, st) \<Rightarrow> Some (- ENOENT, owq_part, st)
         | Some (Some owq_all, st) \<Rightarrow>
             (case FS_r_local env p owq_all st of
                None \<Rightarrow> None
              | Some (ret, owq_all, st) \<Rightarrow>
                  if ret < 0 then Some (- ENOENT, owq_part, st)
                  else
                    Option.bind (elements_of owq_part) (\<lambda>elements.
                    Option.bind (replace_part elements owq_part owq_all) (\<lambda>owq_all. write_copy env p owq_all owq_part st)))))"

definition FS_write_all_bits :: "'d fs_env \<Rightarrow> 'd property \<Rightarrow> one_wire_query \<Rightarrow> 'd fs_state \<Rightarrow> 'd fs_result" where
  "FS_write_all_bits env p owq_all st =
     (case ALLtoBYTE env owq_all st of
        None \<Rightarrow> None
      | Some (None, st) \<Rightarrow> Some (- ENOENT, owq_all, st)
      | Some (Some owq_byte, st) \<Rightarrow> write_copy env p owq_byte owq_all st)"

definition FS_write_all :: "'d fs_env \<Rightarrow> 'd property \<Rightarrow> one_wire_query \<Rightarrow> 'd fs_state \<Rightarrow> 'd fs_result" where
  "FS_write_all env p owq_all st =
     (if ft_form (owq_ft owq_all) = ft_bitfield then FS_write_all_bits env p owq_all st else FS_write_owq env p owq_all st)"

text \<open>The loop of \<^verbatim>\<open>FS_write_in_parts\<close>: strings are taken from the buffer at \<open>pos\<close>, other values from the array. All elements are
  written, and the last error is returned.\<close>

fun write_parts_loop ::
  "'d fs_env \<Rightarrow> 'd property \<Rightarrow> nat list \<Rightarrow> nat \<Rightarrow> one_wire_query \<Rightarrow> nat \<Rightarrow> int \<Rightarrow> one_wire_query \<Rightarrow> 'd fs_state \<Rightarrow> 'd fs_result" where
  "write_parts_loop env p [] fileSize owq_part pos z_or_e owq_all st = Some (z_or_e, owq_all, st)"
| "write_parts_loop env p (extension # es) fileSize owq_part pos z_or_e owq_all st =
     (case (if string_format (ft_form (owq_ft owq_all)) then
              Option.bind (OWQ_array_length owq_all extension) (\<lambda>len.
                if pos + len > length (owq_buffer owq_all) then None
                else Some (owq_part\<lparr>owq_length := len, owq_size := len, owq_buffer := drop pos (owq_buffer owq_all)\<rparr>, pos + len))
            else map_option (\<lambda>v. (owq_part\<lparr>owq_size := fileSize, owq_val := v\<rparr>, pos)) (OWQ_array_val owq_all extension)) of
        None \<Rightarrow> None
      | Some (owq_part, pos) \<Rightarrow>
          (case FS_write_owq env p (set_extension (int extension) owq_part) st of
             None \<Rightarrow> None
           | Some (single_write, owq_part, st) \<Rightarrow>
               write_parts_loop env p es fileSize owq_part pos (if single_write \<noteq> 0 then single_write else z_or_e) owq_all st))"

definition FS_write_in_parts :: "'d fs_env \<Rightarrow> 'd property \<Rightarrow> one_wire_query \<Rightarrow> 'd fs_state \<Rightarrow> 'd fs_result" where
  "FS_write_in_parts env p owq_all st =
     (case OWQ_create_separate env 0 owq_all st of (owq_part, st) \<Rightarrow>
        (case elements_of owq_all of
           None \<Rightarrow> None
         | Some elements \<Rightarrow>
             (case owq_part of
                None \<Rightarrow> Some (- ENOENT, owq_all, st)
              | Some owq_part \<Rightarrow> write_parts_loop env p [0..<elements] (FileLength p owq_part) owq_part 0 0 owq_all st)))"

fun write_bits_loop ::
  "'d fs_env \<Rightarrow> 'd property \<Rightarrow> nat list \<Rightarrow> one_wire_query \<Rightarrow> int \<Rightarrow> one_wire_query \<Rightarrow> 'd fs_state \<Rightarrow> 'd fs_result" where
  "write_bits_loop env p [] owq_bit z_or_e owq_byte st = Some (z_or_e, owq_byte, st)"
| "write_bits_loop env p (extension # es) owq_bit z_or_e owq_byte st =
     (case FS_write_owq env p
        (set_OWQ_Y (UT_getbit_U (OWQ_U owq_byte) extension) (set_extension (int extension) owq_bit)) st of
        None \<Rightarrow> None
      | Some (z, owq_bit, st) \<Rightarrow> write_bits_loop env p es owq_bit (if z \<noteq> 0 then z else z_or_e) owq_byte st)"

definition FS_write_as_bits :: "'d fs_env \<Rightarrow> 'd property \<Rightarrow> one_wire_query \<Rightarrow> 'd fs_state \<Rightarrow> 'd fs_result" where
  "FS_write_as_bits env p owq_byte st =
     (case OWQ_create_separate env 0 owq_byte st of (owq_bit, st) \<Rightarrow>
        (case elements_of owq_byte of
           None \<Rightarrow> None
         | Some elements \<Rightarrow>
             (case owq_bit of
                None \<Rightarrow> Some (- ENOENT, owq_byte, st)
              | Some owq_bit \<Rightarrow> write_bits_loop env p [0..<elements] owq_bit 0 owq_byte st)))"

definition FS_w_array :: "'d fs_env \<Rightarrow> 'd property \<Rightarrow> aggregate \<Rightarrow> one_wire_query \<Rightarrow> 'd fs_state \<Rightarrow> 'd fs_result" where
  "FS_w_array env p ag owq st =
     (case ag_comb ag of
        ag_sparse \<Rightarrow> driver_result (p_write p) owq st
      | ag_aggregate \<Rightarrow>
          if owq_extension owq = EXTENSION_BYTE then FS_write_owq env p owq st
          else if owq_extension owq = EXTENSION_ALL then FS_write_all env p owq st
          else FS_write_a_part env p owq st
      | ag_mixed \<Rightarrow>
          if owq_extension owq = EXTENSION_BYTE then FS_write_owq env p owq (cache_del OWQ_Cache_Del_parts env owq st)
          else if owq_extension owq = EXTENSION_ALL then FS_write_all env p owq (cache_del OWQ_Cache_Del_parts env owq st)
          else FS_write_owq env p owq (cache_del OWQ_Cache_Del_BYTE env owq (cache_del OWQ_Cache_Del_ALL env owq st))
      | ag_separate \<Rightarrow>
          if owq_extension owq = EXTENSION_BYTE then FS_write_as_bits env p owq st
          else if owq_extension owq = EXTENSION_ALL then FS_write_in_parts env p owq st
          else FS_write_owq env p owq st)"

definition FS_w_local :: "'d fs_env \<Rightarrow> 'd property \<Rightarrow> one_wire_query \<Rightarrow> 'd fs_state \<Rightarrow> 'd fs_result" where
  "FS_w_local env p owq st =
     (if p_write p = None then Some (- ENOTSUP, owq, st)
      else if get_busmode (cp_connection (owq_pn owq)) \<in> {bus_mock, bus_fake, bus_tester} then Some (0, owq, st)
      else (case ft_ag (owq_ft owq) of None \<Rightarrow> FS_write_owq env p owq st | Some ag \<Rightarrow> FS_w_array env p ag owq st))"

end
