(* ===== verification/OW_Presence.thy ===== *)
theory OW_Presence
  imports OW_Directory OW_Property
begin

text \<open>
  On which bus is a device? \<^verbatim>\<open>ow_presence.c\<close>, with \<^verbatim>\<open>TestConnection\<close> of \<^verbatim>\<open>ow_reconnect.c\<close> and the search for a connection in \<^verbatim>\<open>ow_connect.c\<close>.
  A location is taken from the name, from the cache, or found by asking every connection, each in a thread of its own.

  The state of the device layer is here the state of every connection. What is not in this library is a parameter of a connection: the
  closing and reopening of the adapter, and the answer of a remote server to \<^verbatim>\<open>ServerPresence\<close>. A check of one connection is one step: the
  order of the steps of different threads is an argument.
\<close>

section \<open>Connections\<close>

text \<open>The state of every connection, and the statistics of first, second and third tries to read and to write.\<close>

record 'b world =
  w_bus :: "int \<Rightarrow> 'b connection_in"
  w_read_tries :: "nat \<Rightarrow> nat"
  w_write_tries :: "nat \<Rightarrow> nat"

record 'b site =
  s_index :: int
  s_mode :: bus_mode
  s_routines :: "'b interface_routines"
  s_close :: "'b connection_in \<Rightarrow> 'b connection_in"
  s_reopen :: "'b connection_in \<Rightarrow> GOOD_OR_BAD \<times> 'b connection_in"
  s_ServerPresence :: "byte list \<Rightarrow> 'b connection_in \<Rightarrow> int \<times> 'b connection_in"

definition INDEX_DEFAULT :: int where "INDEX_DEFAULT = 0"

definition INDEX_VALID :: "int \<Rightarrow> bool" where
  "INDEX_VALID bus_nr \<longleftrightarrow> bus_nr \<noteq> INDEX_BAD"

definition ADAP_FLAG_presence_from_dirblob :: uint where "ADAP_FLAG_presence_from_dirblob = 0x4000"

definition reconnect_ok :: int where "reconnect_ok = 0"
definition reconnect_error :: int where "reconnect_error = 2"

text \<open>The ports are the list of the lists of their connections.\<close>

definition find_connection_in :: "'b site list list \<Rightarrow> int \<Rightarrow> 'b site option" where
  "find_connection_in ports bus_number = find (\<lambda>s. s_index s = bus_number) (concat ports)"

definition BusIsServer :: "'b site \<Rightarrow> bool" where
  "BusIsServer s \<longleftrightarrow> ir_bus_is_server (s_routines s)"

section \<open>Names\<close>

datatype selected_device = Device_chip | DeviceSimultaneous | DeviceThermostat

text \<open>The name of a property or device: what the cache sees of it (with the selected connection), the kind of directory, the
  known bus, and whether the bus is given in the path.\<close>

record presence_pn =
  pp_cache :: cache_pn
  pp_type :: pn_type
  pp_device :: selected_device
  pp_known :: "int option"
  pp_local :: bool
  pp_remote :: bool

definition SpecifiedBus :: "presence_pn \<Rightarrow> bool" where
  "SpecifiedBus pn \<longleftrightarrow> pp_local pn \<or> pp_remote pn"

definition KnownBus :: "presence_pn \<Rightarrow> bool" where
  "KnownBus pn \<longleftrightarrow> pp_known pn \<noteq> None"

definition SetKnownBus :: "'b site list list \<Rightarrow> int \<Rightarrow> presence_pn \<Rightarrow> int \<times> presence_pn" where
  "SetKnownBus ports bus_number pn =
     (case find_connection_in ports bus_number of
        None \<Rightarrow> (1, pn)
      | Some s \<Rightarrow> (0, pn\<lparr>pp_known := Some (s_index s), pp_cache := (pp_cache pn)\<lparr>cp_connection := Some (s_index s, s_mode s)\<rparr>\<rparr>))"

definition UnsetKnownBus :: "presence_pn \<Rightarrow> presence_pn" where
  "UnsetKnownBus pn = pn\<lparr>pp_known := None, pp_cache := (pp_cache pn)\<lparr>cp_connection := None\<rparr>\<rparr>"

definition bus_name :: "presence_pn \<Rightarrow> bus_pn" where
  "bus_name pn = \<lparr>pn_sn = cp_sn (pp_cache pn), pn_bp = cp_bp (pp_cache pn), pn_has_device = pp_device pn \<noteq> DeviceThermostat\<rparr>"

section \<open>Reconnection\<close>

definition TestConnection :: "'b site \<Rightarrow> 'b connection_in \<Rightarrow> GOOD_OR_BAD \<times> 'b connection_in" where
  "TestConnection s c =
     (if reconnect_state c < reconnect_error then (gbGOOD, c)
      else
        let c = s_close s (STAT_ADD1_BUS e_bus_reconnects (BUS_lock_in c)) in
        (case s_reopen s (c\<lparr>AnyDevices := anydevices_unknown\<rparr>) of (ret, c) \<Rightarrow>
           (ret,
            BUS_unlock_in
              (if BAD ret then UT_delay 200 (c\<lparr>reconnect_state := reconnect_ok + 1\<rparr>) else c\<lparr>reconnect_state := reconnect_ok\<rparr>))))"

abbreviation put_bus :: "int \<Rightarrow> 'b connection_in \<Rightarrow> 'b world fs_state \<Rightarrow> 'b world fs_state" where
  "put_bus i c st \<equiv> st\<lparr>fs_dev := (fs_dev st)\<lparr>w_bus := (w_bus (fs_dev st))(i := c)\<rparr>\<rparr>"

section \<open>Is the device there?\<close>

definition TRXN_NVERIFY :: transaction_log where
  "TRXN_NVERIFY = \<lparr>t_out = None, t_in = None, t_size = 0xF0, t_type = trxn_verify\<rparr>"

text \<open>The transaction that asks the bus, and whether it is good.\<close>

definition verify_presence :: "'b site \<Rightarrow> presence_pn \<Rightarrow> 'b world fs_state \<Rightarrow> (bool \<times> 'b world fs_state) option" where
  "verify_presence s pn st =
     map_option (\<lambda>(ret, t). (ret = 0, put_bus (s_index s) (conn t) st))
       (BUS_transaction (BUS_select (s_routines s)) (s_routines s) (\<lambda>_. 0) (Some [TRXN_NVERIFY, TRXN_END]) (bus_name pn)
         \<lparr>mem = \<lambda>_. 0, conn = w_bus (fs_dev st) (s_index s), allocs = []\<rparr>)"

text \<open>The search of \<open>OW_Directory\<close> on the state of this layer.\<close>

definition search_name :: "'b site \<Rightarrow> presence_pn \<Rightarrow> ('b, unit) dir_pn" where
  "search_name s pn =
     \<lparr>dp_bus = bus_name pn, dp_cache = pp_cache pn, dp_index = s_index s, dp_format = fdi, dp_SpecifiedBus = SpecifiedBus pn,
      dp_NotReconnect = True, dp_server = None, dp_external = None\<rparr>"

definition search_env :: "'b world fs_env \<Rightarrow> 'b world fs_state \<Rightarrow> dir_env" where
  "search_env env st = \<lparr>clock = \<lambda>_. fs_clock st, node_ok = e_alloc env, tree_ok = e_alloc env\<rparr>"

definition to_search :: "'b site \<Rightarrow> 'b world fs_state \<Rightarrow> ('b, unit) dir_state" where
  "to_search s st =
     \<lparr>bus = w_bus (fs_dev st) (s_index s), dcache = fs_cache st, last_root_devs = 0, dir_main_calls = 0, dir_main_entries = 0,
      ticks = fs_allocs st, user = ()\<rparr>"

definition from_search :: "'b site \<Rightarrow> ('b, unit) dir_state \<Rightarrow> 'b world fs_state \<Rightarrow> 'b world fs_state" where
  "from_search s d st = (put_bus (s_index s) (bus d) st)\<lparr>fs_cache := dcache d, fs_allocs := ticks d\<rparr>"

text \<open>The loop of \<^verbatim>\<open>PresenceFromDirblob\<close>; the fuel bounds the devices seen.\<close>

fun presence_loop ::
  "dir_env \<Rightarrow> globals \<Rightarrow> 'b interface_routines \<Rightarrow> ('b, unit) dir_pn \<Rightarrow> byte list \<Rightarrow> nat \<Rightarrow> search_status \<times> device_search \<times> ('b, unit) dir_state \<Rightarrow>
     (GOOD_OR_BAD \<times> ('b, unit) dir_state) option" where
  "presence_loop env g ir pn sn fuel (nextboth, ds, d) =
     (if nextboth \<noteq> search_good then Some (gbBAD, d)
      else if ds_sn ds = sn then Some (gbGOOD, d)
      else (case fuel of 0 \<Rightarrow> None | Suc n \<Rightarrow> presence_loop env g ir pn sn n (BUS_next env g ir pn ds d)))"

definition PresenceFromDirblob ::
  "'b world fs_env \<Rightarrow> nat \<Rightarrow> 'b site \<Rightarrow> presence_pn \<Rightarrow> 'b world fs_state \<Rightarrow> (GOOD_OR_BAD \<times> 'b world fs_state) option" where
  "PresenceFromDirblob env fuel s pn st =
     (case owmalloc env st of (ok, st) \<Rightarrow>
        (case Cache_Get_Dir (e_globals env) (fs_clock st) ok (pp_cache pn) (fs_cache st) of
           None \<Rightarrow> None
         | Some ((gb, db), c) \<Rightarrow>
             let st = st\<lparr>fs_cache := c\<rparr>; sn = cp_sn (pp_cache pn) in
             if \<not> BAD gb then map_option (\<lambda>i. (if i \<ge> 0 then gbGOOD else gbBAD, st)) (DirblobSearch sn db)
             else
               map_option (\<lambda>(ret, d). (ret, from_search s d st))
                 (presence_loop (search_env env st) (e_globals env) (s_routines s) (search_name s pn) sn fuel
                   (BUS_first (search_env env st) (e_globals env) (s_routines s) (search_name s pn) no_search (to_search s st)))))"

definition add_location :: "'b world fs_env \<Rightarrow> int \<Rightarrow> byte list \<Rightarrow> 'b world fs_state \<Rightarrow> 'b world fs_state" where
  "add_location env bus_nr sn st =
     (case owmalloc env st of (mok, st) \<Rightarrow> case owmalloc env st of (tok, st) \<Rightarrow>
        st\<lparr>fs_cache := snd (Cache_Add_Device (e_globals env) (fs_clock st) mok tok bus_nr sn (fs_cache st))\<rparr>)"

text \<open>What is found goes into the cache.\<close>

definition found_on :: "'b world fs_env \<Rightarrow> 'b site \<Rightarrow> byte list \<Rightarrow> bool \<times> 'b world fs_state \<Rightarrow> int \<times> 'b world fs_state" where
  "found_on env s sn r = (case r of (found, st) \<Rightarrow> if found then (s_index s, add_location env (s_index s) sn st) else (INDEX_BAD, st))"

definition CheckThisConnection ::
  "'b world fs_env \<Rightarrow> nat \<Rightarrow> 'b site list list \<Rightarrow> int \<Rightarrow> presence_pn \<Rightarrow> 'b world fs_state \<Rightarrow> (int \<times> 'b world fs_state) option" where
  "CheckThisConnection env fuel ports bus_nr pn st =
     (case find_connection_in ports bus_nr of
        None \<Rightarrow> Some (INDEX_BAD, st)
      | Some s \<Rightarrow>
          let pn_copy = pn\<lparr>pp_cache := (pp_cache pn)\<lparr>cp_connection := Some (s_index s, s_mode s)\<rparr>\<rparr>; sn = cp_sn (pp_cache pn);
              flags = ir_flags (s_routines s)
          in
          (case TestConnection s (w_bus (fs_dev st) (s_index s)) of (gb, c) \<Rightarrow>
             let st = put_bus (s_index s) c st in
             if BAD gb then Some (INDEX_BAD, st)
             else if BusIsServer s then
               (case s_ServerPresence s sn c of (ret, c) \<Rightarrow> Some (found_on env s sn (INDEX_VALID ret, put_bus (s_index s) c st)))
             else if flags AND ADAP_FLAG_sham \<noteq> 0 then Some (INDEX_BAD, st)
             else if flags AND ADAP_FLAG_presence_from_dirblob \<noteq> 0 then
               map_option (\<lambda>(gb, st). found_on env s sn (\<not> BAD gb, st)) (PresenceFromDirblob env fuel s pn_copy st)
             else map_option (found_on env s sn) (verify_presence s pn_copy st)))"

section \<open>All connections\<close>

text \<open>
  \<^verbatim>\<open>CheckPresence_callback_conn\<close> and \<^verbatim>\<open>CheckPresence_callback_port\<close>: each starts a thread for the rest of its list before it checks its own
  connection. When a thread cannot be created the rest is not checked. A result of the rest has precedence.
\<close>

fun reached_conns :: "(int \<Rightarrow> bool) \<Rightarrow> 'b site list \<Rightarrow> 'b site list" where
  "reached_conns thread_ok [] = []"
| "reached_conns thread_ok (s # ss) = s # (if thread_ok (s_index s) then reached_conns thread_ok ss else [])"

fun reached_ports :: "(nat \<Rightarrow> bool) \<Rightarrow> (int \<Rightarrow> bool) \<Rightarrow> nat \<Rightarrow> 'b site list list \<Rightarrow> 'b site list list" where
  "reached_ports port_ok conn_ok k [] = []"
| "reached_ports port_ok conn_ok k (p # ps) = reached_conns conn_ok p # (if port_ok k then reached_ports port_ok conn_ok (Suc k) ps else [])"

definition CheckPresence_callback_conn :: "(int \<Rightarrow> int) \<Rightarrow> 'b site list \<Rightarrow> int \<Rightarrow> int" where
  "CheckPresence_callback_conn results ss initial =
     foldr (\<lambda>s rest. if INDEX_VALID rest then rest else results (s_index s)) ss initial"

fun CheckPresence_callback_port :: "(int \<Rightarrow> int) \<Rightarrow> 'b site list list \<Rightarrow> int" where
  "CheckPresence_callback_port results [] = INDEX_BAD"
| "CheckPresence_callback_port results (p # ps) =
     (let rest = CheckPresence_callback_port results ps in
      if INDEX_VALID rest then rest else CheckPresence_callback_conn results p INDEX_BAD)"

text \<open>The checks, in the order in which the threads come to them.\<close>

fun run_checks ::
  "'b world fs_env \<Rightarrow> nat \<Rightarrow> 'b site list list \<Rightarrow> presence_pn \<Rightarrow> int list \<Rightarrow> (int \<Rightarrow> int) \<Rightarrow> 'b world fs_state \<Rightarrow>
     ((int \<Rightarrow> int) \<times> 'b world fs_state) option" where
  "run_checks env fuel ports pn [] results st = Some (results, st)"
| "run_checks env fuel ports pn (i # is) results st =
     Option.bind (CheckThisConnection env fuel ports i pn st) (\<lambda>(r, st). run_checks env fuel ports pn is (results(i := r)) st)"

text \<open>The threads of one search: which of them can be created, and the order of the checks of the connections that are reached.\<close>

record threads =
  th_port :: "nat \<Rightarrow> bool"
  th_conn :: "int \<Rightarrow> bool"
  th_order :: "int list \<Rightarrow> int list"

definition CheckPresence_low ::
  "'b world fs_env \<Rightarrow> nat \<Rightarrow> 'b site list list \<Rightarrow> threads \<Rightarrow> presence_pn \<Rightarrow> 'b world fs_state \<Rightarrow> (int \<times> 'b world fs_state) option" where
  "CheckPresence_low env fuel ports th pn st =
     (let reached = reached_ports (th_port th) (th_conn th) 0 ports in
      map_option (\<lambda>(results, st). (CheckPresence_callback_port results reached, st))
        (run_checks env fuel ports pn (th_order th (map s_index (concat reached))) (\<lambda>_. INDEX_BAD) st))"

section \<open>Finding the bus\<close>

definition no_search_needed :: "presence_pn \<Rightarrow> bool" where
  "no_search_needed pn \<longleftrightarrow> pp_type pn \<noteq> ePN_real \<or> pp_device pn = DeviceSimultaneous \<or> pp_device pn = DeviceThermostat"

text \<open>The location in the cache, read as an \<^verbatim>\<open>int\<close>.\<close>

definition cached_location :: "'b world fs_env \<Rightarrow> presence_pn \<Rightarrow> 'b world fs_state \<Rightarrow> int option \<times> 'b world fs_state" where
  "cached_location env pn st =
     (case Cache_Get_Device (e_globals env) (fs_clock st) (pp_cache pn) (fs_cache st) of ((gb, data), c) \<Rightarrow>
        (if BAD gb then None else Some (sint (UT_uint32 data :: uint)), st\<lparr>fs_cache := c\<rparr>))"

definition CheckPresence ::
  "'b world fs_env \<Rightarrow> nat \<Rightarrow> 'b site list list \<Rightarrow> threads \<Rightarrow> presence_pn \<Rightarrow> 'b world fs_state \<Rightarrow>
     (int \<times> presence_pn \<times> 'b world fs_state) option" where
  "CheckPresence env fuel ports th pn st =
     (if no_search_needed pn then Some (INDEX_DEFAULT, pn, st)
      else
        case pp_known pn of
          Some bus_nr \<Rightarrow> Some (bus_nr, pn, st)
        | None \<Rightarrow>
            (case cached_location env pn st of
               (Some bus_nr, st) \<Rightarrow> Some (bus_nr, snd (SetKnownBus ports bus_nr pn), st)
             | (None, st) \<Rightarrow>
                 map_option (\<lambda>(bus_nr, st).
                     if INDEX_VALID bus_nr
                     then (bus_nr, snd (SetKnownBus ports bus_nr pn), add_location env bus_nr (cp_sn (pp_cache pn)) st)
                     else (INDEX_BAD, UnsetKnownBus pn, st))
                   (CheckPresence_low env fuel ports th pn st)))"

definition ReCheckPresence ::
  "'b world fs_env \<Rightarrow> nat \<Rightarrow> 'b site list list \<Rightarrow> threads \<Rightarrow> presence_pn \<Rightarrow> 'b world fs_state \<Rightarrow>
     (int \<times> presence_pn \<times> 'b world fs_state) option" where
  "ReCheckPresence env fuel ports th pn st =
     (if no_search_needed pn then Some (INDEX_DEFAULT, pn, st)
      else
        Option.bind (case pp_known pn of None \<Rightarrow> Some (INDEX_BAD, st) | Some i \<Rightarrow> CheckThisConnection env fuel ports i pn st) (\<lambda>(r, st).
          if INDEX_VALID r then Some (the (pp_known pn), pn, st)
          else
            case cached_location env pn st of (loc, st) \<Rightarrow>
              Option.bind (case loc of None \<Rightarrow> Some (INDEX_BAD, st) | Some i \<Rightarrow> CheckThisConnection env fuel ports i pn st) (\<lambda>(r, st).
                if INDEX_VALID r then Some (the loc, snd (SetKnownBus ports (the loc) pn), st)
                else
                  CheckPresence env fuel ports th (UnsetKnownBus pn)
                    (st\<lparr>fs_cache := Cache_Del_Device (e_globals env) (fs_clock st) (pp_cache pn) (fs_cache st)\<rparr>))))"

text \<open>The property \<^verbatim>\<open>present\<close> of a device. \<^const>\<open>None\<close> outside also when there is no connection.\<close>

definition FS_present ::
  "'b world fs_env \<Rightarrow> nat \<Rightarrow> 'b site list list \<Rightarrow> presence_pn \<Rightarrow> 'b world fs_state \<Rightarrow> (bool \<times> 'b world fs_state) option" where
  "FS_present env fuel ports pn st =
     (if no_search_needed pn then Some (True, st)
      else
        Option.bind (cp_connection (pp_cache pn)) (\<lambda>(i, _).
        Option.bind (find_connection_in ports i) (\<lambda>s.
          let flags = ir_flags (s_routines s) in
          if cp_uncached_dir (pp_cache pn) then verify_presence s pn st
          else if flags AND ADAP_FLAG_presence_from_dirblob \<noteq> 0 then
            map_option (\<lambda>(gb, st). (\<not> BAD gb, st)) (PresenceFromDirblob env fuel s pn st)
          else if flags AND ADAP_FLAG_sham \<noteq> 0 then Some (False, st)
          else verify_presence s pn st)))"

section \<open>The search is sound and complete\<close>

text \<open>
  A connection tells the truth about a name: \<open>devs\<close> are the devices that can be reached over it, \<open>good\<close> its states. It is tested, and when it was lost it is
  closed and opened again; when that does not help no device is reached. A remote server answers the question for the device, an adapter that is only a
  placeholder has no devices, and every other adapter is asked with the verification. An adapter that answers from its
  directory is not covered.
\<close>

definition answers :: "'b site \<Rightarrow> presence_pn \<Rightarrow> byte list set \<Rightarrow> ('b connection_in \<Rightarrow> bool) \<Rightarrow> bool" where
  "answers s pn devs good \<longleftrightarrow>
     (\<forall>c. good c \<longrightarrow>
        (case TestConnection s c of (gb, c) \<Rightarrow>
           if BAD gb then cp_sn (pp_cache pn) \<notin> devs \<and> good c
           else if BusIsServer s then
             (case s_ServerPresence s (cp_sn (pp_cache pn)) c of (ret, c) \<Rightarrow> (INDEX_VALID ret \<longleftrightarrow> cp_sn (pp_cache pn) \<in> devs) \<and> good c)
           else if ir_flags (s_routines s) AND ADAP_FLAG_sham \<noteq> 0 then cp_sn (pp_cache pn) \<notin> devs \<and> good c
           else ir_flags (s_routines s) AND ADAP_FLAG_presence_from_dirblob = 0
             \<and> (\<exists>ret t. BUS_transaction (BUS_select (s_routines s)) (s_routines s) (\<lambda>_. 0) (Some [TRXN_NVERIFY, TRXN_END]) (bus_name pn)
                    \<lparr>mem = \<lambda>_. 0, conn = c, allocs = []\<rparr> = Some (ret, t)
                  \<and> (ret = 0 \<longleftrightarrow> cp_sn (pp_cache pn) \<in> devs) \<and> good (conn t))))"

definition good_world :: "'b site list list \<Rightarrow> (int \<Rightarrow> 'b connection_in \<Rightarrow> bool) \<Rightarrow> 'b world fs_state \<Rightarrow> bool" where
  "good_world ports good st \<longleftrightarrow> (\<forall>s \<in> set (concat ports). good (s_index s) (w_bus (fs_dev st) (s_index s)))"

definition answering_ports :: "'b site list list \<Rightarrow> presence_pn \<Rightarrow> (int \<Rightarrow> byte list set) \<Rightarrow> (int \<Rightarrow> 'b connection_in \<Rightarrow> bool) \<Rightarrow> bool" where
  "answering_ports ports pn devs good \<longleftrightarrow>
     distinct (map s_index (concat ports)) \<and> (\<forall>i. i \<notin> s_index ` set (concat ports) \<longrightarrow> devs i = {})
   \<and> (\<forall>s \<in> set (concat ports). s_index s \<noteq> INDEX_BAD \<and> answers s pn (devs (s_index s)) (good (s_index s)))"

lemma find_connection_in_Some:
  "find_connection_in ports i = Some s \<Longrightarrow> s \<in> set (concat ports) \<and> s_index s = i"
  by (auto simp: find_connection_in_def find_Some_iff simp del: set_concat)

lemma find_connection_in_site:
  assumes "distinct (map s_index (concat ports))" and "s \<in> set (concat ports)"
  shows "find_connection_in ports (s_index s) = Some s"
proof -
  have "find_connection_in ports (s_index s) \<noteq> None" using assms(2) by (auto simp: find_connection_in_def find_None_iff)
  then obtain s' where s': "find_connection_in ports (s_index s) = Some s'" by blast
  then have "s' \<in> set (concat ports)" "s_index s' = s_index s" using find_connection_in_Some by blast+
  then have "s' = s" using assms by (auto simp: distinct_map inj_on_def)
  then show ?thesis using s' by simp
qed

lemma add_location_dev [simp]: "fs_dev (add_location env i sn st) = fs_dev st" "fs_clock (add_location env i sn st) = fs_clock st"
  by (simp_all add: add_location_def owmalloc_def)

text \<open>One check.\<close>

lemma CheckThisConnection_answers:
  assumes "answering_ports ports pn devs good" and "good_world ports good st" and sn: "sn = cp_sn (pp_cache pn)"
    and s: "find_connection_in ports i = Some s"
  shows "\<exists>st'. CheckThisConnection env fuel ports i pn st = Some (if sn \<in> devs i then i else INDEX_BAD, st') \<and> good_world ports good st'
    \<and> fs_clock st' = fs_clock st \<and> (sn \<notin> devs i \<longrightarrow> fs_cache st' = fs_cache st)"
proof -
  let ?pn = "pn\<lparr>pp_cache := (pp_cache pn)\<lparr>cp_connection := Some (s_index s, s_mode s)\<rparr>\<rparr>"
  have i: "s \<in> set (concat ports)" "s_index s = i" using find_connection_in_Some [OF s] by blast+
  have a: "answers s pn (devs i) (good i)" "good i (w_bus (fs_dev st) i)" using assms(1,2) i by (auto simp: answering_ports_def good_world_def)
  obtain gb c where c: "TestConnection s (w_bus (fs_dev st) i) = (gb, c)" by fastforce
  have left: "good_world ports good (put_bus i c' st)" if "good i c'" for c' using assms(2) that by (auto simp: good_world_def)
  have "\<exists>c'. CheckThisConnection env fuel ports i pn st = Some (found_on env s sn (sn \<in> devs i, put_bus i c' st)) \<and> good i c'"
  proof (cases "\<not> BAD gb \<and> \<not> BusIsServer s \<and> ir_flags (s_routines s) AND ADAP_FLAG_sham = 0")
    case True
    then obtain ret t where t: "BUS_transaction (BUS_select (s_routines s)) (s_routines s) (\<lambda>_. 0) (Some [TRXN_NVERIFY, TRXN_END]) (bus_name pn)
        \<lparr>mem = \<lambda>_. 0, conn = c, allocs = []\<rparr> = Some (ret, t)" "ret = 0 \<longleftrightarrow> sn \<in> devs i" "good i (conn t)"
      and flag: "ir_flags (s_routines s) AND ADAP_FLAG_presence_from_dirblob = 0"
      using a c unfolding answers_def sn by fastforce
    have "bus_name ?pn = bus_name pn" by (simp add: bus_name_def)
    then have "verify_presence s ?pn (put_bus i c st) = Some (sn \<in> devs i, put_bus i (conn t) st)" using t(1,2) i(2) by (simp add: verify_presence_def)
    then show ?thesis using s i(2) c True flag sn t(3) by (intro exI [of _ "conn t"]) (simp add: CheckThisConnection_def Let_def)
  next
    case False
    obtain ret c2 where r: "s_ServerPresence s sn c = (ret, c2)" by fastforce
    show ?thesis
    proof (cases "\<not> BAD gb \<and> BusIsServer s")
      case True
      then have "INDEX_VALID ret \<longleftrightarrow> sn \<in> devs i" "good i c2" using a c r unfolding answers_def sn by fastforce+
      then show ?thesis using s i(2) c True r sn by (intro exI [of _ c2]) (simp add: CheckThisConnection_def Let_def)
    next
      case no: False
      then have "sn \<notin> devs i" "good i c" using a c False unfolding answers_def sn by (fastforce split: if_splits)+
      then show ?thesis using s i(2) c False no by (intro exI [of _ c]) (auto simp: CheckThisConnection_def found_on_def Let_def)
    qed
  qed
  then show ?thesis using left i(2) by (fastforce simp: found_on_def good_world_def)
qed

lemma CheckThisConnection_sound:
  assumes "answering_ports ports pn devs good" and "good_world ports good st" and "sn = cp_sn (pp_cache pn)"
  shows "\<exists>st'. CheckThisConnection env fuel ports i pn st = Some (if sn \<in> devs i then i else INDEX_BAD, st') \<and> good_world ports good st'
    \<and> fs_clock st' = fs_clock st \<and> (sn \<notin> devs i \<longrightarrow> fs_cache st' = fs_cache st)"
proof (cases "find_connection_in ports i")
  case None
  then have "sn \<notin> devs i" using assms(1) unfolding answering_ports_def find_connection_in_def find_None_iff by (metis empty_iff imageE)
  then show ?thesis using None assms(2) by (simp add: CheckThisConnection_def)
next
  case (Some s)
  then show ?thesis using CheckThisConnection_answers [OF assms(1-3)] by blast
qed

lemma run_checks_answers:
  assumes "answering_ports ports pn devs good" and "good_world ports good st" and "sn = cp_sn (pp_cache pn)" and "set is \<subseteq> s_index ` set (concat ports)"
  shows "\<exists>st'. run_checks env fuel ports pn is results st = Some (\<lambda>i. if i \<in> set is then if sn \<in> devs i then i else INDEX_BAD else results i, st')
    \<and> good_world ports good st' \<and> fs_clock st' = fs_clock st"
  using assms(2,4)
proof (induction "is" arbitrary: results st)
  case (Cons i "is")
  obtain s where "s \<in> set (concat ports)" "s_index s = i" using Cons.prems(2) by auto
  then have "find_connection_in ports i = Some s" using find_connection_in_site assms(1) by (auto simp: answering_ports_def)
  then obtain st1 where st1: "CheckThisConnection env fuel ports i pn st = Some (if sn \<in> devs i then i else INDEX_BAD, st1)" "good_world ports good st1"
    "fs_clock st1 = fs_clock st"
    using CheckThisConnection_answers [OF assms(1) Cons.prems(1) assms(3)] by blast
  obtain st' where st': "run_checks env fuel ports pn is (results(i := if sn \<in> devs i then i else INDEX_BAD)) st1
      = Some (\<lambda>j. if j \<in> set is then if sn \<in> devs j then j else INDEX_BAD else (results(i := if sn \<in> devs i then i else INDEX_BAD)) j, st')"
    "good_world ports good st'" "fs_clock st' = fs_clock st1"
    using Cons.IH [OF st1(2)] Cons.prems(2) by auto
  have "(\<lambda>j. if j \<in> set is then if sn \<in> devs j then j else INDEX_BAD else (results(i := if sn \<in> devs i then i else INDEX_BAD)) j)
      = (\<lambda>j. if j \<in> set (i # is) then if sn \<in> devs j then j else INDEX_BAD else results j)" by auto
  then show ?case using st1 st' by simp
qed simp

text \<open>Which result wins.\<close>

lemma callback_conn_cases:
  "CheckPresence_callback_conn results ss INDEX_BAD = r \<Longrightarrow>
     (r = INDEX_BAD \<longrightarrow> (\<forall>s \<in> set ss. results (s_index s) = INDEX_BAD)) \<and> (r \<noteq> INDEX_BAD \<longrightarrow> (\<exists>s \<in> set ss. results (s_index s) = r))"
  by (induction ss arbitrary: r) (auto simp: CheckPresence_callback_conn_def INDEX_VALID_def)

lemma callback_port_cases:
  "CheckPresence_callback_port results ports = r \<Longrightarrow>
     (r = INDEX_BAD \<longrightarrow> (\<forall>s \<in> set (concat ports). results (s_index s) = INDEX_BAD)) \<and> (r \<noteq> INDEX_BAD \<longrightarrow> (\<exists>s \<in> set (concat ports). results (s_index s) = r))"
proof (induction ports arbitrary: r)
  case (Cons p ps)
  then show ?case using callback_conn_cases [of results p] by (auto simp: INDEX_VALID_def Let_def split: if_splits)
qed simp

lemma reached_subset: "set (concat (reached_ports port_ok conn_ok k ports)) \<subseteq> set (concat ports)"
proof -
  have "set (reached_conns conn_ok ss) \<subseteq> set ss" for ss :: "'a site list" by (induction ss) auto
  then show ?thesis by (induction ports arbitrary: k) fastforce+
qed

text \<open>When every thread can be created every connection is reached.\<close>

lemma reached_all:
  assumes "\<forall>k. port_ok k" and "\<forall>i. conn_ok i"
  shows "reached_ports port_ok conn_ok k ports = ports"
proof -
  have "reached_conns conn_ok ss = ss" for ss :: "'a site list" using assms(2) by (induction ss) auto
  then show ?thesis using assms(1) by (induction ports arbitrary: k) auto
qed

lemma cached_location_state:
  "cached_location env pn st = (loc, st') \<Longrightarrow> fs_dev st' = fs_dev st \<and> fs_clock st' = fs_clock st \<and> cache_invar dur t (fs_cache st') = cache_invar dur t (fs_cache st)"
  by (auto simp: cached_location_def Cache_Get_Device_def Get_Stat_def Let_def split: prod.splits cache_task_return.splits if_splits)

lemma location_forgotten:
  assumes "cache_invar dur (fs_clock st) (fs_cache st)" and "dur (LoadTK (cp_sn (pp_cache pn)) Device_Marker 0) = TimeOut (e_globals env) fc_presence"
    and st': "st' = st\<lparr>fs_cache := Cache_Del_Device (e_globals env) (fs_clock st) (pp_cache pn) (fs_cache st)\<rparr>"
  shows "fst (cached_location env (UnsetKnownBus pn) st') = None"
proof (cases "TimeOut (e_globals env) fc_presence \<le> 0")
  case True
  then show ?thesis by (simp add: cached_location_def Cache_Get_Device_def BAD_def)
next
  case False
  let ?k = "LoadTK (cp_sn (pp_cache pn)) Device_Marker 0"
  have "cache_invar dur (fs_clock st) (fs_cache st')" "cached (fs_clock st) ?k (fs_cache st') = None"
    using del_temporary(1) [OF assms(1), where k = ?k] del_temporary(2) [OF assms(1) order_refl, where k = ?k and k' = ?k] False st' by (auto simp: Cache_Del_Device_def Del_Stat_def split: prod.splits if_splits)
  from Cache_Get_Common_miss [OF this, of 4] show ?thesis using False assms(2) st'
    by (auto simp: cached_location_def Cache_Get_Device_def UnsetKnownBus_def Get_Stat_def BAD_def Let_def split: cache_task_return.splits)
qed

definition located :: "'b site list list \<Rightarrow> (int \<Rightarrow> byte list set) \<Rightarrow> presence_pn \<Rightarrow> int \<times> presence_pn \<Rightarrow> bool" where
  "located ports devs pn r \<longleftrightarrow>
     (case r of (i, pn') \<Rightarrow>
        if i = INDEX_BAD then pn' = UnsetKnownBus pn
        else cp_sn (pp_cache pn) \<in> devs i \<and> pp_known pn' = Some i \<and> pn' \<in> {pn, snd (SetKnownBus ports i pn)})"

lemma SetKnownBus_located:
  assumes "answering_ports ports pn devs good" and "cp_sn (pp_cache pn) \<in> devs i" and "pn' = pn \<or> pn' = UnsetKnownBus pn"
  shows "i \<noteq> INDEX_BAD" and "located ports devs pn (i, snd (SetKnownBus ports i pn'))"
proof -
  have "i \<in> s_index ` set (concat ports)" using assms(1,2) unfolding answering_ports_def by blast
  then obtain s where s: "s \<in> set (concat ports)" "s_index s = i" by blast
  then show "i \<noteq> INDEX_BAD" using assms(1) by (auto simp: answering_ports_def)
  moreover have "find_connection_in ports i = Some s" using s find_connection_in_site assms(1) by (auto simp: answering_ports_def)
  ultimately show "located ports devs pn (i, snd (SetKnownBus ports i pn'))"
    using assms(2,3) s(2) by (auto simp: located_def SetKnownBus_def UnsetKnownBus_def)
qed

lemma CheckPresence_search:
  assumes "answering_ports ports pn devs good" and "good_world ports good st" and "\<not> no_search_needed pn"
    and "\<And>xs. set (th_order th xs) = set xs" and "fst (cached_location env (UnsetKnownBus pn) st) = None"
  shows "\<exists>i pn' st'. CheckPresence env fuel ports th (UnsetKnownBus pn) st = Some (i, pn', st') \<and> good_world ports good st' \<and> located ports devs pn (i, pn')
    \<and> (i = INDEX_BAD \<longrightarrow> (\<forall>s \<in> set (concat (reached_ports (th_port th) (th_conn th) 0 ports)). cp_sn (pp_cache pn) \<notin> devs (s_index s)))"
proof -
  let ?sn = "cp_sn (pp_cache pn)" let ?reached = "reached_ports (th_port th) (th_conn th) 0 ports" let ?un = "UnsetKnownBus pn"
  have un: "pp_cache ?un = (pp_cache pn)\<lparr>cp_connection := None\<rparr>" "\<not> no_search_needed ?un" "pp_known ?un = None" "bus_name ?un = bus_name pn"
    "UnsetKnownBus ?un = ?un" using assms(3) by (simp_all add: UnsetKnownBus_def no_search_needed_def bus_name_def)
  have ans: "answering_ports ports ?un devs good" proof -
    have "answers s ?un D g = answers s pn D g" for s D g unfolding answers_def un(1,4) by simp
    then show ?thesis using assms(1) unfolding answering_ports_def by metis
  qed
  obtain st0 where loc: "cached_location env ?un st = (None, st0)" using assms(5) by (metis prod.collapse)
  then have st0: "good_world ports good st0" using assms(2) cached_location_state [OF loc] by (simp add: good_world_def)
  let ?is = "th_order th (map s_index (concat ?reached))" let ?res = "\<lambda>i. if i \<in> set ?is then if ?sn \<in> devs i then i else INDEX_BAD else INDEX_BAD"
  have "set ?is \<subseteq> s_index ` set (concat ports)" using image_mono [OF reached_subset [of "th_port th" "th_conn th" 0 ports], of s_index]
    by (simp add: assms(4) del: set_concat)
  moreover have "?sn = cp_sn (pp_cache ?un)" by (simp add: un(1))
  ultimately have "\<exists>st'. run_checks env fuel ports ?un ?is (\<lambda>_. INDEX_BAD) st0 = Some (?res, st') \<and> good_world ports good st' \<and> fs_clock st' = fs_clock st0"
    by (intro run_checks_answers [OF ans st0])
  then
  obtain st1 where run: "run_checks env fuel ports ?un ?is (\<lambda>_. INDEX_BAD) st0 = Some (?res, st1)" and st1: "good_world ports good st1"
    by blast
  define i where "i = CheckPresence_callback_port ?res ?reached"
  have cases: "i = INDEX_BAD \<Longrightarrow> \<forall>s \<in> set (concat ?reached). ?res (s_index s) = INDEX_BAD"
    "i \<noteq> INDEX_BAD \<Longrightarrow> \<exists>s \<in> set (concat ?reached). ?res (s_index s) = i"
    using callback_port_cases [of ?res ?reached] unfolding i_def by auto
  have low: "CheckPresence_low env fuel ports th ?un st0 = Some (i, st1)" using run by (simp add: CheckPresence_low_def i_def Let_def)
  show ?thesis
  proof (cases "i = INDEX_BAD")
    case True
    have "?sn \<notin> devs (s_index s)" if s: "s \<in> set (concat ?reached)" for s
    proof -
      have "s_index s \<in> set ?is" "s_index s \<noteq> INDEX_BAD"
        using s assms(4) assms(1) reached_subset [of "th_port th" "th_conn th" 0 ports] by (auto simp: answering_ports_def)
      then show ?thesis using cases(1) [OF True] s by (metis (no_types, lifting))
    qed
    then show ?thesis using True low loc un(2,3,5) st1 by (simp add: CheckPresence_def INDEX_VALID_def located_def)
  next
    case False
    then have "?sn \<in> devs i" using cases(2) by (auto split: if_splits)
    then have "located ports devs pn (i, snd (SetKnownBus ports i ?un))" using SetKnownBus_located [OF assms(1)] by blast
    then show ?thesis using False low loc un(2,3) st1 by (simp add: CheckPresence_def INDEX_VALID_def good_world_def)
  qed
qed

section \<open>Looking for a bus comes back\<close>

lemma verify_presence_total: "verify_presence s pn st \<noteq> None"
  by (auto simp: verify_presence_def BUS_transaction_def BUS_transaction_nolock_def Bundle_pack_def Bundle_init_def Pack_item_def pack_bytes_def Bundle_ship_def
      TRXN_NVERIFY_def TRXN_END_def BUS_transaction_single_def BAD_def GOOD_def Let_def split: prod.splits option.splits if_splits)

text \<open>No adapter answers from its directory, which may be endless.\<close>

definition asked_directly :: "'b site list list \<Rightarrow> bool" where
  "asked_directly ports \<longleftrightarrow>
     (\<forall>s \<in> set (concat ports). BusIsServer s \<or> ir_flags (s_routines s) AND ADAP_FLAG_sham \<noteq> 0 \<or> ir_flags (s_routines s) AND ADAP_FLAG_presence_from_dirblob = 0)"

text \<open>What is done to the cache meanwhile: locations are added, and reading counts.\<close>

definition only_locations :: "'b world fs_env \<Rightarrow> 'b world fs_state \<Rightarrow> 'b world fs_state \<Rightarrow> bool" where
  "only_locations env st st' \<longleftrightarrow> persistent_tree (fs_cache st') = persistent_tree (fs_cache st) \<and> persistent_alias_tree (fs_cache st') = persistent_alias_tree (fs_cache st)"

lemma only_locations_refl [simp]: "only_locations env st st" "only_locations env st (put_bus i c st)"
  by (simp_all add: only_locations_def)

lemma only_locations_trans: "only_locations env st st' \<Longrightarrow> only_locations env st' st'' \<Longrightarrow> only_locations env st st''"
  by (simp add: only_locations_def)

lemma only_locations_add: "only_locations env st (add_location env i sn st)"
  by (simp add: only_locations_def add_location_def owmalloc_def Cache_Add_Device_def Add_Stat_def Cache_Add_Common_def retire_if_old_def FlipTree_def bump_def Let_def)

lemma CheckThisConnection_total:
  assumes "asked_directly ports"
  shows "\<exists>r st'. CheckThisConnection env fuel ports i pn st = Some (r, st') \<and> only_locations env st st'"
proof (cases "find_connection_in ports i")
  case None
  then show ?thesis by (simp add: CheckThisConnection_def)
next
  case (Some s)
  then have s: "BusIsServer s \<or> ir_flags (s_routines s) AND ADAP_FLAG_sham \<noteq> 0 \<or> ir_flags (s_routines s) AND ADAP_FLAG_presence_from_dirblob = 0"
    using assms find_connection_in_Some unfolding asked_directly_def by blast
  have found: "only_locations env st (snd (found_on env s sn (b, put_bus j c st)))" for sn b j c
    using only_locations_add [of env "put_bus j c st"] by (auto simp: found_on_def intro: only_locations_trans [OF only_locations_refl(2)])
  have v: "\<exists>b c'. verify_presence s pn' (put_bus j c st) = Some (b, put_bus (s_index s) c' (put_bus j c st))" for pn' j c
    using verify_presence_total [of s pn' "put_bus j c st"] by (auto simp: verify_presence_def)
  obtain gb c where c: "TestConnection s (w_bus (fs_dev st) (s_index s)) = (gb, c)" by fastforce
  obtain b c' where v': "verify_presence s (pn\<lparr>pp_cache := (pp_cache pn)\<lparr>cp_connection := Some (s_index s, s_mode s)\<rparr>\<rparr>) (put_bus (s_index s) c st) =
      Some (b, put_bus (s_index s) c' (put_bus (s_index s) c st))" using v by blast
  obtain ret c2 where p: "s_ServerPresence s (cp_sn (pp_cache pn)) c = (ret, c2)" by fastforce
  have "CheckThisConnection env fuel ports i pn st \<in>
      {Some (INDEX_BAD, put_bus (s_index s) c st), Some (found_on env s (cp_sn (pp_cache pn)) (INDEX_VALID ret, put_bus (s_index s) c2 st)),
       Some (found_on env s (cp_sn (pp_cache pn)) (b, put_bus (s_index s) c' st))}"
    using Some s c v' p by (auto simp: CheckThisConnection_def Let_def)
  then have "\<exists>x. CheckThisConnection env fuel ports i pn st = Some x \<and> only_locations env st (snd x)"
    using found by (auto simp del: split_paired_Ex split_paired_All)
  then show ?thesis by auto
qed

lemma run_checks_total:
  assumes "asked_directly ports"
  shows "\<exists>r st'. run_checks env fuel ports pn is results st = Some (r, st') \<and> only_locations env st st'"
proof (induction "is" arbitrary: results st)
  case (Cons i "is")
  obtain r st1 where st1: "CheckThisConnection env fuel ports i pn st = Some (r, st1)" "only_locations env st st1"
    using CheckThisConnection_total [OF assms] by blast
  obtain r2 st2 where "run_checks env fuel ports pn is (results(i := r)) st1 = Some (r2, st2)" "only_locations env st1 st2" using Cons.IH by blast
  then show ?case using st1 only_locations_trans [OF st1(2)] by simp
qed simp

lemma CheckPresence_total:
  assumes "asked_directly ports"
  shows "\<exists>i pn' st'. CheckPresence env fuel ports th pn st = Some (i, pn', st') \<and> only_locations env st st'"
proof -
  obtain loc st0 where loc: "cached_location env pn st = (loc, st0)" by fastforce
  have st0: "only_locations env st st0" using loc
    by (auto simp: only_locations_def cached_location_def Cache_Get_Device_def Get_Stat_def bump_def Let_def split: prod.splits cache_task_return.splits if_splits)
  obtain r st1 where st1: "run_checks env fuel ports pn (th_order th (map s_index (concat (reached_ports (th_port th) (th_conn th) 0 ports)))) (\<lambda>_. INDEX_BAD) st0 = Some (r, st1)"
      "only_locations env st0 st1" using run_checks_total [OF assms] by blast
  then show ?thesis using loc st0 only_locations_trans only_locations_add
    by (auto simp: CheckPresence_def CheckPresence_low_def Let_def split: option.splits) blast+
qed

section \<open>Looking again\<close>

lemma rechecked:
  assumes "answering_ports ports pn devs good" and "good_world ports good st" and "pp_type pn = ePN_real" and "pp_device pn = Device_chip"
    and "\<forall>xs. set (th_order th xs) = set xs"
    and "cache_invar dur (fs_clock st) (fs_cache st)" and "dur (LoadTK (cp_sn (pp_cache pn)) Device_Marker 0) = TimeOut (e_globals env) fc_presence"
  shows "\<exists>i pn' st'. ReCheckPresence env fuel ports th pn st = Some (i, pn', st') \<and> good_world ports good st'
    \<and> (i \<noteq> INDEX_BAD \<longrightarrow> cp_sn (pp_cache pn) \<in> devs i \<and> pp_known pn' = Some i)
    \<and> (i = INDEX_BAD \<longrightarrow> pp_known pn' = None
         \<and> (\<forall>s \<in> set (concat (reached_ports (th_port th) (th_conn th) 0 ports)). cp_sn (pp_cache pn) \<notin> devs (s_index s)))"
proof -
  let ?sn = "cp_sn (pp_cache pn)"
  have need: "\<not> no_search_needed pn" using assms(3,4) by (simp add: no_search_needed_def)
  note check = CheckThisConnection_sound [OF assms(1) _ refl]
  have step: "\<exists>st1. (case o' of None \<Rightarrow> Some (INDEX_BAD, st0) | Some i \<Rightarrow> CheckThisConnection env fuel ports i pn st0) =
        Some (case o' of None \<Rightarrow> INDEX_BAD | Some i \<Rightarrow> if ?sn \<in> devs i then i else INDEX_BAD, st1) \<and> good_world ports good st1 \<and> fs_clock st1 = fs_clock st0
        \<and> ((\<forall>i. o' = Some i \<longrightarrow> ?sn \<notin> devs i) \<longrightarrow> fs_cache st1 = fs_cache st0)" if "good_world ports good st0" for o' st0
    using that check [of st0 env fuel] by (cases o') auto
  obtain st1 where st1: "(case pp_known pn of None \<Rightarrow> Some (INDEX_BAD, st) | Some i \<Rightarrow> CheckThisConnection env fuel ports i pn st) =
        Some (case pp_known pn of None \<Rightarrow> INDEX_BAD | Some i \<Rightarrow> if ?sn \<in> devs i then i else INDEX_BAD, st1)" "good_world ports good st1" "fs_clock st1 = fs_clock st"
        "(\<forall>i. pp_known pn = Some i \<longrightarrow> ?sn \<notin> devs i) \<longrightarrow> fs_cache st1 = fs_cache st" using step [OF assms(2)] by blast
  show ?thesis
  proof (cases "\<exists>i. pp_known pn = Some i \<and> ?sn \<in> devs i")
    case True
    then obtain i where i: "pp_known pn = Some i" "?sn \<in> devs i" by blast
    moreover have "i \<noteq> INDEX_BAD" using SetKnownBus_located(1) [OF assms(1) i(2)] by blast
    ultimately show ?thesis using need st1(1,2) by (simp add: ReCheckPresence_def INDEX_VALID_def)
  next
    case False
    then have r1: "(case pp_known pn of None \<Rightarrow> INDEX_BAD | Some i \<Rightarrow> if ?sn \<in> devs i then i else INDEX_BAD) = INDEX_BAD" and c1: "fs_cache st1 = fs_cache st"
      using st1(4) by (auto split: option.splits)
    obtain loc st2 where loc: "cached_location env pn st1 = (loc, st2)" by fastforce
    have st2: "good_world ports good st2" "fs_clock st2 = fs_clock st" "cache_invar dur (fs_clock st2) (fs_cache st2)"
      using cached_location_state [OF loc, of dur "fs_clock st"] st1(2,3) c1 assms(6) by (simp_all add: good_world_def)
    obtain st3 where st3: "(case loc of None \<Rightarrow> Some (INDEX_BAD, st2) | Some i \<Rightarrow> CheckThisConnection env fuel ports i pn st2) =
        Some (case loc of None \<Rightarrow> INDEX_BAD | Some i \<Rightarrow> if ?sn \<in> devs i then i else INDEX_BAD, st3)" "good_world ports good st3" "fs_clock st3 = fs_clock st2"
        "(\<forall>i. loc = Some i \<longrightarrow> ?sn \<notin> devs i) \<longrightarrow> fs_cache st3 = fs_cache st2" using step [OF st2(1)] by blast
    show ?thesis
    proof (cases "\<exists>i. loc = Some i \<and> ?sn \<in> devs i")
      case True
      then obtain i where i: "loc = Some i" "?sn \<in> devs i" by blast
      have "located ports devs pn (i, snd (SetKnownBus ports i pn))" "i \<noteq> INDEX_BAD" using SetKnownBus_located [OF assms(1) i(2)] by blast+
      then show ?thesis using need st1(1) r1 loc st3(1,2) i by (simp add: ReCheckPresence_def INDEX_VALID_def located_def)
    next
      case False
      then have r3: "(case loc of None \<Rightarrow> INDEX_BAD | Some i \<Rightarrow> if ?sn \<in> devs i then i else INDEX_BAD) = INDEX_BAD" and c3: "fs_cache st3 = fs_cache st2"
        using st3(4) by (auto split: option.splits)
      let ?st = "st3\<lparr>fs_cache := Cache_Del_Device (e_globals env) (fs_clock st3) (pp_cache pn) (fs_cache st3)\<rparr>"
      have "fst (cached_location env (UnsetKnownBus pn) ?st) = None"
        using st2(3) st3(3) c3 by (intro location_forgotten [where dur = dur and st = st3]) (simp_all add: assms(7))
      moreover have "good_world ports good ?st" using st3(2) by (simp add: good_world_def)
      ultimately have "\<exists>i pn' st'. CheckPresence env fuel ports th (UnsetKnownBus pn) ?st = Some (i, pn', st') \<and> good_world ports good st' \<and> located ports devs pn (i, pn')
        \<and> (i = INDEX_BAD \<longrightarrow> (\<forall>s \<in> set (concat (reached_ports (th_port th) (th_conn th) 0 ports)). ?sn \<notin> devs (s_index s)))"
        using assms(5) by (intro CheckPresence_search [OF assms(1) _ need]) simp_all
      then obtain i pn' st' where r: "CheckPresence env fuel ports th (UnsetKnownBus pn) ?st = Some (i, pn', st')" "good_world ports good st'" "located ports devs pn (i, pn')"
        "i = INDEX_BAD \<longrightarrow> (\<forall>s \<in> set (concat (reached_ports (th_port th) (th_conn th) 0 ports)). ?sn \<notin> devs (s_index s))" by blast
      moreover have "ReCheckPresence env fuel ports th pn st = Some (i, pn', st')"
        using need st1(1) r1 loc st3(1) r3 r(1) by (simp add: ReCheckPresence_def INDEX_VALID_def)
      ultimately show ?thesis by (auto simp: located_def UnsetKnownBus_def)
    qed
  qed
qed


text \<open>Two adapters that know their devices. The device was on the first one and is on the second. A server that does not have it.\<close>

definition list_site :: "int \<Rightarrow> byte list list site" where
  "list_site i =
     \<lparr>s_index = i, s_mode = bus_real,
      s_routines = no_routines\<lparr>ir_select := Some (\<lambda>pn c. (gbGOOD, c)),
        ir_verify := Some (\<lambda>pn c. (if pn_sn pn \<in> set (hardware c) then gbGOOD else gbBAD, c))\<rparr>,
      s_close = id, s_reopen = \<lambda>c. (gbGOOD, c), s_ServerPresence = \<lambda>_ c. (INDEX_BAD, c)\<rparr>"

definition server_site :: "int \<Rightarrow> byte list list site" where
  "server_site i = (list_site i)\<lparr>s_routines := no_routines\<lparr>ir_bus_is_server := True\<rparr>\<rparr>"

definition list_world :: "byte list list world fs_state" where
  "list_world = \<lparr>fs_cache = Cache_Open default_globals 0 zero_cache, fs_clock = 0, fs_allocs = 0,
     fs_dev = \<lparr>w_bus = \<lambda>i. initial_connection (if i = 1 then [[0x28, 2, 3, 4, 5, 6, 7, 8]] else []), w_read_tries = \<lambda>_. 0, w_write_tries = \<lambda>_. 0\<rparr>\<rparr>"

definition moved_pn :: presence_pn where
  "moved_pn = \<lparr>pp_cache = \<lparr>cp_sn = [0x28, 2, 3, 4, 5, 6, 7, 8], cp_filetype = \<lparr>ft_id = 0, ft_form = ft_integer, ft_change = fc_stable, ft_ag = None\<rparr>,
       cp_extension = 0, cp_alarm_dir = False, cp_uncached_dir = False, cp_connection = Some (0, bus_real), cp_bp = []\<rparr>,
     pp_type = ePN_real, pp_device = Device_chip, pp_known = Some 0, pp_local = False, pp_remote = False\<rparr>"

definition sample_threads :: threads where
  "sample_threads = \<lparr>th_port = \<lambda>_. True, th_conn = \<lambda>_. True, th_order = rev\<rparr>"

definition sample_world_env :: "byte list list world fs_env" where
  "sample_world_env = \<lparr>e_globals = default_globals, e_alloc = \<lambda>_. True, e_read_fake = \<lambda>q st. (0, q, st), e_read_tester = \<lambda>q st. (0, q, st)\<rparr>"

lemma list_site_verify:
  "\<exists>t. BUS_transaction (BUS_select (s_routines (list_site i))) (s_routines (list_site i)) (\<lambda>_. 0) (Some [TRXN_NVERIFY, TRXN_END]) (bus_name moved_pn)
      \<lparr>mem = \<lambda>_. 0, conn = c, allocs = []\<rparr> = Some (gb_int (if cp_sn (pp_cache moved_pn) \<in> set (hardware c) then gbGOOD else gbBAD), t)
    \<and> hardware (conn t) = hardware c \<and> reconnect_state (conn t) = reconnect_state c"
  by (auto simp: BUS_transaction_def BUS_transaction_nolock_def list_site_def no_routines_def TRXN_NVERIFY_def TRXN_END_def BUS_lock_def BUS_unlock_def
      BUS_transaction_single_def BUS_select_def BUS_verify_def RootNotBranch_def ds2409_depth_def bus_name_def moved_pn_def lock_defs BAD_def Let_def)


end
