(* ===== verification/OW_Coherence.thy ===== *)
theory OW_Coherence
  imports OW_Property
begin

text \<open>
  Properties of numbers, single or arrays, read and written through the cache by the functions of \<open>OW_Property\<close>: the cache and the
  device never disagree. Reading and writing are described by what they do to the list of the elements, whatever mixture
  of whole and single accesses the array allows. Also here: what happens to arrays of strings, where the code
  does not do what it means to.
\<close>

section \<open>An array property and the cache\<close>

text \<open>The elements of a property of numbers, each a value object, and how a query shows them: the whole array or one element.\<close>

definition count :: "filetype \<Rightarrow> nat" where
  "count ft = (case ft_ag ft of None \<Rightarrow> 1 | Some ag \<Rightarrow> ag_elements ag)"

definition elems_ok :: "filetype \<Rightarrow> byte list list \<Rightarrow> bool" where
  "elems_ok ft vs \<longleftrightarrow> length vs = count ft \<and> (\<forall>v \<in> set vs. length v = sizeof_value_object)"

definition element :: "byte list list \<Rightarrow> int \<Rightarrow> byte list" where
  "element vs e = (if e = EXTENSION_ALL then concat vs else vs ! nat e)"

definition shown :: "one_wire_query \<Rightarrow> byte list" where
  "shown q = (if owq_extension q = EXTENSION_ALL then owq_array q else owq_val q)"

text \<open>The extensions a query may have, and those under which the driver is asked and values get into the cache.\<close>

definition extensions :: "filetype \<Rightarrow> int set" where
  "extensions ft = (if ft_ag ft = None then {0} else insert EXTENSION_ALL {0..<int (count ft)})"

definition kept_extensions :: "filetype \<Rightarrow> int set" where
  "kept_extensions ft =
     (case ft_ag ft of
        None \<Rightarrow> {0}
      | Some ag \<Rightarrow>
          (case ag_comb ag of
             ag_separate \<Rightarrow> {0..<int (count ft)}
           | ag_aggregate \<Rightarrow> {EXTENSION_ALL}
           | _ \<Rightarrow> extensions ft))"

text \<open>A property of numbers that is cached for a time, in the ordinary way.\<close>

definition plain_property :: "filetype \<Rightarrow> bool" where
  "plain_property ft \<longleftrightarrow>
     number_format (ft_form ft) \<and> ft_change ft \<notin> {fc_persistent, fc_simultaneous_temperature, fc_simultaneous_voltage}
   \<and> 0 < count ft \<and> count ft < 2 ^ 32 \<and> (\<forall>ag. ft_ag ft = Some ag \<longrightarrow> ag_comb ag \<noteq> ag_sparse)"

text \<open>A query for the property \<open>ft\<close> of the slave \<open>sn\<close> on a real bus.\<close>

definition query_for :: "byte list \<Rightarrow> filetype \<Rightarrow> one_wire_query \<Rightarrow> bool" where
  "query_for sn ft q \<longleftrightarrow>
     cp_sn (owq_pn q) = sn \<and> owq_ft q = ft \<and> (\<exists>i. cp_connection (owq_pn q) = Some (i, bus_real))
   \<and> owq_extension q \<in> extensions ft \<and> length (owq_val q) = sizeof_value_object
   \<and> (owq_extension q = EXTENSION_ALL \<longrightarrow> length (owq_array q) = count ft * sizeof_value_object)"

text \<open>What a driver for such a property does, with \<open>elems\<close> the elements it shows of the state of the device: reading changes
  nothing and gives the elements asked for; writing sets them, and one that fails may leave anything in them.\<close>

definition reads :: "byte list \<Rightarrow> filetype \<Rightarrow> ('d \<Rightarrow> byte list list) \<Rightarrow> 'd driver \<Rightarrow> bool" where
  "reads sn ft elems rd \<longleftrightarrow>
     (\<forall>q st ret q' st'. query_for sn ft q \<longrightarrow> owq_extension q \<in> kept_extensions ft \<longrightarrow> elems_ok ft (elems (fs_dev st)) \<longrightarrow>
        rd q st = (ret, q', st') \<longrightarrow>
        query_for sn ft q' \<and> owq_pn q' = owq_pn q \<and> owq_size q' = owq_size q \<and> fs_cache st' = fs_cache st \<and> fs_clock st \<le> fs_clock st'
        \<and> elems (fs_dev st') = elems (fs_dev st)
        \<and> (0 \<le> ret \<longrightarrow> shown q' = element (elems (fs_dev st)) (owq_extension q)))"

definition writes :: "byte list \<Rightarrow> filetype \<Rightarrow> ('d \<Rightarrow> byte list list) \<Rightarrow> 'd driver \<Rightarrow> bool" where
  "writes sn ft elems wr \<longleftrightarrow>
     (\<forall>q st ret q' st'. query_for sn ft q \<longrightarrow> owq_extension q \<in> kept_extensions ft \<longrightarrow> elems_ok ft (elems (fs_dev st)) \<longrightarrow>
        wr q st = (ret, q', st') \<longrightarrow>
        query_for sn ft q' \<and> owq_pn q' = owq_pn q \<and> fs_cache st' = fs_cache st \<and> fs_clock st \<le> fs_clock st'
        \<and> elems_ok ft (elems (fs_dev st'))
        \<and> (ret = 0 \<longrightarrow> element (elems (fs_dev st')) (owq_extension q) = shown q)
        \<and> (owq_extension q \<noteq> EXTENSION_ALL \<longrightarrow>
             (\<forall>i < count ft. int i \<noteq> owq_extension q \<longrightarrow> elems (fs_dev st') ! i = elems (fs_dev st) ! i)))"

definition property_key :: "byte list \<Rightarrow> filetype \<Rightarrow> int \<Rightarrow> tree_key" where
  "property_key sn ft e = LoadTK sn (ft_ptr (ft_id ft)) e"

lemma property_key_eq [simp]: "property_key sn ft e = property_key sn ft e' \<longleftrightarrow> e = e'"
  by (simp add: property_key_def LoadTK_def)

text \<open>The values in the cache, for the extensions of \<open>K\<close>, are those of the device, now and later.\<close>

definition coherent :: "globals \<Rightarrow> (tree_key \<Rightarrow> int) \<Rightarrow> byte list \<Rightarrow> filetype \<Rightarrow> int set \<Rightarrow> byte list list \<Rightarrow> int \<Rightarrow> cache_data \<Rightarrow> bool" where
  "coherent g dur sn ft K vs now c \<longleftrightarrow>
     cache_invar dur now c
   \<and> (\<forall>e. dur (property_key sn ft e) = TimeOut g (ft_change ft))
   \<and> (\<forall>t e v. now \<le> t \<longrightarrow> e \<in> K \<longrightarrow> cached t (property_key sn ft e) c = Some v \<longrightarrow> v = element vs e)"

lemma coherentD:
  assumes "coherent g dur sn ft K vs now c"
  shows "cache_invar dur now c" and "dur (property_key sn ft e) = TimeOut g (ft_change ft)"
    and "e \<in> K \<Longrightarrow> now \<le> t \<Longrightarrow> cached t (property_key sn ft e) c = Some v \<Longrightarrow> v = element vs e"
  using assms by (auto simp: coherent_def)

lemma coherent_later: "coherent g dur sn ft K vs now c \<Longrightarrow> now \<le> now' \<Longrightarrow> coherent g dur sn ft K vs now' c"
  by (simp add: coherent_def) (meson order_trans cache_invar_later)

lemma coherent_bump [simp]: "coherent g dur sn ft K vs now (bump i f c) = coherent g dur sn ft K vs now c"
  by (simp add: coherent_def)

text \<open>Nothing lives in the cache for no time.\<close>

lemma cached_no_time:
  assumes "cache_invar dur now c" and "dur k \<le> 0" and "now \<le> t"
  shows "cached t k c = None"
proof -
  have "live_node t (map_of (temporary_tree_new c) k) = None"
    using assms tree_invarD [of dur now now "temporary_tree_new c" k]
    by (fastforce simp: cache_invar_def node_invar_def live_node_def split: option.splits)
  moreover have "live_node t (map_of (temporary_tree_old c) k) = None"
    using assms tree_invarD [of dur now "time_retired c" "temporary_tree_old c" k]
    by (fastforce simp: cache_invar_def node_invar_def live_node_def split: option.splits)
  ultimately show ?thesis by (auto simp: cached_def map_add_def split: option.split)
qed

text \<open>Deleting makes room for any value.\<close>

lemma Cache_Del_coherent:
  assumes coh: "coherent g dur sn ft K vs now c" and pn: "cp_sn pn = sn" "cp_filetype pn = ft" "ft_change ft \<noteq> fc_persistent"
  shows "coherent g dur sn ft (insert (cp_extension pn) K) vs now (Cache_Del g now (Some pn) c)"
proof -
  note inv = coherentD(1) [OF coh]
  show ?thesis
  proof (cases "TimeOut g (ft_change ft) \<le> 0")
    case True
    have "cached t (property_key sn ft e) c = None" if "now \<le> t" for t e
      using cached_no_time [OF inv _ that] coherentD(2) [OF coh] True by simp
    then show ?thesis using coh pn True by (auto simp: coherent_def Cache_Del_def Let_def)
  next
    case False
    let ?c = "snd (Cache_Del_Common now (property_key sn ft (cp_extension pn)) c)"
    have "coherent g dur sn ft (insert (cp_extension pn) K) vs now ?c"
      using coh cache.del_invar [OF inv] cache.del_look [OF inv] by (auto simp: coherent_def split: if_splits)
    then show ?thesis
      using pn False
      by (simp add: Cache_Del_def Let_def del_filetype_def Del_Stat_def property_key_def split_beta)
  qed
qed

lemma Cache_Get_Strict_coherent:
  assumes coh: "coherent g dur sn ft K vs now c" and pn: "cp_sn pn = sn" "cp_filetype pn = ft" "\<not> IsThisPersistent pn"
    and e: "cp_extension pn \<in> K" and n: "length (element vs (cp_extension pn)) = n"
  shows "\<exists>ret data c'. Cache_Get_Strict g now n pn c = ((ret, data), c') \<and> coherent g dur sn ft K vs now c'
    \<and> (if ret = gbGOOD then data = element vs (cp_extension pn) else data = [])"
proof (cases "cp_uncached_dir pn \<or> cp_alarm_dir pn \<or> TimeOut g (ft_change ft) \<le> 0")
  case True
  then show ?thesis using coh pn by (auto simp: Cache_Get_Strict_def Cache_Get_def)
next
  case False
  let ?k = "property_key sn ft (cp_extension pn)" and ?d = "TimeOut g (ft_change ft)"
  obtain ctr m left data where get: "Cache_Get_Common now n ?d ?k c = (ctr, m, left, data)" by (metis prod_cases4)
  have "if ctr = ctr_ok then data = element vs (cp_extension pn) \<and> m = n else data = []"
  proof (cases "cached now ?k c")
    case None
    then show ?thesis
      using Cache_Get_Common_miss [OF coherentD(1) [OF coh] None, of n] coherentD(2) [OF coh] get by auto
  next
    case (Some v)
    then have "v = element vs (cp_extension pn)" using coherentD(3) [OF coh e order_refl] by simp
    then show ?thesis
      using Cache_Get_Common_cached(2) [OF coherentD(1) [OF coh] Some, of n] coherentD(2) [OF coh] get n by auto
  qed
  then show ?thesis
    using get coh pn False
    by (cases ctr) (auto simp: Cache_Get_Strict_def Cache_Get_def Get_Stat_def Let_def property_key_def [symmetric])
qed

lemma length_concat_values: "\<forall>v \<in> set vs. length v = sizeof_value_object \<Longrightarrow> length (concat vs) = length vs * sizeof_value_object"
  by (induction vs) auto

lemma length_element:
  assumes "elems_ok ft vs" and "e \<in> extensions ft" and "0 < count ft"
  shows "length (element vs e) = (if e = EXTENSION_ALL then count ft * sizeof_value_object else sizeof_value_object)"
  using assms by (auto simp: elems_ok_def element_def extensions_def length_concat_values EXTENSION_ALL_def split: if_splits)

lemma query_forD:
  assumes "query_for sn ft q" and "plain_property ft"
  shows "\<not> IsThisPersistent (owq_pn q)" and "array_size (owq_pn q) = None \<longleftrightarrow> ft_ag ft = None"
    and "owq_extension q = EXTENSION_ALL \<Longrightarrow> array_size (owq_pn q) = Some (length (owq_array q))"
    and "owq_extension q = EXTENSION_ALL \<Longrightarrow> ft_ag ft \<noteq> None"
  using assms
  by (auto simp: query_for_def plain_property_def IsThisPersistent_def get_busmode_def array_size_def extensions_def count_def
      EXTENSION_ALL_def split: if_splits)

lemma number_no_string: "number_format f \<Longrightarrow> \<not> string_format f \<and> f \<noteq> ft_bitfield \<and> f \<noteq> ft_alias \<and> f \<notin> {ft_directory, ft_subdir}"
  by (auto simp: number_format_def string_format_def)

lemma OWQ_Cache_Get_coherent:
  assumes coh: "coherent g dur sn ft K vs now c" and q: "query_for sn ft q" and ft: "plain_property ft" "elems_ok ft vs"
    and e: "owq_extension q \<in> K"
  shows "\<exists>gb q' c'. OWQ_Cache_Get g now q c = Some (gb, q', c') \<and> coherent g dur sn ft K vs now c' \<and> query_for sn ft q'
    \<and> owq_pn q' = owq_pn q \<and> owq_size q' = owq_size q \<and> (gb = gbGOOD \<longrightarrow> shown q' = element vs (owq_extension q))"
proof -
  let ?e = "owq_extension q"
  have n: "length (element vs ?e) = (if ?e = EXTENSION_ALL then length (owq_array q) else sizeof_value_object)"
    using length_element [OF ft(2), of ?e] q ft(1) by (auto simp: query_for_def plain_property_def)
  obtain ret data c' where get: "Cache_Get_Strict g now (length (element vs ?e)) (owq_pn q) c = ((ret, data), c')"
    and coh': "coherent g dur sn ft K vs now c'" and data: "if ret = gbGOOD then data = element vs ?e else data = []"
    using Cache_Get_Strict_coherent [OF coh _ _ query_forD(1) [OF q ft(1)] e refl] q by (auto simp: query_for_def)
  show ?thesis
  proof (cases "cp_uncached_dir (owq_pn q) \<or> cp_alarm_dir (owq_pn q)")
    case True
    then show ?thesis using coh q by (auto simp: OWQ_Cache_Get_def)
  next
    case False
    let ?q = "if ?e = EXTENSION_ALL then q\<lparr>owq_array := overlay data (owq_array q)\<rparr> else q\<lparr>owq_val := overlay data (owq_val q)\<rparr>"
    have f: "ft_change (owq_ft q) \<noteq> fc_simultaneous_temperature" "ft_change (owq_ft q) \<noteq> fc_simultaneous_voltage"
      "number_format (ft_form (owq_ft q))" "\<not> string_format (ft_form (owq_ft q))"
      using ft(1) q number_no_string [of "ft_form ft"] by (auto simp: plain_property_def query_for_def)
    have "OWQ_Cache_Get g now q c = Some (ret, ?q, c')"
      using False f get n query_forD(3) [OF q ft(1)] by (cases "?e = EXTENSION_ALL") (simp_all add: OWQ_Cache_Get_def)
    moreover have "query_for sn ft ?q" "owq_pn ?q = owq_pn q" "owq_size ?q = owq_size q"
      using q data n by (auto simp: query_for_def overlay_def split: if_splits)
    moreover have "ret = gbGOOD \<longrightarrow> shown ?q = element vs ?e"
      using q data n by (auto simp: query_for_def overlay_def shown_def)
    ultimately show ?thesis using coh' by blast
  qed
qed

lemma OWQ_Cache_Add_coherent:
  assumes coh: "coherent g dur sn ft K vs now c" and q: "query_for sn ft q" and ft: "plain_property ft" "elems_ok ft vs"
    and shown: "shown q = element vs (owq_extension q)"
  shows "\<exists>gb c'. OWQ_Cache_Add g now mok tok q c = Some (gb, c') \<and> coherent g dur sn ft K vs now c'"
proof -
  let ?e = "owq_extension q"
  have f: "number_format (ft_form (owq_ft q))" "\<not> string_format (ft_form (owq_ft q))"
    using ft(1) q number_no_string [of "ft_form ft"] by (auto simp: plain_property_def query_for_def)
  have "OWQ_Cache_Add g now mok tok q c = Some (Cache_Add g now mok tok (element vs ?e) (Some (owq_pn q)) c)"
    using f query_forD(3) [OF q ft(1)] shown
    by (cases "?e = EXTENSION_ALL") (simp_all add: OWQ_Cache_Add_def shown_def Let_def)
  moreover have "coherent g dur sn ft K vs now (snd (Cache_Add g now mok tok (element vs ?e) (Some (owq_pn q)) c))"
  proof (cases "cp_alarm_dir (owq_pn q) \<or> TimeOut g (ft_change ft) \<le> 0 \<or> \<not> mok")
    case True
    then show ?thesis using coh q query_forD(1) [OF q ft(1)] by (auto simp: Cache_Add_def Let_def query_for_def)
  next
    case False
    let ?add = "put_temporary dur now (g, tok) (property_key sn ft ?e) (element vs ?e) c"
    have "Cache_Add g now mok tok (element vs ?e) (Some (owq_pn q)) c = Add_Stat cache_ext ?add"
      using False q query_forD(1) [OF q ft(1)] coherentD(2) [OF coh]
      by (simp add: Cache_Add_def query_for_def put_temporary_def value_node_def property_key_def)
    moreover have "coherent g dur sn ft K vs now (snd ?add)"
      using coh cache.add_invar [OF coherentD(1) [OF coh]] cache.add_look [OF coherentD(1) [OF coh]]
      by (auto simp: coherent_def split: if_splits)
    ultimately show ?thesis by (simp add: Add_Stat_def split_beta)
  qed
  ultimately show ?thesis by (metis prod.collapse)
qed

lemma coherent_change:
  "coherent g dur sn ft K vs now c \<Longrightarrow> (\<And>e. e \<in> K' \<Longrightarrow> e \<in> K \<and> element vs' e = element vs e) \<Longrightarrow>
    coherent g dur sn ft K' vs' now c"
  by (simp add: coherent_def)

section \<open>Reading and writing an array\<close>

definition good_state :: "'d fs_env \<Rightarrow> (tree_key \<Rightarrow> int) \<Rightarrow> byte list \<Rightarrow> filetype \<Rightarrow> ('d \<Rightarrow> byte list list) \<Rightarrow> 'd fs_state \<Rightarrow> bool" where
  "good_state env dur sn ft elems st \<longleftrightarrow>
     elems_ok ft (elems (fs_dev st))
   \<and> coherent (e_globals env) dur sn ft (kept_extensions ft) (elems (fs_dev st)) (fs_clock st) (fs_cache st)"

lemma good_state_allocs [simp]: "good_state env dur sn ft elems (st\<lparr>fs_allocs := a\<rparr>) = good_state env dur sn ft elems st"
  by (simp add: good_state_def)

text \<open>A read returns, changes nothing, and what it shows is what the device has.\<close>

definition read_outcome ::
  "'d fs_env \<Rightarrow> (tree_key \<Rightarrow> int) \<Rightarrow> byte list \<Rightarrow> filetype \<Rightarrow> ('d \<Rightarrow> byte list list) \<Rightarrow> one_wire_query \<Rightarrow> 'd fs_state \<Rightarrow> 'd fs_result \<Rightarrow> bool" where
  "read_outcome env dur sn ft elems q st r \<longleftrightarrow>
     (\<exists>ret q' st'. r = Some (ret, q', st') \<and> good_state env dur sn ft elems st' \<and> elems (fs_dev st') = elems (fs_dev st)
        \<and> query_for sn ft q' \<and> owq_pn q' = owq_pn q \<and> owq_size q' = owq_size q
        \<and> (0 \<le> ret \<longrightarrow> shown q' = element (elems (fs_dev st)) (owq_extension q)))"

lemma read_outcome_allocs [simp]:
  "read_outcome env dur sn ft elems q (st\<lparr>fs_allocs := a\<rparr>) r = read_outcome env dur sn ft elems q st r"
  by (simp add: read_outcome_def)

lemma kept_subset: "plain_property ft \<Longrightarrow> kept_extensions ft \<subseteq> extensions ft"
  by (auto simp: kept_extensions_def extensions_def plain_property_def split: option.splits ag_combined.splits)

lemma FS_read_owq_outcome:
  assumes rd: "reads sn ft elems rd" "p_read p = Some rd" and st: "good_state env dur sn ft elems st" and ft: "plain_property ft"
    and q: "query_for sn ft q" "owq_extension q \<in> kept_extensions ft"
  shows "read_outcome env dur sn ft elems q st (FS_read_owq env p q st)"
proof -
  let ?g = "e_globals env" and ?vs = "elems (fs_dev st)"
  have ok: "elems_ok ft ?vs" and coh: "coherent ?g dur sn ft (kept_extensions ft) ?vs (fs_clock st) (fs_cache st)"
    using st by (simp_all add: good_state_def)
  obtain gb q1 c1 where get: "OWQ_Cache_Get ?g (fs_clock st) q (fs_cache st) = Some (gb, q1, c1)"
    and c1: "coherent ?g dur sn ft (kept_extensions ft) ?vs (fs_clock st) c1"
    and q1: "query_for sn ft q1" "owq_pn q1 = owq_pn q" "owq_size q1 = owq_size q"
      "gb = gbGOOD \<longrightarrow> shown q1 = element ?vs (owq_extension q)"
    using OWQ_Cache_Get_coherent [OF coh q(1) ft ok q(2)] by blast
  let ?st = "st\<lparr>fs_cache := c1\<rparr>"
  show ?thesis
  proof (cases "gb = gbGOOD")
    case True
    then show ?thesis using get c1 q1 ok by (simp add: FS_read_owq_def cache_get_def read_outcome_def good_state_def)
  next
    case False
    obtain ret q2 st2 where r: "rd q1 ?st = (ret, q2, st2)" by (metis prod_cases3)
    have q2: "query_for sn ft q2" "owq_pn q2 = owq_pn q" "owq_size q2 = owq_size q" "fs_cache st2 = c1" "fs_clock st \<le> fs_clock st2"
      "elems (fs_dev st2) = ?vs" "0 \<le> ret \<longrightarrow> shown q2 = element ?vs (owq_extension q)"
      using rd(1) [unfolded reads_def, rule_format, OF q1(1) _ _ r] q1 q(2) ok by simp_all
    have c2: "coherent ?g dur sn ft (kept_extensions ft) ?vs (fs_clock st2) c1" using coherent_later [OF c1 q2(5)] .
    show ?thesis
    proof (cases "ret < 0")
      case True
      then show ?thesis
        using get False r q2 c2 ok rd(2) by (simp add: FS_read_owq_def cache_get_def read_outcome_def good_state_def BAD_def)
    next
      case pos: False
      obtain gb' c3 where add: "OWQ_Cache_Add ?g (fs_clock st2) (e_alloc env (fs_allocs st2)) (e_alloc env (Suc (fs_allocs st2))) q2 c1
          = Some (gb', c3)" and c3: "coherent ?g dur sn ft (kept_extensions ft) ?vs (fs_clock st2) c3"
        using OWQ_Cache_Add_coherent [OF c2 q2(1) ft ok] q2 pos by (metis linorder_not_less)
      then show ?thesis
        using get False r q2 c3 ok rd(2) pos
        by (simp add: FS_read_owq_def cache_get_def cache_add_def owmalloc_def read_outcome_def good_state_def BAD_def)
    qed
  qed
qed

text \<open>Reading through a copy of the query.\<close>

lemma read_copy_outcome:
  assumes rd: "reads sn ft elems rd" "p_read p = Some rd" and st: "good_state env dur sn ft elems st" and ft: "plain_property ft"
    and q0: "query_for sn ft q0" "owq_extension q0 \<in> kept_extensions ft" and q: "query_for sn ft q" and e: "e < 0"
    and f: "\<And>q'. query_for sn ft q' \<Longrightarrow> owq_pn q' = owq_pn q0 \<Longrightarrow> shown q' = element (elems (fs_dev st)) (owq_extension q0) \<Longrightarrow>
      \<exists>q''. f q' = Some q'' \<and> query_for sn ft q'' \<and> owq_pn q'' = owq_pn q \<and> owq_size q'' = owq_size q
        \<and> shown q'' = element (elems (fs_dev st)) (owq_extension q)"
  shows "read_outcome env dur sn ft elems q st (read_copy env p e f q0 q st)"
proof -
  obtain ret q' st' where r: "FS_read_owq env p q0 st = Some (ret, q', st')" and st': "good_state env dur sn ft elems st'"
    and el: "elems (fs_dev st') = elems (fs_dev st)" and q': "query_for sn ft q'" "owq_pn q' = owq_pn q0"
      "0 \<le> ret \<longrightarrow> shown q' = element (elems (fs_dev st)) (owq_extension q0)"
    using FS_read_owq_outcome [OF rd st ft q0] by (auto simp: read_outcome_def)
  show ?thesis
  proof (cases "ret < 0")
    case True
    then show ?thesis using r st' el q e by (simp add: read_copy_def read_outcome_def)
  next
    case False
    then show ?thesis using f [OF q'(1,2)] q'(3) r st' el by (auto simp: read_copy_def read_outcome_def)
  qed
qed

text \<open>The array as a list of objects.\<close>

abbreviation objects :: "byte list list \<Rightarrow> bool" where
  "objects vs \<equiv> \<forall>v \<in> set vs. length v = sizeof_value_object"

lemma take_concat_values: "objects vs \<Longrightarrow> take (i * sizeof_value_object) (concat vs) = concat (take i vs)"
  and drop_concat_values: "objects vs \<Longrightarrow> drop (i * sizeof_value_object) (concat vs) = concat (drop i vs)"
proof (induction vs arbitrary: i)
  case (Cons v vs)
  {
    case 1
    then show ?case using Cons.IH(1) by (cases i) (auto simp: sizeof_value_object_def)
  next
    case 2
    then show ?case using Cons.IH(2) by (cases i) (auto simp: sizeof_value_object_def)
  }
qed simp_all

lemma array_values:
  assumes "length a = n * sizeof_value_object"
  shows "\<exists>vs. a = concat vs \<and> length vs = n \<and> objects vs"
  using assms
proof (induction n arbitrary: a)
  case (Suc n)
  have "length (drop sizeof_value_object a) = n * sizeof_value_object" using Suc.prems by simp
  then obtain vs where vs: "drop sizeof_value_object a = concat vs" "length vs = n" "objects vs" using Suc.IH by blast
  have "a = concat (take sizeof_value_object a # vs)" using vs(1) by (metis append_take_drop_id concat.simps(2))
  then show ?case using vs Suc.prems by (intro exI [of _ "take sizeof_value_object a # vs"]) auto
qed simp

lemma OWQ_array_val_concat:
  assumes "owq_array q = concat vs" and "objects vs" and "i < length vs"
  shows "OWQ_array_val q i = Some (vs ! i)"
proof -
  have "(i + 1) * sizeof_value_object \<le> length (concat vs)" using assms(2,3) by (simp add: length_concat_values sizeof_value_object_def)
  moreover have "take sizeof_value_object (drop (i * sizeof_value_object) (concat vs)) = vs ! i"
    using assms(2,3) nth_mem [of i vs] Cons_nth_drop_Suc [of i vs, symmetric]
    by (simp add: drop_concat_values)
  ultimately show ?thesis using assms(1) by (simp add: OWQ_array_val_def)
qed

lemma set_array_val_concat:
  assumes "owq_array q = concat vs" and "objects vs" and "i < length vs" and "length v = sizeof_value_object"
  shows "set_array_val i v q = Some (q\<lparr>owq_array := concat (vs[i := v])\<rparr>)"
proof -
  have fits: "i * sizeof_value_object + length v \<le> length (concat vs)"
    using assms(2-4) by (simp add: length_concat_values sizeof_value_object_def)
  have "take (i * sizeof_value_object) (concat vs) @ v @ drop (Suc i * sizeof_value_object) (concat vs) = concat (vs[i := v])"
    using assms(2,3) by (simp add: take_concat_values drop_concat_values upd_conv_take_nth_drop del: mult_Suc)
  then show ?thesis using fits assms(1,4) by (simp add: set_array_val_def blk_store_def add.commute)
qed

lemma OWQ_copy_for:
  assumes "query_for sn ft q" and "e \<in> extensions ft" and "e \<noteq> EXTENSION_ALL"
  shows "query_for sn ft (OWQ_copy e q)"
  using assms by (auto simp: query_for_def OWQ_copy_def)

lemma OWQ_copy_simps [simp]: "owq_pn (OWQ_copy e q) = (owq_pn q)\<lparr>cp_extension := e\<rparr>"
  by (simp add: OWQ_copy_def)

text \<open>The copy for the whole array.\<close>

lemma OWQ_create_aggregate_cases:
  assumes "query_for sn ft q" and ft: "plain_property ft" "ft_ag ft = Some ag" and "p_type p = ePN_real"
  shows "(\<exists>a. OWQ_create_aggregate env p q st = Some (None, st\<lparr>fs_allocs := a\<rparr>))
    \<or> (\<exists>q' a. OWQ_create_aggregate env p q st = Some (Some q', st\<lparr>fs_allocs := a\<rparr>) \<and> query_for sn ft q'
        \<and> owq_pn q' = (owq_pn q)\<lparr>cp_extension := EXTENSION_ALL\<rparr> \<and> owq_size q' = 1 \<and> owq_offset q' = 0)"
proof (cases "e_alloc env (fs_allocs st) \<and> e_alloc env (Suc (fs_allocs st))")
  case True
  have n: "elements_of (OWQ_copy EXTENSION_ALL q) = Some (count ft)" and len: "length (owq_val (OWQ_copy EXTENSION_ALL q)) = sizeof_value_object"
    using assms(1) ft(2) by (simp_all add: elements_of_def query_for_def count_def OWQ_copy_def)
  let ?q = "(OWQ_copy EXTENSION_ALL q)\<lparr>owq_array := replicate (count ft * sizeof_value_object) 0\<rparr>"
  have "OWQ_create_aggregate env p q st = Some (Some ?q, st\<lparr>fs_allocs := Suc (Suc (fs_allocs st))\<rparr>)"
    using True n assms(4) by (simp add: OWQ_create_aggregate_def OWQ_allocate_array_def owmalloc_def)
  moreover have "query_for sn ft ?q" "owq_pn ?q = (owq_pn q)\<lparr>cp_extension := EXTENSION_ALL\<rparr>" "owq_size ?q = 1" "owq_offset ?q = 0"
    using assms(1) ft(2) len by (auto simp: query_for_def extensions_def OWQ_copy_def)
  ultimately show ?thesis by blast
next
  case False
  have n: "elements_of (OWQ_copy EXTENSION_ALL q) = Some (count ft)"
    using assms(1) ft(2) by (simp add: elements_of_def query_for_def count_def)
  show ?thesis
    using False n assms(4) by (auto simp: OWQ_create_aggregate_def OWQ_allocate_array_def owmalloc_def)
qed

lemma FS_read_a_part_outcome:
  assumes rd: "reads sn ft elems rd" "p_read p = Some rd" and st: "good_state env dur sn ft elems st"
    and ft: "plain_property ft" "ft_ag ft = Some ag" "ag_comb ag = ag_aggregate" "p_type p = ePN_real"
    and q: "query_for sn ft q" "owq_extension q \<noteq> EXTENSION_ALL"
  shows "read_outcome env dur sn ft elems q st (FS_read_a_part env p q st)"
proof -
  have f: "ft_form (owq_ft q) \<noteq> ft_bitfield" "\<not> string_format (ft_form (owq_ft q))" and sub: "nat (owq_extension q) < count ft"
    using ft(1) q number_no_string [of "ft_form ft"] by (auto simp: plain_property_def query_for_def extensions_def split: if_splits)
  consider a where "OWQ_create_aggregate env p q st = Some (None, st\<lparr>fs_allocs := a\<rparr>)"
    | q' a where "OWQ_create_aggregate env p q st = Some (Some q', st\<lparr>fs_allocs := a\<rparr>)" "query_for sn ft q'"
        "owq_pn q' = (owq_pn q)\<lparr>cp_extension := EXTENSION_ALL\<rparr>"
    using OWQ_create_aggregate_cases [OF q(1) ft(1,2,4)] by blast
  then show ?thesis
  proof cases
    case 1
    then show ?thesis using f st q by (simp add: FS_read_a_part_def read_outcome_def ENOENT_def)
  next
    case 2
    let ?st = "st\<lparr>fs_allocs := a\<rparr>" and ?vs = "elems (fs_dev st)"
    have vs: "objects ?vs" "length ?vs = count ft" using st by (simp_all add: good_state_def elems_ok_def)
    have "\<exists>q''. part_of_array q p' = Some q'' \<and> query_for sn ft q'' \<and> owq_pn q'' = owq_pn q \<and> owq_size q'' = owq_size q
        \<and> shown q'' = element ?vs (owq_extension q)"
      if "query_for sn ft p'" "owq_pn p' = owq_pn q'" "shown p' = element ?vs (owq_extension q')" for p'
    proof -
      have "owq_array p' = concat ?vs" using that(2,3) 2(3) by (simp add: shown_def element_def)
      then have "OWQ_array_val p' (nat (owq_extension q)) = Some (?vs ! nat (owq_extension q))"
        using OWQ_array_val_concat [OF _ vs(1)] sub vs(2) by simp
      then show ?thesis using f q sub vs nth_mem [of "nat (owq_extension q)" ?vs]
        by (auto simp: part_of_array_def query_for_def shown_def element_def)
    qed
    then have "read_outcome env dur sn ft elems q ?st (read_copy env p (- EINVAL) (part_of_array q) q' q ?st)"
      using 2 st ft by (intro read_copy_outcome [OF rd _ ft(1) 2(2) _ q(1)]) (auto simp: kept_extensions_def EINVAL_def)
    then show ?thesis using f 2 by (simp add: FS_read_a_part_def)
  qed
qed

text \<open>The loop over the parts fills the array from the front.\<close>

lemma read_parts_loop_outcome:
  assumes rd: "reads sn ft elems rd" "p_read p = Some rd" and ft: "plain_property ft" "ft_ag ft = Some ag" "ag_comb ag = ag_separate"
    and "i \<le> count ft" and "good_state env dur sn ft elems st" and "query_for sn ft q" and "owq_extension q = EXTENSION_ALL"
    and "cp_sn (owq_pn qp) = sn" "owq_ft qp = ft" "\<exists>b. cp_connection (owq_pn qp) = Some (b, bus_real)"
      "length (owq_val qp) = sizeof_value_object"
    and "owq_array q = concat ws" "objects ws" "length ws = count ft" and "take i ws = take i (elems (fs_dev st))"
  shows "read_outcome env dur sn ft elems q st (read_parts_loop env p [i..<count ft] qp pos left q st)"
  using assms(6-)
proof (induction "count ft - i" arbitrary: i st q qp ws)
  case 0
  then have "ws = elems (fs_dev st)" by (simp add: good_state_def elems_ok_def)
  then show ?case using 0 by (simp add: read_outcome_def shown_def element_def)
next
  case (Suc k)
  let ?vs = "elems (fs_dev st)" and ?q = "set_extension (int i) qp"
  have i: "i < count ft" "[i..<count ft] = i # [Suc i..<count ft]" using Suc.hyps(2) by (simp_all add: upt_conv_Cons)
  have q: "query_for sn ft ?q" "owq_extension ?q \<in> kept_extensions ft"
    using Suc.prems i ft by (auto simp: query_for_def extensions_def kept_extensions_def EXTENSION_ALL_def)
  obtain ret q' st' where r: "FS_read_owq env p ?q st = Some (ret, q', st')" and st': "good_state env dur sn ft elems st'"
    and el: "elems (fs_dev st') = ?vs" and q': "query_for sn ft q'" "owq_pn q' = owq_pn ?q" "0 \<le> ret \<longrightarrow> shown q' = element ?vs (int i)"
    using FS_read_owq_outcome [OF rd Suc.prems(2) ft(1) q] by (auto simp: read_outcome_def)
  have str: "\<not> string_format (ft_form (owq_ft q))"
    using ft(1) Suc.prems(3) number_no_string [of "ft_form ft"] by (simp add: plain_property_def query_for_def)
  show ?case
  proof (cases "ret < 0")
    case True
    then show ?thesis using r i st' el Suc.prems(3) by (simp add: read_outcome_def EINVAL_def)
  next
    case False
    then have v: "owq_val q' = ?vs ! i" using q'(2,3) by (simp add: shown_def element_def EXTENSION_ALL_def split: if_splits)
    let ?ws = "ws[i := owq_val q']" and ?q2 = "q\<lparr>owq_array := concat (ws[i := owq_val q'])\<rparr>"
    have set: "set_array_val i (owq_val q') q = Some ?q2"
      using set_array_val_concat [OF Suc.prems(9,10)] Suc.prems(11) i(1) q'(1) by (simp add: query_for_def)
    have len: "objects ?ws" using Suc.prems(10) q'(1) set_update_subset_insert [of ws i "owq_val q'"] by (auto simp: query_for_def)
    have tk: "take (Suc i) ?ws = take (Suc i) ?vs"
      using Suc.prems(2,11,12) i(1) v by (simp add: take_Suc_conv_app_nth good_state_def elems_ok_def)
    have "query_for sn ft ?q2" using Suc.prems(3,11) len by (simp add: query_for_def length_concat_values)
    then have "read_outcome env dur sn ft elems ?q2 st' (read_parts_loop env p [Suc i..<count ft] q' pos left ?q2 st')"
      using Suc.hyps(1) [of "Suc i" st' ?q2 q' ?ws] Suc.hyps(2) i(1) st' el q' Suc.prems(4,11) len tk
      by (simp add: query_for_def)
    then show ?thesis using r False str i(2) set el Suc.prems(4) by (simp add: read_outcome_def)
  qed
qed

lemma FileLength_number:
  "number_format (ft_form (owq_ft q)) \<Longrightarrow> p_type p = ePN_real \<Longrightarrow> 0 < FileLength p q \<and> FileLength p q \<le> 24"
  by (auto simp: FileLength_def IsDir_def number_format_def property_lengths)

lemma FS_read_in_parts_outcome:
  assumes rd: "reads sn ft elems rd" "p_read p = Some rd" and st: "good_state env dur sn ft elems st"
    and ft: "plain_property ft" "ft_ag ft = Some ag" "ag_comb ag = ag_separate" and ty: "p_type p = ePN_real"
    and q: "query_for sn ft q" "owq_extension q = EXTENSION_ALL"
  shows "read_outcome env dur sn ft elems q st (FS_read_in_parts env p q st)"
proof -
  have f: "ft_form (owq_ft q) \<noteq> ft_bitfield" "number_format (ft_form (owq_ft q))" and n: "elements_of q = Some (count ft)"
    using ft(1,2) q number_no_string [of "ft_form ft"] by (auto simp: plain_property_def query_for_def elements_of_def count_def)
  let ?qp = "OWQ_copy 0 q" and ?len = "FileLength p (OWQ_copy 0 q)"
  let ?qb = "?qp\<lparr>owq_buffer := replicate (?len + 1) 0, owq_size := ?len, owq_offset := 0\<rparr>"
  let ?st = "st\<lparr>fs_allocs := Suc (Suc (fs_allocs st))\<rparr>"
  obtain ws where ws: "owq_array q = concat ws" "length ws = count ft" "objects ws"
    using array_values [of "owq_array q" "count ft"] q by (auto simp: query_for_def)
  have "read_outcome env dur sn ft elems q ?st (read_parts_loop env p [0..<count ft] ?qb 0 (owq_size q) q ?st)"
    using q st ws by (intro read_parts_loop_outcome [OF rd ft]) (auto simp: query_for_def OWQ_copy_def)
  moreover have "FullFileLength p ?qp = Some ?len" "0 < ?len"
    using FileLength_number [of ?qp p] f ty by (simp_all add: FullFileLength_def EXTENSION_ALL_def Let_def)
  ultimately show ?thesis
    using f n st q
    by (auto simp: FS_read_in_parts_def OWQ_create_separate_def owmalloc_def OWQ_allocate_read_buffer_def read_outcome_def
        ENOENT_def EMSGSIZE_def)
qed

text \<open>Deletions of a mixed property.\<close>

lemma coherent_del:
  assumes "coherent g dur sn ft K vs now c" and "cp_sn pn = sn" "cp_filetype pn = ft" "ft_change ft \<noteq> fc_persistent"
    and "K' \<subseteq> insert (cp_extension pn) K"
  shows "coherent g dur sn ft K' vs now (Cache_Del g now (Some pn) c)"
  using coherent_change [OF Cache_Del_coherent [OF assms(1-4)], of K' vs] assms(5) by auto

lemma coherent_del_parts:
  assumes coh: "coherent g dur sn ft K vs now c" and pn: "cp_sn pn = sn" "cp_filetype pn = ft" "ft_change ft \<noteq> fc_persistent"
    and "ft_ag ft = Some ag"
  shows "coherent g dur sn ft (K \<union> {0..<int (count ft)}) vs now (OWQ_Cache_Del_parts g now pn c)"
proof -
  have "coherent g dur sn ft (K \<union> int ` set is) vs now (foldl (\<lambda>c i. Cache_Del g now (Some (pn\<lparr>cp_extension := int i\<rparr>)) c) c is)"
    if "coherent g dur sn ft K vs now c" for "is" K c
    using that
  proof (induction "is" arbitrary: K c)
    case (Cons i "is")
    have "coherent g dur sn ft (insert (int i) K) vs now (Cache_Del g now (Some (pn\<lparr>cp_extension := int i\<rparr>)) c)"
      using coherent_del [OF Cons.prems] pn by simp
    from Cons.IH [OF this] show ?case by simp
  qed simp
  from this [OF coh, of "rev [0..<count ft]"] show ?thesis
    using assms(5) pn by (simp add: OWQ_Cache_Del_parts_def count_def image_int_atLeastLessThan)
qed

lemma good_state_del:
  assumes st: "good_state env dur sn ft elems st" and q: "query_for sn ft q" and ft: "plain_property ft" "ft_ag ft = Some ag"
  shows "good_state env dur sn ft elems (cache_del OWQ_Cache_Del_parts env q st)"
    and "good_state env dur sn ft elems (cache_del OWQ_Cache_Del_ALL env q st)"
    and "good_state env dur sn ft elems (cache_del OWQ_Cache_Del_BYTE env q st)"
proof -
  have coh: "coherent (e_globals env) dur sn ft (kept_extensions ft) (elems (fs_dev st)) (fs_clock st) (fs_cache st)"
    and pn: "cp_sn (owq_pn q) = sn" "owq_ft q = ft" "ft_change ft \<noteq> fc_persistent"
    using st q ft by (auto simp: good_state_def query_for_def plain_property_def)
  show "good_state env dur sn ft elems (cache_del OWQ_Cache_Del_parts env q st)"
    using coherent_change [OF coherent_del_parts [OF coh pn ft(2)], of "kept_extensions ft"] st
    by (simp add: good_state_def cache_del_def)
  have "coherent (e_globals env) dur sn ft (kept_extensions ft) (elems (fs_dev st)) (fs_clock st)
      (Cache_Del (e_globals env) (fs_clock st) (Some ((owq_pn q)\<lparr>cp_extension := e\<rparr>)) (fs_cache st))" for e
    by (rule coherent_del [OF coh]) (use pn in auto)
  then show "good_state env dur sn ft elems (cache_del OWQ_Cache_Del_ALL env q st)"
    and "good_state env dur sn ft elems (cache_del OWQ_Cache_Del_BYTE env q st)"
    using st by (simp_all add: good_state_def cache_del_def OWQ_Cache_Del_ALL_def OWQ_Cache_Del_BYTE_def)
qed

lemma cache_del_dev [simp]: "fs_dev (cache_del d env q st) = fs_dev st" "fs_clock (cache_del d env q st) = fs_clock st"
  by (simp_all add: cache_del_def)

lemma FS_r_array_outcome:
  assumes rd: "reads sn ft elems rd" "p_read p = Some rd" and st: "good_state env dur sn ft elems st"
    and ft: "plain_property ft" "ft_ag ft = Some ag" "p_type p = ePN_real" and q: "query_for sn ft q"
  shows "read_outcome env dur sn ft elems q st (FS_r_array env p ag q st)"
proof -
  have f: "ft_form (owq_ft q) \<noteq> ft_bitfield" and e: "owq_extension q \<noteq> EXTENSION_BYTE" and n: "ag_comb ag \<noteq> ag_sparse"
    using ft q number_no_string [of "ft_form ft"]
    by (auto simp: plain_property_def query_for_def extensions_def EXTENSION_ALL_def EXTENSION_BYTE_def split: if_splits)
  have ext: "owq_extension q \<in> extensions ft" "owq_extension q \<noteq> EXTENSION_ALL \<Longrightarrow> owq_extension q \<in> {0..<int (count ft)}"
    using q ft(2) by (auto simp: query_for_def extensions_def)
  note read = FS_read_owq_outcome [OF rd _ ft(1) q] and del = good_state_del [OF _ q ft(1,2)]
  show ?thesis
  proof (cases "ag_comb ag")
    case ag_separate
    then show ?thesis
      using ext read [OF st] FS_read_in_parts_outcome [OF rd st ft(1,2) ag_separate ft(3) q] e ft(2)
      by (auto simp: FS_r_array_def kept_extensions_def)
  next
    case ag_aggregate
    then show ?thesis
      using read [OF st] FS_read_a_part_outcome [OF rd st ft(1,2) ag_aggregate ft(3) q] e f ft(2)
      by (auto simp: FS_r_array_def FS_read_all_def kept_extensions_def)
  next
    case ag_mixed
    have kept: "owq_extension q \<in> kept_extensions ft" using ext ag_mixed ft(2) by (simp add: kept_extensions_def)
    then show ?thesis
      using ag_mixed e f read [OF del(1) [OF st]] read [OF del(3) [OF del(2) [OF st]]]
      by (auto simp: FS_r_array_def FS_read_all_def read_outcome_def)
  qed (use n in simp)
qed

text \<open>The size that is left of a query: all of it or up to the end of the file, nothing past the end.\<close>

lemma size_t_pos: "2 \<le> k \<Longrightarrow> k < 2 ^ 64 \<Longrightarrow> 0 < size_t (int k - 1)"
  by (simp add: size_t_def)

lemma FullFileLength_number:
  assumes "query_for sn ft q" and "plain_property ft" and "p_type p = ePN_real"
  shows "\<exists>len. FullFileLength p q = Some len \<and> 0 < len"
proof -
  let ?len = "FileLength p q"
  have len: "0 < ?len" "?len \<le> 24" using FileLength_number [of q p] assms by (auto simp: query_for_def plain_property_def)
  have n: "0 < count ft" "count ft < 2 ^ 32" using assms(2) by (simp_all add: plain_property_def)
  have "2 * 1 \<le> (?len + 1) * count ft" using len(1) n(1) by (intro mult_le_mono) auto
  moreover have "(?len + 1) * count ft < 2 ^ 64"
    using mult_le_mono [of "?len + 1" 25 "count ft" "2 ^ 32"] len(2) n(2) by simp
  ultimately have pos: "0 < size_t (int ((?len + 1) * count ft) - 1)" by (intro size_t_pos) simp_all
  have "ft_form ft \<noteq> ft_binary" using assms(2) by (auto simp: plain_property_def number_format_def)
  then show ?thesis using pos len(1) assms(1) query_forD(4) [OF assms(1,2)]
    by (auto simp: FullFileLength_def Let_def elements_of_def query_for_def count_def assms(3))
qed

lemma adjust_file_size_number:
  assumes "query_for sn ft q" and "plain_property ft" and "p_type p = ePN_real"
  shows "\<exists>n. adjust_file_size p q = Some (q\<lparr>owq_size := n\<rparr>) \<and> (owq_offset q = 0 \<and> owq_size q = 1 \<longrightarrow> n = 1)"
proof -
  obtain len where len: "FullFileLength p q = Some len" "0 < len" using FullFileLength_number [OF assms] by blast
  let ?n = "if size_t (owq_offset q) \<ge> len then 0 else if size_t (int (owq_size q) + owq_offset q) > len
    then size_t (int len - owq_offset q) else owq_size q"
  have "adjust_file_size p q = Some (q\<lparr>owq_size := ?n\<rparr>)" using len by (simp add: adjust_file_size_def)
  moreover have "owq_offset q = 0 \<and> owq_size q = 1 \<longrightarrow> ?n = 1" using len by (simp add: size_t_def)
  ultimately show ?thesis by blast
qed

lemma FS_r_local_outcome:
  assumes rd: "reads sn ft elems rd" "p_read p = Some rd" and st: "good_state env dur sn ft elems st"
    and ft: "plain_property ft" "p_type p = ePN_real" "\<not> p_read_alias p" and q: "query_for sn ft q"
  shows "\<exists>ret q' st'. FS_r_local env p q st = Some (ret, q', st') \<and> good_state env dur sn ft elems st'
    \<and> elems (fs_dev st') = elems (fs_dev st) \<and> query_for sn ft q' \<and> owq_pn q' = owq_pn q
    \<and> (0 \<le> ret \<and> 0 < owq_size q' \<longrightarrow> shown q' = element (elems (fs_dev st)) (owq_extension q))
    \<and> (owq_offset q = 0 \<and> owq_size q = 1 \<longrightarrow> owq_size q' = 1)"
proof -
  obtain n where n: "adjust_file_size p q = Some (q\<lparr>owq_size := n\<rparr>)" "owq_offset q = 0 \<and> owq_size q = 1 \<longrightarrow> n = 1"
    using adjust_file_size_number [OF q ft(1,2)] by blast
  let ?q = "q\<lparr>owq_size := n\<rparr>"
  let ?r = "case ft_ag ft of None \<Rightarrow> FS_read_owq env p ?q st | Some ag \<Rightarrow> FS_r_array env p ag ?q st"
  have q': "query_for sn ft ?q" using q by (simp add: query_for_def)
  have "read_outcome env dur sn ft elems ?q st ?r"
  proof (cases "ft_ag ft")
    case None
    then show ?thesis using FS_read_owq_outcome [OF rd st ft(1) q'] q
      by (simp add: query_for_def extensions_def kept_extensions_def)
  next
    case (Some ag)
    then show ?thesis using FS_r_array_outcome [OF rd st ft(1) Some ft(2) q'] by simp
  qed
  moreover have "FS_r_local env p q st = (if n = 0 then Some (0, ?q, st) else ?r)"
    using n(1) rd(2) ft(3) q by (auto simp: FS_r_local_def Let_def query_for_def FS_r_virtual_adapter_def)
  ultimately show ?thesis using n(2) q' st q by (auto simp: read_outcome_def)
qed

text \<open>A write returns, keeps the cache coherent, and on success has changed what was asked and nothing else. A write of one element
  that the driver handles by itself touches no other element even when it fails.\<close>

definition write_outcome ::
  "'d fs_env \<Rightarrow> (tree_key \<Rightarrow> int) \<Rightarrow> byte list \<Rightarrow> filetype \<Rightarrow> ('d \<Rightarrow> byte list list) \<Rightarrow> one_wire_query \<Rightarrow> 'd fs_state \<Rightarrow> 'd fs_result \<Rightarrow> bool" where
  "write_outcome env dur sn ft elems q st r \<longleftrightarrow>
     (\<exists>ret q' st'. r = Some (ret, q', st') \<and> good_state env dur sn ft elems st' \<and> query_for sn ft q' \<and> owq_pn q' = owq_pn q
        \<and> (ret = 0 \<longrightarrow>
             (if owq_extension q = EXTENSION_ALL then concat (elems (fs_dev st')) = owq_array q
              else elems (fs_dev st') = (elems (fs_dev st))[nat (owq_extension q) := owq_val q]))
        \<and> (owq_extension q \<in> kept_extensions ft - {EXTENSION_ALL} \<longrightarrow>
             (\<forall>i < count ft. int i \<noteq> owq_extension q \<longrightarrow> elems (fs_dev st') ! i = elems (fs_dev st) ! i)))"

lemma write_outcome_allocs [simp]:
  "write_outcome env dur sn ft elems q (st\<lparr>fs_allocs := a\<rparr>) r = write_outcome env dur sn ft elems q st r"
  by (simp add: write_outcome_def)

lemma write_outcome_del [simp]:
  "write_outcome env dur sn ft elems q (cache_del d env' q' st) r = write_outcome env dur sn ft elems q st r"
  by (simp add: write_outcome_def)

text \<open>Beforehand the cache may hold, besides what is written, only what stays as it is.\<close>

definition ready_for :: "'d fs_env \<Rightarrow> (tree_key \<Rightarrow> int) \<Rightarrow> byte list \<Rightarrow> filetype \<Rightarrow> byte list list \<Rightarrow> int \<Rightarrow> 'd fs_state \<Rightarrow> bool" where
  "ready_for env dur sn ft vs e st \<longleftrightarrow>
     (\<forall>vs'. (e \<noteq> EXTENSION_ALL \<longrightarrow> (\<forall>i < count ft. int i \<noteq> e \<longrightarrow> vs' ! i = vs ! i)) \<longrightarrow>
        coherent (e_globals env) dur sn ft (kept_extensions ft - {e}) vs' (fs_clock st) (fs_cache st))"

lemma FS_write_owq_outcome:
  assumes wr: "writes sn ft elems wr" "p_write p = Some wr" and ok: "elems_ok ft (elems (fs_dev st))" and ft: "plain_property ft"
    and q: "query_for sn ft q" "owq_extension q \<in> kept_extensions ft"
    and ready: "ready_for env dur sn ft (elems (fs_dev st)) (owq_extension q) st"
  shows "write_outcome env dur sn ft elems q st (FS_write_owq env p q st)"
proof -
  let ?e = "owq_extension q" and ?g = "e_globals env"
  obtain ret q1 st1 where w: "wr q st = (ret, q1, st1)" by (metis prod_cases3)
  let ?vs = "elems (fs_dev st)" and ?vs' = "elems (fs_dev st1)"
  have w1: "query_for sn ft q1" "owq_pn q1 = owq_pn q" "fs_cache st1 = fs_cache st" "fs_clock st \<le> fs_clock st1" "elems_ok ft ?vs'"
    "ret = 0 \<longrightarrow> element ?vs' ?e = shown q" "?e \<noteq> EXTENSION_ALL \<longrightarrow> (\<forall>i < count ft. int i \<noteq> ?e \<longrightarrow> ?vs' ! i = ?vs ! i)"
    using wr(1) [unfolded writes_def, rule_format, OF q ok w] by simp_all
  have "coherent ?g dur sn ft (kept_extensions ft - {?e}) ?vs' (fs_clock st1) (fs_cache st)"
    using coherent_later [OF _ w1(4)] ready w1(7) by (simp add: ready_for_def)
  then have "coherent ?g dur sn ft (kept_extensions ft) ?vs' (fs_clock st1) (Cache_Del ?g (fs_clock st1) (Some (owq_pn q)) (fs_cache st))"
    using q ft by (intro coherent_del) (auto simp: query_for_def plain_property_def)
  then have st: "good_state env dur sn ft elems (cache_del OWQ_Cache_Del env q1 st1)"
    using w1(2,3,5) by (simp add: good_state_def cache_del_def OWQ_Cache_Del_def)
  have "?vs' = ?vs[nat ?e := owq_val q]" if "ret = 0" "?e \<noteq> EXTENSION_ALL"
  proof (rule nth_equalityI)
    show "length ?vs' = length (?vs[nat ?e := owq_val q])" using ok w1(5) by (simp add: elems_ok_def)
    fix i
    assume "i < length ?vs'"
    then show "?vs' ! i = ?vs[nat ?e := owq_val q] ! i"
      using that w1(5-7) ok q(1) by (auto simp: elems_ok_def nth_list_update element_def shown_def query_for_def extensions_def split: if_splits)
  qed
  moreover have "concat ?vs' = owq_array q" if "ret = 0" "?e = EXTENSION_ALL" using that w1(6) by (simp add: element_def shown_def)
  ultimately show ?thesis using w w1(1,2,7) st wr(2) by (simp add: FS_write_owq_def driver_result_def write_outcome_def)
qed

text \<open>When the cache is ready: the value is the only one kept, it is one of several separate ones, or the others were deleted.\<close>

lemma good_state_ready:
  assumes st: "good_state env dur sn ft elems st" and e: "e \<in> kept_extensions ft" and n: "ft_ag ft = None \<or> (\<exists>ag. ft_ag ft = Some ag \<and> ag_comb ag \<in> {ag_separate, ag_aggregate})"
  shows "ready_for env dur sn ft (elems (fs_dev st)) e st"
  unfolding ready_for_def
proof (intro allI impI)
  fix vs'
  assume same: "e \<noteq> EXTENSION_ALL \<longrightarrow> (\<forall>i < count ft. int i \<noteq> e \<longrightarrow> vs' ! i = elems (fs_dev st) ! i)"
  have "e' \<in> kept_extensions ft \<and> element vs' e' = element (elems (fs_dev st)) e'" if e': "e' \<in> kept_extensions ft - {e}" for e'
  proof -
    have "e' \<noteq> EXTENSION_ALL" "e \<noteq> EXTENSION_ALL" "0 \<le> e'" "nat e' < count ft"
      using e' e n by (auto simp: kept_extensions_def EXTENSION_ALL_def split: option.splits ag_combined.splits)
    then show ?thesis using same e' by (auto simp: element_def)
  qed
  then show "coherent (e_globals env) dur sn ft (kept_extensions ft - {e}) vs' (fs_clock st) (fs_cache st)"
    using st by (auto simp: good_state_def elim!: coherent_change)
qed

lemma ready_after_del:
  assumes st: "good_state env dur sn ft elems st" and q: "query_for sn ft q" and ft: "plain_property ft" "ft_ag ft = Some ag" "ag_comb ag = ag_mixed"
  shows "ready_for env dur sn ft (elems (fs_dev st)) EXTENSION_ALL (cache_del OWQ_Cache_Del_parts env q st)"
    and "e \<in> {0..<int (count ft)} \<Longrightarrow>
      ready_for env dur sn ft (elems (fs_dev st)) e (cache_del OWQ_Cache_Del_BYTE env q (cache_del OWQ_Cache_Del_ALL env q st))"
proof -
  let ?g = "e_globals env" and ?now = "fs_clock st" and ?c = "fs_cache st"
  have coh: "coherent ?g dur sn ft (kept_extensions ft) (elems (fs_dev st)) ?now ?c"
    and pn: "cp_sn (owq_pn q) = sn" "owq_ft q = ft" "ft_change ft \<noteq> fc_persistent"
    using st q ft by (auto simp: good_state_def query_for_def plain_property_def)
  have kept: "kept_extensions ft = insert EXTENSION_ALL {0..<int (count ft)}" using ft(2,3) by (simp add: kept_extensions_def extensions_def)
  have parts: "{0..<int (count ft)} - {EXTENSION_ALL} = {0..<int (count ft)}" by (auto simp: EXTENSION_ALL_def)
  have "coherent ?g dur sn ft {} vs' ?now ?c" for vs' by (rule coherent_change [OF coh]) simp
  from coherent_del_parts [OF this pn ft(2)]
  show "ready_for env dur sn ft (elems (fs_dev st)) EXTENSION_ALL (cache_del OWQ_Cache_Del_parts env q st)"
    by (simp add: ready_for_def kept parts cache_del_def)
  show "ready_for env dur sn ft (elems (fs_dev st)) e (cache_del OWQ_Cache_Del_BYTE env q (cache_del OWQ_Cache_Del_ALL env q st))"
    if "e \<in> {0..<int (count ft)}"
    unfolding ready_for_def
  proof (intro allI impI)
    fix vs'
    assume same: "e \<noteq> EXTENSION_ALL \<longrightarrow> (\<forall>i < count ft. int i \<noteq> e \<longrightarrow> vs' ! i = elems (fs_dev st) ! i)"
    have "coherent ?g dur sn ft ({0..<int (count ft)} - {e}) vs' ?now ?c"
      using same that by (intro coherent_change [OF coh]) (auto simp: kept element_def EXTENSION_ALL_def)
    then have "coherent ?g dur sn ft (kept_extensions ft - {e}) vs' ?now
        (Cache_Del ?g ?now (Some ((owq_pn q)\<lparr>cp_extension := EXTENSION_ALL\<rparr>)) ?c)"
      by (rule coherent_del) (use pn kept in auto)
    then have "coherent ?g dur sn ft (kept_extensions ft - {e}) vs' ?now (Cache_Del ?g ?now (Some ((owq_pn q)\<lparr>cp_extension := EXTENSION_BYTE\<rparr>))
        (Cache_Del ?g ?now (Some ((owq_pn q)\<lparr>cp_extension := EXTENSION_ALL\<rparr>)) ?c))"
      by (rule coherent_del) (use pn in auto)
    then show "coherent ?g dur sn ft (kept_extensions ft - {e}) vs'
        (fs_clock (cache_del OWQ_Cache_Del_BYTE env q (cache_del OWQ_Cache_Del_ALL env q st)))
        (fs_cache (cache_del OWQ_Cache_Del_BYTE env q (cache_del OWQ_Cache_Del_ALL env q st)))"
      by (simp add: cache_del_def OWQ_Cache_Del_ALL_def OWQ_Cache_Del_BYTE_def)
  qed
qed

lemma concat_objects_eq:
  assumes "concat vs = concat ws" and "objects vs" and "objects ws" and "length vs = length ws"
  shows "vs = ws"
  using assms concat_eq_concat_iff [of vs ws] set_zip_leftD [of _ _ vs ws] set_zip_rightD [of _ _ vs ws] by fastforce

text \<open>One element of an array that is written as a whole: the rest comes from the device or from the cache.\<close>

lemma FS_write_a_part_outcome:
  assumes rd: "reads sn ft elems rd" "p_read p = Some rd" and wr: "writes sn ft elems wr" "p_write p = Some wr"
    and st: "good_state env dur sn ft elems st"
    and ft: "plain_property ft" "ft_ag ft = Some ag" "ag_comb ag = ag_aggregate" "p_type p = ePN_real" "\<not> p_read_alias p"
    and q: "query_for sn ft q" "owq_extension q \<noteq> EXTENSION_ALL"
  shows "write_outcome env dur sn ft elems q st (FS_write_a_part env p q st)"
proof -
  have f: "ft_form (owq_ft q) \<noteq> ft_bitfield" "\<not> string_format (ft_form (owq_ft q))" and sub: "nat (owq_extension q) < count ft"
    and n: "elements_of q = Some (count ft)"
    using ft(1,2) q number_no_string [of "ft_form ft"]
    by (auto simp: plain_property_def query_for_def extensions_def elements_of_def count_def split: if_splits)
  have kept: "kept_extensions ft = {EXTENSION_ALL}" using ft(2,3) by (simp add: kept_extensions_def)
  consider a where "OWQ_create_aggregate env p q st = Some (None, st\<lparr>fs_allocs := a\<rparr>)"
    | q' a where "OWQ_create_aggregate env p q st = Some (Some q', st\<lparr>fs_allocs := a\<rparr>)" "query_for sn ft q'"
        "owq_pn q' = (owq_pn q)\<lparr>cp_extension := EXTENSION_ALL\<rparr>" "owq_size q' = 1" "owq_offset q' = 0"
    using OWQ_create_aggregate_cases [OF q(1) ft(1,2,4)] by blast
  then show ?thesis
  proof cases
    case 1
    then show ?thesis using f st q kept by (simp add: FS_write_a_part_def write_outcome_def ENOENT_def)
  next
    case 2
    let ?st = "st\<lparr>fs_allocs := a\<rparr>" and ?vs = "elems (fs_dev st)"
    obtain ret q1 st1 where r: "FS_r_local env p q' ?st = Some (ret, q1, st1)" and st1: "good_state env dur sn ft elems st1"
      and el: "elems (fs_dev st1) = ?vs" and q1: "query_for sn ft q1" "owq_pn q1 = owq_pn q'"
        "0 \<le> ret \<longrightarrow> shown q1 = element ?vs EXTENSION_ALL"
      using FS_r_local_outcome [OF rd _ ft(1,4,5) 2(2), of env dur ?st] st 2(3-5) by auto
    show ?thesis
    proof (cases "ret < 0")
      case True
      then show ?thesis using f r st1 el 2(1) q kept by (simp add: FS_write_a_part_def write_outcome_def ENOENT_def)
    next
      case False
      let ?i = "nat (owq_extension q)"
      have vs: "objects ?vs" "length ?vs = count ft" using st by (simp_all add: good_state_def elems_ok_def)
      have arr: "owq_array q1 = concat ?vs" using q1(2,3) False 2(3) by (simp add: shown_def element_def)
      let ?ws = "?vs[?i := owq_val q]" and ?q2 = "q1\<lparr>owq_array := concat (?vs[nat (owq_extension q) := owq_val q])\<rparr>"
      have val: "length (owq_val q) = sizeof_value_object" using q(1) by (simp add: query_for_def)
      have ws: "objects ?ws" "length ?ws = count ft" using vs val set_update_subset_insert [of ?vs ?i "owq_val q"] by auto
      have rep: "replace_part (count ft) q q1 = Some ?q2"
        using set_array_val_concat [OF arr vs(1) _ val] sub vs(2) f by (simp add: replace_part_def)
      have q2: "query_for sn ft ?q2" "owq_extension ?q2 = EXTENSION_ALL" using q1 2(3) ws by (auto simp: query_for_def length_concat_values)
      have "write_outcome env dur sn ft elems ?q2 st1 (FS_write_owq env p ?q2 st1)"
        using st1 q2 kept ft(2,3) by (intro FS_write_owq_outcome [OF wr _ ft(1)]) (auto simp: good_state_def intro!: good_state_ready)
      then obtain ret2 q3 st3 where w: "FS_write_owq env p ?q2 st1 = Some (ret2, q3, st3)" "good_state env dur sn ft elems st3"
          "ret2 = 0 \<longrightarrow> concat (elems (fs_dev st3)) = concat ?ws"
        using q2(2) by (auto simp: write_outcome_def)
      have "elems (fs_dev st3) = ?ws" if "ret2 = 0"
        using concat_objects_eq [of "elems (fs_dev st3)" ?ws] w(2,3) that ws by (simp add: good_state_def elems_ok_def)
      then show ?thesis
        using f r 2(1) False n rep w q kept by (simp add: FS_write_a_part_def write_copy_def write_outcome_def)
    qed
  qed
qed

text \<open>All elements one by one.\<close>

lemma write_parts_loop_outcome:
  assumes wr: "writes sn ft elems wr" "p_write p = Some wr" and ft: "plain_property ft" "ft_ag ft = Some ag" "ag_comb ag = ag_separate"
    and q: "owq_ft q = ft" "owq_array q = concat ws" "objects ws" "length ws = count ft"
    and "i \<le> count ft" and "good_state env dur sn ft elems st"
    and "cp_sn (owq_pn qp) = sn" "owq_ft qp = ft" "\<exists>b. cp_connection (owq_pn qp) = Some (b, bus_real)"
    and "z = 0 \<longrightarrow> take i (elems (fs_dev st)) = take i ws"
  shows "\<exists>ret st'. write_parts_loop env p [i..<count ft] sz qp pos z q st = Some (ret, q, st') \<and> good_state env dur sn ft elems st'
    \<and> (ret = 0 \<longrightarrow> elems (fs_dev st') = ws)"
  using assms(10-)
proof (induction "count ft - i" arbitrary: i st qp z)
  case 0
  then show ?case using q(4) by (simp add: good_state_def elems_ok_def)
next
  case (Suc k)
  let ?vs = "elems (fs_dev st)" and ?q = "set_extension (int i) (qp\<lparr>owq_size := sz, owq_val := ws ! i\<rparr>)"
  have i: "i < count ft" "[i..<count ft] = i # [Suc i..<count ft]" using Suc.hyps(2) by (simp_all add: upt_conv_Cons)
  have str: "\<not> string_format (ft_form (owq_ft q))" using ft(1) q(1) number_no_string [of "ft_form ft"] by (simp add: plain_property_def)
  have e: "owq_extension ?q \<in> kept_extensions ft" "owq_extension ?q \<noteq> EXTENSION_ALL"
    using i ft by (auto simp: kept_extensions_def EXTENSION_ALL_def)
  have q': "query_for sn ft ?q"
    using Suc.prems i ft q(3,4) by (auto simp: query_for_def extensions_def EXTENSION_ALL_def)
  have "write_outcome env dur sn ft elems ?q st (FS_write_owq env p ?q st)"
    using Suc.prems(2) e ft(2,3) q' by (intro FS_write_owq_outcome [OF wr _ ft(1)] good_state_ready) (auto simp: good_state_def)
  then obtain ret q1 st1 where w: "FS_write_owq env p ?q st = Some (ret, q1, st1)" "good_state env dur sn ft elems st1" "query_for sn ft q1"
      "ret = 0 \<longrightarrow> elems (fs_dev st1) = ?vs[i := ws ! i]"
      "\<forall>j < count ft. int j \<noteq> int i \<longrightarrow> elems (fs_dev st1) ! j = ?vs ! j"
    using e by (auto simp: write_outcome_def)
  let ?z = "if ret \<noteq> 0 then ret else z"
  have "?z = 0 \<longrightarrow> take (Suc i) (elems (fs_dev st1)) = take (Suc i) ws"
    using w(4) Suc.prems(2,6) i(1) q(4) by (auto simp: take_Suc_conv_app_nth good_state_def elems_ok_def)
  then have "\<exists>ret st'. write_parts_loop env p [Suc i..<count ft] sz q1 pos ?z q st1 = Some (ret, q, st') \<and> good_state env dur sn ft elems st'
      \<and> (ret = 0 \<longrightarrow> elems (fs_dev st') = ws)"
    using Suc.hyps w(2,3) i(1) by (intro Suc.hyps(1)) (auto simp: query_for_def)
  then show ?case
    using w(1) str i OWQ_array_val_concat [OF q(2,3), of i] q(4) by simp
qed

lemma FS_w_array_outcome:
  assumes rd: "reads sn ft elems rd" "p_read p = Some rd" and wr: "writes sn ft elems wr" "p_write p = Some wr"
    and st: "good_state env dur sn ft elems st"
    and ft: "plain_property ft" "ft_ag ft = Some ag" "p_type p = ePN_real" "\<not> p_read_alias p" and q: "query_for sn ft q"
  shows "write_outcome env dur sn ft elems q st (FS_w_array env p ag q st)"
proof -
  have f: "ft_form (owq_ft q) \<noteq> ft_bitfield" and e: "owq_extension q \<noteq> EXTENSION_BYTE" and n: "ag_comb ag \<noteq> ag_sparse"
    using ft q number_no_string [of "ft_form ft"]
    by (auto simp: plain_property_def query_for_def extensions_def EXTENSION_ALL_def EXTENSION_BYTE_def split: if_splits)
  have ext: "owq_extension q \<in> extensions ft" "owq_extension q \<noteq> EXTENSION_ALL \<Longrightarrow> owq_extension q \<in> {0..<int (count ft)}"
    using q ft(2) by (auto simp: query_for_def extensions_def)
  have ok: "elems_ok ft (elems (fs_dev st))" using st by (simp add: good_state_def)
  note put = FS_write_owq_outcome [OF wr _ ft(1) q]
  show ?thesis
  proof (cases "ag_comb ag")
    case ag_separate
    have one: "write_outcome env dur sn ft elems q st (FS_write_owq env p q st)" if "owq_extension q \<noteq> EXTENSION_ALL"
      using put [OF ok] good_state_ready [OF st] ext(2) [OF that] ag_separate ft(2) by (simp add: kept_extensions_def)
    have all: "write_outcome env dur sn ft elems q st (FS_write_in_parts env p q st)" if h: "owq_extension q = EXTENSION_ALL"
    proof -
      obtain ws where ws: "owq_array q = concat ws" "length ws = count ft" "objects ws"
        using array_values [of "owq_array q" "count ft"] q h by (auto simp: query_for_def)
      let ?st = "st\<lparr>fs_allocs := Suc (fs_allocs st)\<rparr>"
      have "\<exists>ret st'. write_parts_loop env p [0..<count ft] (FileLength p (OWQ_copy 0 q)) (OWQ_copy 0 q) 0 0 q ?st = Some (ret, q, st')
          \<and> good_state env dur sn ft elems st' \<and> (ret = 0 \<longrightarrow> elems (fs_dev st') = ws)"
        using ws q st by (intro write_parts_loop_outcome [OF wr ft(1,2) ag_separate]) (auto simp: query_for_def)
      moreover have "elements_of q = Some (count ft)" using q ft(2) by (simp add: elements_of_def query_for_def count_def)
      ultimately show ?thesis using ws(1) h q st
        by (auto simp: FS_write_in_parts_def OWQ_create_separate_def owmalloc_def write_outcome_def ENOENT_def)
    qed
    show ?thesis using one all e ag_separate by (auto simp: FS_w_array_def)
  next
    case ag_aggregate
    then show ?thesis
      using put [OF ok] good_state_ready [OF st] FS_write_a_part_outcome [OF rd wr st ft(1,2) ag_aggregate ft(3,4) q] e f ft(2)
      by (auto simp: FS_w_array_def FS_write_all_def kept_extensions_def)
  next
    case ag_mixed
    have kept: "owq_extension q \<in> kept_extensions ft" using ext ag_mixed ft(2) by (simp add: kept_extensions_def)
    note ready = ready_after_del [OF st q ft(1,2) ag_mixed]
    have "write_outcome env dur sn ft elems q st (FS_write_owq env p q (cache_del OWQ_Cache_Del_parts env q st))"
      if "owq_extension q = EXTENSION_ALL"
      using put [OF _ kept, of "cache_del OWQ_Cache_Del_parts env q st" env dur] ready(1) ok that by simp
    moreover have "write_outcome env dur sn ft elems q st
        (FS_write_owq env p q (cache_del OWQ_Cache_Del_BYTE env q (cache_del OWQ_Cache_Del_ALL env q st)))"
      if "owq_extension q \<noteq> EXTENSION_ALL"
      using put [OF _ kept, of "cache_del OWQ_Cache_Del_BYTE env q (cache_del OWQ_Cache_Del_ALL env q st)" env dur]
        ready(2) [OF ext(2) [OF that]] ok by simp
    ultimately show ?thesis using ag_mixed e f by (auto simp: FS_w_array_def FS_write_all_def)
  qed (use n in simp)
qed

lemma FS_w_local_outcome:
  assumes rd: "reads sn ft elems rd" "p_read p = Some rd" and wr: "writes sn ft elems wr" "p_write p = Some wr"
    and st: "good_state env dur sn ft elems st"
    and ft: "plain_property ft" "p_type p = ePN_real" "\<not> p_read_alias p" and q: "query_for sn ft q"
  shows "write_outcome env dur sn ft elems q st (FS_w_local env p q st)"
proof -
  have mode: "get_busmode (cp_connection (owq_pn q)) \<notin> {bus_mock, bus_fake, bus_tester}" and form: "owq_ft q = ft"
    using q by (auto simp: query_for_def get_busmode_def)
  show ?thesis
  proof (cases "ft_ag ft")
    case None
    have "owq_extension q \<in> kept_extensions ft" using q None by (simp add: query_for_def extensions_def kept_extensions_def)
    then have "write_outcome env dur sn ft elems q st (FS_write_owq env p q st)"
      using st None q by (intro FS_write_owq_outcome [OF wr _ ft(1)] good_state_ready) (auto simp: good_state_def)
    then show ?thesis using None wr(2) mode form by (simp add: FS_w_local_def)
  next
    case (Some ag)
    then show ?thesis using FS_w_array_outcome [OF rd wr st ft(1) Some ft(2,3) q] wr(2) mode form by (simp add: FS_w_local_def)
  qed
qed

section \<open>Sequences of reads and writes\<close>

datatype fs_op = Rd one_wire_query | Wr one_wire_query

fun fs_run :: "'d fs_env \<Rightarrow> 'd property \<Rightarrow> fs_op list \<Rightarrow> 'd fs_state \<Rightarrow> ((int \<times> one_wire_query) list \<times> 'd fs_state) option" where
  "fs_run env p [] st = Some ([], st)"
| "fs_run env p (op # ops) st =
     (case (case op of Rd q \<Rightarrow> FS_r_local env p q st | Wr q \<Rightarrow> FS_w_local env p q st) of
        None \<Rightarrow> None
      | Some (ret, q, st) \<Rightarrow> map_option (\<lambda>(rs, st). ((ret, q) # rs, st)) (fs_run env p ops st))"

text \<open>What happened, told of the elements alone, without a cache: each read that succeeded shows the elements there were at that
  moment, and each write that succeeded set the ones it was for.\<close>

fun explained :: "filetype \<Rightarrow> byte list list \<Rightarrow> fs_op list \<Rightarrow> (int \<times> one_wire_query) list \<Rightarrow> byte list list \<Rightarrow> bool" where
  "explained ft vs [] [] vs' \<longleftrightarrow> vs' = vs"
| "explained ft vs (Rd q # ops) ((ret, q') # rs) vs' \<longleftrightarrow>
     (0 \<le> ret \<and> 0 < owq_size q' \<longrightarrow> shown q' = element vs (owq_extension q)) \<and> explained ft vs ops rs vs'"
| "explained ft vs (Wr q # ops) ((ret, q') # rs) vs' \<longleftrightarrow>
     (\<exists>vs1. elems_ok ft vs1
        \<and> (ret = 0 \<longrightarrow> (if owq_extension q = EXTENSION_ALL then concat vs1 = owq_array q else vs1 = vs[nat (owq_extension q) := owq_val q]))
        \<and> (owq_extension q \<in> kept_extensions ft - {EXTENSION_ALL} \<longrightarrow> (\<forall>i < count ft. int i \<noteq> owq_extension q \<longrightarrow> vs1 ! i = vs ! i))
        \<and> explained ft vs1 ops rs vs')"
| "explained ft vs _ _ vs' \<longleftrightarrow> False"

lemma good_state_open:
  assumes "elems_ok ft (elems (fs_dev st))" and "fs_cache st = Cache_Open (e_globals env) (fs_clock st) c"
    and "TimeOut (e_globals env) (ft_change ft) \<le> min (TimeOut (e_globals env) fc_stable) 3600"
  shows "good_state env (\<lambda>_. TimeOut (e_globals env) (ft_change ft)) sn ft elems st"
  using assms Cache_Open_invar [of "\<lambda>_. TimeOut (e_globals env) (ft_change ft)" "e_globals env"]
  by (simp add: good_state_def coherent_def)

section \<open>Arrays of strings\<close>

lemma skip_prior_zero: "pos \<le> end_pos \<Longrightarrow> skip_prior end_pos 0 extension pos = Some (0, pos)"
proof (induction end_pos "0 :: nat" extension pos rule: skip_prior.induct)
  case (1 end_pos extension pos)
  then show ?case by (cases "extension = 0") (simp_all add: skip_prior.simps [of end_pos 0 extension pos] skip_prior.simps [of end_pos 0 0 pos] word_gt_0)
qed

lemma skip_prior_runs_away:
  "0 < len0 \<Longrightarrow> extension \<noteq> 0 \<Longrightarrow> end_pos - pos < unat (- extension) \<Longrightarrow> skip_prior end_pos len0 extension pos = None"
proof (induction end_pos len0 extension pos rule: skip_prior.induct)
  case (1 end_pos len0 extension pos)
  show ?case
  proof (cases "pos + len0 > end_pos")
    case True
    then show ?thesis using 1(3) by (simp add: skip_prior.simps [of end_pos len0 extension pos] word_gt_0)
  next
    case False
    have "- extension \<noteq> 0" using 1(3) by simp
    then have step: "unat (- (extension + 1)) = unat (- extension) - 1" by (simp add: unat_minus_one)
    have left: "end_pos - (pos + len0) < unat (- (extension + 1))" using False 1(2,4) step by simp
    then have "extension + 1 \<noteq> 0" by (metis add.inverse_neutral not_less0 unat_0)
    then show ?thesis using False 1(1) [OF _ False 1(2) _ left] 1(3)
      by (simp add: skip_prior.simps [of end_pos len0 extension pos] word_gt_0)
  qed
qed

section \<open>Properties\<close>


text \<open>A device with two registers that are read and written together or one by one.\<close>

definition register_filetype :: filetype where
  "register_filetype = \<lparr>ft_id = 3, ft_form = ft_unsigned, ft_change = fc_stable, ft_ag = Some \<lparr>ag_elements = 2, ag_comb = ag_aggregate\<rparr>\<rparr>"

definition register_read :: "byte list list driver" where
  "register_read q st =
     (0, if owq_extension q = EXTENSION_ALL then q\<lparr>owq_array := concat (fs_dev st)\<rparr> else q\<lparr>owq_val := fs_dev st ! nat (owq_extension q)\<rparr>, st)"

definition register_write :: "byte list list driver" where
  "register_write q st =
     (0, q, st\<lparr>fs_dev := if owq_extension q = EXTENSION_ALL
        then [take sizeof_value_object (owq_array q), drop sizeof_value_object (owq_array q)]
        else (fs_dev st)[nat (owq_extension q) := owq_val q]\<rparr>)"

lemma register_driver: "reads sn register_filetype id register_read" "writes sn register_filetype id register_write"
  by (auto simp: reads_def writes_def register_read_def register_write_def query_for_def elems_ok_def element_def shown_def kept_extensions_def
      register_filetype_def count_def length_concat_values)

definition register_query :: "int \<Rightarrow> one_wire_query" where
  "register_query e =
     \<lparr>owq_buffer = [], owq_size = 25, owq_offset = 0, owq_val = [7, 0, 0, 0, 0, 0, 0, 0], owq_length = 0, owq_array = replicate 16 0, owq_simul = False,
      owq_pn = \<lparr>cp_sn = [0x2F, 1, 2, 3, 4, 5, 6, 7], cp_filetype = register_filetype, cp_extension = e, cp_alarm_dir = False,
        cp_uncached_dir = False, cp_connection = Some (0, bus_real), cp_bp = []\<rparr>\<rparr>"


text \<open>
  C36: writing one string of an array that is written as a whole goes wrong for every element but the first. If the first string is not
  empty, the program runs past the end of its buffer; if it is empty, it replaces the first string in place of
  the one asked for (after as many rounds as there are unsigned integers).
\<close>
theorem string_element_write_undefined:
  assumes "string_format (ft_form (owq_ft q))" and "0 < owq_extension q" "owq_extension q < 2 ^ 31"
    and "OWQ_array_length owq_all 0 = Some len0" and "length (owq_buffer owq_all) < 2 ^ 63"
  shows "replace_part elements q owq_all = (if 0 < len0 then None else replace_part elements (set_extension 0 q) owq_all)"
proof -
  let ?e = "word_of_int (owq_extension q) :: 64 word"
  have u: "uint ?e = owq_extension q" using assms(2,3) by (simp add: uint_word_of_int)
  then have e: "?e \<noteq> 0" using assms(2) by auto
  have "uint (- ?e) = 2 ^ 64 - owq_extension q" using u assms(2,3) by (simp add: uint_word_ariths zmod_zminus1_eq_if)
  then have "unat (- ?e) = nat (2 ^ 64 - owq_extension q)" by (metis nat_uint_eq)
  then have "length (owq_buffer owq_all) - 0 < unat (- ?e)" using assms(3,5) by simp
  then have "skip_prior (length (owq_buffer owq_all)) len0 ?e 0 = None" if "0 < len0"
    using skip_prior_runs_away [OF that e] by simp
  then show ?thesis
    using assms(1,4) skip_prior_zero [of 0 "length (owq_buffer owq_all)"] by (simp add: replace_part_def cong: if_cong)
qed

theorem string_element_write_undefined_witness:
  "replace_part 2 ((register_query 1)\<lparr>owq_pn := (owq_pn (register_query 1))\<lparr>cp_filetype := register_filetype\<lparr>ft_form := ft_ascii\<rparr>\<rparr>\<rparr>)
     ((register_query EXTENSION_ALL)\<lparr>owq_buffer := replicate 10 0, owq_array := size_bytes 5 @ size_bytes 5\<rparr>) = None"
proof -
  have len: "OWQ_array_length ((register_query EXTENSION_ALL)\<lparr>owq_buffer := replicate 10 0, owq_array := size_bytes 5 @ size_bytes 5\<rparr>) 0 = Some 5"
    by (simp add: OWQ_array_length_def OWQ_array_val_def size_bytes_def bytes_size_def sizeof_value_object_def upt_rec)
  show ?thesis
    by (rule trans [OF string_element_write_undefined [OF _ _ _ len]]) (simp_all add: register_query_def string_format_def)
qed

text \<open>
  A short read of a string is kept as if it were all of it. When fewer bytes than the property has were read and cached, a later read
  with room for all of them is served from the cache, without asking the device, and returns only those bytes.
\<close>
theorem short_read_kept:
  assumes "OWQ_Cache_Add (e_globals env) now mok tok q c = Some (gbGOOD, fs_cache st)"
    and "string_format (ft_form (owq_ft q))" and "owq_length q \<le> length (owq_buffer q)" and "owq_extension q \<noteq> EXTENSION_ALL"
    and "\<not> cp_alarm_dir (owq_pn q)" "\<not> cp_uncached_dir (owq_pn q)" "\<not> IsThisPersistent (owq_pn q)"
    and "0 < TimeOut (e_globals env) (ft_change (owq_ft q))" "fs_clock st < now + TimeOut (e_globals env) (ft_change (owq_ft q))"
    and "ft_change (owq_ft q) \<notin> {fc_simultaneous_temperature, fc_simultaneous_voltage}" and "owq_offset q \<le> 0"
    and "owq_pn q' = owq_pn q" and "owq_length q \<le> owq_size q'" and "owq_offset q' \<le> 0"
  shows "\<exists>q'' st'. FS_read_owq env p q' st = Some (0, q'', st') \<and> fs_dev st' = fs_dev st
    \<and> owq_length q'' = owq_length q \<and> take (owq_length q'') (owq_buffer q'') = take (owq_length q) (owq_buffer q)"
proof -
  have "Cache_Add (e_globals env) now mok tok (take (owq_length q) (owq_buffer q)) (Some (owq_pn q)) c = (gbGOOD, fs_cache st)"
    using assms(1,2,4,11) by (simp add: OWQ_Cache_Add_def Let_def)
  from Cache_Add_Get [OF this, of "fs_clock st" "owq_size q'"]
  have "fst (Cache_Get (e_globals env) (fs_clock st) (owq_size q') (owq_pn q') (fs_cache st))
      = (gbGOOD, owq_length q, take (owq_length q) (owq_buffer q))"
    using assms by (simp add: min_absorb2)
  then show ?thesis
    using assms
    by (auto simp: FS_read_owq_def cache_get_def OWQ_Cache_Get_def Let_def overlay_def min_absorb2 split_beta prod_eq_iff)
qed

definition string_query :: "nat \<Rightarrow> byte list \<Rightarrow> one_wire_query" where
  "string_query room bs =
     (register_query 0)\<lparr>owq_buffer := bs, owq_size := room, owq_length := length bs,
       owq_pn := (owq_pn (register_query 0))\<lparr>cp_filetype := \<lparr>ft_id = 5, ft_form = ft_binary, ft_change = fc_stable, ft_ag = None\<rparr>\<rparr>\<rparr>"

text \<open>Three bytes of a memory of 32 are read at time 100; half a minute later all 32 are asked for.\<close>

theorem short_read_kept_witness:
  "let env = \<lparr>e_globals = default_globals, e_alloc = \<lambda>_. True, e_read_fake = register_read, e_read_tester = register_read\<rparr>;
       c = snd (the (OWQ_Cache_Add default_globals 100 True True (string_query 3 [7, 8, 9]) (Cache_Open default_globals 0 zero_cache)));
       p = \<lparr>p_read = Some register_read, p_write = None, p_read_alias = False, p_suglen = 32, p_type = ePN_real\<rparr>
   in \<exists>q'' st'. FS_read_owq env p (string_query 32 (replicate 32 0)) \<lparr>fs_cache = c, fs_clock = 130, fs_allocs = 0, fs_dev = []\<rparr> = Some (0, q'', st')
     \<and> owq_length q'' = 3"
proof -
  let ?q = "string_query 3 [7, 8, 9]" and ?q' = "string_query 32 (replicate 32 0)"
  let ?p = "\<lparr>p_read = Some register_read, p_write = None, p_read_alias = False, p_suglen = 32, p_type = ePN_real\<rparr>"
  let ?env = "\<lparr>e_globals = default_globals, e_alloc = \<lambda>_. True, e_read_fake = register_read, e_read_tester = register_read\<rparr>"
  let ?add = "OWQ_Cache_Add default_globals 100 True True ?q (Cache_Open default_globals 0 zero_cache)"
  let ?st = "\<lparr>fs_cache = snd (the ?add), fs_clock = 130, fs_allocs = 0, fs_dev = []\<rparr>"
  have len: "owq_length ?q = 3" by (simp add: string_query_def)
  have "?add = Some (gbGOOD, snd (the ?add))"
    by (simp add: OWQ_Cache_Add_def Cache_Add_def IsThisPersistent_def get_busmode_def string_format_def string_query_def register_query_def
        EXTENSION_ALL_def Add_Stat_def cache_eval)
  then have "OWQ_Cache_Add (e_globals ?env) 100 True True ?q (Cache_Open default_globals 0 zero_cache) = Some (gbGOOD, fs_cache ?st)" by simp
  moreover have "string_format (ft_form (owq_ft ?q))" "owq_length ?q \<le> length (owq_buffer ?q)" "owq_extension ?q \<noteq> EXTENSION_ALL"
    "\<not> cp_alarm_dir (owq_pn ?q)" "\<not> cp_uncached_dir (owq_pn ?q)" "\<not> IsThisPersistent (owq_pn ?q)"
    "0 < TimeOut (e_globals ?env) (ft_change (owq_ft ?q))" "fs_clock ?st < 100 + TimeOut (e_globals ?env) (ft_change (owq_ft ?q))"
    "ft_change (owq_ft ?q) \<notin> {fc_simultaneous_temperature, fc_simultaneous_voltage}" "owq_offset ?q \<le> 0"
    "owq_pn ?q' = owq_pn ?q" "owq_length ?q \<le> owq_size ?q'" "owq_offset ?q' \<le> 0"
    by (simp_all add: string_query_def register_query_def string_format_def EXTENSION_ALL_def IsThisPersistent_def get_busmode_def TimeOut_def
        default_globals_def)
  ultimately have "\<exists>q'' st'. FS_read_owq ?env ?p ?q' ?st = Some (0, q'', st') \<and> fs_dev st' = fs_dev ?st
      \<and> owq_length q'' = owq_length ?q \<and> take (owq_length q'') (owq_buffer q'') = take (owq_length ?q) (owq_buffer ?q)"
    by (rule short_read_kept)
  then show ?thesis using len by (auto simp: Let_def)
qed

end
