(* ===== verification/OW_Bitfield.thy ===== *)
theory OW_Bitfield
  imports OW_Coherence
begin

text \<open>
  Bit fields: properties such as the pins of a switch, one unsigned integer to the device. The extensions \<^verbatim>\<open>.BYTE\<close>, \<^verbatim>\<open>.ALL\<close> and \<^verbatim>\<open>.n\<close> are
  views of that integer, which \<open>OW_Property\<close> converts into one another. Bit fields are never cached.
\<close>

section \<open>A driver for a bit field\<close>

text \<open>A query for the bit field \<open>ft\<close>, and a driver that reads and writes all bits at once, as \<^verbatim>\<open>.BYTE\<close>.\<close>

definition bit_query :: "filetype \<Rightarrow> one_wire_query \<Rightarrow> bool" where
  "bit_query ft q \<longleftrightarrow> owq_ft q = ft \<and> (\<exists>i. cp_connection (owq_pn q) = Some (i, bus_real)) \<and> length (owq_val q) = sizeof_value_object"

definition reads_bits :: "filetype \<Rightarrow> ('d \<Rightarrow> uint) \<Rightarrow> 'd driver \<Rightarrow> bool" where
  "reads_bits ft field rd \<longleftrightarrow>
     (\<forall>q st ret q' st'. bit_query ft q \<longrightarrow> owq_extension q = EXTENSION_BYTE \<longrightarrow> rd q st = (ret, q', st') \<longrightarrow>
        field (fs_dev st') = field (fs_dev st) \<and> owq_pn q' = owq_pn q \<and> length (owq_val q') = sizeof_value_object
        \<and> (0 \<le> ret \<longrightarrow> OWQ_U q' = field (fs_dev st)))"

definition writes_bits :: "filetype \<Rightarrow> ('d \<Rightarrow> uint) \<Rightarrow> 'd driver \<Rightarrow> bool" where
  "writes_bits ft field wr \<longleftrightarrow>
     (\<forall>q st ret q' st'. bit_query ft q \<longrightarrow> owq_extension q = EXTENSION_BYTE \<longrightarrow> wr q st = (ret, q', st') \<longrightarrow> ret = 0 \<longrightarrow>
        field (fs_dev st') = OWQ_U q)"

definition bit_field :: "filetype \<Rightarrow> nat \<Rightarrow> bool" where
  "bit_field ft n \<longleftrightarrow>
     ft_form ft = ft_bitfield \<and> ft_change ft \<notin> {fc_simultaneous_temperature, fc_simultaneous_voltage} \<and> 0 < n \<and> n \<le> 32
   \<and> (\<exists>ag. ft_ag ft = Some ag \<and> ag_elements ag = n \<and> ag_comb ag = ag_aggregate)"

lemma OWQ_U_set [simp]: "OWQ_U (set_OWQ_U u q) = u"
  using UT_uint32_roundtrip [of u] by (simp add: OWQ_U_def set_OWQ_U_def overlay_def UT_uint32_def UT_uint32_to_bytes_def)

lemma length_set_OWQ_U [simp]: "length (owq_val q) = sizeof_value_object \<Longrightarrow> length (owq_val (set_OWQ_U u q)) = sizeof_value_object"
  by (simp add: set_OWQ_U_def overlay_def UT_uint32_to_bytes_def sizeof_value_object_def)

lemma set_OWQ_U_pn [simp]: "owq_pn (set_OWQ_U u q) = owq_pn q"
  by (simp add: set_OWQ_U_def)

lemma OWQ_Y_set [simp]: "OWQ_Y (set_OWQ_Y y q) = y"
  by (simp add: OWQ_Y_def set_OWQ_Y_def)

text \<open>The cache neither has bit fields nor takes them.\<close>

lemma FS_read_owq_bits:
  assumes "bit_query ft q" and "bit_field ft n" and "owq_extension q = EXTENSION_BYTE" and "p_read p = Some rd" and "reads_bits ft field rd"
  shows "\<exists>ret q' st'. FS_read_owq env p q st = Some (ret, q', st') \<and> field (fs_dev st') = field (fs_dev st) \<and> owq_pn q' = owq_pn q
    \<and> length (owq_val q') = sizeof_value_object \<and> (0 \<le> ret \<longrightarrow> OWQ_U q' = field (fs_dev st))"
proof -
  have get: "OWQ_Cache_Get g t q c = Some (gbBAD, q, c)" for g t c
    using assms(1-3) by (auto simp: OWQ_Cache_Get_def bit_query_def bit_field_def string_format_def number_format_def EXTENSION_BYTE_def EXTENSION_ALL_def Let_def)
  obtain ret q' st' where r: "rd q st = (ret, q', st')" by (metis prod_cases3)
  have laws: "field (fs_dev st') = field (fs_dev st)" "owq_pn q' = owq_pn q" "length (owq_val q') = sizeof_value_object"
    "0 \<le> ret \<longrightarrow> OWQ_U q' = field (fs_dev st)"
    using assms(5) [unfolded reads_bits_def, rule_format, OF assms(1,3) r] by simp_all
  have "OWQ_Cache_Add g t mok tok q' c = Some (gbBAD, c)" for g t mok tok c
    using assms(1-3) laws(2)
    by (auto simp: OWQ_Cache_Add_def bit_query_def bit_field_def string_format_def number_format_def EXTENSION_BYTE_def EXTENSION_ALL_def Let_def)
  then show ?thesis using get r laws assms(4) by (cases "ret < 0") (simp_all add: FS_read_owq_def cache_get_def cache_add_def owmalloc_def)
qed

section \<open>Conversion between the views\<close>

text \<open>The yes-or-no values of an array of objects.\<close>

definition object_bit :: "byte list \<Rightarrow> bool" where
  "object_bit v \<longleftrightarrow> UT_uint32 v \<noteq> 0"

lemma object_bit_set [simp]: "object_bit (overlay (UT_uint32_to_bytes (of_bool b)) v) = b"
  using OWQ_Y_set [of b "undefined\<lparr>owq_val := v\<rparr>"] by (simp add: object_bit_def OWQ_Y_def OWQ_U_def set_OWQ_Y_def set_OWQ_U_def)

lemma bits_to_array_sets:
  assumes "owq_array q = concat vs" and "objects vs" and "\<forall>i \<in> set is. i < length vs"
  shows "\<exists>ws. bits_to_array u is q = Some (q\<lparr>owq_array := concat ws\<rparr>) \<and> objects ws \<and> length ws = length vs
    \<and> (\<forall>i < length vs. object_bit (ws ! i) = (if i \<in> set is then UT_getbit_U u i else object_bit (vs ! i)))"
  using assms
proof (induction "is" arbitrary: q vs)
  case Nil
  then show ?case by (intro exI [of _ vs]) (simp flip: Nil.prems(1))
next
  case (Cons i "is")
  let ?v = "overlay (UT_uint32_to_bytes (of_bool (UT_getbit_U u i))) (vs ! i)"
  have i: "i < length vs" using Cons.prems(3) by simp
  have v: "length ?v = sizeof_value_object"
    using Cons.prems(2) nth_mem [OF i] by (simp add: overlay_def UT_uint32_to_bytes_def sizeof_value_object_def)
  have step: "bits_to_array u (i # is) q = bits_to_array u is (q\<lparr>owq_array := concat (vs[i := ?v])\<rparr>)"
    using OWQ_array_val_concat [OF Cons.prems(1,2) i] set_array_val_concat [OF Cons.prems(1,2) i v] by simp
  have "objects (vs[i := ?v])" using Cons.prems(2) v set_update_subset_insert [of vs i ?v] by auto
  from Cons.IH [of "q\<lparr>owq_array := concat (vs[i := ?v])\<rparr>", OF _ this] Cons.prems(3)
  obtain ws where ws: "bits_to_array u is (q\<lparr>owq_array := concat (vs[i := ?v])\<rparr>) = Some (q\<lparr>owq_array := concat ws\<rparr>)" "objects ws"
    "length ws = length vs" "\<forall>j < length vs. object_bit (ws ! j) = (if j \<in> set is then UT_getbit_U u j else object_bit (vs[i := ?v] ! j))"
    by auto
  moreover have "\<forall>j < length vs. object_bit (ws ! j) = (if j \<in> set (i # is) then UT_getbit_U u j else object_bit (vs ! j))"
    using ws(4) i by (auto simp: nth_list_update)
  ultimately show ?case using step by auto
qed

lemma array_to_bits_gets:
  assumes "owq_array q = concat vs" and "objects vs" and "\<forall>i \<in> set is. i < length vs" and "\<forall>i \<in> set is. i < 32"
  shows "\<exists>u'. array_to_bits q is u = Some u' \<and> (\<forall>j. UT_getbit_U u' j = (if j \<in> set is then object_bit (vs ! j) else UT_getbit_U u j))"
  using assms(3,4)
proof (induction "is" arbitrary: u)
  case (Cons i "is")
  have i: "i < length vs" "i < 32" using Cons.prems by simp_all
  obtain u' where u': "array_to_bits q is (UT_setbit_U u i (object_bit (vs ! i))) = Some u'"
    "\<forall>j. UT_getbit_U u' j = (if j \<in> set is then object_bit (vs ! j) else UT_getbit_U (UT_setbit_U u i (object_bit (vs ! i))) j)"
    using Cons.IH [of "UT_setbit_U u i (object_bit (vs ! i))"] Cons.prems by auto
  then show ?case
    using OWQ_array_val_concat [OF assms(1,2) i(1)] by (simp add: UT_getbit_setbit_U [OF i(2)] flip: object_bit_def)
qed simp

section \<open>Reading and writing the views\<close>

lemma adjust_file_size_bits:
  assumes "bit_query ft q" and "bit_field ft n" and "p_type p = ePN_real"
  shows "\<exists>m. adjust_file_size p q = Some (q\<lparr>owq_size := m\<rparr>) \<and> (owq_offset q = 0 \<and> owq_size q = 1 \<longrightarrow> m = 1)"
proof -
  obtain ag where ag: "ft_ag ft = Some ag" "ag_elements ag = n" and n: "0 < n" "n \<le> 32" and form: "ft_form ft = ft_bitfield" "owq_ft q = ft"
    using assms(1,2) by (auto simp: bit_field_def bit_query_def)
  have "0 < size_t (int (2 * n) - 1)" using n by (intro size_t_pos) simp_all
  then have "\<exists>len. FullFileLength p q = Some len \<and> 0 < len"
    using ag form assms(3)
    by (auto simp: FullFileLength_def FileLength_def IsDir_def elements_of_def property_lengths EXTENSION_ALL_def EXTENSION_BYTE_def Let_def)
  then obtain len where len: "FullFileLength p q = Some len" "0 < len" by blast
  let ?m = "if size_t (owq_offset q) \<ge> len then 0 else if size_t (int (owq_size q) + owq_offset q) > len
    then size_t (int len - owq_offset q) else owq_size q"
  have "adjust_file_size p q = Some (q\<lparr>owq_size := ?m\<rparr>)" using len by (simp add: adjust_file_size_def)
  moreover have "owq_offset q = 0 \<and> owq_size q = 1 \<longrightarrow> ?m = 1" using len by (simp add: size_t_def)
  ultimately show ?thesis by blast
qed

text \<open>A local read of a bit field is a read of the array with an adjusted size, or nothing at the end of the file.\<close>

lemma FS_r_local_bits:
  assumes "bit_query ft q" and ft: "bit_field ft n" and "p_type p = ePN_real" and "p_read p = Some rd" and "\<not> p_read_alias p"
  shows "\<exists>m ag. ft_ag ft = Some ag \<and> ag_comb ag = ag_aggregate \<and> (owq_offset q = 0 \<and> owq_size q = 1 \<longrightarrow> m = 1) \<and>
    FS_r_local env p q st = (if m = 0 then Some (0, q\<lparr>owq_size := 0\<rparr>, st) else FS_r_array env p ag (q\<lparr>owq_size := m\<rparr>) st)"
proof -
  obtain m where m: "adjust_file_size p q = Some (q\<lparr>owq_size := m\<rparr>)" "owq_offset q = 0 \<and> owq_size q = 1 \<longrightarrow> m = 1"
    using adjust_file_size_bits [OF assms(1-3)] by blast
  obtain ag where ag: "ft_ag ft = Some ag" "ag_comb ag = ag_aggregate" using ft by (auto simp: bit_field_def)
  have "FS_r_local env p q st = (if m = 0 then Some (0, q\<lparr>owq_size := 0\<rparr>, st) else FS_r_array env p ag (q\<lparr>owq_size := m\<rparr>) st)"
    using m(1) ag(1) assms by (auto simp: FS_r_local_def Let_def bit_query_def FS_r_virtual_adapter_def)
  then show ?thesis using m(2) ag by blast
qed

lemma bit_query_size [simp]: "bit_query ft (q\<lparr>owq_size := m\<rparr>) = bit_query ft q"
  by (simp add: bit_query_def)

lemma bit_query_copy: "bit_query ft q \<Longrightarrow> bit_query ft (OWQ_copy e q)"
  by (auto simp: bit_query_def OWQ_copy_def)

text \<open>Reading the byte for a copy and handing the result on.\<close>

lemma read_copy_bits:
  assumes "bit_query ft q" and "bit_field ft n" and "p_read p = Some rd" and "reads_bits ft field rd" and e: "e < 0"
    and f: "\<And>q'. OWQ_U q' = field (fs_dev st) \<Longrightarrow> \<exists>q''. f q' = Some q'' \<and> P q''"
  shows "\<exists>ret q' st'. read_copy env p e f (OWQ_copy EXTENSION_BYTE q) q st = Some (ret, q', st') \<and> field (fs_dev st') = field (fs_dev st)
    \<and> (0 \<le> ret \<longrightarrow> P q')"
proof -
  obtain ret q1 st1 where r: "FS_read_owq env p (OWQ_copy EXTENSION_BYTE q) st = Some (ret, q1, st1)" "field (fs_dev st1) = field (fs_dev st)"
    "0 \<le> ret \<longrightarrow> OWQ_U q1 = field (fs_dev st)"
    using FS_read_owq_bits [OF bit_query_copy [OF assms(1)] assms(2) _ assms(3,4), of EXTENSION_BYTE env st] by auto
  then show ?thesis using f [of q1] e by (cases "ret < 0") (auto simp: read_copy_def)
qed

lemma read_bit_view:
  assumes "bit_query ft q" and ft: "bit_field ft n" and "p_type p = ePN_real" and rd: "p_read p = Some rd" "reads_bits ft field rd"
    and "\<not> p_read_alias p" and i: "owq_extension q = int i" "i < n"
  shows "\<exists>ret q' st'. FS_r_local env p q st = Some (ret, q', st') \<and> field (fs_dev st') = field (fs_dev st)
    \<and> (0 \<le> ret \<and> 0 < owq_size q' \<longrightarrow> OWQ_Y q' = UT_getbit_U (field (fs_dev st)) i)"
proof -
  obtain m ag where m: "ag_comb ag = ag_aggregate"
    "FS_r_local env p q st = (if m = 0 then Some (0, q\<lparr>owq_size := 0\<rparr>, st) else FS_r_array env p ag (q\<lparr>owq_size := m\<rparr>) st)"
    using FS_r_local_bits [OF assms(1-3) rd(1) assms(6)] by blast
  let ?q = "q\<lparr>owq_size := m\<rparr>" and ?st = "st\<lparr>fs_allocs := Suc (fs_allocs st)\<rparr>"
  have form: "ft_form (owq_ft q) = ft_bitfield" using assms(1) ft by (simp add: bit_query_def bit_field_def)
  have "\<exists>ret q' st'. read_copy env p (- ENOENT)
      (\<lambda>b. Some (set_OWQ_Y (UT_getbit_U (OWQ_U b) (nat (owq_extension ?q))) ?q)) (OWQ_copy EXTENSION_BYTE ?q) ?q ?st = Some (ret, q', st')
      \<and> field (fs_dev st') = field (fs_dev ?st) \<and> (0 \<le> ret \<longrightarrow> OWQ_Y q' = UT_getbit_U (field (fs_dev st)) i)"
    by (rule read_copy_bits [OF _ ft rd]) (use assms(1) i(1) in \<open>simp_all add: ENOENT_def\<close>)
  then show ?thesis
    using m form i
    by (auto simp: FS_r_array_def FS_read_a_part_def FS_read_a_bit_def OWQ_create_separate_def owmalloc_def ENOENT_def EXTENSION_ALL_def
        EXTENSION_BYTE_def)
qed

lemma array_query:
  assumes "bit_field ft n" and "owq_ft q = ft" and "length (owq_array q) = n * sizeof_value_object"
  shows "elements_of q = Some n" and "\<exists>vs. owq_array q = concat vs \<and> length vs = n \<and> objects vs"
  using assms array_values [OF assms(3)] by (auto simp: bit_field_def elements_of_def)

text \<open>The bits of the array of a query.\<close>

definition array_bit :: "one_wire_query \<Rightarrow> nat \<Rightarrow> bool" where
  "array_bit q i = object_bit (the (OWQ_array_val q i))"

lemma array_bit_concat: "owq_array q = concat vs \<Longrightarrow> objects vs \<Longrightarrow> i < length vs \<Longrightarrow> array_bit q i = object_bit (vs ! i)"
  by (simp add: array_bit_def OWQ_array_val_concat)

lemma read_all_view:
  assumes "bit_query ft q" and ft: "bit_field ft n" and "p_type p = ePN_real" and rd: "p_read p = Some rd" "reads_bits ft field rd"
    and "\<not> p_read_alias p" and e: "owq_extension q = EXTENSION_ALL" and len: "length (owq_array q) = n * sizeof_value_object"
  shows "\<exists>ret q' st'. FS_r_local env p q st = Some (ret, q', st') \<and> field (fs_dev st') = field (fs_dev st)
    \<and> (0 \<le> ret \<and> 0 < owq_size q' \<longrightarrow> (\<forall>i < n. array_bit q' i = UT_getbit_U (field (fs_dev st)) i))"
proof -
  obtain m ag where m: "ag_comb ag = ag_aggregate"
    "FS_r_local env p q st = (if m = 0 then Some (0, q\<lparr>owq_size := 0\<rparr>, st) else FS_r_array env p ag (q\<lparr>owq_size := m\<rparr>) st)"
    using FS_r_local_bits [OF assms(1-3) rd(1) assms(6)] by blast
  let ?q = "q\<lparr>owq_size := m\<rparr>" and ?st = "st\<lparr>fs_allocs := Suc (fs_allocs st)\<rparr>" and ?u = "field (fs_dev st)"
  have form: "owq_ft ?q = ft" "ft_form (owq_ft q) = ft_bitfield" using assms(1) ft by (simp_all add: bit_query_def bit_field_def)
  note arr = array_query [OF ft form(1)]
  obtain vs where vs: "owq_array ?q = concat vs" "length vs = n" "objects vs" using arr(2) len by auto
  have f: "\<exists>q''. Option.bind (elements_of ?q) (\<lambda>n. bits_to_array (OWQ_U b) [0..<n] ?q) = Some q'' \<and> (\<forall>i < n. array_bit q'' i = UT_getbit_U ?u i)"
    if "OWQ_U b = ?u" for b
  proof -
    obtain ws where ws: "bits_to_array ?u [0..<n] ?q = Some (?q\<lparr>owq_array := concat ws\<rparr>)" "objects ws" "length ws = n"
      "\<forall>i < n. object_bit (ws ! i) = UT_getbit_U ?u i"
      using bits_to_array_sets [OF vs(1,3), of "[0..<n]" ?u] vs(2) by auto
    then show ?thesis using arr(1) len that array_bit_concat [of "?q\<lparr>owq_array := concat ws\<rparr>" ws] by simp
  qed
  have "\<exists>ret q' st'. read_copy env p (- EINVAL) (\<lambda>b. Option.bind (elements_of ?q) (\<lambda>n. bits_to_array (OWQ_U b) [0..<n] ?q))
      (OWQ_copy EXTENSION_BYTE ?q) ?q ?st = Some (ret, q', st') \<and> field (fs_dev st') = field (fs_dev ?st)
      \<and> (0 \<le> ret \<longrightarrow> (\<forall>i < n. array_bit q' i = UT_getbit_U ?u i))"
    by (rule read_copy_bits [OF _ ft rd]) (use assms(1) f in \<open>simp_all add: EINVAL_def\<close>)
  then show ?thesis
    using m form e
    by (auto simp: FS_r_array_def FS_read_all_def OWQ_create_separate_def owmalloc_def EINVAL_def EXTENSION_ALL_def EXTENSION_BYTE_def)
qed

text \<open>Writing the byte.\<close>

lemma write_copy_bits:
  assumes "bit_query ft b" and "owq_extension b = EXTENSION_BYTE" and "p_write p = Some wr" and "writes_bits ft field wr"
  shows "\<exists>ret st'. write_copy env p b q st = Some (ret, q, st') \<and> (ret = 0 \<longrightarrow> field (fs_dev st') = OWQ_U b)"
proof -
  obtain ret b' st' where w: "wr b st = (ret, b', st')" by (metis prod_cases3)
  then show ?thesis
    using assms(4) [unfolded writes_bits_def, rule_format, OF assms(1,2) w] assms(3)
    by (simp add: write_copy_def FS_write_owq_def driver_result_def)
qed

lemma FS_w_local_bits:
  assumes "bit_query ft q" and "bit_field ft n" and "p_write p = Some wr"
  shows "\<exists>ag. ag_comb ag = ag_aggregate \<and> FS_w_local env p q st = FS_w_array env p ag q st"
  using assms by (auto simp: FS_w_local_def bit_query_def bit_field_def get_busmode_def)

lemma write_bit_view:
  assumes "bit_query ft q" and ft: "bit_field ft n" and "p_type p = ePN_real" and rd: "p_read p = Some rd" "reads_bits ft field rd"
    and wr: "p_write p = Some wr" "writes_bits ft field wr" and "\<not> p_read_alias p" and i: "owq_extension q = int i" "i < n"
  shows "\<exists>ret st'. FS_w_local env p q st = Some (ret, q, st') \<and>
    (ret = 0 \<longrightarrow> (\<forall>j. UT_getbit_U (field (fs_dev st')) j = (if j = i then OWQ_Y q else UT_getbit_U (field (fs_dev st)) j)))"
proof -
  let ?b = "OWQ_copy EXTENSION_BYTE q" and ?st = "st\<lparr>fs_allocs := Suc (fs_allocs st)\<rparr>" and ?u = "field (fs_dev st)"
  obtain ag where w: "ag_comb ag = ag_aggregate" "FS_w_local env p q st = FS_w_array env p ag q st"
    using FS_w_local_bits [OF assms(1) ft wr(1)] by blast
  have form: "ft_form (owq_ft q) = ft_bitfield" using assms(1) ft by (simp add: bit_query_def bit_field_def)
  have b: "bit_query ft ?b" "owq_extension ?b = EXTENSION_BYTE" "owq_offset ?b = 0" "owq_size ?b = 1"
    using bit_query_copy [OF assms(1)] by (simp_all add: OWQ_copy_def)
  obtain m ag' where m: "ag_comb ag' = ag_aggregate" "m = 1" "FS_r_local env p ?b ?st = FS_r_array env p ag' (?b\<lparr>owq_size := m\<rparr>) ?st"
    using FS_r_local_bits [OF b(1) ft assms(3) rd(1) assms(8), of env ?st] b(3,4) by (auto split: if_splits)
  then have "FS_r_local env p ?b ?st = FS_read_owq env p (?b\<lparr>owq_size := m\<rparr>) ?st" by (simp add: FS_r_array_def)
  then obtain ret b1 st1 where r: "FS_r_local env p ?b ?st = Some (ret, b1, st1)" "field (fs_dev st1) = ?u" "owq_pn b1 = owq_pn ?b"
    "length (owq_val b1) = sizeof_value_object" "0 \<le> ret \<longrightarrow> OWQ_U b1 = ?u"
    using FS_read_owq_bits [of ft "?b\<lparr>owq_size := m\<rparr>" n p rd field env ?st] b ft rd by auto
  let ?c = "set_OWQ_U (UT_setbit_U (OWQ_U b1) i (OWQ_Y q)) b1"
  have c: "bit_query ft ?c" "owq_extension ?c = EXTENSION_BYTE" using r(3,4) b(1) by (auto simp: bit_query_def)
  have "i < 32" using i(2) ft by (simp add: bit_field_def)
  then have bits: "UT_getbit_U (OWQ_U ?c) j = (if j = i then OWQ_Y q else UT_getbit_U ?u j)" if "0 \<le> ret" for j
    using r(5) that by (simp add: UT_getbit_setbit_U)
  show ?thesis
    using w form i r write_copy_bits [OF c wr, of env q st1] bits
    by (auto simp: FS_w_array_def FS_write_a_part_def FS_write_a_bit_def OWQ_create_separate_def owmalloc_def ENOENT_def EXTENSION_ALL_def
        EXTENSION_BYTE_def)
qed

lemma write_all_view:
  assumes "bit_query ft q" and ft: "bit_field ft n" and wr: "p_write p = Some wr" "writes_bits ft field wr"
    and e: "owq_extension q = EXTENSION_ALL" and len: "length (owq_array q) = n * sizeof_value_object"
  shows "\<exists>ret st'. FS_w_local env p q st = Some (ret, q, st') \<and>
    (ret = 0 \<longrightarrow> (\<forall>j. UT_getbit_U (field (fs_dev st')) j = (j < n \<and> array_bit q j)))"
proof -
  let ?b = "OWQ_copy EXTENSION_BYTE q" and ?st = "st\<lparr>fs_allocs := Suc (fs_allocs st)\<rparr>"
  obtain ag where w: "ag_comb ag = ag_aggregate" "FS_w_local env p q st = FS_w_array env p ag q st"
    using FS_w_local_bits [OF assms(1) ft wr(1)] by blast
  have form: "owq_ft q = ft" "ft_form (owq_ft q) = ft_bitfield" using assms(1) ft by (simp_all add: bit_query_def bit_field_def)
  obtain vs where vs: "owq_array q = concat vs" "length vs = n" "objects vs" using array_query(2) [OF ft form(1) len] by blast
  have zero: "OWQ_U ?b = 0" by (simp add: OWQ_U_def OWQ_copy_def UT_uint32_def sizeof_value_object_def)
  obtain u where get: "array_to_bits q [0..<n] (OWQ_U ?b) = Some u"
    and "\<forall>j. UT_getbit_U u j = (if j \<in> set [0..<n] then object_bit (vs ! j) else UT_getbit_U (OWQ_U ?b) j)"
    using array_to_bits_gets [OF vs(1,3), of "[0..<n]" "OWQ_U ?b"] vs(2) ft by (auto simp: bit_field_def)
  then have u: "UT_getbit_U u j = (j < n \<and> array_bit q j)" for j
    using vs(2) array_bit_concat [OF vs(1,3), of j] zero by (simp add: UT_getbit_U_bit)
  have c: "bit_query ft (set_OWQ_U u ?b)" "owq_extension (set_OWQ_U u ?b) = EXTENSION_BYTE"
    using bit_query_copy [OF assms(1), of EXTENSION_BYTE] by (auto simp: bit_query_def)
  show ?thesis
    using w form e array_query(1) [OF ft form(1) len] get u write_copy_bits [OF c wr, of env q ?st]
    by (auto simp: FS_w_array_def FS_write_all_def FS_write_all_bits_def ALLtoBYTE_def OWQ_create_separate_def owmalloc_def ENOENT_def
        EXTENSION_ALL_def EXTENSION_BYTE_def)
qed

section \<open>Properties\<close>

text \<open>
  C35: the views of a bit field are views of one integer. Reading \<^verbatim>\<open>.n\<close> gives its bit \<open>n\<close> and reading \<^verbatim>\<open>.ALL\<close> all its bits, and neither changes
  it; a successful write of \<^verbatim>\<open>.n\<close> sets that bit and leaves every other as it was, and one of \<^verbatim>\<open>.ALL\<close> sets them all. Every call returns.
\<close>
theorem bitfield_views:
  assumes "bit_field ft n" and "p_type p = ePN_real" "\<not> p_read_alias p" and "p_read p = Some rd" "reads_bits ft field rd"
    and "p_write p = Some wr" "writes_bits ft field wr" and "bit_query ft q"
    and "owq_extension q = EXTENSION_ALL \<and> length (owq_array q) = n * sizeof_value_object \<or> owq_extension q = int i \<and> i < n"
  shows "(\<exists>ret q' st'. FS_r_local env p q st = Some (ret, q', st') \<and> field (fs_dev st') = field (fs_dev st) \<and>
      (0 \<le> ret \<and> 0 < owq_size q' \<longrightarrow>
        (if owq_extension q = EXTENSION_ALL then \<forall>j < n. array_bit q' j = bit (field (fs_dev st)) j
         else OWQ_Y q' = bit (field (fs_dev st)) i)))
    \<and> (\<exists>ret st'. FS_w_local env p q st = Some (ret, q, st') \<and>
      (ret = 0 \<longrightarrow> (\<forall>j. bit (field (fs_dev st')) j =
        (if owq_extension q = EXTENSION_ALL then j < n \<and> array_bit q j
         else if j = i then OWQ_Y q else bit (field (fs_dev st)) j))))"
proof (cases "owq_extension q = EXTENSION_ALL")
  case True
  then have len: "length (owq_array q) = n * sizeof_value_object" using assms(9) by (auto simp: EXTENSION_ALL_def)
  then show ?thesis
    using read_all_view [OF assms(8,1,2,4,5,3) True len, of env st] write_all_view [OF assms(8,1,6,7) True len, of env st] True
    by (simp add: UT_getbit_U_bit)
next
  case False
  then have i: "owq_extension q = int i" "i < n" using assms(9) by auto
  then show ?thesis
    using read_bit_view [OF assms(8,1,2,4,5,3) i, of env st] write_bit_view [OF assms(8,1,2,4-7,3) i, of env st] False
    by (simp add: UT_getbit_U_bit cong: if_cong)
qed

text \<open>The eight pins of a switch.\<close>

definition pins_filetype :: filetype where
  "pins_filetype = \<lparr>ft_id = 4, ft_form = ft_bitfield, ft_change = fc_stable, ft_ag = Some \<lparr>ag_elements = 8, ag_comb = ag_aggregate\<rparr>\<rparr>"

definition pins_read :: "uint driver" where
  "pins_read q st = (0, set_OWQ_U (fs_dev st) q, st)"

definition pins_write :: "uint driver" where
  "pins_write q st = (0, q, st\<lparr>fs_dev := OWQ_U q\<rparr>)"

definition pins_query :: one_wire_query where
  "pins_query =
     \<lparr>owq_buffer = [], owq_size = 1, owq_offset = 0, owq_val = [1, 0, 0, 0, 0, 0, 0, 0], owq_length = 0, owq_array = [], owq_simul = False,
      owq_pn = \<lparr>cp_sn = [0x29, 1, 2, 3, 4, 5, 6, 7], cp_filetype = pins_filetype, cp_extension = 5, cp_alarm_dir = False,
        cp_uncached_dir = False, cp_connection = Some (0, bus_real), cp_bp = []\<rparr>\<rparr>"

theorem bitfield_views_witness:
  "\<exists>ret st'. FS_w_local \<lparr>e_globals = default_globals, e_alloc = \<lambda>_. True, e_read_fake = pins_read, e_read_tester = pins_read\<rparr>
      \<lparr>p_read = Some pins_read, p_write = Some pins_write, p_read_alias = False, p_suglen = 12, p_type = ePN_real\<rparr> pins_query
      \<lparr>fs_cache = zero_cache, fs_clock = 0, fs_allocs = 0, fs_dev = 0x81\<rparr> = Some (ret, pins_query, st')
    \<and> (ret = 0 \<longrightarrow> (\<forall>j. bit (fs_dev st') j = (j = 5 \<or> bit (0x81 :: uint) j)))"
proof -
  let ?p = "\<lparr>p_read = Some pins_read, p_write = Some pins_write, p_read_alias = False, p_suglen = 12, p_type = ePN_real\<rparr>"
  let ?env = "\<lparr>e_globals = default_globals, e_alloc = \<lambda>_. True, e_read_fake = pins_read, e_read_tester = pins_read\<rparr>"
  let ?st = "\<lparr>fs_cache = zero_cache, fs_clock = 0, fs_allocs = 0, fs_dev = 0x81 :: uint\<rparr>"
  have ft: "bit_field pins_filetype 8" by (simp add: bit_field_def pins_filetype_def)
  have drv: "reads_bits pins_filetype id pins_read" "writes_bits pins_filetype id pins_write"
    by (auto simp: reads_bits_def writes_bits_def pins_read_def pins_write_def bit_query_def)
  have q: "bit_query pins_filetype pins_query" "owq_extension pins_query = int 5" and y: "OWQ_Y pins_query"
    by (simp_all add: bit_query_def pins_query_def sizeof_value_object_def OWQ_Y_def OWQ_U_def UT_uint32_def)
  show ?thesis
    using bitfield_views [OF ft _ _ _ drv(1) _ drv(2) q(1), of ?p 5 ?env ?st] q(2) y by (auto simp: EXTENSION_ALL_def)
qed

end
