(* ===== verification/OW_Values.thy ===== *)
theory OW_Values
  imports OW_Bitfield
begin

text \<open>
  The values of properties as text: \<^verbatim>\<open>OWQ_parse_output\<close> of \<^verbatim>\<open>ow_parseoutput.c\<close>, which formats what was read, and \<^verbatim>\<open>OWQ_parse_input\<close> of
  \<^verbatim>\<open>ow_parseinput.c\<close>, which interprets what is to be written. Numbers are decimal, arrays of numbers are separated by commas, strings
  are taken as they are. Floating point numbers and dates are converted by the C library with functions that are parameters
  here. A buffer is the list of its bytes, and leaving it gives \<^const>\<open>None\<close>. Every query has a filetype: the case \<^verbatim>\<open>NO_FILETYPE\<close> of
  names that only a remote server knows is left out.
\<close>

section \<open>Numbers of the C library\<close>

definition ERANGE :: int where [errnos]: "ERANGE = 34"
definition EFAULT :: int where [errnos]: "EFAULT = 14"

definition isspace :: "byte \<Rightarrow> bool" where
  "isspace b \<longleftrightarrow> b = 32 \<or> 9 \<le> b \<and> b \<le> 13"

definition isdigit :: "byte \<Rightarrow> bool" where
  "isdigit b \<longleftrightarrow> 48 \<le> b \<and> b \<le> 57"

text \<open>A string up to its end.\<close>

definition c_text :: "byte list \<Rightarrow> byte list" where
  "c_text s = takeWhile (\<lambda>b. b \<noteq> 0) s"

definition decimal :: "byte list \<Rightarrow> nat" where
  "decimal ds = foldl (\<lambda>n d. 10 * n + (unat d - 48)) 0 ds"

text \<open>White space, a sign, digits: whether the sign is minus, the value, and how many characters were used, none if there is no digit.\<close>

definition scan_number :: "byte list \<Rightarrow> bool \<times> nat \<times> nat" where
  "scan_number s =
     (let blanks = takeWhile isspace s; r = drop (length blanks) s;
          signed = (r \<noteq> [] \<and> hd r \<in> {43, 45}); r' = (if signed then tl r else r); ds = takeWhile isdigit r'
      in (signed \<and> hd r = 45, decimal ds, if ds = [] then 0 else length blanks + (if signed then 1 else 0) + length ds))"

text \<open>Value, characters used, and \<^verbatim>\<open>errno\<close>, on a machine with 64-bit \<^verbatim>\<open>long\<close>.\<close>

definition strtol :: "byte list \<Rightarrow> int \<times> nat \<times> int" where
  "strtol s =
     (case scan_number s of (negative, n, used) \<Rightarrow>
        let v = (if negative then - int n else int n) in
        if v > 2 ^ 63 - 1 then (2 ^ 63 - 1, used, ERANGE)
        else if v < - (2 ^ 63) then (- (2 ^ 63), used, ERANGE)
        else (v, used, 0))"

definition strtoul :: "byte list \<Rightarrow> int \<times> nat \<times> int" where
  "strtoul s =
     (case scan_number s of (negative, n, used) \<Rightarrow>
        if int n > 2 ^ 64 - 1 then (2 ^ 64 - 1, used, ERANGE)
        else ((if negative then - int n else int n) mod 2 ^ 64, used, 0))"

fun print_nat :: "nat \<Rightarrow> byte list" where
  "print_nat n = (if n < 10 then [word_of_nat (48 + n)] else print_nat (n div 10) @ [word_of_nat (48 + n mod 10)])"

declare print_nat.simps [simp del]

definition print_int :: "int \<Rightarrow> byte list" where
  "print_int i = (if i < 0 then 45 # print_nat (nat (- i)) else print_nat (nat i))"

text \<open>\<^verbatim>\<open>%*d\<close>: blanks on the left up to a width.\<close>

definition padded :: "nat \<Rightarrow> byte list \<Rightarrow> byte list" where
  "padded w s = replicate (w - length s) 32 @ s"

section \<open>Conversions that are parameters\<close>

text \<open>\<^verbatim>\<open>strtod\<close> (value, characters used, \<^verbatim>\<open>errno\<close>) with the change from the user's units, \<^verbatim>\<open>snprintf\<close> of a number in the user's units,
  \<^verbatim>\<open>strptime\<close> with \<^verbatim>\<open>mktime\<close>, \<^verbatim>\<open>ctime_r\<close> and the current time; and whether the query wants values trimmed.\<close>

record text_env =
  t_strtod :: "byte list \<Rightarrow> byte list \<times> nat \<times> int"
  t_from_units :: "ft_format \<Rightarrow> byte list \<Rightarrow> byte list"
  t_print_float :: "bool \<Rightarrow> ft_format \<Rightarrow> byte list \<Rightarrow> byte list"
  t_strptime :: "byte list \<Rightarrow> byte list option"
  t_ctime :: "byte list \<Rightarrow> byte list"
  t_now :: "byte list"
  t_trim :: bool

section \<open>Reading what is to be written\<close>

definition DEFAULT_INPUT_BUFFER_LENGTH :: nat where "DEFAULT_INPUT_BUFFER_LENGTH = 128"

text \<open>The text of a query, with a zero put after it. The inner \<^const>\<open>None\<close>: there is no memory for a long one.\<close>

definition input_buffer :: "'d fs_env \<Rightarrow> one_wire_query \<Rightarrow> 'd fs_state \<Rightarrow> (byte list option \<times> 'd fs_state) option" where
  "input_buffer env owq st =
     (if owq_size owq > length (owq_buffer owq) then None
      else
        (case (if owq_size owq > DEFAULT_INPUT_BUFFER_LENGTH then owmalloc env st else (True, st)) of (ok, st) \<Rightarrow>
           Some (if ok then Some (take (owq_size owq) (owq_buffer owq) @ [0]) else None, st)))"

definition strncasecmp :: "byte list \<Rightarrow> byte list \<Rightarrow> bool" where
  "strncasecmp s word \<longleftrightarrow> map (\<lambda>b. if 65 \<le> b \<and> b \<le> 90 then b + 32 else b) (take (length word) s) = word"

text \<open>The word of a yes-or-no value: the result, and the value if one was found.\<close>

definition yesno_word :: "byte list \<Rightarrow> int \<times> bool option" where
  "yesno_word s =
     (case dropWhile (\<lambda>b. b = 32 \<or> b = 9) s of
        [] \<Rightarrow> (- EFAULT, None)
      | w \<Rightarrow>
          if strncasecmp w [121] then (0, Some True)
          else if strncasecmp w [110] then (0, Some False)
          else if strncasecmp w [111, 110] then (0, Some True)
          else if strncasecmp w [111, 102, 102] then (0, Some False)
          else (- EINVAL, None))"

definition FS_input_yesno :: "'d fs_env \<Rightarrow> one_wire_query \<Rightarrow> 'd fs_state \<Rightarrow> 'd fs_result" where
  "FS_input_yesno env owq st =
     (case input_buffer env owq st of
        None \<Rightarrow> None
      | Some (None, st) \<Rightarrow> Some (- 79, owq, st)
      | Some (Some text, st) \<Rightarrow>
          (case strtol (c_text text) of (v, used, errno) \<Rightarrow>
             if errno = 0 \<and> used \<noteq> 0 then Some (0, set_OWQ_Y ((word_of_int v :: uint) \<noteq> 0) owq, st)
             else
               (case yesno_word (c_text text) of
                  (ret, None) \<Rightarrow> Some (ret, owq, st)
                | (ret, Some y) \<Rightarrow> Some (ret, set_OWQ_Y y owq, st))))"

text \<open>The common end of the numeric conversions.\<close>

definition conversion_error :: "nat \<Rightarrow> int \<Rightarrow> int" where
  "conversion_error used errno = (if errno \<noteq> 0 then - errno else if used = 0 then - EINVAL else 0)"

definition FS_input_number ::
  "(byte list \<Rightarrow> int \<times> nat \<times> int) \<Rightarrow> 'd fs_env \<Rightarrow> one_wire_query \<Rightarrow> 'd fs_state \<Rightarrow> 'd fs_result" where
  "FS_input_number convert env owq st =
     (case input_buffer env owq st of
        None \<Rightarrow> None
      | Some (None, st) \<Rightarrow> Some (- ENOMEM, owq, st)
      | Some (Some text, st) \<Rightarrow>
          (case convert (c_text text) of (v, used, errno) \<Rightarrow>
             Some (conversion_error used errno, set_OWQ_U (word_of_int v) owq, st)))"

definition FS_input_integer :: "'d fs_env \<Rightarrow> one_wire_query \<Rightarrow> 'd fs_state \<Rightarrow> 'd fs_result" where
  "FS_input_integer = FS_input_number strtol"

definition FS_input_unsigned :: "'d fs_env \<Rightarrow> one_wire_query \<Rightarrow> 'd fs_state \<Rightarrow> 'd fs_result" where
  "FS_input_unsigned = FS_input_number strtoul"

definition FS_input_float :: "text_env \<Rightarrow> 'd fs_env \<Rightarrow> one_wire_query \<Rightarrow> 'd fs_state \<Rightarrow> 'd fs_result" where
  "FS_input_float te env owq st =
     (case input_buffer env owq st of
        None \<Rightarrow> None
      | Some (None, st) \<Rightarrow> Some (- ENOMEM, owq, st)
      | Some (Some text, st) \<Rightarrow>
          (case t_strtod te (c_text text) of (v, used, errno) \<Rightarrow>
             let ret = conversion_error used errno in
             Some (ret, if ret = 0 then owq\<lparr>owq_val := t_from_units te (ft_form (owq_ft owq)) v\<rparr> else owq, st)))"

definition FS_input_date :: "text_env \<Rightarrow> 'd fs_env \<Rightarrow> one_wire_query \<Rightarrow> 'd fs_state \<Rightarrow> 'd fs_result" where
  "FS_input_date te env owq st =
     (case input_buffer env owq st of
        None \<Rightarrow> None
      | Some (None, st) \<Rightarrow> Some (- ENOMEM, owq, st)
      | Some (Some text, st) \<Rightarrow>
          if owq_size owq < 2 \<or> hd text = 0 \<or> hd text = 10 then Some (0, owq\<lparr>owq_val := t_now te\<rparr>, st)
          else
            (case t_strptime te (c_text text) of
               None \<Rightarrow> Some (- EINVAL, owq, st)
             | Some d \<Rightarrow> Some (0, owq\<lparr>owq_val := d\<rparr>, st)))"

definition FS_check_length :: "'d property \<Rightarrow> one_wire_query \<Rightarrow> nat" where
  "FS_check_length p owq =
     (let filelength = FileLength p owq; sz = min filelength (owq_size owq); offset = size_t (owq_offset owq) in
      if offset > filelength then 0
      else if size_t (int offset + int sz) > filelength then filelength - offset
      else sz)"

definition FS_input_ascii :: "'d property \<Rightarrow> one_wire_query \<Rightarrow> one_wire_query" where
  "FS_input_ascii p owq = owq\<lparr>owq_size := FS_check_length p owq, owq_length := FS_check_length p owq\<rparr>"

text \<open>One element, the default case of \<^verbatim>\<open>OWQ_parse_input\<close>.\<close>

definition OWQ_parse_input_single :: "text_env \<Rightarrow> 'd fs_env \<Rightarrow> 'd property \<Rightarrow> one_wire_query \<Rightarrow> 'd fs_state \<Rightarrow> 'd fs_result" where
  "OWQ_parse_input_single te env p owq st =
     (let f = ft_form (owq_ft owq) in
      if f = ft_integer then FS_input_integer env owq st
      else if f \<in> {ft_yesno, ft_bitfield} then FS_input_yesno env owq st
      else if f = ft_unsigned then FS_input_unsigned env owq st
      else if f \<in> {ft_pressure, ft_temperature, ft_tempgap, ft_float} then FS_input_float te env owq st
      else if f = ft_date then FS_input_date te env owq st
      else if string_format f then Some (0, FS_input_ascii p owq, st)
      else Some (- ENOENT, owq, st))"

text \<open>\<^verbatim>\<open>memchr\<close> for a comma: the distance to the first one.\<close>

definition find_comma :: "byte list \<Rightarrow> nat option" where
  "find_comma s = (let n = length (takeWhile (\<lambda>b. b \<noteq> 44) s) in if n < length s then Some n else None)"

text \<open>The loop of \<^verbatim>\<open>FS_input_array_with_commas\<close>; \<open>last\<close> is the last element and \<open>pos\<close> where the next one starts.\<close>

fun input_commas_loop ::
  "text_env \<Rightarrow> 'd fs_env \<Rightarrow> 'd property \<Rightarrow> nat \<Rightarrow> nat list \<Rightarrow> nat \<Rightarrow> one_wire_query \<Rightarrow> 'd fs_state \<Rightarrow> 'd fs_result" where
  "input_commas_loop te env p elements [] pos owq st = Some (0, owq, st)"
| "input_commas_loop te env p elements (extension # es) pos owq st =
     (let end_pos = owq_size owq in
      if extension \<noteq> 0 \<and> pos \<ge> end_pos then Some (- EINVAL, owq, st)
      else
        (case (if extension + 1 = elements then Some (end_pos - pos) else find_comma (take (end_pos - pos) (drop pos (owq_buffer owq)))) of
           None \<Rightarrow> Some (- EINVAL, owq, st)
         | Some len \<Rightarrow>
             (case OWQ_create_separate env (int extension) owq st of
                (None, st) \<Rightarrow> Some (- ENOMEM, owq, st)
              | (Some owq_single, st) \<Rightarrow>
                  (case OWQ_parse_input_single te env p
                      (owq_single\<lparr>owq_buffer := drop pos (owq_buffer owq), owq_size := len, owq_offset := 0\<rparr>) st of
                     None \<Rightarrow> None
                   | Some (ret, owq_single, st) \<Rightarrow>
                       if ret \<noteq> 0 then Some (- EINVAL, owq, st)
                       else
                         (case set_array_val extension (owq_val owq_single) owq of
                            None \<Rightarrow> None
                          | Some owq \<Rightarrow> input_commas_loop te env p elements es (pos + len + 1) owq st)))))"

definition FS_input_array_with_commas :: "text_env \<Rightarrow> 'd fs_env \<Rightarrow> 'd property \<Rightarrow> one_wire_query \<Rightarrow> 'd fs_state \<Rightarrow> 'd fs_result" where
  "FS_input_array_with_commas te env p owq st =
     (case elements_of owq of
        None \<Rightarrow> None
      | Some elements \<Rightarrow>
          if owq_offset owq \<noteq> 0 then Some (- EINVAL, owq, st)
          else if owq_size owq > length (owq_buffer owq) then None
          else input_commas_loop te env p elements [0..<elements] 0 owq st)"

text \<open>The loop of \<^verbatim>\<open>FS_input_ascii_array\<close>. The strings move together and the commas go; \<open>pos\<close> and \<open>end_pos\<close> are \<^verbatim>\<open>buffer_position\<close> and \<^verbatim>\<open>end\<close>.\<close>

fun input_ascii_loop :: "nat \<Rightarrow> nat \<Rightarrow> nat list \<Rightarrow> nat \<Rightarrow> nat \<Rightarrow> one_wire_query \<Rightarrow> (int \<times> one_wire_query) option" where
  "input_ascii_loop suglen elements [] pos end_pos owq = Some (- ERANGE, owq)"
| "input_ascii_loop suglen elements (extension # es) pos end_pos owq =
     (if extension + 1 = elements then
        map_option (\<lambda>owq. (0, owq)) (set_array_val extension (size_bytes (min (end_pos - pos) suglen)) owq)
      else
        (case find_comma (take (end_pos - pos) (drop pos (owq_buffer owq))) of
           None \<Rightarrow> Some (- EINVAL, owq)
         | Some entry_length \<Rightarrow>
             let allowed = min entry_length suglen; comma = pos + entry_length in
             (case set_array_val extension (size_bytes allowed) owq of
                None \<Rightarrow> None
              | Some owq \<Rightarrow>
                  (case blk_store (pos + allowed) (take (end_pos - comma - 1) (drop (comma + 1) (owq_buffer owq))) (owq_buffer owq) of
                     None \<Rightarrow> None
                   | Some b \<Rightarrow>
                       input_ascii_loop suglen elements es (pos + allowed) (end_pos - (entry_length - allowed) - 1)
                         (owq\<lparr>owq_buffer := b\<rparr>)))))"

definition FS_input_ascii_array :: "'d property \<Rightarrow> one_wire_query \<Rightarrow> (int \<times> one_wire_query) option" where
  "FS_input_ascii_array p owq =
     (case elements_of owq of
        None \<Rightarrow> None
      | Some elements \<Rightarrow>
          if owq_offset owq \<noteq> 0 then Some (- EINVAL, owq)
          else if owq_size owq > length (owq_buffer owq) then None
          else input_ascii_loop (p_suglen p) elements [0..<elements] 0 (owq_size owq) owq)"

fun set_lengths :: "nat \<Rightarrow> nat list \<Rightarrow> one_wire_query \<Rightarrow> one_wire_query option" where
  "set_lengths len [] owq = Some owq"
| "set_lengths len (i # is) owq = Option.bind (set_array_val i (size_bytes len) owq) (set_lengths len is)"

definition FS_input_array_no_commas :: "'d property \<Rightarrow> one_wire_query \<Rightarrow> (int \<times> one_wire_query) option" where
  "FS_input_array_no_commas p owq =
     (case elements_of owq of
        None \<Rightarrow> None
      | Some elements \<Rightarrow>
          if owq_offset owq \<noteq> 0 \<or> owq_size owq \<noteq> FileLength p owq * elements then Some (- EINVAL, owq)
          else map_option (\<lambda>owq. (0, owq)) (set_lengths (FileLength p owq) [0..<elements] owq))"

definition OWQ_parse_input :: "text_env \<Rightarrow> 'd fs_env \<Rightarrow> 'd property \<Rightarrow> one_wire_query \<Rightarrow> 'd fs_state \<Rightarrow> 'd fs_result" where
  "OWQ_parse_input te env p owq st =
     (if owq_extension owq = EXTENSION_BYTE then FS_input_unsigned env owq st
      else if owq_extension owq = EXTENSION_ALL then
        if ft_form (owq_ft owq) \<in> {ft_ascii, ft_vascii, ft_alias} then map_option (\<lambda>(ret, q). (ret, q, st)) (FS_input_ascii_array p owq)
        else if ft_form (owq_ft owq) = ft_binary then map_option (\<lambda>(ret, q). (ret, q, st)) (FS_input_array_no_commas p owq)
        else FS_input_array_with_commas te env p owq st
      else OWQ_parse_input_single te env p owq st)"

section \<open>Formatting what was read\<close>

text \<open>Result and query; a positive result is the number of bytes in the buffer.\<close>

definition OWQ_parse_output_offset_and_size :: "byte list \<Rightarrow> one_wire_query \<Rightarrow> (int \<times> one_wire_query) option" where
  "OWQ_parse_output_offset_and_size string owq =
     (let len = length string; offset = owq_offset owq in
      if offset > int len then Some (0, owq)
      else
        let copy_length = min (nat (int len - offset)) (owq_size owq) in
        if offset < 0 then None
        else
          map_option (\<lambda>b. (int copy_length, owq\<lparr>owq_buffer := b, owq_length := copy_length, owq_val := overlay (size_bytes copy_length) (owq_val owq)\<rparr>))
            (blk_store 0 (take copy_length (drop (nat offset) string)) (owq_buffer owq)))"

text \<open>The same for drivers, which return zero when all is well.\<close>

definition OWQ_format_output_offset_and_size :: "byte list \<Rightarrow> one_wire_query \<Rightarrow> (int \<times> one_wire_query) option" where
  "OWQ_format_output_offset_and_size string owq =
     map_option (\<lambda>(ret, owq). (if ret > 0 then 0 else ret, owq)) (OWQ_parse_output_offset_and_size string owq)"

definition OWQ_format_output_offset_and_size_z :: "byte list \<Rightarrow> one_wire_query \<Rightarrow> (int \<times> one_wire_query) option" where
  "OWQ_format_output_offset_and_size_z string owq = OWQ_format_output_offset_and_size (c_text string) owq"

definition output_number :: "nat \<Rightarrow> byte list \<Rightarrow> one_wire_query \<Rightarrow> (int \<times> one_wire_query) option" where
  "output_number width c owq = (if length c > width then Some (- EMSGSIZE, owq) else OWQ_parse_output_offset_and_size c owq)"

definition OWQ_parse_output_integer :: "text_env \<Rightarrow> one_wire_query \<Rightarrow> (int \<times> one_wire_query) option" where
  "OWQ_parse_output_integer te owq =
     (let c = print_int (sint (OWQ_U owq)) in
      output_number PROPERTY_LENGTH_INTEGER (if t_trim te then c else padded PROPERTY_LENGTH_INTEGER c) owq)"

definition OWQ_parse_output_unsigned :: "text_env \<Rightarrow> one_wire_query \<Rightarrow> (int \<times> one_wire_query) option" where
  "OWQ_parse_output_unsigned te owq =
     (let c = print_nat (unat (OWQ_U owq)) in
      output_number PROPERTY_LENGTH_UNSIGNED (if t_trim te then c else padded PROPERTY_LENGTH_UNSIGNED c) owq)"

definition OWQ_parse_output_float :: "text_env \<Rightarrow> one_wire_query \<Rightarrow> (int \<times> one_wire_query) option" where
  "OWQ_parse_output_float te owq =
     (let c = t_print_float te (t_trim te) (ft_form (owq_ft owq)) (owq_val owq) in
      output_number PROPERTY_LENGTH_FLOAT (if t_trim te then c else padded PROPERTY_LENGTH_FLOAT c) owq)"

definition OWQ_parse_output_date :: "text_env \<Rightarrow> one_wire_query \<Rightarrow> (int \<times> one_wire_query) option" where
  "OWQ_parse_output_date te owq =
     (if owq_size owq < PROPERTY_LENGTH_DATE then Some (- EMSGSIZE, owq)
      else OWQ_parse_output_offset_and_size (take PROPERTY_LENGTH_DATE (t_ctime te (owq_val owq))) owq)"

definition OWQ_parse_output_yesno :: "one_wire_query \<Rightarrow> (int \<times> one_wire_query) option" where
  "OWQ_parse_output_yesno owq =
     (if owq_size owq < PROPERTY_LENGTH_YESNO then Some (- EMSGSIZE, owq)
      else
        map_option (\<lambda>b. (1, owq\<lparr>owq_buffer := b\<rparr>))
          (blk_store 0 [if OWQ_U owq AND 1 = 0 then 48 else 49] (owq_buffer owq)))"

definition OWQ_parse_output_ascii :: "one_wire_query \<Rightarrow> (int \<times> one_wire_query) option" where
  "OWQ_parse_output_ascii owq = Some (int (owq_length owq), owq)"

definition past_end :: "'d property \<Rightarrow> one_wire_query \<Rightarrow> bool" where
  "past_end p owq \<longleftrightarrow> owq_offset owq \<noteq> 0 \<and> size_t (owq_offset owq) \<ge> FileLength p owq"

definition OWQ_parse_output_single :: "text_env \<Rightarrow> one_wire_query \<Rightarrow> (int \<times> one_wire_query) option" where
  "OWQ_parse_output_single te owq =
     (let f = ft_form (owq_ft owq) in
      if f = ft_integer then OWQ_parse_output_integer te owq
      else if f \<in> {ft_yesno, ft_bitfield} then OWQ_parse_output_yesno owq
      else if f = ft_unsigned then OWQ_parse_output_unsigned te owq
      else if f \<in> {ft_pressure, ft_temperature, ft_tempgap, ft_float} then OWQ_parse_output_float te owq
      else if f = ft_date then OWQ_parse_output_date te owq
      else if string_format f then OWQ_parse_output_ascii owq
      else Some (- ENOENT, owq))"

text \<open>The loop of \<^verbatim>\<open>OWQ_parse_output_array_with_commas\<close>; \<open>used\<close> is \<^verbatim>\<open>used_size\<close> and the rest of the size remains. The copy for one element writes
  into the same buffer.\<close>

fun output_commas_loop ::
  "text_env \<Rightarrow> 'd property \<Rightarrow> nat list \<Rightarrow> nat \<Rightarrow> nat \<Rightarrow> one_wire_query \<Rightarrow> (int \<times> one_wire_query) option" where
  "output_commas_loop te p [] used remaining owq = Some (int used, owq)"
| "output_commas_loop te p (extension # es) used remaining owq =
     (case OWQ_array_val owq extension of
        None \<Rightarrow> None
      | Some v \<Rightarrow>
          if used > 0 \<and> remaining = 0 then Some (- EFAULT, owq)
          else
            (case (if used > 0 then blk_store used [44] (owq_buffer owq) else Some (owq_buffer owq)) of
               None \<Rightarrow> None
             | Some b \<Rightarrow>
                 let comma = (if used > 0 then 1 else 0); used = used + comma; remaining = remaining - comma;
                     single = set_extension (int extension) (owq\<lparr>owq_val := v, owq_buffer := drop used b, owq_size := remaining\<rparr>)
                 in
                 (case (if past_end p single then Some (0, single) else OWQ_parse_output_single te single) of
                    None \<Rightarrow> None
                  | Some (len, single) \<Rightarrow>
                      if len < 0 then Some (len, owq\<lparr>owq_buffer := take used b @ owq_buffer single\<rparr>)
                      else
                        output_commas_loop te p es (used + nat len) (remaining - nat len)
                          (owq\<lparr>owq_buffer := take used b @ owq_buffer single\<rparr>))))"

definition OWQ_parse_output_array_with_commas :: "text_env \<Rightarrow> 'd property \<Rightarrow> one_wire_query \<Rightarrow> (int \<times> one_wire_query) option" where
  "OWQ_parse_output_array_with_commas te p owq =
     (case elements_of owq of None \<Rightarrow> None | Some n \<Rightarrow> output_commas_loop te p [0..<n] 0 (owq_size owq) owq)"

fun total_length :: "one_wire_query \<Rightarrow> nat list \<Rightarrow> nat option" where
  "total_length owq [] = Some 0"
| "total_length owq (i # is) =
     Option.bind (OWQ_array_length owq i) (\<lambda>n. map_option ((+) n) (total_length owq is))"

text \<open>A comma before each string but the first: what follows moves one to the right.\<close>

fun insert_commas :: "one_wire_query \<Rightarrow> nat list \<Rightarrow> nat \<Rightarrow> nat \<Rightarrow> byte list \<Rightarrow> (nat \<times> byte list) option" where
  "insert_commas owq [] offset tot b = Some (tot, b)"
| "insert_commas owq (i # is) offset tot b =
     (if tot > length b \<or> offset > tot then None
      else
        Option.bind (blk_store (offset + 1) (take (tot - offset) (drop offset b)) b) (\<lambda>b.
        Option.bind (blk_store offset [44] b) (\<lambda>b.
        Option.bind (OWQ_array_length owq i) (\<lambda>n. insert_commas owq is (offset + 1 + n) (tot + 1) b))))"

definition OWQ_parse_output_ascii_array :: "one_wire_query \<Rightarrow> (int \<times> one_wire_query) option" where
  "OWQ_parse_output_ascii_array owq =
     (case elements_of owq of
        None \<Rightarrow> None
      | Some n \<Rightarrow>
          Option.bind (OWQ_array_length owq 0) (\<lambda>offset.
          Option.bind (total_length owq [0..<n]) (\<lambda>tot.
            map_option (\<lambda>(tot, b). (int tot, owq\<lparr>owq_buffer := b\<rparr>)) (insert_commas owq [1..<n] offset tot (owq_buffer owq)))))"

definition OWQ_parse_output_array_no_commas :: "one_wire_query \<Rightarrow> (int \<times> one_wire_query) option" where
  "OWQ_parse_output_array_no_commas owq =
     (case elements_of owq of
        None \<Rightarrow> None
      | Some n \<Rightarrow> map_option (\<lambda>tot. (int tot, owq)) (total_length owq [0..<n]))"

definition OWQ_parse_output :: "text_env \<Rightarrow> 'd property \<Rightarrow> one_wire_query \<Rightarrow> (int \<times> one_wire_query) option" where
  "OWQ_parse_output te p owq =
     (if past_end p owq then Some (0, owq)
      else if p_type p = ePN_structure then OWQ_parse_output_ascii owq
      else if owq_extension owq = EXTENSION_BYTE then OWQ_parse_output_unsigned te owq
      else if owq_extension owq = EXTENSION_ALL then
        if ft_form (owq_ft owq) \<in> {ft_ascii, ft_vascii, ft_alias} then OWQ_parse_output_ascii_array owq
        else if ft_form (owq_ft owq) = ft_binary then OWQ_parse_output_array_no_commas owq
        else OWQ_parse_output_array_with_commas te p owq
      else OWQ_parse_output_single te owq)"

end
