(* ===== verification/OW_ValueText.thy ===== *)
theory OW_ValueText
  imports OW_Values
begin

text \<open>Round trips of the text of values.\<close>

section \<open>Decimal numbers\<close>

lemma unat_digit [simp]: "n < 10 \<Longrightarrow> unat (48 + word_of_nat n :: byte) = 48 + n"
  by (simp add: unat_word_ariths unat_of_nat take_bit_nat_eq_self)

lemma isdigit_unat: "isdigit b \<longleftrightarrow> 48 \<le> unat b \<and> unat b \<le> 57"
  by (simp add: isdigit_def word_le_nat_alt)

lemma isdigit_digit: "n < 10 \<Longrightarrow> isdigit (48 + word_of_nat n)"
  unfolding isdigit_unat by simp

lemma decimal_append: "decimal (ds @ [d]) = 10 * decimal ds + (unat d - 48)"
  by (simp add: decimal_def)

lemma print_nat_digits: "\<forall>d \<in> set (print_nat n). isdigit d"
  by (induction n rule: print_nat.induct) (subst print_nat.simps, auto intro: isdigit_digit)

lemma print_nat_nonempty [simp]: "print_nat n \<noteq> []"
  by (subst print_nat.simps) simp

lemma decimal_print_nat [simp]: "decimal (print_nat n) = n"
proof (induction n rule: print_nat.induct)
  case (1 n)
  show ?case
  proof (cases "n < 10")
    case True
    then show ?thesis by (subst print_nat.simps) (simp add: decimal_def)
  next
    case False
    then show ?thesis using 1 by (subst print_nat.simps) (simp add: decimal_append)
  qed
qed

lemma print_nat_length: "n < 10 ^ k \<Longrightarrow> 0 < k \<Longrightarrow> length (print_nat n) \<le> k"
proof (induction k arbitrary: n)
  case (Suc k)
  show ?case
  proof (cases "n < 10")
    case False
    then have "0 < k" using Suc.prems by (cases k) auto
    moreover have "n div 10 < 10 ^ k" using Suc.prems by (simp add: less_mult_imp_div_less)
    ultimately show ?thesis using Suc.IH False by (subst print_nat.simps) simp
  qed (subst print_nat.simps, simp)
qed simp

lemma digit_not_special: "isdigit b \<Longrightarrow> b \<noteq> 0 \<and> b \<noteq> 44 \<and> b \<noteq> 43 \<and> b \<noteq> 45 \<and> \<not> isspace b"
  unfolding isdigit_unat isspace_def by (auto simp: word_le_nat_alt)

lemma takeWhile_digits [simp]: "takeWhile isdigit (print_nat n) = print_nat n"
  using print_nat_digits [of n] by simp

lemma hd_print_nat: "isdigit (hd (print_nat n))"
  using print_nat_digits [of n] by simp

lemma takeWhile_blanks: "r \<noteq> [] \<Longrightarrow> \<not> isspace (hd r) \<Longrightarrow> takeWhile isspace (replicate k 32 @ r) = replicate k 32"
  by (induction k) (cases r, auto simp: isspace_def)

lemma print_int_nonblank: "\<not> isspace (hd (print_int i))"
  using digit_not_special [OF hd_print_nat [of "nat i"]] by (auto simp: print_int_def isspace_def)

lemma print_int_nonempty [simp]: "print_int i \<noteq> []"
  by (simp add: print_int_def)

lemma scan_print_int: "scan_number (replicate k 32 @ print_int i) = (i < 0, nat \<bar>i\<bar>, k + length (print_int i))"
  using digit_not_special [OF hd_print_nat [of "nat i"]]
  unfolding scan_number_def takeWhile_blanks [OF print_int_nonempty print_int_nonblank] by (auto simp: print_int_def Let_def)

lemma print_nat_no_special: "0 \<notin> set (print_nat n)" "44 \<notin> set (print_nat n)"
  using print_nat_digits [of n] digit_not_special by blast+

lemma print_int_no_special: "0 \<notin> set (print_int i)" "44 \<notin> set (print_int i)"
  using print_nat_no_special by (simp_all add: print_int_def)

lemma print_nat_int: "print_nat n = print_int (int n)"
  by (simp add: print_int_def)


lemma c_text_end: "0 \<notin> set s \<Longrightarrow> c_text (s @ [0]) = s"
  by (induction s) (auto simp: c_text_def)

lemma strtol_print:
  assumes "- (2 ^ 63) \<le> i" and "i < 2 ^ 63"
  shows "strtol (replicate k 32 @ print_int i) = (i, k + length (print_int i), 0)"
  unfolding strtol_def scan_print_int using assms by (auto simp: Let_def)

lemma strtoul_print: "n < 2 ^ 64 \<Longrightarrow> strtoul (replicate k 32 @ print_nat n) = (int n, k + length (print_nat n), 0)"
  unfolding strtoul_def print_nat_int scan_print_int by (auto simp: Let_def)

section \<open>The text of one value\<close>

text \<open>What stands for an unsigned value in each format, and the value it means.\<close>

definition flag_format :: "ft_format \<Rightarrow> bool" where
  "flag_format f \<longleftrightarrow> f = ft_yesno \<or> f = ft_bitfield"

definition text_format :: "ft_format \<Rightarrow> bool" where
  "text_format f \<longleftrightarrow> flag_format f \<or> f = ft_integer \<or> f = ft_unsigned"

definition value_text :: "bool \<Rightarrow> ft_format \<Rightarrow> uint \<Rightarrow> byte list" where
  "value_text trim f u =
     (if flag_format f then [if u AND 1 = 0 then 48 else 49]
      else
        let c = (if f = ft_integer then print_int (sint u) else print_nat (unat u)) in if trim then c else padded 12 c)"

definition text_value :: "ft_format \<Rightarrow> uint \<Rightarrow> uint" where
  "text_value f u = (if flag_format f then u AND 1 else u)"

lemma print_sint_length: "length (print_int (sint (u :: uint))) \<le> 12"
proof -
  have "- (2 ^ 31) \<le> sint u" "sint u < 2 ^ 31" using sint_greater_eq [of u] sint_less [of u] by simp_all
  then have "nat (sint u) < 10 ^ 11" "nat (- sint u) < 10 ^ 11" by simp_all
  then show ?thesis using print_nat_length [of "nat (sint u)" 11] print_nat_length [of "nat (- sint u)" 11] by (simp add: print_int_def)
qed

lemma print_unat_length: "length (print_nat (unat (u :: uint))) \<le> 12"
proof -
  have "unat u < 10 ^ 12" using unsigned_less [of u, where ?'a = nat] by simp
  then show ?thesis by (rule print_nat_length) simp
qed

lemma value_text_length: "length (value_text trim f u) \<le> 12"
  using print_sint_length [of u] print_unat_length [of u] by (auto simp: value_text_def padded_def Let_def)

lemma value_text_nonempty [simp]: "value_text trim f u \<noteq> []"
  by (simp add: value_text_def padded_def Let_def)

lemma value_text_no_special: "0 \<notin> set (value_text trim f u)" "44 \<notin> set (value_text trim f u)"
  using print_int_no_special by (auto simp: value_text_def padded_def Let_def print_nat_int)

lemma length_padded: "length c \<le> w \<Longrightarrow> length (padded w c) = w"
  by (simp add: padded_def)

lemma value_text_blanks:
  assumes "\<not> flag_format f"
  shows "\<exists>k. value_text trim f u = replicate k 32 @ (if f = ft_integer then print_int (sint u) else print_nat (unat u))"
  using assms by (cases trim) (auto simp: value_text_def padded_def Let_def intro: exI [of _ 0])

lemma OWQ_parse_output_offset_and_size_all:
  assumes "owq_offset q = 0" and "owq_size q \<le> length (owq_buffer q)" and "length c \<le> owq_size q"
  shows "\<exists>q'. OWQ_parse_output_offset_and_size c q = Some (int (length c), q') \<and> owq_buffer q' = c @ drop (length c) (owq_buffer q)"
  using assms by (simp add: OWQ_parse_output_offset_and_size_def blk_store_def Let_def)

lemma output_number_all:
  assumes "owq_offset q = 0" and "owq_size q \<le> length (owq_buffer q)" and "length c \<le> owq_size q" and "length c \<le> w"
  shows "\<exists>q'. output_number w c q = Some (int (length c), q') \<and> owq_buffer q' = c @ drop (length c) (owq_buffer q)"
  using OWQ_parse_output_offset_and_size_all [OF assms(1-3)] assms(4) by (simp add: output_number_def)

lemma OWQ_parse_output_unsigned_value:
  assumes "owq_offset q = 0" and "owq_size q \<le> length (owq_buffer q)"
    and c: "c = value_text (t_trim te) ft_unsigned (OWQ_U q)" and "length c \<le> owq_size q"
  shows "\<exists>q'. OWQ_parse_output_unsigned te q = Some (int (length c), q') \<and> owq_buffer q' = c @ drop (length c) (owq_buffer q)"
proof -
  have "length c \<le> 12" using c value_text_length by simp
  then show ?thesis using output_number_all [OF assms(1,2,4), of 12] c
    by (cases "t_trim te") (simp_all add: OWQ_parse_output_unsigned_def flag_format_def value_text_def property_lengths Let_def)
qed

lemma OWQ_parse_output_value:
  assumes "text_format f" and f: "f = ft_form (owq_ft q)" and off: "owq_offset q = 0" and sz: "owq_size q \<le> length (owq_buffer q)"
    and c: "c = value_text (t_trim te) f (OWQ_U q)" and len: "length c \<le> owq_size q"
  shows "\<exists>q'. OWQ_parse_output_single te q = Some (int (length c), q') \<and> owq_buffer q' = c @ drop (length c) (owq_buffer q)"
proof -
  have l12: "length c \<le> 12" using c value_text_length by simp
  note out = output_number_all [OF off sz len, of 12, OF l12]
  consider "flag_format f" | "f = ft_integer" | "f = ft_unsigned" using assms(1) by (auto simp: text_format_def)
  then show ?thesis
  proof cases
    case 1
    then show ?thesis using f c len sz
      by (auto simp: OWQ_parse_output_single_def OWQ_parse_output_yesno_def flag_format_def value_text_def blk_store_def property_lengths)
  next
    case 2
    then show ?thesis using f c out
      by (cases "t_trim te") (simp_all add: OWQ_parse_output_single_def OWQ_parse_output_integer_def flag_format_def value_text_def property_lengths Let_def)
  next
    case 3
    then show ?thesis using f c len OWQ_parse_output_unsigned_value [OF off sz] by (simp add: OWQ_parse_output_single_def)
  qed
qed

lemma flag_value:
  obtains "u AND 1 = (0 :: uint)" | "u AND 1 = (1 :: uint)"
  by (cases "even u") (simp_all add: and_one_eq mod_2_eq_odd)

lemma strtol_flag: "strtol [if b then 48 else 49] = (of_bool (\<not> b), 1, 0)"
  by (cases b) (simp_all add: strtol_def scan_number_def decimal_def isspace_def isdigit_def)

lemma input_buffer_text:
  assumes "owq_size q \<le> length (owq_buffer q)" and "take (owq_size q) (owq_buffer q) = s" and "owq_size q \<le> DEFAULT_INPUT_BUFFER_LENGTH"
  shows "input_buffer env q st = Some (Some (s @ [0]), st)"
  using assms by (simp add: input_buffer_def)

lemma value_text_read:
  assumes "\<not> flag_format f"
  shows "\<exists>m > 0. (f = ft_integer \<longrightarrow> strtol (value_text trim f u) = (sint u, m, 0))
    \<and> (f \<noteq> ft_integer \<longrightarrow> strtoul (value_text trim f u) = (int (unat u), m, 0))"
proof -
  obtain k where k: "value_text trim f u = replicate k 32 @ (if f = ft_integer then print_int (sint u) else print_nat (unat u))"
    using value_text_blanks [OF assms] by blast
  have b: "- (2 ^ 63) \<le> sint u" "sint u < 2 ^ 63" "unat u < 2 ^ 64"
    using sint_greater_eq [of u] sint_less [of u] unsigned_less [of u, where ?'a = nat] by simp_all
  show ?thesis
    using k strtol_print [OF b(1,2), of k] strtoul_print [OF b(3), of k]
    by (cases "f = ft_integer") (auto intro!: exI [of _ "k + length (if f = ft_integer then print_int (sint u) else print_nat (unat u))"])
qed

lemma c_text_value [simp]: "c_text (value_text trim f u @ [0]) = value_text trim f u"
  by (rule c_text_end [OF value_text_no_special(1)])

lemma value_text_buffer:
  assumes "owq_size q \<le> length (owq_buffer q)" and "take (owq_size q) (owq_buffer q) = value_text trim f u"
  shows "input_buffer env q st = Some (Some (value_text trim f u @ [0]), st)"
proof -
  have "owq_size q \<le> DEFAULT_INPUT_BUFFER_LENGTH"
    using arg_cong [OF assms(2), of length] assms(1) value_text_length [of trim f u] by (simp add: DEFAULT_INPUT_BUFFER_LENGTH_def)
  then show ?thesis by (rule input_buffer_text [OF assms])
qed

lemma FS_input_unsigned_value:
  assumes "owq_size q \<le> length (owq_buffer q)" and "take (owq_size q) (owq_buffer q) = value_text trim ft_unsigned u"
  shows "FS_input_unsigned env q st = Some (0, set_OWQ_U u q, st)"
  using value_text_read [of ft_unsigned trim u]
  by (auto simp: FS_input_unsigned_def FS_input_number_def value_text_buffer [OF assms] flag_format_def conversion_error_def)

lemma OWQ_parse_input_value:
  assumes f: "text_format f" and f2: "f = ft_form (owq_ft q)" and sz: "owq_size q \<le> length (owq_buffer q)"
    and tx: "take (owq_size q) (owq_buffer q) = value_text trim f u"
  shows "OWQ_parse_input_single te env p q st = Some (0, set_OWQ_U (text_value f u) q, st)"
proof (cases "flag_format f")
  case True
  then have "OWQ_parse_input_single te env p q st = FS_input_yesno env q st"
    using f2 by (auto simp: OWQ_parse_input_single_def flag_format_def)
  moreover have "strtol (value_text trim f u) = (of_bool (u AND 1 \<noteq> 0), 1, 0)"
    using True strtol_flag [of "u AND 1 = 0"] by (simp add: value_text_def)
  ultimately show ?thesis using True
    by (cases rule: flag_value [of u]) (simp_all add: FS_input_yesno_def value_text_buffer [OF sz tx] set_OWQ_Y_def text_value_def)
next
  case False
  then consider "f = ft_integer" | "f = ft_unsigned" using f by (auto simp: text_format_def)
  then show ?thesis
  proof cases
    case 1
    then show ?thesis using False f2 value_text_read [OF False, of trim u]
      by (auto simp: OWQ_parse_input_single_def FS_input_integer_def FS_input_number_def value_text_buffer [OF sz tx] conversion_error_def text_value_def)
  next
    case 2
    then show ?thesis using False f2 FS_input_unsigned_value [OF sz, of trim u env st] tx by (simp add: OWQ_parse_input_single_def text_value_def)
  qed
qed

section \<open>Arrays of values\<close>

definition comma_tail :: "byte list list \<Rightarrow> byte list" where
  "comma_tail ts = concat (map ((#) 44) ts)"

fun commas :: "byte list list \<Rightarrow> byte list" where
  "commas [] = []"
| "commas (t # ts) = t @ comma_tail ts"

lemma comma_tail_simps [simp]: "comma_tail [] = []" "comma_tail (t # ts) = 44 # t @ comma_tail ts"
  by (simp_all add: comma_tail_def)

lemma OWQ_array_val_buffer [simp]: "OWQ_array_val (q\<lparr>owq_buffer := b\<rparr>) i = OWQ_array_val q i"
  by (simp add: OWQ_array_val_def)

lemma output_tail:
  assumes "text_format f" and "f = ft_form (owq_ft q)" and "owq_offset q = 0" and "\<forall>i \<in> set es. OWQ_array_val q i = Some (v i)"
    and "0 < used" and "used + remaining \<le> length (owq_buffer q)"
    and "c = comma_tail (map (\<lambda>i. value_text (t_trim te) f (UT_uint32 (v i))) es)" and "length c \<le> remaining"
  shows "output_commas_loop te p es used remaining q =
    Some (int (used + length c), q\<lparr>owq_buffer := take used (owq_buffer q) @ c @ drop (used + length c) (owq_buffer q)\<rparr>)"
  using assms
proof (induction es arbitrary: q used remaining c)
  case Nil
  then show ?case by simp
next
  case (Cons i es)
  let ?t = "value_text (t_trim te) f (UT_uint32 (v i))"
  let ?b = "take used (owq_buffer q) @ 44 # drop (Suc used) (owq_buffer q)"
  let ?s = "set_extension (int i) (q\<lparr>owq_val := v i, owq_buffer := drop (Suc used) ?b, owq_size := remaining - 1\<rparr>)"
  define c' where "c' = comma_tail (map (\<lambda>i. value_text (t_trim te) f (UT_uint32 (v i))) es)"
  have c: "c = 44 # ?t @ c'" "length c' + length ?t + 1 \<le> remaining" using Cons.prems(7,8) by (simp_all add: c'_def)
  have b: "blk_store used [44] (owq_buffer q) = Some ?b" "drop (Suc used) ?b = drop (Suc used) (owq_buffer q)"
    using Cons.prems(6) c(2) by (simp_all add: blk_store_def)
  have "owq_size ?s \<le> length (owq_buffer ?s)" "length ?t \<le> owq_size ?s" using Cons.prems(6) c(2) b(2) by simp_all
  then obtain s' where s': "OWQ_parse_output_single te ?s = Some (int (length ?t), s')" "owq_buffer s' = ?t @ drop (length ?t) (owq_buffer ?s)"
    using OWQ_parse_output_value [of f ?s ?t te] Cons.prems(1-3) by (auto simp: OWQ_U_def)
  let ?q = "q\<lparr>owq_buffer := take (Suc used) ?b @ owq_buffer s'\<rparr>"
  have "output_commas_loop te p (i # es) used remaining q = output_commas_loop te p es (Suc used + length ?t) (remaining - 1 - length ?t) ?q"
    using Cons.prems(3-6) c(2) b(1) s'(1) by (simp add: past_end_def Let_def)
  also have "\<dots> = Some (int (Suc used + length ?t + length c'),
      ?q\<lparr>owq_buffer := take (Suc used + length ?t) (owq_buffer ?q) @ c' @ drop (Suc used + length ?t + length c') (owq_buffer ?q)\<rparr>)"
    using Cons.prems(1-6) c(2) s'(2) b(2) by (intro Cons.IH) (simp_all add: c'_def)
  also have "\<dots> = Some (int (used + length c), q\<lparr>owq_buffer := take used (owq_buffer q) @ c @ drop (used + length c) (owq_buffer q)\<rparr>)"
    using Cons.prems(6) c s'(2) b(2) by (simp add: ac_simps)
  finally show ?case .
qed

lemma output_array:
  assumes "text_format f" and "f = ft_form (owq_ft q)" and "owq_offset q = 0" and "\<forall>i \<in> set es. OWQ_array_val q i = Some (v i)"
    and "remaining \<le> length (owq_buffer q)"
    and "c = commas (map (\<lambda>i. value_text (t_trim te) f (UT_uint32 (v i))) es)" and "length c \<le> remaining"
  shows "output_commas_loop te p es 0 remaining q = Some (int (length c), q\<lparr>owq_buffer := c @ drop (length c) (owq_buffer q)\<rparr>)"
proof (cases es)
  case (Cons i es)
  let ?t = "value_text (t_trim te) f (UT_uint32 (v i))"
  let ?s = "set_extension (int i) (q\<lparr>owq_val := v i, owq_buffer := owq_buffer q, owq_size := remaining\<rparr>)"
  define c' where "c' = comma_tail (map (\<lambda>i. value_text (t_trim te) f (UT_uint32 (v i))) es)"
  have c: "c = ?t @ c'" "length c' + length ?t \<le> remaining" using assms(6,7) Cons by (simp_all add: c'_def)
  obtain s' where s': "OWQ_parse_output_single te ?s = Some (int (length ?t), s')" "owq_buffer s' = ?t @ drop (length ?t) (owq_buffer q)"
    using OWQ_parse_output_value [of f ?s ?t te] assms(1-3,5) c(2) by (auto simp: OWQ_U_def)
  let ?q = "q\<lparr>owq_buffer := owq_buffer s'\<rparr>"
  have "output_commas_loop te p (i # es) 0 remaining q = output_commas_loop te p es (length ?t) (remaining - length ?t) ?q"
    using assms(3,4) Cons s'(1) by (simp add: past_end_def Let_def)
  also have "\<dots> = Some (int (length ?t + length c'),
      ?q\<lparr>owq_buffer := take (length ?t) (owq_buffer ?q) @ c' @ drop (length ?t + length c') (owq_buffer ?q)\<rparr>)"
    using assms(1-5) Cons c(2) s'(2) by (intro output_tail [where v = v]) (simp_all add: c'_def)
  also have "\<dots> = Some (int (length c), q\<lparr>owq_buffer := c @ drop (length c) (owq_buffer q)\<rparr>)"
    using c s'(2) by (simp add: ac_simps)
  finally show ?thesis using Cons by simp
qed (use assms(6) in simp)

lemma find_comma_first: "44 \<notin> set t \<Longrightarrow> find_comma (t @ 44 # r) = Some (length t)"
  by (simp add: find_comma_def takeWhile_append)

definition value_object :: "ft_format \<Rightarrow> uint \<Rightarrow> byte list" where
  "value_object f u = overlay (UT_uint32_to_bytes (text_value f u)) (replicate sizeof_value_object 0)"

lemma length_value_object [simp]: "length (value_object f u) = sizeof_value_object"
  by (simp add: value_object_def overlay_def UT_uint32_to_bytes_def sizeof_value_object_def)

lemma UT_uint32_value_object [simp]: "UT_uint32 (value_object f u) = text_value f u"
  using UT_uint32_roundtrip [of "text_value f u"] by (simp add: value_object_def overlay_def UT_uint32_def UT_uint32_to_bytes_def)

lemma input_single:
  assumes "text_format f" and "f = ft_form (owq_ft q)" and "t = value_text trim f u" and "take w (drop pos (owq_buffer q)) = t @ r"
  shows "\<exists>s. OWQ_parse_input_single te env p ((OWQ_copy e q)\<lparr>owq_buffer := drop pos (owq_buffer q), owq_size := length t, owq_offset := 0\<rparr>) st
    = Some (0, s, st) \<and> owq_val s = value_object f u"
proof -
  let ?q = "(OWQ_copy e q)\<lparr>owq_buffer := drop pos (owq_buffer q), owq_size := length t, owq_offset := 0\<rparr>"
  have "drop pos (owq_buffer q) = t @ r @ drop w (drop pos (owq_buffer q))"
    using append_take_drop_id [of w "drop pos (owq_buffer q)"] assms(4) by simp
  then have "take (length t) (drop pos (owq_buffer q)) = t" "length t \<le> length (drop pos (owq_buffer q))"
    by (metis append_eq_conv_conj, metis length_append le_add1)
  then show ?thesis
    using assms(2,3) OWQ_parse_input_value [OF assms(1), of ?q trim u te env p st] by (simp add: OWQ_copy_def set_OWQ_U_def value_object_def)
qed

lemma input_step:
  assumes "text_format f" and "f = ft_form (owq_ft q)" and alloc: "\<And>k. e_alloc env k"
    and vs: "owq_array q = concat vs" "objects vs" "k < length vs" and t: "t = value_text trim f u"
    and r: "take (owq_size q - pos) (drop pos (owq_buffer q)) = t @ r" "if Suc k = n then r = [] else \<exists>r'. r = 44 # r'"
    and sz: "owq_size q \<le> length (owq_buffer q)"
  shows "input_commas_loop te env p n (k # es) pos q st =
    input_commas_loop te env p n es (Suc (pos + length t)) (q\<lparr>owq_array := concat (vs[k := value_object f u])\<rparr>) (st\<lparr>fs_allocs := fs_allocs st + 1\<rparr>)"
proof -
  let ?st = "st\<lparr>fs_allocs := fs_allocs st + 1\<rparr>"
  obtain s where s: "OWQ_parse_input_single te env p ((OWQ_copy (int k) q)\<lparr>owq_buffer := drop pos (owq_buffer q), owq_size := length t, owq_offset := 0\<rparr>) ?st
    = Some (0, s, ?st)" "owq_val s = value_object f u"
    using input_single [OF assms(1,2) t r(1)] by blast
  have pos: "pos < owq_size q" using r(1) t by (cases "pos < owq_size q") auto
  have "length t = owq_size q - pos" if "Suc k = n" using r(2) that arg_cong [OF r(1), of length] sz by simp
  moreover have "find_comma (t @ r) = Some (length t)" if "Suc k \<noteq> n"
    using r(2) that find_comma_first [of t] value_text_no_special(2) t by auto
  ultimately have len: "(if k + 1 = n then Some (owq_size q - pos) else find_comma (take (owq_size q - pos) (drop pos (owq_buffer q)))) = Some (length t)"
    using r(1) by simp
  show ?thesis
    using pos alloc s set_array_val_concat [OF vs length_value_object]
    unfolding input_commas_loop.simps Let_def len by (simp add: OWQ_create_separate_def owmalloc_def)
qed

lemma input_array:
  assumes "text_format f" and alloc: "\<And>k. e_alloc env k" and "f = ft_form (owq_ft q)" and "owq_size q \<le> length (owq_buffer q)"
    and "n = length vs" and "objects vs" and "owq_array q = concat vs" and "k < n"
    and "take (owq_size q - pos) (drop pos (owq_buffer q)) = commas (map (\<lambda>i. value_text trim f (u i)) [k..<n])"
  shows "\<exists>ws m. input_commas_loop te env p n [k..<n] pos q st = Some (0, q\<lparr>owq_array := concat ws\<rparr>, st\<lparr>fs_allocs := m\<rparr>) \<and> objects ws \<and> length ws = n
    \<and> (\<forall>i < n. ws ! i = (if k \<le> i then value_object f (u i) else vs ! i))"
  using assms(3-)
proof (induction "n - Suc k" arbitrary: k pos q vs st)
  case 0
  then have n1: "n = Suc k" by simp
  then have "[k..<n] = [k]" by simp
  note n = n1 this
  have here: "take (owq_size q - pos) (drop pos (owq_buffer q)) = value_text trim f (u k) @ []" using "0.prems"(7) unfolding n(2) by simp
  have "input_commas_loop te env p n (k # []) pos q st = input_commas_loop te env p n [] (Suc (pos + length (value_text trim f (u k))))
      (q\<lparr>owq_array := concat (vs[k := value_object f (u k)])\<rparr>) (st\<lparr>fs_allocs := fs_allocs st + 1\<rparr>)"
    using "0.prems"(1-6) n(1) by (intro input_step [OF assms(1) _ alloc _ _ _ refl here]) simp_all
  moreover have "\<forall>i < n. vs[k := value_object f (u k)] ! i = (if k \<le> i then value_object f (u i) else vs ! i)"
    using "0.prems"(3,6) n1 by (auto simp: nth_list_update dest: le_less_Suc_eq)
  moreover have "objects (vs[k := value_object f (u k)])" using "0.prems"(4) set_update_subset_insert [of vs k "value_object f (u k)"] by auto
  ultimately show ?case unfolding n(2) using "0.prems"(3)
    by (intro exI [of _ "vs[k := value_object f (u k)]"] exI [of _ "fs_allocs st + 1"]) (simp del: input_commas_loop.simps(2))
next
  case (Suc d)
  let ?t = "value_text trim f (u k)" let ?c = "commas (map (\<lambda>i. value_text trim f (u i)) [Suc k..<n])"
  let ?ws = "vs[k := value_object f (u k)]" let ?pos = "Suc (pos + length ?t)"
  let ?q = "q\<lparr>owq_array := concat ?ws\<rparr>" let ?st = "st\<lparr>fs_allocs := fs_allocs st + 1\<rparr>"
  have k: "Suc k < n" "[k..<n] = k # [Suc k..<n]" using Suc.hyps(2) by (simp_all add: upt_conv_Cons)
  have here: "take (owq_size q - pos) (drop pos (owq_buffer q)) = ?t @ 44 # ?c"
    using Suc.prems(7) k by (simp add: upt_conv_Cons)
  have "drop (Suc (length ?t)) (take (owq_size q - pos) (drop pos (owq_buffer q))) = ?c" by (simp only: here) simp
  then have rest: "take (owq_size q - ?pos) (drop ?pos (owq_buffer q)) = ?c" by (simp add: drop_take add.commute)
  have step: "input_commas_loop te env p n [k..<n] pos q st = input_commas_loop te env p n [Suc k..<n] ?pos ?q ?st"
    unfolding k(2) using Suc.prems(1-6) k(1) by (intro input_step [OF assms(1) _ alloc _ _ _ refl here]) simp_all
  have objs: "objects ?ws" using Suc.prems(4) set_update_subset_insert [of vs k "value_object f (u k)"] by auto
  have "\<exists>ws m. input_commas_loop te env p n [Suc k..<n] ?pos ?q ?st = Some (0, ?q\<lparr>owq_array := concat ws\<rparr>, ?st\<lparr>fs_allocs := m\<rparr>) \<and> objects ws \<and> length ws = n
    \<and> (\<forall>i < n. ws ! i = (if Suc k \<le> i then value_object f (u i) else ?ws ! i))"
    using Suc.hyps(2) Suc.prems k(1) rest objs by (intro Suc.hyps(1)) simp_all
  then obtain ws m where ws: "input_commas_loop te env p n [Suc k..<n] ?pos ?q ?st = Some (0, ?q\<lparr>owq_array := concat ws\<rparr>, ?st\<lparr>fs_allocs := m\<rparr>)"
    "objects ws" "length ws = n" "\<forall>i < n. ws ! i = (if Suc k \<le> i then value_object f (u i) else ?ws ! i)" by blast
  have "\<forall>i < n. ws ! i = (if k \<le> i then value_object f (u i) else vs ! i)"
    using ws(4) Suc.prems(3,6) by (auto simp: nth_list_update not_less_eq_eq [symmetric] dest: le_antisym)
  then show ?case using step ws(1-3) by (intro exI [of _ ws] exI [of _ m]) simp
qed

lemma values_of_array:
  "length a = n * sizeof_value_object \<Longrightarrow> \<exists>vs. a = concat vs \<and> objects vs \<and> length vs = n"
proof (induction n arbitrary: a)
  case (Suc n)
  obtain vs where "drop sizeof_value_object a = concat vs" "objects vs" "length vs = n"
    using Suc.IH [of "drop sizeof_value_object a"] Suc.prems by auto
  moreover from this have "a = take sizeof_value_object a @ concat vs" by (metis append_take_drop_id)
  ultimately show ?case using Suc.prems by (intro exI [of _ "take sizeof_value_object a # vs"]) (simp add: min_def)
qed simp

lemma comma_tail_length: "\<forall>t \<in> set ts. length t \<le> 12 \<Longrightarrow> length (comma_tail ts) \<le> 13 * length ts"
  by (induction ts) auto

lemma commas_length: "\<forall>t \<in> set ts. length t \<le> 12 \<Longrightarrow> length (commas ts) \<le> 13 * length ts - 1"
  using comma_tail_length by (cases ts) fastforce+

text \<open>What is printed for one value is read back as that value.\<close>

theorem value_text_roundtrip:
  assumes "f = (if owq_extension q = EXTENSION_BYTE then ft_unsigned else ft_form (owq_ft q))" and "text_format f"
    and "owq_extension q \<noteq> EXTENSION_ALL" and "p_type p \<noteq> ePN_structure"
    and "owq_offset q = 0" and "12 \<le> owq_size q" and "owq_size q \<le> length (owq_buffer q)"
  shows "\<exists>c q'. OWQ_parse_output te p q = Some (int (length c), q') \<and> c \<noteq> [] \<and> length c \<le> 12
    \<and> owq_buffer q' = c @ drop (length c) (owq_buffer q)
    \<and> (\<forall>te env w st. owq_pn w = owq_pn q \<longrightarrow> owq_size w = length c \<longrightarrow> take (length c) (owq_buffer w) = c \<longrightarrow>
         OWQ_parse_input te env p w st = Some (0, set_OWQ_U (text_value f (OWQ_U q)) w, st))"
proof -
  define c where "c = value_text (t_trim te) f (OWQ_U q)"
  have c: "c \<noteq> []" "length c \<le> 12" "length c \<le> owq_size q" using assms(6) value_text_length by (auto simp: c_def intro: order_trans)
  have "\<exists>q'. OWQ_parse_output te p q = Some (int (length c), q') \<and> owq_buffer q' = c @ drop (length c) (owq_buffer q)"
    using assms(1-5) OWQ_parse_output_value [OF assms(2) _ assms(5,7) c_def c(3)] OWQ_parse_output_unsigned_value [OF assms(5,7) _ c(3), of te]
    by (cases "owq_extension q = EXTENSION_BYTE") (simp_all add: OWQ_parse_output_def past_end_def c_def)
  moreover have "OWQ_parse_input te' env p w st = Some (0, set_OWQ_U (text_value f (OWQ_U q)) w, st)"
    if w: "owq_pn w = owq_pn q" "owq_size w = length c" "take (length c) (owq_buffer w) = c" for te' env w and st :: "'a fs_state"
  proof -
    have "owq_size w \<le> length (owq_buffer w)" using arg_cong [OF w(3), of length] w(2) by simp
    then show ?thesis
      using w assms(1-3) FS_input_unsigned_value [of w "t_trim te" "OWQ_U q" env st] OWQ_parse_input_value [OF assms(2), of w "t_trim te" "OWQ_U q" te' env p st]
      by (cases "owq_extension q = EXTENSION_BYTE") (simp_all add: OWQ_parse_input_def c_def text_value_def flag_format_def)
  qed
  ultimately show ?thesis using c(1,2) by blast
qed

text \<open>C25: what is printed for an array of numbers is read back as the same numbers.\<close>

theorem array_text_roundtrip:
  assumes "text_format (ft_form (owq_ft q))" and "owq_extension q = EXTENSION_ALL" and "p_type p \<noteq> ePN_structure"
    and "ft_ag (owq_ft q) = Some ag" and "length vs = ag_elements ag" and "objects vs" and "owq_array q = concat vs"
    and "owq_offset q = 0" and "13 * ag_elements ag \<le> owq_size q + 1" and "owq_size q \<le> length (owq_buffer q)"
  shows "\<exists>c. OWQ_parse_output te p q = Some (int (length c), q\<lparr>owq_buffer := c @ drop (length c) (owq_buffer q)\<rparr>)
    \<and> (\<forall>te env w st. (\<forall>k. e_alloc env k) \<longrightarrow> owq_pn w = owq_pn q \<longrightarrow> owq_offset w = 0 \<longrightarrow> owq_size w = length c \<longrightarrow>
         take (length c) (owq_buffer w) = c \<longrightarrow> length (owq_array w) = ag_elements ag * sizeof_value_object \<longrightarrow>
         (\<exists>ws m. OWQ_parse_input te env p w st = Some (0, w\<lparr>owq_array := concat ws\<rparr>, st\<lparr>fs_allocs := m\<rparr>) \<and> objects ws
            \<and> map UT_uint32 ws = map (\<lambda>v. text_value (ft_form (owq_ft q)) (UT_uint32 v)) vs))"
proof -
  let ?f = "ft_form (owq_ft q)" let ?n = "ag_elements ag"
  define c where "c = commas (map (\<lambda>i. value_text (t_trim te) ?f (UT_uint32 (vs ! i))) [0..<?n])"
  have "length c \<le> 13 * ?n - 1"
    using commas_length [of "map (\<lambda>i. value_text (t_trim te) ?f (UT_uint32 (vs ! i))) [0..<?n]"] value_text_length by (simp add: c_def)
  then have len: "length c \<le> owq_size q" using assms(9) by simp
  have fmt: "?f \<notin> {ft_ascii, ft_vascii, ft_alias}" "?f \<noteq> ft_binary" using assms(1) by (auto simp: text_format_def flag_format_def)
  have "output_commas_loop te p [0..<?n] 0 (owq_size q) q = Some (int (length c), q\<lparr>owq_buffer := c @ drop (length c) (owq_buffer q)\<rparr>)"
    using OWQ_array_val_concat [OF assms(7,6)] assms(5) by (intro output_array [OF assms(1) refl assms(8) _ assms(10) c_def len]) simp
  then have out: "OWQ_parse_output te p q = Some (int (length c), q\<lparr>owq_buffer := c @ drop (length c) (owq_buffer q)\<rparr>)"
    using assms(2-4,8) fmt by (simp add: OWQ_parse_output_def past_end_def OWQ_parse_output_array_with_commas_def elements_of_def EXTENSION_ALL_def EXTENSION_BYTE_def)
  have "\<exists>ws m. OWQ_parse_input te' env p w st = Some (0, w\<lparr>owq_array := concat ws\<rparr>, st\<lparr>fs_allocs := m\<rparr>) \<and> objects ws
            \<and> map UT_uint32 ws = map (\<lambda>v. text_value ?f (UT_uint32 v)) vs"
    if alloc: "\<forall>k. e_alloc env k" and w: "owq_pn w = owq_pn q" "owq_offset w = 0" "owq_size w = length c" "take (length c) (owq_buffer w) = c"
      "length (owq_array w) = ?n * sizeof_value_object" for te' env w and st :: "'a fs_state"
  proof -
    obtain us where us: "owq_array w = concat us" "objects us" "length us = ?n" using values_of_array [OF w(5)] by blast
    have sz: "owq_size w \<le> length (owq_buffer w)" using arg_cong [OF w(4), of length] w(3) by simp
    have "OWQ_parse_input te' env p w st = input_commas_loop te' env p ?n [0..<?n] 0 w st"
      using assms(2,4) w(1,2) sz fmt by (simp add: OWQ_parse_input_def FS_input_array_with_commas_def elements_of_def EXTENSION_ALL_def EXTENSION_BYTE_def)
    moreover have "\<exists>ws m. input_commas_loop te' env p ?n [0..<?n] 0 w st = Some (0, w\<lparr>owq_array := concat ws\<rparr>, st\<lparr>fs_allocs := m\<rparr>) \<and> objects ws \<and> length ws = ?n
      \<and> (\<forall>i < ?n. ws ! i = value_object ?f (UT_uint32 (vs ! i)))"
    proof (cases "?n = 0")
      case True
      then show ?thesis using us by (intro exI [of _ "[]"] exI [of _ "fs_allocs st"]) simp
    next
      case False
      have tx: "take (owq_size w - 0) (drop 0 (owq_buffer w)) = commas (map (\<lambda>i. value_text (t_trim te) ?f (UT_uint32 (vs ! i))) [0..<?n])"
        using w(3,4) unfolding c_def by simp
      have f: "?f = ft_form (owq_ft w)" and n0: "0 < ?n" using w(1) False by simp_all
      show ?thesis using input_array [OF assms(1) alloc [rule_format] f sz us(3) [symmetric] us(2,1) n0 tx, of te' p st] by simp
    qed
    ultimately obtain ws m where ws: "OWQ_parse_input te' env p w st = Some (0, w\<lparr>owq_array := concat ws\<rparr>, st\<lparr>fs_allocs := m\<rparr>)" "objects ws" "length ws = ?n"
      "\<forall>i < ?n. ws ! i = value_object ?f (UT_uint32 (vs ! i))" by metis
    moreover from ws(3,4) have "map UT_uint32 ws = map (\<lambda>v. text_value ?f (UT_uint32 v)) vs" using assms(5) by (intro nth_equalityI) simp_all
    ultimately show ?thesis by blast
  qed
  then show ?thesis using out by blast
qed

section \<open>Instances\<close>

text \<open>Queries of a property with an array, values trimmed; floating point numbers and dates do not occur.\<close>

definition sample_text_env :: text_env where
  "sample_text_env = \<lparr>t_strtod = \<lambda>_. ([], 0, 0), t_from_units = \<lambda>_ v. v, t_print_float = \<lambda>_ _ _. [], t_strptime = \<lambda>_. None, t_ctime = \<lambda>_. [],
     t_now = [], t_trim = True\<rparr>"

definition sample_fs_env :: "unit fs_env" where
  "sample_fs_env = \<lparr>e_globals = default_globals, e_alloc = \<lambda>_. True, e_read_fake = \<lambda>q st. (0, q, st), e_read_tester = \<lambda>q st. (0, q, st)\<rparr>"

definition sample_fs_state :: "unit fs_state" where
  "sample_fs_state = \<lparr>fs_cache = zero_cache, fs_clock = 0, fs_allocs = 0, fs_dev = ()\<rparr>"

definition sample_property :: "nat \<Rightarrow> unit property" where
  "sample_property len = \<lparr>p_read = None, p_write = None, p_read_alias = False, p_suglen = len, p_type = ePN_real\<rparr>"

definition sample_query :: "ft_format \<Rightarrow> int \<Rightarrow> nat \<Rightarrow> byte list \<Rightarrow> byte list \<Rightarrow> byte list \<Rightarrow> one_wire_query" where
  "sample_query f extension n buffer val array =
     \<lparr>owq_buffer = buffer, owq_size = length buffer, owq_offset = 0, owq_val = val, owq_length = 0, owq_array = array, owq_simul = False,
      owq_pn = \<lparr>cp_sn = [0x29, 1, 2, 3, 4, 5, 6, 7],
        cp_filetype = pins_filetype\<lparr>ft_form := f, ft_ag := Some \<lparr>ag_elements = n, ag_comb = ag_aggregate\<rparr>\<rparr>,
        cp_extension = extension, cp_alarm_dir = False, cp_uncached_dir = False, cp_connection = Some (0, bus_real), cp_bp = []\<rparr>\<rparr>"

lemmas sample_defs = sample_text_env_def sample_fs_env_def sample_fs_state_def sample_property_def sample_query_def

theorem value_text_roundtrip_witness:
  "\<exists>c q'. OWQ_parse_output sample_text_env (sample_property 12) (sample_query ft_integer 0 1 (replicate 12 0) [0xFB, 0xFF, 0xFF, 0xFF, 0, 0, 0, 0] []) = Some (int (length c), q')
    \<and> take (length c) (owq_buffer q') = c
    \<and> (\<exists>w'. OWQ_parse_input sample_text_env sample_fs_env (sample_property 12) (sample_query ft_integer 0 1 c (replicate 8 0) []) sample_fs_state = Some (0, w', sample_fs_state)
          \<and> OWQ_U w' = - 5)"
proof -
  let ?q = "sample_query ft_integer 0 1 (replicate 12 0) [0xFB, 0xFF, 0xFF, 0xFF, 0, 0, 0, 0] []"
  have u: "text_value ft_integer (OWQ_U ?q) = - 5" by (simp add: sample_query_def OWQ_U_def UT_uint32_def text_value_def flag_format_def)
  have "\<exists>c q'. OWQ_parse_output sample_text_env (sample_property 12) ?q = Some (int (length c), q') \<and> c \<noteq> [] \<and> length c \<le> 12
    \<and> owq_buffer q' = c @ drop (length c) (owq_buffer ?q)
    \<and> (\<forall>te env w st. owq_pn w = owq_pn ?q \<longrightarrow> owq_size w = length c \<longrightarrow> take (length c) (owq_buffer w) = c \<longrightarrow>
         OWQ_parse_input te env (sample_property 12) w st = Some (0, set_OWQ_U (text_value ft_integer (OWQ_U ?q)) w, st))"
    by (rule value_text_roundtrip)
      (simp_all add: sample_property_def sample_query_def EXTENSION_BYTE_def EXTENSION_ALL_def text_format_def)
  then obtain c q' where "OWQ_parse_output sample_text_env (sample_property 12) ?q = Some (int (length c), q')"
    "owq_buffer q' = c @ drop (length c) (owq_buffer ?q)"
    and r: "\<forall>te env w st. owq_pn w = owq_pn ?q \<longrightarrow> owq_size w = length c \<longrightarrow> take (length c) (owq_buffer w) = c \<longrightarrow>
         OWQ_parse_input te env (sample_property 12) w st = Some (0, set_OWQ_U (text_value ft_integer (OWQ_U ?q)) w, st)" by blast
  moreover from r have "OWQ_parse_input sample_text_env sample_fs_env (sample_property 12) (sample_query ft_integer 0 1 c (replicate 8 0) []) sample_fs_state
      = Some (0, set_OWQ_U (- 5) (sample_query ft_integer 0 1 c (replicate 8 0) []), sample_fs_state)"
    unfolding u by (auto simp: sample_query_def)
  ultimately show ?thesis by auto
qed

text \<open>The numbers 1, 200 and 7.\<close>

theorem array_text_roundtrip_witness:
  "\<exists>c q'. OWQ_parse_output sample_text_env (sample_property 12)
      (sample_query ft_unsigned EXTENSION_ALL 3 (replicate 40 0) [] (concat [[1, 0, 0, 0, 0, 0, 0, 0], [200, 0, 0, 0, 0, 0, 0, 0], [7, 0, 0, 0, 0, 0, 0, 0]])) = Some (int (length c), q')
    \<and> take (length c) (owq_buffer q') = c
    \<and> (\<exists>ws w' st'. OWQ_parse_input sample_text_env sample_fs_env (sample_property 12) (sample_query ft_unsigned EXTENSION_ALL 3 c [] (replicate 24 0)) sample_fs_state
          = Some (0, w', st') \<and> owq_array w' = concat ws \<and> map UT_uint32 ws = [1, 200, 7])"
proof -
  let ?vs = "[[1, 0, 0, 0, 0, 0, 0, 0], [200, 0, 0, 0, 0, 0, 0, 0], [7, 0, 0, 0, 0, 0, 0, 0]] :: byte list list"
  let ?q = "sample_query ft_unsigned EXTENSION_ALL 3 (replicate 40 0) [] (concat ?vs)"
  let ?w = "\<lambda>c. sample_query ft_unsigned EXTENSION_ALL 3 c [] (replicate 24 0)"
  have u: "map (\<lambda>v. text_value ft_unsigned (UT_uint32 v)) ?vs = [1, 200, 7]" by (simp add: UT_uint32_def text_value_def flag_format_def)
  have "\<exists>c. OWQ_parse_output sample_text_env (sample_property 12) ?q = Some (int (length c), ?q\<lparr>owq_buffer := c @ drop (length c) (owq_buffer ?q)\<rparr>)
    \<and> (\<forall>te env w st. (\<forall>k. e_alloc env k) \<longrightarrow> owq_pn w = owq_pn ?q \<longrightarrow> owq_offset w = 0 \<longrightarrow> owq_size w = length c \<longrightarrow>
         take (length c) (owq_buffer w) = c \<longrightarrow> length (owq_array w) = 3 * sizeof_value_object \<longrightarrow>
         (\<exists>ws m. OWQ_parse_input te env (sample_property 12) w st = Some (0, w\<lparr>owq_array := concat ws\<rparr>, st\<lparr>fs_allocs := m\<rparr>) \<and> objects ws
            \<and> map UT_uint32 ws = map (\<lambda>v. text_value ft_unsigned (UT_uint32 v)) ?vs))"
    using array_text_roundtrip [of ?q "sample_property 12" "\<lparr>ag_elements = 3, ag_comb = ag_aggregate\<rparr>" ?vs sample_text_env]
    by (simp add: sample_property_def sample_query_def text_format_def sizeof_value_object_def)
  then obtain c where c: "OWQ_parse_output sample_text_env (sample_property 12) ?q = Some (int (length c), ?q\<lparr>owq_buffer := c @ drop (length c) (owq_buffer ?q)\<rparr>)"
    and r: "\<And>te env w st. (\<forall>k. e_alloc env k) \<longrightarrow> owq_pn w = owq_pn ?q \<longrightarrow> owq_offset w = 0 \<longrightarrow> owq_size w = length c \<longrightarrow>
         take (length c) (owq_buffer w) = c \<longrightarrow> length (owq_array w) = 3 * sizeof_value_object \<longrightarrow>
         (\<exists>ws m. OWQ_parse_input te env (sample_property 12) w st = Some (0, w\<lparr>owq_array := concat ws\<rparr>, st\<lparr>fs_allocs := m\<rparr>) \<and> objects ws
            \<and> map UT_uint32 ws = [1, 200, 7])" unfolding u by blast
  have h: "e_alloc sample_fs_env k" "owq_pn (?w c) = owq_pn ?q" "owq_offset (?w c) = 0" "owq_size (?w c) = length c" "take (length c) (owq_buffer (?w c)) = c"
    "length (owq_array (?w c)) = 3 * sizeof_value_object" for k by (simp_all add: sample_fs_env_def sample_query_def sizeof_value_object_def)
  obtain ws m where "OWQ_parse_input sample_text_env sample_fs_env (sample_property 12) (?w c) sample_fs_state
      = Some (0, (?w c)\<lparr>owq_array := concat ws\<rparr>, sample_fs_state\<lparr>fs_allocs := m\<rparr>)" "map UT_uint32 ws = [1, 200, 7]"
    using r [of sample_fs_env "?w c" sample_text_env sample_fs_state, rule_format, OF h] by metis
  moreover from this have "owq_array ((?w c)\<lparr>owq_array := concat ws\<rparr>) = concat ws" by simp
  ultimately show ?thesis using c by (intro exI [of _ c] exI conjI) auto
qed

end
