(* ===== verification/OW_ValueStrings.thy ===== *)
theory OW_ValueStrings
  imports OW_ValueText
begin

text \<open>
  Arrays of strings as text, and the bounds that formatting keeps. The strings of an array stand one after the other in the buffer, their
  lengths in the array; as text they are separated by commas.
\<close>

section \<open>Lengths in the array\<close>

lemma length_size_bytes [simp]: "length (size_bytes n) = sizeof_value_object"
  by (simp add: size_bytes_def sizeof_value_object_def)

lemma foldr_digits:
  "foldr (\<lambda>b n. unat (b :: byte) + 256 * n) (map (\<lambda>i. word_of_nat (m div 256 ^ i)) [0..<k]) 0 = m mod 256 ^ k"
proof (induction k arbitrary: m)
  case (Suc k)
  have "[0..<Suc k] = 0 # map Suc [0..<k]" by (simp add: map_Suc_upt upt_conv_Cons)
  then have "map (\<lambda>i. word_of_nat (m div 256 ^ i) :: byte) [0..<Suc k] = word_of_nat m # map (\<lambda>i. word_of_nat ((m div 256) div 256 ^ i)) [0..<k]"
    by (simp add: div_mult2_eq)
  then have "foldr (\<lambda>b n. unat (b :: byte) + 256 * n) (map (\<lambda>i. word_of_nat (m div 256 ^ i)) [0..<Suc k]) 0
      = m mod 256 + 256 * (m div 256 mod 256 ^ k)"
    using Suc [of "m div 256"] by (simp add: unat_of_nat take_bit_eq_mod)
  then show ?case by (simp add: mod_mult2_eq)
qed simp

lemma bytes_size_size_bytes [simp]: "n < 2 ^ 64 \<Longrightarrow> bytes_size (size_bytes n) = n"
  using foldr_digits [of n 8] by (simp add: bytes_size_def size_bytes_def)

section \<open>Reading strings separated by commas\<close>

lemma commas_Cons: "ts \<noteq> [] \<Longrightarrow> commas (t # ts) = t @ 44 # commas ts"
  by (cases ts) auto

lemma input_strings:
  assumes "ts \<noteq> []" and "k + length ts = n" and "owq_buffer q = front @ commas ts @ junk" and "pos = length front"
    and "end_pos = pos + length (commas ts)" and "\<forall>t \<in> set (butlast ts). 44 \<notin> set t"
    and "owq_array q = concat vs" and "objects vs" and "length vs = n"
  shows "\<exists>junk'. input_ascii_loop suglen n [k..<n] pos end_pos q =
      Some (0, q\<lparr>owq_buffer := front @ concat (map (take suglen) ts) @ junk',
                 owq_array := concat (take k vs @ map (\<lambda>t. size_bytes (min (length t) suglen)) ts)\<rparr>)
    \<and> length (concat (map (take suglen) ts) @ junk') = length (commas ts @ junk)"
  using assms
proof (induction ts arbitrary: k q front junk pos end_pos vs)
  case (Cons t ts)
  let ?sz = "size_bytes (min (length t) suglen)" let ?vs = "vs[k := ?sz]"
  have k: "k < n" "[k..<n] = k # [Suc k..<n]" using Cons.prems(2) by (simp_all add: upt_conv_Cons)
  have set_len: "set_array_val k ?sz q = Some (q\<lparr>owq_array := concat ?vs\<rparr>)"
    using set_array_val_concat [OF Cons.prems(7,8)] Cons.prems(9) k(1) by simp
  have objs: "objects ?vs" using Cons.prems(8) set_update_subset_insert [of vs k ?sz] by auto
  have tk: "take (Suc k) ?vs = take k vs @ [?sz]" using Cons.prems(9) k(1) by (simp add: take_Suc_conv_app_nth)
  show ?case
  proof (cases "ts = []")
    case True
    then have "n = Suc k" using Cons.prems(2) by simp
    moreover from this have "?vs = take k vs @ [?sz]" using tk Cons.prems(9) by simp
    ultimately show ?thesis using True k(2) set_len Cons.prems(3-5)
      by (intro exI [of _ "drop suglen t @ junk"]) (simp add: append_assoc [symmetric] del: append_assoc)
  next
    case False
    let ?t = "take suglen t" let ?pos = "pos + length ?t"
    let ?junk = "drop (length ?t + length (commas ts)) (t @ 44 # commas ts @ junk)"
    let ?q = "q\<lparr>owq_array := concat ?vs, owq_buffer := (front @ ?t) @ commas ts @ ?junk\<rparr>"
    have cs: "commas (t # ts) = t @ 44 # commas ts" by (rule commas_Cons [OF False])
    have buf: "owq_buffer q = front @ t @ 44 # commas ts @ junk" "end_pos = pos + (length t + Suc (length (commas ts)))"
      using Cons.prems(3,5) unfolding cs by simp_all
    have "find_comma (take (end_pos - pos) (drop pos (owq_buffer q))) = Some (length t)"
      using Cons.prems(4,6) False find_comma_first [of t] by (simp add: buf)
    moreover have "blk_store (pos + min (length t) suglen) (take (end_pos - (pos + length t) - 1) (drop (pos + length t + 1) (owq_buffer q))) (owq_buffer q)
      = Some ((front @ ?t) @ commas ts @ ?junk)"
      using Cons.prems(4) by (simp add: buf blk_store_def min_def)
    moreover have "Suc k \<noteq> n" using Cons.prems(2) False by auto
    ultimately have step: "input_ascii_loop suglen n [k..<n] pos end_pos q = input_ascii_loop suglen n [Suc k..<n] ?pos (?pos + length (commas ts)) ?q"
      unfolding k(2) using set_len by (simp add: Let_def buf(2) min.commute add.commute add.left_commute)
    have a: "Suc k + length ts = n" and b: "?pos = length (front @ ?t)" and c: "\<forall>t \<in> set (butlast ts). 44 \<notin> set t" and d: "length ?vs = n"
      using Cons.prems(2,4,6,9) False by simp_all
    have "\<exists>junk'. input_ascii_loop suglen n [Suc k..<n] ?pos (?pos + length (commas ts)) ?q =
      Some (0, ?q\<lparr>owq_buffer := (front @ ?t) @ concat (map (take suglen) ts) @ junk',
                 owq_array := concat (take (Suc k) ?vs @ map (\<lambda>t. size_bytes (min (length t) suglen)) ts)\<rparr>)
      \<and> length (concat (map (take suglen) ts) @ junk') = length (commas ts @ ?junk)"
      by (rule Cons.IH [OF False a _ b refl c _ objs d]) simp_all
    then obtain junk' where junk': "input_ascii_loop suglen n [Suc k..<n] ?pos (?pos + length (commas ts)) ?q =
      Some (0, ?q\<lparr>owq_buffer := (front @ ?t) @ concat (map (take suglen) ts) @ junk',
                 owq_array := concat (take (Suc k) ?vs @ map (\<lambda>t. size_bytes (min (length t) suglen)) ts)\<rparr>)"
      "length (concat (map (take suglen) ts) @ junk') = length (commas ts @ ?junk)" by blast
    have "length ?t + length (commas ts @ ?junk) = length (t @ 44 # commas ts @ junk)"
      by (simp only: length_append length_drop length_take length_Cons)
    moreover have "length (concat (map (take suglen) (t # ts)) @ junk') = length ?t + length (concat (map (take suglen) ts) @ junk')" by simp
    ultimately have "length (concat (map (take suglen) (t # ts)) @ junk') = length (commas (t # ts) @ junk)"
      by (simp only: junk'(2) cs append_assoc append_Cons)
    then show ?thesis using step junk'(1) tk by (intro exI [of _ junk']) (simp del: commas.simps length_append)
  qed
qed simp

section \<open>Printing strings separated by commas\<close>

lemma total_length_sum:
  "\<forall>i \<in> set is. OWQ_array_length q i = Some (len i) \<Longrightarrow> total_length q is = Some (sum_list (map len is))"
  by (induction "is") auto

text \<open>The commas go in when there is room for them, and the code does not look whether there is.\<close>

lemma insert_commas_moves:
  assumes "map (OWQ_array_length q) is = map (Some \<circ> length) ts" and "b = front @ concat ts @ junk"
    and "offset = length front" and "tot = offset + length (concat ts)"
  shows "insert_commas q is offset tot b =
    (if length ts \<le> length junk then Some (tot + length ts, front @ comma_tail ts @ drop (length ts) junk) else None)"
  using assms
proof (induction "is" arbitrary: ts b front junk offset tot)
  case (Cons i "is")
  then obtain t ts' where ts: "ts = t # ts'" and i: "OWQ_array_length q i = Some (length t)" by (cases ts) auto
  show ?case
  proof (cases junk)
    case Nil
    then show ?thesis using Cons.prems(2-4) by (simp add: ts blk_store_def)
  next
    case (Cons x junk')
    let ?y = "hd (t @ concat ts' @ x # junk')"
    have "take (Suc 0) (t @ concat ts' @ x # junk') = [?y]" by (cases "t @ concat ts' @ x # junk'") auto
    moreover have "take (Suc (length front)) (front @ t @ concat ts' @ x # junk') = front @ take (Suc 0) (t @ concat ts' @ x # junk')"
      by (simp only: take_append) simp
    ultimately have "take (Suc (length front)) (front @ t @ concat ts' @ x # junk') = front @ [?y]" by simp
    then have "blk_store (offset + 1) (take (tot - offset) (drop offset b)) b = Some (front @ ?y # t @ concat ts' @ junk')"
      using Cons.prems(2-4) unfolding blk_store_def by (simp only: ts Cons) simp
    moreover have "blk_store offset [44] (front @ ?y # t @ concat ts' @ junk') = Some ((front @ 44 # t) @ concat ts' @ junk')"
      using Cons.prems(3) by (simp add: blk_store_def)
    ultimately have "insert_commas q (i # is) offset tot b = insert_commas q is (offset + 1 + length t) (tot + 1) ((front @ 44 # t) @ concat ts' @ junk')"
      using Cons.prems(2-4) i by (simp add: ts Cons blk_store_def)
    also have "\<dots> = (if length ts' \<le> length junk' then Some (tot + 1 + length ts', (front @ 44 # t) @ comma_tail ts' @ drop (length ts') junk') else None)"
      using Cons.prems(1,3,4) by (intro Cons.IH) (simp_all add: ts)
    finally show ?thesis by (simp add: ts Cons)
  qed
qed simp

lemma map_nth_lengths: "map (\<lambda>i. length (xs ! i)) [0..<length xs] = map length xs"
  by (intro nth_equalityI) simp_all

lemma length_commas: "length (commas (t # ts)) = length (concat (t # ts)) + length ts"
  by (induction ts) auto

lemma length_cut: "length (concat (map (take n) ts)) \<le> length (concat ts)"
  by (induction ts) auto

lemma output_strings:
  assumes "elements_of q = Some (length (t # ts))" and "map (OWQ_array_length q) [0..<length (t # ts)] = map (Some \<circ> length) (t # ts)"
    and "owq_buffer q = t @ concat ts @ junk"
  shows "OWQ_parse_output_ascii_array q =
    (if length ts \<le> length junk then Some (int (length (commas (t # ts))), q\<lparr>owq_buffer := commas (t # ts) @ drop (length ts) junk\<rparr>) else None)"
proof -
  have upt: "[0..<length (t # ts)] = 0 # [1..<length (t # ts)]" by (simp add: upt_conv_Cons del: upt_Suc)
  have lens: "OWQ_array_length q 0 = Some (length t)" "map (OWQ_array_length q) [1..<length (t # ts)] = map (Some \<circ> length) ts"
    using assms(2) unfolding upt by simp_all
  have "\<forall>i \<in> set [0..<length (t # ts)]. OWQ_array_length q i = Some (length ((t # ts) ! i))"
    using assms(2) by (metis (no_types, lifting) atLeastLessThan_upt add_0 atLeastLessThan_iff comp_apply length_upt diff_zero nth_map nth_upt)
  then have "total_length q [0..<length (t # ts)] = Some (sum_list (map (\<lambda>i. length ((t # ts) ! i)) [0..<length (t # ts)]))"
    by (rule total_length_sum)
  also have "map (\<lambda>i. length ((t # ts) ! i)) [0..<length (t # ts)] = map length (t # ts)" by (rule map_nth_lengths)
  finally have tot: "total_length q [0..<length (t # ts)] = Some (length t + length (concat ts))" by (simp add: length_concat)
  show ?thesis
    using assms(1) lens tot length_commas [of t ts] insert_commas_moves [OF lens(2) assms(3) refl refl]
    by (simp add: OWQ_parse_output_ascii_array_def del: upt_Suc)
qed

lemma array_lengths:
  assumes "owq_array q = concat (map (\<lambda>t. size_bytes (len t)) ts)" and "\<forall>t \<in> set ts. len t < 2 ^ 64"
  shows "map (OWQ_array_length q) [0..<length ts] = map (Some \<circ> len) ts"
proof (intro nth_equalityI, simp)
  fix i assume "i < length (map (OWQ_array_length q) [0..<length ts])"
  then have i: "i < length ts" by simp
  have "OWQ_array_val q i = Some (map (\<lambda>t. size_bytes (len t)) ts ! i)" by (rule OWQ_array_val_concat [OF assms(1)]) (use i in auto)
  then show "map (OWQ_array_length q) [0..<length ts] ! i = map (Some \<circ> len) ts ! i" using i assms(2) by (simp add: OWQ_array_length_def)
qed

text \<open>C26: a text of strings separated by commas is taken apart and put together again, each string cut to the length the property has.\<close>

theorem string_array_roundtrip:
  assumes "ft_form (owq_ft q) \<in> {ft_ascii, ft_vascii, ft_alias}" and "owq_extension q = EXTENSION_ALL" and "p_type p \<noteq> ePN_structure"
    and "ft_ag (owq_ft q) = Some ag" and "length ts = ag_elements ag" and "ts \<noteq> []" and "\<forall>t \<in> set (butlast ts). 44 \<notin> set t"
    and "owq_offset q = 0" and "owq_size q = length (commas ts)" and "take (owq_size q) (owq_buffer q) = commas ts"
    and "length (owq_array q) = ag_elements ag * sizeof_value_object" and "length (owq_buffer q) < 2 ^ 64"
  shows "\<exists>q' q''. OWQ_parse_input te env p q st = Some (0, q', st)
    \<and> take (length (concat (map (take (p_suglen p)) ts))) (owq_buffer q') = concat (map (take (p_suglen p)) ts)
    \<and> map (OWQ_array_length q') [0..<ag_elements ag] = map (\<lambda>t. Some (min (length t) (p_suglen p))) ts
    \<and> OWQ_parse_output te p q' = Some (int (length (commas (map (take (p_suglen p)) ts))), q'')
    \<and> take (length (commas (map (take (p_suglen p)) ts))) (owq_buffer q'') = commas (map (take (p_suglen p)) ts)
    \<and> length (owq_buffer q'') = length (owq_buffer q)"
proof -
  let ?n = "ag_elements ag" let ?s = "p_suglen p" let ?us = "map (take ?s) ts"
  obtain vs where vs: "owq_array q = concat vs" "objects vs" "length vs = ?n" using values_of_array [OF assms(11)] by blast
  have sz: "owq_size q \<le> length (owq_buffer q)" using arg_cong [OF assms(10), of length] assms(9) by simp
  have buf: "owq_buffer q = [] @ commas ts @ drop (owq_size q) (owq_buffer q)" using assms(10) by (metis append_Nil append_take_drop_id)
  have "\<exists>junk. input_ascii_loop ?s ?n [0..<?n] 0 (owq_size q) q =
      Some (0, q\<lparr>owq_buffer := [] @ concat ?us @ junk, owq_array := concat (take 0 vs @ map (\<lambda>t. size_bytes (min (length t) ?s)) ts)\<rparr>)
    \<and> length (concat ?us @ junk) = length (commas ts @ drop (owq_size q) (owq_buffer q))"
    using assms(5-7,9) by (intro input_strings [OF _ _ buf _ _ _ vs]) simp_all
  then obtain junk where inp: "input_ascii_loop ?s ?n [0..<?n] 0 (owq_size q) q =
      Some (0, q\<lparr>owq_buffer := concat ?us @ junk, owq_array := concat (map (\<lambda>t. size_bytes (min (length t) ?s)) ts)\<rparr>)"
    and junk: "length (concat ?us @ junk) = length (owq_buffer q)" using assms(9) sz by auto
  let ?q = "q\<lparr>owq_buffer := concat ?us @ junk, owq_array := concat (map (\<lambda>t. size_bytes (min (length t) ?s)) ts)\<rparr>"
  have in0: "OWQ_parse_input te env p q st = Some (0, ?q, st)"
    using assms(1,2,4,8) sz inp by (auto simp: OWQ_parse_input_def FS_input_ascii_array_def elements_of_def EXTENSION_ALL_def EXTENSION_BYTE_def)
  have "min (length t) ?s < 2 ^ 64" if "t \<in> set ts" for t
  proof -
    have "length (take ?s t) \<le> length (concat ?us)" using that by (induction ts) auto
    then show ?thesis using junk assms(12) by simp
  qed
  then have lens: "map (OWQ_array_length ?q) [0..<length ts] = map (Some \<circ> (\<lambda>t. min (length t) ?s)) ts"
    by (intro array_lengths) simp_all
  obtain t us where us: "?us = t # us" using assms(6) by (cases ts) auto
  have n: "length ts = Suc (length us)" using arg_cong [OF us, of length] by simp
  have "length (commas ts) = length (concat ts) + length us" using assms(6) n length_commas by (cases ts) auto
  then have room: "length us \<le> length junk" using junk sz assms(9) length_cut [of ?s ts] by simp
  have "map (OWQ_array_length ?q) [0..<length (t # us)] = map (Some \<circ> length) (t # us)"
    using lens n unfolding us [symmetric] by (simp add: comp_def min.commute)
  then have "OWQ_parse_output_ascii_array ?q = Some (int (length (commas ?us)), ?q\<lparr>owq_buffer := commas ?us @ drop (length us) junk\<rparr>)"
    using output_strings [of ?q t us junk] assms(4,5) n room us by (simp add: elements_of_def)
  then have out: "OWQ_parse_output te p ?q = Some (int (length (commas ?us)), ?q\<lparr>owq_buffer := commas ?us @ drop (length us) junk\<rparr>)"
    using assms(1-3,8) by (auto simp: OWQ_parse_output_def past_end_def EXTENSION_ALL_def EXTENSION_BYTE_def)
  moreover have "length (commas ?us @ drop (length us) junk) = length (owq_buffer q)"
    using junk room length_commas [of t us] us by simp
  ultimately show ?thesis using in0 lens assms(5)
    by (intro exI [of _ ?q] exI [of _ "?q\<lparr>owq_buffer := commas ?us @ drop (length us) junk\<rparr>"]) (simp add: comp_def)
qed

text \<open>C40: printing an array of strings needs room for the commas and does not look for it.\<close>

theorem string_array_output_overflow:
  assumes "ft_form (owq_ft q) \<in> {ft_ascii, ft_vascii, ft_alias}" and "owq_extension q = EXTENSION_ALL" and "p_type p \<noteq> ePN_structure"
    and "ft_ag (owq_ft q) = Some ag" and "ag_elements ag = length ss" and "ss \<noteq> []" and "owq_offset q = 0"
    and "map (OWQ_array_length q) [0..<length ss] = map (Some \<circ> length) ss" and "owq_buffer q = concat ss @ junk"
  shows "OWQ_parse_output te p q =
    (if length (commas ss) \<le> length (owq_buffer q)
     then Some (int (length (commas ss)), q\<lparr>owq_buffer := commas ss @ drop (length (commas ss)) (owq_buffer q)\<rparr>) else None)"
proof -
  obtain t ts where ss: "ss = t # ts" using assms(6) by (cases ss) auto
  have "OWQ_parse_output te p q = OWQ_parse_output_ascii_array q"
    using assms(1-3,7) by (auto simp: OWQ_parse_output_def past_end_def EXTENSION_ALL_def EXTENSION_BYTE_def)
  moreover have "elements_of q = Some (length (t # ts))" using assms(4,5) ss by (simp add: elements_of_def)
  ultimately show ?thesis
    using output_strings [of q t ts junk] assms(8,9) length_commas [of t ts] by (simp add: ss del: commas.simps upt_Suc)
qed

section \<open>Bounds of formatting\<close>

definition within_size :: "one_wire_query \<Rightarrow> (int \<times> one_wire_query) option \<Rightarrow> bool" where
  "within_size q r \<longleftrightarrow>
     (\<exists>ret q'. r = Some (ret, q') \<and> ret \<le> int (owq_size q) \<and> length (owq_buffer q') = length (owq_buffer q)
        \<and> drop (owq_size q) (owq_buffer q') = drop (owq_size q) (owq_buffer q))"

lemma within_size_error [simp]: "ret \<le> 0 \<Longrightarrow> within_size q (Some (ret, q))"
  by (auto simp: within_size_def)

lemma OWQ_parse_output_offset_and_size_within:
  "0 \<le> owq_offset q \<Longrightarrow> owq_size q \<le> length (owq_buffer q) \<Longrightarrow> within_size q (OWQ_parse_output_offset_and_size c q)"
  by (auto simp: OWQ_parse_output_offset_and_size_def within_size_def blk_store_def Let_def min_def)

lemma output_number_within:
  "0 \<le> owq_offset q \<Longrightarrow> owq_size q \<le> length (owq_buffer q) \<Longrightarrow> within_size q (output_number w c q)"
  using OWQ_parse_output_offset_and_size_within by (auto simp: output_number_def EMSGSIZE_def)

lemma OWQ_parse_output_single_within:
  assumes "0 \<le> owq_offset q" and "owq_size q \<le> length (owq_buffer q)" and "string_format (ft_form (owq_ft q)) \<Longrightarrow> owq_length q \<le> owq_size q"
  shows "within_size q (OWQ_parse_output_single te q)"
proof -
  have "within_size q (OWQ_parse_output_yesno q)"
    using assms(2) by (auto simp: OWQ_parse_output_yesno_def within_size_def blk_store_def property_lengths EMSGSIZE_def drop_Cons')
  moreover have "within_size q (OWQ_parse_output_ascii q)" if "string_format (ft_form (owq_ft q))"
    using assms(3) that by (simp add: OWQ_parse_output_ascii_def within_size_def)
  moreover have "within_size q (OWQ_parse_output_date te q)"
    using OWQ_parse_output_offset_and_size_within [OF assms(1,2)] by (simp add: OWQ_parse_output_date_def EMSGSIZE_def)
  ultimately show ?thesis
    using output_number_within [OF assms(1,2)]
    by (simp add: OWQ_parse_output_single_def OWQ_parse_output_integer_def OWQ_parse_output_unsigned_def OWQ_parse_output_float_def Let_def ENOENT_def)
qed

lemma output_commas_within:
  assumes "0 \<le> owq_offset q" and "used + remaining = sz" and "sz \<le> length (owq_buffer q)" and "\<not> string_format (ft_form (owq_ft q))"
    and "\<forall>i \<in> set es. OWQ_array_val q i \<noteq> None"
  shows "within_size (q\<lparr>owq_size := sz\<rparr>) (output_commas_loop te p es used remaining q)"
  using assms
proof (induction es arbitrary: q used remaining)
  case Nil
  then show ?case by (simp add: within_size_def)
next
  case (Cons i es)
  obtain v where v: "OWQ_array_val q i = Some v" using Cons.prems(5) by auto
  show ?case
  proof (cases "0 < used \<and> remaining = 0")
    case True
    then show ?thesis using v by (simp add: within_size_def EFAULT_def)
  next
    case False
    define used' where "used' = (if 0 < used then used + 1 else used)"
    define remaining' where "remaining' = (if 0 < used then remaining - 1 else remaining)"
    define b where "b = (if 0 < used then take used (owq_buffer q) @ 44 # drop (Suc used) (owq_buffer q) else owq_buffer q)"
    have u: "used' + remaining' = sz" using Cons.prems(2) False by (auto simp: used'_def remaining'_def)
    have b: "(if 0 < used then blk_store used [44] (owq_buffer q) else Some (owq_buffer q)) = Some b" "length b = length (owq_buffer q)"
      using Cons.prems(2,3) False by (auto simp: b_def blk_store_def)
    have bd: "drop sz b = drop sz (owq_buffer q)"
      using Cons.prems(2,3) False by (auto simp: b_def drop_Cons')
    let ?s = "set_extension (int i) (q\<lparr>owq_val := v, owq_buffer := drop used' b, owq_size := remaining'\<rparr>)"
    have "within_size ?s (if past_end p ?s then Some (0, ?s) else OWQ_parse_output_single te ?s)"
      using Cons.prems(1,3,4) u b(2) OWQ_parse_output_single_within [of ?s te] by simp
    then obtain len s' where s': "(if past_end p ?s then Some (0, ?s) else OWQ_parse_output_single te ?s) = Some (len, s')"
      "len \<le> int remaining'" "length (owq_buffer s') = length (drop used' b)" "drop remaining' (owq_buffer s') = drop remaining' (drop used' b)"
      by (auto simp: within_size_def)
    let ?q = "q\<lparr>owq_buffer := take used' b @ owq_buffer s'\<rparr>"
    have q: "length (owq_buffer ?q) = length (owq_buffer q)" "drop sz (owq_buffer ?q) = drop sz (owq_buffer q)"
      using s'(3,4) u b(2) bd Cons.prems(3) by (auto simp: add.commute)
    have step: "output_commas_loop te p (i # es) used remaining q =
      (if len < 0 then Some (len, ?q) else output_commas_loop te p es (used' + nat len) (remaining' - nat len) ?q)"
      using False v b(1) s'(1) by (auto simp: used'_def remaining'_def Let_def)
    show ?thesis
    proof (cases "len < 0")
      case True
      then show ?thesis using step q by (simp add: within_size_def)
    next
      case len: False
      have "within_size (?q\<lparr>owq_size := sz\<rparr>) (output_commas_loop te p es (used' + nat len) (remaining' - nat len) ?q)"
        using Cons.prems(1,3-5) s'(2) len u q(1) by (intro Cons.IH) auto
      then show ?thesis using step len q by (auto simp: within_size_def)
    qed
  qed
qed

text \<open>C27: formatting stays within the size the caller gave.\<close>

theorem output_within_size:
  assumes "0 \<le> owq_offset q" and "owq_size q \<le> length (owq_buffer q)"
    and "string_format (ft_form (owq_ft q)) \<or> p_type p = ePN_structure \<Longrightarrow> owq_length q \<le> owq_size q"
    and "owq_extension q = EXTENSION_ALL \<Longrightarrow> \<not> string_format (ft_form (owq_ft q))
      \<and> (\<exists>ag. ft_ag (owq_ft q) = Some ag \<and> ag_elements ag * sizeof_value_object \<le> length (owq_array q))"
  shows "\<exists>ret q'. OWQ_parse_output te p q = Some (ret, q') \<and> ret \<le> int (owq_size q) \<and> length (owq_buffer q') = length (owq_buffer q)
    \<and> drop (owq_size q) (owq_buffer q') = drop (owq_size q) (owq_buffer q)"
proof -
  have self: "q\<lparr>owq_size := owq_size q\<rparr> = q" by simp
  have arr: "within_size q (OWQ_parse_output_array_with_commas te p q)" if ext: "owq_extension q = EXTENSION_ALL"
  proof -
    obtain ag where ag: "ft_ag (owq_ft q) = Some ag" "ag_elements ag * sizeof_value_object \<le> length (owq_array q)" using assms(4) [OF ext] by blast
    have "\<forall>i \<in> set [0..<ag_elements ag]. OWQ_array_val q i \<noteq> None"
    proof
      fix i assume "i \<in> set [0..<ag_elements ag]"
      then have "(i + 1) * sizeof_value_object \<le> ag_elements ag * sizeof_value_object" by (intro mult_le_mono1) simp
      then show "OWQ_array_val q i \<noteq> None" using ag(2) by (simp add: OWQ_array_val_def)
    qed
    then have "within_size (q\<lparr>owq_size := owq_size q\<rparr>) (output_commas_loop te p [0..<ag_elements ag] 0 (owq_size q) q)"
      using assms(1,2) assms(4) [OF ext] by (intro output_commas_within) auto
    then show ?thesis using ag(1) self by (simp add: OWQ_parse_output_array_with_commas_def elements_of_def)
  qed
  have single: "within_size q (OWQ_parse_output_single te q)" using OWQ_parse_output_single_within [OF assms(1,2)] assms(3) by blast
  have uns: "within_size q (OWQ_parse_output_unsigned te q)"
    using output_number_within [OF assms(1,2)] by (simp add: OWQ_parse_output_unsigned_def Let_def)
  have str: "within_size q (OWQ_parse_output_ascii q)" if "p_type p = ePN_structure"
    using assms(3) that by (simp add: OWQ_parse_output_ascii_def within_size_def)
  have "within_size q (OWQ_parse_output te p q)"
    using arr single uns str assms(4) by (auto simp: OWQ_parse_output_def string_format_def)
  then show ?thesis by (simp add: within_size_def)
qed

section \<open>Instances\<close>

text \<open>Three strings of at most four bytes, the first of them cut.\<close>

theorem string_array_roundtrip_witness:
  "\<exists>q' q''. OWQ_parse_input sample_text_env sample_fs_env (sample_property 4) (sample_query ft_ascii EXTENSION_ALL 3 [72, 101, 108, 108, 111, 44, 44, 97, 44, 98] [] (replicate 24 0))
      sample_fs_state = Some (0, q', sample_fs_state)
    \<and> OWQ_parse_output sample_text_env (sample_property 4) q' = Some (9, q'') \<and> take 9 (owq_buffer q'') = [72, 101, 108, 108, 44, 44, 97, 44, 98]"
proof -
  let ?q = "sample_query ft_ascii EXTENSION_ALL 3 [72, 101, 108, 108, 111, 44, 44, 97, 44, 98] [] (replicate 24 0)"
  let ?ts = "[[72, 101, 108, 108, 111], [], [97, 44, 98]] :: byte list list"
  have cut: "p_suglen (sample_property 4) = 4" "commas (map (take 4) ?ts) = [72, 101, 108, 108, 44, 44, 97, 44, 98]" by (simp_all add: sample_property_def)
  obtain q' q'' where "OWQ_parse_input sample_text_env sample_fs_env (sample_property 4) ?q sample_fs_state = Some (0, q', sample_fs_state)"
    "OWQ_parse_output sample_text_env (sample_property 4) q' = Some (int (length (commas (map (take 4) ?ts))), q'')"
    "take (length (commas (map (take 4) ?ts))) (owq_buffer q'') = commas (map (take 4) ?ts)"
    using string_array_roundtrip [of ?q "sample_property 4" "\<lparr>ag_elements = 3, ag_comb = ag_aggregate\<rparr>" ?ts sample_text_env sample_fs_env sample_fs_state]
    unfolding cut(1) by (simp add: sample_query_def sample_property_def sizeof_value_object_def) blast
  then show ?thesis unfolding cut(2) by (intro exI conjI) (assumption, simp_all add: eval_nat_numeral)
qed

text \<open>Two strings fill the buffer: the comma between them does not fit.\<close>

theorem string_array_output_overflow_witness:
  "OWQ_parse_output sample_text_env (sample_property 4)
     (sample_query ft_ascii EXTENSION_ALL 2 [72, 101, 108, 111] [] (size_bytes 2 @ size_bytes 2)) = None"
proof -
  let ?q = "sample_query ft_ascii EXTENSION_ALL 2 [72, 101, 108, 111] [] (size_bytes 2 @ size_bytes 2)"
  have "map (OWQ_array_length ?q) [0..<length [[72, 101], [108, 111 :: byte]]] = map (Some \<circ> length) [[72, 101], [108, 111 :: byte]]"
    by (rule array_lengths) (simp_all add: sample_defs flip: numeral_2_eq_2)
  then show ?thesis
    using string_array_output_overflow [of ?q "sample_property 4" "\<lparr>ag_elements = 2, ag_comb = ag_aggregate\<rparr>" "[[72, 101], [108, 111]]" "[]" sample_text_env]
    by (simp add: sample_defs)
qed

text \<open>An array of two numbers in a buffer for three bytes: the rest of the memory is not touched.\<close>

theorem output_within_size_witness:
  "\<exists>ret q'. OWQ_parse_output sample_text_env (sample_property 12) ((sample_query ft_unsigned EXTENSION_ALL 2 (replicate 5 7) [] (replicate 16 1))\<lparr>owq_size := 3\<rparr>) = Some (ret, q')
    \<and> ret \<le> 3 \<and> drop 3 (owq_buffer q') = [7, 7]"
proof -
  let ?q = "(sample_query ft_unsigned EXTENSION_ALL 2 (replicate 5 7) [] (replicate 16 1))\<lparr>owq_size := 3\<rparr>"
  show ?thesis using output_within_size [of ?q "sample_property 12" sample_text_env]
    by (auto simp: sample_defs string_format_def sizeof_value_object_def eval_nat_numeral)
qed

end
