(* ===== verification/OW_Access.thy ===== *)
theory OW_Access
  imports OW_Presence OW_Locks OW_ValueStrings
begin

text \<open>
  Reading and writing a property by name: the upper halves of \<^verbatim>\<open>ow_read.c\<close> and \<^verbatim>\<open>ow_write.c\<close>. They choose between the kinds of
  directories and between local and remote buses, take the lock of the device, convert between text and values, and try up to three
  times, after looking for the device again. Here presence, locks, properties, cache and text come together.

  A remote server's answer is a parameter. Taking the lock of a device waits until it is free, so to one thread it succeeds unless there is
  no memory; its protocol is in \<open>OW_Locks\<close>. Times and the averages of the statistics are left out, the counts of tries are kept.
\<close>

section \<open>Names, environment and state\<close>

definition EROFS :: int where [errnos]: "EROFS = 30"
definition EISDIR :: int where [errnos]: "EISDIR = 21"
definition EADDRINUSE :: int where [errnos]: "EADDRINUSE = 98"
definition ECONNABORTED :: int where [errnos]: "ECONNABORTED = 103"

text \<open>The rest of a filetype: functions recognised by their address, and how the elements of an array are named.\<close>

record 'd file_property = "'d property" +
  p_write_alias :: bool
  p_external :: bool
  p_letters :: bool

record 'b access_env =
  ac_fs :: "'b world fs_env"
  ac_text :: text_env
  ac_ports :: "'b site list list"
  ac_threads :: threads
  ac_fuel :: nat
  ac_readonly :: bool
  ac_ServerRead :: "'b world driver"
  ac_ServerWrite :: "'b world driver"

text \<open>A name is the part that says where the property is; what the cache sees of it is in the query.\<close>

abbreviation name_of :: "presence_pn \<Rightarrow> one_wire_query \<Rightarrow> presence_pn" where
  "name_of pn q \<equiv> pn\<lparr>pp_cache := owq_pn q\<rparr>"

abbreviation renamed :: "presence_pn \<Rightarrow> one_wire_query \<Rightarrow> one_wire_query" where
  "renamed pn q \<equiv> q\<lparr>owq_pn := pp_cache pn\<rparr>"

type_synonym 'b access = "'b world fs_state \<Rightarrow> (int \<times> presence_pn \<times> one_wire_query \<times> 'b world fs_state) option"

abbreviation count_read :: "nat \<Rightarrow> 'b world fs_state \<Rightarrow> 'b world fs_state" where
  "count_read i st \<equiv> st\<lparr>fs_dev := (fs_dev st)\<lparr>w_read_tries := (w_read_tries (fs_dev st))(i := w_read_tries (fs_dev st) i + 1)\<rparr>\<rparr>"

abbreviation count_write :: "nat \<Rightarrow> 'b world fs_state \<Rightarrow> 'b world fs_state" where
  "count_write i st \<equiv> st\<lparr>fs_dev := (fs_dev st)\<lparr>w_write_tries := (w_write_tries (fs_dev st))(i := w_write_tries (fs_dev st) i + 1)\<rparr>\<rparr>"

text \<open>The connection that is selected.\<close>

definition selected_site :: "'b access_env \<Rightarrow> one_wire_query \<Rightarrow> 'b site option" where
  "selected_site ac q = Option.bind (cp_connection (owq_pn q)) (\<lambda>(i, _). find_connection_in (ac_ports ac) i)"

definition SelectedIsServer :: "'b access_env \<Rightarrow> one_wire_query \<Rightarrow> bool" where
  "SelectedIsServer ac q \<longleftrightarrow> (case selected_site ac q of None \<Rightarrow> False | Some s \<Rightarrow> BusIsServer s)"

definition test_selected :: "'b access_env \<Rightarrow> one_wire_query \<Rightarrow> 'b world fs_state \<Rightarrow> GOOD_OR_BAD \<times> 'b world fs_state" where
  "test_selected ac q st =
     (case selected_site ac q of
        None \<Rightarrow> (gbGOOD, st)
      | Some s \<Rightarrow> (case TestConnection s (w_bus (fs_dev st) (s_index s)) of (gb, c) \<Rightarrow> (gb, put_bus (s_index s) c st)))"

definition lock_name :: "'d file_property \<Rightarrow> presence_pn \<Rightarrow> one_wire_query \<Rightarrow> lock_pn" where
  "lock_name p pn q =
     \<lparr>lp_simultaneous = (pp_device pn = DeviceSimultaneous), lp_connected = (cp_connection (owq_pn q) \<noteq> None), lp_external = p_external p,
      lp_format = ft_form (owq_ft q), lp_change = ft_change (owq_ft q), lp_sn = cp_sn (owq_pn q)\<rparr>"

text \<open>\<^verbatim>\<open>DeviceLockGet\<close> as one thread sees it.\<close>

definition DeviceLockGet :: "'b access_env \<Rightarrow> 'b world file_property \<Rightarrow> presence_pn \<Rightarrow> one_wire_query \<Rightarrow> 'b world fs_state \<Rightarrow> int \<times> 'b world fs_state" where
  "DeviceLockGet ac p pn q st =
     (case DeviceLock_exempt (lock_name p pn q) of
        Some ret \<Rightarrow> (ret, st)
      | None \<Rightarrow> (case owmalloc (ac_fs ac) st of (ok, st) \<Rightarrow> (if ok then 0 else - ENOMEM, st)))"

section \<open>Reading\<close>

definition formatted :: "'b access_env \<Rightarrow> 'b world file_property \<Rightarrow> 'b world fs_result \<Rightarrow> 'b world fs_result" where
  "formatted ac p r =
     Option.bind r (\<lambda>(ret, q, st).
       if ret \<ge> 0 then map_option (\<lambda>(ret, q). (ret, q, st)) (OWQ_parse_output (ac_text ac) (property.truncate p) q) else Some (ret, q, st))"

definition FS_r_given_bus :: "'b access_env \<Rightarrow> 'b world file_property \<Rightarrow> presence_pn \<Rightarrow> one_wire_query \<Rightarrow> 'b world fs_state \<Rightarrow> 'b world fs_result" where
  "FS_r_given_bus ac p pn q st =
     (if KnownBus pn \<and> SelectedIsServer ac q then Some (ac_ServerRead ac q st)
      else
        (case DeviceLockGet ac p pn q st of (ret, st) \<Rightarrow>
           if ret = 0 then formatted ac p (FS_r_local (ac_fs ac) (property.truncate p) q st)
           else Some (- EADDRINUSE, q, st)))"

text \<open>The copy shares the buffer with the query.\<close>

definition FS_r_simultaneous :: "'b access_env \<Rightarrow> 'b world file_property \<Rightarrow> presence_pn \<Rightarrow> one_wire_query \<Rightarrow> 'b world fs_state \<Rightarrow> 'b world fs_result" where
  "FS_r_simultaneous ac p pn q st =
     (if SpecifiedBus pn then FS_r_given_bus ac p pn q st
      else
        (case SetKnownBus (ac_ports ac) 0 (name_of pn q) of (_, given) \<Rightarrow>
           map_option (\<lambda>(ret, copy, st). (ret, q\<lparr>owq_buffer := owq_buffer copy\<rparr>, st)) (FS_r_given_bus ac p given (renamed given q) st)))"

definition FS_read_distribute :: "'b access_env \<Rightarrow> 'b world file_property \<Rightarrow> presence_pn \<Rightarrow> one_wire_query \<Rightarrow> 'b world fs_state \<Rightarrow> 'b world fs_result" where
  "FS_read_distribute ac p pn q st =
     (if pp_device pn = DeviceSimultaneous then FS_r_simultaneous ac p pn q st else FS_r_given_bus ac p pn q st)"

text \<open>The second try, and the third when that fails too.\<close>

definition read_again :: "'b access_env \<Rightarrow> 'b world file_property \<Rightarrow> presence_pn \<Rightarrow> one_wire_query \<Rightarrow> 'b access" where
  "read_again ac p pn q st =
     Option.bind (FS_read_distribute ac p pn q st) (\<lambda>(ret, q, st).
       if ret < 0 then map_option (\<lambda>(ret, q, st). (ret, pn, q, st)) (FS_read_distribute ac p pn q (count_read 2 st))
       else Some (ret, pn, q, st))"

definition recheck :: "'b access_env \<Rightarrow> presence_pn \<Rightarrow> one_wire_query \<Rightarrow> 'b access" where
  "recheck ac pn q st =
     map_option (\<lambda>(i, pn, st). (i, pn, renamed pn q, st))
       (ReCheckPresence (ac_fs ac) (ac_fuel ac) (ac_ports ac) (ac_threads ac) (name_of pn q) st)"

definition FS_read_real :: "'b access_env \<Rightarrow> 'b world file_property \<Rightarrow> presence_pn \<Rightarrow> one_wire_query \<Rightarrow> 'b access" where
  "FS_read_real ac p pn q st =
     Option.bind (FS_read_distribute ac p pn q st) (\<lambda>(ret, q, st).
       if ret \<ge> 0 then Some (ret, pn, q, st)
       else
         let st = count_read 1 st in
         if SpecifiedBus pn then
           (case test_selected ac q st of (gb, st) \<Rightarrow> if BAD gb then Some (- ECONNABORTED, pn, q, st) else read_again ac p pn q st)
         else if SelectedIsServer ac q then
           Option.bind (selected_site ac q) (\<lambda>s.
           Option.bind (recheck ac pn q st) (\<lambda>(busloc, pn, q, st).
             if s_index s = busloc then Some (ret, pn, q, st)
             else if busloc < 0 then Some (- ENOENT, pn, q, st)
             else read_again ac p pn q st))
         else
           Option.bind (recheck ac pn q st) (\<lambda>(busloc, pn, q, st).
             if busloc < 0 then Some (- ENOENT, pn, q, st) else read_again ac p pn q st))"

section \<open>Reading what is not a chip\<close>

text \<open>\<^verbatim>\<open>%.6d\<close>: a sign and at least six digits.\<close>

definition six_digits :: "int \<Rightarrow> byte list" where
  "six_digits i = (let d = print_nat (nat \<bar>i\<bar>) in (if i < 0 then [45] else []) @ replicate (6 - length d) 48 @ d)"

definition format_char :: "ft_format \<Rightarrow> byte" where
  "format_char f =
     (case f of
        ft_directory \<Rightarrow> 68 | ft_subdir \<Rightarrow> 68 | ft_integer \<Rightarrow> 105 | ft_unsigned \<Rightarrow> 117 | ft_float \<Rightarrow> 102 | ft_alias \<Rightarrow> 108
      | ft_ascii \<Rightarrow> 97 | ft_vascii \<Rightarrow> 97 | ft_binary \<Rightarrow> 98 | ft_yesno \<Rightarrow> 121 | ft_bitfield \<Rightarrow> 121 | ft_date \<Rightarrow> 100
      | ft_temperature \<Rightarrow> 116 | ft_tempgap \<Rightarrow> 103 | ft_pressure \<Rightarrow> 112 | ft_unknown \<Rightarrow> 63)"

definition change_char :: "fc_change \<Rightarrow> byte" where
  "change_char c =
     (if c \<in> {fc_static, fc_subdir, fc_directory} then 102
      else if c \<in> {fc_stable, fc_persistent} then 115
      else if c = fc_second then 116
      else 118)"

definition structure_elements :: "'d file_property \<Rightarrow> filetype \<Rightarrow> int" where
  "structure_elements p ft =
     (case ft_ag ft of
        None \<Rightarrow> 1
      | Some ag \<Rightarrow> if ag_comb ag = ag_sparse then if p_letters p then - 1 else 0 else int (ag_elements ag))"

definition access_chars :: "'d file_property \<Rightarrow> byte list" where
  "access_chars p =
     (if p_read p = None then if p_write p = None then [111, 111] else [119, 111]
      else if p_write p = None then [114, 111] else [114, 119])"

definition structure_text :: "'d file_property \<Rightarrow> one_wire_query \<Rightarrow> nat \<Rightarrow> byte list" where
  "structure_text p q len =
     (let ft = owq_ft q; index_num = (if ft_ag ft = None then 0 else owq_extension q) in
      format_char (ft_form ft) # 44 # six_digits index_num @ [44] @ six_digits (structure_elements p ft) @ [44] @ access_chars p @ [44]
        @ six_digits (sint (word_of_nat len :: uint)) @ [44, change_char (ft_change ft), 44])"

definition FS_structure :: "'d file_property \<Rightarrow> one_wire_query \<Rightarrow> (int \<times> one_wire_query) option" where
  "FS_structure p q =
     Option.bind (FullFileLength ((property.truncate p)\<lparr>p_type := ePN_real\<rparr>) q) (\<lambda>len.
       let s = structure_text p q len in
       if length s > PROPERTY_LENGTH_STRUCTURE then Some (- EINVAL, q) else OWQ_format_output_offset_and_size s q)"

abbreviation on_selected :: "'b access_env \<Rightarrow> ('b connection_in \<Rightarrow> 'b connection_in) \<Rightarrow> one_wire_query \<Rightarrow> 'b world fs_state \<Rightarrow> 'b world fs_state option" where
  "on_selected ac f q st \<equiv> map_option (\<lambda>s. put_bus (s_index s) (f (w_bus (fs_dev st) (s_index s))) st) (selected_site ac q)"

text \<open>A call under the lock of the bus; \<^const>\<open>None\<close> when there is no bus.\<close>

definition with_bus_lock ::
  "'b access_env \<Rightarrow> one_wire_query \<Rightarrow> ('b world fs_state \<Rightarrow> 'b world fs_result) \<Rightarrow> 'b world fs_state \<Rightarrow> 'b world fs_result" where
  "with_bus_lock ac q f st =
     Option.bind (on_selected ac BUS_lock_in q st) (\<lambda>st.
     Option.bind (f st) (\<lambda>(ret, q', st). map_option (\<lambda>st. (ret, q', st)) (on_selected ac BUS_unlock_in q st)))"

definition FS_r_virtual :: "'b access_env \<Rightarrow> 'b world file_property \<Rightarrow> presence_pn \<Rightarrow> one_wire_query \<Rightarrow> 'b world fs_state \<Rightarrow> 'b world fs_result" where
  "FS_r_virtual ac p pn q st =
     (if pp_remote pn then Some (ac_ServerRead ac q st)
      else
        formatted ac p
          (if p_type p = ePN_structure then map_option (\<lambda>(ret, q). (ret, q, st)) (FS_structure p q)
           else if p_type p = ePN_interface then with_bus_lock ac q (FS_r_local (ac_fs ac) (property.truncate p) q) st
           else FS_r_local (ac_fs ac) (property.truncate p) q st))"

text \<open>\<open>has_file\<close>: device and filetype are known here.\<close>

definition FS_read_postparse :: "'b access_env \<Rightarrow> 'b world file_property \<Rightarrow> bool \<Rightarrow> presence_pn \<Rightarrow> one_wire_query \<Rightarrow> 'b access" where
  "FS_read_postparse ac p has_file pn q st =
     (let st = count_read 0 st; same = map_option (\<lambda>(ret, q, st). (ret, pn, q, st)) in
      if \<not> has_file then
        if KnownBus pn \<and> SelectedIsServer ac q then same (FS_r_given_bus ac p pn q st) else Some (- EISDIR, pn, q, st)
      else if p_type p = ePN_real then FS_read_real ac p pn q st
      else same (FS_r_virtual ac p pn q st))"

section \<open>Writing\<close>

definition FS_w_given_bus :: "'b access_env \<Rightarrow> 'b world file_property \<Rightarrow> presence_pn \<Rightarrow> one_wire_query \<Rightarrow> 'b world fs_state \<Rightarrow> 'b world fs_result" where
  "FS_w_given_bus ac p pn q st =
     (case test_selected ac q st of (gb, st) \<Rightarrow>
        if BAD gb then Some (- ECONNABORTED, q, st)
        else if KnownBus pn \<and> SelectedIsServer ac q then Some (ac_ServerWrite ac q st)
        else if p_type p = ePN_real then
          (case DeviceLockGet ac p pn q st of (ret, st) \<Rightarrow>
             if ret = 0 then FS_w_local (ac_fs ac) (property.truncate p) q st else Some (ret, q, st))
        else if p_type p = ePN_interface then with_bus_lock ac q (FS_w_local (ac_fs ac) (property.truncate p) q) st
        else FS_w_local (ac_fs ac) (property.truncate p) q st)"

definition FS_w_settings :: "'b access_env \<Rightarrow> 'b world file_property \<Rightarrow> presence_pn \<Rightarrow> one_wire_query \<Rightarrow> 'b world fs_state \<Rightarrow> 'b world fs_result" where
  "FS_w_settings ac p pn q st =
     (case test_selected ac q st of (gb, st) \<Rightarrow>
        if BAD gb then Some (- ECONNABORTED, q, st)
        else if KnownBus pn \<and> SelectedIsServer ac q then Some (ac_ServerWrite ac q st)
        else if cp_connection (owq_pn q) \<noteq> None then Some (- ENODEV, q, st)
        else FS_w_local (ac_fs ac) (property.truncate p) q st)"

definition FS_w_interface :: "'b access_env \<Rightarrow> 'b world file_property \<Rightarrow> presence_pn \<Rightarrow> one_wire_query \<Rightarrow> 'b world fs_state \<Rightarrow> 'b world fs_result" where
  "FS_w_interface ac p pn q st =
     (if cp_connection (owq_pn q) = None then Some (- ENODEV, q, st)
      else if pp_local pn then FS_w_local (ac_fs ac) (property.truncate p) q st
      else Some (ac_ServerWrite ac q st))"

text \<open>The threads of \<^verbatim>\<open>FS_w_simultaneous\<close>, in the order in which they come to the connections. Their results are not looked at.\<close>

fun simultaneous_writes ::
  "'b access_env \<Rightarrow> 'b world file_property \<Rightarrow> presence_pn \<Rightarrow> one_wire_query \<Rightarrow> int list \<Rightarrow> 'b world fs_state \<Rightarrow> 'b world fs_state option" where
  "simultaneous_writes ac p pn q [] st = Some st"
| "simultaneous_writes ac p pn q (i # is) st =
     (case SetKnownBus (ac_ports ac) i (name_of pn q) of (_, given) \<Rightarrow>
        Option.bind (FS_w_given_bus ac p given (renamed given q) st) (\<lambda>(_, _, st). simultaneous_writes ac p pn q is st))"

definition FS_w_simultaneous :: "'b access_env \<Rightarrow> 'b world file_property \<Rightarrow> presence_pn \<Rightarrow> one_wire_query \<Rightarrow> 'b world fs_state \<Rightarrow> 'b world fs_result" where
  "FS_w_simultaneous ac p pn q st =
     (if SpecifiedBus pn then FS_w_given_bus ac p pn q st
      else
        let th = ac_threads ac; reached = concat (reached_ports (th_port th) (th_conn th) 0 (ac_ports ac)) in
        map_option (\<lambda>st. (0, q, st)) (simultaneous_writes ac p pn q (th_order th (map s_index reached)) st))"

text \<open>The tries after the first one, on a bus that stays.\<close>

definition write_again :: "'b access_env \<Rightarrow> 'b world file_property \<Rightarrow> presence_pn \<Rightarrow> one_wire_query \<Rightarrow> 'b access" where
  "write_again ac p pn q st =
     Option.bind (FS_w_given_bus ac p pn q st) (\<lambda>(ret, q, st).
       if ret = 0 then Some (0, pn, q, st)
       else map_option (\<lambda>(ret, q, st). (ret, pn, q, st)) (FS_w_given_bus ac p pn q (count_write 2 st)))"

text \<open>\<open>left\<close> is two less \<^verbatim>\<open>depth\<close>. The connection is used before anything is tested, so a query without one has no result.\<close>

fun FS_write_real :: "'b access_env \<Rightarrow> 'b world file_property \<Rightarrow> nat \<Rightarrow> presence_pn \<Rightarrow> one_wire_query \<Rightarrow> 'b access" where
  "FS_write_real ac p left pn q st =
     Option.bind (selected_site ac q) (\<lambda>s.
       case left of
         0 \<Rightarrow> Some (- ENODEV, pn, q, st)
       | Suc left \<Rightarrow>
           if p_write_alias p then map_option (\<lambda>(ret, q, st). (ret, pn, q, st)) (FS_write_owq (ac_fs ac) (property.truncate p) q st)
           else if s_mode s \<in> {bus_mock, bus_fake, bus_tester} then
             map_option (\<lambda>st. (if p_write p = None then - ENOTSUP else 0, pn, q, st))
               (if s_mode s = bus_mock then cache_add (ac_fs ac) q st else Some st)
           else
             Option.bind (FS_w_given_bus ac p pn q (count_write 0 st)) (\<lambda>(ret, q, st).
               if ret = 0 then Some (0, pn, q, st)
               else
                 let st = count_write 1 st in
                 if SpecifiedBus pn then write_again ac p pn q st
                 else
                   Option.bind (recheck ac pn q st) (\<lambda>(rechecked, pn, q, st).
                     if rechecked < 0 then Some (- ENOENT, pn, q, st)
                     else if s_index s = rechecked then
                       if SelectedIsServer ac q then Some (ret, pn, q, st) else write_again ac p pn q (count_write 1 st)
                     else FS_write_real ac p left pn q st)))"

declare FS_write_real.simps [simp del]

definition FS_write_post_input :: "'b access_env \<Rightarrow> 'b world file_property \<Rightarrow> presence_pn \<Rightarrow> one_wire_query \<Rightarrow> 'b access" where
  "FS_write_post_input ac p pn q st =
     (let same = map_option (\<lambda>(ret, q, st). (ret, pn, q, st)) in
      if p_type p = ePN_settings then same (FS_w_settings ac p pn q st)
      else if p_type p = ePN_real then
        if pp_device pn = DeviceSimultaneous then same (FS_w_simultaneous ac p pn q st)
        else if cp_connection (owq_pn q) = None then Some (- ENODEV, pn, q, st)
        else FS_write_real ac p 2 pn q st
      else if p_type p = ePN_interface then same (FS_w_interface ac p pn q st)
      else Some (- ENOTSUP, pn, q, st))"

definition FS_write_post_stats :: "'b access_env \<Rightarrow> 'b world file_property \<Rightarrow> presence_pn \<Rightarrow> one_wire_query \<Rightarrow> 'b access" where
  "FS_write_post_stats ac p pn q st =
     Option.bind (OWQ_parse_input (ac_text ac) (ac_fs ac) (property.truncate p) q st) (\<lambda>(ret, q, st).
       if ret < 0 then Some (ret, pn, q, st) else FS_write_post_input ac p pn q st)"

definition FS_write_postparse :: "'b access_env \<Rightarrow> 'b world file_property \<Rightarrow> presence_pn \<Rightarrow> one_wire_query \<Rightarrow> 'b access" where
  "FS_write_postparse ac p pn q st =
     (if ac_readonly ac then Some (- EROFS, pn, q, st)
      else if IsDir (property.truncate p) q \<and> \<not> SelectedIsServer ac q then Some (- EISDIR, pn, q, st)
      else
        map_option (\<lambda>(ret, pn, q, st). (if ret = 0 then int (owq_size q) else ret, pn, q, st)) (FS_write_post_stats ac p pn q st))"

end
