(* ===== verification/OW_AccessText.thy ===== *)
theory OW_AccessText
  imports OW_Access
begin

text \<open>
  From text to device and back: what is written to a property of a chip as text is what a later read shows as text, through the
  conversions, the locks, the retries, the cache and the driver.
\<close>

section \<open>A property of a chip on a local bus\<close>

text \<open>A query for a single number, with room for its text.\<close>

definition text_room :: "ft_format \<Rightarrow> nat" where
  "text_room f = (if flag_format f then 1 else 12)"

definition text_query :: "byte list \<Rightarrow> filetype \<Rightarrow> int \<Rightarrow> one_wire_query \<Rightarrow> bool" where
  "text_query sn ft i q \<longleftrightarrow>
     query_for sn ft q \<and> cp_connection (owq_pn q) = Some (i, bus_real) \<and> owq_offset q = 0
   \<and> text_room (ft_form ft) \<le> owq_size q \<and> owq_size q \<le> length (owq_buffer q) \<and> owq_size q < 2 ^ 64"

text \<open>A driver for numbers has no business with the text of the query.\<close>

definition keeps_text :: "'d driver \<Rightarrow> bool" where
  "keeps_text rd \<longleftrightarrow>
     (\<forall>q st ret q' st'. rd q st = (ret, q', st') \<longrightarrow>
        owq_buffer q' = owq_buffer q \<and> owq_offset q' = owq_offset q \<and> owq_size q' = owq_size q)"

text \<open>Writing returns zero or an error, and leaves the value and the size in the query, for the next try.\<close>

definition keeps_value :: "'d driver \<Rightarrow> bool" where
  "keeps_value wr \<longleftrightarrow> (\<forall>q st ret q' st'. wr q st = (ret, q', st') \<longrightarrow> ret \<le> 0 \<and> owq_val q' = owq_val q \<and> owq_size q' = owq_size q)"

text \<open>The test of the connection, and the statistics, do not change the elements.\<close>

definition quiet :: "('b world \<Rightarrow> byte list list) \<Rightarrow> 'b site \<Rightarrow> bool" where
  "quiet elems s \<longleftrightarrow>
     (\<forall>w f. elems (w\<lparr>w_read_tries := f\<rparr>) = elems w) \<and> (\<forall>w f. elems (w\<lparr>w_write_tries := f\<rparr>) = elems w)
   \<and> (\<forall>w. elems (w\<lparr>w_bus := (w_bus w)(s_index s := snd (TestConnection s (w_bus w (s_index s))))\<rparr>) = elems w)"

text \<open>The property of a chip, on a bus that is named in the path.\<close>

definition chip_property ::
  "'b access_env \<Rightarrow> 'b world file_property \<Rightarrow> byte list \<Rightarrow> filetype \<Rightarrow> ('b world \<Rightarrow> byte list list) \<Rightarrow> int \<Rightarrow> presence_pn \<Rightarrow> bool" where
  "chip_property ac p sn ft elems i pn \<longleftrightarrow>
     plain_property ft \<and> ft_ag ft = None \<and> text_format (ft_form ft)
   \<and> p_type p = ePN_real \<and> \<not> p_read_alias p \<and> \<not> p_write_alias p
   \<and> (\<exists>rd. p_read p = Some rd \<and> reads sn ft elems rd \<and> keeps_text rd) \<and> (\<exists>wr. p_write p = Some wr \<and> writes sn ft elems wr \<and> keeps_value wr)
   \<and> (\<exists>s. find_connection_in (ac_ports ac) i = Some s \<and> s_index s = i \<and> s_mode s = bus_real \<and> \<not> BusIsServer s \<and> quiet elems s)
   \<and> SpecifiedBus pn \<and> pp_device pn = Device_chip \<and> \<not> ac_readonly ac"

lemma property_truncate_simps [simp]:
  "p_read (property.truncate p) = p_read p" "p_write (property.truncate p) = p_write p" "p_type (property.truncate p) = p_type p"
  "p_read_alias (property.truncate p) = p_read_alias p" "p_suglen (property.truncate p) = p_suglen p"
  by (simp_all add: property.truncate_def)

section \<open>Reading\<close>

lemma text_form: "text_format f \<Longrightarrow> number_format f \<Longrightarrow> f = ft_integer \<or> f = ft_unsigned \<or> f = ft_yesno"
  by (auto simp: text_format_def flag_format_def number_format_def)

lemma FileLength_text:
  assumes "text_format (ft_form (owq_ft q))" and "number_format (ft_form (owq_ft q))" and "p_type p = ePN_real"
  shows "FileLength p q = text_room (ft_form (owq_ft q))"
  using text_form [OF assms(1,2)] assms(3) by (auto simp: FileLength_def IsDir_def property_lengths text_room_def flag_format_def)

lemma adjust_text:
  assumes "plain_property ft" and "ft_ag ft = None" and "text_format (ft_form ft)" and "p_type p = ePN_real" and "text_query sn ft i q"
  shows "adjust_file_size p q = Some (q\<lparr>owq_size := text_room (ft_form ft)\<rparr>)"
proof -
  have q: "owq_ft q = ft" "owq_extension q = 0" "owq_offset q = 0" "text_room (ft_form ft) \<le> owq_size q" "owq_size q < 2 ^ 64"
    using assms(2,5) by (auto simp: text_query_def query_for_def extensions_def)
  have "FileLength p q = text_room (ft_form ft)" using FileLength_text [of q p] assms q(1) by (simp add: plain_property_def)
  then have "FullFileLength p q = Some (text_room (ft_form ft))" using q(2) by (simp add: FullFileLength_def EXTENSION_ALL_def Let_def)
  moreover have "0 < text_room (ft_form ft)" by (simp add: text_room_def)
  ultimately show ?thesis using q(3-5) by (cases "owq_size q = text_room (ft_form ft)") (auto simp: adjust_file_size_def size_t_def text_room_def)
qed

lemma FS_read_owq_keeps_text:
  assumes "number_format (ft_form (owq_ft q))" and "ft_change (owq_ft q) \<notin> {fc_simultaneous_temperature, fc_simultaneous_voltage}"
    and "p_read p = Some rd" and "keeps_text rd" and "FS_read_owq env p q st = Some (ret, q', st')"
  shows "owq_buffer q' = owq_buffer q \<and> owq_offset q' = owq_offset q \<and> owq_size q' = owq_size q"
proof -
  have get: "owq_buffer q1 = owq_buffer q \<and> owq_offset q1 = owq_offset q \<and> owq_size q1 = owq_size q" if "cache_get env q st = Some (gb, q1, st1)" for gb q1 st1
    using that assms(1,2)
    by (auto simp: cache_get_def OWQ_Cache_Get_def Let_def number_format_def string_format_def split: if_splits prod.splits option.splits)
  have drv: "rd q1 st1 = (ret, q2, st2) \<Longrightarrow> owq_buffer q2 = owq_buffer q1 \<and> owq_offset q2 = owq_offset q1 \<and> owq_size q2 = owq_size q1" for q1 st1 ret q2 st2
    using assms(4) unfolding keeps_text_def by blast
  show ?thesis using assms(3,5)
    by (auto simp: FS_read_owq_def split: option.splits if_splits prod.splits dest!: get drv)
qed

lemma FS_r_local_text:
  assumes rd: "reads sn ft elems rd" "p_read p = Some rd" "keeps_text rd" and st: "good_state env dur sn ft elems st"
    and ft: "plain_property ft" "ft_ag ft = None" "text_format (ft_form ft)" and p: "p_type p = ePN_real" "\<not> p_read_alias p" and q: "text_query sn ft i q"
  shows "\<exists>ret q' st'. FS_r_local env p q st = Some (ret, q', st') \<and> good_state env dur sn ft elems st' \<and> elems (fs_dev st') = elems (fs_dev st)
    \<and> text_query sn ft i q' \<and> owq_pn q' = owq_pn q \<and> owq_buffer q' = owq_buffer q \<and> owq_size q' = text_room (ft_form ft)
    \<and> (0 \<le> ret \<longrightarrow> owq_val q' = elems (fs_dev st) ! 0)"
proof -
  have qf: "query_for sn ft q" and conn: "cp_connection (owq_pn q) = Some (i, bus_real)" and qft: "owq_ft q = ft" "owq_extension q = 0"
    using q ft(2) by (auto simp: text_query_def query_for_def extensions_def)
  let ?q = "q\<lparr>owq_size := text_room (ft_form ft)\<rparr>"
  have "0 < text_room (ft_form ft)" by (simp add: text_room_def)
  then have run: "FS_r_local env p q st = FS_read_owq env p ?q st"
    using adjust_text [OF ft p(1) q] rd(2) p(2) ft(2) qft(1) conn by (auto simp: FS_r_local_def Let_def FS_r_virtual_adapter_def)
  obtain ret q' st' where r: "FS_r_local env p q st = Some (ret, q', st')" "good_state env dur sn ft elems st'"
    "elems (fs_dev st') = elems (fs_dev st)" "query_for sn ft q'" "owq_pn q' = owq_pn q"
    "0 \<le> ret \<and> 0 < owq_size q' \<longrightarrow> shown q' = element (elems (fs_dev st)) (owq_extension q)"
    using FS_r_local_outcome [OF rd(1,2) st ft(1) p qf] by blast
  have kept: "owq_buffer q' = owq_buffer q" "owq_offset q' = owq_offset q" "owq_size q' = text_room (ft_form ft)"
    using FS_read_owq_keeps_text [of ?q p rd env st ret q' st'] rd(2,3) r(1) run ft(1) qft(1) by (auto simp: plain_property_def)
  have "text_query sn ft i q'" using q r(4,5) kept conn by (auto simp: text_query_def)
  moreover have "0 \<le> ret \<longrightarrow> owq_val q' = elems (fs_dev st) ! 0"
    using r(5,6) kept(3) qft(2) \<open>0 < text_room (ft_form ft)\<close> by (auto simp: shown_def element_def EXTENSION_ALL_def)
  ultimately show ?thesis using r kept by blast
qed

lemma good_state_dev:
  "elems (fs_dev st') = elems (fs_dev st) \<Longrightarrow> fs_clock st' = fs_clock st \<Longrightarrow> fs_cache st' = fs_cache st \<Longrightarrow>
     good_state env dur sn ft elems st' = good_state env dur sn ft elems st"
  by (simp add: good_state_def)

lemma chip_site:
  assumes "chip_property ac p sn ft elems i pn" and "cp_connection (owq_pn q) = Some (i, bus_real)"
  shows "\<exists>s. selected_site ac q = Some s \<and> s_index s = i \<and> s_mode s = bus_real \<and> \<not> SelectedIsServer ac q \<and> quiet elems s"
  using assms by (auto simp: chip_property_def selected_site_def SelectedIsServer_def)

lemma DeviceLockGet_state:
  "\<exists>ret m. DeviceLockGet ac p pn q st = (ret, st\<lparr>fs_allocs := m\<rparr>) \<and> ret \<le> 0"
  by (auto simp: DeviceLockGet_def DeviceLock_exempt_def owmalloc_def ENOMEM_def EINVAL_def split: option.splits if_splits intro: exI [of _ "fs_allocs st"])

definition text_read :: "'b access_env \<Rightarrow> (tree_key \<Rightarrow> int) \<Rightarrow> byte list \<Rightarrow> filetype \<Rightarrow> ('b world \<Rightarrow> byte list list) \<Rightarrow> int \<Rightarrow> one_wire_query \<Rightarrow> 'b world fs_state \<Rightarrow>
    int \<times> one_wire_query \<times> 'b world fs_state \<Rightarrow> bool" where
  "text_read ac dur sn ft elems i q st r \<longleftrightarrow>
     (case r of (ret, q', st') \<Rightarrow>
        good_state (ac_fs ac) dur sn ft elems st' \<and> elems (fs_dev st') = elems (fs_dev st) \<and> owq_pn q' = owq_pn q
      \<and> (if ret < 0 then text_query sn ft i q' \<and> owq_buffer q' = owq_buffer q
         else let t = value_text (t_trim (ac_text ac)) (ft_form ft) (UT_uint32 (elems (fs_dev st) ! 0)) in
              ret = int (length t) \<and> owq_buffer q' = t @ drop (length t) (owq_buffer q)))"

lemma value_text_room: "text_format f \<Longrightarrow> length (value_text trim f u) \<le> text_room f"
  using value_text_length [of trim f u] by (simp add: text_room_def) (simp add: value_text_def)

lemma OWQ_parse_output_single_pn: "OWQ_parse_output_single te q = Some (ret, q') \<Longrightarrow> owq_pn q' = owq_pn q"
  by (auto simp: OWQ_parse_output_single_def OWQ_parse_output_integer_def OWQ_parse_output_unsigned_def OWQ_parse_output_float_def
      OWQ_parse_output_date_def OWQ_parse_output_yesno_def OWQ_parse_output_ascii_def output_number_def OWQ_parse_output_offset_and_size_def Let_def split: if_splits)

lemma FS_r_given_bus_text:
  assumes chip: "chip_property ac p sn ft elems i pn" and st: "good_state (ac_fs ac) dur sn ft elems st" and q: "text_query sn ft i q"
  shows "\<exists>r. FS_r_given_bus ac p pn q st = Some r \<and> text_read ac dur sn ft elems i q st r"
proof -
  have s: "\<not> SelectedIsServer ac q" using chip_site [OF chip] q by (auto simp: text_query_def)
  obtain ret m where lock: "DeviceLockGet ac p pn q st = (ret, st\<lparr>fs_allocs := m\<rparr>)" using DeviceLockGet_state by blast
  show ?thesis
  proof (cases "ret = 0")
    case False
    then have "FS_r_given_bus ac p pn q st = Some (- EADDRINUSE, q, st\<lparr>fs_allocs := m\<rparr>)" using s lock by (simp add: FS_r_given_bus_def)
    then show ?thesis using st q by (simp add: text_read_def EADDRINUSE_def)
  next
    case True
    obtain rd where rd: "p_read p = Some rd" "reads sn ft elems rd" "keeps_text rd" using chip by (auto simp: chip_property_def)
    have ft: "plain_property ft" "ft_ag ft = None" "text_format (ft_form ft)" "p_type p = ePN_real" "\<not> p_read_alias p" using chip by (auto simp: chip_property_def)
    obtain ret' q' st' where r: "FS_r_local (ac_fs ac) (property.truncate p) q (st\<lparr>fs_allocs := m\<rparr>) = Some (ret', q', st')"
      "good_state (ac_fs ac) dur sn ft elems st'" "elems (fs_dev st') = elems (fs_dev st)" "text_query sn ft i q'" "owq_pn q' = owq_pn q"
      "owq_buffer q' = owq_buffer q" "owq_size q' = text_room (ft_form ft)" "0 \<le> ret' \<longrightarrow> owq_val q' = elems (fs_dev st) ! 0"
      using FS_r_local_text [OF rd(2) _ rd(3), of "property.truncate p" "ac_fs ac" dur "st\<lparr>fs_allocs := m\<rparr>" i q] rd(1) st ft q by auto
    show ?thesis
    proof (cases "ret' < 0")
      case neg: True
      then have "FS_r_given_bus ac p pn q st = Some (ret', q', st')" using s lock True r(1) by (simp add: FS_r_given_bus_def formatted_def)
      then show ?thesis using r neg by (simp add: text_read_def)
    next
      case False
      let ?t = "value_text (t_trim (ac_text ac)) (ft_form ft) (OWQ_U q')"
      have q': "owq_ft q' = ft" "owq_extension q' = 0" "owq_offset q' = 0" "owq_size q' \<le> length (owq_buffer q')"
        using r(4) ft(2) by (auto simp: text_query_def query_for_def extensions_def)
      have "length ?t \<le> owq_size q'" using value_text_room [OF ft(3)] r(7) by simp
      then obtain q2 where out: "OWQ_parse_output_single (ac_text ac) q' = Some (int (length ?t), q2)" "owq_buffer q2 = ?t @ drop (length ?t) (owq_buffer q')"
        using OWQ_parse_output_value [OF ft(3), of q' ?t "ac_text ac"] q' by auto
      have "owq_pn q2 = owq_pn q'" by (rule OWQ_parse_output_single_pn [OF out(1)])
      moreover have "FS_r_given_bus ac p pn q st = Some (int (length ?t), q2, st')"
        using s lock True r(1) False out(1) q'(2,3) ft(4)
        by (simp add: FS_r_given_bus_def formatted_def OWQ_parse_output_def past_end_def EXTENSION_ALL_def EXTENSION_BYTE_def)
      moreover have "OWQ_U q' = UT_uint32 (elems (fs_dev st) ! 0)" using r(8) False by (simp add: OWQ_U_def)
      ultimately show ?thesis using r(2,3,5,6) out(2) by (simp add: text_read_def Let_def)
    qed
  qed
qed

lemma text_read_trans:
  assumes "text_read ac dur sn ft elems i q st (ret, q1, st1)" and "ret < 0"
    and "text_read ac dur sn ft elems i q1 st2 r" and "elems (fs_dev st2) = elems (fs_dev st1)"
  shows "text_read ac dur sn ft elems i q st r"
  using assms by (auto simp: text_read_def Let_def split: prod.splits if_splits)

lemma test_selected_quiet:
  assumes "chip_property ac p sn ft elems i pn" and "cp_connection (owq_pn q) = Some (i, bus_real)"
  shows "\<exists>gb st'. test_selected ac q st = (gb, st') \<and> elems (fs_dev st') = elems (fs_dev st) \<and> fs_clock st' = fs_clock st \<and> fs_cache st' = fs_cache st"
proof -
  obtain s where s: "selected_site ac q = Some s" "s_index s = i" "quiet elems s" using chip_site [OF assms] by blast
  have "elems ((fs_dev st)\<lparr>w_bus := (w_bus (fs_dev st))(s_index s := snd (TestConnection s (w_bus (fs_dev st) (s_index s))))\<rparr>) = elems (fs_dev st)"
    using s(3) unfolding quiet_def by blast
  then show ?thesis using s(1,2) by (simp add: test_selected_def split: prod.split) (metis snd_conv)
qed

lemma count_quiet:
  assumes "chip_property ac p sn ft elems i pn"
  shows "elems (w\<lparr>w_read_tries := f\<rparr>) = elems w" "elems (w\<lparr>w_write_tries := f\<rparr>) = elems w"
  using assms by (auto simp: chip_property_def quiet_def)

lemma FS_read_real_text:
  assumes chip: "chip_property ac p sn ft elems i pn" and st: "good_state (ac_fs ac) dur sn ft elems st" and q: "text_query sn ft i q"
  shows "\<exists>ret q' st'. FS_read_real ac p pn q st = Some (ret, pn, q', st') \<and> text_read ac dur sn ft elems i q st (ret, q', st')"
proof -
  note count = count_quiet [OF chip]
  have dist: "FS_read_distribute ac p pn = FS_r_given_bus ac p pn" and spec: "SpecifiedBus pn"
    using chip by (auto simp: chip_property_def FS_read_distribute_def fun_eq_iff)
  have try1: "\<exists>ret q' st'. FS_r_given_bus ac p pn q st = Some (ret, q', st') \<and> text_read ac dur sn ft elems i q st (ret, q', st')"
    if "good_state (ac_fs ac) dur sn ft elems st" "text_query sn ft i q" for q st
    using FS_r_given_bus_text [OF chip that] by auto
  obtain r1 q1 st1 where t1: "FS_r_given_bus ac p pn q st = Some (r1, q1, st1)" "text_read ac dur sn ft elems i q st (r1, q1, st1)" using try1 [OF st q] by blast
  show ?thesis
  proof (cases "r1 < 0")
    case False
    then show ?thesis using t1 by (simp add: FS_read_real_def dist)
  next
    case neg1: True
    have c1: "cp_connection (owq_pn q1) = Some (i, bus_real)" "good_state (ac_fs ac) dur sn ft elems st1" "text_query sn ft i q1"
      using t1(2) neg1 q by (auto simp: text_read_def text_query_def)
    obtain gb st2 where t2: "test_selected ac q1 (count_read 1 st1) = (gb, st2)" "elems (fs_dev st2) = elems (fs_dev st1)" "fs_clock st2 = fs_clock st1" "fs_cache st2 = fs_cache st1"
      using test_selected_quiet [OF chip c1(1), of "count_read 1 st1"] by (auto simp: count(1))
    have good2: "good_state (ac_fs ac) dur sn ft elems st2" using good_state_dev [OF t2(2-4)] c1(2) by simp
    show ?thesis
    proof (cases "BAD gb")
      case True
      then have "FS_read_real ac p pn q st = Some (- ECONNABORTED, pn, q1, st2)" using t1(1) neg1 spec t2(1) by (simp add: FS_read_real_def dist Let_def)
      moreover have "text_read ac dur sn ft elems i q1 st2 (- ECONNABORTED, q1, st2)" using good2 c1(3) by (simp add: text_read_def ECONNABORTED_def)
      ultimately show ?thesis using text_read_trans [OF t1(2) neg1 _ t2(2)] by blast
    next
      case False
      obtain r3 q3 st3 where t3: "FS_r_given_bus ac p pn q1 st2 = Some (r3, q3, st3)" "text_read ac dur sn ft elems i q1 st2 (r3, q3, st3)" using try1 [OF good2 c1(3)] by blast
      have t13: "text_read ac dur sn ft elems i q st (r3, q3, st3)" by (rule text_read_trans [OF t1(2) neg1 t3(2) t2(2)])
      show ?thesis
      proof (cases "r3 < 0")
        case pos3: False
        then show ?thesis using t1(1) neg1 spec t2(1) False t3(1) t13 by (simp add: FS_read_real_def dist Let_def read_again_def)
      next
        case neg3: True
        let ?st = "count_read 2 st3"
        have c3: "good_state (ac_fs ac) dur sn ft elems ?st" "text_query sn ft i q3" "elems (fs_dev ?st) = elems (fs_dev st3)"
          using t13 neg3 good_state_dev [of elems ?st st3] by (auto simp: text_read_def count(1))
        obtain r4 q4 st4 where t4: "FS_r_given_bus ac p pn q3 ?st = Some (r4, q4, st4)" "text_read ac dur sn ft elems i q3 ?st (r4, q4, st4)"
          using try1 [OF c3(1,2)] by blast
        have "FS_read_real ac p pn q st = Some (r4, pn, q4, st4)"
          using t1(1) neg1 spec t2(1) False t3(1) neg3 t4(1) by (simp add: FS_read_real_def dist Let_def read_again_def)
        then show ?thesis using text_read_trans [OF t13 neg3 t4(2) c3(3)] by blast
      qed
    qed
  qed
qed

section \<open>Writing\<close>

definition value_query :: "byte list \<Rightarrow> filetype \<Rightarrow> int \<Rightarrow> one_wire_query \<Rightarrow> bool" where
  "value_query sn ft i q \<longleftrightarrow> query_for sn ft q \<and> cp_connection (owq_pn q) = Some (i, bus_real)"

definition value_written :: "'b access_env \<Rightarrow> (tree_key \<Rightarrow> int) \<Rightarrow> byte list \<Rightarrow> filetype \<Rightarrow> ('b world \<Rightarrow> byte list list) \<Rightarrow> int \<Rightarrow> one_wire_query \<Rightarrow>
    int \<times> one_wire_query \<times> 'b world fs_state \<Rightarrow> bool" where
  "value_written ac dur sn ft elems i q r \<longleftrightarrow>
     (case r of (ret, q', st') \<Rightarrow>
        good_state (ac_fs ac) dur sn ft elems st' \<and> value_query sn ft i q' \<and> owq_val q' = owq_val q \<and> owq_size q' = owq_size q
      \<and> ret \<le> 0 \<and> (ret = 0 \<longrightarrow> elems (fs_dev st') = [owq_val q]))"

lemma FS_write_owq_keeps_value:
  assumes "p_write p = Some wr" and "keeps_value wr" and "FS_write_owq env p q st = Some (ret, q', st')"
  shows "ret \<le> 0 \<and> owq_val q' = owq_val q \<and> owq_size q' = owq_size q"
proof -
  have drv: "wr q1 st1 = (ret, q2, st2) \<Longrightarrow> ret \<le> 0 \<and> owq_val q2 = owq_val q1 \<and> owq_size q2 = owq_size q1" for q1 st1 ret q2 st2
    using assms(2) unfolding keeps_value_def by blast
  show ?thesis using assms(1,3) by (auto simp: FS_write_owq_def driver_result_def split: prod.splits dest!: drv)
qed

lemma FS_w_local_text:
  assumes chip: "chip_property ac p sn ft elems i pn" and st: "good_state (ac_fs ac) dur sn ft elems st" and q: "value_query sn ft i q"
  shows "\<exists>r. FS_w_local (ac_fs ac) (property.truncate p) q st = Some r \<and> value_written ac dur sn ft elems i q r"
proof -
  obtain rd wr where d: "p_read p = Some rd" "reads sn ft elems rd" "p_write p = Some wr" "writes sn ft elems wr" "keeps_value wr"
    and ft: "plain_property ft" "ft_ag ft = None" "p_type p = ePN_real" "\<not> p_read_alias p" using chip by (auto simp: chip_property_def)
  have qf: "query_for sn ft q" "owq_extension q = 0" "owq_ft q = ft" using q ft(2) by (auto simp: value_query_def query_for_def extensions_def)
  have "write_outcome (ac_fs ac) dur sn ft elems q st (FS_w_local (ac_fs ac) (property.truncate p) q st)"
    using d(1,3) st ft(1,3,4) qf(1) by (intro FS_w_local_outcome [OF d(2) _ d(4)]) simp_all
  then obtain ret q' st' where w: "FS_w_local (ac_fs ac) (property.truncate p) q st = Some (ret, q', st')" "good_state (ac_fs ac) dur sn ft elems st'"
    "query_for sn ft q'" "owq_pn q' = owq_pn q" "ret = 0 \<longrightarrow> elems (fs_dev st') = (elems (fs_dev st))[nat (owq_extension q) := owq_val q]"
    using qf(2) unfolding write_outcome_def EXTENSION_ALL_def by auto
  have "FS_w_local (ac_fs ac) (property.truncate p) q st = FS_write_owq (ac_fs ac) (property.truncate p) q st"
    using d(3) ft(2) qf(3) q by (auto simp: FS_w_local_def value_query_def get_busmode_def)
  then have "ret \<le> 0 \<and> owq_val q' = owq_val q \<and> owq_size q' = owq_size q"
    using FS_write_owq_keeps_value [of "property.truncate p" wr "ac_fs ac" q st ret q' st'] d(3,5) w(1) by simp
  moreover have "length (elems (fs_dev st)) = 1" using st ft(2) by (simp add: good_state_def elems_ok_def count_def)
  then have "(elems (fs_dev st))[0 := owq_val q] = [owq_val q]" by (cases "elems (fs_dev st)") auto
  ultimately show ?thesis using w qf(2) q by (auto simp: value_written_def value_query_def)
qed

lemma FS_w_given_bus_text:
  assumes chip: "chip_property ac p sn ft elems i pn" and st: "good_state (ac_fs ac) dur sn ft elems st" and q: "value_query sn ft i q"
  shows "\<exists>ret q' st'. FS_w_given_bus ac p pn q st = Some (ret, q', st') \<and> value_written ac dur sn ft elems i q (ret, q', st')"
proof -
  have conn: "cp_connection (owq_pn q) = Some (i, bus_real)" using q by (simp add: value_query_def)
  obtain gb st1 where t: "test_selected ac q st = (gb, st1)" "elems (fs_dev st1) = elems (fs_dev st)" "fs_clock st1 = fs_clock st" "fs_cache st1 = fs_cache st"
    using test_selected_quiet [OF chip conn] by blast
  have st1: "good_state (ac_fs ac) dur sn ft elems st1" using good_state_dev [OF t(2-4)] st by simp
  have s: "\<not> SelectedIsServer ac q" "p_type p = ePN_real" using chip_site [OF chip conn] chip by (auto simp: chip_property_def)
  obtain ret m where lock: "DeviceLockGet ac p pn q st1 = (ret, st1\<lparr>fs_allocs := m\<rparr>)" and le: "ret \<le> 0" using DeviceLockGet_state by blast
  have st2: "good_state (ac_fs ac) dur sn ft elems (st1\<lparr>fs_allocs := m\<rparr>)" using st1 by simp
  show ?thesis
  proof (cases "BAD gb \<or> ret \<noteq> 0")
    case True
    then show ?thesis using t(1) s lock le st1 st2 q by (auto simp: FS_w_given_bus_def value_written_def ECONNABORTED_def)
  next
    case False
    then show ?thesis using t(1) s lock FS_w_local_text [OF chip st2 q] by (auto simp: FS_w_given_bus_def)
  qed
qed

lemma FS_write_real_text:
  assumes chip: "chip_property ac p sn ft elems i pn" and st: "good_state (ac_fs ac) dur sn ft elems st" and q: "value_query sn ft i q"
  shows "\<exists>ret q' st'. FS_write_real ac p (Suc left) pn q st = Some (ret, pn, q', st') \<and> value_written ac dur sn ft elems i q (ret, q', st')"
proof -
  note count = count_quiet(2) [OF chip]
  have cw: "good_state (ac_fs ac) dur sn ft elems (count_write k st) = good_state (ac_fs ac) dur sn ft elems st" for k st
    by (rule good_state_dev) (simp_all add: count)
  obtain s where s: "selected_site ac q = Some s" "s_mode s = bus_real" using chip_site [OF chip] q unfolding value_query_def by blast
  have p: "\<not> p_write_alias p" "SpecifiedBus pn" using chip by (auto simp: chip_property_def)
  obtain r1 q1 st1 where t1: "FS_w_given_bus ac p pn q (count_write 0 st) = Some (r1, q1, st1)" "value_written ac dur sn ft elems i q (r1, q1, st1)"
    using FS_w_given_bus_text [OF chip _ q, of dur "count_write 0 st"] st cw by blast
  have g1: "good_state (ac_fs ac) dur sn ft elems (count_write 1 st1)" "value_query sn ft i q1" using t1(2) cw by (auto simp: value_written_def)
  obtain r2 q2 st2 where t2: "FS_w_given_bus ac p pn q1 (count_write 1 st1) = Some (r2, q2, st2)" "value_written ac dur sn ft elems i q1 (r2, q2, st2)"
    using FS_w_given_bus_text [OF chip g1] by blast
  have g2: "good_state (ac_fs ac) dur sn ft elems (count_write 2 st2)" "value_query sn ft i q2" using t2(2) cw by (auto simp: value_written_def)
  obtain r3 q3 st3 where t3: "FS_w_given_bus ac p pn q2 (count_write 2 st2) = Some (r3, q3, st3)" "value_written ac dur sn ft elems i q2 (r3, q3, st3)"
    using FS_w_given_bus_text [OF chip g2] by blast
  have "FS_write_real ac p (Suc left) pn q st =
    (if r1 = 0 then Some (0, pn, q1, st1) else if r2 = 0 then Some (0, pn, q2, st2) else Some (r3, pn, q3, st3))"
    using s p t1(1) t2(1) t3(1) by (simp add: FS_write_real.simps [of ac p "Suc left"] write_again_def Let_def)
  moreover have "value_written ac dur sn ft elems i q (r2, q2, st2)" "value_written ac dur sn ft elems i q (r3, q3, st3)"
    using t1(2) t2(2) t3(2) by (auto simp: value_written_def)
  ultimately show ?thesis using t1(2) by (cases "r1 = 0"; cases "r2 = 0") auto
qed

lemma value_text_idem [simp]: "value_text trim f (text_value f u) = value_text trim f u"
  by (simp add: value_text_def text_value_def and.assoc)

lemma set_OWQ_U_value_query: "value_query sn ft i (set_OWQ_U u q) = value_query sn ft i q" if "length (owq_val q) = sizeof_value_object"
proof -
  have "owq_array (set_OWQ_U u q) = owq_array q" by (simp add: set_OWQ_U_def)
  then show ?thesis using that by (simp add: value_query_def query_for_def)
qed


text \<open>A chip with one register behind the first adapter; the number -5 is written and read.\<close>

definition cell_filetype :: filetype where
  "cell_filetype = \<lparr>ft_id = 5, ft_form = ft_integer, ft_change = fc_stable, ft_ag = None\<rparr>"

definition cell_elems :: "byte list list world \<Rightarrow> byte list list" where
  "cell_elems w = hardware (w_bus w 0)"

definition cell_read :: "byte list list world driver" where
  "cell_read q st = (0, q\<lparr>owq_val := cell_elems (fs_dev st) ! 0\<rparr>, st)"

definition cell_write :: "byte list list world driver" where
  "cell_write q st = (0, q, put_bus 0 ((w_bus (fs_dev st) 0)\<lparr>hardware := [owq_val q]\<rparr>) st)"

definition cell_property :: "byte list list world file_property" where
  "cell_property = \<lparr>p_read = Some cell_read, p_write = Some cell_write, p_read_alias = False, p_suglen = 12, p_type = ePN_real,
     p_write_alias = False, p_external = False, p_letters = False\<rparr>"

definition cell_env :: "byte list list access_env" where
  "cell_env = \<lparr>ac_fs = sample_world_env, ac_text = sample_text_env, ac_ports = [[list_site 0]], ac_threads = sample_threads, ac_fuel = 1,
     ac_readonly = False, ac_ServerRead = \<lambda>q st. (0, q, st), ac_ServerWrite = \<lambda>q st. (0, q, st)\<rparr>"

definition cell_pn :: presence_pn where
  "cell_pn = moved_pn\<lparr>pp_local := True\<rparr>"

definition cell_query :: "byte list \<Rightarrow> one_wire_query" where
  "cell_query b = \<lparr>owq_buffer = b, owq_size = length b, owq_offset = 0, owq_val = replicate 8 0, owq_length = 0, owq_array = [], owq_simul = False,
     owq_pn = (pp_cache cell_pn)\<lparr>cp_filetype := cell_filetype\<rparr>\<rparr>"

definition cell_state :: "byte list list world fs_state" where
  "cell_state = list_world\<lparr>fs_dev := (fs_dev list_world)\<lparr>w_bus := \<lambda>_. initial_connection [replicate 8 0]\<rparr>\<rparr>"

lemma cell_chip: "chip_property cell_env cell_property [0x28, 2, 3, 4, 5, 6, 7, 8] cell_filetype cell_elems 0 cell_pn"
proof -
  have "quiet cell_elems (list_site 0)"
    by (auto simp: quiet_def cell_elems_def list_site_def TestConnection_def lock_defs Let_def)
  moreover have "plain_property cell_filetype" by (simp add: plain_property_def cell_filetype_def number_format_def count_def)
  moreover have "reads [0x28, 2, 3, 4, 5, 6, 7, 8] cell_filetype cell_elems cell_read \<and> keeps_text cell_read"
    by (auto simp: reads_def keeps_text_def cell_read_def query_for_def shown_def element_def elems_ok_def cell_filetype_def extensions_def EXTENSION_ALL_def count_def)
  moreover have "writes [0x28, 2, 3, 4, 5, 6, 7, 8] cell_filetype cell_elems cell_write \<and> keeps_value cell_write"
    by (auto simp: writes_def keeps_value_def cell_write_def query_for_def shown_def element_def elems_ok_def cell_filetype_def cell_elems_def extensions_def EXTENSION_ALL_def count_def)
  ultimately show ?thesis
    by (auto simp: chip_property_def cell_env_def cell_property_def cell_pn_def moved_pn_def list_site_def find_connection_in_def BusIsServer_def no_routines_def SpecifiedBus_def
        cell_filetype_def text_format_def)
qed


end
