(* ===== verification/OW_ValueTyped.thy ===== *)
theory OW_ValueTyped
  imports OW_ValueStrings
begin

text \<open>Reading the text of a value, whatever it is, keeps the shape of the query and the bounds of its memory.\<close>

definition query_shape :: "one_wire_query \<Rightarrow> bool" where
  "query_shape q \<longleftrightarrow>
     length (owq_val q) = sizeof_value_object \<and> owq_size q \<le> length (owq_buffer q)
   \<and> (owq_extension q = EXTENSION_ALL \<longrightarrow> (\<exists>n. elements_of q = Some n \<and> length (owq_array q) = n * sizeof_value_object))"

text \<open>Value objects for floating point numbers and dates have the size of all value objects, and \<^verbatim>\<open>errno\<close> is not negative.\<close>

definition text_env_typed :: "text_env \<Rightarrow> bool" where
  "text_env_typed te \<longleftrightarrow>
     (\<forall>s v used errno. t_strtod te s = (v, used, errno) \<longrightarrow> 0 \<le> errno)
   \<and> (\<forall>f v. length (t_from_units te f v) = sizeof_value_object)
   \<and> (\<forall>s d. t_strptime te s = Some d \<longrightarrow> length d = sizeof_value_object) \<and> length (t_now te) = sizeof_value_object"

text \<open>What a conversion leaves: the name, the size of the memory, and of the state all but the count of allocations.\<close>

definition same_shape :: "one_wire_query \<Rightarrow> one_wire_query \<Rightarrow> bool" where
  "same_shape q q' \<longleftrightarrow>
     owq_pn q' = owq_pn q \<and> owq_offset q' = owq_offset q \<and> length (owq_buffer q') = length (owq_buffer q) \<and> owq_size q' \<le> owq_size q
   \<and> length (owq_val q') = sizeof_value_object \<and> length (owq_array q') = length (owq_array q)"

definition typed_result :: "one_wire_query \<Rightarrow> 'd fs_state \<Rightarrow> 'd fs_result \<Rightarrow> bool" where
  "typed_result q st r \<longleftrightarrow> (\<exists>ret q' m. r = Some (ret, q', st\<lparr>fs_allocs := m\<rparr>) \<and> ret \<le> 0 \<and> same_shape q q')"

lemma same_shape_refl: "length (owq_val q) = sizeof_value_object \<Longrightarrow> same_shape q q"
  by (simp add: same_shape_def)

lemma same_shape_set_U [simp]: "length (owq_val q) = sizeof_value_object \<Longrightarrow> same_shape q (set_OWQ_U u q)"
  by (simp add: same_shape_def set_OWQ_U_def overlay_def UT_uint32_to_bytes_def sizeof_value_object_def)

lemma input_buffer_cases:
  assumes "owq_size q \<le> length (owq_buffer q)"
  shows "\<exists>t m. input_buffer env q st = Some (t, st\<lparr>fs_allocs := m\<rparr>)"
  using assms by (auto simp: input_buffer_def owmalloc_def intro: exI [of _ "fs_allocs st"])

lemma strtol_errno: "strtol s = (v, used, errno) \<Longrightarrow> 0 \<le> errno"
  by (auto simp: strtol_def ERANGE_def Let_def split: prod.splits if_splits)

lemma strtoul_errno: "strtoul s = (v, used, errno) \<Longrightarrow> 0 \<le> errno"
  by (auto simp: strtoul_def ERANGE_def Let_def split: prod.splits if_splits)

lemma conversion_error_le: "0 \<le> errno \<Longrightarrow> conversion_error used errno \<le> 0"
  by (simp add: conversion_error_def EINVAL_def)

lemma FS_input_number_typed:
  assumes "length (owq_val q) = sizeof_value_object" and "owq_size q \<le> length (owq_buffer q)" and "\<And>s v used errno. convert s = (v, used, errno) \<Longrightarrow> 0 \<le> errno"
  shows "typed_result q st (FS_input_number convert env q st)"
proof -
  obtain t m where t: "input_buffer env q st = Some (t, st\<lparr>fs_allocs := m\<rparr>)" using input_buffer_cases [OF assms(2)] by blast
  show ?thesis
  proof (cases t)
    case None
    then show ?thesis using t same_shape_refl [OF assms(1)] by (auto simp: FS_input_number_def typed_result_def ENOMEM_def)
  next
    case (Some s)
    obtain v used errno where c: "convert (c_text s) = (v, used, errno)" by (metis prod_cases3)
    then show ?thesis using t Some assms(1) conversion_error_le [OF assms(3) [OF c]] by (auto simp: FS_input_number_def typed_result_def)
  qed
qed

lemma FS_input_yesno_typed:
  assumes "length (owq_val q) = sizeof_value_object" and "owq_size q \<le> length (owq_buffer q)"
  shows "typed_result q st (FS_input_yesno env q st)"
proof -
  obtain t m where t: "input_buffer env q st = Some (t, st\<lparr>fs_allocs := m\<rparr>)" using input_buffer_cases [OF assms(2)] by blast
  have "ret \<le> 0" if "yesno_word s = (ret, y)" for s ret y
    using that by (auto simp: yesno_word_def EFAULT_def EINVAL_def split: list.splits if_splits)
  then show ?thesis using t same_shape_refl [OF assms(1)] assms(1)
    by (fastforce simp: FS_input_yesno_def typed_result_def set_OWQ_Y_def split: option.splits prod.splits)
qed

lemma FS_input_float_typed:
  assumes "text_env_typed te" and "length (owq_val q) = sizeof_value_object" and "owq_size q \<le> length (owq_buffer q)"
  shows "typed_result q st (FS_input_float te env q st)"
proof -
  obtain t m where t: "input_buffer env q st = Some (t, st\<lparr>fs_allocs := m\<rparr>)" using input_buffer_cases [OF assms(3)] by blast
  show ?thesis
  proof (cases t)
    case None
    then show ?thesis using t same_shape_refl [OF assms(2)] by (auto simp: FS_input_float_def typed_result_def ENOMEM_def)
  next
    case (Some s)
    obtain v used errno where c: "t_strtod te (c_text s) = (v, used, errno)" by (metis prod_cases3)
    have "conversion_error used errno \<le> 0" using c assms(1) by (intro conversion_error_le) (auto simp: text_env_typed_def)
    then show ?thesis using t Some c assms(1,2) by (auto simp: FS_input_float_def typed_result_def same_shape_def text_env_typed_def Let_def)
  qed
qed

lemma FS_input_date_typed:
  assumes "text_env_typed te" and "length (owq_val q) = sizeof_value_object" and "owq_size q \<le> length (owq_buffer q)"
  shows "typed_result q st (FS_input_date te env q st)"
proof -
  obtain t m where t: "input_buffer env q st = Some (t, st\<lparr>fs_allocs := m\<rparr>)" using input_buffer_cases [OF assms(3)] by blast
  have "same_shape q (q\<lparr>owq_val := t_now te\<rparr>)" "t_strptime te s = Some d \<Longrightarrow> same_shape q (q\<lparr>owq_val := d\<rparr>)" for s d
    using assms(1) by (auto simp: same_shape_def text_env_typed_def)
  then show ?thesis using t same_shape_refl [OF assms(2)]
    by (fastforce simp: FS_input_date_def typed_result_def ENOMEM_def EINVAL_def split: option.splits)
qed

lemma size_t_le: "size_t (int n) \<le> n"
  using zmod_le_nonneg_dividend [of "int n" "2 ^ 64"] by (simp add: size_t_def)

lemma FS_check_length_le: "FS_check_length p q \<le> owq_size q"
proof -
  let ?sz = "min (FileLength p q) (owq_size q)" let ?o = "size_t (owq_offset q)"
  have "size_t (int ?o + int ?sz) \<le> ?o + ?sz" using size_t_le [of "?o + ?sz"] by (simp only: of_nat_add)
  then show ?thesis by (auto simp: FS_check_length_def Let_def)
qed

lemma OWQ_parse_input_single_typed:
  assumes "text_env_typed te" and "length (owq_val q) = sizeof_value_object" and "owq_size q \<le> length (owq_buffer q)"
  shows "typed_result q st (OWQ_parse_input_single te env p q st)"
proof -
  have "typed_result q st (FS_input_integer env q st)" "typed_result q st (FS_input_unsigned env q st)"
    unfolding FS_input_integer_def FS_input_unsigned_def using assms(2,3) strtol_errno strtoul_errno by (blast intro: FS_input_number_typed)+
  moreover have "same_shape q (FS_input_ascii p q)" using assms(2) FS_check_length_le [of p q] by (simp add: FS_input_ascii_def same_shape_def)
  then have "typed_result q st (Some (0, FS_input_ascii p q, st))" by (auto simp: typed_result_def intro!: exI [of _ "fs_allocs st"])
  moreover have "typed_result q st (Some (- ENOENT, q, st))" using same_shape_refl [OF assms(2)] by (auto simp: typed_result_def ENOENT_def intro!: exI [of _ "fs_allocs st"])
  ultimately show ?thesis
    using FS_input_yesno_typed [OF assms(2,3), of st env] FS_input_float_typed [OF assms, of st env] FS_input_date_typed [OF assms, of st env]
    by (auto simp: OWQ_parse_input_single_def Let_def)
qed

section \<open>Arrays\<close>

lemma set_array_val_shape:
  assumes "i < n" and "length (owq_array q) = n * sizeof_value_object" and "length v = sizeof_value_object"
  shows "\<exists>a. set_array_val i v q = Some (q\<lparr>owq_array := a\<rparr>) \<and> length a = n * sizeof_value_object"
proof -
  have "Suc i * sizeof_value_object \<le> n * sizeof_value_object" using assms(1) by (intro mult_le_mono1) simp
  then show ?thesis using assms(2,3)
    by (intro exI [of _ "take (i * sizeof_value_object) (owq_array q) @ v @ drop (i * sizeof_value_object + sizeof_value_object) (owq_array q)"])
      (simp add: set_array_val_def blk_store_def)
qed

lemma input_commas_typed:
  assumes "text_env_typed te" and "length (owq_val q) = sizeof_value_object" and "owq_size q \<le> length (owq_buffer q)"
    and "length (owq_array q) = n * sizeof_value_object" and "\<forall>i \<in> set es. i < n"
  shows "typed_result q st (input_commas_loop te env p n es pos q st)"
  using assms(2-)
proof (induction es arbitrary: pos q st)
  case Nil
  then show ?case using same_shape_refl [of q] by (auto simp: typed_result_def intro!: exI [of _ "fs_allocs st"])
next
  case (Cons i es)
  have err: "typed_result q st (Some (- EINVAL, q, st\<lparr>fs_allocs := m\<rparr>))" "typed_result q st (Some (- ENOMEM, q, st\<lparr>fs_allocs := m\<rparr>))" for m
    using same_shape_refl [OF Cons.prems(1)] by (auto simp: typed_result_def EINVAL_def ENOMEM_def)
  have err0: "typed_result q st (Some (- EINVAL, q, st))" using err(1) [of "fs_allocs st"] by simp
  show ?case
  proof (cases "i \<noteq> 0 \<and> pos \<ge> owq_size q")
    case True
    then show ?thesis using err0 by simp
  next
    case in_range: False
    let ?len = "if i + 1 = n then Some (owq_size q - pos) else find_comma (take (owq_size q - pos) (drop pos (owq_buffer q)))"
    show ?thesis
    proof (cases ?len)
      case None
      then show ?thesis using in_range err0 by (simp add: Let_def)
    next
      case (Some len)
      have "len \<le> length (drop pos (owq_buffer q))"
        using Some Cons.prems(2) by (auto simp: find_comma_def Let_def split: if_splits)
      let ?m = "fs_allocs st + 1" let ?st = "st\<lparr>fs_allocs := ?m\<rparr>"
      let ?s = "(OWQ_copy (int i) q)\<lparr>owq_buffer := drop pos (owq_buffer q), owq_size := len, owq_offset := 0\<rparr>"
      show ?thesis
      proof (cases "e_alloc env (fs_allocs st)")
        case False
        then show ?thesis using in_range Some err0 err(2) [of ?m] unfolding input_commas_loop.simps Let_def by (simp add: OWQ_create_separate_def owmalloc_def)
      next
        case True
        have "typed_result ?s ?st (OWQ_parse_input_single te env p ?s ?st)"
          using \<open>len \<le> _\<close> by (intro OWQ_parse_input_single_typed [OF assms(1)]) (simp_all add: OWQ_copy_def)
        then obtain ret s' m where r: "OWQ_parse_input_single te env p ?s ?st = Some (ret, s', ?st\<lparr>fs_allocs := m\<rparr>)" "same_shape ?s s'"
          by (auto simp: typed_result_def)
        obtain a where a: "set_array_val i (owq_val s') q = Some (q\<lparr>owq_array := a\<rparr>)" "length a = n * sizeof_value_object"
          using set_array_val_shape [OF _ Cons.prems(3), of i "owq_val s'"] Cons.prems(4) r(2) by (auto simp: same_shape_def)
        let ?q = "q\<lparr>owq_array := a\<rparr>" let ?st2 = "st\<lparr>fs_allocs := m\<rparr>"
        have run: "input_commas_loop te env p n (i # es) pos q st =
          (if ret \<noteq> 0 then Some (- EINVAL, q, ?st2) else input_commas_loop te env p n es (pos + len + 1) ?q ?st2)"
          using in_range Some True r(1) a(1) unfolding input_commas_loop.simps Let_def
          by (cases "i = 0") (simp_all add: OWQ_create_separate_def owmalloc_def)
        have "typed_result ?q ?st2 (input_commas_loop te env p n es (pos + len + 1) ?q ?st2)"
          using Cons.prems a(2) by (intro Cons.IH) simp_all
        then have "typed_result q st (input_commas_loop te env p n es (pos + len + 1) ?q ?st2)"
          using a(2) Cons.prems(3) by (auto simp: typed_result_def same_shape_def)
        then show ?thesis using run err(1) by simp
      qed
    qed
  qed
qed

lemma input_ascii_typed:
  assumes "length (owq_val q) = sizeof_value_object" and "length (owq_array q) = n * sizeof_value_object" and "\<forall>i \<in> set es. i < n"
    and "pos \<le> end_pos" and "end_pos \<le> length (owq_buffer q)"
  shows "\<exists>ret q'. input_ascii_loop suglen n es pos end_pos q = Some (ret, q') \<and> ret \<le> 0 \<and> same_shape q q'"
  using assms
proof (induction es arbitrary: pos end_pos q)
  case Nil
  then show ?case using same_shape_refl [of q] by (simp add: ERANGE_def)
next
  case (Cons i es)
  have i: "i < n" using Cons.prems(3) by simp
  show ?case
  proof (cases "i + 1 = n")
    case True
    obtain a where "set_array_val i (size_bytes (min (end_pos - pos) suglen)) q = Some (q\<lparr>owq_array := a\<rparr>)" "length a = n * sizeof_value_object"
      using set_array_val_shape [OF i Cons.prems(2)] by (metis length_size_bytes)
    then show ?thesis using True Cons.prems(1,2) by (simp add: same_shape_def)
  next
    case False
    show ?thesis
    proof (cases "find_comma (take (end_pos - pos) (drop pos (owq_buffer q)))")
      case None
      then show ?thesis using False same_shape_refl [OF Cons.prems(1)] by (simp add: EINVAL_def)
    next
      case (Some len)
      let ?al = "min len suglen" let ?rest = "take (end_pos - (pos + len) - 1) (drop (pos + len + 1) (owq_buffer q))"
      have len: "len < end_pos - pos" using Some Cons.prems(5) by (auto simp: find_comma_def Let_def split: if_splits)
      obtain a where a: "set_array_val i (size_bytes ?al) q = Some (q\<lparr>owq_array := a\<rparr>)" "length a = n * sizeof_value_object"
        using set_array_val_shape [OF i Cons.prems(2)] by (metis length_size_bytes)
      have "pos + ?al + length ?rest \<le> length (owq_buffer q)" using len Cons.prems(5) by simp
      then obtain b where b: "blk_store (pos + ?al) ?rest (owq_buffer q) = Some b" "length b = length (owq_buffer q)" by (simp add: blk_store_def)
      let ?q = "q\<lparr>owq_array := a, owq_buffer := b\<rparr>"
      have "\<exists>ret q'. input_ascii_loop suglen n es (pos + ?al) (end_pos - (len - ?al) - 1) ?q = Some (ret, q') \<and> ret \<le> 0 \<and> same_shape ?q q'"
        using Cons.prems a(2) b(2) len by (intro Cons.IH) auto
      then show ?thesis using False Some a b Cons.prems(2) by (auto simp: Let_def same_shape_def)
    qed
  qed
qed

lemma set_lengths_typed:
  assumes "length (owq_val q) = sizeof_value_object" and "length (owq_array q) = n * sizeof_value_object" and "\<forall>i \<in> set es. i < n"
  shows "\<exists>q'. set_lengths len es q = Some q' \<and> same_shape q q'"
  using assms
proof (induction es arbitrary: q)
  case (Cons i es)
  obtain a where a: "set_array_val i (size_bytes len) q = Some (q\<lparr>owq_array := a\<rparr>)" "length a = n * sizeof_value_object"
    using set_array_val_shape [of i n q "size_bytes len"] Cons.prems by auto
  then show ?case using Cons.IH [of "q\<lparr>owq_array := a\<rparr>"] Cons.prems by (auto simp: same_shape_def)
qed (simp add: same_shape_refl)

text \<open>
  C28: whatever text is to be written, and whatever the format of the property, single or array, \<^verbatim>\<open>OWQ_parse_input\<close> returns zero or an
  error; the query keeps its name, its memory is left at its size and never exceeded, and nothing but the count of allocations changes.
\<close>

theorem parse_input_typed:
  assumes "text_env_typed te" and "query_shape q"
  shows "\<exists>ret q' m. OWQ_parse_input te env p q st = Some (ret, q', st\<lparr>fs_allocs := m\<rparr>) \<and> ret \<le> 0 \<and> query_shape q'
    \<and> owq_pn q' = owq_pn q \<and> length (owq_buffer q') = length (owq_buffer q) \<and> length (owq_array q') = length (owq_array q)"
proof -
  have v: "length (owq_val q) = sizeof_value_object" "owq_size q \<le> length (owq_buffer q)" using assms(2) by (auto simp: query_shape_def)
  have uns: "typed_result q st (FS_input_unsigned env q st)"
    unfolding FS_input_unsigned_def using v strtoul_errno by (blast intro: FS_input_number_typed)
  have all: "typed_result q st (OWQ_parse_input te env p q st)" if ext: "owq_extension q = EXTENSION_ALL"
  proof -
    obtain n where n: "elements_of q = Some n" "length (owq_array q) = n * sizeof_value_object" using assms(2) ext by (auto simp: query_shape_def)
    have bad: "typed_result q st (Some (- EINVAL, q, st))" using same_shape_refl [OF v(1)] by (auto simp: typed_result_def EINVAL_def intro!: exI [of _ "fs_allocs st"])
    have "typed_result q st (FS_input_array_with_commas te env p q st)"
      using bad n v input_commas_typed [OF assms(1) v n(2), of "[0..<n]" st env p 0] by (simp add: FS_input_array_with_commas_def)
    moreover have "typed_result q st (map_option (\<lambda>(ret, q). (ret, q, st)) (FS_input_ascii_array p q))"
      using bad n v input_ascii_typed [OF v(1) n(2), of "[0..<n]" 0 "owq_size q" "p_suglen p"]
      by (auto simp: FS_input_ascii_array_def typed_result_def intro!: exI [of _ "fs_allocs st"])
    moreover have "typed_result q st (map_option (\<lambda>(ret, q). (ret, q, st)) (FS_input_array_no_commas p q))"
      using bad n set_lengths_typed [OF v(1) n(2), of "[0..<n]" "FileLength p q"]
      by (auto simp: FS_input_array_no_commas_def typed_result_def intro!: exI [of _ "fs_allocs st"])
    ultimately show ?thesis using ext by (simp add: OWQ_parse_input_def EXTENSION_ALL_def EXTENSION_BYTE_def)
  qed
  have "typed_result q st (OWQ_parse_input te env p q st)"
    using all uns OWQ_parse_input_single_typed [OF assms(1) v] by (cases "owq_extension q = EXTENSION_ALL") (auto simp: OWQ_parse_input_def)
  then obtain ret q' m where r: "OWQ_parse_input te env p q st = Some (ret, q', st\<lparr>fs_allocs := m\<rparr>)" "ret \<le> 0" "same_shape q q'"
    by (auto simp: typed_result_def)
  moreover have "query_shape q'" using r(3) assms(2) by (auto simp: same_shape_def query_shape_def elements_of_def)
  ultimately show ?thesis by (auto simp: same_shape_def)
qed

theorem parse_input_typed_witness:
  "\<exists>ret q' m. OWQ_parse_input (sample_text_env\<lparr>t_from_units := \<lambda>_ _. replicate 8 0, t_now := replicate 8 0\<rparr>) sample_fs_env (sample_property 4)
      (sample_query ft_ascii EXTENSION_ALL 3 [72, 105, 44] (replicate 8 0) (replicate 24 0)) sample_fs_state = Some (ret, q', sample_fs_state\<lparr>fs_allocs := m\<rparr>)
    \<and> ret \<le> 0 \<and> length (owq_buffer q') = 3"
proof -
  let ?q = "sample_query ft_ascii EXTENSION_ALL 3 [72, 105, 44] (replicate 8 0) (replicate 24 0)"
  let ?te = "sample_text_env\<lparr>t_from_units := \<lambda>_ _. replicate 8 0, t_now := replicate 8 0\<rparr>"
  have "text_env_typed ?te" by (simp add: text_env_typed_def sample_text_env_def sizeof_value_object_def)
  moreover have "query_shape ?q" by (simp add: query_shape_def sample_query_def elements_of_def sizeof_value_object_def)
  ultimately show ?thesis using parse_input_typed [of ?te ?q sample_fs_env "sample_property 4" sample_fs_state] by (auto simp: sample_query_def)
qed

end
