(* ===== verification/OW_ParseName.thy ===== *)
theory OW_ParseName
  imports OW_Presence OW_SerialNumber OW_Values
begin

text \<open>
  Names of files: \<^verbatim>\<open>ow_parsename.c\<close>, with the device trees of \<^verbatim>\<open>ow_tree.c\<close>, the wrapper of regular expressions in
  \<^verbatim>\<open>ow_regex.c\<close> and the search for remote aliases of \<^verbatim>\<open>ow_remote_alias.c\<close>. A path is taken apart at its slashes by a state machine; each
  part may choose a directory, a bus, a device, a branch of a coupler or a property of the device.

  The devices and their properties are tables that are arguments here, as are the sensors of the configuration file and the answers of
  remote servers. Each regular expression is a function that gives its groups. A string is the list of its characters before the
  final zero. The bits of \<^verbatim>\<open>enum ePS_state\<close> are a set.
\<close>

section \<open>Data\<close>

datatype ePS_state =
    ePS_uncached | ePS_alarm | ePS_text | ePS_bus | ePS_buslocal | ePS_busanylocal | ePS_busremote | ePS_busveryremote
  | ePS_reconnection | ePS_unaliased | ePS_json

datatype parse_enum =
    parse_first | parse_done | parse_error | parse_real | parse_branch | parse_nonreal | parse_prop | parse_subprop

datatype parse_pass = parse_pass_pre_remote | parse_pass_post_remote

definition PATH_MAX :: nat where "PATH_MAX = 2048"
definition OW_FULLNAME_MAX :: nat where "OW_FULLNAME_MAX = 38"

text \<open>A property: its name, how it is cached, how the elements of its array are named, and the branch that it stands for.\<close>

record file_type =
  f_name :: string
  f_type :: filetype
  f_letters :: bool
  f_branch :: ds2409_branch

record device =
  family_code :: string
  filetype_array :: "file_type list"

datatype device_ptr = UnknownDevice | RemoteDevice | Listed device

text \<open>The name, with the lock on the list of connections that it holds.\<close>

record parsedname =
  n_path :: string
  n_path_to_server :: string
  n_device_name :: "nat option"
  n_known_bus :: "int option"
  n_type :: pn_type
  n_state :: "ePS_state set"
  n_sn :: "byte list"
  n_selected_device :: "device_ptr option"
  n_selected_filetype :: "file_type option"
  n_extension :: int
  n_sparse_name :: "string option"
  n_subdir :: "file_type option"
  n_dirlength :: int
  n_bp :: "ds2409_hubs list"
  n_connection :: "(int \<times> bus_mode) option"
  n_bus_list :: bool
  n_rlock :: bool

record 'b parse_env =
  pv_fs :: "'b world fs_env"
  pv_ports :: "'b site list list"
  pv_threads :: threads
  pv_fuel :: nat
  pv_Tree :: "pn_type \<Rightarrow> device list"
  pv_NoDev :: "file_type list"
  pv_sensor :: "string \<Rightarrow> string option"
  pv_family :: "string \<Rightarrow> device option"
  pv_external :: int
  pv_ServerPresence :: "int \<Rightarrow> string \<Rightarrow> byte list \<Rightarrow> int \<times> byte list"
  pv_uncached :: bool
  pv_unaliased :: bool
  pv_one_device :: bool

type_synonym 'b parse_result = "(parse_enum \<times> parsedname \<times> 'b world fs_state) option"

definition SpecifiedLocalBus :: "parsedname \<Rightarrow> bool" where "SpecifiedLocalBus pn \<longleftrightarrow> ePS_buslocal \<in> n_state pn"
definition SpecifiedRemoteBus :: "parsedname \<Rightarrow> bool" where "SpecifiedRemoteBus pn \<longleftrightarrow> ePS_busremote \<in> n_state pn"
definition SpecifiedVeryRemoteBus :: "parsedname \<Rightarrow> bool" where "SpecifiedVeryRemoteBus pn \<longleftrightarrow> ePS_busveryremote \<in> n_state pn"

abbreviation flag :: "ePS_state \<Rightarrow> parsedname \<Rightarrow> parsedname" where
  "flag f pn \<equiv> pn\<lparr>n_state := insert f (n_state pn)\<rparr>"

section \<open>Strings\<close>

fun strcmp :: "string \<Rightarrow> string \<Rightarrow> int" where
  "strcmp [] [] = 0"
| "strcmp [] (_ # _) = - 1"
| "strcmp (_ # _) [] = 1"
| "strcmp (a # s) (b # t) = (if a = b then strcmp s t else if (of_char a :: nat) < of_char b then - 1 else 1)"

definition strsep :: "string \<Rightarrow> string \<times> string option" where
  "strsep s =
     (takeWhile (\<lambda>c. c \<noteq> CHR ''/'') s, case dropWhile (\<lambda>c. c \<noteq> CHR ''/'') s of [] \<Rightarrow> None | _ # rest \<Rightarrow> Some rest)"

definition tolower :: "char \<Rightarrow> char" where
  "tolower c = (let v = of_char c :: nat in if 65 \<le> v \<and> v \<le> 90 then char_of (v + 32) else c)"

definition toupper :: "char \<Rightarrow> char" where
  "toupper c = (let v = of_char c :: nat in if 97 \<le> v \<and> v \<le> 122 then char_of (v - 32) else c)"

definition digit :: "char \<Rightarrow> bool" where
  "digit c \<longleftrightarrow> (let v = of_char c :: nat in 48 \<le> v \<and> v \<le> 57)"

definition isalpha :: "char \<Rightarrow> bool" where
  "isalpha c \<longleftrightarrow> (let v = of_char c :: nat in 65 \<le> v \<and> v \<le> 90 \<or> 97 \<le> v \<and> v \<le> 122)"

text \<open>\<^verbatim>\<open>atoi\<close> is \<^verbatim>\<open>strtol\<close>, cut to an \<^verbatim>\<open>int\<close>.\<close>

definition atoi :: "string \<Rightarrow> int" where
  "atoi s = sint (word_of_int (fst (strtol (str_bytes s))) :: uint)"

section \<open>Regular expressions\<close>

text \<open>An expression \<^verbatim>\<open>^word/?\<close> without regard to case: what follows the word does not matter.\<close>

definition rx_word :: "string \<Rightarrow> string \<Rightarrow> bool" where
  "rx_word w s \<longleftrightarrow> map tolower (take (length w) s) = w"

text \<open>The digits.\<close>

definition rx_bus :: "string \<Rightarrow> string option" where
  "rx_bus s =
     (let digits = takeWhile digit (drop 4 s) in
      if rx_word ''bus.'' s \<and> digits \<noteq> [] then Some digits else None)"

text \<open>What comes after the match; nothing comes before.\<close>

definition rx_p_bus :: "string \<Rightarrow> string option" where
  "rx_p_bus s =
     (let r = drop 5 s; digits = takeWhile digit r; rest = drop (length digits) r in
      if rx_word ''/bus.'' s \<and> digits \<noteq> []
      then Some (case rest of c # cs \<Rightarrow> if c = CHR ''/'' then cs else rest | [] \<Rightarrow> [])
      else None)"

text \<open>What comes before the first dot, and what comes after.\<close>

definition rx_extension :: "string \<Rightarrow> (string \<times> string) option" where
  "rx_extension s =
     (case dropWhile (\<lambda>c. c \<noteq> CHR ''.'') s of
        [] \<Rightarrow> None
      | _ # post \<Rightarrow> Some (takeWhile (\<lambda>c. c \<noteq> CHR ''.'') s, post))"

definition rx_suffix :: "string \<Rightarrow> string \<Rightarrow> bool" where
  "rx_suffix w s \<longleftrightarrow> length w \<le> length s \<and> map tolower (drop (length s - length w) s) = w"

text \<open>The digits after the last dot, to the end.\<close>

definition rx_number :: "string \<Rightarrow> string option" where
  "rx_number s =
     (let digits = rev (takeWhile digit (rev s)); front = take (length s - length digits) s in
      if digits \<noteq> [] \<and> front \<noteq> [] \<and> last front = CHR ''.'' then Some digits else None)"

definition rx_letter :: "string \<Rightarrow> char option" where
  "rx_letter s = (case rev s of c # d # _ \<Rightarrow> if isalpha c \<and> d = CHR ''.'' then Some c else None | _ \<Rightarrow> None)"

text \<open>The groups of a match are copied: one block for the pointers, one for the whole and one for each group. Without memory there is no match.\<close>

fun owmallocs :: "'d fs_env \<Rightarrow> nat \<Rightarrow> 'd fs_state \<Rightarrow> bool \<times> 'd fs_state" where
  "owmallocs env 0 st = (True, st)"
| "owmallocs env (Suc n) st = (case owmalloc env st of (ok, st) \<Rightarrow> if ok then owmallocs env n st else (False, st))"

definition ow_regexec :: "'d fs_env \<Rightarrow> nat \<Rightarrow> 'g option \<Rightarrow> 'd fs_state \<Rightarrow> 'g option \<times> 'd fs_state" where
  "ow_regexec env number groups st =
     (case groups of
        None \<Rightarrow> (None, st)
      | Some g \<Rightarrow> (case owmallocs env (number + 2) st of (ok, st) \<Rightarrow> (if ok then Some g else None, st)))"

section \<open>Devices and properties\<close>

definition tfind :: "string \<Rightarrow> device list \<Rightarrow> device option" where
  "tfind code tree = find (\<lambda>d. family_code d = code) tree"

definition FS_devicefindhex :: "'b parse_env \<Rightarrow> byte \<Rightarrow> parsedname \<Rightarrow> device_ptr" where
  "FS_devicefindhex env f pn =
     (let tree = pv_Tree env (n_type pn) in
      case tfind (num2string f) tree of
        Some d \<Rightarrow> Listed d
      | None \<Rightarrow> (case tfind (num2string (f XOR 0x80)) tree of Some d \<Rightarrow> Listed d | None \<Rightarrow> UnknownDevice))"

definition FS_devicefind :: "'b parse_env \<Rightarrow> string \<Rightarrow> pn_type \<Rightarrow> device_ptr" where
  "FS_devicefind env code type = (case tfind code (pv_Tree env type) of Some d \<Rightarrow> Listed d | None \<Rightarrow> UnknownDevice)"

definition device_files :: "'b parse_env \<Rightarrow> device_ptr \<Rightarrow> file_type list" where
  "device_files env d = (case d of Listed dev \<Rightarrow> filetype_array dev | _ \<Rightarrow> pv_NoDev env)"

definition filetype_cmp :: "string \<Rightarrow> file_type \<Rightarrow> int" where
  "filetype_cmp name ex = strcmp name (f_name ex)"

text \<open>\<^verbatim>\<open>bsearch\<close>, on the part of the array from \<open>l\<close> to below \<open>u\<close>.\<close>

function bsearch :: "('a \<Rightarrow> int) \<Rightarrow> 'a list \<Rightarrow> nat \<Rightarrow> nat \<Rightarrow> 'a option" where
  "bsearch cmp arr l u =
     (if l < u then
        let i = (l + u) div 2; c = cmp (arr ! i) in
        if c < 0 then bsearch cmp arr l i else if c > 0 then bsearch cmp arr (i + 1) u else Some (arr ! i)
      else None)"
  by pat_completeness auto
termination by (relation "measure (\<lambda>(_, _, l, u). u - l)") auto

declare bsearch.simps [simp del]

definition find_filetype :: "'b parse_env \<Rightarrow> string \<Rightarrow> device_ptr \<Rightarrow> file_type option" where
  "find_filetype env name d = (let files = device_files env d in bsearch (filetype_cmp name) files 0 (length files))"

section \<open>Buses\<close>

text \<open>What \<open>OW_Presence\<close> sees of a name. It does not look at the property.\<close>

definition presence_name :: "'b parse_env \<Rightarrow> parsedname \<Rightarrow> presence_pn" where
  "presence_name env pn =
     \<lparr>pp_cache =
        \<lparr>cp_sn = n_sn pn,
         cp_filetype = (case n_selected_filetype pn of Some ft \<Rightarrow> f_type ft | None \<Rightarrow> \<lparr>ft_id = 0, ft_form = ft_unknown, ft_change = fc_static, ft_ag = None\<rparr>),
         cp_extension = n_extension pn, cp_alarm_dir = ePS_alarm \<in> n_state pn, cp_uncached_dir = ePS_uncached \<in> n_state pn,
         cp_connection = n_connection pn, cp_bp = n_bp pn\<rparr>,
      pp_type = n_type pn,
      pp_device =
        (if n_selected_device pn = Some (FS_devicefind env ''simultaneous'' ePN_real) then DeviceSimultaneous
         else if n_selected_device pn = Some (FS_devicefind env ''thermostat'' ePN_real) then DeviceThermostat else Device_chip),
      pp_known = (if ePS_bus \<in> n_state pn then n_known_bus pn else None),
      pp_local = SpecifiedLocalBus pn, pp_remote = SpecifiedRemoteBus pn\<rparr>"

definition with_location :: "presence_pn \<Rightarrow> parsedname \<Rightarrow> parsedname" where
  "with_location p pn =
     pn\<lparr>n_known_bus := pp_known p, n_connection := cp_connection (pp_cache p),
        n_state := (if pp_known p = None then n_state pn - {ePS_bus} else insert ePS_bus (n_state pn))\<rparr>"

definition known_bus_set :: "'b parse_env \<Rightarrow> int \<Rightarrow> parsedname \<Rightarrow> int \<times> parsedname" where
  "known_bus_set env bus_number pn =
     (case SetKnownBus (pv_ports env) bus_number (presence_name env pn) of (ret, p) \<Rightarrow> (ret, with_location p pn))"

text \<open>The servers are asked in threads of their own; an answer of the rest of the list has precedence.\<close>

fun RemoteAlias_callback_conn :: "('b site \<Rightarrow> int \<times> byte list) \<Rightarrow> 'b site list \<Rightarrow> int \<times> byte list \<Rightarrow> int \<times> byte list" where
  "RemoteAlias_callback_conn answer [] ras = ras"
| "RemoteAlias_callback_conn answer (s # ss) ras =
     (let rest = RemoteAlias_callback_conn answer ss (INDEX_BAD, replicate 8 0) in if INDEX_VALID (fst rest) then rest else answer s)"

fun RemoteAlias_callback_port :: "('b site \<Rightarrow> int \<times> byte list) \<Rightarrow> 'b site list list \<Rightarrow> int \<times> byte list" where
  "RemoteAlias_callback_port answer [] = (INDEX_BAD, replicate 8 0)"
| "RemoteAlias_callback_port answer (p # ps) =
     (let rest = RemoteAlias_callback_port answer ps in
      if INDEX_VALID (fst rest) then rest else RemoteAlias_callback_conn answer p (INDEX_BAD, replicate 8 0))"

definition RemoteAlias :: "'b parse_env \<Rightarrow> parsedname \<Rightarrow> int \<times> parsedname" where
  "RemoteAlias env pn =
     (let th = pv_threads env; servers = reached_ports (th_port th) (th_conn th) 0 (map (filter BusIsServer) (pv_ports env)) in
      case RemoteAlias_callback_port (\<lambda>s. pv_ServerPresence env (s_index s) (n_path_to_server pn) (n_sn pn)) servers of (bus_nr, sn) \<Rightarrow>
        (bus_nr, pn\<lparr>n_sn := sn\<rparr>))"

section \<open>Parts of a path\<close>

definition set_type :: "pn_type \<Rightarrow> parsedname \<Rightarrow> parse_enum \<times> parsedname" where
  "set_type epntype pn = (if SpecifiedLocalBus pn then (parse_error, pn) else (parse_nonreal, pn\<lparr>n_type := epntype\<rparr>))"

text \<open>The position in the path, after the slash.\<close>

fun find_segment :: "string \<Rightarrow> nat \<Rightarrow> string \<Rightarrow> nat option" where
  "find_segment segment pos [] = None"
| "find_segment segment pos (c # cs) =
     (if c = CHR ''/'' \<and> take (length segment) cs = segment
        \<and> (case drop (length segment) cs of [] \<Rightarrow> True | d # _ \<Rightarrow> d = CHR ''/'')
      then Some (pos + 1) else find_segment segment (pos + 1) cs)"

definition find_segment_in_path :: "string \<Rightarrow> string \<Rightarrow> nat option" where
  "find_segment_in_path segment path = find_segment segment 0 path"

definition ReplaceAliasInPath :: "string \<Rightarrow> parsedname \<Rightarrow> parsedname" where
  "ReplaceAliasInPath filename pn =
     (let p = n_path_to_server pn in
      if int (length p) + 14 - int (length filename) \<le> int PATH_MAX then
        (case find_segment_in_path filename p of
           None \<Rightarrow> pn
         | Some loc \<Rightarrow> pn\<lparr>n_path_to_server := take loc p @ bytes2string (take 7 (n_sn pn)) @ drop (loc + length filename) p\<rparr>)
      else pn)"

definition Parse_Bus :: "'b parse_env \<Rightarrow> int \<Rightarrow> parsedname \<Rightarrow> 'b world fs_state \<Rightarrow> parse_enum \<times> parsedname \<times> 'b world fs_state" where
  "Parse_Bus env bus_number pn st =
     (if \<not> INDEX_VALID bus_number then (parse_error, pn, st)
      else if SpecifiedLocalBus pn then (parse_error, pn, st)
      else if SpecifiedRemoteBus pn then (parse_first, flag ePS_busveryremote pn, st)
      else
        (case known_bus_set env bus_number pn of (ret, pn) \<Rightarrow>
           if ret \<noteq> 0 then (parse_error, pn, st)
           else
             let remote = (case find_connection_in (pv_ports env) bus_number of Some s \<Rightarrow> BusIsServer s | None \<Rightarrow> False);
                 pn = flag (if remote then ePS_busremote else ePS_buslocal) pn;
                 pn = (if SpecifiedLocalBus pn then pn\<lparr>n_bus_list := False\<rparr> else pn)
             in (case ow_regexec (pv_fs env) 0 (rx_p_bus (n_path pn)) st of
                   (Some post, st) \<Rightarrow> (parse_first, pn\<lparr>n_path_to_server := ''/'' @ post\<rparr>, st)
                 | (None, st) \<Rightarrow> (parse_first, pn, st))))"

definition Parse_RealDeviceSN :: "'b parse_env \<Rightarrow> parse_pass \<Rightarrow> parsedname \<Rightarrow> 'b world fs_state \<Rightarrow> 'b parse_result" where
  "Parse_RealDeviceSN env remote_status pn st =
     (let pn = pn\<lparr>n_selected_device := Some (FS_devicefindhex env (n_sn pn ! 0) pn)\<rparr> in
      if remote_status = parse_pass_post_remote then Some (parse_prop, pn, st)
      else if pv_one_device env then Some (parse_prop, snd (known_bus_set env INDEX_DEFAULT pn), st)
      else
        map_option (\<lambda>(bus_nr, p, st). (if INDEX_VALID bus_nr then parse_prop else parse_error, with_location p pn, st))
          (CheckPresence (pv_fs env) (pv_fuel env) (pv_ports env) (pv_threads env) (presence_name env pn) st))"

definition Parse_Alias_Known :: "'b parse_env \<Rightarrow> string \<Rightarrow> parse_pass \<Rightarrow> parsedname \<Rightarrow> 'b world fs_state \<Rightarrow> 'b parse_result" where
  "Parse_Alias_Known env filename remote_status pn st =
     Parse_RealDeviceSN env remote_status (if remote_status = parse_pass_pre_remote then ReplaceAliasInPath filename pn else pn) st"

text \<open>An alias that a server knew: with its serial number, or, from an older server, without.\<close>

definition remember_alias :: "'b parse_env \<Rightarrow> string \<Rightarrow> int \<Rightarrow> parsedname \<Rightarrow> 'b world fs_state \<Rightarrow> (parsedname \<times> 'b world fs_state) option" where
  "remember_alias env filename bus_nr pn st =
     (let g = e_globals (pv_fs env); now = fs_clock st in
      case owmalloc (pv_fs env) st of (mok, st) \<Rightarrow> case owmalloc (pv_fs env) st of (tok, st) \<Rightarrow>
        if n_sn pn ! 0 = 0 \<and> n_sn pn ! 7 = 0 then Some (pn, st\<lparr>fs_cache := Cache_Add_Alias_Bus g now mok tok filename bus_nr (fs_cache st)\<rparr>)
        else
          (case owmalloc (pv_fs env) st of (atok, st) \<Rightarrow> case owmalloc (pv_fs env) st of (ptok, st) \<Rightarrow>
             map_option (\<lambda>(_, c). (pn\<lparr>n_selected_device := Some (FS_devicefindhex env (n_sn pn ! 0) pn)\<rparr>,
                 add_location (pv_fs env) bus_nr (n_sn pn) (st\<lparr>fs_cache := c\<rparr>)))
               (Cache_Add_Alias now mok tok atok ptok filename (n_sn pn) (fs_cache st))))"

definition Parse_Alias :: "'b parse_env \<Rightarrow> string \<Rightarrow> parse_pass \<Rightarrow> parsedname \<Rightarrow> 'b world fs_state \<Rightarrow> 'b parse_result" where
  "Parse_Alias env filename remote_status pn st =
     (case owmalloc (pv_fs env) st of (mok, st) \<Rightarrow>
        Option.bind (Cache_Get_Alias_SN mok filename (fs_cache st)) (\<lambda>(gb, sn).
          if \<not> BAD gb then Parse_Alias_Known env filename remote_status (pn\<lparr>n_sn := sn\<rparr>) st
          else
            let pn = pn\<lparr>n_selected_device := Some RemoteDevice\<rparr> in
            (case owmalloc (pv_fs env) st of (mok, st) \<Rightarrow>
               let bus_nr = Cache_Get_Alias_Bus (fs_clock st) mok filename (fs_cache st) in
               if bus_nr \<noteq> INDEX_BAD then Some (parse_prop, snd (known_bus_set env bus_nr pn), st)
               else
                 (case RemoteAlias env pn of (bus_nr, pn) \<Rightarrow>
                    if bus_nr = INDEX_BAD then Some (parse_error, pn, st)
                    else
                      map_option (\<lambda>(pn, st). (parse_prop, pn, st)) (remember_alias env filename bus_nr (snd (known_bus_set env bus_nr pn)) st)))))"

definition Parse_External_Device :: "'b parse_env \<Rightarrow> string \<Rightarrow> parsedname \<Rightarrow> 'b world fs_state \<Rightarrow> 'b parse_result" where
  "Parse_External_Device env family pn st =
     map_option (\<lambda>d. (parse_prop, snd (known_bus_set env (pv_external env) (pn\<lparr>n_selected_device := Some (Listed d)\<rparr>)), st)) (pv_family env family)"

definition Parse_RealDevice :: "'b parse_env \<Rightarrow> string \<Rightarrow> parse_pass \<Rightarrow> parsedname \<Rightarrow> 'b world fs_state \<Rightarrow> 'b parse_result" where
  "Parse_RealDevice env filename remote_status pn st =
     (let pn = pn\<lparr>n_device_name := find_segment_in_path filename (n_path pn)\<rparr> in
      case Parse_SerialNumber (Some filename) of
        (sn_not_sn, _) \<Rightarrow>
          (case pv_sensor env filename of
             Some family \<Rightarrow> Parse_External_Device env family pn st
           | None \<Rightarrow> Parse_Alias env filename remote_status pn st)
      | (sn_valid, Some sn) \<Rightarrow> Parse_RealDeviceSN env remote_status (pn\<lparr>n_sn := sn\<rparr>) st
      | (_, sn) \<Rightarrow> Some (parse_error, case sn of Some sn \<Rightarrow> pn\<lparr>n_sn := sn\<rparr> | None \<Rightarrow> pn, st))"

definition Parse_Real :: "'b parse_env \<Rightarrow> string \<Rightarrow> parse_pass \<Rightarrow> parsedname \<Rightarrow> 'b world fs_state \<Rightarrow> 'b parse_result" where
  "Parse_Real env pathnow remote_status pn st =
     (if rx_word ''simultaneous'' pathnow then
        Some (parse_prop, pn\<lparr>n_selected_device := Some (FS_devicefind env ''simultaneous'' ePN_real)\<rparr>, st)
      else if rx_word ''text'' pathnow then Some (parse_real, flag ePS_text pn, st)
      else if rx_word ''json'' pathnow then Some (parse_real, flag ePS_json pn, st)
      else if rx_word ''thermostat'' pathnow then
        Some (parse_prop, pn\<lparr>n_selected_device := Some (FS_devicefind env ''thermostat'' ePN_real)\<rparr>, st)
      else if rx_word ''uncached'' pathnow then Some (parse_real, flag ePS_uncached pn, st)
      else if rx_word ''unaliased'' pathnow then Some (parse_real, flag ePS_unaliased pn, st)
      else Parse_RealDevice env pathnow remote_status pn st)"

text \<open>The expression is \<^verbatim>\<open>^alarm?\<close>: the last letter may be missing.\<close>

definition Parse_Branch :: "'b parse_env \<Rightarrow> string \<Rightarrow> parse_pass \<Rightarrow> parsedname \<Rightarrow> 'b world fs_state \<Rightarrow> 'b parse_result" where
  "Parse_Branch env pathnow remote_status pn st =
     (if rx_word ''alar'' pathnow then Some (parse_real, (flag ePS_alarm pn)\<lparr>n_type := ePN_real\<rparr>, st)
      else Parse_Real env pathnow remote_status pn st)"

definition Parse_Unspecified :: "'b parse_env \<Rightarrow> string \<Rightarrow> parse_pass \<Rightarrow> parsedname \<Rightarrow> 'b world fs_state \<Rightarrow> 'b parse_result" where
  "Parse_Unspecified env pathnow remote_status pn st =
     (case ow_regexec (pv_fs env) 1 (rx_bus pathnow) st of
        (Some digits, st) \<Rightarrow> Some (Parse_Bus env (atoi digits) pn st)
      | (None, st) \<Rightarrow>
          let typed = (\<lambda>t. case set_type t pn of (pe, pn) \<Rightarrow> Some (pe, pn, st)) in
          if rx_word ''settings'' pathnow then typed ePN_settings
          else if rx_word ''statistics'' pathnow then typed ePN_statistics
          else if rx_word ''structure'' pathnow then typed ePN_structure
          else if rx_word ''system'' pathnow then typed ePN_system
          else if rx_word ''interface'' pathnow then
            if SpecifiedLocalBus pn \<or> SpecifiedRemoteBus pn then Some (parse_nonreal, pn\<lparr>n_type := ePN_interface\<rparr>, st) else Some (parse_error, pn, st)
          else if rx_word ''text'' pathnow then Some (parse_first, flag ePS_text pn, st)
          else if rx_word ''json'' pathnow then Some (parse_first, flag ePS_json pn, st)
          else if rx_word ''uncached'' pathnow then Some (parse_first, flag ePS_uncached pn, st)
          else if rx_word ''unaliased'' pathnow then Some (parse_first, flag ePS_unaliased pn, st)
          else Parse_Branch env pathnow remote_status (pn\<lparr>n_type := ePN_real\<rparr>) st)"

definition Parse_NonRealDevice :: "'b parse_env \<Rightarrow> string \<Rightarrow> parsedname \<Rightarrow> parse_enum \<times> parsedname" where
  "Parse_NonRealDevice env filename pn =
     (let d = FS_devicefind env filename (n_type pn) in
      (if d = UnknownDevice then parse_error else parse_prop,
       pn\<lparr>n_device_name := find_segment_in_path filename (n_path pn), n_selected_device := Some d\<rparr>))"

definition Parse_NonReal :: "'b parse_env \<Rightarrow> string \<Rightarrow> parsedname \<Rightarrow> parse_enum \<times> parsedname" where
  "Parse_NonReal env pathnow pn =
     (if rx_word ''text'' pathnow then (parse_nonreal, flag ePS_text pn)
      else if rx_word ''json'' pathnow then (parse_nonreal, flag ePS_json pn)
      else if rx_word ''uncached'' pathnow then (parse_nonreal, flag ePS_uncached pn)
      else if rx_word ''unaliased'' pathnow then (parse_nonreal, flag ePS_unaliased pn)
      else Parse_NonRealDevice env pathnow pn)"

section \<open>Properties\<close>

definition BRANCH_INCR :: nat where "BRANCH_INCR = 9"

definition BranchAdd :: "'b parse_env \<Rightarrow> file_type \<Rightarrow> parsedname \<Rightarrow> 'b world fs_state \<Rightarrow> int \<times> parsedname \<times> 'b world fs_state" where
  "BranchAdd env ft pn st =
     (case (if length (n_bp pn) mod BRANCH_INCR = 0 then owmalloc (pv_fs env) st else (True, st)) of (ok, st) \<Rightarrow>
        if ok
        then (0, pn\<lparr>n_bp := n_bp pn @ [\<lparr>hub_sn = take 8 (n_sn pn), hub_branch = f_branch ft\<rparr>], n_selected_filetype := None, n_selected_device := None\<rparr>, st)
        else (- 79, pn\<lparr>n_bp := []\<rparr>, st))"

text \<open>The number of an element, for an array that has one for each.\<close>

definition element_number :: "'b parse_env \<Rightarrow> file_type \<Rightarrow> string \<Rightarrow> 'b world fs_state \<Rightarrow> int option \<times> 'b world fs_state" where
  "element_number env ft filename st =
     (if f_letters ft then
        (case ow_regexec (pv_fs env) 0 (rx_letter filename) st of (c, st) \<Rightarrow> (map_option (\<lambda>c. int (of_char (toupper c)) - 65) c, st))
      else (case ow_regexec (pv_fs env) 0 (rx_number filename) st of (digits, st) \<Rightarrow> (map_option atoi digits, st)))"

text \<open>\<^const>\<open>None\<close> as extension: the syntax is bad. The whole is \<^const>\<open>None\<close> when the text of a sparse array is copied without memory.\<close>

definition Parse_Extension ::
  "'b parse_env \<Rightarrow> file_type \<Rightarrow> string \<Rightarrow> bool \<Rightarrow> parsedname \<Rightarrow> 'b world fs_state \<Rightarrow> (int option \<times> parsedname \<times> 'b world fs_state) option" where
  "Parse_Extension env ft filename extension_given pn st =
     (case ft_ag (f_type ft) of
        None \<Rightarrow> Some (if extension_given then None else Some 0, pn, st)
      | Some ag \<Rightarrow>
          if \<not> extension_given then Some (None, pn, st)
          else if ag_comb ag = ag_sparse then
            if f_letters ft then
              (case ow_regexec (pv_fs env) 0 (rx_extension filename) st of
                 (Some (_, post), st) \<Rightarrow>
                   (case owmalloc (pv_fs env) st of (ok, st) \<Rightarrow> Some (Some 0, pn\<lparr>n_sparse_name := if ok then Some post else None\<rparr>, st))
               | (None, st) \<Rightarrow> None)
            else
              (case ow_regexec (pv_fs env) 0 (rx_number filename) st of (digits, st) \<Rightarrow> Some (map_option atoi digits, pn, st))
          else if rx_suffix ''.all'' filename then Some (Some EXTENSION_ALL, pn, st)
          else if ft_form (f_type ft) = ft_bitfield \<and> rx_suffix ''.byte'' filename then Some (Some EXTENSION_BYTE, pn, st)
          else
            (case element_number env ft filename st of (ext, st) \<Rightarrow>
               Some (case ext of Some e \<Rightarrow> if e < 0 \<or> e \<ge> int (ag_elements ag) then None else Some e | None \<Rightarrow> None, pn, st)))"

text \<open>What follows a property that was found.\<close>

definition enter_property :: "'b parse_env \<Rightarrow> file_type \<Rightarrow> parsedname \<Rightarrow> 'b world fs_state \<Rightarrow> parse_enum \<times> parsedname \<times> 'b world fs_state" where
  "enter_property env ft pn st =
     (if ft_form (f_type ft) = ft_directory then
        if n_type pn = ePN_structure then (parse_done, pn, st)
        else (case BranchAdd env ft pn st of (ret, pn, st) \<Rightarrow> (if ret \<noteq> 0 then parse_error else parse_branch, pn, st))
      else if ft_form (f_type ft) = ft_subdir then (parse_subprop, pn\<lparr>n_subdir := Some ft, n_selected_filetype := None\<rparr>, st)
      else (parse_done, pn, st))"

definition Parse_Property :: "'b parse_env \<Rightarrow> string \<Rightarrow> parsedname \<Rightarrow> 'b world fs_state \<Rightarrow> 'b parse_result" where
  "Parse_Property env filename pn st =
     Option.bind (n_selected_device pn) (\<lambda>pdev.
       if pdev = RemoteDevice then Some (parse_done, pn, st)
       else
         (case ow_regexec (pv_fs env) 0 (rx_extension filename) st of (ext, st) \<Rightarrow>
            let ft = find_filetype env (case ext of Some (pre, _) \<Rightarrow> pre | None \<Rightarrow> filename) pdev; pn = pn\<lparr>n_selected_filetype := ft\<rparr> in
            (case ft of
               None \<Rightarrow> Some (parse_error, pn, st)
             | Some ft \<Rightarrow>
                 map_option (\<lambda>(e, pn, st).
                     case e of None \<Rightarrow> (parse_error, pn, st) | Some e \<Rightarrow> enter_property env ft (pn\<lparr>n_extension := e\<rparr>) st)
                   (Parse_Extension env ft filename (ext \<noteq> None) pn st))))"

section \<open>Paths\<close>

definition FS_ParsedName_destroy :: "parsedname \<Rightarrow> parsedname" where
  "FS_ParsedName_destroy pn = pn\<lparr>n_rlock := False, n_sparse_name := None, n_bp := []\<rparr>"

text \<open>The result, and the name, when there is nothing more to parse. \<open>pathnext\<close> is what is left.\<close>

definition parse_end :: "string option \<Rightarrow> parsedname \<Rightarrow> int \<times> parsedname" where
  "parse_end pathnext pn =
     (if pathnext \<noteq> None then (77, FS_ParsedName_destroy pn)
      else
        (0,
         if n_type pn = ePN_interface then
           if SpecifiedVeryRemoteBus pn then pn\<lparr>n_state := n_state pn - {ePS_busveryremote}\<rparr>
           else if SpecifiedRemoteBus pn then pn\<lparr>n_state := insert ePS_buslocal (n_state pn - {ePS_busremote})\<rparr>
           else pn
         else if n_type pn = ePN_root then pn\<lparr>n_type := ePN_real\<rparr>
         else if SpecifiedRemoteBus pn then flag ePS_busveryremote pn
         else pn))"

text \<open>One part of the path. \<open>pathlast\<close> is the property so far, with its subdirectories; \<open>pos\<close> is the position of the part.\<close>

definition parse_step ::
  "'b parse_env \<Rightarrow> parse_pass \<Rightarrow> parse_enum \<Rightarrow> string \<Rightarrow> nat \<Rightarrow> string \<Rightarrow> parsedname \<Rightarrow> 'b world fs_state \<Rightarrow>
     (parse_enum \<times> string \<times> parsedname \<times> 'b world fs_state) option" where
  "parse_step env remote_status pe pathnow pos pathlast pn st =
     (let kept = map_option (\<lambda>(pe, pn, st). (pe, pathlast, pn, st)) in
      case pe of
        parse_first \<Rightarrow> kept (Parse_Unspecified env pathnow remote_status pn st)
      | parse_real \<Rightarrow> kept (Parse_Real env pathnow remote_status pn st)
      | parse_branch \<Rightarrow> kept (Parse_Branch env pathnow remote_status pn st)
      | parse_nonreal \<Rightarrow> (case Parse_NonReal env pathnow pn of (pe, pn) \<Rightarrow> Some (pe, pathlast, pn, st))
      | parse_prop \<Rightarrow>
          map_option (\<lambda>(pe, pn, st). (pe, pathnow, pn, st)) (Parse_Property env pathnow (pn\<lparr>n_dirlength := int pos + 1\<rparr>) st)
      | parse_subprop \<Rightarrow>
          (let whole = pathlast @ ''/'' @ pathnow in map_option (\<lambda>(pe, pn, st). (pe, whole, pn, st)) (Parse_Property env whole pn st))
      | _ \<Rightarrow> Some (parse_error, pathlast, pn, st))"

lemma strsep_shorter: "snd (strsep s) = Some rest \<Longrightarrow> length rest < length s"
  using length_dropWhile_le [of "\<lambda>c. c \<noteq> CHR ''/''" s] by (auto simp: strsep_def split: list.splits)

function parse_loop ::
  "'b parse_env \<Rightarrow> parse_pass \<Rightarrow> parse_enum \<Rightarrow> string option \<Rightarrow> nat \<Rightarrow> string \<Rightarrow> parsedname \<Rightarrow> 'b world fs_state \<Rightarrow>
     (int \<times> parsedname \<times> 'b world fs_state) option" where
  "parse_loop env remote_status pe pathnext pos pathlast pn st =
     (if pe = parse_done then (case parse_end pathnext pn of (ret, pn) \<Rightarrow> Some (ret, pn, st))
      else if pe = parse_error then Some (27, FS_ParsedName_destroy pn, st)
      else
        case pathnext of
          None \<Rightarrow> (case parse_end None pn of (ret, pn) \<Rightarrow> Some (ret, pn, st))
        | Some s \<Rightarrow>
            let now = fst (strsep s); rest = snd (strsep s) in
            if now = [] then (case parse_end rest pn of (ret, pn) \<Rightarrow> Some (ret, pn, st))
            else
              Option.bind (parse_step env remote_status pe now pos pathlast pn st) (\<lambda>(pe, pathlast, pn, st).
                parse_loop env remote_status pe rest (pos + length now + 1) pathlast pn st))"
  by pat_completeness auto

termination
  by (relation "measure (\<lambda>(_, _, _, pathnext, _). case pathnext of None \<Rightarrow> 0 | Some s \<Rightarrow> length s + 1)")
    (auto split: option.splits dest: strsep_shorter)

declare parse_loop.simps [simp del]

definition FS_ParsedName_setup :: "'b parse_env \<Rightarrow> string \<Rightarrow> parsedname" where
  "FS_ParsedName_setup env path =
     (let p = ''/'' @ (case path of c # cs \<Rightarrow> if c = CHR ''/'' then cs else path | [] \<Rightarrow> []) in
      \<lparr>n_path = p, n_path_to_server = p, n_device_name = None, n_known_bus = None, n_type = ePN_root,
       n_state = (if pv_uncached env then {ePS_uncached} else {}) \<union> (if pv_unaliased env then {ePS_unaliased} else {}),
       n_sn = replicate 8 0, n_selected_device = None, n_selected_filetype = None, n_extension = 0, n_sparse_name = None, n_subdir = None,
       n_dirlength = int (length p), n_bp = [], n_connection = None, n_bus_list = True, n_rlock = True\<rparr>)"

text \<open>A path that is too long gives no name: \<^const>\<open>None\<close> in the place of the name.\<close>

definition FS_ParsedName_anywhere ::
  "'b parse_env \<Rightarrow> string \<Rightarrow> parse_pass \<Rightarrow> 'b world fs_state \<Rightarrow> (int \<times> parsedname option \<times> 'b world fs_state) option" where
  "FS_ParsedName_anywhere env path remote_status st =
     (if length path > PATH_MAX then Some (- 26, None, st)
      else
        let pn = FS_ParsedName_setup env path in
        map_option (\<lambda>(ret, pn, st). (ret, Some pn, st)) (parse_loop env remote_status parse_first (Some (tl (n_path pn))) 0 [] pn st))"

definition FS_ParsedName :: "'b parse_env \<Rightarrow> string \<Rightarrow> 'b world fs_state \<Rightarrow> (int \<times> parsedname option \<times> 'b world fs_state) option" where
  "FS_ParsedName env path = FS_ParsedName_anywhere env path parse_pass_pre_remote"

definition FS_ParsedName_BackFromRemote :: "'b parse_env \<Rightarrow> string \<Rightarrow> 'b world fs_state \<Rightarrow> (int \<times> parsedname option \<times> 'b world fs_state) option" where
  "FS_ParsedName_BackFromRemote env path = FS_ParsedName_anywhere env path parse_pass_post_remote"

text \<open>An empty path is read before its beginning.\<close>

definition FS_ParsedNamePlus :: "'b parse_env \<Rightarrow> string \<Rightarrow> string \<Rightarrow> 'b world fs_state \<Rightarrow> (int \<times> parsedname option \<times> 'b world fs_state) option" where
  "FS_ParsedNamePlus env path file st =
     (case owmalloc (pv_fs env) st of (ok, st) \<Rightarrow>
        if \<not> ok then Some (- 79, None, st)
        else if path = [] then None
        else FS_ParsedName env (path @ (if last path = CHR ''/'' then [] else ''/'') @ file) st)"

definition FS_ParsedNamePlusText ::
  "'b parse_env \<Rightarrow> string \<Rightarrow> string \<Rightarrow> string \<Rightarrow> 'b world fs_state \<Rightarrow> (int \<times> parsedname option \<times> 'b world fs_state) option" where
  "FS_ParsedNamePlusText env path file extension st =
     FS_ParsedNamePlus env path (take (OW_FULLNAME_MAX - 1) (file @ ''.'' @ extension)) st"

text \<open>The text of an extension.\<close>

definition extension_text :: "int \<Rightarrow> bool \<Rightarrow> string" where
  "extension_text extension letters =
     (if extension = EXTENSION_BYTE then ''BYTE'' else if extension = EXTENSION_ALL then ''ALL''
      else if letters then c_string [word_of_int (65 + extension)]
      else c_string (print_int extension))"

definition FS_ParsedNamePlusExt ::
  "'b parse_env \<Rightarrow> string \<Rightarrow> string \<Rightarrow> int \<Rightarrow> bool \<Rightarrow> 'b world fs_state \<Rightarrow> (int \<times> parsedname option \<times> 'b world fs_state) option" where
  "FS_ParsedNamePlusExt env path file extension letters st = FS_ParsedNamePlusText env path file (extension_text extension letters) st"

end
