(* ===== verification/OW_ParsePath.thy ===== *)
theory OW_ParsePath
  imports OW_ParseName OW_ValueText
begin

text \<open>A path that names a bus, the couplers on the way, a device and one of its properties is parsed to exactly these.\<close>

section \<open>Sorted tables\<close>

locale comparison =
  fixes cmp :: "'k \<Rightarrow> 'k \<Rightarrow> int"
  assumes cmp_eq: "cmp a b = 0 \<longleftrightarrow> a = b"
    and cmp_flip: "cmp a b < 0 \<longleftrightarrow> cmp b a > 0"
begin

lemma bsearch_finds:
  assumes "sorted_wrt (\<lambda>x y. cmp (key x) (key y) < 0) arr" and "l \<le> k" and "k < u" and "u \<le> length arr"
  shows "bsearch (\<lambda>x. cmp (key (arr ! k)) (key x)) arr l u = Some (arr ! k)"
  using assms(2-)
proof (induction "u - l" arbitrary: l u rule: less_induct)
  case less
  let ?i = "(l + u) div 2"
  have less_i: "cmp (key (arr ! i)) (key (arr ! j)) < 0" if "i < j" "j < length arr" for i j
    using sorted_wrt_nth_less [OF assms(1) that] .
  have i: "l \<le> ?i" "?i < u" using less.prems by auto
  consider "k < ?i" | "k = ?i" | "?i < k" by linarith
  then show ?case
  proof cases
    case 1
    have "cmp (key (arr ! k)) (key (arr ! ?i)) < 0" using less_i [OF 1] i less.prems by simp
    moreover have "bsearch (\<lambda>x. cmp (key (arr ! k)) (key x)) arr l ?i = Some (arr ! k)" using 1 i less.prems by (intro less.hyps) auto
    ultimately show ?thesis using i by (subst bsearch.simps) (simp add: Let_def)
  next
    case 2
    moreover have "cmp x x = 0" for x using cmp_eq by simp
    ultimately show ?thesis using i by (subst bsearch.simps) (simp add: Let_def)
  next
    case 3
    have "cmp (key (arr ! k)) (key (arr ! ?i)) > 0" using less_i [OF 3] less.prems cmp_flip by simp
    moreover have "bsearch (\<lambda>x. cmp (key (arr ! k)) (key x)) arr (?i + 1) u = Some (arr ! k)" using 3 i less.prems by (intro less.hyps) auto
    ultimately show ?thesis using i by (subst bsearch.simps) (simp add: Let_def)
  qed
qed

end

interpretation names: comparison strcmp
proof
  show "strcmp a b = 0 \<longleftrightarrow> a = b" for a b by (induction a b rule: strcmp.induct) auto
  show "strcmp a b < 0 \<longleftrightarrow> strcmp b a > 0" for a b
  proof (induction a b rule: strcmp.induct)
    case (4 a s b t)
    then show ?case using of_char_eq_iff [of a b, where ?'a = nat] by auto
  qed auto
qed

definition sorted_files :: "file_type list \<Rightarrow> bool" where
  "sorted_files fs \<longleftrightarrow> sorted_wrt (\<lambda>f g. strcmp (f_name f) (f_name g) < 0) fs"

lemma find_filetype_listed:
  assumes "sorted_files (filetype_array d)" and "ft \<in> set (filetype_array d)"
  shows "find_filetype env (f_name ft) (Listed d) = Some ft"
proof -
  obtain k where k: "k < length (filetype_array d)" "filetype_array d ! k = ft" using assms(2) by (auto simp: in_set_conv_nth)
  have "filetype_cmp (f_name ft) = (\<lambda>x. strcmp (f_name (filetype_array d ! k)) (f_name x))" using k(2) by (simp add: filetype_cmp_def fun_eq_iff)
  then show ?thesis using names.bsearch_finds [of f_name "filetype_array d" 0 k "length (filetype_array d)"] assms(1) k
    by (simp add: find_filetype_def device_files_def sorted_files_def)
qed

section \<open>Slashes and dots\<close>

lemma while_not:
  assumes "x \<notin> set s"
  shows "takeWhile (\<lambda>c. c \<noteq> x) (s @ x # t) = s" and "dropWhile (\<lambda>c. c \<noteq> x) (s @ x # t) = x # t"
    and "takeWhile (\<lambda>c. c \<noteq> x) s = s" and "dropWhile (\<lambda>c. c \<noteq> x) s = []"
  using assms by (induction s) auto

fun join :: "string list \<Rightarrow> string" where
  "join [] = []"
| "join [s] = s"
| "join (s # ss) = s @ ''/'' @ join ss"

definition rest_path :: "string list \<Rightarrow> string option" where
  "rest_path ss = (if ss = [] then None else Some (join ss))"

definition segment :: "string \<Rightarrow> bool" where
  "segment s \<longleftrightarrow> s \<noteq> [] \<and> CHR ''/'' \<notin> set s"

lemma join_Cons: "join (s # ss) = (if ss = [] then s else s @ ''/'' @ join ss)"
  by (cases ss) simp_all

lemma strsep_join: "segment s \<Longrightarrow> strsep (join (s # ss)) = (s, rest_path ss)"
  by (simp add: join_Cons strsep_def segment_def rest_path_def while_not)

lemma parse_loop_segment:
  assumes "segment s" and "pe \<noteq> parse_done" and "pe \<noteq> parse_error"
  shows "parse_loop env rs pe (rest_path (s # ss)) pos lst pn st =
    Option.bind (parse_step env rs pe s pos lst pn st) (\<lambda>(pe, lst, pn, st). parse_loop env rs pe (rest_path ss) (pos + length s + 1) lst pn st)"
  using assms strsep_join [OF assms(1), of ss] by (subst parse_loop.simps) (simp add: rest_path_def segment_def Let_def)

definition dotless :: "string \<Rightarrow> bool" where
  "dotless s \<longleftrightarrow> CHR ''.'' \<notin> set s"

lemma rx_extension_dot: "dotless s \<Longrightarrow> rx_extension (s @ ''.'' @ t) = Some (s, t)"
  by (simp add: rx_extension_def dotless_def while_not)

lemma rx_extension_none: "dotless s \<Longrightarrow> rx_extension s = None"
  by (simp add: rx_extension_def dotless_def while_not)

lemma tolower_dot: "tolower c = CHR ''.'' \<longleftrightarrow> c = CHR ''.''"
proof -
  have "(of_char (tolower c) :: nat) = 46 \<longleftrightarrow> (of_char c :: nat) = 46" by (auto simp: tolower_def Let_def)
  moreover have "(of_char (CHR ''.'') :: nat) = 46" by simp
  ultimately show ?thesis by (metis of_char_eq_iff)
qed

lemma dotless_tolower: "dotless (map tolower s) \<longleftrightarrow> dotless s"
  unfolding dotless_def set_map image_iff using tolower_dot by metis

lemma last_dot:
  assumes "a @ ''.'' @ x = s @ ''.'' @ t" and "dotless x" and "dotless t"
  shows "x = t"
proof -
  have rev_while: "takeWhile (\<lambda>c. c \<noteq> CHR ''.'') (rev (a @ ''.'' @ x)) = rev x" if "dotless x" for a x
    using that while_not(1) [of "CHR ''.''" "rev x" "rev a"] by (simp add: dotless_def)
  show ?thesis using rev_while [OF assms(2), of a] rev_while [OF assms(3), of s] unfolding assms(1) by simp
qed

lemma rx_suffix_dot:
  assumes "dotless s" and "dotless t" and "dotless w"
  shows "rx_suffix (''.'' @ w) (s @ ''.'' @ t) \<longleftrightarrow> map tolower t = w"
proof
  let ?f = "s @ ''.'' @ t" and ?w = "''.'' @ w"
  assume suffix: "rx_suffix ?w ?f"
  define x where "x = drop (length ?f - length ?w) ?f"
  have "map tolower x = ?w" using suffix by (simp add: rx_suffix_def x_def)
  then obtain c y where x: "x = c # y" "tolower c = CHR ''.''" "map tolower y = w" by (cases x) auto
  have "take (length ?f - length ?w) ?f @ x = ?f" unfolding x_def by (rule append_take_drop_id)
  then have "take (length ?f - length ?w) ?f @ ''.'' @ y = ?f" using x(1,2) tolower_dot by simp
  moreover have "dotless y" using x(3) assms(3) dotless_tolower by blast
  ultimately have "y = t" using last_dot assms(2) by blast
  then show "map tolower t = w" using x(3) by simp
next
  assume "map tolower t = w"
  then have "length w = length t" by auto
  then show "rx_suffix (''.'' @ w) (s @ ''.'' @ t)" using \<open>map tolower t = w\<close> by (simp add: rx_suffix_def tolower_def)
qed

lemma digit_dot: "\<not> digit (CHR ''.'')"
  by (simp add: digit_def)

lemma rx_number_dot:
  assumes "t \<noteq> []" and "list_all digit t"
  shows "rx_number (s @ ''.'' @ t) = Some t"
proof -
  have "takeWhile digit (rev (s @ ''.'' @ t)) = rev t" using assms(2) digit_dot takeWhile_append2 [of "rev t" digit "''.'' @ rev s"] by (simp add: list_all_iff)
  then show ?thesis using assms(1) by (simp add: rx_number_def Let_def)
qed

section \<open>Numbers and letters\<close>

lemma byte_bound: "unat (b :: byte) < 256"
  using unsigned_less [of b] by simp

lemma str_bytes_c_string: "0 \<notin> set bs \<Longrightarrow> str_bytes (c_string bs) = bs"
proof -
  assume "0 \<notin> set bs"
  then have "takeWhile (\<lambda>b. b \<noteq> 0) bs = bs" by (auto simp: takeWhile_eq_all_conv)
  moreover have "of_nat (of_char (char_of (unat b) :: char)) = b" for b :: byte using byte_bound [of b] by simp
  ultimately show ?thesis by (simp add: str_bytes_def c_string_def map_idI)
qed

lemma c_string_print:
  assumes "0 \<le> e"
  shows "list_all digit (c_string (print_int e))" and "c_string (print_int e) \<noteq> []" and "dotless (c_string (print_int e))"
    and "CHR ''/'' \<notin> set (c_string (print_int e))" and "e < 2 ^ 31 \<Longrightarrow> atoi (c_string (print_int e)) = e"
proof -
  have no0: "0 \<notin> set (print_int e)" by (rule print_int_no_special)
  then have c: "c_string (print_int e) = map (\<lambda>b. char_of (unat b)) (print_int e)" by (auto simp: c_string_def takeWhile_eq_all_conv intro: arg_cong)
  have d: "\<forall>b \<in> set (print_int e). isdigit b" using assms print_nat_digits by (simp add: print_int_def)
  have "digit (char_of (unat b))" if "isdigit b" for b :: byte
    using that byte_bound [of b] by (simp add: digit_def isdigit_def word_le_nat_alt Let_def)
  then show all: "list_all digit (c_string (print_int e))" using d by (simp add: c list_all_iff)
  show "c_string (print_int e) \<noteq> []" by (simp add: c)
  show "dotless (c_string (print_int e))" "CHR ''/'' \<notin> set (c_string (print_int e))" using all by (auto simp: dotless_def list_all_iff digit_def)
  assume e: "e < 2 ^ 31"
  have "fst (strtol (print_int e)) = e" using strtol_print [of e 0] assms e by simp
  then show "atoi (c_string (print_int e)) = e" using assms e by (simp add: atoi_def str_bytes_c_string [OF no0] int_word_sint)
qed

lemma c_string_letter:
  assumes "0 \<le> e" and "e < 26"
  obtains c where "c_string [word_of_int (65 + e)] = [c]" and "isalpha c" and "int (of_char (toupper c)) - 65 = e" and "c \<noteq> CHR ''.''" and "c \<noteq> CHR ''/''"
proof -
  define n where "n = nat (65 + e)"
  have n: "65 \<le> n" "n < 91" "65 + e = int n" using assms by (auto simp: n_def)
  have u: "unat (word_of_int (65 + e) :: byte) = n" using n by (simp add: unat_of_nat)
  then have "(word_of_int (65 + e) :: byte) \<noteq> 0" using n by (metis not_numeral_le_zero unat_0)
  then have "c_string [word_of_int (65 + e)] = [char_of n]" using u by (simp add: c_string_def)
  moreover have cn: "(of_char (char_of n :: char) :: nat) = n" using n by simp
  moreover from cn have "char_of n \<noteq> CHR ''.''" "char_of n \<noteq> CHR ''/''" using n(1) by (auto dest: arg_cong [where f = "of_char :: char \<Rightarrow> nat"])
  ultimately show ?thesis using n assms by (intro that [of "char_of n"]) (auto simp: isalpha_def toupper_def Let_def)
qed

section \<open>Devices\<close>

lemma owmallocs_ok: "(\<And>i. e_alloc env i) \<Longrightarrow> owmallocs env n st = (True, st\<lparr>fs_allocs := fs_allocs st + n\<rparr>)"
  by (induction n arbitrary: st) (simp_all add: owmalloc_def)

lemma ow_regexec_ok:
  "(\<And>i. e_alloc env i) \<Longrightarrow> \<exists>m. ow_regexec env n g st = (g, st\<lparr>fs_allocs := m\<rparr>)"
  by (cases g) (auto simp: ow_regexec_def owmallocs_ok simp del: owmallocs.simps intro: exI [of _ "fs_allocs st"])

definition hex_code :: "char \<Rightarrow> bool" where
  "hex_code c \<longleftrightarrow> (of_char c :: nat) \<in> {48..57} \<union> {97..102}"

lemma hex_no_word:
  assumes "isxdigit a" and "isxdigit b" and "2 \<le> length w" and "rx_word w (a # b # r)"
  shows "hex_code (w ! 0) \<and> hex_code (w ! 1)"
proof -
  obtain x y v where w: "w = x # y # v" using assms(3) by (metis Suc_le_length_iff numeral_2_eq_2)
  then have "tolower a = x" "tolower b = y" using assms(4) by (simp_all add: rx_word_def)
  moreover have "hex_code (tolower c)" if "isxdigit c" for c using that by (auto simp: hex_code_def isxdigit_def tolower_def Let_def)
  ultimately show ?thesis using assms(1,2) w by auto
qed

lemma devicename_start:
  assumes "length sn = 8"
  obtains a b r where "FS_devicename fmt sn = a # b # r" and "isxdigit a" and "isxdigit b"
proof -
  obtain x xs where sn: "sn = x # xs" using assms by (cases sn) auto
  have "\<exists>r. FS_devicename fmt sn = num2string x @ r" by (cases fmt) (simp_all add: sn)
  then show ?thesis using that isxdigit_tohexchar xdigits_num2string [of x] by (auto simp: num2string_def xdigits_def)
qed

lemma devicename_segment:
  assumes "length sn = 8"
  shows "segment (FS_devicename fmt sn)"
proof -
  have no: "CHR ''/'' \<notin> set (bytes2string bs)" "CHR ''/'' \<notin> set (num2string b)" for bs b
    using list_all_bytes2string [of bs] xdigits_num2string [of b] by (auto simp: list_all_iff xdigits_def isxdigit_def)
  then have "CHR ''/'' \<notin> set (FS_devicename fmt sn)" by (cases fmt) simp_all
  moreover have "FS_devicename fmt sn \<noteq> []" using devicename_start [OF assms] by (metis list.distinct(1))
  ultimately show ?thesis by (simp add: segment_def)
qed

lemma devicename_no_word:
  assumes "length sn = 8"
    and "w \<in> {''bus.'', ''settings'', ''statistics'', ''structure'', ''system'', ''interface'', ''text'', ''json'', ''uncached'', ''unaliased'', ''alar'', ''simultaneous'', ''thermostat''}"
  shows "\<not> rx_word w (FS_devicename fmt sn)"
proof
  assume "rx_word w (FS_devicename fmt sn)"
  moreover obtain a b r where "FS_devicename fmt sn = a # b # r" "isxdigit a" "isxdigit b" using devicename_start [OF assms(1)] by metis
  moreover have "2 \<le> length w" using assms(2) by auto
  ultimately have "hex_code (w ! 0) \<and> hex_code (w ! 1)" using hex_no_word by metis
  then show False using assms(2) by (auto simp: hex_code_def)
qed

text \<open>A name that is on its way below a bus.\<close>

definition on_bus :: "int \<Rightarrow> bus_mode \<Rightarrow> parsedname \<Rightarrow> bool" where
  "on_bus i mode pn \<longleftrightarrow> i \<noteq> INDEX_BAD \<and> ePS_bus \<in> n_state pn \<and> n_known_bus pn = Some i \<and> n_connection pn = Some (i, mode)"

definition same_place :: "parsedname \<Rightarrow> parsedname \<Rightarrow> bool" where
  "same_place pn pn' \<longleftrightarrow>
     n_path pn' = n_path pn \<and> n_path_to_server pn' = n_path_to_server pn \<and> n_state pn' = n_state pn
   \<and> n_known_bus pn' = n_known_bus pn \<and> n_connection pn' = n_connection pn \<and> n_rlock pn' = n_rlock pn"

definition chip :: "'b parse_env \<Rightarrow> byte list \<Rightarrow> device \<Rightarrow> bool" where
  "chip env sn d \<longleftrightarrow> length sn = 8 \<and> CRC8compute sn 0 = 0 \<and> tfind (num2string (sn ! 0)) (pv_Tree env ePN_real) = Some d \<and> sorted_files (filetype_array d)"

lemma known_location: "on_bus i mode pn \<Longrightarrow> with_location (presence_name env pn) pn = pn"
  by (simp add: on_bus_def with_location_def presence_name_def insert_absorb)

lemma CheckPresence_known:
  assumes "on_bus i mode pn"
  shows "\<exists>r. CheckPresence fenv fuel ports th (presence_name env pn) st = Some (r, presence_name env pn, st) \<and> INDEX_VALID r"
  using assms by (auto simp: CheckPresence_def on_bus_def presence_name_def INDEX_VALID_def INDEX_DEFAULT_def INDEX_BAD_def)

lemma device_step:
  assumes "chip env sn d" and "on_bus i mode pn" and "\<not> pv_one_device env" and "pe \<in> {parse_first, parse_branch, parse_real}" and "pe \<noteq> parse_first \<Longrightarrow> n_type pn = ePN_real"
  shows "\<exists>pn'. parse_step env parse_pass_pre_remote pe (FS_devicename fmt sn) pos lst pn st = Some (parse_prop, lst, pn', st)
    \<and> same_place pn pn' \<and> n_type pn' = ePN_real \<and> n_sn pn' = sn \<and> n_selected_device pn' = Some (Listed d) \<and> n_bp pn' = n_bp pn"
proof -
  have len: "length sn = 8" and sn: "Parse_SerialNumber (Some (FS_devicename fmt sn)) = (sn_valid, Some sn)"
    using assms(1) devicename_parsed by (auto simp: chip_def)
  note nw = devicename_no_word [OF len, where fmt = fmt]
  let ?pn = "pn\<lparr>n_type := ePN_real, n_device_name := find_segment_in_path (FS_devicename fmt sn) (n_path pn), n_sn := sn, n_selected_device := Some (Listed d)\<rparr>"
  have bus: "on_bus i mode ?pn" using assms(2) by (simp add: on_bus_def)
  have dev: "FS_devicefindhex env (sn ! 0) pn' = Listed d" if "n_type pn' = ePN_real" for pn'
    using assms(1) that by (simp add: chip_def FS_devicefindhex_def)
  have "Parse_RealDevice env (FS_devicename fmt sn) parse_pass_pre_remote (pn\<lparr>n_type := ePN_real\<rparr>) st = Some (parse_prop, ?pn, st)"
    using sn dev CheckPresence_known [OF bus, of "pv_fs env" "pv_fuel env" "pv_ports env" "pv_threads env" env st] known_location [OF bus, of env] assms(3)
    by (auto simp: Parse_RealDevice_def Parse_RealDeviceSN_def Let_def)
  then have real: "Parse_Real env (FS_devicename fmt sn) parse_pass_pre_remote (pn\<lparr>n_type := ePN_real\<rparr>) st = Some (parse_prop, ?pn, st)"
    by (simp add: Parse_Real_def nw)
  then have branch: "Parse_Branch env (FS_devicename fmt sn) parse_pass_pre_remote (pn\<lparr>n_type := ePN_real\<rparr>) st = Some (parse_prop, ?pn, st)"
    by (simp add: Parse_Branch_def nw)
  then have first: "Parse_Unspecified env (FS_devicename fmt sn) parse_pass_pre_remote pn st = Some (parse_prop, ?pn, st)"
    by (simp add: Parse_Unspecified_def rx_bus_def ow_regexec_def nw Let_def)
  show ?thesis
  proof (cases "pe = parse_first")
    case True
    then show ?thesis using first by (auto simp: parse_step_def same_place_def Let_def)
  next
    case False
    then have same: "pn\<lparr>n_type := ePN_real\<rparr> = pn" using assms(5) by (cases pn) simp
    then have "Parse_Real env (FS_devicename fmt sn) parse_pass_pre_remote pn st = Some (parse_prop, ?pn, st)"
      "Parse_Branch env (FS_devicename fmt sn) parse_pass_pre_remote pn st = Some (parse_prop, ?pn, st)" using real branch by simp_all
    moreover have "same_place pn ?pn \<and> n_type ?pn = ePN_real \<and> n_sn ?pn = sn \<and> n_selected_device ?pn = Some (Listed d) \<and> n_bp ?pn = n_bp pn"
      by (simp add: same_place_def)
    ultimately show ?thesis using False assms(4) unfolding parse_step_def Let_def by (intro exI [of _ ?pn]) auto
  qed
qed

section \<open>Properties\<close>

definition valid_extension :: "file_type \<Rightarrow> int \<Rightarrow> bool" where
  "valid_extension ft e \<longleftrightarrow>
     (case ft_ag (f_type ft) of
        None \<Rightarrow> e = 0
      | Some ag \<Rightarrow>
          ag_comb ag \<noteq> ag_sparse \<and> ag_elements ag < 2 ^ 31 \<and> (f_letters ft \<longrightarrow> ag_elements ag \<le> 26)
        \<and> (e = EXTENSION_ALL \<or> e = EXTENSION_BYTE \<and> ft_form (f_type ft) = ft_bitfield \<or> 0 \<le> e \<and> e < int (ag_elements ag)))"

definition file_extension :: "file_type \<Rightarrow> int \<Rightarrow> string" where
  "file_extension ft e = (if ft_ag (f_type ft) = None then [] else ''.'' @ extension_text e (f_letters ft))"

lemma element_parsed:
  assumes "\<And>i. e_alloc (pv_fs env) i" and "valid_extension ft e" and "ft_ag (f_type ft) = Some ag" and "0 \<le> e" and "e < int (ag_elements ag)"
  shows "(\<exists>m. element_number env ft (name @ ''.'' @ extension_text e (f_letters ft)) st = (Some e, st\<lparr>fs_allocs := m\<rparr>))
    \<and> dotless (extension_text e (f_letters ft)) \<and> map tolower (extension_text e (f_letters ft)) \<notin> {''all'', ''byte''}"
proof -
  let ?x = "extension_text e (f_letters ft)"
  have x: "?x = (if f_letters ft then c_string [word_of_int (65 + e)] else c_string (print_int e))"
    using assms(4) by (simp add: extension_text_def EXTENSION_ALL_def EXTENSION_BYTE_def)
  have e: "e < 2 ^ 31" "f_letters ft \<Longrightarrow> e < 26" using assms(2,3,5) by (auto simp: valid_extension_def)
  show ?thesis
  proof (cases "f_letters ft")
    case True
    obtain c where c: "c_string [word_of_int (65 + e)] = [c]" "isalpha c" "int (of_char (toupper c)) - 65 = e" "c \<noteq> CHR ''.''" "c \<noteq> CHR ''/''"
      using c_string_letter [OF assms(4) e(2) [OF True]] by metis
    have "rx_letter (name @ ''.'' @ [c]) = Some c" using c(2) by (simp add: rx_letter_def)
    then show ?thesis using True x c ow_regexec_ok [OF assms(1), where n = 0 and g = "Some c" and st = st] by (auto simp: element_number_def dotless_def)
  next
    case False
    note p = c_string_print [OF assms(4)]
    obtain ch r where cr: "c_string (print_int e) = ch # r" using p(2) by (cases "c_string (print_int e)") auto
    have "digit ch" using p(1) cr by simp
    then have "tolower ch \<noteq> CHR ''a''" "tolower ch \<noteq> CHR ''b''" by (auto simp: digit_def tolower_def Let_def)
    moreover have "rx_number (name @ ''.'' @ ?x) = Some ?x" using rx_number_dot p(1,2) x False by simp
    ultimately show ?thesis using False x p(3) p(5) [OF e(1)] cr ow_regexec_ok [OF assms(1), where n = 0 and g = "Some ?x" and st = st] by (auto simp: element_number_def map_eq_Cons_conv)
  qed
qed

lemma extension_parsed:
  assumes "\<And>i. e_alloc (pv_fs env) i" and "valid_extension ft e" and "dotless name"
  shows "\<exists>m. Parse_Extension env ft (name @ file_extension ft e) (ft_ag (f_type ft) \<noteq> None) pn st = Some (Some e, pn, st\<lparr>fs_allocs := m\<rparr>)"
proof (cases "ft_ag (f_type ft)")
  case None
  then show ?thesis using assms(2) by (auto simp: Parse_Extension_def valid_extension_def intro: exI [of _ "fs_allocs st"])
next
  case (Some ag)
  let ?x = "extension_text e (f_letters ft)" and ?name = "name @ ''.'' @ extension_text e (f_letters ft)"
  have v: "ag_comb ag \<noteq> ag_sparse" using assms(2) Some by (simp add: valid_extension_def)
  have suffix: "rx_suffix ''.all'' ?name \<longleftrightarrow> map tolower ?x = ''all''" "rx_suffix ''.byte'' ?name \<longleftrightarrow> map tolower ?x = ''byte''" if "dotless ?x"
    using rx_suffix_dot [OF assms(3) that, of "''all''"] rx_suffix_dot [OF assms(3) that, of "''byte''"] by (simp_all add: dotless_def)
  consider "e = EXTENSION_ALL" | "e = EXTENSION_BYTE" "ft_form (f_type ft) = ft_bitfield" | "0 \<le> e" "e < int (ag_elements ag)"
    using assms(2) Some by (auto simp: valid_extension_def)
  then show ?thesis
  proof cases
    case 1
    then have "?x = ''ALL''" "map tolower ''ALL'' = ''all''" by (simp add: extension_text_def EXTENSION_ALL_def EXTENSION_BYTE_def) code_simp
    then show ?thesis using 1 Some v suffix(1) by (auto simp: Parse_Extension_def file_extension_def dotless_def intro: exI [of _ "fs_allocs st"])
  next
    case 2
    then have "?x = ''BYTE''" "map tolower ''BYTE'' = ''byte''" by (simp add: extension_text_def) code_simp
    then show ?thesis using 2 Some v suffix by (auto simp: Parse_Extension_def file_extension_def dotless_def intro: exI [of _ "fs_allocs st"])
  next
    case 3
    note el = element_parsed [OF assms(1) assms(2) Some 3, where name = name and st = st]
    then obtain m where "element_number env ft ?name st = (Some e, st\<lparr>fs_allocs := m\<rparr>)" by blast
    moreover have no: "dotless ?x" "map tolower ?x \<notin> {''all'', ''byte''}" using conjunct1 [OF conjunct2 [OF el]] conjunct2 [OF conjunct2 [OF el]] by auto
    ultimately show ?thesis using Some v suffix [OF no(1)] no 3 by (auto simp: Parse_Extension_def file_extension_def)
  qed
qed

lemma property_parsed:
  assumes "\<And>i. e_alloc (pv_fs env) i" and "sorted_files (filetype_array d)" and "n_selected_device pn = Some (Listed d)" and "ft \<in> set (filetype_array d)"
    and "dotless (f_name ft)" and "valid_extension ft e"
  shows "\<exists>m. Parse_Property env (f_name ft @ file_extension ft e) pn st =
    Some (enter_property env ft (pn\<lparr>n_selected_filetype := Some ft, n_extension := e\<rparr>) (st\<lparr>fs_allocs := m\<rparr>))"
proof -
  let ?name = "f_name ft @ file_extension ft e" and ?pn = "pn\<lparr>n_selected_filetype := Some ft\<rparr>"
  have rx: "rx_extension ?name = (if ft_ag (f_type ft) = None then None else Some (f_name ft, extension_text e (f_letters ft)))"
    using rx_extension_none [OF assms(5)] rx_extension_dot [OF assms(5)] by (simp add: file_extension_def)
  obtain m1 where m1: "ow_regexec (pv_fs env) 0 (rx_extension ?name) st = (rx_extension ?name, st\<lparr>fs_allocs := m1\<rparr>)"
    using ow_regexec_ok [OF assms(1)] by blast
  obtain m2 where m2: "Parse_Extension env ft ?name (ft_ag (f_type ft) \<noteq> None) ?pn (st\<lparr>fs_allocs := m1\<rparr>) = Some (Some e, ?pn, st\<lparr>fs_allocs := m2\<rparr>)"
    using extension_parsed [OF assms(1,6,5), of ?pn "st\<lparr>fs_allocs := m1\<rparr>"] by auto
  have "find_filetype env (case rx_extension ?name of None \<Rightarrow> ?name | Some (pre, _) \<Rightarrow> pre) (Listed d) = Some ft"
    using find_filetype_listed [OF assms(2,4), of env] unfolding rx by (simp add: file_extension_def)
  moreover have "(rx_extension ?name \<noteq> None) = (ft_ag (f_type ft) \<noteq> None)" using rx by simp
  ultimately show ?thesis using m1 m2 assms(3) by (auto simp: Parse_Property_def Let_def intro: exI [of _ m2])
qed

section \<open>Couplers\<close>

record coupler =
  c_sn :: "byte list"
  c_device :: device
  c_file :: file_type

definition coupler_ok :: "'b parse_env \<Rightarrow> coupler \<Rightarrow> bool" where
  "coupler_ok env c \<longleftrightarrow>
     chip env (c_sn c) (c_device c) \<and> c_file c \<in> set (filetype_array (c_device c)) \<and> segment (f_name (c_file c)) \<and> dotless (f_name (c_file c))
   \<and> ft_ag (f_type (c_file c)) = None \<and> ft_form (f_type (c_file c)) = ft_directory"

definition coupler_hub :: "coupler \<Rightarrow> ds2409_hubs" where
  "coupler_hub c = \<lparr>hub_sn = c_sn c, hub_branch = f_branch (c_file c)\<rparr>"

definition coupler_segments :: "deviceformat \<Rightarrow> coupler \<Rightarrow> string list" where
  "coupler_segments fmt c = [FS_devicename fmt (c_sn c), f_name (c_file c)]"

lemma branch_step:
  assumes "\<And>i. e_alloc (pv_fs env) i" and "coupler_ok env c" and "n_selected_device pn = Some (Listed (c_device c))" and "n_sn pn = c_sn c" and "n_type pn = ePN_real"
  shows "\<exists>pn' m. parse_step env rs parse_prop (f_name (c_file c)) pos lst pn st = Some (parse_branch, f_name (c_file c), pn', st\<lparr>fs_allocs := m\<rparr>)
    \<and> same_place pn pn' \<and> n_type pn' = ePN_real \<and> n_bp pn' = n_bp pn @ [coupler_hub c]"
proof -
  let ?ft = "c_file c" let ?pn = "pn\<lparr>n_dirlength := int pos + 1\<rparr>"
  have c: "sorted_files (filetype_array (c_device c))" "?ft \<in> set (filetype_array (c_device c))" "dotless (f_name ?ft)" "valid_extension ?ft 0" "file_extension ?ft 0 = []"
    "ft_form (f_type ?ft) = ft_directory" "length (c_sn c) = 8"
    using assms(2) by (auto simp: coupler_ok_def chip_def valid_extension_def file_extension_def)
  have "n_selected_device ?pn = Some (Listed (c_device c))" using assms(3) by simp
  from property_parsed [OF assms(1) c(1) this c(2-4), of st, unfolded c(5) append_Nil2]
  obtain m where m: "Parse_Property env (f_name ?ft) ?pn st =
      Some (enter_property env ?ft (?pn\<lparr>n_selected_filetype := Some ?ft, n_extension := 0\<rparr>) (st\<lparr>fs_allocs := m\<rparr>))" by blast
  show ?thesis unfolding parse_step_def Let_def using m c(6,7) assms(1,4,5)
    by (auto simp: enter_property_def BranchAdd_def owmalloc_def same_place_def coupler_hub_def)
qed

lemma couplers_loop:
  assumes "\<And>i. e_alloc (pv_fs env) i" and "\<not> pv_one_device env" and "\<forall>c \<in> set hubs. coupler_ok env c"
    and "on_bus i mode pn" and "pe \<in> {parse_first, parse_branch}" and "pe = parse_branch \<longrightarrow> n_type pn = ePN_real"
  shows "\<exists>pe' pos' lst' pn' m. parse_loop env parse_pass_pre_remote pe (rest_path (concat (map (coupler_segments fmt) hubs) @ ss)) pos lst pn st
      = parse_loop env parse_pass_pre_remote pe' (rest_path ss) pos' lst' pn' (st\<lparr>fs_allocs := m\<rparr>)
    \<and> pe' \<in> {parse_first, parse_branch} \<and> (pe' = parse_branch \<longrightarrow> n_type pn' = ePN_real) \<and> same_place pn pn' \<and> n_bp pn' = n_bp pn @ map coupler_hub hubs"
  using assms(3-)
proof (induction hubs arbitrary: pe pos lst pn st)
  case Nil
  have "st = st\<lparr>fs_allocs := fs_allocs st\<rparr>" by simp
  then show ?case using Nil.prems by (intro exI [of _ pe] exI [of _ pos] exI [of _ lst] exI [of _ pn] exI [of _ "fs_allocs st"]) (simp add: same_place_def)
next
  case (Cons c hubs)
  let ?name = "FS_devicename fmt (c_sn c)" let ?branch = "f_name (c_file c)" let ?more = "concat (map (coupler_segments fmt) hubs) @ ss"
  have ok: "coupler_ok env c" "chip env (c_sn c) (c_device c)" "segment ?name" "segment ?branch"
    using Cons.prems(1) devicename_segment [of "c_sn c" fmt] by (auto simp: coupler_ok_def chip_def)
  obtain pn1 where pn1: "parse_step env parse_pass_pre_remote pe ?name pos lst pn st = Some (parse_prop, lst, pn1, st)" "same_place pn pn1" "n_type pn1 = ePN_real"
    "n_sn pn1 = c_sn c" "n_selected_device pn1 = Some (Listed (c_device c))" "n_bp pn1 = n_bp pn"
    using device_step [OF ok(2) Cons.prems(2) assms(2), of pe fmt pos lst st] Cons.prems(3,4) by auto
  let ?pos1 = "pos + length ?name + 1"
  obtain pn2 m where pn2: "parse_step env parse_pass_pre_remote parse_prop ?branch ?pos1 lst pn1 st = Some (parse_branch, ?branch, pn2, st\<lparr>fs_allocs := m\<rparr>)"
    "same_place pn1 pn2" "n_type pn2 = ePN_real" "n_bp pn2 = n_bp pn1 @ [coupler_hub c]"
    using branch_step [OF assms(1) ok(1) pn1(5,4,3), of parse_pass_pre_remote ?pos1 lst st] by blast
  have same: "same_place pn pn2" using pn1(2) pn2(2) by (simp add: same_place_def)
  then have "on_bus i mode pn2" using Cons.prems(2) by (simp add: same_place_def on_bus_def)
  then obtain pe' pos' lst' pn' m' where more: "parse_loop env parse_pass_pre_remote parse_branch (rest_path ?more) (?pos1 + length ?branch + 1) ?branch pn2 (st\<lparr>fs_allocs := m\<rparr>)
      = parse_loop env parse_pass_pre_remote pe' (rest_path ss) pos' lst' pn' (st\<lparr>fs_allocs := m\<rparr>\<lparr>fs_allocs := m'\<rparr>)"
    "pe' \<in> {parse_first, parse_branch}" "pe' = parse_branch \<longrightarrow> n_type pn' = ePN_real" "same_place pn2 pn'" "n_bp pn' = n_bp pn2 @ map coupler_hub hubs"
    using Cons.IH [of pn2 parse_branch "?pos1 + length ?branch + 1" ?branch "st\<lparr>fs_allocs := m\<rparr>"] Cons.prems(1) pn2(3) by auto
  have segs: "concat (map (coupler_segments fmt) (c # hubs)) @ ss = ?name # ?branch # ?more" by (simp add: coupler_segments_def)
  have "pe \<noteq> parse_done" "pe \<noteq> parse_error" using Cons.prems(3) by auto
  then have "parse_loop env parse_pass_pre_remote pe (rest_path (concat (map (coupler_segments fmt) (c # hubs)) @ ss)) pos lst pn st
      = parse_loop env parse_pass_pre_remote pe' (rest_path ss) pos' lst' pn' (st\<lparr>fs_allocs := m'\<rparr>)"
    unfolding segs using more(1) pn1(1) pn2(1) ok(3,4) by (simp add: parse_loop_segment)
  moreover have "same_place pn pn'" "n_bp pn' = n_bp pn @ map coupler_hub (c # hubs)" using same more(4,5) pn2(4) pn1(6) by (simp_all add: same_place_def)
  ultimately show ?case using more(2,3) by blast
qed

section \<open>Subdirectories of a device\<close>

lemma join_snoc: "join (xs @ [y]) = (if xs = [] then y else join xs @ ''/'' @ y)"
  by (induction xs) (auto simp: join_Cons)

text \<open>Every part of the path to a property below the device is a subdirectory in its table.\<close>

definition subdirs :: "device \<Rightarrow> string list \<Rightarrow> string list \<Rightarrow> bool" where
  "subdirs d up dirs \<longleftrightarrow>
     (\<forall>k < length dirs. \<exists>g \<in> set (filetype_array d). f_name g = join (up @ take (Suc k) dirs) \<and> ft_form (f_type g) = ft_subdir \<and> ft_ag (f_type g) = None
        \<and> dotless (f_name g))"

definition file_in :: "device \<Rightarrow> string list \<Rightarrow> string \<Rightarrow> file_type \<Rightarrow> bool" where
  "file_in d dirs leaf ft \<longleftrightarrow>
     ft \<in> set (filetype_array d) \<and> f_name ft = join (dirs @ [leaf]) \<and> dotless (f_name ft) \<and> ft_form (f_type ft) \<notin> {ft_directory, ft_subdir}
   \<and> segment leaf \<and> (\<forall>s \<in> set dirs. segment s) \<and> subdirs d [] dirs"

definition prop_pe :: "string list \<Rightarrow> parse_enum" where
  "prop_pe up = (if up = [] then parse_prop else parse_subprop)"

lemma prop_step:
  assumes "\<And>i. e_alloc (pv_fs env) i" and "sorted_files (filetype_array d)" and "n_selected_device pn = Some (Listed d)" and "g \<in> set (filetype_array d)"
    and "f_name g = join (up @ [s])" and "dotless (f_name g)" and "valid_extension g e" and "up \<noteq> [] \<longrightarrow> lst = join up"
  shows "\<exists>m pn1. parse_step env rs (prop_pe up) (s @ file_extension g e) pos lst pn st =
      (case enter_property env g (pn1\<lparr>n_selected_filetype := Some g, n_extension := e\<rparr>) (st\<lparr>fs_allocs := m\<rparr>) of (pe, pn, st) \<Rightarrow> Some (pe, f_name g @ file_extension g e, pn, st))
    \<and> pn1 \<in> {pn, pn\<lparr>n_dirlength := int pos + 1\<rparr>}"
proof -
  define pn1 where "pn1 = (if up = [] then pn\<lparr>n_dirlength := int pos + 1\<rparr> else pn)"
  have "n_selected_device pn1 = Some (Listed d)" using assms(3) by (simp add: pn1_def)
  from property_parsed [OF assms(1,2) this assms(4,6,7), of st] obtain m where
    m: "Parse_Property env (f_name g @ file_extension g e) pn1 st = Some (enter_property env g (pn1\<lparr>n_selected_filetype := Some g, n_extension := e\<rparr>) (st\<lparr>fs_allocs := m\<rparr>))" by blast
  have whole: "f_name g @ file_extension g e = (if up = [] then s @ file_extension g e else lst @ ''/'' @ s @ file_extension g e)"
    using assms(5,8) by (simp add: join_snoc)
  have "parse_step env rs (prop_pe up) (s @ file_extension g e) pos lst pn st =
      map_option (\<lambda>(pe, pn, st). (pe, f_name g @ file_extension g e, pn, st)) (Parse_Property env (f_name g @ file_extension g e) pn1 st)"
    unfolding whole by (simp add: parse_step_def prop_pe_def pn1_def Let_def)
  then show ?thesis unfolding m by (intro exI [of _ m] exI [of _ pn1]) (auto simp: pn1_def split: prod.splits)
qed

lemma file_loop:
  assumes "\<And>i. e_alloc (pv_fs env) i" and "sorted_files (filetype_array d)" and "n_selected_device pn = Some (Listed d)"
    and "ft \<in> set (filetype_array d)" and "f_name ft = join (up @ dirs @ [leaf])" and "dotless (f_name ft)" and "ft_form (f_type ft) \<notin> {ft_directory, ft_subdir}"
    and "valid_extension ft e" and "up \<noteq> [] \<longrightarrow> lst = join up" and "subdirs d up dirs" and "\<forall>s \<in> set dirs. segment s" and "segment (leaf @ file_extension ft e)"
  shows "\<exists>pn' m. parse_loop env rs (prop_pe up) (rest_path (dirs @ [leaf @ file_extension ft e])) pos lst pn st
      = (case parse_end None pn' of (ret, pn) \<Rightarrow> Some (ret, pn, st\<lparr>fs_allocs := m\<rparr>))
    \<and> same_place pn pn' \<and> n_type pn' = n_type pn \<and> n_sn pn' = n_sn pn \<and> n_bp pn' = n_bp pn \<and> n_selected_device pn' = Some (Listed d) \<and> n_selected_filetype pn' = Some ft \<and> n_extension pn' = e"
  using assms(3,5,9-11)
proof (induction dirs arbitrary: up lst pn st pos)
  case Nil
  have pe: "prop_pe up \<noteq> parse_done" "prop_pe up \<noteq> parse_error" by (simp_all add: prop_pe_def)
  have "f_name ft = join (up @ [leaf])" using Nil.prems(2) by simp
  from prop_step [OF assms(1,2) Nil.prems(1) assms(4) this assms(6,8) Nil.prems(3), of rs pos st]
  obtain m pn1 where step: "parse_step env rs (prop_pe up) (leaf @ file_extension ft e) pos lst pn st =
      Some (parse_done, f_name ft @ file_extension ft e, pn1\<lparr>n_selected_filetype := Some ft, n_extension := e\<rparr>, st\<lparr>fs_allocs := m\<rparr>)"
    and pn1: "pn1 \<in> {pn, pn\<lparr>n_dirlength := int pos + 1\<rparr>}" using assms(7) by (auto simp: enter_property_def)
  have "parse_loop env rs (prop_pe up) (rest_path ([] @ [leaf @ file_extension ft e])) pos lst pn st
      = parse_loop env rs parse_done None (pos + length (leaf @ file_extension ft e) + 1) (f_name ft @ file_extension ft e)
          (pn1\<lparr>n_selected_filetype := Some ft, n_extension := e\<rparr>) (st\<lparr>fs_allocs := m\<rparr>)"
    unfolding append_Nil parse_loop_segment [OF assms(12) pe] step by (simp add: rest_path_def)
  moreover have "parse_loop env rs parse_done None pos' lst' pn' st' = (case parse_end None pn' of (ret, pn) \<Rightarrow> Some (ret, pn, st'))" for pos' lst' pn' and st' :: "'a world fs_state"
    by (subst parse_loop.simps) simp
  ultimately show ?case using pn1 Nil.prems(1)
    by (intro exI [of _ "pn1\<lparr>n_selected_filetype := Some ft, n_extension := e\<rparr>"] exI [of _ m]) (auto simp: same_place_def)
next
  case (Cons s dirs)
  have pe: "prop_pe up \<noteq> parse_done" "prop_pe up \<noteq> parse_error" by (simp_all add: prop_pe_def)
  obtain g where g: "g \<in> set (filetype_array d)" "f_name g = join (up @ [s])" "ft_form (f_type g) = ft_subdir" "ft_ag (f_type g) = None" "dotless (f_name g)"
    using Cons.prems(4) by (auto simp: subdirs_def dest: spec [of _ 0])
  have v: "valid_extension g 0" "file_extension g 0 = []" using g(4) by (simp_all add: valid_extension_def file_extension_def)
  from prop_step [OF assms(1,2) Cons.prems(1) g(1,2,5) v(1) Cons.prems(3), of rs pos st, unfolded v(2) append_Nil2]
  obtain m pn1 where step: "parse_step env rs (prop_pe up) s pos lst pn st =
      Some (parse_subprop, f_name g, pn1\<lparr>n_extension := 0, n_subdir := Some g, n_selected_filetype := None\<rparr>, st\<lparr>fs_allocs := m\<rparr>)"
    and pn1: "pn1 \<in> {pn, pn\<lparr>n_dirlength := int pos + 1\<rparr>}" using g(3) by (auto simp: enter_property_def)
  let ?pn = "pn1\<lparr>n_extension := 0, n_subdir := Some g, n_selected_filetype := None\<rparr>" and ?more = "dirs @ [leaf @ file_extension ft e]"
  have seg: "segment s" using Cons.prems(5) by simp
  have loop: "parse_loop env rs (prop_pe up) (rest_path ((s # dirs) @ [leaf @ file_extension ft e])) pos lst pn st
      = parse_loop env rs (prop_pe (up @ [s])) (rest_path ?more) (pos + length s + 1) (f_name g) ?pn (st\<lparr>fs_allocs := m\<rparr>)"
    unfolding append_Cons parse_loop_segment [OF seg pe] step by (simp add: prop_pe_def)
  have subs: "subdirs d (up @ [s]) dirs" unfolding subdirs_def
  proof (intro allI impI)
    fix k assume "k < length dirs"
    then show "\<exists>g \<in> set (filetype_array d). f_name g = join ((up @ [s]) @ take (Suc k) dirs) \<and> ft_form (f_type g) = ft_subdir \<and> ft_ag (f_type g) = None \<and> dotless (f_name g)"
      using Cons.prems(4) unfolding subdirs_def by (auto dest: spec [of _ "Suc k"])
  qed
  have dev: "n_selected_device ?pn = Some (Listed d)" "up @ [s] \<noteq> [] \<longrightarrow> f_name g = join (up @ [s])" using pn1 Cons.prems(1) g(2) by auto
  have nm: "f_name ft = join ((up @ [s]) @ dirs @ [leaf])" and segs: "\<forall>s \<in> set dirs. segment s" using Cons.prems(2,5) by simp_all
  obtain pn' m' where ih: "parse_loop env rs (prop_pe (up @ [s])) (rest_path ?more) (pos + length s + 1) (f_name g) ?pn (st\<lparr>fs_allocs := m\<rparr>)
      = (case parse_end None pn' of (ret, pn) \<Rightarrow> Some (ret, pn, st\<lparr>fs_allocs := m\<rparr>\<lparr>fs_allocs := m'\<rparr>))"
    "same_place ?pn pn'" "n_type pn' = n_type ?pn" "n_sn pn' = n_sn ?pn" "n_bp pn' = n_bp ?pn" "n_selected_device pn' = Some (Listed d)" "n_selected_filetype pn' = Some ft" "n_extension pn' = e"
    using Cons.IH [OF dev(1) nm dev(2) subs segs, of "pos + length s + 1" "st\<lparr>fs_allocs := m\<rparr>"] by (elim exE conjE) (rule that, assumption+)
  have keep: "same_place pn ?pn" "n_type ?pn = n_type pn" "n_sn ?pn = n_sn pn" "n_bp ?pn = n_bp pn" using pn1 by (auto simp: same_place_def)
  then have "same_place pn pn'" using ih(2) unfolding same_place_def by metis
  moreover have "n_type pn' = n_type pn" "n_sn pn' = n_sn pn" "n_bp pn' = n_bp pn" using ih(3-5) keep(2-4) by metis+
  ultimately show ?case using ih(1,6-8) unfolding loop by (intro exI [of _ pn'] exI [of _ m'] conjI) simp_all
qed

section \<open>Modes and buses\<close>

definition mode_dirs :: "(string \<times> ePS_state) list" where
  "mode_dirs = [(''uncached'', ePS_uncached), (''text'', ePS_text), (''json'', ePS_json), (''unaliased'', ePS_unaliased)]"

lemma mode_step:
  assumes "(w, f) \<in> set mode_dirs"
  shows "parse_step env rs parse_first w pos lst pn st = Some (parse_first, lst, flag f pn, st)" and "segment w"
    and "rx_p_bus (''/'' @ w @ r) = None" and "rx_p_bus (''/'' @ w) = None"
proof -
  have words: "list_all (\<lambda>(w, _). rx_bus w = None \<and> segment w \<and> 4 \<le> length w
      \<and> list_all (\<lambda>v. \<not> rx_word v w) [''settings'', ''statistics'', ''structure'', ''system'', ''interface'']
      \<and> map (\<lambda>v. rx_word v w) [''text'', ''json'', ''uncached'', ''unaliased''] = map (\<lambda>v. v = w) [''text'', ''json'', ''uncached'', ''unaliased'']
      \<and> \<not> rx_word ''/bus.'' (''/'' @ take 4 w)) mode_dirs"
    by code_simp
  then show "segment w" using assms by (auto simp: list_all_iff)
  show "parse_step env rs parse_first w pos lst pn st = Some (parse_first, lst, flag f pn, st)"
    using words assms by (auto simp: parse_step_def Parse_Unspecified_def ow_regexec_def mode_dirs_def Let_def)
  have w: "4 \<le> length w" "\<not> rx_word ''/bus.'' (''/'' @ take 4 w)" using words assms by (auto simp: list_all_iff)
  have "rx_word ''/bus.'' (''/'' @ w @ r) = rx_word ''/bus.'' (''/'' @ take 4 w)" for r using w(1) by (simp add: rx_word_def)
  then have "rx_p_bus (''/'' @ w @ r) = None" for r using w(2) by (simp add: rx_p_bus_def Let_def)
  from this [of r] this [of "[]"] show "rx_p_bus (''/'' @ w @ r) = None" "rx_p_bus (''/'' @ w) = None" by simp_all
qed

lemma modes_loop:
  assumes "set modes \<subseteq> set mode_dirs"
  shows "\<exists>pos'. parse_loop env rs parse_first (rest_path (map fst modes @ ss)) pos lst pn st
    = parse_loop env rs parse_first (rest_path ss) pos' lst (pn\<lparr>n_state := n_state pn \<union> snd ` set modes\<rparr>) st"
  using assms
proof (induction modes arbitrary: pos pn)
  case (Cons wf modes)
  obtain w f where wf: "wf = (w, f)" by fastforce
  then have m: "(w, f) \<in> set mode_dirs" using Cons.prems by simp
  obtain pos' where "parse_loop env rs parse_first (rest_path (map fst modes @ ss)) (pos + length w + 1) lst (flag f pn) st
    = parse_loop env rs parse_first (rest_path ss) pos' lst ((flag f pn)\<lparr>n_state := n_state (flag f pn) \<union> snd ` set modes\<rparr>) st"
    using Cons.IH [of "pos + length w + 1" "flag f pn"] Cons.prems by auto
  then show ?case by (intro exI [of _ pos']) (simp add: wf parse_loop_segment mode_step(1,2) [OF m])
next
  case Nil
  show ?case by (rule exI [of _ pos]) simp
qed

definition bus_text :: "int \<Rightarrow> string" where
  "bus_text i = ''bus.'' @ c_string (print_int i)"

definition bus_flags :: "'b site \<Rightarrow> ePS_state set" where
  "bus_flags s = {ePS_bus, if BusIsServer s then ePS_busremote else ePS_buslocal}"

lemma bus_step:
  assumes "\<And>i. e_alloc (pv_fs env) i" and "0 \<le> i" and "i < 2 ^ 31" and "find_connection_in (pv_ports env) i = Some s"
    and "ePS_buslocal \<notin> n_state pn" and "ePS_busremote \<notin> n_state pn"
  shows "\<exists>pn' m. parse_step env rs parse_first (bus_text i) pos lst pn st = Some (parse_first, lst, pn', st\<lparr>fs_allocs := m\<rparr>)
    \<and> on_bus i (s_mode s) pn' \<and> n_state pn' = n_state pn \<union> bus_flags s \<and> n_path pn' = n_path pn \<and> n_bp pn' = n_bp pn \<and> n_rlock pn' = n_rlock pn
    \<and> n_path_to_server pn' = (case rx_p_bus (n_path pn) of Some post \<Rightarrow> ''/'' @ post | None \<Rightarrow> n_path_to_server pn)"
    and "segment (bus_text i)"
proof -
  note p = c_string_print [OF assms(2)]
  have tw: "takeWhile digit (c_string (print_int i)) = c_string (print_int i)" using p(1) by (simp add: takeWhile_eq_all_conv list_all_iff)
  have "map tolower ''bus.'' = ''bus.''" by code_simp
  then have rx: "rx_bus (bus_text i) = Some (c_string (print_int i))" using p(2) by (simp add: rx_bus_def bus_text_def rx_word_def Let_def tw)
  obtain m1 where m1: "ow_regexec (pv_fs env) 1 (rx_bus (bus_text i)) st = (rx_bus (bus_text i), st\<lparr>fs_allocs := m1\<rparr>)" using ow_regexec_ok [OF assms(1)] by blast
  obtain m2 where m2: "ow_regexec (pv_fs env) 0 (rx_p_bus (n_path pn)) (st\<lparr>fs_allocs := m1\<rparr>) = (rx_p_bus (n_path pn), st\<lparr>fs_allocs := m2\<rparr>)"
    using ow_regexec_ok [OF assms(1), where st = "st\<lparr>fs_allocs := m1\<rparr>"] by fastforce
  have i: "s_index s = i" "INDEX_VALID i" "i \<noteq> INDEX_BAD" using find_connection_in_Some [OF assms(4)] assms(2) by (auto simp: INDEX_VALID_def INDEX_BAD_def)
  show "segment (bus_text i)" using p(4) by (simp add: segment_def bus_text_def)
  show "\<exists>pn' m. parse_step env rs parse_first (bus_text i) pos lst pn st = Some (parse_first, lst, pn', st\<lparr>fs_allocs := m\<rparr>)
    \<and> on_bus i (s_mode s) pn' \<and> n_state pn' = n_state pn \<union> bus_flags s \<and> n_path pn' = n_path pn \<and> n_bp pn' = n_bp pn \<and> n_rlock pn' = n_rlock pn
    \<and> n_path_to_server pn' = (case rx_p_bus (n_path pn) of Some post \<Rightarrow> ''/'' @ post | None \<Rightarrow> n_path_to_server pn)"
    using m1 m2 rx i assms(4-6) p(5) [OF assms(3)]
    by (auto simp: parse_step_def Parse_Unspecified_def Parse_Bus_def known_bus_set_def SetKnownBus_def with_location_def presence_name_def SpecifiedLocalBus_def
        SpecifiedRemoteBus_def on_bus_def bus_flags_def Let_def split: option.splits)
qed

lemma bus_in_front: "0 \<le> i \<Longrightarrow> rx_p_bus (''/'' @ bus_text i @ ''/'' @ rest) = Some rest"
proof -
  assume "0 \<le> i"
  note p = c_string_print [OF this]
  have "\<not> digit (CHR ''/'')" by (simp add: digit_def)
  then have tw: "takeWhile digit (c_string (print_int i) @ CHR ''/'' # rest) = c_string (print_int i)"
    using takeWhile_append2 [of "c_string (print_int i)" digit "CHR ''/'' # rest"] p(1) by (simp add: list_all_iff)
  have "map tolower ''/bus.'' = ''/bus.''" by code_simp
  then show ?thesis using p(2) by (simp add: rx_p_bus_def bus_text_def rx_word_def Let_def tw)
qed

lemma extension_segment:
  assumes "valid_extension ft e" and "segment leaf"
  shows "segment (leaf @ file_extension ft e)"
proof -
  have "CHR ''/'' \<notin> set (extension_text e (f_letters ft))" if ag: "ft_ag (f_type ft) = Some ag" for ag
  proof (cases "0 \<le> e")
    case True
    then have "e < 26 \<or> \<not> f_letters ft" using assms(1) ag by (auto simp: valid_extension_def EXTENSION_ALL_def EXTENSION_BYTE_def)
    then show ?thesis using True c_string_print(4) [OF True] c_string_letter [OF True, of "CHR ''/'' \<notin> set (c_string [word_of_int (65 + e)])"]
      by (auto simp: extension_text_def EXTENSION_ALL_def EXTENSION_BYTE_def)
  next
    case False
    then show ?thesis using assms(1) ag by (auto simp: valid_extension_def extension_text_def)
  qed
  then show ?thesis using assms(2) by (auto simp: segment_def file_extension_def)
qed

section \<open>Whole paths\<close>

definition below_bus :: "deviceformat \<Rightarrow> coupler list \<Rightarrow> byte list \<Rightarrow> string list \<Rightarrow> string \<Rightarrow> file_type \<Rightarrow> int \<Rightarrow> string list" where
  "below_bus fmt hubs sn dirs leaf ft e =
     concat (map (coupler_segments fmt) hubs) @ FS_devicename fmt sn # dirs @ [leaf @ file_extension ft e]"

lemma below_bus_parsed:
  assumes "\<And>i. e_alloc (pv_fs env) i" and "\<not> pv_one_device env" and "\<forall>c \<in> set hubs. coupler_ok env c" and "chip env sn d" and "file_in d dirs leaf ft"
    and "valid_extension ft e" and "on_bus i mode pn" and "n_bp pn = []"
  shows "\<exists>pn' m. parse_loop env parse_pass_pre_remote parse_first (rest_path (below_bus fmt hubs sn dirs leaf ft e)) pos lst pn st
      = (case parse_end None pn' of (ret, pn) \<Rightarrow> Some (ret, pn, st\<lparr>fs_allocs := m\<rparr>))
    \<and> same_place pn pn' \<and> n_type pn' = ePN_real \<and> n_sn pn' = sn \<and> n_bp pn' = map coupler_hub hubs \<and> n_selected_device pn' = Some (Listed d)
    \<and> n_selected_filetype pn' = Some ft \<and> n_extension pn' = e"
proof -
  let ?dev = "FS_devicename fmt sn" and ?file = "dirs @ [leaf @ file_extension ft e]"
  obtain pe pos1 lst1 pn1 m1 where hubs: "parse_loop env parse_pass_pre_remote parse_first (rest_path (below_bus fmt hubs sn dirs leaf ft e)) pos lst pn st
      = parse_loop env parse_pass_pre_remote pe (rest_path (?dev # ?file)) pos1 lst1 pn1 (st\<lparr>fs_allocs := m1\<rparr>)"
    and pe: "pe \<in> {parse_first, parse_branch}" "pe = parse_branch \<longrightarrow> n_type pn1 = ePN_real" and pn1: "same_place pn pn1" "n_bp pn1 = map coupler_hub hubs"
    using couplers_loop [OF assms(1-3,7), of parse_first fmt "?dev # ?file" pos lst st] assms(8) unfolding below_bus_def by auto
  have "on_bus i mode pn1" using assms(7) pn1(1) by (simp add: on_bus_def same_place_def)
  from device_step [OF assms(4) this assms(2), of pe fmt pos1 lst1 "st\<lparr>fs_allocs := m1\<rparr>"] pe
  obtain pn2 where dev: "parse_step env parse_pass_pre_remote pe ?dev pos1 lst1 pn1 (st\<lparr>fs_allocs := m1\<rparr>) = Some (parse_prop, lst1, pn2, st\<lparr>fs_allocs := m1\<rparr>)"
    and pn2: "same_place pn1 pn2" "n_type pn2 = ePN_real" "n_sn pn2 = sn" "n_selected_device pn2 = Some (Listed d)" "n_bp pn2 = n_bp pn1" by auto
  have seg: "segment ?dev" "sorted_files (filetype_array d)" using assms(4) devicename_segment by (auto simp: chip_def)
  have f: "ft \<in> set (filetype_array d)" "f_name ft = join ([] @ dirs @ [leaf])" "dotless (f_name ft)" "ft_form (f_type ft) \<notin> {ft_directory, ft_subdir}" "subdirs d [] dirs"
    "\<forall>s \<in> set dirs. segment s" "segment (leaf @ file_extension ft e)" using assms(5) extension_segment [OF assms(6)] by (auto simp: file_in_def)
  have nil: "[] \<noteq> [] \<longrightarrow> lst1 = join []" by simp
  let ?pos2 = "pos1 + length ?dev + 1"
  have "pe \<noteq> parse_done" "pe \<noteq> parse_error" using pe(1) by auto
  then have "parse_loop env parse_pass_pre_remote parse_first (rest_path (below_bus fmt hubs sn dirs leaf ft e)) pos lst pn st
      = parse_loop env parse_pass_pre_remote (prop_pe []) (rest_path ?file) ?pos2 lst1 pn2 (st\<lparr>fs_allocs := m1\<rparr>)"
    unfolding hubs using parse_loop_segment [OF seg(1), of pe env parse_pass_pre_remote ?file pos1 lst1 pn1] dev by (simp add: prop_pe_def)
  moreover from file_loop [OF assms(1) seg(2) pn2(4) f(1-4) assms(6) nil f(5-7), of parse_pass_pre_remote ?pos2 "st\<lparr>fs_allocs := m1\<rparr>"]
  obtain pn3 m3 where "parse_loop env parse_pass_pre_remote (prop_pe []) (rest_path ?file) ?pos2 lst1 pn2 (st\<lparr>fs_allocs := m1\<rparr>)
      = (case parse_end None pn3 of (ret, pn) \<Rightarrow> Some (ret, pn, st\<lparr>fs_allocs := m1\<rparr>\<lparr>fs_allocs := m3\<rparr>))"
    and "same_place pn2 pn3" "n_type pn3 = n_type pn2" "n_sn pn3 = n_sn pn2" "n_bp pn3 = n_bp pn2" "n_selected_device pn3 = Some (Listed d)" "n_selected_filetype pn3 = Some ft" "n_extension pn3 = e"
    by (elim exE conjE) (rule that, assumption+)
  ultimately show ?thesis using pn1 pn2 by (intro exI [of _ pn3] exI [of _ m3]) (simp add: same_place_def)
qed

lemma setup_fields:
  assumes "path = ''/'' @ r"
  shows "n_path (FS_ParsedName_setup env path) = path" and "n_path_to_server (FS_ParsedName_setup env path) = path"
    and "n_state (FS_ParsedName_setup env path) \<subseteq> {ePS_uncached, ePS_unaliased}" and "n_bp (FS_ParsedName_setup env path) = []" and "n_rlock (FS_ParsedName_setup env path)"
  using assms by (auto simp: FS_ParsedName_setup_def Let_def)

text \<open>
  C13: the path to a property. Whatever directories for modes it starts with, the path that gives the number of a bus, the couplers and
  branches on the way, the serial number of a device in any of its formats, and the name of one of its properties with its
  subdirectories and extension, is parsed to exactly that bus, these branches, that device, property and element. The path for a remote server has
  the bus removed, but only when the bus comes first.
\<close>

theorem path_parsed:
  assumes "\<forall>n. e_alloc (pv_fs env) n" and "\<not> pv_one_device env"
    and "set modes \<subseteq> set mode_dirs" and "0 \<le> i" and "i < 2 ^ 31" and "find_connection_in (pv_ports env) i = Some s"
    and "\<forall>c \<in> set hubs. coupler_ok env c" and "chip env sn d" and "file_in d dirs leaf ft" and "valid_extension ft e"
    and path: "path = ''/'' @ join (map fst modes @ bus_text i # below_bus fmt hubs sn dirs leaf ft e)" and "length path \<le> PATH_MAX"
  shows "\<exists>pn m. FS_ParsedName env path st = Some (0, Some pn, st\<lparr>fs_allocs := m\<rparr>)
    \<and> n_path pn = path \<and> n_type pn = ePN_real \<and> n_known_bus pn = Some i \<and> n_connection pn = Some (i, s_mode s)
    \<and> n_bp pn = map coupler_hub hubs \<and> n_sn pn = sn \<and> n_selected_device pn = Some (Listed d) \<and> n_selected_filetype pn = Some ft \<and> n_extension pn = e
    \<and> n_state pn = n_state (FS_ParsedName_setup env path) \<union> snd ` set modes \<union> bus_flags s \<union> (if BusIsServer s then {ePS_busveryremote} else {})
    \<and> n_path_to_server pn = (if modes = [] then ''/'' @ join (below_bus fmt hubs sn dirs leaf ft e) else path) \<and> n_rlock pn"
proof -
  let ?below = "below_bus fmt hubs sn dirs leaf ft e" let ?segs = "map fst modes @ bus_text i # ?below" let ?pn = "FS_ParsedName_setup env path"
  let ?moded = "?pn\<lparr>n_state := n_state ?pn \<union> snd ` set modes\<rparr>"
  note init = setup_fields [OF path, of env]
  have alloc: "e_alloc (pv_fs env) n" for n using assms(1) by blast
  have flags: "snd ` set modes \<subseteq> {ePS_uncached, ePS_text, ePS_json, ePS_unaliased}" using assms(3) by (auto simp: mode_dirs_def)
  have ne: "?below \<noteq> []" by (simp add: below_bus_def)
  have start: "FS_ParsedName env path st = map_option (\<lambda>(ret, pn, st). (ret, Some pn, st)) (parse_loop env parse_pass_pre_remote parse_first (rest_path ?segs) 0 [] ?pn st)"
    using assms(12) by (simp add: FS_ParsedName_def FS_ParsedName_anywhere_def init(1) Let_def) (simp add: path rest_path_def)
  obtain pos where m: "parse_loop env parse_pass_pre_remote parse_first (rest_path ?segs) 0 [] ?pn st
      = parse_loop env parse_pass_pre_remote parse_first (rest_path (bus_text i # ?below)) pos [] ?moded st" using modes_loop [OF assms(3)] by blast
  have no: "ePS_buslocal \<notin> n_state ?moded" "ePS_busremote \<notin> n_state ?moded" using init(3) flags by auto
  have seg: "segment (bus_text i)" by (rule bus_step(2) [OF alloc assms(4-6) no])
  from bus_step(1) [OF alloc assms(4-6) no, of parse_pass_pre_remote pos "[]" st]
  obtain pn1 m1 where b: "parse_step env parse_pass_pre_remote parse_first (bus_text i) pos [] ?moded st = Some (parse_first, [], pn1, st\<lparr>fs_allocs := m1\<rparr>)"
    and pn1: "on_bus i (s_mode s) pn1" "n_state pn1 = n_state ?moded \<union> bus_flags s" "n_path pn1 = n_path ?moded" "n_bp pn1 = n_bp ?moded" "n_rlock pn1 = n_rlock ?moded"
      "n_path_to_server pn1 = (case rx_p_bus (n_path ?moded) of Some post \<Rightarrow> ''/'' @ post | None \<Rightarrow> n_path_to_server ?moded)" by (elim exE conjE) (rule that, assumption+)
  have pn1': "n_path pn1 = path" "n_bp pn1 = []" "n_rlock pn1" "n_path_to_server pn1 = (case rx_p_bus path of Some post \<Rightarrow> ''/'' @ post | None \<Rightarrow> path)"
    using pn1(3-6) init by (simp_all split: option.split)
  have server: "n_path_to_server pn1 = (if modes = [] then ''/'' @ join ?below else path)"
  proof (cases modes)
    case Nil
    then show ?thesis using bus_in_front [OF assms(4), of "join ?below"] ne pn1'(4) by (simp add: path join_Cons)
  next
    case (Cons wf ms)
    then have "(fst wf, snd wf) \<in> set mode_dirs" using assms(3) by simp
    from mode_step(3) [OF this, of "''/'' @ join (map fst ms @ bus_text i # ?below)"] show ?thesis using pn1'(4) Cons by (simp add: path join_Cons)
  qed
  obtain pn2 m2 where l: "parse_loop env parse_pass_pre_remote parse_first (rest_path ?below) (pos + length (bus_text i) + 1) [] pn1 (st\<lparr>fs_allocs := m1\<rparr>)
      = (case parse_end None pn2 of (ret, pn) \<Rightarrow> Some (ret, pn, st\<lparr>fs_allocs := m1\<rparr>\<lparr>fs_allocs := m2\<rparr>))"
    and pn2: "same_place pn1 pn2" "n_type pn2 = ePN_real" "n_sn pn2 = sn" "n_bp pn2 = map coupler_hub hubs" "n_selected_device pn2 = Some (Listed d)"
      "n_selected_filetype pn2 = Some ft" "n_extension pn2 = e"
    using below_bus_parsed [OF alloc assms(2,7-10) pn1(1) pn1'(2), of fmt "pos + length (bus_text i) + 1" "[]" "st\<lparr>fs_allocs := m1\<rparr>"] by (elim exE conjE) (rule that, assumption+)
  let ?fin = "snd (parse_end None pn2)"
  have "FS_ParsedName env path st = Some (0, Some ?fin, st\<lparr>fs_allocs := m2\<rparr>)"
    unfolding start m using parse_loop_segment [OF seg, of parse_first env parse_pass_pre_remote ?below pos "[]" ?moded st] b l by (simp add: parse_end_def)
  moreover have "SpecifiedRemoteBus pn2 \<longleftrightarrow> BusIsServer s" using pn1(2) pn2(1) init(3) flags by (auto simp: SpecifiedRemoteBus_def same_place_def bus_flags_def)
  then have "?fin = (if BusIsServer s then flag ePS_busveryremote pn2 else pn2)" using pn2(2) by (simp add: parse_end_def)
  ultimately show ?thesis using pn1(1,2) pn1' pn2 server by (intro exI [of _ ?fin] exI [of _ m2]) (auto simp: same_place_def on_bus_def)
qed

text \<open>A coupler, and behind its main branch a memory with pages.\<close>

definition plain_file :: "string \<Rightarrow> ft_format \<Rightarrow> ds2409_branch \<Rightarrow> file_type" where
  "plain_file name form b = \<lparr>f_name = name, f_type = \<lparr>ft_id = 0, ft_form = form, ft_change = fc_stable, ft_ag = None\<rparr>, f_letters = False, f_branch = b\<rparr>"

definition coupler_device :: device where
  "coupler_device = \<lparr>family_code = ''1F'', filetype_array = [plain_file ''aux'' ft_directory eBranch_aux, plain_file ''main'' ft_directory eBranch_main]\<rparr>"

definition page_file :: file_type where
  "page_file =
     \<lparr>f_name = ''pages/page'', f_type = \<lparr>ft_id = 1, ft_form = ft_binary, ft_change = fc_stable, ft_ag = Some \<lparr>ag_elements = 16, ag_comb = ag_separate\<rparr>\<rparr>,
      f_letters = False, f_branch = eBranch_main\<rparr>"

definition page_device :: device where
  "page_device = \<lparr>family_code = ''26'', filetype_array = [plain_file ''pages'' ft_subdir eBranch_main, page_file]\<rparr>"

definition path_env :: "byte list list parse_env" where
  "path_env =
     \<lparr>pv_fs = sample_world_env, pv_ports = [[list_site 0]], pv_threads = sample_threads, pv_fuel = 1, pv_Tree = \<lambda>_. [coupler_device, page_device],
      pv_NoDev = [], pv_sensor = \<lambda>_. None, pv_family = \<lambda>_. None, pv_external = 0, pv_ServerPresence = \<lambda>_ _ sn. (INDEX_BAD, sn),
      pv_uncached = False, pv_unaliased = False, pv_one_device = False\<rparr>"

definition sample_coupler :: coupler where
  "sample_coupler = \<lparr>c_sn = [0x1F, 1, 2, 3, 4, 5, 6, 57], c_device = coupler_device, c_file = plain_file ''main'' ft_directory eBranch_main\<rparr>"

definition sample_path :: string where
  "sample_path = ''/uncached/bus.0/1F.010203040506/main/26.010203040506/pages/page.3''"

theorem path_parsed_witness:
  "\<exists>pn m. FS_ParsedName path_env sample_path list_world = Some (0, Some pn, list_world\<lparr>fs_allocs := m\<rparr>)
    \<and> n_bp pn = [\<lparr>hub_sn = [0x1F, 1, 2, 3, 4, 5, 6, 57], hub_branch = eBranch_main\<rparr>] \<and> n_sn pn = [0x26, 1, 2, 3, 4, 5, 6, 225]
    \<and> n_selected_filetype pn = Some page_file \<and> n_extension pn = 3 \<and> n_path_to_server pn = sample_path"
proof -
  let ?sn = "[0x26, 1, 2, 3, 4, 5, 6, 225] :: byte list" and ?mode = "[(''uncached'', ePS_uncached)]"
  have sorted: "sorted_files (filetype_array coupler_device)" "sorted_files (filetype_array page_device)"
    by (simp_all add: sorted_files_def coupler_device_def page_device_def plain_file_def page_file_def)
  have codes: "num2string 0x1F = ''1F''" "num2string 0x26 = ''26''" by code_simp+
  have chips: "chip path_env (c_sn sample_coupler) coupler_device" "chip path_env ?sn page_device"
    using sorted codes by (simp_all add: chip_def sample_coupler_def path_env_def tfind_def coupler_device_def page_device_def CRC8compute_def crc8_step_def crc8_table_def)
  then have hub: "coupler_ok path_env sample_coupler" by (simp add: coupler_ok_def sample_coupler_def coupler_device_def plain_file_def segment_def dotless_def)
  have fileok: "file_in page_device [''pages''] ''page'' page_file"
    by (simp add: file_in_def page_device_def page_file_def plain_file_def segment_def dotless_def subdirs_def)
  have ext: "valid_extension page_file 3" by (simp add: valid_extension_def page_file_def)
  have path: "sample_path = ''/'' @ join (map fst ?mode @ bus_text 0 # below_bus fdi [sample_coupler] ?sn [''pages''] ''page'' page_file 3)"
    by code_simp
  have env: "\<forall>n. e_alloc (pv_fs path_env) n" "\<not> pv_one_device path_env" "find_connection_in (pv_ports path_env) 0 = Some (list_site 0)"
    by (simp_all add: path_env_def sample_world_env_def find_connection_in_def list_site_def)
  have "set ?mode \<subseteq> set mode_dirs" "length sample_path \<le> PATH_MAX" by (simp_all add: mode_dirs_def sample_path_def PATH_MAX_def)
  with path_parsed [OF env(1,2) _ _ _ env(3) _ chips(2) fileok ext path, of list_world] hub show ?thesis
    by (auto simp: coupler_hub_def sample_coupler_def plain_file_def)
qed

end
