(* ===== verification/OW_ParseSafe.thy ===== *)
theory OW_ParseSafe
  imports OW_ParsePath
begin

text \<open>Whatever the path, what \<^verbatim>\<open>FS_ParsedName\<close> returns is a name that the rest of the program can rely on, or an error with nothing held.\<close>

section \<open>Well-formed names\<close>

definition located_ok :: "'b parse_env \<Rightarrow> parsedname \<Rightarrow> bool" where
  "located_ok env pn \<longleftrightarrow>
     (ePS_bus \<in> n_state pn \<longrightarrow>
        (\<exists>i s. find_connection_in (pv_ports env) i = Some s \<and> n_known_bus pn = Some i \<and> n_connection pn = Some (i, s_mode s)))
   \<and> \<not> (SpecifiedLocalBus pn \<and> SpecifiedRemoteBus pn)"

definition buffers_ok :: "parsedname \<Rightarrow> bool" where
  "buffers_ok pn \<longleftrightarrow> length (n_path pn) \<le> PATH_MAX + 1 \<and> length (n_path_to_server pn) \<le> PATH_MAX + 1"

definition extension_ok :: "file_type \<Rightarrow> int \<Rightarrow> bool" where
  "extension_ok ft e \<longleftrightarrow>
     (case ft_ag (f_type ft) of
        None \<Rightarrow> e = 0
      | Some ag \<Rightarrow> ag_comb ag = ag_sparse \<or> e = EXTENSION_ALL \<or> e = EXTENSION_BYTE \<and> ft_form (f_type ft) = ft_bitfield \<or> 0 \<le> e \<and> e < int (ag_elements ag))"

definition property_ok :: "'b parse_env \<Rightarrow> parsedname \<Rightarrow> bool" where
  "property_ok env pn \<longleftrightarrow>
     (\<forall>ft. n_selected_filetype pn = Some ft \<longrightarrow>
        (\<exists>d. n_selected_device pn = Some d \<and> d \<noteq> RemoteDevice \<and> ft \<in> set (device_files env d)) \<and> extension_ok ft (n_extension pn)
      \<and> ft_form (f_type ft) \<noteq> ft_subdir \<and> (ft_form (f_type ft) = ft_directory \<longrightarrow> n_type pn = ePN_structure))"

definition base_ok :: "'b parse_env \<Rightarrow> parsedname \<Rightarrow> bool" where
  "base_ok env pn \<longleftrightarrow> located_ok env pn \<and> buffers_ok pn \<and> n_rlock pn"

text \<open>On the way no property is selected, and the device is selected before a property is looked for.\<close>

definition state_ok :: "'b parse_env \<Rightarrow> parse_enum \<Rightarrow> parsedname \<Rightarrow> bool" where
  "state_ok env pe pn \<longleftrightarrow> pe \<noteq> parse_error \<longrightarrow> base_ok env pn \<and> (if pe = parse_done then property_ok env pn else n_selected_filetype pn = None)
     \<and> (pe \<in> {parse_prop, parse_subprop} \<longrightarrow> n_selected_device pn \<noteq> None)"

lemmas ok_defs = state_ok_def base_ok_def located_ok_def buffers_ok_def SpecifiedLocalBus_def SpecifiedRemoteBus_def

section \<open>The bus\<close>

lemma CheckPresence_name:
  "CheckPresence fenv fuel ports th p st = Some (i, p', st') \<Longrightarrow> p' = p \<or> p' = UnsetKnownBus p \<or> (\<exists>j. p' = snd (SetKnownBus ports j p))"
  by (auto simp: CheckPresence_def split: if_splits option.splits prod.splits)

lemma with_location_ok:
  assumes "base_ok env pn" and "p = presence_name env pn \<or> p = UnsetKnownBus (presence_name env pn) \<or> (\<exists>j. p = snd (SetKnownBus (pv_ports env) j (presence_name env pn)))"
  shows "base_ok env (with_location p pn)"
proof -
  have known: "located_ok env (with_location (presence_name env pn) pn)"
    using assms(1) by (cases "n_known_bus pn") (auto simp: ok_defs with_location_def presence_name_def)
  have set: "located_ok env (with_location (snd (SetKnownBus (pv_ports env) j (presence_name env pn))) pn)" for j
  proof (cases "find_connection_in (pv_ports env) j")
    case None
    then show ?thesis using known by (simp add: SetKnownBus_def)
  next
    case (Some s)
    then have "s_index s = j" using find_connection_in_Some by blast
    then show ?thesis using Some assms(1) by (auto simp: ok_defs SetKnownBus_def with_location_def)
  qed
  have "located_ok env (with_location (UnsetKnownBus (presence_name env pn)) pn)" using assms(1) by (auto simp: ok_defs UnsetKnownBus_def with_location_def)
  with known set assms(2) have "located_ok env (with_location p pn)" by auto
  then show ?thesis using assms(1) by (simp add: base_ok_def buffers_ok_def with_location_def)
qed

lemma with_location_fields [simp]: "n_selected_filetype (with_location p pn) = n_selected_filetype pn" "n_type (with_location p pn) = n_type pn"
    "n_sn (with_location p pn) = n_sn pn" "n_selected_device (with_location p pn) = n_selected_device pn"
  by (simp_all add: with_location_def)

lemma known_bus_set_device [simp]: "n_selected_device (snd (known_bus_set env i pn)) = n_selected_device pn"
  by (simp add: known_bus_set_def split: prod.splits)

lemma known_bus_set_ok:
  assumes "base_ok env pn"
  shows "base_ok env (snd (known_bus_set env i pn))" and "n_selected_filetype (snd (known_bus_set env i pn)) = n_selected_filetype pn"
proof -
  have k: "snd (known_bus_set env i pn) = with_location (snd (SetKnownBus (pv_ports env) i (presence_name env pn))) pn"
    by (simp add: known_bus_set_def split: prod.splits)
  then show "base_ok env (snd (known_bus_set env i pn))" using with_location_ok [OF assms] by auto
  show "n_selected_filetype (snd (known_bus_set env i pn)) = n_selected_filetype pn" by (simp add: k)
qed

text \<open>Changes that the checks do not look at.\<close>

lemma base_ok_update [simp]:
  "base_ok env (pn\<lparr>n_selected_device := x\<rparr>) = base_ok env pn" "base_ok env (pn\<lparr>n_sn := sn\<rparr>) = base_ok env pn" "base_ok env (pn\<lparr>n_type := t\<rparr>) = base_ok env pn"
  "base_ok env (pn\<lparr>n_device_name := nm\<rparr>) = base_ok env pn" "base_ok env (pn\<lparr>n_selected_filetype := f\<rparr>) = base_ok env pn" "base_ok env (pn\<lparr>n_extension := e\<rparr>) = base_ok env pn"
  "base_ok env (pn\<lparr>n_dirlength := l\<rparr>) = base_ok env pn" "base_ok env (pn\<lparr>n_sparse_name := sp\<rparr>) = base_ok env pn" "base_ok env (pn\<lparr>n_subdir := sd\<rparr>) = base_ok env pn"
  "base_ok env (pn\<lparr>n_bp := b\<rparr>) = base_ok env pn" "base_ok env (pn\<lparr>n_bus_list := bl\<rparr>) = base_ok env pn"
  by (simp_all add: ok_defs)

lemma base_ok_flag [simp]: "f \<notin> {ePS_bus, ePS_buslocal, ePS_busremote} \<Longrightarrow> base_ok env (flag f pn) = base_ok env pn"
  by (auto simp: ok_defs)

section \<open>Each kind of part\<close>

lemma Parse_Bus_ok:
  assumes "base_ok env pn" and "n_selected_filetype pn = None" and "Parse_Bus env i pn st = (pe, pn', st')"
  shows "state_ok env pe pn'"
proof (cases "INDEX_VALID i \<and> \<not> SpecifiedLocalBus pn \<and> \<not> SpecifiedRemoteBus pn \<and> fst (known_bus_set env i pn) = 0")
  case False
  then show ?thesis using assms by (auto simp: Parse_Bus_def state_ok_def split: if_splits prod.splits)
next
  case True
  let ?pn = "snd (known_bus_set env i pn)"
  have k: "known_bus_set env i pn = (0, ?pn)" using True by (metis prod.collapse)
  have ok: "base_ok env ?pn" "n_selected_filetype ?pn = None" using known_bus_set_ok [OF assms(1), of i] assms(2) by auto
  have free: "ePS_buslocal \<notin> n_state ?pn" "ePS_busremote \<notin> n_state ?pn" "n_path ?pn = n_path pn" "buffers_ok pn"
    using True assms(1) by (auto simp: known_bus_set_def with_location_def SpecifiedLocalBus_def SpecifiedRemoteBus_def base_ok_def split: prod.splits)
  have short: "length post \<le> PATH_MAX" if "rx_p_bus (n_path pn) = Some post" for post
    using that free(4) by (auto simp: rx_p_bus_def buffers_ok_def Let_def split: if_splits list.splits dest: arg_cong [where f = length])
  have flagged: "base_ok env (flag f ?pn)" if "f \<in> {ePS_buslocal, ePS_busremote}" for f using that ok(1) free(1,2) by (auto simp: ok_defs)
  have server: "base_ok env (pn1\<lparr>n_path_to_server := ''/'' @ post\<rparr>)" if "base_ok env pn1" "length post \<le> PATH_MAX" for pn1 post
    using that by (auto simp: ok_defs)
  show ?thesis using assms(3) True k ok(2) free(3) flagged server short
    by (auto simp: Parse_Bus_def state_ok_def ow_regexec_def Let_def split: prod.splits option.splits if_splits)
qed

lemma take_prefix_length: "take (length f) cs = f \<Longrightarrow> length f \<le> length cs"
  by (metis length_take min.cobounded1)

lemma find_segment_within: "find_segment f pos p = Some q \<Longrightarrow> q + length f \<le> pos + length p"
  by (induction p arbitrary: pos) (fastforce split: if_splits dest: take_prefix_length)+

lemma ReplaceAliasInPath_ok:
  assumes "base_ok env pn"
  shows "base_ok env (ReplaceAliasInPath filename pn)" and "n_selected_filetype (ReplaceAliasInPath filename pn) = n_selected_filetype pn"
proof -
  let ?p = "n_path_to_server pn"
  have "length (take q ?p @ bytes2string (take 7 (n_sn pn)) @ drop (q + length filename) ?p) \<le> PATH_MAX + 1"
    if "find_segment filename 0 ?p = Some q" "int (length ?p) + 14 - int (length filename) \<le> int PATH_MAX" for q
    using find_segment_within [OF that(1)] that(2) by simp
  then show "base_ok env (ReplaceAliasInPath filename pn)"
    using assms by (auto simp: ReplaceAliasInPath_def find_segment_in_path_def ok_defs Let_def split: option.split)
  show "n_selected_filetype (ReplaceAliasInPath filename pn) = n_selected_filetype pn" by (simp add: ReplaceAliasInPath_def Let_def split: option.splits)
qed

lemma Parse_RealDeviceSN_ok:
  assumes "base_ok env pn" and "n_selected_filetype pn = None" and "Parse_RealDeviceSN env rs pn st = Some (pe, pn', st')"
  shows "state_ok env pe pn'"
proof -
  let ?pn = "pn\<lparr>n_selected_device := Some (FS_devicefindhex env (n_sn pn ! 0) pn)\<rparr>"
  have ok: "base_ok env ?pn" "n_selected_filetype ?pn = None" using assms(1,2) by simp_all
  have "base_ok env (with_location p ?pn)" if "CheckPresence (pv_fs env) (pv_fuel env) (pv_ports env) (pv_threads env) (presence_name env ?pn) st = Some (i, p, st1)" for i p st1
    using with_location_ok [OF ok(1)] CheckPresence_name [OF that] by blast
  then show ?thesis using assms(3) ok known_bus_set_ok [OF ok(1)] by (auto simp: Parse_RealDeviceSN_def state_ok_def Let_def split: if_splits)
qed

lemma Parse_Alias_ok:
  assumes "base_ok env pn" and "n_selected_filetype pn = None" and "Parse_Alias env filename rs pn st = Some (pe, pn', st')"
  shows "state_ok env pe pn'"
proof -
  have known: "state_ok env pe pn'" if "Parse_Alias_Known env filename rs (pn\<lparr>n_sn := sn\<rparr>) st1 = Some (pe, pn', st')" for sn st1
    using that ReplaceAliasInPath_ok [of env "pn\<lparr>n_sn := sn\<rparr>" filename] assms(1,2)
    by (intro Parse_RealDeviceSN_ok [of env "if rs = parse_pass_pre_remote then ReplaceAliasInPath filename (pn\<lparr>n_sn := sn\<rparr>) else pn\<lparr>n_sn := sn\<rparr>"])
      (auto simp: Parse_Alias_Known_def)
  let ?pn = "pn\<lparr>n_selected_device := Some RemoteDevice\<rparr>"
  have ok: "base_ok env ?pn" "n_selected_filetype ?pn = None" using assms(1,2) by simp_all
  have remote: "base_ok env (snd (RemoteAlias env ?pn))" "n_selected_filetype (snd (RemoteAlias env ?pn)) = None" "n_selected_device (snd (RemoteAlias env ?pn)) \<noteq> None"
    using ok by (simp_all add: RemoteAlias_def Let_def split: prod.splits)
  have found: "base_ok env q \<and> n_selected_filetype q = None \<and> n_selected_device q \<noteq> None"
    if "remember_alias env filename i pn1 st1 = Some (q, st2)" "base_ok env pn1" "n_selected_filetype pn1 = None" "n_selected_device pn1 \<noteq> None" for i pn1 st1 q st2
    using that by (auto simp: remember_alias_def Let_def split: prod.splits if_splits)
  show ?thesis using assms(3) known ok known_bus_set_ok [OF ok(1)] remote known_bus_set_ok [OF remote(1)]
    by (auto simp: Parse_Alias_def state_ok_def Let_def bind_eq_Some_conv split: prod.splits if_splits dest!: found)
qed

lemma Parse_External_Device_ok:
  assumes "base_ok env pn" and "n_selected_filetype pn = None" and "Parse_External_Device env family pn st = Some (pe, pn', st')"
  shows "state_ok env pe pn'"
  using assms(3) known_bus_set_ok [of env "pn\<lparr>n_selected_device := Some (Listed d)\<rparr>" "pv_external env" for d] assms(1,2)
  by (auto simp: Parse_External_Device_def state_ok_def)

lemma Parse_RealDevice_ok:
  assumes "base_ok env pn" and "n_selected_filetype pn = None" and "Parse_RealDevice env filename rs pn st = Some (pe, pn', st')"
  shows "state_ok env pe pn'"
proof -
  let ?pn = "pn\<lparr>n_device_name := find_segment_in_path filename (n_path pn)\<rparr>"
  have ok: "base_ok env ?pn" "n_selected_filetype ?pn = None" "\<And>sn. base_ok env (?pn\<lparr>n_sn := sn\<rparr>)" "\<And>sn. n_selected_filetype (?pn\<lparr>n_sn := sn\<rparr>) = None"
    using assms(1,2) by simp_all
  obtain s sn where p: "Parse_SerialNumber (Some filename) = (s, sn)" by fastforce
  show ?thesis
  proof (cases s)
    case sn_not_sn
    then show ?thesis using assms(3) p Parse_External_Device_ok [OF ok(1,2)] Parse_Alias_ok [OF ok(1,2)]
      by (auto simp: Parse_RealDevice_def Let_def split: option.splits)
  next
    case sn_valid
    then show ?thesis using assms(3) p Parse_RealDeviceSN_ok [OF ok(3,4)] by (auto simp: Parse_RealDevice_def Let_def state_ok_def split: option.splits)
  qed (use assms(3) p in \<open>auto simp: Parse_RealDevice_def Let_def state_ok_def\<close>)
qed

lemma Parse_Real_ok:
  assumes "base_ok env pn" and "n_selected_filetype pn = None" and "Parse_Real env part rs pn st = Some (pe, pn', st')"
  shows "state_ok env pe pn'"
  using assms Parse_RealDevice_ok [OF assms(1,2)] by (auto simp: Parse_Real_def state_ok_def split: if_splits)

lemma Parse_Branch_ok:
  assumes "base_ok env pn" and "n_selected_filetype pn = None" and "Parse_Branch env part rs pn st = Some (pe, pn', st')"
  shows "state_ok env pe pn'"
  using assms Parse_Real_ok [OF assms(1,2)] by (auto simp: Parse_Branch_def state_ok_def split: if_splits)

lemma Parse_Unspecified_ok:
  assumes "base_ok env pn" and "n_selected_filetype pn = None" and "Parse_Unspecified env part rs pn st = Some (pe, pn', st')"
  shows "state_ok env pe pn'"
proof (cases "ow_regexec (pv_fs env) 1 (rx_bus part) st")
  case (Pair digits st1)
  show ?thesis
  proof (cases digits)
    case (Some d)
    then show ?thesis using assms(3) Pair Parse_Bus_ok [OF assms(1,2)] by (auto simp: Parse_Unspecified_def)
  next
    case None
    have typed: "state_ok env pe1 pn1" if "set_type t pn = (pe1, pn1)" for t pe1 pn1
      using that assms(1,2) by (auto simp: set_type_def state_ok_def split: if_splits)
    have branch: "state_ok env pe pn'" if "Parse_Branch env part rs (pn\<lparr>n_type := ePN_real\<rparr>) st1 = Some (pe, pn', st')"
      using that assms(1,2) by (intro Parse_Branch_ok) auto
    show ?thesis using assms Pair None typed branch
      by (auto simp: Parse_Unspecified_def Let_def state_ok_def split: if_splits prod.splits)
  qed
qed

lemma Parse_NonReal_ok:
  assumes "base_ok env pn" and "n_selected_filetype pn = None" and "Parse_NonReal env part pn = (pe, pn')"
  shows "state_ok env pe pn'"
  using assms by (auto simp: Parse_NonReal_def Parse_NonRealDevice_def Let_def state_ok_def split: if_splits)

section \<open>Properties\<close>

lemma bsearch_member: "bsearch cmp arr l u = Some x \<Longrightarrow> u \<le> length arr \<Longrightarrow> x \<in> set arr"
proof (induction cmp arr l u rule: bsearch.induct)
  case (1 cmp arr l u)
  then show ?case by (subst (asm) (3) bsearch.simps) (auto simp: Let_def split: if_splits)
qed

lemma find_filetype_member: "find_filetype env name d = Some ft \<Longrightarrow> ft \<in> set (device_files env d)"
  using bsearch_member [of "filetype_cmp name" "device_files env d" 0 "length (device_files env d)" ft] by (simp add: find_filetype_def Let_def)

lemma Parse_Extension_ok:
  assumes "Parse_Extension env ft filename given pn st = Some (e, pn', st')"
  shows "(\<forall>x. e = Some x \<longrightarrow> extension_ok ft x) \<and> (pn' = pn \<or> (\<exists>sp. pn' = pn\<lparr>n_sparse_name := sp\<rparr>))"
  using assms by (auto simp: Parse_Extension_def extension_ok_def split: option.splits if_splits prod.splits)

lemma enter_property_ok:
  assumes "base_ok env pn" "n_selected_filetype pn = Some ft" "n_selected_device pn = Some d" "d \<noteq> RemoteDevice" "ft \<in> set (device_files env d)"
    "extension_ok ft (n_extension pn)" "enter_property env ft pn st = (pe, pn', st')"
  shows "state_ok env pe pn'"
  using assms by (auto simp: enter_property_def BranchAdd_def state_ok_def property_ok_def split: if_splits prod.splits)

lemma Parse_Property_ok:
  assumes "base_ok env pn" "n_selected_filetype pn = None" "Parse_Property env filename pn st = Some (pe, pn', st')"
  shows "state_ok env pe pn'"
proof (cases "n_selected_device pn = Some RemoteDevice")
  case True
  then show ?thesis using assms by (auto simp: Parse_Property_def state_ok_def property_ok_def)
next
  case False
  then obtain d where d: "n_selected_device pn = Some d" "d \<noteq> RemoteDevice" using assms(3) by (cases "n_selected_device pn") (auto simp: Parse_Property_def)
  obtain ext st1 where r: "ow_regexec (pv_fs env) 0 (rx_extension filename) st = (ext, st1)" by fastforce
  show ?thesis
  proof (cases "find_filetype env (case ext of Some (pre, _) \<Rightarrow> pre | None \<Rightarrow> filename) d")
    case None
    then show ?thesis using assms(3) d r by (auto simp: Parse_Property_def state_ok_def)
  next
    case (Some ft)
    let ?pn = "pn\<lparr>n_selected_filetype := Some ft\<rparr>"
    obtain e pn2 st2 where x: "Parse_Extension env ft filename (ext \<noteq> None) ?pn st1 = Some (e, pn2, st2)"
      and res: "(case e of None \<Rightarrow> (parse_error, pn2, st2) | Some e \<Rightarrow> enter_property env ft (pn2\<lparr>n_extension := e\<rparr>) st2) = (pe, pn', st')"
      using assms(3) d r Some by (auto simp: Parse_Property_def)
    show ?thesis
    proof (cases e)
      case None
      then show ?thesis using res by (auto simp: state_ok_def)
    next
      case (Some v)
      then show ?thesis using res Parse_Extension_ok [OF x] assms(1) d find_filetype_member [OF \<open>find_filetype _ _ _ = _\<close>]
        by (intro enter_property_ok [of env "pn2\<lparr>n_extension := v\<rparr>" ft d]) auto
    qed
  qed
qed

section \<open>The whole path\<close>

lemma parse_step_ok:
  assumes "state_ok env pe pn" "pe \<notin> {parse_done, parse_error}" "parse_step env rs pe part pos pathlast pn st = Some (pe', pathlast', pn', st')"
  shows "state_ok env pe' pn'"
proof -
  have pre: "base_ok env pn" "n_selected_filetype pn = None" using assms(1,2) by (auto simp: state_ok_def split: if_splits)
  have dir: "base_ok env (pn\<lparr>n_dirlength := int pos + 1\<rparr>)" "n_selected_filetype (pn\<lparr>n_dirlength := int pos + 1\<rparr>) = None" using pre by simp_all
  show ?thesis using assms(2,3) Parse_Unspecified_ok [OF pre] Parse_Real_ok [OF pre] Parse_Branch_ok [OF pre] Parse_NonReal_ok [OF pre]
      Parse_Property_ok [OF pre] Parse_Property_ok [OF dir]
    by (auto simp: parse_step_def Let_def split: parse_enum.splits prod.splits)
qed

definition final_ok :: "'b parse_env \<Rightarrow> int \<Rightarrow> parsedname \<Rightarrow> bool" where
  "final_ok env ret pn \<longleftrightarrow>
     ret = 0 \<and> base_ok env pn \<and> property_ok env pn \<and> n_type pn \<noteq> ePN_root
   \<or> ret \<in> {27, 77} \<and> \<not> n_rlock pn \<and> n_bp pn = [] \<and> n_sparse_name pn = None"

lemma parse_end_ok:
  assumes "base_ok env pn" "property_ok env pn" "parse_end pathnext pn = (ret, pn')"
  shows "final_ok env ret pn'"
proof (cases pathnext)
  case (Some s)
  then show ?thesis using assms(3) by (auto simp: parse_end_def final_ok_def FS_ParsedName_destroy_def)
next
  case None
  then show ?thesis using assms by (auto simp: parse_end_def final_ok_def property_ok_def ok_defs SpecifiedVeryRemoteBus_def split: if_splits)
qed

lemma parse_loop_ok:
  "state_ok env pe pn \<Longrightarrow> parse_loop env rs pe pathnext pos pathlast pn st = Some (ret, pn', st') \<Longrightarrow> final_ok env ret pn'"
proof (induction env rs pe pathnext pos pathlast pn st rule: parse_loop.induct)
  case (1 env rs pe pathnext pos pathlast pn st)
  have mid: "base_ok env pn \<and> property_ok env pn" if "pe \<noteq> parse_error"
    using "1.prems"(1) that by (auto simp: state_ok_def property_ok_def split: if_splits)
  consider "pe = parse_error" | "\<exists>r. parse_end r pn = (ret, pn')" "pe \<noteq> parse_error"
    | s pe1 pathlast1 pn1 st1 where "pe \<notin> {parse_done, parse_error}" "pathnext = Some s" "fst (strsep s) \<noteq> []"
      "parse_step env rs pe (fst (strsep s)) pos pathlast pn st = Some (pe1, pathlast1, pn1, st1)"
      "parse_loop env rs pe1 (snd (strsep s)) (pos + length (fst (strsep s)) + 1) pathlast1 pn1 st1 = Some (ret, pn', st')"
    using "1.prems"(2) by (subst (asm) parse_loop.simps) (auto simp: Let_def bind_eq_Some_conv split: if_splits option.splits prod.splits)
  then show ?case
  proof cases
    case 1
    then show ?thesis using "1.prems"(2) by (subst (asm) parse_loop.simps) (auto simp: final_ok_def FS_ParsedName_destroy_def)
  next
    case 2
    then show ?thesis using mid parse_end_ok by blast
  next
    case 3
    then show ?thesis using "1.IH" parse_step_ok [OF "1.prems"(1)] by (auto simp: Let_def)
  qed
qed

section \<open>Parsing comes back\<close>

text \<open>
  There is memory, the sensors of the configuration file have a known family, and the bus of a device need not be looked for, since the name comes
  back from a server or the program serves one device, or it is looked for on connections of which none answers from its directory. No alias was
  deleted, which leaves the tree of aliases with freed memory.
\<close>

definition parse_ready :: "'b parse_env \<Rightarrow> parse_pass \<Rightarrow> bool" where
  "parse_ready env rs \<longleftrightarrow>
     (\<forall>n. e_alloc (pv_fs env) n) \<and> (\<forall>name family. pv_sensor env name = Some family \<longrightarrow> pv_family env family \<noteq> None)
   \<and> (rs = parse_pass_post_remote \<or> pv_one_device env \<or> asked_directly (pv_ports env))"

definition aliases_sound :: "'b world fs_state \<Rightarrow> bool" where
  "aliases_sound st \<longleftrightarrow> alias_tree_sound (persistent_alias_tree (fs_cache st))"

definition comes_back :: "('a \<times> 'c \<times> 'b world fs_state) option \<Rightarrow> bool" where
  "comes_back r \<longleftrightarrow> (\<exists>x y st. r = Some (x, y, st) \<and> aliases_sound st)"

lemma comes_back_simps [simp]: "comes_back (Some (x, y, st)) = aliases_sound st" "\<not> comes_back None"
  by (simp_all add: comes_back_def)

lemma aliases_sound_update [simp]: "aliases_sound (st\<lparr>fs_allocs := n\<rparr>) = aliases_sound st"
    "aliases_sound (st\<lparr>fs_cache := c\<rparr>) = alias_tree_sound (persistent_alias_tree c)"
    "aliases_sound (st\<lparr>fs_allocs := n, fs_cache := c\<rparr>) = alias_tree_sound (persistent_alias_tree c)"
  by (simp_all add: aliases_sound_def)

lemma owmallocs_sound: "aliases_sound (snd (owmallocs env n st)) = aliases_sound st"
  by (induction n arbitrary: st) (auto simp: owmalloc_def)

lemma owmallocs_memory: "\<forall>n. e_alloc env n \<Longrightarrow> fst (owmallocs env n st)"
  by (induction n arbitrary: st) (auto simp: owmalloc_def)

lemma ow_regexec_back:
  assumes "aliases_sound st" "ow_regexec env n g st = (g', st')"
  shows "aliases_sound st'" "(\<forall>n. e_alloc env n) \<longrightarrow> g' = g"
  using assms owmallocs_sound [of env "n + 2" st] owmallocs_memory [of env "n + 2" st]
  by (auto simp: ow_regexec_def split: option.splits prod.splits if_splits)

lemma add_location_sound [simp]: "aliases_sound (add_location env i sn st) = aliases_sound st"
  by (simp add: aliases_sound_def add_location_def owmalloc_def Cache_Add_Device_def Add_Stat_def Cache_Add_Common_def retire_if_old_def FlipTree_def
      bump_def Let_def)

lemma Cache_Add_Alias_Bus_sound: "persistent_alias_tree (Cache_Add_Alias_Bus g now mok tok name i c) = persistent_alias_tree c"
  by (simp add: Cache_Add_Alias_Bus_def Cache_Add_Alias_Common_def retire_if_old_def FlipTree_def Let_def)

lemma Cache_Add_Alias_back:
  assumes "alias_tree_sound (persistent_alias_tree c)"
  shows "\<exists>ret c'. Cache_Add_Alias now mok amok atok tok name sn c = Some (ret, c') \<and> alias_tree_sound (persistent_alias_tree c')"
  using assms alias_tree_sound_update
  by (auto simp: Cache_Add_Alias_def Cache_Add_Alias_SN_def Cache_Add_Alias_Persistent_def Cache_Add_Persistent_def Add_Stat_def bump_def Let_def)

lemma remember_alias_back:
  assumes "aliases_sound st"
  shows "\<exists>q st'. remember_alias env name i pn st = Some (q, st') \<and> aliases_sound st'"
proof -
  let ?ok = "\<lambda>k. e_alloc (pv_fs env) (fs_allocs st + k)"
  obtain ret c where c: "Cache_Add_Alias (fs_clock st) (?ok 0) (?ok 1) (?ok 2) (?ok 3) name (n_sn pn) (fs_cache st) = Some (ret, c)"
      "alias_tree_sound (persistent_alias_tree c)"
    using Cache_Add_Alias_back [OF assms [unfolded aliases_sound_def]] by metis
  show ?thesis using c assms
    by (auto simp: remember_alias_def owmalloc_def Let_def numeral_2_eq_2 numeral_3_eq_3 Cache_Add_Alias_Bus_sound aliases_sound_def [of st])
qed

lemma only_locations_sound: "only_locations env st st' \<Longrightarrow> aliases_sound st' = aliases_sound st"
  by (simp add: only_locations_def aliases_sound_def)

lemma Parse_RealDeviceSN_back:
  assumes "parse_ready env rs" "aliases_sound st"
  shows "comes_back (Parse_RealDeviceSN env rs pn st)"
proof (cases "rs = parse_pass_post_remote \<or> pv_one_device env")
  case False
  then have "asked_directly (pv_ports env)" using assms(1) by (simp add: parse_ready_def)
  then obtain i p st' where p: "CheckPresence (pv_fs env) (pv_fuel env) (pv_ports env) (pv_threads env)
        (presence_name env (pn\<lparr>n_selected_device := Some (FS_devicefindhex env (n_sn pn ! 0) pn)\<rparr>)) st = Some (i, p, st')"
      "only_locations (pv_fs env) st st'"
    using CheckPresence_total by blast
  then show ?thesis using False assms(2) only_locations_sound [OF p(2)] by (auto simp: Parse_RealDeviceSN_def Let_def)
qed (use assms in \<open>auto simp: Parse_RealDeviceSN_def Let_def\<close>)

lemma Cache_Get_Alias_SN_back: "aliases_sound st \<Longrightarrow> \<exists>gb sn. Cache_Get_Alias_SN mok name (fs_cache st) = Some (gb, sn)"
  by (auto simp: aliases_sound_def Cache_Get_Alias_SN_def Cache_Get_Alias_Persistent_def Let_def split: option.split alias_tree_node.split alias_value.split)

lemma Parse_Alias_back:
  assumes "parse_ready env rs" "aliases_sound st"
  shows "comes_back (Parse_Alias env name rs pn st)"
proof -
  let ?st = "st\<lparr>fs_allocs := fs_allocs st + 1\<rparr>"
  obtain gb sn where a: "Cache_Get_Alias_SN (e_alloc (pv_fs env) (fs_allocs st)) name (fs_cache ?st) = Some (gb, sn)"
    using Cache_Get_Alias_SN_back [of ?st "e_alloc (pv_fs env) (fs_allocs st)" name] assms(2) by auto
  have known: "comes_back (Parse_Alias_Known env name rs pn1 st1)" if "aliases_sound st1" for pn1 st1
    using Parse_RealDeviceSN_back [OF assms(1) that] by (simp add: Parse_Alias_Known_def)
  have remote: "comes_back (map_option (\<lambda>(pn, st). (parse_prop, pn, st)) (remember_alias env name i pn1 st1))" if "aliases_sound st1" for i pn1 st1
    using remember_alias_back [OF that, of env name i pn1] by auto
  show ?thesis using a assms(2) known remote by (auto simp: Parse_Alias_def owmalloc_def Let_def split: prod.split)
qed

lemma Parse_RealDevice_back:
  assumes "parse_ready env rs" "aliases_sound st"
  shows "comes_back (Parse_RealDevice env name rs pn st)"
proof -
  have external: "comes_back (Parse_External_Device env family pn1 st)" if sensor: "pv_sensor env name = Some family" for family pn1
  proof -
    obtain d where "pv_family env family = Some d" using assms(1) sensor unfolding parse_ready_def by blast
    then show ?thesis using assms(2) by (simp add: Parse_External_Device_def)
  qed
  show ?thesis using external Parse_Alias_back [OF assms] Parse_RealDeviceSN_back [OF assms] assms(2)
    by (simp add: Parse_RealDevice_def Let_def split: prod.split parse_serialnumber.split option.split)
qed

lemma Parse_Branch_back: "parse_ready env rs \<Longrightarrow> aliases_sound st \<Longrightarrow> comes_back (Parse_Branch env name rs pn st)"
  using Parse_RealDevice_back by (auto simp: Parse_Branch_def Parse_Real_def)

lemma Parse_Unspecified_back:
  assumes "parse_ready env rs" "aliases_sound st"
  shows "comes_back (Parse_Unspecified env name rs pn st)"
proof (cases "ow_regexec (pv_fs env) 1 (rx_bus name) st")
  case (Pair digits st1)
  then have sound: "aliases_sound st1" using ow_regexec_back(1) assms(2) by blast
  have named_bus: "comes_back (Some (Parse_Bus env i pn1 st1))" for i pn1
    using ow_regexec_back(1) [OF sound] sound by (auto simp: Parse_Bus_def Let_def split: prod.split option.split)
  show ?thesis using Pair sound named_bus Parse_Branch_back [OF assms(1) sound]
    by (auto simp: Parse_Unspecified_def Let_def set_type_def split: option.split)
qed

lemma Parse_Extension_back:
  assumes "\<forall>n. e_alloc (pv_fs env) n" "aliases_sound st" "given \<longrightarrow> rx_extension name \<noteq> None"
  shows "comes_back (Parse_Extension env ft name given pn st)"
proof -
  note rets = ow_regexec_back [OF assms(2)]
  have "comes_back (case ow_regexec (pv_fs env) 0 (rx_extension name) st of
                 (Some (_, post), st) \<Rightarrow>
                   (case owmalloc (pv_fs env) st of (ok, st) \<Rightarrow> Some (Some 0, pn\<lparr>n_sparse_name := if ok then Some post else None\<rparr>, st))
               | (None, st) \<Rightarrow> None)" if given
    using rets [of "pv_fs env" 0 "rx_extension name"] assms(1,3) that
    by (cases "ow_regexec (pv_fs env) 0 (rx_extension name) st") (auto simp: owmalloc_def)
  moreover have "aliases_sound (snd (element_number env ft name st))"
    using rets(1) [of "pv_fs env" 0 "rx_letter name"] rets(1) [of "pv_fs env" 0 "rx_number name"] by (auto simp: element_number_def split: prod.split)
  ultimately show ?thesis using assms(2) rets(1) [of "pv_fs env" 0 "rx_number name"]
    by (auto simp: Parse_Extension_def split: option.split prod.split)
qed

lemma Parse_Property_back:
  assumes "parse_ready env rs" "aliases_sound st" "n_selected_device pn \<noteq> None"
  shows "comes_back (Parse_Property env name pn st)"
proof -
  obtain d where d: "n_selected_device pn = Some d" using assms(3) by blast
  obtain ext st1 where r: "ow_regexec (pv_fs env) 0 (rx_extension name) st = (ext, st1)" by fastforce
  have alloc: "\<forall>n. e_alloc (pv_fs env) n" using assms(1) by (simp add: parse_ready_def)
  have st1: "aliases_sound st1" "ext = rx_extension name" using ow_regexec_back [OF assms(2) r] alloc by auto
  have entered: "aliases_sound (snd (snd (enter_property env ft pn1 st2)))" if "aliases_sound st2" for ft pn1 st2
    using that by (auto simp: enter_property_def BranchAdd_def owmalloc_def)
  have mapped: "comes_back (map_option (\<lambda>(e, pn, st). case e of None \<Rightarrow> (parse_error, pn, st) | Some e \<Rightarrow> f (pn\<lparr>n_extension := e\<rparr>) st) r)"
    if cb: "comes_back r" and snd: "\<And>pn1 st2. aliases_sound st2 \<Longrightarrow> aliases_sound (snd (snd (f pn1 st2)))" for r and f :: "parsedname \<Rightarrow> _ \<Rightarrow> parse_enum \<times> parsedname \<times> _"
  proof -
    obtain e pn1 st2 where r: "r = Some (e, pn1, st2)" "aliases_sound st2" using cb unfolding comes_back_def by blast
    then show ?thesis
    proof (cases e)
      case (Some v)
      then show ?thesis using r snd [OF r(2), of "pn1\<lparr>n_extension := v\<rparr>"] by (cases "f (pn1\<lparr>n_extension := v\<rparr>) st2") simp
    qed simp
  qed
  have "comes_back (Parse_Extension env ft name (ext \<noteq> None) pn1 st1)" for ft pn1
    using Parse_Extension_back [OF alloc st1(1)] st1(2) by simp
  then have "comes_back (map_option (\<lambda>(e, pn, st). case e of None \<Rightarrow> (parse_error, pn, st) | Some e \<Rightarrow> enter_property env ft (pn\<lparr>n_extension := e\<rparr>) st)
      (Parse_Extension env ft name (ext \<noteq> None) pn1 st1))" for ft pn1
    by (rule mapped [OF _ entered])
  then show ?thesis using d r st1(1) assms(2) by (simp add: Parse_Property_def Let_def split: option.split)
qed

lemma parse_step_back:
  assumes "parse_ready env rs" "aliases_sound st" "pe \<in> {parse_prop, parse_subprop} \<longrightarrow> n_selected_device pn \<noteq> None"
  shows "\<exists>pe' pathlast' pn' st'. parse_step env rs pe part pos pathlast pn st = Some (pe', pathlast', pn', st') \<and> aliases_sound st'"
proof -
  note rets = Parse_Unspecified_back [OF assms(1,2), of part] Parse_RealDevice_back [OF assms(1,2), of part] Parse_Branch_back [OF assms(1,2), of part]
  have real: "comes_back (Parse_Real env part rs pn1 st)" for pn1 using rets(2) assms(2) by (simp add: Parse_Real_def)
  have props: "comes_back (Parse_Property env name pn1 st)" if "n_selected_device pn1 \<noteq> None" for name pn1
    using Parse_Property_back [OF assms(1,2) that] .
  show ?thesis using assms(2,3)
    by (cases pe) (simp_all add: parse_step_def Let_def rets real props comes_back_def [symmetric] split: prod.split)
qed

lemma parse_loop_back:
  "parse_ready env rs \<Longrightarrow> aliases_sound st \<Longrightarrow> state_ok env pe pn \<Longrightarrow> parse_loop env rs pe pathnext pos pathlast pn st \<noteq> None"
proof (induction env rs pe pathnext pos pathlast pn st rule: parse_loop.induct)
  case (1 env rs pe pathnext pos pathlast pn st)
  show ?case
  proof (cases "pe \<in> {parse_done, parse_error} \<or> pathnext = None \<or> fst (strsep (the pathnext)) = []")
    case True
    then show ?thesis by (subst parse_loop.simps) (auto simp: Let_def split: prod.split option.split)
  next
    case False
    then obtain s where s: "pathnext = Some s" "fst (strsep s) \<noteq> []" "pe \<notin> {parse_done, parse_error}" by auto
    then have "pe \<in> {parse_prop, parse_subprop} \<longrightarrow> n_selected_device pn \<noteq> None" using "1.prems"(3) by (auto simp: state_ok_def)
    then obtain pe1 l1 pn1 st1 where step: "parse_step env rs pe (fst (strsep s)) pos pathlast pn st = Some (pe1, l1, pn1, st1)" "aliases_sound st1"
      using parse_step_back [OF "1.prems"(1,2), of pe pn] by blast
    have "parse_loop env rs pe1 (snd (strsep s)) (pos + length (fst (strsep s)) + 1) l1 pn1 st1 \<noteq> None"
      using "1.IH" s step parse_step_ok [OF "1.prems"(3) s(3) step(1)] "1.prems"(1) by (auto simp: Let_def)
    then show ?thesis using s step(1) by (subst parse_loop.simps) (simp add: Let_def)
  qed
qed

lemma setup_ok: "length path \<le> PATH_MAX \<Longrightarrow> state_ok env parse_first (FS_ParsedName_setup env path)"
  by (auto simp: FS_ParsedName_setup_def ok_defs Let_def split: list.split)

text \<open>
  C14: whatever the path, \<^verbatim>\<open>FS_ParsedName\<close> gives an error code and has released the lock on the connections and the memory of the name, or gives 0 and a
  name that can be relied on: the bus that it says is known exists and is the selected connection, no name is both local and remote, the paths fit their
  buffers, a selected property is one of the table of the selected device and not a subdirectory, with an extension in the range of its array, and the name is not of the undecided
  type root. Only a path that is too long gives no name. With memory and no deleted alias, parsing comes back: when the bus of a device need not be looked for, and
  also when it is looked for, if none of the connections answers from its directory.
\<close>

theorem parse_safe:
  "(FS_ParsedName_anywhere env path rs st = Some (ret, name, st') \<longrightarrow>
      (case name of None \<Rightarrow> ret = - 26 \<and> length path > PATH_MAX | Some pn \<Rightarrow> length path \<le> PATH_MAX \<and> final_ok env ret pn))
   \<and> (parse_ready env rs \<and> aliases_sound st \<longrightarrow> FS_ParsedName_anywhere env path rs st \<noteq> None)"
proof (cases "length path \<le> PATH_MAX")
  case True
  show ?thesis using True parse_loop_ok [OF setup_ok [OF True]] parse_loop_back [OF _ _ setup_ok [OF True]]
    by (auto simp: FS_ParsedName_anywhere_def Let_def)
qed (simp add: FS_ParsedName_anywhere_def)

theorem parse_safe_witness:
  "\<exists>ret pn st'. FS_ParsedName_anywhere path_env sample_path parse_pass_pre_remote list_world = Some (ret, Some pn, st') \<and> final_ok path_env ret pn"
proof -
  let ?r = "FS_ParsedName_anywhere path_env sample_path parse_pass_pre_remote list_world"
  have ready: "parse_ready path_env parse_pass_pre_remote" "aliases_sound list_world"
    by (simp_all add: parse_ready_def asked_directly_def list_site_def no_routines_def path_env_def sample_world_env_def aliases_sound_def list_world_def zero_cache_def Cache_Open_def FlipTree_def Let_def alias_tree_sound_def)
  then obtain ret name st' where r: "?r = Some (ret, name, st')"
    using parse_safe [of path_env sample_path parse_pass_pre_remote list_world] by (cases ?r) auto
  moreover have "length sample_path \<le> PATH_MAX" by (simp add: sample_path_def PATH_MAX_def)
  ultimately show ?thesis
    using parse_safe [of path_env sample_path parse_pass_pre_remote list_world ret name st'] by (cases name) auto
qed

end
