(* ===== verification/OW_Thermometer.thy ===== *)
theory OW_Thermometer
  imports Complex_Main OW_SlaveLine OW_Store
begin

text \<open>
  The driver of the thermometers DS18S20, DS18B20, DS1822, DS1825 (MAX31826, MAX31850) and DS28EA00: \<^verbatim>\<open>ow_1820.c\<close>, with \<^verbatim>\<open>ow_visibility.c\<close>'s cache and
  \<^verbatim>\<open>FS_Test_Simultaneous\<close> of \<^verbatim>\<open>ow_simultaneous.c\<close>. A temperature is read in up to three tries: set the resolution, find out whether the chip has power of its own,
  have it convert, read its scratchpad.

  A result is a return value, what the out parameter holds, and the state; \<^const>\<open>None\<close> is undefined behaviour. What the out parameter holds is of no
  importance after an error. Floating point numbers are rational numbers here: the division of a 16-bit number by 2, 16 or 256 is exact, the fine
  correction of the DS18S20 is not. The local arrays of a function lie at the frame of the driver. Reading another property of the same device by its name is an argument.
  For the two properties that are text or bytes (\<^verbatim>\<open>die\<close>, \<^verbatim>\<open>scratchpad\<close>) the result is the text before it is put into the buffer of the query.
  The time does not change during a call.
\<close>

unbundle bit_operations_syntax

section \<open>State\<close>

record 'b therm_state =
  ts_trx :: "'b trx_state"
  ts_cache :: cache_data
  ts_now :: int

text \<open>The device of a query, and the number in its \<^verbatim>\<open>filetype\<close>.\<close>

record therm_pn =
  tp_bus :: bus_pn
  tp_cache :: cache_pn
  tp_data :: int

record 'b therm_env =
  te_driver :: "'b driver"
  te_globals :: globals
  te_sibling_U :: "string \<Rightarrow> 'b therm_state \<Rightarrow> int \<times> uint \<times> 'b therm_state"
  te_sibling_F :: "string \<Rightarrow> 'b therm_state \<Rightarrow> int \<times> rat \<times> 'b therm_state"
  te_sibling_binary :: "string \<Rightarrow> 'b therm_state \<Rightarrow> int \<times> byte list \<times> 'b therm_state"
  te_del_sibling :: "string \<Rightarrow> 'b therm_state \<Rightarrow> 'b therm_state"

type_synonym ('b, 'a) therm_result = "(int \<times> 'a \<times> 'b therm_state) option"

definition put :: "nat \<Rightarrow> byte list \<Rightarrow> 'b therm_state \<Rightarrow> 'b therm_state" where
  "put a xs st = st\<lparr>ts_trx := store a xs (ts_trx st)\<rparr>"

definition get :: "nat \<Rightarrow> nat \<Rightarrow> 'b therm_state \<Rightarrow> byte list" where
  "get a n st = fetch a n (ts_trx st)"

definition bus_transaction :: "'b therm_env \<Rightarrow> transaction_log list \<Rightarrow> therm_pn \<Rightarrow> 'b therm_state \<Rightarrow> ('b, unit) therm_result" where
  "bus_transaction env ts pn st = map_option (\<lambda>(ret, t). (ret, (), st\<lparr>ts_trx := t\<rparr>)) (transact (te_driver env) ts (tp_bus pn) (ts_trx st))"

definition bus_transaction_nolock :: "'b therm_env \<Rightarrow> transaction_log list \<Rightarrow> therm_pn \<Rightarrow> 'b therm_state \<Rightarrow> ('b, unit) therm_result" where
  "bus_transaction_nolock env ts pn st =
     (let d = te_driver env in
      map_option (\<lambda>(ret, t). (ret, (), st\<lparr>ts_trx := t\<rparr>)) (BUS_transaction_nolock (BUS_select (d_ir d)) (d_ir d) (d_junk d) ts (tp_bus pn) (ts_trx st)))"

definition return_bad :: "'a \<Rightarrow> ('b, 'c) therm_result \<Rightarrow> ('c \<Rightarrow> 'b therm_state \<Rightarrow> ('b, 'a) therm_result) \<Rightarrow> ('b, 'a) therm_result" where
  "return_bad x r rest = (case r of None \<Rightarrow> None | Some (ret, y, st) \<Rightarrow> if ret \<noteq> 0 then Some (1, x, st) else rest y st)"

definition z_or_e :: "('b, 'a) therm_result \<Rightarrow> ('b, 'a) therm_result" where
  "z_or_e = map_option (\<lambda>(ret, x, st). (GB_to_Z_OR_E ret, x, st))"

text \<open>Values kept for a device. Adding one takes memory for the value and for the tree.\<close>

definition cache_get :: "'b therm_env \<Rightarrow> nat \<Rightarrow> internal_prop \<Rightarrow> therm_pn \<Rightarrow> 'b therm_state \<Rightarrow> (GOOD_OR_BAD \<times> byte list) \<times> 'b therm_state" where
  "cache_get env dsize ip pn st =
     (case Cache_Get_SlaveSpecific (te_globals env) (ts_now st) dsize ip (Some (tp_cache pn)) (ts_cache st) of (r, c) \<Rightarrow> (r, st\<lparr>ts_cache := c\<rparr>))"

definition cache_add :: "'b therm_env \<Rightarrow> byte list \<Rightarrow> internal_prop \<Rightarrow> therm_pn \<Rightarrow> 'b therm_state \<Rightarrow> 'b therm_state" where
  "cache_add env data ip pn st =
     (case next_alloc (ts_trx st) of (mok, t) \<Rightarrow> case next_alloc t of (tok, t) \<Rightarrow>
        st\<lparr>ts_trx := t, ts_cache := snd (Cache_Add_SlaveSpecific (te_globals env) (ts_now st) mok tok data ip (Some (tp_cache pn)) (ts_cache st))\<rparr>)"

definition ip_RES :: internal_prop where "ip_RES = \<lparr>ip_name = 2, ip_change = fc_stable\<rparr>"
definition ip_POW :: internal_prop where "ip_POW = \<lparr>ip_name = 3, ip_change = fc_stable\<rparr>"
definition ip_VIS :: internal_prop where "ip_VIS = \<lparr>ip_name = 4, ip_change = fc_persistent\<rparr>"

record tempresolution =
  tr_bits :: int
  tr_config :: byte
  tr_delay :: nat
  tr_mask :: byte
  tr_scale :: rat

definition Resolution9 :: tempresolution where "Resolution9 = \<lparr>tr_bits = 9, tr_config = 0x1F, tr_delay = 110, tr_mask = 0xF8, tr_scale = 16\<rparr>"
definition Resolution10 :: tempresolution where "Resolution10 = \<lparr>tr_bits = 10, tr_config = 0x3F, tr_delay = 200, tr_mask = 0xFC, tr_scale = 16\<rparr>"
definition Resolution11 :: tempresolution where "Resolution11 = \<lparr>tr_bits = 11, tr_config = 0x5F, tr_delay = 400, tr_mask = 0xFE, tr_scale = 16\<rparr>"
definition Resolution12 :: tempresolution where "Resolution12 = \<lparr>tr_bits = 12, tr_config = 0x7F, tr_delay = 1000, tr_mask = 0xFF, tr_scale = 16\<rparr>"
definition ResolutionS :: tempresolution where "ResolutionS = \<lparr>tr_bits = 9, tr_config = 0, tr_delay = 1000, tr_mask = 0xFE, tr_scale = 2\<rparr>"
definition ResolutionMAX :: tempresolution where "ResolutionMAX = \<lparr>tr_bits = 12, tr_config = 0, tr_delay = 150, tr_mask = 0xFF, tr_scale = 16\<rparr>"
definition ResolutionCLD :: tempresolution where "ResolutionCLD = \<lparr>tr_bits = 12, tr_config = 0, tr_delay = 100, tr_mask = 0xF0, tr_scale = 256\<rparr>"
definition ResolutionTCP :: tempresolution where "ResolutionTCP = \<lparr>tr_bits = 12, tr_config = 0, tr_delay = 100, tr_mask = 0xFC, tr_scale = 16\<rparr>"

datatype eDie = eB6 | eB7 | eC2 | eC3

datatype threeB = Unknown_3B | DS1825_3B | MAX31826_3B | MAX31850_3B

datatype temperature_problem_flag = allow_85C | deny_85C

section \<open>The scratchpad\<close>

definition OW_r_scratchpad :: "'b therm_env \<Rightarrow> therm_pn \<Rightarrow> 'b therm_state \<Rightarrow> ('b, byte list) therm_result" where
  "OW_r_scratchpad env pn st =
     (let p = d_frame (te_driver env) in
      map_option (\<lambda>(ret, _, st). (ret, get (p + 1) 9 st, st))
        (bus_transaction env [TRXN_START, TRXN_WRITE p 1, TRXN_READ (p + 1) 9, TRXN_CRC8 (p + 1) 9, TRXN_END] pn (put p [0xBE] st)))"

definition scratch_length :: "therm_pn \<Rightarrow> nat" where
  "scratch_length pn = (if pn_sn (tp_bus pn) ! 0 = 0x10 then 2 else 3)"

definition OW_w_scratchpad :: "'b therm_env \<Rightarrow> byte list \<Rightarrow> therm_pn \<Rightarrow> 'b therm_state \<Rightarrow> ('b, unit) therm_result" where
  "OW_w_scratchpad env data pn st =
     (let p = d_frame (te_driver env) in
      bus_transaction env [TRXN_START, TRXN_WRITE p (scratch_length pn + 1), TRXN_END] pn (put p (0x4E # take 3 data) st))"

definition OW_w_store_scratchpad :: "'b therm_env \<Rightarrow> byte list \<Rightarrow> therm_pn \<Rightarrow> 'b therm_state \<Rightarrow> ('b, unit) therm_result" where
  "OW_w_store_scratchpad env data pn st =
     (let p = d_frame (te_driver env) in
      bus_transaction env [TRXN_START, TRXN_WRITE p (scratch_length pn + 1), TRXN_START, TRXN_POWER (p + 4) 10, TRXN_END] pn
        (put p (0x4E # take 3 data @ [0x48]) st))"

definition OW_power :: "'b therm_env \<Rightarrow> therm_pn \<Rightarrow> 'b therm_state \<Rightarrow> ('b, byte) therm_result" where
  "OW_power env pn st =
     (let p = d_frame (te_driver env);
          cached = (if cp_uncached_dir (tp_cache pn) then ((gbBAD, []), st) else cache_get env 1 ip_POW pn st)
      in case cached of ((gb, data), st) \<Rightarrow>
        if BAD gb then
          return_bad 0 (bus_transaction env [TRXN_START, TRXN_WRITE p 1, TRXN_READ (p + 1) 1, TRXN_END] pn (put p [0xB4] st))
            (\<lambda>_ st. let data = get (p + 1) 1 st in Some (0, hd data, cache_add env data ip_POW pn st))
        else Some (0, hd data, st))"

section \<open>Resolution\<close>

definition GetVisibilityCache :: "'b therm_env \<Rightarrow> therm_pn \<Rightarrow> 'b therm_state \<Rightarrow> (GOOD_OR_BAD \<times> int) \<times> 'b therm_state" where
  "GetVisibilityCache env pn st = (case cache_get env 4 ip_VIS pn st of ((gb, data), st) \<Rightarrow> ((gb, sint (UT_uint32 data)), st))"

definition SetVisibilityCache :: "'b therm_env \<Rightarrow> int \<Rightarrow> therm_pn \<Rightarrow> 'b therm_state \<Rightarrow> 'b therm_state" where
  "SetVisibilityCache env v pn st = cache_add env (int_bytes v) ip_VIS pn st"

definition threeB_of :: "int \<Rightarrow> threeB" where
  "threeB_of i = (if i = 1 then DS1825_3B else if i = 2 then MAX31826_3B else if i = 3 then MAX31850_3B else Unknown_3B)"

text \<open>The sibling read fails, too, when there is no memory for its query.\<close>

definition VISIBLE_3B :: "'b therm_env \<Rightarrow> therm_pn \<Rightarrow> 'b therm_state \<Rightarrow> threeB \<times> 'b therm_state" where
  "VISIBLE_3B env pn st =
     (case GetVisibilityCache env pn st of ((gb, v), st) \<Rightarrow>
        if BAD gb then
          (case te_sibling_binary env ''scratchpad'' st of (ret, data, st) \<Rightarrow>
             if ret = 0 then
               let e3B = (if data ! 4 AND 0x80 = 0 then DS1825_3B else if data ! 2 = 0xFF \<and> data ! 3 = 0xFF then MAX31826_3B else MAX31850_3B)
               in (e3B, SetVisibilityCache env (case e3B of DS1825_3B \<Rightarrow> 1 | MAX31826_3B \<Rightarrow> 2 | _ \<Rightarrow> 3) pn st)
             else (Unknown_3B, st))
        else (threeB_of v, st))"

definition resolution_of_bits :: "int \<Rightarrow> tempresolution option" where
  "resolution_of_bits n =
     (if n = 9 then Some Resolution9 else if n = 10 then Some Resolution10 else if n = 11 then Some Resolution11
      else if n = 12 then Some Resolution12 else None)"

definition OW_set_resolution :: "'b therm_env \<Rightarrow> therm_pn \<Rightarrow> 'b therm_state \<Rightarrow> ('b, tempresolution) therm_result" where
  "OW_set_resolution env pn st =
     (let f = pn_sn (tp_bus pn) ! 0;
          chosen = (\<lambda>st. case resolution_of_bits (tp_data pn) of Some r \<Rightarrow> Some (0, r, st) | None \<Rightarrow> Some (1, ResolutionS, st))
      in if f = 0x10 then Some (0, ResolutionS, st)
         else if f \<in> {0x28, 0x22, 0x42} then chosen st
         else if f = 0x3B then
           (case VISIBLE_3B env pn st of (e3B, st) \<Rightarrow>
              (case e3B of
                 DS1825_3B \<Rightarrow> chosen st
               | MAX31826_3B \<Rightarrow> Some (0, ResolutionMAX, st)
               | MAX31850_3B \<Rightarrow> Some (0, ResolutionTCP, st)
               | Unknown_3B \<Rightarrow> Some (1, ResolutionS, st)))
         else Some (1, ResolutionS, st))"

text \<open>The resolution in the chip is made the one wanted.\<close>

definition match_resolution :: "'b therm_env \<Rightarrow> tempresolution \<Rightarrow> therm_pn \<Rightarrow> 'b therm_state \<Rightarrow> ('b, bool) therm_result" where
  "match_resolution env r pn st =
     (case cache_get env 4 ip_RES pn st of ((gb, res), st) \<Rightarrow>
        if BAD gb \<or> sint (UT_uint32 res) \<noteq> tr_bits r then
          return_bad False (OW_r_scratchpad env pn st) (\<lambda>data st.
            if data ! 4 OR 0x1F \<noteq> tr_config r then
              return_bad True (OW_w_scratchpad env [data ! 2, data ! 3, (tr_config r AND 0x60) OR 0x1F] pn st)
                (\<lambda>_ st. Some (0, True, cache_add env (int_bytes (tr_bits r)) ip_RES pn st))
            else Some (0, False, cache_add env (int_bytes (tr_bits r)) ip_RES pn st))
        else Some (0, False, st))"

definition OW_test_resolution :: "'b therm_env \<Rightarrow> tempresolution \<Rightarrow> therm_pn \<Rightarrow> 'b therm_state \<Rightarrow> ('b, bool) therm_result" where
  "OW_test_resolution env r pn st =
     (let f = pn_sn (tp_bus pn) ! 0 in
      if f = 0x10 then Some (0, False, st)
      else if f \<in> {0x28, 0x22, 0x42} then match_resolution env r pn st
      else if f = 0x3B then
        (case VISIBLE_3B env pn st of (e3B, st) \<Rightarrow>
           (case e3B of
              DS1825_3B \<Rightarrow> match_resolution env r pn st
            | Unknown_3B \<Rightarrow> Some (1, False, st)
            | _ \<Rightarrow> Some (0, False, st)))
      else Some (1, False, st))"

section \<open>Conversion\<close>

text \<open>The line is low during a conversion: it is read after 10 milliseconds and then every 50.\<close>

fun poll_loop :: "'b therm_env \<Rightarrow> nat \<Rightarrow> nat \<Rightarrow> therm_pn \<Rightarrow> 'b therm_state \<Rightarrow> ('b, unit) therm_result" where
  "poll_loop env 0 delay pn st = Some (1, (), st)"
| "poll_loop env (Suc n) delay pn st =
     (let p = d_frame (te_driver env) + 1 in
      return_bad () (bus_transaction_nolock env [TRXN_DELAY delay, TRXN_READ p 1, TRXN_END] pn st)
        (\<lambda>_ st. if get p 1 st \<noteq> [0] then Some (0, (), st) else poll_loop env n 50 pn st))"

definition OW_poll_convert :: "'b therm_env \<Rightarrow> therm_pn \<Rightarrow> 'b therm_state \<Rightarrow> ('b, unit) therm_result" where
  "OW_poll_convert env pn st = poll_loop env 22 10 pn st"

definition FS_Test_Simultaneous :: "'b therm_env \<Rightarrow> internal_prop \<Rightarrow> nat \<Rightarrow> therm_pn \<Rightarrow> 'b therm_state \<Rightarrow> ('b, unit) therm_result" where
  "FS_Test_Simultaneous env ip delay pn st =
     (case Cache_Get_Simul_Time (te_globals env) (ts_now st) ip (tp_cache pn) (ts_cache st) of (dwell, c) \<Rightarrow>
        let st = st\<lparr>ts_cache := c\<rparr> in
        (case dwell of
          None \<Rightarrow> Some (1, (), st)
        | Some dwell_time \<Rightarrow>
            let remaining_delay = int delay - 1000 * dwell_time;
                t = (if remaining_delay > 0 then (ts_trx st)\<lparr>conn := UT_delay (nat remaining_delay) (conn (ts_trx st))\<rparr> else ts_trx st)
            in Some (0, (), st\<lparr>ts_trx := t\<rparr>)))"

definition OW_temperature_ready ::
  "'b therm_env \<Rightarrow> temperature_problem_flag \<Rightarrow> bool \<Rightarrow> tempresolution \<Rightarrow> therm_pn \<Rightarrow> 'b therm_state \<Rightarrow> ('b, unit) therm_result" where
  "OW_temperature_ready env accept_85C simul_good r pn st =
     (let p = d_frame (te_driver env); delay = tr_delay r; longdelay = delay * 3 div 2;
          unpowered = (\<lambda>delay. bus_transaction env [TRXN_START, TRXN_POWER p delay, TRXN_END] pn)
      in return_bad () (OW_test_resolution env r pn st) (\<lambda>must_convert st.
           Option.bind (OW_power env pn st) (\<lambda>(ret, pow, st).
             let pow = (if ret \<noteq> 0 then 0 else pow); st = put p [0x44] st in
             if accept_85C = allow_85C then return_bad () (unpowered longdelay st) (\<lambda>_ st. Some (0, (), st))
             else if pow = 0 then return_bad () (unpowered delay st) (\<lambda>_ st. Some (0, (), st))
             else if must_convert \<or> \<not> simul_good then
               if ir_flags (d_ir (te_driver env)) AND ADAP_FLAG_unlock_during_delay \<noteq> 0
               then return_bad () (unpowered delay st) (\<lambda>_ st. Some (0, (), st))
               else
                 map_option (\<lambda>(ret, _, st). (if ret \<noteq> 0 then 1 else 0, (), st\<lparr>ts_trx := BUS_unlock (ts_trx st)\<rparr>))
                   (return_bad ()
                     (bus_transaction_nolock env [TRXN_START, TRXN_WRITE p 1, TRXN_END] pn (st\<lparr>ts_trx := BUS_lock (ts_trx st)\<rparr>))
                     (\<lambda>_. OW_poll_convert env pn))
             else return_bad () (FS_Test_Simultaneous env ip_S_T delay pn st) (\<lambda>_ st. Some (0, (), st)))))"

section \<open>Temperature\<close>

definition OW_masked_temperature :: "byte list \<Rightarrow> tempresolution \<Rightarrow> rat" where
  "OW_masked_temperature data r = of_int (sint (word_cat (data ! 1) (data ! 0 AND tr_mask r) :: 16 word)) / tr_scale r"

text \<open>The value of the register after the chip was switched on stands for 85 degrees.\<close>

definition verdict_85C :: "temperature_problem_flag \<Rightarrow> byte list \<Rightarrow> int" where
  "verdict_85C accept_85C data = (if accept_85C = allow_85C \<or> data ! 0 \<noteq> 0x50 \<or> data ! 1 \<noteq> 0x05 then 0 else 1)"

definition OW_10latesttemp :: "'b therm_env \<Rightarrow> temperature_problem_flag \<Rightarrow> therm_pn \<Rightarrow> 'b therm_state \<Rightarrow> ('b, rat) therm_result" where
  "OW_10latesttemp env accept_85C pn st =
     return_bad 0 (OW_r_scratchpad env pn st) (\<lambda>data st.
       let temp = OW_masked_temperature data ResolutionS;
           temp = (if data ! 7 \<noteq> 0 then temp + (3 / 4 - of_int (uint (data ! 6)) / of_int (uint (data ! 7))) else temp)
       in Some (verdict_85C accept_85C data, temp, st))"

definition OW_10temp :: "'b therm_env \<Rightarrow> temperature_problem_flag \<Rightarrow> bool \<Rightarrow> therm_pn \<Rightarrow> 'b therm_state \<Rightarrow> ('b, rat) therm_result" where
  "OW_10temp env accept_85C simul_good pn st =
     return_bad 0 (OW_temperature_ready env accept_85C simul_good ResolutionS pn st) (\<lambda>_. OW_10latesttemp env accept_85C pn)"

definition resolution_of_config :: "byte \<Rightarrow> tempresolution" where
  "resolution_of_config b =
     (let c = b AND 0x60 in if c = 0 then Resolution9 else if c = 0x20 then Resolution10 else if c = 0x40 then Resolution11 else Resolution12)"

definition OW_22latesttemp :: "'b therm_env \<Rightarrow> temperature_problem_flag \<Rightarrow> therm_pn \<Rightarrow> 'b therm_state \<Rightarrow> ('b, rat) therm_result" where
  "OW_22latesttemp env accept_85C pn st =
     return_bad 0 (OW_r_scratchpad env pn st) (\<lambda>data st.
       Some (verdict_85C accept_85C data,
         (if pn_sn (tp_bus pn) ! 0 = 0x3B \<and> data ! 4 AND 0x80 \<noteq> 0
          then of_int (sint (word_cat (data ! 3) (data ! 2 AND 0xF0) :: 16 word)) / 256
          else OW_masked_temperature data (resolution_of_config (data ! 4))), st))"

definition OW_22temp :: "'b therm_env \<Rightarrow> temperature_problem_flag \<Rightarrow> bool \<Rightarrow> therm_pn \<Rightarrow> 'b therm_state \<Rightarrow> ('b, rat) therm_result" where
  "OW_22temp env accept_85C simul_good pn st =
     return_bad 0 (OW_set_resolution env pn st) (\<lambda>r st.
       return_bad 0 (OW_temperature_ready env accept_85C simul_good r pn st) (\<lambda>_. OW_22latesttemp env accept_85C pn))"

definition OW_thermocouple :: "'b therm_env \<Rightarrow> temperature_problem_flag \<Rightarrow> bool \<Rightarrow> therm_pn \<Rightarrow> 'b therm_state \<Rightarrow> ('b, rat) therm_result" where
  "OW_thermocouple env accept_85C simul_good pn st =
     return_bad 0 (OW_temperature_ready env accept_85C simul_good ResolutionCLD pn st) (\<lambda>_ st.
       return_bad 0 (OW_r_scratchpad env pn st) (\<lambda>data st.
         if data ! 0 AND 1 \<noteq> 0 \<or> data ! 2 AND 7 \<noteq> 0 then Some (1, 0, st) else Some (0, OW_masked_temperature data ResolutionCLD, st)))"

text \<open>Three tries: with a simultaneous conversion, without, and with the suspicious value allowed.\<close>

definition triple_try ::
  "(temperature_problem_flag \<Rightarrow> bool \<Rightarrow> therm_pn \<Rightarrow> 'b therm_state \<Rightarrow> ('b, rat) therm_result) \<Rightarrow> bool \<Rightarrow> therm_pn \<Rightarrow> 'b therm_state \<Rightarrow> ('b, rat) therm_result" where
  "triple_try OW simul pn st =
     Option.bind (OW deny_85C simul pn st) (\<lambda>(ret, temp, st).
       if ret = 0 then Some (0, temp, st)
       else Option.bind (OW deny_85C False pn st) (\<lambda>(ret, temp, st).
         if ret = 0 then Some (0, temp, st) else z_or_e (OW allow_85C False pn st)))"

definition FS_10temp :: "'b therm_env \<Rightarrow> bool \<Rightarrow> therm_pn \<Rightarrow> 'b therm_state \<Rightarrow> ('b, rat) therm_result" where
  "FS_10temp env = triple_try (OW_10temp env)"

definition FS_22temp :: "'b therm_env \<Rightarrow> bool \<Rightarrow> therm_pn \<Rightarrow> 'b therm_state \<Rightarrow> ('b, rat) therm_result" where
  "FS_22temp env = triple_try (OW_22temp env)"

definition FS_thermocouple :: "'b therm_env \<Rightarrow> bool \<Rightarrow> therm_pn \<Rightarrow> 'b therm_state \<Rightarrow> ('b, rat) therm_result" where
  "FS_thermocouple env = triple_try (OW_thermocouple env)"

definition FS_10latesttemp :: "'b therm_env \<Rightarrow> therm_pn \<Rightarrow> 'b therm_state \<Rightarrow> ('b, rat) therm_result" where
  "FS_10latesttemp env pn st = z_or_e (OW_10latesttemp env allow_85C pn st)"

definition FS_22latesttemp :: "'b therm_env \<Rightarrow> therm_pn \<Rightarrow> 'b therm_state \<Rightarrow> ('b, rat) therm_result" where
  "FS_22latesttemp env pn st = z_or_e (OW_22latesttemp env allow_85C pn st)"

definition FS_10temp_link :: "'b therm_env \<Rightarrow> 'b therm_state \<Rightarrow> ('b, rat) therm_result" where
  "FS_10temp_link env st = Some (te_sibling_F env ''temperature'' st)"

definition FS_fasttemp :: "'b therm_env \<Rightarrow> 'b therm_state \<Rightarrow> ('b, rat) therm_result" where
  "FS_fasttemp env st = Some (te_sibling_F env ''temperature9'' st)"

definition FS_slowtemp :: "'b therm_env \<Rightarrow> 'b therm_state \<Rightarrow> ('b, rat) therm_result" where
  "FS_slowtemp env st = Some (te_sibling_F env ''temperature12'' st)"

definition FS_power :: "'b therm_env \<Rightarrow> therm_pn \<Rightarrow> 'b therm_state \<Rightarrow> ('b, bool) therm_result" where
  "FS_power env pn st = map_option (\<lambda>(ret, data, st). if ret \<noteq> 0 then (- EINVAL, False, st) else (0, data \<noteq> 0, st)) (OW_power env pn st)"

section \<open>Limits and resolution in the chip\<close>

definition recalled :: "'b therm_env \<Rightarrow> therm_pn \<Rightarrow> 'b therm_state \<Rightarrow> ('b, byte list) therm_result" where
  "recalled env pn st =
     (let p = d_frame (te_driver env) in
      return_bad [] (bus_transaction env [TRXN_START, TRXN_WRITE p 1, TRXN_DELAY 10, TRXN_END] pn (put p [0xB8] st)) (\<lambda>_. OW_r_scratchpad env pn))"

definition OW_r_templimit :: "'b therm_env \<Rightarrow> nat \<Rightarrow> therm_pn \<Rightarrow> 'b therm_state \<Rightarrow> ('b, rat) therm_result" where
  "OW_r_templimit env Tindex pn st = return_bad 0 (recalled env pn st) (\<lambda>data st. Some (0, of_int (sint (data ! (2 + Tindex))), st))"

text \<open>A number beyond eight bits is not converted by C.\<close>

definition truncated :: "rat \<Rightarrow> int" where
  "truncated x = (if x \<ge> 0 then \<lfloor>x\<rfloor> else \<lceil>x\<rceil>)"

definition OW_w_templimit :: "'b therm_env \<Rightarrow> rat \<Rightarrow> nat \<Rightarrow> therm_pn \<Rightarrow> 'b therm_state \<Rightarrow> ('b, unit) therm_result" where
  "OW_w_templimit env T Tindex pn st =
     return_bad () (OW_r_scratchpad env pn st) (\<lambda>data st.
       if truncated T < - 128 \<or> truncated T > 127 then None
       else OW_w_store_scratchpad env (drop 2 (data[2 + Tindex := word_of_int (truncated T)])) pn st)"

definition OW_r_tempres :: "'b therm_env \<Rightarrow> therm_pn \<Rightarrow> 'b therm_state \<Rightarrow> ('b, uint) therm_result" where
  "OW_r_tempres env pn st =
     return_bad 0 (recalled env pn st) (\<lambda>data st.
       let c = data ! 4 AND 0x60 in Some (0, if c = 0 then 9 else if c = 0x20 then 10 else if c = 0x40 then 11 else 12, st))"

definition OW_w_tempres :: "'b therm_env \<Rightarrow> uint \<Rightarrow> therm_pn \<Rightarrow> 'b therm_state \<Rightarrow> ('b, unit) therm_result" where
  "OW_w_tempres env resolution pn st =
     return_bad () (OW_r_scratchpad env pn st) (\<lambda>data st.
       let b = data ! 4 AND 0x9F; w = (\<lambda>b. OW_w_store_scratchpad env (drop 2 (data[4 := b])) pn st) in
       if resolution = 9 then w b else if resolution = 10 then w (b OR 0x20) else if resolution = 11 then w (b OR 0x40)
       else if resolution = 12 then w (b OR 0x60) else Some (1, (), st))"

definition FS_r_templimit :: "'b therm_env \<Rightarrow> therm_pn \<Rightarrow> 'b therm_state \<Rightarrow> ('b, rat) therm_result" where
  "FS_r_templimit env pn st = z_or_e (OW_r_templimit env (nat (tp_data pn)) pn st)"

definition FS_w_templimit :: "'b therm_env \<Rightarrow> rat \<Rightarrow> therm_pn \<Rightarrow> 'b therm_state \<Rightarrow> ('b, unit) therm_result" where
  "FS_w_templimit env T pn st = z_or_e (OW_w_templimit env T (nat (tp_data pn)) pn st)"

definition FS_r_tempres :: "'b therm_env \<Rightarrow> therm_pn \<Rightarrow> 'b therm_state \<Rightarrow> ('b, uint) therm_result" where
  "FS_r_tempres env pn st = z_or_e (OW_r_tempres env pn st)"

definition FS_w_tempres :: "'b therm_env \<Rightarrow> uint \<Rightarrow> therm_pn \<Rightarrow> 'b therm_state \<Rightarrow> ('b, unit) therm_result" where
  "FS_w_tempres env resolution pn st = z_or_e (OW_w_tempres env resolution pn st)"

definition FS_r_scratchpad :: "'b therm_env \<Rightarrow> therm_pn \<Rightarrow> 'b therm_state \<Rightarrow> ('b, byte list) therm_result" where
  "FS_r_scratchpad env pn st = z_or_e (OW_r_scratchpad env pn st)"

definition FS_r_ad :: "'b therm_env \<Rightarrow> 'b therm_state \<Rightarrow> ('b, uint) therm_result" where
  "FS_r_ad env st =
     (case te_sibling_binary env ''scratchpad'' st of (ret, data, st) \<Rightarrow>
        Some (if ret \<noteq> 0 then (- EINVAL, 0, st) else (0, ucast (data ! 4 AND 0x0F), st)))"

definition FS_r_flagfield :: "'b therm_env \<Rightarrow> 'b therm_state \<Rightarrow> ('b, uint) therm_result" where
  "FS_r_flagfield env st =
     (case te_sibling_binary env ''scratchpad'' st of (ret, data, st) \<Rightarrow>
        Some (if ret \<noteq> 0 then (- EINVAL, 0, st) else (0, UT_uint32 data, st)))"

section \<open>Trim values\<close>

definition OW_r_trim :: "'b therm_env \<Rightarrow> therm_pn \<Rightarrow> 'b therm_state \<Rightarrow> ('b, byte list) therm_result" where
  "OW_r_trim env pn st =
     (let p = d_frame (te_driver env);
          reading = (\<lambda>cmd a. bus_transaction env [TRXN_START, TRXN_WRITE p 1, TRXN_READ a 1, TRXN_END] pn \<circ> put p [cmd])
      in return_bad [] (reading 0x93 (p + 1) st) (\<lambda>_ st.
           map_option (\<lambda>(ret, _, st). (ret, get (p + 1) 2 st, st)) (reading 0x68 (p + 2) st)))"

definition OW_w_trim :: "'b therm_env \<Rightarrow> byte list \<Rightarrow> therm_pn \<Rightarrow> 'b therm_state \<Rightarrow> ('b, unit) therm_result" where
  "OW_w_trim env trim pn st =
     (let p = d_frame (te_driver env);
          writing = (\<lambda>bytes. bus_transaction env [TRXN_START, TRXN_WRITE p (length bytes), TRXN_END] pn \<circ> put p bytes)
      in return_bad () (writing [0x95, trim ! 0] st) (\<lambda>_ st.
         return_bad () (writing [0x63, trim ! 1] st) (\<lambda>_ st.
         return_bad () (writing [0x94] st) (\<lambda>_ st.
         return_bad () (writing [0x64] st) (\<lambda>_ st. Some (0, (), st))))))"

text \<open>The last serial numbers of the two older kinds of die.\<close>

definition DIE :: "(byte list \<times> byte list) list" where
  "DIE =
     [([0x00, 0x00, 0x00, 0x08, 0x97, 0x8A], [0x00, 0x00, 0x00, 0x0C, 0xB8, 0x1A]),
      ([0x00, 0x08, 0x00, 0x59, 0x1D, 0x20], [0x00, 0x08, 0x00, 0x80, 0x88, 0x60]),
      ([0x00, 0x00, 0x00, 0x54, 0x50, 0x10], [0x00, 0x00, 0x00, 0x66, 0x2B, 0x50])]"

fun memcmp_gt :: "byte list \<Rightarrow> byte list \<Rightarrow> bool" where
  "memcmp_gt (a # as) (b # bs) = (if a = b then memcmp_gt as bs else a > b)"
| "memcmp_gt _ _ = False"

definition OW_die :: "therm_pn \<Rightarrow> eDie" where
  "OW_die pn =
     (let die = map (\<lambda>i. pn_sn (tp_bus pn) ! i) [6, 5, 4, 3, 2, 1]; limits = DIE ! nat (tp_data pn) in
      if memcmp_gt die (snd limits) then eC2 else if memcmp_gt die (fst limits) then eB7 else eB6)"

definition FS_r_die :: "therm_pn \<Rightarrow> string" where
  "FS_r_die pn = (case OW_die pn of eB6 \<Rightarrow> ''B6'' | eB7 \<Rightarrow> ''B7'' | eC2 \<Rightarrow> ''C2'' | eC3 \<Rightarrow> ''C3'')"

definition FS_r_trim :: "'b therm_env \<Rightarrow> therm_pn \<Rightarrow> 'b therm_state \<Rightarrow> ('b, uint) therm_result" where
  "FS_r_trim env pn st =
     map_option (\<lambda>(ret, t, st). if ret \<noteq> 0 then (- EINVAL, 0, st) else (0, (ucast (t ! 1) * 256) OR ucast (t ! 0), st)) (OW_r_trim env pn st)"

definition FS_w_trim :: "'b therm_env \<Rightarrow> uint \<Rightarrow> therm_pn \<Rightarrow> 'b therm_state \<Rightarrow> ('b, unit) therm_result" where
  "FS_w_trim env trim pn st =
     (if OW_die pn \<in> {eB7, eC2} then z_or_e (OW_w_trim env [ucast trim, ucast (drop_bit 8 trim)] pn st) else Some (- EINVAL, (), st))"

definition FS_r_trimvalid :: "'b therm_env \<Rightarrow> therm_pn \<Rightarrow> 'b therm_state \<Rightarrow> ('b, bool) therm_result" where
  "FS_r_trimvalid env pn st =
     (if OW_die pn \<in> {eB7, eC2} then
        map_option (\<lambda>(ret, t, st). if ret \<noteq> 0 then (- EINVAL, False, st) else (0, t ! 0 AND 7 \<in> {5, 3} \<and> t ! 1 = 0xBB, st)) (OW_r_trim env pn st)
      else Some (0, True, st))"

definition FS_r_blanket :: "'b therm_env \<Rightarrow> therm_pn \<Rightarrow> 'b therm_state \<Rightarrow> ('b, bool) therm_result" where
  "FS_r_blanket env pn st =
     (if OW_die pn \<in> {eB7, eC2} then
        map_option (\<lambda>(ret, t, st). if ret \<noteq> 0 then (- EINVAL, False, st) else (0, t = [0x9D, 0xBB], st)) (OW_r_trim env pn st)
      else Some (- EINVAL, False, st))"

definition FS_w_blanket :: "'b therm_env \<Rightarrow> bool \<Rightarrow> therm_pn \<Rightarrow> 'b therm_state \<Rightarrow> ('b, unit) therm_result" where
  "FS_w_blanket env Y pn st =
     (if OW_die pn \<in> {eB7, eC2} then if Y then z_or_e (OW_w_trim env [0x9D, 0xBB] pn st) else Some (0, (), st) else Some (- EINVAL, (), st))"

section \<open>Switch of the DS28EA00\<close>

definition OW_read_piostate :: "'b therm_env \<Rightarrow> therm_pn \<Rightarrow> 'b therm_state \<Rightarrow> ('b, uint) therm_result" where
  "OW_read_piostate env pn st =
     (let p = d_frame (te_driver env) in
      return_bad 0 (bus_transaction env [TRXN_START, TRXN_WRITE p 1, TRXN_READ (p + 1) 1, TRXN_END] pn (put p [0xF5] st)) (\<lambda>_ st.
        let b = hd (get (p + 1) 1 st) in
        if b AND 0x0F \<noteq> drop_bit 4 (NOT b) AND 0x0F then Some (1, 0, st) else Some (0, ucast (b AND 0x0F), st)))"

definition OW_w_pio :: "'b therm_env \<Rightarrow> byte \<Rightarrow> therm_pn \<Rightarrow> 'b therm_state \<Rightarrow> ('b, unit) therm_result" where
  "OW_w_pio env pio pn st =
     (let p = d_frame (te_driver env) in
      bus_transaction env [TRXN_START, TRXN_WRITE p 3, TRXN_END] pn (put p [0xA5, pio, NOT pio] st))"

definition FS_r_piostate :: "'b therm_env \<Rightarrow> therm_pn \<Rightarrow> 'b therm_state \<Rightarrow> ('b, uint) therm_result" where
  "FS_r_piostate env pn st = z_or_e (OW_read_piostate env pn st)"

definition FS_w_pio :: "'b therm_env \<Rightarrow> uint \<Rightarrow> therm_pn \<Rightarrow> 'b therm_state \<Rightarrow> ('b, unit) therm_result" where
  "FS_w_pio env U pn st = z_or_e (OW_w_pio env (NOT (ucast (U AND 3))) pn (te_del_sibling env ''piostate'' st))"

definition FS_sense :: "'b therm_env \<Rightarrow> 'b therm_state \<Rightarrow> ('b, uint) therm_result" where
  "FS_sense env st =
     (case te_sibling_U env ''piostate'' st of (ret, s, st) \<Rightarrow> Some (ret, ((s AND 1) OR drop_bit 1 (s AND 4)) AND 3, st))"

definition FS_r_pio :: "'b therm_env \<Rightarrow> 'b therm_state \<Rightarrow> ('b, uint) therm_result" where
  "FS_r_pio env st =
     (case te_sibling_U env ''piostate'' st of (ret, s, st) \<Rightarrow> Some (ret, (((s AND 1) OR drop_bit 1 (s AND 4)) XOR 0xFF) AND 3, st))"

definition FS_r_latch :: "'b therm_env \<Rightarrow> 'b therm_state \<Rightarrow> ('b, uint) therm_result" where
  "FS_r_latch env st =
     (case te_sibling_U env ''piostate'' st of (ret, s, st) \<Rightarrow> Some (ret, ((drop_bit 1 (s AND 2) OR drop_bit 2 (s AND 8)) XOR 0xFF) AND 3, st))"

section \<open>Memory of the MAX31826\<close>

definition OW_r_mem :: "'b therm_env \<Rightarrow> nat \<Rightarrow> nat \<Rightarrow> therm_pn \<Rightarrow> 'b therm_state \<Rightarrow> ('b, byte list) therm_result" where
  "OW_r_mem env len offset pn st =
     (let p = d_frame (te_driver env) in
      map_option (\<lambda>(ret, _, st). (ret, get (p + 2) len st, st))
        (bus_transaction env [TRXN_START, TRXN_WRITE p 2, TRXN_READ (p + 2) len, TRXN_END] pn (put p [0xF0, of_nat offset AND 0x7F] st)))"

text \<open>
  A page goes to the second scratchpad and is read back; the arrays of eleven bytes are then compared from their last byte on for eight bytes, which is
  undefined. The comparison is left out only when the wrong check sum two ends the log before it. \<open>old\<close> is what the local array held.
\<close>

definition OW_w_page :: "'b therm_env \<Rightarrow> byte list \<Rightarrow> byte list \<Rightarrow> nat \<Rightarrow> therm_pn \<Rightarrow> 'b therm_state \<Rightarrow> ('b, unit) therm_result" where
  "OW_w_page env old data offset pn st =
     (let p = d_frame (te_driver env); page_offset = offset - offset mod 8 in
      if data = [] then Some (0, (), st)
      else return_bad () (if length data \<noteq> 8 then OW_r_mem env 8 page_offset pn st else Some (0, old, st)) (\<lambda>page st.
        return_bad () (bus_transaction env [TRXN_START, TRXN_WRITE p 10, TRXN_READ (p + 10) 1, TRXN_CRC8 p 11, TRXN_END] pn
            (put p ([0x0F, of_nat page_offset] @ patch (offset - page_offset) data page) st)) (\<lambda>_ st.
        return_bad () (bus_transaction env [TRXN_START, TRXN_WRITE p 2, TRXN_READ (p + 2) 9, TRXN_CRC8 p 11, TRXN_END] pn
            (put p [0xAA, of_nat page_offset] st)) (\<lambda>_ st.
        if CRC8compute (get p 11 st) 0 \<noteq> 2 then None
        else bus_transaction env [TRXN_START, TRXN_WRITE p 1, TRXN_POWER (p + 1) 25, TRXN_END] pn (put p [0x55, 0xA5] st)))))"

text \<open>A step that moves nothing would go on for ever: \<^const>\<open>None\<close>. It does not occur, as the next boundary lies after the position.\<close>

function w_mem_loop ::
  "'b therm_env \<Rightarrow> byte list \<Rightarrow> byte list \<Rightarrow> nat \<Rightarrow> nat \<Rightarrow> therm_pn \<Rightarrow> 'b therm_state \<Rightarrow> ('b, unit) therm_result" where
  "w_mem_loop env old data current_off page_boundary_next pn st =
     (if data = [] then Some (0, (), st)
      else
        let this_write = (if current_off + length data > page_boundary_next then page_boundary_next - current_off else length data) in
        if this_write = 0 then None
        else return_bad () (OW_w_page env old (take this_write data) current_off pn st) (\<lambda>_ st.
          w_mem_loop env old (drop this_write data) (current_off + this_write) (page_boundary_next + 8) pn st))"
  by pat_completeness auto

termination by (relation "measure (\<lambda>(_, _, data, _). length data)") auto

declare w_mem_loop.simps [simp del]

definition OW_w_mem :: "'b therm_env \<Rightarrow> byte list \<Rightarrow> byte list \<Rightarrow> nat \<Rightarrow> therm_pn \<Rightarrow> 'b therm_state \<Rightarrow> ('b, unit) therm_result" where
  "OW_w_mem env old data offset pn st = w_mem_loop env old data offset (offset + 8 - offset mod 8) pn st"

definition FS_r_mem :: "'b therm_env \<Rightarrow> nat \<Rightarrow> nat \<Rightarrow> therm_pn \<Rightarrow> 'b therm_state \<Rightarrow> ('b, byte list) therm_result" where
  "FS_r_mem env len offset pn st = z_or_e (OW_r_mem env len offset pn st)"

definition FS_w_mem :: "'b therm_env \<Rightarrow> byte list \<Rightarrow> byte list \<Rightarrow> nat \<Rightarrow> therm_pn \<Rightarrow> 'b therm_state \<Rightarrow> ('b, unit) therm_result" where
  "FS_w_mem env old data offset pn st = z_or_e (OW_w_mem env old data offset pn st)"

definition FS_r_page :: "'b therm_env \<Rightarrow> nat \<Rightarrow> nat \<Rightarrow> therm_pn \<Rightarrow> 'b therm_state \<Rightarrow> ('b, byte list) therm_result" where
  "FS_r_page env len offset pn st = z_or_e (OW_r_mem env len (offset + nat (cp_extension (tp_cache pn)) * 8) pn st)"

definition FS_w_page :: "'b therm_env \<Rightarrow> byte list \<Rightarrow> byte list \<Rightarrow> nat \<Rightarrow> therm_pn \<Rightarrow> 'b therm_state \<Rightarrow> ('b, unit) therm_result" where
  "FS_w_page env old data offset pn st = z_or_e (OW_w_mem env old data (offset + nat (cp_extension (tp_cache pn)) * 8) pn st)"

end
