(* ===== verification/OW_ThermometerChip.thy ===== *)
theory OW_ThermometerChip
  imports OW_Thermometer
begin

text \<open>
  A DS18B20, DS1822 or DS28EA00 after its data sheet, and what the driver reads from it and writes to it through all layers below: transactions, selection, exchange of bytes.
\<close>

unbundle bit_operations_syntax

section \<open>The chip\<close>

text \<open>
  What it measures, in sixteenths of a degree; the scratchpad without its check sum: temperature, limits, configuration, three more bytes; the limits and the
  configuration kept; whether it has power of its own, and then, how often the line is found low during a conversion.
\<close>

datatype therm_phase = Idle | Command | Write_pad nat | Read_pad nat | Read_power | Busy nat

record thermometer =
  th_temp :: "16 word"
  th_pad :: "byte list"
  th_eeprom :: "byte list"
  th_powered :: bool
  th_polls :: nat
  th_phase :: therm_phase

definition config_byte :: "byte \<Rightarrow> byte" where
  "config_byte b = (b AND 0x60) OR 0x1F"

definition converted :: "thermometer \<Rightarrow> thermometer" where
  "converted ch = ch\<lparr>th_pad := patch 0 [ucast (th_temp ch), ucast (drop_bit 8 (th_temp ch))] (th_pad ch)\<rparr>"

definition pad_out :: "thermometer \<Rightarrow> nat \<Rightarrow> byte" where
  "pad_out ch k = (if k < 8 then th_pad ch ! k else if k = 8 then CRC8compute (th_pad ch) 0 else 0xFF)"

definition therm_start :: "thermometer \<Rightarrow> thermometer" where
  "therm_start ch = ch\<lparr>th_phase := Command\<rparr>"

definition therm_command :: "byte \<Rightarrow> thermometer \<Rightarrow> thermometer" where
  "therm_command b ch =
     (if b = 0x4E then ch\<lparr>th_phase := Write_pad 2\<rparr>
      else if b = 0xBE then ch\<lparr>th_phase := Read_pad 0\<rparr>
      else if b = 0x48 then ch\<lparr>th_eeprom := take 3 (drop 2 (th_pad ch)), th_phase := Idle\<rparr>
      else if b = 0x44 then if th_powered ch then ch\<lparr>th_phase := Busy (th_polls ch)\<rparr> else (converted ch)\<lparr>th_phase := Idle\<rparr>
      else if b = 0xB4 then ch\<lparr>th_phase := Read_power\<rparr>
      else if b = 0xB8 then ch\<lparr>th_pad := patch 2 (th_eeprom ch) (th_pad ch), th_phase := Idle\<rparr>
      else ch\<lparr>th_phase := Idle\<rparr>)"

text \<open>A conversion is over when the line is no longer low; a selection before that breaks it off.\<close>

fun therm_do :: "therm_phase \<Rightarrow> byte \<Rightarrow> thermometer \<Rightarrow> byte \<times> thermometer" where
  "therm_do Idle b ch = (b, ch)"
| "therm_do Command b ch = (b, therm_command b ch)"
| "therm_do (Write_pad i) b ch =
     (b, ch\<lparr>th_pad := (th_pad ch)[i := if i = 4 then config_byte b else b], th_phase := (if i < 4 then Write_pad (Suc i) else Idle)\<rparr>)"
| "therm_do (Read_pad k) b ch = (b AND pad_out ch k, ch\<lparr>th_phase := Read_pad (Suc k)\<rparr>)"
| "therm_do Read_power b ch = (if th_powered ch then b else 0, ch)"
| "therm_do (Busy 0) b ch = (b, (converted ch)\<lparr>th_phase := Idle\<rparr>)"
| "therm_do (Busy (Suc n)) b ch = (0, ch\<lparr>th_phase := Busy n\<rparr>)"

definition therm_step :: "byte \<Rightarrow> thermometer \<Rightarrow> byte \<times> thermometer" where
  "therm_step b ch = therm_do (th_phase ch) b ch"

definition chip_ok :: "thermometer \<Rightarrow> bool" where
  "chip_ok ch \<longleftrightarrow> length (th_pad ch) = 8 \<and> length (th_eeprom ch) = 3 \<and> th_polls ch < 22
     \<and> th_pad ch ! 4 = config_byte (th_pad ch ! 4) \<and> th_eeprom ch ! 2 = config_byte (th_eeprom ch ! 2)"

section \<open>Its answers\<close>

lemma config_byte_idem [simp]: "config_byte (config_byte b) = config_byte b"
  by (simp add: config_byte_def bit_eq_iff bit_simps) (auto simp: bit_simps)

lemma therm_start_idem [simp]: "therm_start (therm_start ch) = therm_start ch"
  by (simp add: therm_start_def)

lemma stream_read_pad:
  assumes "th_phase ch = Read_pad k"
  shows "stream therm_step (replicate n 0xFF) ch = (map (pad_out ch) [k..<k + n], ch\<lparr>th_phase := Read_pad (k + n)\<rparr>)"
  using assms
proof (induction n arbitrary: k ch)
  case (Suc n)
  have "pad_out (ch\<lparr>th_phase := Read_pad (Suc k)\<rparr>) = pad_out ch" by (rule ext) (simp add: pad_out_def)
  moreover have "(0xFF :: byte) AND b = b" for b
  proof -
    have "(0xFF :: byte) = - 1" by simp
    then show ?thesis by (simp only: and.left_neutral)
  qed
  ultimately show ?case using Suc.IH [of "ch\<lparr>th_phase := Read_pad (Suc k)\<rparr>" "Suc k"] Suc.prems
    by (simp add: upt_conv_Cons therm_step_def del: upt_Suc)
qed simp

lemma pad_9:
  assumes "length (th_pad ch) = 8"
  shows "map (pad_out ch) [0..<0 + 9] = th_pad ch @ [CRC8compute (th_pad ch) 0]"
proof -
  have "map (pad_out ch) [0..<8] = th_pad ch" using assms by (intro nth_equalityI) (auto simp: pad_out_def)
  moreover have "[0..<0 + 9] = [0..<8] @ [8 :: nat]" by (simp add: upt_rec)
  ultimately show ?thesis by (simp add: pad_out_def)
qed

lemma config_cases: "config_byte b \<in> {0x1F, 0x3F, 0x5F, 0x7F}"
proof -
  have "b AND 0x60 \<in> {0, 0x20, 0x40, 0x60}"
  proof -
    have "b AND 0x60 = (if bit b 5 then 0x20 else 0) OR (if bit b 6 then 0x40 else 0)"
    proof (rule bit_word_eqI)
      fix i :: nat assume "i < LENGTH(8)"
      then consider "i = 0" | "i = 1" | "i = 2" | "i = 3" | "i = 4" | "i = 5" | "i = 6" | "i = 7" by fastforce
      then show "bit (b AND 0x60) i = bit ((if bit b 5 then 0x20 else 0) OR (if bit b 6 then 0x40 else 0) :: byte) i"
        by cases (simp_all add: bit_and_iff bit_or_iff bit_numeral_rec)
    qed
    then show ?thesis by auto
  qed
  then show ?thesis by (auto simp: config_byte_def)
qed

lemma config_byte_60 [simp]: "config_byte b AND 0x60 = b AND 0x60"
proof -
  have "config_byte b AND 0x60 = (b AND (0x60 AND 0x60)) OR (0x1F AND 0x60)" by (simp only: config_byte_def bit.conj_disj_distrib2 and.assoc)
  then show ?thesis by simp
qed

lemma bits_60: "y \<in> {0, 0x20, 0x40, 0x60} \<Longrightarrow> ((x AND 0x9F) OR y) AND 0x60 = y" for x y :: byte
proof -
  assume "y \<in> {0, 0x20, 0x40, 0x60}"
  then have "y AND 0x60 = y" by auto
  moreover have "((x AND 0x9F) OR y) AND 0x60 = (x AND (0x9F AND 0x60)) OR (y AND 0x60)" by (simp only: bit.conj_disj_distrib2 and.assoc)
  ultimately show ?thesis by simp
qed

text \<open>The limits and the configuration in the scratchpad.\<close>

definition with_settings :: "byte list \<Rightarrow> thermometer \<Rightarrow> thermometer" where
  "with_settings data ch = ch\<lparr>th_pad := patch 2 [data ! 0, data ! 1, config_byte (data ! 2)] (th_pad ch)\<rparr>"

lemma length_3: "length xs = 3 \<Longrightarrow> xs = [xs ! 0, xs ! 1, xs ! 2]"
  by (auto simp: numeral_3_eq_3 length_Suc_conv)

lemma stream_settings:
  assumes "length data = 3" and "length (th_pad ch) = 8"
  shows "stream therm_step (0x4E # data) (therm_start ch) = (0x4E # data, (with_settings data ch)\<lparr>th_phase := Idle\<rparr>)"
proof -
  obtain a b c where data: "data = [a, b, c]" using length_3 [OF assms(1)] by blast
  have "(((th_pad ch)[2 := a])[3 := b])[4 := config_byte c] = patch 2 [a, b, config_byte c] (th_pad ch)"
    using assms(2) by (auto simp: patch_def length_Suc_conv eval_nat_numeral)
  then show ?thesis by (simp add: data therm_step_def therm_start_def therm_command_def with_settings_def numeral_3_eq_3 numeral_2_eq_2 eval_nat_numeral)
qed

section \<open>Conversations of the driver\<close>

locale therm_bus = power_bus d pn slave usable selected therm_step therm_start
  for d :: "'b driver" and pn :: bus_pn and slave :: "'b connection_in \<Rightarrow> thermometer"
    and usable :: "'b connection_in \<Rightarrow> bool" and selected :: "'b connection_in \<Rightarrow> bool" +
  fixes env :: "'b therm_env" and tp :: therm_pn
  assumes driver: "te_driver env = d" "tp_bus tp = pn" and family: "pn_sn pn ! 0 \<in> {0x28, 0x22, 0x42}"
    and keeps_lock: "ir_flags (d_ir d) AND ADAP_FLAG_unlock_during_delay = 0"
begin

text \<open>The chip on the line, apart from what it does at the moment.\<close>

definition on :: "'b therm_state \<Rightarrow> thermometer \<Rightarrow> bool" where
  "on st ch \<longleftrightarrow> usable (conn (ts_trx st)) \<and> therm_start (slave (conn (ts_trx st))) = therm_start ch"

definition after :: "'b therm_state \<Rightarrow> thermometer \<Rightarrow> 'b therm_state \<Rightarrow> bool" where
  "after st ch st' \<longleftrightarrow> on st' ch \<and> ts_cache st' = ts_cache st \<and> ts_now st' = ts_now st"

lemma on_put [simp]: "on (put a xs st) ch = on st ch"
  by (simp add: on_def put_def store_def)

lemma after_put [simp]: "after (put a xs st) ch st' = after st ch st'"
  by (simp add: after_def put_def)

lemma on_phase [simp]: "on st (ch\<lparr>th_phase := x\<rparr>) = on st ch" "after st (ch\<lparr>th_phase := x\<rparr>) st' = after st ch st'"
  by (simp_all add: after_def on_def therm_start_def)

lemma mem_put [simp]: "mem (ts_trx (put a xs st)) = mem_write a xs (mem (ts_trx st))"
  by (simp add: put_def store_def)

lemma after_on: "after st ch st' \<Longrightarrow> on st' ch"
  by (simp add: after_def)

lemma after_trans: "after st ch st' \<Longrightarrow> after st' ch' st'' \<Longrightarrow> after st ch' st''"
  by (simp add: after_def)

lemma log_ends: "trx_loop select ir junk [TRXN_END] q t = Some (0, t)"
  by (simp add: BUS_transaction_single_def TRXN_END_def)

text \<open>A transaction that selects the chip, from what becomes of the rest of its log.\<close>

lemma transaction_runs:
  assumes "on st ch"
    and "\<And>t al. talking t (mem (ts_trx st), therm_start ch) al \<Longrightarrow>
      \<exists>t'. trx_loop (BUS_select (d_ir d)) (d_ir d) (d_junk d) us pn t = Some (0, t') \<and> usable (conn t') \<and> therm_start (slave (conn t')) = therm_start ch' \<and> mem t' = m'"
  shows "\<exists>st'. bus_transaction env (TRXN_START # us) tp st = Some (0, (), st') \<and> after st ch' st' \<and> mem (ts_trx st') = m'"
proof -
  let ?t = "BUS_lock (ts_trx st)"
  have "reached ?t (mem (ts_trx st), slave (conn (ts_trx st))) (allocs (ts_trx st))"
    using assms(1) by (intro lock_reached) (simp add: reached_def on_def)
  from log_starts [OF this] obtain t where t: "trx_loop (BUS_select (d_ir d)) (d_ir d) (d_junk d) (TRXN_START # us) pn ?t =
        trx_loop (BUS_select (d_ir d)) (d_ir d) (d_junk d) us pn t" "talking t (mem (ts_trx st), therm_start ch) (allocs (ts_trx st))"
    using assms(1) by (fastforce simp: on_def)
  obtain t' where t': "trx_loop (BUS_select (d_ir d)) (d_ir d) (d_junk d) us pn t = Some (0, t')" "usable (conn t')"
      "therm_start (slave (conn t')) = therm_start ch'" "mem t' = m'"
    using assms(2) [OF t(2)] by blast
  have "usable (conn (BUS_unlock t')) \<and> slave (conn (BUS_unlock t')) = slave (conn t')" "mem (BUS_unlock t') = mem t'"
    using locks_keep(2) [OF t'(2)] by (simp_all add: BUS_unlock_def)
  then show ?thesis using t(1) t'
    by (auto simp: bus_transaction_def driver transact_loop after_def on_def)
qed

text \<open>An ordinary one.\<close>

lemma conversation:
  assumes "on st ch" and "list_all talk_entry ts" and "converse therm_step ts (mem (ts_trx st), therm_start ch) = Some (m', ch')"
  shows "\<exists>st'. bus_transaction env (TRXN_START # ts @ [TRXN_END]) tp st = Some (0, (), st') \<and> after st ch' st' \<and> mem (ts_trx st') = m'"
proof (rule transaction_runs [OF assms(1)])
  fix t al assume "talking t (mem (ts_trx st), therm_start ch) al"
  from log_goes_on [OF this assms(2,3), of "BUS_select (d_ir d)" "d_junk d" "[TRXN_END]"]
  show "\<exists>t'. trx_loop (BUS_select (d_ir d)) (d_ir d) (d_junk d) (ts @ [TRXN_END]) pn t = Some (0, t') \<and> usable (conn t')
      \<and> therm_start (slave (conn t')) = therm_start ch' \<and> mem t' = m'"
    using selected_usable by (auto simp: log_ends talking_def simp del: trx_loop.simps)
qed

lemma reads_scratchpad:
  assumes "on st ch" and "length (th_pad ch) = 8"
  shows "\<exists>st'. OW_r_scratchpad env tp st = Some (0, th_pad ch @ [CRC8compute (th_pad ch) 0], st') \<and> after st ch st'"
proof -
  let ?p = "d_frame d" and ?st = "put (d_frame d) [0xBE] st" and ?data = "th_pad ch @ [CRC8compute (th_pad ch) 0]"
  let ?m1 = "mem (ts_trx ?st)" and ?ch0 = "ch\<lparr>th_phase := Read_pad 0\<rparr>"
  let ?m2 = "mem_write (?p + 1) ?data ?m1" and ?ts = "[TRXN_WRITE ?p 1, TRXN_READ (?p + 1) 9]"
  have be: "mem_read ?m1 ?p 1 = [0xBE]" by (simp add: mem_read_def mem_write_def)
  have "stream therm_step [0xBE] (therm_start ch) = ([0xBE], ?ch0)" by (simp add: therm_step_def therm_start_def therm_command_def)
  moreover have "stream therm_step (replicate 9 0xFF) ?ch0 = (?data, ?ch0\<lparr>th_phase := Read_pad 9\<rparr>)"
  proof -
    have "pad_out ?ch0 = pad_out ch" by (rule ext) (simp add: pad_out_def)
    then show ?thesis using stream_read_pad [of ?ch0 0 9] pad_9 [OF assms(2)] by simp
  qed
  ultimately have conv: "converse therm_step ?ts (?m1, therm_start ch) = Some (?m2, ?ch0\<lparr>th_phase := Read_pad 9\<rparr>)"
    using be by (simp add: trxn_macros Let_def del: stream.simps replicate.simps mem_put)
  have read: "mem_read ?m2 (?p + 1) 9 = ?data" using assms(2) by (intro nth_equalityI) (auto simp: mem_read_def mem_write_def)
  have crc: "CRC8compute (mem_read ?m2 (?p + 1) 9) 0 = 0" using CRC8_appended [of "th_pad ch" "CRC8compute (th_pad ch) 0"] read
    by (simp add: CRC8_def CRC8seeded_def Let_def split: if_splits)
  have entries: "list_all talk_entry ?ts" by (simp add: talk_entry_def trxn_macros)
  have ph: "therm_start (?ch0\<lparr>th_phase := x\<rparr>) = therm_start ch" for x by (simp add: therm_start_def)
  have "\<exists>st'. bus_transaction env (TRXN_START # ?ts @ [TRXN_CRC8 (?p + 1) 9, TRXN_END]) tp ?st = Some (0, (), st') \<and> after ?st ch st' \<and> mem (ts_trx st') = ?m2"
  proof (rule transaction_runs)
    show "on ?st ch" using assms(1) by simp
    fix t al assume "talking t (?m1, therm_start ch) al"
    from log_goes_on [OF this entries conv] obtain t1 where t1: "trx_loop (BUS_select (d_ir d)) (d_ir d) (d_junk d) (?ts @ [TRXN_CRC8 (?p + 1) 9, TRXN_END]) pn t =
        trx_loop (BUS_select (d_ir d)) (d_ir d) (d_junk d) [TRXN_CRC8 (?p + 1) 9, TRXN_END] pn t1" "talking t1 (?m2, ?ch0\<lparr>th_phase := Read_pad 9\<rparr>) al" by blast
    from crc8_good [OF t1(2) crc, of "BUS_select (d_ir d)" "d_junk d" "[TRXN_END]"]
    show "\<exists>t'. trx_loop (BUS_select (d_ir d)) (d_ir d) (d_junk d) (?ts @ [TRXN_CRC8 (?p + 1) 9, TRXN_END]) pn t = Some (0, t') \<and> usable (conn t')
        \<and> therm_start (slave (conn t')) = therm_start ch \<and> mem t' = ?m2"
      using t1(1) selected_usable ph by (auto simp: log_ends talking_def simp del: trx_loop.simps)
  qed
  then show ?thesis using read by (auto simp: OW_r_scratchpad_def driver Let_def get_def fetch_def)
qed

lemma scratch_3: "scratch_length tp = 3"
  using family by (auto simp: scratch_length_def driver)

lemma mem_read_put: "length xs = n \<Longrightarrow> mem_read (mem_write a xs m) a n = xs"
  by (intro nth_equalityI) (auto simp: mem_read_def mem_write_def)

lemma writes_scratchpad:
  assumes "on st ch" and "length (th_pad ch) = 8" and "length data = 3"
  shows "\<exists>st'. OW_w_scratchpad env data tp st = Some (0, (), st') \<and> after st (with_settings data ch) st'"
proof -
  let ?st = "put (d_frame d) (0x4E # data) st" and ?ts = "[TRXN_WRITE (d_frame d) 4]"
  have conv: "converse therm_step ?ts (mem (ts_trx ?st), therm_start ch) = Some (mem (ts_trx ?st), (with_settings data ch)\<lparr>th_phase := Idle\<rparr>)"
    using stream_settings [OF assms(3,2)] assms(3) by (simp add: trxn_macros Let_def mem_read_put del: stream.simps)
  have "list_all talk_entry ?ts" by (simp add: talk_entry_def trxn_macros)
  from conversation [OF _ this conv] show ?thesis using assms(1,3)
    by (auto simp: OW_w_scratchpad_def driver Let_def scratch_3)
qed

text \<open>A command after which the line delivers power.\<close>

lemma power_command:
  assumes "talking t (m, h) al" and "therm_step (m a) h = (m a, h')"
  shows "\<exists>t'. trx_loop select (d_ir d) (d_junk d) [TRXN_POWER a n, TRXN_END] pn t = Some (0, t') \<and> usable (conn t') \<and> slave (conn t') = h' \<and> mem t' = m"
proof -
  have "mem_write a [m a] m = m" by (rule ext) (auto simp: mem_write_def le_less_Suc_eq)
  then show ?thesis using power_good [OF assms, of select "d_junk d" n "[TRXN_END]"] selected_usable
    by (auto simp: log_ends talking_def simp del: trx_loop.simps)
qed

lemma stores_scratchpad:
  assumes "on st ch" and "length (th_pad ch) = 8" and "length data = 3"
  shows "\<exists>st'. OW_w_store_scratchpad env data tp st = Some (0, (), st')
    \<and> after st ((with_settings data ch)\<lparr>th_eeprom := take 3 (drop 2 (th_pad (with_settings data ch)))\<rparr>) st'"
proof -
  let ?p = "d_frame d" and ?st = "put (d_frame d) (0x4E # data @ [0x48]) st" and ?ts = "[TRXN_WRITE (d_frame d) 4]"
  let ?m = "mem (ts_trx ?st)" and ?ch1 = "(with_settings data ch)\<lparr>th_phase := Idle\<rparr>"
  let ?ch2 = "(with_settings data ch)\<lparr>th_eeprom := take 3 (drop 2 (th_pad (with_settings data ch))), th_phase := Idle\<rparr>"
  have m: "mem_read ?m ?p 4 = 0x4E # data" "?m (?p + 4) = 0x48"
    using assms(3) by (auto simp: mem_read_def mem_write_def nth_append nth_Cons' intro!: nth_equalityI)
  have conv: "converse therm_step ?ts (?m, therm_start ch) = Some (?m, ?ch1)"
    using stream_settings [OF assms(3,2)] m(1) by (simp add: trxn_macros Let_def del: stream.simps mem_put)
  have copy: "therm_step (?m (?p + 4)) (therm_start ?ch1) = (?m (?p + 4), ?ch2)"
    unfolding m(2) by (simp add: therm_step_def therm_start_def therm_command_def)
  have entries: "list_all talk_entry ?ts" by (simp add: talk_entry_def trxn_macros)
  let ?us = "TRXN_START # [TRXN_POWER (?p + 4) 10, TRXN_END]"
  have "\<exists>st'. bus_transaction env (TRXN_START # ?ts @ ?us) tp ?st = Some (0, (), st') \<and> after ?st ?ch2 st' \<and> mem (ts_trx st') = ?m"
  proof (rule transaction_runs)
    show "on ?st ch" using assms(1) by simp
    fix t al assume "talking t (?m, therm_start ch) al"
    from log_goes_on [OF this entries conv] obtain t1 where t1: "trx_loop (BUS_select (d_ir d)) (d_ir d) (d_junk d) (?ts @ ?us) pn t =
        trx_loop (BUS_select (d_ir d)) (d_ir d) (d_junk d) ?us pn t1" "talking t1 (?m, ?ch1) al" by blast
    from log_starts [OF talking_reached [OF t1(2)], of "d_junk d" "[TRXN_POWER (?p + 4) 10, TRXN_END]"] obtain t2 where
      t2: "trx_loop (BUS_select (d_ir d)) (d_ir d) (d_junk d) ?us pn t1 = trx_loop (BUS_select (d_ir d)) (d_ir d) (d_junk d) [TRXN_POWER (?p + 4) 10, TRXN_END] pn t2"
        "talking t2 (?m, therm_start ?ch1) al" by blast
    from power_command [OF t2(2) copy, of "BUS_select (d_ir d)" 10] t1(1) t2(1)
    show "\<exists>t'. trx_loop (BUS_select (d_ir d)) (d_ir d) (d_junk d) (?ts @ ?us) pn t = Some (0, t') \<and> usable (conn t')
        \<and> therm_start (slave (conn t')) = therm_start ?ch2 \<and> mem t' = ?m"
      by (auto simp del: trx_loop.simps mem_put)
  qed
  then show ?thesis using assms(3)
    by (auto simp: OW_w_store_scratchpad_def driver Let_def scratch_3)
qed

lemma recalls:
  assumes "on st ch" and "length (th_pad ch) = 8" and "length (th_eeprom ch) = 3"
  defines "ch' \<equiv> ch\<lparr>th_pad := patch 2 (th_eeprom ch) (th_pad ch)\<rparr>"
  shows "\<exists>st'. recalled env tp st = Some (0, th_pad ch' @ [CRC8compute (th_pad ch') 0], st') \<and> after st ch' st'"
proof -
  let ?st = "put (d_frame d) [0xB8] st" and ?ts = "[TRXN_WRITE (d_frame d) 1, TRXN_DELAY 10]"
  have "stream therm_step [0xB8] (therm_start ch) = ([0xB8], ch'\<lparr>th_phase := Idle\<rparr>)"
    by (simp add: therm_step_def therm_start_def therm_command_def ch'_def)
  then have conv: "converse therm_step ?ts (mem (ts_trx ?st), therm_start ch) = Some (mem (ts_trx ?st), ch'\<lparr>th_phase := Idle\<rparr>)"
    by (simp add: trxn_entries Let_def mem_read_put del: stream.simps)
  have "list_all talk_entry ?ts" by (simp add: talk_entry_def trxn_entries)
  from conversation [OF _ this conv] obtain st1 where st1: "bus_transaction env [TRXN_START, TRXN_WRITE (d_frame d) 1, TRXN_DELAY 10, TRXN_END] tp ?st = Some (0, (), st1)" "after st ch' st1"
    using assms(1) by auto
  have "length (th_pad ch') = 8" using assms(2,3) by (simp add: ch'_def)
  from reads_scratchpad [OF after_on [OF st1(2)] this] st1 show ?thesis
    by (auto simp: recalled_def driver Let_def return_bad_def intro: after_trans)
qed

text \<open>Settings that are stored and recalled.\<close>

lemma stored_recalled:
  assumes "on st ch" and "chip_ok ch" and "length data = 3"
  shows "\<exists>st1. OW_w_store_scratchpad env data tp st = Some (0, (), st1) \<and>
    (\<exists>st2 ch' crc. recalled env tp st1 = Some (0, patch 2 [data ! 0, data ! 1, config_byte (data ! 2)] (th_pad ch) @ [crc], st2)
       \<and> on st2 ch' \<and> chip_ok ch' \<and> th_temp ch' = th_temp ch)"
proof -
  let ?set = "[data ! 0, data ! 1, config_byte (data ! 2)]"
  let ?ch = "(with_settings data ch)\<lparr>th_eeprom := take 3 (drop 2 (th_pad (with_settings data ch)))\<rparr>"
  have len: "length (th_pad ch) = 8" "length (th_pad ?ch) = 8" "th_pad ?ch = patch 2 ?set (th_pad ch)" using assms(2) by (simp_all add: chip_ok_def with_settings_def)
  have kept: "th_eeprom ?ch = ?set" using patch_slice [of 2 ?set "th_pad ch"] len(1) by (simp add: with_settings_def eval_nat_numeral)
  obtain st1 where st1: "OW_w_store_scratchpad env data tp st = Some (0, (), st1)" "on st1 ?ch"
    using stores_scratchpad [OF assms(1) len(1) assms(3)] after_on by blast
  have again: "patch 2 (th_eeprom ?ch) (th_pad ?ch) = patch 2 ?set (th_pad ch)"
    unfolding kept len(3) using len(1) by (simp add: patch_def)
  let ?ch' = "?ch\<lparr>th_pad := patch 2 ?set (th_pad ch)\<rparr>"
  have "chip_ok ?ch'" using assms(2) len kept by (simp add: chip_ok_def with_settings_def patch_def nth_append)
  moreover obtain st2 where "recalled env tp st1 = Some (0, patch 2 ?set (th_pad ch) @ [CRC8compute (patch 2 ?set (th_pad ch)) 0], st2)" "on st2 ?ch'"
    using recalls [OF st1(2) len(2)] kept again after_on by fastforce
  ultimately show ?thesis using st1(1) by (auto simp: with_settings_def)
qed

lemma tempres_kept:
  assumes "on st ch" and "chip_ok ch" and "r \<in> {9, 10, 11, 12}"
  shows "\<exists>st1 st2. FS_w_tempres env r tp st = Some (0, (), st1) \<and> FS_r_tempres env tp st1 = Some (0, r, st2)"
proof -
  let ?data = "th_pad ch @ [CRC8compute (th_pad ch) 0]"
  have len: "length (th_pad ch) = 8" using assms(2) by (simp add: chip_ok_def)
  obtain st0 where st0: "OW_r_scratchpad env tp st = Some (0, ?data, st0)" "on st0 ch" using reads_scratchpad [OF assms(1) len] after_on by blast
  define b where "b = (?data ! 4 AND 0x9F) OR (if r = 9 then 0 else if r = 10 then 0x20 else if r = 11 then 0x40 else 0x60)"
  let ?set = "take 3 (drop 2 (?data[4 := b]))"
  have three: "length ?set = 3" "?set ! 2 = b" using len by simp_all
  have "OW_w_tempres env r tp st = OW_w_store_scratchpad env (drop 2 (?data[4 := b])) tp st0"
    using st0(1) assms(3) by (auto simp: OW_w_tempres_def return_bad_def b_def Let_def)
  also have "\<dots> = OW_w_store_scratchpad env ?set tp st0" by (simp add: OW_w_store_scratchpad_def)
  finally have w: "OW_w_tempres env r tp st = OW_w_store_scratchpad env ?set tp st0" .
  from stored_recalled [OF st0(2) assms(2) three(1)] obtain st1 st2 crc where st1: "OW_w_store_scratchpad env ?set tp st0 = Some (0, (), st1)"
    and st2: "recalled env tp st1 = Some (0, patch 2 [?set ! 0, ?set ! 1, config_byte b] (th_pad ch) @ [crc], st2)" using three(2) by auto
  have bits: "config_byte b AND 0x60 = (if r = 9 then 0 else if r = 10 then 0x20 else if r = 11 then 0x40 else 0x60)"
    by (simp add: b_def bits_60)
  then have "OW_r_tempres env tp st1 = Some (0, r, st2)" using st2 len assms(3) by (auto simp: OW_r_tempres_def return_bad_def Let_def patch_def nth_append)
  then show ?thesis using w st1 by (simp add: FS_w_tempres_def FS_r_tempres_def z_or_e_def GB_to_Z_OR_E_def)
qed

lemma templimit_kept:
  assumes "on st ch" and "chip_ok ch" and "i \<in> {0, 1}" and "tp_data tp = int i" and "- 128 \<le> truncated T" "truncated T \<le> 127"
  shows "\<exists>st1 st2. FS_w_templimit env T tp st = Some (0, (), st1) \<and> FS_r_templimit env tp st1 = Some (0, of_int (truncated T), st2)"
proof -
  let ?data = "th_pad ch @ [CRC8compute (th_pad ch) 0]" and ?b = "word_of_int (truncated T) :: byte"
  have len: "length (th_pad ch) = 8" using assms(2) by (simp add: chip_ok_def)
  obtain st0 where st0: "OW_r_scratchpad env tp st = Some (0, ?data, st0)" "on st0 ch" using reads_scratchpad [OF assms(1) len] after_on by blast
  let ?set = "take 3 (drop 2 (?data[2 + i := ?b]))"
  have "i < 3" using assms(3) by auto
  then have three: "length ?set = 3" "?set ! i = ?b" using len by simp_all
  have "OW_w_templimit env T i tp st = OW_w_store_scratchpad env (drop 2 (?data[2 + i := ?b])) tp st0"
    using st0(1) assms(5,6) by (simp add: OW_w_templimit_def return_bad_def)
  also have "\<dots> = OW_w_store_scratchpad env ?set tp st0" by (simp add: OW_w_store_scratchpad_def)
  finally have w: "OW_w_templimit env T i tp st = OW_w_store_scratchpad env ?set tp st0" .
  from stored_recalled [OF st0(2) assms(2) three(1)] obtain st1 st2 crc where st1: "OW_w_store_scratchpad env ?set tp st0 = Some (0, (), st1)"
    and st2: "recalled env tp st1 = Some (0, patch 2 [?set ! 0, ?set ! 1, config_byte (?set ! 2)] (th_pad ch) @ [crc], st2)" by auto
  have "sint ?b = truncated T" using assms(5,6) by (simp add: signed_of_int signed_take_bit_int_eq_self)
  moreover have "(patch 2 [?set ! 0, ?set ! 1, config_byte (?set ! 2)] (th_pad ch) @ [crc]) ! (2 + i) = ?b"
    using three(2) assms(3) len by (auto simp: patch_def nth_append)
  ultimately have "OW_r_templimit env i tp st1 = Some (0, of_int (truncated T), st2)" using st2 by (simp add: OW_r_templimit_def return_bad_def del: of_int_sint)
  then show ?thesis using w st1 assms(4) by (simp add: FS_w_templimit_def FS_r_templimit_def z_or_e_def GB_to_Z_OR_E_def)
qed

end

end
