(* ===== verification/OW_Temperature.thy ===== *)
theory OW_Temperature
  imports OW_ThermometerChip
begin

text \<open>
  Reading a temperature, through all layers: resolution, power, conversion, check sum and scale, with the cache of what is known of the chip. Settings that are
  written are read back.
\<close>

unbundle bit_operations_syntax

section \<open>Resolution\<close>

text \<open>A temperature cut to the resolution.\<close>

definition cut :: "int \<Rightarrow> int \<Rightarrow> int" where
  "cut bits t = t div 2 ^ nat (12 - bits) * 2 ^ nat (12 - bits)"

lemma mask_bits:
  assumes "resolution_of_bits bits = Some r" and "i < 8"
  shows "bit (tr_mask r) i \<longleftrightarrow> nat (12 - bits) \<le> i"
proof -
  consider "i = 0" | "i = 1" | "i = 2" | "i = 3" | "i = 4" | "i = 5" | "i = 6" | "i = 7" using assms(2) by fastforce
  then show ?thesis using assms(1)
    by cases (auto simp: resolution_of_bits_def Resolution9_def Resolution10_def Resolution11_def Resolution12_def bit_numeral_rec split: if_splits)
qed

lemma cut_masked:
  fixes t :: "16 word"
  assumes "resolution_of_bits bits = Some r"
  shows "sint (word_cat (ucast (drop_bit 8 t) :: byte) ((ucast t :: byte) AND tr_mask r) :: 16 word) = cut bits (sint t)"
proof -
  define k where "k = nat (12 - bits)"
  have k: "k \<le> 3" using assms by (auto simp: k_def resolution_of_bits_def split: if_splits)
  let ?w = "word_cat (ucast (drop_bit 8 t) :: byte) ((ucast t :: byte) AND tr_mask r) :: 16 word"
  have w: "bit ?w i \<longleftrightarrow> k \<le> i \<and> bit t i" if "i < 16" for i
    using that mask_bits [OF assms, of i] k
    by (auto simp: bit_word_cat_iff bit_and_iff bit_ucast_iff bit_drop_bit_eq k_def [symmetric])
  have "sint ?w = push_bit k (drop_bit k (sint t))"
  proof (rule bit_eqI)
    fix n :: nat
    have signed: "bit (sint x) n \<longleftrightarrow> bit x (min 15 n)" for x :: "16 word"
    proof (cases "16 \<le> n")
      case True
      then have "\<not> bit x n" using bit_imp_le_length [of x n] by auto
      then show ?thesis using True by (simp add: bit_sint_iff bit_signed_iff min_def)
    next
      case False
      then have "n < 15 \<or> n = 15" by linarith
      then show ?thesis by (auto simp: bit_sint_iff bit_signed_iff min_def)
    qed
    then have "bit (sint ?w) n \<longleftrightarrow> bit ?w (min 15 n)" "bit (sint t) n \<longleftrightarrow> bit t (min 15 n)" by blast+
    moreover have "k \<le> min 15 n \<longleftrightarrow> k \<le> n" using k by auto
    ultimately show "bit (sint ?w) n = bit (push_bit k (drop_bit k (sint t))) n"
      using w [of "min 15 n"] by (auto simp: bit_push_bit_iff bit_drop_bit_eq)
  qed
  then show ?thesis by (simp add: cut_def k_def [symmetric] push_bit_eq_mult drop_bit_eq_div)
qed

lemma resolution_of_config:
  assumes "resolution_of_bits bits = Some r"
  shows "resolution_of_config (tr_config r) = r" "config_byte (tr_config r) = tr_config r" "tr_bits r = bits" "tr_scale r = 16"
    "(tr_config r AND 0x60) OR 0x1F = tr_config r"
  using assms
  by (auto simp: resolution_of_bits_def resolution_of_config_def Resolution9_def Resolution10_def Resolution11_def Resolution12_def config_byte_def
      split: if_splits)

lemma config_unique:
  assumes "b = config_byte b" and "resolution_of_bits bits = Some r" and "tr_bits (resolution_of_config b) = bits"
  shows "b = tr_config r"
  using config_cases [of b] assms
  by (auto simp: resolution_of_bits_def resolution_of_config_def Resolution9_def Resolution10_def Resolution11_def Resolution12_def
      split: if_splits)

lemma config_1F: "b = config_byte b \<Longrightarrow> b OR 0x1F = b"
  by (metis config_byte_def or.assoc or.idem)

section \<open>The driver and the chip\<close>

context therm_bus
begin

text \<open>What the cache keeps about the chip.\<close>

definition key :: "internal_prop \<Rightarrow> tree_key" where
  "key ip = LoadTK (cp_sn (tp_cache tp)) (ip_ptr (ip_name ip)) EXTENSION_INTERNAL"

definition kept :: "'b therm_state \<Rightarrow> internal_prop \<Rightarrow> byte list option" where
  "kept st ip = cached (ts_now st) (key ip) (ts_cache st)"

definition cache_sound :: "'b therm_state \<Rightarrow> bool" where
  "cache_sound st \<longleftrightarrow> 0 < TimeOut (te_globals env) fc_stable
     \<and> cache_invar (\<lambda>_. TimeOut (te_globals env) fc_stable) (ts_now st) (ts_cache st)"

lemma Get_Stat_cached [simp]: "cached t k (snd (Get_Stat i r c)) = cached t k c" "cache_invar dur now (snd (Get_Stat i r c)) = cache_invar dur now c"
  by (simp_all add: Get_Stat_def Let_def split: cache_task_return.split)

lemma cache_get_kept:
  assumes "cache_sound st" and "ip_change ip = fc_stable"
  shows "\<exists>gb data c. cache_get env n ip tp st = ((gb, data), st\<lparr>ts_cache := c\<rparr>) \<and> cache_sound (st\<lparr>ts_cache := c\<rparr>)
    \<and> (\<forall>ip. kept (st\<lparr>ts_cache := c\<rparr>) ip = kept st ip)
    \<and> (BAD gb \<or> kept st ip = Some data \<and> length data = n)"
proof -
  let ?g = "te_globals env" and ?c = "ts_cache st" and ?now = "ts_now st"
  have inv: "cache_invar (\<lambda>_. TimeOut ?g fc_stable) ?now ?c" and pos: "0 < TimeOut ?g fc_stable" using assms(1) by (simp_all add: cache_sound_def)
  obtain ctr size' left data where r: "Cache_Get_Common ?now n (TimeOut ?g fc_stable) (key ip) ?c = (ctr, size', left, data)" by (metis prod_cases4)
  obtain gb c where st: "Get_Stat cache_int ctr ?c = (gb, c)" by fastforce
  have hit: "cached ?now (key ip) ?c = Some data \<and> size' = length data" if "ctr = ctr_ok"
    using Cache_Get_Common_cached(1) [OF inv, of n "key ip"] Cache_Get_Common_cached(2) [OF inv, of "key ip" _ n] r that by fastforce
  have "gb = gbGOOD \<longleftrightarrow> ctr = ctr_ok" using st by (auto simp: Get_Stat_def Let_def split: cache_task_return.splits)
  moreover have "cached ?now k c = cached ?now k ?c" "cache_invar dur ?now c = cache_invar dur ?now ?c" for k dur
    using Get_Stat_cached [of _ _ cache_int ctr ?c] st by (metis snd_conv)+
  ultimately show ?thesis using r st hit inv pos assms(2)
    by (intro exI [of _ "if BAD gb then gbBAD else if n = size' then gbGOOD else gbBAD"] exI [of _ data] exI [of _ c])
      (auto simp: cache_get_def Cache_Get_SlaveSpecific_def Cache_Get_Internal_def Let_def key_def cache_sound_def kept_def GOOD_def)
qed

lemma cache_add_kept:
  assumes "cache_sound st" and "ip_change ip = fc_stable"
  shows "cache_sound (cache_add env data ip tp st)" and "key ip' \<noteq> key ip \<Longrightarrow> kept (cache_add env data ip tp st) ip' = kept st ip'"
    and "on (cache_add env data ip tp st) ch = on st ch"
proof -
  let ?g = "te_globals env" and ?c = "ts_cache st" and ?now = "ts_now st"
  have inv: "cache_invar (\<lambda>_. TimeOut ?g fc_stable) ?now ?c" and pos: "0 < TimeOut ?g fc_stable" using assms(1) by (simp_all add: cache_sound_def)
  obtain mok t where t: "next_alloc (ts_trx st) = (mok, t)" by fastforce
  obtain tok t' where t': "next_alloc t = (tok, t')" by fastforce
  let ?put = "put_temporary (\<lambda>_. TimeOut ?g fc_stable) ?now (?g, tok) (key ip) data ?c"
  let ?add = "Cache_Add_SlaveSpecific ?g ?now mok tok data ip (Some (tp_cache tp)) ?c"
  have add: "?add = (if mok then Add_Stat cache_int ?put else (gbBAD, ?c))" using pos assms(2)
    by (auto simp: Cache_Add_SlaveSpecific_def put_temporary_def value_node_def key_def Let_def)
  have stat: "cached x k (snd (Add_Stat i p)) = cached x k (snd p)" "cache_invar dur x (snd (Add_Stat i p)) = cache_invar dur x (snd p)" for i p x k dur
    by (auto simp: Add_Stat_def split: prod.split)
  have state: "cache_add env data ip tp st = st\<lparr>ts_trx := t', ts_cache := snd ?add\<rparr>" using t t' by (simp add: cache_add_def)
  show "cache_sound (cache_add env data ip tp st)" using cache.add_invar [OF inv] inv pos by (simp add: state cache_sound_def add stat)
  show "kept (cache_add env data ip tp st) ip' = kept st ip'" if "key ip' \<noteq> key ip"
    using cache.add_look [OF inv order_refl] that by (simp add: state kept_def add stat)
  have "conn t' = conn (ts_trx st)" using t t' by (auto simp: next_alloc_def split: list.splits)
  then show "on (cache_add env data ip tp st) ch = on st ch" by (simp add: state on_def)
qed

lemma keys: "key ip_POW \<noteq> key ip_RES" "ip_change ip_POW = fc_stable" "ip_change ip_RES = fc_stable"
  by (simp_all add: key_def LoadTK_def ip_POW_def ip_RES_def)

lemma on_cache [simp]: "on (st\<lparr>ts_cache := c\<rparr>) ch = on st ch"
  by (simp add: on_def)

lemma after_sound: "after st ch st' \<Longrightarrow> cache_sound st' = cache_sound st" "after st ch st' \<Longrightarrow> kept st' ip = kept st ip"
  by (simp_all add: after_def cache_sound_def kept_def)

lemma power_known:
  assumes "on st ch" and "cache_sound st" and "\<And>v. kept st ip_POW = Some v \<Longrightarrow> (hd v \<noteq> 0) = th_powered ch"
  shows "\<exists>pow st'. OW_power env tp st = Some (0, pow, st') \<and> (pow \<noteq> 0) = th_powered ch \<and> on st' ch"
proof -
  let ?p = "d_frame d"
  have ask: "\<exists>st'. bus_transaction env [TRXN_START, TRXN_WRITE ?p 1, TRXN_READ (?p + 1) 1, TRXN_END] tp (put ?p [0xB4] st1) = Some (0, (), st')
      \<and> after st1 ch st' \<and> get (?p + 1) 1 st' = [if th_powered ch then 0xFF else 0]" if "on st1 ch" for st1
  proof -
    let ?st = "put ?p [0xB4] st1" and ?ts = "[TRXN_WRITE ?p 1, TRXN_READ (?p + 1) 1]" and ?b = "[if th_powered ch then 0xFF else 0] :: byte list"
    have "converse therm_step ?ts (mem (ts_trx ?st), therm_start ch) = Some (mem_write (?p + 1) ?b (mem (ts_trx ?st)), ch\<lparr>th_phase := Read_power\<rparr>)"
      by (simp add: trxn_macros Let_def mem_read_put therm_step_def therm_start_def therm_command_def)
    from conversation [OF _ _ this] that show ?thesis
      by (auto simp: get_def fetch_def mem_read_def mem_write_def talk_entry_def trxn_macros)
  qed
  obtain gb data c where g: "cache_get env 1 ip_POW tp st = ((gb, data), st\<lparr>ts_cache := c\<rparr>)" "cache_sound (st\<lparr>ts_cache := c\<rparr>)"
      "BAD gb \<or> kept st ip_POW = Some data \<and> length data = 1"
    using cache_get_kept [OF assms(2) keys(2), of 1] by blast
  define st1 where "st1 = (if cp_uncached_dir (tp_cache tp) then st else st\<lparr>ts_cache := c\<rparr>)"
  have st1: "on st1 ch" "cache_sound st1" using assms(1,2) g(2) by (simp_all add: st1_def)
  show ?thesis
  proof (cases "cp_uncached_dir (tp_cache tp) \<or> BAD gb")
    case True
    obtain st2 where st2: "bus_transaction env [TRXN_START, TRXN_WRITE ?p 1, TRXN_READ (?p + 1) 1, TRXN_END] tp (put ?p [0xB4] st1) = Some (0, (), st2)"
        "after st1 ch st2" "get (?p + 1) 1 st2 = [if th_powered ch then 0xFF else 0]" using ask [OF st1(1)] by blast
    have "OW_power env tp st = Some (0, hd (get (?p + 1) 1 st2), cache_add env (get (?p + 1) 1 st2) ip_POW tp st2)"
      using True g(1) st2(1) by (auto simp: OW_power_def driver return_bad_def st1_def Let_def)
    then show ?thesis using st2 cache_add_kept(3) [OF _ keys(2)] st1(2) after_sound(1) [OF st2(2)] by (auto simp: after_def)
  next
    case False
    then show ?thesis using g assms(1,3) by (auto simp: OW_power_def Let_def)
  qed
qed

text \<open>The chip at the resolution wanted.\<close>

definition at_resolution :: "tempresolution \<Rightarrow> thermometer \<Rightarrow> thermometer" where
  "at_resolution r ch = ch\<lparr>th_pad := (th_pad ch)[4 := tr_config r]\<rparr>"

lemma resolution_matched:
  assumes "on st ch" and "chip_ok ch" and "cache_sound st" and "resolution_of_bits bits = Some r"
    and "\<And>v. kept st ip_RES = Some v \<Longrightarrow> sint (UT_uint32 v) = tr_bits (resolution_of_config (th_pad ch ! 4))"
  shows "\<exists>changed st'. match_resolution env r tp st = Some (0, changed, st') \<and> on st' (at_resolution r ch) \<and> cache_sound st' \<and> kept st' ip_POW = kept st ip_POW"
proof -
  note r = resolution_of_config [OF assms(4)]
  have len: "length (th_pad ch) = 8" and conf: "th_pad ch ! 4 = config_byte (th_pad ch ! 4)" using assms(2) by (simp_all add: chip_ok_def)
  have same: "at_resolution r ch = ch" if "th_pad ch ! 4 = tr_config r"
    using that list_update_id [of "th_pad ch" 4] by (simp add: at_resolution_def)
  obtain gb data c where g: "cache_get env 4 ip_RES tp st = ((gb, data), st\<lparr>ts_cache := c\<rparr>)" "cache_sound (st\<lparr>ts_cache := c\<rparr>)"
      "\<forall>ip. kept (st\<lparr>ts_cache := c\<rparr>) ip = kept st ip" "BAD gb \<or> kept st ip_RES = Some data"
    using cache_get_kept [OF assms(3) keys(3), of 4] by blast
  let ?st = "st\<lparr>ts_cache := c\<rparr>"
  show ?thesis
  proof (cases "BAD gb \<or> sint (UT_uint32 data) \<noteq> tr_bits r")
    case False
    then have "th_pad ch ! 4 = tr_config r" using g(4) assms(5) r(3) config_unique [OF conf assms(4)] by auto
    then show ?thesis using False g assms(1) same by (auto simp: match_resolution_def)
  next
    case True
    let ?data = "th_pad ch @ [CRC8compute (th_pad ch) 0]"
    obtain st1 where st1: "OW_r_scratchpad env tp ?st = Some (0, ?data, st1)" "after ?st ch st1"
      using reads_scratchpad [of ?st, OF _ len] assms(1) by auto
    have sound1: "cache_sound st1" "kept st1 ip_POW = kept st ip_POW" using after_sound [OF st1(2)] g(2,3) by auto
    have m: "match_resolution env r tp st =
        (if ?data ! 4 OR 0x1F \<noteq> tr_config r then
           return_bad True (OW_w_scratchpad env [?data ! 2, ?data ! 3, tr_config r] tp st1) (\<lambda>_ st. Some (0, True, cache_add env (int_bytes (tr_bits r)) ip_RES tp st))
         else Some (0, False, cache_add env (int_bytes (tr_bits r)) ip_RES tp st1))"
      using True g(1) st1(1) by (simp add: match_resolution_def return_bad_def r(5))
    have d4: "?data ! 4 OR 0x1F = th_pad ch ! 4" using config_1F [OF conf] len by (simp add: nth_append)
    show ?thesis
    proof (cases "th_pad ch ! 4 = tr_config r")
      case True
      then show ?thesis using m d4 same after_on [OF st1(2)] sound1 cache_add_kept [OF sound1(1) keys(3)] keys(1) by auto
    next
      case False
      let ?set = "[?data ! 2, ?data ! 3, tr_config r]"
      have "with_settings ?set ch = at_resolution r ch"
      proof -
        have "patch 2 [th_pad ch ! 2, th_pad ch ! 3, tr_config r] (th_pad ch) = (th_pad ch)[4 := tr_config r]"
          using len by (auto simp: patch_def length_Suc_conv eval_nat_numeral)
        then show ?thesis using len r(2) by (simp add: with_settings_def at_resolution_def nth_append)
      qed
      then obtain st2 where st2: "OW_w_scratchpad env ?set tp st1 = Some (0, (), st2)" "after st1 (at_resolution r ch) st2"
        using writes_scratchpad [OF after_on [OF st1(2)] len, of ?set] by auto
      have sound2: "cache_sound st2" "kept st2 ip_POW = kept st ip_POW" using after_sound [OF st2(2)] sound1 by auto
      show ?thesis using m d4 False st2(1) after_on [OF st2(2)] sound2 cache_add_kept [OF sound2(1) keys(3)] keys(1) by (auto simp: return_bad_def)
    qed
  qed
qed

text \<open>The line is read until it is no longer low.\<close>

lemma polled_once:
  assumes "talking (ts_trx st) (m, ch) al" and "therm_step 0xFF ch = (b, ch')"
  shows "\<exists>t. bus_transaction_nolock env [TRXN_DELAY delay, TRXN_READ (d_frame d + 1) 1, TRXN_END] tp st = Some (0, (), st\<lparr>ts_trx := t\<rparr>)
    \<and> talking t (mem_write (d_frame d + 1) [b] m, ch') al \<and> get (d_frame d + 1) 1 (st\<lparr>ts_trx := t\<rparr>) = [b]"
proof -
  let ?ts = "[TRXN_DELAY delay, TRXN_READ (d_frame d + 1) 1]"
  have conv: "converse therm_step ?ts (m, ch) = Some (mem_write (d_frame d + 1) [b] m, ch')" using assms(2) by (simp add: trxn_entries Let_def)
  have "list_all talk_entry ?ts" by (simp add: talk_entry_def trxn_entries)
  from log_goes_on [OF assms(1) this conv, of "BUS_select (d_ir d)" "d_junk d" "[TRXN_END]"] obtain t where
    "trx_loop (BUS_select (d_ir d)) (d_ir d) (d_junk d) (?ts @ [TRXN_END]) pn (ts_trx st) = Some (0, t)" "talking t (mem_write (d_frame d + 1) [b] m, ch') al"
    by (auto simp: log_ends simp del: trx_loop.simps)
  then show ?thesis
    by (auto simp: bus_transaction_nolock_def driver nolock_loop Let_def get_def fetch_def talking_def mem_read_def mem_write_def simp del: trx_loop.simps)
qed

lemma polled:
  assumes "talking (ts_trx st) (m, ch) al" and "th_phase ch = Busy n" and "n < k"
  shows "\<exists>st'. poll_loop env k delay tp st = Some (0, (), st') \<and> on st' (converted ch)"
  using assms
proof (induction n arbitrary: k delay st m ch)
  case 0
  then obtain k' where k: "k = Suc k'" by (cases k) auto
  have "therm_step 0xFF ch = (0xFF, (converted ch)\<lparr>th_phase := Idle\<rparr>)" using 0(2) by (simp add: therm_step_def)
  from polled_once [OF 0(1) this, of delay] show ?case using selected_usable
    by (auto simp: k driver Let_def return_bad_def on_def talking_def therm_start_def)
next
  case (Suc n)
  then obtain k' where k: "k = Suc k'" "n < k'" by (cases k) auto
  have "therm_step 0xFF ch = (0, ch\<lparr>th_phase := Busy n\<rparr>)" using Suc.prems(2) by (simp add: therm_step_def)
  from polled_once [OF Suc.prems(1) this, of delay] obtain t where
    t: "bus_transaction_nolock env [TRXN_DELAY delay, TRXN_READ (d_frame d + 1) 1, TRXN_END] tp st = Some (0, (), st\<lparr>ts_trx := t\<rparr>)"
      "talking t (mem_write (d_frame d + 1) [0] m, ch\<lparr>th_phase := Busy n\<rparr>) al" "get (d_frame d + 1) 1 (st\<lparr>ts_trx := t\<rparr>) = [0]" by blast
  have "on st' (converted (ch\<lparr>th_phase := x\<rparr>)) = on st' (converted ch)" for st' x by (simp add: on_def converted_def therm_start_def)
  then show ?case using Suc.IH [of "st\<lparr>ts_trx := t\<rparr>" _ "ch\<lparr>th_phase := Busy n\<rparr>" k' 50] t k by (simp add: driver Let_def return_bad_def)
qed

text \<open>The conversion: with power from the line, or waiting for a chip that has its own.\<close>

lemma converts_unpowered:
  assumes "on st ch" and "\<not> th_powered ch"
  shows "\<exists>st'. bus_transaction env [TRXN_START, TRXN_POWER (d_frame d) delay, TRXN_END] tp (put (d_frame d) [0x44] st) = Some (0, (), st') \<and> on st' (converted ch)"
proof -
  let ?st = "put (d_frame d) [0x44] st"
  have m: "mem (ts_trx ?st) (d_frame d) = 0x44" by (simp add: mem_write_def)
  have step: "therm_step (mem (ts_trx ?st) (d_frame d)) (therm_start ch) = (mem (ts_trx ?st) (d_frame d), (converted ch)\<lparr>th_phase := Idle\<rparr>)"
    unfolding m using assms(2) by (simp add: therm_step_def therm_start_def therm_command_def converted_def)
  have "\<exists>st'. bus_transaction env (TRXN_START # [TRXN_POWER (d_frame d) delay, TRXN_END]) tp ?st = Some (0, (), st') \<and> after ?st (converted ch) st'
      \<and> mem (ts_trx st') = mem (ts_trx ?st)"
  proof (rule transaction_runs)
    show "on ?st ch" using assms(1) by simp
    fix t al assume "talking t (mem (ts_trx ?st), therm_start ch) al"
    from power_command [OF this step] show "\<exists>t'. trx_loop (BUS_select (d_ir d)) (d_ir d) (d_junk d) [TRXN_POWER (d_frame d) delay, TRXN_END] pn t = Some (0, t')
        \<and> usable (conn t') \<and> therm_start (slave (conn t')) = therm_start (converted ch) \<and> mem t' = mem (ts_trx ?st)"
      by (fastforce simp: therm_start_def simp del: trx_loop.simps mem_put)
  qed
  then show ?thesis using after_on by auto
qed

lemma converts_powered:
  assumes "on st ch" and "th_powered ch" and "th_polls ch < 22"
  shows "\<exists>st'. return_bad () (bus_transaction_nolock env [TRXN_START, TRXN_WRITE (d_frame d) 1, TRXN_END] tp
      ((put (d_frame d) [0x44] st)\<lparr>ts_trx := BUS_lock (ts_trx (put (d_frame d) [0x44] st))\<rparr>)) (\<lambda>_. OW_poll_convert env tp) = Some (0, (), st')
    \<and> on st' (converted ch)"
proof -
  let ?st = "put (d_frame d) [0x44] st"
  let ?t = "BUS_lock (ts_trx ?st)" and ?m = "mem (ts_trx ?st)" and ?ts = "[TRXN_WRITE (d_frame d) 1]" and ?ch = "ch\<lparr>th_phase := Busy (th_polls ch)\<rparr>"
  have "reached ?t (?m, slave (conn (ts_trx st))) (allocs (ts_trx st))"
    using assms(1) by (intro lock_reached) (simp add: reached_def on_def put_def store_def)
  from log_starts [OF this, of "d_junk d" "?ts @ [TRXN_END]"] obtain t1 where t1: "trx_loop (BUS_select (d_ir d)) (d_ir d) (d_junk d) (TRXN_START # ?ts @ [TRXN_END]) pn ?t =
        trx_loop (BUS_select (d_ir d)) (d_ir d) (d_junk d) (?ts @ [TRXN_END]) pn t1" "talking t1 (?m, therm_start ch) (allocs (ts_trx st))"
    using assms(1) by (auto simp: on_def simp del: trx_loop.simps mem_put)
  have conv: "converse therm_step ?ts (?m, therm_start ch) = Some (?m, ?ch)"
    using assms(2) by (simp add: trxn_macros Let_def mem_read_put therm_step_def therm_start_def therm_command_def)
  have "list_all talk_entry ?ts" by (simp add: talk_entry_def trxn_macros)
  from log_goes_on [OF t1(2) this conv, of "BUS_select (d_ir d)" "d_junk d" "[TRXN_END]"] t1(1) obtain t2 where
    t2: "trx_loop (BUS_select (d_ir d)) (d_ir d) (d_junk d) (TRXN_START # ?ts @ [TRXN_END]) pn ?t = Some (0, t2)" "talking t2 (?m, ?ch) (allocs (ts_trx st))"
    by (auto simp: log_ends simp del: trx_loop.simps mem_put)
  let ?st2 = "?st\<lparr>ts_trx := t2\<rparr>"
  have "bus_transaction_nolock env (TRXN_START # ?ts @ [TRXN_END]) tp (?st\<lparr>ts_trx := ?t\<rparr>) = Some (0, (), ?st2)"
    using t2(1) by (simp add: bus_transaction_nolock_def driver nolock_loop Let_def del: trx_loop.simps)
  moreover have "\<exists>st'. poll_loop env 22 10 tp ?st2 = Some (0, (), st') \<and> on st' (converted ?ch)"
    using t2(2) assms(3) by (intro polled [of _ ?m _ "allocs (ts_trx st)" "th_polls ch"]) simp_all
  moreover have "on st' (converted ?ch) = on st' (converted ch)" for st' by (simp add: on_def converted_def therm_start_def)
  ultimately show ?thesis by (simp add: return_bad_def OW_poll_convert_def)
qed

text \<open>What the cache says is true of the chip.\<close>

definition cache_true :: "'b therm_state \<Rightarrow> thermometer \<Rightarrow> bool" where
  "cache_true st ch \<longleftrightarrow> cache_sound st
     \<and> (\<forall>v. kept st ip_RES = Some v \<longrightarrow> sint (UT_uint32 v) = tr_bits (resolution_of_config (th_pad ch ! 4)))
     \<and> (\<forall>v. kept st ip_POW = Some v \<longrightarrow> (hd v \<noteq> 0) = th_powered ch)"

lemma gets_ready:
  assumes "on st ch" and "chip_ok ch" and "cache_true st ch" and "resolution_of_bits bits = Some r"
  shows "\<exists>st'. OW_temperature_ready env deny_85C False r tp st = Some (0, (), st') \<and> on st' (converted (at_resolution r ch))"
proof -
  let ?ch = "at_resolution r ch" and ?p = "d_frame d"
  have same: "th_powered ?ch = th_powered ch" "th_polls ?ch < 22" using assms(2) by (simp_all add: at_resolution_def chip_ok_def)
  obtain changed st1 where st1: "match_resolution env r tp st = Some (0, changed, st1)" "on st1 ?ch" "cache_sound st1" "kept st1 ip_POW = kept st ip_POW"
    using resolution_matched [OF assms(1,2) _ assms(4)] assms(3) by (auto simp: cache_true_def)
  have tested: "OW_test_resolution env r tp st = Some (0, changed, st1)" using family st1(1) by (auto simp: OW_test_resolution_def driver)
  obtain pow st2 where st2: "OW_power env tp st1 = Some (0, pow, st2)" "(pow \<noteq> 0) = th_powered ?ch" "on st2 ?ch"
    using power_known [OF st1(2,3)] st1(4) assms(3) same(1) by (auto simp: cache_true_def)
  show ?thesis
  proof (cases "th_powered ?ch")
    case False
    then show ?thesis using tested st2 converts_unpowered [OF st2(3) False, of "tr_delay r"]
      by (auto simp: OW_temperature_ready_def return_bad_def driver Let_def)
  next
    case True
    obtain st3 where st3: "return_bad () (bus_transaction_nolock env [TRXN_START, TRXN_WRITE ?p 1, TRXN_END] tp
          ((put ?p [0x44] st2)\<lparr>ts_trx := BUS_lock (ts_trx (put ?p [0x44] st2))\<rparr>)) (\<lambda>_. OW_poll_convert env tp) = Some (0, (), st3)" "on st3 (converted ?ch)"
      using converts_powered [OF st2(3) True same(2)] by blast
    have "on (st3\<lparr>ts_trx := BUS_unlock (ts_trx st3)\<rparr>) (converted ?ch)"
      using st3(2) locks_keep(2) [of "conn (ts_trx st3)"] by (auto simp: on_def BUS_unlock_def)
    moreover have "pow \<noteq> 0" using True st2(2) by simp
    ultimately show ?thesis using tested st2(1) st3(1) keeps_lock
      by (auto simp: OW_temperature_ready_def return_bad_def [of _ "Some (0, changed, st1)"] driver Let_def)
  qed
qed

lemma temperature_right:
  assumes "on st ch" and "chip_ok ch" and "cache_true st ch" and "tp_data tp = bits" and "bits \<in> {9, 10, 11, 12}" and "th_temp ch \<noteq> 0x0550"
  shows "\<exists>st'. FS_22temp env False tp st = Some (0, of_int (cut bits (sint (th_temp ch))) / 16, st') \<and> on st' (converted (at_resolution (the (resolution_of_bits bits)) ch))"
proof -
  obtain r where r: "resolution_of_bits bits = Some r" using assms(5) by (auto simp: resolution_of_bits_def)
  note res = resolution_of_config [OF r]
  let ?ch = "converted (at_resolution r ch)" and ?t = "th_temp ch"
  have len: "length (th_pad ch) = 8" using assms(2) by (simp add: chip_ok_def)
  have pad: "length (th_pad ?ch) = 8" "th_pad ?ch ! 0 = ucast ?t" "th_pad ?ch ! 1 = ucast (drop_bit 8 ?t)"
    using len by (simp_all add: converted_def at_resolution_def patch_def nth_append)
  have conf: "th_pad ?ch ! 4 = tr_config r" using len by (simp add: converted_def at_resolution_def patch_def eval_nat_numeral)
  obtain st1 where st1: "OW_temperature_ready env deny_85C False r tp st = Some (0, (), st1)" "on st1 ?ch" using gets_ready [OF assms(1-3) r] by blast
  let ?data = "th_pad ?ch @ [CRC8compute (th_pad ?ch) 0]"
  obtain st2 where st2: "OW_r_scratchpad env tp st1 = Some (0, ?data, st2)" "on st2 ?ch" using reads_scratchpad [OF st1(2) pad(1)] after_on by blast
  have data: "?data ! 0 = ucast ?t" "?data ! 1 = ucast (drop_bit 8 ?t)" "?data ! 4 = tr_config r" using pad conf by (simp_all add: nth_append)
  have "\<not> (ucast ?t = (0x50 :: byte) \<and> ucast (drop_bit 8 ?t) = (0x05 :: byte))"
  proof
    assume b: "ucast ?t = (0x50 :: byte) \<and> ucast (drop_bit 8 ?t) = (0x05 :: byte)"
    have "?t = word_cat (ucast (drop_bit 8 ?t) :: byte) (ucast ?t :: byte)"
      by (rule bit_word_eqI) (auto simp: bit_word_cat_iff bit_ucast_iff bit_drop_bit_eq)
    also have "\<dots> = word_cat (0x05 :: byte) (0x50 :: byte)" using b by simp
    finally show False using assms(6) by (simp add: word_cat_eq)
  qed
  then have v: "verdict_85C deny_85C ?data = 0" unfolding verdict_85C_def data(1,2) by auto
  have "OW_masked_temperature ?data (resolution_of_config (?data ! 4)) = of_int (cut bits (sint ?t)) / 16"
    unfolding OW_masked_temperature_def data res(1,4) cut_masked [OF r] by simp
  then have "OW_22latesttemp env deny_85C tp st1 = Some (0, of_int (cut bits (sint ?t)) / 16, st2)"
    using st2(1) v family by (auto simp: OW_22latesttemp_def return_bad_def driver simp del: of_int_sint)
  moreover have "OW_set_resolution env tp st = Some (0, r, st)" using family assms(4) r by (auto simp: OW_set_resolution_def driver Let_def)
  ultimately show ?thesis using st1(1) st2(2) r
    by (simp add: FS_22temp_def triple_try_def OW_22temp_def return_bad_def)
qed

end

section \<open>On a line\<close>

datatype therm_family = DS18B20 | DS1822 | DS28EA00

primrec code :: "therm_family \<Rightarrow> byte" where
  "code DS18B20 = 0x28"
| "code DS1822 = 0x22"
| "code DS28EA00 = 0x42"

abbreviation therm_line_env :: "(nat \<Rightarrow> byte) \<Rightarrow> nat \<Rightarrow> thermometer slave_line therm_env \<Rightarrow> thermometer slave_line therm_env" where
  "therm_line_env junk frame env \<equiv> env\<lparr>te_driver := line_driver therm_step therm_start junk frame\<rparr>"

abbreviation therm_name :: "therm_family \<Rightarrow> byte list \<Rightarrow> therm_pn \<Rightarrow> therm_pn" where
  "therm_name f ser tp \<equiv> tp\<lparr>tp_bus := chip_pn (code f # ser)\<rparr>"

lemma code_family: "code f \<in> {0x28, 0x22, 0x42}"
  by (cases f) simp_all

interpretation therm_line: therm_bus "line_driver therm_step therm_start junk frame" "chip_pn (code f # ser)" "\<lambda>c. line_slave (hardware c)"
  "line_usable (code f # ser)" "line_selected (code f # ser)" "therm_line_env junk frame env" "therm_name f ser tp"
  for junk frame f ser env tp
proof -
  have "therm_bus_axioms (line_driver therm_step therm_start junk frame) (chip_pn (code f # ser)) (therm_line_env junk frame env) (therm_name f ser tp)"
    using code_family [of f] by unfold_locales (simp_all add: chip_pn_def line_driver_def)
  then show "therm_bus (line_driver therm_step therm_start junk frame) (chip_pn (code f # ser)) (\<lambda>c. line_slave (hardware c)) (line_usable (code f # ser))
      (line_selected (code f # ser)) (therm_line_env junk frame env) (therm_name f ser tp)"
    by (intro therm_bus.intro slave_line.power_bus_axioms)
qed

text \<open>The thermometer is the slave of the line, not behind a hub, and has the serial number of the query.\<close>

definition thermometer_on :: "therm_family \<Rightarrow> byte list \<Rightarrow> thermometer \<Rightarrow> thermometer slave_line therm_state \<Rightarrow> bool" where
  "thermometer_on f ser ch st \<longleftrightarrow> line_usable (code f # ser) (conn (ts_trx st)) \<and> line_slave (hardware (conn (ts_trx st))) = ch \<and> chip_ok ch"

text \<open>What the cache holds about resolution and power is true; the durations are those of the program.\<close>

definition cache_honest :: "globals \<Rightarrow> cache_pn \<Rightarrow> thermometer \<Rightarrow> 'b therm_state \<Rightarrow> bool" where
  "cache_honest g pn ch st \<longleftrightarrow>
     0 < TimeOut g fc_stable \<and> cache_invar (\<lambda>_. TimeOut g fc_stable) (ts_now st) (ts_cache st)
   \<and> (\<forall>v. cached (ts_now st) (LoadTK (cp_sn pn) (ip_ptr (ip_name ip_RES)) EXTENSION_INTERNAL) (ts_cache st) = Some v \<longrightarrow>
        sint (UT_uint32 v) = tr_bits (resolution_of_config (th_pad ch ! 4)))
   \<and> (\<forall>v. cached (ts_now st) (LoadTK (cp_sn pn) (ip_ptr (ip_name ip_POW)) EXTENSION_INTERNAL) (ts_cache st) = Some v \<longrightarrow> (hd v \<noteq> 0) = th_powered ch)"

text \<open>
  C10: reading a temperature from a DS18B20, DS1822 or DS28EA00. The thermometer measures some number of sixteenths of a degree; a query for 9, 10, 11 or 12 bits gives this temperature, cut to the
  resolution asked for, whatever resolution the chip was set to before, whether it is powered by the line or has its own power, and whether the resolution and the power are known
  from the cache or asked of the chip; the chip is then at the resolution asked for. The one exception is the value for 85 degrees, which the chip has after it was switched on.
\<close>

theorem temperature_read:
  assumes "thermometer_on f ser ch st" and "cache_honest (te_globals env) (tp_cache tp) ch st" and "tp_data tp \<in> {9, 10, 11, 12}" and "th_temp ch \<noteq> 0x0550"
  shows "\<exists>st' ch'. FS_22temp (therm_line_env junk frame env) False (therm_name f ser tp) st = Some (0, of_int (cut (tp_data tp) (sint (th_temp ch))) / 16, st')
    \<and> therm_start (line_slave (hardware (conn (ts_trx st')))) = therm_start ch' \<and> th_temp ch' = th_temp ch \<and> tr_bits (resolution_of_config (th_pad ch' ! 4)) = tp_data tp"
proof -
  have on: "therm_line.on f ser st ch" and ok: "chip_ok ch" using assms(1) by (simp_all add: thermometer_on_def therm_line.on_def)
  have honest: "therm_line.cache_true junk frame env f ser tp st ch"
    using assms(2) by (simp add: cache_honest_def therm_line.cache_true_def therm_line.cache_sound_def therm_line.kept_def therm_line.key_def)
  obtain r where r: "resolution_of_bits (tp_data tp) = Some r" using assms(3) by (auto simp: resolution_of_bits_def)
  let ?ch = "converted (therm_line.at_resolution r ch)"
  have "th_pad ?ch ! 4 = tr_config r" using ok by (simp add: chip_ok_def converted_def therm_line.at_resolution_def patch_def eval_nat_numeral)
  then have "tr_bits (resolution_of_config (th_pad ?ch ! 4)) = tp_data tp" using resolution_of_config [OF r] by simp
  moreover have "th_temp ?ch = th_temp ch" by (simp add: converted_def therm_line.at_resolution_def)
  ultimately show ?thesis using therm_line.temperature_right [OF on ok honest _ assms(3,4)] r by (fastforce simp: therm_line.on_def)
qed

text \<open>
  C11: the resolution and the limits of the alarm that are written are kept by the chip and read back; a limit is a whole number of degrees, cut towards zero.
\<close>

theorem settings_kept:
  assumes "thermometer_on f ser ch st"
  shows "(r \<in> {9, 10, 11, 12} \<longrightarrow>
      (\<exists>st1 st2. FS_w_tempres (therm_line_env junk frame env) r (therm_name f ser tp) st = Some (0, (), st1)
         \<and> FS_r_tempres (therm_line_env junk frame env) (therm_name f ser tp) st1 = Some (0, r, st2)))
   \<and> (tp_data tp \<in> {0, 1} \<and> - 128 \<le> truncated T \<and> truncated T \<le> 127 \<longrightarrow>
      (\<exists>st1 st2. FS_w_templimit (therm_line_env junk frame env) T (therm_name f ser tp) st = Some (0, (), st1)
         \<and> FS_r_templimit (therm_line_env junk frame env) (therm_name f ser tp) st1 = Some (0, of_int (truncated T), st2)))"
proof -
  have on: "therm_line.on f ser st ch" and ok: "chip_ok ch" using assms(1) by (simp_all add: thermometer_on_def therm_line.on_def)
  have "\<exists>i. i \<in> {0, 1} \<and> tp_data (therm_name f ser tp) = int i" if "tp_data tp \<in> {0, 1}" using that by (intro exI [of _ "nat (tp_data tp)"]) auto
  with therm_line.tempres_kept [OF on ok, of r junk frame env tp] therm_line.templimit_kept [OF on ok, of _ tp T junk frame env]
  show ?thesis by (intro conjI impI) (assumption | blast)+
qed

text \<open>Twenty-five degrees and a sixteenth, at nine bits.\<close>

definition sample_thermometer :: thermometer where
  "sample_thermometer = \<lparr>th_temp = 0x0191, th_pad = [0x50, 0x05, 75, 70, 0x7F, 0xFF, 0x0C, 0x10], th_eeprom = [75, 70, 0x7F], th_powered = True, th_polls = 9, th_phase = Idle\<rparr>"

definition sample_therm_state :: "thermometer slave_line therm_state" where
  "sample_therm_state =
     \<lparr>ts_trx = \<lparr>mem = \<lambda>_. 0, conn = initial_connection \<lparr>line_rom = [0x28, 1, 2, 3, 4, 5, 6, 7], line_slave = sample_thermometer, line_phase = Deaf\<rparr>, allocs = []\<rparr>,
      ts_cache = Cache_Open default_globals 0 zero_cache, ts_now = 0\<rparr>"

definition sample_therm_env :: "thermometer slave_line therm_env" where
  "sample_therm_env =
     \<lparr>te_driver = line_driver therm_step therm_start (\<lambda>_. 0) 0, te_globals = default_globals, te_sibling_U = \<lambda>_ st. (0, 0, st), te_sibling_F = \<lambda>_ st. (0, 0, st),
      te_sibling_binary = \<lambda>_ st. (0, [], st), te_del_sibling = \<lambda>_ st. st\<rparr>"

definition sample_therm_pn :: "int \<Rightarrow> therm_pn" where
  "sample_therm_pn i =
     \<lparr>tp_bus = chip_pn [0x28, 1, 2, 3, 4, 5, 6, 7],
      tp_cache = \<lparr>cp_sn = [0x28, 1, 2, 3, 4, 5, 6, 7], cp_filetype = \<lparr>ft_id = 0, ft_form = ft_temperature, ft_change = fc_volatile, ft_ag = None\<rparr>,
        cp_extension = 0, cp_alarm_dir = False, cp_uncached_dir = False, cp_connection = Some (0, bus_real), cp_bp = []\<rparr>,
      tp_data = i\<rparr>"

lemma sample_on: "thermometer_on DS18B20 [1, 2, 3, 4, 5, 6, 7] sample_thermometer sample_therm_state"
  by (simp add: thermometer_on_def sample_therm_state_def sample_thermometer_def line_usable_def initial_connection_def chip_ok_def config_byte_def)

theorem temperature_read_witness:
  "\<exists>st'. FS_22temp sample_therm_env False (sample_therm_pn 9) sample_therm_state = Some (0, 25, st')"
proof -
  have "cache_honest (te_globals sample_therm_env) (tp_cache (sample_therm_pn 9)) sample_thermometer sample_therm_state"
  proof -
    have g: "TimeOut default_globals fc_stable = 300" by (simp add: default_globals_def TimeOut_def)
    then have "cache_invar (\<lambda>_. 300) 0 (Cache_Open default_globals 0 zero_cache)" "cached 0 k (Cache_Open default_globals 0 zero_cache) = None" for k
      using Cache_Open_invar [of "\<lambda>_. 300" default_globals] by simp_all
    then show ?thesis by (simp add: cache_honest_def sample_therm_state_def sample_therm_env_def g)
  qed
  moreover have "th_temp sample_thermometer \<noteq> 0x0550" "cut 9 (sint (th_temp sample_thermometer)) = 400" by (simp_all add: sample_thermometer_def cut_def)
  moreover have "therm_line_env (\<lambda>_. 0) 0 sample_therm_env = sample_therm_env" "therm_name DS18B20 [1, 2, 3, 4, 5, 6, 7] (sample_therm_pn 9) = sample_therm_pn 9"
    "tp_data (sample_therm_pn 9) = 9" by (simp_all add: sample_therm_env_def sample_therm_pn_def)
  ultimately show ?thesis
    using temperature_read [OF sample_on, of sample_therm_env "sample_therm_pn 9" "\<lambda>_. 0" 0] by auto
qed

theorem settings_kept_witness:
  "(\<exists>st1 st2. FS_w_tempres sample_therm_env 10 (sample_therm_pn 1) sample_therm_state = Some (0, (), st1)
      \<and> FS_r_tempres sample_therm_env (sample_therm_pn 1) st1 = Some (0, 10, st2))
   \<and> (\<exists>st1 st2. FS_w_templimit sample_therm_env (- 21 / 2) (sample_therm_pn 1) sample_therm_state = Some (0, (), st1)
      \<and> FS_r_templimit sample_therm_env (sample_therm_pn 1) st1 = Some (0, - 10, st2))"
proof -
  have "truncated (- 21 / 2) = - 10" by (simp add: truncated_def ceiling_unique)
  moreover have "therm_line_env (\<lambda>_. 0) 0 sample_therm_env = sample_therm_env" "therm_name DS18B20 [1, 2, 3, 4, 5, 6, 7] (sample_therm_pn 1) = sample_therm_pn 1"
    "tp_data (sample_therm_pn 1) = 1" by (simp_all add: sample_therm_env_def sample_therm_pn_def)
  ultimately show ?thesis
    using settings_kept [OF sample_on, of 10 "\<lambda>_. 0" 0 sample_therm_env "sample_therm_pn 1" "- 21 / 2"] by auto
qed

end
