(* ===== verification/OW_Simultaneous.thy ===== *)
theory OW_Simultaneous
  imports OW_Temperature OW_SerialNumber
begin

text \<open>
  \<^verbatim>\<open>ow_simultaneous.c\<close>: one command has all thermometers or voltmeters of a directory convert at once; a mark in the cache says when. Reading one of them then only waits
  for the rest of the time. Besides, looking for any slave, or the only one, with the command that reads a serial number.
\<close>

unbundle bit_operations_syntax

section \<open>Model\<close>

datatype adapter_type =
    adapter_Bad | adapter_w1_monitor | adapter_browse_monitor | adapter_usb_monitor | adapter_fake | adapter_tester | adapter_mock | adapter_line

definition no_line :: "adapter_type \<Rightarrow> bool" where
  "no_line a \<longleftrightarrow> a \<noteq> adapter_line"

definition ip_S_I :: internal_prop where "ip_S_I = \<lparr>ip_name = 5, ip_change = fc_volatile\<rparr>"

text \<open>The directory of a name: its serial number is that of the last hub, which is taken off the path.\<close>

definition FS_LoadDirectoryOnly :: "therm_pn \<Rightarrow> therm_pn" where
  "FS_LoadDirectoryOnly pn =
     (let bp = cp_bp (tp_cache pn); sn = FS_LoadDirectoryOnly_sn bp in
      pn\<lparr>tp_bus := \<lparr>pn_sn = sn, pn_bp = butlast (pn_bp (tp_bus pn)), pn_has_device = False\<rparr>,
         tp_cache := (tp_cache pn)\<lparr>cp_sn := sn, cp_bp := butlast bp\<rparr>\<rparr>)"

definition cache_add_simul :: "'b therm_env \<Rightarrow> internal_prop \<Rightarrow> therm_pn \<Rightarrow> 'b therm_state \<Rightarrow> 'b therm_state" where
  "cache_add_simul env ip pn st =
     (case next_alloc (ts_trx st) of (mok, t) \<Rightarrow> case next_alloc t of (tok, t) \<Rightarrow>
        st\<lparr>ts_trx := t, ts_cache := snd (Cache_Add_Simul (te_globals env) (ts_now st) mok tok ip (Some (tp_cache pn)) (ts_cache st))\<rparr>)"

text \<open>The power is asked for by a command that follows the reset with no selection.\<close>

definition FS_w_convert_temp :: "'b therm_env \<Rightarrow> adapter_type \<Rightarrow> bool \<Rightarrow> therm_pn \<Rightarrow> 'b therm_state \<Rightarrow> ('b, unit) therm_result" where
  "FS_w_convert_temp env adapter Y pn st =
     (if \<not> Y then Some (0, (), st)
      else if no_line adapter then Some (0, (), st)
      else
        let p = d_frame (te_driver env); pn_directory = FS_LoadDirectoryOnly pn in
        return_bad () (bus_transaction env [TRXN_START, TRXN_WRITE p 1, TRXN_READ (p + 1) 1, TRXN_END] pn_directory (put p [0xB4] st)) (\<lambda>_ st.
          let pow = hd (get (p + 1) 1 st); st = cache_add_simul env ip_S_T pn_directory st;
              wait = (if pow \<noteq> 0 then [] else [TRXN_DELAY 1000])
          in Option.bind (bus_transaction env ([TRXN_START, TRXN_WRITE p 2] @ wait @ [TRXN_END]) pn_directory (put p [0xCC, 0x44] st)) (\<lambda>(ret, _, st).
               if ret = 0 then Some (0, (), st)
               else Some (- EINVAL, (), st\<lparr>ts_cache := Cache_Del_Simul (ts_now st) ip_S_T (tp_cache pn_directory) (ts_cache st)\<rparr>))))"

text \<open>The two others: the mark is deleted, the command sent, and the mark set when it succeeded.\<close>

definition convert_marked :: "'b therm_env \<Rightarrow> internal_prop \<Rightarrow> byte list \<Rightarrow> transaction_log list \<Rightarrow> adapter_type \<Rightarrow> bool \<Rightarrow> therm_pn \<Rightarrow> 'b therm_state \<Rightarrow> ('b, unit) therm_result" where
  "convert_marked env ip cmd t adapter Y pn st =
     (if \<not> Y then Some (0, (), st)
      else
        let pn_directory = FS_LoadDirectoryOnly pn;
            st = st\<lparr>ts_cache := Cache_Del_Internal (te_globals env) (ts_now st) ip (Some (tp_cache pn_directory)) (ts_cache st)\<rparr>
        in if no_line adapter then Some (0, (), st)
           else map_option (\<lambda>(ret, _, st). (0, (), if ret = 0 then cache_add env [] ip pn_directory st else st))
                  (bus_transaction env t pn_directory (put (d_frame (te_driver env)) cmd st)))"

definition FS_w_convert_volt :: "'b therm_env \<Rightarrow> adapter_type \<Rightarrow> bool \<Rightarrow> therm_pn \<Rightarrow> 'b therm_state \<Rightarrow> ('b, unit) therm_result" where
  "FS_w_convert_volt env =
     convert_marked env ip_S_V [0xCC, 0x3C, 0x0F, 0x00, 0xFF, 0xFF] ([TRXN_START] @ TRXN_WR_CRC16 (d_frame (te_driver env)) 4 0 @ [TRXN_DELAY 5, TRXN_END])"

definition FS_w_convert_iblss :: "'b therm_env \<Rightarrow> adapter_type \<Rightarrow> bool \<Rightarrow> therm_pn \<Rightarrow> 'b therm_state \<Rightarrow> ('b, unit) therm_result" where
  "FS_w_convert_iblss env = convert_marked env ip_S_I [0xCC, 0xB4] [TRXN_START, TRXN_WRITE (d_frame (te_driver env)) 2, TRXN_END]"

definition FS_r_convert :: "'b therm_env \<Rightarrow> internal_prop \<Rightarrow> therm_pn \<Rightarrow> 'b therm_state \<Rightarrow> ('b, bool) therm_result" where
  "FS_r_convert env ip pn st = (case cache_get env 0 ip (FS_LoadDirectoryOnly pn) st of ((gb, _), st) \<Rightarrow> Some (0, GOOD gb, st))"

definition read_rom :: "'b therm_env \<Rightarrow> byte \<Rightarrow> therm_pn \<Rightarrow> 'b therm_state \<Rightarrow> ('b, byte list) therm_result" where
  "read_rom env command pn st =
     (let p = d_frame (te_driver env) in
      map_option (\<lambda>(ret, _, st). (ret, get (p + 1) 8 st, st))
        (bus_transaction env [TRXN_START, TRXN_WRITE p 1, TRXN_READ (p + 1) 8, TRXN_END] (FS_LoadDirectoryOnly pn) (put p [command] st)))"

text \<open>The check of a serial number is counted. (The message for debugging computes another one, which is not.)\<close>

definition rom_crc :: "byte list \<Rightarrow> 'b therm_state \<Rightarrow> byte \<times> 'b therm_state" where
  "rom_crc resp st =
     (let t = ts_trx st in
      case CRC8 resp (crc_counters (conn t)) of (r, k) \<Rightarrow> (r, st\<lparr>ts_trx := t\<lparr>conn := (conn t)\<lparr>crc_counters := k\<rparr>\<rparr>\<rparr>))"

definition FS_r_present :: "'b therm_env \<Rightarrow> therm_pn \<Rightarrow> 'b therm_state \<Rightarrow> ('b, bool) therm_result" where
  "FS_r_present env pn st =
     (let collisions = replicate 8 0; match = replicate 8 0xFF in
      map_option (\<lambda>(ret, resp, st).
          if ret \<noteq> 0 then (- EINVAL, False, st)
          else if resp \<noteq> collisions then (0, True, st)
          else if resp \<noteq> match then (0, True, snd (rom_crc resp st))
          else (0, False, st))
        (read_rom env 0x33 pn st))"

text \<open>The devices of a fake adapter are known; for the others, \<^verbatim>\<open>fake\<close> is \<^const>\<open>None\<close>.\<close>

definition FS_r_single :: "'b therm_env \<Rightarrow> deviceformat \<Rightarrow> byte list list option \<Rightarrow> therm_pn \<Rightarrow> 'b therm_state \<Rightarrow> ('b, string) therm_result" where
  "FS_r_single env format fake pn st =
     (case fake of
        Some sns \<Rightarrow> Some (0, if length sns = 1 then FS_devicename format (hd sns) else [], st)
      | None \<Rightarrow>
          map_option (\<lambda>(ret, resp, st).
              if ret \<noteq> 0 then (- EINVAL, [], st)
              else if resp \<noteq> replicate 8 0 \<and> resp \<noteq> replicate 8 0xFF then
                (case rom_crc resp st of (crc, st) \<Rightarrow> (0, if crc = 0 then FS_devicename format resp else [], st))
              else (0, [], st))
            (read_rom env (word_of_int (tp_data pn)) pn st))"

text \<open>An answer of ones, of a line with no slave, is taken for a slave.\<close>

lemma present_always: "FS_r_present env pn st = Some (0, y, st') \<Longrightarrow> y"
  by (auto simp: FS_r_present_def EINVAL_def Let_def split: if_splits prod.splits)

section \<open>Marks\<close>

lemma on_conn_allocs: "on_conn f st = (ret, st') \<Longrightarrow> allocs st' = allocs st" "on_conn_resp g q st = (ret, st') \<Longrightarrow> allocs st' = allocs st"
  by (auto simp: on_conn_def on_conn_resp_def split: prod.splits option.splits)

lemma single_allocs:
  assumes "BUS_transaction_single select ir junk t pn st = Some (ret, st')" and "allocs st = []"
  shows "allocs st' = []"
  using assms
  by (auto simp: BUS_transaction_single_def trx_good_def trx_crc_def next_alloc_def Let_def
      split: transaction_type.splits if_splits prod.splits option.splits dest: on_conn_allocs)

lemma loop_allocs: "trx_loop select ir junk ts pn st = Some (ret, st') \<Longrightarrow> allocs st = [] \<Longrightarrow> allocs st' = []"
  by (induction ts arbitrary: st) (auto split: option.splits if_splits dest: single_allocs)

lemma transact_allocs:
  assumes "bus_transaction env ts pn st = Some (ret, u, st')" and "allocs (ts_trx st) = []" and "ir_flags (d_ir (te_driver env)) AND ADAP_FLAG_bundle = 0"
  shows "allocs (ts_trx st') = [] \<and> ts_cache st' = ts_cache st \<and> ts_now st' = ts_now st"
  using assms loop_allocs
  by (fastforce simp: bus_transaction_def transact_def BUS_transaction_def BUS_transaction_nolock_def BUS_lock_def BUS_unlock_def split: option.splits)

text \<open>Nothing is kept under a key.\<close>

definition unmarked :: "tree_key \<Rightarrow> cache_data \<Rightarrow> bool" where
  "unmarked k c \<longleftrightarrow> map_of (temporary_tree_new c) k = None \<and> map_of (temporary_tree_old c) k = None"

abbreviation mark :: "internal_prop \<Rightarrow> int \<Rightarrow> therm_pn \<Rightarrow> tree_key" where
  "mark ip extension pn \<equiv> LoadTK (FS_LoadDirectoryOnly_sn (cp_bp (tp_cache pn))) (ip_ptr (ip_name ip)) extension"

lemma unmarked_add:
  assumes "unmarked k c" and "k \<noteq> k'"
  shows "unmarked k (snd (Cache_Add_Common g now tok k' tn c))"
  using assms by (auto simp: unmarked_def Cache_Add_Common_def retire_if_old_def FlipTree_def Let_def update_conv')

lemma unmarked_bump [simp]: "unmarked k (bump i f c) = unmarked k c"
  by (simp add: unmarked_def bump_def)

lemma unmarked_del: "unmarked k c \<Longrightarrow> unmarked k (Del_Stat i (Cache_Del_Common now k' c))"
  by (auto simp: unmarked_def Del_Stat_def Cache_Del_Common_def expire_node_def bump_def update_conv' Let_def split: prod.splits option.splits if_splits)

lemma unmarked_get: "unmarked k c \<Longrightarrow> Cache_Get_Common now n duration k c = (ctr_not_found, n, duration, [])"
  by (simp add: unmarked_def Cache_Get_Common_def)

lemma unmarked_SlaveSpecific:
  assumes "unmarked k c" and "k \<noteq> LoadTK (cp_sn pn) (ip_ptr (ip_name ip)) EXTENSION_INTERNAL" and "ip_change ip = fc_volatile"
  shows "unmarked k (snd (Cache_Add_SlaveSpecific g now mok tok data ip (Some pn) c))"
  using assms unmarked_add by (auto simp: Cache_Add_SlaveSpecific_def Add_Stat_def Let_def split: prod.splits) (metis snd_conv)+

text \<open>The mark of a conversion of temperatures.\<close>

lemma simul_marked:
  assumes "allocs (ts_trx st) = []" and "g_cache_size (te_globals env) = 0" and "cp_connection (tp_cache pn) \<noteq> None" and "0 < TimeOut (te_globals env) fc_volatile"
  defines "st' \<equiv> cache_add_simul env ip_S_T (FS_LoadDirectoryOnly pn) st"
  shows "\<exists>tn. map_of (temporary_tree_new (ts_cache st')) (mark ip_S_T 0 pn) = Some tn \<and> tn_expires tn = TimeOut (te_globals env) fc_volatile + ts_now st \<and> tn_dsize tn = 0"
    and "unmarked (mark ip_S_T EXTENSION_INTERNAL pn) (ts_cache st) \<Longrightarrow> unmarked (mark ip_S_T EXTENSION_INTERNAL pn) (ts_cache st')"
    and "allocs (ts_trx st') = []" and "conn (ts_trx st') = conn (ts_trx st)" and "ts_now st' = ts_now st"
proof -
  let ?k = "mark ip_S_T 0 pn" and ?tn = "\<lparr>tn_expires = TimeOut (te_globals env) fc_volatile + ts_now st, tn_dsize = 0, tn_data = []\<rparr>"
  have st': "st' = st\<lparr>ts_cache := snd (Add_Stat cache_dir (Cache_Add_Common (te_globals env) (ts_now st) True ?k ?tn (ts_cache st)))\<rparr>"
    using assms(1,3,4) by (auto simp: st'_def cache_add_simul_def next_alloc_def Cache_Add_Simul_def FS_LoadDirectoryOnly_def ip_S_T_def Let_def)
  show "\<exists>tn. map_of (temporary_tree_new (ts_cache st')) ?k = Some tn \<and> tn_expires tn = TimeOut (te_globals env) fc_volatile + ts_now st \<and> tn_dsize tn = 0"
    using assms(2) by (auto simp: st' Add_Stat_def Cache_Add_Common_def cache_full_def tsearch_ok_def bump_def update_conv' Let_def)
  have "mark ip_S_T EXTENSION_INTERNAL pn \<noteq> ?k" by (simp add: LoadTK_def EXTENSION_INTERNAL_def)
  then show "unmarked (mark ip_S_T EXTENSION_INTERNAL pn) (ts_cache st')" if "unmarked (mark ip_S_T EXTENSION_INTERNAL pn) (ts_cache st)"
    using unmarked_add [OF that] by (auto simp: st' Add_Stat_def split: prod.split) (metis snd_conv)+
  show "allocs (ts_trx st') = []" "conn (ts_trx st') = conn (ts_trx st)" "ts_now st' = ts_now st" using assms(1) by (simp_all add: st')
qed

lemma ip_marks [simp]: "ip_change ip_S_T = fc_volatile" "ip_change ip_S_V = fc_volatile" "ip_change ip_S_I = fc_volatile"
  by (simp_all add: ip_S_T_def ip_S_V_def ip_S_I_def)

lemma put_keeps [simp]: "allocs (ts_trx (put a xs st)) = allocs (ts_trx st)" "ts_cache (put a xs st) = ts_cache st" "ts_now (put a xs st) = ts_now st"
  by (simp_all add: put_def store_def)

text \<open>A command that succeeds has set the mark and only used the line besides.\<close>

lemma convert_temp_marked:
  assumes run: "FS_w_convert_temp env adapter_line True pn st = Some (0, (), st')"
    and quiet: "allocs (ts_trx st) = []" "ir_flags (d_ir (te_driver env)) AND ADAP_FLAG_bundle = 0"
  obtains st1 where "allocs (ts_trx st1) = []" and "ts_now st1 = ts_now st" and "ts_cache st1 = ts_cache st"
    and "ts_cache st' = ts_cache (cache_add_simul env ip_S_T (FS_LoadDirectoryOnly pn) st1)"
proof -
  let ?d = "FS_LoadDirectoryOnly pn" and ?p = "d_frame (te_driver env)"
  obtain st1 where ask: "bus_transaction env [TRXN_START, TRXN_WRITE ?p 1, TRXN_READ (?p + 1) 1, TRXN_END] ?d (put ?p [0xB4] st) = Some (0, (), st1)"
    and rest: "\<exists>ts. bus_transaction env ts ?d (put ?p [0xCC, 0x44] (cache_add_simul env ip_S_T ?d st1)) = Some (0, (), st')"
    using run by (auto simp: FS_w_convert_temp_def no_line_def return_bad_def Let_def EINVAL_def bind_eq_Some_conv split: option.splits if_splits prod.splits)
  have st1: "allocs (ts_trx st1) = []" "ts_now st1 = ts_now st" "ts_cache st1 = ts_cache st"
    using transact_allocs [OF ask] quiet by simp_all
  then have "allocs (ts_trx (cache_add_simul env ip_S_T ?d st1)) = []" by (simp add: cache_add_simul_def next_alloc_def)
  with rest have "ts_cache st' = ts_cache (cache_add_simul env ip_S_T ?d st1)" using transact_allocs quiet(2) by fastforce
  with st1 show thesis by (rule that)
qed

lemma test_marked:
  assumes "map_of (temporary_tree_new (ts_cache st)) (mark ip 0 pn) = Some tn" and "tn_expires tn = TimeOut (te_globals env) (ip_change ip) + since" and "tn_dsize tn = 0"
    and "since \<le> ts_now st" and "ts_now st < since + TimeOut (te_globals env) (ip_change ip)"
  shows "\<exists>st'. FS_Test_Simultaneous env ip delay pn st = Some (0, (), st')
    \<and> ms_delayed (conn (ts_trx st')) = ms_delayed (conn (ts_trx st)) + nat (int delay - 1000 * (ts_now st - since))"
  using assms by (auto simp: FS_Test_Simultaneous_def Cache_Get_Simul_Time_def Cache_Get_Common_def Get_Stat_def UT_delay_def Let_def)

lemma test_unmarked:
  assumes "unmarked (mark ip 0 pn) (ts_cache st)"
  shows "\<exists>st'. FS_Test_Simultaneous env ip delay pn st = Some (1, (), st')"
  by (simp add: FS_Test_Simultaneous_def Cache_Get_Simul_Time_def unmarked_get [OF assms] Get_Stat_def Let_def)

lemma convert_shown_unmarked:
  assumes "unmarked (mark ip EXTENSION_INTERNAL pn) (ts_cache st)" and "ip_change ip \<noteq> fc_persistent"
  shows "\<exists>st'. FS_r_convert env ip pn st = Some (0, False, st')"
  using assms(2)
  by (simp add: FS_r_convert_def cache_get_def Cache_Get_SlaveSpecific_def Cache_Get_Internal_def FS_LoadDirectoryOnly_def unmarked_get [OF assms(1)] Get_Stat_def Let_def)

text \<open>The mark of a conversion of voltages has another extension than the one that is looked for.\<close>

lemma voltage_mark_unseen:
  assumes run: "FS_w_convert_volt env adapter_line True pn st = Some (0, (), st')"
    and quiet: "allocs (ts_trx st) = []" "ir_flags (d_ir (te_driver env)) AND ADAP_FLAG_bundle = 0"
    and "unmarked (mark ip_S_V 0 pn) (ts_cache st)"
  shows "\<exists>st2. FS_Test_Simultaneous env ip_S_V delay pn (st'\<lparr>ts_now := t\<rparr>) = Some (1, (), st2)"
proof -
  let ?d = "FS_LoadDirectoryOnly pn" and ?k = "mark ip_S_V 0 pn"
  have k: "?k \<noteq> LoadTK (cp_sn (tp_cache ?d)) (ip_ptr (ip_name ip_S_V)) EXTENSION_INTERNAL" by (simp add: LoadTK_def EXTENSION_INTERNAL_def)
  have del: "unmarked ?k (Cache_Del_Internal (te_globals env) (ts_now st) ip_S_V (Some (tp_cache ?d)) (ts_cache st))"
    using assms(4) unmarked_del by (auto simp: Cache_Del_Internal_def Let_def)
  have add: "unmarked ?k (ts_cache (cache_add env [] ip_S_V ?d s))" if "unmarked ?k (ts_cache s)" for s
    using unmarked_SlaveSpecific [OF that k] by (simp add: cache_add_def split: prod.split)
  let ?s = "st\<lparr>ts_cache := Cache_Del_Internal (te_globals env) (ts_now st) ip_S_V (Some (tp_cache ?d)) (ts_cache st)\<rparr>"
  obtain ts ret st1 where "bus_transaction env ts ?d (put (d_frame (te_driver env)) [0xCC, 0x3C, 0x0F, 0x00, 0xFF, 0xFF] ?s) = Some (ret, (), st1)"
    and st': "st' = (if ret = 0 then cache_add env [] ip_S_V ?d st1 else st1)"
    using run by (auto simp: FS_w_convert_volt_def convert_marked_def no_line_def Let_def)
  then have "unmarked ?k (ts_cache st1)" using transact_allocs quiet del by fastforce
  then have "unmarked ?k (ts_cache (st'\<lparr>ts_now := t\<rparr>))" using add by (simp add: st')
  then show ?thesis by (rule test_unmarked)
qed

section \<open>Properties\<close>

text \<open>
  C12: after a simultaneous conversion of temperatures that succeeded, every thermometer of the same directory finds its mark for as long as volatile values are
  kept, and waits for what is left of its conversion time and no longer. The property that shows the mark to the user looks for it under another key: it says
  that there is none.
\<close>

theorem simultaneous_marks:
  assumes "FS_w_convert_temp env adapter_line True pn st = Some (0, (), st')"
    and "allocs (ts_trx st) = []" and "ir_flags (d_ir (te_driver env)) AND ADAP_FLAG_bundle = 0" and "g_cache_size (te_globals env) = 0"
    and "cp_connection (tp_cache pn) \<noteq> None" and "cp_bp (tp_cache dev) = cp_bp (tp_cache pn)" and "unmarked (mark ip_S_T EXTENSION_INTERNAL pn) (ts_cache st)"
    and "ts_now st \<le> t" and "t < ts_now st + TimeOut (te_globals env) fc_volatile"
  shows "(\<exists>st2. FS_Test_Simultaneous env ip_S_T delay dev (st'\<lparr>ts_now := t\<rparr>) = Some (0, (), st2)
      \<and> ms_delayed (conn (ts_trx st2)) = ms_delayed (conn (ts_trx st')) + nat (int delay - 1000 * (t - ts_now st)))
    \<and> (\<exists>st3. FS_r_convert env ip_S_T pn (st'\<lparr>ts_now := t\<rparr>) = Some (0, False, st3))"
proof
  obtain st1 where st1: "allocs (ts_trx st1) = []" "ts_now st1 = ts_now st" "ts_cache st1 = ts_cache st"
    and st': "ts_cache st' = ts_cache (cache_add_simul env ip_S_T (FS_LoadDirectoryOnly pn) st1)"
    using convert_temp_marked [OF assms(1-3)] .
  note marked = simul_marked [OF st1(1) assms(4,5), folded st']
  have pos: "0 < TimeOut (te_globals env) fc_volatile" using assms(8,9) by simp
  obtain tn where tn: "map_of (temporary_tree_new (ts_cache st')) (mark ip_S_T 0 pn) = Some tn" "tn_dsize tn = 0"
      "tn_expires tn = TimeOut (te_globals env) fc_volatile + ts_now st"
    using marked(1) [OF pos] st1(2) by auto
  show "\<exists>st2. FS_Test_Simultaneous env ip_S_T delay dev (st'\<lparr>ts_now := t\<rparr>) = Some (0, (), st2)
      \<and> ms_delayed (conn (ts_trx st2)) = ms_delayed (conn (ts_trx st')) + nat (int delay - 1000 * (t - ts_now st))"
    using test_marked [of "st'\<lparr>ts_now := t\<rparr>" dev ip_S_T tn env "ts_now st" delay] tn assms(6,8,9) by simp
  have "unmarked (mark ip_S_T EXTENSION_INTERNAL pn) (ts_cache st')" using marked(2) [OF pos] assms(7) st1(3) by simp
  then show "\<exists>st3. FS_r_convert env ip_S_T pn (st'\<lparr>ts_now := t\<rparr>) = Some (0, False, st3)"
    by (intro convert_shown_unmarked [of pn ip_S_T "st'\<lparr>ts_now := t\<rparr>" env]) auto
qed

text \<open>On a line with one thermometer the command succeeds.\<close>

abbreviation line_directory :: bus_pn where
  "line_directory \<equiv> \<lparr>pn_sn = replicate 8 0, pn_bp = [], pn_has_device = False\<rparr>"

lemma line_directory_select:
  assumes "hub_branch (branch c) = eBranch_cleared"
  shows "\<exists>c'. BUS_select (line_routines step start) line_directory c = (gbGOOD, c') \<and> line_phase (hardware c') = Rom [] \<and> hub_branch (branch c') = eBranch_cleared"
proof -
  obtain c1 where c1: "BUS_reset (line_routines step start) line_directory c = (BUS_RESET_OK, c1)"
      "hardware c1 = (hardware c)\<lparr>line_phase := Rom []\<rparr>" "branch c1 = branch c"
    by (simp add: BUS_reset_def line_routines_def no_routines_def line_reset_def STAT_ADD1_BUS_def UT_delay_def Let_def)
  then show ?thesis using assms
    by (auto simp: BUS_select_def select_prepare_def BUS_select_branched_path_def RootNotBranch_def ds2409_depth_def line_routines_def no_routines_def Let_def)
qed

text \<open>Bytes that only answer the line before a serial number is complete come back as they are.\<close>

lemma line_echo:
  assumes "line_phase (hardware c) = Rom bs" and "length bs + length xs \<le> 8" and "xs \<noteq> []"
  shows "BUS_sendback_data (line_routines step start) sh xs pn c = (gbGOOD, xs, c\<lparr>hardware := (hardware c)\<lparr>line_phase := Rom (bs @ xs)\<rparr>\<rparr>)"
  using stream_rom [OF assms(1,2)] assms(3) by (simp add: line_send line_sendback_def)

lemma line_directory_write:
  assumes "hub_branch (branch (conn st)) = eBranch_cleared" and "0 < n" and "n \<le> 2"
  shows "\<exists>st'. trx_loop (BUS_select (line_routines step start)) (line_routines step start) junk ([TRXN_START, TRXN_WRITE p n] @ us) line_directory st
      = trx_loop (BUS_select (line_routines step start)) (line_routines step start) junk us line_directory st'
    \<and> hub_branch (branch (conn st')) = eBranch_cleared \<and> line_phase (hardware (conn st')) = Rom (mem_read (mem st) p n) \<and> allocs st' = allocs st \<and> mem st' = mem st"
proof -
  obtain c where c: "BUS_select (line_routines step start) line_directory (conn st) = (gbGOOD, c)" "line_phase (hardware c) = Rom []"
      "hub_branch (branch c) = eBranch_cleared" using line_directory_select [OF assms(1)] by blast
  let ?xs = "mem_read (mem st) p n"
  have len: "length ?xs = n" by simp
  then have ne: "?xs \<noteq> []" using assms(2) by (metis less_numeral_extra(3) list.size(3))
  with len have "BUS_sendback_data (line_routines step start) sh ?xs pn c = (gbGOOD, ?xs, c\<lparr>hardware := (hardware c)\<lparr>line_phase := Rom ?xs\<rparr>\<rparr>)" for sh pn
    using line_echo [OF c(2), of ?xs] assms(3) by simp
  then show ?thesis using c ne assms(2)
    by (intro exI [of _ "st\<lparr>conn := c\<lparr>hardware := (hardware c)\<lparr>line_phase := Rom ?xs\<rparr>\<rparr>\<rparr>"])
      (simp add: BUS_transaction_single_def on_conn_def ptr_read_def BUS_send_data_def TRXN_START_def TRXN_WRITE_def Let_def)
qed

lemma line_directory_log:
  assumes "hub_branch (branch (conn st)) = eBranch_cleared" and "0 < n" and "n \<le> 2" and "us = [] \<or> us = [TRXN_READ q 1]"
  shows "\<exists>st'. transact (line_driver step start junk frame) ([TRXN_START, TRXN_WRITE p n] @ us @ [TRXN_END]) line_directory st = Some (0, st')
    \<and> hub_branch (branch (conn st')) = eBranch_cleared \<and> (us \<noteq> [] \<longrightarrow> mem_read (mem st') q 1 = [0xFF])"
proof -
  let ?ir = "line_routines step start"
  have "hub_branch (branch (conn (BUS_lock st))) = eBranch_cleared" using assms(1) by (simp add: BUS_lock_def lock_defs)
  then obtain st1 where st1: "trx_loop (BUS_select ?ir) ?ir junk ([TRXN_START, TRXN_WRITE p n] @ us @ [TRXN_END]) line_directory (BUS_lock st)
      = trx_loop (BUS_select ?ir) ?ir junk (us @ [TRXN_END]) line_directory st1"
      "hub_branch (branch (conn st1)) = eBranch_cleared" "line_phase (hardware (conn st1)) = Rom (mem_read (mem (BUS_lock st)) p n)"
    using line_directory_write [OF _ assms(2,3)] by blast
  let ?c = "conn st1" and ?bs = "mem_read (mem (BUS_lock st)) p n"
  have echo: "BUS_sendback_data ?ir True [0xFF] line_directory ?c = (gbGOOD, [0xFF], ?c\<lparr>hardware := (hardware ?c)\<lparr>line_phase := Rom (?bs @ [0xFF])\<rparr>\<rparr>)"
    using line_echo [OF st1(3), of "[0xFF]"] assms(3) by simp
  have "\<exists>st2. trx_loop (BUS_select ?ir) ?ir junk (us @ [TRXN_END]) line_directory st1 = Some (0, st2) \<and> hub_branch (branch (conn st2)) = eBranch_cleared
      \<and> (us \<noteq> [] \<longrightarrow> mem_read (mem st2) q 1 = [0xFF])"
    using assms(4)
  proof
    assume "us = []"
    then show ?thesis using st1(2) by (simp add: BUS_transaction_single_def TRXN_END_def)
  next
    assume "us = [TRXN_READ q 1]"
    then show ?thesis using st1(2) echo
      by (simp add: BUS_transaction_single_def on_conn_resp_def BUS_readin_data_def TRXN_READ_def TRXN_END_def mem_read_def mem_write_def Let_def)
  qed
  then show ?thesis using st1(1)
    by (auto simp: transact_def BUS_transaction_def BUS_transaction_nolock_def line_driver_def BUS_unlock_def lock_defs)
qed

lemma line_conversion:
  assumes "hub_branch (branch (conn (ts_trx st))) = eBranch_cleared" and "cp_bp (tp_cache pn) = []" and "pn_bp (tp_bus pn) = []"
    and "te_driver env = line_driver step start junk frame"
  shows "\<exists>st'. FS_w_convert_temp env adapter_line True pn st = Some (0, (), st')"
proof -
  let ?d = "FS_LoadDirectoryOnly pn" and ?t = "transact (line_driver step start junk frame)"
  have d: "tp_bus ?d = line_directory" using assms(2,3) by (simp add: FS_LoadDirectoryOnly_def FS_LoadDirectoryOnly_sn_def Let_def)
  obtain t1 where t1: "?t [TRXN_START, TRXN_WRITE frame 1, TRXN_READ (frame + 1) 1, TRXN_END] line_directory (ts_trx (put frame [0xB4] st)) = Some (0, t1)"
      "hub_branch (branch (conn t1)) = eBranch_cleared" "mem_read (mem t1) (frame + 1) 1 = [0xFF]"
    using line_directory_log [of "ts_trx (put frame [0xB4] st)" 1 "[TRXN_READ (frame + 1) 1]" "frame + 1" step start junk frame frame] assms(1)
    by (auto simp: put_def store_def)
  let ?st = "put frame [0xCC, 0x44] (cache_add_simul env ip_S_T ?d (put frame [0xB4] st\<lparr>ts_trx := t1\<rparr>))"
  have "hub_branch (branch (conn (ts_trx ?st))) = eBranch_cleared" using t1(2)
    by (simp add: put_def store_def cache_add_simul_def next_alloc_def split: prod.split list.split)
  then obtain t2 where "?t [TRXN_START, TRXN_WRITE frame 2, TRXN_END] line_directory (ts_trx ?st) = Some (0, t2)"
    using line_directory_log [of "ts_trx ?st" 2 "[]" 0 step start junk frame frame] by auto
  then show ?thesis using t1 d assms(4)
    by (simp add: FS_w_convert_temp_def no_line_def return_bad_def bus_transaction_def get_def fetch_def line_driver_def Let_def)
qed

theorem simultaneous_marks_witness:
  "\<exists>st' st2. FS_w_convert_temp sample_therm_env adapter_line True (sample_therm_pn 0) sample_therm_state = Some (0, (), st')
    \<and> FS_Test_Simultaneous sample_therm_env ip_S_T 1500 (sample_therm_pn 9) (st'\<lparr>ts_now := 1\<rparr>) = Some (0, (), st2)
    \<and> ms_delayed (conn (ts_trx st2)) = ms_delayed (conn (ts_trx st')) + 500"
proof -
  let ?env = sample_therm_env and ?st = sample_therm_state
  obtain st' where st': "FS_w_convert_temp ?env adapter_line True (sample_therm_pn 0) ?st = Some (0, (), st')"
  proof -
    have "te_driver ?env = line_driver therm_step therm_start (\<lambda>_. 0) 0" "hub_branch (branch (conn (ts_trx ?st))) = eBranch_cleared"
      "cp_bp (tp_cache (sample_therm_pn 0)) = []" "pn_bp (tp_bus (sample_therm_pn 0)) = []"
      by (simp_all add: sample_therm_state_def sample_therm_pn_def sample_therm_env_def initial_connection_def chip_pn_def)
    then show thesis using line_conversion that by blast
  qed
  have "TimeOut (te_globals ?env) fc_volatile = 15" "g_cache_size (te_globals ?env) = 0" "ts_now ?st = 0" "allocs (ts_trx ?st) = []"
    by (simp_all add: sample_therm_env_def default_globals_def TimeOut_def sample_therm_state_def)
  moreover have "ir_flags (d_ir (te_driver ?env)) AND ADAP_FLAG_bundle = 0" by (simp add: sample_therm_env_def line_driver_def)
  moreover have "unmarked k (ts_cache ?st)" for k by (simp add: sample_therm_state_def unmarked_def Cache_Open_def FlipTree_def zero_cache_def)
  moreover have "cp_bp (tp_cache (sample_therm_pn 9)) = cp_bp (tp_cache (sample_therm_pn 0))" "cp_connection (tp_cache (sample_therm_pn 0)) \<noteq> None"
    by (simp_all add: sample_therm_pn_def)
  ultimately show ?thesis using simultaneous_marks [OF st', of "sample_therm_pn 9" 1 1500] st' by auto
qed

end
