(* ===== verification/OW_Message.thy ===== *)
theory OW_Message
  imports OW_Blobs OW_Bits
begin

text \<open>
  The messages between a client and \<^verbatim>\<open>owserver\<close>: the sending and receiving side of a client
  (\<^verbatim>\<open>ow_server_message.c\<close>) and of the server (\<^verbatim>\<open>from_client.c\<close>, \<^verbatim>\<open>to_client.c\<close>).

  A header is six 32-bit integers in network order. The stream of a connection is the bytes that arrive before
  the timeout. What \<^verbatim>\<open>writev\<close> returns and whether an allocation succeeds are arguments. The buffer of the
  server is a block of cells, and \<^const>\<open>None\<close> is an undefined access to it.
\<close>

section \<open>Headers\<close>

type_synonym int32 = "32 word"

definition htonl :: "int32 \<Rightarrow> byte list" where
  "htonl w = [ucast (drop_bit 24 w), ucast (drop_bit 16 w), ucast (drop_bit 8 w), ucast w]"

definition ntohl :: "byte list \<Rightarrow> int32" where
  "ntohl b = push_bit 24 (ucast (b ! 0)) OR push_bit 16 (ucast (b ! 1)) OR push_bit 8 (ucast (b ! 2)) OR ucast (b ! 3)"

record server_msg =
  sm_version :: int32
  sm_payload :: int32
  sm_type :: int32
  sm_control_flags :: int32
  sm_size :: int32
  sm_offset :: int32

record client_msg =
  cm_version :: int32
  cm_payload :: int32
  cm_ret :: int32
  cm_control_flags :: int32
  cm_size :: int32
  cm_offset :: int32

definition msg_error :: int32 where "msg_error = 0"
definition msg_read :: int32 where "msg_read = 2"
definition msg_write :: int32 where "msg_write = 3"

definition MAX_OWSERVER_PROTOCOL_PAYLOAD_SIZE :: int where "MAX_OWSERVER_PROTOCOL_PAYLOAD_SIZE = 100050"

definition sizeof_server_msg :: nat where "sizeof_server_msg = 24"
definition sizeof_antiloop :: nat where "sizeof_antiloop = 16"

definition Servertokens :: "int32 \<Rightarrow> nat" where
  "Servertokens version = unat (version AND 0xFFFF)"

definition MakeServermessage :: int32 where
  "MakeServermessage = 0x10000"

definition isServermessage :: "int32 \<Rightarrow> bool" where
  "isServermessage version \<longleftrightarrow> version AND MakeServermessage = MakeServermessage"

definition put_server_msg :: "server_msg \<Rightarrow> byte list" where
  "put_server_msg sm =
     htonl (sm_version sm) @ htonl (sm_payload sm) @ htonl (sm_type sm) @ htonl (sm_control_flags sm) @
     htonl (sm_size sm) @ htonl (sm_offset sm)"

definition get_server_msg :: "byte list \<Rightarrow> server_msg" where
  "get_server_msg b =
     \<lparr>sm_version = ntohl b, sm_payload = ntohl (drop 4 b), sm_type = ntohl (drop 8 b),
      sm_control_flags = ntohl (drop 12 b), sm_size = ntohl (drop 16 b), sm_offset = ntohl (drop 20 b)\<rparr>"

definition put_client_msg :: "client_msg \<Rightarrow> byte list" where
  "put_client_msg cm =
     htonl (cm_version cm) @ htonl (cm_payload cm) @ htonl (cm_ret cm) @ htonl (cm_control_flags cm) @
     htonl (cm_size cm) @ htonl (cm_offset cm)"

text \<open>The client leaves the version as it came.\<close>

definition get_client_msg :: "byte list \<Rightarrow> client_msg" where
  "get_client_msg b =
     \<lparr>cm_version = UT_uint32 b, cm_payload = ntohl (drop 4 b), cm_ret = ntohl (drop 8 b),
      cm_control_flags = ntohl (drop 12 b), cm_size = ntohl (drop 16 b), cm_offset = ntohl (drop 20 b)\<rparr>"

section \<open>A client sends\<close>

text \<open>What is to be sent: the path without its terminator, the data, the tokens of the servers before.\<close>

record out_package =
  op_path :: "byte list option"
  op_data :: "byte list option"
  op_datasize :: nat
  op_tokenstring :: "byte list"
  op_tokens :: nat

definition out_path :: "out_package \<Rightarrow> byte list" where
  "out_path sp = (case op_path sp of None \<Rightarrow> [] | Some p \<Rightarrow> p @ [0])"

definition out_data :: "out_package \<Rightarrow> byte list" where
  "out_data sp = (case op_data sp of None \<Rightarrow> [] | Some d \<Rightarrow> take (op_datasize sp) d)"

text \<open>\<open>writev\<close> gives what the system call returns for the bytes it is given. The result is the return value, the
  message as the code leaves it, and the bytes handed over, \<^const>\<open>None\<close> when there is no call.\<close>

definition WriteToServer ::
  "bool \<Rightarrow> byte list \<Rightarrow> (byte list \<Rightarrow> int) \<Rightarrow> server_msg \<Rightarrow> out_package \<Rightarrow> int \<times> server_msg \<times> byte list option" where
  "WriteToServer server_type token writev sm sp =
     (let sm = sm\<lparr>sm_version := 0\<rparr>;
          path = out_path sp;
          data = out_data sp;
          payload = length path + length data;
          tokens = (if server_type then op_tokens sp + 1 else 0)
      in if server_type \<and> tokens = 0x10000 then (- ELOOP, sm, None)
         else
           let sm = (if server_type then sm\<lparr>sm_version := sm_version sm OR MakeServermessage OR of_nat tokens\<rparr> else sm);
               tags = (if server_type then take (op_tokens sp * sizeof_antiloop) (op_tokenstring sp) @ token else []);
               bytes = put_server_msg (sm\<lparr>sm_payload := of_nat payload\<rparr>) @ path @ data @ tags
           in (if writev bytes \<noteq> int (payload + sizeof_server_msg + tokens * sizeof_antiloop) then 1 else 0, sm, Some bytes))"

section \<open>The server receives\<close>

text \<open>The buffer, and places in it: the path is at its start.\<close>

record serverpackage =
  sp_msg :: "cell list"
  sp_path :: bool
  sp_data :: "nat option"
  sp_datasize :: nat
  sp_tokenstring :: "nat option"
  sp_tokens :: nat

definition no_package :: serverpackage where
  "no_package = \<lparr>sp_msg = [], sp_path = False, sp_data = None, sp_datasize = 0, sp_tokenstring = None, sp_tokens = 0\<rparr>"

text \<open>\<open>Refused\<close> has the return value and the message type it leaves.\<close>

datatype from_client = Refused int int32 | Accepted server_msg serverpackage

text \<open>The path and the data of a message with a payload. \<open>Inl\<close> is a size mismatch; otherwise the buffer as it is
  left and the place of the data.\<close>

definition split_payload :: "server_msg \<Rightarrow> cell list \<Rightarrow> (unit + cell list \<times> nat option) option" where
  "split_payload sm msg =
     (let payload = sint (sm_payload sm) in
      if sm_type sm = msg_write then
        let pathlen = payload - sint (sm_size sm) in
        if pathlen \<le> 0 then Some (Inl ())
        else (case blk_load (nat (pathlen - 1)) 1 msg of
                None \<Rightarrow> None
              | Some c \<Rightarrow>
                  if c = [0] then Some (Inr (msg, Some (nat pathlen)))
                  else if sint (sm_size sm) < 0 then None
                  else (case blk_store (nat pathlen + 1) (take (nat (sint (sm_size sm))) (drop (nat pathlen) msg)) msg of
                          None \<Rightarrow> None
                        | Some msg \<Rightarrow>
                            map_option (\<lambda>msg. Inr (msg, Some (nat pathlen + 1))) (blk_store (nat pathlen) [Some 0] msg)))
      else map_option (\<lambda>msg. Inr (msg, None)) (blk_store (nat payload) [Some 0] msg))"

fun own_token :: "byte list \<Rightarrow> cell list \<Rightarrow> nat \<Rightarrow> nat \<Rightarrow> bool option" where
  "own_token token msg p 0 = Some False"
| "own_token token msg p (Suc n) =
     (case blk_load p sizeof_antiloop msg of
        None \<Rightarrow> None
      | Some t \<Rightarrow> if t = token then Some True else own_token token msg (p + sizeof_antiloop) n)"

definition FromClient :: "byte list \<Rightarrow> bool \<Rightarrow> byte list \<Rightarrow> (from_client \<times> byte list) option" where
  "FromClient token mok stream =
     (if length stream < sizeof_server_msg then Some (Refused (- EIO) msg_error, [])
      else
        let sm = get_server_msg (take sizeof_server_msg stream);
            rest = drop sizeof_server_msg stream;
            payload = sint (sm_payload sm);
            server = isServermessage (sm_version sm);
            tokens = Servertokens (sm_version sm);
            trueload = payload + (if server then int (sizeof_antiloop * tokens) else 0)
        in if trueload = 0 then Some (Accepted sm no_package, rest)
           else if payload < 0 \<or> trueload > MAX_OWSERVER_PROTOCOL_PAYLOAD_SIZE then Some (Refused (- EMSGSIZE) msg_error, rest)
           else if \<not> mok then Some (Refused (- ENOMEM) msg_error, rest)
           else if length rest < nat trueload then Some (Refused (- EINVAL) msg_error, [])
           else
             let msg = map Some (take (nat trueload) rest) @ [None, None];
                 rest = drop (nat trueload) rest
             in (case (if payload \<noteq> 0 then split_payload sm msg else Some (Inr (msg, None))) of
                   None \<Rightarrow> None
                 | Some (Inl _) \<Rightarrow> Some (Refused (- EINVAL) (sm_type sm), rest)
                 | Some (Inr (msg, data)) \<Rightarrow>
                     let sp = \<lparr>sp_msg = msg, sp_path = (payload \<noteq> 0), sp_data = data,
                               sp_datasize = (if data = None then 0 else unat (scast (sm_size sm) :: 64 word)),
                               sp_tokenstring = None, sp_tokens = 0\<rparr>
                     in if \<not> server then Some (Accepted sm sp, rest)
                        else (case own_token token msg (nat payload) tokens of
                                None \<Rightarrow> None
                              | Some True \<Rightarrow> Some (Refused (- EINVAL) msg_error, rest)
                              | Some False \<Rightarrow>
                                  Some (Accepted sm (sp\<lparr>sp_tokenstring := Some (nat payload), sp_tokens := tokens\<rparr>), rest))))"

section \<open>The server answers\<close>

text \<open>The return value, and the bytes handed to \<^verbatim>\<open>writev\<close>. The length of the second segment is the payload as
  a \<^verbatim>\<open>size_t\<close>, also when the segment is not sent.\<close>

definition ToClient :: "(byte list \<Rightarrow> int) \<Rightarrow> client_msg \<Rightarrow> byte list option \<Rightarrow> int \<times> byte list" where
  "ToClient writev cm data =
     (let payload = sint (cm_payload cm);
          bytes = put_client_msg cm @
            (case data of Some d \<Rightarrow> if payload > 0 then take (nat payload) d else [] | None \<Rightarrow> [])
      in (if (word_of_int (writev bytes) :: 64 word) \<noteq> of_nat sizeof_server_msg + word_of_int payload then 1 else 0, bytes))"

definition ping_cm :: client_msg where
  "ping_cm = \<lparr>cm_version = 0, cm_payload = - 1, cm_ret = 0, cm_control_flags = 0, cm_size = 0, cm_offset = 0\<rparr>"

section \<open>The client receives\<close>

text \<open>Headers up to the first that is no delay message; \<^const>\<open>None\<close> when the stream ends before.\<close>

function skip_delays :: "byte list \<Rightarrow> (client_msg \<times> byte list) option" where
  "skip_delays stream =
     (if length stream < sizeof_server_msg then None
      else
        let cm = get_client_msg (take sizeof_server_msg stream); rest = drop sizeof_server_msg stream in
        if sint (cm_payload cm) < 0 then skip_delays rest else Some (cm, rest))"
  by pat_completeness auto
termination
  by (relation "measure length") (auto simp: sizeof_server_msg_def)

declare skip_delays.simps [simp del]

text \<open>The return value, the header, the bytes copied out, what is left of the stream, and whether the connection
  was closed because the payload was too long.\<close>

definition From_Server ::
  "nat \<Rightarrow> byte list \<Rightarrow> int \<times> client_msg option \<times> byte list \<times> byte list \<times> bool" where
  "From_Server size' stream =
     (case skip_delays stream of
        None \<Rightarrow> (- EIO, None, [], [], False)
      | Some (cm, rest) \<Rightarrow>
          let payload = sint (cm_payload cm) in
          if payload = 0 then (0, Some cm, [], rest, False)
          else
            let rtry = min (nat payload) size' in
            if length rest < rtry then (- EIO, Some (cm\<lparr>cm_ret := word_of_int (- EIO)\<rparr>), rest, [], False)
            else if payload > int size' then (int size', Some cm, take rtry rest, drop rtry rest, True)
            else (payload, Some cm, take rtry rest, drop rtry rest, False))"

text \<open>The allocating version adds a zero to what it returns.\<close>

definition From_ServerAlloc :: "bool \<Rightarrow> byte list \<Rightarrow> byte list option \<times> client_msg \<times> byte list" where
  "From_ServerAlloc mok stream =
     (case skip_delays stream of
        None \<Rightarrow> (None, ping_cm\<lparr>cm_payload := 0, cm_ret := word_of_int (- EIO)\<rparr>, [])
      | Some (cm, rest) \<Rightarrow>
          let payload = sint (cm_payload cm) in
          if payload = 0 \<or> sint (cm_ret cm) < 0 \<or> payload > MAX_OWSERVER_PROTOCOL_PAYLOAD_SIZE \<or> \<not> mok then (None, cm, rest)
          else if length rest < nat payload
          then (None, cm\<lparr>cm_payload := 0, cm_offset := 0, cm_ret := word_of_int (- EIO)\<rparr>, [])
          else (Some (take (nat payload) rest @ [0]), cm, drop (nat payload) rest))"

section \<open>Lemmas\<close>

lemma length_htonl [simp]: "length (htonl w) = 4"
  by (simp add: htonl_def)

lemma ntohl_htonl [simp]: "ntohl (htonl w @ r) = w"
  by (rule bit_word_eqI) (auto simp: ntohl_def htonl_def lanes)

lemma ntohl_htonl' [simp]: "ntohl (htonl w) = w"
  using ntohl_htonl [of w "[]"] by simp

lemma length_put_server_msg [simp]: "length (put_server_msg sm) = 24"
  by (simp add: put_server_msg_def)

lemma length_put_client_msg [simp]: "length (put_client_msg cm) = 24"
  by (simp add: put_client_msg_def)

lemma get_put_server_msg [simp]: "get_server_msg (put_server_msg sm) = sm"
  by (simp add: get_server_msg_def put_server_msg_def)

lemma get_put_client_msg: "get_client_msg (put_client_msg cm) = cm\<lparr>cm_version := UT_uint32 (htonl (cm_version cm))\<rparr>"
proof -
  have "UT_uint32 (htonl w @ r) = UT_uint32 (htonl w)" for w r by (simp add: UT_uint32_def htonl_def)
  then show ?thesis by (simp add: get_client_msg_def put_client_msg_def)
qed

lemma server_version:
  assumes "t < 0x10000"
  shows "Servertokens (0x10000 OR of_nat t) = t" and "isServermessage (0x10000 OR of_nat t)"
proof -
  have mask: "x AND 0xFFFF = take_bit 16 x" for x :: int32
    by (simp add: take_bit_eq_mask mask_eq_exp_minus_1)
  have low: "(of_nat t :: int32) AND 0xFFFF = of_nat t"
    using assms by (simp add: mask of_nat_take_bit [symmetric] take_bit_nat_eq_self)
  have "(0x10000 OR of_nat t) AND (0xFFFF :: int32) = of_nat t"
    by (simp add: bit.conj_disj_distrib2 low)
  then show "Servertokens (0x10000 OR of_nat t) = t"
    using assms by (simp add: Servertokens_def unat_of_nat take_bit_nat_eq_self)
  show "isServermessage (0x10000 OR of_nat t)"
    by (simp add: isServermessage_def MakeServermessage_def bit.conj_disj_distrib2)
qed

lemma plain_version [simp]: "\<not> isServermessage 0"
  by (simp add: isServermessage_def MakeServermessage_def)

lemma sint_of_small:
  assumes "n \<le> 100050"
  shows "sint (of_nat n :: int32) = int n"
  using assms by (simp add: signed_of_nat signed_take_bit_int_eq_self)

text \<open>The tokens of a token string.\<close>

definition split_tokens :: "nat \<Rightarrow> byte list \<Rightarrow> byte list list" where
  "split_tokens n ts = map (\<lambda>i. take 16 (drop (16 * i) ts)) [0..<n]"

lemma split_tokens_Suc: "split_tokens (Suc n) ts = take 16 ts # split_tokens n (drop 16 ts)"
  by (simp add: split_tokens_def map_upt_Suc ac_simps del: upt_Suc)

lemma own_token_split:
  assumes "drop p msg = map Some ts @ r" and "length ts = 16 * n" and "p \<le> length msg"
  shows "own_token mine msg p n = Some (mine \<in> set (split_tokens n ts))"
  using assms
proof (induction n arbitrary: p ts)
  case 0
  then show ?case by (simp add: split_tokens_def)
next
  case (Suc n)
  have len: "length msg - p = 16 * Suc n + length r" using arg_cong [OF Suc.prems(1), of length] Suc.prems(2) by simp
  have "take 16 (drop p msg) = map Some (take 16 ts)" using Suc.prems(1,2) by (simp add: take_map)
  then have "blk_load p sizeof_antiloop msg = Some (take 16 ts)"
    using len Suc.prems(3) by (auto simp: blk_load_def sizeof_antiloop_def comp_def)
  moreover have "drop (p + 16) msg = map Some (drop 16 ts) @ r"
  proof -
    have "drop (p + 16) msg = drop 16 (drop p msg)" by (simp add: add.commute)
    then show ?thesis using Suc.prems(1,2) by (simp add: drop_map)
  qed
  ultimately show ?case
    using Suc.IH [of "p + 16" "drop 16 ts"] Suc.prems len by (auto simp: split_tokens_Suc sizeof_antiloop_def)
qed

text \<open>What a package says: the path up to its terminator, the data, the tokens.\<close>

definition package_path :: "serverpackage \<Rightarrow> byte list option" where
  "package_path sp = (if sp_path sp then Some (map the (takeWhile (\<lambda>c. c \<noteq> Some 0) (sp_msg sp))) else None)"

definition package_data :: "serverpackage \<Rightarrow> byte list option" where
  "package_data sp = (case sp_data sp of None \<Rightarrow> None | Some off \<Rightarrow> blk_load off (sp_datasize sp) (sp_msg sp))"

definition package_tokens :: "serverpackage \<Rightarrow> byte list option" where
  "package_tokens sp = (case sp_tokenstring sp of None \<Rightarrow> None | Some off \<Rightarrow> blk_load off (16 * sp_tokens sp) (sp_msg sp))"

text \<open>The terminator the server adds after the path of anything but a write falls on the first token.\<close>

definition seen_tags :: "bool \<Rightarrow> byte list \<Rightarrow> byte list" where
  "seen_tags write tags = (if write \<or> tags = [] then tags else 0 # drop 1 tags)"

lemma length_seen_tags [simp]: "length (seen_tags w tags) = length tags"
  by (cases tags) (simp_all add: seen_tags_def)

lemma blk_load_at:
  assumes "drop off blk = map Some xs @ r" and "off \<le> length blk"
  shows "blk_load off (length xs) blk = Some xs"
proof -
  have "length (drop off blk) = length xs + length r" using assms(1) by simp
  then have "off + length xs \<le> length blk" using assms(2) by simp
  moreover have "take (length xs) (drop off blk) = map Some xs" using assms(1) by simp
  ultimately show ?thesis by (auto simp: blk_load_def comp_def)
qed

text \<open>A message as it arrives, with a terminated path: how its payload is taken apart.\<close>

lemma split_terminated:
  assumes "sint (sm_payload sm) = int (length p + 1 + length data)"
    and "if sm_type sm = msg_write then sint (sm_size sm) = int (length data) else data = []"
  shows "split_payload sm (map Some ((p @ [0]) @ data @ tags) @ [None, None]) =
     Some (Inr (map Some ((p @ [0]) @ data @ seen_tags (sm_type sm = msg_write) tags)
         @ (if sm_type sm = msg_write \<or> tags \<noteq> [] then [None, None] else [Some 0, None]),
       if sm_type sm = msg_write then Some (length p + 1) else None))"
proof (cases "sm_type sm = msg_write")
  case True
  let ?msg = "map Some ((p @ [0]) @ data @ tags) @ [None, None]"
  have "drop (length p) ?msg = map Some [0] @ map Some (data @ tags) @ [None, None]" by simp
  from blk_load_at [OF this] have "blk_load (length p) 1 ?msg = Some [0]" by simp
  then show ?thesis using True assms by (simp add: split_payload_def seen_tags_def nat_add_distrib)
next
  case False
  then have "data = []" using assms(2) by simp
  then show ?thesis
    using False assms(1)
    by (cases tags) (simp_all add: split_payload_def seen_tags_def blk_store_def nat_add_distrib drop_map take_map)
qed

lemma takeWhile_terminated:
  fixes p :: "byte list"
  assumes "0 \<notin> set p"
  shows "map the (takeWhile (\<lambda>c. c \<noteq> Some 0) (map Some ((p @ [0]) @ xs) @ r)) = p"
proof -
  have "takeWhile (\<lambda>c. c \<noteq> Some 0) (map Some p @ Some 0 # ys) = map Some p" for ys :: "cell list"
    using assms by (induction p) auto
  then show ?thesis by (simp add: comp_def)
qed

lemma scast_size:
  assumes "sint (w :: int32) = int n"
  shows "unat (scast w :: 64 word) = n"
proof -
  have "sint w < 2 ^ 31" using sint_lt [of w] by simp
  then have "n < 2 ^ 31" using assms by simp
  moreover have "(scast w :: 64 word) = of_nat n" using assms by (metis of_int_of_nat_eq of_int_sint)
  ultimately show ?thesis by (simp add: unat_of_nat take_bit_nat_eq_self)
qed

text \<open>A well-sized message: what is left is to take its payload apart and to look for the own token.\<close>

lemma FromClient_sized:
  assumes "stream = put_server_msg sm @ msg0 @ rest" and "sint (sm_payload sm) = int len" and "0 < len"
    and "isServermessage (sm_version sm) = server" and "server \<Longrightarrow> Servertokens (sm_version sm) = n"
    and "length msg0 = len + (if server then 16 * n else 0)" and "length msg0 \<le> 100050"
    and "split_payload sm (map Some msg0 @ [None, None]) = Some (Inr (msg, data))"
    and "own_token mine msg len (if server then n else 0) = Some loop"
    and "sp = \<lparr>sp_msg = msg, sp_path = True, sp_data = data, sp_datasize = (if data = None then 0 else unat (scast (sm_size sm) :: 64 word)),
       sp_tokenstring = (if server then Some len else None), sp_tokens = (if server then n else 0)\<rparr>"
  shows "FromClient mine True stream = Some (if loop then Refused (- EINVAL) msg_error else Accepted sm sp, rest)"
proof -
  have stream: "take sizeof_server_msg stream = put_server_msg sm" "drop sizeof_server_msg stream = msg0 @ rest"
      "\<not> length stream < sizeof_server_msg"
    by (simp_all add: sizeof_server_msg_def assms(1))
  have load: "int len + (if server then int (sizeof_antiloop * n) else 0) = int (length msg0)"
    using assms(6) by (simp add: sizeof_antiloop_def)
  have sum: "nat (int len + 16 * int n) = len + 16 * n" by (simp add: nat_add_distrib nat_mult_distrib)
  show ?thesis
  proof (cases server)
    case True
    then show ?thesis
      using stream load assms(2-) sum by (simp add: FromClient_def Let_def MAX_OWSERVER_PROTOCOL_PAYLOAD_SIZE_def sizeof_antiloop_def)
  next
    case False
    then show ?thesis
      using stream load assms(2-) by (simp add: FromClient_def Let_def MAX_OWSERVER_PROTOCOL_PAYLOAD_SIZE_def)
  qed
qed

text \<open>A client message with the version of a plain client or of a server that passes tokens on.\<close>

lemma FromClient_terminated:
  fixes p data tags :: "byte list"
  assumes "sm_payload h = of_nat (length p + 1 + length data)"
    and "if sm_type h = msg_write then sint (sm_size h) = int (length data) else data = []"
    and "sm_version h = (if server then MakeServermessage OR of_nat n else 0)" and "0 < n \<or> \<not> server"
    and "length tags = (if server then 16 * n else 0)" and "length p + 1 + length data + length tags \<le> 100050" and "0 \<notin> set p"
  defines "seen \<equiv> seen_tags (sm_type h = msg_write) tags"
  shows "\<exists>pkg. FromClient mine True (put_server_msg h @ (p @ [0]) @ data @ tags @ rest) =
      Some (if server \<and> mine \<in> set (split_tokens n seen) then Refused (- EINVAL) msg_error else Accepted h pkg, rest)
    \<and> package_path pkg = Some p \<and> package_data pkg = (if sm_type h = msg_write then Some data else None)
    \<and> package_tokens pkg = (if server then Some seen else None)"
proof -
  let ?w = "sm_type h = msg_write" and ?len = "length p + 1 + length data"
  let ?spare = "if ?w \<or> tags \<noteq> [] then [None, None] else [Some 0, None]"
  let ?msg = "map Some ((p @ [0]) @ data @ seen) @ ?spare"
  have payload: "sint (sm_payload h) = int ?len" using assms(1,6) sint_of_small [of ?len] by simp
  have n: "n < 0x10000" if server using assms(5,6) that by simp
  have ver: "isServermessage (sm_version h) = server" "server \<Longrightarrow> Servertokens (sm_version h) = n"
    using assms(3) server_version [OF n] by (auto simp: MakeServermessage_def)
  have split: "split_payload h (map Some ((p @ [0]) @ data @ tags) @ [None, None]) = Some (Inr (?msg, if ?w then Some (length p + 1) else None))"
    unfolding seen_def by (rule split_terminated [OF payload assms(2)])
  have size: "?w \<Longrightarrow> unat (scast (sm_size h) :: 64 word) = length data" using scast_size assms(2) by simp
  have lens: "length seen = length tags" by (simp add: seen_def)
  have at_tags: "drop ?len ?msg = map Some seen @ ?spare" by simp
  have tok: "own_token mine ?msg ?len n = Some (mine \<in> set (split_tokens n seen))" if server
    using own_token_split [OF at_tags] that assms(5) lens by simp
  have tags: "blk_load ?len (16 * n) ?msg = Some seen" if server
    using blk_load_at [OF at_tags] that assms(5) lens by simp
  have "drop (length p + 1) ?msg = map Some data @ map Some seen @ ?spare" by simp
  from blk_load_at [OF this] have data: "blk_load (length p + 1) (length data) ?msg = Some data" by simp
  let ?pkg = "\<lparr>sp_msg = ?msg, sp_path = True, sp_data = (if ?w then Some (length p + 1) else None),
     sp_datasize = (if ?w then length data else 0), sp_tokenstring = (if server then Some ?len else None),
     sp_tokens = (if server then n else 0)\<rparr>"
  have arrives: "FromClient mine True (put_server_msg h @ (p @ [0]) @ data @ tags @ rest) =
      Some (if server \<and> mine \<in> set (split_tokens n seen) then Refused (- EINVAL) msg_error else Accepted h ?pkg, rest)"
    (is "_ = Some (if server \<and> ?own then _ else _, _)")
  proof (rule FromClient_sized [OF _ payload _ ver _ _ split])
    show "own_token mine ?msg ?len (if server then n else 0) = Some (server \<and> ?own)"
      using tok by simp
  qed (use assms(5,6) size in simp_all)
  have "package_path ?pkg = Some p"
    using takeWhile_terminated [OF assms(7), of "data @ seen" ?spare] by (simp add: package_path_def)
  moreover have "package_data ?pkg = (if ?w then Some data else None)" using data by (cases ?w) (simp_all add: package_data_def)
  moreover have "package_tokens ?pkg = (if server then Some seen else None)" using tags by (simp add: package_tokens_def)
  ultimately show ?thesis using arrives by blast
qed

lemma request_arrives:
  assumes "WriteToServer server token writev sm sp = (ret, sm', Some bytes)" and "op_path sp = Some p" and "0 \<notin> set p"
    and "if sm_type sm = msg_write then sint (sm_size sm) = int (length (out_data sp)) else out_data sp = []"
    and "length token = 16" and "length (op_tokenstring sp) = 16 * op_tokens sp"
    and "length p + 1 + length (out_data sp) + 16 * (op_tokens sp + 1) \<le> 100050"
  shows "let n = op_tokens sp + 1; write = (sm_type sm = msg_write);
             seen = seen_tags write (if server then op_tokenstring sp @ token else [])
         in \<exists>h pkg. FromClient mine True (bytes @ rest) =
              Some (if server \<and> mine \<in> set (split_tokens n seen) then Refused (- EINVAL) msg_error else Accepted h pkg, rest)
            \<and> sm_type h = sm_type sm \<and> sm_size h = sm_size sm \<and> sm_offset h = sm_offset sm \<and> sm_control_flags h = sm_control_flags sm
            \<and> package_path pkg = Some p \<and> package_data pkg = (if write then Some (out_data sp) else None)
            \<and> package_tokens pkg = (if server then Some seen else None)"
proof -
  let ?tags = "if server then op_tokenstring sp @ token else []"
  let ?h = "sm'\<lparr>sm_payload := of_nat (length p + 1 + length (out_data sp))\<rparr>"
  have sm': "sm' = sm\<lparr>sm_version := if server then MakeServermessage OR of_nat (op_tokens sp + 1) else 0\<rparr>"
    and bytes: "bytes = put_server_msg ?h @ (p @ [0]) @ out_data sp @ ?tags"
    using assms(1,2,6)
    by (auto simp: WriteToServer_def Let_def out_path_def sizeof_antiloop_def ac_simps split: if_splits)
  have "\<exists>pkg. FromClient mine True (put_server_msg ?h @ (p @ [0]) @ out_data sp @ ?tags @ rest) =
      Some (if server \<and> mine \<in> set (split_tokens (op_tokens sp + 1) (seen_tags (sm_type ?h = msg_write) ?tags))
        then Refused (- EINVAL) msg_error else Accepted ?h pkg, rest)
    \<and> package_path pkg = Some p \<and> package_data pkg = (if sm_type ?h = msg_write then Some (out_data sp) else None)
    \<and> package_tokens pkg = (if server then Some (seen_tags (sm_type ?h = msg_write) ?tags) else None)"
    by (rule FromClient_terminated) (use assms(3-7) in \<open>auto simp: sm'\<close>)
  moreover have same: "sm_type ?h = sm_type sm" "sm_size ?h = sm_size sm" "sm_offset ?h = sm_offset sm"
      "sm_control_flags ?h = sm_control_flags sm"
    by (simp_all add: sm')
  ultimately obtain pkg where "FromClient mine True (put_server_msg ?h @ (p @ [0]) @ out_data sp @ ?tags @ rest) =
      Some (if server \<and> mine \<in> set (split_tokens (op_tokens sp + 1) (seen_tags (sm_type sm = msg_write) ?tags))
        then Refused (- EINVAL) msg_error else Accepted ?h pkg, rest)"
      "package_path pkg = Some p" "package_data pkg = (if sm_type sm = msg_write then Some (out_data sp) else None)"
      "package_tokens pkg = (if server then Some (seen_tags (sm_type sm = msg_write) ?tags) else None)"
    unfolding same by blast
  then show ?thesis
    unfolding Let_def bytes append_assoc by (intro exI [of _ ?h] exI [of _ pkg] conjI same) assumption+
qed

lemma split_tokens_at: "i < n \<Longrightarrow> split_tokens n ts ! i = take 16 (drop (16 * i) ts)"
  by (simp add: split_tokens_def)

text \<open>What the receiver sees of the tags: all of them, but for the first byte of the first one unless the message is a write.\<close>

lemma split_tokens_seen:
  assumes "ts \<noteq> []"
  shows "set (split_tokens (Suc k) (seen_tags write ts)) =
    (if write then set (split_tokens (Suc k) ts)
     else insert ((hd (split_tokens (Suc k) ts))[0 := 0]) (set (tl (split_tokens (Suc k) ts))))"
proof -
  obtain c cs where "ts = c # cs" using assms by (cases ts) auto
  then show ?thesis by (simp add: split_tokens_Suc seen_tags_def take_Cons' drop_Cons')
qed

lemma skip_delays_msg:
  "skip_delays (put_client_msg cm @ r) =
     (if sint (cm_payload cm) < 0 then skip_delays r
      else Some (cm\<lparr>cm_version := UT_uint32 (htonl (cm_version cm))\<rparr>, r))"
  by (subst skip_delays.simps) (simp add: sizeof_server_msg_def get_put_client_msg Let_def)

lemma skip_pings: "skip_delays (concat (replicate k (put_client_msg ping_cm)) @ r) = skip_delays r"
  by (induction k) (simp_all add: skip_delays_msg, simp add: ping_cm_def)

section \<open>Properties\<close>

text \<open>
  C21: a request arrives as it was sent. What \<^verbatim>\<open>WriteToServer\<close> puts on the connection, \<^verbatim>\<open>FromClient\<close> takes off it
  and nothing more: type, size, offset and flags, the path, the data of a write, and the tokens of the servers
  passed so far with that of the sender at the end, the first byte of the first token replaced by zero unless
  the message is a write. The message is refused exactly when the receiver finds its own token among them.
\<close>
theorem request_roundtrip:
  assumes "WriteToServer server token writev sm sp = (ret, sm', Some bytes)" and "op_path sp = Some p" and "0 \<notin> set p"
    and "if sm_type sm = msg_write then sint (sm_size sm) = int (length (out_data sp)) else out_data sp = []"
    and "length token = 16" and "length (op_tokenstring sp) = 16 * op_tokens sp"
    and "length p + 1 + length (out_data sp) + 16 * (op_tokens sp + 1) \<le> 100050"
  shows "let n = op_tokens sp + 1; write = (sm_type sm = msg_write);
             seen = seen_tags write (if server then op_tokenstring sp @ token else [])
         in \<exists>h pkg. FromClient mine True (bytes @ rest) =
              Some (if server \<and> mine \<in> set (split_tokens n seen) then Refused (- EINVAL) msg_error else Accepted h pkg, rest)
            \<and> sm_type h = sm_type sm \<and> sm_size h = sm_size sm \<and> sm_offset h = sm_offset sm \<and> sm_control_flags h = sm_control_flags sm
            \<and> package_path pkg = Some p \<and> package_data pkg = (if write then Some (out_data sp) else None)
            \<and> package_tokens pkg = (if server then Some seen else None)"
  by (rule request_arrives [OF assms])

theorem request_roundtrip_witness:
  "\<exists>h pkg. FromClient (replicate 16 7) True (the (snd (snd (WriteToServer False (replicate 16 7) (\<lambda>b. int (length b))
       \<lparr>sm_version = 0, sm_payload = 0, sm_type = msg_write, sm_control_flags = 0, sm_size = 2, sm_offset = 0\<rparr>
       \<lparr>op_path = Some [47, 120], op_data = Some [1, 2], op_datasize = 2, op_tokenstring = [], op_tokens = 0\<rparr>))) @ [9])
     = Some (Accepted h pkg, [9]) \<and> package_path pkg = Some [47, 120] \<and> package_data pkg = Some [1, 2]"
proof -
  let ?sm = "\<lparr>sm_version = 0, sm_payload = 0, sm_type = msg_write, sm_control_flags = 0, sm_size = 2, sm_offset = 0\<rparr>"
  let ?sp = "\<lparr>op_path = Some [47, 120], op_data = Some [1, 2], op_datasize = 2, op_tokenstring = [], op_tokens = 0\<rparr>"
  let ?w = "WriteToServer False (replicate 16 7) (\<lambda>b. int (length b)) ?sm ?sp"
  have "?w = (fst ?w, fst (snd ?w), Some (the (snd (snd ?w))))" by (simp add: WriteToServer_def Let_def)
  from request_roundtrip [OF this, of "[47, 120]" "replicate 16 7" "[9]"] show ?thesis
    by (auto simp: out_data_def Let_def simp del: replicate.simps)
qed

text \<open>
  C24: loop suppression. A server refuses a message from another server that carries its own tag anywhere behind the first
  tag, whoever put the others there, and a write also when its own tag is the first. In a message that is not a
  write the terminator written after the path destroys the first byte of the first tag: there the message is refused only
  when the own tag is the first tag with that byte set to zero. Every other message is accepted.
\<close>
theorem loop_suppression:
  fixes sp token
  defines "tags \<equiv> split_tokens (op_tokens sp + 1) (op_tokenstring sp @ token)"
  assumes "WriteToServer True token writev sm sp = (ret, sm', Some bytes)" and "op_path sp = Some p" and "0 \<notin> set p"
    and "if sm_type sm = msg_write then sint (sm_size sm) = int (length (out_data sp)) else out_data sp = []"
    and "length token = 16" and "length (op_tokenstring sp) = 16 * op_tokens sp"
    and "length p + 1 + length (out_data sp) + 16 * (op_tokens sp + 1) \<le> 100050"
  shows "if mine \<in> set (tl tags) \<or> mine = (if sm_type sm = msg_write then hd tags else (hd tags)[0 := 0])
         then FromClient mine True (bytes @ rest) = Some (Refused (- EINVAL) msg_error, rest)
         else \<exists>h pkg. FromClient mine True (bytes @ rest) = Some (Accepted h pkg, rest)"
proof -
  let ?w = "sm_type sm = msg_write"
  let ?seen = "seen_tags ?w (op_tokenstring sp @ token)"
  obtain h pkg where r: "FromClient mine True (bytes @ rest) =
      Some (if mine \<in> set (split_tokens (op_tokens sp + 1) ?seen) then Refused (- EINVAL) msg_error else Accepted h pkg, rest)"
    using request_arrives [OF assms(2-8), of mine rest] by (auto simp: Let_def)
  have ne: "op_tokenstring sp @ token \<noteq> []" "tags \<noteq> []" using assms(6) by (auto simp: tags_def split_tokens_def)
  have "set (split_tokens (op_tokens sp + 1) ?seen) = insert (if ?w then hd tags else (hd tags)[0 := 0]) (set (tl tags))"
    using split_tokens_seen [OF ne(1), of "op_tokens sp" ?w] ne(2) by (cases tags) (auto simp: tags_def)
  then show ?thesis using r by auto
qed

text \<open>The receiver is the second of three servers on the way.\<close>

theorem loop_suppression_witness:
  "FromClient (replicate 16 9) True (the (snd (snd (WriteToServer True (replicate 16 7) (\<lambda>b. int (length b))
       \<lparr>sm_version = 0, sm_payload = 0, sm_type = msg_read, sm_control_flags = 0, sm_size = 2, sm_offset = 0\<rparr>
       \<lparr>op_path = Some [47, 120], op_data = None, op_datasize = 0, op_tokenstring = replicate 16 8 @ replicate 16 9, op_tokens = 2\<rparr>))) @ [])
     = Some (Refused (- EINVAL) msg_error, [])"
proof -
  let ?sm = "\<lparr>sm_version = 0, sm_payload = 0, sm_type = msg_read, sm_control_flags = 0, sm_size = 2, sm_offset = 0\<rparr>"
  let ?sp = "\<lparr>op_path = Some [47, 120], op_data = None, op_datasize = 0, op_tokenstring = replicate 16 8 @ replicate 16 9, op_tokens = 2\<rparr>"
  let ?w = "WriteToServer True (replicate 16 7) (\<lambda>b. int (length b)) ?sm ?sp"
  have w: "?w = (fst ?w, fst (snd ?w), Some (the (snd (snd ?w))))" by (simp add: WriteToServer_def Let_def)
  have "replicate 16 9 \<in> set (tl (split_tokens (op_tokens ?sp + 1) (op_tokenstring ?sp @ replicate 16 7)))"
    by (simp add: split_tokens_def upt_rec)
  then show ?thesis
    using loop_suppression [OF w, of "[47, 120]" "replicate 16 9" "[]"]
    by (simp add: out_data_def msg_read_def msg_write_def del: replicate.simps)
qed

text \<open>
  An answer arrives as it was sent. After any number of delay messages, the client takes the header and the
  data that \<^verbatim>\<open>ToClient\<close> put on the connection, and leaves what follows; the allocating version adds a zero.
\<close>
theorem response_roundtrip:
  assumes "sint (cm_payload cm) = int (length d)" and "0 < length d" and "length d \<le> size'"
    and "length d \<le> 100050" and "0 \<le> sint (cm_ret cm)"
  shows "let stream = concat (replicate k (snd (ToClient writev ping_cm None))) @ snd (ToClient writev' cm (Some d)) @ rest;
             cm' = cm\<lparr>cm_version := UT_uint32 (htonl (cm_version cm))\<rparr>
         in From_Server size' stream = (int (length d), Some cm', d, rest, False)
          \<and> From_ServerAlloc True stream = (Some (d @ [0]), cm', rest)"
proof -
  let ?pings = "concat (replicate k (put_client_msg ping_cm))"
  have "snd (ToClient writev ping_cm None) = put_client_msg ping_cm" by (simp add: ToClient_def Let_def)
  moreover have "snd (ToClient writev' cm (Some d)) = put_client_msg cm @ d" using assms(1,2) by (simp add: ToClient_def Let_def)
  moreover have "skip_delays (?pings @ put_client_msg cm @ d @ rest) = Some (cm\<lparr>cm_version := UT_uint32 (htonl (cm_version cm))\<rparr>, d @ rest)"
    using assms(1) by (simp add: skip_pings skip_delays_msg)
  ultimately show ?thesis
    using assms by (simp add: From_Server_def From_ServerAlloc_def Let_def MAX_OWSERVER_PROTOCOL_PAYLOAD_SIZE_def)
qed

theorem response_roundtrip_witness:
  "From_Server 10 (concat (replicate 3 (snd (ToClient (\<lambda>b. 0) ping_cm None))) @
     snd (ToClient (\<lambda>b. 0) (ping_cm\<lparr>cm_payload := 2\<rparr>) (Some [5, 6])) @ [1])
   = (2, Some (ping_cm\<lparr>cm_payload := 2\<rparr>), [5, 6], [1], False)"
  using response_roundtrip [of "ping_cm\<lparr>cm_payload := 2\<rparr>" "[5, 6]" 10 3 "\<lambda>b. 0" "\<lambda>b. 0" "[1]"]
  by (simp add: ping_cm_def htonl_def UT_uint32_def Let_def numeral_3_eq_3)

end
