(* ===== verification/OW_Persist.thy ===== *)
theory OW_Persist
  imports OW_Message OW_Values
begin

text \<open>
  Persistent connections. The client (\<^verbatim>\<open>ow_server_message.c\<close>) keeps one connection to a server open between
  requests and hands it from one request to the next; the server (\<^verbatim>\<open>handler.c\<close>) counts the connections it
  keeps open for clients. The handlers of the server run concurrently and share the count: they are a step
  relation here.
\<close>

section \<open>The client\<close>

text \<open>The descriptor kept with the port: none, in use by some request, or idle.\<close>

datatype port_descriptor = FILE_DESCRIPTOR_BAD | FILE_DESCRIPTOR_PERSISTENT_IN_USE | Idle int

text \<open>\<open>open_fds\<close> are the descriptors that are open, \<open>connects\<close> the calls of \<^verbatim>\<open>ClientConnect\<close> so far.\<close>

record client_port =
  pown_fd :: port_descriptor
  open_fds :: "int list"
  connects :: nat

record server_connection_state =
  scs_fd :: "int option"
  persistent_yes :: bool

text \<open>What the outside does: the result of the n-th connection attempt, whether the peeking read finds the connection
  closed (or fails), and what the system call of \<^verbatim>\<open>WriteToServer\<close> returns the first and the second time.\<close>

record client_env =
  connect :: "nat \<Rightarrow> int option"
  found_closed :: bool
  writev1 :: "byte list \<Rightarrow> int"
  writev2 :: "byte list \<Rightarrow> int"

text \<open>The settings of the program: whether it is itself a server, its tag, and \<^verbatim>\<open>Globals.no_persistence\<close>.\<close>

record client_prog =
  cl_server :: bool
  cl_token :: "byte list"
  cl_no_persistence :: bool

text \<open>What the requests use of the name of a file or directory. \<open>rn_format\<close>: the format of the selected property, if there is one.\<close>

record remote_name =
  rn_path_to_server :: "byte list option"
  rn_tokenstring :: "byte list"
  rn_tokens :: nat
  rn_control_flags :: int32
  rn_SpecifiedBus :: bool
  rn_SpecifiedRemoteBus :: bool
  rn_format :: "ft_format option"

definition ClientConnect :: "client_env \<Rightarrow> client_port \<Rightarrow> int option \<times> client_port" where
  "ClientConnect env p =
     (let r = connect env (connects p) in
      (r, p\<lparr>connects := Suc (connects p), open_fds := (case r of None \<Rightarrow> open_fds p | Some fd \<Rightarrow> fd # open_fds p)\<rparr>))"

definition Close_Persistent :: "server_connection_state \<times> client_port \<Rightarrow> server_connection_state \<times> client_port" where
  "Close_Persistent sp =
     (case sp of (scs, p) \<Rightarrow>
        let p = (if persistent_yes scs then p\<lparr>pown_fd := FILE_DESCRIPTOR_BAD\<rparr> else p);
            p = (case scs_fd scs of None \<Rightarrow> p | Some fd \<Rightarrow> p\<lparr>open_fds := remove1 fd (open_fds p)\<rparr>)
        in (\<lparr>scs_fd = None, persistent_yes = False\<rparr>, p))"

text \<open>The choice of a descriptor.\<close>

definition choose_connection :: "client_env \<Rightarrow> bool \<Rightarrow> client_port \<Rightarrow> server_connection_state \<times> client_port" where
  "choose_connection env no_persistence p =
     (if no_persistence then
        (case ClientConnect env p of (fd, p) \<Rightarrow> (\<lparr>scs_fd = fd, persistent_yes = False\<rparr>, p))
      else
        (case pown_fd p of
           FILE_DESCRIPTOR_PERSISTENT_IN_USE \<Rightarrow>
             (case ClientConnect env p of (fd, p) \<Rightarrow> (\<lparr>scs_fd = fd, persistent_yes = False\<rparr>, p))
         | FILE_DESCRIPTOR_BAD \<Rightarrow>
             (case ClientConnect env p of (fd, p) \<Rightarrow>
                (\<lparr>scs_fd = fd, persistent_yes = True\<rparr>,
                 if fd = None then p else p\<lparr>pown_fd := FILE_DESCRIPTOR_PERSISTENT_IN_USE\<rparr>))
         | Idle fd \<Rightarrow>
             (\<lparr>scs_fd = Some fd, persistent_yes = True\<rparr>, p\<lparr>pown_fd := FILE_DESCRIPTOR_PERSISTENT_IN_USE\<rparr>)))"

text \<open>The test of the connection and the reconnection. A missing descriptor fails the test.\<close>

definition test_connection ::
  "client_env \<Rightarrow> server_connection_state \<times> client_port \<Rightarrow> server_connection_state \<times> client_port" where
  "test_connection env sp =
     (if scs_fd (fst sp) = None \<or> found_closed env then
        (case Close_Persistent sp of (scs, p) \<Rightarrow>
           (case ClientConnect env p of (fd, p) \<Rightarrow>
              (scs\<lparr>scs_fd := fd\<rparr>, if fd = None then p else p\<lparr>pown_fd := FILE_DESCRIPTOR_PERSISTENT_IN_USE\<rparr>)))
      else sp)"

definition To_Server ::
  "client_env \<Rightarrow> client_prog \<Rightarrow> server_msg \<Rightarrow> out_package \<Rightarrow> client_port \<Rightarrow> GOOD_OR_BAD \<times> server_connection_state \<times> client_port" where
  "To_Server env cl sm sp p =
     (case test_connection env (choose_connection env (cl_no_persistence cl) p) of (scs, p) \<Rightarrow>
        if scs_fd scs = None then (gbBAD, Close_Persistent (scs, p))
        else
          (case WriteToServer (cl_server cl) (cl_token cl) (writev1 env) sm sp of (written, sm, _) \<Rightarrow>
            if written \<ge> 0 then (gbGOOD, scs, p)
            else if \<not> persistent_yes scs then (gbBAD, Close_Persistent (scs, p))
            else
              (case ClientConnect env p of (fd, p) \<Rightarrow>
                 let scs = scs\<lparr>scs_fd := fd\<rparr> in
                 if fd = None then (gbBAD, Close_Persistent (scs, p))
                 else if fst (WriteToServer (cl_server cl) (cl_token cl) (writev2 env) sm sp) \<ge> 0 then (gbGOOD, scs, p)
                 else (gbBAD, Close_Persistent (scs, p)))))"

definition Release_Persistent :: "bool \<Rightarrow> server_connection_state \<times> client_port \<Rightarrow> server_connection_state \<times> client_port" where
  "Release_Persistent granted sp =
     (case sp of (scs, p) \<Rightarrow>
        if \<not> granted then Close_Persistent (scs, p)
        else if scs_fd scs = None then Close_Persistent (scs, p)
        else if \<not> persistent_yes scs then Close_Persistent (scs, p)
        else (\<lparr>scs_fd = None, persistent_yes = False\<rparr>, p\<lparr>pown_fd := Idle (the (scs_fd scs))\<rparr>))"

definition PERSISTENT_MASK :: int32 where "PERSISTENT_MASK = 4"
definition ALIAS_REQUEST :: int32 where "ALIAS_REQUEST = 8"
definition SHOULD_RETURN_BUS_LIST :: int32 where "SHOULD_RETURN_BUS_LIST = 2"

text \<open>The flags of a request: persistence is asked for, aliases are not, and a list of buses when the path names one.\<close>

definition SetupControlFlags :: "client_prog \<Rightarrow> remote_name \<Rightarrow> int32" where
  "SetupControlFlags cl pn =
     (let f = rn_control_flags pn AND NOT PERSISTENT_MASK; f = (if cl_no_persistence cl then f else f OR PERSISTENT_MASK);
          f = f AND NOT ALIAS_REQUEST; f = f AND NOT SHOULD_RETURN_BUS_LIST
      in if rn_SpecifiedBus pn then f OR SHOULD_RETURN_BUS_LIST else f)"

text \<open>The message and the package as each of the requests makes them.\<close>

definition request_msg :: "client_prog \<Rightarrow> remote_name \<Rightarrow> int32 \<Rightarrow> nat \<Rightarrow> int \<Rightarrow> server_msg" where
  "request_msg cl pn msg_type size' offset =
     \<lparr>sm_version = 0, sm_payload = 0, sm_type = msg_type, sm_control_flags = SetupControlFlags cl pn,
      sm_size = of_nat size', sm_offset = word_of_int offset\<rparr>"

definition request_package :: "remote_name \<Rightarrow> byte list option \<Rightarrow> nat \<Rightarrow> out_package" where
  "request_package pn data n =
     \<lparr>op_path = rn_path_to_server pn, op_data = data, op_datasize = n, op_tokenstring = rn_tokenstring pn, op_tokens = rn_tokens pn\<rparr>"

text \<open>
  What comes back: \<open>server\<close> gives the stream that a server answers with on the connection to the bytes it gets. The bytes do not depend
  on the result of the system call.
\<close>

definition request_bytes :: "client_prog \<Rightarrow> server_msg \<Rightarrow> out_package \<Rightarrow> byte list" where
  "request_bytes cl sm sp = (case snd (snd (WriteToServer (cl_server cl) (cl_token cl) (\<lambda>_. 0) sm sp)) of None \<Rightarrow> [] | Some bytes \<Rightarrow> bytes)"

text \<open>The alias of a device as this program knows it.\<close>

definition FS_r_alias :: "bool \<Rightarrow> cache_data \<Rightarrow> one_wire_query \<Rightarrow> (int \<times> one_wire_query) option" where
  "FS_r_alias mok c owq =
     (case Cache_Get_Alias mok (cp_sn (owq_pn owq)) c of
        Some alias_name \<Rightarrow> OWQ_format_output_offset_and_size_z alias_name owq
      | None \<Rightarrow> OWQ_format_output_offset_and_size_z [] owq)"

text \<open>
  Reading. An alias is read from this program unless a bus of the server is named. \<open>c\<close> and \<open>mok\<close> are the cache and the memory for the
  alias. The result is the return value, the query with what was read in its buffer, and the port; \<^const>\<open>None\<close> is a write outside of the buffer.
\<close>

definition ServerRead ::
  "client_env \<Rightarrow> client_prog \<Rightarrow> bool \<times> cache_data \<Rightarrow> remote_name \<Rightarrow> (byte list \<Rightarrow> byte list) \<Rightarrow> one_wire_query \<Rightarrow> client_port \<Rightarrow>
     (int \<times> one_wire_query \<times> client_port) option" where
  "ServerRead env cl mc pn server owq p =
     (let sm = request_msg cl pn msg_read (owq_size owq) (owq_offset owq); sp = request_package pn None 0 in
      if rn_format pn = Some ft_alias \<and> \<not> rn_SpecifiedRemoteBus pn then
        map_option (\<lambda>(_, owq). (int (owq_length owq), owq, p)) (FS_r_alias (fst mc) (snd mc) owq)
      else
        (case To_Server env cl sm sp p of (ret, scs, p) \<Rightarrow>
           if BAD ret then Some (- EIO, owq, snd (Release_Persistent False (scs, p)))
           else
             (case From_Server (owq_size owq) (server (request_bytes cl sm sp)) of (n, cm, data, rest, closed) \<Rightarrow>
                let sp = (if closed then Close_Persistent (scs, p) else (scs, p)) in
                map_option (\<lambda>b. let owq = owq\<lparr>owq_buffer := b\<rparr> in
                    if n < 0 then (- EIO, owq, snd (Release_Persistent False sp))
                    else (case cm of
                            None \<Rightarrow> (- EIO, owq, snd (Release_Persistent False sp))
                          | Some cm \<Rightarrow>
                              (sint (cm_ret cm), owq, snd (Release_Persistent (cm_control_flags cm AND PERSISTENT_MASK \<noteq> 0) sp))))
                  (blk_store 0 data (owq_buffer owq)))))"

section \<open>The server\<close>

record server_globals =
  no_persistence :: bool
  clients_persistent_low :: int
  clients_persistent_high :: int

text \<open>A handler is reading a request, serving it, waiting the short or the long time for the next one, on its way
  out, or gone.\<close>

datatype handler_phase = Reading | Serving | Waiting_low | Waiting_high | Leaving | Gone

record handler =
  phase :: handler_phase
  persistent :: bool
  loop_persistent :: bool
  hd_persistent :: bool

definition new_handler :: handler where
  "new_handler = \<lparr>phase = Reading, persistent = False, loop_persistent = False, hd_persistent = False\<rparr>"

text \<open>What can happen to a handler: a request with or without the wish for persistence, a failed read, the end
  of the service, data or a timeout while waiting.\<close>

datatype handler_event = Request bool | No_request | Served | Data | Timeout | Exit

text \<open>The critical sections are single steps on the handler and the count \<^verbatim>\<open>persistent_connections\<close>.
  \<^const>\<open>None\<close>: the event does not fit the phase.\<close>

definition request_persistence :: "server_globals \<Rightarrow> bool \<Rightarrow> handler \<Rightarrow> int \<Rightarrow> handler \<times> int" where
  "request_persistence g wish h held_now =
     (let wish = (wish \<and> \<not> no_persistence g) in
      if wish then
        if persistent h then (h\<lparr>loop_persistent := True, hd_persistent := True\<rparr>, held_now)
        else if held_now < clients_persistent_high g
        then (h\<lparr>loop_persistent := True, persistent := True, hd_persistent := True\<rparr>, held_now + 1)
        else (h\<lparr>loop_persistent := False, hd_persistent := False\<rparr>, held_now)
      else (h\<lparr>loop_persistent := False, hd_persistent := False\<rparr>, held_now))"

fun Handler :: "server_globals \<Rightarrow> handler_event \<Rightarrow> handler_phase \<Rightarrow> handler \<Rightarrow> int \<Rightarrow> (handler \<times> int) option" where
  "Handler g No_request Reading h held_now = Some (h\<lparr>phase := Leaving\<rparr>, held_now)"
| "Handler g (Request wish) Reading h held_now =
     (case request_persistence g wish h held_now of (h, held_now) \<Rightarrow> Some (h\<lparr>phase := Serving\<rparr>, held_now))"
| "Handler g Served Serving h held_now = Some (h\<lparr>phase := (if loop_persistent h then Waiting_low else Leaving)\<rparr>, held_now)"
| "Handler g Data Waiting_low h held_now = Some (h\<lparr>phase := Reading\<rparr>, held_now)"
| "Handler g Timeout Waiting_low h held_now =
     (let stay = (held_now < clients_persistent_low g) in
      Some (h\<lparr>loop_persistent := stay, phase := (if stay then Waiting_high else Leaving)\<rparr>, held_now))"
| "Handler g Data Waiting_high h held_now = Some (h\<lparr>phase := Reading\<rparr>, held_now)"
| "Handler g Timeout Waiting_high h held_now = Some (h\<lparr>phase := Leaving\<rparr>, held_now)"
| "Handler g Exit Leaving h held_now = Some (h\<lparr>phase := Gone\<rparr>, if persistent h then held_now - 1 else held_now)"
| "Handler g _ _ h held_now = None"

text \<open>Any number of handlers; at each step one is added or one moves.\<close>

inductive server_step :: "server_globals \<Rightarrow> handler list \<times> int \<Rightarrow> handler list \<times> int \<Rightarrow> bool" for g where
  arrive: "server_step g (hs, held_now) (hs @ [new_handler], held_now)"
| move: "i < length hs \<Longrightarrow> Handler g ev (phase (hs ! i)) (hs ! i) held_now = Some (h', held_now') \<Longrightarrow>
    server_step g (hs, held_now) (hs[i := h'], held_now')"

inductive server_reaches :: "server_globals \<Rightarrow> handler list \<times> int \<Rightarrow> bool" for g where
  start: "server_reaches g ([], 0)"
| step: "server_reaches g s \<Longrightarrow> server_step g s s' \<Longrightarrow> server_reaches g s'"

section \<open>Lemmas\<close>

text \<open>The connections that are held.\<close>

definition holds_one :: "handler \<Rightarrow> bool" where
  "holds_one h \<longleftrightarrow> persistent h \<and> phase h \<noteq> Gone"

definition held :: "handler list \<Rightarrow> int" where
  "held hs = int (length (filter holds_one hs))"

lemma held_simps [simp]:
  "held [] = 0" "held (h # hs) = (if holds_one h then 1 else 0) + held hs" "held (hs @ hs') = held hs + held hs'"
  by (simp_all add: held_def)

lemma held_nonneg: "0 \<le> held hs"
  by (simp add: held_def)

lemma held_update:
  assumes "i < length hs"
  shows "held (hs[i := h]) = held hs + (if holds_one h then 1 else 0) - (if holds_one (hs ! i) then 1 else 0)"
proof -
  have "held hs = held (take i hs @ hs ! i # drop (Suc i) hs)" using id_take_nth_drop [OF assms] by simp
  then show ?thesis using assms by (simp add: upd_conv_take_nth_drop del: append_take_drop_id)
qed

text \<open>What one event does to the count, and that it changes by what the handler holds.\<close>

lemma Handler_count:
  assumes "Handler g ev (phase h) h held_now = Some (h', held_now')"
  shows "held_now' - held_now = (if holds_one h' then 1 else 0) - (if holds_one h then 1 else 0)"
    and "held_now' \<le> held_now \<or> held_now' \<le> clients_persistent_high g"
  using assms
  by (cases ev; cases "phase h";
      auto simp: request_persistence_def holds_one_def Let_def split: if_splits)+

text \<open>Once a port says its connection is in use and no request owns it, it stays so.\<close>

definition stuck :: "server_connection_state \<times> client_port \<Rightarrow> bool" where
  "stuck sp \<longleftrightarrow> \<not> persistent_yes (fst sp) \<and> pown_fd (snd sp) = FILE_DESCRIPTOR_PERSISTENT_IN_USE"

lemma stuck_Close: "stuck sp \<Longrightarrow> stuck (Close_Persistent sp)"
  by (cases sp) (simp add: stuck_def Close_Persistent_def Let_def split: option.split)

lemma stuck_choose: "pown_fd p = FILE_DESCRIPTOR_PERSISTENT_IN_USE \<Longrightarrow> stuck (choose_connection env no_pers p)"
  by (simp add: stuck_def choose_connection_def ClientConnect_def Let_def)

lemma stuck_test:
  assumes "stuck sp"
  shows "stuck (test_connection env sp)"
proof (cases "scs_fd (fst sp) = None \<or> found_closed env")
  case True
  obtain scs p where c: "Close_Persistent sp = (scs, p)" by (cases "Close_Persistent sp")
  then have "stuck (scs, p)" using stuck_Close [OF assms] by simp
  then show ?thesis using True c by (simp add: stuck_def test_connection_def ClientConnect_def Let_def)
qed (use assms in \<open>auto simp: test_connection_def\<close>)

lemma stuck_To_Server:
  assumes "pown_fd p = FILE_DESCRIPTOR_PERSISTENT_IN_USE"
  shows "stuck (snd (To_Server env cl sm sp p))"
proof -
  obtain scs q where t: "test_connection env (choose_connection env (cl_no_persistence cl) p) = (scs, q)"
    by (cases "test_connection env (choose_connection env (cl_no_persistence cl) p)")
  then have st: "stuck (scs, q)" using stuck_test [OF stuck_choose [OF assms], of env env "cl_no_persistence cl"] by simp
  then show ?thesis using t stuck_Close [OF st] by (simp add: To_Server_def split: prod.splits) (simp add: stuck_def)
qed

lemma stuck_Release: "stuck sp \<Longrightarrow> stuck (Release_Persistent granted sp)"
  using stuck_Close [of sp] by (cases sp) (auto simp: Release_Persistent_def stuck_def)

text \<open>How many connections are made and which are open: what a request opens it closes, unless it owns the port.\<close>

lemma connects_simps [simp]:
  "connects (snd (Close_Persistent sp)) = connects (snd sp)" "connects (snd (Release_Persistent b sp)) = connects (snd sp)"
  by (cases sp; simp add: Close_Persistent_def Release_Persistent_def Let_def split: option.split)+

lemma test_connects: "connects (snd sp) \<le> connects (snd (test_connection env sp))"
proof -
  obtain scs p where c: "Close_Persistent sp = (scs, p)" by (cases "Close_Persistent sp")
  then have "connects p = connects (snd sp)" using connects_simps(1) [of sp] by simp
  then show ?thesis using c by (simp add: test_connection_def ClientConnect_def Let_def)
qed

lemma stuck_connects:
  assumes "pown_fd p = FILE_DESCRIPTOR_PERSISTENT_IN_USE"
  shows "connects p < connects (snd (snd (To_Server env cl sm sp p)))"
proof -
  have "connects (snd (choose_connection env (cl_no_persistence cl) p)) = Suc (connects p)"
    using assms by (simp add: choose_connection_def ClientConnect_def Let_def)
  then have "connects p < connects (snd (test_connection env (choose_connection env (cl_no_persistence cl) p)))"
    using test_connects [of "choose_connection env (cl_no_persistence cl) p" env] by linarith
  then show ?thesis
    by (auto simp: To_Server_def ClientConnect_def Let_def split: prod.splits)
qed

text \<open>A request that is sent over a port that is stuck.\<close>

lemma stuck_ServerRead:
  assumes "pown_fd p = FILE_DESCRIPTOR_PERSISTENT_IN_USE" and "rn_format pn \<noteq> Some ft_alias"
    and "ServerRead env cl mc pn server owq p = Some (ret, owq', p')"
  shows "pown_fd p' = FILE_DESCRIPTOR_PERSISTENT_IN_USE" and "connects p < connects p'"
proof -
  let ?sm = "request_msg cl pn msg_read (owq_size owq) (owq_offset owq)" and ?sp = "request_package pn None 0"
  obtain r scs q where t: "To_Server env cl ?sm ?sp p = (r, scs, q)" by (cases "To_Server env cl ?sm ?sp p")
  have st: "stuck (scs, q)" using stuck_To_Server [OF assms(1), of env cl ?sm ?sp] t by simp
  have rel: "pown_fd (snd (Release_Persistent b sp)) = FILE_DESCRIPTOR_PERSISTENT_IN_USE" if "stuck sp" for b sp
    using stuck_Release [OF that, of b] by (simp add: stuck_def)
  have "\<exists>b. p' = snd (Release_Persistent b (scs, q)) \<or> p' = snd (Release_Persistent b (Close_Persistent (scs, q)))"
    using assms(2,3) t by (auto simp: ServerRead_def Let_def split: if_splits prod.splits option.splits)
  then obtain b where p': "p' = snd (Release_Persistent b (scs, q)) \<or> p' = snd (Release_Persistent b (Close_Persistent (scs, q)))" by blast
  show "pown_fd p' = FILE_DESCRIPTOR_PERSISTENT_IN_USE" using p' rel [OF st] rel [OF stuck_Close [OF st]] by auto
  show "connects p < connects p'" using p' stuck_connects [OF assms(1), of env cl ?sm ?sp] t by auto
qed

text \<open>Requests one after the other, each with what the outside does; the port each of them leaves.\<close>

type_synonym later_request = "client_env \<times> client_prog \<times> (bool \<times> cache_data) \<times> remote_name \<times> (byte list \<Rightarrow> byte list) \<times> one_wire_query"

fun later_reads :: "later_request list \<Rightarrow> client_port \<Rightarrow> client_port list option" where
  "later_reads [] p = Some []"
| "later_reads ((env, cl, mc, pn, server, owq) # rs) p =
     Option.bind (ServerRead env cl mc pn server owq p) (\<lambda>(_, _, p'). map_option (Cons p') (later_reads rs p'))"

lemma stuck_later_reads:
  assumes "pown_fd p = FILE_DESCRIPTOR_PERSISTENT_IN_USE" and "\<forall>(env, cl, mc, pn, server, owq) \<in> set rs. rn_format pn \<noteq> Some ft_alias"
    and "later_reads rs p = Some ps"
  shows "(\<forall>p' \<in> set ps. pown_fd p' = FILE_DESCRIPTOR_PERSISTENT_IN_USE) \<and> sorted_wrt (<) (connects p # map connects ps)"
  using assms
proof (induction rs arbitrary: p ps)
  case (Cons r rs)
  obtain env cl mc pn server owq where r: "r = (env, cl, mc, pn, server, owq)" by (cases r)
  obtain ret owq' p' ps' where p': "ServerRead env cl mc pn server owq p = Some (ret, owq', p')" "later_reads rs p' = Some ps'" "ps = p' # ps'"
    using Cons.prems(3) by (auto simp: r bind_eq_Some_conv)
  note st = stuck_ServerRead [OF Cons.prems(1) _ p'(1)]
  show ?case using Cons.IH [OF st(1) _ p'(2)] st Cons.prems(2) p'(3) by (auto simp: r)
qed simp

lemma written_ok: "\<not> (server \<and> op_tokens sp = 0xFFFF) \<Longrightarrow> 0 \<le> fst (WriteToServer server token writev sm sp)"
  by (auto simp: WriteToServer_def Let_def)

section \<open>Properties\<close>

text \<open>
  C19: the count of persistent connections. Whatever handlers come and go and in whatever order they run, the
  shared count is the number of handlers that hold a persistent connection, it is never negative, and it never
  exceeds the limit; when all handlers are gone it is zero.
\<close>
theorem persistent_connections_counted:
  assumes "server_reaches g (hs, held_now)"
  shows "held_now = held hs \<and> 0 \<le> held_now \<and> held_now \<le> max 0 (clients_persistent_high g)
    \<and> ((\<forall>h \<in> set hs. phase h = Gone) \<longrightarrow> held_now = 0)"
proof -
  have "held_now = held hs \<and> held_now \<le> max 0 (clients_persistent_high g)"
    using assms
  proof (induction "(hs, held_now)" arbitrary: hs held_now rule: server_reaches.induct)
    case start
    then show ?case by simp
  next
    case (step s)
    obtain hs0 held_before where s: "s = (hs0, held_before)" by (cases s)
    have IH: "held_before = held hs0" "held_before \<le> max 0 (clients_persistent_high g)" using step.hyps(2) [OF s] by simp_all
    from step.hyps(3) [unfolded s] show ?case
    proof cases
      case arrive
      then show ?thesis using IH by (simp add: new_handler_def holds_one_def)
    next
      case (move i ev h')
      note held_now = Handler_count [OF move(3)]
      have "held_now = held hs" using held_now(1) held_update [OF move(2)] IH(1) move(1) by simp
      then show ?thesis using held_now(2) IH(2) by auto
    qed
  qed
  moreover have "held hs = 0" if "\<forall>h \<in> set hs. phase h = Gone"
    using that by (induction hs) (auto simp: holds_one_def)
  ultimately show ?thesis using held_nonneg [of hs] by auto
qed

theorem persistent_connections_counted_witness:
  "server_reaches \<lparr>no_persistence = False, clients_persistent_low = 10, clients_persistent_high = 20\<rparr>
     ([new_handler\<lparr>phase := Serving, persistent := True, loop_persistent := True, hd_persistent := True\<rparr>], 1)
   \<and> held [new_handler\<lparr>phase := Serving, persistent := True, loop_persistent := True, hd_persistent := True\<rparr>] = 1"
proof -
  let ?g = "\<lparr>no_persistence = False, clients_persistent_low = 10, clients_persistent_high = 20\<rparr>"
  let ?h = "new_handler\<lparr>phase := Serving, persistent := True, loop_persistent := True, hd_persistent := True\<rparr>"
  have "server_reaches ?g ([new_handler], 0)"
    using server_reaches.step [OF server_reaches.start server_step.arrive] by simp
  moreover have "server_step ?g ([new_handler], 0) ([new_handler][0 := ?h], 1)"
    by (rule server_step.move [where ev = "Request True"]) (simp_all add: new_handler_def request_persistence_def)
  ultimately have r: "server_reaches ?g ([?h], 1)" using server_reaches.step by fastforce
  then show ?thesis using persistent_connections_counted [OF r] by simp
qed

text \<open>
  A healthy persistent connection is handed on. After a read over a connection that the test finds alive and
  that the server agrees to keep, the connection is idle at the port, and the next request uses it without
  connecting again; nothing is opened or closed in between.
\<close>
lemma persistent_connection_reused:
  assumes "pown_fd p = FILE_DESCRIPTOR_BAD" and "connect env (connects p) = Some fd" and "\<not> found_closed env"
    and "\<not> cl_no_persistence cl" and "\<not> (cl_server cl \<and> rn_tokens pn = 0xFFFF)" and "rn_format pn \<noteq> Some ft_alias"
    and "From_Server (owq_size owq) (server (request_bytes cl (request_msg cl pn msg_read (owq_size owq) (owq_offset owq)) (request_package pn None 0)))
      = (n, Some cm, data, rest, False)"
    and "0 \<le> n" and "length data \<le> length (owq_buffer owq)" and "cm_control_flags cm AND PERSISTENT_MASK \<noteq> 0"
  shows "\<exists>owq' p'. ServerRead env cl mc pn server owq p = Some (sint (cm_ret cm), owq', p') \<and> pown_fd p' = Idle fd
    \<and> open_fds p' = fd # open_fds p
    \<and> fst (snd (To_Server env cl sm (request_package pn data' n') p')) = \<lparr>scs_fd = Some fd, persistent_yes = True\<rparr>
    \<and> snd (snd (To_Server env cl sm (request_package pn data' n') p')) = p'\<lparr>pown_fd := FILE_DESCRIPTOR_PERSISTENT_IN_USE\<rparr>"
  using assms written_ok [of "cl_server cl" "request_package pn None 0" "cl_token cl" "writev1 env" "request_msg cl pn msg_read (owq_size owq) (owq_offset owq)"]
    written_ok [of "cl_server cl" "request_package pn data' n'" "cl_token cl" "writev1 env" sm]
  by (simp add: ServerRead_def To_Server_def test_connection_def choose_connection_def ClientConnect_def Release_Persistent_def
      BAD_def Let_def blk_store_def request_package_def split_beta)

text \<open>
  C39: a stale persistent connection is lost for good. When the test finds the idle connection closed by the server
  and a new connection is made, the request succeeds, but afterwards the port says that its connection is in
  use while the connection has been closed. Whatever files are read later over this port, by whatever program settings and with
  whatever answers, each of these requests connects again and the port stays marked.
\<close>
theorem stale_connection_sticks:
  assumes "pown_fd p = Idle fd" and "open_fds p = [fd]" and "found_closed env" and "connect env (connects p) = Some fd'"
    and "fd' \<noteq> fd" and "\<not> cl_no_persistence cl" and "\<not> (cl_server cl \<and> rn_tokens pn = 0xFFFF)" and "rn_format pn \<noteq> Some ft_alias"
    and "From_Server (owq_size owq) (server (request_bytes cl (request_msg cl pn msg_read (owq_size owq) (owq_offset owq)) (request_package pn None 0)))
      = (n, Some cm, data, rest, False)"
    and "0 \<le> n" and "length data \<le> length (owq_buffer owq)"
  shows "\<exists>owq' p'. ServerRead env cl mc pn server owq p = Some (sint (cm_ret cm), owq', p')
    \<and> take (length data) (owq_buffer owq') = data
    \<and> pown_fd p' = FILE_DESCRIPTOR_PERSISTENT_IN_USE \<and> open_fds p' = []
    \<and> (\<forall>rs ps. (\<forall>(env, cl, mc, pn, server, owq) \<in> set rs. rn_format pn \<noteq> Some ft_alias) \<and> later_reads rs p' = Some ps \<longrightarrow>
         (\<forall>q \<in> set ps. pown_fd q = FILE_DESCRIPTOR_PERSISTENT_IN_USE) \<and> sorted_wrt (<) (connects p' # map connects ps))"
proof -
  let ?p = "p\<lparr>pown_fd := FILE_DESCRIPTOR_PERSISTENT_IN_USE, open_fds := [], connects := Suc (connects p)\<rparr>"
  have "ServerRead env cl mc pn server owq p = Some (sint (cm_ret cm), owq\<lparr>owq_buffer := data @ drop (length data) (owq_buffer owq)\<rparr>, ?p)"
    using assms written_ok [of "cl_server cl" "request_package pn None 0" "cl_token cl" "writev1 env" "request_msg cl pn msg_read (owq_size owq) (owq_offset owq)"]
    by (simp add: ServerRead_def To_Server_def test_connection_def choose_connection_def ClientConnect_def Release_Persistent_def
        Close_Persistent_def BAD_def Let_def blk_store_def request_package_def split_beta)
  then show ?thesis using stuck_later_reads [of ?p] by auto
qed

definition plain_name :: remote_name where
  "plain_name = \<lparr>rn_path_to_server = Some [47, 97], rn_tokenstring = [], rn_tokens = 0, rn_control_flags = 0, rn_SpecifiedBus = False,
     rn_SpecifiedRemoteBus = False, rn_format = None\<rparr>"

definition plain_program :: client_prog where
  "plain_program = \<lparr>cl_server = False, cl_token = replicate 16 7, cl_no_persistence = False\<rparr>"

definition plain_query :: "nat \<Rightarrow> one_wire_query" where
  "plain_query n = \<lparr>owq_buffer = replicate n 0, owq_size = n, owq_offset = 0, owq_val = replicate 8 0, owq_length = 0, owq_array = [], owq_simul = False,
     owq_pn = \<lparr>cp_sn = replicate 8 0, cp_filetype = \<lparr>ft_id = 0, ft_form = ft_integer, ft_change = fc_stable, ft_ag = None\<rparr>,
       cp_extension = 0, cp_alarm_dir = False, cp_uncached_dir = False, cp_connection = None, cp_bp = []\<rparr>\<rparr>"

theorem stale_connection_sticks_witness:
  "let env = \<lparr>connect = (\<lambda>n. Some (int n + 4)), found_closed = True, writev1 = (\<lambda>b. int (length b)), writev2 = (\<lambda>b. int (length b))\<rparr>;
       p = \<lparr>pown_fd = Idle 3, open_fds = [3], connects = 0\<rparr>;
       server = (\<lambda>_. put_client_msg (ping_cm\<lparr>cm_payload := 0, cm_control_flags := PERSISTENT_MASK\<rparr>))
   in \<exists>owq' p'. ServerRead env plain_program (True, zero_cache) plain_name server (plain_query 10) p = Some (0, owq', p')
        \<and> pown_fd p' = FILE_DESCRIPTOR_PERSISTENT_IN_USE"
proof -
  let ?env = "\<lparr>connect = (\<lambda>n. Some (int n + 4)), found_closed = True, writev1 = (\<lambda>b. int (length b)), writev2 = (\<lambda>b. int (length b))\<rparr>"
  let ?p = "\<lparr>pown_fd = Idle 3, open_fds = [3], connects = 0\<rparr>"
  let ?cm = "ping_cm\<lparr>cm_payload := 0, cm_control_flags := PERSISTENT_MASK\<rparr>"
  have "From_Server 10 (put_client_msg ?cm) = (0, Some (?cm\<lparr>cm_version := UT_uint32 (htonl (cm_version ?cm))\<rparr>), [], [], False)"
    using skip_delays_msg [of ?cm "[]"] by (simp add: From_Server_def)
  then show ?thesis
    using stale_connection_sticks [of ?p 3 ?env 4 plain_program plain_name "plain_query 10" "\<lambda>_. put_client_msg ?cm" 0
        "?cm\<lparr>cm_version := UT_uint32 (htonl (cm_version ?cm))\<rparr>" "[]" "[]" "(True, zero_cache)"]
    by (auto simp: plain_program_def plain_name_def plain_query_def ping_cm_def)
qed

end
