(* ===== verification/OW_Server.thy ===== *)
theory OW_Server
  imports OW_Persist OW_ParseName
begin

text \<open>
  What \<^verbatim>\<open>owserver\<close> does with a request it accepted: \<^verbatim>\<open>DataHandler\<close> of \<^verbatim>\<open>data.c\<close> with the handlers for reading, writing and the directories
  (\<^verbatim>\<open>read.c\<close>, \<^verbatim>\<open>write.c\<close>, \<^verbatim>\<open>dir.c\<close>, \<^verbatim>\<open>dirall.c\<close>, \<^verbatim>\<open>dirallslash.c\<close>, \<^verbatim>\<open>error.c\<close>), and the loop of \<^verbatim>\<open>loop.c\<close> that sends a delay message from time to time
  while the thread of \<^verbatim>\<open>DataHandler\<close> works.

  The functions of the library that a request leads to are the fields of a record: making a query from a path, reading, writing and listing. They work on
  the state of the program. A listing gives the paths it calls the function back with, and whether each is a directory.
\<close>

section \<open>Requests\<close>

definition msg_nop :: int32 where "msg_nop = 1"
definition msg_dir :: int32 where "msg_dir = 4"
definition msg_presence :: int32 where "msg_presence = 6"
definition msg_dirall :: int32 where "msg_dirall = 7"
definition msg_get :: int32 where "msg_get = 8"
definition msg_dirallslash :: int32 where "msg_dirallslash = 9"
definition msg_getslash :: int32 where "msg_getslash = 10"

lemmas msg_defs = msg_error_def msg_nop_def msg_read_def msg_write_def msg_dir_def msg_presence_def msg_dirall_def msg_get_def msg_dirallslash_def msg_getslash_def

definition ENOBUFS :: int where [errnos]: "ENOBUFS = 105"
definition EBADMSG :: int where [errnos]: "EBADMSG = 74"
definition ENOMSG :: int where [errnos]: "ENOMSG = 42"

definition UNCACHED :: int32 where "UNCACHED = 0x20"

text \<open>The part of a parsed name the server reads and writes itself.\<close>

record served_name =
  nm_path :: "byte list"
  nm_sn :: "byte list"
  nm_IsDir :: bool
  nm_control_flags :: int32
  nm_uncached :: bool
  nm_unaliased :: bool
  nm_tokens :: nat
  nm_tokenstring :: "byte list option"

record ('n, 'w) services =
  sv_create :: "byte list \<Rightarrow> 'w \<Rightarrow> 'n served_name_scheme option \<times> 'w"
  sv_destroy :: "'n served_name_scheme \<Rightarrow> 'w \<Rightarrow> 'w"
  sv_allocate :: "'n served_name_scheme \<Rightarrow> 'w \<Rightarrow> nat option \<times> 'w"
  sv_read :: "'n served_name_scheme \<Rightarrow> nat \<Rightarrow> int32 \<Rightarrow> 'w \<Rightarrow> int \<times> byte list \<times> 'w"
  sv_write :: "'n served_name_scheme \<Rightarrow> byte list \<Rightarrow> int32 \<Rightarrow> 'w \<Rightarrow> int \<times> 'n served_name_scheme \<times> 'w"
  sv_dir :: "'n served_name_scheme \<Rightarrow> 'w \<Rightarrow> int \<times> (byte list \<times> bool) list \<times> int32 \<times> 'w"

record server_settings =
  sg_no_dirall :: bool
  sg_no_get :: bool

text \<open>A message to the client: header and data.\<close>

type_synonym answer = "client_msg \<times> byte list option"

section \<open>Reading and writing\<close>

definition ReadHandler ::
  "('n, 'w) services \<Rightarrow> server_msg \<Rightarrow> client_msg \<Rightarrow> 'n served_name_scheme \<Rightarrow> 'w \<Rightarrow> byte list option \<times> client_msg \<times> 'w" where
  "ReadHandler sv sm cm pn w =
     (let size = sint (sm_size sm) in
      if sint (sm_payload sm) \<ge> int PATH_MAX then (None, cm\<lparr>cm_ret := word_of_int (- EMSGSIZE)\<rparr>, w)
      else if size \<le> 0 \<or> size > MAX_OWSERVER_PROTOCOL_PAYLOAD_SIZE then (None, cm\<lparr>cm_ret := word_of_int (- EMSGSIZE)\<rparr>, w)
      else case sv_allocate sv pn w of
        (None, w) \<Rightarrow> (None, cm\<lparr>cm_ret := word_of_int (- ENOBUFS)\<rparr>, w)
      | (Some n, w) \<Rightarrow>
          (case sv_read sv pn (min n (nat size)) (sm_offset sm) w of (read_or_error, buffer, w) \<Rightarrow>
             let ret = word_of_int read_or_error in
             if read_or_error \<le> 0 then (None, cm\<lparr>cm_ret := ret\<rparr>, w)
             else (Some buffer, cm\<lparr>cm_payload := ret, cm_offset := sm_offset sm, cm_size := ret, cm_ret := ret\<rparr>, w)))"

definition WriteHandler ::
  "('n, 'w) services \<Rightarrow> bool \<Rightarrow> server_msg \<Rightarrow> byte list \<Rightarrow> client_msg \<Rightarrow> 'n served_name_scheme \<Rightarrow> 'w \<Rightarrow> client_msg \<times> 'n served_name_scheme \<times> 'w" where
  "WriteHandler sv granted sm data cm pn w =
     (case sv_write sv pn data (sm_offset sm) w of (ret, pn, w) \<Rightarrow>
        (if ret < 0 then cm\<lparr>cm_size := 0, cm_ret := word_of_int ret\<rparr>
         else cm\<lparr>cm_size := word_of_int ret, cm_ret := 0,
                 cm_control_flags := (if granted then nm_control_flags pn OR PERSISTENT_MASK else nm_control_flags pn)\<rparr>,
         pn, w))"

section \<open>Directories\<close>

definition DirHandlerCallback :: "byte list \<Rightarrow> client_msg \<Rightarrow> client_msg" where
  "DirHandlerCallback path cm = cm\<lparr>cm_size := of_nat (length path), cm_payload := of_nat (length path + 1), cm_ret := 0\<rparr>"

text \<open>The messages for the elements, one after the other, and the header as it is left. The data is the path with its terminator.\<close>

fun dir_elements :: "byte list list \<Rightarrow> client_msg \<Rightarrow> answer list \<times> client_msg" where
  "dir_elements [] cm = ([], cm)"
| "dir_elements (path # paths) cm =
     (let cm = DirHandlerCallback path cm; (ms, cm') = dir_elements paths cm in ((cm, Some (path @ [0])) # ms, cm'))"

definition DirHandler ::
  "('n, 'w) services \<Rightarrow> server_msg \<Rightarrow> client_msg \<Rightarrow> 'n served_name_scheme \<Rightarrow> 'w \<Rightarrow> answer list \<times> client_msg \<times> 'w" where
  "DirHandler sv sm cm pn w =
     (let cm = cm\<lparr>cm_payload := of_nat (length (nm_path pn) + 1 + OW_FULLNAME_MAX + 2)\<rparr> in
      if sint (sm_payload sm) \<ge> int PATH_MAX
      then ([], cm\<lparr>cm_ret := word_of_int (- EMSGSIZE), cm_offset := 0, cm_payload := 0, cm_size := 0\<rparr>, w)
      else case sv_dir sv pn w of (ret, entries, flags, w) \<Rightarrow>
        case dir_elements (map fst entries) cm of (ms, cm) \<Rightarrow>
          (ms, cm\<lparr>cm_ret := word_of_int ret, cm_offset := flags, cm_payload := 0, cm_size := 0\<rparr>, w))"

text \<open>Whether memory can be had, for each addition to the buffer.\<close>

definition DirallHandlerCallback :: "bool \<times> bool \<Rightarrow> byte list \<times> bool \<Rightarrow> charblob \<Rightarrow> charblob option" where
  "DirallHandlerCallback ok entry cb = map_option snd (CharblobAdd (fst ok) (snd ok) (fst entry) cb)"

definition DirallslashHandlerCallback :: "bool \<Rightarrow> bool \<times> bool \<Rightarrow> byte list \<times> bool \<Rightarrow> charblob \<Rightarrow> charblob option" where
  "DirallslashHandlerCallback slash_ok ok entry cb =
     (case map_option snd (CharblobAdd (fst ok) (snd ok) (fst entry) cb) of
        None \<Rightarrow> None
      | Some cb \<Rightarrow> if snd entry then map_option snd (CharblobAddChar slash_ok 47 cb) else Some cb)"

fun dirall_elements :: "(nat \<Rightarrow> byte list \<times> bool \<Rightarrow> charblob \<Rightarrow> charblob option) \<Rightarrow> nat \<Rightarrow> (byte list \<times> bool) list \<Rightarrow> charblob \<Rightarrow> charblob option" where
  "dirall_elements callback i [] cb = Some cb"
| "dirall_elements callback i (entry # entries) cb = Option.bind (callback i entry cb) (dirall_elements callback (Suc i) entries)"

text \<open>\<^verbatim>\<open>owstrdup\<close> copies up to the terminator; \<^const>\<open>None\<close> when there is none in the block.\<close>

definition strdup :: "cell list \<Rightarrow> byte list option" where
  "strdup blk = (let s = takeWhile (\<lambda>c. c \<noteq> Some 0) blk in if length s < length blk \<and> None \<notin> set s then Some (map the s @ [0]) else None)"

text \<open>Both ways to send a directory at once. \<open>dup_ok\<close>: there is memory for the copy. \<^const>\<open>None\<close> is undefined behaviour.\<close>

definition dirall ::
  "(nat \<Rightarrow> byte list \<times> bool \<Rightarrow> charblob \<Rightarrow> charblob option) \<Rightarrow> bool \<Rightarrow> ('n, 'w) services \<Rightarrow> server_msg \<Rightarrow> client_msg \<Rightarrow> 'n served_name_scheme \<Rightarrow> 'w
     \<Rightarrow> (byte list option \<times> client_msg \<times> 'w) option" where
  "dirall callback dup_ok sv sm cm pn w =
     (let too_long = sint (sm_payload sm) \<ge> int PATH_MAX in
      case (if too_long then (- EMSGSIZE, [], 0, w) else sv_dir sv pn w) of (ret, entries, flags, w) \<Rightarrow>
        Option.bind (dirall_elements callback 0 entries CharblobInit) (\<lambda>cb.
          let cm = cm\<lparr>cm_ret := word_of_int ret, cm_offset := flags\<rparr>; nothing = cm\<lparr>cm_size := 0, cm_payload := 0\<rparr> in
          if sint (cm_ret cm) < 0 then Some (None, nothing, w)
          else case CharblobData cb of
            None \<Rightarrow> Some (None, nothing, w)
          | Some blk \<Rightarrow>
              Option.bind (strdup blk) (\<lambda>copy.
                if dup_ok
                then Some (Some copy, cm\<lparr>cm_payload := of_nat (CharblobLength cb + 1), cm_size := of_nat (CharblobLength cb)\<rparr>, w)
                else Some (None, nothing\<lparr>cm_ret := word_of_int (- ENOMEM)\<rparr>, w))))"

text \<open>Memory for a request: the additions of a directory, the copy, the serial number.\<close>

record memory =
  mm_add :: "nat \<Rightarrow> bool \<times> bool"
  mm_slash :: "nat \<Rightarrow> bool"
  mm_dup :: bool

definition DirallHandler where
  "DirallHandler mm = dirall (\<lambda>i. DirallHandlerCallback (mm_add mm i)) (mm_dup mm)"

definition DirallslashHandler where
  "DirallslashHandler mm = dirall (\<lambda>i. DirallslashHandlerCallback (mm_slash mm i) (mm_add mm i)) (mm_dup mm)"

section \<open>A request\<close>

definition new_cm :: "server_msg \<Rightarrow> client_msg" where
  "new_cm sm = \<lparr>cm_version = 0, cm_payload = 0, cm_ret = 0, cm_control_flags = sm_control_flags sm, cm_size = 0, cm_offset = 0\<rparr>"

text \<open>The settings of the client override those of the path.\<close>

definition client_settings :: "server_msg \<Rightarrow> serverpackage \<Rightarrow> 'n served_name_scheme \<Rightarrow> 'n served_name_scheme" where
  "client_settings sm sp pn =
     pn\<lparr>nm_control_flags := sm_control_flags sm, nm_uncached := (nm_uncached pn \<or> sm_control_flags sm AND UNCACHED \<noteq> 0),
        nm_unaliased := (nm_unaliased pn \<or> sm_control_flags sm AND ALIAS_REQUEST = 0), nm_tokens := sp_tokens sp, nm_tokenstring := package_tokens sp\<rparr>"

definition handle_query ::
  "memory \<Rightarrow> ('n, 'w) services \<Rightarrow> bool \<Rightarrow> server_msg \<Rightarrow> serverpackage \<Rightarrow> 'n served_name_scheme \<Rightarrow> 'w \<Rightarrow> (answer list \<times> answer \<times> 'w) option" where
  "handle_query mm sv granted sm sp pn w =
     (let cm = new_cm sm; t = sm_type sm;
          whole = (\<lambda>(retbuffer, cm, w). ([], (cm, retbuffer), sv_destroy sv pn w));
          readh = Some (whole (ReadHandler sv sm cm pn w))
      in if t = msg_presence then
           Some (whole (if mm_dup mm then (Some (nm_sn pn), cm\<lparr>cm_payload := 8\<rparr>, w) else (None, cm, w)))
         else if t = msg_read then readh
         else if t = msg_write then
           (case package_data sp of
              None \<Rightarrow> None
            | Some data \<Rightarrow>
                if int (sp_datasize sp) < sint (sm_size sm) then Some (whole (None, cm\<lparr>cm_ret := word_of_int (- EMSGSIZE)\<rparr>, w))
                else (case WriteHandler sv granted sm data cm pn w of (cm, pn, w) \<Rightarrow> Some ([], (cm, None), sv_destroy sv pn w)))
         else if t = msg_dir then (case DirHandler sv sm cm pn w of (ms, cm, w) \<Rightarrow> Some (ms, (cm, None), sv_destroy sv pn w))
         else if t = msg_dirall then map_option whole (DirallHandler mm sv sm cm pn w)
         else if t = msg_dirallslash then map_option whole (DirallslashHandler mm sv sm cm pn w)
         else if t = msg_get then if nm_IsDir pn then map_option whole (DirallHandler mm sv sm cm pn w) else readh
         else if nm_IsDir pn then map_option whole (DirallslashHandler mm sv sm cm pn w) else readh)"

definition ErrorToClient :: "client_msg \<Rightarrow> answer" where
  "ErrorToClient cm = (cm\<lparr>cm_payload := 0, cm_size := 0, cm_offset := 0\<rparr>, None)"

text \<open>All messages that are sent: those on the way, and the last one.\<close>

definition DataHandler ::
  "server_settings \<Rightarrow> memory \<Rightarrow> ('n, 'w) services \<Rightarrow> bool \<Rightarrow> server_msg \<Rightarrow> serverpackage \<Rightarrow> 'w \<Rightarrow> (answer list \<times> answer \<times> 'w) option" where
  "DataHandler sg mm sv granted sm sp w =
     (let cm = new_cm sm;
          excluded = sm_type sm \<in> {msg_dirall, msg_dirallslash} \<and> sg_no_dirall sg \<or> sm_type sm \<in> {msg_get, msg_getslash} \<and> sg_no_get sg;
          sm = (if excluded then sm\<lparr>sm_type := msg_error\<rparr> else sm);
          fail = (\<lambda>err w. Some ([], (cm\<lparr>cm_ret := word_of_int err\<rparr>, None), w))
      in case (if sm_type sm \<in> {msg_read, msg_write, msg_dir, msg_presence, msg_dirall, msg_dirallslash, msg_get, msg_getslash} then
                 if sm_payload sm = 0 then fail (- EBADMSG) w
                 else (case package_path sp of
                    None \<Rightarrow> None
                  | Some path \<Rightarrow>
                      (case sv_create sv path w of
                         (None, w) \<Rightarrow> fail (- 1) w
                       | (Some pn, w) \<Rightarrow> handle_query mm sv granted sm sp (client_settings sm sp pn) w))
               else if sm_type sm = msg_nop then fail 0 w
               else fail (- ENOMSG) w) of
           None \<Rightarrow> None
         | Some (ms, (cm, retbuffer), w) \<Rightarrow>
             Some (ms, if cm_ret cm \<noteq> word_of_int (- EIO) then (cm, retbuffer) else ErrorToClient cm, w))"

text \<open>The flag in the request says whether persistence was granted, since it is sent back.\<close>

definition set_persistence :: "bool \<Rightarrow> server_msg \<Rightarrow> server_msg" where
  "set_persistence granted sm =
     sm\<lparr>sm_control_flags := (if granted then sm_control_flags sm OR PERSISTENT_MASK else sm_control_flags sm AND NOT PERSISTENT_MASK)\<rparr>"

section \<open>Delay messages\<close>

datatype toclient_state = toclient_postping | toclient_postmessage | toclient_complete

datatype sent = Ping | Message answer

text \<open>
  The two threads of a request. The thread of \<^verbatim>\<open>DataHandler\<close> has its messages still to send, the last one apart; the loop has the state it saw last. The
  rest is shared: the state, the byte in the pipe, and what was written to the connection, a whole message at a time under the lock.
\<close>

record ping_state =
  ps_todo :: "answer list"
  ps_final :: "answer option"
  ps_current :: toclient_state
  ps_toclient :: toclient_state
  ps_pipe :: bool
  ps_sent :: "sent list"

definition LoopSetup :: "answer list \<Rightarrow> answer \<Rightarrow> ping_state" where
  "LoopSetup ms final =
     \<lparr>ps_todo = ms, ps_final = Some final, ps_current = toclient_postping, ps_toclient = toclient_postping, ps_pipe = False, ps_sent = []\<rparr>"

text \<open>What \<^verbatim>\<open>select\<close> gives: the byte in the pipe, a timeout, or an error.\<close>

datatype select_value = Ready | Timed_out | Select_error

definition Ping_or_Send :: "select_value \<Rightarrow> ping_state \<Rightarrow> ping_state" where
  "Ping_or_Send v s =
     (if ps_current s = toclient_complete then s
      else
        let next = ps_toclient s; pinged = ps_sent s @ [Ping] in
        case v of
          Ready \<Rightarrow> s\<lparr>ps_current := toclient_complete\<rparr>
        | Timed_out \<Rightarrow>
            (case next of
               toclient_complete \<Rightarrow> s\<lparr>ps_current := next\<rparr>
             | toclient_postmessage \<Rightarrow> s\<lparr>ps_toclient := toclient_postping, ps_current := next\<rparr>
             | toclient_postping \<Rightarrow> s\<lparr>ps_sent := pinged, ps_current := toclient_postping\<rparr>)
        | Select_error \<Rightarrow>
            (case next of
               toclient_complete \<Rightarrow> s\<lparr>ps_current := next\<rparr>
             | _ \<Rightarrow> s\<lparr>ps_sent := pinged, ps_toclient := toclient_postping, ps_current := toclient_postping\<rparr>))"

text \<open>One step of one of the threads. The loop goes on until it has seen that everything is sent.\<close>

inductive ping_step :: "ping_state \<Rightarrow> ping_state \<Rightarrow> bool" where
  element: "ps_todo s = m # ms \<Longrightarrow> ping_step s (s\<lparr>ps_todo := ms, ps_sent := ps_sent s @ [Message m], ps_toclient := toclient_postmessage\<rparr>)"
| final: "ps_todo s = [] \<Longrightarrow> ps_final s = Some m \<Longrightarrow>
    ping_step s (s\<lparr>ps_final := None, ps_sent := ps_sent s @ [Message m], ps_toclient := toclient_complete, ps_pipe := True\<rparr>)"
| loop: "ps_current s \<noteq> toclient_complete \<Longrightarrow> (v = Ready \<longrightarrow> ps_pipe s) \<Longrightarrow> ping_step s (Ping_or_Send v s)"

inductive_cases ping_stepE: "ping_step s s'"

definition loop_done :: "ping_state \<Rightarrow> bool" where
  "loop_done s \<longleftrightarrow> ps_current s = toclient_complete"

text \<open>What goes over the connection.\<close>

fun sent_bytes :: "sent list \<Rightarrow> byte list" where
  "sent_bytes [] = []"
| "sent_bytes (Ping # xs) = snd (ToClient (\<lambda>b. int (length b)) ping_cm None) @ sent_bytes xs"
| "sent_bytes (Message (cm, data) # xs) = snd (ToClient (\<lambda>b. int (length b)) cm data) @ sent_bytes xs"

fun messages :: "sent list \<Rightarrow> answer list" where
  "messages [] = []"
| "messages (Ping # xs) = messages xs"
| "messages (Message m # xs) = m # messages xs"

lemma messages_append [simp]: "messages (xs @ ys) = messages xs @ messages ys"
  by (induction xs rule: messages.induct) simp_all

text \<open>Nothing is sent after the last message; the loop sees the end only then.\<close>

definition ping_inv :: "answer list \<Rightarrow> answer \<Rightarrow> ping_state \<Rightarrow> bool" where
  "ping_inv ms final s \<longleftrightarrow>
     (case ps_final s of
        Some m \<Rightarrow> m = final \<and> messages (ps_sent s) @ ps_todo s = ms \<and> ps_toclient s \<noteq> toclient_complete \<and> ps_current s \<noteq> toclient_complete \<and> \<not> ps_pipe s
      | None \<Rightarrow> ps_todo s = [] \<and> messages (ps_sent s) = ms @ [final] \<and> ps_sent s \<noteq> [] \<and> last (ps_sent s) = Message final
          \<and> ps_toclient s = toclient_complete \<and> ps_pipe s)"

lemma ping_inv_start: "ping_inv ms final (LoopSetup ms final)"
  by (simp add: ping_inv_def LoopSetup_def)

lemma ping_inv_step:
  assumes "ping_step s s'" and "ping_inv ms final s"
  shows "ping_inv ms final s'"
  using assms(1)
proof cases
  case (loop v)
  then show ?thesis using assms(2)
    by (auto simp: ping_inv_def Ping_or_Send_def Let_def split: option.splits select_value.splits toclient_state.splits)
qed (use assms(2) in \<open>auto simp: ping_inv_def split: option.splits\<close>)

lemma ping_inv_reached: "ping_step\<^sup>*\<^sup>* (LoopSetup ms final) s \<Longrightarrow> ping_inv ms final s"
  by (induction rule: rtranclp_induct) (auto intro: ping_inv_start ping_inv_step)

end
