(* ===== verification/OW_Remote.thy ===== *)
theory OW_Remote
  imports OW_Server
begin

text \<open>
  The client of \<^verbatim>\<open>owserver\<close> (\<^verbatim>\<open>ow_server_message.c\<close>): asking for the presence of a device, writing, and the two ways to get a directory. Client and server together:
  what a client gets over the network is what the server would get itself, however the delay messages fall.
\<close>

section \<open>Writing and presence\<close>

definition SAFEMODE :: int32 where "SAFEMODE = 0x10"

text \<open>A name that comes from another program of this kind is never translated to aliases.\<close>

lemma asked_unaliased: "sm_control_flags sm = SetupControlFlags cl rn \<Longrightarrow> nm_unaliased (client_settings (set_persistence granted sm) sp pn)"
proof -
  have "PERSISTENT_MASK AND ALIAS_REQUEST = 0" "SHOULD_RETURN_BUS_LIST AND ALIAS_REQUEST = 0" by (simp_all add: PERSISTENT_MASK_def ALIAS_REQUEST_def SHOULD_RETURN_BUS_LIST_def)
  then have apart: "\<not> (bit PERSISTENT_MASK k \<and> bit ALIAS_REQUEST k)" "\<not> (bit SHOULD_RETURN_BUS_LIST k \<and> bit ALIAS_REQUEST k)" for k
    by (metis bit_0_eq bit_and_iff bot_apply bot_bool_def)+
  then have "(SetupControlFlags cl rn OR PERSISTENT_MASK) AND ALIAS_REQUEST = 0" "(SetupControlFlags cl rn AND NOT PERSISTENT_MASK) AND ALIAS_REQUEST = 0"
    by (auto intro!: bit_word_eqI simp: SetupControlFlags_def Let_def bit_simps)
  then show "nm_unaliased (client_settings (set_persistence granted sm) sp pn)" if "sm_control_flags sm = SetupControlFlags cl rn"
    using that by (simp add: client_settings_def set_persistence_def)
qed

text \<open>Return value, the flags of the program, and the port. As in reading, \<open>server\<close> gives the stream of answers to the bytes of a request.\<close>

definition ServerWrite ::
  "client_env \<Rightarrow> client_prog \<Rightarrow> remote_name \<Rightarrow> (byte list \<Rightarrow> byte list) \<Rightarrow> int32 \<Rightarrow> one_wire_query \<Rightarrow> client_port \<Rightarrow> int \<times> int32 \<times> client_port" where
  "ServerWrite env cl pn server LocalControlFlags owq p =
     (let sm = request_msg cl pn msg_write (owq_size owq) (owq_offset owq); sp = request_package pn (Some (owq_buffer owq)) (owq_size owq) in
      case To_Server env cl sm sp p of (ret, scs, p) \<Rightarrow>
        if BAD ret then (- EIO, LocalControlFlags, snd (Release_Persistent False (scs, p)))
        else
          (case From_Server 0 (server (request_bytes cl sm sp)) of (n, cm, data, rest, closed) \<Rightarrow>
             let sp = (if closed then Close_Persistent (scs, p) else (scs, p)) in
             if n < 0 then (- EIO, LocalControlFlags, snd (Release_Persistent False sp))
             else (case cm of
                     None \<Rightarrow> (- EIO, LocalControlFlags, snd (Release_Persistent False sp))
                   | Some cm \<Rightarrow>
                       (sint (cm_ret cm),
                        (cm_control_flags cm AND NOT (SHOULD_RETURN_BUS_LIST OR PERSISTENT_MASK OR SAFEMODE)) OR (LocalControlFlags AND SAFEMODE),
                        snd (Release_Persistent (cm_control_flags cm AND PERSISTENT_MASK \<noteq> 0) sp)))))"

text \<open>Whether the device is there, its serial number when the server sends it, and the port.\<close>

definition ServerPresence ::
  "client_env \<Rightarrow> client_prog \<Rightarrow> bool \<Rightarrow> remote_name \<Rightarrow> (byte list \<Rightarrow> byte list) \<Rightarrow> client_port \<Rightarrow> bool \<times> byte list option \<times> client_port" where
  "ServerPresence env cl mok pn server p =
     (let sm = request_msg cl pn msg_presence 0 0; sp = request_package pn None 0 in
      case To_Server env cl sm sp p of (ret, scs, p) \<Rightarrow>
        if BAD ret then (False, None, snd (Release_Persistent False (scs, p)))
        else
          (case From_ServerAlloc mok (server (request_bytes cl sm sp)) of (serial_number, cm, rest) \<Rightarrow>
             if sint (cm_ret cm) < 0 then (False, None, snd (Release_Persistent False (scs, p)))
             else (True, map_option (take 8) serial_number, snd (Release_Persistent (cm_control_flags cm AND PERSISTENT_MASK \<noteq> 0) (scs, p)))))"

section \<open>Directories\<close>

text \<open>What is done with a directory that arrives: before it, for each element, after it. A function for an element gives zero or an error.\<close>

record 's dir_receiver =
  dr_init :: "'s \<Rightarrow> 's"
  dr_element :: "byte list \<Rightarrow> 's \<Rightarrow> (int \<times> 's) option"
  dr_finish :: "'s \<Rightarrow> 's"

lemma skip_delays_length: "skip_delays stream = Some (cm, rest) \<Longrightarrow> length rest < length stream"
proof (induction stream rule: skip_delays.induct)
  case (1 stream)
  then show ?case by (subst (asm) (2) skip_delays.simps) (fastforce simp: sizeof_server_msg_def Let_def split: if_splits)
qed

lemma From_ServerAlloc_length: "From_ServerAlloc mok stream = (Some msg, cm, rest) \<Longrightarrow> length rest < length stream"
  using skip_delays_length by (fastforce simp: From_ServerAlloc_def Let_def split: option.splits prod.splits if_splits)

text \<open>The elements one after the other. \<open>mok\<close>: there is memory for the n-th answer. The result has the last header, and what is left unread.\<close>

function ServerDIR_loop :: "(nat \<Rightarrow> bool) \<Rightarrow> (byte list \<Rightarrow> 's \<Rightarrow> (int \<times> 's) option) \<Rightarrow> nat \<Rightarrow> byte list \<Rightarrow> 's \<Rightarrow> (client_msg \<times> 's \<times> byte list) option" where
  "ServerDIR_loop mok elem i stream s =
     (case From_ServerAlloc (mok i) stream of
        (None, cm, rest) \<Rightarrow> Some (cm, s, rest)
      | (Some msg, cm, rest) \<Rightarrow>
          (case elem (takeWhile (\<lambda>b. b \<noteq> 0) (msg[nat (sint (cm_payload cm)) - 1 := 0])) s of
             None \<Rightarrow> None
           | Some (ret, s) \<Rightarrow>
               if ret \<noteq> 0 then Some (cm\<lparr>cm_ret := word_of_int ret\<rparr>, s, rest)
               else ServerDIR_loop mok elem (Suc i) rest s))"
  by pat_completeness auto
termination
  by (relation "measure (\<lambda>(_, _, _, stream, _). length stream)") (auto dest: From_ServerAlloc_length [OF sym])

declare ServerDIR_loop.simps [simp del]

text \<open>Return value, flags, the state of the receiver, the port, and what is left unread.\<close>

definition ServerDIR ::
  "client_env \<Rightarrow> client_prog \<Rightarrow> (nat \<Rightarrow> bool) \<Rightarrow> 's dir_receiver \<Rightarrow> remote_name \<Rightarrow> (byte list \<Rightarrow> byte list) \<Rightarrow> int32 \<Rightarrow> 's \<Rightarrow> client_port
     \<Rightarrow> (int \<times> int32 \<times> 's \<times> client_port \<times> byte list) option" where
  "ServerDIR env cl mok dr pn server flags s p =
     (let sm = request_msg cl pn msg_dir 0 0; sp = request_package pn None 0; reply = server (request_bytes cl sm sp) in
      case To_Server env cl sm sp p of (ret, scs, p) \<Rightarrow>
        if BAD ret then Some (- EIO, flags, s, snd (Release_Persistent False (scs, p)), reply)
        else
          map_option (\<lambda>(cm, s, rest).
              (sint (cm_ret cm), flags OR cm_offset cm, dr_finish dr s, snd (Release_Persistent (cm_control_flags cm AND PERSISTENT_MASK \<noteq> 0) (scs, p)), rest))
            (ServerDIR_loop mok (dr_element dr) 0 reply (dr_init dr s)))"

text \<open>\<^verbatim>\<open>strsep\<close> until there is nothing left.\<close>

fun split_commas :: "byte list \<Rightarrow> byte list \<Rightarrow> byte list list" where
  "split_commas word [] = [word]"
| "split_commas word (c # cs) = (if c = 44 then word # split_commas [] cs else split_commas (word @ [c]) cs)"

text \<open>A function is called with elements until it reports an error.\<close>

fun visit :: "(byte list \<Rightarrow> 's \<Rightarrow> (int \<times> 's) option) \<Rightarrow> byte list list \<Rightarrow> 's \<Rightarrow> (int \<times> 's) option" where
  "visit elem [] s = Some (0, s)"
| "visit elem (x # xs) s =
     (case elem x s of None \<Rightarrow> None | Some (ret, s) \<Rightarrow> if ret \<noteq> 0 then Some (ret, s) else visit elem xs s)"

definition ServerDIRALL ::
  "client_env \<Rightarrow> client_prog \<Rightarrow> bool \<Rightarrow> 's dir_receiver \<Rightarrow> remote_name \<Rightarrow> (byte list \<Rightarrow> byte list) \<Rightarrow> int32 \<Rightarrow> 's \<Rightarrow> client_port
     \<Rightarrow> (int \<times> int32 \<times> 's \<times> client_port \<times> byte list) option" where
  "ServerDIRALL env cl mok dr pn server flags s p =
     (let sm = request_msg cl pn msg_dirall 0 0; sp = request_package pn None 0; reply = server (request_bytes cl sm sp) in
      case To_Server env cl sm sp p of (ret, scs, p) \<Rightarrow>
        if BAD ret then Some (- EIO, flags, s, snd (Release_Persistent False (scs, p)), reply)
        else
          (case From_ServerAlloc mok reply of (comma_separated_list, cm, rest) \<Rightarrow>
             let p = snd (Release_Persistent (cm_control_flags cm AND PERSISTENT_MASK \<noteq> 0) (scs, p)) in
             if cm_ret cm = 0 then
               let files = (case comma_separated_list of None \<Rightarrow> [] | Some l \<Rightarrow> split_commas [] (takeWhile (\<lambda>b. b \<noteq> 0) l)) in
               map_option (\<lambda>(ret, s). (sint (word_of_int ret :: int32), flags OR cm_offset cm, dr_finish dr s, p, rest)) (visit (dr_element dr) files (dr_init dr s))
             else Some (sint (cm_ret cm), flags, s, p, rest)))"

text \<open>Which of the two: the second request is made when the server does not know the first.\<close>

definition ServerDir ::
  "client_env \<times> client_env \<Rightarrow> client_prog \<Rightarrow> bool \<Rightarrow> bool \<Rightarrow> (nat \<Rightarrow> bool) \<Rightarrow> 's dir_receiver \<Rightarrow> remote_name \<Rightarrow> (byte list \<Rightarrow> byte list) \<Rightarrow> int32 \<Rightarrow> 's
     \<Rightarrow> bool \<times> client_port \<Rightarrow> (int \<times> int32 \<times> 's \<times> bool \<times> client_port) option" where
  "ServerDir envs cl globals_no_dirall real_or_alarm mok dr pn server flags s np =
     (case np of (no_dirall, p) \<Rightarrow>
        let single = (\<lambda>no_dirall env flags s p.
              map_option (\<lambda>(ret, flags, s, p, rest). (ret, flags, s, no_dirall, p)) (ServerDIR env cl mok dr pn server flags s p)) in
        if no_dirall \<or> globals_no_dirall \<or> real_or_alarm then single no_dirall (fst envs) flags s p
        else
          Option.bind (ServerDIRALL (fst envs) cl (mok 0) dr pn server flags s p) (\<lambda>(ret, flags, s, p, rest).
            if ret = - ENOMSG then single True (snd envs) flags s p else Some (ret, flags, s, no_dirall, p)))"

section \<open>What a client does with a directory\<close>

text \<open>
  The state while a directory arrives: the rest of the program, the serial numbers so far, the number of devices the root had last time, and the state of the
  user's function. \<open>entry\<close> is \<^verbatim>\<open>FS_dir_entry_aliased\<close> with that function; the user's functions do not fail.
\<close>

record ('b, 'v) element_state =
  es_fs :: "'b world fs_state"
  es_db :: dirblob
  es_last_root_devs :: nat
  es_user :: 'v

definition Directory_Element_Init :: "'b parse_env \<Rightarrow> parsedname \<Rightarrow> ('b, 'v) element_state \<Rightarrow> ('b, 'v) element_state" where
  "Directory_Element_Init env pn s =
     (if n_type pn = ePN_real \<and> ePS_alarm \<notin> n_state pn \<and> \<not> SpecifiedBus (presence_name env pn) \<and> n_selected_device pn = None
      then s\<lparr>es_db := (if n_bp pn = [] then DirblobInit\<lparr>db_allocated := es_last_root_devs s\<rparr> else DirblobInit)\<rparr>
      else s\<lparr>es_db := DirblobPoison DirblobInit\<rparr>)"

definition Directory_Element_Finish :: "'b parse_env \<Rightarrow> parsedname \<Rightarrow> ('b, 'v) element_state \<Rightarrow> ('b, 'v) element_state" where
  "Directory_Element_Finish env pn s =
     (let db = es_db s;
          s = (if DirblobPure db then
                 (case owmalloc (pv_fs env) (es_fs s) of (mok, st) \<Rightarrow> case owmalloc (pv_fs env) st of (tok, st) \<Rightarrow>
                    let st = st\<lparr>fs_cache := snd (Cache_Add_Dir (e_globals (pv_fs env)) (fs_clock st) mok tok db (Some (pp_cache (presence_name env pn))) (fs_cache st))\<rparr> in
                    s\<lparr>es_fs := st, es_last_root_devs := (if n_bp pn = [] then DirblobElements db else es_last_root_devs s)\<rparr>)
               else s)
      in s\<lparr>es_db := DirblobClear db\<rparr>)"

text \<open>The name of the bus is put in front in a buffer with room for eleven characters more.\<close>

definition with_bus_name :: "int \<Rightarrow> string \<Rightarrow> string" where
  "with_bus_name index file =
     take (length file + 10) (''/bus.'' @ c_string (print_int index) @ ''/'' @ (case file of c # cs \<Rightarrow> if c = CHR ''/'' then cs else file | [] \<Rightarrow> []))"

definition Directory_Element ::
  "'b parse_env \<Rightarrow> parsedname \<Rightarrow> (parsedname \<Rightarrow> 'v \<Rightarrow> 'v) \<Rightarrow> byte list \<Rightarrow> ('b, 'v) element_state \<Rightarrow> (int \<times> ('b, 'v) element_state) option" where
  "Directory_Element env pn entry file s =
     Option.bind (n_connection pn) (\<lambda>(index, _).
     let path = (if SpecifiedRemoteBus pn then with_bus_name index (c_string file) else c_string file) in
     Option.bind (FS_ParsedName_BackFromRemote env path (es_fs s)) (\<lambda>(ret, name, st).
       let s = s\<lparr>es_fs := st\<rparr> in
       if ret < 0 then Some (ret, s\<lparr>es_db := DirblobPoison (es_db s)\<rparr>)
       else
         Option.bind name (\<lambda>e.
           let st = (if n_type pn = ePN_real then add_location (pv_fs env) index (n_sn e) st else st);
               done' = (\<lambda>st db. (0, s\<lparr>es_fs := st, es_db := db, es_user := entry e (es_user s)\<rparr>)) in
           if DirblobPure (es_db s) then
             (case owmalloc (pv_fs env) st of (ok, st) \<Rightarrow> map_option (\<lambda>(_, db). done' st db) (DirblobAdd ok (n_sn e) (es_db s)))
           else Some (done' st (es_db s)))))"

definition directory_receiver :: "'b parse_env \<Rightarrow> parsedname \<Rightarrow> (parsedname \<Rightarrow> 'v \<Rightarrow> 'v) \<Rightarrow> ('b, 'v) element_state dir_receiver" where
  "directory_receiver env pn entry =
     \<lparr>dr_init = Directory_Element_Init env pn, dr_element = Directory_Element env pn entry, dr_finish = Directory_Element_Finish env pn\<rparr>"

section \<open>Streams with delay messages\<close>

lemma messages_first:
  assumes "messages xs = m # ms"
  shows "\<exists>k ys. xs = replicate k Ping @ Message m # ys \<and> messages ys = ms"
  using assms
proof (induction xs rule: messages.induct)
  case (2 xs)
  then obtain k ys where "xs = replicate k Ping @ Message m # ys" "messages ys = ms" by auto
  then show ?case by (intro exI [of _ "Suc k"] exI [of _ ys]) simp
next
  case (3 m' xs)
  then show ?case by (intro exI [of _ 0] exI [of _ xs]) simp
qed simp

lemma sent_bytes_append [simp]: "sent_bytes (xs @ ys) = sent_bytes xs @ sent_bytes ys"
  by (induction xs rule: sent_bytes.induct) simp_all

lemma ping_bytes: "snd (ToClient writev ping_cm None) = put_client_msg ping_cm"
  by (simp add: ToClient_def Let_def)

lemma skip_sent_pings: "skip_delays (sent_bytes (replicate k Ping) @ r) = skip_delays r"
  by (induction k) (simp_all add: ping_bytes skip_delays_msg, simp add: ping_cm_def)

text \<open>The next message as the client sees it.\<close>

lemma next_message:
  assumes "messages xs = (cm, data) # ms" and "cm_version cm = 0" and "0 \<le> sint (cm_payload cm)"
  shows "\<exists>ys. messages ys = ms \<and> (xs \<noteq> [] \<and> ys \<noteq> [] \<longrightarrow> last ys = last xs)
    \<and> skip_delays (sent_bytes xs @ r) =
        Some (cm, (case data of Some d \<Rightarrow> if 0 < sint (cm_payload cm) then take (nat (sint (cm_payload cm))) d else [] | None \<Rightarrow> []) @ sent_bytes ys @ r)"
proof -
  obtain k ys where xs: "xs = replicate k Ping @ Message (cm, data) # ys" "messages ys = ms" using messages_first [OF assms(1)] by blast
  have "cm\<lparr>cm_version := UT_uint32 (htonl (cm_version cm))\<rparr> = cm" using assms(2) by (simp add: htonl_def UT_uint32_def)
  then have "skip_delays (sent_bytes xs @ r) =
      Some (cm, (case data of Some d \<Rightarrow> if 0 < sint (cm_payload cm) then take (nat (sint (cm_payload cm))) d else [] | None \<Rightarrow> []) @ sent_bytes ys @ r)"
    using assms(3) by (simp add: xs(1) skip_sent_pings ToClient_def skip_delays_msg Let_def)
  then show ?thesis using xs by (intro exI [of _ ys]) auto
qed

text \<open>A message with data, one without.\<close>

lemma message_data:
  assumes "messages xs = (cm, Some d) # ms" and "cm_version cm = 0" and "sint (cm_payload cm) = int n" and "0 < n" and "n \<le> length d" and "n \<le> 100050"
    and "0 \<le> sint (cm_ret cm)"
  shows "\<exists>ys. messages ys = ms \<and> (xs \<noteq> [] \<and> ys \<noteq> [] \<longrightarrow> last ys = last xs)
    \<and> From_ServerAlloc True (sent_bytes xs @ r) = (Some (take n d @ [0]), cm, sent_bytes ys @ r)
    \<and> (n \<le> size' \<longrightarrow> From_Server size' (sent_bytes xs @ r) = (int n, Some cm, take n d, sent_bytes ys @ r, False))"
proof -
  have "0 \<le> sint (cm_payload cm)" using assms(3) by simp
  then obtain ys where ys: "messages ys = ms" "xs \<noteq> [] \<and> ys \<noteq> [] \<longrightarrow> last ys = last xs"
      "skip_delays (sent_bytes xs @ r) = Some (cm, take n d @ sent_bytes ys @ r)"
    using next_message [OF assms(1,2), of r] assms(3,4) by auto
  have "length (take n d) = n" using assms(5) by simp
  then have "From_ServerAlloc True (sent_bytes xs @ r) = (Some (take n d @ [0]), cm, sent_bytes ys @ r)"
    and "n \<le> size' \<longrightarrow> From_Server size' (sent_bytes xs @ r) = (int n, Some cm, take n d, sent_bytes ys @ r, False)"
    using ys(3) assms(3,4,6,7) by (auto simp: From_ServerAlloc_def From_Server_def Let_def MAX_OWSERVER_PROTOCOL_PAYLOAD_SIZE_def)
  then show ?thesis using ys(1,2) by blast
qed

lemma message_empty:
  assumes "messages xs = (cm, data) # ms" and "cm_version cm = 0" and "cm_payload cm = 0"
  shows "\<exists>ys. messages ys = ms \<and> (xs \<noteq> [] \<and> ys \<noteq> [] \<longrightarrow> last ys = last xs)
    \<and> From_ServerAlloc mok (sent_bytes xs @ r) = (None, cm, sent_bytes ys @ r)
    \<and> From_Server size' (sent_bytes xs @ r) = (0, Some cm, [], sent_bytes ys @ r, False)"
proof -
  obtain ys where ys: "messages ys = ms" "xs \<noteq> [] \<and> ys \<noteq> [] \<longrightarrow> last ys = last xs" "skip_delays (sent_bytes xs @ r) = Some (cm, sent_bytes ys @ r)"
    using next_message [OF assms(1,2), of r] assms(3) by (auto split: option.splits)
  then show ?thesis using assms(3) by (intro exI [of _ ys]) (simp add: From_ServerAlloc_def From_Server_def Let_def)
qed

text \<open>All interleavings of the two threads of a request end in such a stream.\<close>

definition served :: "answer list \<Rightarrow> answer \<Rightarrow> sent list \<Rightarrow> bool" where
  "served ms final xs \<longleftrightarrow> (\<exists>s. ping_step\<^sup>*\<^sup>* (LoopSetup ms final) s \<and> loop_done s \<and> ps_sent s = xs)"

lemma served_messages:
  assumes "served ms final xs"
  shows "messages xs = ms @ [final]" and "xs \<noteq> []" and "last xs = Message final"
proof -
  obtain s where s: "ping_step\<^sup>*\<^sup>* (LoopSetup ms final) s" "loop_done s" "ps_sent s = xs" using assms by (auto simp: served_def)
  then have "ping_inv ms final s" by (blast intro: ping_inv_reached)
  then show "messages xs = ms @ [final]" "xs \<noteq> []" "last xs = Message final" using s(2,3) by (auto simp: ping_inv_def loop_done_def split: option.splits)
qed

lemma no_messages: "messages ys = [] \<Longrightarrow> ys \<noteq> [] \<Longrightarrow> last ys = Ping"
  by (induction ys rule: messages.induct) (auto split: if_splits)

lemma dir_elements_Cons:
  assumes "dir_elements (p # ps) cm = (ms, cm')"
  obtains ms' where "ms = (DirHandlerCallback p cm, Some (p @ [0])) # ms'" and "dir_elements ps (DirHandlerCallback p cm) = (ms', cm')"
  using assms by (auto simp: Let_def split: prod.splits)

lemma callback_fields [simp]:
  "cm_version (DirHandlerCallback p cm) = cm_version cm" "cm_ret (DirHandlerCallback p cm) = 0" "cm_control_flags (DirHandlerCallback p cm) = cm_control_flags cm"
  "cm_payload (DirHandlerCallback p cm) = of_nat (length p + 1)" "cm_offset (DirHandlerCallback p cm) = cm_offset cm"
  by (simp_all add: DirHandlerCallback_def)

text \<open>The header is the same for all elements but for size and payload.\<close>

lemma dir_elements_last: "dir_elements ps cm = (ms, cm') \<Longrightarrow> \<exists>n k. cm' = cm\<lparr>cm_size := n, cm_payload := k, cm_ret := cm_ret cm'\<rparr>"
proof (induction ps arbitrary: cm ms)
  case Nil
  then show ?case by (intro exI [of _ "cm_size cm"] exI [of _ "cm_payload cm"]) simp
next
  case (Cons p ps)
  from Cons.prems obtain ms' where "dir_elements ps (DirHandlerCallback p cm) = (ms', cm')" by (rule dir_elements_Cons)
  from Cons.IH [OF this] show ?case by (auto simp: DirHandlerCallback_def)
qed

lemma takeWhile_path: "0 \<notin> set p \<Longrightarrow> takeWhile (\<lambda>b. b \<noteq> 0) ((p @ [0 :: byte, 0])[length p := 0]) = p"
  by (simp add: takeWhile_tail list_update_append) (metis takeWhile_eq_all_conv)

text \<open>One element is taken off the stream.\<close>

lemma loop_element:
  assumes "messages xs = (DirHandlerCallback p cm, Some (p @ [0])) # ms" and "cm_version cm = 0" and "0 \<notin> set p" and "length p < 100050"
  shows "\<exists>ys. messages ys = ms \<and> (xs \<noteq> [] \<and> ys \<noteq> [] \<longrightarrow> last ys = last xs)
    \<and> ServerDIR_loop (\<lambda>_. True) elem i (sent_bytes xs @ r) s =
        (case elem p s of
           None \<Rightarrow> None
         | Some (ret, s) \<Rightarrow>
             if ret \<noteq> 0 then Some ((DirHandlerCallback p cm)\<lparr>cm_ret := word_of_int ret\<rparr>, s, sent_bytes ys @ r)
             else ServerDIR_loop (\<lambda>_. True) elem (Suc i) (sent_bytes ys @ r) s)"
proof -
  let ?cm = "DirHandlerCallback p cm"
  have pay: "sint (cm_payload ?cm) = int (length p + 1)" using assms(4) sint_of_small [of "length p + 1"] by simp
  obtain ys where ys: "messages ys = ms" "xs \<noteq> [] \<and> ys \<noteq> [] \<longrightarrow> last ys = last xs"
      "From_ServerAlloc True (sent_bytes xs @ r) = (Some (take (length p + 1) (p @ [0]) @ [0]), ?cm, sent_bytes ys @ r)"
    using message_data [OF assms(1) _ pay, of r] assms(2,4) by auto
  have "takeWhile (\<lambda>b. b \<noteq> 0) ((take (length p + 1) (p @ [0]) @ [0])[nat (sint (cm_payload ?cm)) - 1 := 0]) = p"
  proof -
    have "nat (sint (cm_payload ?cm)) - 1 = length p" unfolding pay by simp
    then show ?thesis using takeWhile_path [OF assms(3)] by simp
  qed
  then show ?thesis using ys by (intro exI [of _ ys]) (simp add: ServerDIR_loop.simps [of _ _ i] del: callback_fields take_append)
qed

lemma loop_elements:
  assumes "dir_elements ps cm = (ms, cm')" and "cm_version cm = 0" and "\<forall>p\<in>set ps. 0 \<notin> set p \<and> length p < 100050"
    and "messages xs = ms @ [(fin, None)]" and "cm_version fin = 0" and "cm_payload fin = 0" and "xs \<noteq> []" and "last xs = Message (fin, None)"
    and "visit elem ps s = Some (ret, s')"
  shows "\<exists>cm ys. ServerDIR_loop (\<lambda>_. True) elem i (sent_bytes xs @ r) s =
      Some (if ret = 0 then fin else cm\<lparr>cm_ret := word_of_int ret\<rparr>, s', sent_bytes ys @ r) \<and> (ret = 0 \<longleftrightarrow> ys = [])"
  using assms
proof (induction ps arbitrary: cm ms xs s i)
  case Nil
  then have "messages xs = [(fin, None)]" by simp
  from message_empty [OF this Nil.prems(5,6), of True r]
  obtain ys where "messages ys = []" "ys \<noteq> [] \<longrightarrow> last ys = last xs" "From_ServerAlloc True (sent_bytes xs @ r) = (None, fin, sent_bytes ys @ r)"
    using Nil.prems(7) by auto
  moreover from this have "ys = []" using no_messages Nil.prems(8) by force
  ultimately show ?case using Nil.prems(9) by (simp add: ServerDIR_loop.simps)
next
  case (Cons p ps)
  from Cons.prems(1) obtain ms' where ms': "ms = (DirHandlerCallback p cm, Some (p @ [0])) # ms'" "dir_elements ps (DirHandlerCallback p cm) = (ms', cm')"
    by (rule dir_elements_Cons)
  obtain ys where ys: "messages ys = ms' @ [(fin, None)]" "xs \<noteq> [] \<and> ys \<noteq> [] \<longrightarrow> last ys = last xs"
    and run: "ServerDIR_loop (\<lambda>_. True) elem i (sent_bytes xs @ r) s =
        (case elem p s of
           None \<Rightarrow> None
         | Some (ret, s) \<Rightarrow>
             if ret \<noteq> 0 then Some ((DirHandlerCallback p cm)\<lparr>cm_ret := word_of_int ret\<rparr>, s, sent_bytes ys @ r)
             else ServerDIR_loop (\<lambda>_. True) elem (Suc i) (sent_bytes ys @ r) s)"
  proof -
    have "messages xs = (DirHandlerCallback p cm, Some (p @ [0])) # ms' @ [(fin, None)]" "0 \<notin> set p" "length p < 100050" using Cons.prems(3,4) ms'(1) by auto
    from loop_element [OF this(1) Cons.prems(2) this(2,3), of elem i r s] show thesis using that by blast
  qed
  have "ys \<noteq> []" using ys(1) by auto
  obtain ret1 s1 where e: "elem p s = Some (ret1, s1)" using Cons.prems(9) by (auto split: option.splits)
  show ?case
  proof (cases "ret1 = 0")
    case True
    have "cm_version (DirHandlerCallback p cm) = 0" "\<forall>p\<in>set ps. 0 \<notin> set p \<and> length p < 100050" "last ys = Message (fin, None)" "visit elem ps s1 = Some (ret, s')"
      using Cons.prems(2,3,7,8,9) ys(2) \<open>ys \<noteq> []\<close> e True by auto
    from Cons.IH [OF ms'(2) this(1,2) ys(1) Cons.prems(5,6) \<open>ys \<noteq> []\<close> this(3,4)] show ?thesis using run e True by simp
  next
    case False
    then show ?thesis using run e Cons.prems(9) \<open>ys \<noteq> []\<close> by auto
  qed
qed

end
