(* ===== verification/OW_Network.thy ===== *)
theory OW_Network
  imports OW_Remote
begin

text \<open>
  A client and a server together: the request is sent, accepted and handled, the answer comes back between delay messages, for reading, writing, and the two kinds of
  directories.
\<close>

section \<open>A directory in one message\<close>

text \<open>A buffer with room filled by zeros, in blocks of 1024 bytes.\<close>

definition zero_filled :: "byte list \<Rightarrow> charblob \<Rightarrow> bool" where
  "zero_filled bs cb \<longleftrightarrow> \<not> cb_troubled cb \<and> cb_used cb = length bs \<and> 1024 dvd cb_allocated cb \<and> length bs \<le> cb_allocated cb
   \<and> cb_blob cb = (if cb_allocated cb = 0 then None else Some (map Some bs @ replicate (cb_allocated cb - length bs) (Some 0)))"

lemma zero_filled_init: "zero_filled [] CharblobInit"
  by (simp add: zero_filled_def CharblobInit_def)

lemma zero_filled_grow:
  assumes "zero_filled bs cb"
  shows "\<exists>cb'. cb_grow True 1024 cb = Some (Inr cb') \<and> zero_filled bs cb' \<and> cb_allocated cb' = cb_allocated cb + 1024"
proof -
  let ?n = "cb_allocated cb"
  let ?old = "map Some bs @ replicate (?n - length bs) (Some 0)"
  have old: "length bs \<le> ?n" "(case cb_blob cb of None \<Rightarrow> [] | Some b \<Rightarrow> b) = ?old" using assms by (auto simp: zero_filled_def)
  have "blk_store ?n (replicate 1024 (Some 0)) (owrealloc (cb_blob cb) (?n + 1024)) = Some (?old @ replicate 1024 (Some 0))"
    using old by (auto simp: blk_store_def owrealloc_def Let_def)
  moreover have "?old @ replicate 1024 (Some 0) = map Some bs @ replicate (?n + 1024 - length bs) (Some 0)"
  proof -
    have "?n + 1024 - length bs = (?n - length bs) + 1024" using old(1) by simp
    then show ?thesis by (simp only: replicate_add append_assoc)
  qed
  ultimately show ?thesis using assms by (auto simp: cb_grow_def zero_filled_def Let_def)
qed

lemma zero_filled_append:
  assumes "zero_filled bs cb" and "length bs + length a \<le> cb_allocated cb"
  shows "\<exists>cb'. cb_append a cb = Some (0, cb') \<and> zero_filled (bs @ a) cb'"
proof (cases "cb_allocated cb = 0")
  case True
  then show ?thesis using assms by (auto simp: cb_append_def zero_filled_def)
next
  case False
  let ?k = "cb_allocated cb - length bs"
  have "blk_store (length bs) (map Some a) (map Some bs @ replicate ?k (Some 0)) = Some (map Some (bs @ a) @ replicate (?k - length a) (Some 0))"
    using assms(2) by (simp add: blk_store_def)
  then show ?thesis using False assms by (auto simp: cb_append_def zero_filled_def)
qed

lemma zero_filled_put:
  assumes "zero_filled bs cb" and "length a \<le> 1024"
  shows "\<exists>cb'. cb_put True 1024 a cb = Some (0, cb') \<and> zero_filled (bs @ a) cb'"
proof (cases "cb_used cb + length a > cb_allocated cb")
  case True
  obtain cb1 where cb1: "cb_grow True 1024 cb = Some (Inr cb1)" "zero_filled bs cb1" "cb_allocated cb1 = cb_allocated cb + 1024"
    using zero_filled_grow [OF assms(1)] by blast
  moreover have "length bs + length a \<le> cb_allocated cb1" using assms cb1(3) by (simp add: zero_filled_def)
  ultimately show ?thesis using zero_filled_append [OF cb1(2)] True by (auto simp: cb_put_def)
next
  case False
  then show ?thesis using zero_filled_append [OF assms(1), of a] assms(1) by (auto simp: cb_put_def zero_filled_def)
qed

lemma zero_filled_add:
  assumes "zero_filled bs cb" and "length a \<le> 1024"
  shows "\<exists>cb'. CharblobAdd True True a cb = Some (0, cb') \<and> zero_filled (comma_extend bs a) cb'"
proof (cases "bs = []")
  case True
  then show ?thesis using zero_filled_put [OF assms] assms by (auto simp: CharblobAdd_def zero_filled_def comma_extend_def Let_def)
next
  case False
  obtain cb1 where cb1: "CharblobAddChar True 44 cb = Some (0, cb1)" "zero_filled (bs @ [44]) cb1"
    using zero_filled_put [OF assms(1), of "[44]"] by (auto simp: CharblobAddChar_def)
  have "cb_used cb \<noteq> 0" using False assms(1) by (simp add: zero_filled_def)
  then show ?thesis using zero_filled_put [OF cb1(2) assms(2)] cb1(1) assms(2) False by (auto simp: CharblobAdd_def comma_extend_def Let_def)
qed

definition join_commas :: "byte list list \<Rightarrow> byte list" where
  "join_commas ps = foldl comma_extend [] ps"

lemma dirall_collects:
  assumes "\<forall>(p, d)\<in>set es. length p \<le> 1024" and "\<And>i. mm_add mm i = (True, True)" and "zero_filled bs cb"
  shows "\<exists>cb'. dirall_elements (\<lambda>i. DirallHandlerCallback (mm_add mm i)) i es cb = Some cb' \<and> zero_filled (foldl comma_extend bs (map fst es)) cb'"
  using assms(1,3)
proof (induction es arbitrary: i bs cb)
  case (Cons e es)
  obtain cb1 where "CharblobAdd True True (fst e) cb = Some (0, cb1)" "zero_filled (comma_extend bs (fst e)) cb1"
    using zero_filled_add [OF Cons.prems(2), of "fst e"] Cons.prems(1) by (auto split: prod.splits)
  then show ?case using Cons.IH [of "comma_extend bs (fst e)" cb1 "Suc i"] Cons.prems(1) assms(2) by (simp add: DirallHandlerCallback_def)
qed simp

lemma strdup_filled:
  assumes "0 \<notin> set bs" and "0 < k"
  shows "strdup (map Some bs @ replicate k (Some 0)) = Some (bs @ [0])"
proof -
  have "takeWhile (\<lambda>c. c \<noteq> Some 0) (map Some bs @ replicate k (Some 0)) = map Some bs"
    using assms by (subst takeWhile_append2) (auto simp: gr0_conv_Suc)
  then show ?thesis using assms by (auto simp: strdup_def Let_def comp_def)
qed

lemma split_commas_word: "44 \<notin> set p \<Longrightarrow> split_commas word (p @ cs) = split_commas (word @ p) cs"
  by (induction p arbitrary: word) simp_all

lemma split_extend: "44 \<notin> set p \<Longrightarrow> split_commas word (bs @ 44 # p) = split_commas word bs @ [p]"
proof (induction bs arbitrary: word)
  case Nil
  then show ?case using split_commas_word [of p "[]" "[]"] by simp
qed simp

lemma split_join:
  assumes "\<forall>p\<in>set ps. 44 \<notin> set p \<and> p \<noteq> []" and "ps \<noteq> []"
  shows "split_commas [] (join_commas ps) = ps" and "join_commas ps \<noteq> []"
proof -
  have "split_commas [] (join_commas ps) = ps \<and> join_commas ps \<noteq> []" using assms
  proof (induction ps rule: rev_induct)
    case (snoc p ps)
    show ?case
    proof (cases "ps = []")
      case True
      then show ?thesis using snoc.prems split_commas_word [of p "[]" "[]"] by (simp add: join_commas_def comma_extend_def)
    next
      case False
      then have "split_commas [] (join_commas ps) = ps" "join_commas ps \<noteq> []" using snoc by auto
      then show ?thesis using snoc.prems split_extend [of p "[]" "join_commas ps"] by (simp add: join_commas_def comma_extend_def)
    qed
  qed simp
  then show "split_commas [] (join_commas ps) = ps" "join_commas ps \<noteq> []" by simp_all
qed

lemma join_plain: "\<forall>p\<in>set ps. 0 \<notin> set p \<Longrightarrow> 0 \<notin> set (join_commas ps)"
  by (induction ps rule: rev_induct) (auto simp: join_commas_def comma_extend_def)

section \<open>The request arrives\<close>

lemma FromClient_header:
  assumes "FromClient mine mok stream = Some (Accepted h pkg, rest)"
  shows "h = get_server_msg (take 24 stream)" and "\<not> isServermessage (sm_version h) \<Longrightarrow> sp_tokens pkg = 0"
    and "sp_data pkg \<noteq> None \<Longrightarrow> sp_datasize pkg = unat (scast (sm_size h) :: 64 word)"
  using assms
  by (auto simp: FromClient_def no_package_def sizeof_server_msg_def Let_def split: if_splits option.splits sum.splits bool.splits prod.splits)

abbreviation request :: "byte list \<Rightarrow> byte list option \<Rightarrow> out_package" where
  "request p data \<equiv> \<lparr>op_path = Some p, op_data = data, op_datasize = (case data of None \<Rightarrow> 0 | Some d \<Rightarrow> length d), op_tokenstring = [], op_tokens = 0\<rparr>"

lemma request_received:
  assumes "WriteToServer False token writev sm (request p data) = (r0, sm', Some bytes)" and "0 \<notin> set p" and "length token = 16"
    and "if sm_type sm = msg_write then \<exists>d. data = Some d \<and> sint (sm_size sm) = int (length d) else data = None"
  defines "n \<equiv> length p + 1 + (case data of None \<Rightarrow> 0 | Some d \<Rightarrow> length d)"
  assumes "n \<le> 100000"
  shows "\<exists>pkg. FromClient mine True bytes = Some (Accepted (sm\<lparr>sm_version := 0, sm_payload := of_nat n\<rparr>) pkg, [])
    \<and> package_path pkg = Some p \<and> package_data pkg = data \<and> sp_tokens pkg = 0 \<and> package_tokens pkg = None \<and> (data \<noteq> None \<longrightarrow> int (sp_datasize pkg) = sint (sm_size sm))"
proof -
  have d: "out_data (request p data) = (case data of None \<Rightarrow> [] | Some d \<Rightarrow> d)" by (simp add: out_data_def split: option.split)
  have w: "if sm_type sm = msg_write then sint (sm_size sm) = int (length (out_data (request p data))) else out_data (request p data) = []"
    unfolding d using assms(4) by (auto split: if_splits)
  have n: "length p + 1 + length (out_data (request p data)) + 16 * (op_tokens (request p data) + 1) \<le> 100050"
    using assms(6) unfolding n_def d by (simp split: option.splits)
  obtain h pkg where h: "FromClient mine True (bytes @ []) = Some (Accepted h pkg, [])" "package_path pkg = Some p"
      "package_data pkg = (if sm_type sm = msg_write then Some (out_data (request p data)) else None)" "package_tokens pkg = None"
    using request_arrives [OF assms(1) _ assms(2) w assms(3) _ n, of mine "[]"] by (auto simp: Let_def)
  have "snd (snd (WriteToServer False token writev sm (request p data))) =
      Some (put_server_msg (sm\<lparr>sm_version := 0, sm_payload := of_nat n\<rparr>) @ p @ [0] @ out_data (request p data))"
    using d unfolding n_def by (cases data) (simp_all add: WriteToServer_def out_path_def Let_def add.assoc)
  then have "bytes = put_server_msg (sm\<lparr>sm_version := 0, sm_payload := of_nat n\<rparr>) @ p @ [0] @ out_data (request p data)"
    using assms(1) by simp
  then have "get_server_msg (take 24 bytes) = sm\<lparr>sm_version := 0, sm_payload := of_nat n\<rparr>" by simp
  then have hd: "h = sm\<lparr>sm_version := 0, sm_payload := of_nat n\<rparr>" using FromClient_header(1) [OF h(1)] by simp
  have dat: "package_data pkg = data" using h(3) assms(4) d by (auto split: if_splits option.splits)
  have "int (sp_datasize pkg) = sint (sm_size sm)" if x: "data \<noteq> None"
  proof -
    have "sp_data pkg \<noteq> None" using dat x by (auto simp: package_data_def split: option.splits)
    moreover obtain k where "sint (sm_size sm) = int k" using assms(4) x by (auto split: if_splits)
    ultimately show ?thesis using FromClient_header(3) [OF h(1)] scast_size [of "sm_size sm"] hd by simp
  qed
  then show ?thesis using h(1,2,4) hd dat FromClient_header(2) [OF h(1)] by (intro exI [of _ pkg]) simp
qed

text \<open>A client that is no server itself asks for the path \<open>p\<close>.\<close>

definition asks_for :: "client_prog \<Rightarrow> remote_name \<Rightarrow> byte list \<Rightarrow> bool" where
  "asks_for cl rn p \<longleftrightarrow> \<not> cl_server cl \<and> length (cl_token cl) = 16 \<and> rn_path_to_server rn = Some p \<and> rn_tokenstring rn = [] \<and> rn_tokens rn = 0 \<and> 0 \<notin> set p"

lemma request_out:
  assumes "asks_for cl rn p" and "data = map_option (take n) data'" and "n = (case data of None \<Rightarrow> 0 | Some d \<Rightarrow> length d)"
  shows "\<exists>r0 sm'. WriteToServer False (cl_token cl) (\<lambda>_. 0) sm (request p data) = (r0, sm', Some (request_bytes cl sm (request_package rn data' n)))"
proof -
  have "out_data (request p data) = out_data (request_package rn data' n)" and "out_path (request p data) = out_path (request_package rn data' n)"
    using assms by (auto simp: out_data_def out_path_def request_package_def asks_for_def split: option.splits)
  then show ?thesis using assms(1) by (simp add: request_bytes_def WriteToServer_def asks_for_def Let_def)
qed

lemma request_msg_fields [simp]:
  "sm_type (request_msg cl rn t n off) = t" "sm_size (request_msg cl rn t n off) = of_nat n" "sm_offset (request_msg cl rn t n off) = word_of_int off"
  by (simp_all add: request_msg_def)

section \<open>The answer comes\<close>

text \<open>Whatever is to be sent, the threads come to an end.\<close>

lemma served_exists: "\<exists>xs. served ms final xs"
proof -
  have "\<exists>s'. ping_step\<^sup>*\<^sup>* s s' \<and> loop_done s'" if "ps_todo s = ms" "ps_final s = Some final" "ps_current s \<noteq> toclient_complete" for s
    using that
  proof (induction ms arbitrary: s)
    case Nil
    let ?s = "s\<lparr>ps_final := None, ps_sent := ps_sent s @ [Message final], ps_toclient := toclient_complete, ps_pipe := True\<rparr>"
    have "ping_step s ?s" using Nil by (intro ping_step.final) auto
    moreover have "ping_step ?s (Ping_or_Send Ready ?s)" using Nil by (intro ping_step.loop) simp_all
    moreover have "loop_done (Ping_or_Send Ready ?s)" using Nil by (simp add: loop_done_def Ping_or_Send_def)
    ultimately show ?case by (meson converse_rtranclp_into_rtranclp rtranclp.rtrancl_refl)
  next
    case (Cons m ms)
    let ?s = "s\<lparr>ps_todo := ms, ps_sent := ps_sent s @ [Message m], ps_toclient := toclient_postmessage\<rparr>"
    have "ping_step s ?s" using Cons.prems by (intro ping_step.element) auto
    moreover obtain s' where "ping_step\<^sup>*\<^sup>* ?s s'" "loop_done s'" using Cons.IH [of ?s] Cons.prems by auto
    ultimately show ?case by (meson converse_rtranclp_into_rtranclp)
  qed
  from this [of "LoopSetup ms final"] show ?thesis by (auto simp: LoopSetup_def served_def)
qed

text \<open>
  Runs of the two threads. A thread waits as long as the scheduler likes, but not for ever: the handler takes its next step unless it has sent the last message, and
  the loop takes its next step unless it is done.
\<close>

definition handler_step :: "ping_state \<Rightarrow> ping_state \<Rightarrow> bool" where
  "handler_step s s' \<longleftrightarrow> ping_step s s' \<and> (length (ps_todo s') < length (ps_todo s) \<or> ps_final s \<noteq> None \<and> ps_final s' = None)"

definition loop_step :: "ping_state \<Rightarrow> ping_state \<Rightarrow> bool" where
  "loop_step s s' \<longleftrightarrow> ps_current s \<noteq> toclient_complete \<and> (\<exists>v. (v = Ready \<longrightarrow> ps_pipe s) \<and> s' = Ping_or_Send v s)"

definition fair_run :: "(nat \<Rightarrow> ping_state) \<Rightarrow> bool" where
  "fair_run f \<longleftrightarrow> (\<forall>i. f (Suc i) = f i \<or> handler_step (f i) (f (Suc i)) \<or> loop_step (f i) (f (Suc i)))
     \<and> (\<forall>i. \<exists>j\<ge>i. handler_step (f j) (f (Suc j)) \<or> ps_final (f j) = None) \<and> (\<forall>i. \<exists>j\<ge>i. loop_step (f j) (f (Suc j)) \<or> loop_done (f j))"

lemma loop_step_ping: "loop_step s s' \<Longrightarrow> ping_step s s'"
  by (auto simp: loop_step_def intro: ping_step.loop)

lemma loop_step_keeps: "loop_step s s' \<Longrightarrow> ps_todo s' = ps_todo s \<and> ps_final s' = ps_final s"
  by (auto simp: loop_step_def Ping_or_Send_def Let_def split: select_value.splits toclient_state.splits)

lemma fair_run_reaches: "fair_run f \<Longrightarrow> ping_step\<^sup>*\<^sup>* (f i) (f (i + k))"
proof (induction k)
  case (Suc k)
  then have "f (Suc (i + k)) = f (i + k) \<or> ping_step (f (i + k)) (f (Suc (i + k)))"
    unfolding fair_run_def handler_step_def using loop_step_ping by blast
  then show ?case using Suc by (auto intro: rtranclp.rtrancl_into_rtrancl)
qed simp

text \<open>How much the handler has still to send.\<close>

definition unsent :: "ping_state \<Rightarrow> nat" where
  "unsent s = length (ps_todo s) + (if ps_final s = None then 0 else 1)"

lemma handler_step_unsent: "handler_step s s' \<Longrightarrow> unsent s' < unsent s"
  unfolding handler_step_def by (auto simp: unsent_def elim!: ping_stepE)
    (auto simp: Ping_or_Send_def Let_def split: select_value.splits toclient_state.splits if_splits)

lemma fair_run_unsent: "fair_run f \<Longrightarrow> unsent (f (i + k)) \<le> unsent (f i)"
proof (induction k)
  case (Suc k)
  have "f (Suc (i + k)) = f (i + k) \<or> handler_step (f (i + k)) (f (Suc (i + k))) \<or> loop_step (f (i + k)) (f (Suc (i + k)))"
    using Suc.prems by (simp add: fair_run_def)
  then have "unsent (f (Suc (i + k))) \<le> unsent (f (i + k))"
    using handler_step_unsent loop_step_keeps by (fastforce simp: unsent_def intro: less_imp_le)
  then show ?case using Suc by simp
qed simp

lemma fair_run_sends_all: "fair_run f \<Longrightarrow> \<exists>j\<ge>i. ps_final (f j) = None"
proof (induction "unsent (f i)" arbitrary: i rule: less_induct)
  case less
  obtain j where j: "j \<ge> i" "handler_step (f j) (f (Suc j)) \<or> ps_final (f j) = None" using less.prems unfolding fair_run_def by blast
  show ?case
  proof (cases "ps_final (f j) = None")
    case False
    then have "unsent (f (Suc j)) < unsent (f i)"
      using j handler_step_unsent fair_run_unsent [OF less.prems, of i "j - i"] by (metis le_add_diff_inverse less_le_trans)
    then obtain k where "k \<ge> Suc j" "ps_final (f k) = None" using less by blast
    then show ?thesis using j(1) by (meson Suc_leD le_trans)
  qed (use j in blast)
qed

text \<open>Every such run ends: the loop is done, and nothing is sent after that.\<close>

lemma fair_run_ends:
  assumes "fair_run f" and "f 0 = LoopSetup ms final"
  shows "\<exists>i. loop_done (f i) \<and> served ms final (ps_sent (f i)) \<and> (\<forall>j\<ge>i. f j = f i)"
proof -
  have inv: "ping_inv ms final (f i)" for i
    using ping_inv_reached fair_run_reaches [OF assms(1), of 0 i] assms(2) by simp
  have sent: "ps_final (f (Suc j)) = None" if "ps_final (f j) = None" for j
  proof -
    have "f (Suc j) = f j \<or> handler_step (f j) (f (Suc j)) \<or> loop_step (f j) (f (Suc j))" using assms(1) by (simp add: fair_run_def)
    moreover have "\<not> handler_step (f j) (f (Suc j))" using that inv [of j] by (auto simp: handler_step_def ping_inv_def)
    ultimately show ?thesis using that loop_step_keeps by auto
  qed
  obtain i where i: "ps_final (f i) = None" using fair_run_sends_all [OF assms(1)] by blast
  obtain j where j: "j \<ge> i" "loop_step (f j) (f (Suc j)) \<or> loop_done (f j)" using assms(1) unfolding fair_run_def by blast
  have fj: "ps_final (f j) = None" using j(1) by (induction rule: dec_induct) (use i sent in auto)
  obtain k where k: "k \<ge> i" "loop_done (f k)" "ps_final (f k) = None"
  proof (cases "loop_done (f j)")
    case False
    then have "loop_step (f j) (f (Suc j))" "ps_toclient (f j) = toclient_complete" using j(2) inv [of j] fj by (auto simp: ping_inv_def)
    then have "loop_done (f (Suc j))"
      by (auto simp: loop_step_def loop_done_def Ping_or_Send_def Let_def split: select_value.splits)
    then show thesis using that [of "Suc j"] j(1) sent [OF fj] by simp
  qed (use that [of j] j fj in simp)
  have stays: "f m = f k" if "m \<ge> k" for m
    using that
  proof (induction rule: dec_induct)
    case (step m)
    have "f (Suc m) = f m \<or> handler_step (f m) (f (Suc m)) \<or> loop_step (f m) (f (Suc m))" using assms(1) by (simp add: fair_run_def)
    moreover have "\<not> handler_step (f m) (f (Suc m))" using step.IH k(3) inv [of m] by (auto simp: handler_step_def ping_inv_def)
    moreover have "\<not> loop_step (f m) (f (Suc m))" using step.IH k(2) by (simp add: loop_step_def loop_done_def)
    ultimately show ?case using step.IH by auto
  qed simp
  have "ping_step\<^sup>*\<^sup>* (LoopSetup ms final) (f k)" using fair_run_reaches [OF assms(1), of 0 k] assms(2) by simp
  then have "served ms final (ps_sent (f k))" unfolding served_def using k(2) by blast
  then show ?thesis using k(2) stays by blast
qed

text \<open>There is such a run: the handler sends all it has, then the loop sees it.\<close>

definition straight :: "ping_state \<Rightarrow> ping_state" where
  "straight s =
     (case (ps_todo s, ps_final s) of
        (m # ms, _) \<Rightarrow> s\<lparr>ps_todo := ms, ps_sent := ps_sent s @ [Message m], ps_toclient := toclient_postmessage\<rparr>
      | ([], Some m) \<Rightarrow> s\<lparr>ps_final := None, ps_sent := ps_sent s @ [Message m], ps_toclient := toclient_complete, ps_pipe := True\<rparr>
      | ([], None) \<Rightarrow> Ping_or_Send Timed_out s)"

lemma straight_step:
  "ps_final s \<noteq> None \<Longrightarrow> handler_step s (straight s)"
  "ps_final s = None \<Longrightarrow> ps_todo s = [] \<Longrightarrow> if loop_done s then straight s = s else loop_step s (straight s)"
  by (auto simp: handler_step_def straight_def loop_step_def loop_done_def Ping_or_Send_def intro: ping_step.element ping_step.final split: list.splits option.splits)

lemma fair_run_exists: "\<exists>f. f 0 = LoopSetup ms final \<and> fair_run f"
proof -
  define f where "f i = (straight ^^ i) (LoopSetup ms final)" for i
  have nxt: "f (Suc i) = straight (f i)" for i by (simp add: f_def)
  have inv: "ping_inv ms final (f i)" for i
  proof (induction i)
    case (Suc i)
    then have "f (Suc i) = f i \<or> ping_step (f i) (f (Suc i))"
      using straight_step [of "f i"] unfolding nxt by (cases "ps_final (f i)") (auto simp: handler_step_def ping_inv_def dest: loop_step_ping split: if_splits)
    then show ?case using Suc.IH ping_inv_step [of "f i" "f (Suc i)" ms final] by (elim disjE) simp_all
  qed (simp add: f_def ping_inv_start)
  have "if ps_final (f i) \<noteq> None then handler_step (f i) (f (Suc i)) else if loop_done (f i) then f (Suc i) = f i else loop_step (f i) (f (Suc i))" for i
    using straight_step [of "f i"] inv [of i] unfolding nxt by (cases "ps_final (f i)") (auto simp: ping_inv_def)
  note next_step = this
  have half: "(\<forall>i. f (Suc i) = f i \<or> handler_step (f i) (f (Suc i)) \<or> loop_step (f i) (f (Suc i))) \<and> (\<forall>i. \<exists>j\<ge>i. handler_step (f j) (f (Suc j)) \<or> ps_final (f j) = None)"
    using next_step by (meson order_refl)
  have "\<exists>j\<ge>i. ps_final (f j) = None" for i
  proof (induction "unsent (f i)" arbitrary: i rule: less_induct)
    case less
    show ?case
    proof (cases "ps_final (f i) = None")
      case False
      then have "unsent (f (Suc i)) < unsent (f i)" using next_step [of i] handler_step_unsent by simp
      from less [OF this] show ?thesis by (meson Suc_leD)
    qed blast
  qed
  then have "\<exists>j\<ge>i. loop_step (f j) (f (Suc j)) \<or> loop_done (f j)" for i using next_step by metis
  then have "fair_run f" using half unfolding fair_run_def by blast
  then show ?thesis by (intro exI [of _ f]) (simp add: f_def)
qed

text \<open>A request is accepted and handled, and \<open>reply\<close> is what comes back, in any interleaving.\<close>

definition exchanged ::
  "server_settings \<Rightarrow> memory \<Rightarrow> ('n, 'w) services \<Rightarrow> bool \<Rightarrow> byte list \<Rightarrow> byte list \<Rightarrow> 'w \<Rightarrow> byte list \<Rightarrow> 'w \<Rightarrow> bool" where
  "exchanged sg mm sv granted mine bytes w reply w' \<longleftrightarrow>
     (case FromClient mine True bytes of
        Some (Accepted h pkg, []) \<Rightarrow>
          (case DataHandler sg mm sv granted (set_persistence granted h) pkg w of
             Some (ms, final, w1) \<Rightarrow> w' = w1 \<and> (\<exists>xs. served ms final xs \<and> reply = sent_bytes xs)
           | None \<Rightarrow> False)
      | _ \<Rightarrow> False)"

lemma exchanged_iff:
  assumes "FromClient mine True bytes = Some (Accepted h pkg, [])" and "DataHandler sg mm sv granted (set_persistence granted h) pkg w = Some (ms, final, w1)"
  shows "exchanged sg mm sv granted mine bytes w reply w' \<longleftrightarrow> w' = w1 \<and> (\<exists>xs. served ms final xs \<and> reply = sent_bytes xs)"
  by (simp add: exchanged_def assms)

text \<open>
  The run \<open>f\<close> of the two threads for this request. The request is always answered when there is such a run and each of them comes to a point after which nothing more is
  sent, with a whole answer.
\<close>

definition exchange_run ::
  "server_settings \<Rightarrow> memory \<Rightarrow> ('n, 'w) services \<Rightarrow> bool \<Rightarrow> byte list \<Rightarrow> byte list \<Rightarrow> 'w \<Rightarrow> (nat \<Rightarrow> ping_state) \<Rightarrow> 'w \<Rightarrow> bool" where
  "exchange_run sg mm sv granted mine bytes w f w' \<longleftrightarrow>
     (case FromClient mine True bytes of
        Some (Accepted h pkg, []) \<Rightarrow>
          (case DataHandler sg mm sv granted (set_persistence granted h) pkg w of
             Some (ms, final, w1) \<Rightarrow> w' = w1 \<and> f 0 = LoopSetup ms final \<and> fair_run f
           | None \<Rightarrow> False)
      | _ \<Rightarrow> False)"

definition always_answered :: "server_settings \<Rightarrow> memory \<Rightarrow> ('n, 'w) services \<Rightarrow> bool \<Rightarrow> byte list \<Rightarrow> byte list \<Rightarrow> 'w \<Rightarrow> bool" where
  "always_answered sg mm sv granted mine bytes w \<longleftrightarrow>
     (\<exists>f w'. exchange_run sg mm sv granted mine bytes w f w')
   \<and> (\<forall>f w'. exchange_run sg mm sv granted mine bytes w f w' \<longrightarrow>
        (\<exists>i. loop_done (f i) \<and> (\<forall>j\<ge>i. f j = f i) \<and> exchanged sg mm sv granted mine bytes w (sent_bytes (ps_sent (f i))) w'))"

lemma exchanged_answered:
  assumes "exchanged sg mm sv granted mine bytes w reply w'"
  shows "always_answered sg mm sv granted mine bytes w"
proof -
  obtain h pkg ms final w1 where fc: "FromClient mine True bytes = Some (Accepted h pkg, [])"
    and dh: "DataHandler sg mm sv granted (set_persistence granted h) pkg w = Some (ms, final, w1)"
    using assms by (auto simp: exchanged_def split: option.splits prod.splits list.splits from_client.splits)
  have run: "exchange_run sg mm sv granted mine bytes w f w2 \<longleftrightarrow> w2 = w1 \<and> f 0 = LoopSetup ms final \<and> fair_run f" for f w2
    by (simp add: exchange_run_def fc dh)
  show ?thesis unfolding always_answered_def run exchanged_iff [OF fc dh]
    using fair_run_exists [of ms final] fair_run_ends [of _ ms final] by blast
qed

lemma answered_lift:
  assumes ex: "\<And>reply w'. exchanged sg mm sv granted mine bytes w reply w' \<longleftrightarrow> w' = w1 \<and> (\<exists>xs. served ms final xs \<and> reply = sent_bytes xs)"
    and P: "\<And>xs server. served ms final xs \<Longrightarrow> server bytes = sent_bytes xs \<Longrightarrow> P server"
  shows "(\<exists>reply w'. exchanged sg mm sv granted mine bytes w reply w') \<and> always_answered sg mm sv granted mine bytes w
    \<and> (\<forall>server w'. exchanged sg mm sv granted mine bytes w (server bytes) w' \<longrightarrow> w' = w1 \<and> P server)"
proof (intro conjI allI impI)
  obtain xs where "served ms final xs" using served_exists by blast
  then have x: "exchanged sg mm sv granted mine bytes w (sent_bytes xs) w1" unfolding ex by blast
  show "\<exists>reply w'. exchanged sg mm sv granted mine bytes w reply w'" by (rule exI, rule exI, rule x)
  show "always_answered sg mm sv granted mine bytes w" by (rule exchanged_answered [OF x])
next
  fix server :: "byte list \<Rightarrow> byte list" and w'
  assume "exchanged sg mm sv granted mine bytes w (server bytes) w'"
  then have "w' = w1" "\<exists>xs. served ms final xs \<and> server bytes = sent_bytes xs" unfolding ex by (rule conjunct1, rule conjunct2)
  then show "w' = w1" "P server" using P by blast+
qed

lemma client_settings_plain:
  assumes "sp_tokens pkg = 0" and "package_tokens pkg = None"
  shows "client_settings (set_persistence granted (sm\<lparr>sm_version := v, sm_payload := k\<rparr>)) pkg pn = client_settings (set_persistence granted sm) no_package pn"
  using assms by (simp add: client_settings_def set_persistence_def no_package_def package_tokens_def)

lemma set_persistence_fields [simp]:
  "sm_type (set_persistence g sm) = sm_type sm" "sm_size (set_persistence g sm) = sm_size sm" "sm_offset (set_persistence g sm) = sm_offset sm"
  "sm_payload (set_persistence g sm) = sm_payload sm"
  by (simp_all add: set_persistence_def)

text \<open>What \<^verbatim>\<open>DataHandler\<close> makes of a good request.\<close>

definition last_answer :: "answer \<Rightarrow> answer" where
  "last_answer final = (if cm_ret (fst final) \<noteq> word_of_int (- EIO) then final else ErrorToClient (fst final))"

lemma last_answer_empty:
  assumes "cm_version cm = 0" and "cm_payload cm = 0"
  shows "\<exists>cm'. last_answer (cm, None) = (cm', None) \<and> cm_version cm' = 0 \<and> cm_payload cm' = 0 \<and> cm_ret cm' = cm_ret cm \<and> cm_control_flags cm' = cm_control_flags cm
    \<and> cm_offset cm' = (if cm_ret cm = word_of_int (- EIO) then 0 else cm_offset cm)"
  using assms by (simp add: last_answer_def ErrorToClient_def)

lemma DataHandler_query:
  assumes "package_path pkg = Some p" and "sv_create sv p w = (Some pn, w1)" and "sm_payload h = of_nat n" and "0 < n" and "n \<le> 100050"
    and "sm_type h \<in> {msg_read, msg_write, msg_dir, msg_dirall}" and "sm_type h = msg_dirall \<longrightarrow> \<not> sg_no_dirall sg"
    and "handle_query mm sv granted h pkg (client_settings h pkg pn) w1 = Some (ms, final, w2)"
  shows "DataHandler sg mm sv granted h pkg w = Some (ms, last_answer final, w2)"
proof -
  have "sm_payload h \<noteq> 0" using sint_of_small [OF assms(5)] assms(3,4) by (metis of_nat_0_less_iff less_irrefl signed_0)
  moreover have "(sm_type h \<in> {msg_dirall, msg_dirallslash} \<and> sg_no_dirall sg \<or> sm_type h \<in> {msg_get, msg_getslash} \<and> sg_no_get sg) = False"
    using assms(6,7) by (auto simp: msg_defs)
  moreover have "(sm_type h \<in> {msg_read, msg_write, msg_dir, msg_presence, msg_dirall, msg_dirallslash, msg_get, msg_getslash}) = True"
    using assms(6) by auto
  ultimately show ?thesis unfolding DataHandler_def Let_def
    by (simp only: if_False if_True assms(1,2,8) option.case prod.case) (cases final; simp add: last_answer_def)
qed

text \<open>A request on its way, to the answers.\<close>

lemma exchanged_query:
  fixes sm p data granted
  defines "n \<equiv> length p + 1 + (case data of None \<Rightarrow> 0 | Some d \<Rightarrow> length d)"
  defines "h \<equiv> set_persistence granted (sm\<lparr>sm_version := 0, sm_payload := of_nat n\<rparr>)"
  assumes "WriteToServer False token writev sm (request p data) = (r0, sm', Some bytes)" and "0 \<notin> set p" and "length token = 16"
    and "if sm_type sm = msg_write then \<exists>d. data = Some d \<and> sint (sm_size sm) = int (length d) else data = None" and "n \<le> 100000"
    and "sm_type sm \<in> {msg_read, msg_write, msg_dir, msg_dirall}" and "sm_type sm = msg_dirall \<longrightarrow> \<not> sg_no_dirall sg"
    and "sv_create sv p w = (Some pn, w1)"
    and "\<And>pkg. package_data pkg = data \<Longrightarrow> data \<noteq> None \<longrightarrow> int (sp_datasize pkg) = sint (sm_size sm) \<Longrightarrow>
      handle_query mm sv granted h pkg (client_settings (set_persistence granted sm) no_package pn) w1 = Some (ms, final, w2)"
  shows "exchanged sg mm sv granted mine bytes w reply w' \<longleftrightarrow> w' = w2 \<and> (\<exists>xs. served ms (last_answer final) xs \<and> reply = sent_bytes xs)"
proof -
  obtain pkg where pkg: "FromClient mine True bytes = Some (Accepted (sm\<lparr>sm_version := 0, sm_payload := of_nat n\<rparr>) pkg, [])"
      "package_path pkg = Some p" "package_data pkg = data" "data \<noteq> None \<longrightarrow> int (sp_datasize pkg) = sint (sm_size sm)" "sp_tokens pkg = 0" "package_tokens pkg = None"
    using request_received [OF assms(3-6), of mine] assms(7) unfolding n_def by blast
  have same: "client_settings h pkg pn = client_settings (set_persistence granted sm) no_package pn"
    unfolding h_def by (rule client_settings_plain [OF pkg(5,6)])
  have "handle_query mm sv granted h pkg (client_settings h pkg pn) w1 = Some (ms, final, w2)" unfolding same by (rule assms(11) [OF pkg(3,4)])
  then have "DataHandler sg mm sv granted h pkg w = Some (ms, last_answer final, w2)"
    by (intro DataHandler_query [OF pkg(2) assms(10), of _ n]) (use assms(7-9) in \<open>simp_all add: h_def n_def\<close>)
  from exchanged_iff [OF pkg(1) this [unfolded h_def]] show ?thesis .
qed

lemma handle_read:
  assumes "sm_type h = msg_read" and "sint (sm_payload h) < int PATH_MAX" and "0 < sint (sm_size h)" and "sint (sm_size h) \<le> 100050"
    and "sv_allocate sv pn w1 = (Some n, w2)" and "sv_read sv pn (min n (nat (sint (sm_size h)))) (sm_offset h) w2 = (ret, buffer, w3)"
  shows "handle_query mm sv granted h pkg pn w1 =
    Some ([], if ret \<le> 0 then ((new_cm h)\<lparr>cm_ret := word_of_int ret\<rparr>, None)
              else ((new_cm h)\<lparr>cm_payload := word_of_int ret, cm_offset := sm_offset h, cm_size := word_of_int ret, cm_ret := word_of_int ret\<rparr>, Some buffer), sv_destroy sv pn w3)"
  using assms by (simp add: handle_query_def ReadHandler_def msg_defs MAX_OWSERVER_PROTOCOL_PAYLOAD_SIZE_def Let_def)

lemma sint_ret: "- (2 ^ 31) \<le> ret \<Longrightarrow> ret < 2 ^ 31 \<Longrightarrow> sint (word_of_int ret :: int32) = ret"
  by (simp add: signed_of_int signed_take_bit_int_eq_self del: of_int_sint)

lemma ret_neq:
  assumes "- (2 ^ 31) \<le> ret" and "ret < 2 ^ 31"
  shows "(word_of_int ret :: int32) = word_of_int (- EIO) \<longleftrightarrow> ret = - EIO"
proof
  assume "(word_of_int ret :: int32) = word_of_int (- EIO)"
  then have "sint (word_of_int ret :: int32) = sint (word_of_int (- EIO) :: int32)" by (rule arg_cong)
  then show "ret = - EIO" unfolding sint_ret [OF assms] by (subst (asm) sint_ret) (simp_all add: EIO_def)
qed simp

lemma handle_write:
  assumes "sm_type h = msg_write" and "package_data pkg = Some d" and "int (sp_datasize pkg) = sint (sm_size h)" and "sv_write sv pn d (sm_offset h) w1 = (ret, pn2, w2)"
  shows "handle_query mm sv granted h pkg pn w1 =
    Some ([], (if ret < 0 then (new_cm h)\<lparr>cm_size := 0, cm_ret := word_of_int ret\<rparr>
               else (new_cm h)\<lparr>cm_size := word_of_int ret, cm_ret := 0,
                      cm_control_flags := (if granted then nm_control_flags pn2 OR PERSISTENT_MASK else nm_control_flags pn2)\<rparr>, None), sv_destroy sv pn2 w2)"
  using assms by (simp add: handle_query_def WriteHandler_def msg_defs Let_def)

lemma handle_dir:
  assumes "sm_type h = msg_dir" and "sint (sm_payload h) < int PATH_MAX" and "sv_dir sv pn w1 = (ret, entries, flags, w2)"
    and "dir_elements (map fst entries) ((new_cm h)\<lparr>cm_payload := of_nat (length (nm_path pn) + 1 + OW_FULLNAME_MAX + 2)\<rparr>) = (ms, cm)"
  shows "handle_query mm sv granted h pkg pn w1 =
    Some (ms, (cm\<lparr>cm_ret := word_of_int ret, cm_offset := flags, cm_payload := 0, cm_size := 0\<rparr>, None), sv_destroy sv pn w2)"
  using assms by (simp add: handle_query_def DirHandler_def msg_defs Let_def)

lemma handle_dirall:
  assumes "sm_type h = msg_dirall" and "sint (sm_payload h) < int PATH_MAX" and "sv_dir sv pn w1 = (0, entries, flags, w2)"
    and "\<And>i. mm_add mm i = (True, True)" and "mm_dup mm" and "\<forall>(e, dir)\<in>set entries. 0 \<notin> set e \<and> 44 \<notin> set e \<and> e \<noteq> [] \<and> length e \<le> 1024"
    and "entries \<noteq> [] \<longrightarrow> \<not> 1024 dvd length (join_commas (map fst entries))"
  defines "joined \<equiv> join_commas (map fst entries)"
  shows "handle_query mm sv granted h pkg pn w1 =
    Some ([], if entries = [] then ((new_cm h)\<lparr>cm_offset := flags\<rparr>, None)
              else ((new_cm h)\<lparr>cm_payload := of_nat (length joined + 1), cm_size := of_nat (length joined), cm_offset := flags\<rparr>, Some (joined @ [0])), sv_destroy sv pn w2)"
proof -
  obtain cb where cb: "dirall_elements (\<lambda>i. DirallHandlerCallback (mm_add mm i)) 0 entries CharblobInit = Some cb" "zero_filled joined cb"
    using dirall_collects [OF _ assms(4) zero_filled_init, of entries 0] assms(6) unfolding joined_def join_commas_def by fastforce
  have plain: "0 \<notin> set joined" unfolding joined_def using assms(6) by (intro join_plain) auto
  have "strdup blk = Some (joined @ [0]) \<and> entries \<noteq> []" if x: "cb_blob cb = Some blk" for blk
  proof -
    have "cb_allocated cb \<noteq> 0" using cb(2) x by (auto simp: zero_filled_def split: if_splits)
    moreover have "entries \<noteq> []" using x cb(1) by (auto simp: CharblobInit_def)
    ultimately have "0 < cb_allocated cb - length joined" "blk = map Some joined @ replicate (cb_allocated cb - length joined) (Some 0)"
      using cb(2) x assms(7) unfolding joined_def by (auto simp: zero_filled_def order.order_iff_strict)
    then show ?thesis using strdup_filled [OF plain] \<open>entries \<noteq> []\<close> by simp
  qed
  moreover have "cb_blob cb = None \<longleftrightarrow> entries = []"
  proof
    assume "cb_blob cb = None"
    then have "joined = []" using cb(2) by (auto simp: zero_filled_def split: if_splits)
    then show "entries = []" using split_join(2) [of "map fst entries"] assms(6) unfolding joined_def by fastforce
  qed (use cb(1) in \<open>auto simp: CharblobInit_def\<close>)
  moreover have "cb_used cb = length joined" using cb(2) by (simp add: zero_filled_def)
  ultimately show ?thesis using assms(1-3,5) cb(1)
    by (cases "cb_blob cb") (auto simp: handle_query_def DirallHandler_def dirall_def CharblobData_def CharblobLength_def new_cm_def msg_defs Let_def)
qed

lemma sent_bytes_Nil: "sent_bytes ys = [] \<longleftrightarrow> ys = []"
proof (cases ys rule: sent_bytes.cases)
  case (2 xs)
  have "put_client_msg ping_cm \<noteq> []" using length_put_client_msg [of ping_cm] by (metis list.size(3) zero_neq_numeral)
  then show ?thesis using 2 by (simp add: ping_bytes)
next
  case (3 cm data xs)
  have "put_client_msg cm \<noteq> []" using length_put_client_msg [of cm] by (metis list.size(3) zero_neq_numeral)
  then show ?thesis using 3 by (simp add: ToClient_def Let_def)
qed simp

section \<open>Properties\<close>

text \<open>The alias of a device is not asked for but taken from the client's own memory, unless the path names a bus of the server.\<close>

definition local_alias :: "remote_name \<Rightarrow> bool" where
  "local_alias rn \<longleftrightarrow> rn_format rn = Some ft_alias \<and> \<not> rn_SpecifiedRemoteBus rn"

definition own_alias :: "bool \<times> cache_data \<Rightarrow> one_wire_query \<Rightarrow> byte list" where
  "own_alias mc owq = c_text (case Cache_Get_Alias (fst mc) (cp_sn (owq_pn owq)) (snd mc) of None \<Rightarrow> [] | Some a \<Rightarrow> a)"

lemma alias_read:
  assumes "local_alias rn" and "owq_offset owq = int k" and "k \<le> length (own_alias mc owq)" and "owq_size owq \<le> length (owq_buffer owq)"
  defines "part \<equiv> take (owq_size owq) (drop k (own_alias mc owq))"
  shows "\<exists>owq'. ServerRead env cl mc rn server owq port = Some (int (length part), owq', port) \<and> owq_buffer owq' = part @ drop (length part) (owq_buffer owq)"
proof -
  have "FS_r_alias (fst mc) (snd mc) owq = OWQ_format_output_offset_and_size (own_alias mc owq) owq"
    by (simp add: FS_r_alias_def own_alias_def OWQ_format_output_offset_and_size_z_def split: option.split)
  moreover have "min (nat (int (length (own_alias mc owq)) - int k)) (owq_size owq) = length part"
    using assms(3) by (simp add: part_def min.commute nat_diff_distrib)
  ultimately show ?thesis using assms(1-4)
    by (simp add: ServerRead_def local_alias_def OWQ_format_output_offset_and_size_def OWQ_parse_output_offset_and_size_def blk_store_def Let_def part_def)
      (simp add: min_def)
qed

text \<open>
  C6: reading over the network is reading. A client makes and sends a request for reading, the server accepts and handles it, and delay messages are sent in
  between, in any interleaving of its two threads; the client then has the bytes and the return value, or the error, that reading gives at the server, with the size and
  offset the client asked for and the settings of the client, and its buffer is as it was behind them. Every run in which neither of the threads waits for
  ever comes to its end, with nothing sent any more. Only the alias of a device is, when the path names no bus of the server, the one the client itself knows, and
  nothing is sent.
\<close>

theorem remote_read:
  fixes granted pn cl rn owq
  defines "sm \<equiv> request_msg cl rn msg_read (owq_size owq) (owq_offset owq)"
  defines "bytes \<equiv> request_bytes cl sm (request_package rn None 0)" and "pn' \<equiv> client_settings (set_persistence granted sm) no_package pn"
  assumes "asks_for cl rn p" and "\<not> local_alias rn" and "length p + 1 < PATH_MAX"
    and "0 < owq_size owq" and "owq_size owq \<le> 100050" and "owq_size owq \<le> length (owq_buffer owq)"
    and "sv_create sv p w = (Some pn, w1)" and "sv_allocate sv pn' w1 = (Some n, w2)" and "sv_read sv pn' (min n (owq_size owq)) (word_of_int (owq_offset owq)) w2 = (ret, buffer, w3)"
    and "ret \<le> int (min n (owq_size owq))" and "ret \<le> int (length buffer)" and "- (2 ^ 31) \<le> ret"
    and "To_Server env cl sm (request_package rn None 0) port = (gbGOOD, scs, port1)"
  shows "(\<exists>reply w'. exchanged sg mm sv granted mine bytes w reply w')
    \<and> always_answered sg mm sv granted mine bytes w
    \<and> (\<forall>server w'. exchanged sg mm sv granted mine bytes w (server bytes) w' \<longrightarrow>
         w' = sv_destroy sv pn' w3
       \<and> (\<exists>port'. ServerRead env cl mc rn server owq port =
            Some (ret, owq\<lparr>owq_buffer := take (nat ret) buffer @ drop (nat ret) (owq_buffer owq)\<rparr>, port')))
    \<and> (\<forall>rn' server k. local_alias rn' \<and> owq_offset owq = int k \<and> k \<le> length (own_alias mc owq) \<longrightarrow>
         (let part = take (owq_size owq) (drop k (own_alias mc owq)) in
          \<exists>owq'. ServerRead env cl mc rn' server owq port = Some (int (length part), owq', port) \<and> owq_buffer owq' = part @ drop (length part) (owq_buffer owq)))"
proof -
  let ?h = "set_persistence granted (sm\<lparr>sm_version := 0, sm_payload := of_nat (length p + 1)\<rparr>)"
  have sm: "sm_type sm = msg_read" "sint (sm_size sm) = int (owq_size owq)" "sm_offset sm = word_of_int (owq_offset owq)"
    using sint_of_small [OF assms(8)] by (simp_all add: sm_def)
  obtain r0 sm' where out: "WriteToServer False (cl_token cl) (\<lambda>_. 0) sm (request p None) = (r0, sm', Some bytes)"
    using request_out [OF assms(4), of None 0 None sm] by (auto simp: bytes_def)
  have pmax: "length p + 1 \<le> 2048" using assms(6) by (simp add: PATH_MAX_def)
  have pay: "sint (of_nat (length p + 1) :: int32) = int (length p + 1)" using pmax by (intro sint_of_small) simp
  have r: "- (2 ^ 31) \<le> ret" "ret < 2 ^ 31" using assms(8,13,15) by auto
  define final where "final = (if ret \<le> 0 then ((new_cm ?h)\<lparr>cm_ret := word_of_int ret\<rparr>, None)
      else ((new_cm ?h)\<lparr>cm_payload := word_of_int ret, cm_offset := sm_offset sm, cm_size := word_of_int ret, cm_ret := word_of_int ret\<rparr>, Some buffer))"
  have "handle_query mm sv granted ?h pkg pn' w1 = Some ([], final, sv_destroy sv pn' w3)" for pkg
    unfolding final_def using handle_read [of ?h sv pn' w1 n w2 ret buffer w3 mm granted pkg] assms(6-8,11,12) pay sm by simp
  then have ex: "exchanged sg mm sv granted mine bytes w reply w' \<longleftrightarrow> w' = sv_destroy sv pn' w3 \<and> (\<exists>xs. served [] (last_answer final) xs \<and> reply = sent_bytes xs)" for reply w'
    using exchanged_query [OF out _ _ _ _ _ _ assms(10), of sg mm granted "[]" final "sv_destroy sv pn' w3"] assms(4) sm(1) pmax
    by (simp add: pn'_def msg_defs asks_for_def)
  have "\<exists>rest cm. From_Server (owq_size owq) (sent_bytes xs) = (max 0 ret, Some cm, take (nat ret) buffer, rest, False) \<and> sint (cm_ret cm) = ret"
    if x: "served [] (last_answer final) xs" for xs
  proof (cases "ret \<le> 0")
    case True
    obtain cm where cm: "last_answer final = (cm, None)" "cm_version cm = 0" "cm_payload cm = 0" "cm_ret cm = word_of_int ret"
      using last_answer_empty [of "fst final"] True by (auto simp: final_def new_cm_def)
    have "messages xs = [(cm, None)]" using served_messages(1) [OF x] cm(1) by simp
    from message_empty [OF this cm(2,3), of True "[]" "owq_size owq"] show ?thesis using cm(4) True sint_ret [OF r] by auto
  next
    case False
    then obtain cm where cm: "last_answer final = (cm, Some buffer)" "cm_version cm = 0" "cm_payload cm = word_of_int ret" "cm_ret cm = word_of_int ret"
      using ret_neq [OF r] by (auto simp: last_answer_def final_def new_cm_def EIO_def)
    have n: "sint (cm_payload cm) = int (nat ret)" "0 < nat ret" "nat ret \<le> length buffer" "nat ret \<le> 100050" "0 \<le> sint (cm_ret cm)" "nat ret \<le> owq_size owq"
      using cm(3,4) sint_ret [OF r] False assms(8,13,14) by auto
    have "messages xs = [(cm, Some buffer)]" using served_messages(1) [OF x] cm(1) by simp
    from message_data [OF this cm(2) n(1-5), of "[]" "owq_size owq"] show ?thesis using n(6) cm(4) False sint_ret [OF r] by auto
  qed
  note answer = this
  have read: "\<exists>port'. ServerRead env cl mc rn server owq port = Some (ret, owq\<lparr>owq_buffer := take (nat ret) buffer @ drop (nat ret) (owq_buffer owq)\<rparr>, port')"
    if x: "served [] (last_answer final) xs" and b: "server bytes = sent_bytes xs" for xs server
  proof -
    obtain rest cm where "From_Server (owq_size owq) (server bytes) = (max 0 ret, Some cm, take (nat ret) buffer, rest, False)" "sint (cm_ret cm) = ret"
      using answer [OF x] b by auto
    moreover have "length (take (nat ret) buffer) = nat ret" "nat ret \<le> length (owq_buffer owq)" using assms(9,13,14) by auto
    then have "blk_store 0 (take (nat ret) buffer) (owq_buffer owq) = Some (take (nat ret) buffer @ drop (nat ret) (owq_buffer owq))"
      by (simp only: blk_store_def) simp
    ultimately show ?thesis using assms(5)
      by (simp add: ServerRead_def assms(16) BAD_def Let_def local_alias_def flip: sm_def bytes_def) blast
  qed
  have alias_part: "\<forall>rn' server k. local_alias rn' \<and> owq_offset owq = int k \<and> k \<le> length (own_alias mc owq) \<longrightarrow>
         (let part = take (owq_size owq) (drop k (own_alias mc owq)) in
          \<exists>owq'. ServerRead env cl mc rn' server owq port = Some (int (length part), owq', port) \<and> owq_buffer owq' = part @ drop (length part) (owq_buffer owq))"
    unfolding Let_def using alias_read [OF _ _ _ assms(9)] by blast
  define got where "got server \<longleftrightarrow>
      (\<exists>port'. ServerRead env cl mc rn server owq port = Some (ret, owq\<lparr>owq_buffer := take (nat ret) buffer @ drop (nat ret) (owq_buffer owq)\<rparr>, port'))" for server
  have "(\<exists>reply w'. exchanged sg mm sv granted mine bytes w reply w') \<and> always_answered sg mm sv granted mine bytes w
    \<and> (\<forall>server w'. exchanged sg mm sv granted mine bytes w (server bytes) w' \<longrightarrow> w' = sv_destroy sv pn' w3 \<and> got server)"
    unfolding got_def by (rule answered_lift [OF ex read])
  then show ?thesis unfolding got_def using alias_part by (elim conjE) (intro conjI)
qed

text \<open>
  C8: writing over the network is writing. The server writes exactly the bytes the client sent, with the client's settings; the client is told zero, or the error. The program
  keeps its own choice of the safe mode whatever flags come back.
\<close>

theorem remote_write:
  fixes granted pn cl rn owq
  defines "sm \<equiv> request_msg cl rn msg_write (owq_size owq) (owq_offset owq)" and "sp \<equiv> request_package rn (Some (owq_buffer owq)) (owq_size owq)"
  defines "bytes \<equiv> request_bytes cl sm sp" and "pn' \<equiv> client_settings (set_persistence granted sm) no_package pn"
  assumes "asks_for cl rn p" and "owq_size owq \<le> length (owq_buffer owq)" and "length p + 1 + owq_size owq \<le> 100000"
    and "sv_create sv p w = (Some pn, w1)" and "sv_write sv pn' (take (owq_size owq) (owq_buffer owq)) (word_of_int (owq_offset owq)) w1 = (ret, pn2, w2)"
    and "- (2 ^ 31) \<le> ret" and "To_Server env cl sm sp port = (gbGOOD, scs, port1)"
  shows "(\<exists>reply w'. exchanged sg mm sv granted mine bytes w reply w')
    \<and> always_answered sg mm sv granted mine bytes w
    \<and> (\<forall>server w'. exchanged sg mm sv granted mine bytes w (server bytes) w' \<longrightarrow>
         w' = sv_destroy sv pn2 w2
       \<and> (\<exists>flags' port'. ServerWrite env cl rn server flags owq port = (min 0 ret, flags', port') \<and> flags' AND SAFEMODE = flags AND SAFEMODE))"
proof -
  let ?d = "take (owq_size owq) (owq_buffer owq)"
  have d: "length ?d = owq_size owq" using assms(6) by simp
  have sm: "sm_type sm = msg_write" "sint (sm_size sm) = int (length ?d)" "sm_offset sm = word_of_int (owq_offset owq)"
    using sint_of_small [of "owq_size owq"] assms(7) d by (simp_all add: sm_def)
  obtain r0 sm' where out: "WriteToServer False (cl_token cl) (\<lambda>_. 0) sm (request p (Some ?d)) = (r0, sm', Some bytes)"
    using request_out [OF assms(5), of "Some ?d" "owq_size owq" "Some (owq_buffer owq)" sm] d by (auto simp: bytes_def sp_def)
  let ?h = "set_persistence granted (sm\<lparr>sm_version := 0, sm_payload := of_nat (length p + 1 + length ?d)\<rparr>)"
  define final where "final = (if ret < 0 then (new_cm ?h)\<lparr>cm_size := 0, cm_ret := word_of_int ret\<rparr>
      else (new_cm ?h)\<lparr>cm_size := word_of_int ret, cm_ret := 0, cm_control_flags := (if granted then nm_control_flags pn2 OR PERSISTENT_MASK else nm_control_flags pn2)\<rparr>)"
  have "handle_query mm sv granted ?h pkg pn' w1 = Some ([], (final, None), sv_destroy sv pn2 w2)"
    if x: "package_data pkg = Some ?d" "int (sp_datasize pkg) = sint (sm_size sm)" for pkg
    unfolding final_def by (rule handle_write [OF _ x(1)]) (use assms(9) sm x(2) in simp_all)
  then have ex: "exchanged sg mm sv granted mine bytes w reply w' \<longleftrightarrow> w' = sv_destroy sv pn2 w2 \<and> (\<exists>xs. served [] (last_answer (final, None)) xs \<and> reply = sent_bytes xs)" for reply w'
    using exchanged_query [OF out _ _ _ _ _ _ assms(8), of sg mm granted "[]" "(final, None)" "sv_destroy sv pn2 w2"] assms(5,7) sm(1,2) d
    by (simp add: pn'_def msg_defs asks_for_def)
  obtain cm where cm: "last_answer (final, None) = (cm, None)" "cm_version cm = 0" "cm_payload cm = 0" "cm_ret cm = cm_ret final"
  proof -
    have "cm_version final = 0" "cm_payload final = 0" by (simp_all add: final_def new_cm_def)
    from last_answer_empty [OF this] show thesis using that by blast
  qed
  have ret: "sint (cm_ret cm) = min 0 ret" using cm(4) sint_ret [OF assms(10)] by (cases "ret < 0") (simp_all add: final_def)
  have safe: "(f AND NOT (SHOULD_RETURN_BUS_LIST OR PERSISTENT_MASK OR SAFEMODE) OR flags AND SAFEMODE) AND SAFEMODE = flags AND SAFEMODE" for f :: int32
    by (rule bit_word_eqI) (auto simp: bit_simps)
  have "\<exists>flags' port'. ServerWrite env cl rn server flags owq port = (min 0 ret, flags', port') \<and> flags' AND SAFEMODE = flags AND SAFEMODE"
    if x: "served [] (last_answer (final, None)) xs" and b: "server bytes = sent_bytes xs" for xs server
  proof -
    have "messages xs = [(cm, None)]" using served_messages(1) [OF x] cm(1) by simp
    from message_empty [OF this cm(2,3), of True "[]" 0] obtain rest where "From_Server 0 (sent_bytes xs) = (0, Some cm, [], rest, False)" by auto
    then show ?thesis using assms(11) ret safe b by (simp add: ServerWrite_def BAD_def Let_def flip: sm_def sp_def bytes_def)
  qed
  then show ?thesis by (rule answered_lift [OF ex])
qed

text \<open>
  C7: listing over the network is listing. The client's function is called with the paths that listing gives at the server, all of them and in their order, wherever the
  delay messages fall, and the result and the flags are those of the server. When the function refuses an element, the client is told so and the rest of the answer
  stays unread in the connection.
\<close>

theorem remote_listing:
  fixes granted pn cl rn
  defines "sm \<equiv> request_msg cl rn msg_dir 0 0" and "sp \<equiv> request_package rn None 0"
  defines "bytes \<equiv> request_bytes cl sm sp" and "pn' \<equiv> client_settings (set_persistence granted sm) no_package pn"
  assumes "asks_for cl rn p" and "length p + 1 < PATH_MAX"
    and "sv_create sv p w = (Some pn, w1)" and "sv_dir sv pn' w1 = (ret, entries, flags, w2)"
    and "\<forall>(e, dir)\<in>set entries. 0 \<notin> set e \<and> length e < 100050" and "- (2 ^ 31) \<le> ret" and "ret < 2 ^ 31"
    and "To_Server env cl sm sp port = (gbGOOD, scs, port1)" and "visit (dr_element dr) (map fst entries) (dr_init dr s) = Some (refused, s')"
  shows "(\<exists>reply w'. exchanged sg mm sv granted mine bytes w reply w')
    \<and> always_answered sg mm sv granted mine bytes w
    \<and> (\<forall>server w'. exchanged sg mm sv granted mine bytes w (server bytes) w' \<longrightarrow> w' = sv_destroy sv pn' w2
       \<and> (\<exists>flags' port' rest. ServerDIR env cl (\<lambda>_. True) dr rn server flags0 s port = Some (if refused = 0 then ret else sint (word_of_int refused :: int32), flags', dr_finish dr s', port', rest)
            \<and> (rest = [] \<longleftrightarrow> refused = 0) \<and> (refused = 0 \<longrightarrow> flags' = flags0 OR (if ret = - EIO then 0 else flags))))"
proof -
  have sm: "sm_type sm = msg_dir" by (simp add: sm_def)
  obtain r0 sm' where out: "WriteToServer False (cl_token cl) (\<lambda>_. 0) sm (request p None) = (r0, sm', Some bytes)"
    using request_out [OF assms(5), of None 0 None sm] by (auto simp: bytes_def sp_def)
  let ?h = "set_persistence granted (sm\<lparr>sm_version := 0, sm_payload := of_nat (length p + 1)\<rparr>)"
  let ?cm = "(new_cm ?h)\<lparr>cm_payload := of_nat (length (nm_path pn') + 1 + OW_FULLNAME_MAX + 2)\<rparr>"
  have pmax: "length p + 1 \<le> 2048" using assms(6) by (simp add: PATH_MAX_def)
  have pay: "sint (of_nat (length p + 1) :: int32) = int (length p + 1)" using pmax by (intro sint_of_small) simp
  obtain ms cm where ms: "dir_elements (map fst entries) ?cm = (ms, cm)" by fastforce
  define final where "final = cm\<lparr>cm_ret := word_of_int ret, cm_offset := flags, cm_payload := 0, cm_size := 0\<rparr>"
  have "handle_query mm sv granted ?h pkg pn' w1 = Some (ms, (final, None), sv_destroy sv pn' w2)" for pkg
    unfolding final_def by (rule handle_dir [OF _ _ assms(8) ms]) (use assms(6) sm pay in simp_all)
  then have ex: "exchanged sg mm sv granted mine bytes w reply w' \<longleftrightarrow> w' = sv_destroy sv pn' w2 \<and> (\<exists>xs. served ms (last_answer (final, None)) xs \<and> reply = sent_bytes xs)" for reply w'
    using exchanged_query [OF out _ _ _ _ _ _ assms(7), of sg mm granted ms "(final, None)" "sv_destroy sv pn' w2"] assms(5) sm pmax
    by (simp add: pn'_def msg_defs asks_for_def)
  have "cm_version cm = 0" using dir_elements_last [OF ms] by (auto simp: new_cm_def) (metis client_msg.select_convs(1))
  then obtain fin where fin: "last_answer (final, None) = (fin, None)" "cm_version fin = 0" "cm_payload fin = 0" "cm_ret fin = word_of_int ret"
      "cm_offset fin = (if ret = - EIO then 0 else flags)"
    using last_answer_empty [of final] ret_neq [OF assms(10,11)] by (auto simp: final_def)
  have plain: "\<forall>e\<in>set (map fst entries). 0 \<notin> set e \<and> length e < 100050" using assms(9) by auto
  have "\<exists>flags' port' rest. ServerDIR env cl (\<lambda>_. True) dr rn server flags0 s port = Some (if refused = 0 then ret else sint (word_of_int refused :: int32), flags', dr_finish dr s', port', rest)
            \<and> (rest = [] \<longleftrightarrow> refused = 0) \<and> (refused = 0 \<longrightarrow> flags' = flags0 OR (if ret = - EIO then 0 else flags))" if x: "served ms (last_answer (final, None)) xs" and b: "server bytes = sent_bytes xs" for xs server
  proof -
    note sent = served_messages [OF x, unfolded fin(1)]
    obtain cm' ys where "ServerDIR_loop (\<lambda>_. True) (dr_element dr) 0 (sent_bytes xs @ []) (dr_init dr s) =
        Some (if refused = 0 then fin else cm'\<lparr>cm_ret := word_of_int refused\<rparr>, s', sent_bytes ys @ [])" "refused = 0 \<longleftrightarrow> ys = []"
      using loop_elements [OF ms _ plain sent(1) fin(2,3) sent(2,3) assms(13), of 0 "[]"] by (auto simp: new_cm_def)
    then show ?thesis using assms(12) fin(4,5) sint_ret [OF assms(10,11)] sent_bytes_Nil [of ys] b
      by (auto simp: ServerDIR_def BAD_def Let_def simp flip: sm_def sp_def bytes_def)
  qed
  then show ?thesis by (rule answered_lift [OF ex])
qed

text \<open>
  C9: a directory sent in one message is the same directory. With memory on both sides, for paths of at most 1024 characters without commas, and unless their text fills the
  buffer to its last byte, the client's function is called with the paths that listing gives at the server, in order, and the flags are those of the server.
\<close>

theorem remote_listing_at_once:
  fixes granted pn cl rn entries
  defines "sm \<equiv> request_msg cl rn msg_dirall 0 0" and "sp \<equiv> request_package rn None 0" and "joined \<equiv> join_commas (map fst entries)"
  defines "bytes \<equiv> request_bytes cl sm sp" and "pn' \<equiv> client_settings (set_persistence granted sm) no_package pn"
  assumes "asks_for cl rn p" and "length p + 1 < PATH_MAX" and "\<not> sg_no_dirall sg" and "sv_create sv p w = (Some pn, w1)" and "sv_dir sv pn' w1 = (0, entries, flags, w2)"
    and "\<And>i. mm_add mm i = (True, True)" and "mm_dup mm" and "\<forall>(e, dir)\<in>set entries. 0 \<notin> set e \<and> 44 \<notin> set e \<and> e \<noteq> [] \<and> length e \<le> 1024"
    and "entries \<noteq> [] \<longrightarrow> \<not> 1024 dvd length joined" and "length joined < 100050"
    and "To_Server env cl sm sp port = (gbGOOD, scs, port1)" and "visit (dr_element dr) (map fst entries) (dr_init dr s) = Some (refused, s')"
  shows "(\<exists>reply w'. exchanged sg mm sv granted mine bytes w reply w')
    \<and> always_answered sg mm sv granted mine bytes w
    \<and> (\<forall>server w'. exchanged sg mm sv granted mine bytes w (server bytes) w' \<longrightarrow> w' = sv_destroy sv pn' w2
       \<and> (\<exists>port'. ServerDIRALL env cl True dr rn server flags0 s port = Some (sint (word_of_int refused :: int32), flags0 OR flags, dr_finish dr s', port', [])))"
proof -
  have sm: "sm_type sm = msg_dirall" by (simp add: sm_def)
  obtain r0 sm' where out: "WriteToServer False (cl_token cl) (\<lambda>_. 0) sm (request p None) = (r0, sm', Some bytes)"
    using request_out [OF assms(6), of None 0 None sm] by (auto simp: bytes_def sp_def)
  let ?h = "set_persistence granted (sm\<lparr>sm_version := 0, sm_payload := of_nat (length p + 1)\<rparr>)"
  have pmax: "length p + 1 \<le> 2048" using assms(7) by (simp add: PATH_MAX_def)
  have pay: "sint (of_nat (length p + 1) :: int32) = int (length p + 1)" using pmax by (intro sint_of_small) simp
  define cm where "cm = (if entries = [] then (new_cm ?h)\<lparr>cm_offset := flags\<rparr>
      else (new_cm ?h)\<lparr>cm_payload := of_nat (length joined + 1), cm_size := of_nat (length joined), cm_offset := flags\<rparr>)"
  let ?final = "(cm, if entries = [] then None else Some (joined @ [0]))"
  have "handle_query mm sv granted ?h pkg pn' w1 = Some ([], ?final, sv_destroy sv pn' w2)" for pkg
    using handle_dirall [OF _ _ assms(10-14) [unfolded joined_def], of ?h granted pkg] assms(7) sm pay unfolding cm_def joined_def by (auto simp: new_cm_def)
  then have "exchanged sg mm sv granted mine bytes w reply w' \<longleftrightarrow> w' = sv_destroy sv pn' w2 \<and> (\<exists>xs. served [] (last_answer ?final) xs \<and> reply = sent_bytes xs)" for reply w'
    using exchanged_query [OF out _ _ _ _ _ _ assms(9), of sg mm granted "[]" ?final "sv_destroy sv pn' w2"] assms(6,8) sm pmax
    by (simp add: pn'_def msg_defs asks_for_def)
  moreover have cm: "cm_ret cm = 0" "cm_version cm = 0" "cm_offset cm = flags" by (simp_all add: cm_def new_cm_def)
  moreover have "last_answer ?final = ?final" using cm(1) by (simp add: last_answer_def EIO_def)
  ultimately have ex: "exchanged sg mm sv granted mine bytes w reply w' \<longleftrightarrow> w' = sv_destroy sv pn' w2 \<and> (\<exists>xs. served [] ?final xs \<and> reply = sent_bytes xs)" for reply w'
    by simp
  have "\<exists>port'. ServerDIRALL env cl True dr rn server flags0 s port = Some (sint (word_of_int refused :: int32), flags0 OR flags, dr_finish dr s', port', [])"
    if x: "served [] ?final xs" and b: "server bytes = sent_bytes xs" for xs server
  proof -
    note sent = served_messages [OF x]
    have over: "ys = []" if "messages ys = []" "xs \<noteq> [] \<and> ys \<noteq> [] \<longrightarrow> last ys = last xs" for ys using no_messages that sent(2,3) by force
    have "From_ServerAlloc True (sent_bytes xs @ []) = (if entries = [] then None else Some (joined @ [0, 0]), cm, [])"
    proof (cases "entries = []")
      case True
      then have "messages xs = [(cm, None)]" "cm_payload cm = 0" using sent(1) by (simp_all add: cm_def new_cm_def)
      from message_empty [OF this(1) cm(2) this(2), of True "[]"] over show ?thesis using True by fastforce
    next
      case False
      then have "messages xs = [(cm, Some (joined @ [0]))]" "sint (cm_payload cm) = int (length joined + 1)"
        using sent(1) sint_of_small [of "length joined + 1"] assms(15) by (simp_all add: cm_def)
      from message_data [OF this(1) cm(2) this(2), of "[]"] over show ?thesis using False assms(15) cm(1) by fastforce
    qed
    moreover have "takeWhile (\<lambda>b. b \<noteq> 0) (joined @ [0, 0]) = joined"
    proof -
      have "0 \<notin> set joined" unfolding joined_def using assms(13) by (intro join_plain) auto
      then show ?thesis by (subst takeWhile_append2) auto
    qed
    moreover have "split_commas [] joined = map fst entries" if "entries \<noteq> []"
      unfolding joined_def by (rule split_join(1)) (use assms(13) that in auto)
    ultimately show ?thesis using assms(16,17) cm(1,3) b by (auto simp: ServerDIRALL_def BAD_def Let_def simp flip: sm_def sp_def bytes_def)
  qed
  then show ?thesis by (rule answered_lift [OF ex])
qed

section \<open>Examples\<close>

text \<open>A server with one file, whose contents are its state, and a directory of two entries.\<close>

definition sample_name :: "byte list \<Rightarrow> served_name" where
  "sample_name p = \<lparr>nm_path = p, nm_sn = replicate 8 0, nm_IsDir = False, nm_control_flags = 0, nm_uncached = False, nm_unaliased = False, nm_tokens = 0, nm_tokenstring = None\<rparr>"

definition sample_services :: "(unit, byte list) services" where
  "sample_services =
     \<lparr>sv_create = \<lambda>p w. (Some (sample_name p), w), sv_destroy = \<lambda>_ w. w, sv_allocate = \<lambda>_ w. (Some (length w), w),
      sv_read = \<lambda>_ n off w. (int (min n (length w)), w, w), sv_write = \<lambda>pn d off w. (int (length d), pn, d),
      sv_dir = \<lambda>_ w. (0, [([47, 97], False), ([47, 98], True)], 3, w)\<rparr>"

definition sample_settings :: server_settings where "sample_settings = \<lparr>sg_no_dirall = False, sg_no_get = False\<rparr>"
definition sample_memory :: memory where "sample_memory = \<lparr>mm_add = \<lambda>_. (True, True), mm_slash = \<lambda>_. True, mm_dup = True\<rparr>"

definition sample_client :: client_env where
  "sample_client = \<lparr>connect = (\<lambda>n. Some (int n + 3)), found_closed = False, writev1 = (\<lambda>b. int (length b)), writev2 = (\<lambda>b. int (length b))\<rparr>"

definition sample_port :: client_port where "sample_port = \<lparr>pown_fd = FILE_DESCRIPTOR_BAD, open_fds = [], connects = 0\<rparr>"

definition sample_bytes :: "int32 \<Rightarrow> nat \<Rightarrow> byte list option \<Rightarrow> byte list" where
  "sample_bytes t n data = request_bytes plain_program (request_msg plain_program plain_name t n 0) (request_package plain_name data (if data = None then 0 else n))"

text \<open>A receiver that collects what it gets.\<close>

definition collector :: "byte list list dir_receiver" where
  "collector = \<lparr>dr_init = \<lambda>s. s, dr_element = \<lambda>e s. Some (0, s @ [e]), dr_finish = \<lambda>s. s\<rparr>"

lemma sample_asks: "asks_for plain_program plain_name [47, 97]" and sample_not_alias: "\<not> local_alias plain_name"
  by (simp_all add: asks_for_def local_alias_def plain_program_def plain_name_def)

lemma sample_connected: "\<exists>scs port1. To_Server sample_client plain_program sm (request_package plain_name data n) sample_port = (gbGOOD, scs, port1)"
  using written_ok [of False "request_package plain_name data n" "replicate 16 7" "\<lambda>b. int (length b)" sm]
  by (simp add: To_Server_def test_connection_def choose_connection_def ClientConnect_def sample_client_def sample_port_def plain_program_def Let_def split_beta)

theorem remote_read_witness:
  "\<exists>reply port'. exchanged sample_settings sample_memory sample_services False (replicate 16 7) (sample_bytes msg_read 20 None) [104, 105] reply [104, 105]
    \<and> ServerRead sample_client plain_program (True, zero_cache) plain_name (\<lambda>_. reply) (plain_query 20) sample_port =
        Some (2, (plain_query 20)\<lparr>owq_buffer := [104, 105] @ replicate 18 0\<rparr>, port')"
proof -
  let ?sm = "request_msg plain_program plain_name msg_read 20 0"
  obtain scs port1 where c: "To_Server sample_client plain_program ?sm (request_package plain_name None 0) sample_port = (gbGOOD, scs, port1)" using sample_connected by blast
  have q: "owq_size (plain_query 20) = 20" "owq_offset (plain_query 20) = 0" "owq_buffer (plain_query 20) = replicate 20 0" by (simp_all add: plain_query_def)
  have sv: "sv_create sample_services [47, 97] [104, 105] = (Some (sample_name [47, 97]), [104, 105])" "sv_allocate sample_services pn [104, 105] = (Some 2, [104, 105])"
      "sv_read sample_services pn 2 off [104, 105] = (2, [104, 105], [104, 105])" "sv_destroy sample_services pn v = v" for pn off v
    by (simp_all add: sample_services_def)
  have r: "(\<exists>reply w'. exchanged sample_settings sample_memory sample_services False (replicate 16 7) (sample_bytes msg_read 20 None) [104, 105] reply w')
    \<and> (\<forall>server w'. exchanged sample_settings sample_memory sample_services False (replicate 16 7) (sample_bytes msg_read 20 None) [104, 105] (server (sample_bytes msg_read 20 None)) w' \<longrightarrow>
         w' = [104, 105] \<and> (\<exists>port'. ServerRead sample_client plain_program (True, zero_cache) plain_name server (plain_query 20) sample_port =
           Some (2, (plain_query 20)\<lparr>owq_buffer := [104, 105] @ replicate 18 0\<rparr>, port')))"
    using remote_read [OF sample_asks sample_not_alias, where owq = "plain_query 20" and granted = False, unfolded q, OF _ _ _ _ sv(1) sv(2) _ _ _ _ c,
        where ret = 2 and buffer = "[104, 105]" and ?w3.0 = "[104, 105]" and sg = sample_settings and mm = sample_memory and mine = "replicate 16 7" and mc = "(True, zero_cache)"]
    by (simp add: sv sample_bytes_def PATH_MAX_def)
  then obtain reply w' where "exchanged sample_settings sample_memory sample_services False (replicate 16 7) (sample_bytes msg_read 20 None) [104, 105] reply w'" by blast
  moreover from this have "w' = [104, 105] \<and> (\<exists>port'. ServerRead sample_client plain_program (True, zero_cache) plain_name (\<lambda>_. reply) (plain_query 20) sample_port =
           Some (2, (plain_query 20)\<lparr>owq_buffer := [104, 105] @ replicate 18 0\<rparr>, port'))" using spec [OF conjunct2 [OF r], of "\<lambda>_. reply"] by blast
  ultimately show ?thesis by blast
qed

theorem remote_write_witness:
  "\<exists>reply flags' port'. exchanged sample_settings sample_memory sample_services False (replicate 16 7) (sample_bytes msg_write 1 (Some [0])) [104, 105] reply [0]
    \<and> ServerWrite sample_client plain_program plain_name (\<lambda>_. reply) 0 (plain_query 1) sample_port = (0, flags', port')"
proof -
  let ?sm = "request_msg plain_program plain_name msg_write 1 0"
  obtain scs port1 where c: "To_Server sample_client plain_program ?sm (request_package plain_name (Some [0]) 1) sample_port = (gbGOOD, scs, port1)" using sample_connected by blast
  have q: "owq_size (plain_query 1) = 1" "owq_offset (plain_query 1) = 0" "owq_buffer (plain_query 1) = [0]" by (simp_all add: plain_query_def)
  have sv: "sv_create sample_services [47, 97] [104, 105] = (Some (sample_name [47, 97]), [104, 105])"
      "sv_write sample_services pn [0] off [104, 105] = (1, pn, [0])" "sv_destroy sample_services pn v = v" for pn off v
    by (simp_all add: sample_services_def)
  have r: "(\<exists>reply w'. exchanged sample_settings sample_memory sample_services False (replicate 16 7) (sample_bytes msg_write 1 (Some [0])) [104, 105] reply w')
    \<and> (\<forall>server w'. exchanged sample_settings sample_memory sample_services False (replicate 16 7) (sample_bytes msg_write 1 (Some [0])) [104, 105] (server (sample_bytes msg_write 1 (Some [0]))) w' \<longrightarrow>
         w' = [0] \<and> (\<exists>flags' port'. ServerWrite sample_client plain_program plain_name server 0 (plain_query 1) sample_port = (0, flags', port')))"
    using remote_write [OF sample_asks, where owq = "plain_query 1" and granted = False, unfolded q, OF _ _ sv(1) _ _ c,
        where ret = 1 and ?w2.0 = "[0]" and sg = sample_settings and mm = sample_memory and mine = "replicate 16 7" and flags = 0]
    by (simp add: sv sample_bytes_def) blast
  then obtain reply w' where "exchanged sample_settings sample_memory sample_services False (replicate 16 7) (sample_bytes msg_write 1 (Some [0])) [104, 105] reply w'" by blast
  moreover from this have "w' = [0] \<and> (\<exists>flags' port'. ServerWrite sample_client plain_program plain_name (\<lambda>_. reply) 0 (plain_query 1) sample_port = (0, flags', port'))"
    using spec [OF conjunct2 [OF r], of "\<lambda>_. reply"] by blast
  ultimately show ?thesis by blast
qed

theorem remote_listing_witness:
  "\<exists>reply w' port'. exchanged sample_settings sample_memory sample_services False (replicate 16 7) (sample_bytes msg_dir 0 None) [] reply w'
    \<and> ServerDIR sample_client plain_program (\<lambda>_. True) collector plain_name (\<lambda>_. reply) 0 [] sample_port = Some (0, 3, [[47, 97], [47, 98]], port', [])"
proof -
  obtain scs port1 where c: "To_Server sample_client plain_program (request_msg plain_program plain_name msg_dir 0 0) (request_package plain_name None 0) sample_port = (gbGOOD, scs, port1)"
    using sample_connected by blast
  have r: "(\<exists>reply w'. exchanged sample_settings sample_memory sample_services False (replicate 16 7) (sample_bytes msg_dir 0 None) [] reply w')
    \<and> (\<forall>server w'. exchanged sample_settings sample_memory sample_services False (replicate 16 7) (sample_bytes msg_dir 0 None) [] (server (sample_bytes msg_dir 0 None)) w' \<longrightarrow> w' = []
       \<and> (\<exists>flags' port' rest. ServerDIR sample_client plain_program (\<lambda>_. True) collector plain_name server 0 [] sample_port = Some (0, flags', [[47, 97], [47, 98]], port', rest)
            \<and> rest = [] \<and> flags' = 3))"
    using remote_listing [OF sample_asks _ _ _ _ _ _ c, where sv = sample_services and w = "[]" and pn = "sample_name [47, 97]" and ?w1.0 = "[]" and granted = False and ret = 0
        and entries = "[([47, 97], False), ([47, 98], True)]" and flags = 3 and ?w2.0 = "[]" and dr = collector and s = "[]" and refused = 0 and s' = "[[47, 97], [47, 98]]"
        and sg = sample_settings and mm = sample_memory and mine = "replicate 16 7" and ?flags0.0 = 0]
    by (simp add: sample_services_def sample_bytes_def collector_def PATH_MAX_def EIO_def)
  then obtain reply w' where "exchanged sample_settings sample_memory sample_services False (replicate 16 7) (sample_bytes msg_dir 0 None) [] reply w'" by blast
  moreover from this have "\<exists>port'. ServerDIR sample_client plain_program (\<lambda>_. True) collector plain_name (\<lambda>_. reply) 0 [] sample_port = Some (0, 3, [[47, 97], [47, 98]], port', [])"
    using spec [OF conjunct2 [OF r], of "\<lambda>_. reply"] by blast
  ultimately show ?thesis by blast
qed

theorem remote_listing_at_once_witness:
  "\<exists>reply w' port'. exchanged sample_settings sample_memory sample_services False (replicate 16 7) (sample_bytes msg_dirall 0 None) [] reply w'
    \<and> ServerDIRALL sample_client plain_program True collector plain_name (\<lambda>_. reply) 0 [] sample_port = Some (0, 3, [[47, 97], [47, 98]], port', [])"
proof -
  obtain scs port1 where c: "To_Server sample_client plain_program (request_msg plain_program plain_name msg_dirall 0 0) (request_package plain_name None 0) sample_port = (gbGOOD, scs, port1)"
    using sample_connected by blast
  have five: "\<not> (1024 :: nat) dvd Suc (Suc (Suc (Suc (Suc 0))))" by (auto dest!: dvd_imp_le)
  have r: "(\<exists>reply w'. exchanged sample_settings sample_memory sample_services False (replicate 16 7) (sample_bytes msg_dirall 0 None) [] reply w')
    \<and> (\<forall>server w'. exchanged sample_settings sample_memory sample_services False (replicate 16 7) (sample_bytes msg_dirall 0 None) [] (server (sample_bytes msg_dirall 0 None)) w' \<longrightarrow> w' = []
       \<and> (\<exists>port'. ServerDIRALL sample_client plain_program True collector plain_name server 0 [] sample_port = Some (0, 3, [[47, 97], [47, 98]], port', [])))"
    using remote_listing_at_once [OF sample_asks _ _ _ _ _ _ _ _ _ c, where sv = sample_services and w = "[]" and pn = "sample_name [47, 97]" and ?w1.0 = "[]" and granted = False
        and entries = "[([47, 97], False), ([47, 98], True)]" and flags = 3 and ?w2.0 = "[]" and dr = collector and s = "[]" and refused = 0 and s' = "[[47, 97], [47, 98]]"
        and sg = sample_settings and mm = sample_memory and mine = "replicate 16 7" and ?flags0.0 = 0]
    by (simp add: sample_services_def sample_settings_def sample_memory_def sample_bytes_def collector_def PATH_MAX_def join_commas_def comma_extend_def five)
  then obtain reply w' where "exchanged sample_settings sample_memory sample_services False (replicate 16 7) (sample_bytes msg_dirall 0 None) [] reply w'" by blast
  moreover from this have "\<exists>port'. ServerDIRALL sample_client plain_program True collector plain_name (\<lambda>_. reply) 0 [] sample_port = Some (0, 3, [[47, 97], [47, 98]], port', [])"
    using spec [OF conjunct2 [OF r], of "\<lambda>_. reply"] by blast
  ultimately show ?thesis by blast
qed

end
