(* ===== verification/Spec2Isabelle.thy ===== *)
theory Spec2Isabelle
  imports OW_Bundle OW_Directory OW_MemoryChips OW_RWLock OW_AccessText OW_ValueTyped OW_ParseSafe OW_Simultaneous OW_Network
begin

text \<open>
  \<^bold>\<open>A verification library for OWFS\<close>, the file system for 1-wire devices.

  \<^bold>\<open>The program.\<close> OWFS shows the sensors, switches and memories on a 1-wire bus as files. The library \<^verbatim>\<open>owlib\<close>
  (\<^verbatim>\<open>src/module/owlib\<close>) has the logic; \<^verbatim>\<open>owserver\<close> offers it over TCP, and \<^verbatim>\<open>owfs\<close>, \<^verbatim>\<open>owhttpd\<close>, \<^verbatim>\<open>owftpd\<close> and the
  language bindings are front ends. From the bottom to the top: an adapter resets the line and exchanges bits and bytes;
  the search enumerates the 64-bit serial numbers of the slaves; a slave is selected, directly or through branches of couplers;
  a device driver runs a list of transactions, single or bundled; memory drivers cut a transfer into pages; the cache
  keeps values, directories, locations and aliases for a while; the directory code lists buses and couplers; locks keep
  the threads of different queries apart; the network protocol carries queries between \<^verbatim>\<open>owserver\<close>s.

  \<^bold>\<open>The theories\<close>, in the order in which they build on one another; the source files are those of \<^verbatim>\<open>src/module/owlib/src/c\<close>
  unless another directory is named. Each definition keeps the name of the C function it translates, with the name of the
  file added where two files use the same one.

  \<^item> \<open>OW_Prelude\<close>: the types of bytes and of error values, bits of bytes, lists and their updates, the arithmetic of C.
  \<^item> \<open>OW_Crc\<close> (\<^verbatim>\<open>ow_crc.c\<close>): the two checksums are the shift registers of their polynomials, accept exactly the messages with
    their own checksum, and detect the corruption of any single byte.
  \<^item> \<open>OW_Bits\<close> (\<^verbatim>\<open>ow_getbit.c\<close>, \<^verbatim>\<open>ow_getbit_U.c\<close>, \<^verbatim>\<open>ow_util.c\<close>, \<^verbatim>\<open>ow_integer.h\<close>): bits, hexadecimal digits and integers in byte buffers, with round trips.
  \<^item> \<open>OW_Blobs\<close> (\<^verbatim>\<open>ow_memblob.c\<close>, \<^verbatim>\<open>ow_charblob.c\<close>, \<^verbatim>\<open>ow_dirblob.c\<close>): buffers that grow; each is a list to its users, and a
    failed allocation spoils it for good.
  \<^item> \<open>OW_Bus\<close> (\<^verbatim>\<open>ow_bus_data.c\<close>, \<^verbatim>\<open>ow_bus_bitdata.c\<close>, \<^verbatim>\<open>ow_reset.c\<close>, \<^verbatim>\<open>ow_powerbyte.c\<close>, \<^verbatim>\<open>ow_powerbit.c\<close>, \<^verbatim>\<open>ow_programpulse.c\<close>, \<^verbatim>\<open>ow_buslock.c\<close>): exchange of bytes and bits with an adapter. The adapter's own
    routines are not code of this model: they are parameters, a record of functions on an abstract state of the bus.
  \<^item> \<open>OW_Verify\<close> (\<^verbatim>\<open>ow_verify.c\<close>): whether a slave is present, on a line where a slave falls silent after a bit that is not its own.
  \<^item> \<open>OW_Transaction\<close>, \<open>OW_Bundle\<close> (\<^verbatim>\<open>ow_transaction.c\<close>): the interpreter of transaction lists over an explicit memory, and the packing of
    several transactions into one exchange. Bundles, flushed and split as they are, give the same result as single execution on an adapter that does not fail.
  \<^item> \<open>OW_Select\<close> (\<^verbatim>\<open>ow_select.c\<close>): selection of a device or a branch; the couplers on the path are switched in order.
  \<^item> \<open>OW_Search\<close>, \<open>OW_Wire\<close> (\<^verbatim>\<open>ow_search.c\<close>): the search for slaves. A machine of slaves that all drive the line interprets it;
    the search finds every slave exactly once and then ends.
  \<^item> \<open>OW_Cache\<close>, \<open>OW_Store\<close> (\<^verbatim>\<open>ow_cache.c\<close>): two generations of trees. The cache refines a store whose entries have an
    end of life: what it returns was stored, under that key, and has not expired.
  \<^item> \<open>OW_Locks\<close> (\<^verbatim>\<open>ow_devicelock.c\<close>) and \<open>OW_RWLock\<close> (\<^verbatim>\<open>ow_rwlock.c\<close>): step relations over any number of threads; mutual exclusion, exact
    counts, no use of freed memory, progress.
  \<^item> \<open>OW_SerialNumber\<close> (\<^verbatim>\<open>ow_parse_sn.c\<close>, \<^verbatim>\<open>ow_name.c\<close>): serial numbers in paths, printed and parsed.
  \<^item> \<open>OW_Directory\<close> (\<^verbatim>\<open>ow_dir.c\<close>, in part): the listing of a bus from the search or the cache, which keeps the locations of the devices.
  \<^item> \<open>OW_Message\<close> (\<^verbatim>\<open>ow_server_message.c\<close>, \<^verbatim>\<open>src/module/owserver\<close>): the network protocol; requests and responses arrive as
    they were sent and a query never goes round in a ring of servers.
  \<^item> \<open>OW_Persist\<close> (\<^verbatim>\<open>owserver\<close>'s handler, the client's connections, \<^verbatim>\<open>ServerRead\<close>, \<^verbatim>\<open>ow_fs_alias.c\<close>): a request as the client makes and sends it; the count of persistent
    connections is exact in every interleaving.
  \<^item> \<open>OW_Memory\<close>, \<open>OW_MemoryChips\<close> (\<^verbatim>\<open>ow_memory.c\<close>, \<^verbatim>\<open>ow_iterate.c\<close>, \<^verbatim>\<open>ow_offset.c\<close>, \<^verbatim>\<open>ow_eprom_write.c\<close>, \<^verbatim>\<open>ow_1993.c\<close>, \<^verbatim>\<open>ow_2433.c\<close>, \<^verbatim>\<open>ow_2423.c\<close>): memories cut into pages; on a
    machine of the chip what is written is what is read, and nothing else changes.
  \<^item> \<open>OW_Property\<close>, \<open>OW_Coherence\<close>, \<open>OW_Bitfield\<close> (\<^verbatim>\<open>ow_read.c\<close> and \<^verbatim>\<open>ow_write.c\<close> below \<^verbatim>\<open>FS_r_local\<close> and \<^verbatim>\<open>FS_w_local\<close>, \<^verbatim>\<open>ow_parseobject.c\<close>, \<^verbatim>\<open>ow_byte.c\<close>, \<^verbatim>\<open>ow_filelength.c\<close>): properties
    and arrays of them, read and written through the cache. Any sequence of reads and writes behaves as operations on
    the list of the elements of the device. Drivers are parameters.
  \<^item> \<open>OW_Values\<close>, \<open>OW_ValueText\<close>, \<open>OW_ValueStrings\<close> (\<^verbatim>\<open>ow_parseinput.c\<close>, \<^verbatim>\<open>ow_parseoutput.c\<close>): the text of values; what is printed is read back, and what is
    printed fits, but for arrays of strings. The library's conversions of floating point numbers and dates are parameters.
  \<^item> \<open>OW_ValueTyped\<close>: whatever text is to be parsed, the query keeps its shape and its memory is not exceeded.
  \<^item> \<open>OW_Presence\<close> (\<^verbatim>\<open>ow_presence.c\<close>, \<^verbatim>\<open>ow_reconnect.c\<close>, \<^verbatim>\<open>find_connection_in\<close> and \<^verbatim>\<open>SetKnownBus\<close> of \<^verbatim>\<open>ow_connect.c\<close>): on which bus a device is, from the name, from the cache or by
    asking every connection in a thread of its own. When the connections answer truthfully and all threads can be created, looking again finds a device exactly when it is on a bus; for adapters that answer from their directory there is the model and no theorem. The fuel bounds the devices that a search
    through a directory may see.
  \<^item> \<open>OW_Access\<close>, \<open>OW_AccessText\<close> (\<^verbatim>\<open>ow_read.c\<close> and \<^verbatim>\<open>ow_write.c\<close> above \<^verbatim>\<open>FS_r_local\<close> and \<^verbatim>\<open>FS_w_local\<close>): reading and writing by name, with
    the choice of bus and directory, locks, tries and text. What is written as text is read back, through all the layers.
    Remote servers are parameters.
  \<^item> \<open>OW_ParseName\<close>, \<open>OW_ParsePath\<close>, \<open>OW_ParseSafe\<close> (\<^verbatim>\<open>ow_parsename.c\<close>, \<^verbatim>\<open>ow_regex.c\<close>, \<^verbatim>\<open>ow_remote_alias.c\<close>, \<^verbatim>\<open>FS_devicefind\<close> of \<^verbatim>\<open>ow_tree.c\<close>): the path of a file is parsed part by
    part to modes, bus, couplers, device, property and extension. A path written from such parts is parsed to them, and whatever the path, the name is well-formed or an error is given and nothing held; parsing comes back also when buses are searched, unless a connection answers from its directory. The loop ends because every
    step takes a part off the path.
  \<^item> \<open>OW_SlaveLine\<close>: a line with one slave that answers bytes with bytes, the bus on which drivers are verified; the laws of an adapter that has to deliver power.
  \<^item> \<open>OW_Thermometer\<close>, \<open>OW_ThermometerChip\<close>, \<open>OW_Temperature\<close> (\<^verbatim>\<open>ow_1820.c\<close>, \<^verbatim>\<open>GetVisibilityCache\<close> and \<^verbatim>\<open>SetVisibilityCache\<close> of \<^verbatim>\<open>ow_visibility.c\<close>): the driver of the thermometers and
    a chip after its data sheet. The temperature read is the one of the chip at the resolution asked for, and settings survive. Floating point numbers are rational numbers
    here, and no time passes on the clock of the cache during a call.
  \<^item> \<open>OW_Simultaneous\<close> (\<^verbatim>\<open>ow_simultaneous.c\<close>): conversion in all devices of a directory; a mark in the cache tells the devices how long to wait.
  \<^item> \<open>OW_Server\<close> (\<^verbatim>\<open>src/module/owserver/src/c\<close>: \<^verbatim>\<open>data.c\<close>, \<^verbatim>\<open>read.c\<close>, \<^verbatim>\<open>write.c\<close>, \<^verbatim>\<open>dir.c\<close>, \<^verbatim>\<open>dirall.c\<close>, \<^verbatim>\<open>dirallslash.c\<close>, \<^verbatim>\<open>error.c\<close>, \<^verbatim>\<open>loop.c\<close>), \<open>OW_Remote\<close> (\<^verbatim>\<open>ow_server_message.c\<close>), \<open>OW_Network\<close>:
    requests as the server handles them, with the thread that sends delay messages, and as a client makes them. Reading, writing and listing over the network
    are reading, writing and listing at the server, whatever the interleaving of the threads, and a run in which no thread waits for ever ends. An alias is read from the client itself.

  \<^bold>\<open>How the code is rendered.\<close> Bytes are 8-bit words and the registers of checksums and lengths of messages keep their width.
  A function that may fail returns its C code together with the new state. \<^const>\<open>None\<close> as the whole result
  means that the program does something undefined: it leaves the bounds of a buffer, follows a freed or null pointer.
  Theorems that a result exists therefore also say that memory is used correctly. The state of a bus is a type variable with
  the adapter's operations as a parameter; interfaces are locales whose laws are what the documentation of the
  operation promises, and each is interpreted on the definitions of the model.

  \<^bold>\<open>Bounds and fuel.\<close> Loops over data are structural or have a measure. The loops over answers of the bus (the
  search of a directory) take fuel, and the listing theorems show that one unit per slave and one more is enough. The cache's
  sizes and times are integers, as no arithmetic on them comes near the limits of the machine; the counts of protocol
  messages are 32-bit words and the checks on them are those of the code.

  \<^bold>\<open>Not modelled.\<close> The adapters' own protocols and the USB, I2C, serial and TCP input and output below them (they are parameters
  of the bus); the drivers of the sensors and switches other than the memories and thermometers named above, which are lists of
  transactions over the layers that are modelled; the front ends \<^verbatim>\<open>owfs\<close>, \<^verbatim>\<open>owhttpd\<close>, \<^verbatim>\<open>owftpd\<close>, \<^verbatim>\<open>owshell\<close>, \<^verbatim>\<open>owmon\<close>, \<^verbatim>\<open>owtap\<close>; the
  language bindings; options and start-up; zeroconf; and third-party code kept in the repository.
\<close>

end
